(* ===== verification/Prelude.thy ===== *)
theory Prelude
imports
  Main
  "HOL-Library.AList"
  "HOL-Library.Multiset"
  "HOL-Library.Signed_Division"
  "HOL-Library.Word"
begin

text \<open>
  Shared vocabulary of the development: the error values that stand for glog's
  \<open>CHECK\<close> and \<open>LOG(FATAL)\<close> and for undefined behaviour of the C++ abstract
  machine, the result type of fallible operations, the two map
  representations (association lists for \<open>unordered_map\<close>, key-sorted
  association lists for \<open>std::map\<close>) behind one locale, and the generic list
  facts that the components share.
\<close>

section \<open>Collections of facts\<close>

named_theorems res_simps \<open>rewriting of computations in the result type\<close>
named_theorems map_laws \<open>lookup laws of the map representations\<close>

section \<open>Errors and results\<close>

text \<open>
  A failed \<open>CHECK\<close> aborts the process, so a failing operation returns no
  state.  \<open>OutOfRange\<close> is the exception of \<open>at()\<close>, \<open>Undefined\<close> marks
  the reads and writes whose behaviour the language leaves undefined,
  \<open>OutOfFuel\<close> a loop that has not ended within the given number of rounds.
\<close>

datatype error =
    CheckFailed string
  | Fatal string
  | OutOfRange
  | Undefined string
  | OutOfFuel
  | Blocked string

type_synonym 'a result = "error + 'a"

definition rbind :: "'a result \<Rightarrow> ('a \<Rightarrow> 'b result) \<Rightarrow> 'b result" where
  "rbind r f = (case r of Inl e \<Rightarrow> Inl e | Inr x \<Rightarrow> f x)"

definition check :: "bool \<Rightarrow> string \<Rightarrow> unit result" where
  "check b msg = (if b then Inr () else Inl (CheckFailed msg))"

definition of_option :: "error \<Rightarrow> 'a option \<Rightarrow> 'a result" where
  "of_option e x = (case x of None \<Rightarrow> Inl e | Some v \<Rightarrow> Inr v)"

fun foldM :: "('s \<Rightarrow> 'a \<Rightarrow> 's result) \<Rightarrow> 's \<Rightarrow> 'a list \<Rightarrow> 's result" where
  "foldM f s [] = Inr s"
| "foldM f s (x # xs) = rbind (f s x) (\<lambda>s'. foldM f s' xs)"

fun mapM :: "('a \<Rightarrow> 'b result) \<Rightarrow> 'a list \<Rightarrow> 'b list result" where
  "mapM f [] = Inr []"
| "mapM f (x # xs) = rbind (f x) (\<lambda>y. rbind (mapM f xs) (\<lambda>ys. Inr (y # ys)))"

lemma rbind_simps [simp, res_simps]:
  "rbind (Inl e) f = Inl e"
  "rbind (Inr x) f = f x"
  by (simp_all add: rbind_def)

lemma rbind_eq_Inr [res_simps]:
  "rbind r f = Inr y \<longleftrightarrow> (\<exists>x. r = Inr x \<and> f x = Inr y)"
  by (cases r) auto

lemma rbind_assoc:
  "rbind (rbind r f) g = rbind r (\<lambda>x. rbind (f x) g)"
  by (cases r) auto

lemma rbind_Inr: "rbind r Inr = r"
  by (cases r) simp_all

lemma check_eq_Inr [res_simps]: "check b m = Inr u \<longleftrightarrow> b"
  by (simp add: check_def)

lemma check_simps [simp]:
  "check True m = Inr ()"
  "check False m = Inl (CheckFailed m)"
  by (simp_all add: check_def)

lemma of_option_eq_Inr [res_simps]: "of_option e x = Inr v \<longleftrightarrow> x = Some v"
  by (cases x) (simp_all add: of_option_def)

lemma of_option_simps [simp]:
  "of_option e None = Inl e"
  "of_option e (Some v) = Inr v"
  by (simp_all add: of_option_def)

lemma foldM_append:
  "foldM f s (xs @ ys) = rbind (foldM f s xs) (\<lambda>s'. foldM f s' ys)"
  by (induction xs arbitrary: s) (simp_all add: rbind_assoc)

lemma foldM_invariant:
  assumes "foldM f s xs = Inr s'" and "P s"
    and "\<And>s x s'. P s \<Longrightarrow> x \<in> set xs \<Longrightarrow> f s x = Inr s' \<Longrightarrow> P s'"
  shows "P s'"
  using assms
proof (induction xs arbitrary: s)
  case (Cons x xs)
  obtain s1 where s1: "f s x = Inr s1" "foldM f s1 xs = Inr s'"
    using Cons.prems(1) by (auto simp: rbind_eq_Inr)
  have "P s1" by (rule Cons.prems(3) [OF Cons.prems(2) _ s1(1)]) simp
  then show ?case
    by (rule Cons.IH [OF s1(2)]) (rule Cons.prems(3), simp_all)
qed simp

lemma foldM_total:
  assumes "P s" and "\<And>s x. P s \<Longrightarrow> x \<in> set xs \<Longrightarrow> \<exists>s'. f s x = Inr s' \<and> P s'"
  shows "\<exists>s'. foldM f s xs = Inr s' \<and> P s'"
  using assms
proof (induction xs arbitrary: s)
  case Nil
  then show ?case by simp
next
  case (Cons x xs)
  then obtain s1 where s1: "f s x = Inr s1" "P s1" by (meson list.set_intros(1))
  with Cons.IH [of s1] Cons.prems(2) show ?case by simp
qed

lemma foldM_pure: "foldM (\<lambda>s x. Inr (f s x)) s xs = Inr (foldl f s xs)"
  by (induction xs arbitrary: s) simp_all

lemma mapM_pure: "(\<And>x. x \<in> set xs \<Longrightarrow> f x = Inr (g x)) \<Longrightarrow> mapM f xs = Inr (map g xs)"
  by (induction xs) simp_all

lemma mapM_length: "mapM f xs = Inr ys \<Longrightarrow> length ys = length xs"
  by (induction xs arbitrary: ys) (auto simp: rbind_eq_Inr)

section \<open>Map representations\<close>

text \<open>
  The interface of a map from keys to values, as the components use the
  standard containers: what a lookup finds after an update or an erasure, and
  that both keep the representation invariant.
\<close>

locale kv_map =
  fixes empty :: 'm
    and lookup :: "'m \<Rightarrow> 'k \<Rightarrow> 'v option"
    and upd :: "'k \<Rightarrow> 'v \<Rightarrow> 'm \<Rightarrow> 'm"
    and del :: "'k \<Rightarrow> 'm \<Rightarrow> 'm"
    and invar :: "'m \<Rightarrow> bool"
  assumes empty_ok: "invar empty" "lookup empty k = None"
    and upd_ok: "invar m \<Longrightarrow> invar (upd k v m)"
    and del_ok: "invar m \<Longrightarrow> invar (del k m)"
    and lookup_upd: "invar m \<Longrightarrow> lookup (upd k v m) k' = (if k' = k then Some v else lookup m k')"
    and lookup_del: "invar m \<Longrightarrow> lookup (del k m) k' = (if k' = k then None else lookup m k')"
begin

definition upd_all :: "('k \<times> 'v) list \<Rightarrow> 'm \<Rightarrow> 'm" where
  "upd_all ps m = fold (\<lambda>(k, v). upd k v) ps m"

lemma upd_all_invar: "invar m \<Longrightarrow> invar (upd_all ps m)"
  unfolding upd_all_def
  by (induction ps arbitrary: m) (auto intro: upd_ok)

lemma upd_all_lookup:
  "invar m \<Longrightarrow> lookup (upd_all ps m) = lookup m ++ map_of (rev ps)"
proof (induction ps arbitrary: m)
  case Nil
  then show ?case by (simp add: upd_all_def)
next
  case (Cons p ps)
  obtain k v where p: "p = (k, v)" by force
  have "upd_all (p # ps) m = upd_all ps (upd k v m)" by (simp add: upd_all_def p)
  with Cons show ?case
    by (auto simp: upd_ok lookup_upd p map_add_def fun_eq_iff split: option.split)
qed

lemma upd_upd_lookup:
  "invar m \<Longrightarrow> lookup (upd k v (upd k w m)) = lookup (upd k v m)"
  by (auto simp: lookup_upd upd_ok)

lemma del_upd_lookup:
  "invar m \<Longrightarrow> lookup (del k (upd k v m)) = lookup (del k m)"
  by (auto simp: lookup_upd lookup_del upd_ok)

end

text \<open>\<open>unordered_map\<close>: an association list with distinct keys; iteration visits the list.\<close>

type_synonym ('k, 'v) amap = "('k \<times> 'v) list"

abbreviation keys :: "('k, 'v) amap \<Rightarrow> 'k list" where
  "keys m \<equiv> map fst m"

definition amap_ok :: "('k, 'v) amap \<Rightarrow> bool" where
  "amap_ok m \<longleftrightarrow> distinct (keys m)"

interpretation amap: kv_map "[] :: ('k, 'v) amap" map_of AList.update AList.delete amap_ok
  by unfold_locales
     (simp_all add: amap_ok_def distinct_update distinct_delete update_conv' delete_conv')

lemmas amap_simps [map_laws] = amap.lookup_upd amap.lookup_del amap.upd_ok amap.del_ok amap.empty_ok

lemma update_conv_fun: "map_of (AList.update k v m) k' = (if k' = k then Some v else map_of m k')"
  by (simp add: update_conv')

lemma keys_update: "set (keys (AList.update k v m)) = insert k (set (keys m))"
  by (simp add: dom_update)

text \<open>\<open>std::map\<close>: an association list kept in ascending key order.\<close>

fun osorted :: "('k::linorder \<times> 'v) list \<Rightarrow> bool" where
  "osorted [] = True"
| "osorted ((k, v) # m) = ((\<forall>k' \<in> set (keys m). k < k') \<and> osorted m)"

fun oupd :: "'k::linorder \<Rightarrow> 'v \<Rightarrow> ('k \<times> 'v) list \<Rightarrow> ('k \<times> 'v) list" where
  "oupd k v [] = [(k, v)]"
| "oupd k v ((k', v') # m) =
     (if k < k' then (k, v) # (k', v') # m
      else if k = k' then (k, v) # m
      else (k', v') # oupd k v m)"

fun odel :: "'k::linorder \<Rightarrow> ('k \<times> 'v) list \<Rightarrow> ('k \<times> 'v) list" where
  "odel k [] = []"
| "odel k ((k', v') # m) = (if k = k' then m else (k', v') # odel k m)"

lemma keys_oupd [simp]: "set (keys (oupd k v m)) = insert k (set (keys m))"
  by (induction k v m rule: oupd.induct) auto

lemma keys_odel: "set (keys (odel k m)) \<subseteq> set (keys m)"
  by (induction k m rule: odel.induct) auto

lemma osorted_oupd: "osorted m \<Longrightarrow> osorted (oupd k v m)"
  by (induction k v m rule: oupd.induct) (auto simp del: set_map)

lemma osorted_odel: "osorted m \<Longrightarrow> osorted (odel k m)"
proof (induction k m rule: odel.induct)
  case (2 k k' v' m)
  then show ?case using keys_odel [of k m] by (auto simp del: set_map)
qed simp

lemma map_of_oupd: "map_of (oupd k v m) = (map_of m)(k \<mapsto> v)"
  by (induction k v m rule: oupd.induct) (auto simp: fun_eq_iff)

lemma osorted_absent: "\<forall>k' \<in> set (keys m). k < (k' :: 'k::linorder) \<Longrightarrow> map_of m k = None"
  by (cases "map_of m k") (auto dest!: map_of_SomeD)

lemma map_of_odel: "osorted m \<Longrightarrow> map_of (odel k m) = (map_of m)(k := None)"
proof (induction k m rule: odel.induct)
  case (2 k k' v' m)
  then show ?case using osorted_absent [of m k'] by (auto simp: fun_eq_iff)
qed simp

lemma oupd_oupd [simp]: "oupd k a (oupd k b m) = oupd k a m"
  by (induction k b m rule: oupd.induct) auto

lemma oupd_same: "osorted m \<Longrightarrow> map_of m k = Some v \<Longrightarrow> oupd k v m = m"
proof (induction k v m rule: oupd.induct)
  case (2 k v k' v' m)
  have "map_of m k = None" if "k < k'" using that "2.prems"(1) by (intro osorted_absent) (auto intro: less_trans)
  with 2 show ?case by (auto split: if_splits)
qed simp

lemma osorted_wrt: "osorted m \<longleftrightarrow> sorted_wrt (<) (keys m)"
  by (induction m rule: osorted.induct) auto

lemma osorted_distinct: "osorted m \<Longrightarrow> distinct (keys m)"
  by (induction m rule: osorted.induct) auto

interpretation omap: kv_map "[] :: ('k::linorder \<times> 'v) list" map_of oupd odel osorted
  by unfold_locales (simp_all add: osorted_oupd osorted_odel map_of_oupd map_of_odel)

lemmas omap_simps [map_laws] = omap.lookup_upd omap.lookup_del omap.upd_ok omap.del_ok omap.empty_ok

lemma osorted_append:
  "osorted (xs @ ys) \<longleftrightarrow>
     osorted xs \<and> osorted ys \<and> (\<forall>a \<in> set (keys xs). \<forall>b \<in> set (keys ys). a < b)"
  by (induction xs rule: osorted.induct) auto

lemma length_oupd:
  "osorted m \<Longrightarrow> length (oupd k v m) = (if k \<in> set (keys m) then length m else Suc (length m))"
  by (induction k v m rule: oupd.induct) auto

text \<open>
  A sorted association list is determined by the map it represents, so that
  two computations on \<open>std::map\<close>s with the same lookups end in the same object.
\<close>

lemma osorted_map_of_eq:
  assumes "osorted m" "osorted m'" "map_of m = map_of m'"
  shows "m = m'"
  using assms
proof (induction m arbitrary: m' rule: osorted.induct)
  case 1
  then show ?case by (metis map_of_eq_empty_iff map_of.simps(1))
next
  case (2 k v m)
  obtain k' v' n where m': "m' = (k', v') # n"
    using "2.prems"(3) by (cases m') (auto dest: fun_cong [of _ _ k])
  have "set (keys ((k, v) # m)) = set (keys m')"
    using arg_cong [OF "2.prems"(3), of dom] dom_map_of_conv_image_fst [of "(k, v) # m"]
      dom_map_of_conv_image_fst [of m'] by (simp only: list.set_map)
  then have in1: "k' \<in> set (keys ((k, v) # m))" and in2: "k \<in> set (keys m')"
    using m' by auto
  have "k' = k \<or> k < k'" "k = k' \<or> k' < k" using in1 in2 "2.prems"(1,2) m' by auto
  then have kk: "k' = k" by auto
  have vv: "v' = v" using "2.prems"(3) m' kk by (auto dest: fun_cong [of _ _ k])
  have "map_of m x = map_of n x" for x
    using fun_cong [OF "2.prems"(3), of x] osorted_absent [of m k] osorted_absent [of n k]
      "2.prems"(1,2) m' kk by (cases "x = k") auto
  then show ?case using "2.IH" [of n] "2.prems"(1,2) m' kk vv by auto
qed

text \<open>Sums over the values of a sorted map, as multisets.\<close>

lemma sum_oupd_mset:
  fixes f :: "'k::linorder \<times> 'a \<Rightarrow> 'b multiset"
  assumes "osorted ms"
  shows "(\<Sum>p \<leftarrow> oupd k v ms. f p) + (case map_of ms k of None \<Rightarrow> {#} | Some w \<Rightarrow> f (k, w)) =
    (\<Sum>p \<leftarrow> ms. f p) + f (k, v)"
  using assms
proof (induction k v ms rule: oupd.induct)
  case (2 k v k' v' ms)
  have "map_of ms k = None" if "k < k'"
    using that "2.prems" by (intro osorted_absent) (auto intro: less_trans)
  with 2 show ?case by (auto simp: ac_simps split: option.splits)
qed simp

lemma sum_odel_mset:
  fixes f :: "'k::linorder \<times> 'a \<Rightarrow> 'b multiset"
  shows "map_of ms k = Some w \<Longrightarrow> (\<Sum>p \<leftarrow> odel k ms. f p) + f (k, w) = (\<Sum>p \<leftarrow> ms. f p)"
  by (induction k ms rule: odel.induct) (auto simp: ac_simps split: if_splits)

section \<open>Lists\<close>

lemma fold_add_eq_sum_list:
  "fold (\<lambda>x a. a + f x) xs (a :: 'a::comm_monoid_add) = a + sum_list (map f xs)"
  by (induction xs arbitrary: a) (simp_all add: ac_simps)

lemma list_update_append_mid: "(xs @ y # ys)[length xs := z] = xs @ z # ys"
  by simp

lemma length_filter_neq_1:
  "x \<in> set xs \<Longrightarrow> length (filter ((=) x) xs) \<ge> 1"
  by (induction xs) auto

end
