(* ===== verification/Bytes.thy ===== *)
theory Bytes
imports Prelude
begin

text \<open>
  Raw memory as the code reads and writes it through casts and \<open>memcpy\<close>:
  little-endian images of \<open>int32_t\<close>, \<open>uint32_t\<close> and \<open>size_t\<close> (8 bytes),
  bounds-checked reads and writes of a memory block (an access outside the
  block is undefined behaviour and is an error value), and \<open>RecordBuff\<close>
  (petuum_ps_common/util/record_buff.hpp), the buffer the server packs pushed
  rows into.
\<close>

type_synonym bytes = "8 word list"

section \<open>Images of machine integers\<close>

fun le_enc :: "nat \<Rightarrow> int \<Rightarrow> bytes" where
  "le_enc 0 x = []"
| "le_enc (Suc n) x = word_of_int x # le_enc n (x div 256)"

fun le_dec :: "bytes \<Rightarrow> int" where
  "le_dec [] = 0"
| "le_dec (b # bs) = uint b + 256 * le_dec bs"

lemma length_le_enc [simp]: "length (le_enc n x) = n"
  by (induction n arbitrary: x) simp_all

lemma le_dec_enc: "le_dec (le_enc n x) = x mod 256 ^ n"
proof (induction n arbitrary: x)
  case (Suc n)
  have "x mod (256 * 256 ^ n) = x mod 256 + 256 * (x div 256 mod 256 ^ n)"
    by (simp add: zmod_zmult2_eq)
  with Suc show ?case by (simp add: uint_word_of_int)
qed simp

definition is_i32 :: "int \<Rightarrow> bool" where
  "is_i32 x \<longleftrightarrow> - (2 ^ 31) \<le> x \<and> x < 2 ^ 31"

definition i32_enc :: "int \<Rightarrow> bytes" where
  "i32_enc x = le_enc 4 x"

definition i32_dec :: "bytes \<Rightarrow> int" where
  "i32_dec bs = (let u = le_dec bs in if u < 2 ^ 31 then u else u - 2 ^ 32)"

definition u32_enc :: "32 word \<Rightarrow> bytes" where
  "u32_enc w = le_enc 4 (uint w)"

definition u32_dec :: "bytes \<Rightarrow> 32 word" where
  "u32_dec bs = word_of_int (le_dec bs)"

definition is_size :: "nat \<Rightarrow> bool" where
  "is_size n \<longleftrightarrow> n < 2 ^ 64"

definition size_enc :: "nat \<Rightarrow> bytes" where
  "size_enc n = le_enc 8 (int n)"

definition size_dec :: "bytes \<Rightarrow> nat" where
  "size_dec bs = nat (le_dec bs)"

section \<open>Memory\<close>

definition mem_read :: "bytes \<Rightarrow> nat \<Rightarrow> nat \<Rightarrow> bytes result" where
  "mem_read m off n =
     (if off + n \<le> length m then Inr (take n (drop off m)) else Inl (Undefined ''read''))"

definition mem_write :: "bytes \<Rightarrow> nat \<Rightarrow> bytes \<Rightarrow> bytes result" where
  "mem_write m off bs =
     (if off + length bs \<le> length m
      then Inr (take off m @ bs @ drop (off + length bs) m) else Inl (Undefined ''write''))"

definition rd_i32 :: "bytes \<Rightarrow> nat \<Rightarrow> int result" where
  "rd_i32 m off = rbind (mem_read m off 4) (\<lambda>bs. Inr (i32_dec bs))"

definition rd_u32 :: "bytes \<Rightarrow> nat \<Rightarrow> 32 word result" where
  "rd_u32 m off = rbind (mem_read m off 4) (\<lambda>bs. Inr (u32_dec bs))"

definition rd_size :: "bytes \<Rightarrow> nat \<Rightarrow> nat result" where
  "rd_size m off = rbind (mem_read m off 8) (\<lambda>bs. Inr (size_dec bs))"

text \<open>\<open>at_mem m off bs\<close>: the bytes \<open>bs\<close> stand in \<open>m\<close> from offset \<open>off\<close> on.\<close>

definition at_mem :: "bytes \<Rightarrow> nat \<Rightarrow> bytes \<Rightarrow> bool" where
  "at_mem m off bs \<longleftrightarrow> mem_read m off (length bs) = Inr bs"

lemma mem_read_at: "at_mem m off bs \<Longrightarrow> n = length bs \<Longrightarrow> mem_read m off n = Inr bs"
  by (simp add: at_mem_def)

lemma at_mem_iff: "at_mem m off bs \<longleftrightarrow> off + length bs \<le> length m \<and> take (length bs) (drop off m) = bs"
  by (auto simp: at_mem_def mem_read_def)

lemma at_mem_append:
  "at_mem m off (xs @ ys) \<longleftrightarrow> at_mem m off xs \<and> at_mem m (off + length xs) ys"
proof -
  have "take (length xs + length ys) (drop off m) = xs @ ys \<longleftrightarrow>
    take (length xs) (drop off m) = xs \<and> take (length ys) (drop (off + length xs) m) = ys"
    if "off + length xs + length ys \<le> length m"
    unfolding take_add using that
    by (auto simp: append_eq_append_conv ac_simps)
  then show ?thesis by (auto simp: at_mem_iff add.assoc)
qed

lemma at_mem_Nil: "at_mem m off [] \<longleftrightarrow> off \<le> length m"
  by (simp add: at_mem_iff)

lemma at_mem_whole: "at_mem m 0 m"
  by (simp add: at_mem_iff)

lemma at_mem_embed: "at_mem (xs @ bs @ ys) (length xs) bs"
  by (simp add: at_mem_iff)

lemma mem_write_ok: "off + length bs \<le> length m \<Longrightarrow> \<exists>m'. mem_write m off bs = Inr m'"
  by (simp add: mem_write_def)

lemma mem_write_length: "mem_write m off bs = Inr m' \<Longrightarrow> length m' = length m"
  by (auto simp: mem_write_def split: if_splits)

lemma mem_write_at: "mem_write m off bs = Inr m' \<Longrightarrow> at_mem m' off bs"
  by (auto simp: mem_write_def at_mem_iff split: if_splits)

lemma mem_write_nth:
  "mem_write m off bs = Inr m' \<Longrightarrow> i < length m \<Longrightarrow>
     m' ! i = (if off \<le> i \<and> i < off + length bs then bs ! (i - off) else m ! i)"
  by (auto simp: mem_write_def nth_append min_def split: if_splits)

lemma at_mem_nth: "at_mem m off bs \<longleftrightarrow>
  off + length bs \<le> length m \<and> (\<forall>i < length bs. m ! (off + i) = bs ! i)"
  by (auto simp: at_mem_iff list_eq_iff_nth_eq)

text \<open>A write leaves every disjoint range as it was.\<close>

lemma mem_write_frame:
  assumes "mem_write m off bs = Inr m'" "at_mem m o' cs"
    and "o' + length cs \<le> off \<or> off + length bs \<le> o'"
  shows "at_mem m' o' cs"
  using assms(2,3) mem_write_length [OF assms(1)]
  by (auto simp: at_mem_nth mem_write_nth [OF assms(1)])

text \<open>\<open>same_out m m' R\<close>: the two blocks have the same size and differ only inside \<open>R\<close>.\<close>

definition same_out :: "bytes \<Rightarrow> bytes \<Rightarrow> nat set \<Rightarrow> bool" where
  "same_out m m' R \<longleftrightarrow> length m' = length m \<and> (\<forall>i < length m. i \<notin> R \<longrightarrow> m' ! i = m ! i)"

lemma same_out_refl [simp]: "same_out m m R"
  by (simp add: same_out_def)

lemma same_out_length: "same_out m m' R \<Longrightarrow> length m' = length m"
  by (simp add: same_out_def)

lemma same_out_trans: "same_out m m1 R \<Longrightarrow> same_out m1 m2 S \<Longrightarrow> same_out m m2 (R \<union> S)"
  by (simp add: same_out_def)

lemma same_out_mono: "same_out m m' R \<Longrightarrow> R \<subseteq> S \<Longrightarrow> same_out m m' S"
  by (auto simp: same_out_def)

lemma mem_write_same_out: "mem_write m off bs = Inr m' \<Longrightarrow> same_out m m' {off..<off + length bs}"
  using mem_write_nth mem_write_length by (auto simp: same_out_def)

lemma same_out_at:
  assumes "same_out m m' R" "at_mem m off bs" "{off..<off + length bs} \<inter> R = {}"
  shows "at_mem m' off bs"
proof -
  have "off + i \<notin> R" if "i < length bs" for i
  proof -
    have "off + i \<in> {off..<off + length bs}" using that by simp
    with assms(3) show ?thesis by blast
  qed
  then show ?thesis using assms(1,2) by (auto simp: same_out_def at_mem_nth)
qed

lemma mem_write_full:
  assumes "off + length bs \<le> length m"
  obtains m' where "mem_write m off bs = Inr m'" "at_mem m' off bs"
    "same_out m m' {off..<off + length bs}" "length m' = length m"
  using mem_write_ok [OF assms] mem_write_at mem_write_same_out mem_write_length by blast

section \<open>The contract of a plain-old-data image\<close>

text \<open>
  A codec with images of a fixed size; a value in range is read back from the
  place it was written to, and an array of values from consecutive images.
\<close>

locale pod_codec =
  fixes enc :: "'a \<Rightarrow> bytes" and dec :: "bytes \<Rightarrow> 'a" and sz :: nat and ok :: "'a \<Rightarrow> bool"
  assumes enc_length: "length (enc x) = sz"
    and dec_enc: "ok x \<Longrightarrow> dec (enc x) = x"
begin

definition rd :: "bytes \<Rightarrow> nat \<Rightarrow> 'a result" where
  "rd m off = rbind (mem_read m off sz) (\<lambda>bs. Inr (dec bs))"

lemma rd_at: "ok x \<Longrightarrow> at_mem m off (enc x) \<Longrightarrow> rd m off = Inr x"
  by (simp add: rd_def at_mem_def enc_length dec_enc)

lemma rd_write: "ok x \<Longrightarrow> mem_write m off (enc x) = Inr m' \<Longrightarrow> rd m' off = Inr x"
  by (rule rd_at [OF _ mem_write_at])

primrec rd_array :: "nat \<Rightarrow> bytes \<Rightarrow> nat \<Rightarrow> 'a list result" where
  "rd_array 0 m off = Inr []"
| "rd_array (Suc n) m off =
     rbind (rd m off) (\<lambda>x. rbind (rd_array n m (off + sz)) (\<lambda>xs. Inr (x # xs)))"

lemma rd_array_at:
  "\<forall>x \<in> set xs. ok x \<Longrightarrow> at_mem m off (concat (map enc xs)) \<Longrightarrow> rd_array (length xs) m off = Inr xs"
  by (induction xs arbitrary: off) (auto simp: at_mem_append rd_at enc_length)

lemma concat_enc_length: "length (concat (map enc xs)) = sz * length xs"
  by (induction xs) (simp_all add: enc_length)

end

interpretation i32: pod_codec i32_enc i32_dec 4 is_i32
proof
  fix x :: int
  show "length (i32_enc x) = 4" by (simp add: i32_enc_def)
  assume "is_i32 x"
  moreover have "x mod 4294967296 = (if x < 0 then x + 4294967296 else x)"
    if "- 2147483648 \<le> x" "x < 2147483648"
  proof (cases "x < 0")
    case True
    have "x mod 4294967296 = (x + 4294967296) mod 4294967296" by simp
    also have "\<dots> = x + 4294967296" using that True by (intro mod_pos_pos_trivial) auto
    finally show ?thesis using True by simp
  qed (use that in simp)
  ultimately show "i32_dec (i32_enc x) = x"
    by (auto simp: i32_enc_def i32_dec_def le_dec_enc is_i32_def Let_def)
qed

interpretation u32: pod_codec u32_enc u32_dec 4 "\<lambda>_. True"
proof
  fix x :: "32 word"
  show "length (u32_enc x) = 4" by (simp add: u32_enc_def)
  have "uint x mod 4294967296 = uint x"
    using uint_lt2p [of x] by (intro mod_pos_pos_trivial) auto
  then show "u32_dec (u32_enc x) = x"
    by (simp add: u32_enc_def u32_dec_def le_dec_enc)
qed

interpretation usz: pod_codec size_enc size_dec 8 is_size
  by unfold_locales (auto simp: size_enc_def size_dec_def le_dec_enc is_size_def nat_mod_as_int)

lemma rd_i32_rd [simp]: "i32.rd = rd_i32" and rd_u32_rd [simp]: "u32.rd = rd_u32"
  and rd_size_rd [simp]: "usz.rd = rd_size"
  by (simp_all add: fun_eq_iff i32.rd_def rd_i32_def u32.rd_def rd_u32_def usz.rd_def rd_size_def)

lemma rd_i32_at: "is_i32 x \<Longrightarrow> at_mem m off (i32_enc x) \<Longrightarrow> rd_i32 m off = Inr x"
  using i32.rd_at by simp

lemma rd_size_at: "is_size x \<Longrightarrow> at_mem m off (size_enc x) \<Longrightarrow> rd_size m off = Inr x"
  using usz.rd_at by simp

lemma rd_u32_at: "at_mem m off (u32_enc x) \<Longrightarrow> rd_u32 m off = Inr x"
  using u32.rd_at by simp

lemmas enc_lengths [simp] = i32.enc_length u32.enc_length usz.enc_length

section \<open>RecordBuff\<close>

record record_buff =
  rb_mem :: bytes
  rb_mem_size :: nat
  rb_offset :: nat

definition RecordBuff :: "bytes \<Rightarrow> nat \<Rightarrow> record_buff" where
  "RecordBuff m sz = \<lparr>rb_mem = m, rb_mem_size = sz, rb_offset = 0\<rparr>"

definition ResetMem :: "bytes \<Rightarrow> nat \<Rightarrow> record_buff \<Rightarrow> bytes \<times> record_buff" where
  "ResetMem m sz b = (rb_mem b, b\<lparr>rb_mem := m, rb_mem_size := sz, rb_offset := 0\<rparr>)"

definition ResetOffset :: "record_buff \<Rightarrow> record_buff" where
  "ResetOffset b = b\<lparr>rb_offset := 0\<rparr>"

definition rb_put :: "bytes \<Rightarrow> record_buff \<Rightarrow> record_buff result" where
  "rb_put bs b = rbind (mem_write (rb_mem b) (rb_offset b) bs)
     (\<lambda>m. Inr (b\<lparr>rb_mem := m, rb_offset := rb_offset b + length bs\<rparr>))"

definition RecordBuff_Append :: "int \<Rightarrow> bytes \<Rightarrow> record_buff \<Rightarrow> (bool \<times> record_buff) result" where
  "RecordBuff_Append record_id rec b =
     (if rb_offset b + 4 + length rec + 8 > rb_mem_size b then Inr (False, b)
      else rbind (rb_put (i32_enc record_id) b) (\<lambda>b.
           rbind (rb_put (size_enc (length rec)) b) (\<lambda>b.
           rbind (rb_put rec b) (\<lambda>b. Inr (True, b)))))"

definition GetMemUsedSize :: "record_buff \<Rightarrow> nat" where
  "GetMemUsedSize b = rb_offset b"

text \<open>The pointer that is returned is the offset of the reserved word; None is the null pointer.\<close>

definition GetMemPtrInt32 :: "record_buff \<Rightarrow> nat option \<times> record_buff" where
  "GetMemPtrInt32 b =
     (if rb_offset b + 4 > rb_mem_size b then (None, b)
      else (Some (rb_offset b), b\<lparr>rb_offset := rb_offset b + 4\<rparr>))"

definition store_i32 :: "nat \<Rightarrow> int \<Rightarrow> record_buff \<Rightarrow> record_buff result" where
  "store_i32 p x b = rbind (mem_write (rb_mem b) p (i32_enc x)) (\<lambda>m. Inr (b\<lparr>rb_mem := m\<rparr>))"

definition rb_ok :: "record_buff \<Rightarrow> bool" where
  "rb_ok b \<longleftrightarrow> rb_mem_size b \<le> length (rb_mem b) \<and> rb_offset b \<le> rb_mem_size b"

text \<open>\<open>rb_used b\<close>: what the buffer holds so far.\<close>

definition rb_used :: "record_buff \<Rightarrow> bytes" where
  "rb_used b = take (rb_offset b) (rb_mem b)"

lemma rb_put_spec:
  assumes "rb_ok b" "rb_offset b + length bs \<le> rb_mem_size b"
  shows "\<exists>b'. rb_put bs b = Inr b' \<and> rb_ok b' \<and> rb_used b' = rb_used b @ bs \<and>
    rb_mem_size b' = rb_mem_size b \<and> rb_offset b' = rb_offset b + length bs \<and>
    length (rb_mem b') = length (rb_mem b)"
  using assms by (auto simp: rb_put_def mem_write_def rb_ok_def rb_used_def)

definition rec_image :: "int \<Rightarrow> bytes \<Rightarrow> bytes" where
  "rec_image record_id rec = i32_enc record_id @ size_enc (length rec) @ rec"

lemma Append_spec:
  assumes "rb_ok b"
  shows "\<exists>b'. RecordBuff_Append rid rec b =
      Inr (rb_offset b + 12 + length rec \<le> rb_mem_size b, b') \<and> rb_ok b' \<and>
    rb_mem_size b' = rb_mem_size b \<and> length (rb_mem b') = length (rb_mem b) \<and>
    (if rb_offset b + 12 + length rec \<le> rb_mem_size b then rb_used b' = rb_used b @ rec_image rid rec \<and>
       rb_offset b' = rb_offset b + 12 + length rec else b' = b)"
proof (cases "rb_offset b + 4 + length rec + 8 > rb_mem_size b")
  case True
  then show ?thesis using assms by (simp add: RecordBuff_Append_def)
next
  case False
  then have le: "rb_offset b + length (i32_enc rid) \<le> rb_mem_size b" by simp
  from rb_put_spec [OF assms le] obtain b1 where b1: "rb_put (i32_enc rid) b = Inr b1" "rb_ok b1"
    "rb_used b1 = rb_used b @ i32_enc rid" "rb_mem_size b1 = rb_mem_size b"
    "rb_offset b1 = rb_offset b + 4" "length (rb_mem b1) = length (rb_mem b)" by auto
  then have "rb_offset b1 + length (size_enc (length rec)) \<le> rb_mem_size b1" using False by simp
  from rb_put_spec [OF b1(2) this] b1 obtain b2 where b2:
    "rb_put (size_enc (length rec)) b1 = Inr b2" "rb_ok b2"
    "rb_used b2 = rb_used b @ i32_enc rid @ size_enc (length rec)"
    "rb_mem_size b2 = rb_mem_size b" "rb_offset b2 = rb_offset b + 12"
    "length (rb_mem b2) = length (rb_mem b)" by auto
  then have "rb_offset b2 + length rec \<le> rb_mem_size b2" using False by simp
  from rb_put_spec [OF b2(2) this] b1(1) b2 False show ?thesis
    by (auto simp: RecordBuff_Append_def rec_image_def)
qed

end
