(* ===== verification/Context.thy ===== *)
theory Context
imports Bytes
begin

text \<open>
  The process-wide configuration (petuum_ps/thread/context.hpp, the structs of
  petuum_ps_common/include/configs.hpp and the host file reader of
  petuum_ps_common/util/utils.cpp): thread-id ranges, the partition of rows
  over servers and background threads, and the per-thread clock.
\<close>

section \<open>Configuration data\<close>

datatype ConsistencyModel = SSP | SSPPush | SSPValue | LocalOOC

record HostInfo =
  hi_id :: int
  hi_ip :: string
  hi_port :: string

record TableInfo =
  table_staleness :: int
  row_type :: int
  row_capacity :: int

record ClientTableConfig =
  table_info :: TableInfo
  process_cache_capacity :: int
  thread_cache_capacity :: int
  oplog_capacity :: int

record TableGroupConfig =
  cfg_stats_path :: string
  cfg_num_total_server_threads :: int
  cfg_num_tables :: int
  cfg_num_total_clients :: int
  cfg_num_total_bg_threads :: int
  cfg_num_local_server_threads :: int
  cfg_num_local_app_threads :: int
  cfg_num_local_bg_threads :: int
  cfg_server_ids :: "int list"
  cfg_host_map :: "(int \<times> HostInfo) list"
  cfg_client_id :: int
  cfg_aggressive_clock :: bool
  cfg_consistency_model :: ConsistencyModel
  cfg_aggressive_cpu :: int
  cfg_server_ring_size :: int
  cfg_snapshot_clock :: int
  cfg_resume_clock :: int
  cfg_snapshot_dir :: string
  cfg_resume_dir :: string
  cfg_ooc_path_prefix :: string

text \<open>
  The constructor of \<open>TableGroupConfig\<close> sets four fields; the others keep what the
  fresh object \<open>raw\<close> holds.
\<close>

definition TableGroupConfig_init :: "TableGroupConfig \<Rightarrow> TableGroupConfig" where
  "TableGroupConfig_init raw =
     raw\<lparr>cfg_aggressive_clock := False, cfg_aggressive_cpu := 0,
         cfg_snapshot_clock := - 1, cfg_resume_clock := - 1\<rparr>"

section \<open>GlobalContext\<close>

record global_context =
  num_servers :: int
  num_local_server_threads :: int
  num_app_threads :: int
  num_table_threads :: int
  num_bg_threads :: int
  num_total_bg_threads :: int
  num_tables :: int
  num_clients :: int
  server_ids :: "int list"
  host_map :: "(int \<times> HostInfo) list"
  client_id :: int
  server_ring_size :: int
  consistency_model :: ConsistencyModel
  local_id_min :: int
  aggressive_cpu :: bool
  snapshot_clock :: int
  snapshot_dir :: string
  resume_clock :: int
  resume_dir :: string

definition kMaxNumThreadsPerClient :: int where "kMaxNumThreadsPerClient = 1000"
definition kBgThreadIDStartOffset :: int where "kBgThreadIDStartOffset = 100"
definition kInitThreadIDOffset :: int where "kInitThreadIDOffset = 200"

definition get_thread_id_min :: "int \<Rightarrow> int" where
  "get_thread_id_min c = c * kMaxNumThreadsPerClient"

definition get_thread_id_max :: "int \<Rightarrow> int" where
  "get_thread_id_max c = (c + 1) * kMaxNumThreadsPerClient - 1"

definition get_name_node_id :: int where "get_name_node_id = 0"
definition get_name_node_client_id :: int where "get_name_node_client_id = 0"

definition am_i_name_node_client :: "global_context \<Rightarrow> bool" where
  "am_i_name_node_client g \<longleftrightarrow> client_id g = get_name_node_client_id"

definition get_head_bg_id :: "int \<Rightarrow> int" where
  "get_head_bg_id c = get_thread_id_min c + kBgThreadIDStartOffset"

definition thread_id_to_client_id :: "int \<Rightarrow> int" where
  "thread_id_to_client_id t = t sdiv kMaxNumThreadsPerClient"

definition get_serialized_table_separator :: int where "get_serialized_table_separator = - 1"
definition get_serialized_table_end :: int where "get_serialized_table_end = - 2"

definition GlobalContext_Init ::
  "int \<Rightarrow> int \<Rightarrow> int \<Rightarrow> int \<Rightarrow> int \<Rightarrow> int \<Rightarrow> int \<Rightarrow> int \<Rightarrow> int list \<Rightarrow> (int \<times> HostInfo) list \<Rightarrow> int \<Rightarrow>
   int \<Rightarrow> ConsistencyModel \<Rightarrow> bool \<Rightarrow> int \<Rightarrow> string \<Rightarrow> int \<Rightarrow> string \<Rightarrow> global_context" where
  "GlobalContext_Init n_servers n_local_server n_app n_table n_bg n_total_bg n_tables n_clients
     ids hosts client ring model aggr snap_clock snap_dir res_clock res_dir =
     \<lparr>num_servers = n_servers, num_local_server_threads = n_local_server, num_app_threads = n_app,
      num_table_threads = n_table, num_bg_threads = n_bg, num_total_bg_threads = n_total_bg,
      num_tables = n_tables, num_clients = n_clients, server_ids = ids, host_map = hosts,
      client_id = client, server_ring_size = ring, consistency_model = model,
      local_id_min = get_thread_id_min client, aggressive_cpu = aggr,
      snapshot_clock = snap_clock, snapshot_dir = snap_dir,
      resume_clock = res_clock, resume_dir = res_dir\<rparr>"

definition get_host_info :: "global_context \<Rightarrow> int \<Rightarrow> HostInfo result" where
  "get_host_info g i = of_option (CheckFailed ''id not found'') (map_of (host_map g) i)"

text \<open>\<open>%\<close> truncates towards zero; a zero divisor is undefined behaviour.\<close>

definition c_mod :: "int \<Rightarrow> int \<Rightarrow> int result" where
  "c_mod a b = (if b = 0 then Inl (Undefined ''modulo by zero'') else Inr (a smod b))"

definition GetBgPartitionNum :: "global_context \<Rightarrow> int \<Rightarrow> int result" where
  "GetBgPartitionNum g row = c_mod row (num_bg_threads g)"

text \<open>\<open>operator[]\<close> of \<open>std::vector\<close>: an index outside the vector is undefined.\<close>

definition vec_at :: "'a list \<Rightarrow> int \<Rightarrow> 'a result" where
  "vec_at xs i =
     (if 0 \<le> i \<and> nat i < length xs then Inr (xs ! nat i) else Inl (Undefined ''vector index''))"

definition GetRowPartitionServerID :: "global_context \<Rightarrow> int \<Rightarrow> int \<Rightarrow> int result" where
  "GetRowPartitionServerID g table row =
     rbind (c_mod row (num_servers g)) (\<lambda>i. vec_at (server_ids g) i)"

definition GetLockPoolSize :: "global_context \<Rightarrow> int" where
  "GetLockPoolSize g = (num_app_threads g + num_bg_threads g) * 20"

definition GetLockPoolSize_cap :: "nat \<Rightarrow> int" where
  "GetLockPoolSize_cap cap = (if cap \<le> 2 * 20 then int cap else int (cap div 20))"

section \<open>ThreadContext\<close>

record thread_info =
  entity_id :: int
  ti_clock :: int

definition RegisterThread :: "int \<Rightarrow> thread_info" where
  "RegisterThread t = \<lparr>entity_id = t, ti_clock = 0\<rparr>"

definition ThreadContext_Clock :: "thread_info \<Rightarrow> thread_info" where
  "ThreadContext_Clock t = t\<lparr>ti_clock := ti_clock t + 1\<rparr>"

section \<open>Host file\<close>

definition npos :: nat where "npos = 2 ^ 64 - 1"

definition find_first_of :: "char list \<Rightarrow> string \<Rightarrow> nat \<Rightarrow> nat" where
  "find_first_of cs s from =
     (case find (\<lambda>i. from \<le> i \<and> s ! i \<in> set cs) [0..<length s] of Some i \<Rightarrow> i | None \<Rightarrow> npos)"

definition substr :: "string \<Rightarrow> nat \<Rightarrow> nat \<Rightarrow> string result" where
  "substr s p n = (if p > length s then Inl OutOfRange else Inr (take n (drop p s)))"

definition size_add :: "nat \<Rightarrow> nat \<Rightarrow> nat" where "size_add a b = (a + b) mod 2 ^ 64"
definition size_sub :: "nat \<Rightarrow> nat \<Rightarrow> nat" where
  "size_sub a b = nat ((int a - int b) mod 2 ^ 64)"

text \<open>\<open>atoi\<close>: leading white space, an optional sign, then digits up to the first other character.\<close>

definition is_digit :: "char \<Rightarrow> bool" where
  "is_digit c \<longleftrightarrow> of_char c \<ge> (48::nat) \<and> of_char c \<le> (57::nat)"

definition is_space :: "char \<Rightarrow> bool" where
  "is_space c \<longleftrightarrow> of_char c = (32::nat) \<or> (of_char c \<ge> (9::nat) \<and> of_char c \<le> (13::nat))"

fun digits_val :: "int \<Rightarrow> string \<Rightarrow> int" where
  "digits_val a [] = a"
| "digits_val a (c # cs) = (if is_digit c then digits_val (10 * a + (of_char c - 48)) cs else a)"

definition atoi :: "string \<Rightarrow> int" where
  "atoi s = (case dropWhile is_space s of
       [] \<Rightarrow> 0
     | c # cs \<Rightarrow> if c = CHR ''-'' then - digits_val 0 cs
                 else if c = CHR ''+'' then digits_val 0 cs else digits_val 0 (c # cs))"

definition tab_space :: "char list" where "tab_space = [CHR 0x09, CHR '' '']"

definition parse_host_line :: "string \<Rightarrow> HostInfo result" where
  "parse_host_line line =
     (let pos = find_first_of tab_space line 0 in
      rbind (substr line 0 pos) (\<lambda>idstr.
      let pos_ip = find_first_of tab_space line (size_add pos 1) in
      rbind (substr line (size_add pos 1) (size_sub (size_sub pos_ip pos) 1)) (\<lambda>ip.
      rbind (substr line (size_add pos_ip 1) npos) (\<lambda>port.
      Inr \<lparr>hi_id = atoi idstr, hi_ip = ip, hi_port = port\<rparr>))))"

text \<open>\<open>std::map::insert\<close> keeps an entry that is already there.\<close>

definition map_insert :: "'k::linorder \<Rightarrow> 'v \<Rightarrow> ('k \<times> 'v) list \<Rightarrow> ('k \<times> 'v) list" where
  "map_insert k v m = (if map_of m k = None then oupd k v m else m)"

definition GetHostInfos :: "string list \<Rightarrow> (int \<times> HostInfo) list \<Rightarrow> (int \<times> HostInfo) list result" where
  "GetHostInfos lines hosts =
     foldM (\<lambda>m line. rbind (parse_host_line line) (\<lambda>h. Inr (map_insert (hi_id h) h m))) hosts lines"

text \<open>The copy loop writes slot \<open>i\<close> of a vector resized to one less than the host map.\<close>

fun copy_ids :: "int list \<Rightarrow> nat \<Rightarrow> int list \<Rightarrow> int list result" where
  "copy_ids ids i [] = Inr ids"
| "copy_ids ids i (k # ks) =
     (if k = 0 then copy_ids ids i ks
      else if i < length ids then copy_ids (ids[i := k]) (Suc i) ks
      else Inl (Undefined ''vector index''))"

definition GetServerIDsFromHostMap :: "(int \<times> HostInfo) list \<Rightarrow> int list result" where
  "GetServerIDsFromHostMap hosts =
     (if hosts = [] then Inl (Fatal ''length_error'')
      else copy_ids (replicate (length hosts - 1) 0) 0 (keys hosts))"

section \<open>Lemmas\<close>

lemma sdiv_nonneg: "0 \<le> a \<Longrightarrow> 0 < b \<Longrightarrow> (a::int) sdiv b = a div b"
  by (simp add: signed_divide_int_def sgn_if)

lemma smod_nonneg: "0 \<le> a \<Longrightarrow> 0 < b \<Longrightarrow> (a::int) smod b = a mod b"
  unfolding signed_modulo_int_def by (cases "a = 0") simp_all

definition ctx_ok :: "global_context \<Rightarrow> bool" where
  "ctx_ok g \<longleftrightarrow> num_servers g = int (length (server_ids g)) \<and> server_ids g \<noteq> [] \<and>
     distinct (server_ids g) \<and> 0 < num_bg_threads g \<and> osorted (host_map g)"

lemma GetRowPartitionServerID_eq:
  assumes "ctx_ok g" "0 \<le> row"
  shows "GetRowPartitionServerID g t row =
    Inr (server_ids g ! nat (row mod int (length (server_ids g))))"
  using assms
  by (auto simp: GetRowPartitionServerID_def c_mod_def ctx_ok_def vec_at_def smod_nonneg
      nat_less_iff)

lemma copy_ids_spec:
  "length (filter (\<lambda>k. k \<noteq> 0) ks) + i \<le> length ids \<Longrightarrow>
   copy_ids ids i ks = Inr (take i ids @ filter (\<lambda>k. k \<noteq> 0) ks @
     drop (i + length (filter (\<lambda>k. k \<noteq> 0) ks)) ids)"
proof (induction ids i ks rule: copy_ids.induct)
  case (2 ids i k ks)
  show ?case
  proof (cases "k = 0")
    case True
    then show ?thesis using 2 by simp
  next
    case False
    then have "i < length ids" using 2(3) by simp
    then show ?thesis using False 2 by (simp add: take_Suc_conv_app_nth)
  qed
qed simp

lemma find_upt_first:
  assumes "from \<le> n" "n < m" "P n" "\<And>i. from \<le> i \<Longrightarrow> i < n \<Longrightarrow> \<not> P i"
  shows "find (\<lambda>i. from \<le> i \<and> P i) [0..<m] = Some n"
  using assms by (auto simp: find_Some_iff intro!: exI [of _ n])

lemma find_first_of_split:
  assumes "from \<le> length xs" "\<forall>i. from \<le> i \<and> i < length xs \<longrightarrow> xs ! i \<notin> set cs" "c \<in> set cs"
  shows "find_first_of cs (xs @ c # ys) from = length xs"
  unfolding find_first_of_def
  using find_upt_first [of "from" "length xs" "length (xs @ c # ys)" "\<lambda>i. (xs @ c # ys) ! i \<in> set cs"] assms
  by (auto simp: nth_append)

section \<open>Properties\<close>

text \<open>
  The threads of a client are numbered inside its own range of ids: a thread
  id taken at an offset below 1000 from the client's first id maps back to the
  client, different clients never share an id, and the background threads start
  above the server threads.
\<close>

theorem thread_ids_partition:
  assumes "0 \<le> c" "0 \<le> k" "k < kMaxNumThreadsPerClient"
  shows "thread_id_to_client_id (get_thread_id_min c + k) = c \<and>
    get_thread_id_min c + k \<le> get_thread_id_max c \<and>
    get_thread_id_max c < get_thread_id_min (c + 1) \<and>
    thread_id_to_client_id (get_head_bg_id c) = c"
proof -
  have "thread_id_to_client_id (get_thread_id_min c + j) = c" if "0 \<le> j" "j < 1000" for j
    using that assms(1)
    by (simp add: thread_id_to_client_id_def get_thread_id_min_def kMaxNumThreadsPerClient_def
        sdiv_nonneg)
  from this [of k] this [of 100] show ?thesis
    using assms by (simp add: get_thread_id_max_def get_thread_id_min_def get_head_bg_id_def
        kMaxNumThreadsPerClient_def kBgThreadIDStartOffset_def)
qed

theorem thread_ids_partition_witness:
  "thread_id_to_client_id (get_thread_id_min 3 + 117) = 3"
  using thread_ids_partition [of 3 117] by (simp add: kMaxNumThreadsPerClient_def)

text \<open>
  Every row with a non-negative id belongs to exactly one server, one of the
  configured ones, independently of the table; rows congruent modulo the number
  of servers share it and every server owns some row.
\<close>

theorem row_partition:
  assumes "ctx_ok g" "0 \<le> row"
  shows "(\<exists>s. GetRowPartitionServerID g t row = Inr s \<and> s \<in> set (server_ids g)) \<and>
    GetRowPartitionServerID g t row = GetRowPartitionServerID g t' (row + num_servers g) \<and>
    (\<forall>s \<in> set (server_ids g). \<exists>r. GetRowPartitionServerID g t r = Inr s)"
proof -
  let ?n = "length (server_ids g)"
  have n: "0 < int ?n" "num_servers g = int ?n" using assms(1) by (auto simp: ctx_ok_def)
  have "nat (row mod int ?n) < ?n" using n by (simp add: nat_less_iff)
  moreover have "\<exists>r. GetRowPartitionServerID g t r = Inr s" if "s \<in> set (server_ids g)" for s
  proof -
    from that obtain i where "i < ?n" "server_ids g ! i = s" by (auto simp: in_set_conv_nth)
    then show ?thesis using GetRowPartitionServerID_eq [OF assms(1), of "int i" t] by force
  qed
  ultimately show ?thesis
    using assms n by (simp add: GetRowPartitionServerID_eq)
qed

text \<open>A configuration for the concrete instances: two servers, one client.\<close>

definition demo_ctx :: global_context where
  "demo_ctx = GlobalContext_Init 2 2 3 2 1 1 1 1 [1, 2] [] 0 1 SSP False (- 1) [] (- 1) []"

lemma demo_ctx_ok: "ctx_ok demo_ctx"
  by (simp add: demo_ctx_def GlobalContext_Init_def ctx_ok_def)

theorem row_partition_witness:
  "GetRowPartitionServerID demo_ctx 0 5 = GetRowPartitionServerID demo_ctx 1 7"
  using row_partition [OF demo_ctx_ok, of 5 0 1]
  by (simp add: demo_ctx_def GlobalContext_Init_def)

text \<open>
  A host file line \<open>id ip port\<close>, separated by single blanks or tabs, is read
  as exactly those three fields.
\<close>

theorem parse_host_line_fields:
  assumes "set idstr \<inter> set tab_space = {}" "set ip \<inter> set tab_space = {}"
    and "s1 \<in> set tab_space" "s2 \<in> set tab_space"
    and "length (idstr @ s1 # ip @ s2 # port) < npos"
  shows "parse_host_line (idstr @ s1 # ip @ s2 # port) =
    Inr \<lparr>hi_id = atoi idstr, hi_ip = ip, hi_port = port\<rparr>"
proof -
  let ?l = "idstr @ s1 # ip @ s2 # port"
  have p1: "find_first_of tab_space ?l 0 = length idstr"
    using assms(1,3) by (intro find_first_of_split) (auto dest: nth_mem)
  have "find_first_of tab_space ((idstr @ s1 # ip) @ s2 # port) (length idstr + 1) = length (idstr @ s1 # ip)"
  proof (rule find_first_of_split)
    show "\<forall>i. length idstr + 1 \<le> i \<and> i < length (idstr @ s1 # ip) \<longrightarrow> (idstr @ s1 # ip) ! i \<notin> set tab_space"
    proof (intro allI impI)
      fix i assume i: "length idstr + 1 \<le> i \<and> i < length (idstr @ s1 # ip)"
      then have "ip ! (i - Suc (length idstr)) \<in> set ip" by (intro nth_mem) auto
      with i assms(2) show "(idstr @ s1 # ip) ! i \<notin> set tab_space"
        by (auto simp: nth_append nth_Cons')
    qed
  qed (use assms(4) in auto)
  then have p2: "find_first_of tab_space ?l (length idstr + 1) = length idstr + 1 + length ip" by simp
  have a: "size_add (length idstr) 1 = length idstr + 1"
    "size_add (length idstr + 1 + length ip) 1 = length idstr + 1 + length ip + 1"
    using assms(5) by (simp_all add: size_add_def npos_def)
  have s: "size_sub (size_sub (length idstr + 1 + length ip) (length idstr)) 1 = length ip"
    using assms(5) by (simp add: size_sub_def npos_def)
  show ?thesis
    unfolding parse_host_line_def p1 Let_def a(1) p2 a(2) s using assms(5)
    by (simp add: substr_def)
qed

theorem parse_host_line_fields_witness:
  "parse_host_line ''1 h1 90'' = Inr \<lparr>hi_id = 1, hi_ip = ''h1'', hi_port = ''90''\<rparr>"
  using parse_host_line_fields [of "''1''" "''h1''" "CHR '' ''" "CHR '' ''" "''90''"]
  by (simp add: tab_space_def npos_def atoi_def is_space_def is_digit_def of_char_def)

text \<open>
  From a host map that holds the name node (id 0), the server ids are the other
  ids in ascending order; without it the copy loop leaves the vector.
\<close>

theorem server_ids_from_hosts:
  assumes "osorted hosts" "hosts \<noteq> []"
  shows "GetServerIDsFromHostMap hosts =
    (if 0 \<in> set (keys hosts) then Inr (filter (\<lambda>k. k \<noteq> 0) (keys hosts))
     else Inl (Undefined ''vector index''))"
proof -
  let ?ks = "keys hosts" and ?f = "\<lambda>k :: int. k \<noteq> 0"
  have d: "distinct ?ks" using assms(1) by (rule osorted_distinct)
  have over: "copy_ids ids i ks = Inl (Undefined ''vector index'')"
    if "length ids < i + length ks" "0 \<notin> set ks" "i \<le> length ids" for ids :: "int list" and i ks
    using that by (induction ids i ks rule: copy_ids.induct) (auto split: if_splits)
  show ?thesis
  proof (cases "0 \<in> set ?ks")
    case True
    then obtain xs ys where ks: "?ks = xs @ 0 # ys" by (meson split_list)
    have "filter ?f xs = xs" "filter ?f ys = ys"
      using d unfolding ks by (auto intro: filter_True)
    moreover have "length hosts = length xs + Suc (length ys)"
      using arg_cong [OF ks, of length] by simp
    ultimately have l: "length (filter ?f ?ks) = length hosts - 1" unfolding ks by simp
    show ?thesis using True assms(2) copy_ids_spec [of ?ks 0 "replicate (length hosts - 1) 0"] l
      by (simp add: GetServerIDsFromHostMap_def)
  next
    case False
    then show ?thesis using assms(2) over [of "replicate (length hosts - 1) 0" 0 ?ks]
      by (cases hosts) (auto simp: GetServerIDsFromHostMap_def)
  qed
qed

theorem server_ids_from_hosts_witness:
  "GetServerIDsFromHostMap (map (\<lambda>k. (k, \<lparr>hi_id = k, hi_ip = [], hi_port = []\<rparr>)) [0, 1, 1000])
    = Inr [1, 1000]"
  by (subst server_ids_from_hosts) simp_all

end
