(* ===== verification/Rows.thy ===== *)
theory Rows
imports Context
begin

text \<open>
  Row types (petuum_ps_common/include/abstract_row.hpp and
  petuum_ps_common/storage): the virtual functions of \<open>AbstractRow\<close> as a record
  of operations, the concrete classes \<open>DenseRow\<close>, \<open>SparseRow\<close> and
  \<open>MultiplicativeDenseRow\<close>, and the locale \<open>additive_row\<close>: what the parameter
  server relies on when it batches, aggregates, ships and re-applies updates.
  The value type \<open>V\<close> is an abelian group with an image of fixed size; rounding
  of floating-point values is not modelled.  Pointers to contiguous columns
  and updates are given as lists of (column, update) pairs.
\<close>

section \<open>AbstractRow\<close>

record 'v pod =
  p_enc :: "'v \<Rightarrow> bytes"
  p_dec :: "bytes \<Rightarrow> 'v"
  p_size :: nat

definition i32_pod :: "int pod" where
  "i32_pod = \<lparr>p_enc = i32_enc, p_dec = i32_dec, p_size = 4\<rparr>"

record ('r, 'v) row_ops =
  ro_new :: 'r
  ro_Init :: "int \<Rightarrow> 'r \<Rightarrow> 'r result"
  ro_Clone :: "'r \<Rightarrow> 'r result"
  ro_get_update_size :: nat
  ro_SerializedSize :: "'r \<Rightarrow> nat"
  ro_Serialize :: "'r \<Rightarrow> bytes"
  ro_Deserialize :: "bytes \<Rightarrow> 'r \<Rightarrow> (bool \<times> 'r) result"
  ro_ApplyInc :: "int \<Rightarrow> 'v \<Rightarrow> 'r \<Rightarrow> 'r result"
  ro_ApplyBatchInc :: "(int \<times> 'v) list \<Rightarrow> 'r \<Rightarrow> 'r result"
  ro_ApplyIncUnsafe :: "int \<Rightarrow> 'v \<Rightarrow> 'r \<Rightarrow> 'r result"
  ro_ApplyBatchIncUnsafe :: "(int \<times> 'v) list \<Rightarrow> 'r \<Rightarrow> 'r result"
  ro_AddUpdates :: "int \<Rightarrow> 'v \<Rightarrow> 'v \<Rightarrow> 'v"
  ro_SubtractUpdates :: "int \<Rightarrow> 'v \<Rightarrow> 'v \<Rightarrow> 'v"
  ro_InitUpdate :: "int \<Rightarrow> 'v"

text \<open>Conversion of \<open>size_t\<close> to \<open>int32_t\<close>, and \<open>resize\<close> of a vector to an \<open>int32_t\<close> size.\<close>

definition to_i32 :: "nat \<Rightarrow> int" where
  "to_i32 n = (let u = int n mod 2 ^ 32 in if u < 2 ^ 31 then u else u - 2 ^ 32)"

definition vec_resize :: "'a list \<Rightarrow> int \<Rightarrow> 'a \<Rightarrow> 'a list result" where
  "vec_resize xs n d =
     (if n < 0 then Inl (Fatal ''length_error'')
      else Inr (take (nat n) xs @ replicate (nat n - length xs) d))"

primrec dec_array :: "'v pod \<Rightarrow> nat \<Rightarrow> bytes \<Rightarrow> 'v list" where
  "dec_array p 0 bs = []"
| "dec_array p (Suc n) bs = p_dec p (take (p_size p) bs) # dec_array p n (drop (p_size p) bs)"

section \<open>DenseRow\<close>

record 'v dense_row =
  dr_data :: "'v list"
  dr_capacity :: int

definition dense_new :: "'v dense_row" where
  "dense_new = \<lparr>dr_data = [], dr_capacity = 0\<rparr>"

definition dense_Init :: "int \<Rightarrow> 'v::zero dense_row \<Rightarrow> 'v dense_row result" where
  "dense_Init capacity r =
     rbind (vec_resize (dr_data r) capacity 0) (\<lambda>d.
       Inr \<lparr>dr_data = map (\<lambda>_. 0) d, dr_capacity = capacity\<rparr>)"

definition dense_Clone :: "'v::zero dense_row \<Rightarrow> 'v dense_row result" where
  "dense_Clone r =
     rbind (dense_Init (dr_capacity r) dense_new) (\<lambda>n.
       if nat (dr_capacity r) \<le> length (dr_data r)
       then Inr (n\<lparr>dr_data := take (nat (dr_capacity r)) (dr_data r)\<rparr>)
       else Inl (Undefined ''memcpy''))"

definition dense_SerializedSize :: "'v pod \<Rightarrow> 'v dense_row \<Rightarrow> nat" where
  "dense_SerializedSize p r = length (dr_data r) * p_size p"

definition dense_Serialize :: "'v pod \<Rightarrow> 'v dense_row \<Rightarrow> bytes" where
  "dense_Serialize p r = concat (map (p_enc p) (dr_data r))"

definition dense_Deserialize ::
  "'v pod \<Rightarrow> bytes \<Rightarrow> 'v::zero dense_row \<Rightarrow> (bool \<times> 'v dense_row) result" where
  "dense_Deserialize p bs r =
     (let vec_size = to_i32 (length bs div p_size p) in
      rbind (vec_resize (dr_data r) vec_size 0) (\<lambda>d.
        if length bs \<le> length d * p_size p
        then Inr (True, \<lparr>dr_data = dec_array p (length d) bs, dr_capacity = vec_size\<rparr>)
        else Inl (Undefined ''memcpy'')))"

text \<open>\<open>data_[column_id] += u\<close> (or \<open>*=\<close>) on the vector.\<close>

definition vec_modify :: "int \<Rightarrow> ('v \<Rightarrow> 'v) \<Rightarrow> 'v dense_row \<Rightarrow> 'v dense_row result" where
  "vec_modify c f r =
     (if 0 \<le> c \<and> nat c < length (dr_data r)
      then Inr (r\<lparr>dr_data := (dr_data r)[nat c := f (dr_data r ! nat c)]\<rparr>)
      else Inl (Undefined ''vector index''))"

definition dense_ApplyInc :: "int \<Rightarrow> 'v::plus \<Rightarrow> 'v dense_row \<Rightarrow> 'v dense_row result" where
  "dense_ApplyInc c u r =
     rbind (check (c < int (length (dr_data r))) ''column_id < data_.size()'') (\<lambda>_.
       vec_modify c (\<lambda>v. v + u) r)"

definition dense_ApplyBatchInc :: "(int \<times> 'v::plus) list \<Rightarrow> 'v dense_row \<Rightarrow> 'v dense_row result" where
  "dense_ApplyBatchInc us r = foldM (\<lambda>r (c, u). vec_modify c (\<lambda>v. v + u) r) r us"

definition dense_ApplyIncUnsafe :: "int \<Rightarrow> 'v::plus \<Rightarrow> 'v dense_row \<Rightarrow> 'v dense_row result" where
  "dense_ApplyIncUnsafe c u r =
     rbind (check (c < int (length (dr_data r))) ''column_id < data_.size()'') (\<lambda>_.
       vec_modify c (\<lambda>v. v + u) r)"

definition dense_ApplyBatchIncUnsafe ::
  "(int \<times> 'v::plus) list \<Rightarrow> 'v dense_row \<Rightarrow> 'v dense_row result" where
  "dense_ApplyBatchIncUnsafe us r = foldM (\<lambda>r (c, u). vec_modify c (\<lambda>v. v + u) r) r us"

definition dense_index :: "'v dense_row \<Rightarrow> int \<Rightarrow> 'v result" where
  "dense_index r c = vec_at (dr_data r) c"

definition dense_CopyToVector :: "'v dense_row \<Rightarrow> 'v list" where
  "dense_CopyToVector r = dr_data r"

definition dense_ops :: "'v pod \<Rightarrow> ('v::ab_group_add dense_row, 'v) row_ops" where
  "dense_ops p =
     \<lparr>ro_new = dense_new, ro_Init = dense_Init, ro_Clone = dense_Clone,
      ro_get_update_size = p_size p, ro_SerializedSize = dense_SerializedSize p,
      ro_Serialize = dense_Serialize p, ro_Deserialize = dense_Deserialize p,
      ro_ApplyInc = dense_ApplyInc, ro_ApplyBatchInc = dense_ApplyBatchInc,
      ro_ApplyIncUnsafe = dense_ApplyIncUnsafe, ro_ApplyBatchIncUnsafe = dense_ApplyBatchIncUnsafe,
      ro_AddUpdates = (\<lambda>_ u1 u2. u1 + u2), ro_SubtractUpdates = (\<lambda>_ u1 u2. u1 - u2),
      ro_InitUpdate = (\<lambda>_. 0)\<rparr>"

section \<open>MultiplicativeDenseRow\<close>

text \<open>
  The class repeats \<open>DenseRow\<close> with its own increments and zero update;
  \<open>AddUpdates\<close> and \<open>SubtractUpdates\<close> still add and subtract.
\<close>

definition mdense_ApplyInc :: "int \<Rightarrow> 'v::times \<Rightarrow> 'v dense_row \<Rightarrow> 'v dense_row result" where
  "mdense_ApplyInc c u r =
     rbind (check (c < int (length (dr_data r))) ''column_id < data_.size()'') (\<lambda>_.
       vec_modify c (\<lambda>v. v * u) r)"

definition mdense_ApplyBatchInc :: "(int \<times> 'v::times) list \<Rightarrow> 'v dense_row \<Rightarrow> 'v dense_row result" where
  "mdense_ApplyBatchInc us r = foldM (\<lambda>r (c, u). vec_modify c (\<lambda>v. v * u) r) r us"

definition mdense_AddUpdates :: "int \<Rightarrow> 'v::plus \<Rightarrow> 'v \<Rightarrow> 'v" where
  "mdense_AddUpdates c u1 u2 = u1 + u2"

definition mdense_SubtractUpdates :: "int \<Rightarrow> 'v::minus \<Rightarrow> 'v \<Rightarrow> 'v" where
  "mdense_SubtractUpdates c u1 u2 = u1 - u2"

definition mdense_InitUpdate :: "int \<Rightarrow> 'v::one" where
  "mdense_InitUpdate c = 1"

definition mdense_ops :: "'v pod \<Rightarrow> ('v::comm_ring_1 dense_row, 'v) row_ops" where
  "mdense_ops p =
     (dense_ops p)\<lparr>ro_ApplyInc := mdense_ApplyInc, ro_ApplyBatchInc := mdense_ApplyBatchInc,
        ro_ApplyIncUnsafe := mdense_ApplyInc, ro_ApplyBatchIncUnsafe := mdense_ApplyBatchInc,
        ro_AddUpdates := mdense_AddUpdates, ro_SubtractUpdates := mdense_SubtractUpdates,
        ro_InitUpdate := mdense_InitUpdate\<rparr>"

section \<open>SparseRow\<close>

type_synonym 'v sparse_row = "(int \<times> 'v) list"

definition sparse_index :: "'v::zero sparse_row \<Rightarrow> int \<Rightarrow> 'v" where
  "sparse_index r c = (case map_of r c of None \<Rightarrow> 0 | Some v \<Rightarrow> v)"

definition sparse_num_entries :: "'v sparse_row \<Rightarrow> nat" where
  "sparse_num_entries r = length r"

definition sparse_Init :: "int \<Rightarrow> 'v sparse_row \<Rightarrow> 'v sparse_row result" where
  "sparse_Init capacity r = Inr r"

definition sparse_Clone :: "'v sparse_row \<Rightarrow> 'v sparse_row result" where
  "sparse_Clone r = Inr r"

definition sparse_SerializedSize :: "'v pod \<Rightarrow> 'v sparse_row \<Rightarrow> nat" where
  "sparse_SerializedSize p r = length r * (4 + p_size p)"

definition sparse_Serialize :: "'v pod \<Rightarrow> 'v sparse_row \<Rightarrow> bytes" where
  "sparse_Serialize p r = concat (map (\<lambda>(c, v). i32_enc c @ p_enc p v) r)"

primrec sparse_read :: "'v pod \<Rightarrow> nat \<Rightarrow> bytes \<Rightarrow> 'v sparse_row \<Rightarrow> 'v sparse_row" where
  "sparse_read p 0 bs r = r"
| "sparse_read p (Suc n) bs r =
     sparse_read p n (drop (p_size p) (drop 4 bs))
       (oupd (i32_dec (take 4 bs)) (p_dec p (take (p_size p) (drop 4 bs))) r)"

definition sparse_Deserialize :: "'v pod \<Rightarrow> bytes \<Rightarrow> 'v sparse_row \<Rightarrow> (bool \<times> 'v sparse_row) result" where
  "sparse_Deserialize p bs r =
     (let n = 4 + p_size p in
      rbind (check (length bs mod n = 0) ''0 == num_bytes % num_bytes_per_entry'') (\<lambda>_.
        Inr (True, sparse_read p (nat (to_i32 (length bs div n))) bs [])))"

definition sparse_ApplyIncUnsafe :: "int \<Rightarrow> 'v::{zero,plus} \<Rightarrow> 'v sparse_row \<Rightarrow> 'v sparse_row result" where
  "sparse_ApplyIncUnsafe c u r =
     (let v = sparse_index r c + u; r = oupd c v r in Inr (if v = 0 then odel c r else r))"

definition sparse_ApplyBatchIncUnsafe ::
  "(int \<times> 'v::{zero,plus}) list \<Rightarrow> 'v sparse_row \<Rightarrow> 'v sparse_row result" where
  "sparse_ApplyBatchIncUnsafe us r =
     foldM (\<lambda>r (c, u). let v = sparse_index r c + u; r = oupd c v r in
                      Inr (if v = 0 then odel c r else r)) r us"

definition sparse_ApplyInc :: "int \<Rightarrow> 'v::{zero,plus} \<Rightarrow> 'v sparse_row \<Rightarrow> 'v sparse_row result" where
  "sparse_ApplyInc c u r = sparse_ApplyIncUnsafe c u r"

definition sparse_ApplyBatchInc ::
  "(int \<times> 'v::{zero,plus}) list \<Rightarrow> 'v sparse_row \<Rightarrow> 'v sparse_row result" where
  "sparse_ApplyBatchInc us r = sparse_ApplyBatchIncUnsafe us r"

definition sparse_ops :: "'v pod \<Rightarrow> ('v::ab_group_add sparse_row, 'v) row_ops" where
  "sparse_ops p =
     \<lparr>ro_new = [], ro_Init = sparse_Init, ro_Clone = sparse_Clone,
      ro_get_update_size = p_size p, ro_SerializedSize = sparse_SerializedSize p,
      ro_Serialize = sparse_Serialize p, ro_Deserialize = sparse_Deserialize p,
      ro_ApplyInc = sparse_ApplyInc, ro_ApplyBatchInc = sparse_ApplyBatchInc,
      ro_ApplyIncUnsafe = sparse_ApplyIncUnsafe, ro_ApplyBatchIncUnsafe = sparse_ApplyBatchIncUnsafe,
      ro_AddUpdates = (\<lambda>_ u1 u2. u1 + u2), ro_SubtractUpdates = (\<lambda>_ u1 u2. u1 - u2),
      ro_InitUpdate = (\<lambda>_. 0)\<rparr>"

text \<open>\<open>SparseRow::const_iterator\<close>: a position in the ordered map.\<close>

record 'v sparse_iter =
  si_row :: "'v sparse_row"
  si_pos :: nat

definition sparse_cbegin :: "'v sparse_row \<Rightarrow> 'v sparse_iter" where
  "sparse_cbegin r = \<lparr>si_row = r, si_pos = 0\<rparr>"

definition sparse_cend :: "'v sparse_row \<Rightarrow> 'v sparse_iter" where
  "sparse_cend r = \<lparr>si_row = r, si_pos = length r\<rparr>"

definition sparse_is_begin :: "'v sparse_iter \<Rightarrow> bool" where
  "sparse_is_begin it \<longleftrightarrow> si_pos it = 0"

definition sparse_is_end :: "'v sparse_iter \<Rightarrow> bool" where
  "sparse_is_end it \<longleftrightarrow> si_pos it = length (si_row it)"

definition sparse_deref :: "'v sparse_iter \<Rightarrow> (int \<times> 'v) result" where
  "sparse_deref it = rbind (check (\<not> sparse_is_end it) ''!is_end()'') (\<lambda>_.
     Inr (si_row it ! si_pos it))"

definition sparse_incr :: "'v sparse_iter \<Rightarrow> 'v sparse_iter result" where
  "sparse_incr it = rbind (check (\<not> sparse_is_end it) ''!is_end()'') (\<lambda>_.
     Inr (it\<lparr>si_pos := si_pos it + 1\<rparr>))"

definition sparse_decr :: "'v sparse_iter \<Rightarrow> 'v sparse_iter result" where
  "sparse_decr it = rbind (check (\<not> sparse_is_begin it) ''!is_begin()'') (\<lambda>_.
     Inr (it\<lparr>si_pos := si_pos it - 1\<rparr>))"

section \<open>The contract of additive rows\<close>

text \<open>Total update of one column in a batch.\<close>

definition upd_sum :: "(int \<times> 'v::ab_group_add) list \<Rightarrow> int \<Rightarrow> 'v" where
  "upd_sum us c = sum_list (map snd (filter (\<lambda>p. fst p = c) us))"

lemma upd_sum_simps [simp]:
  "upd_sum [] c = 0"
  "upd_sum ((c', u) # us) c = (if c' = c then u + upd_sum us c else upd_sum us c)"
  by (simp_all add: upd_sum_def)

lemma upd_sum_append [simp]: "upd_sum (us @ vs) c = upd_sum us c + upd_sum vs c"
  by (simp add: upd_sum_def)

lemma upd_sum_perm: "mset us = mset vs \<Longrightarrow> upd_sum us c = upd_sum vs c"
proof -
  assume "mset us = mset vs"
  then have "mset (map snd (filter (\<lambda>p. fst p = c) us)) = mset (map snd (filter (\<lambda>p. fst p = c) vs))"
    by simp
  then show ?thesis unfolding upd_sum_def by (metis sum_mset_sum_list)
qed

lemma upd_sum_osorted: "osorted es \<Longrightarrow> upd_sum es c = (case map_of es c of None \<Rightarrow> 0 | Some u \<Rightarrow> u)"
proof (induction es rule: osorted.induct)
  case (2 k v es)
  then show ?case using osorted_absent [of es k] by (auto split: option.splits)
qed simp

text \<open>
  \<open>rval r c\<close> is the value of column \<open>c\<close>, \<open>rcol r c\<close> says that the row has
  the column, \<open>rwire r\<close> that its ids and values fit their machine types.
\<close>

locale additive_row =
  fixes ops :: "('r, 'v::ab_group_add) row_ops"
    and rinv :: "'r \<Rightarrow> bool"
    and rval :: "'r \<Rightarrow> int \<Rightarrow> 'v"
    and rcol :: "'r \<Rightarrow> int \<Rightarrow> bool"
    and rwire :: "'r \<Rightarrow> bool"
  assumes batch_ok: "rinv r \<Longrightarrow> \<forall>p \<in> set us. rcol r (fst p) \<Longrightarrow>
      \<exists>r'. ro_ApplyBatchInc ops us r = Inr r' \<and> rinv r' \<and> rcol r' = rcol r \<and>
           rval r' = (\<lambda>c. rval r c + upd_sum us c)"
    and inc_ok: "rinv r \<Longrightarrow> rcol r c \<Longrightarrow>
      \<exists>r'. ro_ApplyInc ops c u r = Inr r' \<and> rinv r' \<and> rcol r' = rcol r \<and>
           rval r' = (rval r)(c := rval r c + u)"
    and unsafe_inc: "ro_ApplyIncUnsafe ops c u r = ro_ApplyInc ops c u r"
    and unsafe_batch: "ro_ApplyBatchIncUnsafe ops us r = ro_ApplyBatchInc ops us r"
    and add_updates: "ro_AddUpdates ops c u1 u2 = u1 + u2"
    and sub_updates: "ro_SubtractUpdates ops c u1 u2 = u1 - u2"
    and zero_update: "ro_InitUpdate ops c = 0"
    and ser_bound: "rinv r \<Longrightarrow> length (ro_Serialize ops r) \<le> ro_SerializedSize ops r"
    and deser_ser: "rinv r \<Longrightarrow> rwire r \<Longrightarrow>
      \<exists>r'. ro_Deserialize ops (ro_Serialize ops r) r0 = Inr (True, r') \<and> rinv r' \<and>
           rval r' = rval r \<and> rcol r' = rcol r"
    and clone_ok: "rinv r \<Longrightarrow> ro_Clone ops r = Inr r"
begin

text \<open>A batch may be split, and its order does not matter.\<close>

lemma batch_split:
  assumes "rinv r" "\<forall>p \<in> set (us @ vs). rcol r (fst p)"
  shows "\<exists>r1 r2 r'. ro_ApplyBatchInc ops us r = Inr r1 \<and> ro_ApplyBatchInc ops vs r1 = Inr r2 \<and>
    ro_ApplyBatchInc ops (us @ vs) r = Inr r' \<and> rinv r2 \<and> rval r2 = rval r' \<and> rcol r2 = rcol r'"
proof -
  obtain r1 where r1: "ro_ApplyBatchInc ops us r = Inr r1" "rinv r1" "rcol r1 = rcol r"
    "rval r1 = (\<lambda>c. rval r c + upd_sum us c)" using batch_ok [OF assms(1), of us] assms(2) by auto
  obtain r2 where r2: "ro_ApplyBatchInc ops vs r1 = Inr r2" "rinv r2" "rcol r2 = rcol r1"
    "rval r2 = (\<lambda>c. rval r1 c + upd_sum vs c)" using batch_ok [OF r1(2), of vs] assms(2) r1(3) by auto
  obtain r' where r': "ro_ApplyBatchInc ops (us @ vs) r = Inr r'" "rcol r' = rcol r"
    "rval r' = (\<lambda>c. rval r c + upd_sum (us @ vs) c)" using batch_ok [OF assms(1), of "us @ vs"] assms(2) by auto
  show ?thesis using r1 r2 r' by (auto simp: fun_eq_iff algebra_simps)
qed

lemma batch_perm:
  assumes "rinv r" "\<forall>p \<in> set us. rcol r (fst p)" "mset us = mset vs"
  shows "\<exists>r1 r2. ro_ApplyBatchInc ops us r = Inr r1 \<and> ro_ApplyBatchInc ops vs r = Inr r2 \<and>
    rval r1 = rval r2"
proof -
  have s: "set us = set vs" using assms(3) by (metis set_mset_mset)
  obtain r1 where "ro_ApplyBatchInc ops us r = Inr r1" "rval r1 = (\<lambda>c. rval r c + upd_sum us c)"
    using batch_ok [OF assms(1,2)] by auto
  moreover obtain r2 where "ro_ApplyBatchInc ops vs r = Inr r2" "rval r2 = (\<lambda>c. rval r c + upd_sum vs c)"
    using batch_ok [OF assms(1), of vs] assms(2) s by auto
  ultimately show ?thesis using upd_sum_perm [OF assms(3)] by simp
qed

text \<open>Aggregating two updates of a column first gives the same row as applying both.\<close>

lemma aggregate_ok:
  assumes "rinv r" "rcol r c"
  shows "\<exists>r1 r2 r'. ro_ApplyInc ops c u1 r = Inr r1 \<and> ro_ApplyInc ops c u2 r1 = Inr r2 \<and>
    ro_ApplyInc ops c (ro_AddUpdates ops c u1 u2) r = Inr r' \<and> rval r2 = rval r'"
proof -
  obtain r1 where r1: "ro_ApplyInc ops c u1 r = Inr r1" "rinv r1" "rcol r1 = rcol r"
    "rval r1 = (rval r)(c := rval r c + u1)" using inc_ok [OF assms] by blast
  obtain r2 where r2: "ro_ApplyInc ops c u2 r1 = Inr r2"
    "rval r2 = (rval r1)(c := rval r1 c + u2)" using inc_ok [OF r1(2)] assms(2) r1(3) by auto
  obtain r' where r': "ro_ApplyInc ops c (u1 + u2) r = Inr r'"
    "rval r' = (rval r)(c := rval r c + (u1 + u2))" using inc_ok [OF assms] by blast
  show ?thesis using r1 r2 r' by (auto simp: add_updates fun_eq_iff algebra_simps)
qed

text \<open>A row shipped to another process and updated there equals the row updated here.\<close>

lemma ship_then_update:
  assumes "rinv r" "rwire r" "\<forall>p \<in> set us. rcol r (fst p)"
  shows "\<exists>s s' r'. ro_Deserialize ops (ro_Serialize ops r) r0 = Inr (True, s) \<and>
    ro_ApplyBatchInc ops us s = Inr s' \<and> ro_ApplyBatchInc ops us r = Inr r' \<and> rval s' = rval r'"
proof -
  obtain s where s: "ro_Deserialize ops (ro_Serialize ops r) r0 = Inr (True, s)" "rinv s"
    "rval s = rval r" "rcol s = rcol r" using deser_ser [OF assms(1,2)] by blast
  obtain s' where "ro_ApplyBatchInc ops us s = Inr s'" "rval s' = (\<lambda>c. rval s c + upd_sum us c)"
    using batch_ok [OF s(2), of us] s(4) assms(3) by auto
  moreover obtain r' where "ro_ApplyBatchInc ops us r = Inr r'" "rval r' = (\<lambda>c. rval r c + upd_sum us c)"
    using batch_ok [OF assms(1,3)] by blast
  ultimately show ?thesis using s by auto
qed

end

section \<open>Dense rows keep the contract\<close>

definition dense_inv :: "'v dense_row \<Rightarrow> bool" where
  "dense_inv r \<longleftrightarrow> dr_capacity r = int (length (dr_data r))"

definition dense_col :: "'v dense_row \<Rightarrow> int \<Rightarrow> bool" where
  "dense_col r c \<longleftrightarrow> 0 \<le> c \<and> nat c < length (dr_data r)"

definition dense_val :: "'v::zero dense_row \<Rightarrow> int \<Rightarrow> 'v" where
  "dense_val r c = (if dense_col r c then dr_data r ! nat c else 0)"

definition pod_ok :: "'v pod \<Rightarrow> ('v \<Rightarrow> bool) \<Rightarrow> bool" where
  "pod_ok p ok \<longleftrightarrow> 0 < p_size p \<and> (\<forall>v. length (p_enc p v) = p_size p) \<and>
     (\<forall>v. ok v \<longrightarrow> p_dec p (p_enc p v) = v)"

definition dense_wire :: "('v \<Rightarrow> bool) \<Rightarrow> 'v dense_row \<Rightarrow> bool" where
  "dense_wire ok r \<longleftrightarrow> length (dr_data r) < 2 ^ 31 \<and> (\<forall>v \<in> set (dr_data r). ok v)"

lemma i32_pod_ok: "pod_ok i32_pod is_i32"
  by (simp add: pod_ok_def i32_pod_def i32.dec_enc)

lemma to_i32_id: "n < 2 ^ 31 \<Longrightarrow> to_i32 n = int n"
  by (simp add: to_i32_def Let_def)

lemma concat_enc_size: "pod_ok p ok \<Longrightarrow> length (concat (map (p_enc p) vs)) = length vs * p_size p"
  by (induction vs) (simp_all add: pod_ok_def)

lemma dec_array_concat:
  "pod_ok p ok \<Longrightarrow> \<forall>v \<in> set vs. ok v \<Longrightarrow> dec_array p (length vs) (concat (map (p_enc p) vs)) = vs"
  by (induction vs) (simp_all add: pod_ok_def)

lemma vec_modify_ok:
  assumes "dense_inv r" "dense_col r c"
  shows "\<exists>r'. vec_modify c f r = Inr r' \<and> dense_inv r' \<and> dense_col r' = dense_col r \<and>
    dense_val r' = (dense_val r)(c := f (dense_val r c))"
  using assms
  by (auto simp: vec_modify_def dense_inv_def dense_col_def dense_val_def fun_eq_iff nth_list_update)

lemma dense_batch_ok:
  "dense_inv r \<Longrightarrow> \<forall>p \<in> set us. dense_col r (fst p) \<Longrightarrow>
   \<exists>r'. dense_ApplyBatchInc us r = Inr r' \<and> dense_inv r' \<and> dense_col r' = dense_col r \<and>
        dense_val r' = (\<lambda>c. dense_val r c + upd_sum us c)"
proof (induction us arbitrary: r)
  case Nil
  then show ?case by (simp add: dense_ApplyBatchInc_def)
next
  case (Cons p us)
  obtain c u where p: "p = (c, u)" by force
  obtain r1 where r1: "vec_modify c (\<lambda>v. v + u) r = Inr r1" "dense_inv r1" "dense_col r1 = dense_col r"
    "dense_val r1 = (dense_val r)(c := dense_val r c + u)"
    using vec_modify_ok [OF Cons.prems(1), of c "\<lambda>v. v + u"] Cons.prems(2) p by auto
  obtain r' where r': "dense_ApplyBatchInc us r1 = Inr r'" "dense_inv r'" "dense_col r' = dense_col r"
    "dense_val r' = (\<lambda>c. dense_val r1 c + upd_sum us c)"
    using Cons.IH [OF r1(2)] Cons.prems(2) r1(3) by auto
  have "dense_ApplyBatchInc (p # us) r = Inr r'"
    using r1(1) r'(1) by (simp add: dense_ApplyBatchInc_def p)
  with r' r1(4) p show ?case by (auto simp: fun_eq_iff algebra_simps)
qed

lemma vec_resize_nonneg: "\<exists>ys. vec_resize xs (int n) d = Inr ys \<and> length ys = n"
  by (simp add: vec_resize_def min_def)

lemma dense_deser_ser:
  assumes "pod_ok p ok" "dense_inv r" "dense_wire ok r"
  shows "dense_Deserialize p (dense_Serialize p r) r0 = Inr (True, r)"
proof -
  have sz: "length (dense_Serialize p r) = length (dr_data r) * p_size p" "0 < p_size p"
    using assms(1) by (simp_all add: dense_Serialize_def concat_enc_size) (simp add: pod_ok_def)
  then have d: "length (dense_Serialize p r) div p_size p = length (dr_data r)" by simp
  have "dec_array p (length (dr_data r)) (dense_Serialize p r) = dr_data r"
    unfolding dense_Serialize_def using assms(1,3) by (intro dec_array_concat) (auto simp: dense_wire_def)
  moreover have "to_i32 (length (dr_data r)) = int (length (dr_data r))"
    using assms(3) by (intro to_i32_id) (simp add: dense_wire_def)
  moreover obtain d where "vec_resize (dr_data r0) (int (length (dr_data r))) 0 = Inr d"
    "length d = length (dr_data r)"
    using vec_resize_nonneg [of "dr_data r0" "length (dr_data r)" 0] by (elim exE conjE)
  ultimately show ?thesis
    using assms(2) sz by (simp add: dense_Deserialize_def d dense_inv_def Let_def)
qed

lemma dense_Clone_ok: "dense_inv r \<Longrightarrow> dense_Clone r = Inr r"
  by (simp add: dense_Clone_def dense_Init_def vec_resize_def dense_inv_def)

lemma dense_additive:
  assumes "pod_ok p ok"
  shows "additive_row (dense_ops p) dense_inv dense_val dense_col (dense_wire ok)"
proof
  show "\<exists>r'. ro_Deserialize (dense_ops p) (ro_Serialize (dense_ops p) r) r0 = Inr (True, r') \<and>
      dense_inv r' \<and> dense_val r' = dense_val r \<and> dense_col r' = dense_col r"
    if "dense_inv r" "dense_wire ok r" for r r0
    using dense_deser_ser [OF assms that] that by (simp add: dense_ops_def)
  show "\<exists>r'. ro_ApplyInc (dense_ops p) c u r = Inr r' \<and> dense_inv r' \<and> dense_col r' = dense_col r \<and>
      dense_val r' = (dense_val r)(c := dense_val r c + u)" if "dense_inv r" "dense_col r c" for r c u
  proof -
    have "c < int (length (dr_data r))" using that(2) by (auto simp: dense_col_def)
    then show ?thesis using vec_modify_ok [OF that, of "\<lambda>v. v + u"]
      by (simp add: dense_ops_def dense_ApplyInc_def)
  qed
qed (use dense_batch_ok assms in \<open>simp_all add: dense_ops_def dense_ApplyInc_def dense_ApplyBatchInc_def
      dense_ApplyIncUnsafe_def dense_ApplyBatchIncUnsafe_def
      dense_Serialize_def dense_SerializedSize_def concat_enc_size dense_Clone_ok\<close>)

interpretation dense_i32: additive_row "dense_ops i32_pod" dense_inv dense_val dense_col "dense_wire is_i32"
  by (rule dense_additive [OF i32_pod_ok])

section \<open>Sparse rows keep the contract\<close>

text \<open>Ascending columns and no zero entry.\<close>

definition sparse_inv :: "'v::zero sparse_row \<Rightarrow> bool" where
  "sparse_inv r \<longleftrightarrow> osorted r \<and> 0 \<notin> snd ` set r"

definition sparse_wire :: "('v \<Rightarrow> bool) \<Rightarrow> 'v sparse_row \<Rightarrow> bool" where
  "sparse_wire ok r \<longleftrightarrow> length r < 2 ^ 31 \<and> (\<forall>(c, v) \<in> set r. is_i32 c \<and> ok v)"

definition sparse_step :: "int \<Rightarrow> 'v::{zero,plus} \<Rightarrow> 'v sparse_row \<Rightarrow> 'v sparse_row" where
  "sparse_step c u r =
     (let v = sparse_index r c + u; r = oupd c v r in if v = 0 then odel c r else r)"

lemma set_oupd: "set (oupd k v m) \<subseteq> insert (k, v) (set m)"
  by (induction k v m rule: oupd.induct) auto

lemma set_odel: "osorted m \<Longrightarrow> set (odel k m) = {p \<in> set m. fst p \<noteq> k}"
  by (induction k m rule: odel.induct) force+

lemma sparse_step_ok:
  assumes "sparse_inv r"
  shows "sparse_inv (sparse_step c u r)"
    and "sparse_index (sparse_step c u r) = (sparse_index r)(c := sparse_index r c + u)"
proof -
  have o: "osorted (oupd c v r)" for v using assms by (simp add: sparse_inv_def osorted_oupd)
  let ?v = "sparse_index r c + u"
  show "sparse_inv (sparse_step c u r)"
  proof (cases "?v = 0")
    case True
    have "set (odel c (oupd c ?v r)) \<subseteq> set r"
      using set_odel [OF o] set_oupd [of c ?v r] by auto
    then show ?thesis using assms True o
      by (auto simp: sparse_inv_def sparse_step_def Let_def osorted_odel)
  next
    case False
    then show ?thesis using assms o set_oupd [of c ?v r]
      by (auto simp: sparse_inv_def sparse_step_def Let_def)
  qed
  show "sparse_index (sparse_step c u r) = (sparse_index r)(c := sparse_index r c + u)"
    using o by (auto simp: sparse_step_def Let_def sparse_index_def fun_eq_iff map_of_oupd map_of_odel)
qed

lemma sparse_batch_fold:
  "sparse_ApplyBatchIncUnsafe us r = Inr (foldl (\<lambda>r (c, u). sparse_step c u r) r us)"
  unfolding sparse_ApplyBatchIncUnsafe_def
  by (induction us arbitrary: r) (auto simp: sparse_step_def Let_def)

lemma sparse_fold_ok:
  "sparse_inv r \<Longrightarrow> sparse_inv (foldl (\<lambda>r (c, u). sparse_step c u r) r us) \<and>
    sparse_index (foldl (\<lambda>r (c, u). sparse_step c u r) r us) = (\<lambda>c. sparse_index r c + upd_sum us c)"
  by (induction us arbitrary: r) (auto simp: sparse_step_ok fun_eq_iff algebra_simps)

lemma sparse_Serialize_length:
  "pod_ok p ok \<Longrightarrow> length (sparse_Serialize p r) = length r * (4 + p_size p)"
  by (induction r) (auto simp: sparse_Serialize_def pod_ok_def)

lemma sparse_read_serialize:
  assumes "pod_ok p ok" "\<forall>(c, v) \<in> set r. is_i32 c \<and> ok v"
  shows "sparse_read p (length r) (sparse_Serialize p r) r0 = fold (\<lambda>(c, v). oupd c v) r r0"
  using assms(2)
proof (induction r arbitrary: r0)
  case (Cons x r)
  obtain c v where x: "x = (c, v)" by force
  have l: "length (i32_enc c) = 4" "length (p_enc p v) = p_size p"
    "i32_dec (i32_enc c) = c" "p_dec p (p_enc p v) = v"
    using assms(1) Cons.prems x by (auto simp: pod_ok_def i32.dec_enc)
  have "sparse_Serialize p (x # r) = i32_enc c @ p_enc p v @ sparse_Serialize p r"
    by (simp add: sparse_Serialize_def x)
  then show ?case using Cons.IH Cons.prems l by (simp add: x)
qed simp

lemma map_of_rev: "distinct (keys r) \<Longrightarrow> map_of (rev r) = map_of r"
  by (subst map_of_inject_set) (simp_all add: rev_map [symmetric])

lemma sparse_rebuild:
  assumes "osorted r"
  shows "fold (\<lambda>(c, v). oupd c v) r [] = r"
proof (rule osorted_map_of_eq)
  show "osorted (fold (\<lambda>(c, v). oupd c v) r [])"
    using omap.upd_all_invar [of "[]" r] by (simp add: omap.upd_all_def)
  show "map_of (fold (\<lambda>(c, v). oupd c v) r []) = map_of r"
    using omap.upd_all_lookup [of "[]" r] map_of_rev [OF osorted_distinct [OF assms]]
    by (simp add: omap.upd_all_def fun_eq_iff map_add_def)
qed (rule assms)

lemma sparse_deser_ser:
  assumes p: "pod_ok p ok" and "sparse_inv r" "sparse_wire ok r"
  shows "sparse_Deserialize p (sparse_Serialize p r) r0 = Inr (True, r)"
proof -
  have l: "length (sparse_Serialize p r) = length r * (4 + p_size p)"
    using p by (rule sparse_Serialize_length)
  have d: "length (sparse_Serialize p r) div (4 + p_size p) = length r"
    "length (sparse_Serialize p r) mod (4 + p_size p) = 0" unfolding l by simp_all
  have t: "nat (to_i32 (length r)) = length r" using assms(3) by (simp add: sparse_wire_def to_i32_id)
  have "sparse_read p (length r) (sparse_Serialize p r) [] = r"
    using sparse_read_serialize [OF p, of r "[]"] sparse_rebuild [of r] assms(2,3)
    by (simp add: sparse_wire_def sparse_inv_def)
  then show ?thesis by (simp add: sparse_Deserialize_def Let_def d t)
qed

lemma sparse_additive:
  assumes "pod_ok p ok"
  shows "additive_row (sparse_ops p) sparse_inv sparse_index (\<lambda>_ _. True) (sparse_wire ok)"
proof
  show "\<exists>r'. ro_Deserialize (sparse_ops p) (ro_Serialize (sparse_ops p) r) r0 = Inr (True, r') \<and>
      sparse_inv r' \<and> sparse_index r' = sparse_index r \<and> (\<lambda>_. True) = (\<lambda>_. True)"
    if "sparse_inv r" "sparse_wire ok r" for r r0
    using sparse_deser_ser [OF assms that] that by (simp add: sparse_ops_def)
  show "\<exists>r'. ro_ApplyInc (sparse_ops p) c u r = Inr r' \<and> sparse_inv r' \<and> (\<lambda>_. True) = (\<lambda>_. True) \<and>
      sparse_index r' = (sparse_index r)(c := sparse_index r c + u)" if "sparse_inv r" for r c u
    using sparse_step_ok [OF that, of c u]
    by (simp add: sparse_ops_def sparse_ApplyInc_def sparse_ApplyIncUnsafe_def sparse_step_def Let_def)
qed (use sparse_fold_ok in \<open>auto simp: sparse_ops_def sparse_ApplyInc_def sparse_ApplyBatchInc_def
      sparse_batch_fold sparse_ApplyIncUnsafe_def sparse_step_def Let_def sparse_SerializedSize_def
      sparse_Serialize_length [OF assms] sparse_Clone_def\<close>)

interpretation sparse_i32: additive_row "sparse_ops i32_pod" sparse_inv sparse_index "\<lambda>_ _. True"
  "sparse_wire is_i32"
  by (rule sparse_additive [OF i32_pod_ok])

section \<open>Properties\<close>

text \<open>A sparse row is determined by its values: two rows with the same entries are the same map.\<close>

lemma sparse_canonical:
  assumes "sparse_inv r" "sparse_inv s" "sparse_index r = sparse_index s"
  shows "r = s"
proof (rule osorted_map_of_eq)
  have z: "map_of r k \<noteq> Some 0" if "sparse_inv r" for r :: "'a sparse_row" and k
    using that by (force simp: sparse_inv_def dest: map_of_SomeD)
  show "map_of r = map_of s"
  proof
    fix k
    from fun_cong [OF assms(3), of k] z [OF assms(1), of k] z [OF assms(2), of k]
    show "map_of r k = map_of s k" by (auto simp: sparse_index_def split: option.splits)
  qed
qed (use assms in \<open>simp_all add: sparse_inv_def\<close>)

text \<open>
  C37. A sparse row that is serialized, rebuilt in another process and updated
  there is the very row that results here, in whatever order the updates are
  applied; every row on the way has ascending columns and no zero entry.
\<close>

theorem sparse_row_replica:
  fixes us vs :: "(int \<times> 'v::ab_group_add) list"
  assumes "pod_ok p ok" "sparse_inv r" "sparse_wire ok r" "mset us = mset vs"
  shows "\<exists>s s'. sparse_Deserialize p (sparse_Serialize p r) r0 = Inr (True, s) \<and>
    sparse_ApplyBatchInc us s = Inr s' \<and> sparse_ApplyBatchInc vs r = Inr s' \<and> sparse_inv s'"
proof -
  let ?f = "\<lambda>us. foldl (\<lambda>r (c, u). sparse_step c u r) r us"
  have i: "sparse_inv (?f ws)" "sparse_index (?f ws) = (\<lambda>c. sparse_index r c + upd_sum ws c)" for ws
    using sparse_fold_ok [OF assms(2)] by blast+
  have "?f us = ?f vs"
    by (rule sparse_canonical) (simp_all add: i upd_sum_perm [OF assms(4)])
  then show ?thesis
    using sparse_deser_ser [OF assms(1-3)] i(1)
    by (auto simp: sparse_ApplyBatchInc_def sparse_batch_fold)
qed

theorem sparse_row_replica_witness:
  "\<exists>s s'. sparse_Deserialize i32_pod (sparse_Serialize i32_pod [(3, 5), (7, - 2)]) [] = Inr (True, s) \<and>
    sparse_ApplyBatchInc [(7, 2), (1, 4)] s = Inr s' \<and>
    sparse_ApplyBatchInc [(1, 4), (7, 2)] [(3, 5), (7, - 2)] = Inr s' \<and> sparse_inv s'"
  by (rule sparse_row_replica [OF i32_pod_ok])
     (simp_all add: sparse_inv_def sparse_wire_def is_i32_def add_mset_commute)

text \<open>
  A dense row keeps its capacity under every batch of updates of columns it
  has, adds up the updates of each column, may be updated in several batches or
  in one, and is rebuilt exactly from its serialized form.
\<close>

theorem dense_row_batches:
  fixes us vs :: "(int \<times> 'v::ab_group_add) list"
  assumes "pod_ok p ok" "dense_inv r" "dense_wire ok r"
    and "\<forall>q \<in> set (us @ vs). dense_col r (fst q)"
  shows "dense_Deserialize p (dense_Serialize p r) r0 = Inr (True, r) \<and>
    (\<exists>r1 r2 r'. dense_ApplyBatchInc us r = Inr r1 \<and> dense_ApplyBatchInc vs r1 = Inr r2 \<and>
      dense_ApplyBatchInc (us @ vs) r = Inr r' \<and> dense_inv r2 \<and>
      dense_val r2 = dense_val r' \<and> dense_col r2 = dense_col r)"
proof -
  have law: "additive_row (dense_ops p) dense_inv dense_val dense_col (dense_wire ok)"
    using assms(1) by (rule dense_additive)
  obtain r' where "dense_ApplyBatchInc (us @ vs) r = Inr r'" "dense_col r' = dense_col r"
    using dense_batch_ok [OF assms(2,4)] by blast
  then show ?thesis
    using additive_row.batch_split [OF law assms(2,4)] dense_deser_ser [OF assms(1-3)]
    by (auto simp: dense_ops_def)
qed

theorem dense_row_batches_witness:
  "dense_Deserialize i32_pod (dense_Serialize i32_pod \<lparr>dr_data = [1, 2], dr_capacity = 2\<rparr>) dense_new
    = Inr (True, \<lparr>dr_data = [1, 2], dr_capacity = 2\<rparr>)"
  using dense_row_batches [OF i32_pod_ok, of "\<lparr>dr_data = [1, 2], dr_capacity = 2\<rparr>" "[(0, 5)]" "[(1, 6)]" dense_new]
  by (simp add: dense_inv_def dense_wire_def is_i32_def dense_col_def)

text \<open>
  Multiplicative rows break the aggregation the oplogs rely on: applying the
  updates 3 and 4 one after the other multiplies an entry by 12, applying their
  aggregate (\<open>AddUpdates\<close>) multiplies it by 7; and a freshly initialised row stays 0.
\<close>

theorem mdense_aggregation_breaks:
  "rbind (mdense_ApplyInc 0 3 \<lparr>dr_data = [1 :: int], dr_capacity = 1\<rparr>) (mdense_ApplyInc 0 4)
     = Inr \<lparr>dr_data = [12], dr_capacity = 1\<rparr> \<and>
   mdense_ApplyInc 0 (mdense_AddUpdates 0 3 4) \<lparr>dr_data = [1 :: int], dr_capacity = 1\<rparr>
     = Inr \<lparr>dr_data = [7], dr_capacity = 1\<rparr> \<and>
   rbind (ro_Init (mdense_ops i32_pod) 1 (ro_new (mdense_ops i32_pod))) (mdense_ApplyInc 0 u)
     = Inr \<lparr>dr_data = [0], dr_capacity = 1\<rparr>"
  by (simp add: mdense_ApplyInc_def vec_modify_def mdense_AddUpdates_def mdense_ops_def dense_ops_def
      dense_new_def dense_Init_def vec_resize_def)

text \<open>Walking an iterator from the beginning visits every entry, in column order.\<close>

fun sparse_walk :: "nat \<Rightarrow> 'v sparse_iter \<Rightarrow> (int \<times> 'v) list result" where
  "sparse_walk 0 it = Inr []"
| "sparse_walk (Suc n) it =
     (if sparse_is_end it then Inr []
      else rbind (sparse_deref it) (\<lambda>e. rbind (sparse_incr it) (\<lambda>it'.
           rbind (sparse_walk n it') (\<lambda>es. Inr (e # es)))))"

lemma sparse_walk_from:
  "length (si_row it) - si_pos it \<le> n \<Longrightarrow> si_pos it \<le> length (si_row it) \<Longrightarrow>
   sparse_walk n it = Inr (drop (si_pos it) (si_row it))"
proof (induction n arbitrary: it)
  case (Suc n)
  show ?case
  proof (cases "sparse_is_end it")
    case False
    then have "si_pos it < length (si_row it)" using Suc.prems by (simp add: sparse_is_end_def)
    then show ?thesis using False Suc.prems Suc.IH [of "it\<lparr>si_pos := si_pos it + 1\<rparr>"]
      by (simp add: sparse_deref_def sparse_incr_def Cons_nth_drop_Suc)
  qed (simp add: sparse_is_end_def)
qed simp

lemma sparse_walk_all: "length r \<le> n \<Longrightarrow> sparse_walk n (sparse_cbegin r) = Inr r"
  using sparse_walk_from [of "sparse_cbegin r" n] by (simp add: sparse_cbegin_def)

end
