(* ===== verification/Cuckoo.thy ===== *)
theory Cuckoo
imports Prelude
begin

text \<open>
  The concurrent hash map of the external libcuckoo library is an argument of
  the definitions that use it: a record of the operations the sources call,
  with the behaviour the library documents as the locale \<open>cuckoo_map\<close>
  (\<open>insert\<close> does not overwrite and reports whether it inserted, \<open>erase\<close> reports
  whether it removed, iteration visits every pair once).
\<close>

record ('m, 'k, 'v) cuckoo =
  ck_new :: 'm
  ck_find :: "'m \<Rightarrow> 'k \<Rightarrow> 'v option"
  ck_insert :: "'k \<Rightarrow> 'v \<Rightarrow> 'm \<Rightarrow> bool \<times> 'm"
  ck_erase :: "'k \<Rightarrow> 'm \<Rightarrow> bool \<times> 'm"
  ck_list :: "'m \<Rightarrow> ('k \<times> 'v) list"

locale cuckoo_map =
  fixes ck :: "('m, 'k, 'v) cuckoo" and ck_inv :: "'m \<Rightarrow> bool"
  assumes new_ok: "ck_inv (ck_new ck)" "ck_find ck (ck_new ck) k = None"
    and insert_inv: "ck_inv m \<Longrightarrow> ck_inv (snd (ck_insert ck k v m))"
    and insert_ret: "ck_inv m \<Longrightarrow> fst (ck_insert ck k v m) = (ck_find ck m k = None)"
    and insert_find: "ck_inv m \<Longrightarrow> ck_find ck (snd (ck_insert ck k v m)) k' =
      (if k' = k \<and> ck_find ck m k = None then Some v else ck_find ck m k')"
    and erase_inv: "ck_inv m \<Longrightarrow> ck_inv (snd (ck_erase ck k m))"
    and erase_ret: "ck_inv m \<Longrightarrow> fst (ck_erase ck k m) = (ck_find ck m k \<noteq> None)"
    and erase_find: "ck_inv m \<Longrightarrow> ck_find ck (snd (ck_erase ck k m)) k' =
      (if k' = k then None else ck_find ck m k')"
    and list_find: "ck_inv m \<Longrightarrow> map_of (ck_list ck m) = ck_find ck m"
    and list_distinct: "ck_inv m \<Longrightarrow> distinct (keys (ck_list ck m))"
begin

lemma insert_fresh:
  "ck_inv m \<Longrightarrow> ck_find ck m k = None \<Longrightarrow> ck_find ck (snd (ck_insert ck k v m)) = (ck_find ck m)(k \<mapsto> v)"
  by (auto simp: insert_find)

lemma erase_insert_fresh:
  "ck_inv m \<Longrightarrow> ck_find ck m k = None \<Longrightarrow>
   ck_find ck (snd (ck_erase ck k (snd (ck_insert ck k v m)))) = ck_find ck m"
  by (auto simp: erase_find insert_find insert_inv)

lemma insert_all_find:
  "ck_inv m \<Longrightarrow> ck_inv (fold (\<lambda>k m. snd (ck_insert ck k v m)) ks m) \<and>
   (ck_find ck (fold (\<lambda>k m. snd (ck_insert ck k v m)) ks m) k' \<noteq> None \<longleftrightarrow>
     k' \<in> set ks \<or> ck_find ck m k' \<noteq> None)"
  by (induction ks arbitrary: m) (auto simp: insert_inv insert_find)

end

text \<open>Association lists keep the contract.\<close>

definition alist_cuckoo :: "(('k, 'v) amap, 'k, 'v) cuckoo" where
  "alist_cuckoo =
     \<lparr>ck_new = [], ck_find = map_of,
      ck_insert = (\<lambda>k v m. if map_of m k = None then (True, (k, v) # m) else (False, m)),
      ck_erase = (\<lambda>k m. (map_of m k \<noteq> None, AList.delete k m)),
      ck_list = (\<lambda>m. m)\<rparr>"

interpretation alist_ck: cuckoo_map alist_cuckoo amap_ok
  by unfold_locales
     (auto simp: alist_cuckoo_def amap_ok_def map_of_eq_None_iff distinct_delete delete_conv'
       split: if_splits)

end
