(* ===== verification/Oplog.thy ===== *)
theory Oplog
imports Rows Cuckoo
begin

text \<open>
  The client-side update logs: \<open>RowOpLog\<close> (petuum_ps_common/oplog/row_oplog.hpp),
  \<open>OpLogPartition\<close> (petuum_ps/oplog/oplog_partition.cpp), \<open>TableOpLog\<close>
  (petuum_ps/oplog/oplog.hpp) and the index of touched rows
  (petuum_ps/oplog/oplog_index.cpp).  A partition maps row ids to pointers; the
  row oplogs behind the pointers live in an explicit store, because \<open>Inc\<close>
  changes them in place.  The striped row locks make each operation atomic.
\<close>

section \<open>RowOpLog\<close>

record 'v row_oplog =
  rol_update_size :: nat
  rol_oplogs :: "(int \<times> 'v) list"
  rol_iter :: nat
  rol_const_iter :: nat

definition RowOpLog :: "nat \<Rightarrow> 'v row_oplog" where
  "RowOpLog update_size =
     \<lparr>rol_update_size = update_size, rol_oplogs = [], rol_iter = 0, rol_const_iter = 0\<rparr>"

definition RowOpLog_Find :: "int \<Rightarrow> 'v row_oplog \<Rightarrow> 'v option" where
  "RowOpLog_Find c l = map_of (rol_oplogs l) c"

definition RowOpLog_FindCreate :: "(int \<Rightarrow> 'v) \<Rightarrow> int \<Rightarrow> 'v row_oplog \<Rightarrow> 'v \<times> 'v row_oplog" where
  "RowOpLog_FindCreate InitUpdate c l =
     (case map_of (rol_oplogs l) c of
        None \<Rightarrow> (InitUpdate c, l\<lparr>rol_oplogs := oupd c (InitUpdate c) (rol_oplogs l)\<rparr>)
      | Some u \<Rightarrow> (u, l))"

text \<open>Writing through the pointer that \<open>FindCreate\<close> returned.\<close>

definition rol_store :: "int \<Rightarrow> 'v \<Rightarrow> 'v row_oplog \<Rightarrow> 'v row_oplog" where
  "rol_store c u l = l\<lparr>rol_oplogs := oupd c u (rol_oplogs l)\<rparr>"

definition iter_get :: "(int \<times> 'v) list \<Rightarrow> nat \<Rightarrow> (int \<times> 'v) option" where
  "iter_get m i = (if i < length m then Some (m ! i) else None)"

definition RowOpLog_BeginIterate :: "'v row_oplog \<Rightarrow> (int \<times> 'v) option \<times> 'v row_oplog" where
  "RowOpLog_BeginIterate l = (iter_get (rol_oplogs l) 0, l\<lparr>rol_iter := 0\<rparr>)"

definition RowOpLog_Next :: "'v row_oplog \<Rightarrow> ((int \<times> 'v) option \<times> 'v row_oplog) result" where
  "RowOpLog_Next l =
     (if rol_iter l < length (rol_oplogs l)
      then let i = rol_iter l + 1 in Inr (iter_get (rol_oplogs l) i, l\<lparr>rol_iter := i\<rparr>)
      else Inl (Undefined ''increment of end iterator''))"

definition RowOpLog_BeginIterateConst :: "'v row_oplog \<Rightarrow> (int \<times> 'v) option \<times> 'v row_oplog" where
  "RowOpLog_BeginIterateConst l = (iter_get (rol_oplogs l) 0, l\<lparr>rol_const_iter := 0\<rparr>)"

definition RowOpLog_NextConst :: "'v row_oplog \<Rightarrow> ((int \<times> 'v) option \<times> 'v row_oplog) result" where
  "RowOpLog_NextConst l =
     (if rol_const_iter l < length (rol_oplogs l)
      then let i = rol_const_iter l + 1 in Inr (iter_get (rol_oplogs l) i, l\<lparr>rol_const_iter := i\<rparr>)
      else Inl (Undefined ''increment of end iterator''))"

definition RowOpLog_GetSize :: "'v row_oplog \<Rightarrow> int" where
  "RowOpLog_GetSize l = int (length (rol_oplogs l))"

text \<open>
  The traversal idiom of all its users: \<open>BeginIterateConst\<close>, then \<open>NextConst\<close>
  until the null pointer comes back.
\<close>

function traverse_const :: "(int \<times> 'v) option \<Rightarrow> 'v row_oplog \<Rightarrow> (int \<times> 'v) list result" where
  "traverse_const None l = Inr []"
| "traverse_const (Some e) l =
     (if rol_const_iter l < length (rol_oplogs l)
      then (case RowOpLog_NextConst l of Inl err \<Rightarrow> Inl err
            | Inr (nxt, l') \<Rightarrow> rbind (traverse_const nxt l') (\<lambda>es. Inr (e # es)))
      else Inl (Undefined ''increment of end iterator''))"
  by pat_completeness auto
termination
  by (relation "measure (\<lambda>(e, l). length (rol_oplogs l) - rol_const_iter l)")
     (auto simp: RowOpLog_NextConst_def Let_def)

definition rol_ok :: "'v row_oplog \<Rightarrow> bool" where
  "rol_ok l \<longleftrightarrow> osorted (rol_oplogs l)"

definition rol_val :: "'v::zero row_oplog \<Rightarrow> int \<Rightarrow> 'v" where
  "rol_val l c = (case map_of (rol_oplogs l) c of None \<Rightarrow> 0 | Some u \<Rightarrow> u)"

lemma traverse_const_from:
  "traverse_const (iter_get (rol_oplogs l) (rol_const_iter l)) l =
     Inr (drop (rol_const_iter l) (rol_oplogs l))"
proof (induction "length (rol_oplogs l) - rol_const_iter l" arbitrary: l rule: less_induct)
  case less
  show ?case
  proof (cases "rol_const_iter l < length (rol_oplogs l)")
    case True
    let ?l = "l\<lparr>rol_const_iter := rol_const_iter l + 1\<rparr>"
    have "traverse_const (iter_get (rol_oplogs ?l) (rol_const_iter ?l)) ?l =
        Inr (drop (rol_const_iter ?l) (rol_oplogs ?l))"
      by (rule less) (use True in simp)
    with True show ?thesis
      by (simp add: iter_get_def RowOpLog_NextConst_def Let_def Cons_nth_drop_Suc)
  qed (simp add: iter_get_def)
qed

lemma traverse_const_all:
  "(case RowOpLog_BeginIterateConst l of (e, l') \<Rightarrow> traverse_const e l') = Inr (rol_oplogs l)"
  using traverse_const_from [of "l\<lparr>rol_const_iter := 0\<rparr>"]
  by (simp add: RowOpLog_BeginIterateConst_def)

section \<open>OpLogPartition\<close>

text \<open>
  \<open>op_store\<close> holds the allocated row oplogs by address, \<open>op_next\<close> is the next
  address.  \<open>ck\<close> is the hash map library, \<open>ops\<close> the sample row.
\<close>

record ('m, 'v) oplog_partition =
  op_update_size :: nat
  op_map :: 'm
  op_table_id :: int
  op_store :: "(nat, 'v row_oplog) amap"
  op_next :: nat

definition OpLogPartition ::
  "('m, int, nat) cuckoo \<Rightarrow> ('r, 'v) row_ops \<Rightarrow> int \<Rightarrow> ('m, 'v) oplog_partition" where
  "OpLogPartition ck ops table_id =
     \<lparr>op_update_size = ro_get_update_size ops, op_map = ck_new ck, op_table_id = table_id,
      op_store = [], op_next = 0\<rparr>"

definition CreateRowOpLog :: "('m, 'v) oplog_partition \<Rightarrow> nat \<times> ('m, 'v) oplog_partition" where
  "CreateRowOpLog p =
     (op_next p, p\<lparr>op_store := AList.update (op_next p) (RowOpLog (op_update_size p)) (op_store p),
                   op_next := op_next p + 1\<rparr>)"

definition deref :: "nat \<Rightarrow> ('m, 'v) oplog_partition \<Rightarrow> 'v row_oplog result" where
  "deref a p = of_option (Undefined ''dangling pointer'') (map_of (op_store p) a)"

definition assign :: "nat \<Rightarrow> 'v row_oplog \<Rightarrow> ('m, 'v) oplog_partition \<Rightarrow> ('m, 'v) oplog_partition" where
  "assign a l p = p\<lparr>op_store := AList.update a l (op_store p)\<rparr>"

text \<open>\<open>FindInsertOpLog\<close>: the pointer of a row, created when it is not there.\<close>

definition FindInsertOpLog ::
  "('m, int, nat) cuckoo \<Rightarrow> int \<Rightarrow> ('m, 'v) oplog_partition \<Rightarrow> nat \<times> ('m, 'v) oplog_partition" where
  "FindInsertOpLog ck row p =
     (case ck_find ck (op_map p) row of
        Some a \<Rightarrow> (a, p)
      | None \<Rightarrow> (let (a, p) = CreateRowOpLog p in
                 (a, p\<lparr>op_map := snd (ck_insert ck row a (op_map p))\<rparr>)))"

definition FindOpLog :: "('m, int, nat) cuckoo \<Rightarrow> int \<Rightarrow> ('m, 'v) oplog_partition \<Rightarrow> nat option" where
  "FindOpLog ck row p = ck_find ck (op_map p) row"

definition add_to_oplog ::
  "('r, 'v) row_ops \<Rightarrow> nat \<Rightarrow> ('m, 'v) oplog_partition \<Rightarrow> int \<times> 'v \<Rightarrow> ('m, 'v) oplog_partition result" where
  "add_to_oplog ops a p cu =
     (case cu of (c, delta) \<Rightarrow>
      rbind (deref a p) (\<lambda>l.
        let (oplog_delta, l) = RowOpLog_FindCreate (ro_InitUpdate ops) c l in
        Inr (assign a (rol_store c (ro_AddUpdates ops c oplog_delta delta) l) p)))"

definition partition_Inc ::
  "('m, int, nat) cuckoo \<Rightarrow> ('r, 'v) row_ops \<Rightarrow> int \<Rightarrow> int \<Rightarrow> 'v \<Rightarrow>
   ('m, 'v) oplog_partition \<Rightarrow> ('m, 'v) oplog_partition result" where
  "partition_Inc ck ops row c delta p =
     (let (a, p) = FindInsertOpLog ck row p in add_to_oplog ops a p (c, delta))"

definition partition_BatchInc ::
  "('m, int, nat) cuckoo \<Rightarrow> ('r, 'v) row_ops \<Rightarrow> int \<Rightarrow> (int \<times> 'v) list \<Rightarrow>
   ('m, 'v) oplog_partition \<Rightarrow> ('m, 'v) oplog_partition result" where
  "partition_BatchInc ck ops row deltas p =
     (let (a, p) = FindInsertOpLog ck row p in foldM (add_to_oplog ops a) p deltas)"

text \<open>The row oplog leaves the partition: its owner is now the caller.\<close>

definition GetEraseOpLog ::
  "('m, int, nat) cuckoo \<Rightarrow> int \<Rightarrow> ('m, 'v) oplog_partition \<Rightarrow>
   ('v row_oplog option \<times> ('m, 'v) oplog_partition) result" where
  "GetEraseOpLog ck row p =
     (case ck_find ck (op_map p) row of
        None \<Rightarrow> Inr (None, p)
      | Some a \<Rightarrow> rbind (deref a p) (\<lambda>l.
          Inr (Some l, p\<lparr>op_map := snd (ck_erase ck row (op_map p)),
                         op_store := AList.delete a (op_store p)\<rparr>)))"

text \<open>
  The outer option is the returned bool, the inner one the pointer (null when
  the test rejects the oplog).
\<close>

definition GetEraseOpLogIf ::
  "('m, int, nat) cuckoo \<Rightarrow> int \<Rightarrow> ('v row_oplog \<Rightarrow> bool) \<Rightarrow> ('m, 'v) oplog_partition \<Rightarrow>
   ('v row_oplog option option \<times> ('m, 'v) oplog_partition) result" where
  "GetEraseOpLogIf ck row test p =
     (case ck_find ck (op_map p) row of
        None \<Rightarrow> Inr (None, p)
      | Some a \<Rightarrow> rbind (deref a p) (\<lambda>l.
          if \<not> test l then Inr (Some None, p)
          else Inr (Some (Some l), p\<lparr>op_map := snd (ck_erase ck row (op_map p)),
                         op_store := AList.delete a (op_store p)\<rparr>)))"

section \<open>TableOpLog\<close>

record ('m, 'v) table_oplog =
  to_table_id :: int
  to_partitions :: "('m, 'v) oplog_partition list"

definition TableOpLog ::
  "('m, int, nat) cuckoo \<Rightarrow> ('r, 'v) row_ops \<Rightarrow> global_context \<Rightarrow> int \<Rightarrow> ('m, 'v) table_oplog" where
  "TableOpLog ck ops g table_id =
     \<lparr>to_table_id = table_id,
      to_partitions = replicate (nat (num_bg_threads g)) (OpLogPartition ck ops table_id)\<rparr>"

definition on_partition ::
  "global_context \<Rightarrow> int \<Rightarrow> (('m, 'v) oplog_partition \<Rightarrow> ('a \<times> ('m, 'v) oplog_partition) result) \<Rightarrow>
   ('m, 'v) table_oplog \<Rightarrow> ('a \<times> ('m, 'v) table_oplog) result" where
  "on_partition g row f t =
     rbind (GetBgPartitionNum g row) (\<lambda>i.
     rbind (vec_at (to_partitions t) i) (\<lambda>p.
     rbind (f p) (\<lambda>(x, p).
       Inr (x, t\<lparr>to_partitions := (to_partitions t)[nat i := p]\<rparr>))))"

definition table_Inc where
  "table_Inc ck ops g row c delta t =
     on_partition g row (\<lambda>p. rbind (partition_Inc ck ops row c delta p) (\<lambda>p. Inr ((), p))) t"

definition table_BatchInc where
  "table_BatchInc ck ops g row deltas t =
     on_partition g row (\<lambda>p. rbind (partition_BatchInc ck ops row deltas p) (\<lambda>p. Inr ((), p))) t"

definition table_FindOpLog where
  "table_FindOpLog ck g row t = on_partition g row (\<lambda>p. Inr (FindOpLog ck row p, p)) t"

definition table_FindInsertOpLog where
  "table_FindInsertOpLog ck g row t = on_partition g row (\<lambda>p. Inr (FindInsertOpLog ck row p)) t"

definition table_GetEraseOpLog where
  "table_GetEraseOpLog ck g row t = on_partition g row (GetEraseOpLog ck row) t"

definition table_GetEraseOpLogIf where
  "table_GetEraseOpLogIf ck g row test t = on_partition g row (GetEraseOpLogIf ck row test) t"

section \<open>The index of touched rows\<close>

definition index_AddIndex :: "('m, int, bool) cuckoo \<Rightarrow> int list \<Rightarrow> 'm \<Rightarrow> 'm" where
  "index_AddIndex ck rows idx = fold (\<lambda>row m. snd (ck_insert ck row True m)) rows idx"

definition index_Reset :: "('m, int, bool) cuckoo \<Rightarrow> 'm \<Rightarrow> 'm \<times> 'm" where
  "index_Reset ck idx = (idx, ck_new ck)"

definition TableOpLogIndex :: "('m, int, bool) cuckoo \<Rightarrow> global_context \<Rightarrow> 'm list" where
  "TableOpLogIndex ck g = replicate (nat (num_bg_threads g)) (ck_new ck)"

definition table_AddIndex :: "('m, int, bool) cuckoo \<Rightarrow> int \<Rightarrow> int list \<Rightarrow> 'm list \<Rightarrow> 'm list result" where
  "table_AddIndex ck part rows idxs =
     rbind (vec_at idxs part) (\<lambda>m. Inr (idxs[nat part := index_AddIndex ck rows m]))"

definition ResetPartition :: "('m, int, bool) cuckoo \<Rightarrow> int \<Rightarrow> 'm list \<Rightarrow> ('m \<times> 'm list) result" where
  "ResetPartition ck part idxs =
     rbind (vec_at idxs part) (\<lambda>m. let (old, new) = index_Reset ck m in Inr (old, idxs[nat part := new]))"

section \<open>Pending updates\<close>

definition part_ok :: "('m, int, nat) cuckoo \<Rightarrow> ('m \<Rightarrow> bool) \<Rightarrow> ('m, 'v) oplog_partition \<Rightarrow> bool" where
  "part_ok ck ck_inv p \<longleftrightarrow> ck_inv (op_map p) \<and>
     (\<forall>row a. ck_find ck (op_map p) row = Some a \<longrightarrow>
        a < op_next p \<and> (\<exists>l. map_of (op_store p) a = Some l \<and> rol_ok l)) \<and>
     (\<forall>row row' a. ck_find ck (op_map p) row = Some a \<and> ck_find ck (op_map p) row' = Some a \<longrightarrow> row = row')"

lemma part_ok_deref:
  "part_ok ck ck_inv p \<Longrightarrow> ck_find ck (op_map p) row = Some a \<Longrightarrow>
   \<exists>l. map_of (op_store p) a = Some l \<and> rol_ok l"
  unfolding part_ok_def by blast

lemma part_ok_inj:
  "part_ok ck ck_inv p \<Longrightarrow> ck_find ck (op_map p) row = Some a \<Longrightarrow>
   ck_find ck (op_map p) row' = Some a \<Longrightarrow> row' = row"
  unfolding part_ok_def by blast

text \<open>\<open>pend ck p row c\<close>: the accumulated update of an entry that has not been sent.\<close>

definition pend :: "('m, int, nat) cuckoo \<Rightarrow> ('m, 'v::zero) oplog_partition \<Rightarrow> int \<Rightarrow> int \<Rightarrow> 'v" where
  "pend ck p row c =
     (case ck_find ck (op_map p) row of None \<Rightarrow> 0
      | Some a \<Rightarrow> (case map_of (op_store p) a of None \<Rightarrow> 0 | Some l \<Rightarrow> rol_val l c))"

lemma FindCreate_store:
  assumes "rol_ok l" "RowOpLog_FindCreate i c l = (u, l')"
  shows "rol_ok (rol_store c w l') \<and> rol_val (rol_store c w l') = (rol_val l)(c := w) \<and>
    u = (case map_of (rol_oplogs l) c of None \<Rightarrow> i c | Some u \<Rightarrow> u)"
  using assms
  by (auto simp: RowOpLog_FindCreate_def rol_store_def rol_ok_def rol_val_def osorted_oupd map_of_oupd
      fun_eq_iff split: option.splits)

locale oplog_store = cuckoo_map ck ck_inv
  for ck :: "('m, int, nat) cuckoo" and ck_inv :: "'m \<Rightarrow> bool" +
  fixes ops :: "('r, 'v::ab_group_add) row_ops"
  assumes add_up: "ro_AddUpdates ops c u1 u2 = u1 + u2"
    and init_up: "ro_InitUpdate ops c = 0"
begin

lemma new_partition_ok: "part_ok ck ck_inv (OpLogPartition ck ops t) \<and>
    pend ck (OpLogPartition ck ops t :: ('m, 'v) oplog_partition) row c = 0"
  by (simp add: part_ok_def pend_def OpLogPartition_def new_ok)

lemma FindInsert_ok:
  assumes "part_ok ck ck_inv p" "FindInsertOpLog ck row p = (a, p')"
  shows "part_ok ck ck_inv p' \<and> ck_find ck (op_map p') row = Some a \<and> pend ck p' = (pend ck p :: _ \<Rightarrow> _ \<Rightarrow> 'v)"
proof (cases "ck_find ck (op_map p) row")
  case None
  have p': "p' = p\<lparr>op_map := snd (ck_insert ck row (op_next p) (op_map p)),
      op_store := AList.update (op_next p) (RowOpLog (op_update_size p)) (op_store p), op_next := op_next p + 1\<rparr>"
    and a: "a = op_next p"
    using assms(2) None by (auto simp: FindInsertOpLog_def CreateRowOpLog_def)
  have m: "ck_find ck (op_map p') = (ck_find ck (op_map p))(row \<mapsto> op_next p)" "ck_inv (op_map p')"
    using assms(1) None p' by (simp_all add: part_ok_def insert_fresh insert_inv)
  have old: "ck_find ck (op_map p) r = Some b \<Longrightarrow> b < op_next p" for r b
    using assms(1) by (simp add: part_ok_def)
  have "part_ok ck ck_inv p'"
    using assms(1) m old unfolding part_ok_def
    by (auto simp: p' update_conv' RowOpLog_def rol_ok_def dest: less_imp_neq intro: less_SucI)
  moreover have "pend ck p' r c = pend ck p r c" for r c
    using None m old [of r] by (auto simp: pend_def p' update_conv' RowOpLog_def rol_val_def split: option.splits)
  ultimately show ?thesis using m a by (simp add: fun_eq_iff)
next
  case (Some b)
  then show ?thesis using assms by (simp add: FindInsertOpLog_def)
qed

lemma add_to_oplog_ok:
  assumes "part_ok ck ck_inv p" "ck_find ck (op_map p) row = Some a"
  shows "\<exists>p'. add_to_oplog ops a p (c, d) = Inr p' \<and> part_ok ck ck_inv p' \<and> op_map p' = op_map p \<and>
    pend ck p' = (pend ck p)(row := (pend ck p row)(c := pend ck p row c + d))"
proof -
  obtain l where l: "map_of (op_store p) a = Some l" "rol_ok l"
    using part_ok_deref [OF assms] by blast
  obtain u l' where fc: "RowOpLog_FindCreate (ro_InitUpdate ops) c l = (u, l')" by force
  let ?l = "rol_store c (u + d) l'" and ?p = "assign a (rol_store c (u + d) l') p"
  note st = FindCreate_store [OF l(2) fc]
  have e: "add_to_oplog ops a p (c, d) = Inr ?p"
    by (simp add: add_to_oplog_def deref_def l fc add_up)
  have u: "u = rol_val l c" using st by (simp add: rol_val_def init_up split: option.splits)
  have rv: "rol_val ?l = (rol_val l)(c := rol_val l c + d)" "rol_ok ?l"
    using conjunct1 [OF conjunct2 [OF st [of "u + d"]]] conjunct1 [OF st [of "u + d"]]
    unfolding u by blast+
  have store: "map_of (op_store ?p) b = (if b = a then Some ?l else map_of (op_store p) b)" for b
    by (simp add: assign_def update_conv')
  have om: "op_map ?p = op_map p" "op_next ?p = op_next p" by (simp_all add: assign_def)
  have "part_ok ck ck_inv ?p"
    using assms(1) rv(2) unfolding part_ok_def om store by auto
  moreover have inj: "ck_find ck (op_map p) r = Some a \<Longrightarrow> r = row" for r
    using part_ok_inj [OF assms] by blast
  have "pend ck ?p r k = ((pend ck p)(row := (pend ck p row)(c := pend ck p row c + d))) r k" for r k
    using l assms(2) inj [of r] unfolding pend_def om store
    by (cases "ck_find ck (op_map p) r") (auto simp: rv(1))
  ultimately show ?thesis using e om by (auto simp: fun_eq_iff)
qed

lemma partition_Inc_ok:
  assumes "part_ok ck ck_inv p"
  shows "\<exists>p'. partition_Inc ck ops row c d p = Inr p' \<and> part_ok ck ck_inv p' \<and>
    pend ck p' = (pend ck p)(row := (pend ck p row)(c := pend ck p row c + d))"
proof -
  obtain a q where q: "FindInsertOpLog ck row p = (a, q)" by force
  note f = FindInsert_ok [OF assms q]
  from add_to_oplog_ok [of q row a c d] f q show ?thesis by (auto simp: partition_Inc_def)
qed

lemma batch_fold_ok:
  "part_ok ck ck_inv p \<Longrightarrow> ck_find ck (op_map p) row = Some a \<Longrightarrow>
   \<exists>p'. foldM (add_to_oplog ops a) p ds = Inr p' \<and> part_ok ck ck_inv p' \<and>
    pend ck p' = (pend ck p)(row := (\<lambda>c. pend ck p row c + upd_sum ds c))"
proof (induction ds arbitrary: p)
  case (Cons x ds)
  obtain c d where x: "x = (c, d)" by force
  obtain q where q: "add_to_oplog ops a p x = Inr q" "part_ok ck ck_inv q" "op_map q = op_map p"
    "pend ck q = (pend ck p)(row := (pend ck p row)(c := pend ck p row c + d))"
    using add_to_oplog_ok [OF Cons.prems, of c d] x by blast
  have "ck_find ck (op_map q) row = Some a" using q(3) Cons.prems(2) by simp
  from Cons.IH [OF q(2) this] obtain p' where
    "foldM (add_to_oplog ops a) q ds = Inr p'" "part_ok ck ck_inv p'"
    "pend ck p' = (pend ck q)(row := (\<lambda>c. pend ck q row c + upd_sum ds c))" by blast
  with q x show ?case by (auto simp: fun_eq_iff algebra_simps)
qed simp

lemma partition_BatchInc_ok:
  assumes "part_ok ck ck_inv p"
  shows "\<exists>p'. partition_BatchInc ck ops row ds p = Inr p' \<and> part_ok ck ck_inv p' \<and>
    pend ck p' = (pend ck p)(row := (\<lambda>c. pend ck p row c + upd_sum ds c))"
proof -
  obtain a q where q: "FindInsertOpLog ck row p = (a, q)" by force
  note f = FindInsert_ok [OF assms q]
  from batch_fold_ok [of q row a ds] f q show ?thesis by (auto simp: partition_BatchInc_def)
qed

lemma GetErase_ok:
  assumes "part_ok ck ck_inv p"
  shows "\<exists>x p'. GetEraseOpLog ck row p = Inr (x, p') \<and> part_ok ck ck_inv p' \<and>
    (case x of None \<Rightarrow> ck_find ck (op_map p) row = None \<and> pend ck p row = (\<lambda>_. 0) \<and> p' = p
     | Some l \<Rightarrow> rol_ok l \<and> rol_val l = pend ck p row) \<and>
    pend ck p' = (pend ck p)(row := (\<lambda>_. 0))"
proof (cases "ck_find ck (op_map p) row")
  case None
  then show ?thesis using assms by (auto simp: GetEraseOpLog_def pend_def fun_eq_iff)
next
  case (Some a)
  obtain l where l: "map_of (op_store p) a = Some l" "rol_ok l"
    using part_ok_deref [OF assms Some] by blast
  let ?p = "p\<lparr>op_map := snd (ck_erase ck row (op_map p)), op_store := AList.delete a (op_store p)\<rparr>"
  have f: "ck_find ck (op_map ?p) r = (if r = row then None else ck_find ck (op_map p) r)"
    "ck_inv (op_map ?p)" for r
    using assms by (simp_all add: part_ok_def erase_find erase_inv)
  have ne: "ck_find ck (op_map p) r = Some b \<Longrightarrow> r \<noteq> row \<Longrightarrow> b \<noteq> a" for r b
    using part_ok_inj [OF assms Some] by blast
  have "part_ok ck ck_inv ?p"
    using assms f ne unfolding part_ok_def by (auto simp: delete_conv')
  moreover have "pend ck ?p r c = ((pend ck p)(row := (\<lambda>_. 0))) r c" for r c
    using f(1) ne [of r] by (cases "ck_find ck (op_map p) r") (auto simp: pend_def delete_conv')
  ultimately show ?thesis using l Some
    by (auto simp: GetEraseOpLog_def deref_def pend_def fun_eq_iff)
qed

end

section \<open>Runs of a partition\<close>

text \<open>
  The operations of several threads on one partition, in the order in which the
  row lock admits them; \<open>taken\<close> collects the oplogs handed to the background thread.
\<close>

datatype 'v part_op = Op_Inc int int 'v | Op_BatchInc int "(int \<times> 'v) list" | Op_GetErase int

fun part_step ::
  "('m, int, nat) cuckoo \<Rightarrow> ('r, 'v) row_ops \<Rightarrow> ('m, 'v) oplog_partition \<times> (int \<times> 'v row_oplog) list \<Rightarrow>
   'v part_op \<Rightarrow> (('m, 'v) oplog_partition \<times> (int \<times> 'v row_oplog) list) result" where
  "part_step ck ops (p, taken) (Op_Inc row c d) =
     rbind (partition_Inc ck ops row c d p) (\<lambda>p. Inr (p, taken))"
| "part_step ck ops (p, taken) (Op_BatchInc row ds) =
     rbind (partition_BatchInc ck ops row ds p) (\<lambda>p. Inr (p, taken))"
| "part_step ck ops (p, taken) (Op_GetErase row) =
     rbind (GetEraseOpLog ck row p) (\<lambda>(x, p).
       Inr (p, case x of None \<Rightarrow> taken | Some l \<Rightarrow> (row, l) # taken))"

fun op_sum :: "'v::ab_group_add part_op list \<Rightarrow> int \<Rightarrow> int \<Rightarrow> 'v" where
  "op_sum [] row c = 0"
| "op_sum (Op_Inc row' c' d # xs) row c = (if row' = row \<and> c' = c then d else 0) + op_sum xs row c"
| "op_sum (Op_BatchInc row' ds # xs) row c = (if row' = row then upd_sum ds c else 0) + op_sum xs row c"
| "op_sum (Op_GetErase row' # xs) row c = op_sum xs row c"

fun taken_sum :: "(int \<times> 'v::ab_group_add row_oplog) list \<Rightarrow> int \<Rightarrow> int \<Rightarrow> 'v" where
  "taken_sum [] row c = 0"
| "taken_sum ((row', l) # ts) row c = (if row' = row then rol_val l c else 0) + taken_sum ts row c"

context oplog_store
begin

lemma part_step_ok:
  assumes "part_ok ck ck_inv p"
  shows "\<exists>p' t'. part_step ck ops (p, t) x = Inr (p', t') \<and> part_ok ck ck_inv p' \<and>
    (\<forall>row c. taken_sum t' row c + pend ck p' row c = taken_sum t row c + pend ck p row c + op_sum [x] row c)"
proof (cases x)
  case (Op_Inc row c d)
  then show ?thesis using partition_Inc_ok [OF assms, of row c d] by auto
next
  case (Op_BatchInc row ds)
  then show ?thesis using partition_BatchInc_ok [OF assms, of row ds] by auto
next
  case (Op_GetErase row)
  obtain y p' where y: "GetEraseOpLog ck row p = Inr (y, p')" "part_ok ck ck_inv p'"
    "case y of None \<Rightarrow> ck_find ck (op_map p) row = None \<and> pend ck p row = (\<lambda>_. 0) \<and> p' = p
     | Some l \<Rightarrow> rol_ok l \<and> rol_val l = pend ck p row"
    "pend ck p' = (pend ck p)(row := (\<lambda>_. 0))" using GetErase_ok [OF assms] by blast
  then show ?thesis using Op_GetErase by (cases y) (auto simp: fun_eq_iff)
qed

lemma part_run_ok:
  "part_ok ck ck_inv p \<Longrightarrow>
   \<exists>p' t'. foldM (part_step ck ops) (p, t) xs = Inr (p', t') \<and> part_ok ck ck_inv p' \<and>
    (\<forall>row c. taken_sum t' row c + pend ck p' row c = taken_sum t row c + pend ck p row c + op_sum xs row c)"
proof (induction xs arbitrary: p t)
  case (Cons x xs)
  obtain q u where q: "part_step ck ops (p, t) x = Inr (q, u)" "part_ok ck ck_inv q"
    "\<forall>row c. taken_sum u row c + pend ck q row c = taken_sum t row c + pend ck p row c + op_sum [x] row c"
    using part_step_ok [OF Cons.prems] by blast
  obtain p' t' where r: "foldM (part_step ck ops) (q, u) xs = Inr (p', t')" "part_ok ck ck_inv p'"
    "\<forall>row c. taken_sum t' row c + pend ck p' row c = taken_sum u row c + pend ck q row c + op_sum xs row c"
    using Cons.IH [OF q(2)] by blast
  have "op_sum (x # xs) row c = op_sum [x] row c + op_sum xs row c" for row c
    by (cases x) simp_all
  then show ?case using q r by (auto simp: algebra_simps)
qed simp

end

interpretation oplog_dense: oplog_store alist_cuckoo amap_ok "dense_ops i32_pod"
  by unfold_locales (simp_all add: dense_ops_def)

section \<open>Properties\<close>

text \<open>
  C31. No update is lost or counted twice in a partition of the oplog: after any sequence of
  increments, batch increments and removals, whatever the row they concern, every
  entry's updates that were handed out plus those still pending are the sum of all
  increments made.
\<close>

theorem oplog_conservation:
  assumes "oplog_store ck ck_inv ops"
  shows "\<exists>p taken. foldM (part_step ck ops) (OpLogPartition ck ops t, []) xs = Inr (p, taken) \<and>
    part_ok ck ck_inv p \<and>
    (\<forall>row c. taken_sum taken row c + pend ck p row c = op_sum xs row c)"
  using oplog_store.part_run_ok [OF assms, of "OpLogPartition ck ops t" "[]" xs]
    oplog_store.new_partition_ok [OF assms, of t]
  by simp

theorem oplog_conservation_witness:
  "\<exists>p taken. foldM (part_step alist_cuckoo (dense_ops i32_pod))
      (OpLogPartition alist_cuckoo (dense_ops i32_pod) 0, [])
      [Op_Inc 1 0 5, Op_GetErase 1, Op_BatchInc 1 [(0, 2), (3, 4)]] = Inr (p, taken) \<and>
    part_ok alist_cuckoo amap_ok p \<and>
    (\<forall>row c. taken_sum taken row c + pend alist_cuckoo p row c =
       op_sum [Op_Inc 1 0 5, Op_GetErase 1, Op_BatchInc 1 [(0, 2), (3, 4)]] row c)"
  by (rule oplog_conservation) (rule oplog_dense.oplog_store_axioms)

end
