(* ===== verification/Oplog_Serial.thy ===== *)
theory Oplog_Serial
imports Oplog
begin

text \<open>
  The wire format of update logs.  The sending side is \<open>BgOpLogPartition\<close> and
  \<open>BgOpLog\<close> (petuum_ps/thread/bg_oplog_partition.cpp, bg_oplog.hpp),
  \<open>OpLogSerializer\<close> (petuum_ps/oplog/serialized_oplog_reader.hpp) and
  \<open>BgWorkers::CreateOpLogMsgs\<close>; the receiving side is \<open>SerializedOpLogReader\<close>.
  A pointer into the message of a server is an offset into that message's bytes.
\<close>

section \<open>Sending side: one table\<close>

record 'v bg_oplog_partition =
  bp_table_id :: int
  bp_update_size :: nat
  bp_map :: "(int, 'v row_oplog) amap"

definition BgOpLogPartition :: "int \<Rightarrow> nat \<Rightarrow> 'v bg_oplog_partition" where
  "BgOpLogPartition table_id update_size =
     \<lparr>bp_table_id = table_id, bp_update_size = update_size, bp_map = []\<rparr>"

definition BgOpLogPartition_FindOpLog :: "int \<Rightarrow> 'v bg_oplog_partition \<Rightarrow> 'v row_oplog option" where
  "BgOpLogPartition_FindOpLog row p = map_of (bp_map p) row"

definition BgOpLogPartition_InsertOpLog ::
  "int \<Rightarrow> 'v row_oplog \<Rightarrow> 'v bg_oplog_partition \<Rightarrow> 'v bg_oplog_partition" where
  "BgOpLogPartition_InsertOpLog row l p = p\<lparr>bp_map := AList.update row l (bp_map p)\<rparr>"

type_synonym 'v bg_oplog = "(int \<times> 'v bg_oplog_partition) list"

definition BgOpLog_Add :: "int \<Rightarrow> 'v bg_oplog_partition \<Rightarrow> 'v bg_oplog \<Rightarrow> 'v bg_oplog" where
  "BgOpLog_Add t p b = oupd t p b"

definition BgOpLog_Get :: "int \<Rightarrow> 'v bg_oplog \<Rightarrow> 'v bg_oplog_partition result" where
  "BgOpLog_Get t b = of_option OutOfRange (map_of b t)"

text \<open>\<open>offset\<close> variables are \<open>int32_t\<close>: a value beyond their range is an error.\<close>

definition i32_off :: "nat \<Rightarrow> nat result" where
  "i32_off n = (if n < 2 ^ 31 then Inr n else Inl (Undefined ''int32_t offset''))"

definition wr_i32 :: "bytes \<Rightarrow> nat \<Rightarrow> int \<Rightarrow> bytes result" where
  "wr_i32 m off x = mem_write m off (i32_enc x)"

text \<open>The loop over one row's updates: columns at \<open>p\<close>, updates at \<open>q\<close>.\<close>

fun ser_updates :: "'v pod \<Rightarrow> bytes \<Rightarrow> nat \<Rightarrow> nat \<Rightarrow> (int \<times> 'v) list \<Rightarrow> bytes result" where
  "ser_updates pd m p q [] = Inr m"
| "ser_updates pd m p q ((c, u) # es) =
     rbind (wr_i32 m p c) (\<lambda>m.
     rbind (mem_write m q (p_enc pd u)) (\<lambda>m.
     ser_updates pd m (p + 4) (q + p_size pd) es))"

definition ser_row :: "'v pod \<Rightarrow> bytes \<Rightarrow> nat \<Rightarrow> int \<Rightarrow> 'v row_oplog \<Rightarrow> bytes result" where
  "ser_row pd m off row l =
     rbind (wr_i32 m off row) (\<lambda>m.
     rbind (wr_i32 m (off + 4) (RowOpLog_GetSize l)) (\<lambda>m.
     let mem = off + 8; mem_updates = mem + 4 * length (rol_oplogs l) in
     (case RowOpLog_BeginIterateConst l of (e, l') \<Rightarrow>
        rbind (traverse_const e l') (\<lambda>es. ser_updates pd m mem mem_updates es))))"

type_synonym mems = "(int \<times> bytes) list"

definition mem_of :: "mems \<Rightarrow> int \<Rightarrow> bytes result" where
  "mem_of ms s = of_option (Undefined ''null pointer'') (map_of ms s)"

definition ptr_of :: "(int \<times> nat) list \<Rightarrow> int \<Rightarrow> nat result" where
  "ptr_of ps s = of_option (Undefined ''null pointer'') (map_of ps s)"

definition ser_step ::
  "'v pod \<Rightarrow> global_context \<Rightarrow> int \<Rightarrow> (int \<times> nat) list \<Rightarrow> mems \<times> (int \<times> nat) list \<Rightarrow>
   int \<times> 'v row_oplog \<Rightarrow> (mems \<times> (int \<times> nat) list) result" where
  "ser_step pd g table ptrs st rl =
     (case st of (ms, offs) \<Rightarrow> case rl of (row, l) \<Rightarrow>
      rbind (GetRowPartitionServerID g table row) (\<lambda>s.
      rbind (mem_of ms s) (\<lambda>m.
      rbind (ptr_of ptrs s) (\<lambda>base.
      rbind (ptr_of offs s) (\<lambda>off.
      rbind (ser_row pd m (base + off) row l) (\<lambda>m.
      rbind (i32_off (off + (4 + 4 + (4 + p_size pd) * nat (RowOpLog_GetSize l)))) (\<lambda>off'.
      rbind (rd_i32 m base) (\<lambda>k.
      rbind (wr_i32 m base (k + 1)) (\<lambda>m.
      Inr (oupd s m ms, oupd s off' offs))))))))))"

definition ser_init ::
  "(int \<times> nat) list \<Rightarrow> mems \<times> (int \<times> nat) list \<Rightarrow> int \<Rightarrow> (mems \<times> (int \<times> nat) list) result" where
  "ser_init ptrs st s =
     (case st of (ms, offs) \<Rightarrow>
      rbind (mem_of ms s) (\<lambda>m. rbind (ptr_of ptrs s) (\<lambda>base.
      rbind (wr_i32 m base 0) (\<lambda>m. Inr (oupd s m ms, oupd s 4 offs)))))"

definition SerializeByServer ::
  "'v pod \<Rightarrow> global_context \<Rightarrow> 'v bg_oplog_partition \<Rightarrow> (int \<times> nat) list \<Rightarrow> mems \<Rightarrow> mems result" where
  "SerializeByServer pd g p ptrs ms =
     rbind (foldM (ser_init ptrs) (ms, []) (take (nat (num_servers g)) (server_ids g))) (\<lambda>st.
     rbind (foldM (ser_step pd g (bp_table_id p) ptrs) st (bp_map p)) (\<lambda>(ms, _). Inr ms))"

section \<open>Sending side: the messages of all servers\<close>

record oplog_serializer =
  os_offset_map :: "(int \<times> nat) list"
  os_num_tables :: int

definition OpLogSerializer_Init :: "(int \<times> nat) list \<Rightarrow> nat \<times> oplog_serializer" where
  "OpLogSerializer_Init table_size_map =
     (let (total, offs) = foldl (\<lambda>(total, offs) (t, sz). (total + (sz + 4 + 8), oupd t total offs))
            (4, []) table_size_map in
      (total, \<lparr>os_offset_map = offs, os_num_tables = int (length table_size_map)\<rparr>))"

definition AssignMem :: "oplog_serializer \<Rightarrow> bytes \<Rightarrow> bytes result" where
  "AssignMem os m = wr_i32 m 0 (os_num_tables os)"

text \<open>\<open>offset_map_[table_id]\<close> of an unknown table is 0, the start of the message.\<close>

definition GetTablePtr :: "oplog_serializer \<Rightarrow> int \<Rightarrow> nat" where
  "GetTablePtr os t = (case map_of (os_offset_map os) t of None \<Rightarrow> 0 | Some off \<Rightarrow> off)"

text \<open>The header of one table: id and update size; the rows start behind it.\<close>

definition put_table_header :: "oplog_serializer \<Rightarrow> bytes \<Rightarrow> int \<times> nat \<Rightarrow> bytes result" where
  "put_table_header os m tu =
     (case tu of (t, update_size) \<Rightarrow>
      rbind (wr_i32 m (GetTablePtr os t) t) (\<lambda>m.
      mem_write m (GetTablePtr os t + 4) (size_enc update_size)))"

definition create_server_msg ::
  "(int \<times> nat) list \<Rightarrow> (nat \<Rightarrow> bytes) \<Rightarrow> (int \<times> nat) list \<Rightarrow> (bytes \<times> (int \<times> nat) list) result" where
  "create_server_msg tables alloc table_size_map =
     (let (total, os) = OpLogSerializer_Init table_size_map in
      rbind (AssignMem os (alloc total)) (\<lambda>m.
      rbind (foldM (put_table_header os) m tables) (\<lambda>m.
      Inr (m, map (\<lambda>(t, _). (t, GetTablePtr os t + 4 + 8)) tables))))"

text \<open>
  \<open>CreateOpLogMsgs\<close>: \<open>tables\<close> lists the client tables with their update sizes,
  \<open>sizes\<close> is \<open>server_table_oplog_size_map\<close>, \<open>alloc n\<close> a fresh message of \<open>n\<close>
  data bytes.
\<close>

definition create_msgs ::
  "(int \<times> nat) list \<Rightarrow> (nat \<Rightarrow> bytes) \<Rightarrow> (int \<times> (int \<times> nat) list) list \<Rightarrow>
   (int \<times> bytes \<times> (int \<times> nat) list) list result" where
  "create_msgs tables alloc sizes =
     mapM (\<lambda>(s, table_size_map). rbind (create_server_msg tables alloc table_size_map)
             (\<lambda>(m, ptrs). Inr (s, m, ptrs))) sizes"

definition table_ptrs :: "(int \<times> bytes \<times> (int \<times> nat) list) list \<Rightarrow> int \<Rightarrow> (int \<times> nat) list" where
  "table_ptrs msgs t = List.map_filter (\<lambda>(s, _, ptrs). map_option (Pair s) (map_of ptrs t)) msgs"

definition CreateOpLogMsgs ::
  "'v pod \<Rightarrow> global_context \<Rightarrow> (int \<times> nat) list \<Rightarrow> (nat \<Rightarrow> bytes) \<Rightarrow>
   (int \<times> (int \<times> nat) list) list \<Rightarrow> 'v bg_oplog \<Rightarrow> mems result" where
  "CreateOpLogMsgs pd g tables alloc sizes bg =
     rbind (create_msgs tables alloc sizes) (\<lambda>msgs.
     foldM (\<lambda>ms (t, _). rbind (BgOpLog_Get t bg) (\<lambda>p.
              SerializeByServer pd g p (table_ptrs msgs t) ms))
       (map (\<lambda>(s, m, _). (s, m)) msgs) tables)"

section \<open>Receiving side\<close>

record oplog_reader =
  or_update_size :: nat
  or_offset :: nat
  or_tables_left :: int
  or_table_id :: int
  or_rows_left :: int

definition StartNewTable :: "bytes \<Rightarrow> oplog_reader \<Rightarrow> oplog_reader result" where
  "StartNewTable m r =
     rbind (rd_i32 m (or_offset r)) (\<lambda>t.
     rbind (rd_size m (or_offset r + 4)) (\<lambda>us.
     rbind (rd_i32 m (or_offset r + 12)) (\<lambda>n.
     rbind (i32_off (or_offset r + 16)) (\<lambda>off.
     Inr (r\<lparr>or_table_id := t, or_update_size := us, or_rows_left := n, or_offset := off\<rparr>)))))"

definition OpLogReader_Restart :: "bytes \<Rightarrow> oplog_reader \<Rightarrow> (bool \<times> oplog_reader) result" where
  "OpLogReader_Restart m r =
     rbind (rd_i32 m 0) (\<lambda>n.
     let r = r\<lparr>or_tables_left := n, or_offset := 4\<rparr> in
     if n = 0 then Inr (False, r)
     else rbind (StartNewTable m r) (\<lambda>r. Inr (True, r)))"

text \<open>
  What \<open>Next\<close> hands out: table, row, number of updates, the places of the column
  and update arrays, and whether a new table has been started.
\<close>

record oplog_item =
  oi_table :: int
  oi_row :: int
  oi_num :: int
  oi_cols :: nat
  oi_updates :: nat
  oi_new_table :: bool

definition reader_row :: "bytes \<Rightarrow> oplog_reader \<Rightarrow> bool \<Rightarrow> (oplog_item \<times> oplog_reader) result" where
  "reader_row m r started =
     rbind (rd_i32 m (or_offset r)) (\<lambda>row.
     rbind (rd_i32 m (or_offset r + 4)) (\<lambda>n.
     if n < 0 then Inl (Undefined ''negative number of updates'')
     else
       let cols = or_offset r + 8 in
       rbind (i32_off (cols + nat n * (4 + or_update_size r))) (\<lambda>off.
       Inr (\<lparr>oi_table = or_table_id r, oi_row = row, oi_num = n, oi_cols = cols,
             oi_updates = cols + 4 * nat n, oi_new_table = started\<rparr>,
            r\<lparr>or_rows_left := or_rows_left r - 1, or_offset := off\<rparr>))))"

function reader_loop :: "bytes \<Rightarrow> oplog_reader \<Rightarrow> bool \<Rightarrow> (oplog_item option \<times> oplog_reader) result" where
  "reader_loop m r started =
     (if or_rows_left r > 0 then rbind (reader_row m r started) (\<lambda>(i, r). Inr (Some i, r))
      else let r = r\<lparr>or_tables_left := or_tables_left r - 1\<rparr> in
        if or_tables_left r > 0
        then (case StartNewTable m r of Inl e \<Rightarrow> Inl e
              | Inr r' \<Rightarrow> reader_loop m r' True)
        else Inr (None, r))"
  by pat_completeness auto
termination
proof (relation "measure (\<lambda>(m, r, s). nat (or_tables_left r))", goal_cases)
  case (2 m r started r1 r2)
  then show ?case by (auto simp: StartNewTable_def rbind_eq_Inr i32_off_def split: if_splits)
qed simp

declare reader_loop.simps [simp del]

definition OpLogReader_Next :: "bytes \<Rightarrow> oplog_reader \<Rightarrow> (oplog_item option \<times> oplog_reader) result" where
  "OpLogReader_Next m r =
     (if or_tables_left r = 0 then Inr (None, r) else reader_loop m r False)"

text \<open>A reader's user: \<open>Restart\<close>, then \<open>Next\<close> until the null pointer, at most \<open>n\<close> times.\<close>

fun read_items :: "nat \<Rightarrow> bytes \<Rightarrow> oplog_reader \<Rightarrow> oplog_item list result" where
  "read_items 0 m r = Inl OutOfFuel"
| "read_items (Suc n) m r =
     rbind (OpLogReader_Next m r) (\<lambda>(x, r).
       case x of None \<Rightarrow> Inr []
       | Some i \<Rightarrow> rbind (read_items n m r) (\<lambda>is. Inr (i # is)))"

definition item_updates :: "'v pod \<Rightarrow> bytes \<Rightarrow> oplog_item \<Rightarrow> (int \<times> int \<times> (int \<times> 'v) list) result" where
  "item_updates pd m i =
     rbind (i32.rd_array (nat (oi_num i)) m (oi_cols i)) (\<lambda>cols.
     rbind (mem_read m (oi_updates i) (nat (oi_num i) * p_size pd)) (\<lambda>bs.
     Inr (oi_table i, oi_row i, zip cols (dec_array pd (nat (oi_num i)) bs))))"

section \<open>Images\<close>

definition row_img :: "'v pod \<Rightarrow> int \<times> 'v row_oplog \<Rightarrow> bytes" where
  "row_img pd rl = (case rl of (row, l) \<Rightarrow>
     i32_enc row @ i32_enc (RowOpLog_GetSize l) @
     concat (map (\<lambda>e. i32_enc (fst e)) (rol_oplogs l)) @ concat (map (\<lambda>e. p_enc pd (snd e)) (rol_oplogs l)))"

definition rows_img :: "'v pod \<Rightarrow> (int \<times> 'v row_oplog) list \<Rightarrow> bytes" where
  "rows_img pd rows = i32_enc (int (length rows)) @ concat (map (row_img pd) rows)"

lemma cols_length: "length (concat (map (\<lambda>e. i32_enc (fst e)) es)) = 4 * length es"
  by (induction es) simp_all

lemma upds_length: "pod_ok pd ok \<Longrightarrow> length (concat (map (\<lambda>e. p_enc pd (snd e)) es)) = p_size pd * length es"
  by (induction es) (simp_all add: pod_ok_def)

lemma row_img_length:
  "pod_ok pd ok \<Longrightarrow> length (row_img pd (row, l)) = 8 + (4 + p_size pd) * length (rol_oplogs l)"
  by (simp add: row_img_def cols_length upds_length algebra_simps)

lemma wr_i32_full:
  "off + 4 \<le> length m \<Longrightarrow> \<exists>m'. wr_i32 m off x = Inr m' \<and> at_mem m' off (i32_enc x) \<and>
     same_out m m' {off..<off + 4} \<and> length m' = length m"
  unfolding wr_i32_def by (rule mem_write_full [of off "i32_enc x" m]) simp_all

lemma ser_updates_ok:
  assumes "pod_ok pd ok"
  shows "p + 4 * length es \<le> q \<Longrightarrow> q + p_size pd * length es \<le> length m \<Longrightarrow>
   \<exists>m'. ser_updates pd m p q es = Inr m' \<and> at_mem m' p (concat (map (\<lambda>e. i32_enc (fst e)) es)) \<and>
     at_mem m' q (concat (map (\<lambda>e. p_enc pd (snd e)) es)) \<and>
     same_out m m' ({p..<p + 4 * length es} \<union> {q..<q + p_size pd * length es})"
proof (induction es arbitrary: m p q)
  case Nil
  then show ?case by (simp add: at_mem_Nil)
next
  case (Cons e es)
  obtain c u where e: "e = (c, u)" by force
  have us: "length (p_enc pd u) = p_size pd" using assms by (simp add: pod_ok_def)
  have b: "p + 4 \<le> q" "q + p_size pd + p_size pd * length es \<le> length m" "p + 4 + 4 * length es \<le> q"
    using Cons.prems by simp_all
  then obtain m1 where m1: "wr_i32 m p c = Inr m1" "at_mem m1 p (i32_enc c)"
    "same_out m m1 {p..<p + 4}" "length m1 = length m"
    using wr_i32_full [of p m c] by auto
  obtain m2 where m2: "mem_write m1 q (p_enc pd u) = Inr m2" "at_mem m2 q (p_enc pd u)"
    "same_out m1 m2 {q..<q + p_size pd}" "length m2 = length m1"
    using mem_write_full [of q "p_enc pd u" m1] b m1(4) us by auto
  have "p + 4 + 4 * length es \<le> q + p_size pd" "q + p_size pd + p_size pd * length es \<le> length m2"
    using b m1(4) m2(4) by simp_all
  from Cons.IH [OF this] obtain m3 where m3: "ser_updates pd m2 (p + 4) (q + p_size pd) es = Inr m3"
    "at_mem m3 (p + 4) (concat (map (\<lambda>e. i32_enc (fst e)) es))"
    "at_mem m3 (q + p_size pd) (concat (map (\<lambda>e. p_enc pd (snd e)) es))"
    "same_out m2 m3 ({p + 4..<p + 4 + 4 * length es} \<union>
       {q + p_size pd..<q + p_size pd + p_size pd * length es})" by blast
  have "at_mem m2 p (i32_enc c)" using m1(2) b by (rule_tac same_out_at [OF m2(3)]) auto
  then have a1: "at_mem m3 p (i32_enc c)" using b by (rule_tac same_out_at [OF m3(4)]) auto
  have a2: "at_mem m3 q (p_enc pd u)" using m2(2) b us by (rule_tac same_out_at [OF m3(4)]) auto
  have "same_out m m3 ({p..<p + 4 * length (e # es)} \<union> {q..<q + p_size pd * length (e # es)})"
    by (rule same_out_mono [OF same_out_trans [OF same_out_trans [OF m1(3) m2(3)] m3(4)]]) auto
  with a1 a2 m1 m2 m3 us show ?case by (auto simp: e at_mem_append)
qed

lemma ser_row_ok:
  assumes "pod_ok pd ok" "off + length (row_img pd (row, l)) \<le> length m"
  shows "\<exists>m'. ser_row pd m off row l = Inr m' \<and> at_mem m' off (row_img pd (row, l)) \<and>
    same_out m m' {off..<off + length (row_img pd (row, l))}"
proof -
  let ?n = "length (rol_oplogs l)"
  have b: "off + 8 + 4 * ?n + p_size pd * ?n \<le> length m"
    using assms(2) unfolding row_img_length [OF assms(1)] by (simp add: algebra_simps)
  obtain m1 where m1: "wr_i32 m off row = Inr m1" "at_mem m1 off (i32_enc row)"
    "same_out m m1 {off..<off + 4}" "length m1 = length m"
    using wr_i32_full [of off m row] b by auto
  have "off + 4 + 4 \<le> length m1" using b m1(4) by simp
  from wr_i32_full [OF this] obtain m2 where m2: "wr_i32 m1 (off + 4) (RowOpLog_GetSize l) = Inr m2"
    "at_mem m2 (off + 4) (i32_enc (RowOpLog_GetSize l))"
    "same_out m1 m2 {off + 4..<off + 4 + 4}" "length m2 = length m1" by blast
  have "off + 8 + 4 * ?n + p_size pd * ?n \<le> length m2" using b m1(4) m2(4) by simp
  from ser_updates_ok [OF assms(1) order_refl this] obtain m3 where m3:
    "ser_updates pd m2 (off + 8) (off + 8 + 4 * ?n) (rol_oplogs l) = Inr m3"
    "at_mem m3 (off + 8) (concat (map (\<lambda>e. i32_enc (fst e)) (rol_oplogs l)))"
    "at_mem m3 (off + 8 + 4 * ?n) (concat (map (\<lambda>e. p_enc pd (snd e)) (rol_oplogs l)))"
    "same_out m2 m3 ({off + 8..<off + 8 + 4 * ?n} \<union> {off + 8 + 4 * ?n..<off + 8 + 4 * ?n + p_size pd * ?n})"
    by blast
  have "at_mem m2 off (i32_enc row)" using m1(2) by (rule_tac same_out_at [OF m2(3)]) auto
  then have a1: "at_mem m3 off (i32_enc row)" by (rule_tac same_out_at [OF m3(4)]) auto
  have a2: "at_mem m3 (off + 4) (i32_enc (RowOpLog_GetSize l))"
    using m2(2) by (rule_tac same_out_at [OF m3(4)]) auto
  have "same_out m m3 {off..<off + length (row_img pd (row, l))}"
    unfolding row_img_length [OF assms(1)]
    by (rule same_out_mono [OF same_out_trans [OF same_out_trans [OF m1(3) m2(3)] m3(4)]])
       (auto simp: algebra_simps)
  moreover have "at_mem m3 off (row_img pd (row, l))"
    using a1 a2 m3 by (simp add: row_img_def at_mem_append cols_length ac_simps)
  moreover obtain e l' where t: "RowOpLog_BeginIterateConst l = (e, l')" by force
  ultimately show ?thesis
    using m1 m2 m3 traverse_const_all [of l] by (auto simp: ser_row_def Let_def t)
qed

section \<open>One table is written for every server\<close>

definition rows_for :: "global_context \<Rightarrow> int \<Rightarrow> int \<Rightarrow> (int \<times> 'v) list \<Rightarrow> (int \<times> 'v) list" where
  "rows_for g t s rows = filter (\<lambda>rl. GetRowPartitionServerID g t (fst rl) = Inr s) rows"

lemma rows_for_append [simp]: "rows_for g t s (xs @ ys) = rows_for g t s xs @ rows_for g t s ys"
  by (simp add: rows_for_def)

lemma rows_img_snoc_length:
  "length (rows_img pd (xs @ [x])) = length (rows_img pd xs) + length (row_img pd x)"
  by (simp add: rows_img_def)

lemma rows_img_prefix: "length (rows_img pd xs) \<le> length (rows_img pd (xs @ ys))"
  by (simp add: rows_img_def)

lemma rows_img_count: "4 + 8 * length xs \<le> length (rows_img pd xs)"
  by (induction xs) (auto simp: rows_img_def row_img_def)

text \<open>
  After the rows \<open>done\<close>: every server's message holds the image of its rows at
  its pointer, and differs from the original block only in the space reserved.
\<close>

definition ser_inv ::
  "'v pod \<Rightarrow> global_context \<Rightarrow> int \<Rightarrow> (int \<times> nat) list \<Rightarrow> mems \<Rightarrow> (int \<Rightarrow> nat) \<Rightarrow>
   (int \<times> 'v row_oplog) list \<Rightarrow> int set \<Rightarrow> mems \<times> (int \<times> nat) list \<Rightarrow> bool" where
  "ser_inv pd g t ptrs ms0 L done S st \<longleftrightarrow>
     keys (fst st) = keys ms0 \<and>
     (\<forall>s. s \<notin> S \<longrightarrow> map_of (fst st) s = map_of ms0 s) \<and>
     (\<forall>s \<in> S. \<exists>m0 m b. map_of ms0 s = Some m0 \<and> map_of ptrs s = Some b \<and>
       map_of (fst st) s = Some m \<and> map_of (snd st) s = Some (length (rows_img pd (rows_for g t s done))) \<and>
       at_mem m b (rows_img pd (rows_for g t s done)) \<and> same_out m0 m {b..<b + L s} \<and>
       b + L s \<le> length m0)"

lemma keys_oupd_present: "map_of m k \<noteq> None \<Longrightarrow> osorted m \<Longrightarrow> keys (oupd k v m) = keys m"
proof (induction k v m rule: oupd.induct)
  case (2 k v k' v' m)
  have "map_of m k = None" if "k < k'"
    using that "2.prems"(2) by (intro osorted_absent) (auto intro: less_trans)
  then have "\<not> k < k'" using "2.prems"(1) by (auto split: if_splits)
  with 2 show ?case by (auto split: if_splits)
qed simp

lemma osorted_iff: "osorted m \<longleftrightarrow> sorted_wrt (<) (keys m)"
  by (induction m rule: osorted.induct) auto

lemma osorted_keys: "keys m = keys m' \<Longrightarrow> osorted m \<longleftrightarrow> osorted m'"
  by (simp add: osorted_iff)

lemma write_row_ok:
  assumes pd: "pod_ok pd ok" and at: "at_mem m b (rows_img pd rs)"
    and fit: "b + length (rows_img pd (rs @ [(row, l)])) \<le> length m"
    and small: "length (rows_img pd (rs @ [(row, l)])) < 2 ^ 31"
  shows "\<exists>m1 m2. ser_row pd m (b + length (rows_img pd rs)) row l = Inr m1 \<and>
    rd_i32 m1 b = Inr (int (length rs)) \<and> wr_i32 m1 b (int (length rs) + 1) = Inr m2 \<and>
    at_mem m2 b (rows_img pd (rs @ [(row, l)])) \<and>
    same_out m m2 {b..<b + length (rows_img pd (rs @ [(row, l)]))}"
proof -
  let ?o = "length (rows_img pd rs)" and ?i = "row_img pd (row, l)" and ?x = "concat (map (row_img pd) rs)"
  have ol: "?o = 4 + length ?x" by (simp add: rows_img_def)
  have "b + ?o + length ?i \<le> length m" using fit by (simp add: rows_img_snoc_length)
  from ser_row_ok [OF pd this] obtain m1 where m1: "ser_row pd m (b + ?o) row l = Inr m1"
    "at_mem m1 (b + ?o) ?i" "same_out m m1 {b + ?o..<b + ?o + length ?i}" by blast
  have a1: "at_mem m1 b (i32_enc (int (length rs)))" "at_mem m1 (b + 4) ?x"
    using same_out_at [OF m1(3) at] by (simp_all add: rows_img_def at_mem_append)
  have "is_i32 (int (length rs))"
    using small rows_img_count [of rs pd] by (simp add: is_i32_def rows_img_snoc_length)
  then have rd: "rd_i32 m1 b = Inr (int (length rs))" using a1(1) by (rule rd_i32_at)
  have "b + 4 \<le> length m1" using a1(1) by (simp add: at_mem_iff)
  from wr_i32_full [OF this] obtain m2 where m2: "wr_i32 m1 b (int (length rs) + 1) = Inr m2"
    "at_mem m2 b (i32_enc (int (length rs) + 1))" "same_out m1 m2 {b..<b + 4}" by blast
  have "at_mem m2 (b + 4) ?x" "at_mem m2 (b + ?o) ?i"
    using a1(2) m1(2) ol by (auto intro!: same_out_at [OF m2(3)])
  then have "at_mem m2 b (rows_img pd (rs @ [(row, l)]))"
    using m2(2) by (simp add: rows_img_def at_mem_append ol ac_simps)
  moreover have "same_out m m2 {b..<b + length (rows_img pd (rs @ [(row, l)]))}"
    by (rule same_out_mono [OF same_out_trans [OF m1(3) m2(3)]]) (auto simp: rows_img_snoc_length ol)
  ultimately show ?thesis using m1(1) rd m2(1) by blast
qed

lemma ser_step_ok:
  assumes pd: "pod_ok pd ok" and inv: "ser_inv pd g t ptrs ms0 L done S st"
    and own: "GetRowPartitionServerID g t row = Inr s" "s \<in> S" and so: "osorted ms0"
    and fit: "length (rows_img pd (rows_for g t s (done @ [(row, l)]))) \<le> L s" "L s < 2 ^ 31"
  shows "\<exists>st'. ser_step pd g t ptrs st (row, l) = Inr st' \<and>
    ser_inv pd g t ptrs ms0 L (done @ [(row, l)]) S st'"
proof -
  obtain ms offs where st: "st = (ms, offs)" by force
  let ?rs = "rows_for g t s done"
  have rs': "rows_for g t s (done @ [(row, l)]) = ?rs @ [(row, l)]"
    "s' \<noteq> s \<Longrightarrow> rows_for g t s' (done @ [(row, l)]) = rows_for g t s' done" for s'
    using own(1) by (auto simp: rows_for_def)
  obtain m0 m b where m: "map_of ms0 s = Some m0" "map_of ptrs s = Some b" "map_of ms s = Some m"
    "map_of offs s = Some (length (rows_img pd ?rs))" "at_mem m b (rows_img pd ?rs)"
    "same_out m0 m {b..<b + L s}" "b + L s \<le> length m0"
    using inv own(2) st unfolding ser_inv_def by fastforce
  have "b + length (rows_img pd (?rs @ [(row, l)])) \<le> length m"
    "length (rows_img pd (?rs @ [(row, l)])) < 2 ^ 31"
    using m(6,7) fit unfolding rs' by (auto dest: same_out_length)
  from write_row_ok [OF pd m(5) this] obtain m1 m2 where w:
    "ser_row pd m (b + length (rows_img pd ?rs)) row l = Inr m1" "rd_i32 m1 b = Inr (int (length ?rs))"
    "wr_i32 m1 b (int (length ?rs) + 1) = Inr m2" "at_mem m2 b (rows_img pd (?rs @ [(row, l)]))"
    "same_out m m2 {b..<b + length (rows_img pd (?rs @ [(row, l)]))}" by blast
  let ?off = "length (rows_img pd (?rs @ [(row, l)]))"
  have off: "i32_off (length (rows_img pd ?rs) + (4 + 4 + (4 + p_size pd) * nat (RowOpLog_GetSize l))) = Inr ?off"
    using fit unfolding rs' by (simp add: i32_off_def rows_img_snoc_length row_img_length [OF pd] RowOpLog_GetSize_def)
  have e: "ser_step pd g t ptrs st (row, l) = Inr (oupd s m2 ms, oupd s ?off offs)"
    using own(1) m w off by (simp add: ser_step_def st mem_of_def ptr_of_def)
  have "same_out m0 m2 {b..<b + L s}"
    by (rule same_out_mono [OF same_out_trans [OF m(6) w(5)]]) (use fit(1) rs' in auto)
  moreover have "keys (oupd s m2 ms) = keys ms0"
  proof -
    have k: "keys ms = keys ms0" using inv by (simp add: ser_inv_def st)
    then have "osorted ms" using so osorted_keys by blast
    with k m(3) show ?thesis by (simp add: keys_oupd_present)
  qed
  ultimately have "ser_inv pd g t ptrs ms0 L (done @ [(row, l)]) S (oupd s m2 ms, oupd s ?off offs)"
    using inv m w own(2) unfolding ser_inv_def st fst_conv snd_conv
    by (auto simp: map_of_oupd rs'(1) rs'(2) simp del: rows_for_append)
  with e show ?thesis by blast
qed

lemma ser_init_ok:
  assumes "ser_inv pd g t ptrs ms0 L [] S st" "map_of ms0 s = Some m0" "map_of ptrs s = Some b"
    "b + L s \<le> length m0" "4 \<le> L s" "osorted ms0"
  shows "\<exists>st'. ser_init ptrs st s = Inr st' \<and> ser_inv pd g t ptrs ms0 L [] (insert s S) st'"
proof -
  obtain ms offs where st: "st = (ms, offs)" by force
  obtain m where m: "map_of ms s = Some m" "same_out m0 m {b..<b + L s}"
    using assms(1-3) unfolding st ser_inv_def fst_conv snd_conv
    by (cases "s \<in> S") fastforce+
  have "b + 4 \<le> length m" using assms(4,5) m(2) by (auto dest: same_out_length)
  from wr_i32_full [OF this] obtain m' where m': "wr_i32 m b 0 = Inr m'" "at_mem m' b (i32_enc 0)"
    "same_out m m' {b..<b + 4}" by blast
  have e: "ser_init ptrs st s = Inr (oupd s m' ms, oupd s 4 offs)"
    using m m' assms(3) by (simp add: ser_init_def st mem_of_def ptr_of_def)
  have so: "same_out m0 m' {b..<b + L s}"
    by (rule same_out_mono [OF same_out_trans [OF m(2) m'(3)]]) (use assms(5) in auto)
  have k: "keys (oupd s m' ms) = keys ms0"
  proof -
    have k: "keys ms = keys ms0" using assms(1) by (simp add: ser_inv_def st)
    then have "osorted ms" using assms(6) osorted_keys by blast
    with k m(1) show ?thesis by (simp add: keys_oupd_present)
  qed
  have "ser_inv pd g t ptrs ms0 L [] (insert s S) (oupd s m' ms, oupd s 4 offs)"
    using assms(1-4) m'(2) so k unfolding ser_inv_def st fst_conv snd_conv
    by (auto simp: map_of_oupd rows_for_def rows_img_def)
  with e show ?thesis by blast
qed

text \<open>What the caller of \<open>SerializeByServer\<close> has to provide.\<close>

definition room_ok :: "global_context \<Rightarrow> (int \<times> nat) list \<Rightarrow> mems \<Rightarrow> (int \<Rightarrow> nat) \<Rightarrow> bool" where
  "room_ok g ptrs ms L \<longleftrightarrow> osorted ms \<and> (\<forall>s \<in> set (server_ids g). \<exists>m b.
     map_of ms s = Some m \<and> map_of ptrs s = Some b \<and> b + L s \<le> length m \<and> L s < 2 ^ 31)"

lemma ser_init_all:
  assumes "ser_inv pd g t ptrs ms0 L [] S st" "osorted ms0"
    "\<forall>s \<in> set xs. 4 \<le> L s \<and> (\<exists>m b. map_of ms0 s = Some m \<and> map_of ptrs s = Some b \<and> b + L s \<le> length m)"
  shows "\<exists>st'. foldM (ser_init ptrs) st xs = Inr st' \<and> ser_inv pd g t ptrs ms0 L [] (S \<union> set xs) st'"
  using assms
proof (induction xs arbitrary: S st)
  case (Cons s xs)
  obtain m b where mb: "map_of ms0 s = Some m" "map_of ptrs s = Some b" "b + L s \<le> length m" "4 \<le> L s"
    using Cons.prems(3) by auto
  obtain st1 where st1: "ser_init ptrs st s = Inr st1" "ser_inv pd g t ptrs ms0 L [] (insert s S) st1"
    using ser_init_ok [OF Cons.prems(1) mb(1-4) assms(2)] by blast
  from Cons.IH [OF st1(2) assms(2)] Cons.prems(3) obtain st' where
    "foldM (ser_init ptrs) st1 xs = Inr st'" "ser_inv pd g t ptrs ms0 L [] (insert s S \<union> set xs) st'" by auto
  with st1(1) show ?case by auto
qed auto

lemma ser_rows_all:
  assumes "pod_ok pd ok" "ctx_ok g" "osorted ms0"
    "ser_inv pd g t ptrs ms0 L done (set (server_ids g)) st"
    "\<forall>rl \<in> set todo. 0 \<le> fst rl"
    "\<forall>s \<in> set (server_ids g). length (rows_img pd (rows_for g t s (done @ todo))) \<le> L s \<and> L s < 2 ^ 31"
  shows "\<exists>st'. foldM (ser_step pd g t ptrs) st todo = Inr st' \<and>
    ser_inv pd g t ptrs ms0 L (done @ todo) (set (server_ids g)) st'"
  using assms(4-6)
proof (induction todo arbitrary: \<open>done\<close> st)
  case (Cons x todo)
  obtain row l where x: "x = (row, l)" by force
  have "0 \<le> row" using Cons.prems(2) x by simp
  then obtain s where s: "GetRowPartitionServerID g t row = Inr s" "s \<in> set (server_ids g)"
    using GetRowPartitionServerID_eq [OF assms(2)] assms(2)
    by (auto simp: ctx_ok_def nat_less_iff intro!: nth_mem)
  have eq: "(done @ [x]) @ todo = done @ x # todo" by simp
  have "length (rows_img pd (rows_for g t s (done @ [x]))) \<le> L s" "L s < 2 ^ 31"
    using Cons.prems(3) s(2) rows_img_prefix [of pd "rows_for g t s (done @ [x])" "rows_for g t s todo"]
    by (auto simp: rows_for_append [symmetric] eq simp del: rows_for_append)
  from ser_step_ok [OF assms(1) Cons.prems(1) s assms(3), of l] this x obtain st1 where st1:
    "ser_step pd g t ptrs st x = Inr st1" "ser_inv pd g t ptrs ms0 L (done @ [x]) (set (server_ids g)) st1"
    by blast
  from Cons.IH [OF st1(2)] Cons.prems(2,3) st1(1) show ?case by (simp only: eq) simp
qed simp

lemma SerializeByServer_ok:
  assumes "pod_ok pd ok" "ctx_ok g" "room_ok g ptrs ms L" "\<forall>rl \<in> set (bp_map p). 0 \<le> fst rl"
    "\<forall>s \<in> set (server_ids g). length (rows_img pd (rows_for g (bp_table_id p) s (bp_map p))) \<le> L s"
  shows "\<exists>ms'. SerializeByServer pd g p ptrs ms = Inr ms' \<and> keys ms' = keys ms \<and>
    (\<forall>s. s \<notin> set (server_ids g) \<longrightarrow> map_of ms' s = map_of ms s) \<and>
    (\<forall>s \<in> set (server_ids g). \<exists>m m' b. map_of ms s = Some m \<and> map_of ptrs s = Some b \<and>
       map_of ms' s = Some m' \<and>
       at_mem m' b (rows_img pd (rows_for g (bp_table_id p) s (bp_map p))) \<and>
       same_out m m' {b..<b + L s})"
proof -
  let ?t = "bp_table_id p" and ?S = "set (server_ids g)"
  have so: "osorted ms" using assms(3) by (simp add: room_ok_def)
  have ids: "take (nat (num_servers g)) (server_ids g) = server_ids g" using assms(2) by (simp add: ctx_ok_def)
  have four: "4 \<le> L s" if "s \<in> ?S" for s
    using assms(5) that rows_img_count [of "rows_for g ?t s (bp_map p)" pd] by fastforce
  have i0: "ser_inv pd g ?t ptrs ms L [] {} (ms, [])" by (simp add: ser_inv_def)
  have r0: "\<forall>s \<in> ?S. 4 \<le> L s \<and>
      (\<exists>m b. map_of ms s = Some m \<and> map_of ptrs s = Some b \<and> b + L s \<le> length m)"
    using assms(3) four unfolding room_ok_def by blast
  obtain st where st: "foldM (ser_init ptrs) (ms, []) (server_ids g) = Inr st"
    "ser_inv pd g ?t ptrs ms L [] ?S st"
    using ser_init_all [OF i0 so r0] unfolding Un_empty_left by blast
  have "\<forall>s \<in> ?S. length (rows_img pd (rows_for g ?t s ([] @ bp_map p))) \<le> L s \<and> L s < 2 ^ 31"
    using assms(3,5) by (auto simp: room_ok_def)
  from ser_rows_all [OF assms(1,2) so st(2) assms(4) this] obtain st' where st':
    "foldM (ser_step pd g ?t ptrs) st (bp_map p) = Inr st'"
    "ser_inv pd g ?t ptrs ms L (bp_map p) ?S st'" by auto
  obtain ms' offs where p: "st' = (ms', offs)" by force
  have "SerializeByServer pd g p ptrs ms = Inr ms'"
    using st(1) st'(1) p by (simp add: SerializeByServer_def ids)
  with st'(2) p show ?thesis unfolding ser_inv_def by fastforce
qed

section \<open>Layout of a message\<close>

text \<open>Place of a table in the message of a server whose tables have the given row sizes.\<close>

fun toff :: "nat \<Rightarrow> (int \<times> nat) list \<Rightarrow> int \<Rightarrow> nat" where
  "toff a [] t = a"
| "toff a ((t', sz) # ts) t = (if t' = t then a else toff (a + (sz + 12)) ts t)"

definition msg_size :: "(int \<times> nat) list \<Rightarrow> nat" where
  "msg_size ts = 4 + sum_list (map (\<lambda>p. snd p + 12) ts)"

lemma foldl_layout:
  "foldl (\<lambda>(total, offs) (t, sz). (total + (sz + 4 + 8), oupd t total offs)) (a, offs) ts = (b, offs') \<Longrightarrow>
   distinct (keys ts) \<Longrightarrow>
   b = a + sum_list (map (\<lambda>p. snd p + 12) ts) \<and>
   (\<forall>t. map_of offs' t = (if t \<in> set (keys ts) then Some (toff a ts t) else map_of offs t))"
proof (induction ts arbitrary: a offs)
  case (Cons x ts)
  obtain t sz where x: "x = (t, sz)" by force
  have "foldl (\<lambda>(total, offs) (t, sz). (total + (sz + 4 + 8), oupd t total offs)) (a + (sz + 12), oupd t a offs) ts = (b, offs')"
    using Cons.prems(1) x by (simp add: ac_simps)
  from Cons.IH [OF this] Cons.prems(2) x show ?case
    by (auto simp: map_of_oupd fun_eq_iff)
qed simp

lemma Init_layout:
  assumes "OpLogSerializer_Init ts = (tot, os)" "distinct (keys ts)"
  shows "tot = msg_size ts" "os_num_tables os = int (length ts)"
    "t \<in> set (keys ts) \<Longrightarrow> GetTablePtr os t = toff 4 ts t"
proof -
  obtain b offs where f: "foldl (\<lambda>(total, offs) (t, sz). (total + (sz + 4 + 8), oupd t total offs)) (4, []) ts = (b, offs)"
    by force
  note lay = foldl_layout [OF f assms(2)]
  have os: "os = \<lparr>os_offset_map = offs, os_num_tables = int (length ts)\<rparr>" "tot = b"
    using assms(1) f by (simp_all add: OpLogSerializer_Init_def)
  show "tot = msg_size ts" "os_num_tables os = int (length ts)"
    using lay os by (simp_all add: msg_size_def)
  show "GetTablePtr os t = toff 4 ts t" if "t \<in> set (keys ts)"
    using spec [OF conjunct2 [OF lay], of t] that by (simp only: os GetTablePtr_def if_True) simp
qed

lemma toff_ge: "a \<le> toff a ts t"
  by (induction a ts t rule: toff.induct) auto

lemma toff_le:
  "map_of ts t = Some sz \<Longrightarrow> toff a ts t + 12 + sz \<le> a + sum_list (map (\<lambda>p. snd p + 12) ts)"
  by (induction a ts t rule: toff.induct) (auto split: if_splits)

lemma toff_disjoint:
  "t \<noteq> t' \<Longrightarrow> map_of ts t = Some sz \<Longrightarrow> map_of ts t' = Some sz' \<Longrightarrow>
   toff a ts t + 12 + sz \<le> toff a ts t' \<or> toff a ts t' + 12 + sz' \<le> toff a ts t"
proof (induction a ts t rule: toff.induct)
  case (2 a u sz0 ts t)
  then show ?case using toff_ge [of "a + (sz0 + 12)" ts t] toff_ge [of "a + (sz0 + 12)" ts t']
    by (auto split: if_splits)
qed simp

text \<open>The image of the tables from a list on, and how it is assembled from its parts.\<close>

lemma layout_img:
  assumes "\<And>t. t \<in> set (keys ts) \<Longrightarrow> at_mem m (toff a ts t) (img t)"
    "\<And>t sz. (t, sz) \<in> set ts \<Longrightarrow> length (img t) = sz + 12" "distinct (keys ts)" "a \<le> length m"
  shows "at_mem m a (concat (map (\<lambda>p. img (fst p)) ts))"
  using assms
proof (induction ts arbitrary: a)
  case Nil
  then show ?case by (simp add: at_mem_Nil)
next
  case (Cons x ts)
  obtain t sz where x: "x = (t, sz)" by force
  have h: "at_mem m a (img t)" "length (img t) = sz + 12" using Cons.prems(1) [of t] Cons.prems(2) x by auto
  have "at_mem m (a + (sz + 12)) (concat (map (\<lambda>p. img (fst p)) ts))"
  proof (rule Cons.IH)
    show "at_mem m (toff (a + (sz + 12)) ts u) (img u)" if "u \<in> set (keys ts)" for u
      using Cons.prems(1) [of u] Cons.prems(3) that x by (auto split: if_splits)
    show "a + (sz + 12) \<le> length m" using h by (simp add: at_mem_iff)
  qed (use Cons.prems x in auto)
  with h show ?case by (simp add: x at_mem_append)
qed

definition hdr_img :: "int \<Rightarrow> nat \<Rightarrow> bytes" where
  "hdr_img t us = i32_enc t @ size_enc us"

lemma put_table_header_ok:
  assumes "GetTablePtr os t + 12 \<le> length m"
  shows "\<exists>m'. put_table_header os m (t, us) = Inr m' \<and> at_mem m' (GetTablePtr os t) (hdr_img t us) \<and>
    same_out m m' {GetTablePtr os t..<GetTablePtr os t + 12}"
proof -
  let ?p = "GetTablePtr os t"
  obtain m1 where m1: "wr_i32 m ?p t = Inr m1" "at_mem m1 ?p (i32_enc t)" "same_out m m1 {?p..<?p + 4}"
    "length m1 = length m" using wr_i32_full [of ?p m t] assms by auto
  have "?p + 4 + length (size_enc us) \<le> length m1" using assms m1(4) by simp
  from mem_write_ok [OF this] obtain m2 where m2: "mem_write m1 (?p + 4) (size_enc us) = Inr m2" by blast
  note so = mem_write_same_out [OF m2]
  have "at_mem m2 ?p (i32_enc t)" using m1(2) by (rule_tac same_out_at [OF so]) auto
  moreover have "same_out m m2 {?p..<?p + 12}"
    by (rule same_out_mono [OF same_out_trans [OF m1(3) so]]) auto
  ultimately show ?thesis using m1(1) m2 mem_write_at [OF m2]
    by (simp add: put_table_header_def hdr_img_def at_mem_append)
qed

lemma put_headers_ok:
  assumes lay: "\<And>t. t \<in> set (keys ts) \<Longrightarrow> GetTablePtr os t = toff 4 ts t" "distinct (keys ts)"
    and tabs: "set (keys tabs) \<subseteq> set (keys ts)" "distinct (keys tabs)"
    and m: "length m = msg_size ts" "at_mem m 0 n4" "length n4 = 4"
  shows "\<exists>m'. foldM (put_table_header os) m tabs = Inr m' \<and> length m' = msg_size ts \<and> at_mem m' 0 n4 \<and>
    (\<forall>(t, us) \<in> set tabs. at_mem m' (toff 4 ts t) (hdr_img t us)) \<and>
    same_out m m' (\<Union>t \<in> set (keys tabs). {toff 4 ts t..<toff 4 ts t + 12})"
  using tabs m
proof (induction tabs arbitrary: m)
  case (Cons x tabs)
  obtain t us where x: "x = (t, us)" by force
  have tin: "t \<in> set (keys ts)" using Cons.prems(1) x by simp
  then obtain sz where sz: "map_of ts t = Some sz" by (metis map_of_eq_None_iff option.exhaust list.set_map)
  have pt: "GetTablePtr os t = toff 4 ts t" using lay(1) tin by simp
  have bd: "toff 4 ts t + 12 \<le> length m" "4 \<le> toff 4 ts t"
    using toff_le [OF sz, of 4] toff_ge [of 4 ts t] Cons.prems(3) by (simp_all add: msg_size_def)
  obtain m1 where m1: "put_table_header os m x = Inr m1" "at_mem m1 (toff 4 ts t) (hdr_img t us)"
    "same_out m m1 {toff 4 ts t..<toff 4 ts t + 12}"
    using put_table_header_ok [of os t m us] bd pt x by auto
  have "at_mem m1 0 n4" using Cons.prems(4,5) bd(2) by (rule_tac same_out_at [OF m1(3)]) auto
  moreover have "length m1 = msg_size ts" using m1(3) Cons.prems(3) by (simp add: same_out_length)
  moreover have "set (keys tabs) \<subseteq> set (keys ts)" "distinct (keys tabs)" using Cons.prems(1,2) by simp_all
  ultimately have "\<exists>m'. foldM (put_table_header os) m1 tabs = Inr m' \<and> length m' = msg_size ts \<and> at_mem m' 0 n4 \<and>
    (\<forall>(t, us) \<in> set tabs. at_mem m' (toff 4 ts t) (hdr_img t us)) \<and>
    same_out m1 m' (\<Union>t \<in> set (keys tabs). {toff 4 ts t..<toff 4 ts t + 12})"
    using Cons.prems(5) by (intro Cons.IH) simp_all
  then obtain m' where m': "foldM (put_table_header os) m1 tabs = Inr m'" "length m' = msg_size ts"
    "at_mem m' 0 n4" "\<forall>(t, us) \<in> set tabs. at_mem m' (toff 4 ts t) (hdr_img t us)"
    "same_out m1 m' (\<Union>t \<in> set (keys tabs). {toff 4 ts t..<toff 4 ts t + 12})"
    by blast
  have disj: "{toff 4 ts t..<toff 4 ts t + 12} \<inter> {toff 4 ts u..<toff 4 ts u + 12} = {}"
    if "u \<in> set (keys tabs)" for u
  proof -
    have "t \<notin> set (keys tabs)" "set (keys tabs) \<subseteq> set (keys ts)" using Cons.prems(1,2) x by simp_all
    with that have "u \<noteq> t" "u \<in> set (keys ts)" by blast+
    then obtain sz' where "map_of ts u = Some sz'" by (metis map_of_eq_None_iff option.exhaust list.set_map)
    from toff_disjoint [OF \<open>u \<noteq> t\<close> this sz, of 4] show ?thesis by auto
  qed
  have "length (hdr_img t us) = 12" by (simp add: hdr_img_def)
  moreover have "{toff 4 ts t..<toff 4 ts t + 12} \<inter>
      (\<Union>u \<in> set (keys tabs). {toff 4 ts u..<toff 4 ts u + 12}) = {}"
    unfolding Int_UN_distrib using disj by blast
  ultimately have "{toff 4 ts t..<toff 4 ts t + length (hdr_img t us)} \<inter>
      (\<Union>u \<in> set (keys tabs). {toff 4 ts u..<toff 4 ts u + 12}) = {}" by (simp only:)
  then have "at_mem m' (toff 4 ts t) (hdr_img t us)" by (rule same_out_at [OF m'(5) m1(2)])
  moreover have "same_out m m' (\<Union>t \<in> set (keys (x # tabs)). {toff 4 ts t..<toff 4 ts t + 12})"
    by (rule same_out_mono [OF same_out_trans [OF m1(3) m'(5)]]) (auto simp: x)
  ultimately show ?case using m1(1) m' x by auto
qed simp

lemma create_server_msg_ok:
  assumes "keys tabs = keys ts" "distinct (keys ts)" "length (alloc (msg_size ts)) = msg_size ts"
  shows "\<exists>m. create_server_msg tabs alloc ts = Inr (m, map (\<lambda>(t, us). (t, toff 4 ts t + 12)) tabs) \<and>
    length m = msg_size ts \<and> at_mem m 0 (i32_enc (int (length ts))) \<and>
    (\<forall>(t, us) \<in> set tabs. at_mem m (toff 4 ts t) (hdr_img t us))"
proof -
  obtain tot os where i: "OpLogSerializer_Init ts = (tot, os)" by force
  note lay = Init_layout [OF i assms(2)]
  have "0 + 4 \<le> length (alloc tot)" using assms(3) lay(1) by (simp add: msg_size_def)
  from wr_i32_full [OF this] obtain m0 where m0: "AssignMem os (alloc tot) = Inr m0"
    "at_mem m0 0 (i32_enc (int (length ts)))" "length m0 = msg_size ts"
    using assms(3) lay(1,2) by (auto simp: AssignMem_def)
  have k: "set (keys tabs) \<subseteq> set (keys ts)" "distinct (keys tabs)" using assms(1,2) by (simp_all del: set_map)
  obtain m where m: "foldM (put_table_header os) m0 tabs = Inr m" "length m = msg_size ts"
    "at_mem m 0 (i32_enc (int (length ts)))" "\<forall>(t, us) \<in> set tabs. at_mem m (toff 4 ts t) (hdr_img t us)"
    using put_headers_ok [OF lay(3) assms(2) k m0(3,2)] by auto
  have "map (\<lambda>(t, us). (t, GetTablePtr os t + 4 + 8)) tabs = map (\<lambda>(t, us). (t, toff 4 ts t + 12)) tabs"
    using lay(3) assms(1) by (auto simp del: set_map) (metis fst_conv image_eqI list.set_map)
  with m m0(1) i show ?thesis by (simp add: create_server_msg_def)
qed

text \<open>
  The data \<open>CreateOpLogMsgs\<close> starts from: the sizes recorded for each server and table
  are those of the rows that go there.
\<close>

definition sizes_ok ::
  "'v pod \<Rightarrow> global_context \<Rightarrow> (int \<times> nat) list \<Rightarrow> (int \<times> (int \<times> nat) list) list \<Rightarrow> 'v bg_oplog \<Rightarrow> bool" where
  "sizes_ok pd g tabs sizes bg \<longleftrightarrow>
     osorted tabs \<and> osorted sizes \<and> set (keys sizes) = set (server_ids g) \<and>
     (\<forall>(t, us) \<in> set tabs. is_i32 t \<and> is_size us \<and> us = p_size pd \<and>
        (\<exists>p. map_of bg t = Some p \<and> bp_table_id p = t \<and>
           (\<forall>(row, l) \<in> set (bp_map p). 0 \<le> row \<and> is_i32 row))) \<and>
     (\<forall>(s, ts) \<in> set sizes. keys ts = keys tabs \<and> msg_size ts < 2 ^ 31 \<and>
        (\<forall>(t, sz) \<in> set ts. \<forall>p. map_of bg t = Some p \<longrightarrow>
           sz = length (rows_img pd (rows_for g t s (bp_map p)))))"

definition table_img :: "'v pod \<Rightarrow> global_context \<Rightarrow> 'v bg_oplog \<Rightarrow> int \<Rightarrow> int \<times> nat \<Rightarrow> bytes" where
  "table_img pd g bg s tu = (case tu of (t, us) \<Rightarrow> hdr_img t us @
     (case map_of bg t of None \<Rightarrow> [] | Some p \<Rightarrow> rows_img pd (rows_for g t s (bp_map p))))"

definition msg_img :: "'v pod \<Rightarrow> global_context \<Rightarrow> (int \<times> nat) list \<Rightarrow> 'v bg_oplog \<Rightarrow> int \<Rightarrow> bytes" where
  "msg_img pd g tabs bg s = i32_enc (int (length tabs)) @ concat (map (table_img pd g bg s) tabs)"

end
