(* ===== verification/Oplog_Roundtrip.thy ===== *)
theory Oplog_Roundtrip
imports Oplog_Serial
begin

text \<open>
  The message that \<open>CreateOpLogMsgs\<close> builds for a server has the documented layout
  and holds exactly the rows that the server owns, and \<open>SerializedOpLogReader\<close>
  reads back those rows, columns and updates, in order.
\<close>

section \<open>The messages have the documented layout\<close>

lemma map_of_map_snd: "map_of (map (\<lambda>(k, v). (k, f v)) xs) k = map_option f (map_of xs k)"
  by (induction xs) auto

lemma create_msgs_ok:
  assumes "\<forall>(s, ts) \<in> set sizes. keys tabs = keys ts \<and> distinct (keys ts) \<and>
      length (alloc (msg_size ts)) = msg_size ts"
  obtains M where "create_msgs tabs alloc sizes =
      Inr (map (\<lambda>(s, ts). (s, M ts, map (\<lambda>(t, us). (t, toff 4 ts t + 12)) tabs)) sizes)"
    "\<forall>(s, ts) \<in> set sizes. length (M ts) = msg_size ts \<and> at_mem (M ts) 0 (i32_enc (int (length ts))) \<and>
      (\<forall>(t, us) \<in> set tabs. at_mem (M ts) (toff 4 ts t) (hdr_img t us))"
proof -
  define M where "M ts = fst (projr (create_server_msg tabs alloc ts))" for ts
  have *: "create_server_msg tabs alloc ts = Inr (M ts, map (\<lambda>(t, us). (t, toff 4 ts t + 12)) tabs) \<and>
      length (M ts) = msg_size ts \<and> at_mem (M ts) 0 (i32_enc (int (length ts))) \<and>
      (\<forall>(t, us) \<in> set tabs. at_mem (M ts) (toff 4 ts t) (hdr_img t us))"
    if "(s, ts) \<in> set sizes" for s ts
  proof -
    have "keys tabs = keys ts" "distinct (keys ts)" "length (alloc (msg_size ts)) = msg_size ts"
      using assms that by auto
    from create_server_msg_ok [of tabs ts alloc, OF this] show ?thesis by (auto simp: M_def)
  qed
  show thesis
  proof (rule that)
    show "create_msgs tabs alloc sizes =
        Inr (map (\<lambda>(s, ts). (s, M ts, map (\<lambda>(t, us). (t, toff 4 ts t + 12)) tabs)) sizes)"
      unfolding create_msgs_def by (rule mapM_pure) (use * in force)
  qed (use * in blast)
qed

lemma table_ptrs_map:
  assumes "t \<in> set (keys tabs)"
  shows "table_ptrs (map (\<lambda>(s, ts). (s, M ts, map (\<lambda>(t, us). (t, f ts t)) tabs)) sizes) t =
    map (\<lambda>(s, ts). (s, f ts t)) sizes"
proof -
  have "map_of (map (\<lambda>(t, us). (t, h t)) tabs) t = Some (h t)" for h :: "int \<Rightarrow> nat"
    using assms by (induction tabs) auto
  then show ?thesis by (induction sizes) (auto simp: table_ptrs_def List.map_filter_simps)
qed

text \<open>The state of the messages after the rows of the tables \<open>done\<close> have been written.\<close>

definition wire_inv ::
  "'v pod \<Rightarrow> global_context \<Rightarrow> (int \<times> nat) list \<Rightarrow> (int \<times> (int \<times> nat) list) list \<Rightarrow> 'v bg_oplog \<Rightarrow>
   int set \<Rightarrow> mems \<Rightarrow> bool" where
  "wire_inv pd g tabs sizes bg done ms \<longleftrightarrow> keys ms = keys sizes \<and>
     (\<forall>s ts. map_of sizes s = Some ts \<longrightarrow> (\<exists>m. map_of ms s = Some m \<and> length m = msg_size ts \<and>
        at_mem m 0 (i32_enc (int (length ts))) \<and>
        (\<forall>(t, us) \<in> set tabs. at_mem m (toff 4 ts t) (hdr_img t us)) \<and>
        (\<forall>t \<in> done. \<forall>p. map_of bg t = Some p \<longrightarrow>
           at_mem m (toff 4 ts t + 12) (rows_img pd (rows_for g t s (bp_map p))))))"

lemma sizes_okD:
  assumes "sizes_ok pd g tabs sizes bg" "map_of sizes s = Some ts"
  shows "keys ts = keys tabs" "distinct (keys ts)" "msg_size ts < 2 ^ 31" "s \<in> set (server_ids g)"
    "t \<in> set (keys tabs) \<Longrightarrow> map_of bg t = Some p \<Longrightarrow>
       map_of ts t = Some (length (rows_img pd (rows_for g t s (bp_map p))))"
proof -
  have in_s: "(s, ts) \<in> set sizes" using assms(2) by (rule map_of_SomeD)
  have k: "keys ts = keys tabs" using assms(1) in_s unfolding sizes_ok_def by blast
  have z: "\<forall>(t, sz) \<in> set ts. \<forall>p. map_of bg t = Some p \<longrightarrow>
      sz = length (rows_img pd (rows_for g t s (bp_map p)))"
    using assms(1) in_s unfolding sizes_ok_def by blast
  show "keys ts = keys tabs" by (rule k)
  show "distinct (keys ts)" unfolding k using assms(1) osorted_distinct by (auto simp: sizes_ok_def)
  show "msg_size ts < 2 ^ 31" using assms(1) in_s unfolding sizes_ok_def by blast
  have "s \<in> set (keys sizes)" using in_s by force
  then show "s \<in> set (server_ids g)" using assms(1) unfolding sizes_ok_def by blast
  show "map_of ts t = Some (length (rows_img pd (rows_for g t s (bp_map p))))"
    if "t \<in> set (keys tabs)" "map_of bg t = Some p"
  proof -
    have "t \<in> set (keys ts)" using that(1) k by simp
    then obtain sz where sz: "map_of ts t = Some sz" by (metis map_of_eq_None_iff option.exhaust list.set_map)
    with map_of_SomeD [OF sz] z that(2) show ?thesis by auto
  qed
qed

lemma disjoint_at:
  assumes "same_out m m' {b..<b + n}" "at_mem m o' bs" "o' + length bs \<le> b \<or> b + n \<le> o'"
  shows "at_mem m' o' bs"
  by (rule same_out_at [OF assms(1,2)]) (use assms(3) in auto)

lemma wire_step:
  assumes pd: "pod_ok pd ok" and g: "ctx_ok g" and so: "sizes_ok pd g tabs sizes bg"
    and inv: "wire_inv pd g tabs sizes bg done ms" and t: "(t, us) \<in> set tabs" "map_of bg t = Some p"
    and new: "t \<notin> done" "done \<subseteq> set (keys tabs)"
  shows "\<exists>ms'. SerializeByServer pd g p (map (\<lambda>(s, ts). (s, toff 4 ts t + 12)) sizes) ms = Inr ms' \<and>
    wire_inv pd g tabs sizes bg (insert t done) ms'"
proof -
  define L where "L s = length (rows_img pd (rows_for g t s (bp_map p)))" for s
  let ?ptrs = "map (\<lambda>(s, ts). (s, toff 4 ts t + 12)) sizes"
  have tin: "t \<in> set (keys tabs)" using t(1) by force
  have p: "bp_table_id p = t" "\<forall>rl \<in> set (bp_map p). 0 \<le> fst rl"
    using so t unfolding sizes_ok_def by fastforce+
  have ptr: "map_of ?ptrs s = map_option (\<lambda>ts. toff 4 ts t + 12) (map_of sizes s)" for s
    by (rule map_of_map_snd)
  have sz: "map_of ts t = Some (L s)" "toff 4 ts t + 12 + L s \<le> msg_size ts" "L s < 2 ^ 31"
    if "map_of sizes s = Some ts" for s ts
  proof -
    show 1: "map_of ts t = Some (L s)" unfolding L_def by (rule sizes_okD(5) [OF so that tin t(2)])
    show 2: "toff 4 ts t + 12 + L s \<le> msg_size ts"
      using toff_le [OF 1, of 4] by (simp add: msg_size_def)
    show "L s < 2 ^ 31" using 2 sizes_okD(3) [OF so that] by simp
  qed
  have srv: "\<exists>ts. map_of sizes s = Some ts" if "s \<in> set (server_ids g)" for s
    using so that unfolding sizes_ok_def by (metis map_of_eq_None_iff not_None_eq list.set_map)
  have "osorted ms" using inv so osorted_keys unfolding wire_inv_def sizes_ok_def by blast
  then have room: "room_ok g ?ptrs ms L"
    using inv sz srv unfolding room_ok_def wire_inv_def ptr by fastforce
  have fit: "\<forall>s \<in> set (server_ids g). length (rows_img pd (rows_for g (bp_table_id p) s (bp_map p))) \<le> L s"
    by (simp add: L_def p(1))
  obtain ms' where ms': "SerializeByServer pd g p ?ptrs ms = Inr ms'" "keys ms' = keys ms"
    "\<forall>s \<in> set (server_ids g). \<exists>m m' b. map_of ms s = Some m \<and> map_of ?ptrs s = Some b \<and>
       map_of ms' s = Some m' \<and> at_mem m' b (rows_img pd (rows_for g t s (bp_map p))) \<and> same_out m m' {b..<b + L s}"
    using SerializeByServer_ok [OF pd g room p(2) fit] unfolding p(1) by blast
  have "\<exists>m'. map_of ms' s = Some m' \<and> length m' = msg_size ts \<and> at_mem m' 0 (i32_enc (int (length ts))) \<and>
      (\<forall>(t, us) \<in> set tabs. at_mem m' (toff 4 ts t) (hdr_img t us)) \<and>
      (\<forall>u \<in> insert t done. \<forall>q. map_of bg u = Some q \<longrightarrow>
         at_mem m' (toff 4 ts u + 12) (rows_img pd (rows_for g u s (bp_map q))))"
    if ts: "map_of sizes s = Some ts" for s ts
  proof -
    let ?b = "toff 4 ts t + 12"
    have "s \<in> set (server_ids g)" by (rule sizes_okD(4) [OF so ts])
    with ms'(3) ptr [of s] ts obtain m m' where m: "map_of ms s = Some m" "map_of ms' s = Some m'"
      "at_mem m' ?b (rows_img pd (rows_for g t s (bp_map p)))" "same_out m m' {?b..<?b + L s}" by auto
    from inv ts m(1) have old: "length m = msg_size ts" "at_mem m 0 (i32_enc (int (length ts)))"
      "\<forall>(t, us) \<in> set tabs. at_mem m (toff 4 ts t) (hdr_img t us)"
      "\<forall>u \<in> done. \<forall>q. map_of bg u = Some q \<longrightarrow>
         at_mem m (toff 4 ts u + 12) (rows_img pd (rows_for g u s (bp_map q)))"
      unfolding wire_inv_def by fastforce+
    have sep: "toff 4 ts u + 12 + length (rows_img pd (rows_for g u s (bp_map q))) \<le> toff 4 ts t \<or>
        ?b + L s \<le> toff 4 ts u" if "u \<noteq> t" "u \<in> set (keys tabs)" "map_of bg u = Some q" for u q
      using toff_disjoint [OF that(1) sizes_okD(5) [OF so ts that(2,3)] sz(1) [OF ts], of 4] by auto
    have hdr: "at_mem m' (toff 4 ts u) (hdr_img u us)" if u: "(u, us) \<in> set tabs" for u us
    proof -
      have a: "at_mem m (toff 4 ts u) (hdr_img u us)" using old(3) u by blast
      have l: "length (hdr_img u us) = 12" by (simp add: hdr_img_def)
      obtain q where q: "map_of bg u = Some q" using so u unfolding sizes_ok_def by blast
      have uin: "u \<in> set (keys tabs)" using u by force
      show ?thesis
        by (rule disjoint_at [OF m(4) a]) (use sep [OF _ uin q] l in \<open>cases "u = t"; auto\<close>)
    qed
    have "at_mem m' 0 (i32_enc (int (length ts)))"
      by (rule disjoint_at [OF m(4) old(2)]) (use toff_ge [of 4 ts t] in simp)
    moreover have "at_mem m' (toff 4 ts u + 12) (rows_img pd (rows_for g u s (bp_map q)))"
      if "u \<in> insert t done" "map_of bg u = Some q" for u q
    proof (cases "u = t")
      case True
      then show ?thesis using m(3) that t(2) by simp
    next
      case False
      then have u: "u \<in> done" "u \<in> set (keys tabs)" using that new(2) by auto
      then have a: "at_mem m (toff 4 ts u + 12) (rows_img pd (rows_for g u s (bp_map q)))"
        using old(4) that(2) by blast
      show ?thesis by (rule disjoint_at [OF m(4) a]) (use sep [OF False u(2) that(2)] in auto)
    qed
    ultimately show ?thesis using m(2) same_out_length [OF m(4)] old(1) hdr by auto
  qed
  moreover have "keys ms' = keys sizes" using ms'(2) inv by (simp add: wire_inv_def)
  ultimately have "wire_inv pd g tabs sizes bg (insert t done) ms'" unfolding wire_inv_def by blast
  with ms'(1) show ?thesis by blast
qed

lemma wire_all:
  assumes pd: "pod_ok pd ok" and g: "ctx_ok g" and so: "sizes_ok pd g tabs sizes bg"
    and ptr: "\<And>t. t \<in> set (keys tabs) \<Longrightarrow> P t = map (\<lambda>(s, ts). (s, toff 4 ts t + 12)) sizes"
  shows "wire_inv pd g tabs sizes bg done ms \<Longrightarrow> set todo \<subseteq> set tabs \<Longrightarrow> distinct (keys todo) \<Longrightarrow>
    done \<inter> set (keys todo) = {} \<Longrightarrow> done \<subseteq> set (keys tabs) \<Longrightarrow>
    \<exists>ms'. foldM (\<lambda>ms (t, us). rbind (BgOpLog_Get t bg) (\<lambda>p. SerializeByServer pd g p (P t) ms)) ms todo = Inr ms' \<and>
      wire_inv pd g tabs sizes bg (done \<union> set (keys todo)) ms'"
proof (induction todo arbitrary: \<open>done\<close> ms)
  case (Cons x todo)
  obtain t us where x: "x = (t, us)" by force
  have tin: "(t, us) \<in> set tabs" using Cons.prems(2) x by simp
  then have tk: "t \<in> set (keys tabs)" by force
  obtain p where p: "map_of bg t = Some p" using so tin unfolding sizes_ok_def by blast
  have "t \<notin> done" using Cons.prems(4) x by auto
  from wire_step [OF pd g so Cons.prems(1) tin p this Cons.prems(5)] obtain ms1 where ms1:
    "SerializeByServer pd g p (P t) ms = Inr ms1" "wire_inv pd g tabs sizes bg (insert t done) ms1"
    unfolding ptr [OF tk] by blast
  have "t \<notin> set (keys todo)" using Cons.prems(3) x by simp
  then have "insert t done \<inter> set (keys todo) = {}" using Cons.prems(4) by auto
  with Cons.IH [OF ms1(2)] Cons.prems tk obtain ms' where
    "foldM (\<lambda>ms (t, us). rbind (BgOpLog_Get t bg) (\<lambda>p. SerializeByServer pd g p (P t) ms)) ms1 todo = Inr ms'"
    "wire_inv pd g tabs sizes bg (insert t done \<union> set (keys todo)) ms'" by auto
  with ms1(1) p x show ?case by (simp add: BgOpLog_Get_def)
qed simp

lemma wire_final:
  assumes so: "sizes_ok pd g tabs sizes bg" and w: "wire_inv pd g tabs sizes bg (set (keys tabs)) ms"
    and s: "s \<in> set (server_ids g)"
  shows "map_of ms s = Some (msg_img pd g tabs bg s)" "length (msg_img pd g tabs bg s) < 2 ^ 31"
proof -
  obtain ts where ts: "map_of sizes s = Some ts"
    using so s unfolding sizes_ok_def by (metis map_of_eq_None_iff not_None_eq list.set_map)
  note D = sizes_okD [OF so ts]
  from w ts obtain m where m: "map_of ms s = Some m" "length m = msg_size ts"
    "at_mem m 0 (i32_enc (int (length ts)))"
    "\<forall>(t, us) \<in> set tabs. at_mem m (toff 4 ts t) (hdr_img t us)"
    "\<forall>t \<in> set (keys tabs). \<forall>p. map_of bg t = Some p \<longrightarrow>
       at_mem m (toff 4 ts t + 12) (rows_img pd (rows_for g t s (bp_map p)))"
    unfolding wire_inv_def by blast
  define img where "img t = table_img pd g bg s (t, the (map_of tabs t))" for t
  have dt: "distinct (keys tabs)" using D(1,2) by simp
  have uv: "the (map_of tabs t) = us" if "(t, us) \<in> set tabs" for t us using dt that by simp
  have at: "at_mem m (toff 4 ts t) (img t)" and len: "map_of ts t = Some sz \<Longrightarrow> length (img t) = sz + 12"
    if tk: "t \<in> set (keys tabs)" for t sz
  proof -
    obtain us where us: "(t, us) \<in> set tabs" using tk by force
    obtain p where p: "map_of bg t = Some p" using so us unfolding sizes_ok_def by blast
    have i: "img t = hdr_img t us @ rows_img pd (rows_for g t s (bp_map p))"
      by (simp add: img_def uv [OF us] table_img_def p)
    have l: "length (hdr_img t us) = 12" by (simp add: hdr_img_def)
    show "at_mem m (toff 4 ts t) (img t)"
      unfolding i at_mem_append l using m(4,5) us tk p by blast
    show "length (img t) = sz + 12" if "map_of ts t = Some sz"
      using D(5) [OF tk p] that by (simp add: i l)
  qed
  have "at_mem m 4 (concat (map (\<lambda>p. img (fst p)) ts))"
  proof (rule layout_img [OF _ _ D(2)])
    show "at_mem m (toff 4 ts t) (img t)" if "t \<in> set (keys ts)" for t using at that D(1) by simp
    show "length (img t) = sz + 12" if "(t, sz) \<in> set ts" for t sz
    proof (rule len)
      show "map_of ts t = Some sz" using D(2) that by simp
      have "t \<in> set (keys ts)" using that by force
      then show "t \<in> set (keys tabs)" using D(1) by simp
    qed
    show "4 \<le> length m" using m(2) by (simp add: msg_size_def)
  qed
  moreover have c: "map (\<lambda>p. img (fst p)) ts = map (table_img pd g bg s) tabs"
  proof -
    have "map (\<lambda>p. img (fst p)) ts = map img (keys tabs)" unfolding D(1) [symmetric] by simp
    also have "\<dots> = map (table_img pd g bg s) tabs" using uv by (auto simp: img_def)
    finally show ?thesis .
  qed
  moreover have lt: "length ts = length tabs" using arg_cong [OF D(1), of length] by simp
  ultimately have at0: "at_mem m 0 (msg_img pd g tabs bg s)"
    using m(3) by (simp add: msg_img_def at_mem_append)
  have "length (concat (map (\<lambda>p. img (fst p)) ts)) = sum_list (map (\<lambda>p. snd p + 12) ts)"
  proof -
    have "length (img (fst q)) = snd q + 12" if "q \<in> set ts" for q
    proof (rule len)
      show "map_of ts (fst q) = Some (snd q)" using D(2) that by simp
      have "fst q \<in> set (keys ts)" using that by simp
      then show "fst q \<in> set (keys tabs)" using D(1) by simp
    qed
    then show ?thesis by (simp add: length_concat comp_def cong: map_cong)
  qed
  then have l: "length (msg_img pd g tabs bg s) = msg_size ts" by (simp add: msg_img_def msg_size_def c)
  then have "m = msg_img pd g tabs bg s" using at0 m(2) by (simp add: at_mem_iff)
  with m(1) show "map_of ms s = Some (msg_img pd g tabs bg s)" by simp
  show "length (msg_img pd g tabs bg s) < 2 ^ 31" using l D(3) by simp
qed

lemma CreateOpLogMsgs_ok:
  assumes pd: "pod_ok pd ok" and g: "ctx_ok g" and so: "sizes_ok pd g tabs sizes bg"
    and al: "\<forall>n. length (alloc n) = n"
  shows "\<exists>ms. CreateOpLogMsgs pd g tabs alloc sizes bg = Inr ms \<and> set (keys ms) = set (server_ids g) \<and>
    (\<forall>s \<in> set (server_ids g). map_of ms s = Some (msg_img pd g tabs bg s) \<and>
       length (msg_img pd g tabs bg s) < 2 ^ 31)"
proof -
  have dt: "distinct (keys tabs)" and ds: "distinct (keys sizes)"
    using so osorted_distinct unfolding sizes_ok_def by blast+
  have hyp: "\<forall>(s, ts) \<in> set sizes. keys tabs = keys ts \<and> distinct (keys ts) \<and> length (alloc (msg_size ts)) = msg_size ts"
  proof safe
    fix s ts assume "(s, ts) \<in> set sizes"
    then have "map_of sizes s = Some ts" using ds by simp
    from sizes_okD(1,2) [OF so this] show "keys tabs = keys ts" "distinct (keys ts)" by simp_all
  qed (use al in auto)
  from create_msgs_ok [OF hyp] obtain M where M: "create_msgs tabs alloc sizes =
      Inr (map (\<lambda>(s, ts). (s, M ts, map (\<lambda>(t, us). (t, toff 4 ts t + 12)) tabs)) sizes)"
    "\<forall>(s, ts) \<in> set sizes. length (M ts) = msg_size ts \<and> at_mem (M ts) 0 (i32_enc (int (length ts))) \<and>
      (\<forall>(t, us) \<in> set tabs. at_mem (M ts) (toff 4 ts t) (hdr_img t us))" .
  let ?msgs = "map (\<lambda>(s, ts). (s, M ts, map (\<lambda>(t, us). (t, toff 4 ts t + 12)) tabs)) sizes"
  let ?ms = "map (\<lambda>(s, ts). (s, M ts)) sizes"
  have prj: "map (\<lambda>(s, m, _). (s, m)) ?msgs = ?ms" by auto
  have "wire_inv pd g tabs sizes bg {} ?ms"
    using M(2) unfolding wire_inv_def by (auto simp: map_of_map_snd dest!: map_of_SomeD)
  from wire_all [OF pd g so table_ptrs_map [of _ tabs M "\<lambda>ts t. toff 4 ts t + 12" sizes] this order_refl dt]
  obtain ms where ms: "foldM (\<lambda>ms (t, us). rbind (BgOpLog_Get t bg) (\<lambda>p.
        SerializeByServer pd g p (table_ptrs ?msgs t) ms)) ?ms tabs = Inr ms"
    "wire_inv pd g tabs sizes bg (set (keys tabs)) ms" by auto
  have "CreateOpLogMsgs pd g tabs alloc sizes bg = Inr ms"
    unfolding CreateOpLogMsgs_def M(1) rbind_simps prj by (rule ms(1))
  moreover have "set (keys ms) = set (server_ids g)"
    using ms(2) so unfolding wire_inv_def sizes_ok_def by simp
  ultimately show ?thesis using wire_final [OF so ms(2)] by blast
qed

section \<open>The reader recovers the rows\<close>

definition row_wire :: "('v \<Rightarrow> bool) \<Rightarrow> int \<times> 'v row_oplog \<Rightarrow> bool" where
  "row_wire ok rl \<longleftrightarrow> is_i32 (fst rl) \<and> is_i32 (RowOpLog_GetSize (snd rl)) \<and>
     (\<forall>(c, u) \<in> set (rol_oplogs (snd rl)). is_i32 c \<and> ok u)"

lemma item_updates_at:
  assumes "pod_ok pd ok" "row_wire ok (row, l)" "n = length (rol_oplogs l)"
    "at_mem m o' (concat (map (\<lambda>e. i32_enc (fst e)) (rol_oplogs l)))"
    "at_mem m (o' + 4 * n) (concat (map (\<lambda>e. p_enc pd (snd e)) (rol_oplogs l)))"
    "oi_num i = int n" "oi_cols i = o'" "oi_updates i = o' + 4 * n"
  shows "item_updates pd m i = Inr (oi_table i, oi_row i, rol_oplogs l)"
proof -
  let ?es = "rol_oplogs l"
  have "i32.rd_array (length (map fst ?es)) m o' = Inr (map fst ?es)"
    using assms(2,4) by (intro i32.rd_array_at) (auto simp: row_wire_def comp_def)
  moreover have "mem_read m (o' + 4 * n) (n * p_size pd) = Inr (concat (map (p_enc pd) (map snd ?es)))"
    using assms(3,5) upds_length [OF assms(1), of ?es] by (simp add: at_mem_def comp_def mult.commute)
  moreover have "dec_array pd (length (map snd ?es)) (concat (map (p_enc pd) (map snd ?es))) = map snd ?es"
    using assms(2) by (intro dec_array_concat [OF assms(1)]) (auto simp: row_wire_def)
  moreover have "zip (map fst ?es) (map snd ?es) = ?es" by (rule zip_map_fst_snd)
  ultimately show ?thesis using assms(3,6-8) by (simp add: item_updates_def)
qed

lemma reader_row_at:
  assumes pd: "pod_ok pd ok" and w: "row_wire ok (row, l)"
    and at: "at_mem m (or_offset r) (row_img pd (row, l))" and us: "or_update_size r = p_size pd"
    and small: "or_offset r + length (row_img pd (row, l)) < 2 ^ 31"
  shows "\<exists>i. reader_row m r st = Inr (i, r\<lparr>or_rows_left := or_rows_left r - 1,
      or_offset := or_offset r + length (row_img pd (row, l))\<rparr>) \<and>
    item_updates pd m i = Inr (or_table_id r, row, rol_oplogs l)"
proof -
  let ?o = "or_offset r" and ?n = "length (rol_oplogs l)"
  have p: "at_mem m ?o (i32_enc row)" "at_mem m (?o + 4) (i32_enc (int ?n))"
    "at_mem m (?o + 8) (concat (map (\<lambda>e. i32_enc (fst e)) (rol_oplogs l)))"
    "at_mem m (?o + 8 + 4 * ?n) (concat (map (\<lambda>e. p_enc pd (snd e)) (rol_oplogs l)))"
    using at by (simp_all add: row_img_def at_mem_append cols_length RowOpLog_GetSize_def ac_simps)
  have rd: "rd_i32 m ?o = Inr row" "rd_i32 m (?o + 4) = Inr (int ?n)"
    using w p by (auto simp: row_wire_def RowOpLog_GetSize_def intro!: rd_i32_at)
  have off: "i32_off (?o + 8 + ?n * (4 + p_size pd)) = Inr (?o + length (row_img pd (row, l)))"
    using small by (simp add: i32_off_def row_img_length [OF pd] mult.commute)
  let ?i = "\<lparr>oi_table = or_table_id r, oi_row = row, oi_num = int ?n, oi_cols = ?o + 8,
      oi_updates = ?o + 8 + 4 * ?n, oi_new_table = st\<rparr>"
  have "reader_row m r st = Inr (?i, r\<lparr>or_rows_left := or_rows_left r - 1,
      or_offset := ?o + length (row_img pd (row, l))\<rparr>)"
    using rd off us by (simp add: reader_row_def Let_def)
  moreover have "item_updates pd m ?i = Inr (or_table_id r, row, rol_oplogs l)"
    using item_updates_at [OF pd w refl p(3,4), of ?i] by simp
  ultimately show ?thesis by blast
qed

lemma StartNewTable_at:
  assumes "at_mem m (or_offset r) (hdr_img t us @ rows_img pd rs)" "is_i32 t" "is_size us"
    "is_i32 (int (length rs))" "or_offset r + 16 < 2 ^ 31"
  shows "StartNewTable m r = Inr (r\<lparr>or_table_id := t, or_update_size := us,
      or_rows_left := int (length rs), or_offset := or_offset r + 16\<rparr>)"
proof -
  have "rd_i32 m (or_offset r) = Inr t" "rd_size m (or_offset r + 4) = Inr us"
    "rd_i32 m (or_offset r + 12) = Inr (int (length rs))"
    using assms(1-4) by (auto simp: hdr_img_def rows_img_def at_mem_append add.commute intro!: rd_i32_at rd_size_at)
  then show ?thesis using assms(5) by (simp add: StartNewTable_def i32_off_def)
qed

text \<open>
  Rest of a message: the rows \<open>rs\<close> of the current table, then the tables \<open>tts\<close>,
  each with its id, update size and rows.
\<close>

definition rest_img :: "'v pod \<Rightarrow> (int \<times> 'v row_oplog) list \<Rightarrow>
    (int \<times> nat \<times> (int \<times> 'v row_oplog) list) list \<Rightarrow> bytes" where
  "rest_img pd rs tts = concat (map (row_img pd) rs) @
     concat (map (\<lambda>(t, us, rs). hdr_img t us @ rows_img pd rs) tts)"

definition rest_exp :: "int \<Rightarrow> (int \<times> 'v row_oplog) list \<Rightarrow>
    (int \<times> nat \<times> (int \<times> 'v row_oplog) list) list \<Rightarrow> (int \<times> int \<times> (int \<times> 'v) list) list" where
  "rest_exp t rs tts = map (\<lambda>(row, l). (t, row, rol_oplogs l)) rs @
     concat (map (\<lambda>(t, us, rs). map (\<lambda>(row, l). (t, row, rol_oplogs l)) rs) tts)"

definition tables_wire where
  "tables_wire pd ok tts \<longleftrightarrow> (\<forall>(t, us, rs) \<in> set tts. is_i32 t \<and> is_size us \<and> us = p_size pd \<and>
     (\<forall>x \<in> set rs. row_wire ok x))"

definition read_from :: "nat \<Rightarrow> bytes \<Rightarrow> oplog_reader \<Rightarrow> bool \<Rightarrow> oplog_item list result" where
  "read_from n m r st = rbind (reader_loop m r st) (\<lambda>(x, r).
     case x of None \<Rightarrow> Inr [] | Some i \<Rightarrow> rbind (read_items n m r) (\<lambda>is. Inr (i # is)))"

lemma read_items_from:
  "or_tables_left r \<noteq> 0 \<Longrightarrow> read_items (Suc n) m r = read_from n m r False"
  by (simp add: OpLogReader_Next_def read_from_def)

lemma rest_img_count: "8 * length rs \<le> length (concat (map (row_img pd) rs))"
  by (induction rs) (auto simp: row_img_def)

lemma read_from_ok:
  assumes pd: "pod_ok pd ok"
  shows "at_mem m (or_offset r) (rest_img pd rs tts) \<Longrightarrow> or_update_size r = p_size pd \<Longrightarrow>
    or_rows_left r = int (length rs) \<Longrightarrow> or_tables_left r = 1 + int (length tts) \<Longrightarrow>
    \<forall>x \<in> set rs. row_wire ok x \<Longrightarrow> tables_wire pd ok tts \<Longrightarrow>
    or_offset r + length (rest_img pd rs tts) < 2 ^ 31 \<Longrightarrow>
    length (rest_exp (or_table_id r) rs tts) \<le> n \<Longrightarrow>
    \<exists>is. read_from n m r st = Inr is \<and> mapM (item_updates pd m) is = Inr (rest_exp (or_table_id r) rs tts)"
proof (induction "length rs + (\<Sum>x\<leftarrow>tts. Suc (length (snd (snd x))))" arbitrary: r rs tts st n rule: less_induct)
  case less
  show ?case
  proof (cases rs)
    case (Cons x rs')
    obtain row l where x: "x = (row, l)" by force
    let ?r = "r\<lparr>or_rows_left := or_rows_left r - 1, or_offset := or_offset r + length (row_img pd (row, l))\<rparr>"
    have img: "rest_img pd rs tts = row_img pd (row, l) @ rest_img pd rs' tts"
      and ex: "rest_exp (or_table_id r) rs tts = (or_table_id r, row, rol_oplogs l) # rest_exp (or_table_id r) rs' tts"
      by (simp_all add: Cons x rest_img_def rest_exp_def)
    have at: "at_mem m (or_offset r) (row_img pd (row, l))"
      "at_mem m (or_offset r + length (row_img pd (row, l))) (rest_img pd rs' tts)"
      using less.prems(1) by (simp_all add: img at_mem_append)
    have rw: "row_wire ok (row, l)" using less.prems(5) Cons x by simp
    have small: "or_offset r + length (row_img pd (row, l)) < 2 ^ 31" using less.prems(7) by (simp add: img)
    obtain i where i: "reader_row m r st = Inr (i, ?r)" "item_updates pd m i = Inr (or_table_id r, row, rol_oplogs l)"
      using reader_row_at [OF pd rw at(1) less.prems(2) small] by blast
    obtain n' where n: "n = Suc n'" using less.prems(8) by (cases n) (simp_all add: ex)
    have "\<exists>is. read_from n' m ?r False = Inr is \<and>
        mapM (item_updates pd m) is = Inr (rest_exp (or_table_id ?r) rs' tts)"
    proof (rule less.hyps)
      show "length rs' + (\<Sum>x\<leftarrow>tts. Suc (length (snd (snd x)))) < length rs + (\<Sum>x\<leftarrow>tts. Suc (length (snd (snd x))))"
        by (simp add: Cons)
    qed (use less.prems at Cons n ex img in simp_all)
    then obtain "is" where "is": "read_from n' m ?r False = Inr is"
      "mapM (item_updates pd m) is = Inr (rest_exp (or_table_id r) rs' tts)" by auto
    have "read_items n m ?r = Inr is" using "is"(1) less.prems(4) by (simp add: n read_items_from del: read_items.simps)
    moreover have "reader_loop m r st = Inr (Some i, ?r)"
      using i(1) less.prems(3) Cons by (subst reader_loop.simps) simp
    ultimately show ?thesis using i(2) "is"(2) by (simp add: read_from_def ex)
  next
    case Nil
    show ?thesis
    proof (cases tts)
      case Nil': Nil
      then have "reader_loop m r st = Inr (None, r\<lparr>or_tables_left := 0\<rparr>)"
        using less.prems(3,4) Nil by (subst reader_loop.simps) simp
      then show ?thesis using Nil Nil' by (simp add: read_from_def rest_exp_def)
    next
      case (Cons y tts')
      obtain t us rt where y: "y = (t, us, rt)" by (metis prod_cases3)
      have img: "rest_img pd rs tts = (hdr_img t us @ rows_img pd rt) @
          concat (map (\<lambda>(t, us, rs). hdr_img t us @ rows_img pd rs) tts')"
        using Nil Cons y by (simp add: rest_img_def)
      have img2: "rest_img pd rs tts = (hdr_img t us @ i32_enc (int (length rt))) @ rest_img pd rt tts'"
        using Nil Cons y by (simp add: rest_img_def rows_img_def)
      have l16: "length (hdr_img t us @ i32_enc (int (length rt))) = 16" by (simp add: hdr_img_def)
      have tw: "is_i32 t" "is_size us" "us = p_size pd" "\<forall>x \<in> set rt. row_wire ok x" "tables_wire pd ok tts'"
        using less.prems(6) Cons y by (auto simp: tables_wire_def)
      have at: "at_mem m (or_offset r) (hdr_img t us @ rows_img pd rt)"
        "at_mem m (or_offset r + 16) (rest_img pd rt tts')"
        using less.prems(1) unfolding img apply (simp add: at_mem_append)
        using less.prems(1) unfolding img2 at_mem_append l16 by simp
      have cnt: "is_i32 (int (length rt))" "or_offset r + 16 < 2 ^ 31"
        using less.prems(7) rest_img_count [of rt pd] unfolding img2 length_append l16
        by (auto simp: is_i32_def rest_img_def hdr_img_def)
      let ?q = "r\<lparr>or_tables_left := or_tables_left r - 1\<rparr>"
      let ?r = "?q\<lparr>or_table_id := t, or_update_size := us, or_rows_left := int (length rt),
          or_offset := or_offset ?q + 16\<rparr>"
      have "StartNewTable m ?q = Inr ?r"
        by (rule StartNewTable_at) (use at tw cnt in simp_all)
      then have lp: "reader_loop m r st = reader_loop m ?r True"
        using less.prems(3,4) Nil Cons by (subst reader_loop.simps) simp
      have ex: "rest_exp (or_table_id r) rs tts = rest_exp t rt tts'"
        using Nil Cons y by (simp add: rest_exp_def)
      have "\<exists>is. read_from n m ?r True = Inr is \<and> mapM (item_updates pd m) is = Inr (rest_exp (or_table_id ?r) rt tts')"
      proof (rule less.hyps)
        show "length rt + (\<Sum>x\<leftarrow>tts'. Suc (length (snd (snd x)))) < length rs + (\<Sum>x\<leftarrow>tts. Suc (length (snd (snd x))))"
          by (simp add: Nil Cons y)
        show "or_offset ?r + length (rest_img pd rt tts') < 2 ^ 31"
          using less.prems(7) unfolding img2 by (simp add: hdr_img_def)
        show "length (rest_exp (or_table_id ?r) rt tts') \<le> n" using less.prems(8) unfolding ex by simp
      qed (use less.prems at tw Cons in simp_all)
      then show ?thesis using lp ex by (simp add: read_from_def)
    qed
  qed
qed

section \<open>Round trip\<close>

definition read_all :: "nat \<Rightarrow> bytes \<Rightarrow> oplog_reader \<Rightarrow> oplog_item list result" where
  "read_all n m r = rbind (OpLogReader_Restart m r) (\<lambda>(b, r). if b then read_items n m r else Inr [])"

definition bg_rows :: "'v bg_oplog \<Rightarrow> int \<Rightarrow> (int \<times> 'v row_oplog) list" where
  "bg_rows bg t = (case map_of bg t of None \<Rightarrow> [] | Some p \<Rightarrow> bp_map p)"

text \<open>What a server should be told: for every table, its own rows with all their updates.\<close>

definition server_updates ::
  "global_context \<Rightarrow> (int \<times> nat) list \<Rightarrow> 'v bg_oplog \<Rightarrow> int \<Rightarrow> (int \<times> int \<times> (int \<times> 'v) list) list" where
  "server_updates g tabs bg s =
     concat (map (\<lambda>(t, us). map (\<lambda>(row, l). (t, row, rol_oplogs l)) (rows_for g t s (bg_rows bg t))) tabs)"

definition bg_wire :: "('v \<Rightarrow> bool) \<Rightarrow> (int \<times> nat) list \<Rightarrow> 'v bg_oplog \<Rightarrow> bool" where
  "bg_wire ok tabs bg \<longleftrightarrow> (\<forall>(t, us) \<in> set tabs. \<forall>x \<in> set (bg_rows bg t). row_wire ok x)"

lemma read_msg:
  assumes pd: "pod_ok pd ok" and so: "sizes_ok pd g tabs sizes bg" and w: "bg_wire ok tabs bg"
    and small: "length (msg_img pd g tabs bg s) < 2 ^ 31"
    and n: "length (server_updates g tabs bg s) < n"
  shows "\<exists>is. read_all n (msg_img pd g tabs bg s) r0 = Inr is \<and>
    mapM (item_updates pd (msg_img pd g tabs bg s)) is = Inr (server_updates g tabs bg s)"
proof -
  let ?m = "msg_img pd g tabs bg s"
  define X where "X = map (\<lambda>(t, us). (t, us, rows_for g t s (bg_rows bg t))) tabs"
  have img: "?m = i32_enc (int (length X)) @ concat (map (\<lambda>(t, us, rs). hdr_img t us @ rows_img pd rs) X)"
  proof -
    have "table_img pd g bg s tu = (case tu of (t, us) \<Rightarrow> hdr_img t us @ rows_img pd (rows_for g t s (bg_rows bg t)))"
      if "tu \<in> set tabs" for tu
      using so that unfolding sizes_ok_def table_img_def bg_rows_def by fastforce
    then have "map (table_img pd g bg s) tabs = map (\<lambda>(t, us, rs). hdr_img t us @ rows_img pd rs) X"
      by (auto simp: X_def)
    then show ?thesis unfolding msg_img_def by (simp only: X_def length_map)
  qed
  have ex: "server_updates g tabs bg s = concat (map (\<lambda>(t, us, rs). map (\<lambda>(row, l). (t, row, rol_oplogs l)) rs) X)"
    unfolding server_updates_def X_def map_map by (rule arg_cong [of _ _ concat]) auto
  have tw: "tables_wire pd ok X"
    using so w unfolding tables_wire_def X_def bg_wire_def sizes_ok_def
    by (fastforce simp: rows_for_def)
  have len: "length X < 2 ^ 31"
  proof -
    have "12 * length X \<le> length (concat (map (\<lambda>(t, us, rs). hdr_img t us @ rows_img pd rs) X))"
      by (induction X) (auto simp: hdr_img_def)
    then show ?thesis using small unfolding img by simp
  qed
  have m0: "at_mem ?m 0 (i32_enc (int (length X)))" "at_mem ?m 4 (concat (map (\<lambda>(t, us, rs). hdr_img t us @ rows_img pd rs) X))"
    using at_mem_whole [of ?m] unfolding img by (simp_all add: at_mem_append)
  have "rd_i32 ?m 0 = Inr (int (length X))"
    using m0(1) len by (intro rd_i32_at) (simp_all add: is_i32_def)
  then have rs: "OpLogReader_Restart ?m r0 =
      (if X = [] then Inr (False, r0\<lparr>or_tables_left := 0, or_offset := 4\<rparr>)
       else rbind (StartNewTable ?m (r0\<lparr>or_tables_left := int (length X), or_offset := 4\<rparr>)) (\<lambda>r. Inr (True, r)))"
    by (simp add: OpLogReader_Restart_def Let_def)
  show ?thesis
  proof (cases X)
    case Nil
    then show ?thesis using rs ex by (simp add: read_all_def)
  next
    case (Cons y tts)
    obtain t us rt where y: "y = (t, us, rt)" by (metis prod_cases3)
    let ?q = "r0\<lparr>or_tables_left := int (length X), or_offset := 4\<rparr>"
    let ?r = "?q\<lparr>or_table_id := t, or_update_size := us, or_rows_left := int (length rt), or_offset := or_offset ?q + 16\<rparr>"
    have ww: "is_i32 t" "is_size us" "us = p_size pd" "\<forall>x \<in> set rt. row_wire ok x" "tables_wire pd ok tts"
      using tw Cons y by (auto simp: tables_wire_def)
    have img2: "?m = (i32_enc (int (length X)) @ hdr_img t us @ i32_enc (int (length rt))) @ rest_img pd rt tts"
      unfolding img by (simp add: Cons y rest_img_def rows_img_def)
    have l20: "length (i32_enc (int (length X)) @ hdr_img t us @ i32_enc (int (length rt))) = 20" by (simp add: hdr_img_def)
    have at: "at_mem ?m 20 (rest_img pd rt tts)"
      using at_mem_embed [of "i32_enc (int (length X)) @ hdr_img t us @ i32_enc (int (length rt))" "rest_img pd rt tts" "[]"]
      unfolding l20 append_Nil2 img2 [symmetric] .
    have sm: "20 + length (rest_img pd rt tts) < 2 ^ 31"
      using small unfolding img2 length_append [of _ "rest_img pd rt tts"] l20 .
    have cnt: "is_i32 (int (length rt))"
      using sm rest_img_count [of rt pd] by (auto simp: is_i32_def rest_img_def)
    have "StartNewTable ?m ?q = Inr ?r"
      by (rule StartNewTable_at [where pd = pd]) (use m0(2) ww cnt Cons y in \<open>simp_all add: at_mem_append\<close>)
    then have st: "OpLogReader_Restart ?m r0 = Inr (True, ?r)" using rs Cons by simp
    have e2: "server_updates g tabs bg s = rest_exp t rt tts" unfolding ex by (simp add: Cons y rest_exp_def)
    obtain n' where n': "n = Suc n'" using n by (cases n) simp_all
    have "\<exists>is. read_from n' ?m ?r False = Inr is \<and> mapM (item_updates pd ?m) is = Inr (rest_exp (or_table_id ?r) rt tts)"
      by (rule read_from_ok [OF pd]) (use at ww sm n n' e2 Cons in simp_all)
    then show ?thesis using st e2 Cons
      by (simp add: read_all_def n' read_items_from del: read_items.simps)
  qed
qed

text \<open>
  C8. Update logs survive the wire: \<open>CreateOpLogMsgs\<close> builds a message for every server
  without an out-of-bounds access, and the reader of each server's message
  recovers, in order, exactly the rows that server owns with all their columns and
  updates, and stops.
\<close>

theorem oplog_wire_roundtrip:
  assumes "pod_ok pd ok" "ctx_ok g" "sizes_ok pd g tabs sizes bg" "bg_wire ok tabs bg"
    and "\<forall>n. length (alloc n) = n" and "s \<in> set (server_ids g)"
    and "length (server_updates g tabs bg s) < n"
  shows "\<exists>ms m is. CreateOpLogMsgs pd g tabs alloc sizes bg = Inr ms \<and> map_of ms s = Some m \<and>
    read_all n m r0 = Inr is \<and> mapM (item_updates pd m) is = Inr (server_updates g tabs bg s)"
proof -
  obtain ms where ms: "CreateOpLogMsgs pd g tabs alloc sizes bg = Inr ms"
    "map_of ms s = Some (msg_img pd g tabs bg s)" "length (msg_img pd g tabs bg s) < 2 ^ 31"
    using CreateOpLogMsgs_ok [OF assms(1-3,5)] assms(6) by blast
  from read_msg [OF assms(1,3,4) ms(3) assms(7)] ms(1,2) show ?thesis by blast
qed

definition demo_row :: "int row_oplog" where
  "demo_row = (RowOpLog 4)\<lparr>rol_oplogs := [(0, 5), (3, - 1)]\<rparr>"

definition demo_bg :: "int bg_oplog" where
  "demo_bg = [(0, \<lparr>bp_table_id = 0, bp_update_size = 4, bp_map = [(5, demo_row), (4, demo_row)]\<rparr>)]"

theorem oplog_wire_roundtrip_witness:
  "\<exists>ms m is. CreateOpLogMsgs i32_pod demo_ctx [(0, 4)] (\<lambda>n. replicate n 0) [(1, [(0, 28)]), (2, [(0, 28)])] demo_bg = Inr ms \<and>
    map_of ms 2 = Some m \<and> read_all 2 m \<lparr>or_update_size = 0, or_offset = 0, or_tables_left = 0, or_table_id = 0, or_rows_left = 0\<rparr> = Inr is \<and>
    mapM (item_updates i32_pod m) is = Inr (server_updates demo_ctx [(0, 4)] demo_bg 2)"
proof (rule oplog_wire_roundtrip [OF i32_pod_ok demo_ctx_ok])
  have part: "GetRowPartitionServerID demo_ctx 0 5 = Inr 2" "GetRowPartitionServerID demo_ctx 0 4 = Inr 1"
    using GetRowPartitionServerID_eq [OF demo_ctx_ok] by (simp_all add: demo_ctx_def GlobalContext_Init_def)
  show "sizes_ok i32_pod demo_ctx [(0, 4)] [(1, [(0, 28)]), (2, [(0, 28)])] demo_bg"
    by (auto simp: sizes_ok_def demo_ctx_def [unfolded GlobalContext_Init_def] is_i32_def is_size_def i32_pod_def
        demo_bg_def rows_img_def rows_for_def part [unfolded demo_ctx_def GlobalContext_Init_def]
        row_img_def demo_row_def RowOpLog_GetSize_def msg_size_def)
  show "bg_wire is_i32 [(0, 4)] demo_bg"
    by (auto simp: bg_wire_def bg_rows_def demo_bg_def row_wire_def demo_row_def is_i32_def RowOpLog_GetSize_def)
  show "length (server_updates demo_ctx [(0, 4)] demo_bg 2) < 2"
    by (simp add: server_updates_def bg_rows_def demo_bg_def rows_for_def part)
qed (simp_all add: demo_ctx_def GlobalContext_Init_def)

end
