(* ===== verification/Vector_Clock.thy ===== *)
theory Vector_Clock
imports Prelude
begin

text \<open>
  \<open>VectorClock\<close> (petuum_ps_common/util/vector_clock.cpp): one clock per
  participant and a cached minimum.  The locale
  \<open>clock_vector\<close> is the contract the server, the background workers and the
  table group rely on; it is interpreted on the model of the class.
\<close>

section \<open>The class\<close>

record vector_clock =
  vec_clock :: "(int, int) amap"
  min_clock :: int

definition VectorClock0 :: vector_clock where
  "VectorClock0 = \<lparr>vec_clock = [], min_clock = - 1\<rparr>"

definition VectorClock_ids :: "int list \<Rightarrow> vector_clock" where
  "VectorClock_ids ids =
     \<lparr>vec_clock = fold (\<lambda>i m. AList.update i 0 m) ids [], min_clock = 0\<rparr>"

definition AddClock :: "int \<Rightarrow> int \<Rightarrow> vector_clock \<Rightarrow> vector_clock" where
  "AddClock i clock c =
     (let c = c\<lparr>vec_clock := AList.update i clock (vec_clock c)\<rparr> in
      if min_clock c = - 1 \<or> clock < min_clock c then c\<lparr>min_clock := clock\<rparr> else c)"

text \<open>\<open>operator[]\<close> of \<open>unordered_map\<close>: an absent key is inserted with value 0.\<close>

definition index_insert :: "int \<Rightarrow> (int, int) amap \<Rightarrow> int \<times> (int, int) amap" where
  "index_insert i m =
     (case map_of m i of Some v \<Rightarrow> (v, m) | None \<Rightarrow> (0, AList.update i 0 m))"

text \<open>The counting loop of \<open>IsUniqueMin\<close>, which stops at the second minimum.\<close>

fun count_min :: "int \<Rightarrow> nat \<Rightarrow> (int, int) amap \<Rightarrow> bool" where
  "count_min mn n [] = True"
| "count_min mn n ((i, v) # m) =
     (let n' = (if v = mn then Suc n else n) in
      if n' > 1 then False else count_min mn n' m)"

definition IsUniqueMin :: "int \<Rightarrow> vector_clock \<Rightarrow> bool \<times> vector_clock" where
  "IsUniqueMin i c =
     (let (v, m) = index_insert i (vec_clock c); c' = c\<lparr>vec_clock := m\<rparr> in
      if v \<noteq> min_clock c then (False, c') else (count_min (min_clock c) 0 m, c'))"

definition incr_clock :: "int \<Rightarrow> vector_clock \<Rightarrow> vector_clock" where
  "incr_clock i c =
     (let (v, m) = index_insert i (vec_clock c) in
      c\<lparr>vec_clock := AList.update i (v + 1) m\<rparr>)"

definition Tick :: "int \<Rightarrow> vector_clock \<Rightarrow> int \<times> vector_clock" where
  "Tick i c =
     (let (u, c) = IsUniqueMin i c in
      if u then
        (let c = incr_clock i c; c = c\<lparr>min_clock := min_clock c + 1\<rparr>
         in (min_clock c, c))
      else (0, incr_clock i c))"

definition get_clock :: "int \<Rightarrow> vector_clock \<Rightarrow> int result" where
  "get_clock i c = of_option (CheckFailed ''iter != vec_clock_.end()'') (map_of (vec_clock c) i)"

definition get_min_clock :: "vector_clock \<Rightarrow> int" where
  "get_min_clock c = min_clock c"

section \<open>Invariant\<close>

text \<open>
  The cached minimum is the minimum of the clocks; an empty vector has
  minimum -1, the value \<open>AddClock\<close> tests for.
\<close>

definition vc_ok :: "vector_clock \<Rightarrow> bool" where
  "vc_ok c \<longleftrightarrow> amap_ok (vec_clock c) \<and>
     (\<forall>v \<in> snd ` set (vec_clock c). 0 \<le> v) \<and>
     min_clock c = (if vec_clock c = [] then - 1 else Min (snd ` set (vec_clock c)))"

definition clocks :: "vector_clock \<Rightarrow> int \<rightharpoonup> int" where
  "clocks c = map_of (vec_clock c)"

lemma ran_map_of_amap: "amap_ok m \<Longrightarrow> ran (map_of m) = snd ` set m"
  by (simp add: amap_ok_def ran_distinct)

lemma vc_ok_ran: "vc_ok c \<Longrightarrow> ran (clocks c) = snd ` set (vec_clock c)"
  by (simp add: vc_ok_def clocks_def ran_map_of_amap)

lemma count_min_iff: "n \<le> 1 \<Longrightarrow> count_min mn n m \<longleftrightarrow> n + length (filter (\<lambda>p. snd p = mn) m) \<le> 1"
proof (induction mn n m rule: count_min.induct)
  case (2 mn n i v m)
  then show ?case by (cases "v = mn"; cases "n = 1") (auto simp: Let_def)
qed simp

lemma index_insert_present: "map_of m i = Some v \<Longrightarrow> index_insert i m = (v, m)"
  by (simp add: index_insert_def)

lemma filter_unique_le1:
  assumes "amap_ok m" and "map_of m i = Some mn"
  shows "length (filter (\<lambda>p. snd p = mn) m) \<le> 1 \<longleftrightarrow> (\<forall>j v. map_of m j = Some v \<and> j \<noteq> i \<longrightarrow> v \<noteq> mn)"
proof -
  let ?f = "filter (\<lambda>p. snd p = mn) m"
  have d: "distinct (map fst m)" and in_m: "(i, mn) \<in> set m"
    using assms by (auto simp: amap_ok_def dest: map_of_SomeD)
  have df: "distinct ?f" using d by (simp add: distinct_map)
  have "length ?f \<le> 1 \<longleftrightarrow> card (set ?f) \<le> 1" using distinct_card [OF df] by simp
  also have "\<dots> \<longleftrightarrow> (\<forall>p \<in> set ?f. p = (i, mn))"
    using in_m by (subst card_le_Suc0_iff_eq [unfolded One_nat_def [symmetric]]) auto
  also have "\<dots> \<longleftrightarrow> (\<forall>j v. map_of m j = Some v \<and> j \<noteq> i \<longrightarrow> v \<noteq> mn)"
    using d by (auto simp: in_set_conv_decomp dest: map_of_is_SomeI) 
      (metis d map_of_eq_Some_iff)
  finally show ?thesis .
qed

lemma IsUniqueMin_present:
  assumes "vc_ok c" and "clocks c i = Some v"
  shows "IsUniqueMin i c =
    (v = min_clock c \<and> (\<forall>j w. clocks c j = Some w \<and> j \<noteq> i \<longrightarrow> w \<noteq> min_clock c), c)"
  using assms filter_unique_le1 [of "vec_clock c" i "min_clock c"]
  by (auto simp: IsUniqueMin_def clocks_def index_insert_present vc_ok_def count_min_iff Let_def)

lemma incr_clock_present:
  "clocks c i = Some v \<Longrightarrow> incr_clock i c = c\<lparr>vec_clock := AList.update i (v + 1) (vec_clock c)\<rparr>"
  by (simp add: incr_clock_def clocks_def index_insert_present)

lemma Min_ran_upd_succ:
  fixes m :: "int \<rightharpoonup> int"
  assumes fin: "finite (dom m)" and v: "m i = Some v"
  shows "Min (ran (m(i \<mapsto> v + 1))) =
    (if v = Min (ran m) \<and> (\<forall>j w. m j = Some w \<and> j \<noteq> i \<longrightarrow> w \<noteq> Min (ran m))
     then Min (ran m) + 1 else Min (ran m))"
proof -
  let ?M = "Min (ran m)"
  have fr: "finite (ran m)" using fin by (rule finite_ran)
  have fr': "finite (ran (m(i \<mapsto> v + 1)))" using fin by (intro finite_ran) simp
  have ge: "?M \<le> w" if "m j = Some w" for j w using fr that by (auto intro: Min_le ranI)
  obtain k where k: "m k = Some ?M"
    using Min_in [OF fr] v by (auto simp: ran_def)
  show ?thesis
  proof (cases "v = ?M \<and> (\<forall>j w. m j = Some w \<and> j \<noteq> i \<longrightarrow> w \<noteq> ?M)")
    case True
    have "Min (ran (m(i \<mapsto> v + 1))) = ?M + 1"
    proof (rule Min_eqI [OF fr'])
      fix y assume "y \<in> ran (m(i \<mapsto> v + 1))"
      then obtain j where "(m(i \<mapsto> v + 1)) j = Some y" by (auto simp: ran_def)
      with True ge [of j y] show "?M + 1 \<le> y" by (cases "j = i") force+
    qed (use True in \<open>auto simp: ran_def\<close>)
    with True show ?thesis by simp
  next
    case False
    have "Min (ran (m(i \<mapsto> v + 1))) = ?M"
    proof (rule Min_eqI [OF fr'])
      fix y assume "y \<in> ran (m(i \<mapsto> v + 1))"
      then obtain j where "(m(i \<mapsto> v + 1)) j = Some y" by (auto simp: ran_def)
      with ge [of j y] ge [OF v] show "?M \<le> y" by (cases "j = i") auto
    next
      show "?M \<in> ran (m(i \<mapsto> v + 1))"
        using False k v by (cases "k = i") (auto simp: ran_def)
    qed
    with False show ?thesis by auto
  qed
qed

lemma vc_ok_iff:
  "vc_ok c \<longleftrightarrow> amap_ok (vec_clock c) \<and> (\<forall>v \<in> ran (clocks c). 0 \<le> v) \<and>
     min_clock c = (if clocks c = Map.empty then - 1 else Min (ran (clocks c)))"
  by (simp add: vc_ok_def clocks_def ran_map_of_amap map_of_eq_empty_iff cong: conj_cong)

text \<open>What one tick of a registered participant does.\<close>

lemma Tick_spec:
  assumes ok: "vc_ok c" and v: "clocks c i = Some v" and t: "Tick i c = (r, c')"
  shows "vc_ok c'" and "clocks c' = (clocks c)(i \<mapsto> v + 1)"
    and "r = (if min_clock c' = min_clock c then 0 else min_clock c')"
proof -
  let ?u = "v = min_clock c \<and> (\<forall>j w. clocks c j = Some w \<and> j \<noteq> i \<longrightarrow> w \<noteq> min_clock c)"
  have ne: "clocks c \<noteq> Map.empty" using v by auto
  have fin: "finite (dom (clocks c))" by (simp add: clocks_def finite_dom_map_of)
  have mn: "min_clock c = Min (ran (clocks c))" using ok ne by (simp add: vc_ok_iff)
  have c': "c' = c\<lparr>vec_clock := AList.update i (v + 1) (vec_clock c),
                    min_clock := (if ?u then min_clock c + 1 else min_clock c)\<rparr>"
    and r: "r = (if ?u then min_clock c + 1 else 0)"
    using t by (auto simp: Tick_def IsUniqueMin_present [OF ok v] incr_clock_present [OF v] Let_def
        split: if_splits)
  show cl: "clocks c' = (clocks c)(i \<mapsto> v + 1)"
    using c' by (auto simp: clocks_def update_conv')
  have "0 \<le> v" using ok v by (auto simp: vc_ok_iff ran_def)
  then have nn: "\<forall>w \<in> ran (clocks c'). 0 \<le> w" using ok unfolding cl by (auto simp: vc_ok_iff ran_def)
  have mc: "min_clock c' = Min (ran (clocks c'))"
    unfolding cl Min_ran_upd_succ [OF fin v] using c' by (auto simp: mn)
  have "amap_ok (vec_clock c')" using ok c' by (simp add: vc_ok_def amap.upd_ok)
  moreover have "clocks c' \<noteq> Map.empty" using fun_cong [OF cl, of i] by auto
  ultimately show "vc_ok c'" unfolding vc_ok_iff using mc nn by simp
  have "Min (ran (clocks c)) \<in> ran (clocks c)"
    using Min_in [OF finite_ran [OF fin]] ranI [where m = "clocks c", OF v] by blast
  then have "0 \<le> min_clock c" using ok unfolding mn by (simp add: vc_ok_iff)
  then show "r = (if min_clock c' = min_clock c then 0 else min_clock c')"
    using r c' by auto
qed

lemma AddClock_clocks: "clocks (AddClock i t c) = (clocks c)(i \<mapsto> t)"
  by (simp add: AddClock_def clocks_def Let_def update_conv')

lemma AddClock_min:
  "min_clock (AddClock i t c) =
     (if min_clock c = - 1 \<or> t < min_clock c then t else min_clock c)"
  by (simp add: AddClock_def Let_def)

lemma AddClock_ok:
  assumes "vc_ok c" and "clocks c i = None" and "0 \<le> t"
  shows "vc_ok (AddClock i t c)"
proof -
  have cl: "clocks (AddClock i t c) = (clocks c)(i \<mapsto> t)" by (rule AddClock_clocks)
  have ran: "ran ((clocks c)(i \<mapsto> t)) = insert t (ran (clocks c))"
    using assms(2) by (simp add: ran_map_upd)
  have am: "amap_ok (vec_clock (AddClock i t c))"
    using assms(1) by (simp add: AddClock_def Let_def vc_ok_def amap.upd_ok)
  have fin: "finite (ran (clocks c))" by (simp add: clocks_def finite_range_map_of finite_ran finite_dom_map_of)
  show ?thesis
  proof (cases "clocks c = Map.empty")
    case True
    with assms am show ?thesis
      by (auto simp: vc_ok_iff cl ran AddClock_min)
  next
    case False
    then have ne: "ran (clocks c) \<noteq> {}" by (auto simp: ran_def fun_eq_iff)
    have "0 \<le> Min (ran (clocks c))" using assms(1) Min_in [OF fin ne] by (auto simp: vc_ok_iff)
    moreover have "Min (insert t (ran (clocks c))) = min t (Min (ran (clocks c)))"
      using fin ne by (rule Min_insert)
    ultimately show ?thesis
      using assms am False by (auto simp: vc_ok_iff cl ran AddClock_min)
  qed
qed

lemma VectorClock0_ok: "vc_ok VectorClock0"
  by (simp add: vc_ok_def VectorClock0_def amap_ok_def)

lemma VectorClock_ids_clocks:
  "clocks (VectorClock_ids ids) = (\<lambda>i. if i \<in> set ids then Some 0 else None)"
proof -
  have "map_of (fold (\<lambda>i m. AList.update i 0 m) ids m) = (\<lambda>i. if i \<in> set ids then Some 0 else map_of m i)"
    for m :: "(int, int) amap"
    by (induction ids arbitrary: m) (auto simp: update_conv' fun_eq_iff)
  then show ?thesis by (simp add: VectorClock_ids_def clocks_def fun_eq_iff)
qed

lemma VectorClock_ids_ok:
  assumes "ids \<noteq> []"
  shows "vc_ok (VectorClock_ids ids)"
proof -
  have "amap_ok m \<Longrightarrow> amap_ok (fold (\<lambda>i m. AList.update i 0 m) ids m)" for m :: "(int, int) amap"
    by (induction ids arbitrary: m) (simp_all add: amap.upd_ok)
  then have a: "amap_ok (vec_clock (VectorClock_ids ids))"
    by (simp add: VectorClock_ids_def amap.empty_ok)
  have "ran (clocks (VectorClock_ids ids)) = {0}"
    using assms by (cases ids) (auto simp: VectorClock_ids_clocks ran_def)
  moreover have "clocks (VectorClock_ids ids) \<noteq> Map.empty"
    using assms by (cases ids) (auto simp: VectorClock_ids_clocks fun_eq_iff)
  ultimately show ?thesis using a by (simp add: vc_ok_iff VectorClock_ids_def)
qed

section \<open>The contract of a clock vector\<close>

text \<open>
  What the clients of the class rely on: the minimum is the minimum of the
  registered clocks, and a tick advances exactly one clock and reports the
  new minimum when the minimum has moved and 0 otherwise.
\<close>

locale clock_vector =
  fixes clk :: "'s \<Rightarrow> int \<rightharpoonup> int"
    and minc :: "'s \<Rightarrow> int"
    and tick :: "int \<Rightarrow> 's \<Rightarrow> int \<times> 's"
    and inv :: "'s \<Rightarrow> bool"
  assumes fin: "finite (dom (clk s))"
    and minc_Min: "inv s \<Longrightarrow> clk s i = Some v \<Longrightarrow> minc s = Min (ran (clk s))"
    and tick_inv: "inv s \<Longrightarrow> clk s i = Some v \<Longrightarrow> inv (snd (tick i s))"
    and tick_clk: "inv s \<Longrightarrow> clk s i = Some v \<Longrightarrow> clk (snd (tick i s)) = (clk s)(i \<mapsto> v + 1)"
    and tick_ret: "inv s \<Longrightarrow> clk s i = Some v \<Longrightarrow>
      fst (tick i s) = (if minc (snd (tick i s)) = minc s then 0 else minc (snd (tick i s)))"
begin

lemma minc_le: "inv s \<Longrightarrow> clk s i = Some v \<Longrightarrow> minc s \<le> v"
  using fin minc_Min [of s i v] by (auto intro!: Min_le finite_ran ranI)

lemma minc_attained: "inv s \<Longrightarrow> clk s i = Some v \<Longrightarrow> \<exists>j. clk s j = Some (minc s)"
  using Min_in [OF finite_ran [OF fin], of s] minc_Min [of s i v] by (auto simp: ran_def)

lemma minc_geI:
  "inv s \<Longrightarrow> clk s i = Some v \<Longrightarrow> (\<And>j w. clk s j = Some w \<Longrightarrow> m \<le> w) \<Longrightarrow> m \<le> minc s"
  using minc_attained by blast

lemma tick_minc:
  assumes "inv s" "clk s i = Some v"
  shows "minc (snd (tick i s)) \<in> {minc s, minc s + 1}"
proof -
  let ?s' = "snd (tick i s)"
  have c: "clk ?s' = (clk s)(i \<mapsto> v + 1)" and ok: "inv ?s'" and ci: "clk ?s' i = Some (v + 1)"
    using assms tick_clk tick_inv by auto
  have up: "minc ?s' \<le> minc s + 1"
  proof -
    obtain j where j: "clk s j = Some (minc s)" using minc_attained [OF assms] by blast
    then have "clk ?s' j = Some (if j = i then minc s + 1 else minc s)" using c assms(2) by auto
    from minc_le [OF ok this] show ?thesis by (auto split: if_splits)
  qed
  have "minc s \<le> minc ?s'"
  proof (rule minc_geI [OF ok ci])
    fix j w assume "clk ?s' j = Some w"
    with c minc_le [OF assms(1)] minc_le [OF assms] show "minc s \<le> w"
      by (auto split: if_splits)
  qed
  with up show ?thesis by auto
qed

definition run :: "int list \<Rightarrow> 's \<Rightarrow> 's" where
  "run js s = fold (\<lambda>i s. snd (tick i s)) js s"

lemma run_both:
  assumes "inv s" "set js \<subseteq> dom (clk s)"
  shows "inv (run js s) \<and>
    clk (run js s) = (\<lambda>i. map_option (\<lambda>v. v + int (count_list js i)) (clk s i))"
  using assms
proof (induction js arbitrary: s)
  case Nil
  then show ?case by (simp add: run_def option.map_ident fun_eq_iff)
next
  case (Cons j js)
  obtain v where v: "clk s j = Some v" using Cons.prems(2) by auto
  let ?s = "snd (tick j s)"
  have st: "run (j # js) s = run js ?s" by (simp add: run_def)
  have c: "clk ?s = (clk s)(j \<mapsto> v + 1)" using Cons.prems(1) v by (rule tick_clk)
  have d: "set js \<subseteq> dom (clk ?s)" using Cons.prems(2) unfolding c by auto
  have "inv (run js ?s)"
    and e: "clk (run js ?s) = (\<lambda>i. map_option (\<lambda>v. v + int (count_list js i)) (clk ?s i))"
    using Cons.IH [OF tick_inv [OF Cons.prems(1) v] d] by blast+
  moreover have "clk (run js ?s) i = map_option (\<lambda>v. v + int (count_list (j # js) i)) (clk s i)" for i
    using v by (simp add: e c)
  ultimately show ?case unfolding st by blast
qed

lemma run_spec:
  assumes "inv s" "set js \<subseteq> dom (clk s)"
  shows "inv (run js s)"
    and "clk (run js s) = (\<lambda>i. map_option (\<lambda>v. v + int (count_list js i)) (clk s i))"
  using run_both [OF assms] by blast+

text \<open>Only the number of ticks of each participant matters, not their order.\<close>

lemma run_interleaving:
  assumes "inv s" "set xs \<union> set ys \<subseteq> dom (clk s)" "zs \<in> shuffles xs ys" "clk s i = Some v"
  shows "clk (run zs s) = clk (run (xs @ ys) s)" and "minc (run zs s) = minc (run (xs @ ys) s)"
proof -
  have c: "count_list zs j = count_list (xs @ ys) j" for j
    using assms(3)
    by (metis count_mset mset_append mset_shuffles)
  have s: "set zs \<subseteq> dom (clk s)" "set (xs @ ys) \<subseteq> dom (clk s)"
    using assms(2,3) set_shuffles by fastforce+
  show e: "clk (run zs s) = clk (run (xs @ ys) s)"
    using run_spec(2) [OF assms(1) s(1)] run_spec(2) [OF assms(1) s(2)] c by simp
  show "minc (run zs s) = minc (run (xs @ ys) s)"
    using minc_Min [OF run_spec(1) [OF assms(1) s(1)], of i "v + int (count_list zs i)"]
      minc_Min [OF run_spec(1) [OF assms(1) s(2)], of i "v + int (count_list zs i)"] e
      fun_cong [OF run_spec(2) [OF assms(1) s(1)], of i] assms(4) by simp
qed

lemma run_minc_all:
  assumes "inv s" "set js \<subseteq> dom (clk s)" "clk s i = Some v"
    and "\<And>j w. clk s j = Some w \<Longrightarrow> m \<le> w + int (count_list js j)"
  shows "m \<le> minc (run js s)"
proof (rule minc_geI [OF run_spec(1) [OF assms(1,2)], of i])
  show "clk (run js s) i = Some (v + int (count_list js i))"
    using run_spec(2) [OF assms(1,2)] assms(3) by simp
next
  fix j w assume "clk (run js s) j = Some w"
  then show "m \<le> w" using run_spec(2) [OF assms(1,2)] assms(4) by auto
qed

end

interpretation vc: clock_vector clocks get_min_clock Tick vc_ok
proof
  fix s :: vector_clock and i v
  show "finite (dom (clocks s))" by (simp add: clocks_def finite_dom_map_of)
  assume ok: "vc_ok s" and v: "clocks s i = Some v"
  note T = Tick_spec [OF ok v surjective_pairing]
  show "get_min_clock s = Min (ran (clocks s))"
    using ok v by (auto simp: vc_ok_iff get_min_clock_def)
  show "vc_ok (snd (Tick i s))" "clocks (snd (Tick i s)) = (clocks s)(i \<mapsto> v + 1)"
    "fst (Tick i s) = (if get_min_clock (snd (Tick i s)) = get_min_clock s then 0
                       else get_min_clock (snd (Tick i s)))"
    using T by (simp_all add: get_min_clock_def)
qed

section \<open>Calls one after the other\<close>

text \<open>A call of the class and its result, and several calls in turn: what the locked variant promises to its threads.\<close>

datatype mt_op = MT_AddClock int int | MT_Tick int | MT_get_clock int | MT_get_min_clock

fun vc_call :: "vector_clock \<Rightarrow> mt_op \<Rightarrow> (int option \<times> vector_clock) result" where
  "vc_call c (MT_AddClock i t) = Inr (None, AddClock i t c)"
| "vc_call c (MT_Tick i) = (let (r, c') = Tick i c in Inr (Some r, c'))"
| "vc_call c (MT_get_clock i) = rbind (get_clock i c) (\<lambda>v. Inr (Some v, c))"
| "vc_call c MT_get_min_clock = Inr (Some (get_min_clock c), c)"

definition vc_calls :: "vector_clock \<Rightarrow> mt_op list \<Rightarrow> vector_clock result" where
  "vc_calls = foldM (\<lambda>c op. rbind (vc_call c op) (\<lambda>(_, c'). Inr c'))"

lemma vc_calls_ticks:
  "vc_calls c (map MT_Tick js) = Inr (vc.run js c)"
  unfolding vc_calls_def vc.run_def
  by (induction js arbitrary: c) (auto simp: Let_def split: prod.splits)

section \<open>Properties\<close>

text \<open>
  C19. A tick of a registered participant keeps the cached minimum equal to the
  minimum of all clocks, advances that participant by one and nobody else, and
  returns the new minimum exactly when the minimum has moved (0 otherwise).
\<close>

theorem Tick_correct:
  assumes "vc_ok c" and "clocks c i = Some v"
  shows "vc_ok (snd (Tick i c)) \<and>
    clocks (snd (Tick i c)) = (clocks c)(i \<mapsto> v + 1) \<and>
    fst (Tick i c) = (if get_min_clock (snd (Tick i c)) = get_min_clock c then 0
                      else get_min_clock c + 1) \<and>
    get_min_clock (snd (Tick i c)) = Min (ran ((clocks c)(i \<mapsto> v + 1)))"
  using vc.tick_inv [OF assms] vc.tick_clk [OF assms] vc.tick_ret [OF assms]
    vc.tick_minc [OF assms] vc.minc_Min [OF vc.tick_inv [OF assms], of i "v + 1"]
  by auto

theorem Tick_correct_witness:
  "clocks (snd (Tick 1 (VectorClock_ids [1, 2]))) 1 = Some 1"
  using Tick_correct [of "VectorClock_ids [1, 2]" 1 0]
    VectorClock_ids_ok [of "[1, 2]"] VectorClock_ids_clocks [of "[1, 2]"] by simp

text \<open>
  If every registered participant has ticked at least \<open>n\<close> times since the
  clocks were created at 0, the minimum is at least \<open>n\<close>; and if one
  participant has ticked exactly \<open>n\<close> times it is at most \<open>n\<close>.
\<close>

theorem VectorClock_ids_min_after_ticks:
  assumes "set js \<subseteq> set ids" and "i \<in> set ids"
    and "\<forall>j \<in> set ids. n \<le> count_list js j" and "count_list js i = n"
  shows "\<exists>c. vc_calls (VectorClock_ids ids) (map MT_Tick js) = Inr c \<and>
    get_min_clock c = int n \<and> vc_ok c"
proof -
  let ?c = "VectorClock_ids ids"
  have ne: "ids \<noteq> []" using assms(2) by auto
  have ok: "vc_ok ?c" using ne by (rule VectorClock_ids_ok)
  have d: "set js \<subseteq> dom (clocks ?c)" using assms(1) by (auto simp: VectorClock_ids_clocks)
  have ci: "clocks ?c i = Some 0" using assms(2) by (simp add: VectorClock_ids_clocks)
  have "int n \<le> get_min_clock (vc.run js ?c)"
    by (rule vc.run_minc_all [OF ok d ci])
       (use assms(3) in \<open>auto simp: VectorClock_ids_clocks split: if_splits\<close>)
  moreover have "get_min_clock (vc.run js ?c) \<le> int n"
    using vc.minc_le [OF vc.run_spec(1) [OF ok d], of i] vc.run_spec(2) [OF ok d] ci assms(4)
    by simp
  ultimately show ?thesis
    using vc.run_spec(1) [OF ok d] by (simp add: vc_calls_ticks)
qed

theorem VectorClock_ids_min_after_ticks_witness:
  "\<exists>c. vc_calls (VectorClock_ids [1, 2]) (map MT_Tick [1, 2, 1]) = Inr c \<and>
    get_min_clock c = int 1 \<and> vc_ok c"
  by (rule VectorClock_ids_min_after_ticks [of _ _ 2]) simp_all

end
