(* ===== verification/Server.thy ===== *)
theory Server
imports Oplog_Roundtrip Vector_Clock
begin

text \<open>
  The server's state (petuum_ps/server): subscriptions (callback_subs.hpp), rows
  (server_row.hpp), tables (server_table.hpp and .cpp, with snapshots in a
  LevelDB database, which is an argument) and the \<open>Server\<close> object (server.cpp)
  with its vector clocks, pending row requests and oplog versions.
  Rows carry the operations of their registered class.
\<close>

section \<open>ClassRegistry\<close>

record ('r, 'v) class_registry =
  cr_default :: "('r, 'v) row_ops option"
  cr_creators :: "(int \<times> ('r, 'v) row_ops) list"

definition SetDefaultCreator where
  "SetDefaultCreator ops reg = reg\<lparr>cr_default := Some ops\<rparr>"

definition AddCreator where
  "AddCreator k ops reg = reg\<lparr>cr_creators := oupd k ops (cr_creators reg)\<rparr>"

text \<open>The new object and its class; None is the null pointer.\<close>

definition CreateObject ::
  "('r, 'v) class_registry \<Rightarrow> int \<Rightarrow> (('r, 'v) row_ops \<times> 'r) option" where
  "CreateObject reg k =
     (case map_of (cr_creators reg) k of
        Some ops \<Rightarrow> Some (ops, ro_new ops)
      | None \<Rightarrow> (case cr_default reg of Some ops \<Rightarrow> Some (ops, ro_new ops) | None \<Rightarrow> None))"

section \<open>CallBackSubs\<close>

definition PETUUM_MAX_NUM_CLIENTS :: nat where "PETUUM_MAX_NUM_CLIENTS = 8"

text \<open>\<open>std::bitset\<close>: \<open>test\<close>, \<open>set\<close> and \<open>reset\<close> throw outside the bitset.\<close>

type_synonym bitset = "bool list"

definition bitset_test :: "bitset \<Rightarrow> int \<Rightarrow> bool result" where
  "bitset_test b i = (if 0 \<le> i \<and> nat i < length b then Inr (b ! nat i) else Inl OutOfRange)"

definition bitset_put :: "bitset \<Rightarrow> int \<Rightarrow> bool \<Rightarrow> bitset result" where
  "bitset_put b i x = (if 0 \<le> i \<and> nat i < length b then Inr (b[nat i := x]) else Inl OutOfRange)"

definition CallBackSubs :: bitset where
  "CallBackSubs = replicate PETUUM_MAX_NUM_CLIENTS False"

definition subs_Subscribe :: "int \<Rightarrow> bitset \<Rightarrow> (bool \<times> bitset) result" where
  "subs_Subscribe client b =
     rbind (bitset_test b client) (\<lambda>t.
       if \<not> t then rbind (bitset_put b client True) (\<lambda>b. Inr (True, b)) else Inr (False, b))"

definition subs_Unsubscribe :: "int \<Rightarrow> bitset \<Rightarrow> (bool \<times> bitset) result" where
  "subs_Unsubscribe client b =
     rbind (bitset_test b client) (\<lambda>t.
       if t then rbind (bitset_put b client False) (\<lambda>b. Inr (True, b)) else Inr (False, b))"

section \<open>ServerRow\<close>

record ('r, 'v) server_row =
  sr_ops :: "('r, 'v) row_ops"
  sr_data :: 'r
  sr_subs :: bitset
  sr_num_subscribed :: nat
  sr_dirty :: bool

definition ServerRow :: "('r, 'v) row_ops \<Rightarrow> 'r \<Rightarrow> ('r, 'v) server_row" where
  "ServerRow ops d =
     \<lparr>sr_ops = ops, sr_data = d, sr_subs = CallBackSubs, sr_num_subscribed = 0, sr_dirty = False\<rparr>"

definition row_ApplyBatchInc :: "(int \<times> 'v) list \<Rightarrow> ('r, 'v) server_row \<Rightarrow> ('r, 'v) server_row result" where
  "row_ApplyBatchInc us r =
     rbind (ro_ApplyBatchIncUnsafe (sr_ops r) us (sr_data r)) (\<lambda>d.
       Inr (r\<lparr>sr_data := d, sr_dirty := True\<rparr>))"

definition row_SerializedSize :: "('r, 'v) server_row \<Rightarrow> nat" where
  "row_SerializedSize r = ro_SerializedSize (sr_ops r) (sr_data r)"

definition row_Serialize :: "('r, 'v) server_row \<Rightarrow> bytes" where
  "row_Serialize r = ro_Serialize (sr_ops r) (sr_data r)"

definition row_Subscribe :: "int \<Rightarrow> ('r, 'v) server_row \<Rightarrow> ('r, 'v) server_row result" where
  "row_Subscribe client r =
     rbind (subs_Subscribe client (sr_subs r)) (\<lambda>(changed, b).
       let r = r\<lparr>sr_subs := b\<rparr> in
       Inr (if changed then r\<lparr>sr_num_subscribed := sr_num_subscribed r + 1\<rparr> else r))"

definition row_Unsubscribe :: "int \<Rightarrow> ('r, 'v) server_row \<Rightarrow> ('r, 'v) server_row result" where
  "row_Unsubscribe client r =
     rbind (subs_Unsubscribe client (sr_subs r)) (\<lambda>(changed, b).
       let r = r\<lparr>sr_subs := b\<rparr> in
       Inr (if changed then r\<lparr>sr_num_subscribed := sr_num_subscribed r - 1\<rparr> else r))"

definition NoClientSubscribed :: "('r, 'v) server_row \<Rightarrow> bool" where
  "NoClientSubscribed r \<longleftrightarrow> sr_num_subscribed r = 0"

definition IsDirty :: "('r, 'v) server_row \<Rightarrow> bool" where
  "IsDirty r = sr_dirty r"

definition ResetDirty :: "('r, 'v) server_row \<Rightarrow> ('r, 'v) server_row" where
  "ResetDirty r = r\<lparr>sr_dirty := False\<rparr>"

section \<open>ServerTable\<close>

record ('r, 'v) server_table =
  st_info :: TableInfo
  st_storage :: "(int, ('r, 'v) server_row) amap"
  st_row_iter :: nat
  st_tmp_row_buff :: bytes
  st_tmp_row_buff_size :: nat
  st_curr_row_size :: nat

definition kTmpRowBuffSizeInit :: nat where "kTmpRowBuffSizeInit = 512"

definition ServerTable :: "TableInfo \<Rightarrow> ('r, 'v) server_table" where
  "ServerTable info =
     \<lparr>st_info = info, st_storage = [], st_row_iter = 0, st_tmp_row_buff = [],
      st_tmp_row_buff_size = kTmpRowBuffSizeInit, st_curr_row_size = 0\<rparr>"

definition FindRow :: "int \<Rightarrow> ('r, 'v) server_table \<Rightarrow> ('r, 'v) server_row option" where
  "FindRow row t = map_of (st_storage t) row"

text \<open>\<open>insert\<close> into an \<open>unordered_map\<close> keeps an existing element.\<close>

definition amap_insert :: "'k \<Rightarrow> 'v \<Rightarrow> ('k, 'v) amap \<Rightarrow> ('k, 'v) amap" where
  "amap_insert k v m = (if map_of m k = None then AList.update k v m else m)"

definition CreateRow ::
  "('r, 'v) class_registry \<Rightarrow> int \<Rightarrow> ('r, 'v) server_table \<Rightarrow>
   (('r, 'v) server_row \<times> ('r, 'v) server_table) result" where
  "CreateRow reg row t =
     rbind (of_option (Undefined ''null row'') (CreateObject reg (row_type (st_info t)))) (\<lambda>(ops, d).
     rbind (ro_Init ops (row_capacity (st_info t)) d) (\<lambda>d.
     let t = t\<lparr>st_storage := amap_insert row (ServerRow ops d) (st_storage t)\<rparr> in
     rbind (of_option (Undefined ''row'') (map_of (st_storage t) row)) (\<lambda>r. Inr (r, t))))"

definition ApplyRowOpLog ::
  "int \<Rightarrow> (int \<times> 'v) list \<Rightarrow> ('r, 'v) server_table \<Rightarrow> (bool \<times> ('r, 'v) server_table) result" where
  "ApplyRowOpLog row us t =
     (case map_of (st_storage t) row of
        None \<Rightarrow> Inr (False, t)
      | Some r \<Rightarrow> rbind (row_ApplyBatchInc us r) (\<lambda>r.
          Inr (True, t\<lparr>st_storage := AList.update row r (st_storage t)\<rparr>)))"

text \<open>Decimal text of an integer, as \<open>operator<<\<close> writes it.\<close>

fun nat_digits :: "nat \<Rightarrow> string" where
  "nat_digits n = (if n < 10 then [char_of (48 + n)] else nat_digits (n div 10) @ [char_of (48 + n mod 10)])"

declare nat_digits.simps [simp del]

definition show_int :: "int \<Rightarrow> string" where
  "show_int i = (if i < 0 then CHR ''-'' # nat_digits (nat (- i)) else nat_digits (nat i))"

definition MakeSnapShotFileName :: "string \<Rightarrow> int \<Rightarrow> int \<Rightarrow> int \<Rightarrow> string" where
  "MakeSnapShotFileName dir server table clock =
     dir @ ''/server_table'' @ ''.server-'' @ show_int server @ ''.table-'' @ show_int table @
     ''.clock-'' @ show_int clock @ ''.db''"

text \<open>
  The LevelDB library: \<open>ld_Put db key value\<close> and the key-value pairs an iterator
  over the database \<open>db\<close> visits, on the state \<open>'w\<close> of the file system.
\<close>

record 'w leveldb =
  ld_Put :: "string \<Rightarrow> bytes \<Rightarrow> bytes \<Rightarrow> 'w \<Rightarrow> 'w"
  ld_list :: "string \<Rightarrow> 'w \<Rightarrow> (bytes \<times> bytes) list"

text \<open>
  One row of a snapshot: the buffer grows when needed (\<open>junk n\<close> is what a fresh
  buffer of size \<open>n\<close> holds) and its first \<open>SerializedSize()\<close> bytes are stored.
\<close>

definition snapshot_row ::
  "'w leveldb \<Rightarrow> (nat \<Rightarrow> bytes) \<Rightarrow> string \<Rightarrow> bytes \<times> 'w \<Rightarrow> int \<times> ('r, 'v) server_row \<Rightarrow> (bytes \<times> 'w) result" where
  "snapshot_row ldb junk db st rr =
     (case st of (buff, w) \<Rightarrow> case rr of (row, r) \<Rightarrow>
      let size = row_SerializedSize r;
          buff = (if length buff < size then junk size else buff) in
      rbind (mem_write buff 0 (row_Serialize r)) (\<lambda>buff.
      Inr (buff, ld_Put ldb db (i32_enc row) (take size buff) w)))"

definition TakeSnapShot ::
  "'w leveldb \<Rightarrow> (nat \<Rightarrow> bytes) \<Rightarrow> string \<Rightarrow> int \<Rightarrow> int \<Rightarrow> int \<Rightarrow> ('r, 'v) server_table \<Rightarrow> 'w \<Rightarrow> 'w result" where
  "TakeSnapShot ldb junk dir server table clock t w =
     rbind (foldM (snapshot_row ldb junk (MakeSnapShotFileName dir server table clock))
              (junk 512, w) (st_storage t)) (\<lambda>(_, w). Inr w)"

definition restore_row ::
  "('r, 'v) class_registry \<Rightarrow> ('r, 'v) server_table \<Rightarrow> bytes \<times> bytes \<Rightarrow> ('r, 'v) server_table result" where
  "restore_row reg t kv =
     (case kv of (k, v) \<Rightarrow>
      rbind (rd_i32 k 0) (\<lambda>row.
      rbind (of_option (Undefined ''null row'') (CreateObject reg (row_type (st_info t)))) (\<lambda>(ops, d).
      rbind (ro_Deserialize ops v d) (\<lambda>(_, d).
      Inr (t\<lparr>st_storage := amap_insert row (ServerRow ops d) (st_storage t)\<rparr>)))))"

definition ReadSnapShot ::
  "'w leveldb \<Rightarrow> ('r, 'v) class_registry \<Rightarrow> string \<Rightarrow> int \<Rightarrow> int \<Rightarrow> int \<Rightarrow> ('r, 'v) server_table \<Rightarrow> 'w \<Rightarrow>
   ('r, 'v) server_table result" where
  "ReadSnapShot ldb reg dir server table clock t w =
     foldM (restore_row reg) t (ld_list ldb (MakeSnapShotFileName dir server table clock) w)"

section \<open>Server\<close>

record server_row_request =
  rq_bg_id :: int
  rq_table_id :: int
  rq_row_id :: int
  rq_clock :: int

record ('r, 'v) server =
  client_clocks :: vector_clock
  client_vector_clock_map :: "(int \<times> vector_clock) list"
  client_bg_map :: "(int \<times> int list) list"
  tables :: "(int, ('r, 'v) server_table) amap"
  clock_bg_row_requests :: "(int \<times> (int, server_row_request list) amap) list"
  client_ids :: "int list"
  bg_version_map :: "(int \<times> 32 word) list"
  push_row_msg_data_size :: nat
  server_id :: int

definition kPushRowMsgSizeInit :: nat where "kPushRowMsgSizeInit = 4 * 1024 * 1024"

definition Server_new :: "('r, 'v) server" where
  "Server_new =
     \<lparr>client_clocks = VectorClock0, client_vector_clock_map = [], client_bg_map = [], tables = [],
      clock_bg_row_requests = [], client_ids = [], bg_version_map = [],
      push_row_msg_data_size = 0, server_id = 0\<rparr>"

definition AddClientBgPair :: "int \<Rightarrow> int \<Rightarrow> ('r, 'v) server \<Rightarrow> ('r, 'v) server" where
  "AddClientBgPair client bg s =
     (let old = (case map_of (client_bg_map s) client of None \<Rightarrow> [] | Some bgs \<Rightarrow> bgs) in
      s\<lparr>client_bg_map := oupd client (old @ [bg]) (client_bg_map s),
        client_ids := client_ids s @ [client],
        client_clocks := AddClock client 0 (client_clocks s)\<rparr>)"

definition init_client :: "int \<times> int list \<Rightarrow> ('r, 'v) server \<Rightarrow> ('r, 'v) server" where
  "init_client cb s =
     (case cb of (client, bgs) \<Rightarrow>
      s\<lparr>client_vector_clock_map := oupd client (VectorClock_ids bgs) (client_vector_clock_map s),
        bg_version_map := fold (\<lambda>bg m. oupd bg (- 1) m) bgs (bg_version_map s)\<rparr>)"

definition Server_Init :: "int \<Rightarrow> ('r, 'v) server \<Rightarrow> ('r, 'v) server" where
  "Server_Init sid s =
     (fold init_client (client_bg_map s) s)
       \<lparr>push_row_msg_data_size := kPushRowMsgSizeInit, server_id := sid\<rparr>"

definition CreateTable ::
  "'w leveldb \<Rightarrow> ('r, 'v) class_registry \<Rightarrow> global_context \<Rightarrow> 'w \<Rightarrow> int \<Rightarrow> TableInfo \<Rightarrow>
   ('r, 'v) server \<Rightarrow> ('r, 'v) server result" where
  "CreateTable ldb reg g w t info s =
     rbind (check (map_of (tables s) t = None) ''ret.second'') (\<lambda>_.
     let tab = ServerTable info; s = s\<lparr>tables := AList.update t tab (tables s)\<rparr> in
     if resume_clock g > 0
     then rbind (ReadSnapShot ldb reg (resume_dir g) (server_id s) t (resume_clock g) tab w) (\<lambda>tab.
          Inr (s\<lparr>tables := AList.update t tab (tables s)\<rparr>))
     else Inr s)"

definition FindCreateRow ::
  "('r, 'v) class_registry \<Rightarrow> int \<Rightarrow> int \<Rightarrow> ('r, 'v) server \<Rightarrow>
   (('r, 'v) server_row \<times> ('r, 'v) server) result" where
  "FindCreateRow reg t row s =
     rbind (of_option (CheckFailed ''iter != tables_.end()'') (map_of (tables s) t)) (\<lambda>tab.
     case FindRow row tab of
       Some r \<Rightarrow> Inr (r, s)
     | None \<Rightarrow> rbind (CreateRow reg row tab) (\<lambda>(r, tab).
         Inr (r, s\<lparr>tables := AList.update t tab (tables s)\<rparr>)))"

definition Server_Clock ::
  "'w leveldb \<Rightarrow> (nat \<Rightarrow> bytes) \<Rightarrow> global_context \<Rightarrow> int \<Rightarrow> int \<Rightarrow> ('r, 'v) server \<Rightarrow> 'w \<Rightarrow>
   (bool \<times> ('r, 'v) server \<times> 'w) result" where
  "Server_Clock ldb junk g client bg s w =
     (let vc0 = (case map_of (client_vector_clock_map s) client of None \<Rightarrow> VectorClock0 | Some c \<Rightarrow> c);
          (new_clock, vc1) = Tick bg vc0;
          s = s\<lparr>client_vector_clock_map := oupd client vc1 (client_vector_clock_map s)\<rparr> in
      if new_clock = 0 then Inr (False, s, w)
      else
        let (new_clock, cc) = Tick client (client_clocks s); s = s\<lparr>client_clocks := cc\<rparr> in
        if new_clock \<noteq> 0 then
          (if snapshot_clock g \<le> 0 \<or> new_clock smod snapshot_clock g \<noteq> 0 then Inr (True, s, w)
           else rbind (foldM (\<lambda>w (t, tab). TakeSnapShot ldb junk (snapshot_dir g) (server_id s) t new_clock tab w)
                         w (tables s)) (\<lambda>w. Inr (True, s, w)))
        else Inr (False, s, w))"

definition AddRowRequest :: "int \<Rightarrow> int \<Rightarrow> int \<Rightarrow> int \<Rightarrow> ('r, 'v) server \<Rightarrow> ('r, 'v) server" where
  "AddRowRequest bg t row clock s =
     (let rq = \<lparr>rq_bg_id = bg, rq_table_id = t, rq_row_id = row, rq_clock = clock\<rparr>;
          m = (case map_of (clock_bg_row_requests s) clock of None \<Rightarrow> [] | Some m \<Rightarrow> m);
          v = (case map_of m bg of None \<Rightarrow> [] | Some v \<Rightarrow> v) in
      s\<lparr>clock_bg_row_requests := oupd clock (AList.update bg (v @ [rq]) m) (clock_bg_row_requests s)\<rparr>)"

definition GetFulfilledRowRequests :: "('r, 'v) server \<Rightarrow> server_row_request list \<times> ('r, 'v) server" where
  "GetFulfilledRowRequests s =
     (let clock = get_min_clock (client_clocks s) in
      case map_of (clock_bg_row_requests s) clock of
        None \<Rightarrow> ([], s)
      | Some m \<Rightarrow> (concat (map snd m), s\<lparr>clock_bg_row_requests := odel clock (clock_bg_row_requests s)\<rparr>))"

text \<open>One row of a received oplog; \<open>tab\<close> is the table the loop currently points to.\<close>

definition apply_item ::
  "('r, 'v) class_registry \<Rightarrow> int \<Rightarrow> int \<Rightarrow> (int \<times> 'v) list \<Rightarrow> ('r, 'v) server \<Rightarrow> ('r, 'v) server result" where
  "apply_item reg t row us s =
     rbind (of_option (Undefined ''tables_.end()'') (map_of (tables s) t)) (\<lambda>tab.
     rbind (ApplyRowOpLog row us tab) (\<lambda>(found, tab).
     rbind (if found then Inr tab
            else rbind (CreateRow reg row tab) (\<lambda>(_, tab).
                 rbind (ApplyRowOpLog row us tab) (\<lambda>(_, tab). Inr tab))) (\<lambda>tab.
     Inr (s\<lparr>tables := AList.update t tab (tables s)\<rparr>))))"

text \<open>
  The loop of \<open>ApplyOpLog\<close>.  \<open>cur\<close> is the table \<open>server_table\<close> points to: it is looked
  up for the first item and whenever a new table has been started.
\<close>

fun apply_loop ::
  "nat \<Rightarrow> 'v pod \<Rightarrow> ('r, 'v) class_registry \<Rightarrow> bytes \<Rightarrow> int option \<Rightarrow> oplog_reader \<Rightarrow>
   ('r, 'v) server \<Rightarrow> ('r, 'v) server result" where
  "apply_loop 0 pd reg m cur r s = Inl OutOfFuel"
| "apply_loop (Suc n) pd reg m cur r s =
     rbind (OpLogReader_Next m r) (\<lambda>(x, r).
       case x of
         None \<Rightarrow> Inr s
       | Some i \<Rightarrow>
           let t = (case cur of None \<Rightarrow> oi_table i | Some t \<Rightarrow> if oi_new_table i then oi_table i else t) in
           rbind (item_updates pd m i) (\<lambda>(_, row, us).
           rbind (apply_item reg t row us s) (apply_loop n pd reg m (Some t) r)))"

definition ApplyOpLog ::
  "nat \<Rightarrow> 'v pod \<Rightarrow> ('r, 'v) class_registry \<Rightarrow> bytes \<Rightarrow> int \<Rightarrow> 32 word \<Rightarrow> ('r, 'v) server \<Rightarrow> ('r, 'v) server result" where
  "ApplyOpLog fuel pd reg m bg version s =
     (let old = (case map_of (bg_version_map s) bg of None \<Rightarrow> 0 | Some v \<Rightarrow> v) in
      rbind (check (old + 1 = version) ''bg_version_map_[bg_thread_id] + 1 == version'') (\<lambda>_.
      let s = s\<lparr>bg_version_map := oupd bg version (bg_version_map s)\<rparr> in
      rbind (OpLogReader_Restart m \<lparr>or_update_size = 0, or_offset = 0, or_tables_left = 0,
               or_table_id = 0, or_rows_left = 0\<rparr>) (\<lambda>(to_read, r).
      if \<not> to_read then Inr s else apply_loop fuel pd reg m None r s)))"

definition GetMinClock :: "('r, 'v) server \<Rightarrow> int" where
  "GetMinClock s = get_min_clock (client_clocks s)"

text \<open>\<open>bg_version_map_[bg]\<close> enters a missing thread with version 0.\<close>

definition GetBgVersion :: "int \<Rightarrow> ('r, 'v) server \<Rightarrow> 32 word \<times> ('r, 'v) server" where
  "GetBgVersion bg s =
     (case map_of (bg_version_map s) bg of
        Some v \<Rightarrow> (v, s)
      | None \<Rightarrow> (0, s\<lparr>bg_version_map := oupd bg 0 (bg_version_map s)\<rparr>))"

end
