(* ===== verification/Server_Push.thy ===== *)
theory Server_Push
imports Server
begin

text \<open>
  Server push of updated rows (SSPPush): how the server packs the dirty rows of
  all tables into one buffer per subscribed background thread
  (\<open>AppendRowToBuffs\<close>, \<open>AppendTableToBuffs\<close>,
  \<open>CreateSendServerPushRowMsgs\<close>; callback_subs.hpp, server_table.hpp,
  server.cpp) and how the client reads such a buffer
  (\<open>SerializedRowReader\<close>, client/serialized_row_reader.hpp).  The memory of
  a message is the memory of its \<open>RecordBuff\<close>; the calls of \<open>PushMsgSend\<close>
  are recorded in order.
\<close>

section \<open>Packing\<close>

type_synonym buff_map = "(int, record_buff) amap"

text \<open>\<open>(*buffs)[bg_id]\<close>: the default constructor of \<open>RecordBuff\<close> is fatal.\<close>

definition buff_at :: "buff_map \<Rightarrow> int \<Rightarrow> record_buff result" where
  "buff_at buffs bg = of_option (Fatal ''Default constructor called'') (map_of buffs bg)"

text \<open>
  The clients from \<open>client_id_st\<close> on; the first component of the result is the
  background thread and the client whose buffer is full, if any.
\<close>

fun append_clients ::
  "global_context \<Rightarrow> bitset \<Rightarrow> int \<Rightarrow> bytes \<Rightarrow> int list \<Rightarrow> buff_map \<Rightarrow> ((int \<times> int) option \<times> buff_map) result" where
  "append_clients g subs row rec [] buffs = Inr (None, buffs)"
| "append_clients g subs row rec (client # cs) buffs =
     rbind (bitset_test subs client) (\<lambda>t.
       if t then
         rbind (GetBgPartitionNum g row) (\<lambda>p.
         let bg = get_head_bg_id client + p in
         rbind (buff_at buffs bg) (\<lambda>b.
         rbind (RecordBuff_Append row rec b) (\<lambda>(suc, b).
         let buffs = AList.update bg b buffs in
         if \<not> suc then Inr (Some (bg, client), buffs)
         else append_clients g subs row rec cs buffs)))
       else append_clients g subs row rec cs buffs)"

definition AppendRowToBuffs ::
  "global_context \<Rightarrow> int \<Rightarrow> buff_map \<Rightarrow> bytes \<Rightarrow> int \<Rightarrow> ('r, 'v) server_row \<Rightarrow>
   ((int \<times> int) option \<times> buff_map) result" where
  "AppendRowToBuffs g client_st buffs rec row r =
     append_clients g (sr_subs r) row rec [client_st..num_clients g - 1] buffs"

text \<open>\<open>junk n\<close>: the bytes of a fresh allocation of size \<open>n\<close>.\<close>

definition InitAppendTableToBuffs :: "(nat \<Rightarrow> bytes) \<Rightarrow> ('r, 'v) server_table \<Rightarrow> ('r, 'v) server_table" where
  "InitAppendTableToBuffs junk t = t\<lparr>st_row_iter := 0, st_tmp_row_buff := junk (st_tmp_row_buff_size t)\<rparr>"

text \<open>The row under the iterator is serialized into the scratch buffer, which grows when needed.\<close>

definition serialize_curr_row ::
  "(nat \<Rightarrow> bytes) \<Rightarrow> int \<Rightarrow> ('r, 'v) server_row \<Rightarrow> ('r, 'v) server_table \<Rightarrow> ('r, 'v) server_table result" where
  "serialize_curr_row junk row r t =
     (let t = t\<lparr>st_storage := AList.update row (ResetDirty r) (st_storage t),
                st_curr_row_size := row_SerializedSize r\<rparr>;
          t = (if st_curr_row_size t > st_tmp_row_buff_size t
               then t\<lparr>st_tmp_row_buff_size := st_curr_row_size t, st_tmp_row_buff := junk (st_curr_row_size t)\<rparr>
               else t) in
      rbind (mem_write (st_tmp_row_buff t) 0 (row_Serialize r)) (\<lambda>m.
      Inr (t\<lparr>st_tmp_row_buff := m, st_curr_row_size := length (row_Serialize r)\<rparr>)))"

definition curr_row_data :: "('r, 'v) server_table \<Rightarrow> bytes" where
  "curr_row_data t = take (st_curr_row_size t) (st_tmp_row_buff t)"

definition next_row :: "('r, 'v) server_table \<Rightarrow> ('r, 'v) server_table" where
  "next_row t = t\<lparr>st_row_iter := st_row_iter t + 1\<rparr>"

fun append_rows ::
  "nat \<Rightarrow> global_context \<Rightarrow> (nat \<Rightarrow> bytes) \<Rightarrow> int \<Rightarrow> buff_map \<Rightarrow> ('r, 'v) server_table \<Rightarrow>
   ((int \<times> int) option \<times> buff_map \<times> ('r, 'v) server_table) result" where
  "append_rows 0 g junk client_st buffs t = Inr (None, buffs, t)"
| "append_rows (Suc n) g junk client_st buffs t =
     (case st_storage t ! st_row_iter t of (row, r) \<Rightarrow>
      if NoClientSubscribed r \<or> \<not> IsDirty r then append_rows n g junk client_st buffs (next_row t)
      else
        rbind (serialize_curr_row junk row r t) (\<lambda>t.
        rbind (AppendRowToBuffs g client_st buffs (curr_row_data t) row r) (\<lambda>(failed, buffs).
        case failed of
          Some f \<Rightarrow> Inr (Some f, buffs, t)
        | None \<Rightarrow> append_rows n g junk client_st buffs (next_row t))))"

definition rows_left :: "('r, 'v) server_table \<Rightarrow> nat" where
  "rows_left t = length (st_storage t) - st_row_iter t"

definition AppendTableToBuffs ::
  "global_context \<Rightarrow> (nat \<Rightarrow> bytes) \<Rightarrow> int \<Rightarrow> bool \<Rightarrow> buff_map \<Rightarrow> ('r, 'v) server_table \<Rightarrow>
   ((int \<times> int) option \<times> buff_map \<times> ('r, 'v) server_table) result" where
  "AppendTableToBuffs g junk client_st resume buffs t =
     (if resume then
        (if st_row_iter t < length (st_storage t) then
           (case st_storage t ! st_row_iter t of (row, r) \<Rightarrow>
            rbind (AppendRowToBuffs g client_st buffs (curr_row_data t) row r) (\<lambda>(failed, buffs).
            case failed of
              Some f \<Rightarrow> Inr (Some f, buffs, t)
            | None \<Rightarrow> let t = next_row t in append_rows (rows_left t) g junk 0 buffs t))
         else Inl (Undefined ''row_iter_''))
      else append_rows (rows_left t) g junk client_st buffs t)"

text \<open>One call of \<open>PushMsgSend\<close>: the receiver, the \<open>get_avai_size()\<close> bytes of data, \<open>last_msg\<close>.\<close>

record push_call =
  pc_bg :: int
  pc_data :: bytes
  pc_last :: bool

type_synonym push_state = "buff_map \<times> push_call list"

definition push_bg_ids :: "global_context \<Rightarrow> int list" where
  "push_bg_ids g = concat (map (\<lambda>c. map (\<lambda>i. get_head_bg_id c + i) [0..num_bg_threads g - 1]) [0..num_clients g - 1])"

text \<open>The message is sent with its full size; then its memory is cleared and its buffer starts again.\<close>

definition send_full :: "nat \<Rightarrow> int \<Rightarrow> record_buff \<Rightarrow> push_call list \<Rightarrow> record_buff \<times> push_call list" where
  "send_full sz bg b sent =
     (ResetOffset (b\<lparr>rb_mem := replicate sz 0\<rparr>), sent @ [\<lparr>pc_bg = bg, pc_data = rb_mem b, pc_last = False\<rparr>])"

definition put_table_id :: "nat \<Rightarrow> int \<Rightarrow> push_state \<Rightarrow> int \<Rightarrow> push_state result" where
  "put_table_id sz t st bg =
     (case st of (buffs, sent) \<Rightarrow>
      rbind (buff_at buffs bg) (\<lambda>b.
      case GetMemPtrInt32 b of
        (Some p, b) \<Rightarrow> rbind (store_i32 p t b) (\<lambda>b. Inr (AList.update bg b buffs, sent))
      | (None, b) \<Rightarrow>
          (case send_full sz bg b sent of (b, sent) \<Rightarrow>
           case GetMemPtrInt32 b of
             (Some p, b) \<Rightarrow> rbind (store_i32 p t b) (\<lambda>b. Inr (AList.update bg b buffs, sent))
           | (None, b) \<Rightarrow> Inl (Undefined ''table_id_ptr''))))"

definition put_table_sep :: "nat \<Rightarrow> push_state \<Rightarrow> int \<Rightarrow> push_state result" where
  "put_table_sep sz st bg =
     (case st of (buffs, sent) \<Rightarrow>
      rbind (buff_at buffs bg) (\<lambda>b.
      case GetMemPtrInt32 b of
        (None, b) \<Rightarrow> (case send_full sz bg b sent of (b, sent) \<Rightarrow> Inr (AList.update bg b buffs, sent))
      | (Some p, b) \<Rightarrow> rbind (store_i32 p get_serialized_table_separator b) (\<lambda>b.
          Inr (AList.update bg b buffs, sent))))"

text \<open>A full buffer: the end mark if it still fits, the message is sent, the table is started again.\<close>

definition flush_failed :: "nat \<Rightarrow> int \<Rightarrow> int \<Rightarrow> push_state \<Rightarrow> push_state result" where
  "flush_failed sz t bg st =
     (case st of (buffs, sent) \<Rightarrow>
      rbind (buff_at buffs bg) (\<lambda>b.
      rbind (case GetMemPtrInt32 b of
               (Some p, b) \<Rightarrow> store_i32 p get_serialized_table_end b
             | (None, b) \<Rightarrow> Inr b) (\<lambda>b.
      case send_full sz bg b sent of (b, sent) \<Rightarrow>
      (case GetMemPtrInt32 b of
         (Some p, b) \<Rightarrow> rbind (store_i32 p t b) (\<lambda>b. Inr (AList.update bg b buffs, sent))
       | (None, b) \<Rightarrow> Inl (Undefined ''table_id_ptr'')))))"

fun pack_loop ::
  "nat \<Rightarrow> global_context \<Rightarrow> (nat \<Rightarrow> bytes) \<Rightarrow> nat \<Rightarrow> int \<Rightarrow>
   (int \<times> int) option \<times> buff_map \<times> ('r, 'v) server_table \<Rightarrow> push_call list \<Rightarrow>
   (push_state \<times> ('r, 'v) server_table) result" where
  "pack_loop n g junk sz t (None, buffs, tab) sent = Inr ((buffs, sent), tab)"
| "pack_loop 0 g junk sz t (Some f, buffs, tab) sent = Inl OutOfFuel"
| "pack_loop (Suc n) g junk sz t (Some (bg, client), buffs, tab) sent =
     rbind (flush_failed sz t bg (buffs, sent)) (\<lambda>(buffs, sent).
     rbind (AppendTableToBuffs g junk client True buffs tab) (\<lambda>x.
     pack_loop n g junk sz t x sent))"

definition push_table ::
  "nat \<Rightarrow> global_context \<Rightarrow> (nat \<Rightarrow> bytes) \<Rightarrow> nat \<Rightarrow> int \<Rightarrow> ('r, 'v) server_table \<Rightarrow> push_state \<Rightarrow>
   (push_state \<times> ('r, 'v) server_table) result" where
  "push_table fuel g junk sz t tab st =
     rbind (foldM (put_table_id sz t) st (push_bg_ids g)) (\<lambda>(buffs, sent).
     rbind (AppendTableToBuffs g junk 0 False buffs (InitAppendTableToBuffs junk tab)) (\<lambda>x.
     pack_loop fuel g junk sz t x sent))"

fun push_tables ::
  "nat \<Rightarrow> global_context \<Rightarrow> (nat \<Rightarrow> bytes) \<Rightarrow> nat \<Rightarrow> int \<Rightarrow> (int, ('r, 'v) server_table) amap \<Rightarrow> push_state \<Rightarrow>
   (push_state \<times> (int, ('r, 'v) server_table) amap) result" where
  "push_tables fuel g junk sz left [] st = Inr (st, [])"
| "push_tables fuel g junk sz left ((t, tab) # tabs) st =
     rbind (push_table fuel g junk sz t tab st) (\<lambda>(st, tab).
     let left = left - 1 in
     if left > 0 then
       rbind (foldM (put_table_sep sz) st (push_bg_ids g)) (\<lambda>st.
       rbind (push_tables fuel g junk sz left tabs st) (\<lambda>(st, tabs). Inr (st, (t, tab) # tabs)))
     else Inr (st, (t, tab) # tabs))"

definition push_finish :: "push_state \<Rightarrow> int \<Rightarrow> push_state result" where
  "push_finish st bg =
     (case st of (buffs, sent) \<Rightarrow>
      rbind (buff_at buffs bg) (\<lambda>b.
      case GetMemPtrInt32 b of
        (None, b) \<Rightarrow> Inr (buffs, sent @ [\<lparr>pc_bg = bg, pc_data = rb_mem b, pc_last = True\<rparr>])
      | (Some p, b) \<Rightarrow> rbind (store_i32 p get_serialized_table_end b) (\<lambda>b.
          Inr (AList.update bg b buffs,
               sent @ [\<lparr>pc_bg = bg, pc_data = take (GetMemUsedSize b) (rb_mem b), pc_last = True\<rparr>]))))"

definition init_push_buffs :: "(nat \<Rightarrow> bytes) \<Rightarrow> nat \<Rightarrow> int list \<Rightarrow> buff_map" where
  "init_push_buffs junk sz bgs = fold (\<lambda>bg. amap_insert bg (RecordBuff (junk sz) sz)) bgs []"

definition CreateSendServerPushRowMsgs ::
  "nat \<Rightarrow> global_context \<Rightarrow> (nat \<Rightarrow> bytes) \<Rightarrow> ('r, 'v) server \<Rightarrow> (push_call list \<times> ('r, 'v) server) result" where
  "CreateSendServerPushRowMsgs fuel g junk s =
     (let sz = push_row_msg_data_size s; buffs = init_push_buffs junk sz (push_bg_ids g) in
      rbind (push_tables fuel g junk sz (num_tables g) (tables s) (buffs, [])) (\<lambda>(st, tabs).
      rbind (foldM push_finish st (push_bg_ids g)) (\<lambda>(_, sent).
      Inr (sent, s\<lparr>tables := tabs\<rparr>))))"

section \<open>SerializedRowReader\<close>

record row_reader =
  rr_offset :: nat
  rr_table_id :: int

definition SerializedRowReader :: row_reader where
  "SerializedRowReader = \<lparr>rr_offset = 0, rr_table_id = 0\<rparr>"

definition RowReader_Restart :: "bytes \<Rightarrow> row_reader \<Rightarrow> (bool \<times> row_reader) result" where
  "RowReader_Restart m r =
     rbind (rd_i32 m 0) (\<lambda>t.
     Inr (t \<noteq> get_serialized_table_end, \<lparr>rr_offset = 4, rr_table_id = t\<rparr>))"

text \<open>
  The loop of \<open>Next\<close>: \<open>row\<close> is the id that has been read.  The result is the
  table, the row, and offset and size of its data; None is the null pointer.
\<close>

lemma rbind_cong [fundef_cong]:
  "r = r' \<Longrightarrow> (\<And>x. r' = Inr x \<Longrightarrow> f x = f' x) \<Longrightarrow> rbind r f = rbind r' f'"
  by (cases r') auto

function row_reader_loop ::
  "bytes \<Rightarrow> nat \<Rightarrow> int \<Rightarrow> row_reader \<Rightarrow> ((int \<times> int \<times> nat \<times> nat) option \<times> row_reader) result" where
  "row_reader_loop m sz row r =
     (if row = get_serialized_table_separator then
        if rr_offset r + 4 > sz then Inr (None, r)
        else rbind (rd_i32 m (rr_offset r)) (\<lambda>t.
          let r = r\<lparr>rr_table_id := t, rr_offset := rr_offset r + 4\<rparr> in
          if rr_offset r + 4 > sz then Inr (None, r)
          else rbind (rd_i32 m (rr_offset r)) (\<lambda>row.
            row_reader_loop m sz row (r\<lparr>rr_offset := rr_offset r + 4\<rparr>)))
      else if row = get_serialized_table_end then Inr (None, r)
      else rbind (rd_size m (rr_offset r)) (\<lambda>row_size.
        Inr (Some (rr_table_id r, row, rr_offset r + 8, row_size),
             r\<lparr>rr_offset := rr_offset r + 8 + row_size\<rparr>)))"
  by pat_completeness auto
termination
  by (relation "measure (\<lambda>(m, sz, row, r). sz - rr_offset r)") auto

declare row_reader_loop.simps [simp del]

definition RowReader_Next ::
  "bytes \<Rightarrow> nat \<Rightarrow> row_reader \<Rightarrow> ((int \<times> int \<times> nat \<times> nat) option \<times> row_reader) result" where
  "RowReader_Next m sz r =
     (if rr_offset r + 4 > sz then Inr (None, r)
      else rbind (rd_i32 m (rr_offset r)) (\<lambda>row.
        row_reader_loop m sz row (r\<lparr>rr_offset := rr_offset r + 4\<rparr>)))"

end
