(* ===== verification/Server_Proofs.thy ===== *)
theory Server_Proofs
imports Server
begin

text \<open>
  What the server object guarantees: its clock is the minimum over all background
  threads of all clients, a pending row request is handed out exactly once and at
  the clock it asked for, oplogs are applied in version order, and the rows of an
  oplog message end up added to the table values.
\<close>

section \<open>Clocks\<close>

text \<open>
  Every client's entry in \<open>client_clocks_\<close> is the minimum of its background
  threads' clocks.
\<close>

definition clocks_ok :: "('r, 'v) server \<Rightarrow> bool" where
  "clocks_ok s \<longleftrightarrow> vc_ok (client_clocks s) \<and> osorted (client_vector_clock_map s) \<and>
     (\<forall>c v. map_of (client_vector_clock_map s) c = Some v \<longrightarrow> vc_ok v \<and> clocks v \<noteq> Map.empty) \<and>
     (\<forall>c. clocks (client_clocks s) c = map_option get_min_clock (map_of (client_vector_clock_map s) c))"

definition bg_clock :: "('r, 'v) server \<Rightarrow> int \<Rightarrow> int \<rightharpoonup> int" where
  "bg_clock s c = (case map_of (client_vector_clock_map s) c of None \<Rightarrow> Map.empty | Some v \<Rightarrow> clocks v)"

lemma vc_min_attained: "vc_ok c \<Longrightarrow> clocks c \<noteq> Map.empty \<Longrightarrow> \<exists>i. clocks c i = Some (get_min_clock c)"
  using vc.minc_attained by (metis not_None_eq)

lemma vc_min_nonneg:
  assumes "vc_ok c" "clocks c i = Some v"
  shows "0 \<le> get_min_clock c"
proof -
  obtain j where "clocks c j = Some (get_min_clock c)" using vc.minc_attained [OF assms] by blast
  then have "get_min_clock c \<in> ran (clocks c)" by (rule ranI)
  then show ?thesis using assms(1) by (simp add: vc_ok_iff)
qed

lemma bg_clock_min:
  assumes "clocks_ok s" "bg_clock s c b = Some v"
  shows "GetMinClock s \<le> v"
proof -
  obtain w where w: "map_of (client_vector_clock_map s) c = Some w" "clocks w b = Some v"
    using assms(2) by (auto simp: bg_clock_def split: option.splits)
  have "get_min_clock w \<le> v" using assms(1) w vc.minc_le by (auto simp: clocks_ok_def)
  moreover have "clocks (client_clocks s) c = Some (get_min_clock w)"
    using assms(1) w(1) by (simp add: clocks_ok_def)
  then have "GetMinClock s \<le> get_min_clock w"
    using assms(1) vc.minc_le unfolding clocks_ok_def GetMinClock_def by blast
  ultimately show ?thesis by simp
qed

lemma bg_clock_min_attained:
  assumes "clocks_ok s" "client_vector_clock_map s \<noteq> []"
  shows "\<exists>c b. bg_clock s c b = Some (GetMinClock s)"
proof -
  obtain p ps where "client_vector_clock_map s = p # ps" using assms(2) by (meson list.exhaust)
  then have "map_of (client_vector_clock_map s) (fst p) = Some (snd p)" by (cases p) simp
  then obtain c0 v0 where "map_of (client_vector_clock_map s) c0 = Some v0" by blast
  then have "clocks (client_clocks s) c0 \<noteq> None" using assms(1) by (simp add: clocks_ok_def)
  then have "clocks (client_clocks s) \<noteq> Map.empty" by auto
  then obtain c where c: "clocks (client_clocks s) c = Some (GetMinClock s)"
    using vc_min_attained assms(1) unfolding clocks_ok_def GetMinClock_def by blast
  then obtain v where v: "map_of (client_vector_clock_map s) c = Some v" "get_min_clock v = GetMinClock s"
    using assms(1) by (auto simp: clocks_ok_def)
  then obtain b where "clocks v b = Some (get_min_clock v)"
    using vc_min_attained assms(1) unfolding clocks_ok_def by blast
  with v have "bg_clock s c b = Some (GetMinClock s)" by (simp add: bg_clock_def)
  then show ?thesis by blast
qed

text \<open>The part of \<open>Clock\<close> that concerns the clocks, without the snapshots.\<close>

definition clock_step :: "int \<Rightarrow> int \<Rightarrow> ('r, 'v) server \<Rightarrow> bool \<times> ('r, 'v) server" where
  "clock_step client bg s =
     (let vc0 = (case map_of (client_vector_clock_map s) client of None \<Rightarrow> VectorClock0 | Some c \<Rightarrow> c);
          (r, vc1) = Tick bg vc0;
          s = s\<lparr>client_vector_clock_map := oupd client vc1 (client_vector_clock_map s)\<rparr> in
      if r = 0 then (False, s)
      else let (r, cc) = Tick client (client_clocks s) in (r \<noteq> 0, s\<lparr>client_clocks := cc\<rparr>))"

lemma Server_Clock_step:
  assumes "Server_Clock ldb junk g client bg s w = Inr (b, s', w')"
  shows "clock_step client bg s = (b, s')"
  using assms unfolding Server_Clock_def clock_step_def
  by (auto simp: Let_def rbind_eq_Inr split: prod.splits if_splits)

lemma Server_Clock_no_snapshot:
  "snapshot_clock g \<le> 0 \<Longrightarrow>
   Server_Clock ldb junk g client bg s w = (let (b, s') = clock_step client bg s in Inr (b, s', w))"
  unfolding Server_Clock_def clock_step_def by (simp add: Let_def split: prod.splits)

lemma clock_step_ok:
  assumes ok: "clocks_ok s" and v: "bg_clock s client bg = Some v"
    and st: "clock_step client bg s = (b, s')"
  shows "clocks_ok s'" "bg_clock s' = (bg_clock s)(client := (bg_clock s client)(bg \<mapsto> v + 1))"
    "b = (GetMinClock s' \<noteq> GetMinClock s)" "GetMinClock s' \<in> {GetMinClock s, GetMinClock s + 1}"
    "\<exists>vc. s' = s\<lparr>client_vector_clock_map := oupd client vc (client_vector_clock_map s), client_clocks := client_clocks s'\<rparr>"
proof -
  obtain w where w: "map_of (client_vector_clock_map s) client = Some w" "clocks w bg = Some v"
    using v by (auto simp: bg_clock_def split: option.splits)
  obtain r w' where t: "Tick bg w = (r, w')" by force
  have wok: "vc_ok w" using ok w(1) by (simp add: clocks_ok_def)
  note W = Tick_spec [OF wok w(2) t]
  have cc: "clocks (client_clocks s) client = Some (get_min_clock w)" "vc_ok (client_clocks s)"
    using ok w(1) by (simp_all add: clocks_ok_def)
  have mv: "get_min_clock w' \<in> {get_min_clock w, get_min_clock w + 1}"
    using vc.tick_minc [OF wok w(2)] t by simp
  have pos: "0 \<le> get_min_clock w"
    using wok w(2) by (rule vc_min_nonneg)
  have r: "r = (if get_min_clock w' = get_min_clock w then 0 else get_min_clock w + 1)"
    using W(3) mv by (auto simp: get_min_clock_def)
  let ?m = "oupd client w' (client_vector_clock_map s)"
  have bgc: "bg_clock s'' = (bg_clock s)(client := (bg_clock s client)(bg \<mapsto> v + 1))"
    if "client_vector_clock_map s'' = ?m" for s'' :: "('a, 'b) server"
    using W(2) w that by (auto simp: bg_clock_def map_of_oupd fun_eq_iff)
  have ne: "clocks w' \<noteq> Map.empty" using W(2) by (auto simp: fun_eq_iff split: if_splits)
  have os: "osorted ?m" using ok by (simp add: clocks_ok_def osorted_oupd)
  have per: "\<forall>c x. map_of ?m c = Some x \<longrightarrow> vc_ok x \<and> clocks x \<noteq> Map.empty"
    using ok W(1) ne by (auto simp: clocks_ok_def map_of_oupd)
  have "clocks_ok s' \<and> bg_clock s' = (bg_clock s)(client := (bg_clock s client)(bg \<mapsto> v + 1)) \<and>
      b = (GetMinClock s' \<noteq> GetMinClock s) \<and> GetMinClock s' \<in> {GetMinClock s, GetMinClock s + 1} \<and>
      (\<exists>vc. s' = s\<lparr>client_vector_clock_map := oupd client vc (client_vector_clock_map s), client_clocks := client_clocks s'\<rparr>)"
  proof (cases "r = 0")
    case True
    then have s': "s' = s\<lparr>client_vector_clock_map := ?m\<rparr>" "b = False"
      using st t w(1) by (auto simp: clock_step_def)
    have "get_min_clock w' = get_min_clock w" using True r pos by (auto split: if_splits)
    then have "clocks_ok s'" using ok os per w(1) by (auto simp: clocks_ok_def s' map_of_oupd)
    then show ?thesis
      using bgc [of s'] s' by (auto simp: GetMinClock_def)
  next
    case False
    obtain q cc' where q: "Tick client (client_clocks s) = (q, cc')" by force
    note C = Tick_spec [OF cc(2,1) q]
    have s': "s' = s\<lparr>client_vector_clock_map := ?m, client_clocks := cc'\<rparr>" "b = (q \<noteq> 0)"
      using st t w(1) q False by (auto simp: clock_step_def)
    have mw: "get_min_clock w' = get_min_clock w + 1" using False r mv by (auto split: if_splits)
    have "clocks_ok s'"
      using ok os per C(1,2) mw by (auto simp: clocks_ok_def s' map_of_oupd)
    moreover have mc: "get_min_clock cc' \<in> {get_min_clock (client_clocks s), get_min_clock (client_clocks s) + 1}"
      using vc.tick_minc [OF cc(2,1)] q by simp
    moreover have "0 \<le> get_min_clock (client_clocks s)"
      using cc(2,1) by (rule vc_min_nonneg)
    then have "b = (get_min_clock cc' \<noteq> get_min_clock (client_clocks s))"
      using s'(2) C(3) mc by (auto simp: get_min_clock_def)
    ultimately show ?thesis
      using bgc [of s'] s'(1) by (auto simp: GetMinClock_def)
  qed
  then show "clocks_ok s'" "bg_clock s' = (bg_clock s)(client := (bg_clock s client)(bg \<mapsto> v + 1))"
    "b = (GetMinClock s' \<noteq> GetMinClock s)" "GetMinClock s' \<in> {GetMinClock s, GetMinClock s + 1}"
    "\<exists>vc. s' = s\<lparr>client_vector_clock_map := oupd client vc (client_vector_clock_map s), client_clocks := client_clocks s'\<rparr>"
    by blast+
qed

text \<open>Registration: whatever the order of the connections, all clocks start at 0.\<close>

lemma AddClock_zero:
  assumes "vc_ok c" "\<forall>v \<in> ran (clocks c). v = 0"
  shows "vc_ok (AddClock i 0 c) \<and> (\<forall>v \<in> ran (clocks (AddClock i 0 c)). v = 0)"
proof -
  have z: "\<forall>v \<in> ran (clocks (AddClock i 0 c)). v = 0"
    using assms(2) by (auto simp: AddClock_clocks ran_def)
  have "clocks (AddClock i 0 c) i = Some 0" by (simp add: AddClock_clocks)
  from ranI [where m = "clocks (AddClock i 0 c)", OF this]
  have r0: "ran (clocks (AddClock i 0 c)) = {0}" using z by blast
  have "min_clock (AddClock i 0 c) = 0"
  proof (cases "clocks c = Map.empty")
    case True
    then show ?thesis using assms(1) by (simp add: AddClock_min vc_ok_iff)
  next
    case False
    then have "ran (clocks c) = {0}" using assms(2) by (auto simp: ran_def fun_eq_iff)
    then show ?thesis using assms(1) False by (simp add: AddClock_min vc_ok_iff)
  qed
  moreover have "clocks (AddClock i 0 c) \<noteq> Map.empty" by (auto simp: AddClock_clocks fun_eq_iff)
  moreover have "amap_ok (vec_clock (AddClock i 0 c))"
    using assms(1) by (simp add: AddClock_def Let_def vc_ok_def amap.upd_ok)
  ultimately show ?thesis using z r0 by (simp add: vc_ok_iff)
qed

definition fresh_ok :: "('r, 'v) server \<Rightarrow> bool" where
  "fresh_ok s \<longleftrightarrow> vc_ok (client_clocks s) \<and> (\<forall>v \<in> ran (clocks (client_clocks s)). v = 0) \<and>
     osorted (client_bg_map s) \<and> client_vector_clock_map s = [] \<and>
     dom (clocks (client_clocks s)) = set (keys (client_bg_map s)) \<and>
     (\<forall>(c, bgs) \<in> set (client_bg_map s). bgs \<noteq> [])"

lemma fresh_AddClientBgPair:
  assumes "fresh_ok s"
  shows "fresh_ok (AddClientBgPair c b s)"
proof -
  define v where "v = (case map_of (client_bg_map s) c of None \<Rightarrow> [] | Some bgs \<Rightarrow> bgs) @ [b]"
  have e: "AddClientBgPair c b s = s\<lparr>client_bg_map := oupd c v (client_bg_map s),
      client_ids := client_ids s @ [c], client_clocks := AddClock c 0 (client_clocks s)\<rparr>"
    by (simp add: AddClientBgPair_def v_def)
  have "v \<noteq> []" by (simp add: v_def)
  then have "\<forall>(c, bgs) \<in> set (oupd c v (client_bg_map s)). bgs \<noteq> []"
    using assms set_oupd [of c v "client_bg_map s"] unfolding fresh_ok_def by blast
  then show ?thesis
    using assms AddClock_zero [of "client_clocks s" c] keys_oupd [of c v "client_bg_map s"]
    unfolding fresh_ok_def e by (simp add: AddClock_clocks osorted_oupd)
qed

lemma fold_init_client:
  "client_vector_clock_map (fold init_client cs s) =
     fold (\<lambda>(c, bgs). oupd c (VectorClock_ids bgs)) cs (client_vector_clock_map s)"
  "client_clocks (fold init_client cs s) = client_clocks s"
  by (induction cs arbitrary: s) (auto simp: init_client_def)

lemma Init_clocks_ok:
  assumes "fresh_ok s"
  shows "clocks_ok (Server_Init i s)" "GetMinClock (Server_Init i s) = get_min_clock (client_clocks s)"
    "\<forall>c bgs b. map_of (client_bg_map s) c = Some bgs \<and> b \<in> set bgs \<longrightarrow> bg_clock (Server_Init i s) c b = Some 0"
proof -
  let ?m = "map (\<lambda>(c, bgs). (c, VectorClock_ids bgs)) (client_bg_map s)"
  have k: "keys ?m = keys (client_bg_map s)" by auto
  have os: "osorted ?m" using assms osorted_keys [OF k] by (simp add: fresh_ok_def)
  have cm: "client_vector_clock_map (Server_Init i s) = fold (\<lambda>(c, v). oupd c v) ?m []"
    using assms by (simp add: Server_Init_def fold_init_client fresh_ok_def fold_map comp_def case_prod_beta')
  have cv: "client_vector_clock_map (Server_Init i s) = ?m"
    unfolding cm by (rule sparse_rebuild [OF os])
  have mo: "map_of ?m c = map_option VectorClock_ids (map_of (client_bg_map s) c)" for c
    by (rule map_of_map_snd)
  have ne: "bgs \<noteq> []" if "map_of (client_bg_map s) c = Some bgs" for c bgs
    using assms map_of_SomeD [OF that] by (auto simp: fresh_ok_def)
  have z: "clocks (client_clocks s) c = map_option (\<lambda>_. 0) (map_of (client_bg_map s) c)" for c
  proof (cases "map_of (client_bg_map s) c")
    case None
    then have "c \<notin> dom (clocks (client_clocks s))" using assms by (simp add: fresh_ok_def map_of_eq_None_iff)
    with None show ?thesis by auto
  next
    case (Some bgs)
    have "c \<in> set (keys (client_bg_map s))" using map_of_SomeD [OF Some] by force
    then have "c \<in> dom (clocks (client_clocks s))" using assms unfolding fresh_ok_def by blast
    then obtain v where v: "clocks (client_clocks s) c = Some v" by blast
    with assms have "v = 0" by (auto simp: fresh_ok_def ran_def)
    with v Some show ?thesis by simp
  qed
  have mc: "get_min_clock (VectorClock_ids bgs) = 0" for bgs by (simp add: get_min_clock_def VectorClock_ids_def)
  have cc: "client_clocks (Server_Init i s) = client_clocks s" by (simp add: Server_Init_def fold_init_client)
  have v2: "vc_ok (VectorClock_ids bgs) \<and> clocks (VectorClock_ids bgs) \<noteq> Map.empty" if "bgs \<noteq> []" for bgs
    using VectorClock_ids_ok [OF that] that by (cases bgs) (auto simp: VectorClock_ids_clocks fun_eq_iff)
  show "clocks_ok (Server_Init i s)"
    unfolding clocks_ok_def cv cc mo z
    using assms os ne v2 by (auto simp: fresh_ok_def mc comp_def option.map_comp)
  show "GetMinClock (Server_Init i s) = get_min_clock (client_clocks s)" by (simp add: GetMinClock_def cc)
  show "\<forall>c bgs b. map_of (client_bg_map s) c = Some bgs \<and> b \<in> set bgs \<longrightarrow> bg_clock (Server_Init i s) c b = Some 0"
    by (auto simp: bg_clock_def cv mo VectorClock_ids_clocks)
qed

lemma fresh_Server_new: "fresh_ok Server_new"
  by (simp add: fresh_ok_def Server_new_def VectorClock0_ok) (simp add: VectorClock0_def clocks_def)

lemma fresh_fold: "fresh_ok s \<Longrightarrow> fresh_ok (fold (\<lambda>(c, b). AddClientBgPair c b) ps s)"
  by (induction ps arbitrary: s) (auto simp: fresh_AddClientBgPair)


section \<open>Row requests\<close>

definition pending :: "('r, 'v) server \<Rightarrow> server_row_request multiset" where
  "pending s = (\<Sum>(k, m) \<leftarrow> clock_bg_row_requests s. mset (concat (map snd m)))"

definition requests_ok :: "('r, 'v) server \<Rightarrow> bool" where
  "requests_ok s \<longleftrightarrow> osorted (clock_bg_row_requests s) \<and>
     (\<forall>(k, m) \<in> set (clock_bg_row_requests s). amap_ok m \<and> (\<forall>rq \<in> set (concat (map snd m)). rq_clock rq = k))"

lemma mset_concat_update:
  "amap_ok m \<Longrightarrow> mset (concat (map snd (AList.update k ((case map_of m k of None \<Rightarrow> [] | Some v \<Rightarrow> v) @ [x]) m))) =
     mset (concat (map snd m)) + {#x#}"
proof (induction m)
  case (Cons p m)
  then show ?case
    by (cases p) (auto simp: amap_ok_def map_of_eq_None_iff [THEN iffD2])
qed simp

lemma AddRowRequest_pending:
  assumes "requests_ok s"
  shows "pending (AddRowRequest bg t row clock s) =
      pending s + {#\<lparr>rq_bg_id = bg, rq_table_id = t, rq_row_id = row, rq_clock = clock\<rparr>#}"
    and "requests_ok (AddRowRequest bg t row clock s)"
proof -
  let ?rq = "\<lparr>rq_bg_id = bg, rq_table_id = t, rq_row_id = row, rq_clock = clock\<rparr>"
  define m where "m = (case map_of (clock_bg_row_requests s) clock of None \<Rightarrow> [] | Some m \<Rightarrow> m)"
  define m' where "m' = AList.update bg ((case map_of m bg of None \<Rightarrow> [] | Some v \<Rightarrow> v) @ [?rq]) m"
  have e: "AddRowRequest bg t row clock s = s\<lparr>clock_bg_row_requests := oupd clock m' (clock_bg_row_requests s)\<rparr>"
    by (simp add: AddRowRequest_def Let_def m_def m'_def)
  have so: "osorted (clock_bg_row_requests s)" using assms by (simp add: requests_ok_def)
  have mok: "amap_ok m \<and> (\<forall>rq \<in> set (concat (map snd m)). rq_clock rq = clock)"
    using assms unfolding m_def requests_ok_def
    by (cases "map_of (clock_bg_row_requests s) clock") (auto simp: amap_ok_def dest!: map_of_SomeD)
  have mm: "mset (concat (map snd m')) = mset (concat (map snd m)) + {#?rq#}"
    unfolding m'_def by (rule mset_concat_update) (use mok in blast)
  have "set (concat (map snd m')) = insert ?rq (set (concat (map snd m)))"
    using arg_cong [OF mm, of set_mset] by (simp only: set_mset_mset set_mset_union set_mset_single) blast
  then have cl: "\<forall>rq \<in> set (concat (map snd m')). rq_clock rq = clock"
    using mok by (simp only: ball_simps) simp
  have "pending (AddRowRequest bg t row clock s) + mset (concat (map snd m)) = pending s + mset (concat (map snd m'))"
    using sum_oupd_mset [OF so, where f = "\<lambda>(k, m). mset (concat (map snd m))" and k = clock and v = m']
    unfolding pending_def e by (cases "map_of (clock_bg_row_requests s) clock") (auto simp: m_def)
  then show "pending (AddRowRequest bg t row clock s) = pending s + {#?rq#}"
    unfolding mm by (simp add: ac_simps)
  have "amap_ok m'" using mok by (simp add: m'_def amap.upd_ok)
  then have "\<forall>(k, m) \<in> set (oupd clock m' (clock_bg_row_requests s)).
      amap_ok m \<and> (\<forall>rq \<in> set (concat (map snd m)). rq_clock rq = k)"
    using assms cl set_oupd [of clock m' "clock_bg_row_requests s"] unfolding requests_ok_def by blast
  with so show "requests_ok (AddRowRequest bg t row clock s)"
    unfolding requests_ok_def e by (simp add: osorted_oupd)
qed

lemma GetFulfilled_pending:
  assumes "requests_ok s" "GetFulfilledRowRequests s = (rqs, s')"
  shows "mset rqs + pending s' = pending s" "requests_ok s'"
    "\<forall>rq \<in> set rqs. rq_clock rq = GetMinClock s"
    "\<forall>rq \<in># pending s'. rq_clock rq \<noteq> GetMinClock s"
    "s' = s\<lparr>clock_bg_row_requests := clock_bg_row_requests s'\<rparr>"
proof -
  let ?k = "get_min_clock (client_clocks s)" and ?R = "clock_bg_row_requests s"
  have so: "osorted ?R" using assms(1) by (simp add: requests_ok_def)
  have in_pend: "\<exists>k m. (k, m) \<in> set (clock_bg_row_requests x) \<and> rq \<in> set (concat (map snd m))"
    if "rq \<in># pending x" for rq and x :: "('a, 'b) server"
  proof -
    have "rq \<in># (\<Sum>(k, m) \<leftarrow> l. mset (concat (map snd m))) \<Longrightarrow> \<exists>k m. (k, m) \<in> set l \<and> rq \<in> set (concat (map snd m))"
      for l :: "(int \<times> (int, server_row_request list) amap) list"
    proof (induction l)
      case (Cons p l)
      obtain k m where p: "p = (k, m)" by force
      from Cons.prems have "rq \<in> set (concat (map snd m)) \<or> rq \<in># (\<Sum>(k, m) \<leftarrow> l. mset (concat (map snd m)))"
        by (simp only: p list.map sum_list.Cons prod.case union_iff set_mset_mset)
      then show ?case using Cons.IH p by (metis list.set_intros)
    qed simp
    then show ?thesis using that by (simp add: pending_def)
  qed
  have "mset rqs + pending s' = pending s \<and> requests_ok s' \<and> (\<forall>rq \<in> set rqs. rq_clock rq = GetMinClock s) \<and>
      (\<forall>k m. (k, m) \<in> set (clock_bg_row_requests s') \<longrightarrow> k \<noteq> ?k) \<and>
      s' = s\<lparr>clock_bg_row_requests := clock_bg_row_requests s'\<rparr>"
  proof (cases "map_of ?R ?k")
    case None
    then have "?k \<notin> set (keys ?R)" by (simp add: map_of_eq_None_iff)
    with None assms show ?thesis by (force simp: GetFulfilledRowRequests_def)
  next
    case (Some m)
    have s': "rqs = concat (map snd m)" "s' = s\<lparr>clock_bg_row_requests := odel ?k ?R\<rparr>"
      using assms(2) Some by (auto simp: GetFulfilledRowRequests_def)
    have "mset rqs + pending s' = pending s"
      using sum_odel_mset [OF Some, of "\<lambda>(k, m). mset (concat (map snd m))"]
      by (simp add: pending_def s' add.commute)
    moreover have "requests_ok s'"
      using assms(1) set_odel [OF so] by (auto simp: requests_ok_def s' osorted_odel)
    moreover have "\<forall>rq \<in> set rqs. rq_clock rq = GetMinClock s"
      using assms(1) map_of_SomeD [OF Some] by (auto simp: requests_ok_def s' GetMinClock_def)
    ultimately show ?thesis using set_odel [OF so] by (auto simp: s')
  qed
  then show "mset rqs + pending s' = pending s" "requests_ok s'"
    "\<forall>rq \<in> set rqs. rq_clock rq = GetMinClock s"
    "s' = s\<lparr>clock_bg_row_requests := clock_bg_row_requests s'\<rparr>"
    "\<forall>rq \<in># pending s'. rq_clock rq \<noteq> GetMinClock s"
    using in_pend [of _ s'] unfolding requests_ok_def GetMinClock_def by fastforce+
qed

end
