(* ===== verification/Sorted_Row.thy ===== *)
theory Sorted_Row
imports Rows
begin

text \<open>
  \<open>SortedVectorMapRow\<close> (petuum_ps_common/storage/sorted_vector_map_row.hpp): an
  array of (column, value) entries kept in descending order of value.  The
  model keeps the first \<open>num_entries_\<close> slots of the array as a list and the
  allocated size as a number; writing past the allocation is an error value.
  \<open>std::sort\<close> is not stable, so it is an argument, with its contract as the
  locale \<open>desc_sort\<close>; the size and image of an array slot (a struct with
  padding) is the argument \<open>ep\<close>.
\<close>

section \<open>The class\<close>

record 'v svm_row =
  sv_entries :: "(int \<times> 'v) list"
  sv_capacity :: int

abbreviation sv_num :: "'v svm_row \<Rightarrow> nat" where
  "sv_num r \<equiv> length (sv_entries r)"

definition K_BLOCK_SIZE :: int where "K_BLOCK_SIZE = 10"

definition svm_new :: "'v svm_row" where
  "svm_new = \<lparr>sv_entries = [], sv_capacity = 0\<rparr>"

fun find_idx :: "int \<Rightarrow> nat \<Rightarrow> (int \<times> 'v) list \<Rightarrow> int" where
  "find_idx c i [] = - 1"
| "find_idx c i (e # es) = (if fst e = c then int i else find_idx c (Suc i) es)"

definition svm_FindIndex :: "int \<Rightarrow> 'v svm_row \<Rightarrow> int" where
  "svm_FindIndex c r = find_idx c 0 (sv_entries r)"

text \<open>The two scans for the new position of an entry and the move.\<close>

function scan_fwd :: "(int \<times> 'v::ord) list \<Rightarrow> 'v \<Rightarrow> nat \<Rightarrow> nat \<Rightarrow> nat" where
  "scan_fwd es v i new =
     (if i < length es \<and> v < snd (es ! i) then scan_fwd es v (i + 1) i else new)"
  by pat_completeness auto
termination
  by (relation "measure (\<lambda>(es, v, i, new). length es - i)") auto

declare scan_fwd.simps [simp del]

fun scan_bwd :: "(int \<times> 'v::ord) list \<Rightarrow> 'v \<Rightarrow> nat \<Rightarrow> nat \<Rightarrow> nat" where
  "scan_bwd es v 0 new = new"
| "scan_bwd es v (Suc i) new = (if v > snd (es ! i) then scan_bwd es v i i else new)"

definition OneSidedBubbleSort :: "nat \<Rightarrow> bool \<Rightarrow> 'v::ord svm_row \<Rightarrow> 'v svm_row" where
  "OneSidedBubbleSort idx forward r =
     (let es = sv_entries r; tmp = es ! idx in
      if forward then
        (let new_idx = scan_fwd es (snd tmp) (idx + 1) idx in
         if new_idx > idx
         then r\<lparr>sv_entries := (take idx es @ take (new_idx - idx) (drop (idx + 1) es) @
                  tmp # drop (new_idx + 1) es)\<rparr>
         else r)
      else
        (let new_idx = scan_bwd es (snd tmp) idx idx in
         if new_idx < idx
         then r\<lparr>sv_entries := (take new_idx es @ tmp # take (idx - new_idx) (drop new_idx es) @
                  drop (idx + 1) es)\<rparr>
         else r))"

definition ResetCapacity :: "int \<Rightarrow> 'v svm_row \<Rightarrow> 'v svm_row result" where
  "ResetCapacity new_capacity r =
     rbind (check (new_capacity \<ge> int (sv_num r)) ''new_capacity >= num_entries_'') (\<lambda>_.
       let remainder = new_capacity smod K_BLOCK_SIZE;
           new_capacity = (if remainder \<noteq> 0 then new_capacity + (K_BLOCK_SIZE - remainder)
                           else new_capacity)
       in Inr (r\<lparr>sv_capacity := new_capacity\<rparr>))"

definition RemoveOneEntryAndCompact :: "nat \<Rightarrow> 'v svm_row \<Rightarrow> 'v svm_row result" where
  "RemoveOneEntryAndCompact idx r =
     (let r = r\<lparr>sv_entries := (take idx (sv_entries r) @ drop (idx + 1) (sv_entries r))\<rparr> in
      if sv_capacity r - int (sv_num r) \<ge> 2 * K_BLOCK_SIZE
      then ResetCapacity (int (sv_num r)) r else Inr r)"

definition svm_index :: "'v::zero svm_row \<Rightarrow> int \<Rightarrow> 'v" where
  "svm_index r c =
     (let i = svm_FindIndex c r in if i = - 1 then 0 else snd (sv_entries r ! nat i))"

definition svm_Init :: "int \<Rightarrow> 'v svm_row \<Rightarrow> 'v svm_row result" where
  "svm_Init capacity r =
     (if capacity < 0 then Inl (Fatal ''bad_array_new_length'')
      else Inr \<lparr>sv_entries = [], sv_capacity = capacity\<rparr>)"

definition svm_Clone :: "'v svm_row \<Rightarrow> 'v svm_row result" where
  "svm_Clone r = rbind (svm_Init (sv_capacity r) svm_new) (\<lambda>n.
     if int (sv_num r) \<le> sv_capacity r
     then Inr (n\<lparr>sv_capacity := sv_capacity r, sv_entries := sv_entries r\<rparr>)
     else Inl (Undefined ''memcpy''))"

definition svm_SerializedSize :: "(int \<times> 'v) pod \<Rightarrow> 'v svm_row \<Rightarrow> nat" where
  "svm_SerializedSize ep r = sv_num r * p_size ep"

definition svm_Serialize :: "(int \<times> 'v) pod \<Rightarrow> 'v svm_row \<Rightarrow> bytes" where
  "svm_Serialize ep r = concat (map (p_enc ep) (sv_entries r))"

definition svm_Deserialize ::
  "(int \<times> 'v) pod \<Rightarrow> bytes \<Rightarrow> 'v svm_row \<Rightarrow> (bool \<times> 'v svm_row) result" where
  "svm_Deserialize ep bs r =
     rbind (check (length bs mod p_size ep = 0) ''0 == num_bytes % num_bytes_per_entry'') (\<lambda>_.
       let n = to_i32 (length bs div p_size ep) in
       rbind (svm_Init n r) (\<lambda>r.
         if length bs \<le> nat n * p_size ep
         then Inr (True, r\<lparr>sv_entries := dec_array ep (nat n) bs\<rparr>)
         else Inl (Undefined ''memcpy'')))"

text \<open>Adding an entry at the end, growing the array by a block when it is full.\<close>

definition svm_grow :: "'v svm_row \<Rightarrow> 'v svm_row result" where
  "svm_grow r = (if int (sv_num r) = sv_capacity r
     then ResetCapacity (sv_capacity r + K_BLOCK_SIZE) r else Inr r)"

definition svm_put :: "int \<Rightarrow> 'v \<Rightarrow> 'v svm_row \<Rightarrow> 'v svm_row result" where
  "svm_put c u r = (if int (sv_num r) < sv_capacity r
     then Inr (r\<lparr>sv_entries := sv_entries r @ [(c, u)]\<rparr>) else Inl (Undefined ''array index''))"

definition svm_bump :: "nat \<Rightarrow> 'v::plus \<Rightarrow> 'v svm_row \<Rightarrow> 'v svm_row" where
  "svm_bump i u r = (let e = sv_entries r ! i in r\<lparr>sv_entries := (sv_entries r)[i := (fst e, snd e + u)]\<rparr>)"

definition svm_ApplyIncUnsafe ::
  "int \<Rightarrow> 'v::linordered_ab_group_add \<Rightarrow> 'v svm_row \<Rightarrow> 'v svm_row result" where
  "svm_ApplyIncUnsafe c u r =
     (let i = svm_FindIndex c r in
      if i \<noteq> - 1 then
        (let r = svm_bump (nat i) u r in
         if snd (sv_entries r ! nat i) = 0 then RemoveOneEntryAndCompact (nat i) r
         else Inr (OneSidedBubbleSort (nat i) (u \<le> 0) r))
      else
        rbind (svm_grow r) (\<lambda>r. rbind (svm_put c u r) (\<lambda>r.
          Inr (OneSidedBubbleSort (sv_num r - 1) False r))))"

definition svm_batch_step ::
  "'v::linordered_ab_group_add svm_row \<Rightarrow> int \<times> 'v \<Rightarrow> 'v svm_row result" where
  "svm_batch_step r cu =
     (case cu of (c, u) \<Rightarrow>
      let i = svm_FindIndex c r in
      if i \<noteq> - 1 then
        (let r = svm_bump (nat i) u r in
         if snd (sv_entries r ! nat i) = 0 then RemoveOneEntryAndCompact (nat i) r else Inr r)
      else rbind (svm_grow r) (svm_put c u))"

definition svm_ApplyBatchIncUnsafe ::
  "((int \<times> 'v) list \<Rightarrow> (int \<times> 'v) list) \<Rightarrow> (int \<times> 'v::linordered_ab_group_add) list \<Rightarrow>
   'v svm_row \<Rightarrow> 'v svm_row result" where
  "svm_ApplyBatchIncUnsafe std_sort us r =
     rbind (foldM svm_batch_step r us) (\<lambda>r. Inr (r\<lparr>sv_entries := std_sort (sv_entries r)\<rparr>))"

definition svm_ops ::
  "(int \<times> 'v) pod \<Rightarrow> nat \<Rightarrow> ((int \<times> 'v) list \<Rightarrow> (int \<times> 'v) list) \<Rightarrow>
   ('v::linordered_ab_group_add svm_row, 'v) row_ops" where
  "svm_ops ep usize std_sort =
     \<lparr>ro_new = svm_new, ro_Init = svm_Init, ro_Clone = svm_Clone,
      ro_get_update_size = usize, ro_SerializedSize = svm_SerializedSize ep,
      ro_Serialize = svm_Serialize ep, ro_Deserialize = svm_Deserialize ep,
      ro_ApplyInc = svm_ApplyIncUnsafe, ro_ApplyBatchInc = svm_ApplyBatchIncUnsafe std_sort,
      ro_ApplyIncUnsafe = svm_ApplyIncUnsafe,
      ro_ApplyBatchIncUnsafe = svm_ApplyBatchIncUnsafe std_sort,
      ro_AddUpdates = (\<lambda>_ u1 u2. u1 + u2), ro_SubtractUpdates = (\<lambda>_ u1 u2. u1 - u2),
      ro_InitUpdate = (\<lambda>_. 0)\<rparr>"

text \<open>\<open>const_iterator\<close>: the entries, their number and the current position.\<close>

record 'v svm_iter =
  it_entries :: "(int \<times> 'v) list"
  it_curr :: nat

definition svm_cbegin :: "'v svm_row \<Rightarrow> 'v svm_iter" where
  "svm_cbegin r = \<lparr>it_entries = sv_entries r, it_curr = 0\<rparr>"

definition svm_cend :: "'v svm_row \<Rightarrow> 'v svm_iter" where
  "svm_cend r = \<lparr>it_entries = sv_entries r, it_curr = sv_num r\<rparr>"

definition svm_is_begin :: "'v svm_iter \<Rightarrow> bool" where
  "svm_is_begin it \<longleftrightarrow> it_curr it = 0"

definition svm_is_end :: "'v svm_iter \<Rightarrow> bool" where
  "svm_is_end it \<longleftrightarrow> it_curr it = length (it_entries it)"

definition svm_arrow :: "'v svm_iter \<Rightarrow> (int \<times> 'v) result" where
  "svm_arrow it = rbind (check (\<not> svm_is_end it) ''!is_end()'') (\<lambda>_. Inr (it_entries it ! it_curr it))"

definition svm_incr :: "'v svm_iter \<Rightarrow> 'v svm_iter result" where
  "svm_incr it = rbind (check (\<not> svm_is_end it) ''!is_end()'') (\<lambda>_. Inr (it\<lparr>it_curr := it_curr it + 1\<rparr>))"

definition svm_decr :: "'v svm_iter \<Rightarrow> 'v svm_iter result" where
  "svm_decr it = rbind (check (\<not> svm_is_begin it) ''!is_begin()'') (\<lambda>_. Inr (it\<lparr>it_curr := it_curr it - 1\<rparr>))"

section \<open>Invariant\<close>

definition desc :: "(int \<times> 'v::linorder) list \<Rightarrow> bool" where
  "desc es \<longleftrightarrow> sorted_wrt (\<lambda>a b. snd a \<ge> snd b) es"

definition svm_pre :: "'v svm_row \<Rightarrow> bool" where
  "svm_pre r \<longleftrightarrow> distinct (keys (sv_entries r)) \<and> int (sv_num r) \<le> sv_capacity r"

definition svm_inv :: "'v::linorder svm_row \<Rightarrow> bool" where
  "svm_inv r \<longleftrightarrow> svm_pre r \<and> desc (sv_entries r)"

definition svm_val :: "'v::zero svm_row \<Rightarrow> int \<Rightarrow> 'v" where
  "svm_val r c = (case map_of (sv_entries r) c of None \<Rightarrow> 0 | Some v \<Rightarrow> v)"

definition svm_wire :: "((int \<times> 'v) \<Rightarrow> bool) \<Rightarrow> 'v svm_row \<Rightarrow> bool" where
  "svm_wire ok r \<longleftrightarrow> sv_num r < 2 ^ 31 \<and> (\<forall>e \<in> set (sv_entries r). ok e)"

locale desc_sort =
  fixes std_sort :: "(int \<times> 'v::linorder) list \<Rightarrow> (int \<times> 'v) list"
  assumes sort_mset: "mset (std_sort es) = mset es"
    and sort_desc: "desc (std_sort es)"
begin

lemma sort_set: "set (std_sort es) = set es"
  using sort_mset by (metis set_mset_mset)

lemma sort_length: "length (std_sort es) = length es"
  using sort_mset by (metis size_mset)

lemma sort_keys: "distinct (keys (std_sort es)) \<longleftrightarrow> distinct (keys es)"
  using sort_mset [of es] by (metis mset_map mset_eq_imp_distinct_iff)

lemma sort_map_of: "distinct (keys es) \<Longrightarrow> map_of (std_sort es) = map_of es"
  by (subst map_of_inject_set) (simp_all add: sort_keys sort_set)

end

text \<open>Stable insertion sort is one such function.\<close>

definition stable_desc :: "(int \<times> 'v::linordered_ab_group_add) list \<Rightarrow> (int \<times> 'v) list" where
  "stable_desc es = sort_key (\<lambda>e. - snd e) es"

interpretation stable: desc_sort "stable_desc :: (int \<times> 'v::linordered_ab_group_add) list \<Rightarrow> _"
proof
  fix es :: "(int \<times> 'v) list"
  show "mset (stable_desc es) = mset es" by (simp add: stable_desc_def)
  have "sorted (map (\<lambda>e. - snd e) (stable_desc es))" by (simp add: stable_desc_def)
  then show "desc (stable_desc es)" by (simp add: desc_def sorted_map)
qed

lemma find_idx_None: "map_of es c = None \<Longrightarrow> find_idx c i es = - 1"
  by (induction c i es rule: find_idx.induct) (auto split: if_splits)

lemma find_idx_Some:
  "map_of es c = Some v \<Longrightarrow> \<exists>k < length es. find_idx c i es = int (i + k) \<and> es ! k = (c, v)"
proof (induction c i es rule: find_idx.induct)
  case (2 c i e es)
  show ?case
  proof (cases "fst e = c")
    case True
    then show ?thesis using "2.prems" by (cases e) auto
  next
    case False
    then obtain k where "k < length es" "find_idx c (Suc i) es = int (Suc i + k)" "es ! k = (c, v)"
      using "2.IH" "2.prems" by (cases e) auto
    with False show ?thesis by (intro exI [of _ "Suc k"]) auto
  qed
qed simp

lemma FindIndex_None: "map_of (sv_entries r) c = None \<Longrightarrow> svm_FindIndex c r = - 1"
  by (simp add: svm_FindIndex_def find_idx_None)

lemma FindIndex_Some:
  assumes "map_of (sv_entries r) c = Some v"
  obtains xs ys where "sv_entries r = xs @ (c, v) # ys" "svm_FindIndex c r = int (length xs)"
proof -
  obtain k where k: "k < sv_num r" "svm_FindIndex c r = int k" "sv_entries r ! k = (c, v)"
    using find_idx_Some [OF assms, of 0] by (auto simp: svm_FindIndex_def)
  then have "sv_entries r = take k (sv_entries r) @ (c, v) # drop (Suc k) (sv_entries r)"
    using id_take_nth_drop [of k "sv_entries r"] by simp
  then show thesis using k by (intro that [of "take k (sv_entries r)"]) simp_all
qed

lemma svm_index_val: "svm_index r c = svm_val r c"
proof (cases "map_of (sv_entries r) c")
  case None
  then show ?thesis by (simp add: svm_index_def FindIndex_None svm_val_def)
next
  case (Some v)
  then obtain xs ys where "sv_entries r = xs @ (c, v) # ys" "svm_FindIndex c r = int (length xs)"
    by (rule FindIndex_Some)
  with Some show ?thesis by (simp add: svm_index_def svm_val_def)
qed

section \<open>Moving an entry to its place\<close>

lemma scan_fwd_eq:
  "scan_fwd es v (Suc j) j = j + length (takeWhile (\<lambda>e. v < snd e) (drop (Suc j) es))"
proof (induction "length es - j" arbitrary: j rule: less_induct)
  case less
  show ?case
  proof (cases "Suc j < length es \<and> v < snd (es ! Suc j)")
    case True
    have "drop (Suc j) es = es ! Suc j # drop (Suc (Suc j)) es"
      using True by (simp add: Cons_nth_drop_Suc)
    moreover have "scan_fwd es v (Suc j) j = scan_fwd es v (Suc (Suc j)) (Suc j)"
      using True by (subst scan_fwd.simps) simp
    moreover have "scan_fwd es v (Suc (Suc j)) (Suc j) =
        Suc j + length (takeWhile (\<lambda>e. v < snd e) (drop (Suc (Suc j)) es))"
      by (rule less) (use True in linarith)
    ultimately show ?thesis using True by simp
  next
    case False
    have "takeWhile (\<lambda>e. v < snd e) (drop (Suc j) es) = []"
      using False Cons_nth_drop_Suc [of "Suc j" es, symmetric]
      by (cases "Suc j < length es") auto
    then show ?thesis using False by (subst scan_fwd.simps) auto
  qed
qed

lemma scan_bwd_eq:
  "i \<le> length es \<Longrightarrow> scan_bwd es v i i = i - length (takeWhile (\<lambda>e. v > snd e) (rev (take i es)))"
proof (induction i)
  case (Suc i)
  then have "rev (take (Suc i) es) = es ! i # rev (take i es)" by (simp add: take_Suc_conv_app_nth)
  moreover have "length (takeWhile (\<lambda>e. v > snd e) (rev (take i es))) \<le> i"
    using length_takeWhile_le [of "\<lambda>e. v > snd e" "rev (take i es)"] Suc.prems by simp
  ultimately show ?case using Suc by auto
qed simp

text \<open>The moves in terms of the entries before and after the moved one.\<close>

lemma bubble_fwd:
  assumes "sv_entries r = xs @ e # ys"
  shows "sv_entries (OneSidedBubbleSort (length xs) True r) =
    xs @ takeWhile (\<lambda>y. snd e < snd y) ys @ e # dropWhile (\<lambda>y. snd e < snd y) ys"
proof -
  let ?P = "\<lambda>y. snd e < snd y"
  have n: "scan_fwd (sv_entries r) (snd e) (Suc (length xs)) (length xs) = length xs + length (takeWhile ?P ys)"
    by (subst scan_fwd_eq) (simp add: assms)
  have "take (length (takeWhile ?P ys)) ys = takeWhile ?P ys"
    by (metis takeWhile_eq_take)
  moreover have "drop (length (takeWhile ?P ys)) ys = dropWhile ?P ys"
    by (metis dropWhile_eq_drop)
  ultimately show ?thesis
    using n unfolding OneSidedBubbleSort_def Let_def
    by (auto simp: assms)
qed

lemma bubble_bwd:
  assumes "sv_entries r = xs @ e # ys"
  shows "sv_entries (OneSidedBubbleSort (length xs) False r) =
    rev (dropWhile (\<lambda>y. snd e > snd y) (rev xs)) @ e #
    rev (takeWhile (\<lambda>y. snd e > snd y) (rev xs)) @ ys"
proof -
  define t where "t = takeWhile (\<lambda>y. snd e > snd y) (rev xs)"
  define d where "d = dropWhile (\<lambda>y. snd e > snd y) (rev xs)"
  have "rev xs = t @ d" by (simp add: t_def d_def)
  then have xs: "xs = rev d @ rev t" by (metis rev_append rev_rev_ident)
  have n: "scan_bwd (sv_entries r) (snd e) (length xs) (length xs) = length xs - length t"
    by (subst scan_bwd_eq) (simp_all add: assms t_def)
  have e: "sv_entries r ! length xs = e" by (simp add: assms)
  show ?thesis
    unfolding OneSidedBubbleSort_def Let_def t_def [symmetric] d_def [symmetric] e n
    by (cases "t = []") (simp_all add: assms xs)
qed

lemma bubble_capacity [simp]: "sv_capacity (OneSidedBubbleSort i f r) = sv_capacity r"
  by (simp add: OneSidedBubbleSort_def Let_def)

lemma desc_append: "desc (xs @ ys) \<longleftrightarrow> desc xs \<and> desc ys \<and> (\<forall>x \<in> set xs. \<forall>y \<in> set ys. snd x \<ge> snd y)"
  by (simp add: desc_def sorted_wrt_append)

lemma desc_Cons: "desc (x # ys) \<longleftrightarrow> (\<forall>y \<in> set ys. snd x \<ge> snd y) \<and> desc ys"
  by (simp add: desc_def)

lemma desc_takeWhile_dropWhile:
  assumes "desc ys"
  shows "desc (takeWhile (\<lambda>y. v < snd y) ys)" "desc (dropWhile (\<lambda>y. v < snd y) ys)"
    "\<forall>y \<in> set (takeWhile (\<lambda>y. v < snd y) ys). v < snd y"
    "\<forall>y \<in> set (dropWhile (\<lambda>y. v < snd y) ys). snd y \<le> v"
proof -
  have "desc (takeWhile (\<lambda>y. v < snd y) ys @ dropWhile (\<lambda>y. v < snd y) ys)" using assms by simp
  then show "desc (takeWhile (\<lambda>y. v < snd y) ys)" "desc (dropWhile (\<lambda>y. v < snd y) ys)"
    unfolding desc_append by simp_all
  show "\<forall>y \<in> set (takeWhile (\<lambda>y. v < snd y) ys). v < snd y" by (auto dest: set_takeWhileD)
  show "\<forall>y \<in> set (dropWhile (\<lambda>y. v < snd y) ys). snd y \<le> v"
  proof (cases "dropWhile (\<lambda>y. v < snd y) ys")
    case (Cons z zs)
    then have "snd z \<le> v" using hd_dropWhile [of "\<lambda>y. v < snd y" ys] by auto
    with Cons \<open>desc (dropWhile (\<lambda>y. v < snd y) ys)\<close> show ?thesis by (auto simp: desc_Cons)
  next
    case Nil
    show ?thesis unfolding Nil by simp
  qed
qed

lemma bubble_fwd_desc:
  assumes "sv_entries r = xs @ e # ys" "desc (xs @ ys)" "\<forall>x \<in> set xs. snd x \<ge> snd e"
  shows "desc (sv_entries (OneSidedBubbleSort (length xs) True r))"
    and "mset (sv_entries (OneSidedBubbleSort (length xs) True r)) = mset (sv_entries r)"
proof -
  let ?t = "takeWhile (\<lambda>y. snd e < snd y) ys" and ?d = "dropWhile (\<lambda>y. snd e < snd y) ys"
  have ys: "desc ys" and x: "desc xs" "\<forall>x \<in> set xs. \<forall>y \<in> set ys. snd x \<ge> snd y"
    using assms(2) by (auto simp: desc_append)
  note td = desc_takeWhile_dropWhile [OF ys, of "snd e"]
  have sub: "set ?t \<subseteq> set ys" "set ?d \<subseteq> set ys" by (auto dest: set_takeWhileD set_dropWhileD)
  have "\<forall>y \<in> set ?t. \<forall>z \<in> set ?d. snd y \<ge> snd z"
    using td(3,4) by (meson less_imp_le order_trans)
  moreover have "\<forall>x \<in> set xs. \<forall>y \<in> set ?t. snd x \<ge> snd y" "\<forall>x \<in> set xs. \<forall>y \<in> set ?d. snd x \<ge> snd y"
    using x(2) sub by blast+
  ultimately show "desc (sv_entries (OneSidedBubbleSort (length xs) True r))"
    unfolding bubble_fwd [OF assms(1)] using td x(1) assms(3)
    by (auto simp: desc_append desc_Cons intro: less_imp_le)
  have "mset ys = mset ?t + mset ?d" by (metis mset_append takeWhile_dropWhile_id)
  then show "mset (sv_entries (OneSidedBubbleSort (length xs) True r)) = mset (sv_entries r)"
    unfolding bubble_fwd [OF assms(1)] by (simp add: assms(1))
qed

lemma bubble_bwd_desc:
  assumes "sv_entries r = xs @ e # ys" "desc (xs @ ys)" "\<forall>y \<in> set ys. snd e \<ge> snd y"
  shows "desc (sv_entries (OneSidedBubbleSort (length xs) False r))"
    and "mset (sv_entries (OneSidedBubbleSort (length xs) False r)) = mset (sv_entries r)"
proof -
  define t where "t = takeWhile (\<lambda>y. snd e > snd y) (rev xs)"
  define d where "d = dropWhile (\<lambda>y. snd e > snd y) (rev xs)"
  have td: "rev xs = t @ d" by (simp add: t_def d_def)
  then have xs: "xs = rev d @ rev t" by (metis rev_append rev_rev_ident)
  have res: "sv_entries (OneSidedBubbleSort (length xs) False r) = rev d @ e # rev t @ ys"
    unfolding t_def d_def by (rule bubble_bwd [OF assms(1)])
  have t: "\<forall>y \<in> set t. snd y \<le> snd e"
    unfolding t_def by (auto dest!: set_takeWhileD)
  have d: "\<forall>y \<in> set d. snd y \<ge> snd e"
  proof (cases d)
    case (Cons z zs)
    then have "snd z \<ge> snd e" using hd_dropWhile [of "\<lambda>y. snd e > snd y" "rev xs"] by (auto simp: d_def)
    moreover have "\<forall>y \<in> set zs. snd y \<ge> snd z"
      using assms(2) Cons unfolding xs by (simp add: desc_append)
    ultimately show ?thesis using Cons by auto
  qed simp
  have ys: "\<forall>y \<in> set ys. \<forall>z \<in> set d. snd y \<le> snd z" using assms(3) d by (meson order_trans)
  show "desc (sv_entries (OneSidedBubbleSort (length xs) False r))"
    unfolding res using assms(2,3) t d ys unfolding xs by (auto simp: desc_append desc_Cons)
  show "mset (sv_entries (OneSidedBubbleSort (length xs) False r)) = mset (sv_entries r)"
    unfolding res unfolding assms(1) by (simp add: xs)
qed

section \<open>Updates\<close>

lemma ResetCapacity_ok:
  assumes "int (sv_num r) \<le> n"
  shows "\<exists>k \<ge> n. ResetCapacity n r = Inr (r\<lparr>sv_capacity := k\<rparr>)"
proof -
  have "0 \<le> n" using assms by simp
  then have "n smod K_BLOCK_SIZE < 10" by (simp add: K_BLOCK_SIZE_def smod_nonneg)
  then show ?thesis using assms
    by (cases "n smod K_BLOCK_SIZE = 0")
       (auto simp: ResetCapacity_def Let_def K_BLOCK_SIZE_def
         intro: exI [of _ n] exI [of _ "n + (10 - n smod 10)"])
qed

lemma svm_grow_ok:
  assumes "svm_pre r"
  shows "\<exists>k. svm_grow r = Inr (r\<lparr>sv_capacity := k\<rparr>) \<and> int (sv_num r) < k"
  using assms ResetCapacity_ok [of r "sv_capacity r + K_BLOCK_SIZE"]
  by (cases "int (sv_num r) = sv_capacity r")
     (force simp: svm_grow_def svm_pre_def K_BLOCK_SIZE_def intro: exI [of _ "sv_capacity r"])+

lemma Remove_ok:
  assumes "sv_entries r = xs @ e # ys" "int (sv_num r) \<le> sv_capacity r"
  shows "\<exists>k. RemoveOneEntryAndCompact (length xs) r = Inr (r\<lparr>sv_entries := xs @ ys, sv_capacity := k\<rparr>) \<and>
    int (length (xs @ ys)) \<le> k"
proof -
  let ?r = "r\<lparr>sv_entries := xs @ ys\<rparr>"
  have e: "take (length xs) (sv_entries r) @ drop (length xs + 1) (sv_entries r) = xs @ ys"
    by (simp add: assms(1))
  obtain k where k: "k \<ge> int (sv_num ?r)" "ResetCapacity (int (sv_num ?r)) ?r = Inr (?r\<lparr>sv_capacity := k\<rparr>)"
    using ResetCapacity_ok [of ?r "int (sv_num ?r)"] by auto
  show ?thesis
  proof (cases "sv_capacity ?r - int (sv_num ?r) \<ge> 2 * K_BLOCK_SIZE")
    case True
    then show ?thesis using k unfolding RemoveOneEntryAndCompact_def Let_def e
      by (intro exI [of _ k]) simp
  next
    case False
    then show ?thesis using assms unfolding RemoveOneEntryAndCompact_def Let_def e
      by (intro exI [of _ "sv_capacity r"]) simp
  qed
qed

lemma map_of_mid:
  "distinct (keys (xs @ (c, v) # ys)) \<Longrightarrow> map_of (xs @ (c, w) # ys) = (map_of (xs @ ys))(c \<mapsto> w)"
  by (induction xs) (auto simp: fun_eq_iff)

lemma map_of_mid_None: "distinct (keys (xs @ (c, v) # ys)) \<Longrightarrow> map_of (xs @ ys) c = None"
  by (auto simp: map_of_eq_None_iff)

text \<open>The four cases of an update: where the column is and what becomes of its entry.\<close>

lemma svm_batch_step_ok:
  assumes pre: "svm_pre r"
  shows "\<exists>r'. svm_batch_step r (c, u) = Inr r' \<and> svm_pre r' \<and>
    svm_val r' = (svm_val r)(c := svm_val r c + u)"
proof (cases "map_of (sv_entries r) c")
  case None
  obtain k where k: "svm_grow r = Inr (r\<lparr>sv_capacity := k\<rparr>)" "int (sv_num r) < k"
    using svm_grow_ok [OF pre] by blast
  have "c \<notin> set (keys (sv_entries r))" using None by (simp add: map_of_eq_None_iff)
  with None k pre show ?thesis
    by (auto simp: svm_batch_step_def FindIndex_None svm_put_def svm_pre_def svm_val_def fun_eq_iff
        map_add_def split: option.splits)
next
  case (Some v)
  then obtain xs ys where es: "sv_entries r = xs @ (c, v) # ys" "svm_FindIndex c r = int (length xs)"
    by (rule FindIndex_Some)
  let ?r = "r\<lparr>sv_entries := xs @ (c, v + u) # ys\<rparr>"
  have b: "svm_bump (length xs) u r = ?r" by (simp add: svm_bump_def es Let_def)
  have d: "distinct (keys (xs @ (c, v) # ys))" using pre es by (simp add: svm_pre_def)
  note m = map_of_mid [OF d] map_of_mid_None [OF d]
  show ?thesis
  proof (cases "v + u = 0")
    case False
    then have "svm_batch_step r (c, u) = Inr ?r" by (simp add: svm_batch_step_def es b Let_def)
    then show ?thesis using pre d m
      by (auto simp: svm_pre_def svm_val_def es fun_eq_iff)
  next
    case True
    obtain k where "RemoveOneEntryAndCompact (length xs) ?r = Inr (?r\<lparr>sv_entries := xs @ ys, sv_capacity := k\<rparr>)"
      "int (length (xs @ ys)) \<le> k"
      using Remove_ok [of ?r xs "(c, v + u)" ys] pre es by (auto simp: svm_pre_def)
    then show ?thesis using pre d m True
      by (auto simp: svm_batch_step_def b Let_def svm_pre_def svm_val_def es fun_eq_iff
          split: option.splits)
  qed
qed

lemma svm_batch_fold_ok:
  "svm_pre r \<Longrightarrow> \<exists>r'. foldM svm_batch_step r us = Inr r' \<and> svm_pre r' \<and>
    svm_val r' = (\<lambda>c. svm_val r c + upd_sum us c)"
proof (induction us arbitrary: r)
  case (Cons p us)
  obtain c u where p: "p = (c, u)" by force
  obtain r1 where r1: "svm_batch_step r p = Inr r1" "svm_pre r1"
    "svm_val r1 = (svm_val r)(c := svm_val r c + u)"
    using svm_batch_step_ok [OF Cons.prems] p by blast
  from Cons.IH [OF r1(2)] obtain r' where "foldM svm_batch_step r1 us = Inr r'" "svm_pre r'"
    "svm_val r' = (\<lambda>c. svm_val r1 c + upd_sum us c)" by blast
  with r1 p show ?case by (auto simp: fun_eq_iff algebra_simps)
qed simp

lemma svm_batch_ok:
  assumes "desc_sort srt" "svm_pre r"
  shows "\<exists>r'. svm_ApplyBatchIncUnsafe srt us r = Inr r' \<and> svm_inv r' \<and>
    svm_val r' = (\<lambda>c. svm_val r c + upd_sum us c)"
proof -
  obtain r' where r': "foldM svm_batch_step r us = Inr r'" "svm_pre r'"
    "svm_val r' = (\<lambda>c. svm_val r c + upd_sum us c)" using svm_batch_fold_ok [OF assms(2)] by blast
  let ?s = "r'\<lparr>sv_entries := srt (sv_entries r')\<rparr>"
  have "distinct (keys (sv_entries r'))" using r'(2) by (simp add: svm_pre_def)
  then have "svm_val ?s = svm_val r'" "svm_inv ?s"
    using r'(2) assms(1)
    by (simp_all add: svm_val_def fun_eq_iff svm_inv_def svm_pre_def desc_sort.sort_map_of
        desc_sort.sort_keys desc_sort.sort_length desc_sort.sort_desc del: distinct_map)
  with r' show ?thesis by (simp add: svm_ApplyBatchIncUnsafe_def)
qed

lemma svm_perm:
  assumes "svm_pre r" "mset (sv_entries s) = mset (sv_entries r)" "sv_capacity s = sv_capacity r"
    "desc (sv_entries s)"
  shows "svm_inv s \<and> svm_val s = svm_val r"
proof -
  have k: "distinct (keys (sv_entries s))" "sv_num s = sv_num r" "set (sv_entries s) = set (sv_entries r)"
    using assms(1,2) by (metis mset_map mset_eq_imp_distinct_iff svm_pre_def, metis size_mset, metis set_mset_mset)
  then have "map_of (sv_entries s) = map_of (sv_entries r)"
    using assms(1) by (subst map_of_inject_set) (simp_all add: svm_pre_def)
  with k assms show ?thesis by (simp add: svm_inv_def svm_pre_def svm_val_def fun_eq_iff)
qed

text \<open>How the number of entries changes: an entry that becomes zero is removed, a column without an entry gets one, also when the update is zero.\<close>

definition num_after :: "int \<Rightarrow> 'v::linordered_ab_group_add \<Rightarrow> 'v svm_row \<Rightarrow> nat" where
  "num_after c u r = (case map_of (sv_entries r) c of None \<Rightarrow> sv_num r + 1 | Some v \<Rightarrow> if v + u = 0 then sv_num r - 1 else sv_num r)"

lemma svm_batch_step_num:
  assumes "svm_pre r" "svm_batch_step r (c, u) = Inr s"
  shows "sv_num s = num_after c u r"
proof (cases "map_of (sv_entries r) c")
  case None
  obtain k where k: "svm_grow r = Inr (r\<lparr>sv_capacity := k\<rparr>)" "int (sv_num r) < k" using svm_grow_ok [OF assms(1)] by blast
  show ?thesis using assms(2) k None by (auto simp: svm_batch_step_def FindIndex_None svm_put_def num_after_def)
next
  case (Some v)
  then obtain xs ys where es: "sv_entries r = xs @ (c, v) # ys" "svm_FindIndex c r = int (length xs)" by (rule FindIndex_Some)
  let ?r = "r\<lparr>sv_entries := xs @ (c, v + u) # ys\<rparr>"
  have b: "svm_bump (length xs) u r = ?r" by (simp add: svm_bump_def es Let_def)
  obtain k where "RemoveOneEntryAndCompact (length xs) ?r = Inr (?r\<lparr>sv_entries := xs @ ys, sv_capacity := k\<rparr>)"
    using Remove_ok [of ?r xs "(c, v + u)" ys] assms(1) es by (auto simp: svm_pre_def)
  with assms(2) Some es show ?thesis by (auto simp: svm_batch_step_def b Let_def num_after_def split: if_splits)
qed

lemma svm_inc_full:
  assumes inv: "svm_inv r"
  shows "\<exists>r'. svm_ApplyIncUnsafe c u r = Inr r' \<and> svm_inv r' \<and>
    svm_val r' = (svm_val r)(c := svm_val r c + u) \<and> sv_num r' = num_after c u r"
proof -
  have pre: "svm_pre r" and ds: "desc (sv_entries r)" using inv by (simp_all add: svm_inv_def)
  obtain s where s: "svm_batch_step r (c, u) = Inr s" "svm_pre s"
    "svm_val s = (svm_val r)(c := svm_val r c + u)" using svm_batch_step_ok [OF pre] by blast
  have fin: "\<exists>r'. svm_ApplyIncUnsafe c u r = Inr r' \<and> svm_inv r' \<and> svm_val r' = (svm_val r)(c := svm_val r c + u) \<and> sv_num r' = num_after c u r"
    if "svm_ApplyIncUnsafe c u r = Inr t" "mset (sv_entries t) = mset (sv_entries s)"
      "sv_capacity t = sv_capacity s" "desc (sv_entries t)" for t
    using svm_perm [OF s(2) that(2-4)] that(1) s(3) svm_batch_step_num [OF pre s(1)] mset_eq_length [OF that(2)] by simp
  show ?thesis
  proof (cases "map_of (sv_entries r) c")
    case None
    obtain k where k: "svm_grow r = Inr (r\<lparr>sv_capacity := k\<rparr>)" "int (sv_num r) < k"
      using svm_grow_ok [OF pre] by blast
    have st: "s = r\<lparr>sv_capacity := k, sv_entries := sv_entries r @ [(c, u)]\<rparr>"
      using s(1) k None by (simp add: svm_batch_step_def FindIndex_None svm_put_def)
    have "svm_ApplyIncUnsafe c u r = Inr (OneSidedBubbleSort (sv_num r) False s)"
      using k None st by (simp add: svm_ApplyIncUnsafe_def FindIndex_None svm_put_def)
    then show ?thesis using bubble_bwd_desc [of s "sv_entries r" "(c, u)" "[]"] ds
      by (intro fin) (simp_all add: st)
  next
    case (Some v)
    then obtain xs ys where es: "sv_entries r = xs @ (c, v) # ys" "svm_FindIndex c r = int (length xs)"
      by (rule FindIndex_Some)
    let ?r = "r\<lparr>sv_entries := xs @ (c, v + u) # ys\<rparr>"
    have b: "svm_bump (length xs) u r = ?r" by (simp add: svm_bump_def es Let_def)
    have d: "desc (xs @ ys)" "\<forall>x \<in> set xs. snd x \<ge> v" "\<forall>y \<in> set ys. v \<ge> snd y"
      using ds es by (auto simp: desc_append desc_Cons)
    show ?thesis
    proof (cases "v + u = 0")
      case True
      obtain k where "RemoveOneEntryAndCompact (length xs) ?r = Inr (?r\<lparr>sv_entries := xs @ ys, sv_capacity := k\<rparr>)"
        using Remove_ok [of ?r xs "(c, v + u)" ys] pre es by (auto simp: svm_pre_def)
      then show ?thesis using s(1) True d(1)
        by (intro fin [of s]) (auto simp: svm_ApplyIncUnsafe_def svm_batch_step_def es b Let_def)
    next
      case False
      have st: "s = ?r" using s(1) False by (simp add: svm_batch_step_def es b Let_def)
      have a: "svm_ApplyIncUnsafe c u r = Inr (OneSidedBubbleSort (length xs) (u \<le> 0) s)"
        using False st by (simp add: svm_ApplyIncUnsafe_def es b Let_def)
      have ss: "sv_entries s = xs @ (c, v + u) # ys" by (simp add: st)
      show ?thesis
      proof (cases "u \<le> 0")
        case True
        have le: "v + u \<le> v" using True by simp
        have "\<forall>x \<in> set xs. snd x \<ge> snd (c, v + u)"
          using d(2) order_trans [OF le] unfolding snd_conv by blast
        from bubble_fwd_desc [OF ss d(1) this] a True show ?thesis by (intro fin) simp_all
      next
        case neg: False
        then have le: "v \<le> v + u" by simp
        have "\<forall>y \<in> set ys. snd (c, v + u) \<ge> snd y"
          using d(3) order_trans [OF _ le] unfolding snd_conv by blast
        from bubble_bwd_desc [OF ss d(1) this] a neg show ?thesis by (intro fin) simp_all
      qed
    qed
  qed
qed

lemma svm_inc_ok:
  "svm_inv r \<Longrightarrow> \<exists>r'. svm_ApplyIncUnsafe c u r = Inr r' \<and> svm_inv r' \<and> svm_val r' = (svm_val r)(c := svm_val r c + u)"
  using svm_inc_full by blast

lemma svm_deser_ser:
  assumes "pod_ok ep ok" "svm_inv r" "svm_wire ok r"
  shows "svm_Deserialize ep (svm_Serialize ep r) r0 =
    Inr (True, \<lparr>sv_entries = sv_entries r, sv_capacity = int (sv_num r)\<rparr>)"
proof -
  have sz: "length (svm_Serialize ep r) = sv_num r * p_size ep" "0 < p_size ep"
    using assms(1) by (simp_all add: svm_Serialize_def concat_enc_size) (simp add: pod_ok_def)
  have d: "length (svm_Serialize ep r) div p_size ep = sv_num r"
    "length (svm_Serialize ep r) mod p_size ep = 0" using sz by simp_all
  have "dec_array ep (sv_num r) (svm_Serialize ep r) = sv_entries r"
    unfolding svm_Serialize_def using assms(1,3) by (intro dec_array_concat) (auto simp: svm_wire_def)
  moreover have "to_i32 (sv_num r) = int (sv_num r)"
    using assms(3) by (intro to_i32_id) (simp add: svm_wire_def)
  ultimately show ?thesis using sz by (simp add: svm_Deserialize_def d svm_Init_def Let_def)
qed

lemma svm_additive:
  assumes "pod_ok ep ok" "desc_sort srt"
  shows "additive_row (svm_ops ep usize srt) svm_inv svm_val (\<lambda>_ _. True) (svm_wire ok)"
proof
  show "\<exists>r'. ro_Deserialize (svm_ops ep usize srt) (ro_Serialize (svm_ops ep usize srt) r) r0 = Inr (True, r') \<and>
      svm_inv r' \<and> svm_val r' = svm_val r \<and> (\<lambda>_. True) = (\<lambda>_. True)"
    if "svm_inv r" "svm_wire ok r" for r r0
    using svm_deser_ser [OF assms(1) that] that
    by (simp add: svm_ops_def svm_inv_def svm_pre_def svm_val_def fun_eq_iff)
  show "ro_Clone (svm_ops ep usize srt) r = Inr r" if "svm_inv r" for r
    using that by (simp add: svm_ops_def svm_Clone_def svm_Init_def svm_inv_def svm_pre_def)
qed (use svm_inc_ok svm_batch_ok [OF assms(2)] assms(1) in
     \<open>simp_all add: svm_ops_def svm_Serialize_def svm_SerializedSize_def concat_enc_size svm_inv_def\<close>)

text \<open>An entry image without padding, for 32-bit values.\<close>

definition entry_pod :: "(int \<times> int) pod" where
  "entry_pod = \<lparr>p_enc = (\<lambda>(c, v). i32_enc c @ i32_enc v),
     p_dec = (\<lambda>bs. (i32_dec (take 4 bs), i32_dec (drop 4 bs))), p_size = 8\<rparr>"

lemma entry_pod_ok: "pod_ok entry_pod (\<lambda>(c, v). is_i32 c \<and> is_i32 v)"
  by (simp add: pod_ok_def entry_pod_def i32.dec_enc)

interpretation svm_i32: additive_row "svm_ops entry_pod 4 stable_desc" svm_inv svm_val "\<lambda>_ _. True"
  "svm_wire (\<lambda>(c, v). is_i32 c \<and> is_i32 v)"
  by (rule svm_additive [OF entry_pod_ok stable.desc_sort_axioms])

section \<open>Properties\<close>

text \<open>
  C38. Every single increment of a sorted row, whether it changes, adds or removes an
  entry, ends with the entries in descending order of value (the weight, \<open>Entry.second\<close>; the comment of \<open>Entry\<close> says
  \<open>Entry.first\<close>), distinct columns and no more entries than the array has slots, and changes exactly one column's value. An entry that becomes zero is
  removed; a column without an entry gets one, also by an increment of zero, so that \<open>num_entries\<close> may count an entry of value zero.
\<close>

theorem sorted_row_inc:
  fixes r :: "'v::linordered_ab_group_add svm_row"
  assumes "svm_inv r"
  shows "\<exists>r'. svm_ApplyIncUnsafe c u r = Inr r' \<and> svm_inv r' \<and>
    sorted_wrt (\<lambda>x y. snd x \<ge> snd y) (sv_entries r') \<and> distinct (keys (sv_entries r')) \<and> int (sv_num r') \<le> sv_capacity r' \<and>
    svm_index r' = (svm_index r)(c := svm_index r c + u) \<and>
    sv_num r' = (case map_of (sv_entries r) c of None \<Rightarrow> sv_num r + 1 | Some v \<Rightarrow> if v + u = 0 then sv_num r - 1 else sv_num r)"
proof -
  obtain r' where "svm_ApplyIncUnsafe c u r = Inr r'" "svm_inv r'" "svm_val r' = (svm_val r)(c := svm_val r c + u)" "sv_num r' = num_after c u r"
    using svm_inc_full [OF assms] by blast
  then show ?thesis by (auto simp: fun_eq_iff svm_index_val num_after_def svm_inv_def svm_pre_def desc_def)
qed

theorem sorted_row_inc_witness:
  "\<exists>r'. svm_ApplyIncUnsafe 4 (9 :: int) \<lparr>sv_entries = [(1, 8), (4, 3)], sv_capacity = 2\<rparr> = Inr r' \<and> svm_inv r' \<and>
    svm_index r' = (svm_index \<lparr>sv_entries = [(1, 8), (4, 3)], sv_capacity = 2\<rparr>)
      (4 := svm_index \<lparr>sv_entries = [(1, 8), (4, 3)], sv_capacity = 2\<rparr> 4 + 9) \<and> sv_num r' = 2"
proof -
  have "svm_inv \<lparr>sv_entries = [(1, 8), (4, 3 :: int)], sv_capacity = 2\<rparr>" by (simp add: svm_inv_def svm_pre_def desc_def)
  from sorted_row_inc [OF this, of 4 9] show ?thesis by auto
qed

text \<open>
  The batch update, which sorts once at the end, gives every column the same
  value as the single increments one after the other, for every sorting function
  that orders by descending value.
\<close>

theorem sorted_row_batch_eq_incs:
  fixes r :: "'v::linordered_ab_group_add svm_row"
  assumes "desc_sort srt" "svm_inv r"
  shows "\<exists>r1 r2. svm_ApplyBatchIncUnsafe srt us r = Inr r1 \<and>
    foldM (\<lambda>r (c, u). svm_ApplyIncUnsafe c u r) r us = Inr r2 \<and>
    svm_inv r1 \<and> svm_inv r2 \<and> svm_index r1 = svm_index r2"
proof -
  have one: "\<exists>r2. foldM (\<lambda>r (c, u). svm_ApplyIncUnsafe c u r) r us = Inr r2 \<and> svm_inv r2 \<and>
      svm_val r2 = (\<lambda>c. svm_val r c + upd_sum us c)" using assms(2)
  proof (induction us arbitrary: r)
    case (Cons p us)
    obtain c u where p: "p = (c, u)" by force
    obtain r1 where r1: "svm_ApplyIncUnsafe c u r = Inr r1" "svm_inv r1"
      "svm_val r1 = (svm_val r)(c := svm_val r c + u)" using svm_inc_ok [OF Cons.prems] by blast
    from Cons.IH [OF r1(2)] obtain r2 where "foldM (\<lambda>r (c, u). svm_ApplyIncUnsafe c u r) r1 us = Inr r2"
      "svm_inv r2" "svm_val r2 = (\<lambda>c. svm_val r1 c + upd_sum us c)" by blast
    with r1 p show ?case by (auto simp: fun_eq_iff algebra_simps)
  qed simp
  moreover obtain r1 where "svm_ApplyBatchIncUnsafe srt us r = Inr r1" "svm_inv r1"
    "svm_val r1 = (\<lambda>c. svm_val r c + upd_sum us c)"
    using svm_batch_ok [OF assms(1), of r us] assms(2) by (auto simp: svm_inv_def)
  ultimately show ?thesis by (auto simp: fun_eq_iff svm_index_val)
qed

theorem sorted_row_batch_eq_incs_witness:
  "\<exists>r1 r2. svm_ApplyBatchIncUnsafe stable_desc [(2, 5), (1, - 8)] \<lparr>sv_entries = [(1, 8 :: int)], sv_capacity = 1\<rparr> = Inr r1 \<and>
    foldM (\<lambda>r (c, u). svm_ApplyIncUnsafe c u r) \<lparr>sv_entries = [(1, 8)], sv_capacity = 1\<rparr> [(2, 5), (1, - 8)] = Inr r2 \<and>
    svm_inv r1 \<and> svm_inv r2 \<and> svm_index r1 = svm_index r2"
  by (rule sorted_row_batch_eq_incs [OF stable.desc_sort_axioms]) (simp add: svm_inv_def svm_pre_def desc_def)

end
