(* ===== verification/Server_Oplog.thy ===== *)
theory Server_Oplog
imports Server_Proofs Sorted_Row
begin

text \<open>
  The effect of an oplog message on the server's tables: \<open>ApplyOpLog\<close> refuses a
  message out of version order and otherwise adds every update of the message to
  its row, creating rows on first use.  Together with the wire format this gives
  the end-to-end statement: what a client logged is what its servers add.
\<close>

section \<open>Table values\<close>

definition tab_ok ::
  "('r, 'v) row_ops \<Rightarrow> ('r \<Rightarrow> bool) \<Rightarrow> ('r \<Rightarrow> int \<Rightarrow> bool) \<Rightarrow> (int \<Rightarrow> int \<Rightarrow> bool) \<Rightarrow>
   ('r, 'v) server_table \<Rightarrow> bool" where
  "tab_ok ops rinv rcol colok tab \<longleftrightarrow> 0 \<le> row_capacity (st_info tab) \<and>
     (\<forall>row r. map_of (st_storage tab) row = Some r \<longrightarrow> sr_ops r = ops \<and> rinv (sr_data r) \<and>
        rcol (sr_data r) = colok (row_capacity (st_info tab)))"

definition srv_ok where
  "srv_ok ops rinv rcol colok s \<longleftrightarrow>
     (\<forall>t tab. map_of (tables s) t = Some tab \<longrightarrow> tab_ok ops rinv rcol colok tab)"

definition tval :: "('r \<Rightarrow> int \<Rightarrow> 'v::zero) \<Rightarrow> ('r, 'v) server_table \<Rightarrow> int \<Rightarrow> int \<Rightarrow> 'v" where
  "tval rval tab row c = (case map_of (st_storage tab) row of None \<Rightarrow> 0 | Some r \<Rightarrow> rval (sr_data r) c)"

definition sval :: "('r \<Rightarrow> int \<Rightarrow> 'v::zero) \<Rightarrow> ('r, 'v) server \<Rightarrow> int \<Rightarrow> int \<Rightarrow> int \<Rightarrow> 'v" where
  "sval rval s t row c = (case map_of (tables s) t of None \<Rightarrow> 0 | Some tab \<Rightarrow> tval rval tab row c)"

definition infos :: "('r, 'v) server \<Rightarrow> int \<rightharpoonup> TableInfo" where
  "infos s t = map_option st_info (map_of (tables s) t)"

text \<open>Rows of the registered class: how they are created and initialised.\<close>

locale server_rows = additive_row ops rinv rval rcol rwire
  for ops :: "('r, 'v::ab_group_add) row_ops" and rinv rval rcol rwire +
  fixes reg :: "('r, 'v) class_registry" and colok :: "int \<Rightarrow> int \<Rightarrow> bool"
  assumes create: "CreateObject reg k = Some (ops, ro_new ops)"
    and init: "0 \<le> cap \<Longrightarrow> \<exists>d. ro_Init ops cap (ro_new ops) = Inr d \<and> rinv d \<and>
      rval d = (\<lambda>_. 0) \<and> rcol d = colok cap"
begin

lemma ApplyRow_found:
  assumes "tab_ok ops rinv rcol colok tab" "map_of (st_storage tab) row = Some r"
    "\<forall>p \<in> set us. colok (row_capacity (st_info tab)) (fst p)"
  shows "\<exists>tab'. ApplyRowOpLog row us tab = Inr (True, tab') \<and> tab_ok ops rinv rcol colok tab' \<and>
    st_info tab' = st_info tab \<and>
    tval rval tab' = (tval rval tab)(row := (\<lambda>c. tval rval tab row c + upd_sum us c))"
proof -
  have r: "sr_ops r = ops" "rinv (sr_data r)" "rcol (sr_data r) = colok (row_capacity (st_info tab))"
    using assms(1,2) by (simp_all add: tab_ok_def)
  obtain d where d: "ro_ApplyBatchInc ops us (sr_data r) = Inr d" "rinv d" "rcol d = rcol (sr_data r)"
    "rval d = (\<lambda>c. rval (sr_data r) c + upd_sum us c)"
    using batch_ok [OF r(2), of us] assms(3) r(3) by auto
  let ?r = "r\<lparr>sr_data := d, sr_dirty := True\<rparr>"
  have e: "ApplyRowOpLog row us tab = Inr (True, tab\<lparr>st_storage := AList.update row ?r (st_storage tab)\<rparr>)"
    using assms(2) r(1) d(1) by (simp add: ApplyRowOpLog_def row_ApplyBatchInc_def unsafe_batch)
  have "tab_ok ops rinv rcol colok (tab\<lparr>st_storage := AList.update row ?r (st_storage tab)\<rparr>)"
    using assms(1) r d by (auto simp: tab_ok_def update_conv_fun split: if_splits)
  moreover have "tval rval (tab\<lparr>st_storage := AList.update row ?r (st_storage tab)\<rparr>) =
      (tval rval tab)(row := (\<lambda>c. tval rval tab row c + upd_sum us c))"
    using assms(2) d(4) by (auto simp: tval_def update_conv_fun fun_eq_iff)
  ultimately show ?thesis using e by auto
qed

lemma CreateRow_ok:
  assumes "tab_ok ops rinv rcol colok tab" "map_of (st_storage tab) row = None"
  shows "\<exists>r tab'. CreateRow reg row tab = Inr (r, tab') \<and> tab_ok ops rinv rcol colok tab' \<and>
    st_info tab' = st_info tab \<and> map_of (st_storage tab') row = Some r \<and> tval rval tab' = tval rval tab"
proof -
  have "0 \<le> row_capacity (st_info tab)" using assms(1) by (simp add: tab_ok_def)
  then obtain d where d: "ro_Init ops (row_capacity (st_info tab)) (ro_new ops) = Inr d" "rinv d"
    "rval d = (\<lambda>_. 0)" "rcol d = colok (row_capacity (st_info tab))" using init by blast
  let ?tab = "tab\<lparr>st_storage := AList.update row (ServerRow ops d) (st_storage tab)\<rparr>"
  have "CreateRow reg row tab = Inr (ServerRow ops d, ?tab)"
    using assms(2) d(1) by (simp add: CreateRow_def create Let_def amap_insert_def update_conv_fun)
  moreover have "tab_ok ops rinv rcol colok ?tab"
    using assms(1) d by (auto simp: tab_ok_def update_conv_fun ServerRow_def split: if_splits)
  moreover have "tval rval ?tab = tval rval tab"
    using assms(2) d(3) by (auto simp: tval_def update_conv_fun fun_eq_iff ServerRow_def)
  ultimately show ?thesis by (simp add: update_conv_fun)
qed

lemma apply_item_ok:
  assumes "srv_ok ops rinv rcol colok s" "infos s t = Some info"
    "\<forall>p \<in> set us. colok (row_capacity info) (fst p)"
  shows "\<exists>s'. apply_item reg t row us s = Inr s' \<and> srv_ok ops rinv rcol colok s' \<and> infos s' = infos s \<and>
    s' = s\<lparr>tables := tables s'\<rparr> \<and>
    sval rval s' = (sval rval s)(t := (sval rval s t)(row := (\<lambda>c. sval rval s t row c + upd_sum us c)))"
proof -
  obtain tab where tab: "map_of (tables s) t = Some tab" "st_info tab = info"
    using assms(2) by (auto simp: infos_def)
  have tok: "tab_ok ops rinv rcol colok tab" using assms(1) tab(1) by (simp add: srv_ok_def)
  have "\<exists>tab'. (rbind (ApplyRowOpLog row us tab) (\<lambda>(found, tab).
      if found then Inr tab else rbind (CreateRow reg row tab) (\<lambda>(_, tab).
        rbind (ApplyRowOpLog row us tab) (\<lambda>(_, tab). Inr tab)))) = Inr tab' \<and>
      tab_ok ops rinv rcol colok tab' \<and> st_info tab' = info \<and>
      tval rval tab' = (tval rval tab)(row := (\<lambda>c. tval rval tab row c + upd_sum us c))"
  proof (cases "map_of (st_storage tab) row")
    case None
    obtain r tab1 where c: "CreateRow reg row tab = Inr (r, tab1)" "tab_ok ops rinv rcol colok tab1"
      "st_info tab1 = st_info tab" "map_of (st_storage tab1) row = Some r" "tval rval tab1 = tval rval tab"
      using CreateRow_ok [OF tok None] by blast
    have "\<forall>p \<in> set us. colok (row_capacity (st_info tab1)) (fst p)" using assms(3) c(3) tab(2) by simp
    from ApplyRow_found [OF c(2,4) this] obtain tab2 where "ApplyRowOpLog row us tab1 = Inr (True, tab2)"
      "tab_ok ops rinv rcol colok tab2" "st_info tab2 = st_info tab1"
      "tval rval tab2 = (tval rval tab1)(row := (\<lambda>c. tval rval tab1 row c + upd_sum us c))" by blast
    moreover have "ApplyRowOpLog row us tab = Inr (False, tab)" by (simp add: ApplyRowOpLog_def None)
    ultimately show ?thesis using c tab(2) by simp
  next
    case (Some r)
    have "\<forall>p \<in> set us. colok (row_capacity (st_info tab)) (fst p)" using assms(3) tab(2) by simp
    from ApplyRow_found [OF tok Some this] tab(2) show ?thesis by auto
  qed
  then obtain tab' where t': "(rbind (ApplyRowOpLog row us tab) (\<lambda>(found, tab).
      if found then Inr tab else rbind (CreateRow reg row tab) (\<lambda>(_, tab).
        rbind (ApplyRowOpLog row us tab) (\<lambda>(_, tab). Inr tab)))) = Inr tab'"
    "tab_ok ops rinv rcol colok tab'" "st_info tab' = info"
    "tval rval tab' = (tval rval tab)(row := (\<lambda>c. tval rval tab row c + upd_sum us c))" by blast
  let ?s = "s\<lparr>tables := AList.update t tab' (tables s)\<rparr>"
  have "apply_item reg t row us s = Inr ?s"
    using tab(1) t'(1) unfolding apply_item_def
    by (cases "ApplyRowOpLog row us tab") (auto simp: split: if_splits prod.splits)
  moreover have "srv_ok ops rinv rcol colok ?s"
    using assms(1) t'(2) by (auto simp: srv_ok_def update_conv_fun split: if_splits)
  moreover have "infos ?s = infos s" using tab t'(3) by (auto simp: infos_def update_conv_fun fun_eq_iff)
  moreover have "sval rval ?s = (sval rval s)(t := (sval rval s t)(row := (\<lambda>c. sval rval s t row c + upd_sum us c)))"
    using tab(1) t'(4) by (auto simp: sval_def update_conv_fun fun_eq_iff)
  ultimately show ?thesis by auto
qed

end

section \<open>A whole message\<close>

fun ups_sum :: "(int \<times> int \<times> (int \<times> 'v::ab_group_add) list) list \<Rightarrow> int \<Rightarrow> int \<Rightarrow> int \<Rightarrow> 'v" where
  "ups_sum [] t row c = 0"
| "ups_sum ((t', row', us) # xs) t row c =
     (if t' = t \<and> row' = row then upd_sum us c else 0) + ups_sum xs t row c"

definition ups_ok :: "(int \<Rightarrow> int \<Rightarrow> bool) \<Rightarrow> (int \<rightharpoonup> TableInfo) \<Rightarrow> (int \<times> int \<times> (int \<times> 'v) list) list \<Rightarrow> bool" where
  "ups_ok colok infs ups \<longleftrightarrow> (\<forall>(t, row, us) \<in> set ups. \<exists>info. infs t = Some info \<and>
     (\<forall>p \<in> set us. colok (row_capacity info) (fst p)))"

context server_rows
begin

lemma apply_all_ok:
  "srv_ok ops rinv rcol colok s \<Longrightarrow> ups_ok colok (infos s) ups \<Longrightarrow>
   \<exists>s'. foldM (\<lambda>s (t, row, us). apply_item reg t row us s) s ups = Inr s' \<and>
     srv_ok ops rinv rcol colok s' \<and> infos s' = infos s \<and> s' = s\<lparr>tables := tables s'\<rparr> \<and>
     (\<forall>t row c. sval rval s' t row c = sval rval s t row c + ups_sum ups t row c)"
proof (induction ups arbitrary: s)
  case (Cons x ups)
  obtain t row us where x: "x = (t, row, us)" by (metis prod_cases3)
  obtain info where i: "infos s t = Some info" "\<forall>p \<in> set us. colok (row_capacity info) (fst p)"
    using Cons.prems(2) x by (auto simp: ups_ok_def)
  obtain s1 where s1: "apply_item reg t row us s = Inr s1" "srv_ok ops rinv rcol colok s1" "infos s1 = infos s"
    "s1 = s\<lparr>tables := tables s1\<rparr>"
    "sval rval s1 = (sval rval s)(t := (sval rval s t)(row := (\<lambda>c. sval rval s t row c + upd_sum us c)))"
    using apply_item_ok [OF Cons.prems(1) i] by blast
  have "ups_ok colok (infos s1) ups" using Cons.prems(2) s1(3) by (simp add: ups_ok_def)
  from Cons.IH [OF s1(2) this] obtain s' where s': "foldM (\<lambda>s (t, row, us). apply_item reg t row us s) s1 ups = Inr s'"
    "srv_ok ops rinv rcol colok s'" "infos s' = infos s1" "s' = s1\<lparr>tables := tables s'\<rparr>"
    "\<forall>t row c. sval rval s' t row c = sval rval s1 t row c + ups_sum ups t row c" by blast
  have "s' = s\<lparr>tables := tables s'\<rparr>"
    by (subst s'(4), subst s1(4)) simp
  with s' s1 x show ?case by (auto simp: algebra_simps)
qed simp

end

text \<open>The reader tells the truth about the table of an item.\<close>

lemma reader_row_table:
  "reader_row m r st = Inr (i, r') \<Longrightarrow>
   oi_table i = or_table_id r \<and> or_table_id r' = or_table_id r \<and> oi_new_table i = st"
  by (auto simp: reader_row_def rbind_eq_Inr Let_def split: if_splits)

lemma reader_loop_table:
  "reader_loop m r st = Inr (Some i, r') \<Longrightarrow>
   oi_table i = or_table_id r' \<and> (\<not> oi_new_table i \<longrightarrow> or_table_id r' = or_table_id r \<and> \<not> st)"
proof (induction m r st rule: reader_loop.induct)
  case (1 m r st)
  show ?case
  proof (cases "or_rows_left r > 0")
    case True
    then show ?thesis using "1.prems" reader_row_table
      by (subst (asm) reader_loop.simps) (auto simp: rbind_eq_Inr dest!: reader_row_table)
  next
    case False
    let ?q = "r\<lparr>or_tables_left := or_tables_left r - 1\<rparr>"
    from False "1.prems" have gt: "or_tables_left ?q > 0"
      by (subst (asm) reader_loop.simps) (auto simp: Let_def split: if_splits)
    then obtain r1 where r1: "StartNewTable m ?q = Inr r1"
      using False "1.prems" by (subst (asm) reader_loop.simps) (auto simp: Let_def split: sum.splits)
    have "reader_loop m r1 True = Inr (Some i, r')"
      using False "1.prems" gt r1 by (subst (asm) reader_loop.simps) simp
    from "1.IH" [OF False refl gt r1 this] show ?thesis by simp
  qed
qed

lemma apply_loop_eq:
  assumes "read_items n m r = Inr is" "mapM (item_updates pd m) is = Inr ups"
    "cur = None \<or> cur = Some (or_table_id r)"
  shows "apply_loop n pd reg m cur r s = foldM (\<lambda>s (t, row, us). apply_item reg t row us s) s ups"
  using assms
proof (induction n arbitrary: r "is" ups cur s)
  case (Suc n)
  obtain x r1 where nx: "OpLogReader_Next m r = Inr (x, r1)"
    using Suc.prems(1) by (auto simp: rbind_eq_Inr)
  show ?case
  proof (cases x)
    case None
    then show ?thesis using Suc.prems nx by simp
  next
    case (Some i)
    obtain is' where is': "read_items n m r1 = Inr is'" "is = i # is'"
      using Suc.prems(1) nx Some by (auto simp: rbind_eq_Inr)
    obtain u ups' where u: "item_updates pd m i = Inr u" "mapM (item_updates pd m) is' = Inr ups'" "ups = u # ups'"
      using Suc.prems(2) is'(2) by (auto simp: rbind_eq_Inr)
    have "or_tables_left r \<noteq> 0" using nx Some by (auto simp: OpLogReader_Next_def split: if_splits)
    then have "reader_loop m r False = Inr (Some i, r1)" using nx Some by (simp add: OpLogReader_Next_def)
    from reader_loop_table [OF this] have t: "oi_table i = or_table_id r1"
      "\<not> oi_new_table i \<Longrightarrow> or_table_id r1 = or_table_id r" by auto
    have cur: "(case cur of None \<Rightarrow> oi_table i | Some t \<Rightarrow> if oi_new_table i then oi_table i else t) = oi_table i"
      using Suc.prems(3) t by auto
    obtain row us where u': "u = (oi_table i, row, us)"
      using u(1) by (auto simp: item_updates_def rbind_eq_Inr)
    have IH: "apply_loop n pd reg m (Some (oi_table i)) r1 s1 = foldM (\<lambda>s (t, row, us). apply_item reg t row us s) s1 ups'" for s1
      by (rule Suc.IH [OF is'(1) u(2)]) (simp add: t(1))
    have "apply_loop n pd reg m (Some (oi_table i)) r1 =
        (\<lambda>s1. foldM (\<lambda>s (t, row, us). apply_item reg t row us s) s1 ups')"
      by (rule ext) (rule IH)
    then show ?thesis using nx Some u u' cur by (simp add: Let_def)
  qed
qed simp

section \<open>End to end\<close>

definition bg_val :: "'v::zero bg_oplog \<Rightarrow> int \<Rightarrow> int \<Rightarrow> int \<Rightarrow> 'v" where
  "bg_val bg t row c = (case map_of (bg_rows bg t) row of None \<Rightarrow> 0 | Some l \<Rightarrow> rol_val l c)"

definition bg_ok :: "(int \<times> nat) list \<Rightarrow> 'v bg_oplog \<Rightarrow> bool" where
  "bg_ok tabs bg \<longleftrightarrow> (\<forall>t \<in> set (keys tabs). amap_ok (bg_rows bg t) \<and> (\<forall>(row, l) \<in> set (bg_rows bg t). rol_ok l))"

lemma ups_sum_append: "ups_sum (xs @ ys) t row c = ups_sum xs t row c + ups_sum ys t row c"
  by (induction xs) (auto simp: algebra_simps)

lemma ups_sum_rows:
  assumes "amap_ok rows" "\<forall>(row, l) \<in> set rows. rol_ok l"
  shows "ups_sum (map (\<lambda>(row, l). (t', row, rol_oplogs l)) rows) t row c =
    (if t' = t then (case map_of rows row of None \<Rightarrow> 0 | Some l \<Rightarrow> rol_val l c) else 0)"
  using assms
proof (induction rows)
  case (Cons x rows)
  obtain row' l where x: "x = (row', l)" by force
  have "row' \<notin> set (keys rows)" using Cons.prems(1) x by (simp add: amap_ok_def)
  then have "map_of rows row' = None" by (simp add: map_of_eq_None_iff)
  moreover have "upd_sum (rol_oplogs l) c = rol_val l c"
    using Cons.prems(2) x by (simp add: upd_sum_osorted rol_ok_def rol_val_def)
  moreover have "amap_ok rows" using Cons.prems(1) by (simp add: amap_ok_def)
  ultimately show ?case using Cons x by auto
qed simp

lemma map_of_filter_key:
  "map_of (filter (\<lambda>p. Q (fst p)) m) k = (if Q k then map_of m k else None)"
  by (induction m) auto

lemma ups_sum_server_updates:
  assumes "distinct (keys tabs)" "bg_ok tabs bg"
  shows "ups_sum (server_updates g tabs bg sid) t row c =
    (if t \<in> set (keys tabs) \<and> GetRowPartitionServerID g t row = Inr sid then bg_val bg t row c else 0)"
  using assms
proof (induction tabs)
  case Nil
  then show ?case by (simp add: server_updates_def)
next
  case (Cons x tabs)
  obtain t' us where x: "x = (t', us)" by force
  let ?rows = "rows_for g t' sid (bg_rows bg t')"
  have ok: "amap_ok ?rows" "\<forall>(row, l) \<in> set ?rows. rol_ok l"
    using Cons.prems(2) x by (auto simp: bg_ok_def amap_ok_def rows_for_def distinct_map_filter)
  have "ups_sum (server_updates g (x # tabs) bg sid) t row c =
      ups_sum (map (\<lambda>(row, l). (t', row, rol_oplogs l)) ?rows) t row c + ups_sum (server_updates g tabs bg sid) t row c"
    by (simp add: server_updates_def x ups_sum_append)
  also have "ups_sum (map (\<lambda>(row, l). (t', row, rol_oplogs l)) ?rows) t row c =
      (if t' = t \<and> GetRowPartitionServerID g t row = Inr sid then bg_val bg t row c else 0)"
    unfolding ups_sum_rows [OF ok]
    unfolding rows_for_def map_of_filter_key [of "\<lambda>r. GetRowPartitionServerID g t' r = Inr sid"]
    by (auto simp: bg_val_def)
  also have "ups_sum (server_updates g tabs bg sid) t row c =
      (if t \<in> set (keys tabs) \<and> GetRowPartitionServerID g t row = Inr sid then bg_val bg t row c else 0)"
    using Cons.IH Cons.prems by (simp add: bg_ok_def)
  finally show ?case using Cons.prems(1) x by auto
qed

lemma ApplyOpLog_msg:
  assumes law: "server_rows ops rinv rval rcol rwire reg colok"
    and rd: "read_all fuel m \<lparr>or_update_size = 0, or_offset = 0, or_tables_left = 0, or_table_id = 0, or_rows_left = 0\<rparr> = Inr is"
      "mapM (item_updates pd m) is = Inr ups"
    and s: "srv_ok ops rinv rcol colok s" "ups_ok colok (infos s) ups" "map_of (bg_version_map s) b = Some ver"
  shows "\<exists>s'. ApplyOpLog fuel pd reg m b (ver + 1) s = Inr s' \<and> srv_ok ops rinv rcol colok s' \<and>
    infos s' = infos s \<and> bg_version_map s' = oupd b (ver + 1) (bg_version_map s) \<and>
    client_clocks s' = client_clocks s \<and>
    (\<forall>t row c. sval rval s' t row c = sval rval s t row c + ups_sum ups t row c)"
proof -
  let ?s = "s\<lparr>bg_version_map := oupd b (ver + 1) (bg_version_map s)\<rparr>"
  let ?q = "\<lparr>or_update_size = 0, or_offset = 0, or_tables_left = 0, or_table_id = 0, or_rows_left = 0\<rparr>"
  have same: "srv_ok ops rinv rcol colok ?s" "infos ?s = infos s" "sval rval ?s = sval rval s"
    using s(1) by (simp_all add: srv_ok_def infos_def sval_def fun_eq_iff)
  obtain s' where s': "foldM (\<lambda>s (t, row, us). apply_item reg t row us s) ?s ups = Inr s'"
    "srv_ok ops rinv rcol colok s'" "infos s' = infos ?s" "s' = ?s\<lparr>tables := tables s'\<rparr>"
    "\<forall>t row c. sval rval s' t row c = sval rval ?s t row c + ups_sum ups t row c"
    using server_rows.apply_all_ok [OF law same(1)] s(2) same(2) by metis
  obtain bb r where bb: "OpLogReader_Restart m ?q = Inr (bb, r)"
    using rd(1) by (auto simp: read_all_def rbind_eq_Inr)
  have "ApplyOpLog fuel pd reg m b (ver + 1) s = Inr s'"
  proof (cases bb)
    case True
    then have "read_items fuel m r = Inr is" using rd(1) bb by (simp add: read_all_def)
    from apply_loop_eq [OF this rd(2), of None reg ?s] s'(1) show ?thesis
      using bb True s(3) by (simp add: ApplyOpLog_def Let_def)
  next
    case False
    then have "is = []" using rd(1) bb by (simp add: read_all_def)
    then have "s' = ?s" using rd(2) s'(1) by simp
    then show ?thesis using bb False s(3) by (simp add: ApplyOpLog_def Let_def)
  qed
  moreover have "bg_version_map s' = oupd b (ver + 1) (bg_version_map s)" "client_clocks s' = client_clocks s"
    by (subst s'(4), simp)+
  ultimately show ?thesis using s' same by auto
qed

text \<open>Rows of the model's own classes are such rows.\<close>

definition reg_of :: "('r, 'v) row_ops \<Rightarrow> ('r, 'v) class_registry" where
  "reg_of ops = \<lparr>cr_default = Some ops, cr_creators = []\<rparr>"

lemma sparse_server_rows:
  assumes "pod_ok p ok"
  shows "server_rows (sparse_ops p) sparse_inv sparse_index (\<lambda>_ _. True) (sparse_wire ok)
    (reg_of (sparse_ops p)) (\<lambda>_ _. True)"
  unfolding server_rows_def server_rows_axioms_def
  using sparse_additive [OF assms]
  by (simp add: CreateObject_def reg_of_def sparse_ops_def sparse_Init_def sparse_inv_def sparse_index_def fun_eq_iff)

lemma dense_server_rows:
  assumes "pod_ok p ok"
  shows "server_rows (dense_ops p) dense_inv dense_val dense_col (dense_wire ok)
    (reg_of (dense_ops p)) (\<lambda>cap c. 0 \<le> c \<and> c < cap)"
  unfolding server_rows_def server_rows_axioms_def
  using dense_additive [OF assms]
  by (auto simp: CreateObject_def reg_of_def dense_ops_def dense_Init_def dense_new_def vec_resize_def
      dense_inv_def dense_val_def dense_col_def fun_eq_iff)

interpretation sparse_srv: server_rows "sparse_ops i32_pod" sparse_inv sparse_index "\<lambda>_ _. True"
  "sparse_wire is_i32" "reg_of (sparse_ops i32_pod)" "\<lambda>_ _. True"
  by (rule sparse_server_rows [OF i32_pod_ok])

interpretation dense_srv: server_rows "dense_ops i32_pod" dense_inv dense_val dense_col
  "dense_wire is_i32" "reg_of (dense_ops i32_pod)" "\<lambda>cap c. 0 \<le> c \<and> c < cap"
  by (rule dense_server_rows [OF i32_pod_ok])

text \<open>The image of a message, applied by its server.\<close>

lemma msg_img_applied:
  assumes law: "server_rows ops rinv rval rcol rwire reg colok"
    and wire: "pod_ok pd ok" "sizes_ok pd g tabs sizes bg" "bg_wire ok tabs bg" "bg_ok tabs bg"
      "length (msg_img pd g tabs bg sid) < 2 ^ 31"
    and fuel: "length (server_updates g tabs bg sid) < fuel"
    and s: "srv_ok ops rinv rcol colok s" "ups_ok colok (infos s) (server_updates g tabs bg sid)"
      "map_of (bg_version_map s) b = Some ver"
  shows "\<exists>s'. ApplyOpLog fuel pd reg (msg_img pd g tabs bg sid) b (ver + 1) s = Inr s' \<and> srv_ok ops rinv rcol colok s' \<and>
    map_of (bg_version_map s') b = Some (ver + 1) \<and>
    (\<forall>t row c. sval rval s' t row c = sval rval s t row c +
       (if t \<in> set (keys tabs) \<and> GetRowPartitionServerID g t row = Inr sid then bg_val bg t row c else 0))"
proof -
  from read_msg [OF wire(1-3,5) fuel] obtain "is" where
    "read_all fuel (msg_img pd g tabs bg sid) \<lparr>or_update_size = 0, or_offset = 0, or_tables_left = 0, or_table_id = 0, or_rows_left = 0\<rparr> = Inr is"
    "mapM (item_updates pd (msg_img pd g tabs bg sid)) is = Inr (server_updates g tabs bg sid)" by blast
  from ApplyOpLog_msg [OF law this s] obtain s' where
    "ApplyOpLog fuel pd reg (msg_img pd g tabs bg sid) b (ver + 1) s = Inr s'" "srv_ok ops rinv rcol colok s'"
    "bg_version_map s' = oupd b (ver + 1) (bg_version_map s)"
    "\<forall>t row c. sval rval s' t row c = sval rval s t row c + ups_sum (server_updates g tabs bg sid) t row c" by blast
  moreover have "distinct (keys tabs)" using wire(2) osorted_distinct unfolding sizes_ok_def by blast
  ultimately show ?thesis using ups_sum_server_updates [OF _ wire(4)] by (auto simp: map_of_oupd)
qed

section \<open>Properties\<close>

text \<open>
  C7. End to end, what a client logged is what its servers add: the message that
  \<open>CreateOpLogMsgs\<close> builds for a server, applied by \<open>ApplyOpLog\<close> with the next version
  number, adds to every entry of a row the server owns exactly the logged update, leaves
  every other entry alone, and records the version.
\<close>

theorem oplog_end_to_end:
  assumes law: "server_rows ops rinv rval rcol rwire reg colok"
    and wire: "pod_ok pd ok" "ctx_ok g" "sizes_ok pd g tabs sizes bg" "bg_wire ok tabs bg" "bg_ok tabs bg"
      "\<forall>n. length (alloc n) = n" "sid \<in> set (server_ids g)"
    and fuel: "length (server_updates g tabs bg sid) < fuel"
    and s: "srv_ok ops rinv rcol colok s" "ups_ok colok (infos s) (server_updates g tabs bg sid)"
      "map_of (bg_version_map s) b = Some ver"
  shows "\<exists>ms m s'. CreateOpLogMsgs pd g tabs alloc sizes bg = Inr ms \<and> map_of ms sid = Some m \<and>
    ApplyOpLog fuel pd reg m b (ver + 1) s = Inr s' \<and> srv_ok ops rinv rcol colok s' \<and>
    map_of (bg_version_map s') b = Some (ver + 1) \<and>
    (\<forall>t row c. sval rval s' t row c = sval rval s t row c +
       (if t \<in> set (keys tabs) \<and> GetRowPartitionServerID g t row = Inr sid then bg_val bg t row c else 0))"
proof -
  obtain ms where ms: "CreateOpLogMsgs pd g tabs alloc sizes bg = Inr ms"
    "map_of ms sid = Some (msg_img pd g tabs bg sid)" "length (msg_img pd g tabs bg sid) < 2 ^ 31"
    using CreateOpLogMsgs_ok [OF wire(1-3,6)] wire(7) by blast
  from msg_img_applied [OF law wire(1,3-5) ms(3) fuel s] ms(1,2) show ?thesis by blast
qed

definition demo_server :: "(int sparse_row, int) server" where
  "demo_server = Server_new\<lparr>tables := [(0, ServerTable \<lparr>table_staleness = 0, row_type = 0, row_capacity = 0\<rparr>)],
     bg_version_map := [(100, - 1)]\<rparr>"

lemma demo_sizes_ok: "sizes_ok i32_pod demo_ctx [(0, 4)] [(1, [(0, 28)]), (2, [(0, 28)])] demo_bg"
proof -
  have part: "GetRowPartitionServerID demo_ctx 0 5 = Inr 2" "GetRowPartitionServerID demo_ctx 0 4 = Inr 1"
    using GetRowPartitionServerID_eq [OF demo_ctx_ok] by (simp_all add: demo_ctx_def GlobalContext_Init_def)
  show ?thesis
    by (auto simp: sizes_ok_def demo_ctx_def [unfolded GlobalContext_Init_def] is_i32_def is_size_def i32_pod_def
        demo_bg_def rows_img_def rows_for_def part [unfolded demo_ctx_def GlobalContext_Init_def]
        row_img_def demo_row_def RowOpLog_GetSize_def msg_size_def)
qed

theorem oplog_end_to_end_witness:
  "\<exists>ms m s'. CreateOpLogMsgs i32_pod demo_ctx [(0, 4)] (\<lambda>n. replicate n 0) [(1, [(0, 28)]), (2, [(0, 28)])] demo_bg = Inr ms \<and>
    map_of ms 2 = Some m \<and> ApplyOpLog 2 i32_pod (reg_of (sparse_ops i32_pod)) m 100 (- 1 + 1) demo_server = Inr s' \<and>
    srv_ok (sparse_ops i32_pod) sparse_inv (\<lambda>_ _. True) (\<lambda>_ _. True) s' \<and>
    map_of (bg_version_map s') 100 = Some (- 1 + 1) \<and>
    (\<forall>t row c. sval sparse_index s' t row c = sval sparse_index demo_server t row c +
       (if t \<in> set (keys [(0, 4 :: nat)]) \<and> GetRowPartitionServerID demo_ctx t row = Inr 2 then bg_val demo_bg t row c else 0))"
proof (rule oplog_end_to_end [OF sparse_srv.server_rows_axioms i32_pod_ok demo_ctx_ok demo_sizes_ok])
  have part: "GetRowPartitionServerID demo_ctx 0 5 = Inr 2" "GetRowPartitionServerID demo_ctx 0 4 = Inr 1"
    using GetRowPartitionServerID_eq [OF demo_ctx_ok] by (simp_all add: demo_ctx_def GlobalContext_Init_def)
  have up: "server_updates demo_ctx [(0, 4)] demo_bg 2 = [(0, 5, [(0, 5), (3, - 1)])]"
    by (simp add: server_updates_def bg_rows_def demo_bg_def rows_for_def part demo_row_def)
  show "bg_wire is_i32 [(0, 4)] demo_bg"
    by (auto simp: bg_wire_def bg_rows_def demo_bg_def row_wire_def demo_row_def is_i32_def RowOpLog_GetSize_def)
  show "bg_ok [(0, 4)] demo_bg"
    by (simp add: bg_ok_def bg_rows_def demo_bg_def amap_ok_def rol_ok_def demo_row_def)
  show "length (server_updates demo_ctx [(0, 4)] demo_bg 2) < 2" by (simp add: up)
  show "ups_ok (\<lambda>_ _. True) (infos demo_server) (server_updates demo_ctx [(0, 4)] demo_bg 2)"
    by (simp add: up ups_ok_def infos_def demo_server_def)
  show "srv_ok (sparse_ops i32_pod) sparse_inv (\<lambda>_ _. True) (\<lambda>_ _. True) demo_server"
    by (simp add: srv_ok_def demo_server_def tab_ok_def ServerTable_def)
qed (simp_all add: demo_ctx_def GlobalContext_Init_def demo_server_def)

text \<open>
  C30. The versions of a background thread are consecutive modulo \<open>2^32\<close>: a message whose
  version is not the successor of the last one is refused by the check, and a
  message is never applied without recording its version.
\<close>

theorem oplog_version_order:
  assumes "map_of (bg_version_map s) b = Some ver"
  shows "(version \<noteq> ver + 1 \<longrightarrow> ApplyOpLog fuel pd reg m b version s =
      Inl (CheckFailed ''bg_version_map_[bg_thread_id] + 1 == version'')) \<and>
    (\<forall>s'. ApplyOpLog fuel pd reg m b version s = Inr s' \<longrightarrow>
       version = ver + 1 \<and> map_of (bg_version_map s') b = Some version)"
proof -
  have item: "bg_version_map s2 = bg_version_map s1" if "apply_item reg t row us s1 = Inr s2" for t row us s1 s2
    using that by (auto simp: apply_item_def rbind_eq_Inr)
  have loop: "bg_version_map s2 = bg_version_map s1" if "apply_loop n pd reg m cur r s1 = Inr s2" for n cur r s1 s2
    using that
  proof (induction n arbitrary: cur r s1)
    case (Suc n)
    then show ?case by (fastforce simp: rbind_eq_Inr Let_def split: option.splits dest: item)
  qed simp
  show ?thesis
    using assms by (auto simp: ApplyOpLog_def Let_def rbind_eq_Inr check_def map_of_oupd split: if_splits dest: loop)
qed

theorem oplog_version_order_witness:
  "ApplyOpLog 2 i32_pod (reg_of (sparse_ops i32_pod)) [] 100 7 demo_server =
    Inl (CheckFailed ''bg_version_map_[bg_thread_id] + 1 == version'')"
  using oplog_version_order [of demo_server 100 "- 1" 7 2 i32_pod "reg_of (sparse_ops i32_pod)" "[]"]
  by (simp add: demo_server_def)

text \<open>
  C20. The server clock: after any connection order, initialisation and any sequence of
  clock messages of registered background threads, \<open>GetMinClock\<close> is the minimum
  of the background threads' clocks and is reached by one of them; \<open>Clock\<close> returns true
  exactly when that minimum has advanced, and it advances by one.
\<close>

theorem server_clock_min:
  assumes "clocks_ok s" "bg_clock s client bg = Some v"
    and "Server_Clock ldb junk g client bg s w = Inr (b, s', w')"
  shows "clocks_ok s' \<and> bg_clock s' = (bg_clock s)(client := (bg_clock s client)(bg \<mapsto> v + 1)) \<and>
    b = (GetMinClock s' = GetMinClock s + 1) \<and> (\<not> b \<longrightarrow> GetMinClock s' = GetMinClock s) \<and>
    (\<forall>c j x. bg_clock s' c j = Some x \<longrightarrow> GetMinClock s' \<le> x) \<and>
    (\<exists>c j. bg_clock s' c j = Some (GetMinClock s'))"
proof -
  note st = clock_step_ok [OF assms(1,2) Server_Clock_step [OF assms(3)]]
  have "bg_clock s' client bg = Some (v + 1)" using st(2) by simp
  then have "client_vector_clock_map s' \<noteq> []" by (auto simp: bg_clock_def)
  with st bg_clock_min [OF st(1)] bg_clock_min_attained [OF st(1)] show ?thesis by auto
qed

definition demo_clock_server :: "(int sparse_row, int) server" where
  "demo_clock_server = Server_Init 1 (fold (\<lambda>(c, b). AddClientBgPair c b) [(0, 100), (1, 1100)] Server_new)"

definition null_leveldb :: "unit leveldb" where
  "null_leveldb = \<lparr>ld_Put = (\<lambda>_ _ _ w. w), ld_list = (\<lambda>_ _. [])\<rparr>"

theorem server_clock_min_witness:
  "\<exists>b s'. Server_Clock null_leveldb (\<lambda>n. replicate n 0) demo_ctx 0 100 demo_clock_server () = Inr (b, s', ()) \<and>
     clocks_ok s' \<and> bg_clock s' 0 100 = Some 1"
proof -
  have ok: "clocks_ok demo_clock_server"
    unfolding demo_clock_server_def by (intro Init_clocks_ok(1) fresh_fold fresh_Server_new)
  have z: "bg_clock demo_clock_server 0 100 = Some 0"
    unfolding demo_clock_server_def
    by (rule Init_clocks_ok(3) [OF fresh_fold [OF fresh_Server_new], rule_format, where bgs = "[100]"])
      (simp add: AddClientBgPair_def Server_new_def)
  obtain b s' where st: "clock_step 0 100 demo_clock_server = (b, s')" by force
  then have "Server_Clock null_leveldb (\<lambda>n. replicate n 0) demo_ctx 0 100 demo_clock_server () = Inr (b, s', ())"
    by (simp add: Server_Clock_no_snapshot demo_ctx_def GlobalContext_Init_def)
  with server_clock_min [OF ok z this] show ?thesis by auto
qed

end
