(* ===== verification/Server_Thread.thy ===== *)
theory Server_Thread
imports Server_Push Server_Oplog
begin

text \<open>
  The server thread (petuum_ps/server/server_threads.cpp): the handlers of its
  messages and its main loop.  A message is the constructor of its type with
  the fields the handlers read; what a handler sends is a list of receivers
  and messages.  The messages a thread receives, in their order, are the
  argument of the main loop; the communication bus itself is not modelled.
\<close>

section \<open>Messages\<close>

datatype srv_msg =
    ClientConnectMsg int
  | ServerConnectMsg
  | ClientShutDownMsg
  | CreateTableMsg int TableInfo
  | CreateTableReplyMsg int
  | RowRequestMsg int int int
  | ClientSendOpLogMsg int bool "32 word" bytes

datatype out_msg =
    ClientStartMsg
  | OutServerConnect
  | ConnectServerMsg
  | ServerShutDownAckMsg
  | OutCreateTable int TableInfo
  | OutCreateTableReply int
  | CreatedAllTablesMsg
  | ServerRowRequestReplyMsg int int int "32 word" bytes
  | ServerPushRowMsg "32 word" "int option" bytes

type_synonym outs = "(int \<times> out_msg) list"

section \<open>State\<close>

record ('r, 'v) server_context =
  bg_thread_ids :: "int list"
  server_obj :: "('r, 'v) server"
  num_shutdown_bgs :: int

definition SetUpServerContext :: "global_context \<Rightarrow> ('r, 'v) server_context" where
  "SetUpServerContext g =
     \<lparr>bg_thread_ids = replicate (nat (num_total_bg_threads g)) 0, server_obj = Server_new, num_shutdown_bgs = 0\<rparr>"

definition SendToAllBgThreads :: "global_context \<Rightarrow> out_msg \<Rightarrow> int list \<Rightarrow> outs result" where
  "SendToAllBgThreads g m ids =
     mapM (\<lambda>i. rbind (vec_at ids i) (\<lambda>bg. Inr (bg, m))) [0..num_total_bg_threads g - 1]"

definition GetConnection :: "int \<times> srv_msg \<Rightarrow> (int option \<times> int) result" where
  "GetConnection sm =
     (case sm of
        (sender, ClientConnectMsg client) \<Rightarrow> Inr (Some client, sender)
      | (sender, m) \<Rightarrow> rbind (check (m = ServerConnectMsg) ''msg_type == kServerConnect'') (\<lambda>_. Inr (None, sender)))"

text \<open>One connection: the client announces the background thread, which is entered in both places.\<close>

definition connect_bg ::
  "('r, 'v) server_context \<Rightarrow> nat \<times> int \<times> srv_msg \<Rightarrow> ('r, 'v) server_context result" where
  "connect_bg c im =
     (case im of (i, sm) \<Rightarrow>
      rbind (GetConnection sm) (\<lambda>(cl, bg).
      rbind (of_option (CheckFailed ''is_client'') cl) (\<lambda>client.
      rbind (vec_at (bg_thread_ids c) (int i)) (\<lambda>_.
      Inr (c\<lparr>bg_thread_ids := (bg_thread_ids c)[i := bg],
             server_obj := AddClientBgPair client bg (server_obj c)\<rparr>)))))"

definition ConnectToNameNode :: outs where
  "ConnectToNameNode = [(get_name_node_id, OutServerConnect)]"

text \<open>
  The first messages are the connections, one per background thread of the
  system; the result holds the messages left. With too few of them the thread
  waits in \<open>GetConnection\<close>.
\<close>

definition InitServer ::
  "global_context \<Rightarrow> int \<Rightarrow> (int \<times> srv_msg) list \<Rightarrow> ('r, 'v) server_context \<Rightarrow>
   (outs \<times> ('r, 'v) server_context \<times> (int \<times> srv_msg) list) result" where
  "InitServer g sid msgs c =
     (let n = nat (num_total_bg_threads g) in
      rbind (foldM connect_bg c (enumerate 0 (take n msgs))) (\<lambda>c.
      if length msgs < n then Inl (Blocked ''GetConnection'')
      else
        let c = c\<lparr>server_obj := Server_Init sid (server_obj c)\<rparr> in
        rbind (SendToAllBgThreads g ClientStartMsg (bg_thread_ids c)) (\<lambda>os.
        Inr (ConnectToNameNode @ os, c, drop n msgs))))"

section \<open>Handlers\<close>

definition HandleShutDownMsg ::
  "global_context \<Rightarrow> ('r, 'v) server_context \<Rightarrow> (bool \<times> outs \<times> ('r, 'v) server_context) result" where
  "HandleShutDownMsg g c =
     (let c = c\<lparr>num_shutdown_bgs := num_shutdown_bgs c + 1\<rparr> in
      if num_shutdown_bgs c = num_total_bg_threads g
      then rbind (SendToAllBgThreads g ServerShutDownAckMsg (bg_thread_ids c)) (\<lambda>os. Inr (True, os, c))
      else Inr (False, [], c))"

definition HandleCreateTable ::
  "'w leveldb \<Rightarrow> ('r, 'v) class_registry \<Rightarrow> global_context \<Rightarrow> 'w \<Rightarrow> int \<Rightarrow> int \<Rightarrow> TableInfo \<Rightarrow>
   ('r, 'v) server \<Rightarrow> (outs \<times> ('r, 'v) server) result" where
  "HandleCreateTable ldb reg g w sender t info s =
     rbind (CreateTable ldb reg g w t info s) (\<lambda>s. Inr ([(sender, OutCreateTableReply t)], s))"

text \<open>The subscription of the consistency model: nothing under SSP, a subscription under SSPPush.\<close>

definition RowSubscribe ::
  "global_context \<Rightarrow> int \<Rightarrow> ('r, 'v) server_row \<Rightarrow> ('r, 'v) server_row result" where
  "RowSubscribe g client r =
     (case consistency_model g of
        SSP \<Rightarrow> Inr r
      | SSPPush \<Rightarrow> row_Subscribe client r
      | _ \<Rightarrow> Inl (Fatal ''Unrecognized consistency model''))"

definition store_row :: "int \<Rightarrow> int \<Rightarrow> ('r, 'v) server_row \<Rightarrow> ('r, 'v) server \<Rightarrow> ('r, 'v) server result" where
  "store_row t row r s =
     rbind (of_option (Undefined ''tables_'') (map_of (tables s) t)) (\<lambda>tab.
     Inr (s\<lparr>tables := AList.update t (tab\<lparr>st_storage := AList.update row r (st_storage tab)\<rparr>) (tables s)\<rparr>))"

text \<open>The row is serialized into a message that was allocated with the announced size.\<close>

definition ReplyRowRequest ::
  "int \<Rightarrow> ('r, 'v) server_row \<Rightarrow> int \<Rightarrow> int \<Rightarrow> int \<Rightarrow> 32 word \<Rightarrow> outs result" where
  "ReplyRowRequest bg r t row clock version =
     rbind (mem_write (replicate (row_SerializedSize r) 0) 0 (row_Serialize r)) (\<lambda>m.
     Inr [(bg, ServerRowRequestReplyMsg t row clock version (take (length (row_Serialize r)) m))])"

text \<open>A request that can be answered: version, row, subscription, reply with the server's clock.\<close>

definition answer_request ::
  "('r, 'v) class_registry \<Rightarrow> global_context \<Rightarrow> int \<Rightarrow> int \<Rightarrow> int \<Rightarrow> ('r, 'v) server \<Rightarrow> (outs \<times> ('r, 'v) server) result" where
  "answer_request reg g bg t row s =
     (let (version, s) = GetBgVersion bg s in
      rbind (FindCreateRow reg t row s) (\<lambda>(r, s).
      rbind (RowSubscribe g (thread_id_to_client_id bg) r) (\<lambda>r.
      rbind (store_row t row r s) (\<lambda>s.
      rbind (ReplyRowRequest bg r t row (GetMinClock s) version) (\<lambda>os. Inr (os, s))))))"

definition HandleRowRequest ::
  "('r, 'v) class_registry \<Rightarrow> global_context \<Rightarrow> int \<Rightarrow> int \<Rightarrow> int \<Rightarrow> int \<Rightarrow>
   ('r, 'v) server \<Rightarrow> (outs \<times> ('r, 'v) server) result" where
  "HandleRowRequest reg g sender t row clock s =
     (if GetMinClock s < clock then Inr ([], AddRowRequest sender t row clock s)
      else answer_request reg g sender t row s)"

text \<open>\<open>PushMsgSend\<close>: version, and with the last message the clock.\<close>

definition SendServerPushRowMsg :: "outs \<times> ('r, 'v) server \<Rightarrow> push_call \<Rightarrow> outs \<times> ('r, 'v) server" where
  "SendServerPushRowMsg st pc =
     (case st of (os, s) \<Rightarrow>
      let (version, s) = GetBgVersion (pc_bg pc) s in
      (os @ [(pc_bg pc, ServerPushRowMsg version (if pc_last pc then Some (GetMinClock s) else None) (pc_data pc))], s))"

definition SSPPushServerPushRow ::
  "nat \<Rightarrow> global_context \<Rightarrow> (nat \<Rightarrow> bytes) \<Rightarrow> ('r, 'v) server \<Rightarrow> (outs \<times> ('r, 'v) server) result" where
  "SSPPushServerPushRow fuel g junk s =
     rbind (CreateSendServerPushRowMsgs fuel g junk s) (\<lambda>(calls, s).
     Inr (foldl SendServerPushRowMsg ([], s) calls))"

definition ServerPushRow ::
  "nat \<Rightarrow> global_context \<Rightarrow> (nat \<Rightarrow> bytes) \<Rightarrow> ('r, 'v) server \<Rightarrow> (outs \<times> ('r, 'v) server) result" where
  "ServerPushRow fuel g junk s =
     (case consistency_model g of
        SSP \<Rightarrow> Inr ([], s)
      | SSPPush \<Rightarrow> SSPPushServerPushRow fuel g junk s
      | _ \<Rightarrow> Inl (Fatal ''Unrecognized consistency model''))"

text \<open>
  The surroundings of the handlers: fuel for the loops over a message, element
  type, row classes, LevelDB and its files, fresh memory.
\<close>

record ('r, 'v, 'w) srv_env =
  se_fuel :: nat
  se_pod :: "'v pod"
  se_reg :: "('r, 'v) class_registry"
  se_ldb :: "'w leveldb"
  se_junk :: "nat \<Rightarrow> bytes"

definition answer_all ::
  "('r, 'v) class_registry \<Rightarrow> global_context \<Rightarrow> server_row_request list \<Rightarrow> ('r, 'v) server \<Rightarrow> (outs \<times> ('r, 'v) server) result" where
  "answer_all reg g rqs s =
     foldM (\<lambda>(os, s) rq.
       rbind (answer_request reg g (rq_bg_id rq) (rq_table_id rq) (rq_row_id rq) s) (\<lambda>(os', s). Inr (os @ os', s))) ([], s) rqs"

definition HandleOpLogMsg ::
  "('r, 'v, 'w) srv_env \<Rightarrow> global_context \<Rightarrow> int \<Rightarrow> int \<Rightarrow> bool \<Rightarrow> 32 word \<Rightarrow> bytes \<Rightarrow>
   ('r, 'v) server \<Rightarrow> 'w \<Rightarrow> (outs \<times> ('r, 'v) server \<times> 'w) result" where
  "HandleOpLogMsg e g sender client is_clock version data s w =
     rbind (ApplyOpLog (se_fuel e) (se_pod e) (se_reg e) data sender version s) (\<lambda>s.
     if is_clock then
       rbind (Server_Clock (se_ldb e) (se_junk e) g client sender s w) (\<lambda>(changed, s, w).
       if changed then
         let (rqs, s) = GetFulfilledRowRequests s in
         rbind (answer_all (se_reg e) g rqs s) (\<lambda>(os, s).
         rbind (ServerPushRow (se_fuel e) g (se_junk e) s) (\<lambda>(os', s). Inr (os @ os', s, w)))
       else Inr ([], s, w))
     else Inr ([], s, w))"

section \<open>Main loop\<close>

text \<open>One message; the first component tells whether the thread ends.\<close>

definition server_handle ::
  "('r, 'v, 'w) srv_env \<Rightarrow> global_context \<Rightarrow> int \<times> srv_msg \<Rightarrow> ('r, 'v) server_context \<times> 'w \<Rightarrow>
   (bool \<times> outs \<times> ('r, 'v) server_context \<times> 'w) result" where
  "server_handle e g sm cw =
     (case cw of (c, w) \<Rightarrow> case sm of (sender, m) \<Rightarrow>
      (case m of
         ClientShutDownMsg \<Rightarrow> rbind (HandleShutDownMsg g c) (\<lambda>(b, os, c). Inr (b, os, c, w))
       | CreateTableMsg t info \<Rightarrow>
           rbind (HandleCreateTable (se_ldb e) (se_reg e) g w sender t info (server_obj c)) (\<lambda>(os, s).
           Inr (False, os, c\<lparr>server_obj := s\<rparr>, w))
       | RowRequestMsg t row clock \<Rightarrow>
           rbind (HandleRowRequest (se_reg e) g sender t row clock (server_obj c)) (\<lambda>(os, s).
           Inr (False, os, c\<lparr>server_obj := s\<rparr>, w))
       | ClientSendOpLogMsg client is_clock version data \<Rightarrow>
           rbind (HandleOpLogMsg e g sender client is_clock version data (server_obj c) w) (\<lambda>(os, s, w).
           Inr (False, os, c\<lparr>server_obj := s\<rparr>, w))
       | _ \<Rightarrow> Inl (Fatal ''Unrecognized message type'')))"

fun server_loop ::
  "('r, 'v, 'w) srv_env \<Rightarrow> global_context \<Rightarrow> (int \<times> srv_msg) list \<Rightarrow> ('r, 'v) server_context \<times> 'w \<Rightarrow>
   (outs \<times> ('r, 'v) server_context \<times> 'w) result" where
  "server_loop e g [] cw = Inr ([], cw)"
| "server_loop e g (sm # sms) cw =
     rbind (server_handle e g sm cw) (\<lambda>(stop, os, cw).
     if stop then Inr (os, cw)
     else rbind (server_loop e g sms cw) (\<lambda>(os', cw). Inr (os @ os', cw)))"

definition ServerThreadMain ::
  "('r, 'v, 'w) srv_env \<Rightarrow> global_context \<Rightarrow> int \<Rightarrow> (int \<times> srv_msg) list \<Rightarrow> 'w \<Rightarrow>
   (outs \<times> ('r, 'v) server_context \<times> 'w) result" where
  "ServerThreadMain e g my_id msgs w =
     rbind (InitServer g my_id msgs (SetUpServerContext g)) (\<lambda>(os, c, msgs).
     rbind (server_loop e g msgs (c, w)) (\<lambda>(os', cw). Inr (os @ os', cw)))"

end
