(* ===== verification/Server_Thread_Proofs.thy ===== *)
theory Server_Thread_Proofs
imports Server_Thread
begin

text \<open>
  Row requests at the server thread: over any sequence of messages every request
  is answered exactly once, not before the server clock has reached the
  clock it asks for, and as soon as it has.
\<close>

section \<open>What the operations leave alone\<close>

definition same_clocks :: "('r, 'v) server \<Rightarrow> ('r, 'v) server \<Rightarrow> bool" where
  "same_clocks s s' \<longleftrightarrow> client_clocks s' = client_clocks s \<and>
     client_vector_clock_map s' = client_vector_clock_map s \<and> clock_bg_row_requests s' = clock_bg_row_requests s"

lemma same_clocks_refl [simp]: "same_clocks s s"
  by (simp add: same_clocks_def)

lemma same_clocks_trans: "same_clocks s s1 \<Longrightarrow> same_clocks s1 s2 \<Longrightarrow> same_clocks s s2"
  by (simp add: same_clocks_def)

lemma same_clocks_transfer:
  assumes "same_clocks s s'"
  shows "GetMinClock s' = GetMinClock s" "bg_clock s' = bg_clock s" "clocks_ok s' = clocks_ok s"
    "pending s' = pending s" "requests_ok s' = requests_ok s"
  using assms by (simp_all add: same_clocks_def GetMinClock_def bg_clock_def clocks_ok_def pending_def requests_ok_def fun_eq_iff)

named_theorems clock_frame \<open>operations that keep clocks and pending requests\<close>

lemma GetBgVersion_frame [clock_frame]: "GetBgVersion bg s = (v, s') \<Longrightarrow> same_clocks s s'"
  by (auto simp: GetBgVersion_def same_clocks_def split: option.splits)

lemma FindCreateRow_frame [clock_frame]: "FindCreateRow reg t row s = Inr (r, s') \<Longrightarrow> same_clocks s s'"
  by (auto simp: FindCreateRow_def same_clocks_def rbind_eq_Inr split: option.splits)

lemma store_row_frame [clock_frame]: "store_row t row r s = Inr s' \<Longrightarrow> same_clocks s s'"
  by (auto simp: store_row_def same_clocks_def rbind_eq_Inr)

lemma CreateTable_frame [clock_frame]: "CreateTable ldb reg g w t info s = Inr s' \<Longrightarrow> same_clocks s s'"
  by (auto simp: CreateTable_def same_clocks_def rbind_eq_Inr Let_def split: if_splits)

lemma apply_item_frame [clock_frame]: "apply_item reg t row us s = Inr s' \<Longrightarrow> same_clocks s s'"
  by (auto simp: apply_item_def same_clocks_def rbind_eq_Inr)

lemma apply_loop_frame [clock_frame]: "apply_loop n pd reg m cur r s = Inr s' \<Longrightarrow> same_clocks s s'"
proof (induction n arbitrary: cur r s)
  case (Suc n)
  then obtain x r1 where x: "OpLogReader_Next m r = Inr (x, r1)" by (auto simp: rbind_eq_Inr)
  show ?case
  proof (cases x)
    case None
    then show ?thesis using Suc.prems x by simp
  next
    case (Some i)
    then obtain t row us s1 where "apply_item reg t row us s = Inr s1" "apply_loop n pd reg m (Some t) r1 s1 = Inr s'"
      using Suc.prems x by (auto simp: rbind_eq_Inr Let_def)
    then show ?thesis using Suc.IH apply_item_frame same_clocks_trans by blast
  qed
qed simp

lemma ApplyOpLog_frame [clock_frame]:
  assumes "ApplyOpLog fuel pd reg m bg version s = Inr s'"
  shows "same_clocks s s'"
proof -
  let ?s = "s\<lparr>bg_version_map := oupd bg version (bg_version_map s)\<rparr>"
  have "s' = ?s \<or> (\<exists>r. apply_loop fuel pd reg m None r ?s = Inr s')"
    using assms by (auto simp: ApplyOpLog_def Let_def rbind_eq_Inr split: if_splits)
  moreover have "same_clocks s ?s" by (simp add: same_clocks_def)
  ultimately show ?thesis using apply_loop_frame same_clocks_trans by blast
qed

lemma SendServerPushRowMsg_frame:
  "foldl SendServerPushRowMsg (os, s) calls = (os', s') \<Longrightarrow> same_clocks s s' \<and>
   (\<exists>ps. os' = os @ ps \<and> (\<forall>p \<in> set ps. \<exists>bg v c d. p = (bg, ServerPushRowMsg v c d)))"
proof (induction calls arbitrary: os s)
  case (Cons pc calls)
  obtain v s1 where v: "GetBgVersion (pc_bg pc) s = (v, s1)" by force
  let ?p = "(pc_bg pc, ServerPushRowMsg v (if pc_last pc then Some (GetMinClock s1) else None) (pc_data pc))"
  have "SendServerPushRowMsg (os, s) pc = (os @ [?p], s1)" using v by (simp add: SendServerPushRowMsg_def)
  with Cons.prems have "foldl SendServerPushRowMsg (os @ [?p], s1) calls = (os', s')" by simp
  from Cons.IH [OF this] obtain ps where "same_clocks s1 s'" "os' = os @ ?p # ps"
    "\<forall>p \<in> set ps. \<exists>bg v c d. p = (bg, ServerPushRowMsg v c d)" by auto
  then show ?case using GetBgVersion_frame [OF v] same_clocks_trans by (intro conjI exI [of _ "?p # ps"]) auto
qed simp

section \<open>Replies\<close>

text \<open>A request without its clock, as a reply identifies it.\<close>

definition rq_key :: "server_row_request \<Rightarrow> int \<times> int \<times> int" where
  "rq_key rq = (rq_bg_id rq, rq_table_id rq, rq_row_id rq)"

fun replied :: "outs \<Rightarrow> (int \<times> int \<times> int) multiset" where
  "replied [] = {#}"
| "replied ((bg, ServerRowRequestReplyMsg t row c v d) # os) = add_mset (bg, t, row) (replied os)"
| "replied (x # os) = replied os"

lemma replied_append [simp]: "replied (os @ os') = replied os + replied os'"
  by (induction os rule: replied.induct) auto

lemma replied_other: "\<forall>p \<in> set ps. \<forall>bg t row c v d. p \<noteq> (bg, ServerRowRequestReplyMsg t row c v d) \<Longrightarrow> replied ps = {#}"
  by (induction ps rule: replied.induct) auto

lemma answer_request_spec:
  assumes "answer_request reg g bg t row s = Inr (os, s')"
  shows "same_clocks s s'" "\<exists>v d. os = [(bg, ServerRowRequestReplyMsg t row (GetMinClock s) v d)]"
proof -
  obtain v s1 r s2 r' where a: "GetBgVersion bg s = (v, s1)" "FindCreateRow reg t row s1 = Inr (r, s2)"
    "store_row t row r' s2 = Inr s'" "ReplyRowRequest bg r' t row (GetMinClock s') v = Inr os"
    using assms by (auto simp: answer_request_def rbind_eq_Inr split: prod.splits)
  have "same_clocks s s1" "same_clocks s1 s2" "same_clocks s2 s'" using a clock_frame by blast+
  then show sc: "same_clocks s s'" using same_clocks_trans by blast
  from a(4) show "\<exists>v d. os = [(bg, ServerRowRequestReplyMsg t row (GetMinClock s) v d)]"
    using same_clocks_transfer(1) [OF sc] by (auto simp: ReplyRowRequest_def rbind_eq_Inr)
qed

lemma answer_all_spec:
  assumes "answer_all reg g rqs s = Inr (os, s')"
  shows "same_clocks s s' \<and> replied os = image_mset rq_key (mset rqs) \<and>
    (\<forall>p \<in> set os. \<exists>bg t row v d. p = (bg, ServerRowRequestReplyMsg t row (GetMinClock s) v d))"
proof -
  have "same_clocks s s' \<and> (\<exists>ps. os = os0 @ ps \<and> replied ps = image_mset rq_key (mset rqs) \<and>
      (\<forall>p \<in> set ps. \<exists>bg t row v d. p = (bg, ServerRowRequestReplyMsg t row (GetMinClock s) v d)))"
    if "foldM (\<lambda>(os, s) rq. rbind (answer_request reg g (rq_bg_id rq) (rq_table_id rq) (rq_row_id rq) s)
          (\<lambda>(os', s). Inr (os @ os', s))) (os0, s) rqs = Inr (os, s')" for os0
    using that
  proof (induction rqs arbitrary: os0 s)
    case (Cons rq rqs)
    then obtain o1 s1 where s1: "answer_request reg g (rq_bg_id rq) (rq_table_id rq) (rq_row_id rq) s = Inr (o1, s1)"
      "foldM (\<lambda>(os, s) rq. rbind (answer_request reg g (rq_bg_id rq) (rq_table_id rq) (rq_row_id rq) s)
          (\<lambda>(os', s). Inr (os @ os', s))) (os0 @ o1, s1) rqs = Inr (os, s')"
      by (auto simp: rbind_eq_Inr)
    note a = answer_request_spec [OF s1(1)]
    note m = same_clocks_transfer(1) [OF a(1)]
    from Cons.IH [OF s1(2)] obtain ps where "same_clocks s1 s'" "os = (os0 @ o1) @ ps"
      "replied ps = image_mset rq_key (mset rqs)"
      "\<forall>p \<in> set ps. \<exists>bg t row v d. p = (bg, ServerRowRequestReplyMsg t row (GetMinClock s) v d)" unfolding m by blast
    moreover have "rq_key rq = (rq_bg_id rq, rq_table_id rq, rq_row_id rq)" by (simp add: rq_key_def)
    ultimately show ?case using a same_clocks_trans [OF a(1)]
      by (intro conjI exI [of _ "o1 @ ps"]) auto
  qed simp
  from this [of "[]"] assms show ?thesis by (auto simp: answer_all_def)
qed

lemma ServerPushRow_frame:
  assumes "ServerPushRow fuel g junk s = Inr (os, s')"
  shows "same_clocks s s'" "replied os = {#}"
proof -
  have "same_clocks s s' \<and> (\<forall>p \<in> set os. \<exists>bg v c d. p = (bg, ServerPushRowMsg v c d))"
  proof (cases "consistency_model g")
    case SSPPush
    then obtain calls tabs where "foldl SendServerPushRowMsg ([], s\<lparr>tables := tabs\<rparr>) calls = (os, s')"
      using assms by (auto simp: ServerPushRow_def SSPPushServerPushRow_def CreateSendServerPushRowMsgs_def rbind_eq_Inr Let_def)
    from SendServerPushRowMsg_frame [OF this] show ?thesis by (auto simp: same_clocks_def)
  qed (use assms in \<open>auto simp: ServerPushRow_def\<close>)
  then show "same_clocks s s'" "replied os = {#}" by (auto intro!: replied_other)
qed


section \<open>The invariant of the server thread\<close>

definition srv_inv :: "('r, 'v) server \<Rightarrow> bool" where
  "srv_inv s \<longleftrightarrow> clocks_ok s \<and> requests_ok s \<and> (\<forall>rq \<in># pending s. GetMinClock s < rq_clock rq)"

fun requested :: "int \<times> srv_msg \<Rightarrow> server_row_request multiset" where
  "requested (bg, RowRequestMsg t row clock) =
     {#\<lparr>rq_bg_id = bg, rq_table_id = t, rq_row_id = row, rq_clock = clock\<rparr>#}"
| "requested x = {#}"

text \<open>Clock messages come from background threads that have connected.\<close>

fun msg_known :: "('r, 'v) server \<Rightarrow> int \<times> srv_msg \<Rightarrow> bool" where
  "msg_known s (bg, ClientSendOpLogMsg client is_clock v d) = (is_clock \<longrightarrow> bg_clock s client bg \<noteq> None)"
| "msg_known s x = True"

text \<open>
  \<open>answered s s' R os\<close>: of the requests \<open>R\<close> and the pending ones exactly those that are
  no longer pending were answered, none of them before its clock.
\<close>

definition answered ::
  "('r, 'v) server \<Rightarrow> ('r, 'v) server \<Rightarrow> server_row_request multiset \<Rightarrow> outs \<Rightarrow> bool" where
  "answered s s' R os \<longleftrightarrow> (\<exists>A. R + pending s = A + pending s' \<and> replied os = image_mset rq_key A \<and>
     (\<forall>a \<in># A. rq_clock a \<le> GetMinClock s'))"

definition known_mono :: "('r, 'v) server \<Rightarrow> ('r, 'v) server \<Rightarrow> bool" where
  "known_mono s s' \<longleftrightarrow> (\<forall>c b. bg_clock s c b \<noteq> None \<longrightarrow> bg_clock s' c b \<noteq> None) \<and> GetMinClock s \<le> GetMinClock s'"

lemma srv_inv_same: "srv_inv s \<Longrightarrow> same_clocks s s' \<Longrightarrow> srv_inv s' \<and> known_mono s s'"
  by (simp add: srv_inv_def known_mono_def same_clocks_transfer)

lemma answered_same: "same_clocks s s' \<Longrightarrow> replied os = {#} \<Longrightarrow> answered s s' {#} os"
  unfolding answered_def by (intro exI [of _ "{#}"]) (simp add: same_clocks_transfer)

lemma HandleRowRequest_answers:
  assumes inv: "srv_inv s" and h: "HandleRowRequest reg g bg t row clock s = Inr (os, s')"
  shows "srv_inv s' \<and> known_mono s s' \<and> answered s s' (requested (bg, RowRequestMsg t row clock)) os"
proof (cases "GetMinClock s < clock")
  case True
  then have h': "os = []" "s' = AddRowRequest bg t row clock s" using h by (simp_all add: HandleRowRequest_def)
  have rq: "requests_ok s" using inv by (simp add: srv_inv_def)
  have cl: "GetMinClock s' = GetMinClock s" "bg_clock s' = bg_clock s" "clocks_ok s' = clocks_ok s"
    by (simp_all add: h'(2) AddRowRequest_def Let_def GetMinClock_def bg_clock_def clocks_ok_def fun_eq_iff)
  note p = AddRowRequest_pending [OF rq, of bg t row clock]
  have "srv_inv s'" using inv True p cl by (auto simp: srv_inv_def h'(2))
  moreover have "answered s s' (requested (bg, RowRequestMsg t row clock)) os"
    unfolding answered_def by (intro exI [of _ "{#}"]) (simp add: h' p(1))
  ultimately show ?thesis using cl by (simp add: known_mono_def)
next
  case False
  then have "answer_request reg g bg t row s = Inr (os, s')" using h by (simp add: HandleRowRequest_def)
  note a = answer_request_spec [OF this]
  let ?rq = "\<lparr>rq_bg_id = bg, rq_table_id = t, rq_row_id = row, rq_clock = clock\<rparr>"
  have "answered s s' (requested (bg, RowRequestMsg t row clock)) os"
    unfolding answered_def using a False
    by (intro exI [of _ "{#?rq#}"]) (auto simp: rq_key_def same_clocks_transfer)
  with srv_inv_same [OF inv a(1)] show ?thesis by blast
qed

lemma clock_step_requests:
  "clock_step client bg s = (b, s') \<Longrightarrow> clock_bg_row_requests s' = clock_bg_row_requests s"
  by (auto simp: clock_step_def Let_def split: prod.splits if_splits)

lemma GetFulfilled_clocks:
  assumes "GetFulfilledRowRequests s = (rqs, s')"
  shows "client_clocks s' = client_clocks s" "client_vector_clock_map s' = client_vector_clock_map s"
    "client_bg_map s' = client_bg_map s" "client_ids s' = client_ids s"
  using assms by (auto simp: GetFulfilledRowRequests_def Let_def split: option.splits)

text \<open>The clock advances: what becomes fulfilled is exactly what waits for the new clock.\<close>

lemma HandleOpLogMsg_answers:
  assumes inv: "srv_inv s" and known: "is_clock \<longrightarrow> bg_clock s client bg \<noteq> None"
    and h: "HandleOpLogMsg e g bg client is_clock version data s w = Inr (os, s', w')"
  shows "srv_inv s' \<and> known_mono s s' \<and> answered s s' {#} os"
proof -
  obtain s1 where s1: "ApplyOpLog (se_fuel e) (se_pod e) (se_reg e) data bg version s = Inr s1"
    using h by (auto simp: HandleOpLogMsg_def rbind_eq_Inr)
  note f1 = ApplyOpLog_frame [OF s1]
  have i1: "srv_inv s1" and k1: "known_mono s s1" using srv_inv_same [OF inv f1] by auto
  show ?thesis
  proof (cases is_clock)
    case False
    then show ?thesis using h s1 i1 k1 answered_same [OF f1, of os] by (simp add: HandleOpLogMsg_def)
  next
    case True
    then obtain v where v: "bg_clock s1 client bg = Some v"
      using known same_clocks_transfer(2) [OF f1] by auto
    obtain ch s2 w2 where c: "Server_Clock (se_ldb e) (se_junk e) g client bg s1 w = Inr (ch, s2, w2)"
      using h s1 True by (auto simp: HandleOpLogMsg_def rbind_eq_Inr)
    have ok: "clocks_ok s1" using i1 by (simp add: srv_inv_def)
    note st = clock_step_ok [OF ok v Server_Clock_step [OF c]]
    have "clock_bg_row_requests s2 = clock_bg_row_requests s1" by (rule clock_step_requests [OF Server_Clock_step [OF c]])
    then have p2: "pending s2 = pending s1" "requests_ok s2 = requests_ok s1"
      by (simp_all add: pending_def requests_ok_def)
    have k2: "known_mono s1 s2" using st(2,4) v by (auto simp: known_mono_def)
    show ?thesis
    proof (cases ch)
      case False
      then have m: "GetMinClock s2 = GetMinClock s1" using st(3) by simp
      have e: "os = []" "s' = s2" using h s1 c True False by (auto simp: HandleOpLogMsg_def)
      have "srv_inv s2" using i1 st(1) p2 m by (simp add: srv_inv_def)
      moreover have "answered s s2 {#} []"
        unfolding answered_def using p2 same_clocks_transfer(4) [OF f1] by (intro exI [of _ "{#}"]) simp
      ultimately show ?thesis using e k1 k2 by (auto simp: known_mono_def)
    next
      case ch: True
      then have m: "GetMinClock s2 = GetMinClock s1 + 1" using st(3,4) by auto
      obtain rqs s3 where r: "GetFulfilledRowRequests s2 = (rqs, s3)" by force
      obtain o1 s4 o2 where a: "answer_all (se_reg e) g rqs s3 = Inr (o1, s4)"
        "ServerPushRow (se_fuel e) g (se_junk e) s4 = Inr (o2, s')" "os = o1 @ o2"
        using h s1 c True ch r by (auto simp: HandleOpLogMsg_def rbind_eq_Inr)
      have rk: "requests_ok s2" using i1 p2 by (simp add: srv_inv_def)
      note gf = GetFulfilled_pending [OF rk r]
      note aa = answer_all_spec [OF a(1)]
      have f4: "same_clocks s3 s'" using aa ServerPushRow_frame(1) [OF a(2)] same_clocks_trans by blast
      have c3: "clocks_ok s3" "GetMinClock s3 = GetMinClock s2" "bg_clock s3 = bg_clock s2"
        using GetFulfilled_clocks [OF r] st(1) by (simp_all add: clocks_ok_def GetMinClock_def bg_clock_def fun_eq_iff)
      have gt: "GetMinClock s3 < rq_clock rq" if "rq \<in># pending s3" for rq
      proof -
        have "rq \<in># pending s1" using that gf(1) p2(1) by (metis union_iff)
        then have "GetMinClock s1 < rq_clock rq" using i1 by (simp add: srv_inv_def)
        moreover have "rq_clock rq \<noteq> GetMinClock s2" using gf(4) that by blast
        ultimately show ?thesis using m c3(2) by simp
      qed
      have "srv_inv s3" using c3 gf(2) gt by (simp add: srv_inv_def)
      from srv_inv_same [OF this f4] have i4: "srv_inv s'" "known_mono s3 s'" by auto
      have "answered s s' {#} os"
        unfolding answered_def
      proof (intro exI [of _ "mset rqs"] conjI)
        show "{#} + pending s = mset rqs + pending s'"
          using gf(1) p2(1) same_clocks_transfer(4) [OF f1] same_clocks_transfer(4) [OF f4] by simp
        show "replied os = image_mset rq_key (mset rqs)"
          using aa ServerPushRow_frame(2) [OF a(2)] a(3) by simp
        show "\<forall>x \<in># mset rqs. rq_clock x \<le> GetMinClock s'"
          using gf(3) c3(2) same_clocks_transfer(1) [OF f4] by simp
      qed
      with i4 k1 k2 c3 show ?thesis by (auto simp: known_mono_def)
    qed
  qed
qed

section \<open>The run of the server thread\<close>

lemma answered_trans:
  assumes "answered s s1 R1 o1" "answered s1 s2 R2 o2" "known_mono s1 s2"
  shows "answered s s2 (R1 + R2) (o1 @ o2)"
proof -
  obtain A B where a: "R1 + pending s = A + pending s1" "replied o1 = image_mset rq_key A"
      "\<forall>a \<in># A. rq_clock a \<le> GetMinClock s1"
    and b: "R2 + pending s1 = B + pending s2" "replied o2 = image_mset rq_key B"
      "\<forall>a \<in># B. rq_clock a \<le> GetMinClock s2"
    using assms(1,2) unfolding answered_def by blast
  have "R1 + R2 + pending s = A + (R2 + pending s1)" using a(1) by (metis add.assoc add.commute)
  with a b assms(3) show ?thesis
    unfolding answered_def known_mono_def by (intro exI [of _ "A + B"]) (auto simp: add.assoc)
qed

lemma known_mono_trans: "known_mono s s1 \<Longrightarrow> known_mono s1 s2 \<Longrightarrow> known_mono s s2"
  unfolding known_mono_def by (meson order_trans)

lemma msg_known_mono: "known_mono s s' \<Longrightarrow> msg_known s x \<Longrightarrow> msg_known s' x"
  by (cases "(s, x)" rule: msg_known.cases) (auto simp: known_mono_def)

definition shutdowns :: "(int \<times> srv_msg) list \<Rightarrow> int" where
  "shutdowns sms = int (length (filter (\<lambda>sm. snd sm = ClientShutDownMsg) sms))"

lemma SendToAll_no_reply:
  assumes "SendToAllBgThreads g m ids = Inr os" "\<forall>t row c v d. m \<noteq> ServerRowRequestReplyMsg t row c v d"
  shows "replied os = {#}"
proof -
  have "mapM (\<lambda>i. rbind (vec_at ids i) (\<lambda>bg. Inr (bg, m))) xs = Inr os \<Longrightarrow> \<forall>p \<in> set os. snd p = m" for xs os
    by (induction xs arbitrary: os) (fastforce simp: rbind_eq_Inr)+
  with assms show ?thesis unfolding SendToAllBgThreads_def by (intro replied_other) force
qed

lemma server_handle_answers:
  assumes inv: "srv_inv (server_obj c)" and known: "msg_known (server_obj c) sm"
    and h: "server_handle e g sm (c, w) = Inr (stop, os, c', w')"
  shows "srv_inv (server_obj c') \<and> known_mono (server_obj c) (server_obj c') \<and>
    answered (server_obj c) (server_obj c') (requested sm) os \<and>
    num_shutdown_bgs c' = num_shutdown_bgs c + shutdowns [sm] \<and>
    (stop \<longrightarrow> num_shutdown_bgs c' = num_total_bg_threads g)"
proof -
  obtain bg m where sm: "sm = (bg, m)" by force
  show ?thesis
  proof (cases m)
    case (ClientSendOpLogMsg client is_clock v d)
    then obtain s' where s': "HandleOpLogMsg e g bg client is_clock v d (server_obj c) w = Inr (os, s', w')"
      "c' = c\<lparr>server_obj := s'\<rparr>" "\<not> stop" using h sm by (auto simp: server_handle_def rbind_eq_Inr)
    with HandleOpLogMsg_answers [OF inv _ s'(1)] known sm ClientSendOpLogMsg show ?thesis by (simp add: shutdowns_def)
  next
    case (RowRequestMsg t row clock)
    then obtain s' where s': "HandleRowRequest (se_reg e) g bg t row clock (server_obj c) = Inr (os, s')"
      "c' = c\<lparr>server_obj := s'\<rparr>" "\<not> stop" using h sm by (auto simp: server_handle_def rbind_eq_Inr)
    with HandleRowRequest_answers [OF inv s'(1)] sm RowRequestMsg show ?thesis by (simp add: shutdowns_def)
  next
    case (CreateTableMsg t info)
    then obtain s' where s': "CreateTable (se_ldb e) (se_reg e) g w t info (server_obj c) = Inr s'"
      "os = [(bg, OutCreateTableReply t)]" "c' = c\<lparr>server_obj := s'\<rparr>" "\<not> stop"
      using h sm by (auto simp: server_handle_def HandleCreateTable_def rbind_eq_Inr)
    note f = CreateTable_frame [OF s'(1)]
    from srv_inv_same [OF inv f] answered_same [OF f, of os] s' sm CreateTableMsg show ?thesis
      by (simp add: shutdowns_def)
  next
    case ClientShutDownMsg
    then have d: "HandleShutDownMsg g c = Inr (stop, os, c')"
      using h sm by (auto simp: server_handle_def rbind_eq_Inr)
    then have c': "c' = c\<lparr>num_shutdown_bgs := num_shutdown_bgs c + 1\<rparr>" "replied os = {#}"
      "stop \<longrightarrow> num_shutdown_bgs c' = num_total_bg_threads g"
      by (auto simp: HandleShutDownMsg_def Let_def rbind_eq_Inr split: if_splits dest!: SendToAll_no_reply)
    with inv sm ClientShutDownMsg answered_same [of "server_obj c" "server_obj c" os] show ?thesis
      by (simp add: shutdowns_def known_mono_def)
  qed (use h sm in \<open>auto simp: server_handle_def\<close>)
qed

lemma server_loop_answers:
  assumes "srv_inv (server_obj c)" "\<forall>sm \<in> set msgs. msg_known (server_obj c) sm"
    and "num_shutdown_bgs c + shutdowns msgs < num_total_bg_threads g"
    and "server_loop e g msgs (c, w) = Inr (os, c', w')"
  shows "srv_inv (server_obj c') \<and> known_mono (server_obj c) (server_obj c') \<and>
    answered (server_obj c) (server_obj c') (\<Sum>sm \<leftarrow> msgs. requested sm) os"
  using assms
proof (induction msgs arbitrary: c w os)
  case Nil
  then show ?case using answered_same [of "server_obj c" "server_obj c" "[]"] by (simp add: known_mono_def)
next
  case (Cons sm msgs)
  then obtain stop o1 c1 w1 where 1: "server_handle e g sm (c, w) = Inr (stop, o1, c1, w1)"
    by (auto simp: rbind_eq_Inr)
  have "msg_known (server_obj c) sm" using Cons.prems(2) by simp
  note H = server_handle_answers [OF Cons.prems(1) this 1]
  have split: "shutdowns (sm # msgs) = shutdowns [sm] + shutdowns msgs" by (simp add: shutdowns_def)
  have "0 \<le> shutdowns msgs" by (simp add: shutdowns_def)
  with H Cons.prems(3) split have go: "\<not> stop" "num_shutdown_bgs c1 + shutdowns msgs < num_total_bg_threads g" by auto
  obtain o2 where 2: "server_loop e g msgs (c1, w1) = Inr (o2, c', w')" "os = o1 @ o2"
    using Cons.prems(4) 1 go by (auto simp: rbind_eq_Inr)
  have "\<forall>sm \<in> set msgs. msg_known (server_obj c1) sm" using Cons.prems(2) H msg_known_mono by (meson list.set_intros(2))
  from Cons.IH [OF _ this go(2) 2(1)] H 2(2) show ?case
    using answered_trans known_mono_trans by fastforce
qed

lemma connect_bg_Inr:
  "connect_bg c (i, sm) = Inr c1 \<Longrightarrow> \<exists>bg client. sm = (bg, ClientConnectMsg client) \<and>
     c1 = c\<lparr>bg_thread_ids := (bg_thread_ids c)[i := bg], server_obj := AddClientBgPair client bg (server_obj c)\<rparr>"
  by (cases sm; cases "snd sm") (auto simp: connect_bg_def GetConnection_def rbind_eq_Inr)

lemma connect_all:
  assumes "foldM connect_bg c (enumerate n conns) = Inr c'" "fresh_ok (server_obj c)"
  shows "fresh_ok (server_obj c') \<and> clock_bg_row_requests (server_obj c') = clock_bg_row_requests (server_obj c) \<and>
    num_shutdown_bgs c' = num_shutdown_bgs c \<and>
    (\<forall>client bg. (bg, ClientConnectMsg client) \<in> set conns \<or>
        (\<exists>bgs. map_of (client_bg_map (server_obj c)) client = Some bgs \<and> bg \<in> set bgs) \<longrightarrow>
      (\<exists>bgs. map_of (client_bg_map (server_obj c')) client = Some bgs \<and> bg \<in> set bgs))"
  using assms
proof (induction conns arbitrary: c n)
  case (Cons sm conns)
  then obtain client bg c1 where 1: "sm = (bg, ClientConnectMsg client)"
    "c1 = c\<lparr>bg_thread_ids := (bg_thread_ids c)[n := bg], server_obj := AddClientBgPair client bg (server_obj c)\<rparr>"
    "foldM connect_bg c1 (enumerate (Suc n) conns) = Inr c'"
    by (auto simp: rbind_eq_Inr dest!: connect_bg_Inr)
  have "fresh_ok (server_obj c1)" using Cons.prems(2) 1(2) by (simp add: fresh_AddClientBgPair)
  note IH = Cons.IH [OF 1(3) this]
  have "(\<exists>bgs. map_of (client_bg_map (server_obj c1)) client' = Some bgs \<and> bg' \<in> set bgs) \<longleftrightarrow>
      (client' = client \<and> bg' = bg) \<or> (\<exists>bgs. map_of (client_bg_map (server_obj c)) client' = Some bgs \<and> bg' \<in> set bgs)"
    for client' bg'
    by (auto simp: 1(2) AddClientBgPair_def Let_def map_of_oupd split: option.splits)
  with IH show ?case by (auto simp: 1(1,2) AddClientBgPair_def Let_def)
qed simp

lemma fold_init_requests:
  "clock_bg_row_requests (fold init_client cs s) = clock_bg_row_requests s"
  by (induction cs arbitrary: s) (auto simp: init_client_def)

lemma InitServer_spec:
  assumes "InitServer g sid (conns @ msgs) (SetUpServerContext g) = Inr (os, c, rest)"
    and "int (length conns) = num_total_bg_threads g"
  shows "rest = msgs \<and> srv_inv (server_obj c) \<and> pending (server_obj c) = {#} \<and> replied os = {#} \<and> num_shutdown_bgs c = 0 \<and>
    (\<forall>client bg. (bg, ClientConnectMsg client) \<in> set conns \<longrightarrow> bg_clock (server_obj c) client bg = Some 0)"
proof -
  obtain c1 where c1: "foldM connect_bg (SetUpServerContext g) (enumerate 0 conns) = Inr c1"
    "c = c1\<lparr>server_obj := Server_Init sid (server_obj c1)\<rparr>" "replied os = {#}"
    using assms by (auto simp: InitServer_def ConnectToNameNode_def rbind_eq_Inr Let_def nat_eq_iff2 dest!: SendToAll_no_reply
        split: if_splits)
  have rest: "rest = msgs" using assms by (auto simp: InitServer_def rbind_eq_Inr Let_def split: if_splits)
  have "fresh_ok (server_obj (SetUpServerContext g))" by (simp add: SetUpServerContext_def fresh_Server_new)
  note C = connect_all [OF c1(1) this]
  then have r: "clock_bg_row_requests (server_obj c) = []"
    by (simp add: c1(2) Server_Init_def fold_init_requests SetUpServerContext_def Server_new_def)
  have "fresh_ok (server_obj c1)" using C by blast
  note I = Init_clocks_ok [OF this, of sid]
  have p: "pending (server_obj c) = {#}" using r by (simp add: pending_def)
  moreover have "requests_ok (server_obj c)" using r by (simp add: requests_ok_def)
  ultimately have "srv_inv (server_obj c)" using I(1) by (simp add: srv_inv_def c1(2))
  moreover have "num_shutdown_bgs c = 0" using C by (simp add: c1(2) SetUpServerContext_def)
  moreover have "bg_clock (server_obj c) client bg = Some 0" if cn: "(bg, ClientConnectMsg client) \<in> set conns" for client bg
  proof -
    obtain bgs where "map_of (client_bg_map (server_obj c1)) client = Some bgs" "bg \<in> set bgs" using C cn by blast
    with I(3) have "bg_clock (Server_Init sid (server_obj c1)) client bg = Some 0" by blast
    then show ?thesis by (simp add: c1(2))
  qed
  ultimately show ?thesis using p c1(3) rest by blast
qed

text \<open>
  C1. The staleness bound at the server. Let a server thread start with the
  connections \<open>conns\<close> and process the messages \<open>msgs\<close>, clock messages coming from connected
  background threads and the shut down not yet complete. Then the row requests received
  split into answered and pending ones: each answered request got exactly one reply, and
  the server clock (the minimum over all background threads) has reached its clock; each pending request
  asks for a clock the server has not reached. So no request is answered too early, lost or answered
  twice, and none waits once its clock is reached.
\<close>

theorem row_requests_answered:
  assumes "ServerThreadMain e g my_id (conns @ msgs) w = Inr (os, c, w')" "int (length conns) = num_total_bg_threads g"
    and "\<forall>bg client v d. (bg, ClientSendOpLogMsg client True v d) \<in> set msgs \<longrightarrow> (bg, ClientConnectMsg client) \<in> set conns"
    and "shutdowns msgs < num_total_bg_threads g"
  shows "\<exists>A. (\<Sum>sm \<leftarrow> msgs. requested sm) = A + pending (server_obj c) \<and>
    replied os = image_mset rq_key A \<and>
    (\<forall>a \<in># A. rq_clock a \<le> GetMinClock (server_obj c)) \<and>
    (\<forall>p \<in># pending (server_obj c). GetMinClock (server_obj c) < rq_clock p)"
proof -
  obtain o1 c1 o2 msgs' where 1: "InitServer g my_id (conns @ msgs) (SetUpServerContext g) = Inr (o1, c1, msgs')"
    and l: "server_loop e g msgs' (c1, w) = Inr (o2, c, w')" and os: "os = o1 @ o2"
    using assms(1) by (auto simp: ServerThreadMain_def rbind_eq_Inr)
  note I = InitServer_spec [OF 1 assms(2)]
  have 2: "server_loop e g msgs (c1, w) = Inr (o2, c, w')" using l I by simp
  have "msg_known (server_obj c1) sm" if "sm \<in> set msgs" for sm
  proof (cases "(server_obj c1, sm)" rule: msg_known.cases)
    case (1 s bg client is_clock v d)
    then show ?thesis using that assms(3) I by (cases is_clock) fastforce+
  qed auto
  with server_loop_answers [OF _ _ _ 2] I assms(4)
  have "srv_inv (server_obj c)" "answered (server_obj c1) (server_obj c) (\<Sum>sm \<leftarrow> msgs. requested sm) o2" by auto
  then show ?thesis using I os unfolding answered_def srv_inv_def by auto
qed

text \<open>
  A run with two clients, one background thread each: a request for clock 1
  waits until both have sent their clock, and is then answered.
\<close>

definition demo_srv_env :: "(int sparse_row, int, unit) srv_env" where
  "demo_srv_env = \<lparr>se_fuel = 10, se_pod = i32_pod, se_reg = reg_of (sparse_ops i32_pod), se_ldb = null_leveldb,
     se_junk = (\<lambda>n. replicate n 0)\<rparr>"

definition demo_run :: "(outs \<times> (int sparse_row, int) server_context \<times> unit) result" where
  "demo_run = ServerThreadMain demo_srv_env (demo_ctx\<lparr>num_total_bg_threads := 2\<rparr>) 1
     ([(100, ClientConnectMsg 0), (1100, ClientConnectMsg 1)] @
     [(100, CreateTableMsg 0 \<lparr>table_staleness = 0, row_type = 0, row_capacity = 0\<rparr>),
      (100, RowRequestMsg 0 5 1),
      (100, ClientSendOpLogMsg 0 True 0 (replicate 16 0)),
      (1100, ClientSendOpLogMsg 1 True 0 (replicate 16 0))]) ()"

declare kPushRowMsgSizeInit_def [code del]

lemma demo_run_returns:
  "case demo_run of Inl e \<Rightarrow> False
   | Inr (os, c, w) \<Rightarrow> clock_bg_row_requests (server_obj c) = [] \<and> GetMinClock (server_obj c) = 1"
  by code_simp

theorem row_requests_answered_witness:
  "\<exists>os c w. demo_run = Inr (os, c, w) \<and> replied os = {#(100, 0, 5)#} \<and> GetMinClock (server_obj c) = 1"
proof -
  obtain os c w where r: "demo_run = Inr (os, c, w)" "clock_bg_row_requests (server_obj c) = []" "GetMinClock (server_obj c) = 1"
    using demo_run_returns by (auto split: sum.splits)
  then have "pending (server_obj c) = {#}" by (simp add: pending_def)
  with row_requests_answered [OF r(1) [unfolded demo_run_def]] have "replied os = {#(100, 0, 5)#}"
    by (auto simp: shutdowns_def demo_ctx_def GlobalContext_Init_def rq_key_def)
  with r show ?thesis by blast
qed

end
