(* ===== verification/Process_Storage.thy ===== *)
theory Process_Storage
imports Cuckoo Context
begin

text \<open>
  The process cache of rows: \<open>MTQueue\<close>, \<open>ClockLRU\<close> (clock_lru.cpp),
  \<open>ClientRow\<close>, \<open>SSPClientRow\<close>, \<open>RowAccessor\<close> and \<open>ProcessStorage\<close>
  (process_storage.cpp), all in petuum_ps_common except \<open>SSPClientRow\<close>.
  Client rows live in a heap, since the storage and the row accessors of the
  application share them; the shared pointer to the row data of a client row is
  the type \<open>'d\<close>.  Each critical section is one step; what other threads do
  between the critical sections of an insertion is an argument, and so is the
  outcome of the attempts to lock a slot.
\<close>

section \<open>MTQueue\<close>

definition mtq_pop :: "'a list \<Rightarrow> 'a option \<times> 'a list" where
  "mtq_pop q = (case q of [] \<Rightarrow> (None, []) | x # q \<Rightarrow> (Some x, q))"

definition mtq_push :: "'a \<Rightarrow> 'a list \<Rightarrow> 'a list" where
  "mtq_push x q = q @ [x]"

section \<open>ClockLRU\<close>

record clock_lru =
  lru_capacity :: int
  evict_hand :: int
  insert_hand :: int
  empty_slots :: "int list"
  stale :: "bool list"
  row_ids :: "int list"

definition MAX_NUM_ROUNDS :: int where "MAX_NUM_ROUNDS = 3"

definition ClockLRU :: "int \<Rightarrow> clock_lru" where
  "ClockLRU capacity =
     \<lparr>lru_capacity = capacity, evict_hand = 0, insert_hand = 0, empty_slots = [],
      stale = replicate (nat capacity) True, row_ids = replicate (nat capacity) (- 1)\<rparr>"

text \<open>The increment of an \<open>atomic<int32_t>\<close> wraps around.\<close>

definition i32_succ :: "int \<Rightarrow> int" where
  "i32_succ x = (if x = 2 ^ 31 - 1 then - (2 ^ 31) else x + 1)"

definition set_stale :: "int \<Rightarrow> bool \<Rightarrow> clock_lru \<Rightarrow> clock_lru result" where
  "set_stale slot b l =
     rbind (vec_at (stale l) slot) (\<lambda>_. Inr (l\<lparr>stale := (stale l)[nat slot := b]\<rparr>))"

definition set_row_id :: "int \<Rightarrow> int \<Rightarrow> clock_lru \<Rightarrow> clock_lru result" where
  "set_row_id slot row l =
     rbind (vec_at (row_ids l) slot) (\<lambda>_. Inr (l\<lparr>row_ids := (row_ids l)[nat slot := row]\<rparr>))"

text \<open>The search loop with \<open>n\<close> rounds left; \<open>try_lock n\<close> is the outcome of \<open>TryLock\<close> in that round.\<close>

fun evict_search :: "(nat \<Rightarrow> bool) \<Rightarrow> nat \<Rightarrow> clock_lru \<Rightarrow> (int \<times> clock_lru) result" where
  "evict_search try_lock 0 l = Inl (Fatal ''Cannot find a slot to evict'')"
| "evict_search try_lock (Suc n) l =
     rbind (c_mod (evict_hand l) (lru_capacity l)) (\<lambda>slot.
     let l = l\<lparr>evict_hand := i32_succ (evict_hand l)\<rparr> in
     rbind (vec_at (stale l) slot) (\<lambda>was_stale.
     rbind (set_stale slot True l) (\<lambda>l.
     if \<not> was_stale then evict_search try_lock n l
     else if \<not> try_lock n then evict_search try_lock n l
     else rbind (vec_at (row_ids l) slot) (\<lambda>row.
          if row = - 1 then evict_search try_lock n l else Inr (row, l)))))"

definition FindOneToEvict :: "(nat \<Rightarrow> bool) \<Rightarrow> clock_lru \<Rightarrow> (int \<times> clock_lru) result" where
  "FindOneToEvict try_lock l = evict_search try_lock (nat (MAX_NUM_ROUNDS * lru_capacity l)) l"

definition lru_Evict :: "int \<Rightarrow> clock_lru \<Rightarrow> clock_lru result" where
  "lru_Evict slot l =
     rbind (set_row_id slot (- 1) l) (\<lambda>l. Inr (l\<lparr>empty_slots := mtq_push slot (empty_slots l)\<rparr>))"

text \<open>\<open>NoEvict\<close> only releases the lock of the slot.\<close>

definition lru_NoEvict :: "int \<Rightarrow> clock_lru \<Rightarrow> clock_lru" where
  "lru_NoEvict slot l = l"

definition FindEmptySlot :: "clock_lru \<Rightarrow> (int \<times> clock_lru) result" where
  "FindEmptySlot l =
     (case mtq_pop (empty_slots l) of
        (Some slot, q) \<Rightarrow>
          let l = l\<lparr>empty_slots := q\<rparr> in
          rbind (vec_at (row_ids l) slot) (\<lambda>row.
          rbind (check (- 1 = row) ''-1 == row_ids_[slot]'') (\<lambda>_. Inr (slot, l)))
      | (None, q) \<Rightarrow>
          let hand = insert_hand l; l = l\<lparr>insert_hand := i32_succ (insert_hand l)\<rparr> in
          if hand \<ge> lru_capacity l then Inl (Fatal ''Exceeding ClockLRU capacity'')
          else rbind (c_mod hand (lru_capacity l)) (\<lambda>slot.
               rbind (vec_at (row_ids l) slot) (\<lambda>row.
               rbind (check (- 1 = row) ''This is first round and must be empty'') (\<lambda>_. Inr (slot, l)))))"

definition lru_Insert :: "int \<Rightarrow> clock_lru \<Rightarrow> (int \<times> clock_lru) result" where
  "lru_Insert row l =
     rbind (FindEmptySlot l) (\<lambda>(slot, l).
     rbind (set_stale slot False l) (\<lambda>l.
     rbind (set_row_id slot row l) (\<lambda>l. Inr (slot, l))))"

definition lru_Reference :: "int \<Rightarrow> clock_lru \<Rightarrow> clock_lru result" where
  "lru_Reference slot l = set_stale slot False l"

definition HasRow :: "int \<Rightarrow> int \<Rightarrow> clock_lru \<Rightarrow> bool result" where
  "HasRow row slot l = rbind (vec_at (row_ids l) slot) (\<lambda>r. Inr (r = row))"

section \<open>Client rows and accessors\<close>

record 'd client_row =
  cr_num_refs :: int
  cr_data :: 'd
  cr_clock :: int

definition SSPClientRow :: "int \<Rightarrow> 'd \<Rightarrow> 'd client_row" where
  "SSPClientRow clock d = \<lparr>cr_num_refs = 0, cr_data = d, cr_clock = clock\<rparr>"

definition HasZeroRef :: "'d client_row \<Rightarrow> bool" where
  "HasZeroRef r \<longleftrightarrow> cr_num_refs r = 0"

definition IncRef :: "'d client_row \<Rightarrow> 'd client_row" where
  "IncRef r = r\<lparr>cr_num_refs := cr_num_refs r + 1\<rparr>"

definition DecRef :: "'d client_row \<Rightarrow> 'd client_row" where
  "DecRef r = r\<lparr>cr_num_refs := cr_num_refs r - 1\<rparr>"

type_synonym 'd row_heap = "nat \<rightharpoonup> 'd client_row"

definition deref :: "'d row_heap \<Rightarrow> nat \<Rightarrow> 'd client_row result" where
  "deref h p = of_option (Undefined ''dangling ClientRow'') (h p)"

definition SetClock :: "int \<Rightarrow> nat \<Rightarrow> 'd row_heap \<Rightarrow> 'd row_heap result" where
  "SetClock clock p h = rbind (deref h p) (\<lambda>r. Inr (h(p \<mapsto> r\<lparr>cr_clock := clock\<rparr>)))"

definition GetClock :: "nat \<Rightarrow> 'd row_heap \<Rightarrow> int result" where
  "GetClock p h = rbind (deref h p) (\<lambda>r. Inr (cr_clock r))"

text \<open>\<open>SwapAndDestroy\<close> takes clock and data of the other row, which is destroyed.\<close>

definition SwapAndDestroy :: "nat \<Rightarrow> nat \<Rightarrow> 'd row_heap \<Rightarrow> 'd row_heap result" where
  "SwapAndDestroy p other h =
     rbind (deref h other) (\<lambda>ro.
     rbind (deref h p) (\<lambda>r.
     Inr (h(p \<mapsto> r\<lparr>cr_clock := cr_clock ro, cr_data := cr_data ro\<rparr>, other := None))))"

record 'd row_accessor =
  ra_client_row :: "nat option"
  ra_data :: "'d option"

definition RowAccessor :: "'d row_accessor" where
  "RowAccessor = \<lparr>ra_client_row = None, ra_data = None\<rparr>"

definition accessor_Clear :: "'d row_accessor \<Rightarrow> 'd row_heap \<Rightarrow> ('d row_accessor \<times> 'd row_heap) result" where
  "accessor_Clear a h =
     (case ra_client_row a of
        None \<Rightarrow> Inr (a, h)
      | Some p \<Rightarrow> rbind (deref h p) (\<lambda>r. Inr (RowAccessor, h(p \<mapsto> DecRef r))))"

definition SetClientRow :: "nat \<Rightarrow> 'd row_accessor \<Rightarrow> 'd row_heap \<Rightarrow> ('d row_accessor \<times> 'd row_heap) result" where
  "SetClientRow p a h =
     rbind (accessor_Clear a h) (\<lambda>(a, h).
     rbind (deref h p) (\<lambda>r.
     Inr (\<lparr>ra_client_row = Some p, ra_data = Some (cr_data r)\<rparr>, h(p \<mapsto> IncRef r))))"

section \<open>ProcessStorage\<close>

record ('m, 'd) process_storage =
  ps_capacity :: int
  ps_num_rows :: int
  ps_map :: 'm
  ps_lru :: clock_lru
  ps_heap :: "'d row_heap"

type_synonym 'm storage_map = "('m, int, nat \<times> int) cuckoo"

definition ProcessStorage :: "'m storage_map \<Rightarrow> int \<Rightarrow> 'd row_heap \<Rightarrow> ('m, 'd) process_storage" where
  "ProcessStorage ck capacity h =
     \<lparr>ps_capacity = capacity, ps_num_rows = 0, ps_map = ck_new ck, ps_lru = ClockLRU capacity, ps_heap = h\<rparr>"

definition storage_Find ::
  "'m storage_map \<Rightarrow> int \<Rightarrow> 'd row_accessor \<Rightarrow> ('m, 'd) process_storage \<Rightarrow>
   (bool \<times> 'd row_accessor \<times> ('m, 'd) process_storage) result" where
  "storage_Find ck row a s =
     (case ck_find ck (ps_map s) row of
        None \<Rightarrow> Inr (False, a, s)
      | Some (p, slot) \<Rightarrow>
          rbind (SetClientRow p a (ps_heap s)) (\<lambda>(a, h).
          rbind (lru_Reference slot (ps_lru s)) (\<lambda>l.
          Inr (True, a, s\<lparr>ps_heap := h, ps_lru := l\<rparr>))))"

definition storage_Has :: "'m storage_map \<Rightarrow> int \<Rightarrow> ('m, 'd) process_storage \<Rightarrow> bool" where
  "storage_Has ck row s \<longleftrightarrow> ck_find ck (ps_map s) row \<noteq> None"

definition FindAndUpdate ::
  "'m storage_map \<Rightarrow> int \<Rightarrow> nat \<Rightarrow> ('m, 'd) process_storage \<Rightarrow> (bool \<times> ('m, 'd) process_storage) result" where
  "FindAndUpdate ck row client_row s =
     (case ck_find ck (ps_map s) row of
        None \<Rightarrow> Inr (False, s)
      | Some (p, slot) \<Rightarrow>
          rbind (lru_Reference slot (ps_lru s)) (\<lambda>l.
          rbind (SwapAndDestroy p client_row (ps_heap s)) (\<lambda>h.
          Inr (True, s\<lparr>ps_heap := h, ps_lru := l\<rparr>))))"

definition FindAndUpdate_access ::
  "'m storage_map \<Rightarrow> int \<Rightarrow> nat \<Rightarrow> 'd row_accessor \<Rightarrow> ('m, 'd) process_storage \<Rightarrow>
   (bool \<times> 'd row_accessor \<times> ('m, 'd) process_storage) result" where
  "FindAndUpdate_access ck row client_row a s =
     (case ck_find ck (ps_map s) row of
        None \<Rightarrow> Inr (False, a, s)
      | Some (p, slot) \<Rightarrow>
          rbind (SwapAndDestroy p client_row (ps_heap s)) (\<lambda>h.
          rbind (SetClientRow p a h) (\<lambda>(a, h).
          rbind (lru_Reference slot (ps_lru s)) (\<lambda>l.
          Inr (True, a, s\<lparr>ps_heap := h, ps_lru := l\<rparr>)))))"

text \<open>
  The eviction loop; \<open>keep\<close> is the variant that hands the evicted row out
  instead of deleting it.  The result is the row id and the pointer of the
  evicted row.
\<close>

fun evict_loop ::
  "nat \<Rightarrow> 'm storage_map \<Rightarrow> (nat \<Rightarrow> nat \<Rightarrow> bool) \<Rightarrow> bool \<Rightarrow> ('m, 'd) process_storage \<Rightarrow>
   (int \<times> nat \<times> ('m, 'd) process_storage) result" where
  "evict_loop 0 ck try_lock keep s = Inl OutOfFuel"
| "evict_loop (Suc n) ck try_lock keep s =
     rbind (FindOneToEvict (try_lock n) (ps_lru s)) (\<lambda>(cand, l).
     let s = s\<lparr>ps_lru := l\<rparr> in
     rbind (of_option (CheckFailed ''storage_map_.find(evict_candidate, row_info)'') (ck_find ck (ps_map s) cand)) (\<lambda>(p, slot).
     rbind (deref (ps_heap s) p) (\<lambda>r.
     if HasZeroRef r then
       let s = (if keep then s else s\<lparr>ps_heap := (ps_heap s)(p := None)\<rparr>);
           s = s\<lparr>ps_map := snd (ck_erase ck cand (ps_map s))\<rparr> in
       rbind (lru_Evict slot (ps_lru s)) (\<lambda>l. Inr (cand, p, s\<lparr>ps_lru := l\<rparr>))
     else evict_loop n ck try_lock keep (s\<lparr>ps_lru := lru_NoEvict slot (ps_lru s)\<rparr>))))"

text \<open>Room for one more row: the number of rows is raised, or one row is evicted.\<close>

definition make_room ::
  "nat \<Rightarrow> 'm storage_map \<Rightarrow> (nat \<Rightarrow> nat \<Rightarrow> bool) \<Rightarrow> bool \<Rightarrow> ('m, 'd) process_storage \<Rightarrow>
   ((int \<times> nat) option \<times> ('m, 'd) process_storage) result" where
  "make_room fuel ck try_lock keep s =
     (let s = s\<lparr>ps_num_rows := i32_succ (ps_num_rows s)\<rparr> in
      if ps_capacity s - ps_num_rows s < 0 then
        let s = s\<lparr>ps_num_rows := ps_num_rows s - 1\<rparr> in
        rbind (evict_loop fuel ck try_lock keep s) (\<lambda>(row, p, s). Inr (Some (row, p), s))
      else Inr (None, s))"

definition put_row ::
  "'m storage_map \<Rightarrow> int \<Rightarrow> nat \<Rightarrow> ('m, 'd) process_storage \<Rightarrow> ('m, 'd) process_storage result" where
  "put_row ck row client_row s =
     rbind (lru_Insert row (ps_lru s)) (\<lambda>(slot, l).
     let (ok, m) = ck_insert ck row (client_row, slot) (ps_map s) in
     rbind (check ok ''storage_map_.insert(row_id, row_info)'') (\<lambda>_.
     Inr (s\<lparr>ps_lru := l, ps_map := m\<rparr>)))"

definition storage_Insert ::
  "nat \<Rightarrow> 'm storage_map \<Rightarrow> (nat \<Rightarrow> nat \<Rightarrow> bool) \<Rightarrow> (('m, 'd) process_storage \<Rightarrow> ('m, 'd) process_storage) \<Rightarrow>
   int \<Rightarrow> nat \<Rightarrow> ('m, 'd) process_storage \<Rightarrow> (bool \<times> ('m, 'd) process_storage) result" where
  "storage_Insert fuel ck try_lock env row client_row s =
     rbind (FindAndUpdate ck row client_row s) (\<lambda>(found, s).
     if found then Inr (False, s)
     else
       rbind (make_room fuel ck try_lock False (env s)) (\<lambda>(_, s).
       rbind (FindAndUpdate ck row client_row (env s)) (\<lambda>(found, s).
       if found then Inr (False, s\<lparr>ps_num_rows := ps_num_rows s - 1\<rparr>)
       else rbind (put_row ck row client_row s) (\<lambda>s. Inr (True, s)))))"

text \<open>
  The variants with an accessor; the result also has \<open>*evicted_row_id\<close> (\<open>-1\<close> for
  none) and, in the last one, \<open>*evicted_row\<close>.
\<close>

definition insert_access ::
  "bool \<Rightarrow> nat \<Rightarrow> 'm storage_map \<Rightarrow> (nat \<Rightarrow> nat \<Rightarrow> bool) \<Rightarrow> (('m, 'd) process_storage \<Rightarrow> ('m, 'd) process_storage) \<Rightarrow>
   int \<Rightarrow> nat \<Rightarrow> 'd row_accessor \<Rightarrow> ('m, 'd) process_storage \<Rightarrow>
   (bool \<times> (int \<times> nat) option \<times> 'd row_accessor \<times> ('m, 'd) process_storage) result" where
  "insert_access keep fuel ck try_lock env row client_row a s =
     rbind (FindAndUpdate_access ck row client_row a s) (\<lambda>(found, a, s).
     if found then Inr (False, None, a, s)
     else
       rbind (make_room fuel ck try_lock keep (env s)) (\<lambda>(ev, s).
       rbind (FindAndUpdate_access ck row client_row a (env s)) (\<lambda>(found, a, s).
       if found then Inr (False, ev, a, s\<lparr>ps_num_rows := ps_num_rows s - 1\<rparr>)
       else
         rbind (put_row ck row client_row s) (\<lambda>s.
         rbind (SetClientRow client_row a (ps_heap s)) (\<lambda>(a, h).
         Inr (True, ev, a, s\<lparr>ps_heap := h\<rparr>))))))"

text \<open>\<open>evicted_row_id\<close> is written before anything else: the default null pointer is dereferenced.\<close>

definition storage_Insert_access where
  "storage_Insert_access fuel ck try_lock env row client_row a has_id s =
     (if \<not> has_id then Inl (Undefined ''*evicted_row_id'')
      else rbind (insert_access False fuel ck try_lock env row client_row a s) (\<lambda>(b, ev, a, s).
           Inr (b, (case ev of None \<Rightarrow> - 1 | Some (row, _) \<Rightarrow> row), a, s)))"

definition storage_Insert_evicted where
  "storage_Insert_evicted fuel ck try_lock env row client_row a s =
     rbind (insert_access True fuel ck try_lock env row client_row a s) (\<lambda>(b, ev, a, s).
     Inr (b, (case ev of None \<Rightarrow> - 1 | Some (row, _) \<Rightarrow> row), map_option snd ev, a, s))"

end
