(* ===== verification/Storage_Proofs.thy ===== *)
theory Storage_Proofs
imports Process_Storage
begin

text \<open>
  The process cache is correct: the CLOCK hand finds a row without references
  within two rounds, an insertion into a full cache evicts exactly one such
  row, and the cache never holds more rows than its capacity.
\<close>

section \<open>The CLOCK hand\<close>

definition lru_ok :: "clock_lru \<Rightarrow> bool" where
  "lru_ok l \<longleftrightarrow> 0 < lru_capacity l \<and> lru_capacity l < 2 ^ 31 \<and> length (stale l) = nat (lru_capacity l) \<and>
     length (row_ids l) = nat (lru_capacity l) \<and> 0 \<le> evict_hand l \<and> 0 \<le> insert_hand l \<and>
     insert_hand l \<le> lru_capacity l \<and> distinct (empty_slots l) \<and>
     (\<forall>i. i \<in> set (empty_slots l) \<longleftrightarrow> 0 \<le> i \<and> i < insert_hand l \<and> row_ids l ! nat i = - 1) \<and>
     (\<forall>i. insert_hand l \<le> i \<and> i < lru_capacity l \<longrightarrow> row_ids l ! nat i = - 1)"

text \<open>How many slots the hand visits until it reaches slot \<open>z\<close> while that is marked stale.\<close>

definition steps_to :: "int \<Rightarrow> clock_lru \<Rightarrow> int" where
  "steps_to z l = (z - evict_hand l) mod lru_capacity l + 1 + (if stale l ! nat z then 0 else lru_capacity l)"

lemma mod_pred: "0 < (c::int) \<Longrightarrow> (x - 1) mod c = (if x mod c = 0 then c - 1 else x mod c - 1)"
proof -
  assume c: "0 < c"
  have "(x - 1) mod c = (x mod c - 1) mod c" by (simp add: mod_diff_left_eq)
  moreover have "(x mod c - 1) mod c = x mod c - 1" if "x mod c \<noteq> 0"
    using that c pos_mod_sign [of c x] pos_mod_bound [of c x] by (intro mod_pos_pos_trivial) linarith+
  ultimately show ?thesis using c by (auto simp: zmod_minus1)
qed

lemma hand_at: "0 \<le> z \<Longrightarrow> z < c \<Longrightarrow> (z - h) mod c = 0 \<longleftrightarrow> h mod c = (z::int)"
  by (metis mod_eq_dvd_iff mod_pos_pos_trivial dvd_eq_mod_eq_0 mod_0_imp_dvd)

lemma steps_bounds: "0 < lru_capacity l \<Longrightarrow> 1 \<le> steps_to z l \<and> steps_to z l \<le> 2 * lru_capacity l"
proof -
  assume c: "0 < lru_capacity l"
  then have "0 \<le> (z - evict_hand l) mod lru_capacity l" "(z - evict_hand l) mod lru_capacity l < lru_capacity l"
    by simp_all
  with c show ?thesis by (simp add: steps_to_def)
qed

definition visit :: "clock_lru \<Rightarrow> clock_lru" where
  "visit l = l\<lparr>evict_hand := evict_hand l + 1, stale := (stale l)[nat (evict_hand l mod lru_capacity l) := True]\<rparr>"

lemma visit_ok: "lru_ok l \<Longrightarrow> lru_ok (visit l)"
  by (simp add: lru_ok_def visit_def)

lemma visit_steps:
  assumes "lru_ok l" "0 \<le> z" "z < lru_capacity l" "\<not> (evict_hand l mod lru_capacity l = z \<and> stale l ! nat z)"
  shows "steps_to z (visit l) = steps_to z l - 1"
proof -
  let ?c = "lru_capacity l" and ?h = "evict_hand l"
  have c: "0 < ?c" using assms by (simp add: lru_ok_def)
  have r: "0 \<le> ?h mod ?c" "?h mod ?c < ?c" using c by simp_all
  have "(z - (?h + 1)) mod ?c = (if ?h mod ?c = z then ?c - 1 else (z - ?h) mod ?c - 1)"
    using mod_pred [OF c, of "z - ?h"] hand_at [OF assms(2,3), of ?h] by (simp add: algebra_simps)
  moreover have "nat (?h mod ?c) = nat z \<longleftrightarrow> ?h mod ?c = z" using r assms(2) by (simp add: eq_nat_nat_iff)
  moreover have "nat z < length (stale l)" using assms by (simp add: lru_ok_def)
  moreover have "?h mod ?c = z \<Longrightarrow> (z - ?h) mod ?c = 0" using hand_at [OF assms(2,3), of ?h] by simp
  ultimately show ?thesis using assms(4) by (auto simp: steps_to_def visit_def nth_list_update)
qed

lemma evict_search_step:
  assumes "lru_ok l" "evict_hand l < 2 ^ 31 - 1"
  shows "evict_search try_lock (Suc n) l =
    (let slot = nat (evict_hand l mod lru_capacity l) in
     if stale l ! slot \<and> try_lock n \<and> row_ids l ! slot \<noteq> - 1 then Inr (row_ids l ! slot, visit l)
     else evict_search try_lock n (visit l))"
proof -
  let ?c = "lru_capacity l" and ?s = "evict_hand l mod lru_capacity l"
  have c: "0 < ?c" using assms by (simp add: lru_ok_def)
  have r: "0 \<le> ?s" "?s < ?c" using c by simp_all
  have cm: "c_mod (evict_hand l) ?c = Inr ?s"
    using assms c by (simp add: c_mod_def smod_nonneg lru_ok_def)
  have "nat ?s < length (stale l)" "nat ?s < length (row_ids l)" using r assms by (simp_all add: lru_ok_def)
  moreover have "i32_succ (evict_hand l) = evict_hand l + 1" using assms(2) by (simp add: i32_succ_def)
  ultimately show ?thesis
    using cm r by (auto simp: Let_def vec_at_def set_stale_def visit_def)
qed

text \<open>With free slot locks the search ends at \<open>z\<close> or at an occupied slot before it.\<close>

lemma evict_search_finds:
  assumes "lru_ok l" "0 \<le> z" "z < lru_capacity l" "row_ids l ! nat z \<noteq> - 1"
    and "steps_to z l \<le> int n" "evict_hand l + steps_to z l < 2 ^ 31"
  shows "\<exists>slot l'. evict_search (\<lambda>_. True) n l = Inr (row_ids l ! nat slot, l') \<and> lru_ok l' \<and>
    l' = l\<lparr>evict_hand := evict_hand l', stale := stale l'\<rparr> \<and>
    0 \<le> slot \<and> slot < lru_capacity l \<and> row_ids l ! nat slot \<noteq> - 1 \<and>
    (slot = z \<or> steps_to z l' < steps_to z l \<and> evict_hand l' + steps_to z l' = evict_hand l + steps_to z l) \<and>
    evict_hand l' \<le> evict_hand l + steps_to z l"
  using assms
proof (induction n arbitrary: l)
  case 0
  then show ?case using steps_bounds [of l z] by (simp add: lru_ok_def)
next
  case (Suc n)
  let ?s = "evict_hand l mod lru_capacity l"
  have c: "0 < lru_capacity l" using Suc.prems(1) by (simp add: lru_ok_def)
  have s1: "1 \<le> steps_to z l" using steps_bounds [OF c] by simp
  have r: "0 \<le> ?s" "?s < lru_capacity l" using c by simp_all
  have h: "evict_hand l < 2 ^ 31 - 1" using Suc.prems(6) s1 by linarith
  have v: "visit l = l\<lparr>evict_hand := evict_hand (visit l), stale := stale (visit l)\<rparr>"
    "lru_capacity (visit l) = lru_capacity l" "row_ids (visit l) = row_ids l" "evict_hand (visit l) = evict_hand l + 1"
    by (simp_all add: visit_def)
  show ?case
  proof (cases "stale l ! nat ?s \<and> row_ids l ! nat ?s \<noteq> - 1")
    case True
    then have "evict_search (\<lambda>_. True) (Suc n) l = Inr (row_ids l ! nat ?s, visit l)"
      by (subst evict_search_step [OF Suc.prems(1) h]) (simp add: Let_def)
    moreover have "?s = z \<or> steps_to z (visit l) < steps_to z l \<and> evict_hand (visit l) + steps_to z (visit l) = evict_hand l + steps_to z l"
      using visit_steps [OF Suc.prems(1-3)] v(4) by auto
    moreover have "evict_hand (visit l) \<le> evict_hand l + steps_to z l" using v(4) s1 by simp
    ultimately show ?thesis using True r v(1) visit_ok [OF Suc.prems(1)] by blast
  next
    case False
    then have e: "evict_search (\<lambda>_. True) (Suc n) l = evict_search (\<lambda>_. True) n (visit l)"
      by (subst evict_search_step [OF Suc.prems(1) h]) (auto simp: Let_def)
    have st: "steps_to z (visit l) = steps_to z l - 1"
      using False Suc.prems(4) by (intro visit_steps [OF Suc.prems(1-3)]) auto
    have "\<exists>slot l'. evict_search (\<lambda>_. True) n (visit l) = Inr (row_ids (visit l) ! nat slot, l') \<and> lru_ok l' \<and>
        l' = (visit l)\<lparr>evict_hand := evict_hand l', stale := stale l'\<rparr> \<and>
        0 \<le> slot \<and> slot < lru_capacity (visit l) \<and> row_ids (visit l) ! nat slot \<noteq> - 1 \<and>
        (slot = z \<or> steps_to z l' < steps_to z (visit l) \<and>
           evict_hand l' + steps_to z l' = evict_hand (visit l) + steps_to z (visit l)) \<and>
        evict_hand l' \<le> evict_hand (visit l) + steps_to z (visit l)"
      using Suc.prems st v visit_ok [OF Suc.prems(1)] by (intro Suc.IH) auto
    then obtain slot l' where i: "evict_search (\<lambda>_. True) n (visit l) = Inr (row_ids l ! nat slot, l')" "lru_ok l'"
      "l' = (visit l)\<lparr>evict_hand := evict_hand l', stale := stale l'\<rparr>" "0 \<le> slot" "slot < lru_capacity l"
      "row_ids l ! nat slot \<noteq> - 1"
      "slot = z \<or> steps_to z l' < steps_to z (visit l) \<and> evict_hand l' + steps_to z l' = evict_hand (visit l) + steps_to z (visit l)"
      "evict_hand l' \<le> evict_hand (visit l) + steps_to z (visit l)"
      unfolding v(2,3) by blast
    have "l' = l\<lparr>evict_hand := evict_hand l', stale := stale l'\<rparr>" using i(3) by (simp add: visit_def)
    with e i st v(4) show ?thesis by (intro exI [of _ slot] exI [of _ l']) auto
  qed
qed


section \<open>The cache\<close>

definition occupied :: "clock_lru \<Rightarrow> nat" where
  "occupied l = length (filter (\<lambda>r. r \<noteq> - 1) (row_ids l))"

text \<open>
  The map, the slots and the heap agree: an entry's slot holds its row, a slot
  with a row belongs to an entry, and the entries point to different live rows.
\<close>

definition entries_ok :: "'m storage_map \<Rightarrow> 'm \<Rightarrow> clock_lru \<Rightarrow> 'd row_heap \<Rightarrow> bool" where
  "entries_ok ck m l h \<longleftrightarrow>
     (\<forall>row p slot. ck_find ck m row = Some (p, slot) \<longrightarrow> row \<noteq> - 1 \<and> 0 \<le> slot \<and>
        slot < lru_capacity l \<and> row_ids l ! nat slot = row \<and> h p \<noteq> None) \<and>
     (\<forall>slot. 0 \<le> slot \<and> slot < lru_capacity l \<and> row_ids l ! nat slot \<noteq> - 1 \<longrightarrow>
        (\<exists>p. ck_find ck m (row_ids l ! nat slot) = Some (p, slot))) \<and>
     (\<forall>r1 r2 p s1 s2. ck_find ck m r1 = Some (p, s1) \<and> ck_find ck m r2 = Some (p, s2) \<longrightarrow> r1 = r2)"

definition cache_ok :: "'m storage_map \<Rightarrow> ('m \<Rightarrow> bool) \<Rightarrow> ('m, 'd) process_storage \<Rightarrow> bool" where
  "cache_ok ck minv s \<longleftrightarrow> minv (ps_map s) \<and> lru_ok (ps_lru s) \<and> ps_capacity s = lru_capacity (ps_lru s) \<and>
     ps_num_rows s = int (occupied (ps_lru s)) \<and> entries_ok ck (ps_map s) (ps_lru s) (ps_heap s)"

lemma entry_slot:
  assumes "entries_ok ck m l h" "ck_find ck m row = Some (p, slot)"
  shows "row \<noteq> - 1" "0 \<le> slot" "slot < lru_capacity l" "row_ids l ! nat slot = row" "h p \<noteq> None"
  using assms unfolding entries_ok_def by blast+

lemma slot_entry:
  assumes "entries_ok ck m l h" "0 \<le> slot" "slot < lru_capacity l" "row_ids l ! nat slot \<noteq> - 1"
  shows "\<exists>p. ck_find ck m (row_ids l ! nat slot) = Some (p, slot)"
  using assms unfolding entries_ok_def by blast

lemma entry_inj:
  "entries_ok ck m l h \<Longrightarrow> ck_find ck m r1 = Some (p, s1) \<Longrightarrow> ck_find ck m r2 = Some (p, s2) \<Longrightarrow> r1 = r2"
  unfolding entries_ok_def by blast

lemma occupied_le: "lru_ok l \<Longrightarrow> int (occupied l) \<le> lru_capacity l"
proof -
  assume "lru_ok l"
  then have "occupied l \<le> nat (lru_capacity l)" "0 < lru_capacity l"
    unfolding occupied_def lru_ok_def by (metis length_filter_le, simp)
  then show ?thesis by simp
qed

lemma occupied_update:
  assumes "i < length (row_ids l)"
  shows "occupied (l\<lparr>row_ids := (row_ids l)[i := v]\<rparr>) + (if row_ids l ! i = - 1 then 0 else 1) =
    occupied l + (if v = - 1 then 0 else 1)"
proof -
  let ?xs = "row_ids l"
  have s: "?xs = take i ?xs @ ?xs ! i # drop (Suc i) ?xs" "?xs[i := v] = take i ?xs @ v # drop (Suc i) ?xs"
    using assms by (simp_all add: id_take_nth_drop upd_conv_take_nth_drop)
  have "occupied l = length (filter (\<lambda>r. r \<noteq> - 1) (take i ?xs @ ?xs ! i # drop (Suc i) ?xs))"
    unfolding occupied_def by (subst (1) s(1)) (rule refl)
  then show ?thesis unfolding occupied_def clock_lru.simps s(2) by simp
qed

lemma entries_ok_lru:
  "entries_ok ck m l h \<Longrightarrow> lru_capacity l' = lru_capacity l \<Longrightarrow> row_ids l' = row_ids l \<Longrightarrow> entries_ok ck m l' h"
  by (simp add: entries_ok_def)

lemma entries_ok_heap:
  "entries_ok ck m l h \<Longrightarrow> (\<And>p. h p \<noteq> None \<Longrightarrow> (\<exists>row slot. ck_find ck m row = Some (p, slot)) \<Longrightarrow> h' p \<noteq> None) \<Longrightarrow>
   entries_ok ck m l h'"
  unfolding entries_ok_def by blast

text \<open>One slot is emptied, or an empty slot is filled.\<close>

lemma lru_ok_Evict:
  assumes lo: "lru_ok l" and sl: "0 \<le> slot" "slot < lru_capacity l" "row_ids l ! nat slot \<noteq> - 1"
  shows "lru_ok (l\<lparr>row_ids := (row_ids l)[nat slot := - 1], empty_slots := empty_slots l @ [slot]\<rparr>)"
proof -
  have len: "nat slot < length (row_ids l)" using lo sl by (simp add: lru_ok_def)
  have upd: "(row_ids l)[nat slot := - 1] ! nat i = (if i = slot then - 1 else row_ids l ! nat i)" if "0 \<le> i" for i
    using that sl len by (auto simp: nth_list_update)
  have ih: "slot < insert_hand l" using lo sl unfolding lru_ok_def by (metis linorder_not_le)
  have ni: "slot \<notin> set (empty_slots l)" using lo sl by (auto simp: lru_ok_def)
  show ?thesis using lo ih ni sl upd unfolding lru_ok_def by auto
qed

lemma FindEmptySlot_ok:
  assumes lo: "lru_ok l" and room: "occupied l < nat (lru_capacity l)" and row: "row \<noteq> - 1"
  shows "\<exists>slot l'. FindEmptySlot l = Inr (slot, l') \<and> 0 \<le> slot \<and> slot < lru_capacity l \<and> row_ids l ! nat slot = - 1 \<and>
    l' = l\<lparr>insert_hand := insert_hand l', empty_slots := empty_slots l'\<rparr> \<and>
    lru_ok (l'\<lparr>row_ids := (row_ids l)[nat slot := row], stale := (stale l)[nat slot := False]\<rparr>)"
proof (cases "empty_slots l")
  case (Cons slot q)
  have sl: "0 \<le> slot" "slot < insert_hand l" "row_ids l ! nat slot = - 1" using lo Cons by (auto simp: lru_ok_def)
  have ic: "insert_hand l \<le> lru_capacity l" using lo by (simp add: lru_ok_def)
  have len: "nat slot < length (row_ids l)" using lo sl by (simp add: lru_ok_def)
  have upd: "(row_ids l)[nat slot := row] ! nat i = (if i = slot then row else row_ids l ! nat i)" if "0 \<le> i" for i
    using that sl len by (auto simp: nth_list_update)
  have "FindEmptySlot l = Inr (slot, l\<lparr>empty_slots := q\<rparr>)"
    using Cons sl len by (simp add: FindEmptySlot_def mtq_pop_def vec_at_def Let_def)
  moreover have "lru_ok (l\<lparr>empty_slots := q, row_ids := (row_ids l)[nat slot := row], stale := (stale l)[nat slot := False]\<rparr>)"
  proof -
    have d: "distinct (slot # q)" and st: "\<forall>i. i \<in> set (slot # q) \<longleftrightarrow> 0 \<le> i \<and> i < insert_hand l \<and> row_ids l ! nat i = - 1"
      using lo Cons by (auto simp: lru_ok_def)
    have "i \<in> set q \<longleftrightarrow> 0 \<le> i \<and> i < insert_hand l \<and> (row_ids l)[nat slot := row] ! nat i = - 1" for i
      using d st [rule_format, of i] upd [of i] row by (cases "i = slot") auto
    with lo d sl upd ic show ?thesis by (auto simp: lru_ok_def)
  qed
  ultimately show ?thesis using sl ic by (intro exI [of _ slot] exI [of _ "l\<lparr>empty_slots := q\<rparr>"]) simp
next
  case Nil
  let ?h = "insert_hand l"
  have lt: "?h < lru_capacity l"
  proof (rule ccontr)
    assume "\<not> ?h < lru_capacity l"
    then have "\<forall>i. 0 \<le> i \<and> i < lru_capacity l \<longrightarrow> row_ids l ! nat i \<noteq> - 1" using lo Nil by (auto simp: lru_ok_def)
    then have "\<forall>n < length (row_ids l). row_ids l ! n \<noteq> - 1" using lo by (metis lru_ok_def int_nat_eq nat_int of_nat_0_le_iff zless_nat_eq_int_zless)
    then have "filter (\<lambda>r. r \<noteq> - 1) (row_ids l) = row_ids l" by (auto simp: filter_id_conv in_set_conv_nth)
    then show False using room lo by (simp add: occupied_def lru_ok_def)
  qed
  have nn: "0 \<le> ?h" "0 < lru_capacity l" "lru_capacity l < 2 ^ 31" and em: "row_ids l ! nat ?h = - 1"
    using lo lt by (auto simp: lru_ok_def)
  have len: "nat ?h < length (row_ids l)" using lo lt nn by (simp add: lru_ok_def)
  have upd: "(row_ids l)[nat ?h := row] ! nat i = (if i = ?h then row else row_ids l ! nat i)" if "0 \<le> i" for i
    using that nn len by (auto simp: nth_list_update)
  have cm: "c_mod ?h (lru_capacity l) = Inr ?h" using nn lt by (simp add: c_mod_def smod_nonneg)
  have su: "i32_succ ?h = ?h + 1" using lt nn by (simp add: i32_succ_def)
  have "FindEmptySlot l = Inr (?h, l\<lparr>insert_hand := ?h + 1, empty_slots := []\<rparr>)"
    using Nil cm su lt nn em len by (simp add: FindEmptySlot_def mtq_pop_def vec_at_def Let_def)
  moreover have "lru_ok (l\<lparr>insert_hand := ?h + 1, empty_slots := [], row_ids := (row_ids l)[nat ?h := row], stale := (stale l)[nat ?h := False]\<rparr>)"
  proof -
    have "\<not> (0 \<le> i \<and> i < ?h + 1 \<and> (row_ids l)[nat ?h := row] ! nat i = - 1)" for i
    proof (cases "i = ?h")
      case True
      then show ?thesis using upd [of i] row nn by simp
    next
      case False
      have "\<not> (0 \<le> i \<and> i < ?h \<and> row_ids l ! nat i = - 1)" using lo Nil by (auto simp: lru_ok_def)
      then show ?thesis using False upd [of i] by auto
    qed
    with lo lt nn upd show ?thesis by (auto simp: lru_ok_def)
  qed
  ultimately show ?thesis using nn lt em
    by (intro exI [of _ ?h] exI [of _ "l\<lparr>insert_hand := ?h + 1, empty_slots := []\<rparr>"]) simp
qed

locale row_cache = cuckoo_map ck ck_inv
  for ck :: "('m, int, nat \<times> int) cuckoo" and ck_inv :: "'m \<Rightarrow> bool"
begin

lemma entries_erase:
  assumes ok: "entries_ok ck m l h" and ci: "ck_inv m" and f: "ck_find ck m row = Some (p, slot)"
    and lo: "lru_ok l" and h: "\<forall>q. q \<noteq> p \<longrightarrow> h' q = h q"
    and l': "lru_capacity l' = lru_capacity l" "row_ids l' = (row_ids l)[nat slot := - 1]"
  shows "entries_ok ck (snd (ck_erase ck row m)) l' h'"
proof -
  note sl = entry_slot [OF ok f]
  have len: "nat slot < length (row_ids l)" using lo sl by (simp add: lru_ok_def)
  have upd: "row_ids l' ! nat i = (if i = slot then - 1 else row_ids l ! nat i)" if "0 \<le> i" for i
    using that sl len by (auto simp: l' nth_list_update)
  have fm: "ck_find ck (snd (ck_erase ck row m)) r = (if r = row then None else ck_find ck m r)" for r
    using ci by (rule erase_find)
  have other: "s1 \<noteq> slot \<and> p1 \<noteq> p" if "ck_find ck m r = Some (p1, s1)" "r \<noteq> row" for r p1 s1
    using entry_slot(4) [OF ok that(1)] sl(4) that(2) entry_inj [OF ok that(1)] f by auto
  show ?thesis
    unfolding entries_ok_def fm
  proof (intro conjI allI impI)
    fix r p1 s1 assume "(if r = row then None else ck_find ck m r) = Some (p1, s1)"
    then have b: "ck_find ck m r = Some (p1, s1)" "r \<noteq> row" by (auto split: if_splits)
    note e = entry_slot [OF ok b(1)] other [OF b]
    show "r \<noteq> - 1" "0 \<le> s1" "s1 < lru_capacity l'" "row_ids l' ! nat s1 = r" "h' p1 \<noteq> None"
      using e upd [of s1] h l' by auto
  next
    fix s1 assume a: "0 \<le> s1 \<and> s1 < lru_capacity l' \<and> row_ids l' ! nat s1 \<noteq> - 1"
    then have b: "0 \<le> s1" "s1 < lru_capacity l" "s1 \<noteq> slot" "row_ids l ! nat s1 \<noteq> - 1" "row_ids l' ! nat s1 = row_ids l ! nat s1"
      using upd [of s1] l' by (auto split: if_splits)
    then obtain p1 where p1: "ck_find ck m (row_ids l ! nat s1) = Some (p1, s1)" using slot_entry [OF ok] by blast
    then have "row_ids l ! nat s1 \<noteq> row" using f b(3) by auto
    then show "\<exists>p. (if row_ids l' ! nat s1 = row then None else ck_find ck m (row_ids l' ! nat s1)) = Some (p, s1)"
      using p1 b(5) by simp
  next
    fix r1 r2 p1 s1 s2
    assume "(if r1 = row then None else ck_find ck m r1) = Some (p1, s1) \<and> (if r2 = row then None else ck_find ck m r2) = Some (p1, s2)"
    then show "r1 = r2" using entry_inj [OF ok] by (auto split: if_splits)
  qed
qed

text \<open>The eviction loop, for the sake of some row without references in slot \<open>z\<close>.\<close>

lemma evict_loop_ok:
  assumes "cache_ok ck ck_inv s" "0 \<le> z" "z < lru_capacity (ps_lru s)"
    and "ck_find ck (ps_map s) (row_ids (ps_lru s) ! nat z) = Some (pz, z)" "ps_heap s pz = Some rz" "HasZeroRef rz"
    and "steps_to z (ps_lru s) \<le> int n" "evict_hand (ps_lru s) + steps_to z (ps_lru s) < 2 ^ 31"
  shows "\<exists>row p slot r s'. evict_loop n ck (\<lambda>_ _. True) keep s = Inr (row, p, s') \<and>
    ck_find ck (ps_map s) row = Some (p, slot) \<and> ps_heap s p = Some r \<and> HasZeroRef r \<and>
    cache_ok ck ck_inv (s'\<lparr>ps_num_rows := ps_num_rows s - 1\<rparr>) \<and> ps_num_rows s' = ps_num_rows s \<and>
    ps_capacity s' = ps_capacity s \<and>
    ps_heap s' = (if keep then ps_heap s else (ps_heap s)(p := None)) \<and>
    ck_find ck (ps_map s') = (ck_find ck (ps_map s))(row := None) \<and>
    evict_hand (ps_lru s') \<le> evict_hand (ps_lru s) + steps_to z (ps_lru s)"
  using assms
proof (induction n arbitrary: s)
  case 0
  then show ?case using steps_bounds [of "ps_lru s" z] by (simp add: cache_ok_def lru_ok_def)
next
  case (Suc n)
  let ?l = "ps_lru s" and ?m = "ps_map s"
  have lo: "lru_ok ?l" and en: "entries_ok ck ?m ?l (ps_heap s)" and ci: "ck_inv ?m"
    using Suc.prems(1) by (simp_all add: cache_ok_def)
  have c: "0 < lru_capacity ?l" using lo by (simp add: lru_ok_def)
  have zo: "row_ids ?l ! nat z \<noteq> - 1" using entry_slot(1) [OF en Suc.prems(4)] .
  have "steps_to z ?l \<le> int (nat (MAX_NUM_ROUNDS * lru_capacity ?l))"
    using steps_bounds [OF c, of z] c by (simp add: MAX_NUM_ROUNDS_def)
  from evict_search_finds [OF lo Suc.prems(2,3) zo this Suc.prems(8)]
  obtain slot l' where l': "FindOneToEvict (\<lambda>_. True) ?l = Inr (row_ids ?l ! nat slot, l')" "lru_ok l'"
    "l' = ?l\<lparr>evict_hand := evict_hand l', stale := stale l'\<rparr>" "0 \<le> slot" "slot < lru_capacity ?l"
    "row_ids ?l ! nat slot \<noteq> - 1"
    "slot = z \<or> steps_to z l' < steps_to z ?l \<and> evict_hand l' + steps_to z l' = evict_hand ?l + steps_to z ?l"
    "evict_hand l' \<le> evict_hand ?l + steps_to z ?l"
    unfolding FindOneToEvict_def by blast
  have l'r: "lru_capacity l' = lru_capacity ?l" "row_ids l' = row_ids ?l" "empty_slots l' = empty_slots ?l"
    using l'(3) by (metis clock_lru.select_convs clock_lru.surjective clock_lru.update_convs)+
  let ?row = "row_ids ?l ! nat slot"
  obtain p where p: "ck_find ck ?m ?row = Some (p, slot)" using slot_entry [OF en l'(4-6)] by blast
  obtain r where r: "ps_heap s p = Some r" using entry_slot(5) [OF en p] by blast
  show ?case
  proof (cases "HasZeroRef r")
    case True
    define h where "h = (if keep then ps_heap s else (ps_heap s)(p := None))"
    define l2 where "l2 = l'\<lparr>row_ids := (row_ids ?l)[nat slot := - 1], empty_slots := empty_slots ?l @ [slot]\<rparr>"
    define s' where "s' = s\<lparr>ps_heap := h, ps_map := snd (ck_erase ck ?row ?m), ps_lru := l2\<rparr>"
    have len: "nat slot < length (row_ids l')" using l' l'r lo by (simp add: lru_ok_def)
    have ev: "lru_Evict slot l' = Inr l2"
      using len l'(4) l'r by (simp add: lru_Evict_def set_row_id_def vec_at_def mtq_push_def l2_def)
    have "evict_loop (Suc n) ck (\<lambda>_ _. True) keep s = Inr (?row, p, s')"
      using l'(1) p r True ev by (simp add: deref_def s'_def h_def Let_def)
    moreover have "lru_ok l2"
      using lru_ok_Evict [OF l'(2), of slot] l' l'r unfolding l2_def by simp
    moreover have "entries_ok ck (snd (ck_erase ck ?row ?m)) l2 h"
      by (rule entries_erase [OF en ci p lo]) (auto simp: h_def l2_def l'r)
    moreover have "occupied l2 + 1 = occupied ?l"
      using occupied_update [OF len, of "- 1"] l'(6) by (simp add: l2_def l'r occupied_def)
    moreover have "ck_find ck (snd (ck_erase ck ?row ?m)) = (ck_find ck ?m)(?row := None)"
      using erase_find [OF ci] by (auto simp: fun_eq_iff)
    ultimately show ?thesis
      using Suc.prems(1) p r True erase_inv [OF ci] l'r l'(8)
      by (intro exI [of _ ?row] exI [of _ p] exI [of _ slot] exI [of _ r] exI [of _ s'])
        (auto simp: cache_ok_def s'_def h_def l2_def)
  next
    case False
    let ?s = "s\<lparr>ps_lru := l'\<rparr>"
    have "slot \<noteq> z" using False r p Suc.prems(4-6) by auto
    then have st: "steps_to z l' < steps_to z ?l" "evict_hand l' + steps_to z l' = evict_hand ?l + steps_to z ?l"
      using l'(7) by auto
    have e: "evict_loop (Suc n) ck (\<lambda>_ _. True) keep s = evict_loop n ck (\<lambda>_ _. True) keep ?s"
      using l'(1) p r False by (simp add: deref_def lru_NoEvict_def Let_def)
    have "cache_ok ck ck_inv ?s"
      using Suc.prems(1) l' l'r entries_ok_lru [OF en] by (simp add: cache_ok_def occupied_def)
    then show ?thesis
      unfolding e using Suc.IH [of ?s] Suc.prems st l'r by (cases keep) simp_all
  qed
qed

text \<open>Filling a slot.\<close>

lemma put_row_ok:
  assumes ok: "cache_ok ck ck_inv s" and room: "occupied (ps_lru s) < nat (ps_capacity s)"
    and new: "ck_find ck (ps_map s) row = None" "row \<noteq> - 1" "ps_heap s p \<noteq> None"
    and fresh: "\<forall>r slot. ck_find ck (ps_map s) r \<noteq> Some (p, slot)"
  shows "\<exists>slot s'. put_row ck row p s = Inr s' \<and> cache_ok ck ck_inv (s'\<lparr>ps_num_rows := ps_num_rows s + 1\<rparr>) \<and>
    ps_num_rows s' = ps_num_rows s \<and> ps_capacity s' = ps_capacity s \<and> ps_heap s' = ps_heap s \<and>
    evict_hand (ps_lru s') = evict_hand (ps_lru s) \<and>
    ck_find ck (ps_map s') = (ck_find ck (ps_map s))(row \<mapsto> (p, slot))"
proof -
  let ?l = "ps_lru s" and ?m = "ps_map s"
  have lo: "lru_ok ?l" and en: "entries_ok ck ?m ?l (ps_heap s)" and ci: "ck_inv ?m" and cap: "ps_capacity s = lru_capacity ?l"
    using ok by (simp_all add: cache_ok_def)
  have rm: "occupied ?l < nat (lru_capacity ?l)" using room cap by simp
  from FindEmptySlot_ok [OF lo rm new(2)] obtain slot l1 where
    l1: "FindEmptySlot ?l = Inr (slot, l1)" "0 \<le> slot" "slot < lru_capacity ?l" "row_ids ?l ! nat slot = - 1"
      "l1 = ?l\<lparr>insert_hand := insert_hand l1, empty_slots := empty_slots l1\<rparr>"
      "lru_ok (l1\<lparr>row_ids := (row_ids ?l)[nat slot := row], stale := (stale ?l)[nat slot := False]\<rparr>)"
    by blast
  define l2 where "l2 = l1\<lparr>stale := (stale ?l)[nat slot := False], row_ids := (row_ids ?l)[nat slot := row]\<rparr>"
  have l1r: "lru_capacity l1 = lru_capacity ?l" "row_ids l1 = row_ids ?l" "stale l1 = stale ?l" "evict_hand l1 = evict_hand ?l"
    using l1(5) by (metis clock_lru.select_convs clock_lru.surjective clock_lru.update_convs)+
  have len: "nat slot < length (row_ids ?l)" "nat slot < length (stale ?l)" using lo l1(2,3) by (simp_all add: lru_ok_def)
  have ins: "lru_Insert row ?l = Inr (slot, l2)"
    using l1(1,2) len l1r by (simp add: lru_Insert_def set_stale_def set_row_id_def vec_at_def l2_def)
  let ?m' = "snd (ck_insert ck row (p, slot) ?m)"
  have fm: "ck_find ck ?m' = (ck_find ck ?m)(row \<mapsto> (p, slot))" using insert_fresh [OF ci new(1)] .
  have put: "put_row ck row p s = Inr (s\<lparr>ps_lru := l2, ps_map := ?m'\<rparr>)"
    using ins insert_ret [OF ci, of row "(p, slot)"] new(1)
    by (cases "ck_insert ck row (p, slot) ?m") (simp add: put_row_def)
  have lo2: "lru_ok l2" using l1(6) by (simp add: l2_def lru_ok_def)
  have upd: "row_ids l2 ! nat i = (if i = slot then row else row_ids ?l ! nat i)" if "0 \<le> i" for i
    using that l1(2) len by (auto simp: l2_def nth_list_update)
  have c2: "lru_capacity l2 = lru_capacity ?l" by (simp add: l2_def l1r)
  have "entries_ok ck ?m' l2 (ps_heap s)"
    unfolding entries_ok_def fm c2
  proof (intro conjI allI impI)
    fix r q s1 assume a: "((ck_find ck ?m)(row \<mapsto> (p, slot))) r = Some (q, s1)"
    have "s1 \<noteq> slot" if "r \<noteq> row" using a that entry_slot(1,4) [OF en, of r q s1] l1(4) by auto
    then show "r \<noteq> - 1" "0 \<le> s1" "s1 < lru_capacity ?l" "row_ids l2 ! nat s1 = r" "ps_heap s q \<noteq> None"
      using a new l1 upd [of s1] entry_slot [OF en, of r q s1] by (auto split: if_splits)
  next
    fix s1 assume a: "0 \<le> s1 \<and> s1 < lru_capacity ?l \<and> row_ids l2 ! nat s1 \<noteq> - 1"
    show "\<exists>q. ((ck_find ck ?m)(row \<mapsto> (p, slot))) (row_ids l2 ! nat s1) = Some (q, s1)"
    proof (cases "s1 = slot")
      case True
      then show ?thesis using upd [of s1] a by simp
    next
      case False
      then obtain q where q: "ck_find ck ?m (row_ids ?l ! nat s1) = Some (q, s1)"
        using slot_entry [OF en, of s1] a upd [of s1] by auto
      then have "row_ids ?l ! nat s1 \<noteq> row" using new(1) by auto
      then show ?thesis using q False a upd [of s1] by simp
    qed
  next
    fix r1 r2 q s1 s2
    assume "((ck_find ck ?m)(row \<mapsto> (p, slot))) r1 = Some (q, s1) \<and> ((ck_find ck ?m)(row \<mapsto> (p, slot))) r2 = Some (q, s2)"
    then show "r1 = r2" using fresh entry_inj [OF en] by (auto split: if_splits)
  qed
  moreover have "occupied l2 = occupied ?l + 1"
    using occupied_update [OF len(1), of row] l1(4) new(2) by (simp add: l2_def occupied_def)
  ultimately show ?thesis
    using put ok lo2 insert_inv [OF ci] fm c2 l1r
    by (intro exI [of _ slot] exI [of _ "s\<lparr>ps_lru := l2, ps_map := ?m'\<rparr>"]) (auto simp: cache_ok_def l2_def)
qed

lemma put_row_num: "put_row ck row p (s\<lparr>ps_num_rows := k\<rparr>) = rbind (put_row ck row p s) (\<lambda>s. Inr (s\<lparr>ps_num_rows := k\<rparr>))"
  by (simp add: put_row_def rbind_assoc Let_def split: prod.splits)
    (auto simp: rbind_def check_def split: sum.splits prod.splits)

text \<open>The row is already cached: clock and data are replaced.\<close>

lemma FindAndUpdate_hit:
  assumes ok: "cache_ok ck ck_inv s" and f: "ck_find ck (ps_map s) row = Some (p, slot)"
    and new: "ps_heap s c = Some rc" "\<forall>r slot. ck_find ck (ps_map s) r \<noteq> Some (c, slot)"
  shows "\<exists>s' r. FindAndUpdate ck row c s = Inr (True, s') \<and> cache_ok ck ck_inv s' \<and> ps_map s' = ps_map s \<and>
    ps_num_rows s' = ps_num_rows s \<and> ps_capacity s' = ps_capacity s \<and>
    ps_heap s' = (ps_heap s)(p \<mapsto> r, c := None) \<and> cr_data r = cr_data rc \<and> cr_clock r = cr_clock rc"
proof -
  let ?l = "ps_lru s"
  have lo: "lru_ok ?l" and en: "entries_ok ck (ps_map s) ?l (ps_heap s)" using ok by (simp_all add: cache_ok_def)
  note sl = entry_slot [OF en f]
  obtain r where r: "ps_heap s p = Some r" using sl(5) by blast
  let ?r = "r\<lparr>cr_clock := cr_clock rc, cr_data := cr_data rc\<rparr>"
  let ?l' = "?l\<lparr>stale := (stale ?l)[nat slot := False]\<rparr>" and ?h = "(ps_heap s)(p \<mapsto> ?r, c := None)"
  have ref: "lru_Reference slot ?l = Inr ?l'"
    using sl lo by (simp add: lru_Reference_def set_stale_def vec_at_def lru_ok_def)
  have lo': "lru_ok ?l'" using lo by (simp add: lru_ok_def)
  have "entries_ok ck (ps_map s) ?l ?h" using en new(2) by (intro entries_ok_heap [OF en]) auto
  then have en': "entries_ok ck (ps_map s) ?l' ?h" by (rule entries_ok_lru) simp_all
  have "FindAndUpdate ck row c s = Inr (True, s\<lparr>ps_heap := ?h, ps_lru := ?l'\<rparr>)"
    using f ref r new(1) by (simp add: FindAndUpdate_def SwapAndDestroy_def deref_def)
  with lo' en' ok show ?thesis
    by (intro exI [of _ "s\<lparr>ps_heap := ?h, ps_lru := ?l'\<rparr>"] exI [of _ ?r]) (auto simp: cache_ok_def occupied_def)
qed

end

interpretation alist_cache: row_cache "alist_cuckoo :: ((int, nat \<times> int) amap, int, nat \<times> int) cuckoo" amap_ok
  by unfold_locales

text \<open>The row is not cached: room is made and the row is put into a slot.\<close>

lemma insert_miss:
  assumes law: "cuckoo_map ck minv" and ok: "cache_ok ck minv s" and row: "row \<noteq> - 1" "ck_find ck (ps_map s) row = None"
    and new: "ps_heap s c = Some rc" "\<forall>r slot. ck_find ck (ps_map s) r \<noteq> Some (c, slot)"
    and idle: "ps_num_rows s = ps_capacity s \<longrightarrow>
      (\<exists>r p slot x. ck_find ck (ps_map s) r = Some (p, slot) \<and> ps_heap s p = Some x \<and> HasZeroRef x)"
    and bounds: "ps_capacity s < 2 ^ 31 - 1" "evict_hand (ps_lru s) + 2 * ps_capacity s < 2 ^ 31" "2 * ps_capacity s \<le> int fuel"
  shows "\<exists>s2 ev. make_room fuel ck (\<lambda>_ _. True) keep s = Inr (map_option (\<lambda>(e, p, slot, x). (e, p)) ev, s2) \<and>
    (\<exists>k. cache_ok ck minv (s2\<lparr>ps_num_rows := k\<rparr>) \<and> ps_num_rows s2 = k + 1) \<and>
    ps_num_rows s2 \<le> ps_capacity s \<and> ps_capacity s2 = ps_capacity s \<and>
    evict_hand (ps_lru s2) \<le> evict_hand (ps_lru s) + 2 * ps_capacity s \<and>
    (case ev of
       None \<Rightarrow> ps_map s2 = ps_map s \<and> ps_heap s2 = ps_heap s
     | Some (e, p, slot, x) \<Rightarrow> ps_num_rows s = ps_capacity s \<and> ck_find ck (ps_map s) e = Some (p, slot) \<and>
         ps_heap s p = Some x \<and> HasZeroRef x \<and> ps_heap s2 = (if keep then ps_heap s else (ps_heap s)(p := None)) \<and>
         ck_find ck (ps_map s2) = (ck_find ck (ps_map s))(e := None))"
proof -
  have rc: "row_cache ck minv" using law by (simp add: row_cache_def)
  have lo: "lru_ok (ps_lru s)" and en: "entries_ok ck (ps_map s) (ps_lru s) (ps_heap s)"
    and cap: "ps_capacity s = lru_capacity (ps_lru s)" "ps_num_rows s = int (occupied (ps_lru s))"
    using ok by (simp_all add: cache_ok_def)
  have le: "ps_num_rows s \<le> ps_capacity s" using occupied_le [OF lo] cap by simp
  then have su: "i32_succ (ps_num_rows s) = ps_num_rows s + 1" using bounds(1) by (simp add: i32_succ_def)
  show ?thesis
  proof (cases "ps_num_rows s = ps_capacity s")
    case False
    then have "make_room fuel ck (\<lambda>_ _. True) keep s = Inr (None, s\<lparr>ps_num_rows := ps_num_rows s + 1\<rparr>)"
      using le su by (simp add: make_room_def Let_def)
    moreover have "0 \<le> ps_capacity s" using lo cap by (simp add: lru_ok_def)
    ultimately show ?thesis using False le ok
      by (intro exI [of _ "s\<lparr>ps_num_rows := ps_num_rows s + 1\<rparr>"] exI [of _ None]) simp
  next
    case True
    with idle obtain r p z x where z: "ck_find ck (ps_map s) r = Some (p, z)" "ps_heap s p = Some x" "HasZeroRef x" by blast
    note zs = entry_slot [OF en z(1)]
    have c: "0 < lru_capacity (ps_lru s)" using lo by (simp add: lru_ok_def)
    have st: "steps_to z (ps_lru s) \<le> int fuel" "evict_hand (ps_lru s) + steps_to z (ps_lru s) < 2 ^ 31"
      using steps_bounds [OF c, of z] bounds cap by simp_all
    have zz: "ck_find ck (ps_map s) (row_ids (ps_lru s) ! nat z) = Some (p, z)" using z zs by simp
    from row_cache.evict_loop_ok [OF rc ok zs(2,3) zz z(2,3) st, of keep]
    obtain e q slot y s2 where e: "evict_loop fuel ck (\<lambda>_ _. True) keep s = Inr (e, q, s2)"
      "ck_find ck (ps_map s) e = Some (q, slot)" "ps_heap s q = Some y" "HasZeroRef y"
      "cache_ok ck minv (s2\<lparr>ps_num_rows := ps_num_rows s - 1\<rparr>)" "ps_num_rows s2 = ps_num_rows s"
      "ps_capacity s2 = ps_capacity s" "ps_heap s2 = (if keep then ps_heap s else (ps_heap s)(q := None))"
      "ck_find ck (ps_map s2) = (ck_find ck (ps_map s))(e := None)"
      "evict_hand (ps_lru s2) \<le> evict_hand (ps_lru s) + steps_to z (ps_lru s)" by auto
    have ss: "s\<lparr>ps_num_rows := ps_capacity s\<rparr> = s" using True [symmetric] by simp
    have "evict_loop fuel ck (\<lambda>_ _. True) keep (s\<lparr>ps_num_rows := ps_capacity s\<rparr>) = Inr (e, q, s2)"
      unfolding ss by (rule e(1))
    then have "make_room fuel ck (\<lambda>_ _. True) keep s = Inr (Some (e, q), s2)"
      using True su by (simp add: make_room_def Let_def)
    moreover have "evict_hand (ps_lru s2) \<le> evict_hand (ps_lru s) + 2 * ps_capacity s"
      using e(10) steps_bounds [OF c, of z] cap by simp
    ultimately show ?thesis using e True
      by (intro exI [of _ s2] exI [of _ "Some (e, q, slot, y)"]) (auto intro!: exI [of _ "ps_num_rows s - 1"])
  qed
qed

lemma insert_new:
  assumes law: "cuckoo_map ck minv" and ok: "cache_ok ck minv s" and row: "row \<noteq> - 1" "ck_find ck (ps_map s) row = None"
    and new: "ps_heap s c = Some rc" "\<forall>r slot. ck_find ck (ps_map s) r \<noteq> Some (c, slot)"
    and idle: "ps_num_rows s = ps_capacity s \<longrightarrow>
      (\<exists>r p slot x. ck_find ck (ps_map s) r = Some (p, slot) \<and> ps_heap s p = Some x \<and> HasZeroRef x)"
    and bounds: "ps_capacity s < 2 ^ 31 - 1" "evict_hand (ps_lru s) + 2 * ps_capacity s < 2 ^ 31" "2 * ps_capacity s \<le> int fuel"
  shows "\<exists>s2 s3 sl ev. make_room fuel ck (\<lambda>_ _. True) keep s = Inr (map_option (\<lambda>(e, p, slot, x). (e, p)) ev, s2) \<and>
    ck_find ck (ps_map s2) row = None \<and> put_row ck row c s2 = Inr s3 \<and> cache_ok ck minv s3 \<and>
    ps_capacity s3 = ps_capacity s \<and> evict_hand (ps_lru s3) \<le> evict_hand (ps_lru s) + 2 * ps_capacity s \<and>
    ps_heap s3 c = Some rc \<and>
    (case ev of
       None \<Rightarrow> ps_heap s3 = ps_heap s \<and> ck_find ck (ps_map s3) = (ck_find ck (ps_map s))(row \<mapsto> (c, sl))
     | Some (e, p, slot, x) \<Rightarrow> ps_num_rows s = ps_capacity s \<and> ck_find ck (ps_map s) e = Some (p, slot) \<and>
         ps_heap s p = Some x \<and> HasZeroRef x \<and> ps_heap s3 = (if keep then ps_heap s else (ps_heap s)(p := None)) \<and>
         ck_find ck (ps_map s3) = (ck_find ck (ps_map s))(e := None, row \<mapsto> (c, sl)))"
proof -
  have rc: "row_cache ck minv" using law by (simp add: row_cache_def)
  from insert_miss [OF law ok row new idle bounds, of keep] obtain s2 ev k where
    m: "make_room fuel ck (\<lambda>_ _. True) keep s = Inr (map_option (\<lambda>(e, p, slot, x). (e, p)) ev, s2)"
    "cache_ok ck minv (s2\<lparr>ps_num_rows := k\<rparr>)" "ps_num_rows s2 = k + 1" "ps_num_rows s2 \<le> ps_capacity s"
    "ps_capacity s2 = ps_capacity s" "evict_hand (ps_lru s2) \<le> evict_hand (ps_lru s) + 2 * ps_capacity s"
    "case ev of None \<Rightarrow> ps_map s2 = ps_map s \<and> ps_heap s2 = ps_heap s
      | Some (e, p, slot, x) \<Rightarrow> ps_num_rows s = ps_capacity s \<and> ck_find ck (ps_map s) e = Some (p, slot) \<and>
         ps_heap s p = Some x \<and> HasZeroRef x \<and> ps_heap s2 = (if keep then ps_heap s else (ps_heap s)(p := None)) \<and>
         ck_find ck (ps_map s2) = (ck_find ck (ps_map s))(e := None)" by blast
  have f2: "ck_find ck (ps_map s2) row = None" "ps_heap s2 c = Some rc" "\<forall>r slot. ck_find ck (ps_map s2) r \<noteq> Some (c, slot)"
    using m(7) row(2) new by (auto split: option.splits prod.splits if_splits)
  have "occupied (ps_lru s2) < nat (ps_capacity s2)" using m(2-5) by (simp add: cache_ok_def)
  then obtain sl s3 where s3: "put_row ck row c (s2\<lparr>ps_num_rows := k\<rparr>) = Inr s3" "cache_ok ck minv (s3\<lparr>ps_num_rows := k + 1\<rparr>)"
    "ps_num_rows s3 = k" "ps_capacity s3 = ps_capacity s2" "ps_heap s3 = ps_heap s2"
    "evict_hand (ps_lru s3) = evict_hand (ps_lru s2)" "ck_find ck (ps_map s3) = (ck_find ck (ps_map s2))(row \<mapsto> (c, sl))"
    using row_cache.put_row_ok [OF rc m(2) _ _ row(1), of c] f2 by auto
  let ?s = "s3\<lparr>ps_num_rows := k + 1\<rparr>"
  have s2: "s2\<lparr>ps_num_rows := k + 1\<rparr> = s2" using m(3) [symmetric] by simp
  have "put_row ck row c (s2\<lparr>ps_num_rows := k + 1\<rparr>) = Inr ?s"
    using row_cache.put_row_num [OF rc, where row = row and p = c and s = "s2\<lparr>ps_num_rows := k\<rparr>" and k = "k + 1"] s3(1) m(3)
    by simp
  then show ?thesis
    unfolding s2 using m(1,5-7) f2(1,2) s3(2,4-7)
    by (intro exI [of _ s2] exI [of _ ?s] exI [of _ sl] exI [of _ ev]) (auto split: option.splits prod.splits)
qed

lemma storage_Insert_ok:
  assumes law: "cuckoo_map ck minv" and ok: "cache_ok ck minv s" and row: "row \<noteq> - 1"
    and new: "ps_heap s c = Some rc" "\<forall>r slot. ck_find ck (ps_map s) r \<noteq> Some (c, slot)"
    and idle: "ps_num_rows s = ps_capacity s \<longrightarrow>
      (\<exists>r p slot x. ck_find ck (ps_map s) r = Some (p, slot) \<and> ps_heap s p = Some x \<and> HasZeroRef x)"
    and bounds: "ps_capacity s < 2 ^ 31 - 1" "evict_hand (ps_lru s) + 2 * ps_capacity s < 2 ^ 31" "2 * ps_capacity s \<le> int fuel"
  shows "\<exists>s' ev. storage_Insert fuel ck (\<lambda>_ _. True) (\<lambda>s. s) row c s = Inr (ck_find ck (ps_map s) row = None, s') \<and>
    cache_ok ck minv s' \<and> ps_capacity s' = ps_capacity s \<and> ps_num_rows s' \<le> ps_capacity s \<and>
    (\<exists>p slot r. ck_find ck (ps_map s') row = Some (p, slot) \<and> ps_heap s' p = Some r \<and>
       cr_data r = cr_data rc \<and> cr_clock r = cr_clock rc) \<and>
    (\<forall>r. r \<noteq> row \<and> ev \<noteq> Some r \<longrightarrow> ck_find ck (ps_map s') r = ck_find ck (ps_map s) r \<and>
       (\<forall>p slot. ck_find ck (ps_map s) r = Some (p, slot) \<longrightarrow> ps_heap s' p = ps_heap s p)) \<and>
    (\<forall>e. ev = Some e \<longrightarrow> ck_find ck (ps_map s) row = None \<and> ps_num_rows s = ps_capacity s \<and>
       ck_find ck (ps_map s') e = None \<and>
       (\<exists>p slot x. ck_find ck (ps_map s) e = Some (p, slot) \<and> ps_heap s p = Some x \<and> HasZeroRef x))"
proof -
  have rc: "row_cache ck minv" using law by (simp add: row_cache_def)
  have en: "entries_ok ck (ps_map s) (ps_lru s) (ps_heap s)" using ok by (simp add: cache_ok_def)
  have le: "ps_num_rows x \<le> ps_capacity x" if "cache_ok ck minv x" for x :: "('a, 'b) process_storage"
    using that occupied_le [of "ps_lru x"] by (simp add: cache_ok_def)
  show ?thesis
  proof (cases "ck_find ck (ps_map s) row")
    case (Some ps)
    obtain p slot where ps: "ps = (p, slot)" by force
    from row_cache.FindAndUpdate_hit [OF rc ok Some [unfolded ps] new]
    obtain s' r where u: "FindAndUpdate ck row c s = Inr (True, s')" "cache_ok ck minv s'" "ps_map s' = ps_map s"
      "ps_num_rows s' = ps_num_rows s" "ps_capacity s' = ps_capacity s"
      "ps_heap s' = (ps_heap s)(p \<mapsto> r, c := None)" "cr_data r = cr_data rc" "cr_clock r = cr_clock rc" by blast
    have pc: "p \<noteq> c" using new(2) Some ps by auto
    have "ps_heap s' q = ps_heap s q" if "ck_find ck (ps_map s) r' = Some (q, sl)" "r' \<noteq> row" for r' q sl
    proof -
      have "q \<noteq> p" using entry_inj [OF en that(1)] Some ps that(2) by blast
      moreover have "q \<noteq> c" using new(2) that(1) by blast
      ultimately show ?thesis using u(6) by simp
    qed
    with u Some ps pc le [OF u(2)] show ?thesis
      by (intro exI [of _ s'] exI [of _ None]) (auto simp: storage_Insert_def)
  next
    case None
    from insert_new [OF law ok row None new idle bounds, of False] obtain s2 s3 sl ev where
      m: "make_room fuel ck (\<lambda>_ _. True) False s = Inr (map_option (\<lambda>(e, p, slot, x). (e, p)) ev, s2)"
      "ck_find ck (ps_map s2) row = None" "put_row ck row c s2 = Inr s3" "cache_ok ck minv s3" "ps_capacity s3 = ps_capacity s"
      "ps_heap s3 c = Some rc"
      "case ev of None \<Rightarrow> ps_heap s3 = ps_heap s \<and> ck_find ck (ps_map s3) = (ck_find ck (ps_map s))(row \<mapsto> (c, sl))
        | Some (e, p, slot, x) \<Rightarrow> ps_num_rows s = ps_capacity s \<and> ck_find ck (ps_map s) e = Some (p, slot) \<and>
           ps_heap s p = Some x \<and> HasZeroRef x \<and> ps_heap s3 = (if False then ps_heap s else (ps_heap s)(p := None)) \<and>
           ck_find ck (ps_map s3) = (ck_find ck (ps_map s))(e := None, row \<mapsto> (c, sl))" by blast
    have ins: "storage_Insert fuel ck (\<lambda>_ _. True) (\<lambda>s. s) row c s = Inr (True, s3)"
      using None m(1-3) by (simp add: storage_Insert_def FindAndUpdate_def)
    have same: "ck_find ck (ps_map s3) r = ck_find ck (ps_map s) r \<and>
        (\<forall>p slot. ck_find ck (ps_map s) r = Some (p, slot) \<longrightarrow> ps_heap s3 p = ps_heap s p)"
      if "r \<noteq> row" "map_option fst ev \<noteq> Some r" for r
    proof (cases ev)
      case None
      then show ?thesis using that m(7) by simp
    next
      case (Some x)
      obtain e p slot y where x: "x = (e, p, slot, y)" by (cases x)
      have f: "ck_find ck (ps_map s) e = Some (p, slot)" "ps_heap s3 = (ps_heap s)(p := None)"
        "ck_find ck (ps_map s3) = (ck_find ck (ps_map s))(e := None, row \<mapsto> (c, sl))" using m(7) Some x by auto
      have "e \<noteq> r" using that(2) Some x by simp
      moreover have "q \<noteq> p" if "ck_find ck (ps_map s) r = Some (q, s1)" for q s1
        using entry_inj [OF en that] f(1) \<open>e \<noteq> r\<close> by blast
      ultimately show ?thesis using that(1) f by auto
    qed
    show ?thesis
      using ins None m(4-7) same le [OF m(4)]
      by (intro exI [of _ s3] exI [of _ "map_option fst ev"]) (auto split: option.splits)
  qed
qed

text \<open>
  C35. Inserting a row into the process cache: the row is found afterwards with the
  inserted data and clock, the number of rows never exceeds the capacity, and
  at most one other row leaves the cache.  That happens only when the cache is
  full and the row is new, the victim has no references, and the CLOCK search
  ends within the given number of rounds if some row is without references.
\<close>

theorem cache_insert:
  assumes law: "cuckoo_map ck minv" and ok: "cache_ok ck minv s" and row: "row \<noteq> - 1"
    and new: "ps_heap s c = Some rc" "\<forall>r slot. ck_find ck (ps_map s) r \<noteq> Some (c, slot)"
    and idle: "ps_num_rows s = ps_capacity s \<longrightarrow>
      (\<exists>r p slot x. ck_find ck (ps_map s) r = Some (p, slot) \<and> ps_heap s p = Some x \<and> HasZeroRef x)"
    and bounds: "ps_capacity s < 2 ^ 31 - 1" "evict_hand (ps_lru s) + 2 * ps_capacity s < 2 ^ 31" "2 * ps_capacity s \<le> int fuel"
  shows "\<exists>s' ev. storage_Insert fuel ck (\<lambda>_ _. True) (\<lambda>s. s) row c s = Inr (ck_find ck (ps_map s) row = None, s') \<and>
    cache_ok ck minv s' \<and> ps_capacity s' = ps_capacity s \<and> ps_num_rows s' \<le> ps_capacity s \<and>
    (\<exists>p slot r. ck_find ck (ps_map s') row = Some (p, slot) \<and> ps_heap s' p = Some r \<and>
       cr_data r = cr_data rc \<and> cr_clock r = cr_clock rc) \<and>
    (\<forall>r. r \<noteq> row \<and> ev \<noteq> Some r \<longrightarrow> ck_find ck (ps_map s') r = ck_find ck (ps_map s) r \<and>
       (\<forall>p slot. ck_find ck (ps_map s) r = Some (p, slot) \<longrightarrow> ps_heap s' p = ps_heap s p)) \<and>
    (\<forall>e. ev = Some e \<longrightarrow> ck_find ck (ps_map s) row = None \<and> ps_num_rows s = ps_capacity s \<and>
       ck_find ck (ps_map s') e = None \<and>
       (\<exists>p slot x. ck_find ck (ps_map s) e = Some (p, slot) \<and> ps_heap s p = Some x \<and> HasZeroRef x))"
  using storage_Insert_ok [OF assms] .

text \<open>A full cache with one idle row.\<close>

definition demo_cache :: "((int, nat \<times> int) amap, string) process_storage" where
  "demo_cache =
     \<lparr>ps_capacity = 1, ps_num_rows = 1, ps_map = [(4, (0, 0))],
      ps_lru = \<lparr>lru_capacity = 1, evict_hand = 0, insert_hand = 1, empty_slots = [], stale = [False], row_ids = [4]\<rparr>,
      ps_heap = [0 \<mapsto> SSPClientRow 0 ''a'', 1 \<mapsto> SSPClientRow 2 ''b'']\<rparr>"

theorem cache_insert_witness:
  "\<exists>s'. storage_Insert 2 alist_cuckoo (\<lambda>_ _. True) (\<lambda>s. s) 5 1 demo_cache = Inr (True, s') \<and>
     ps_num_rows s' \<le> 1 \<and> (\<exists>p slot r. ck_find alist_cuckoo (ps_map s') 5 = Some (p, slot) \<and> ps_heap s' p = Some r \<and> cr_data r = ''b'')"
proof -
  have ok: "cache_ok alist_cuckoo amap_ok demo_cache"
    by (auto simp: cache_ok_def entries_ok_def demo_cache_def alist_cuckoo_def lru_ok_def amap_ok_def occupied_def
        split: if_splits)
  have new: "\<forall>r slot. ck_find alist_cuckoo (ps_map demo_cache) r \<noteq> Some (1, slot)"
    by (simp add: demo_cache_def alist_cuckoo_def)
  have idle: "ps_num_rows demo_cache = ps_capacity demo_cache \<longrightarrow>
      (\<exists>r p slot x. ck_find alist_cuckoo (ps_map demo_cache) r = Some (p, slot) \<and> ps_heap demo_cache p = Some x \<and> HasZeroRef x)"
    by (auto simp: demo_cache_def alist_cuckoo_def SSPClientRow_def HasZeroRef_def intro!: exI [of _ 4])
  from cache_insert [OF alist_ck.cuckoo_map_axioms ok _ _ new idle, of 5 "SSPClientRow 2 ''b''" 2]
  show ?thesis
    by (simp add: demo_cache_def alist_cuckoo_def SSPClientRow_def) blast
qed

end
