(* ===== verification/Version_Mgr.thy ===== *)
theory Version_Mgr
imports Prelude
begin

text \<open>
  \<open>ServerVersionMgr\<close> (petuum_ps/thread/server_version_mgr.cpp): the versions the
  servers have acknowledged, as 32-bit numbers that wrap around, with the
  background thread's own version as upper bound.  The specification keeps the
  same information in unbounded integers; the refinement lemmas show that the
  wrapped comparisons compute the minimum of the unbounded versions as long as
  no server is \<open>2^32\<close> versions behind.
\<close>

section \<open>Operations\<close>

record server_version_mgr =
  version_map :: "(int, 32 word) amap"
  version_upper_bound :: "32 word"
  min_version :: "32 word"

definition ServerVersionMgr :: "int list \<Rightarrow> server_version_mgr" where
  "ServerVersionMgr ids =
     \<lparr>version_map = fold (\<lambda>i. AList.update i (- 1)) ids [], version_upper_bound = - 1, min_version = - 1\<rparr>"

definition IncVersionUpperBound :: "server_version_mgr \<Rightarrow> server_version_mgr" where
  "IncVersionUpperBound m = m\<lparr>version_upper_bound := version_upper_bound m + 1\<rparr>"

text \<open>\<open>version_map_[id]\<close> enters a missing server with version 0.\<close>

definition version_touch :: "int \<Rightarrow> server_version_mgr \<Rightarrow> 32 word \<times> server_version_mgr" where
  "version_touch i m =
     (case map_of (version_map m) i of
        Some v \<Rightarrow> (v, m)
      | None \<Rightarrow> (0, m\<lparr>version_map := AList.update i 0 (version_map m)\<rparr>))"

fun unique_min_loop :: "32 word \<Rightarrow> nat \<Rightarrow> 32 word list \<Rightarrow> bool" where
  "unique_min_loop mv n [] = True"
| "unique_min_loop mv n (v # vs) =
     (let n = (if v = mv then n + 1 else n) in if n > 1 then False else unique_min_loop mv n vs)"

definition version_IsUniqueMin :: "int \<Rightarrow> server_version_mgr \<Rightarrow> bool \<times> server_version_mgr" where
  "version_IsUniqueMin i m =
     (let (v, m) = version_touch i m in
      if v \<noteq> min_version m then (False, m)
      else (unique_min_loop (min_version m) 0 (map snd (version_map m)), m))"

text \<open>The two search loops for the new minimum: without and with wrap-around.\<close>

fun min_loop_plain :: "32 word \<Rightarrow> 32 word list \<Rightarrow> 32 word" where
  "min_loop_plain mv [] = mv"
| "min_loop_plain mv (v # vs) = min_loop_plain (if v < mv then v else mv) vs"

fun min_loop_wrap :: "32 word \<Rightarrow> 32 word \<Rightarrow> 32 word list \<Rightarrow> 32 word" where
  "min_loop_wrap ub mv [] = mv"
| "min_loop_wrap ub mv (v # vs) =
     min_loop_wrap ub
       (if (mv > ub \<and> (v > ub \<and> v < mv)) \<or> (mv \<le> ub \<and> (v > ub \<or> (v \<le> ub \<and> v < mv))) then v else mv) vs"

definition SetServerVersion :: "int \<Rightarrow> 32 word \<Rightarrow> server_version_mgr \<Rightarrow> (bool \<times> server_version_mgr) result" where
  "SetServerVersion i version m =
     (let (v, m) = version_touch i m in
      if v = version then Inr (False, m)
      else
        let (uniq, m) = version_IsUniqueMin i m in
        if \<not> uniq then Inr (False, m\<lparr>version_map := AList.update i version (version_map m)\<rparr>)
        else
          let m = m\<lparr>version_map := AList.update i version (version_map m)\<rparr> in
          if min_version m < version_upper_bound m then
            rbind (check (version \<le> version_upper_bound m) ''version <= version_upper_bound_'') (\<lambda>_.
            Inr (True, m\<lparr>min_version := min_loop_plain version (map snd (version_map m))\<rparr>))
          else
            Inr (True, m\<lparr>min_version := min_loop_wrap (version_upper_bound m) version (map snd (version_map m))\<rparr>))"

definition GetMinVersion :: "server_version_mgr \<Rightarrow> 32 word" where
  "GetMinVersion m = min_version m"

definition GetVersionUpperBound :: "server_version_mgr \<Rightarrow> 32 word" where
  "GetVersionUpperBound m = version_upper_bound m"

section \<open>Specification with unbounded versions\<close>

text \<open>\<open>behind ub v\<close>: how many versions \<open>v\<close> is behind the upper bound.\<close>

definition behind :: "32 word \<Rightarrow> 32 word \<Rightarrow> nat" where
  "behind ub v = unat (ub - v)"

record versions =
  vs_map :: "int \<rightharpoonup> int"
  vs_upper :: int

definition vs_ok :: "versions \<Rightarrow> bool" where
  "vs_ok a \<longleftrightarrow> finite (dom (vs_map a)) \<and> dom (vs_map a) \<noteq> {} \<and>
     (\<forall>v \<in> ran (vs_map a). v \<le> vs_upper a \<and> vs_upper a - v < 2 ^ 32)"

definition vs_min :: "versions \<Rightarrow> int" where
  "vs_min a = Min (ran (vs_map a))"

definition vs_rel :: "versions \<Rightarrow> server_version_mgr \<Rightarrow> bool" where
  "vs_rel a m \<longleftrightarrow> vs_ok a \<and> amap_ok (version_map m) \<and>
     map_of (version_map m) = (\<lambda>i. map_option of_int (vs_map a i)) \<and>
     version_upper_bound m = of_int (vs_upper a) \<and> min_version m = of_int (vs_min a)"

text \<open>Within the window of \<open>2^32\<close> versions the wrapped numbers determine the unbounded ones.\<close>

lemma behind_of_int:
  assumes "v \<le> u" "u - v < 2 ^ 32"
  shows "int (behind (of_int u) (of_int v)) = u - v"
proof -
  have e: "(of_int u - of_int v :: 32 word) = word_of_int (u - v)" by simp
  have "int (behind (of_int u) (of_int v)) = uint (of_int u - of_int v :: 32 word)" by (simp add: behind_def)
  also have "\<dots> = uint (word_of_int (u - v) :: 32 word)" unfolding e ..
  also have "\<dots> = (u - v) mod 2 ^ 32" unfolding uint_word_of_int by simp
  also have "\<dots> = u - v" using assms by (intro mod_pos_pos_trivial) auto
  finally show ?thesis .
qed

lemma window_inj:
  assumes "v \<le> u" "u - v < 2 ^ 32" "w \<le> u" "u - w < 2 ^ 32"
  shows "(of_int v :: 32 word) = of_int w \<longleftrightarrow> v = w"
proof
  assume e: "(of_int v :: 32 word) = of_int w"
  have "u - v = u - w"
    using behind_of_int [OF assms(1,2)] behind_of_int [OF assms(3,4)] unfolding e by linarith
  then show "v = w" by simp
qed simp

lemma behind_order:
  fixes ub v w :: "32 word"
  shows "behind ub w < behind ub v \<longleftrightarrow>
    (w \<le> ub \<and> v > ub) \<or> (w \<le> ub \<longleftrightarrow> v \<le> ub) \<and> v < w"
proof -
  have *: "behind ub x = (if x \<le> ub then unat ub - unat x else unat ub + 2 ^ 32 - unat x)" for x
    by (simp add: behind_def unat_sub_if' word_le_nat_alt)
  have "unat v < 2 ^ 32" "unat w < 2 ^ 32" using unsigned_less [of v] unsigned_less [of w] by simp_all
  then show ?thesis unfolding * word_less_nat_alt word_le_nat_alt by auto
qed

text \<open>The loop with wrap-around keeps the version that is furthest behind.\<close>

lemma min_loop_wrap_behind:
  "behind ub (min_loop_wrap ub mv vs) = Max (behind ub ` set (mv # vs)) \<and> min_loop_wrap ub mv vs \<in> set (mv # vs)"
proof (induction vs arbitrary: mv)
  case Nil
  then show ?case by simp
next
  case (Cons v vs)
  let ?c = "(mv > ub \<and> (v > ub \<and> v < mv)) \<or> (mv \<le> ub \<and> (v > ub \<or> (v \<le> ub \<and> v < mv)))"
  have c: "?c \<longleftrightarrow> behind ub mv < behind ub v" unfolding behind_order by auto
  have "Max (behind ub ` set ((if ?c then v else mv) # vs)) = Max (behind ub ` set (mv # v # vs))"
  proof (cases vs)
    case Nil then show ?thesis unfolding c by (auto simp: max_def)
  next
    case (Cons y ys) then show ?thesis unfolding c by (auto simp: max_def)
  qed
  with Cons.IH [of "if ?c then v else mv"] show ?case by auto
qed

lemma min_loop_plain_min: "min_loop_plain mv vs = Min (set (mv # vs))"
proof (induction vs arbitrary: mv)
  case (Cons v vs)
  have "(if v < mv then v else mv) = min v mv" by (auto simp: min_def)
  then have "min_loop_plain mv (v # vs) = Min (insert (min v mv) (set vs))"
    using Cons.IH [of "min v mv"] by simp
  also have "\<dots> = Min (insert v (insert mv (set vs)))" by (cases "vs = []") (auto simp: min.assoc)
  finally show ?case by (simp add: insert_commute)
qed simp

lemma unique_min_loop_count:
  "n \<le> 1 \<Longrightarrow> unique_min_loop mv n vs \<longleftrightarrow> n + count_list vs mv \<le> 1"
  by (induction vs arbitrary: n) (auto simp: Let_def)


lemma count_unique_key:
  assumes "amap_ok m" "map_of m i = Some x"
  shows "count_list (map snd m) x \<le> 1 \<longleftrightarrow> (\<forall>j. map_of m j = Some x \<longrightarrow> j = i)"
  using assms
proof (induction m)
  case (Cons p m)
  obtain k y where p: "p = (k, y)" by force
  have ok: "amap_ok m" and k: "map_of m k = None"
    using Cons.prems(1) p by (auto simp: amap_ok_def map_of_eq_None_iff)
  have zero: "count_list (map snd m) x = 0 \<longleftrightarrow> (\<forall>j. map_of m j \<noteq> Some x)"
    using ran_distinct [of m] ok by (auto simp: count_list_0_iff amap_ok_def ran_def)
  show ?case
  proof (cases "k = i")
    case True
    then have "(\<forall>j. map_of (p # m) j = Some x \<longrightarrow> j = i) \<longleftrightarrow> (\<forall>j. map_of m j \<noteq> Some x)"
      using p k by (metis map_of_Cons_code(2) option.distinct(1))
    then have "?thesis \<longleftrightarrow> (count_list (map snd (p # m)) x \<le> 1 \<longleftrightarrow> (\<forall>j. map_of m j \<noteq> Some x))" by (simp only:)
    then show ?thesis using Cons.prems(2) p zero True by simp
  next
    case False
    have "map_of m i = Some x" using Cons.prems(2) p False by simp
    with zero have "count_list (map snd m) x \<noteq> 0" by auto
    with Cons.IH [OF ok] \<open>map_of m i = Some x\<close> False p k show ?thesis
      by auto (metis option.distinct(1))
  qed
qed simp

lemma ran_map_option: "ran (\<lambda>i. map_option f (g i)) = f ` ran g"
  by (auto simp: ran_def image_def)

lemma vs_rel_vals: "vs_rel a m \<Longrightarrow> set (map snd (version_map m)) = of_int ` ran (vs_map a)"
  using ran_distinct [of "version_map m"] by (simp add: vs_rel_def amap_ok_def ran_map_option)

lemma vs_ran: "vs_ok a \<Longrightarrow> finite (ran (vs_map a)) \<and> ran (vs_map a) \<noteq> {}"
  by (auto simp: vs_ok_def fun_eq_iff intro: finite_ran) (auto simp: ran_def)

text \<open>A version that is furthest behind is the image of the unbounded minimum.\<close>

lemma furthest_is_min:
  assumes ok: "vs_ok a" and r: "r \<in> of_int ` ran (vs_map a)"
    and far: "\<forall>x \<in> ran (vs_map a). behind (of_int (vs_upper a)) (of_int x) \<le> behind (of_int (vs_upper a)) r"
  shows "r = of_int (vs_min a)"
proof -
  obtain y where y: "y \<in> ran (vs_map a)" "r = of_int y" using r by auto
  have win: "x \<le> vs_upper a \<and> vs_upper a - x < 2 ^ 32" if "x \<in> ran (vs_map a)" for x
    using ok that by (auto simp: vs_ok_def)
  have "y \<le> x" if "x \<in> ran (vs_map a)" for x
    using far [rule_format, OF that, unfolded y(2)]
      behind_of_int [OF conjunct1 [OF win [OF that]] conjunct2 [OF win [OF that]]]
      behind_of_int [OF conjunct1 [OF win [OF y(1)]] conjunct2 [OF win [OF y(1)]]] by linarith
  then have "vs_min a = y" unfolding vs_min_def using y(1) vs_ran [OF ok] by (intro Min_eqI) auto
  with y show ?thesis by simp
qed

lemma plain_is_furthest:
  fixes ub :: "32 word"
  assumes "finite S" "S \<noteq> {}" "\<forall>x \<in> S. x \<le> ub" "x \<in> S"
  shows "behind ub x \<le> behind ub (Min S)"
  using behind_order [of ub "Min S" x] assms by (auto simp: not_less [symmetric])

definition vs_set :: "int \<Rightarrow> int \<Rightarrow> versions \<Rightarrow> versions" where
  "vs_set i w a = a\<lparr>vs_map := (vs_map a)(i \<mapsto> w)\<rparr>"

lemma vs_set_ok: "vs_ok a \<Longrightarrow> w \<le> vs_upper a \<Longrightarrow> vs_upper a - w < 2 ^ 32 \<Longrightarrow> vs_ok (vs_set i w a)"
  by (auto simp: vs_ok_def vs_set_def ran_def split: if_splits)

lemma vs_min_le: "vs_ok a \<Longrightarrow> vs_map a j = Some x \<Longrightarrow> vs_min a \<le> x"
  using vs_ran [of a] by (auto simp: vs_min_def ranI)

lemma vs_min_in: "vs_ok a \<Longrightarrow> \<exists>j. vs_map a j = Some (vs_min a)"
  using vs_ran [of a] Min_in [of "ran (vs_map a)"] by (auto simp: vs_min_def ran_def)

lemma vs_set_min:
  assumes ok: "vs_ok a" and v: "vs_map a i = Some v" "v < w" "w \<le> vs_upper a"
  shows "vs_min (vs_set i w a) \<noteq> vs_min a \<longleftrightarrow> (\<forall>j. vs_map a j = Some (vs_min a) \<longrightarrow> j = i)"
proof -
  have "v \<in> ran (vs_map a)" using v(1) by (auto intro: ranI)
  then have "vs_upper a - w < 2 ^ 32" using ok v(2) by (force simp: vs_ok_def)
  then have ok': "vs_ok (vs_set i w a)" using vs_set_ok ok v by blast
  show ?thesis
  proof
    assume u: "\<forall>j. vs_map a j = Some (vs_min a) \<longrightarrow> j = i"
    then have "v = vs_min a" using vs_min_in [OF ok] v(1) by auto
    with u v(2) vs_min_in [OF ok'] show "vs_min (vs_set i w a) \<noteq> vs_min a"
      by (auto simp: vs_set_def split: if_splits)
  next
    assume ne: "vs_min (vs_set i w a) \<noteq> vs_min a"
    obtain k where k: "vs_map (vs_set i w a) k = Some (vs_min (vs_set i w a))" using vs_min_in [OF ok'] by blast
    then have "vs_min a \<le> vs_min (vs_set i w a)"
      using vs_min_le [OF ok, of k] v(2) vs_min_le [OF ok v(1)] by (cases "k = i") (auto simp: vs_set_def)
    with ne vs_min_le [OF ok'] show "\<forall>j. vs_map a j = Some (vs_min a) \<longrightarrow> j = i"
      by (metis antisym fun_upd_other select_convs(1) surjective update_convs(1) vs_set_def)
  qed
qed


section \<open>Refinement\<close>

lemma version_touch_Some: "map_of (version_map m) i = Some v \<Longrightarrow> version_touch i m = (v, m)"
  by (simp add: version_touch_def)

lemma IsUniqueMin_spec:
  assumes rel: "vs_rel a m" and v: "vs_map a i = Some v"
  shows "version_IsUniqueMin i m = ((\<forall>j. vs_map a j = Some (vs_min a) \<longrightarrow> j = i), m)"
proof -
  have ok: "vs_ok a" and am: "amap_ok (version_map m)" and mn: "min_version m = of_int (vs_min a)"
    using rel by (simp_all add: vs_rel_def)
  have mo: "map_of (version_map m) j = map_option of_int (vs_map a j)" for j
    using rel by (simp add: vs_rel_def)
  have win: "x \<le> vs_upper a \<and> vs_upper a - x < 2 ^ 32" if "vs_map a j = Some x" for j x
    using ok that by (auto simp: vs_ok_def intro: ranI)
  obtain j0 where j0: "vs_map a j0 = Some (vs_min a)" using vs_min_in [OF ok] by blast
  have eq: "of_int x = min_version m \<longleftrightarrow> x = vs_min a" if "vs_map a j = Some x" for j x
    unfolding mn using win [OF that] win [OF j0] by (intro window_inj) auto
  show ?thesis
  proof (cases "v = vs_min a")
    case True
    have u: "unique_min_loop (min_version m) 0 (map snd (version_map m)) \<longleftrightarrow>
        (\<forall>j. map_of (version_map m) j = Some (min_version m) \<longrightarrow> j = i)"
      using unique_min_loop_count [of 0 "min_version m"] count_unique_key [OF am, of i "min_version m"]
        v eq [OF v] True by (simp add: mo)
    have "map_of (version_map m) j = Some (min_version m) \<longleftrightarrow> vs_map a j = Some (vs_min a)" for j
      using eq [of j] mn by (cases "vs_map a j") (auto simp: mo)
    with u v eq [OF v] True show ?thesis
      by (simp add: version_IsUniqueMin_def version_touch_Some mo)
  next
    case False
    with eq [OF v] v j0 show ?thesis by (auto simp: version_IsUniqueMin_def version_touch_Some mo)
  qed
qed

lemma vs_rel_set:
  assumes rel: "vs_rel a m" and ok': "vs_ok (vs_set i w a)" and mv: "mv = of_int (vs_min (vs_set i w a))"
  shows "vs_rel (vs_set i w a) (m\<lparr>version_map := AList.update i (of_int w) (version_map m), min_version := mv\<rparr>)"
  using assms by (auto simp: vs_rel_def amap.upd_ok update_conv' vs_set_def fun_eq_iff)

lemma new_min:
  assumes rel: "vs_rel a m" and ok': "vs_ok (vs_set i w a)"
    and un: "vs_map a i = Some (vs_min a)" "vs_min a < w"
    and vals: "vals = map snd (AList.update i (of_int w) (version_map m))"
  shows "min_loop_wrap (version_upper_bound m) (of_int w) vals = of_int (vs_min (vs_set i w a))"
    and "min_version m < version_upper_bound m \<Longrightarrow>
      of_int w \<le> version_upper_bound m \<and> min_loop_plain (of_int w) vals = of_int (vs_min (vs_set i w a))"
proof -
  let ?a = "vs_set i w a" and ?ub = "version_upper_bound m"
  have ub: "?ub = of_int (vs_upper ?a)" using rel by (simp add: vs_rel_def vs_set_def)
  have sv: "set vals = of_int ` ran (vs_map ?a)"
    using vs_rel_vals [OF vs_rel_set [OF rel ok' refl]] by (simp add: vals)
  have w: "of_int w \<in> set vals" unfolding sv by (intro imageI ranI [of _ i]) (simp add: vs_set_def)
  then have ins: "set (of_int w # vals) = set vals" by auto
  show "min_loop_wrap ?ub (of_int w) vals = of_int (vs_min ?a)"
  proof (rule furthest_is_min [OF ok'])
    note l = min_loop_wrap_behind [of ?ub "of_int w" vals, unfolded ins]
    show "min_loop_wrap ?ub (of_int w) vals \<in> of_int ` ran (vs_map ?a)" using l sv by simp
    show "\<forall>x \<in> ran (vs_map ?a). behind (of_int (vs_upper ?a)) (of_int x) \<le>
        behind (of_int (vs_upper ?a)) (min_loop_wrap ?ub (of_int w) vals)"
      using l unfolding ub [symmetric] sv by (auto intro: Max_ge)
  qed
  assume lt: "min_version m < ?ub"
  have all: "\<forall>x \<in> set vals. x \<le> ?ub"
  proof
    fix x assume "x \<in> set vals"
    then obtain y where y: "y \<in> ran (vs_map ?a)" "x = of_int y" using sv by auto
    have "vs_min a \<le> y"
    proof -
      obtain j where "vs_map ?a j = Some y" using y(1) by (auto simp: ran_def)
      then show ?thesis using vs_min_le [of a j y] rel un(2) by (auto simp: vs_set_def vs_rel_def split: if_splits)
    qed
    moreover have "y \<le> vs_upper a \<and> vs_upper a - y < 2 ^ 32"
      using ok' y(1) by (simp add: vs_ok_def vs_set_def)
    moreover have "vs_min a \<le> vs_upper a \<and> vs_upper a - vs_min a < 2 ^ 32"
      using rel un(1) by (auto simp: vs_rel_def vs_ok_def intro: ranI)
    ultimately have "behind ?ub x \<le> behind ?ub (min_version m)"
      using behind_of_int [of y "vs_upper a"] behind_of_int [of "vs_min a" "vs_upper a"] rel y(2)
      by (auto simp: vs_rel_def)
    then show "x \<le> ?ub" using behind_order [of ?ub "min_version m" x] lt by (auto simp: not_less [symmetric])
  qed
  have "set vals \<noteq> {}" using w by auto
  then have p: "min_loop_plain (of_int w) vals \<in> set vals"
    "\<forall>x \<in> set vals. behind ?ub x \<le> behind ?ub (min_loop_plain (of_int w) vals)"
    unfolding min_loop_plain_min ins using plain_is_furthest [OF _ _ all] by auto
  have "min_loop_plain (of_int w) vals = of_int (vs_min ?a)"
    using p unfolding sv ub by (intro furthest_is_min [OF ok']) auto
  with all w show "of_int w \<le> ?ub \<and> min_loop_plain (of_int w) vals = of_int (vs_min ?a)" by blast
qed

lemma SetServerVersion_refines:
  assumes "vs_rel a m" "vs_map a i = Some v" "v \<le> w" "w \<le> vs_upper a"
  shows "\<exists>m'. SetServerVersion i (of_int w) m = Inr (vs_min (vs_set i w a) \<noteq> vs_min a, m') \<and>
      vs_rel (vs_set i w a) m' \<and> GetMinVersion m' = of_int (vs_min (vs_set i w a))"
proof -
  have as: "vs_rel a m \<and> vs_map a i = Some v \<and> v \<le> w \<and> w \<le> vs_upper a" using assms by blast
  then have rel: "vs_rel a m" and v: "vs_map a i = Some v" and ok: "vs_ok a"
    and mo: "map_of (version_map m) i = Some (of_int v)" by (auto simp: vs_rel_def)
  have vw: "v \<le> vs_upper a \<and> vs_upper a - v < 2 ^ 32" using ok v by (auto simp: vs_ok_def intro: ranI)
  then have ok': "vs_ok (vs_set i w a)" using as ok by (intro vs_set_ok) auto
  show ?thesis
  proof (cases "w = v")
    case True
    then have "vs_set i w a = a" using v by (simp add: vs_set_def fun_upd_idem)
    with True rel mo show ?thesis
      by (simp add: SetServerVersion_def version_touch_Some GetMinVersion_def vs_rel_def)
  next
    case False
    then have lt: "v < w" using as by simp
    have ne: "(of_int v :: 32 word) \<noteq> of_int w" using window_inj [of v "vs_upper a" w] vw as False by auto
    have uq: "version_IsUniqueMin i m = (vs_min (vs_set i w a) \<noteq> vs_min a, m)"
      using IsUniqueMin_spec [OF rel v] vs_set_min [OF ok v lt] as by simp
    show ?thesis
    proof (cases "vs_min (vs_set i w a) = vs_min a")
      case True
      have "vs_rel (vs_set i w a) (m\<lparr>version_map := AList.update i (of_int w) (version_map m),
          min_version := min_version m\<rparr>)"
        using rel True by (intro vs_rel_set [OF rel ok']) (simp add: vs_rel_def)
      with True mo ne uq rel show ?thesis
        by (simp add: SetServerVersion_def version_touch_Some GetMinVersion_def vs_rel_def)
    next
      case False
      then have un: "vs_map a i = Some (vs_min a)" using vs_set_min [OF ok v lt] vs_min_in [OF ok] as by auto
      note nm = new_min [OF rel ok' un _ refl]
      have "v = vs_min a" using un v by simp
      with False mo ne uq lt nm vs_rel_set [OF rel ok' refl] show ?thesis
        by (auto simp: SetServerVersion_def version_touch_Some GetMinVersion_def Let_def)
    qed
  qed
qed

text \<open>
  C32. Version bookkeeping survives the wrap-around of its 32-bit numbers: while no
  server is \<open>2^32\<close> versions behind, an acknowledgement never fails, the manager
  keeps exactly the unbounded versions' images and their minimum, and it
  reports a change exactly when the unbounded minimum has changed; the
  constructor and \<open>IncVersionUpperBound\<close> keep the same correspondence.
\<close>

theorem server_version_refines:
  assumes "ids \<noteq> []"
  shows "vs_rel \<lparr>vs_map = (\<lambda>i. if i \<in> set ids then Some (- 1) else None), vs_upper = - 1\<rparr> (ServerVersionMgr ids) \<and>
    (\<forall>a m. vs_rel a m \<and> (\<forall>v \<in> ran (vs_map a). vs_upper a + 1 - v < 2 ^ 32) \<longrightarrow>
       vs_rel (a\<lparr>vs_upper := vs_upper a + 1\<rparr>) (IncVersionUpperBound m)) \<and>
    (\<forall>a m i v w. vs_rel a m \<and> vs_map a i = Some v \<and> v \<le> w \<and> w \<le> vs_upper a \<longrightarrow>
       (\<exists>m'. SetServerVersion i (of_int w) m = Inr (vs_min (vs_set i w a) \<noteq> vs_min a, m') \<and>
          vs_rel (vs_set i w a) m' \<and> GetMinVersion m' = of_int (vs_min (vs_set i w a))))"
proof (intro conjI allI impI)
  let ?a = "\<lparr>vs_map = (\<lambda>i. if i \<in> set ids then Some (- 1) else None), vs_upper = - 1\<rparr>"
  have f: "amap_ok (fold (\<lambda>i. AList.update i (- 1)) xs m0) \<and>
      map_of (fold (\<lambda>i. AList.update i (- 1)) xs m0) = (\<lambda>i. if i \<in> set xs then Some (- 1) else map_of m0 i)"
    if "amap_ok m0" for xs and m0 :: "(int, 32 word) amap"
    using that by (induction xs arbitrary: m0) (auto simp: amap.upd_ok update_conv_fun fun_eq_iff)
  have rn: "ran (vs_map ?a) = {- 1}" and dm: "dom (vs_map ?a) = set ids"
    using assms by (cases ids, auto simp: ran_def dom_def)
  have ok: "vs_ok ?a" unfolding vs_ok_def rn dm using assms by simp
  have mn: "vs_min ?a = - 1" by (simp only: vs_min_def rn Min_singleton)
  show "vs_rel ?a (ServerVersionMgr ids)"
    unfolding vs_rel_def mn using ok f [of "[]" ids] by (simp add: ServerVersionMgr_def amap_ok_def fun_eq_iff)
next
  fix a m assume "vs_rel a m \<and> (\<forall>v \<in> ran (vs_map a). vs_upper a + 1 - v < 2 ^ 32)"
  then show "vs_rel (a\<lparr>vs_upper := vs_upper a + 1\<rparr>) (IncVersionUpperBound m)"
    by (auto simp: vs_rel_def IncVersionUpperBound_def vs_ok_def vs_min_def)
next
  fix a m i v w assume as: "vs_rel a m \<and> vs_map a i = Some v \<and> v \<le> w \<and> w \<le> vs_upper a"
  then show "\<exists>m'. SetServerVersion i (of_int w) m = Inr (vs_min (vs_set i w a) \<noteq> vs_min a, m') \<and>
      vs_rel (vs_set i w a) m' \<and> GetMinVersion m' = of_int (vs_min (vs_set i w a))"
    by (blast intro: SetServerVersion_refines)
qed

theorem server_version_refines_witness:
  "(\<exists>m'. SetServerVersion 1 0 (IncVersionUpperBound (ServerVersionMgr [1])) = Inr (True, m') \<and> GetMinVersion m' = 0)"
proof -
  let ?f = "(\<lambda>i. if i \<in> set [1] then Some (- 1) else None) :: int \<rightharpoonup> int"
  let ?a = "\<lparr>vs_map = ?f, vs_upper = 0\<rparr>"
  note r = server_version_refines [OF list.distinct(2), of 1 "[]"]
  have rn: "ran ?f = {- 1}" "ran (?f(1 \<mapsto> 0)) = {0}" by (auto simp: ran_def)
  have "vs_rel ?a (IncVersionUpperBound (ServerVersionMgr [1]))"
    using r [THEN conjunct2, THEN conjunct1, rule_format, OF conjI, OF conjunct1 [OF r]] unfolding versions.simps rn
    by simp
  moreover have "vs_min (vs_set 1 0 ?a) = 0" "vs_min ?a = - 1"
    unfolding vs_min_def vs_set_def versions.simps rn by simp_all
  ultimately show ?thesis
    using r [THEN conjunct2, THEN conjunct2, rule_format, of ?a "IncVersionUpperBound (ServerVersionMgr [1])" 1 "- 1" 0]
    by auto
qed

end
