(* ===== verification/Request_Mgr.thy ===== *)
theory Request_Mgr
imports Version_Mgr "HOL-Library.Product_Lexorder"
begin

text \<open>
  The managers of outstanding row requests and of the oplogs that are kept for
  them: \<open>SSPRowRequestOpLogMgr\<close> (row_request_oplog_mgr.cpp) and
  \<open>SSPPushRowRequestOpLogMgr\<close> (ssp_push_row_request_oplog_mgr.cpp), both in
  petuum_ps/thread.  The oplogs behind the pointers are the type \<open>'o\<close>.
\<close>

section \<open>Row requests\<close>

record row_request_info =
  rqi_app_thread_id :: int
  rqi_clock :: int
  rqi_version :: "32 word"
  rqi_sent :: bool

definition RowRequestInfo :: "bool \<Rightarrow> row_request_info" where
  "RowRequestInfo junk = \<lparr>rqi_app_thread_id = 0, rqi_clock = 0, rqi_version = 0, rqi_sent = junk\<rparr>"

text \<open>
  The copy constructor and the assignment leave \<open>sent\<close> out: in a copy it has
  whatever value the memory of the new object holds, here \<open>junk\<close>.
\<close>

definition copy_request :: "bool \<Rightarrow> row_request_info \<Rightarrow> row_request_info" where
  "copy_request junk r = r\<lparr>rqi_sent := junk\<rparr>"

text \<open>
  The loop from the end of the list to its beginning: \<open>ps\<close> is the list in
  reverse; None if no element has a clock that is at most that of the request.
\<close>

fun insert_backwards :: "row_request_info \<Rightarrow> row_request_info list \<Rightarrow> row_request_info list option" where
  "insert_backwards r [] = None"
| "insert_backwards r (p # ps) =
     (if rqi_clock r \<ge> rqi_clock p then Some (r # p # ps)
      else map_option ((#) p) (insert_backwards r ps))"

definition insert_request ::
  "bool \<Rightarrow> row_request_info \<Rightarrow> row_request_info list \<Rightarrow> bool \<times> row_request_info list" where
  "insert_request junk r l =
     (case insert_backwards (copy_request junk r) (rev l) of
        Some l' \<Rightarrow> (False, rev l')
      | None \<Rightarrow> (True, copy_request junk r # l))"

section \<open>SSPRowRequestOpLogMgr\<close>

type_synonym pending_requests = "((int \<times> int) \<times> row_request_info list) list"

record 'o ssp_mgr =
  pending_row_requests :: pending_requests
  version_oplog_map :: "(32 word \<times> 'o) list"
  version_request_cnt_map :: "(32 word \<times> int) list"
  oplog_iter_version_next :: "32 word"
  oplog_iter_version_st :: "32 word"
  oplog_iter_version_end :: "32 word"

definition SSPRowRequestOpLogMgr :: "'o ssp_mgr" where
  "SSPRowRequestOpLogMgr =
     \<lparr>pending_row_requests = [], version_oplog_map = [], version_request_cnt_map = [],
      oplog_iter_version_next = 0, oplog_iter_version_st = 0, oplog_iter_version_end = 0\<rparr>"

definition requests_at :: "int \<times> int \<Rightarrow> pending_requests \<Rightarrow> row_request_info list" where
  "requests_at k p = (case map_of p k of None \<Rightarrow> [] | Some l \<Rightarrow> l)"

definition cnt_at :: "32 word \<Rightarrow> (32 word \<times> int) list \<Rightarrow> int" where
  "cnt_at v c = (case map_of c v of None \<Rightarrow> 0 | Some n \<Rightarrow> n)"

definition cnt_inc :: "32 word \<Rightarrow> (32 word \<times> int) list \<Rightarrow> (32 word \<times> int) list" where
  "cnt_inc v c = oupd v (cnt_at v c + 1) c"

definition cnt_dec :: "32 word \<Rightarrow> (32 word \<times> int) list \<Rightarrow> (32 word \<times> int) list" where
  "cnt_dec v c = oupd v (cnt_at v c - 1) c"

definition ssp_AddRowRequest ::
  "bool \<Rightarrow> row_request_info \<Rightarrow> int \<Rightarrow> int \<Rightarrow> 'o ssp_mgr \<Rightarrow> bool \<times> 'o ssp_mgr" where
  "ssp_AddRowRequest junk r t row m =
     (let k = (t, row);
          (sent, l) = insert_request junk r (requests_at k (pending_row_requests m)) in
      (sent, m\<lparr>pending_row_requests := oupd k l (pending_row_requests m),
               version_request_cnt_map := cnt_inc (rqi_version r) (version_request_cnt_map m)\<rparr>))"

text \<open>
  The loop of \<open>CleanVersionOpLogs\<close>; \<open>v\<close> is \<open>version_to_remove\<close>.  Looking up a
  version that has no oplog creates a null pointer, whose deletion has no
  effect, and the entry is erased at once.
\<close>

function clean_loop :: "32 word \<Rightarrow> (32 word \<times> int) list \<Rightarrow> 32 word \<Rightarrow> (32 word \<times> 'o) list \<Rightarrow> (32 word \<times> 'o) list" where
  "clean_loop cur cnt v ops =
     (let ops = odel (v + 1) ops; v = v + 1 in
      if map_of cnt v = None \<and> v \<noteq> cur then clean_loop cur cnt v ops else ops)"
  by pat_completeness auto
termination
proof (relation "measure (\<lambda>(cur, cnt, v, ops). unat (cur - v - 1))")
  fix cur :: "32 word" and cnt :: "(32 word \<times> int) list" and v :: "32 word" and ops x :: "(32 word \<times> 'o) list" and w
  assume "w = v + 1" "map_of cnt w = None \<and> w \<noteq> cur"
  then have "cur - v - 1 \<noteq> 0" by (auto simp: algebra_simps)
  then have "unat (cur - v - 1 - 1) < unat (cur - v - 1)"
    by (metis unat_minus_one word_gt_0 less_add_one diff_less unat_gt_0 zero_less_one)
  then show "((cur, cnt, w, x), cur, cnt, v, ops) \<in> measure (\<lambda>(cur, cnt, v, ops). unat (cur - v - 1))"
    using \<open>w = v + 1\<close> by (simp add: algebra_simps)
qed simp

declare clean_loop.simps [simp del]

definition CleanVersionOpLogs ::
  "32 word \<Rightarrow> 32 word \<Rightarrow> (32 word \<times> int) list \<Rightarrow> (32 word \<times> 'o) list \<Rightarrow> (32 word \<times> 'o) list" where
  "CleanVersionOpLogs req_version curr_version cnt ops =
     (if req_version + 1 = curr_version then ops
      else if map_of ops req_version \<noteq> None then ops
      else clean_loop curr_version cnt req_version ops)"

text \<open>A request of version \<open>v\<close> is gone: if it was the last one of its version, oplogs may go.\<close>

definition drop_version ::
  "32 word \<Rightarrow> 32 word \<Rightarrow> 'o ssp_mgr \<Rightarrow> 'o ssp_mgr" where
  "drop_version v cur m =
     (if cnt_at v (version_request_cnt_map m) = 0 then
        let cnt = odel v (version_request_cnt_map m) in
        m\<lparr>version_request_cnt_map := cnt,
          version_oplog_map := CleanVersionOpLogs v cur cnt (version_oplog_map m)\<rparr>
      else m)"

text \<open>
  The loop of \<open>InformReply\<close> over the list of a row: the clock to request next
  (\<open>-1\<close> for none), the application threads that are answered, the requests
  that remain.
\<close>

fun inform_loop ::
  "int \<Rightarrow> 32 word \<Rightarrow> row_request_info list \<Rightarrow> 'o ssp_mgr \<Rightarrow>
   (int \<times> int list \<times> row_request_info list \<times> 'o ssp_mgr) result" where
  "inform_loop clock cur [] m = Inr (- 1, [], [], m)"
| "inform_loop clock cur (r # rs) m =
     (if rqi_clock r \<le> clock then
        let v = rqi_version r;
            m = m\<lparr>version_request_cnt_map := cnt_dec v (version_request_cnt_map m)\<rparr> in
        rbind (check (cnt_at v (version_request_cnt_map m) \<ge> 0) ''version_request_cnt_map_[req_version] >= 0'') (\<lambda>_.
        rbind (inform_loop clock cur rs (drop_version v cur m)) (\<lambda>(c, ids, rest, m).
        Inr (c, rqi_app_thread_id r # ids, rest, m)))
      else if \<not> rqi_sent r then
        let v = rqi_version r;
            r' = r\<lparr>rqi_sent := True, rqi_version := cur - 1\<rparr>;
            m = m\<lparr>version_request_cnt_map := cnt_inc (cur - 1) (cnt_dec v (version_request_cnt_map m))\<rparr> in
        Inr (rqi_clock r, [], r' # rs, drop_version v cur m)
      else Inr (- 1, [], r # rs, m))"

definition ssp_InformReply ::
  "int \<Rightarrow> int \<Rightarrow> int \<Rightarrow> 32 word \<Rightarrow> 'o ssp_mgr \<Rightarrow> (int \<times> int list \<times> 'o ssp_mgr) result" where
  "ssp_InformReply t row clock cur m =
     (let k = (t, row) in
      rbind (inform_loop clock cur (requests_at k (pending_row_requests m)) m) (\<lambda>(c, ids, rest, m).
      Inr (c, ids, m\<lparr>pending_row_requests :=
             (if rest = [] then odel k (pending_row_requests m) else oupd k rest (pending_row_requests m))\<rparr>)))"

definition ssp_AddOpLog :: "32 word \<Rightarrow> 'o \<Rightarrow> 'o ssp_mgr \<Rightarrow> (bool \<times> 'o ssp_mgr) result" where
  "ssp_AddOpLog version oplog m =
     rbind (check (map_of (version_oplog_map m) version = None) ''version number has wrapped'') (\<lambda>_.
     if length (version_request_cnt_map m) > 0
     then Inr (True, m\<lparr>version_oplog_map := oupd version oplog (version_oplog_map m)\<rparr>)
     else Inr (False, m))"

definition ssp_GetOpLog :: "32 word \<Rightarrow> 'o ssp_mgr \<Rightarrow> 'o result" where
  "ssp_GetOpLog version m =
     of_option (CheckFailed ''iter != version_oplog_map_.end()'') (map_of (version_oplog_map m) version)"

definition ssp_OpLogIterInit :: "32 word \<Rightarrow> 32 word \<Rightarrow> 'o ssp_mgr \<Rightarrow> ('o \<times> 'o ssp_mgr) result" where
  "ssp_OpLogIterInit st en m =
     (let m = m\<lparr>oplog_iter_version_st := st, oplog_iter_version_end := en, oplog_iter_version_next := st + 1\<rparr> in
      rbind (ssp_GetOpLog st m) (\<lambda>ol. Inr (ol, m)))"

definition ssp_OpLogIterNext :: "'o ssp_mgr \<Rightarrow> ((32 word \<times> 'o) option \<times> 'o ssp_mgr) result" where
  "ssp_OpLogIterNext m =
     (if oplog_iter_version_next m > oplog_iter_version_end m then Inr (None, m)
      else
        let v = oplog_iter_version_next m; m = m\<lparr>oplog_iter_version_next := v + 1\<rparr> in
        rbind (ssp_GetOpLog v m) (\<lambda>ol. Inr (Some (v, ol), m)))"

section \<open>SSPPushRowRequestOpLogMgr\<close>

record 'o push_mgr =
  push_pending :: pending_requests
  version_oplog_list :: "(32 word \<times> 'o) list"
  push_iter_next :: "32 word"
  push_iter_st :: "32 word"
  push_iter_end :: "32 word"
  push_oplog_iter :: nat
  push_versions :: server_version_mgr

definition SSPPushRowRequestOpLogMgr :: "int list \<Rightarrow> 'o push_mgr" where
  "SSPPushRowRequestOpLogMgr ids =
     \<lparr>push_pending = [], version_oplog_list = [], push_iter_next = 0, push_iter_st = 0, push_iter_end = 0,
      push_oplog_iter = 0, push_versions = ServerVersionMgr ids\<rparr>"

definition push_AddRowRequest ::
  "bool \<Rightarrow> row_request_info \<Rightarrow> int \<Rightarrow> int \<Rightarrow> 'o push_mgr \<Rightarrow> bool \<times> 'o push_mgr" where
  "push_AddRowRequest junk r t row m =
     (let k = (t, row); (sent, l) = insert_request junk r (requests_at k (push_pending m)) in
      (sent, m\<lparr>push_pending := oupd k l (push_pending m)\<rparr>))"

fun push_inform_loop ::
  "int \<Rightarrow> row_request_info list \<Rightarrow> int \<times> int list \<times> row_request_info list" where
  "push_inform_loop clock [] = (- 1, [], [])"
| "push_inform_loop clock (r # rs) =
     (if rqi_clock r \<le> clock then
        let (c, ids, rest) = push_inform_loop clock rs in (c, rqi_app_thread_id r # ids, rest)
      else if \<not> rqi_sent r then (rqi_clock r, [], r\<lparr>rqi_sent := True\<rparr> # rs)
      else (- 1, [], r # rs))"

definition push_InformReply :: "int \<Rightarrow> int \<Rightarrow> int \<Rightarrow> 'o push_mgr \<Rightarrow> int \<times> int list \<times> 'o push_mgr" where
  "push_InformReply t row clock m =
     (let k = (t, row); (c, ids, rest) = push_inform_loop clock (requests_at k (push_pending m)) in
      (c, ids, m\<lparr>push_pending := (if rest = [] then odel k (push_pending m) else oupd k rest (push_pending m))\<rparr>))"

definition push_AddOpLog :: "32 word \<Rightarrow> 'o \<Rightarrow> 'o push_mgr \<Rightarrow> bool \<times> 'o push_mgr" where
  "push_AddOpLog version oplog m = (True, m\<lparr>version_oplog_list := version_oplog_list m @ [(version, oplog)]\<rparr>)"

definition push_GetOpLog :: "32 word \<Rightarrow> 'o push_mgr \<Rightarrow> 'o result" where
  "push_GetOpLog version m =
     of_option (Fatal ''OpLog not found!'') (map_of (version_oplog_list m) version)"

definition InformVersionInc :: "'o push_mgr \<Rightarrow> 'o push_mgr" where
  "InformVersionInc m = m\<lparr>push_versions := IncVersionUpperBound (push_versions m)\<rparr>"

text \<open>
  The loop that removes acknowledged oplogs.  After each removal but the last
  the code assigns through a reference to the erased list node, which is
  undefined; \<open>stray\<close> is what that assignment does.
\<close>

definition acknowledged :: "32 word \<Rightarrow> 32 word \<Rightarrow> 32 word \<Rightarrow> bool" where
  "acknowledged ub to_remove v \<longleftrightarrow>
     (if to_remove > ub then v > ub \<and> v \<le> to_remove else v > ub \<or> v \<le> to_remove)"

fun ack_loop :: "unit result \<Rightarrow> 32 word \<Rightarrow> 32 word \<Rightarrow> (32 word \<times> 'o) list \<Rightarrow> (32 word \<times> 'o) list result" where
  "ack_loop stray ub to_remove [] = Inr []"
| "ack_loop stray ub to_remove ((v, ol) # l) =
     (if acknowledged ub to_remove v then
        (if l = [] then Inr [] else rbind stray (\<lambda>_. ack_loop stray ub to_remove l))
      else Inr ((v, ol) # l))"

definition ServerAcknowledgeVersion ::
  "unit result \<Rightarrow> int \<Rightarrow> 32 word \<Rightarrow> 'o push_mgr \<Rightarrow> 'o push_mgr result" where
  "ServerAcknowledgeVersion stray server version m =
     rbind (SetServerVersion server version (push_versions m)) (\<lambda>(changed, vm).
     let m = m\<lparr>push_versions := vm\<rparr> in
     if \<not> changed then Inr m
     else
       let to_remove = GetMinVersion vm in
       if version_oplog_list m = [] then Inr m
       else rbind (ack_loop stray (GetVersionUpperBound vm) to_remove (version_oplog_list m)) (\<lambda>l.
            Inr (m\<lparr>version_oplog_list := l\<rparr>)))"

fun find_version :: "32 word \<Rightarrow> nat \<Rightarrow> (32 word \<times> 'o) list \<Rightarrow> (nat \<times> 'o) option" where
  "find_version v i [] = None"
| "find_version v i ((w, ol) # l) = (if w = v then Some (i, ol) else find_version v (i + 1) l)"

definition push_OpLogIterInit :: "32 word \<Rightarrow> 32 word \<Rightarrow> 'o push_mgr \<Rightarrow> ('o \<times> 'o push_mgr) result" where
  "push_OpLogIterInit st en m =
     (let m = m\<lparr>push_iter_st := st, push_iter_end := en, push_iter_next := st + 1\<rparr> in
      rbind (of_option (Fatal ''OpLog not found!'') (find_version st 0 (version_oplog_list m))) (\<lambda>(i, ol).
      Inr (ol, m\<lparr>push_oplog_iter := i\<rparr>)))"

definition push_OpLogIterNext :: "'o push_mgr \<Rightarrow> ((32 word \<times> 'o) option \<times> 'o push_mgr) result" where
  "push_OpLogIterNext m =
     (if push_iter_next m > push_iter_end m then Inr (None, m)
      else
        let i = push_oplog_iter m + 1; m = m\<lparr>push_oplog_iter := i\<rparr> in
        rbind (check (i < length (version_oplog_list m)) ''oplog_iter_ != version_oplog_list_.cend()'') (\<lambda>_.
        case version_oplog_list m ! i of (v, ol) \<Rightarrow>
        rbind (check (v = push_iter_next m) ''oplog_iter_->first == oplog_iter_version_next_'') (\<lambda>_.
        Inr (Some (v, ol), m\<lparr>push_iter_next := push_iter_next m + 1\<rparr>))))"

end
