(* ===== verification/Request_Proofs.thy ===== *)
theory Request_Proofs
imports Request_Mgr
begin

text \<open>
  What the request managers promise.  A request carries the version of the last
  oplog that was sent before it; the reply may lack the oplogs since then, so
  exactly those have to be kept.  The lemmas show that the reference counts
  and \<open>CleanVersionOpLogs\<close> keep them, no fewer and no more, under the
  wrap-around of the version numbers.
\<close>

section \<open>Ages\<close>

text \<open>\<open>age cur v\<close>: how many oplogs after version \<open>v\<close> have been sent; \<open>cur\<close> is the next version.\<close>

definition age :: "32 word \<Rightarrow> 32 word \<Rightarrow> nat" where
  "age cur v = unat (cur - 1 - v)"

lemma age_inj: "age cur v = age cur w \<Longrightarrow> v = w"
  by (metis age_def unsigned_word_eqI diff_left_imp_eq)

lemma age_0: "age cur v = 0 \<longleftrightarrow> v + 1 = cur"
  by (auto simp: age_def unat_eq_0 algebra_simps)

lemma unat_pred: "x \<noteq> 0 \<Longrightarrow> unat (x - 1) = unat (x :: 32 word) - 1"
  by (metis unat_minus_one)

lemma age_succ: "v + 1 \<noteq> cur \<Longrightarrow> age cur (v + 1) = age cur v - 1"
proof -
  assume "v + 1 \<noteq> cur"
  then have "cur - 1 - v \<noteq> 0" by (auto simp: algebra_simps)
  from unat_pred [OF this] show ?thesis by (simp add: age_def algebra_simps)
qed

lemma age_bound: "age cur v < 2 ^ 32"
  using unsigned_less [of "cur - 1 - v"] by (simp add: age_def)

lemma age_next: "v \<noteq> cur \<Longrightarrow> age (cur + 1) v = age cur v + 1"
  using age_succ [of v "cur + 1"] age_0 [of "cur + 1" v] by (auto simp: age_def algebra_simps)

lemma age_cur: "age cur cur = 2 ^ 32 - 1"
  by (simp add: age_def unsigned_minus_1_eq_mask mask_eq_exp_minus_1)

section \<open>Version counts and kept oplogs\<close>

definition ver_ok :: "32 word \<Rightarrow> 32 word multiset \<Rightarrow> (32 word \<times> int) list \<Rightarrow> (32 word \<times> 'o) list \<Rightarrow> bool" where
  "ver_ok cur V cnt ops \<longleftrightarrow> osorted cnt \<and> osorted ops \<and>
     (\<forall>v. map_of cnt v = (if v \<in># V then Some (int (count V v)) else None)) \<and>
     (\<forall>v \<in># V. age cur v < 2 ^ 32 - 1) \<and>
     (\<forall>w. map_of ops w \<noteq> None \<longleftrightarrow> (\<exists>v \<in># V. age cur w < age cur v))"

lemma ver_ok_cnt: "ver_ok cur V cnt ops \<Longrightarrow> cnt_at v cnt = int (count V v)"
  by (auto simp: ver_ok_def cnt_at_def not_in_iff)

lemma clean_loop_spec:
  fixes ops :: "(32 word \<times> 'o) list"
  assumes "osorted ops" "\<forall>w. map_of ops w \<noteq> None \<longleftrightarrow> age cur w < age cur v"
    and "\<forall>u \<in># V. age cur u < age cur v" "\<forall>u. map_of cnt u \<noteq> None \<longleftrightarrow> u \<in># V"
  shows "osorted (clean_loop cur cnt v ops) \<and>
    (\<forall>w. map_of (clean_loop cur cnt v ops) w \<noteq> None \<longleftrightarrow> (\<exists>u \<in># V. age cur w < age cur u)) \<and>
    (\<forall>w x. map_of (clean_loop cur cnt v ops) w = Some x \<longrightarrow> map_of ops w = Some x)"
  using assms
proof (induction cur cnt v ops rule: clean_loop.induct)
  case (1 cur cnt v ops)
  let ?o = "odel (v + 1) ops"
  have so: "osorted ?o" using "1.prems"(1) by (rule osorted_odel)
  have mo: "map_of ?o w = (if w = v + 1 then None else map_of ops w)" for w
    using "1.prems"(1) by (simp add: map_of_odel)
  show ?case
  proof (cases "v + 1 = cur")
    case True
    then have "age cur v = 0" by (simp add: age_0)
    with "1.prems" True so mo show ?thesis by (simp add: clean_loop.simps [of cur cnt v ops] Let_def)
  next
    case False
    have a: "age cur (v + 1) = age cur v - 1" "age cur v > 0"
      using age_succ [OF False] age_0 [of cur v] False by auto
    have dom: "\<forall>w. map_of ?o w \<noteq> None \<longleftrightarrow> age cur w < age cur (v + 1)"
      using "1.prems"(2) a age_inj [of cur _ "v + 1"] unfolding mo
      by (metis One_nat_def Suc_pred less_SucE less_SucI less_irrefl)
    show ?thesis
    proof (cases "map_of cnt (v + 1) = None")
      case True
      then have ni: "v + 1 \<notin># V" using "1.prems"(4) [rule_format, of "v + 1"] by simp
      have lt: "\<forall>u \<in># V. age cur u < age cur (v + 1)"
      proof
        fix u assume u: "u \<in># V"
        then have "age cur u \<le> age cur v - 1" using "1.prems"(3) by force
        moreover have "age cur u \<noteq> age cur (v + 1)" using age_inj [of cur u "v + 1"] u ni by auto
        ultimately show "age cur u < age cur (v + 1)" using a by simp
      qed
      have "osorted (clean_loop cur cnt (v + 1) ?o) \<and>
        (\<forall>w. map_of (clean_loop cur cnt (v + 1) ?o) w \<noteq> None \<longleftrightarrow> (\<exists>u \<in># V. age cur w < age cur u)) \<and>
        (\<forall>w x. map_of (clean_loop cur cnt (v + 1) ?o) w = Some x \<longrightarrow> map_of ?o w = Some x)"
        using True False so dom lt "1.prems"(4) by (intro "1.IH") auto
      moreover have "clean_loop cur cnt v ops = clean_loop cur cnt (v + 1) ?o"
        using True False by (simp add: clean_loop.simps [of cur cnt v ops] Let_def)
      ultimately show ?thesis using mo by (metis option.distinct(1))
    next
      case in_V: False
      then have "v + 1 \<in># V" using "1.prems"(4) by auto
      moreover have "age cur u \<le> age cur (v + 1)" if "u \<in># V" for u using "1.prems"(3) that a by force
      ultimately have "(\<exists>u \<in># V. age cur w < age cur u) \<longleftrightarrow> age cur w < age cur (v + 1)" for w
        by (meson order_less_le_trans)
      moreover have "clean_loop cur cnt v ops = ?o" by (subst clean_loop.simps) (use in_V in \<open>auto simp: Let_def\<close>)
      ultimately show ?thesis using so dom mo by (metis option.distinct(1))
    qed
  qed
qed

text \<open>Forgetting one request of version \<open>v\<close>, after its count went down.\<close>

lemma Clean_spec:
  fixes ops :: "(32 word \<times> 'o) list"
  assumes ok: "ver_ok cur (add_mset v V) cnt0 ops" and nv: "v \<notin># V" and so: "osorted cnt"
    and cnt: "\<forall>u. map_of cnt u = (if u \<in># V then Some (int (count V u)) else None)"
  shows "ver_ok cur V cnt (CleanVersionOpLogs v cur cnt ops)"
    and "\<forall>w x. map_of (CleanVersionOpLogs v cur cnt ops) w = Some x \<longrightarrow> map_of ops w = Some x"
proof -
  have dom: "map_of ops w \<noteq> None \<longleftrightarrow> age cur w < age cur v \<or> (\<exists>u \<in># V. age cur w < age cur u)" for w
    using ok by (auto simp: ver_ok_def)
  have sops: "osorted ops" and win: "\<forall>u \<in># V. age cur u < 2 ^ 32 - 1"
    using ok by (auto simp: ver_ok_def)
  have "osorted (CleanVersionOpLogs v cur cnt ops) \<and>
    (\<forall>w. map_of (CleanVersionOpLogs v cur cnt ops) w \<noteq> None \<longleftrightarrow> (\<exists>u \<in># V. age cur w < age cur u)) \<and>
    (\<forall>w x. map_of (CleanVersionOpLogs v cur cnt ops) w = Some x \<longrightarrow> map_of ops w = Some x)"
  proof (cases "v + 1 = cur")
    case True
    then have "age cur v = 0" by (simp add: age_0)
    with True sops dom show ?thesis by (simp add: CleanVersionOpLogs_def)
  next
    case False
    show ?thesis
    proof (cases "map_of ops v = None")
      case None: True
      have "\<not> age cur v < age cur u" if "u \<in># V" for u using dom [of v] None that by auto
      moreover have "age cur u \<noteq> age cur v" if "u \<in># V" for u using that nv age_inj [of cur u v] by auto
      ultimately have lt: "\<forall>u \<in># V. age cur u < age cur v" by (metis linorder_neqE_nat)
      then have d: "\<forall>w. map_of ops w \<noteq> None \<longleftrightarrow> age cur w < age cur v" using dom by (meson less_trans)
      have c: "\<forall>u. map_of cnt u \<noteq> None \<longleftrightarrow> u \<in># V" using cnt by auto
      show ?thesis using clean_loop_spec [OF sops d lt c] None False by (simp add: CleanVersionOpLogs_def)
    next
      case some: False
      then obtain u where "u \<in># V" "age cur v < age cur u" using dom [of v] by auto
      then have "age cur w < age cur v \<Longrightarrow> \<exists>u \<in># V. age cur w < age cur u" for w by (meson less_trans)
      then show ?thesis using False some sops dom by (auto simp: CleanVersionOpLogs_def)
    qed
  qed
  then show "ver_ok cur V cnt (CleanVersionOpLogs v cur cnt ops)"
    "\<forall>w x. map_of (CleanVersionOpLogs v cur cnt ops) w = Some x \<longrightarrow> map_of ops w = Some x"
    using so cnt win unfolding ver_ok_def by blast+
qed


lemma map_of_cnt_inc: "map_of (cnt_inc v c) = (map_of c)(v \<mapsto> cnt_at v c + 1)"
  and map_of_cnt_dec: "map_of (cnt_dec v c) = (map_of c)(v \<mapsto> cnt_at v c - 1)"
  by (simp_all add: cnt_inc_def cnt_dec_def map_of_oupd)

lemma cnt_inc_dec: "osorted c \<Longrightarrow> cnt_inc u (cnt_dec v c) = cnt_dec v (cnt_inc u c)"
proof (rule osorted_map_of_eq)
  show "map_of (cnt_inc u (cnt_dec v c)) = map_of (cnt_dec v (cnt_inc u c))"
    unfolding map_of_cnt_inc map_of_cnt_dec by (cases "u = v") (auto simp: cnt_at_def map_of_cnt_inc map_of_cnt_dec fun_eq_iff)
qed (simp_all add: cnt_inc_def cnt_dec_def osorted_oupd)

lemma ver_ok_add:
  assumes "ver_ok cur V cnt ops"
  shows "ver_ok cur (add_mset (cur - 1) V) (cnt_inc (cur - 1) cnt) ops"
proof -
  have "age cur (cur - 1) = 0" by (simp add: age_def)
  with assms show ?thesis
    by (auto simp: ver_ok_def cnt_at_def cnt_inc_def osorted_oupd map_of_oupd not_in_iff)
qed

lemma drop_version_spec:
  assumes ok: "ver_ok cur (add_mset v V) cnt (version_oplog_map m)"
    and m: "version_request_cnt_map m = cnt_dec v cnt"
  shows "cnt_at v (version_request_cnt_map m) \<ge> 0"
    and "ver_ok cur V (version_request_cnt_map (drop_version v cur m)) (version_oplog_map (drop_version v cur m))"
    and "pending_row_requests (drop_version v cur m) = pending_row_requests m"
    and "\<forall>w x. map_of (version_oplog_map (drop_version v cur m)) w = Some x \<longrightarrow> map_of (version_oplog_map m) w = Some x"
proof -
  have so: "osorted cnt" using ok by (simp add: ver_ok_def)
  then have so': "osorted (cnt_dec v cnt)" by (simp add: cnt_dec_def osorted_oupd)
  have mo: "map_of cnt u = (if u \<in># add_mset v V then Some (int (count (add_mset v V) u)) else None)" for u
    using ok by (simp add: ver_ok_def)
  have c: "cnt_at v (cnt_dec v cnt) = int (count V v)"
    by (simp add: cnt_at_def map_of_cnt_dec mo)
  then show "cnt_at v (version_request_cnt_map m) \<ge> 0" by (simp add: m)
  have "ver_ok cur V (version_request_cnt_map (drop_version v cur m)) (version_oplog_map (drop_version v cur m)) \<and>
    (\<forall>w x. map_of (version_oplog_map (drop_version v cur m)) w = Some x \<longrightarrow> map_of (version_oplog_map m) w = Some x)"
  proof (cases "count V v = 0")
    case True
    then have nv: "v \<notin># V" by (simp add: not_in_iff)
    have "\<forall>u. map_of (odel v (cnt_dec v cnt)) u = (if u \<in># V then Some (int (count V u)) else None)"
      using nv by (auto simp: map_of_odel [OF so'] map_of_cnt_dec mo)
    from Clean_spec [OF ok nv osorted_odel [OF so'] this] c True m show ?thesis
      by (simp add: drop_version_def Let_def)
  next
    case False
    then have "v \<in># V" by (simp add: not_in_iff [symmetric])
    then have "ver_ok cur V (cnt_dec v cnt) (version_oplog_map m)"
      using ok so' c unfolding ver_ok_def map_of_cnt_dec by (auto simp: cnt_at_def)
    moreover have "cnt_at v (version_request_cnt_map m) \<noteq> 0" unfolding m c using False by linarith
    then have "drop_version v cur m = m" by (simp add: drop_version_def)
    ultimately show ?thesis using m by simp
  qed
  then show "ver_ok cur V (version_request_cnt_map (drop_version v cur m)) (version_oplog_map (drop_version v cur m))"
    "\<forall>w x. map_of (version_oplog_map (drop_version v cur m)) w = Some x \<longrightarrow> map_of (version_oplog_map m) w = Some x"
    by blast+
  show "pending_row_requests (drop_version v cur m) = pending_row_requests m"
    by (simp add: drop_version_def Let_def)
qed

section \<open>The lists of requests\<close>

lemma insert_backwards_spec:
  "case insert_backwards r ps of
     None \<Rightarrow> \<forall>p \<in> set ps. rqi_clock r < rqi_clock p
   | Some q \<Rightarrow> mset q = add_mset r (mset ps) \<and>
       (sorted_wrt (\<ge>) (map rqi_clock ps) \<longrightarrow> sorted_wrt (\<ge>) (map rqi_clock q)) \<and>
       (\<exists>p \<in> set ps. rqi_clock p \<le> rqi_clock r)"
proof (induction ps)
  case (Cons p ps)
  then show ?case
  proof (cases "insert_backwards r ps")
    case None
    with Cons show ?thesis by auto
  next
    case (Some q)
    then have s: "set q = insert r (set ps)"
      using Cons mset_eq_setD [of q "r # ps"] by simp
    with Some Cons show ?thesis by auto
  qed
qed simp

lemma sorted_wrt_ge_rev: "sorted_wrt (\<ge>) (map f (rev xs)) \<longleftrightarrow> sorted (map f xs)"
  by (simp add: rev_map [symmetric] sorted_wrt_rev)

lemma insert_request_spec:
  assumes "insert_request junk r l = (sent, l')"
  shows "mset l' = add_mset (copy_request junk r) (mset l)" "sent \<longleftrightarrow> (\<forall>p \<in> set l. rqi_clock r < rqi_clock p)"
    "sorted (map rqi_clock l) \<Longrightarrow> sorted (map rqi_clock l')"
proof -
  have c: "rqi_clock (copy_request junk r) = rqi_clock r" by (simp add: copy_request_def)
  note s = insert_backwards_spec [where r = "copy_request junk r" and ps = "rev l", unfolded c]
  show "mset l' = add_mset (copy_request junk r) (mset l)" "sent \<longleftrightarrow> (\<forall>p \<in> set l. rqi_clock r < rqi_clock p)"
    using assms s by (auto simp: insert_request_def not_less split: option.splits)
  assume so: "sorted (map rqi_clock l)"
  show "sorted (map rqi_clock l')"
  proof (cases "insert_backwards (copy_request junk r) (rev l)")
    case None
    with assms s so c show ?thesis by (fastforce simp: insert_request_def)
  next
    case (Some q)
    with s so have "sorted_wrt (\<ge>) (map rqi_clock (rev (rev q)))" by (simp add: sorted_wrt_ge_rev)
    with assms Some show ?thesis by (simp only: sorted_wrt_ge_rev) (auto simp: insert_request_def)
  qed
qed


text \<open>What a reply of clock \<open>clk\<close> leaves of a list: the first request it does not satisfy is sent if it was not.\<close>

fun resend :: "32 word \<Rightarrow> row_request_info list \<Rightarrow> int \<times> row_request_info list" where
  "resend cur [] = (- 1, [])"
| "resend cur (r # rs) =
     (if \<not> rqi_sent r then (rqi_clock r, r\<lparr>rqi_sent := True, rqi_version := cur - 1\<rparr> # rs) else (- 1, r # rs))"

definition versions_of :: "row_request_info list \<Rightarrow> 32 word multiset" where
  "versions_of l = image_mset rqi_version (mset l)"

lemma versions_of_Cons [simp]: "versions_of (r # rs) = add_mset (rqi_version r) (versions_of rs)"
  by (simp add: versions_of_def)

lemma versions_of_Nil [simp]: "versions_of [] = {#}"
  by (simp add: versions_of_def)

lemma inform_loop_spec:
  assumes "ver_ok cur (W + versions_of rs) (version_request_cnt_map m) (version_oplog_map m)"
    and "sorted (map rqi_clock rs)"
  shows "\<exists>m' c rest. inform_loop clk cur rs m =
      Inr (c, map rqi_app_thread_id (filter (\<lambda>r. rqi_clock r \<le> clk) rs), rest, m') \<and>
    (c, rest) = resend cur (filter (\<lambda>r. clk < rqi_clock r) rs) \<and>
    ver_ok cur (W + versions_of rest) (version_request_cnt_map m') (version_oplog_map m') \<and>
    pending_row_requests m' = pending_row_requests m \<and>
    (\<forall>w x. map_of (version_oplog_map m') w = Some x \<longrightarrow> map_of (version_oplog_map m) w = Some x)"
  using assms
proof (induction rs arbitrary: m)
  case (Cons r rs)
  let ?cnt = "version_request_cnt_map m" and ?v = "rqi_version r"
  have ok: "ver_ok cur (add_mset ?v (W + versions_of rs)) ?cnt (version_oplog_map m)"
    using Cons.prems(1) by simp
  show ?case
  proof (cases "rqi_clock r \<le> clk")
    case True
    let ?m = "m\<lparr>version_request_cnt_map := cnt_dec ?v ?cnt\<rparr>"
    have "ver_ok cur (add_mset ?v (W + versions_of rs)) ?cnt (version_oplog_map ?m)" using ok by simp
    from drop_version_spec [OF this] have d: "cnt_at ?v (cnt_dec ?v ?cnt) \<ge> 0"
      "ver_ok cur (W + versions_of rs) (version_request_cnt_map (drop_version ?v cur ?m)) (version_oplog_map (drop_version ?v cur ?m))"
      "pending_row_requests (drop_version ?v cur ?m) = pending_row_requests m"
      "\<forall>w x. map_of (version_oplog_map (drop_version ?v cur ?m)) w = Some x \<longrightarrow> map_of (version_oplog_map m) w = Some x"
      by simp_all
    have "sorted (map rqi_clock rs)" using Cons.prems(2) by simp
    from Cons.IH [OF d(2) this] d True show ?thesis by (auto simp: Let_def)
  next
    case False
    then have gt: "filter (\<lambda>r. rqi_clock r \<le> clk) (r # rs) = []" "filter (\<lambda>r. clk < rqi_clock r) (r # rs) = r # rs"
      using Cons.prems(2) by (auto simp: filter_empty_conv filter_id_conv)
    show ?thesis
    proof (cases "rqi_sent r")
      case True
      with False Cons.prems(1) show ?thesis unfolding gt by simp
    next
      case unsent: False
      let ?m = "m\<lparr>version_request_cnt_map := cnt_inc (cur - 1) (cnt_dec ?v ?cnt)\<rparr>"
      have "osorted ?cnt" using ok by (simp add: ver_ok_def)
      then have c: "version_request_cnt_map ?m = cnt_dec ?v (cnt_inc (cur - 1) ?cnt)"
        by (simp add: cnt_inc_dec)
      have "ver_ok cur (add_mset ?v (add_mset (cur - 1) (W + versions_of rs))) (cnt_inc (cur - 1) ?cnt) (version_oplog_map ?m)"
        using ver_ok_add [OF ok] by (simp add: add_mset_commute)
      from drop_version_spec [OF this c] show ?thesis
        unfolding gt using False unsent by (auto simp: Let_def)
    qed
  qed
qed simp

section \<open>The invariant of the manager\<close>

definition pending_versions :: "pending_requests \<Rightarrow> 32 word multiset" where
  "pending_versions p = (\<Sum>(k, l) \<leftarrow> p. versions_of l)"

definition mgr_ok :: "32 word \<Rightarrow> 'o ssp_mgr \<Rightarrow> bool" where
  "mgr_ok cur m \<longleftrightarrow> osorted (pending_row_requests m) \<and>
     (\<forall>k l. map_of (pending_row_requests m) k = Some l \<longrightarrow> l \<noteq> [] \<and> sorted (map rqi_clock l)) \<and>
     ver_ok cur (pending_versions (pending_row_requests m)) (version_request_cnt_map m) (version_oplog_map m)"

lemma requests_at_sorted: "mgr_ok cur m \<Longrightarrow> sorted (map rqi_clock (requests_at k (pending_row_requests m)))"
  by (cases k) (auto simp: mgr_ok_def requests_at_def split: option.splits)

lemma pending_versions_oupd:
  assumes "osorted p"
  shows "pending_versions (oupd k l p) + versions_of (requests_at k p) = pending_versions p + versions_of l"
  using sum_oupd_mset [OF assms, where f = "\<lambda>(k, l). versions_of l" and k = k and v = l]
  by (cases "map_of p k") (simp_all add: pending_versions_def requests_at_def)

lemma pending_versions_odel:
  assumes "osorted p"
  shows "pending_versions (odel k p) + versions_of (requests_at k p) = pending_versions p"
proof (cases "map_of p k")
  case None
  then have "odel k p = p"
    by (intro osorted_map_of_eq) (use assms in \<open>auto simp: map_of_odel osorted_odel\<close>)
  with None show ?thesis by (simp add: requests_at_def)
next
  case (Some l)
  from sum_odel_mset [OF this, of "\<lambda>(k, l). versions_of l"] Some show ?thesis
    by (simp add: pending_versions_def requests_at_def)
qed

lemma AddRowRequest_ok:
  assumes ok: "mgr_ok cur m" and v: "rqi_version r = cur - 1"
    and add: "ssp_AddRowRequest junk r t row m = (sent, m')"
  shows "mgr_ok cur m'" "sent \<longleftrightarrow> (\<forall>p \<in> set (requests_at (t, row) (pending_row_requests m)). rqi_clock r < rqi_clock p)"
    "pending_versions (pending_row_requests m') = add_mset (cur - 1) (pending_versions (pending_row_requests m))"
    "mset (requests_at (t, row) (pending_row_requests m')) =
       add_mset (copy_request junk r) (mset (requests_at (t, row) (pending_row_requests m)))"
    "\<forall>k. k \<noteq> (t, row) \<longrightarrow> requests_at k (pending_row_requests m') = requests_at k (pending_row_requests m)"
proof -
  let ?p = "pending_row_requests m" and ?k = "(t, row)"
  obtain l where l: "insert_request junk r (requests_at ?k ?p) = (sent, l)"
    and m': "m' = m\<lparr>pending_row_requests := oupd ?k l ?p, version_request_cnt_map := cnt_inc (cur - 1) (version_request_cnt_map m)\<rparr>"
    using add v by (auto simp: ssp_AddRowRequest_def Let_def split: prod.splits)
  note ins = insert_request_spec [OF l]
  have so: "osorted ?p" using ok by (simp add: mgr_ok_def)
  have "versions_of l = add_mset (cur - 1) (versions_of (requests_at ?k ?p))"
    using v by (simp add: versions_of_def ins(1) copy_request_def)
  then have pv: "pending_versions (oupd ?k l ?p) = add_mset (cur - 1) (pending_versions ?p)"
    using pending_versions_oupd [OF so, of ?k l] by simp
  then show "pending_versions (pending_row_requests m') = add_mset (cur - 1) (pending_versions ?p)" by (simp add: m')
  have "l \<noteq> []" using ins(1) by auto
  then show "mgr_ok cur m'"
    using ok pv ins(3) requests_at_sorted [OF ok] ver_ok_add
    by (auto simp: mgr_ok_def m' osorted_oupd map_of_oupd split: if_splits)
  show "sent \<longleftrightarrow> (\<forall>p \<in> set (requests_at ?k ?p). rqi_clock r < rqi_clock p)" by (rule ins(2))
  show "mset (requests_at ?k (pending_row_requests m')) = add_mset (copy_request junk r) (mset (requests_at ?k ?p))"
    "\<forall>k. k \<noteq> ?k \<longrightarrow> requests_at k (pending_row_requests m') = requests_at k ?p"
    using ins(1) by (simp_all add: m' requests_at_def map_of_oupd)
qed


lemma InformReply_ok:
  fixes t row :: int and m :: "'o ssp_mgr"
  assumes ok: "mgr_ok cur m"
  defines "rs \<equiv> requests_at (t, row) (pending_row_requests m)"
  shows "\<exists>m' c rest. ssp_InformReply t row clk cur m =
      Inr (c, map rqi_app_thread_id (filter (\<lambda>r. rqi_clock r \<le> clk) rs), m') \<and>
    (c, rest) = resend cur (filter (\<lambda>r. clk < rqi_clock r) rs) \<and> mgr_ok cur m' \<and>
    (\<forall>k. requests_at k (pending_row_requests m') = (if k = (t, row) then rest else requests_at k (pending_row_requests m))) \<and>
    (\<forall>w x. map_of (version_oplog_map m') w = Some x \<longrightarrow> map_of (version_oplog_map m) w = Some x)"
proof -
  let ?p = "pending_row_requests m" and ?k = "(t, row)"
  have so: "osorted ?p" using ok by (simp add: mgr_ok_def)
  define W where "W = pending_versions (odel ?k ?p)"
  have W: "pending_versions ?p = W + versions_of rs"
    using pending_versions_odel [OF so, of ?k] by (simp add: W_def rs_def)
  have "ver_ok cur (W + versions_of rs) (version_request_cnt_map m) (version_oplog_map m)"
    using ok unfolding mgr_ok_def W by blast
  from inform_loop_spec [OF this, of clk] requests_at_sorted [OF ok, of ?k]
  obtain m1 c rest where lp: "inform_loop clk cur rs m =
      Inr (c, map rqi_app_thread_id (filter (\<lambda>r. rqi_clock r \<le> clk) rs), rest, m1)"
    "(c, rest) = resend cur (filter (\<lambda>r. clk < rqi_clock r) rs)"
    "ver_ok cur (W + versions_of rest) (version_request_cnt_map m1) (version_oplog_map m1)"
    "pending_row_requests m1 = ?p"
    "\<forall>w x. map_of (version_oplog_map m1) w = Some x \<longrightarrow> map_of (version_oplog_map m) w = Some x"
    unfolding rs_def by blast
  let ?q = "if rest = [] then odel ?k ?p else oupd ?k rest ?p"
  have "sorted (map rqi_clock (filter (\<lambda>r. clk < rqi_clock r) rs))"
    using requests_at_sorted [OF ok, of ?k] unfolding rs_def by (intro sorted_filter)
  then have sr: "sorted (map rqi_clock rest)"
    using lp(2) by (cases "filter (\<lambda>r. clk < rqi_clock r) rs") (auto split: if_splits)
  have "pending_versions ?q = W + versions_of rest"
    using pending_versions_oupd [OF so, of ?k rest] W by (auto simp: W_def rs_def)
  then have "mgr_ok cur (m1\<lparr>pending_row_requests := ?q\<rparr>)"
    using ok lp(3) sr so unfolding mgr_ok_def
    by (auto simp: osorted_oupd osorted_odel map_of_oupd map_of_odel split: if_splits)
  moreover have "\<forall>k. requests_at k ?q = (if k = ?k then rest else requests_at k ?p)"
    using so by (auto simp: requests_at_def map_of_oupd map_of_odel)
  moreover have "ssp_InformReply t row clk cur m =
      Inr (c, map rqi_app_thread_id (filter (\<lambda>r. rqi_clock r \<le> clk) rs), m1\<lparr>pending_row_requests := ?q\<rparr>)"
    using lp(1,4) by (simp add: ssp_InformReply_def rs_def [symmetric])
  ultimately show ?thesis using lp(2,5) by (intro exI conjI) (assumption | simp)+
qed

lemma AddOpLog_ok:
  assumes ok: "mgr_ok cur m" and young: "\<forall>v \<in># pending_versions (pending_row_requests m). age cur v + 1 < 2 ^ 32 - 1"
  shows "\<exists>b m'. ssp_AddOpLog cur ol m = Inr (b, m') \<and> mgr_ok (cur + 1) m' \<and>
    pending_row_requests m' = pending_row_requests m \<and>
    (\<forall>w x. map_of (version_oplog_map m') w = Some x \<longrightarrow> w = cur \<and> x = ol \<or> map_of (version_oplog_map m) w = Some x)"
proof -
  let ?V = "pending_versions (pending_row_requests m)" and ?c = "version_request_cnt_map m" and ?o = "version_oplog_map m"
  have vo: "ver_ok cur ?V ?c ?o" using ok by (simp add: mgr_ok_def)
  then have dom: "map_of ?o w \<noteq> None \<longleftrightarrow> (\<exists>v \<in># ?V. age cur w < age cur v)" for w by (simp add: ver_ok_def)
  have none: "map_of ?o cur = None"
    using dom [of cur] young unfolding age_cur by fastforce
  have nc: "v \<noteq> cur" if "v \<in># ?V" for v using young age_cur [of cur] that by fastforce
  have an: "age (cur + 1) v = age cur v + 1" if "v \<in># ?V" for v using age_next [OF nc [OF that]] .
  have a0: "age (cur + 1) cur = 0" by (simp add: age_def)
  have emp: "?c = [] \<longleftrightarrow> ?V = {#}"
  proof
    assume "?c = []"
    then have "v \<notin># ?V" for v using vo unfolding ver_ok_def by (metis map_of.simps(1) option.distinct(1))
    then show "?V = {#}" by auto
  next
    assume "?V = {#}"
    then have n: "map_of ?c v = None" for v using vo by (auto simp: ver_ok_def)
    show "?c = []"
    proof (cases ?c)
      case (Cons p c)
      then show ?thesis using n [of "fst p"] by (cases p) simp
    qed simp
  qed
  show ?thesis
  proof (cases "?V = {#}")
    case True
    then have "ver_ok (cur + 1) ?V ?c ?o" using vo by (simp add: ver_ok_def)
    with True emp ok none show ?thesis by (auto simp: ssp_AddOpLog_def mgr_ok_def)
  next
    case False
    have d: "map_of (oupd cur ol ?o) w \<noteq> None \<longleftrightarrow> (\<exists>v \<in># ?V. age (cur + 1) w < age (cur + 1) v)" for w
    proof (cases "w = cur")
      case True
      with False an show ?thesis by (auto simp: map_of_oupd a0)
    next
      case ne: False
      have "(\<exists>v \<in># ?V. age (cur + 1) w < age (cur + 1) v) \<longleftrightarrow> (\<exists>v \<in># ?V. age cur w < age cur v)"
        using an age_next [OF ne] by auto
      then show ?thesis using ne dom [of w] by (simp add: map_of_oupd)
    qed
    have "ver_ok (cur + 1) ?V ?c (oupd cur ol ?o)"
      using vo young an d unfolding ver_ok_def by (auto simp: osorted_oupd)
    with False emp ok none show ?thesis by (auto simp: ssp_AddOpLog_def mgr_ok_def map_of_oupd split: if_splits)
  qed
qed


section \<open>Runs of the manager\<close>

text \<open>
  What a background thread does with its manager: row requests of the current
  version, oplogs that are sent, replies that arrive.
\<close>

datatype 'o mgr_event =
    EvRequest bool int int int int
  | EvOpLog 'o
  | EvReply int int int

fun mgr_step :: "32 word \<times> 'o ssp_mgr \<Rightarrow> 'o mgr_event \<Rightarrow> (32 word \<times> 'o ssp_mgr) result" where
  "mgr_step (cur, m) (EvRequest junk app clock t row) =
     Inr (cur, snd (ssp_AddRowRequest junk
       \<lparr>rqi_app_thread_id = app, rqi_clock = clock, rqi_version = cur - 1, rqi_sent = junk\<rparr> t row m))"
| "mgr_step (cur, m) (EvOpLog ol) = rbind (ssp_AddOpLog cur ol m) (\<lambda>(_, m). Inr (cur + 1, m))"
| "mgr_step (cur, m) (EvReply t row clock) = rbind (ssp_InformReply t row clock cur m) (\<lambda>(_, _, m). Inr (cur, m))"

fun sent_oplogs :: "'o mgr_event list \<Rightarrow> 'o list" where
  "sent_oplogs [] = []"
| "sent_oplogs (EvOpLog ol # es) = ol # sent_oplogs es"
| "sent_oplogs (e # es) = sent_oplogs es"

lemma sent_oplogs_snoc: "sent_oplogs (es @ [e]) = sent_oplogs es @ (case e of EvOpLog ol \<Rightarrow> [ol] | _ \<Rightarrow> [])"
  by (induction es rule: sent_oplogs.induct) (auto split: mgr_event.splits)

lemma pending_in: "osorted p \<Longrightarrow> v \<in># pending_versions p \<longleftrightarrow> (\<exists>k. \<exists>r \<in> set (requests_at k p). rqi_version r = v)"
proof (induction p rule: osorted.induct)
  case (2 k l m)
  have "map_of m k = None" using "2.prems" by (intro osorted_absent) auto
  then have "requests_at j ((k, l) # m) = (if j = k then l else requests_at j m)" "requests_at k m = []" for j
    by (simp_all add: requests_at_def)
  then have "(\<exists>j. \<exists>r \<in> set (requests_at j ((k, l) # m)). rqi_version r = v) \<longleftrightarrow>
      (\<exists>r \<in> set l. rqi_version r = v) \<or> (\<exists>j. \<exists>r \<in> set (requests_at j m). rqi_version r = v)"
    by (metis empty_iff list.set(1))
  moreover have "v \<in># pending_versions ((k, l) # m) \<longleftrightarrow> (\<exists>r \<in> set l. rqi_version r = v) \<or> v \<in># pending_versions m"
    by (auto simp: pending_versions_def versions_of_def)
  ultimately show ?case using 2 by simp
qed (simp add: pending_versions_def requests_at_def)

definition run_ok :: "'o list \<Rightarrow> 32 word \<times> 'o ssp_mgr \<Rightarrow> bool" where
  "run_ok os st \<longleftrightarrow> (case st of (cur, m) \<Rightarrow> cur = of_nat (length os) \<and> mgr_ok cur m \<and>
     (\<forall>v \<in># pending_versions (pending_row_requests m). age cur v \<le> length os) \<and>
     (\<forall>w x. map_of (version_oplog_map m) w = Some x \<longrightarrow> unat w < length os \<and> os ! unat w = x))"

lemma run_step:
  assumes ok: "run_ok os (cur, m)" and few: "length os + 1 < 2 ^ 32 - 1"
  shows "\<exists>st'. mgr_step (cur, m) e = Inr st' \<and> run_ok (os @ (case e of EvOpLog ol \<Rightarrow> [ol] | _ \<Rightarrow> [])) st'"
proof (cases e)
  case (EvRequest junk app clock t row)
  let ?r = "\<lparr>rqi_app_thread_id = app, rqi_clock = clock, rqi_version = cur - 1, rqi_sent = junk\<rparr>"
  obtain sent m' where a: "ssp_AddRowRequest junk ?r t row m = (sent, m')" by force
  have mo: "mgr_ok cur m" using ok unfolding run_ok_def prod.case by blast
  have z: "age cur (cur - 1) = 0" by (simp add: age_def)
  have "version_oplog_map m' = version_oplog_map m"
    using a by (auto simp: ssp_AddRowRequest_def Let_def split: prod.splits)
  with AddRowRequest_ok(1,3) [OF mo _ a] ok a EvRequest z show ?thesis by (auto simp: run_ok_def)
next
  case (EvOpLog ol)
  have cur: "cur = of_nat (length os)" and mo: "mgr_ok cur m"
    and ag: "\<forall>v \<in># pending_versions (pending_row_requests m). age cur v \<le> length os"
    using ok unfolding run_ok_def prod.case by blast+
  have u: "unat cur = length os" using few unfolding cur by (simp add: unat_of_nat take_bit_nat_eq_self)
  have y: "\<forall>v \<in># pending_versions (pending_row_requests m). age cur v + 1 < 2 ^ 32 - 1"
    using ag few by fastforce
  from AddOpLog_ok [OF mo y] obtain b m' where a: "ssp_AddOpLog cur ol m = Inr (b, m')" "mgr_ok (cur + 1) m'"
    "pending_row_requests m' = pending_row_requests m"
    "\<forall>w x. map_of (version_oplog_map m') w = Some x \<longrightarrow> w = cur \<and> x = ol \<or> map_of (version_oplog_map m) w = Some x"
    by blast
  have "age (cur + 1) v \<le> length os + 1" if "v \<in># pending_versions (pending_row_requests m)" for v
  proof -
    have "v \<noteq> cur" using y age_cur [of cur] that by fastforce
    then show ?thesis using age_next ag that by force
  qed
  moreover have "unat w < length os + 1 \<and> (os @ [ol]) ! unat w = x" if "map_of (version_oplog_map m') w = Some x" for w x
    using a(4) that ok u by (fastforce simp: run_ok_def nth_append)
  ultimately show ?thesis using EvOpLog a cur by (simp add: run_ok_def add.commute)
next
  case (EvReply t row clock)
  have mo: "mgr_ok cur m" using ok unfolding run_ok_def prod.case by blast
  from InformReply_ok [OF mo, of t row clock] obtain m' c ids rest where a:
    "ssp_InformReply t row clock cur m = Inr (c, ids, m')"
    "(c, rest) = resend cur (filter (\<lambda>r. clock < rqi_clock r) (requests_at (t, row) (pending_row_requests m)))"
    "mgr_ok cur m'"
    "\<forall>k. requests_at k (pending_row_requests m') = (if k = (t, row) then rest else requests_at k (pending_row_requests m))"
    "\<forall>w x. map_of (version_oplog_map m') w = Some x \<longrightarrow> map_of (version_oplog_map m) w = Some x" by blast
  have z: "age cur (cur - 1) = 0" by (simp add: age_def)
  have r: "rqi_version r = cur - 1 \<or> (\<exists>r' \<in> set (requests_at (t, row) (pending_row_requests m)). rqi_version r = rqi_version r')"
    if "r \<in> set rest" for r
  proof -
    let ?f = "filter (\<lambda>r. clock < rqi_clock r) (requests_at (t, row) (pending_row_requests m))"
    have "set ?f \<subseteq> set (requests_at (t, row) (pending_row_requests m))" by auto
    then show ?thesis using a(2) that by (cases ?f) (auto split: if_splits)
  qed
  have "age cur v \<le> length os" if pv: "v \<in># pending_versions (pending_row_requests m')" for v
  proof -
    have so: "osorted (pending_row_requests m')" "osorted (pending_row_requests m)" using a(3) mo by (simp_all add: mgr_ok_def)
    obtain k r' where k: "r' \<in> set (requests_at k (pending_row_requests m'))" "rqi_version r' = v"
      using pv unfolding pending_in [OF so(1)] by blast
    have "v = cur - 1 \<or> (\<exists>k. \<exists>r \<in> set (requests_at k (pending_row_requests m)). rqi_version r = v)"
    proof (cases "k = (t, row)")
      case True
      then have "r' \<in> set rest" using k(1) a(4) by simp
      from r [OF this] k(2) show ?thesis by metis
    next
      case False
      then have "r' \<in> set (requests_at k (pending_row_requests m))" using k(1) a(4) by simp
      with k(2) show ?thesis by blast
    qed
    then have "v = cur - 1 \<or> v \<in># pending_versions (pending_row_requests m)"
      unfolding pending_in [OF so(2)] .
    then show ?thesis using ok z by (auto simp: run_ok_def)
  qed
  with ok a EvReply show ?thesis by (auto simp: run_ok_def)
qed

lemma run_all:
  assumes "length (sent_oplogs es) + 1 < 2 ^ 32 - 1"
  shows "\<exists>st. foldM mgr_step (0, SSPRowRequestOpLogMgr) es = Inr st \<and> run_ok (sent_oplogs es) st"
  using assms
proof (induction es rule: rev_induct)
  case Nil
  then show ?case
    by (simp add: run_ok_def mgr_ok_def SSPRowRequestOpLogMgr_def ver_ok_def pending_versions_def)
next
  case (snoc e es)
  have le: "length (sent_oplogs es) \<le> length (sent_oplogs (es @ [e]))" by (simp add: sent_oplogs_snoc)
  with snoc obtain cur m where c: "foldM mgr_step (0, SSPRowRequestOpLogMgr) es = Inr (cur, m)"
    "run_ok (sent_oplogs es) (cur, m)" by fastforce
  have "length (sent_oplogs es) + 1 < 2 ^ 32 - 1" using le snoc.prems by linarith
  from run_step [OF c(2) this, of e] c(1) show ?case by (auto simp: foldM_append sent_oplogs_snoc)
qed


text \<open>
  C21. Oplogs are kept as long as a reply may need them and no longer: over any
  sequence of fewer than \<open>2^32 - 2\<close> oplogs with row requests and replies in any
  order (and whatever the uninitialised flags hold), no check fails, and the
  oplog of version \<open>w\<close> is available exactly when some pending request was issued
  before \<open>w\<close> was sent; what is returned is the \<open>w\<close>-th oplog that was sent.
\<close>

theorem ssp_oplogs_kept:
  assumes "length (sent_oplogs es) + 1 < 2 ^ 32 - 1"
  shows "\<exists>cur m. foldM mgr_step (0, SSPRowRequestOpLogMgr) es = Inr (cur, m) \<and> cur = of_nat (length (sent_oplogs es)) \<and>
    (\<forall>w ol. ssp_GetOpLog w m = Inr ol \<longrightarrow> unat w < length (sent_oplogs es) \<and> ol = sent_oplogs es ! unat w) \<and>
    (\<forall>w. (\<exists>ol. ssp_GetOpLog w m = Inr ol) \<longleftrightarrow>
       (\<exists>k. \<exists>r \<in> set (requests_at k (pending_row_requests m)). age cur w < age cur (rqi_version r)))"
proof -
  obtain cur m where r: "foldM mgr_step (0, SSPRowRequestOpLogMgr) es = Inr (cur, m)" "run_ok (sent_oplogs es) (cur, m)"
    using run_all [OF assms] by force
  then have ok: "mgr_ok cur m" and so: "osorted (pending_row_requests m)"
    unfolding run_ok_def mgr_ok_def by auto
  have "(\<exists>ol. ssp_GetOpLog w m = Inr ol) \<longleftrightarrow> map_of (version_oplog_map m) w \<noteq> None" for w
    by (auto simp: ssp_GetOpLog_def of_option_eq_Inr)
  moreover have "map_of (version_oplog_map m) w \<noteq> None \<longleftrightarrow>
      (\<exists>v \<in># pending_versions (pending_row_requests m). age cur w < age cur v)" for w
    using ok unfolding mgr_ok_def ver_ok_def by blast
  moreover have "(\<exists>v \<in># pending_versions (pending_row_requests m). age cur w < age cur v) \<longleftrightarrow>
      (\<exists>k. \<exists>r \<in> set (requests_at k (pending_row_requests m)). age cur w < age cur (rqi_version r))" for w
    unfolding Bex_def pending_in [OF so] by blast
  ultimately show ?thesis using r unfolding run_ok_def prod.case
    by (auto simp: ssp_GetOpLog_def of_option_eq_Inr)
qed

theorem ssp_oplogs_kept_witness:
  "\<exists>cur m. foldM mgr_step (0, SSPRowRequestOpLogMgr) [EvRequest False 7 3 0 5, EvOpLog ''a'', EvOpLog ''b''] = Inr (cur, m) \<and>
     cur = 2"
  using ssp_oplogs_kept [of "[EvRequest False 7 3 0 5, EvOpLog ''a'', EvOpLog ''b'']"] by auto

text \<open>
  C33. A reply answers exactly the requests of its row with a clock that is small
  enough, in the order of their clocks, and leaves the others and the requests
  for other rows alone; of the others the first one is requested next if it
  counts as not sent.
\<close>

theorem reply_answers_requests:
  fixes t row :: int and m :: "'o ssp_mgr"
  assumes "mgr_ok cur m"
  shows "\<exists>m' c rest. ssp_InformReply t row clk cur m =
      Inr (c, map rqi_app_thread_id (filter (\<lambda>r. rqi_clock r \<le> clk) (requests_at (t, row) (pending_row_requests m))), m') \<and>
    (c, rest) = resend cur (filter (\<lambda>r. clk < rqi_clock r) (requests_at (t, row) (pending_row_requests m))) \<and>
    mgr_ok cur m' \<and>
    (\<forall>k. requests_at k (pending_row_requests m') = (if k = (t, row) then rest else requests_at k (pending_row_requests m)))"
  using InformReply_ok [OF assms, of t row clk] by blast

definition demo_mgr :: "string ssp_mgr" where
  "demo_mgr = snd (ssp_AddRowRequest False
     \<lparr>rqi_app_thread_id = 7, rqi_clock = 3, rqi_version = - 1, rqi_sent = False\<rparr> 0 5 SSPRowRequestOpLogMgr)"

theorem reply_answers_requests_witness:
  "\<exists>m' c. ssp_InformReply 0 5 3 0 demo_mgr = Inr (c, [7], m') \<and> mgr_ok 0 m'"
proof -
  have "mgr_ok 0 (SSPRowRequestOpLogMgr :: string ssp_mgr)"
    by (simp add: mgr_ok_def SSPRowRequestOpLogMgr_def ver_ok_def pending_versions_def)
  from AddRowRequest_ok(1) [OF this, of "\<lparr>rqi_app_thread_id = 7, rqi_clock = 3, rqi_version = - 1, rqi_sent = False\<rparr>" False 0 5]
  have "mgr_ok 0 demo_mgr" by (simp add: demo_mgr_def prod_eq_iff)
  from reply_answers_requests [OF this, of 0 5 3] show ?thesis
    by (auto simp: demo_mgr_def ssp_AddRowRequest_def requests_at_def SSPRowRequestOpLogMgr_def insert_request_def copy_request_def)
qed

text \<open>
  The copy constructor of \<open>RowRequestInfo\<close> loses the flag \<open>sent\<close>.  If the memory
  of the copy happens to hold true, a later request for the same row that was
  held back is never sent: the reply to the first request asks for
  nothing more (\<open>-1\<close>) and the second one stays pending.  With false it is asked for.
\<close>

theorem unsent_request_lost:
  assumes "c1 \<le> clk" "clk < c2"
  shows "let r1 = \<lparr>rqi_app_thread_id = a1, rqi_clock = c1, rqi_version = cur - 1, rqi_sent = True\<rparr>;
        r2 = \<lparr>rqi_app_thread_id = a2, rqi_clock = c2, rqi_version = cur - 1, rqi_sent = True\<rparr>;
        (sent1, m1) = ssp_AddRowRequest j1 r1 t row (SSPRowRequestOpLogMgr :: 'o ssp_mgr);
        (sent2, m2) = ssp_AddRowRequest j2 r2 t row m1 in
      sent1 \<and> \<not> sent2 \<and>
      (\<exists>m3. ssp_InformReply t row clk cur m2 = Inr (if j2 then - 1 else c2, [a1], m3) \<and>
        (\<exists>r. requests_at (t, row) (pending_row_requests m3) = [r] \<and> rqi_app_thread_id r = a2))"
  using assms
  by (auto simp: ssp_AddRowRequest_def requests_at_def SSPRowRequestOpLogMgr_def insert_request_def copy_request_def
      ssp_InformReply_def Let_def cnt_inc_def cnt_dec_def cnt_at_def drop_version_def)

theorem unsent_request_lost_witness:
  "\<exists>m3. ssp_InformReply 0 5 3 0 (snd (ssp_AddRowRequest True
       \<lparr>rqi_app_thread_id = 8, rqi_clock = 5, rqi_version = - 1, rqi_sent = True\<rparr> 0 5
     (snd (ssp_AddRowRequest True \<lparr>rqi_app_thread_id = 7, rqi_clock = 1, rqi_version = - 1, rqi_sent = True\<rparr> 0 5
       (SSPRowRequestOpLogMgr :: string ssp_mgr))))) = Inr (- 1, [7], m3)"
  using unsent_request_lost [where 'o = string, of 1 3 5 7 0 8 True 0 5 True]
  by (auto simp: Let_def split: prod.splits)

section \<open>Acknowledged oplogs\<close>

lemma acknowledged_behind: "acknowledged ub r v \<longleftrightarrow> behind ub r \<le> behind ub v"
  using behind_order [of ub v r] by (auto simp: acknowledged_def not_less [symmetric])

lemma acknowledged_window:
  assumes "n \<le> u" "u - n < 2 ^ 32" "r \<le> u" "u - r < 2 ^ 32"
  shows "acknowledged (of_int u) (of_int r) (of_int n) \<longleftrightarrow> n \<le> r"
  using behind_of_int [OF assms(1,2)] behind_of_int [OF assms(3,4)] unfolding acknowledged_behind by linarith

lemma ack_loop_filter:
  assumes "\<forall>(n, ol) \<in> set l. n \<le> u \<and> u - n < 2 ^ 32" "r \<le> u" "u - r < 2 ^ 32" "sorted (map fst l)"
  shows "ack_loop (Inr ()) (of_int u) (of_int r) (map (\<lambda>(n, ol). (of_int n, ol)) l) =
    Inr (map (\<lambda>(n, ol). (of_int n, ol)) (filter (\<lambda>(n, ol). r < n) l))"
  using assms
proof (induction l)
  case (Cons x l)
  obtain n ol where x: "x = (n, ol)" by force
  have a: "acknowledged (of_int u) (of_int r) (of_int n) \<longleftrightarrow> n \<le> r"
    using Cons.prems x by (intro acknowledged_window) auto
  show ?case
  proof (cases "n \<le> r")
    case True
    with Cons x a show ?thesis by (cases l) auto
  next
    case False
    then have "filter (\<lambda>(n, ol). r < n) l = l" using Cons.prems(4) x by (fastforce simp: filter_id_conv)
    with False x a show ?thesis by simp
  qed
qed simp

text \<open>
  C34. Acknowledged oplogs (SSPPush): when the servers' minimum version rises, the
  manager drops exactly the oplogs up to that version, under wrap-around, and
  keeps the later ones in order.  This holds if the assignment through the
  reference to the erased node has no effect; if it is an error, so is every
  acknowledgement that removes an oplog which is followed by another one.
\<close>

theorem push_oplogs_acknowledged:
  assumes rel: "vs_rel a (push_versions m)" and i: "vs_map a i = Some v" "v \<le> w" "w \<le> vs_upper a"
    and l: "version_oplog_list m = map (\<lambda>(n, ol). (of_int n, ol)) l" "sorted (map fst l)"
    and win: "\<forall>(n, ol) \<in> set l. vs_min a < n \<and> n \<le> vs_upper a"
  shows "(\<exists>m'. ServerAcknowledgeVersion (Inr ()) i (of_int w) m = Inr m' \<and> vs_rel (vs_set i w a) (push_versions m') \<and>
      version_oplog_list m' = map (\<lambda>(n, ol). (of_int n, ol)) (filter (\<lambda>(n, ol). vs_min (vs_set i w a) < n) l)) \<and>
    (length l > 1 \<and> fst (hd l) \<le> vs_min (vs_set i w a) \<longrightarrow>
      ServerAcknowledgeVersion (Inl e) i (of_int w) m = Inl e)"
proof -
  let ?a = "vs_set i w a"
  have ok: "vs_ok a" using rel by (simp add: vs_rel_def)
  obtain vm where vm: "SetServerVersion i (of_int w) (push_versions m) = Inr (vs_min ?a \<noteq> vs_min a, vm)" "vs_rel ?a vm"
    using SetServerVersion_refines [OF rel i] by blast
  have ub: "GetVersionUpperBound vm = of_int (vs_upper a)" "GetMinVersion vm = of_int (vs_min ?a)"
    using vm(2) by (simp_all add: vs_rel_def GetVersionUpperBound_def GetMinVersion_def vs_set_def)
  have mina: "vs_min x \<le> vs_upper x \<and> vs_upper x - vs_min x < 2 ^ 32" if "vs_ok x" for x
    using that vs_min_in [OF that] by (auto simp: vs_ok_def intro: ranI)
  have minw: "vs_min ?a \<le> vs_upper a" "vs_upper a - vs_min ?a < 2 ^ 32"
    using mina [of ?a] vm(2) by (simp_all add: vs_rel_def vs_set_def)
  have all: "\<forall>(n, ol) \<in> set l. n \<le> vs_upper a \<and> vs_upper a - n < 2 ^ 32" using win mina [OF ok] by fastforce
  note lp = ack_loop_filter [OF all minw l(2)]
  have "vs_min a < n" if "(n, ol) \<in> set l" for n ol using win that by auto
  then have same: "vs_min ?a = vs_min a \<Longrightarrow> filter (\<lambda>(n, ol). vs_min ?a < n) l = l"
    by (auto simp: filter_id_conv)
  have part1: "\<exists>m'. ServerAcknowledgeVersion (Inr ()) i (of_int w) m = Inr m' \<and> vs_rel ?a (push_versions m') \<and>
      version_oplog_list m' = map (\<lambda>(n, ol). (of_int n, ol)) (filter (\<lambda>(n, ol). vs_min ?a < n) l)"
    using vm lp same ub l(1) by (auto simp: ServerAcknowledgeVersion_def Let_def)
  have part2: "ServerAcknowledgeVersion (Inl e) i (of_int w) m = Inl e" if b: "length l > 1" "fst (hd l) \<le> vs_min ?a"
  proof -
    obtain n ol x l' where l': "l = (n, ol) # x # l'" using b(1) by (cases l; cases "tl l") auto
    then have "vs_min ?a \<noteq> vs_min a" using win b(2) by auto
    moreover have "acknowledged (of_int (vs_upper a)) (of_int (vs_min ?a)) (of_int n)"
      using acknowledged_window [of n "vs_upper a" "vs_min ?a"] all minw b(2) l' by auto
    ultimately show ?thesis using vm(1) ub l(1) l' by (simp add: ServerAcknowledgeVersion_def case_prod_beta)
  qed
  from part1 part2 show ?thesis by blast
qed

definition demo_push :: "string push_mgr" where
  "demo_push = (SSPPushRowRequestOpLogMgr [1])
     \<lparr>push_versions := IncVersionUpperBound (IncVersionUpperBound (ServerVersionMgr [1])),
      version_oplog_list := [(0, ''a''), (1, ''b'')]\<rparr>"

theorem push_oplogs_acknowledged_witness:
  "(\<exists>m'. ServerAcknowledgeVersion (Inr ()) 1 0 demo_push = Inr m' \<and> version_oplog_list m' = [(1, ''b'')]) \<and>
   ServerAcknowledgeVersion (Inl (Undefined ''version_oplog'')) 1 0 demo_push = Inl (Undefined ''version_oplog'')"
proof -
  let ?f = "[1 \<mapsto> - 1] :: int \<rightharpoonup> int"
  let ?a = "\<lparr>vs_map = ?f, vs_upper = 1\<rparr>"
  have rn: "ran ?f = {- 1}" "ran (?f(1 \<mapsto> 0)) = {0}" by (auto simp: ran_def)
  have mn: "vs_min ?a = - 1" "vs_min (vs_set 1 0 ?a) = 0" unfolding vs_min_def vs_set_def versions.simps rn by simp_all
  have rel: "vs_rel ?a (push_versions demo_push)"
    unfolding vs_rel_def mn vs_ok_def versions.simps rn
    by (simp add: demo_push_def ServerVersionMgr_def IncVersionUpperBound_def amap_ok_def fun_eq_iff)
  from push_oplogs_acknowledged [OF rel, of 1 "- 1" 0 "[(0, ''a''), (1, ''b'')]" "Undefined ''version_oplog''"]
  show ?thesis unfolding mn by (auto simp: demo_push_def)
qed

end
