(* ===== verification/Client_Table.thy ===== *)
theory Client_Table
imports Oplog Process_Storage Vector_Clock
begin

text \<open>
  The client side of a table: the cache of an application thread
  (petuum_ps/client/thread_table.cpp), the table with its shared row
  cache and oplogs (petuum_ps/client/client_table.cpp) and its consistency
  controllers (petuum_ps/consistency/ssp_consistency_controller.cpp and
  ssp_push_consistency_controller.cpp).  Row data live in a heap of their own,
  because the shared pointers in client rows and accessors alias them; the
  controller is the operations on the table whose references it holds.  What
  the background thread does to the table between a row request and its
  answer is an argument.
\<close>

section \<open>Messages from the application threads to the background threads\<close>

datatype app_msg =
    AppConnectMsg
  | AppThreadDeregMsg
  | BgCreateTableMsg int ClientTableConfig
  | AppRowRequestMsg int int int
  | BgClockMsg
  | BgSendOpLogMsg

type_synonym app_outs = "(int \<times> app_msg) list"

section \<open>ThreadTable\<close>

text \<open>The two unordered maps and the unordered sets are association lists and lists; the order is that of the iteration.\<close>

record ('r, 'v) thread_table =
  tt_oplog_index :: "int list list"
  tt_row_storage :: "(int, 'r) amap"
  tt_oplog_map :: "(int, 'v row_oplog) amap"

definition ThreadTable :: "global_context \<Rightarrow> ('r, 'v) thread_table" where
  "ThreadTable g =
     \<lparr>tt_oplog_index = replicate (nat (num_bg_threads g)) [], tt_row_storage = [], tt_oplog_map = []\<rparr>"

definition index_row :: "int \<Rightarrow> int \<Rightarrow> ('r, 'v) thread_table \<Rightarrow> ('r, 'v) thread_table result" where
  "index_row part row tt =
     rbind (vec_at (tt_oplog_index tt) part) (\<lambda>rows.
     Inr (tt\<lparr>tt_oplog_index := (tt_oplog_index tt)[nat part := List.insert row rows]\<rparr>))"

definition IndexUpdate :: "global_context \<Rightarrow> int \<Rightarrow> ('r, 'v) thread_table \<Rightarrow> ('r, 'v) thread_table result" where
  "IndexUpdate g row tt = rbind (GetBgPartitionNum g row) (\<lambda>part. index_row part row tt)"

definition flush_index ::
  "('m, int, bool) cuckoo \<Rightarrow> ('r, 'v) thread_table \<times> 'm list \<Rightarrow> int \<Rightarrow> (('r, 'v) thread_table \<times> 'm list) result" where
  "flush_index ck st i =
     (case st of (tt, idxs) \<Rightarrow>
      rbind (vec_at (tt_oplog_index tt) i) (\<lambda>rows.
      rbind (table_AddIndex ck i rows idxs) (\<lambda>idxs.
      Inr (tt\<lparr>tt_oplog_index := (tt_oplog_index tt)[nat i := []]\<rparr>, idxs))))"

definition FlushOpLogIndex ::
  "('m, int, bool) cuckoo \<Rightarrow> global_context \<Rightarrow> ('r, 'v) thread_table \<Rightarrow> 'm list \<Rightarrow>
   (('r, 'v) thread_table \<times> 'm list) result" where
  "FlushOpLogIndex ck g tt idxs = foldM (flush_index ck) (tt, idxs) [0..num_bg_threads g - 1]"

definition tt_GetRow :: "int \<Rightarrow> ('r, 'v) thread_table \<Rightarrow> 'r option" where
  "tt_GetRow row tt = map_of (tt_row_storage tt) row"

text \<open>The traversal \<open>BeginIterate\<close>, \<open>Next\<close>, ... until the null pointer comes back.\<close>

function traverse :: "(int \<times> 'v) option \<Rightarrow> 'v row_oplog \<Rightarrow> (int \<times> 'v) list result" where
  "traverse None l = Inr []"
| "traverse (Some e) l =
     (if rol_iter l < length (rol_oplogs l)
      then (case RowOpLog_Next l of Inl err \<Rightarrow> Inl err
            | Inr (nxt, l') \<Rightarrow> rbind (traverse nxt l') (\<lambda>es. Inr (e # es)))
      else Inl (Undefined ''increment of end iterator''))"
  by pat_completeness auto
termination
  by (relation "measure (\<lambda>(e, l). length (rol_oplogs l) - rol_iter l)") (auto simp: RowOpLog_Next_def Let_def)

definition oplog_entries :: "'v row_oplog \<Rightarrow> (int \<times> 'v) list result" where
  "oplog_entries l = (case RowOpLog_BeginIterate l of (e, l') \<Rightarrow> traverse e l')"

definition tt_InsertRow ::
  "('r, 'v) row_ops \<Rightarrow> int \<Rightarrow> 'r \<Rightarrow> ('r, 'v) thread_table \<Rightarrow> ('r, 'v) thread_table result" where
  "tt_InsertRow ops row r tt =
     rbind (ro_Clone ops r) (\<lambda>r.
     rbind (case map_of (tt_oplog_map tt) row of
              None \<Rightarrow> Inr r
            | Some l \<Rightarrow> rbind (oplog_entries l) (foldM (\<lambda>r (c, u). ro_ApplyInc ops c u r) r)) (\<lambda>r.
     Inr (tt\<lparr>tt_row_storage := AList.update row r (tt_row_storage tt)\<rparr>)))"

definition add_update :: "('r, 'v) row_ops \<Rightarrow> int \<times> 'v \<Rightarrow> 'v row_oplog \<Rightarrow> 'v row_oplog" where
  "add_update ops cu l =
     (case cu of (c, delta) \<Rightarrow>
      let (oplog_delta, l) = RowOpLog_FindCreate (ro_InitUpdate ops) c l in
      rol_store c (ro_AddUpdates ops c oplog_delta delta) l)"

definition tt_oplog :: "('r, 'v) row_ops \<Rightarrow> int \<Rightarrow> ('r, 'v) thread_table \<Rightarrow> 'v row_oplog" where
  "tt_oplog ops row tt =
     (case map_of (tt_oplog_map tt) row of None \<Rightarrow> RowOpLog (ro_get_update_size ops) | Some l \<Rightarrow> l)"

definition tt_apply ::
  "int \<Rightarrow> ('r \<Rightarrow> 'r result) \<Rightarrow> ('r, 'v) thread_table \<Rightarrow> ('r, 'v) thread_table result" where
  "tt_apply row f tt =
     (case map_of (tt_row_storage tt) row of
        None \<Rightarrow> Inr tt
      | Some r \<Rightarrow> rbind (f r) (\<lambda>r. Inr (tt\<lparr>tt_row_storage := AList.update row r (tt_row_storage tt)\<rparr>)))"

definition tt_Inc ::
  "('r, 'v) row_ops \<Rightarrow> int \<Rightarrow> int \<Rightarrow> 'v \<Rightarrow> ('r, 'v) thread_table \<Rightarrow> ('r, 'v) thread_table result" where
  "tt_Inc ops row c delta tt =
     tt_apply row (ro_ApplyIncUnsafe ops c delta)
       (tt\<lparr>tt_oplog_map := AList.update row (add_update ops (c, delta) (tt_oplog ops row tt)) (tt_oplog_map tt)\<rparr>)"

definition tt_BatchInc ::
  "('r, 'v) row_ops \<Rightarrow> int \<Rightarrow> (int \<times> 'v) list \<Rightarrow> ('r, 'v) thread_table \<Rightarrow> ('r, 'v) thread_table result" where
  "tt_BatchInc ops row deltas tt =
     tt_apply row (ro_ApplyBatchIncUnsafe ops deltas)
       (tt\<lparr>tt_oplog_map := AList.update row (fold (add_update ops) deltas (tt_oplog ops row tt)) (tt_oplog_map tt)\<rparr>)"

section \<open>ClientTable\<close>

text \<open>
  \<open>ct_data\<close> is the heap of row data, \<open>ct_next\<close> the next free address of row data
  and client rows; \<open>ct_thread_cache\<close> and \<open>ct_pending_async\<close> are the thread-specific pointers by
  thread id.
\<close>

record ('pm, 'om, 'im, 'r, 'v) client_table =
  ct_table_id :: int
  ct_row_type :: int
  ct_sample :: "('r, 'v) row_ops"
  ct_staleness :: int
  ct_oplog :: "('om, 'v) table_oplog"
  ct_storage :: "('pm, nat) process_storage"
  ct_data :: "nat \<rightharpoonup> 'r"
  ct_next :: nat
  ct_oplog_index :: "'im list"
  ct_thread_cache :: "(int, ('r, 'v) thread_table) amap"
  ct_pending_async :: "(int, nat) amap"

text \<open>The instances of the hash map library.\<close>

record ('pm, 'om, 'im) cl_maps =
  cm_storage :: "'pm storage_map"
  cm_oplog :: "('om, int, nat) cuckoo"
  cm_index :: "('im, int, bool) cuckoo"

definition ClientTable ::
  "('pm, 'om, 'im) cl_maps \<Rightarrow> (int \<Rightarrow> ('r, 'v) row_ops result) \<Rightarrow> global_context \<Rightarrow> int \<Rightarrow> ClientTableConfig \<Rightarrow>
   ('pm, 'om, 'im, 'r, 'v) client_table result" where
  "ClientTable m reg g table_id config =
     rbind (reg (row_type (table_info config))) (\<lambda>ops.
     rbind (if consistency_model g \<in> {SSP, SSPPush} then Inr () else Inl (Fatal ''Not yet support consistency model'')) (\<lambda>_.
     Inr \<lparr>ct_table_id = table_id, ct_row_type = row_type (table_info config), ct_sample = ops,
          ct_staleness = table_staleness (table_info config),
          ct_oplog = TableOpLog (cm_oplog m) ops g table_id,
          ct_storage = ProcessStorage (cm_storage m) (process_cache_capacity config) (\<lambda>_. None),
          ct_data = (\<lambda>_. None), ct_next = 0, ct_oplog_index = TableOpLogIndex (cm_index m) g,
          ct_thread_cache = [], ct_pending_async = []\<rparr>))"

definition ct_RegisterThread ::
  "global_context \<Rightarrow> int \<Rightarrow> ('pm, 'om, 'im, 'r, 'v) client_table \<Rightarrow> ('pm, 'om, 'im, 'r, 'v) client_table" where
  "ct_RegisterThread g tid ct =
     (if map_of (ct_thread_cache ct) tid = None
      then ct\<lparr>ct_thread_cache := AList.update tid (ThreadTable g) (ct_thread_cache ct)\<rparr> else ct)"

definition thread_cache ::
  "int \<Rightarrow> ('pm, 'om, 'im, 'r, 'v) client_table \<Rightarrow> ('r, 'v) thread_table result" where
  "thread_cache tid ct = of_option (Undefined ''null thread_cache_'') (map_of (ct_thread_cache ct) tid)"

definition set_cache ::
  "int \<Rightarrow> ('r, 'v) thread_table \<Rightarrow> ('pm, 'om, 'im, 'r, 'v) client_table \<Rightarrow> ('pm, 'om, 'im, 'r, 'v) client_table" where
  "set_cache tid tt ct = ct\<lparr>ct_thread_cache := AList.update tid tt (ct_thread_cache ct)\<rparr>"

definition GetAndResetOpLogIndex ::
  "('pm, 'om, 'im) cl_maps \<Rightarrow> int \<Rightarrow> ('pm, 'om, 'im, 'r, 'v) client_table \<Rightarrow>
   ('im \<times> ('pm, 'om, 'im, 'r, 'v) client_table) result" where
  "GetAndResetOpLogIndex m part ct =
     rbind (ResetPartition (cm_index m) part (ct_oplog_index ct)) (\<lambda>(old, idxs).
     Inr (old, ct\<lparr>ct_oplog_index := idxs\<rparr>))"

text \<open>\<open>GetRowData\<close> of an accessor, and a change of the row behind it.\<close>

definition row_data ::
  "nat row_accessor \<Rightarrow> ('pm, 'om, 'im, 'r, 'v) client_table \<Rightarrow> (nat \<times> 'r) result" where
  "row_data a ct =
     rbind (of_option (Undefined ''null row_data_ptr_'') (ra_data a)) (\<lambda>d.
     rbind (of_option (Undefined ''dangling row data'') (ct_data ct d)) (\<lambda>r. Inr (d, r)))"

definition change_data ::
  "nat row_accessor \<Rightarrow> ('r \<Rightarrow> 'r result) \<Rightarrow> ('pm, 'om, 'im, 'r, 'v) client_table \<Rightarrow>
   ('pm, 'om, 'im, 'r, 'v) client_table result" where
  "change_data a f ct =
     rbind (row_data a ct) (\<lambda>(d, r). rbind (f r) (\<lambda>r. Inr (ct\<lparr>ct_data := (ct_data ct)(d \<mapsto> r)\<rparr>)))"

text \<open>\<open>process_storage_.Find\<close>, and the end of an accessor's life.\<close>

definition ct_Find ::
  "('pm, 'om, 'im) cl_maps \<Rightarrow> int \<Rightarrow> nat row_accessor \<Rightarrow> ('pm, 'om, 'im, 'r, 'v) client_table \<Rightarrow>
   (bool \<times> nat row_accessor \<times> ('pm, 'om, 'im, 'r, 'v) client_table) result" where
  "ct_Find m row a ct =
     rbind (storage_Find (cm_storage m) row a (ct_storage ct)) (\<lambda>(found, a, s). Inr (found, a, ct\<lparr>ct_storage := s\<rparr>))"

definition drop_accessor ::
  "nat row_accessor \<Rightarrow> ('pm, 'om, 'im, 'r, 'v) client_table \<Rightarrow> ('pm, 'om, 'im, 'r, 'v) client_table result" where
  "drop_accessor a ct =
     rbind (accessor_Clear a (ps_heap (ct_storage ct))) (\<lambda>(_, h). Inr (ct\<lparr>ct_storage := (ct_storage ct)\<lparr>ps_heap := h\<rparr>\<rparr>))"

definition accessor_clock :: "nat row_accessor \<Rightarrow> ('pm, 'om, 'im, 'r, 'v) client_table \<Rightarrow> int result" where
  "accessor_clock a ct =
     rbind (of_option (Undefined ''null client_row_ptr_'') (ra_client_row a)) (\<lambda>p. GetClock p (ps_heap (ct_storage ct)))"

text \<open>A local accessor: the row is changed if it is cached.\<close>

definition apply_cached ::
  "('pm, 'om, 'im) cl_maps \<Rightarrow> int \<Rightarrow> ('r \<Rightarrow> 'r result) \<Rightarrow> ('pm, 'om, 'im, 'r, 'v) client_table \<Rightarrow>
   ('pm, 'om, 'im, 'r, 'v) client_table result" where
  "apply_cached m row f ct =
     rbind (ct_Find m row RowAccessor ct) (\<lambda>(found, a, ct).
     rbind (if found then change_data a f ct else Inr ct) (drop_accessor a))"

text \<open>\<open>oplog_accessor.FindCreate\<close> and \<open>AddUpdates\<close> through the pointer \<open>a\<close> of the row's oplog.\<close>

definition oplog_add ::
  "global_context \<Rightarrow> int \<Rightarrow> nat \<Rightarrow> int \<times> 'v \<Rightarrow> ('pm, 'om, 'im, 'r, 'v) client_table \<Rightarrow>
   ('pm, 'om, 'im, 'r, 'v) client_table result" where
  "oplog_add g row a cu ct =
     rbind (on_partition g row (\<lambda>p. rbind (add_to_oplog (ct_sample ct) a p cu) (\<lambda>p. Inr ((), p))) (ct_oplog ct))
       (\<lambda>(_, t). Inr (ct\<lparr>ct_oplog := t\<rparr>))"

definition oplog_find_insert ::
  "('pm, 'om, 'im) cl_maps \<Rightarrow> global_context \<Rightarrow> int \<Rightarrow> ('pm, 'om, 'im, 'r, 'v) client_table \<Rightarrow>
   (nat \<times> ('pm, 'om, 'im, 'r, 'v) client_table) result" where
  "oplog_find_insert m g row ct =
     rbind (table_FindInsertOpLog (cm_oplog m) g row (ct_oplog ct)) (\<lambda>(a, t). Inr (a, ct\<lparr>ct_oplog := t\<rparr>))"

section \<open>Flushing the thread cache\<close>

definition flush_update ::
  "global_context \<Rightarrow> int \<Rightarrow> int \<Rightarrow> nat \<Rightarrow> bool \<Rightarrow> nat row_accessor \<Rightarrow>
   ('r, 'v) thread_table \<times> ('pm, 'om, 'im, 'r, 'v) client_table \<Rightarrow> int \<times> 'v \<Rightarrow>
   (('r, 'v) thread_table \<times> ('pm, 'om, 'im, 'r, 'v) client_table) result" where
  "flush_update g row part a found ra st cu =
     (case st of (tt, ct) \<Rightarrow>
      rbind (oplog_add g row a cu ct) (\<lambda>ct.
      rbind (index_row part row tt) (\<lambda>tt.
      rbind (if found then change_data ra (ro_ApplyInc (ct_sample ct) (fst cu) (snd cu)) ct else Inr ct) (\<lambda>ct.
      Inr (tt, ct)))))"

definition flush_row ::
  "('pm, 'om, 'im) cl_maps \<Rightarrow> global_context \<Rightarrow> ('r, 'v) thread_table \<times> ('pm, 'om, 'im, 'r, 'v) client_table \<Rightarrow>
   int \<times> 'v row_oplog \<Rightarrow> (('r, 'v) thread_table \<times> ('pm, 'om, 'im, 'r, 'v) client_table) result" where
  "flush_row m g st rl =
     (case st of (tt, ct) \<Rightarrow> case rl of (row, l) \<Rightarrow>
      rbind (GetBgPartitionNum g row) (\<lambda>part.
      rbind (oplog_find_insert m g row ct) (\<lambda>(a, ct).
      rbind (ct_Find m row RowAccessor ct) (\<lambda>(found, ra, ct).
      rbind (oplog_entries l) (\<lambda>es.
      rbind (foldM (flush_update g row part a found ra) (tt, ct) es) (\<lambda>(tt, ct).
      rbind (drop_accessor ra ct) (\<lambda>ct. Inr (tt, ct))))))))"

definition FlushCache ::
  "('pm, 'om, 'im) cl_maps \<Rightarrow> global_context \<Rightarrow> ('r, 'v) thread_table \<Rightarrow> ('pm, 'om, 'im, 'r, 'v) client_table \<Rightarrow>
   (('r, 'v) thread_table \<times> ('pm, 'om, 'im, 'r, 'v) client_table) result" where
  "FlushCache m g tt ct =
     rbind (foldM (flush_row m g) (tt, ct) (tt_oplog_map tt)) (\<lambda>(tt, ct).
     Inr (tt\<lparr>tt_oplog_map := [], tt_row_storage := []\<rparr>, ct))"

end
