(* ===== verification/Consistency.thy ===== *)
theory Consistency
imports Client_Table
begin

text \<open>
  The operations of \<open>SSPConsistencyController\<close> and
  \<open>SSPPushConsistencyController\<close> on a client table (\<open>Inc\<close>, \<open>BatchInc\<close>, \<open>Get\<close>,
  \<open>ThreadGet\<close>, \<open>Clock\<close>, the asynchronous reads).  \<open>tid\<close> and \<open>clk\<close> are the id
  and the clock of the calling thread.  A request for a row blocks until the
  background thread answers: \<open>fetch k\<close> is what happens to the table between
  the request with \<open>k\<close> retries left and its answer.
\<close>

type_synonym ('pm, 'om, 'im, 'r, 'v) fetch =
  "nat \<Rightarrow> ('pm, 'om, 'im, 'r, 'v) client_table \<Rightarrow> ('pm, 'om, 'im, 'r, 'v) client_table result"

section \<open>Updates\<close>

definition ctl_index ::
  "global_context \<Rightarrow> int \<Rightarrow> int \<Rightarrow> ('pm, 'om, 'im, 'r, 'v) client_table \<Rightarrow> ('pm, 'om, 'im, 'r, 'v) client_table result" where
  "ctl_index g tid row ct =
     rbind (thread_cache tid ct) (\<lambda>tt. rbind (IndexUpdate g row tt) (\<lambda>tt. Inr (set_cache tid tt ct)))"

definition ctl_Inc ::
  "('pm, 'om, 'im) cl_maps \<Rightarrow> global_context \<Rightarrow> int \<Rightarrow> int \<Rightarrow> int \<Rightarrow> 'v \<Rightarrow>
   ('pm, 'om, 'im, 'r, 'v) client_table \<Rightarrow> ('pm, 'om, 'im, 'r, 'v) client_table result" where
  "ctl_Inc m g tid row c delta ct =
     rbind (ctl_index g tid row ct) (\<lambda>ct.
     rbind (oplog_find_insert m g row ct) (\<lambda>(a, ct).
     rbind (oplog_add g row a (c, delta) ct) (\<lambda>ct.
     apply_cached m row (ro_ApplyInc (ct_sample ct) c delta) ct)))"

definition ctl_BatchInc ::
  "('pm, 'om, 'im) cl_maps \<Rightarrow> global_context \<Rightarrow> int \<Rightarrow> int \<Rightarrow> (int \<times> 'v) list \<Rightarrow>
   ('pm, 'om, 'im, 'r, 'v) client_table \<Rightarrow> ('pm, 'om, 'im, 'r, 'v) client_table result" where
  "ctl_BatchInc m g tid row deltas ct =
     rbind (ctl_index g tid row ct) (\<lambda>ct.
     rbind (oplog_find_insert m g row ct) (\<lambda>(a, ct).
     rbind (foldM (\<lambda>ct cu. oplog_add g row a cu ct) ct deltas) (\<lambda>ct.
     apply_cached m row (ro_ApplyBatchInc (ct_sample ct) deltas) ct)))"

definition ctl_ThreadInc ::
  "int \<Rightarrow> int \<Rightarrow> int \<Rightarrow> 'v \<Rightarrow> ('pm, 'om, 'im, 'r, 'v) client_table \<Rightarrow> ('pm, 'om, 'im, 'r, 'v) client_table result" where
  "ctl_ThreadInc tid row c delta ct =
     rbind (thread_cache tid ct) (\<lambda>tt.
     rbind (tt_Inc (ct_sample ct) row c delta tt) (\<lambda>tt. Inr (set_cache tid tt ct)))"

definition ctl_ThreadBatchInc ::
  "int \<Rightarrow> int \<Rightarrow> (int \<times> 'v) list \<Rightarrow> ('pm, 'om, 'im, 'r, 'v) client_table \<Rightarrow>
   ('pm, 'om, 'im, 'r, 'v) client_table result" where
  "ctl_ThreadBatchInc tid row deltas ct =
     rbind (thread_cache tid ct) (\<lambda>tt.
     rbind (tt_BatchInc (ct_sample ct) row deltas tt) (\<lambda>tt. Inr (set_cache tid tt ct)))"

definition ctl_FlushThreadCache ::
  "('pm, 'om, 'im) cl_maps \<Rightarrow> global_context \<Rightarrow> int \<Rightarrow> ('pm, 'om, 'im, 'r, 'v) client_table \<Rightarrow>
   ('pm, 'om, 'im, 'r, 'v) client_table result" where
  "ctl_FlushThreadCache m g tid ct =
     rbind (thread_cache tid ct) (\<lambda>tt.
     rbind (FlushCache m g tt ct) (\<lambda>(tt, ct). Inr (set_cache tid tt ct)))"

definition ctl_Clock ::
  "('pm, 'om, 'im) cl_maps \<Rightarrow> global_context \<Rightarrow> int \<Rightarrow> ('pm, 'om, 'im, 'r, 'v) client_table \<Rightarrow>
   ('pm, 'om, 'im, 'r, 'v) client_table result" where
  "ctl_Clock m g tid ct =
     rbind (ctl_FlushThreadCache m g tid ct) (\<lambda>ct.
     rbind (thread_cache tid ct) (\<lambda>tt.
     rbind (FlushOpLogIndex (cm_index m) g tt (ct_oplog_index ct)) (\<lambda>(tt, idxs).
     Inr (set_cache tid tt (ct\<lparr>ct_oplog_index := idxs\<rparr>)))))"

section \<open>Reads under SSP\<close>

text \<open>\<open>RequestRow\<close>: the message, sent to the background thread that owns the row.\<close>

definition RequestRow :: "global_context \<Rightarrow> int \<Rightarrow> int \<Rightarrow> int \<Rightarrow> app_outs result" where
  "RequestRow g t row clock =
     rbind (GetBgPartitionNum g row) (\<lambda>i. Inr [(i + get_head_bg_id (client_id g), AppRowRequestMsg t row clock)])"

text \<open>
  The loop around a request, \<open>n\<close> being the number of times the row may still be
  missing: the check allows three fetches, a fourth is made and fails.
\<close>

fun fetch_loop ::
  "nat \<Rightarrow> ('pm, 'om, 'im) cl_maps \<Rightarrow> global_context \<Rightarrow> ('pm, 'om, 'im, 'r, 'v) fetch \<Rightarrow> int \<Rightarrow> int \<Rightarrow>
   nat row_accessor \<Rightarrow> ('pm, 'om, 'im, 'r, 'v) client_table \<Rightarrow>
   (app_outs \<times> nat row_accessor \<times> ('pm, 'om, 'im, 'r, 'v) client_table) result" where
  "fetch_loop 0 m g fetch row stalest a ct =
     rbind (RequestRow g (ct_table_id ct) row stalest) (\<lambda>os.
     rbind (fetch 0 ct) (\<lambda>ct.
     rbind (ct_Find m row a ct) (\<lambda>_. Inl (CheckFailed ''num_fetches <= 3''))))"
| "fetch_loop (Suc n) m g fetch row stalest a ct =
     rbind (RequestRow g (ct_table_id ct) row stalest) (\<lambda>os.
     rbind (fetch (Suc n) ct) (\<lambda>ct.
     rbind (ct_Find m row a ct) (\<lambda>(found, a, ct).
     if found then Inr (os, a, ct)
     else rbind (fetch_loop n m g fetch row stalest a ct) (\<lambda>(os', r). Inr (os @ os', r)))))"

definition stalest_clock :: "int \<Rightarrow> ('pm, 'om, 'im, 'r, 'v) client_table \<Rightarrow> int" where
  "stalest_clock clk ct = max 0 (clk - ct_staleness ct)"

text \<open>The row is in the process cache, with whether it is fresh enough.\<close>

definition find_fresh ::
  "('pm, 'om, 'im) cl_maps \<Rightarrow> int \<Rightarrow> int \<Rightarrow> nat row_accessor \<Rightarrow> ('pm, 'om, 'im, 'r, 'v) client_table \<Rightarrow>
   (bool \<times> nat row_accessor \<times> ('pm, 'om, 'im, 'r, 'v) client_table) result" where
  "find_fresh m row stalest a ct =
     rbind (ct_Find m row a ct) (\<lambda>(found, a, ct).
     if found then rbind (accessor_clock a ct) (\<lambda>clock. Inr (stalest \<le> clock, a, ct))
     else Inr (False, a, ct))"

definition fetch_fresh where
  "fetch_fresh m g fetch row stalest a ct =
     rbind (fetch_loop 3 m g fetch row stalest a ct) (\<lambda>(os, a, ct).
     rbind (accessor_clock a ct) (\<lambda>clock.
     rbind (check (stalest \<le> clock) ''GetClock() >= stalest_clock'') (\<lambda>_. Inr (os, a, ct))))"

definition ctl_Get ::
  "('pm, 'om, 'im) cl_maps \<Rightarrow> global_context \<Rightarrow> ('pm, 'om, 'im, 'r, 'v) fetch \<Rightarrow> int \<Rightarrow> int \<Rightarrow> nat row_accessor \<Rightarrow>
   ('pm, 'om, 'im, 'r, 'v) client_table \<Rightarrow> (app_outs \<times> nat row_accessor \<times> ('pm, 'om, 'im, 'r, 'v) client_table) result" where
  "ctl_Get m g fetch clk row a ct =
     (let stalest = stalest_clock clk ct in
      rbind (find_fresh m row stalest a ct) (\<lambda>(fresh, a, ct).
      if fresh then Inr ([], a, ct) else fetch_fresh m g fetch row stalest a ct))"

text \<open>The row behind the accessor enters the thread cache and is returned from there.\<close>

definition cache_row ::
  "int \<Rightarrow> int \<Rightarrow> nat row_accessor \<Rightarrow> ('pm, 'om, 'im, 'r, 'v) client_table \<Rightarrow>
   ('r \<times> ('pm, 'om, 'im, 'r, 'v) client_table) result" where
  "cache_row tid row a ct =
     rbind (row_data a ct) (\<lambda>(_, r).
     rbind (thread_cache tid ct) (\<lambda>tt.
     rbind (tt_InsertRow (ct_sample ct) row r tt) (\<lambda>tt.
     rbind (of_option (CheckFailed ''row_data != 0'') (tt_GetRow row tt)) (\<lambda>r.
     rbind (drop_accessor a (set_cache tid tt ct)) (\<lambda>ct. Inr (r, ct))))))"

definition ctl_ThreadGet ::
  "('pm, 'om, 'im) cl_maps \<Rightarrow> global_context \<Rightarrow> ('pm, 'om, 'im, 'r, 'v) fetch \<Rightarrow> int \<Rightarrow> int \<Rightarrow> int \<Rightarrow>
   ('pm, 'om, 'im, 'r, 'v) client_table \<Rightarrow> (app_outs \<times> 'r \<times> ('pm, 'om, 'im, 'r, 'v) client_table) result" where
  "ctl_ThreadGet m g fetch tid clk row ct =
     rbind (thread_cache tid ct) (\<lambda>tt.
     case tt_GetRow row tt of
       Some r \<Rightarrow> Inr ([], r, ct)
     | None \<Rightarrow>
         let stalest = stalest_clock clk ct in
         rbind (find_fresh m row stalest RowAccessor ct) (\<lambda>(fresh, a, ct).
         rbind (if fresh then Inr ([], a, ct) else fetch_fresh m g fetch row stalest a ct) (\<lambda>(os, a, ct).
         rbind (cache_row tid row a ct) (\<lambda>(r, ct). Inr (os, r, ct)))))"

section \<open>Reads under SSPPush\<close>

text \<open>
  \<open>WaitSystemClock\<close>: the values of the system clock that the thread sees, at its
  first test and after each wake-up.
\<close>

fun WaitSystemClock :: "int \<Rightarrow> int list \<Rightarrow> int result" where
  "WaitSystemClock my_clock [] = Inl (Blocked ''WaitSystemClock'')"
| "WaitSystemClock my_clock (c # cs) = (if c < my_clock then WaitSystemClock my_clock cs else Inr c)"

text \<open>
  The clocks the thread sees are the argument \<open>seen\<close>, the first by \<open>GetSystemClock\<close>; \<open>wait\<close> is
  what happens to the table meanwhile.
\<close>

definition push_wait ::
  "(('pm, 'om, 'im, 'r, 'v) client_table \<Rightarrow> ('pm, 'om, 'im, 'r, 'v) client_table result) \<Rightarrow> int list \<Rightarrow> int \<Rightarrow>
   ('pm, 'om, 'im, 'r, 'v) client_table \<Rightarrow> (int \<times> ('pm, 'om, 'im, 'r, 'v) client_table) result" where
  "push_wait wait seen stalest ct =
     (case seen of [] \<Rightarrow> Inl (Blocked ''GetSystemClock'')
      | c # cs \<Rightarrow>
          if c < stalest then rbind (WaitSystemClock stalest cs) (\<lambda>c. rbind (wait ct) (\<lambda>ct. Inr (c, ct)))
          else Inr (c, ct))"

definition push_Get where
  "push_Get m g fetch wait seen clk row a ct =
     (let stalest = stalest_clock clk ct in
      rbind (push_wait wait seen stalest ct) (\<lambda>(c, ct).
      rbind (ct_Find m row a ct) (\<lambda>(found, a, ct).
      if found then Inr (c, [], a, ct)
      else rbind (fetch_loop 3 m g fetch row stalest a ct) (\<lambda>(os, a, ct). Inr (c, os, a, ct)))))"

definition push_ThreadGet where
  "push_ThreadGet m g fetch wait seen tid clk row ct =
     (let stalest = stalest_clock clk ct in
      rbind (push_wait wait seen stalest ct) (\<lambda>(c, ct).
      rbind (thread_cache tid ct) (\<lambda>tt.
      case tt_GetRow row tt of
        Some r \<Rightarrow> Inr (c, [], r, ct)
      | None \<Rightarrow>
          rbind (ct_Find m row RowAccessor ct) (\<lambda>(found, a, ct).
          rbind (if found then Inr ([], a, ct) else fetch_loop 3 m g fetch row stalest a ct) (\<lambda>(os, a, ct).
          rbind (cache_row tid row a ct) (\<lambda>(r, ct). Inr (c, os, r, ct)))))))"

definition kMaxPendingAsyncGetCnt :: nat where "kMaxPendingAsyncGetCnt = 256"

definition pending_async :: "int \<Rightarrow> ('pm, 'om, 'im, 'r, 'v) client_table \<Rightarrow> nat" where
  "pending_async tid ct = (case map_of (ct_pending_async ct) tid of None \<Rightarrow> 0 | Some n \<Rightarrow> n)"

text \<open>
  An asynchronous read: the messages sent and the number of replies the thread
  waits for before it sends.
\<close>

definition push_GetAsync ::
  "('pm, 'om, 'im) cl_maps \<Rightarrow> global_context \<Rightarrow> int \<Rightarrow> int \<Rightarrow> int \<Rightarrow> ('pm, 'om, 'im, 'r, 'v) client_table \<Rightarrow>
   (nat \<times> app_outs \<times> ('pm, 'om, 'im, 'r, 'v) client_table) result" where
  "push_GetAsync m g system_clock tid row ct =
     (if storage_Has (cm_storage m) row (ct_storage ct) then Inr (0, [], ct)
      else
        let n = pending_async tid ct;
            (awaited, n) = (if n = kMaxPendingAsyncGetCnt then (1, n - 1) else (0, n)) in
        rbind (RequestRow g (ct_table_id ct) row system_clock) (\<lambda>os.
        Inr (awaited, os, ct\<lparr>ct_pending_async := AList.update tid (n + 1) (ct_pending_async ct)\<rparr>)))"

text \<open>Replies are awaited until the count is 0; the result has their number.\<close>

fun wait_async :: "nat \<Rightarrow> nat \<times> nat" where
  "wait_async 0 = (0, 0)"
| "wait_async (Suc n) = (let (awaited, left) = wait_async n in (awaited + 1, left))"

definition WaitPendingAsyncGet ::
  "int \<Rightarrow> ('pm, 'om, 'im, 'r, 'v) client_table \<Rightarrow> nat \<times> ('pm, 'om, 'im, 'r, 'v) client_table" where
  "WaitPendingAsyncGet tid ct =
     (case map_of (ct_pending_async ct) tid of
        None \<Rightarrow> (0, ct)
      | Some n \<Rightarrow> let (awaited, left) = wait_async n in
                 (awaited, ct\<lparr>ct_pending_async := AList.update tid left (ct_pending_async ct)\<rparr>))"

end
