(* ===== verification/Bg_Worker.thy ===== *)
theory Bg_Worker
imports Consistency Server_Thread Request_Mgr
begin

text \<open>
  The background threads of a client (petuum_ps/thread/bg_workers.cpp): the
  handlers of their messages, the handshake with name node and
  servers, the creation of tables, and the main loop.  A thread's messages, in the
  order in which its receive calls return them, are an argument; what it sends
  is a list.  The tables and the system clock are shared by the threads of a
  client; each handler is one step on them.
\<close>

section \<open>Messages\<close>

datatype bg_msg = FromApp app_msg | FromServer out_msg

datatype app_reply = RowRequestReplyMsg | CreateTableReplyApp int

datatype bg_out = ToServer int srv_msg | ToApp int app_reply

section \<open>RowRequestOpLogMgr\<close>

text \<open>The virtual functions of \<open>RowRequestOpLogMgr\<close>, by the class of the object.\<close>

datatype 'o oplog_mgr = SSPMgr "'o ssp_mgr" | PushMgr "'o push_mgr"

fun mgr_AddRowRequest :: "bool \<Rightarrow> row_request_info \<Rightarrow> int \<Rightarrow> int \<Rightarrow> 'o oplog_mgr \<Rightarrow> bool \<times> 'o oplog_mgr" where
  "mgr_AddRowRequest junk r t row (SSPMgr m) = apsnd SSPMgr (ssp_AddRowRequest junk r t row m)"
| "mgr_AddRowRequest junk r t row (PushMgr m) = apsnd PushMgr (push_AddRowRequest junk r t row m)"

fun mgr_InformReply :: "int \<Rightarrow> int \<Rightarrow> int \<Rightarrow> 32 word \<Rightarrow> 'o oplog_mgr \<Rightarrow> (int \<times> int list \<times> 'o oplog_mgr) result" where
  "mgr_InformReply t row clock cur (SSPMgr m) =
     rbind (ssp_InformReply t row clock cur m) (\<lambda>(c, ids, m). Inr (c, ids, SSPMgr m))"
| "mgr_InformReply t row clock cur (PushMgr m) = (case push_InformReply t row clock m of (c, ids, m) \<Rightarrow> Inr (c, ids, PushMgr m))"

fun mgr_AddOpLog :: "32 word \<Rightarrow> 'o \<Rightarrow> 'o oplog_mgr \<Rightarrow> (bool \<times> 'o oplog_mgr) result" where
  "mgr_AddOpLog v ol (SSPMgr m) = rbind (ssp_AddOpLog v ol m) (\<lambda>(b, m). Inr (b, SSPMgr m))"
| "mgr_AddOpLog v ol (PushMgr m) = Inr (apsnd PushMgr (push_AddOpLog v ol m))"

fun mgr_InformVersionInc :: "'o oplog_mgr \<Rightarrow> 'o oplog_mgr" where
  "mgr_InformVersionInc (SSPMgr m) = SSPMgr m"
| "mgr_InformVersionInc (PushMgr m) = PushMgr (InformVersionInc m)"

fun mgr_Acknowledge :: "unit result \<Rightarrow> int \<Rightarrow> 32 word \<Rightarrow> 'o oplog_mgr \<Rightarrow> 'o oplog_mgr result" where
  "mgr_Acknowledge stray server v (SSPMgr m) = Inr (SSPMgr m)"
| "mgr_Acknowledge stray server v (PushMgr m) = rbind (ServerAcknowledgeVersion stray server v m) (\<lambda>m. Inr (PushMgr m))"

fun mgr_OpLogIterInit :: "32 word \<Rightarrow> 32 word \<Rightarrow> 'o oplog_mgr \<Rightarrow> ('o \<times> 'o oplog_mgr) result" where
  "mgr_OpLogIterInit st en (SSPMgr m) = rbind (ssp_OpLogIterInit st en m) (\<lambda>(ol, m). Inr (ol, SSPMgr m))"
| "mgr_OpLogIterInit st en (PushMgr m) = rbind (push_OpLogIterInit st en m) (\<lambda>(ol, m). Inr (ol, PushMgr m))"

fun mgr_OpLogIterNext :: "'o oplog_mgr \<Rightarrow> ((32 word \<times> 'o) option \<times> 'o oplog_mgr) result" where
  "mgr_OpLogIterNext (SSPMgr m) = rbind (ssp_OpLogIterNext m) (\<lambda>(x, m). Inr (x, SSPMgr m))"
| "mgr_OpLogIterNext (PushMgr m) = rbind (push_OpLogIterNext m) (\<lambda>(x, m). Inr (x, PushMgr m))"

section \<open>State\<close>

record 'v bg_context =
  bc_version :: "32 word"
  bc_mgr :: "'v bg_oplog oplog_mgr"
  bc_sizes :: "(int \<times> (int \<times> nat) list) list"
  bc_table_sizes :: "(int \<times> nat) list"
  bc_server_clock :: vector_clock

text \<open>
  \<open>bs_tables\<close>, \<open>bs_system_clock\<close> and \<open>bs_bg_server_clock\<close> are shared by the client's threads;
  the last three are local variables of the main function.
\<close>

record ('pm, 'om, 'im, 'r, 'v) bg_state =
  bs_ctx :: "'v bg_context"
  bs_tables :: "(int \<times> ('pm, 'om, 'im, 'r, 'v) client_table) list"
  bs_system_clock :: int
  bs_bg_server_clock :: vector_clock
  bs_connected :: int
  bs_deregistered :: int
  bs_acked :: int

text \<open>
  The surroundings: hash maps, row classes, element type, fresh memory, fuel, the
  outcome of slot locks and the interference of other threads in the row cache,
  and the two undefined effects of the request managers.
\<close>

record ('pm, 'om, 'im, 'r, 'v) bg_env =
  be_maps :: "('pm, 'om, 'im) cl_maps"
  be_reg :: "('r, 'v) class_registry"
  be_pod :: "'v pod"
  be_alloc :: "nat \<Rightarrow> bytes"
  be_fuel :: nat
  be_try_lock :: "nat \<Rightarrow> nat \<Rightarrow> bool"
  be_other :: "('pm, nat) process_storage \<Rightarrow> ('pm, nat) process_storage"
  be_sent :: bool
  be_stray :: "unit result"

definition InitBgContext :: "global_context \<Rightarrow> 'v bg_context result" where
  "InitBgContext g =
     rbind (case consistency_model g of
              SSP \<Rightarrow> Inr (SSPMgr SSPRowRequestOpLogMgr)
            | SSPPush \<Rightarrow> Inr (PushMgr (SSPPushRowRequestOpLogMgr (server_ids g)))
            | _ \<Rightarrow> Inl (Fatal ''Unrecognized consistency model'')) (\<lambda>mgr.
     Inr \<lparr>bc_version = 0, bc_mgr = mgr,
          bc_sizes = fold (\<lambda>s m. map_insert s [] m) (server_ids g) [],
          bc_table_sizes = fold (\<lambda>s m. map_insert s 0 m) (server_ids g) [],
          bc_server_clock = fold (\<lambda>s c. AddClock s 0 c) (server_ids g) VectorClock0\<rparr>)"

definition find_table ::
  "int \<Rightarrow> ('pm, 'om, 'im, 'r, 'v) bg_state \<Rightarrow> ('pm, 'om, 'im, 'r, 'v) client_table result" where
  "find_table t s = of_option (CheckFailed ''table_iter != tables_->end()'') (map_of (bs_tables s) t)"

definition set_table ::
  "int \<Rightarrow> ('pm, 'om, 'im, 'r, 'v) client_table \<Rightarrow> ('pm, 'om, 'im, 'r, 'v) bg_state \<Rightarrow> ('pm, 'om, 'im, 'r, 'v) bg_state" where
  "set_table t ct s = s\<lparr>bs_tables := oupd t ct (bs_tables s)\<rparr>"

definition set_mgr ::
  "'v bg_oplog oplog_mgr \<Rightarrow> ('pm, 'om, 'im, 'r, 'v) bg_state \<Rightarrow> ('pm, 'om, 'im, 'r, 'v) bg_state" where
  "set_mgr m s = s\<lparr>bs_ctx := (bs_ctx s)\<lparr>bc_mgr := m\<rparr>\<rparr>"

section \<open>Row requests of the application\<close>

text \<open>The row is cached and fresh enough; the accessor ends with the block.\<close>

definition cached_fresh ::
  "('pm, 'om, 'im) cl_maps \<Rightarrow> int \<Rightarrow> int \<Rightarrow> ('pm, 'om, 'im, 'r, 'v) client_table \<Rightarrow>
   (bool \<times> ('pm, 'om, 'im, 'r, 'v) client_table) result" where
  "cached_fresh m row clock ct =
     rbind (find_fresh m row clock RowAccessor ct) (\<lambda>(fresh, a, ct).
     rbind (drop_accessor a ct) (\<lambda>ct. Inr (fresh, ct)))"

definition CheckForwardRowRequestToServer ::
  "('pm, 'om, 'im, 'r, 'v) bg_env \<Rightarrow> global_context \<Rightarrow> int \<Rightarrow> int \<Rightarrow> int \<Rightarrow> int \<Rightarrow>
   ('pm, 'om, 'im, 'r, 'v) bg_state \<Rightarrow> (bg_out list \<times> ('pm, 'om, 'im, 'r, 'v) bg_state) result" where
  "CheckForwardRowRequestToServer e g app t row clock s =
     rbind (find_table t s) (\<lambda>ct.
     rbind (cached_fresh (be_maps e) row clock ct) (\<lambda>(fresh, ct).
     let s = set_table t ct s in
     if fresh then Inr ([ToApp app RowRequestReplyMsg], s)
     else
       let r = (RowRequestInfo (be_sent e))\<lparr>rqi_app_thread_id := app, rqi_clock := clock,
                  rqi_version := bc_version (bs_ctx s) - 1\<rparr>;
           (should_be_sent, mgr) = mgr_AddRowRequest (be_sent e) r t row (bc_mgr (bs_ctx s));
           s = set_mgr mgr s in
       if should_be_sent
       then rbind (GetRowPartitionServerID g t row) (\<lambda>server. Inr ([ToServer server (RowRequestMsg t row clock)], s))
       else Inr ([], s)))"

section \<open>Rows from the server\<close>

definition apply_unsafe :: "('r, 'v) row_ops \<Rightarrow> 'r \<Rightarrow> (int \<times> 'v) list \<Rightarrow> 'r result" where
  "apply_unsafe ops r us = foldM (\<lambda>r (c, u). ro_ApplyIncUnsafe ops c u r) r us"

definition const_entries :: "'v row_oplog \<Rightarrow> (int \<times> 'v) list result" where
  "const_entries l = (case RowOpLog_BeginIterateConst l of (e, l') \<Rightarrow> traverse_const e l')"

text \<open>The updates of one version to the row.\<close>

definition apply_version ::
  "('r, 'v) row_ops \<Rightarrow> int \<Rightarrow> int \<Rightarrow> 'v bg_oplog \<Rightarrow> 'r \<Rightarrow> 'r result" where
  "apply_version ops t row bg r =
     rbind (BgOpLog_Get t bg) (\<lambda>p.
     case BgOpLogPartition_FindOpLog row p of
       None \<Rightarrow> Inr r
     | Some l \<Rightarrow> rbind (const_entries l) (apply_unsafe ops r))"

text \<open>The loop over the versions; its fuel is the number of versions after the row's.\<close>

fun old_oplogs_loop ::
  "nat \<Rightarrow> ('r, 'v) row_ops \<Rightarrow> int \<Rightarrow> int \<Rightarrow> 'v bg_oplog \<Rightarrow> 'v bg_oplog oplog_mgr \<Rightarrow> 'r \<Rightarrow>
   ('r \<times> 'v bg_oplog oplog_mgr) result" where
  "old_oplogs_loop 0 ops t row bg mgr r = Inl OutOfFuel"
| "old_oplogs_loop (Suc n) ops t row bg mgr r =
     rbind (apply_version ops t row bg r) (\<lambda>r.
     rbind (mgr_OpLogIterNext mgr) (\<lambda>(x, mgr).
     case x of None \<Rightarrow> Inr (r, mgr) | Some (_, bg) \<Rightarrow> old_oplogs_loop n ops t row bg mgr r))"

definition ApplyOldOpLogsToRowData ::
  "('r, 'v) row_ops \<Rightarrow> int \<Rightarrow> int \<Rightarrow> 32 word \<Rightarrow> 'r \<Rightarrow> 'v bg_context \<Rightarrow> ('r \<times> 'v bg_context) result" where
  "ApplyOldOpLogsToRowData ops t row version r c =
     (if version + 1 < bc_version c then
        rbind (mgr_OpLogIterInit (version + 1) (bc_version c - 1) (bc_mgr c)) (\<lambda>(bg, mgr).
        rbind (old_oplogs_loop (unat (bc_version c) - unat (version + 1)) ops t row bg mgr r) (\<lambda>(r, mgr).
        Inr (r, c\<lparr>bc_mgr := mgr\<rparr>)))
      else Inr (r, c))"

text \<open>\<open>MyCreateClientRow\<close>; the clock of a plain \<open>ClientRow\<close> is always \<open>-1\<close>.\<close>

definition MyCreateClientRow :: "global_context \<Rightarrow> int \<Rightarrow> 'd \<Rightarrow> 'd client_row" where
  "MyCreateClientRow g clock d = SSPClientRow (if consistency_model g = SSPPush then - 1 else clock) d"

text \<open>The new row data and client row get fresh addresses.\<close>

definition new_client_row ::
  "global_context \<Rightarrow> int \<Rightarrow> 'r \<Rightarrow> ('pm, 'om, 'im, 'r, 'v) client_table \<Rightarrow> nat \<times> ('pm, 'om, 'im, 'r, 'v) client_table" where
  "new_client_row g clock r ct =
     (let p = ct_next ct; st = ct_storage ct in
      (p, ct\<lparr>ct_data := (ct_data ct)(p \<mapsto> r), ct_next := p + 1,
             ct_storage := st\<lparr>ps_heap := (ps_heap st)(p \<mapsto> MyCreateClientRow g clock p)\<rparr>\<rparr>))"

definition pending_entries ::
  "('pm, 'om, 'im) cl_maps \<Rightarrow> global_context \<Rightarrow> int \<Rightarrow> ('pm, 'om, 'im, 'r, 'v) client_table \<Rightarrow> (int \<times> 'v) list result" where
  "pending_entries m g row ct =
     rbind (GetBgPartitionNum g row) (\<lambda>i.
     rbind (vec_at (to_partitions (ct_oplog ct)) i) (\<lambda>p.
     case FindOpLog (cm_oplog m) row p of
       None \<Rightarrow> Inr []
     | Some a \<Rightarrow> rbind (Oplog.deref a p) const_entries))"

definition ApplyOpLogsAndInsertRow ::
  "('pm, 'om, 'im, 'r, 'v) bg_env \<Rightarrow> global_context \<Rightarrow> int \<Rightarrow> int \<Rightarrow> 32 word \<Rightarrow> ('r, 'v) row_ops \<Rightarrow> 'r \<Rightarrow> int \<Rightarrow>
   ('pm, 'om, 'im, 'r, 'v) bg_state \<Rightarrow> ('pm, 'om, 'im, 'r, 'v) bg_state result" where
  "ApplyOpLogsAndInsertRow e g t row version ops r clock s =
     rbind (find_table t s) (\<lambda>ct.
     rbind (ApplyOldOpLogsToRowData ops t row version r (bs_ctx s)) (\<lambda>(r, c).
     let s = s\<lparr>bs_ctx := c\<rparr>; (p, ct) = new_client_row g clock r ct in
     rbind (pending_entries (be_maps e) g row ct) (\<lambda>us.
     rbind (apply_unsafe ops r us) (\<lambda>r.
     let ct = ct\<lparr>ct_data := (ct_data ct)(p \<mapsto> r)\<rparr> in
     rbind (storage_Insert (be_fuel e) (cm_storage (be_maps e)) (be_try_lock e) (be_other e) row p (ct_storage ct)) (\<lambda>(_, st).
     Inr (set_table t (ct\<lparr>ct_storage := st\<rparr>) s))))))"

text \<open>A new row of the table's class, filled from the message.\<close>

definition received_row ::
  "('pm, 'om, 'im, 'r, 'v) bg_env \<Rightarrow> int \<Rightarrow> bytes \<Rightarrow> ('pm, 'om, 'im, 'r, 'v) bg_state \<Rightarrow>
   (('r, 'v) row_ops \<times> 'r) result" where
  "received_row e t data s =
     rbind (find_table t s) (\<lambda>ct.
     rbind (of_option (Undefined ''null row'') (CreateObject (be_reg e) (ct_row_type ct))) (\<lambda>(ops, r).
     rbind (ro_Deserialize ops data r) (\<lambda>(_, r). Inr (ops, r))))"

definition HandleServerRowRequestReply ::
  "('pm, 'om, 'im, 'r, 'v) bg_env \<Rightarrow> global_context \<Rightarrow> int \<Rightarrow> int \<Rightarrow> int \<Rightarrow> int \<Rightarrow> 32 word \<Rightarrow> bytes \<Rightarrow>
   ('pm, 'om, 'im, 'r, 'v) bg_state \<Rightarrow> (bg_out list \<times> ('pm, 'om, 'im, 'r, 'v) bg_state) result" where
  "HandleServerRowRequestReply e g server t row clock version data s =
     rbind (received_row e t data s) (\<lambda>(ops, r).
     rbind (mgr_Acknowledge (be_stray e) server version (bc_mgr (bs_ctx s))) (\<lambda>mgr.
     rbind (ApplyOpLogsAndInsertRow e g t row version ops r clock (set_mgr mgr s)) (\<lambda>s.
     rbind (mgr_InformReply t row clock (bc_version (bs_ctx s)) (bc_mgr (bs_ctx s))) (\<lambda>(clock_to_request, ids, mgr).
     let s = set_mgr mgr s in
     rbind (if clock_to_request \<ge> 0
            then rbind (GetRowPartitionServerID g t row) (\<lambda>sid. Inr [ToServer sid (RowRequestMsg t row clock_to_request)])
            else Inr []) (\<lambda>os.
     Inr (os @ map (\<lambda>i. ToApp i RowRequestReplyMsg) ids, s))))))"

fun pushed_rows_loop ::
  "nat \<Rightarrow> ('pm, 'om, 'im, 'r, 'v) bg_env \<Rightarrow> global_context \<Rightarrow> 32 word \<Rightarrow> bytes \<Rightarrow> row_reader \<Rightarrow>
   ('pm, 'om, 'im, 'r, 'v) bg_state \<Rightarrow> ('pm, 'om, 'im, 'r, 'v) bg_state result" where
  "pushed_rows_loop 0 e g version m rr s = Inl OutOfFuel"
| "pushed_rows_loop (Suc n) e g version m rr s =
     rbind (RowReader_Next m (length m) rr) (\<lambda>(x, rr).
     case x of None \<Rightarrow> Inr s
     | Some (t, row, off, sz) \<Rightarrow>
         rbind (mem_read m off sz) (\<lambda>data.
         rbind (received_row e t data s) (\<lambda>(ops, r).
         rbind (ApplyOpLogsAndInsertRow e g t row version ops r 0 s) (\<lambda>s.
         pushed_rows_loop n e g version m rr s))))"

definition ApplyServerPushedRow ::
  "('pm, 'om, 'im, 'r, 'v) bg_env \<Rightarrow> global_context \<Rightarrow> 32 word \<Rightarrow> bytes \<Rightarrow>
   ('pm, 'om, 'im, 'r, 'v) bg_state \<Rightarrow> ('pm, 'om, 'im, 'r, 'v) bg_state result" where
  "ApplyServerPushedRow e g version m s =
     rbind (RowReader_Restart m SerializedRowReader) (\<lambda>(not_empty, rr).
     if not_empty then pushed_rows_loop (be_fuel e) e g version m rr s else Inr s)"

text \<open>\<open>kServerPushRow\<close>: acknowledge, apply the rows, then advance the clocks.\<close>

definition HandleServerPushRow ::
  "('pm, 'om, 'im, 'r, 'v) bg_env \<Rightarrow> global_context \<Rightarrow> int \<Rightarrow> int \<Rightarrow> 32 word \<Rightarrow> int option \<Rightarrow> bytes \<Rightarrow>
   ('pm, 'om, 'im, 'r, 'v) bg_state \<Rightarrow> ('pm, 'om, 'im, 'r, 'v) bg_state result" where
  "HandleServerPushRow e g my_id server version is_clock data s =
     rbind (mgr_Acknowledge (be_stray e) server version (bc_mgr (bs_ctx s))) (\<lambda>mgr.
     rbind (ApplyServerPushedRow e g version data (set_mgr mgr s)) (\<lambda>s.
     case is_clock of None \<Rightarrow> Inr s
     | Some server_clock \<Rightarrow>
         rbind (get_clock server (bc_server_clock (bs_ctx s))) (\<lambda>old.
         rbind (check (old + 1 = server_clock) ''get_clock(sender_id) + 1 == server_clock'') (\<lambda>_.
         let (new_clock, vc) = Tick server (bc_server_clock (bs_ctx s));
             s = s\<lparr>bs_ctx := (bs_ctx s)\<lparr>bc_server_clock := vc\<rparr>\<rparr> in
         if new_clock = 0 then Inr s
         else
           let (new_system_clock, vc) = Tick my_id (bs_bg_server_clock s);
               s = s\<lparr>bs_bg_server_clock := vc\<rparr> in
           Inr (if new_system_clock = 0 then s else s\<lparr>bs_system_clock := bs_system_clock s + 1\<rparr>)))))"

end
