(* ===== verification/Bg_Main.thy ===== *)
theory Bg_Main
imports Bg_Worker
begin

text \<open>
  The background threads, continued: collecting and sending the oplogs at a
  clock, the handshake and the creation of tables, and the main loop
  (petuum_ps/thread/bg_workers.cpp).
\<close>

section \<open>Collecting the oplogs\<close>

definition row_oplog_bytes :: "nat \<Rightarrow> 'v row_oplog \<Rightarrow> nat" where
  "row_oplog_bytes update_size l = 4 + 4 + 4 * nat (RowOpLog_GetSize l) + update_size * nat (RowOpLog_GetSize l)"

definition add_bytes :: "int \<Rightarrow> nat \<Rightarrow> (int \<times> nat) list \<Rightarrow> (int \<times> nat) list" where
  "add_bytes sid n sizes = oupd sid ((case map_of sizes sid of None \<Rightarrow> 0 | Some k \<Rightarrow> k) + n) sizes"

text \<open>One row of the index: its oplog leaves the table and enters the message's partition.\<close>

definition take_row_oplog ::
  "('om, int, nat) cuckoo \<Rightarrow> global_context \<Rightarrow> int \<Rightarrow> nat \<Rightarrow>
   (int \<times> nat) list \<times> 'v bg_oplog_partition \<times> ('om, 'v) table_oplog \<Rightarrow> int \<Rightarrow>
   ((int \<times> nat) list \<times> 'v bg_oplog_partition \<times> ('om, 'v) table_oplog) result" where
  "take_row_oplog ck g t update_size st row =
     (case st of (sizes, p, ol) \<Rightarrow>
      rbind (table_GetEraseOpLog ck g row ol) (\<lambda>(x, ol).
      case x of None \<Rightarrow> Inr (sizes, p, ol)
      | Some l \<Rightarrow>
          rbind (GetRowPartitionServerID g t row) (\<lambda>sid.
          Inr (add_bytes sid (row_oplog_bytes update_size l) sizes, BgOpLogPartition_InsertOpLog row l p, ol))))"

text \<open>The sizes of a table are entered for every server.\<close>

definition set_sizes ::
  "int \<Rightarrow> (int \<times> nat) list \<Rightarrow> (int \<times> (int \<times> nat) list) list \<Rightarrow> (int \<times> (int \<times> nat) list) list" where
  "set_sizes t sizes m =
     fold (\<lambda>(sid, n) m. oupd sid (oupd t n (case map_of m sid of None \<Rightarrow> [] | Some l \<Rightarrow> l)) m) sizes m"

definition get_table_oplog ::
  "('pm, 'om, 'im) cl_maps \<Rightarrow> global_context \<Rightarrow> int \<Rightarrow>
   'v bg_oplog \<times> 'v bg_context \<times> (int \<times> ('pm, 'om, 'im, 'r, 'v) client_table) list \<Rightarrow>
   int \<times> ('pm, 'om, 'im, 'r, 'v) client_table \<Rightarrow>
   ('v bg_oplog \<times> 'v bg_context \<times> (int \<times> ('pm, 'om, 'im, 'r, 'v) client_table) list) result" where
  "get_table_oplog m g local_bg st tc =
     (case st of (bg, c, done) \<Rightarrow> case tc of (t, ct) \<Rightarrow>
      rbind (GetAndResetOpLogIndex m local_bg ct) (\<lambda>(idx, ct).
      let update_size = ro_get_update_size (ct_sample ct);
          sizes = fold (\<lambda>sid z. oupd sid 4 z) (take (nat (num_servers g)) (server_ids g)) (bc_table_sizes c) in
      rbind (foldM (take_row_oplog (cm_oplog m) g t update_size) (sizes, BgOpLogPartition t update_size, ct_oplog ct)
              (map fst (ck_list (cm_index m) idx))) (\<lambda>(sizes, p, ol).
      Inr (BgOpLog_Add t p bg, c\<lparr>bc_table_sizes := sizes, bc_sizes := set_sizes t sizes (bc_sizes c)\<rparr>,
           done @ [(t, ct\<lparr>ct_oplog := ol\<rparr>)]))))"

definition GetOpLogAndIndex ::
  "('pm, 'om, 'im, 'r, 'v) bg_env \<Rightarrow> global_context \<Rightarrow> int \<Rightarrow> ('pm, 'om, 'im, 'r, 'v) bg_state \<Rightarrow>
   ('v bg_oplog \<times> ('pm, 'om, 'im, 'r, 'v) bg_state) result" where
  "GetOpLogAndIndex e g my_id s =
     rbind (foldM (get_table_oplog (be_maps e) g (my_id - get_head_bg_id (client_id g))) ([], bs_ctx s, []) (bs_tables s))
       (\<lambda>(bg, c, tabs). Inr (bg, s\<lparr>bs_ctx := c, bs_tables := tabs\<rparr>))"

definition table_sizes :: "(int \<times> ('pm, 'om, 'im, 'r, 'v) client_table) list \<Rightarrow> (int \<times> nat) list" where
  "table_sizes tabs = map (\<lambda>(t, ct). (t, ro_get_update_size (ct_sample ct))) tabs"

definition HandleClockMsg ::
  "('pm, 'om, 'im, 'r, 'v) bg_env \<Rightarrow> global_context \<Rightarrow> int \<Rightarrow> bool \<Rightarrow> ('pm, 'om, 'im, 'r, 'v) bg_state \<Rightarrow>
   (bg_out list \<times> ('pm, 'om, 'im, 'r, 'v) bg_state) result" where
  "HandleClockMsg e g my_id clock_advanced s =
     rbind (GetOpLogAndIndex e g my_id s) (\<lambda>(bg, s).
     rbind (CreateOpLogMsgs (be_pod e) g (table_sizes (bs_tables s)) (be_alloc e) (bc_sizes (bs_ctx s)) bg) (\<lambda>msgs.
     let version = bc_version (bs_ctx s);
         os = map (\<lambda>(sid, data). ToServer sid (ClientSendOpLogMsg (client_id g) clock_advanced version data)) msgs in
     rbind (mgr_AddOpLog version bg (bc_mgr (bs_ctx s))) (\<lambda>(tracked, mgr).
     Inr (os, s\<lparr>bs_ctx := (bs_ctx s)\<lparr>bc_mgr := mgr_InformVersionInc mgr, bc_version := version + 1\<rparr>\<rparr>))))"

section \<open>Handshake and creation of tables\<close>

type_synonym bg_msgs = "(int \<times> bg_msg) list"

definition recv :: "bg_msgs \<Rightarrow> ((int \<times> bg_msg) \<times> bg_msgs) result" where
  "recv ms = (case ms of [] \<Rightarrow> Inl (Blocked ''Recv'') | m # ms \<Rightarrow> Inr (m, ms))"

definition ConnectToNameNodeOrServer :: "global_context \<Rightarrow> int \<Rightarrow> bg_out" where
  "ConnectToNameNodeOrServer g sid = ToServer sid (ClientConnectMsg (client_id g))"

text \<open>The permissions to start, one from each server and one from the name node.\<close>

fun recv_starts :: "nat \<Rightarrow> bg_msgs \<Rightarrow> bg_msgs result" where
  "recv_starts 0 ms = Inr ms"
| "recv_starts (Suc n) ms =
     rbind (recv ms) (\<lambda>((_, x), ms).
     rbind (check (x = FromServer ClientStartMsg) ''msg_type == kClientStart'') (\<lambda>_. recv_starts n ms))"

definition BgServerHandshake :: "global_context \<Rightarrow> bg_msgs \<Rightarrow> (bg_out list \<times> bg_msgs) result" where
  "BgServerHandshake g ms =
     rbind (recv ms) (\<lambda>((sender, x), ms).
     rbind (check (sender = get_name_node_id) ''sender_id == name_node_id'') (\<lambda>_.
     rbind (check (x = FromServer ConnectServerMsg) ''msg_type == kConnectServer'') (\<lambda>_.
     rbind (check (num_servers g = int (length (server_ids g))) ''num_servers == server_ids.size()'') (\<lambda>_.
     rbind (recv_starts (nat (num_servers g + 1)) ms) (\<lambda>ms.
     Inr (map (ConnectToNameNodeOrServer g) (get_name_node_id # server_ids g), ms))))))"

definition create_table ::
  "('pm, 'om, 'im, 'r, 'v) bg_env \<Rightarrow> global_context \<Rightarrow> bg_msgs \<Rightarrow> ('pm, 'om, 'im, 'r, 'v) bg_state \<Rightarrow>
   (bg_out list \<times> bg_msgs \<times> ('pm, 'om, 'im, 'r, 'v) bg_state) result" where
  "create_table e g ms s =
     rbind (recv ms) (\<lambda>((app, x), ms).
     case x of FromApp (BgCreateTableMsg t config) \<Rightarrow>
       rbind (recv ms) (\<lambda>((_, y), ms).
       case y of FromServer (OutCreateTableReply t') \<Rightarrow>
         rbind (check (t' = t) ''get_table_id() == table_id'') (\<lambda>_.
         rbind (ClientTable (be_maps e)
                  (\<lambda>k. rbind (of_option (Undefined ''null sample row'') (CreateObject (be_reg e) k)) (\<lambda>(ops, _). Inr ops))
                  g t config) (\<lambda>ct.
         Inr ([ToServer get_name_node_id (CreateTableMsg t (table_info config)), ToApp app (CreateTableReplyApp t)],
              ms, set_table t ct s)))
       | _ \<Rightarrow> Inl (CheckFailed ''msg_type == kCreateTableReply''))
     | _ \<Rightarrow> Inl (CheckFailed ''msg_type == kBgCreateTable''))"

fun create_tables ::
  "nat \<Rightarrow> ('pm, 'om, 'im, 'r, 'v) bg_env \<Rightarrow> global_context \<Rightarrow> bg_msgs \<Rightarrow> ('pm, 'om, 'im, 'r, 'v) bg_state \<Rightarrow>
   (bg_out list \<times> bg_msgs \<times> ('pm, 'om, 'im, 'r, 'v) bg_state) result" where
  "create_tables 0 e g ms s = Inr ([], ms, s)"
| "create_tables (Suc n) e g ms s =
     rbind (create_table e g ms s) (\<lambda>(os, ms, s).
     rbind (create_tables n e g ms s) (\<lambda>(os', r). Inr (os @ os', r)))"

definition HandleCreateTables ::
  "('pm, 'om, 'im, 'r, 'v) bg_env \<Rightarrow> global_context \<Rightarrow> bg_msgs \<Rightarrow> ('pm, 'om, 'im, 'r, 'v) bg_state \<Rightarrow>
   (bg_out list \<times> bg_msgs \<times> ('pm, 'om, 'im, 'r, 'v) bg_state) result" where
  "HandleCreateTables e g ms s =
     rbind (create_tables (nat (num_tables g)) e g ms s) (\<lambda>(os, ms, s).
     rbind (recv ms) (\<lambda>((_, x), ms).
     rbind (check (x = FromServer CreatedAllTablesMsg) ''msg_type == kCreatedAllTables'') (\<lambda>_. Inr (os, ms, s))))"

text \<open>The counter of connected application threads.\<close>

definition app_connect ::
  "global_context \<Rightarrow> ('pm, 'om, 'im, 'r, 'v) bg_state \<Rightarrow> ('pm, 'om, 'im, 'r, 'v) bg_state result" where
  "app_connect g s =
     (let s = s\<lparr>bs_connected := bs_connected s + 1\<rparr> in
      rbind (check (bs_connected s \<le> num_app_threads g) ''num_connected_app_threads <= get_num_app_threads()'') (\<lambda>_. Inr s))"

definition RecvAppInitThreadConnection ::
  "global_context \<Rightarrow> bg_msgs \<Rightarrow> ('pm, 'om, 'im, 'r, 'v) bg_state \<Rightarrow> (bg_msgs \<times> ('pm, 'om, 'im, 'r, 'v) bg_state) result" where
  "RecvAppInitThreadConnection g ms s =
     rbind (recv ms) (\<lambda>((_, x), ms).
     rbind (check (x = FromApp AppConnectMsg) ''msg_type == kAppConnect'') (\<lambda>_.
     rbind (app_connect g s) (\<lambda>s. Inr (ms, s))))"

section \<open>Main loop\<close>

definition app_deregister ::
  "global_context \<Rightarrow> ('pm, 'om, 'im, 'r, 'v) bg_state \<Rightarrow> bg_out list \<times> ('pm, 'om, 'im, 'r, 'v) bg_state" where
  "app_deregister g s =
     (let s = s\<lparr>bs_deregistered := bs_deregistered s + 1\<rparr> in
      (if bs_deregistered s = num_app_threads g
       then map (\<lambda>sid. ToServer sid ClientShutDownMsg) (get_name_node_id # take (nat (num_servers g)) (server_ids g))
       else [], s))"

text \<open>One message; the first component tells whether the thread ends.\<close>

definition bg_handle ::
  "('pm, 'om, 'im, 'r, 'v) bg_env \<Rightarrow> global_context \<Rightarrow> int \<Rightarrow> int \<times> bg_msg \<Rightarrow> ('pm, 'om, 'im, 'r, 'v) bg_state \<Rightarrow>
   (bool \<times> bg_out list \<times> ('pm, 'om, 'im, 'r, 'v) bg_state) result" where
  "bg_handle e g my_id sm s =
     (let cont = (\<lambda>r. rbind r (\<lambda>(os, s). Inr (False, os, s))) in
      case sm of (sender, m) \<Rightarrow>
      (case m of
         FromApp AppConnectMsg \<Rightarrow> rbind (app_connect g s) (\<lambda>s. Inr (False, [], s))
       | FromApp AppThreadDeregMsg \<Rightarrow> cont (Inr (app_deregister g s))
       | FromServer ServerShutDownAckMsg \<Rightarrow>
           let s = s\<lparr>bs_acked := bs_acked s + 1\<rparr> in Inr (bs_acked s = num_servers g + 1, [], s)
       | FromApp (AppRowRequestMsg t row clock) \<Rightarrow> cont (CheckForwardRowRequestToServer e g sender t row clock s)
       | FromServer (ServerRowRequestReplyMsg t row clock version data) \<Rightarrow>
           cont (HandleServerRowRequestReply e g sender t row clock version data s)
       | FromApp BgClockMsg \<Rightarrow> cont (HandleClockMsg e g my_id True s)
       | FromApp BgSendOpLogMsg \<Rightarrow> cont (HandleClockMsg e g my_id False s)
       | FromServer (ServerPushRowMsg version is_clock data) \<Rightarrow>
           rbind (HandleServerPushRow e g my_id sender version is_clock data s) (\<lambda>s. Inr (False, [], s))
       | _ \<Rightarrow> Inl (Fatal ''Unrecognized type'')))"

fun bg_loop ::
  "('pm, 'om, 'im, 'r, 'v) bg_env \<Rightarrow> global_context \<Rightarrow> int \<Rightarrow> bg_msgs \<Rightarrow> ('pm, 'om, 'im, 'r, 'v) bg_state \<Rightarrow>
   (bg_out list \<times> ('pm, 'om, 'im, 'r, 'v) bg_state) result" where
  "bg_loop e g my_id [] s = Inr ([], s)"
| "bg_loop e g my_id (sm # sms) s =
     rbind (bg_handle e g my_id sm s) (\<lambda>(stop, os, s).
     if stop then Inr (os, s)
     else rbind (bg_loop e g my_id sms s) (\<lambda>(os', s). Inr (os @ os', s)))"

definition BgWorkers_Init_clock :: "global_context \<Rightarrow> vector_clock" where
  "BgWorkers_Init_clock g =
     fold (\<lambda>i c. AddClock (get_head_bg_id (client_id g) + i) 0 c) [0..num_bg_threads g - 1] VectorClock0"

text \<open>\<open>tabs\<close>, \<open>sys\<close> and \<open>vc\<close> are the shared tables, system clock and clocks of the background threads.\<close>

definition SSPBgThreadMain ::
  "('pm, 'om, 'im, 'r, 'v) bg_env \<Rightarrow> global_context \<Rightarrow> int \<Rightarrow> (int \<times> ('pm, 'om, 'im, 'r, 'v) client_table) list \<Rightarrow>
   int \<Rightarrow> vector_clock \<Rightarrow> bg_msgs \<Rightarrow> (bg_out list \<times> ('pm, 'om, 'im, 'r, 'v) bg_state) result" where
  "SSPBgThreadMain e g my_id tabs sys vc ms =
     rbind (InitBgContext g) (\<lambda>c.
     let s = \<lparr>bs_ctx = c, bs_tables = tabs, bs_system_clock = sys, bs_bg_server_clock = vc,
              bs_connected = 0, bs_deregistered = 0, bs_acked = 0\<rparr> in
     rbind (BgServerHandshake g ms) (\<lambda>(os1, ms).
     rbind (RecvAppInitThreadConnection g ms s) (\<lambda>(ms, s).
     rbind (if my_id = get_head_bg_id (client_id g) then HandleCreateTables e g ms s else Inr ([], ms, s)) (\<lambda>(os2, ms, s).
     rbind (bg_loop e g my_id ms s) (\<lambda>(os3, s). Inr (os1 @ os2 @ os3, s))))))"

end
