(* ===== verification/Table_Group.thy ===== *)
theory Table_Group
imports Consistency
begin

text \<open>
  The interface of the application (petuum_ps/client/table_group.cpp) and the
  dispatch of a client table to its consistency controller
  (petuum_ps/client/client_table.cpp): creation of tables, registration of
  threads, clocks.  Waiting at a barrier changes no state and is left out; what
  the background thread has entered in the tables when its answer comes is an
  argument.
\<close>

section \<open>ClientTable: dispatch\<close>

text \<open>
  The surroundings of a read: the effect of the background thread until it
  answers, the system clocks a waiting thread sees and the effect meanwhile.
\<close>

record ('pm, 'om, 'im, 'r, 'v) read_env =
  rd_fetch :: "nat \<Rightarrow> ('pm, 'om, 'im, 'r, 'v) client_table \<Rightarrow> ('pm, 'om, 'im, 'r, 'v) client_table result"
  rd_wait :: "('pm, 'om, 'im, 'r, 'v) client_table \<Rightarrow> ('pm, 'om, 'im, 'r, 'v) client_table result"
  rd_clocks :: "int list"

definition ct_Get ::
  "('pm, 'om, 'im) cl_maps \<Rightarrow> global_context \<Rightarrow> ('pm, 'om, 'im, 'r, 'v) read_env \<Rightarrow> int \<Rightarrow> int \<Rightarrow> nat row_accessor \<Rightarrow>
   ('pm, 'om, 'im, 'r, 'v) client_table \<Rightarrow> (app_outs \<times> nat row_accessor \<times> ('pm, 'om, 'im, 'r, 'v) client_table) result" where
  "ct_Get m g e clk row a ct =
     (if consistency_model g = SSPPush
      then rbind (push_Get m g (rd_fetch e) (rd_wait e) (rd_clocks e) clk row a ct) (\<lambda>(_, r). Inr r)
      else ctl_Get m g (rd_fetch e) clk row a ct)"

definition ct_ThreadGet ::
  "('pm, 'om, 'im) cl_maps \<Rightarrow> global_context \<Rightarrow> ('pm, 'om, 'im, 'r, 'v) read_env \<Rightarrow> int \<Rightarrow> int \<Rightarrow> int \<Rightarrow>
   ('pm, 'om, 'im, 'r, 'v) client_table \<Rightarrow> (app_outs \<times> 'r \<times> ('pm, 'om, 'im, 'r, 'v) client_table) result" where
  "ct_ThreadGet m g e tid clk row ct =
     (if consistency_model g = SSPPush
      then rbind (push_ThreadGet m g (rd_fetch e) (rd_wait e) (rd_clocks e) tid clk row ct) (\<lambda>(_, r). Inr r)
      else ctl_ThreadGet m g (rd_fetch e) tid clk row ct)"

definition ct_GetAsync ::
  "('pm, 'om, 'im) cl_maps \<Rightarrow> global_context \<Rightarrow> int \<Rightarrow> int \<Rightarrow> int \<Rightarrow> ('pm, 'om, 'im, 'r, 'v) client_table \<Rightarrow>
   (nat \<times> app_outs \<times> ('pm, 'om, 'im, 'r, 'v) client_table) result" where
  "ct_GetAsync m g system_clock tid row ct =
     (if consistency_model g = SSPPush then push_GetAsync m g system_clock tid row ct else Inr (0, [], ct))"

definition ct_WaitPendingAsyncGet ::
  "global_context \<Rightarrow> int \<Rightarrow> ('pm, 'om, 'im, 'r, 'v) client_table \<Rightarrow> nat \<times> ('pm, 'om, 'im, 'r, 'v) client_table" where
  "ct_WaitPendingAsyncGet g tid ct =
     (if consistency_model g = SSPPush then WaitPendingAsyncGet tid ct else (0, ct))"

section \<open>TableGroup\<close>

record ('pm, 'om, 'im, 'r, 'v) table_group =
  tg_tables :: "(int \<times> ('pm, 'om, 'im, 'r, 'v) client_table) list"
  tg_num_registered :: int
  tg_max_staleness :: int
  tg_vector_clock :: vector_clock
  tg_threads :: "(int, thread_info) amap"
  tg_aggressive :: bool

definition init_thread_id :: "global_context \<Rightarrow> int" where
  "init_thread_id g = local_id_min g + kInitThreadIDOffset"

text \<open>The context the constructor sets up.\<close>

definition TableGroup_context :: "TableGroupConfig \<Rightarrow> bool \<Rightarrow> global_context" where
  "TableGroup_context cfg table_access =
     GlobalContext_Init (cfg_num_total_server_threads cfg) (cfg_num_local_server_threads cfg) (cfg_num_local_app_threads cfg)
       (if table_access then cfg_num_local_app_threads cfg else cfg_num_local_app_threads cfg - 1)
       (cfg_num_local_bg_threads cfg) (cfg_num_total_bg_threads cfg) (cfg_num_tables cfg) (cfg_num_total_clients cfg)
       (cfg_server_ids cfg) (cfg_host_map cfg) (cfg_client_id cfg) (cfg_server_ring_size cfg)
       (cfg_consistency_model cfg) (cfg_aggressive_cpu cfg \<noteq> 0) (cfg_snapshot_clock cfg) (cfg_snapshot_dir cfg)
       (cfg_resume_clock cfg) (cfg_resume_dir cfg)"

text \<open>\<open>SendToAllLocalBgThreads\<close>: the ids of the threads follow the head's.\<close>

definition SendToAllLocalBgThreads :: "global_context \<Rightarrow> app_msg \<Rightarrow> app_outs" where
  "SendToAllLocalBgThreads g m = map (\<lambda>i. (get_head_bg_id (client_id g) + i, m)) [0..num_bg_threads g - 1]"

text \<open>
  The constructor leaves \<open>max_table_staleness_\<close> uninitialised: \<open>junk\<close> is what its
  memory holds.  The first result are the connections of the init thread.
\<close>

definition TableGroup ::
  "int \<Rightarrow> TableGroupConfig \<Rightarrow> bool \<Rightarrow> app_outs \<times> global_context \<times> ('pm, 'om, 'im, 'r, 'v) table_group" where
  "TableGroup junk cfg table_access =
     (let g = TableGroup_context cfg table_access; tid = init_thread_id g in
      (SendToAllLocalBgThreads g AppConnectMsg, g,
       \<lparr>tg_tables = [], tg_num_registered = 1, tg_max_staleness = junk,
        tg_vector_clock = (if table_access then AddClock tid 0 VectorClock0 else VectorClock0),
        tg_threads = [(tid, RegisterThread tid)], tg_aggressive = cfg_aggressive_clock cfg\<rparr>))"

text \<open>\<open>created\<close> is the table that the head background thread has entered when its reply comes.\<close>

definition tg_CreateTable ::
  "global_context \<Rightarrow> int \<Rightarrow> ClientTableConfig \<Rightarrow> ('pm, 'om, 'im, 'r, 'v) client_table \<Rightarrow>
   ('pm, 'om, 'im, 'r, 'v) table_group \<Rightarrow> (app_outs \<times> ('pm, 'om, 'im, 'r, 'v) table_group) result" where
  "tg_CreateTable g t config created tg =
     (let tg = tg\<lparr>tg_max_staleness := max (tg_max_staleness tg) (table_staleness (table_info config)),
                  tg_tables := oupd t created (tg_tables tg)\<rparr>;
          os = [(get_head_bg_id (client_id g), BgCreateTableMsg t config)] in
      if num_app_threads g = num_table_threads g
      then rbind (of_option (Undefined ''tables_.end()'') (map_of (tg_tables tg) t)) (\<lambda>ct.
           Inr (os, tg\<lparr>tg_tables := oupd t (ct_RegisterThread g (init_thread_id g) ct) (tg_tables tg)\<rparr>))
      else Inr (os, tg))"

definition GetTableOrDie ::
  "int \<Rightarrow> ('pm, 'om, 'im, 'r, 'v) table_group \<Rightarrow> ('pm, 'om, 'im, 'r, 'v) client_table result" where
  "GetTableOrDie t tg = of_option (CheckFailed ''Table does not exist'') (map_of (tg_tables tg) t)"

definition tg_RegisterThread ::
  "global_context \<Rightarrow> ('pm, 'om, 'im, 'r, 'v) table_group \<Rightarrow> int \<times> app_outs \<times> ('pm, 'om, 'im, 'r, 'v) table_group" where
  "tg_RegisterThread g tg =
     (let tid = local_id_min g + kInitThreadIDOffset + tg_num_registered tg in
      (tid, SendToAllLocalBgThreads g AppConnectMsg,
       tg\<lparr>tg_num_registered := tg_num_registered tg + 1,
          tg_threads := AList.update tid (RegisterThread tid) (tg_threads tg),
          tg_vector_clock := AddClock tid 0 (tg_vector_clock tg),
          tg_tables := map (\<lambda>(t, ct). (t, ct_RegisterThread g tid ct)) (tg_tables tg)\<rparr>))"

definition tg_DeregisterThread :: "global_context \<Rightarrow> app_outs" where
  "tg_DeregisterThread g = SendToAllLocalBgThreads g AppThreadDeregMsg"

definition clock_tables ::
  "('pm, 'om, 'im) cl_maps \<Rightarrow> global_context \<Rightarrow> int \<Rightarrow> (int \<times> ('pm, 'om, 'im, 'r, 'v) client_table) list \<Rightarrow>
   (int \<times> ('pm, 'om, 'im, 'r, 'v) client_table) list result" where
  "clock_tables m g tid tabs = mapM (\<lambda>(t, ct). rbind (ctl_Clock m g tid ct) (\<lambda>ct. Inr (t, ct))) tabs"

definition ClockInternal ::
  "('pm, 'om, 'im) cl_maps \<Rightarrow> global_context \<Rightarrow> int \<Rightarrow> ('pm, 'om, 'im, 'r, 'v) table_group \<Rightarrow>
   (app_outs \<times> ('pm, 'om, 'im, 'r, 'v) table_group) result" where
  "ClockInternal m g tid tg =
     rbind (clock_tables m g tid (tg_tables tg)) (\<lambda>tabs.
     let (clock, vc) = Tick tid (tg_vector_clock tg);
         tg = tg\<lparr>tg_tables := tabs, tg_vector_clock := vc\<rparr> in
     if clock \<noteq> 0 then Inr (SendToAllLocalBgThreads g BgClockMsg, tg)
     else if tg_aggressive tg then Inr (SendToAllLocalBgThreads g BgSendOpLogMsg, tg)
     else Inr ([], tg))"

definition tg_Clock ::
  "('pm, 'om, 'im) cl_maps \<Rightarrow> global_context \<Rightarrow> int \<Rightarrow> ('pm, 'om, 'im, 'r, 'v) table_group \<Rightarrow>
   (app_outs \<times> ('pm, 'om, 'im, 'r, 'v) table_group) result" where
  "tg_Clock m g tid tg =
     rbind (of_option (Undefined ''null thr_info_'') (map_of (tg_threads tg) tid)) (\<lambda>ti.
     ClockInternal m g tid (tg\<lparr>tg_threads := AList.update tid (ThreadContext_Clock ti) (tg_threads tg)\<rparr>))"

definition GlobalBarrier ::
  "('pm, 'om, 'im) cl_maps \<Rightarrow> global_context \<Rightarrow> int \<Rightarrow> ('pm, 'om, 'im, 'r, 'v) table_group \<Rightarrow>
   (app_outs \<times> ('pm, 'om, 'im, 'r, 'v) table_group) result" where
  "GlobalBarrier m g tid tg =
     foldM (\<lambda>(os, tg) _. rbind (tg_Clock m g tid tg) (\<lambda>(os', tg). Inr (os @ os', tg))) ([], tg)
       [0..tg_max_staleness tg]"

end
