(* ===== verification/Client_Proofs.thy ===== *)
theory Client_Proofs
imports Table_Group
begin

text \<open>
  The client side of a table: reads respect the staleness bound, updates are
  counted exactly once on their way from the application threads to the
  process oplog, a cached row always shows the updates of its own process, and every
  pending update is indexed for the background thread that sends it.
\<close>

section \<open>Oplogs of a table\<close>

lemma traverse_from:
  "traverse (iter_get (rol_oplogs l) (rol_iter l)) l = Inr (drop (rol_iter l) (rol_oplogs l))"
proof (induction "length (rol_oplogs l) - rol_iter l" arbitrary: l rule: less_induct)
  case less
  show ?case
  proof (cases "rol_iter l < length (rol_oplogs l)")
    case True
    let ?l = "l\<lparr>rol_iter := rol_iter l + 1\<rparr>"
    have "traverse (iter_get (rol_oplogs ?l) (rol_iter ?l)) ?l = Inr (drop (rol_iter ?l) (rol_oplogs ?l))"
      by (rule less) (use True in simp)
    with True show ?thesis by (simp add: iter_get_def RowOpLog_Next_def Let_def Cons_nth_drop_Suc)
  qed (simp add: iter_get_def)
qed

lemma oplog_entries_eq [simp]: "oplog_entries l = Inr (rol_oplogs l)"
  using traverse_from [of "l\<lparr>rol_iter := 0\<rparr>"] by (simp add: oplog_entries_def RowOpLog_BeginIterate_def)

lemma rol_val_sum: "rol_ok l \<Longrightarrow> rol_val l = upd_sum (rol_oplogs l)"
  by (simp add: fun_eq_iff rol_val_def rol_ok_def upd_sum_osorted)

lemma upto_map_int: "[0..int n - 1] = map int [0..<n]"
  by (induction n) (simp_all add: upto_rec2)

definition bg_part :: "global_context \<Rightarrow> int \<Rightarrow> nat" where
  "bg_part g row = nat (row mod num_bg_threads g)"

lemma GetBgPartitionNum_eq:
  "0 \<le> row \<Longrightarrow> 0 < num_bg_threads g \<Longrightarrow> GetBgPartitionNum g row = Inr (int (bg_part g row))"
  by (simp add: GetBgPartitionNum_def c_mod_def smod_nonneg bg_part_def)

lemma bg_part_less: "0 < num_bg_threads g \<Longrightarrow> bg_part g row < nat (num_bg_threads g)"
  by (simp add: bg_part_def nat_less_iff)

lemma vec_at_nat [simp]: "vec_at xs (int i) = (if i < length xs then Inr (xs ! i) else Inl (Undefined ''vector index''))"
  by (simp add: vec_at_def)

lemma on_partition_eq:
  assumes "0 \<le> row" "0 < num_bg_threads g" "length (to_partitions t) = nat (num_bg_threads g)"
  shows "on_partition g row f t = rbind (f (to_partitions t ! bg_part g row)) (\<lambda>(x, p).
    Inr (x, t\<lparr>to_partitions := (to_partitions t)[bg_part g row := p]\<rparr>))"
  using assms bg_part_less [of g row] by (simp add: on_partition_def GetBgPartitionNum_eq)

text \<open>\<open>tpend\<close>: the pending update of an entry in the process oplog; \<open>in_oplog\<close>: the row has an oplog.\<close>

definition tpend where
  "tpend m g ct row = pend (cm_oplog m) (to_partitions (ct_oplog ct) ! bg_part g row) row"

definition in_oplog where
  "in_oplog m g ct row \<longleftrightarrow> ck_find (cm_oplog m) (op_map (to_partitions (ct_oplog ct) ! bg_part g row)) row \<noteq> None"

definition oplog_ok where
  "oplog_ok m oinv g ct \<longleftrightarrow> length (to_partitions (ct_oplog ct)) = nat (num_bg_threads g) \<and>
     (\<forall>p \<in> set (to_partitions (ct_oplog ct)). part_ok (cm_oplog m) oinv p)"

lemma oplog_ok_nth: "oplog_ok m oinv g ct \<Longrightarrow> 0 < num_bg_threads g \<Longrightarrow>
    part_ok (cm_oplog m) oinv (to_partitions (ct_oplog ct) ! bg_part g row)"
  using bg_part_less [of g row] by (simp add: oplog_ok_def)

lemma oplog_ok_upd:
  assumes "oplog_ok m oinv g ct" "part_ok (cm_oplog m) oinv p"
  shows "oplog_ok m oinv g (ct\<lparr>ct_oplog := (ct_oplog ct)\<lparr>to_partitions := (to_partitions (ct_oplog ct))[i := p]\<rparr>\<rparr>)"
  using assms set_update_subset_insert [of "to_partitions (ct_oplog ct)" i p] by (auto simp: oplog_ok_def)

section \<open>The row cache\<close>

text \<open>\<open>crow\<close>: the row data behind a cached row.\<close>

definition crow where
  "crow m ct row = (case ck_find (cm_storage m) (ps_map (ct_storage ct)) row of None \<Rightarrow> None
     | Some (p, slot) \<Rightarrow> (case ps_heap (ct_storage ct) p of None \<Rightarrow> None | Some cr \<Rightarrow> ct_data ct (cr_data cr)))"

definition store_ok where
  "store_ok m rinv ct \<longleftrightarrow>
     (\<forall>row p slot. ck_find (cm_storage m) (ps_map (ct_storage ct)) row = Some (p, slot) \<longrightarrow>
        0 \<le> slot \<and> nat slot < length (stale (ps_lru (ct_storage ct))) \<and>
        (\<exists>cr r. ps_heap (ct_storage ct) p = Some cr \<and> ct_data ct (cr_data cr) = Some r \<and> rinv r)) \<and>
     (\<forall>row row' p p' slot slot' cr cr'.
        ck_find (cm_storage m) (ps_map (ct_storage ct)) row = Some (p, slot) \<and>
        ck_find (cm_storage m) (ps_map (ct_storage ct)) row' = Some (p', slot') \<and>
        ps_heap (ct_storage ct) p = Some cr \<and> ps_heap (ct_storage ct) p' = Some cr' \<and>
        (p = p' \<or> cr_data cr = cr_data cr') \<longrightarrow> row = row')"

text \<open>What an access to the row cache leaves alone.\<close>

definition cache_frame ::
  "('pm, 'om, 'im, 'r, 'v) client_table \<Rightarrow> ('pm, 'om, 'im, 'r, 'v) client_table \<Rightarrow> bool" where
  "cache_frame ct ct' \<longleftrightarrow> ct_sample ct' = ct_sample ct \<and> ct_oplog ct' = ct_oplog ct \<and> ct_oplog_index ct' = ct_oplog_index ct \<and>
     ct_thread_cache ct' = ct_thread_cache ct \<and> ct_staleness ct' = ct_staleness ct \<and> ct_table_id ct' = ct_table_id ct \<and>
     ps_map (ct_storage ct') = ps_map (ct_storage ct) \<and>
     length (stale (ps_lru (ct_storage ct'))) = length (stale (ps_lru (ct_storage ct))) \<and>
     (\<forall>p. map_option cr_data (ps_heap (ct_storage ct') p) = map_option cr_data (ps_heap (ct_storage ct) p) \<and>
          map_option cr_clock (ps_heap (ct_storage ct') p) = map_option cr_clock (ps_heap (ct_storage ct) p))"

lemma cache_frame_trans: "cache_frame ct ct1 \<Longrightarrow> cache_frame ct1 ct2 \<Longrightarrow> cache_frame ct ct2"
  by (simp add: cache_frame_def)

lemma cache_frame_refl [simp]: "cache_frame ct ct"
  by (simp add: cache_frame_def)

definition data_at where
  "data_at m ct row = (case ck_find (cm_storage m) (ps_map (ct_storage ct)) row of None \<Rightarrow> None
     | Some (p, slot) \<Rightarrow> map_option cr_data (ps_heap (ct_storage ct) p))"

text \<open>The same contract over the addresses of row data.\<close>

lemma store_ok_alt:
  "store_ok m rinv ct \<longleftrightarrow>
     (\<forall>row p slot. ck_find (cm_storage m) (ps_map (ct_storage ct)) row = Some (p, slot) \<longrightarrow>
        0 \<le> slot \<and> nat slot < length (stale (ps_lru (ct_storage ct))) \<and>
        (\<exists>d r. map_option cr_data (ps_heap (ct_storage ct) p) = Some d \<and> ct_data ct d = Some r \<and> rinv r)) \<and>
     (\<forall>row row' p p' slot slot' d d'.
        ck_find (cm_storage m) (ps_map (ct_storage ct)) row = Some (p, slot) \<and>
        ck_find (cm_storage m) (ps_map (ct_storage ct)) row' = Some (p', slot') \<and>
        map_option cr_data (ps_heap (ct_storage ct) p) = Some d \<and> map_option cr_data (ps_heap (ct_storage ct) p') = Some d' \<and>
        (p = p' \<or> d = d') \<longrightarrow> row = row')"
  unfolding store_ok_def by (auto; blast)

lemma crow_alt: "crow m ct row = (case data_at m ct row of None \<Rightarrow> None | Some d \<Rightarrow> ct_data ct d)"
  by (auto simp: crow_def data_at_def split: option.splits)

lemma data_at_frame: "cache_frame ct ct' \<Longrightarrow> data_at m ct' = data_at m ct"
  by (auto simp: data_at_def cache_frame_def fun_eq_iff split: option.splits)

lemma cache_frame_crow: "cache_frame ct ct' \<Longrightarrow> ct_data ct' = ct_data ct \<Longrightarrow> crow m ct' = crow m ct"
  by (rule ext) (simp add: crow_alt data_at_frame split: option.split)

lemma cache_frame_store:
  assumes "cache_frame ct ct'" "ct_data ct' = ct_data ct" "store_ok m rinv ct"
  shows "store_ok m rinv ct'"
  using assms by (simp add: store_ok_alt cache_frame_def)

lemma data_at_inj: "store_ok m rinv ct \<Longrightarrow> data_at m ct row = Some d \<Longrightarrow> data_at m ct row' = Some d \<Longrightarrow> row' = row"
  unfolding store_ok_alt data_at_def by (fastforce split: option.splits prod.splits)

lemma data_at_row: "store_ok m rinv ct \<Longrightarrow> data_at m ct row = Some d \<Longrightarrow> \<exists>r. ct_data ct d = Some r \<and> rinv r"
  unfolding store_ok_alt data_at_def by (fastforce split: option.splits prod.splits)

text \<open>An accessor that is not set, or refers to the cached row.\<close>

definition acc_ok where
  "acc_ok m ct row found ra \<longleftrightarrow> (if found then ra_data ra = data_at m ct row \<and> ra_data ra \<noteq> None \<and>
       (\<exists>p slot cr. ck_find (cm_storage m) (ps_map (ct_storage ct)) row = Some (p, slot) \<and>
          ra_client_row ra = Some p \<and> ps_heap (ct_storage ct) p = Some cr)
     else ra = RowAccessor \<and> data_at m ct row = None)"

lemma acc_ok_storage: "ct_storage ct' = ct_storage ct \<Longrightarrow> acc_ok m ct' row found ra = acc_ok m ct row found ra"
  by (simp only: acc_ok_def data_at_def)

lemma ct_Find_ok:
  assumes "store_ok m rinv ct"
  shows "\<exists>found ra ct'. ct_Find m row RowAccessor ct = Inr (found, ra, ct') \<and> cache_frame ct ct' \<and>
    ct_data ct' = ct_data ct \<and> acc_ok m ct' row found ra"
proof (cases "ck_find (cm_storage m) (ps_map (ct_storage ct)) row")
  case None
  then show ?thesis by (intro exI [of _ False]) (simp add: ct_Find_def storage_Find_def acc_ok_def data_at_def)
next
  case (Some ps)
  obtain p slot where ps: "ps = (p, slot)" by force
  obtain cr r where cr: "ps_heap (ct_storage ct) p = Some cr" "ct_data ct (cr_data cr) = Some r"
    "0 \<le> slot" "nat slot < length (stale (ps_lru (ct_storage ct)))"
    using assms Some ps unfolding store_ok_def by blast
  let ?l = "(ps_lru (ct_storage ct))\<lparr>stale := (stale (ps_lru (ct_storage ct)))[nat slot := False]\<rparr>"
  let ?h = "(ps_heap (ct_storage ct))(p \<mapsto> IncRef cr)"
  let ?ct = "ct\<lparr>ct_storage := (ct_storage ct)\<lparr>ps_heap := ?h, ps_lru := ?l\<rparr>\<rparr>"
  let ?ra = "\<lparr>ra_client_row = Some p, ra_data = Some (cr_data cr)\<rparr>"
  have "ct_Find m row RowAccessor ct = Inr (True, ?ra, ?ct)"
    using Some ps cr by (simp add: ct_Find_def storage_Find_def SetClientRow_def accessor_Clear_def RowAccessor_def
        Process_Storage.deref_def lru_Reference_def set_stale_def vec_at_def)
  moreover have "cache_frame ct ?ct" using cr by (simp add: cache_frame_def IncRef_def)
  moreover have "acc_ok m ?ct row True ?ra" using Some ps by (simp add: acc_ok_def data_at_def IncRef_def)
  ultimately show ?thesis by fastforce
qed

lemma drop_accessor_ok:
  assumes "acc_ok m ct row found ra"
  shows "\<exists>ct'. drop_accessor ra ct = Inr ct' \<and> cache_frame ct ct' \<and> ct_data ct' = ct_data ct"
proof (cases found)
  case True
  then obtain p slot cr where p: "ra_client_row ra = Some p" "ps_heap (ct_storage ct) p = Some cr"
    using assms by (auto simp: acc_ok_def)
  then show ?thesis
    by (simp add: drop_accessor_def accessor_Clear_def Process_Storage.deref_def cache_frame_def DecRef_def)
qed (use assms in \<open>simp add: acc_ok_def drop_accessor_def accessor_Clear_def RowAccessor_def\<close>)

text \<open>Changing the row behind the accessor changes exactly that cached row.\<close>

lemma change_data_ok:
  assumes ok: "store_ok m rinv ct" and ra: "acc_ok m ct row True ra"
    and f: "\<And>r. crow m ct row = Some r \<Longrightarrow> rinv r \<Longrightarrow> f r = Inr (F r) \<and> rinv (F r)"
  shows "\<exists>d r. data_at m ct row = Some d \<and> crow m ct row = Some r \<and>
    change_data ra f ct = Inr (ct\<lparr>ct_data := (ct_data ct)(d \<mapsto> F r)\<rparr>) \<and>
    store_ok m rinv (ct\<lparr>ct_data := (ct_data ct)(d \<mapsto> F r)\<rparr>) \<and>
    crow m (ct\<lparr>ct_data := (ct_data ct)(d \<mapsto> F r)\<rparr>) = (crow m ct)(row \<mapsto> F r) \<and>
    acc_ok m (ct\<lparr>ct_data := (ct_data ct)(d \<mapsto> F r)\<rparr>) row True ra"
proof -
  obtain d where d: "data_at m ct row = Some d" "ra_data ra = Some d"
    using ra unfolding acc_ok_def by (metis option.exhaust)
  obtain r where r: "ct_data ct d = Some r" "rinv r" using data_at_row [OF ok d(1)] by blast
  have c: "crow m ct row = Some r" using d r by (simp add: crow_alt)
  note F = f [OF c r(2)]
  let ?ct = "ct\<lparr>ct_data := (ct_data ct)(d \<mapsto> F r)\<rparr>"
  have da: "data_at m ?ct = data_at m ct" by (auto simp: data_at_def fun_eq_iff split: option.splits)
  have "crow m ?ct row' = ((crow m ct)(row \<mapsto> F r)) row'" for row'
    using d(1) data_at_inj [OF ok d(1), of row'] by (cases "data_at m ct row'") (auto simp: crow_alt da)
  moreover have "store_ok m rinv ?ct"
    using ok F unfolding store_ok_alt by (simp add: fun_upd_apply) (metis (full_types))
  moreover have "acc_ok m ?ct row True ra" using ra unfolding acc_ok_def da by simp metis
  moreover have "change_data ra f ct = Inr ?ct" using d r F by (simp add: change_data_def row_data_def)
  ultimately show ?thesis using d c by (auto simp: fun_eq_iff)
qed

lemma apply_cached_ok:
  assumes ok: "store_ok m rinv ct" and f: "\<And>r. crow m ct row = Some r \<Longrightarrow> rinv r \<Longrightarrow> f r = Inr (F r) \<and> rinv (F r)"
  shows "\<exists>ct'. apply_cached m row f ct = Inr ct' \<and> store_ok m rinv ct' \<and> cache_frame ct ct' \<and>
    crow m ct' = (crow m ct)(row := map_option F (crow m ct row))"
proof -
  obtain found ra c1 where c1: "ct_Find m row RowAccessor ct = Inr (found, ra, c1)" "cache_frame ct c1"
    "ct_data c1 = ct_data ct" "acc_ok m c1 row found ra" using ct_Find_ok [OF ok] by blast
  have ok1: "store_ok m rinv c1" and cr1: "crow m c1 = crow m ct"
    using cache_frame_store [OF c1(2,3) ok] cache_frame_crow [OF c1(2,3)] by auto
  obtain c2 where c2: "(if found then change_data ra f c1 else Inr c1) = Inr c2" "store_ok m rinv c2" "cache_frame c1 c2"
    "crow m c2 = (crow m ct)(row := map_option F (crow m ct row))" "acc_ok m c2 row found ra"
  proof (cases found)
    case True
    then have "acc_ok m c1 row True ra" using c1(4) by simp
    from change_data_ok [OF ok1 this, of f F] f cr1 True that show ?thesis by (auto simp: cache_frame_def)
  next
    case False
    then have "crow m ct row = None" using c1(4) cr1 by (metis acc_ok_def crow_alt option.simps(4))
    then show ?thesis using False that c1 ok1 cr1 by (auto simp: fun_upd_idem)
  qed
  obtain c3 where c3: "drop_accessor ra c2 = Inr c3" "cache_frame c2 c3" "ct_data c3 = ct_data c2"
    using drop_accessor_ok [OF c2(5)] by blast
  have "apply_cached m row f ct = Inr c3" using c1(1) c2(1) c3(1) by (simp add: apply_cached_def)
  moreover have "store_ok m rinv c3" "crow m c3 = crow m c2"
    using cache_frame_store [OF c3(2,3) c2(2)] cache_frame_crow [OF c3(2,3)] by auto
  moreover have "cache_frame ct c3" using c1(2) c2(3) c3(2) cache_frame_trans by blast
  ultimately show ?thesis using c2(4) by auto
qed

end
