(* ===== verification/Client_Updates.thy ===== *)
theory Client_Updates
imports Client_Proofs
begin

text \<open>
  The update path of the client: increments through the process cache and
  through the thread caches, flushing, clocks.  The locale
  \<open>client_rows\<close> collects what the operations rely on (the hash maps, the row
  class); its lemmas describe each operation, and the run of any sequence of them.
\<close>

section \<open>Invariants\<close>

definition ttpend :: "('r, 'v::zero) thread_table \<Rightarrow> int \<Rightarrow> int \<Rightarrow> 'v" where
  "ttpend tt row = (case map_of (tt_oplog_map tt) row of None \<Rightarrow> (\<lambda>_. 0) | Some l \<Rightarrow> rol_val l)"

definition thr_sum :: "('pm, 'om, 'im, 'r, 'v::ab_group_add) client_table \<Rightarrow> int \<Rightarrow> int \<Rightarrow> 'v" where
  "thr_sum ct row c = (\<Sum>(tid, tt) \<leftarrow> ct_thread_cache ct. ttpend tt row c)"

definition tt_ok where
  "tt_ok g rinv col tt \<longleftrightarrow> length (tt_oplog_index tt) = nat (num_bg_threads g) \<and> amap_ok (tt_oplog_map tt) \<and>
     (\<forall>(row, l) \<in> set (tt_oplog_map tt). 0 \<le> row \<and> rol_ok l \<and> (\<forall>c \<in> set (keys (rol_oplogs l)). col c)) \<and>
     (\<forall>(row, r) \<in> set (tt_row_storage tt). rinv r)"

text \<open>A row with pending updates is in the index of the table or of a thread.\<close>

definition row_indexed where
  "row_indexed m g ct row \<longleftrightarrow>
     ck_find (cm_index m) (ct_oplog_index ct ! bg_part g row) row \<noteq> None \<or>
     (\<exists>(tid, tt) \<in> set (ct_thread_cache ct). row \<in> set (tt_oplog_index tt ! bg_part g row))"

definition ct_ok where
  "ct_ok m oinv iinv g ops rinv col ct \<longleftrightarrow> ct_sample ct = ops \<and> oplog_ok m oinv g ct \<and> store_ok m rinv ct \<and>
     length (ct_oplog_index ct) = nat (num_bg_threads g) \<and> (\<forall>x \<in> set (ct_oplog_index ct). iinv x) \<and>
     amap_ok (ct_thread_cache ct) \<and> (\<forall>(tid, tt) \<in> set (ct_thread_cache ct). tt_ok g rinv col tt) \<and>
     (\<forall>row \<ge> 0. tpend m g ct row \<noteq> (\<lambda>_. 0) \<longrightarrow> row_indexed m g ct row)"

text \<open>The values of a cached row, and what is left of them without the pending updates.\<close>

definition cval where
  "cval m rval ct row = map_option rval (crow m ct row)"

definition base where
  "base m g rval ct row = map_option (\<lambda>f c. f c - tpend m g ct row c) (cval m rval ct row)"

lemma sum_list_update:
  fixes f :: "'a \<Rightarrow> 'v::ab_group_add"
  shows "amap_ok m \<Longrightarrow> map_of m k = Some x \<Longrightarrow>
   (\<Sum>(k', y) \<leftarrow> AList.update k x' m. f y) = (\<Sum>(k', y) \<leftarrow> m. f y) - f x + f x'"
proof (induction m)
  case (Cons p m)
  have d: "amap_ok m" using Cons.prems(1) by (cases p) (auto simp: amap_ok_def)
  show ?case
  proof (cases "fst p = k")
    case True
    then show ?thesis using Cons.prems(2) by (cases p) (simp add: algebra_simps)
  next
    case False
    then show ?thesis using Cons.IH [OF d] Cons.prems(2) by (cases p) (simp add: algebra_simps)
  qed
qed simp

lemma set_update_amap: "amap_ok m \<Longrightarrow> set (AList.update k x m) = insert (k, x) {p \<in> set m. fst p \<noteq> k}"
proof (induction m)
  case (Cons p m)
  have d: "amap_ok m" "fst p \<notin> fst ` set m" using Cons.prems by (cases p; auto simp: amap_ok_def)+
  show ?case
  proof (cases "fst p = k")
    case True
    have "fst q \<noteq> k" if "q \<in> set m" for q using d(2) True that by (metis image_eqI)
    then have e: "{q \<in> set (p # m). fst q \<noteq> k} = set m" using True by auto
    obtain v where "p = (k, v)" using True by (cases p) simp
    then show ?thesis unfolding e by simp
  next
    case False
    then show ?thesis using Cons.IH [OF d(1)] by (cases p) auto
  qed
qed simp

lemma set_update_subset: "set (AList.update k v m) \<subseteq> insert (k, v) (set m)"
  by (induction m) auto

lemma update_new: "map_of m k = None \<Longrightarrow> AList.update k v m = m @ [(k, v)]"
  by (induction m) (auto split: if_splits)

lemma amap_ok_update: "amap_ok m \<Longrightarrow> amap_ok (AList.update k x m)"
  by (simp add: amap_ok_def distinct_update)

text \<open>Replacing a thread cache.\<close>

lemma set_cache_sum:
  fixes ct :: "('pm, 'om, 'im, 'r, 'v::ab_group_add) client_table"
  assumes "amap_ok (ct_thread_cache ct)" "map_of (ct_thread_cache ct) tid = Some tt"
  shows "thr_sum (set_cache tid tt' ct) row c = thr_sum ct row c - ttpend tt row c + ttpend tt' row c"
  using sum_list_update [OF assms, of "\<lambda>tt. ttpend tt row c" tt'] by (simp add: thr_sum_def set_cache_def)

lemma row_indexed_set_cache:
  assumes "amap_ok (ct_thread_cache ct)" "map_of (ct_thread_cache ct) tid = Some tt"
    and "set (tt_oplog_index tt ! bg_part g row) \<subseteq> set (tt_oplog_index tt' ! bg_part g row)" "row_indexed m g ct row"
  shows "row_indexed m g (set_cache tid tt' ct) row"
proof -
  have u: "set (ct_thread_cache (set_cache tid tt' ct)) = insert (tid, tt') {p \<in> set (ct_thread_cache ct). fst p \<noteq> tid}"
    using set_update_amap [OF assms(1)] by (simp add: set_cache_def)
  have "\<exists>(i, x) \<in> set (ct_thread_cache (set_cache tid tt' ct)). row \<in> set (tt_oplog_index x ! bg_part g row)"
    if "(i, x) \<in> set (ct_thread_cache ct)" "row \<in> set (tt_oplog_index x ! bg_part g row)" for i x
  proof (cases "i = tid")
    case True
    then have "x = tt" using that(1) assms(1,2) by (metis amap_ok_def map_of_is_SomeI option.inject)
    then show ?thesis using that assms(3) u by auto
  qed (use that u in auto)
  then show ?thesis using assms(4) unfolding row_indexed_def by (auto simp: set_cache_def)
qed

lemma set_cache_frame [simp]:
  "ct_oplog (set_cache tid tt ct) = ct_oplog ct" "ct_storage (set_cache tid tt ct) = ct_storage ct"
  "ct_data (set_cache tid tt ct) = ct_data ct" "ct_sample (set_cache tid tt ct) = ct_sample ct"
  "ct_oplog_index (set_cache tid tt ct) = ct_oplog_index ct"
  "tpend m g (set_cache tid tt ct) = tpend m g ct" "crow m (set_cache tid tt ct) = crow m ct"
  "oplog_ok m oinv g (set_cache tid tt ct) = oplog_ok m oinv g ct"
  "store_ok m rinv (set_cache tid tt ct) = store_ok m rinv ct"
  by (simp_all add: set_cache_def tpend_def crow_def oplog_ok_def store_ok_def fun_eq_iff split: option.split)

lemma index_row_ok:
  assumes "length (tt_oplog_index tt) = nat (num_bg_threads g)" "0 < num_bg_threads g"
  shows "\<exists>tt'. index_row (int (bg_part g row)) row tt = Inr tt' \<and> tt_oplog_map tt' = tt_oplog_map tt \<and>
    tt_row_storage tt' = tt_row_storage tt \<and> length (tt_oplog_index tt') = length (tt_oplog_index tt) \<and>
    row \<in> set (tt_oplog_index tt' ! bg_part g row) \<and>
    (\<forall>i. set (tt_oplog_index tt ! i) \<subseteq> set (tt_oplog_index tt' ! i))"
  using assms bg_part_less [OF assms(2), of row]
  by (auto simp: index_row_def nth_list_update)

text \<open>A well-formed row with the columns \<open>col\<close>.\<close>

definition col_inv :: "('r \<Rightarrow> bool) \<Rightarrow> ('r \<Rightarrow> int \<Rightarrow> bool) \<Rightarrow> (int \<Rightarrow> bool) \<Rightarrow> 'r \<Rightarrow> bool" where
  "col_inv rinv0 rcol col r \<longleftrightarrow> rinv0 r \<and> rcol r = col"

context additive_row
begin

text \<open>Updates gathered in a row oplog, and a row oplog applied to a row.\<close>

lemma add_update_ok:
  assumes "rol_ok l"
  shows "rol_ok (add_update ops (c, d) l) \<and> rol_val (add_update ops (c, d) l) = (\<lambda>c'. rol_val l c' + upd_sum [(c, d)] c') \<and>
    set (keys (rol_oplogs (add_update ops (c, d) l))) \<subseteq> insert c (set (keys (rol_oplogs l)))"
proof -
  obtain u l' where fc: "RowOpLog_FindCreate (ro_InitUpdate ops) c l = (u, l')" by force
  note st = FindCreate_store [OF assms fc, of "u + d"]
  have e: "add_update ops (c, d) l = rol_store c (u + d) l'" by (simp add: add_update_def fc add_updates)
  have u: "u = rol_val l c" using st by (simp add: rol_val_def zero_update split: option.splits)
  have "set (keys (rol_oplogs l')) \<subseteq> insert c (set (keys (rol_oplogs l)))"
    using fc by (auto simp: RowOpLog_FindCreate_def split: option.splits simp del: set_map)
  then have "set (keys (rol_oplogs (rol_store c (u + d) l'))) \<subseteq> insert c (set (keys (rol_oplogs l)))"
    unfolding rol_store_def by (simp del: set_map)
  then show ?thesis using st u by (auto simp: e fun_eq_iff)
qed

lemma add_updates_ok:
  assumes "rol_ok l"
  shows "rol_ok (fold (add_update ops) us l) \<and> rol_val (fold (add_update ops) us l) = (\<lambda>c. rol_val l c + upd_sum us c) \<and>
    set (keys (rol_oplogs (fold (add_update ops) us l))) \<subseteq> fst ` set us \<union> set (keys (rol_oplogs l))"
  using assms
proof (induction us arbitrary: l)
  case (Cons cu us)
  obtain c d where cu: "cu = (c, d)" by force
  note a = add_update_ok [OF Cons.prems, of c d]
  then have r: "rol_ok (add_update ops (c, d) l)" by blast
  from Cons.IH [OF r] a show ?case unfolding cu by (auto simp: fun_eq_iff algebra_simps simp del: set_map)
qed simp

lemma incs_ok:
  assumes "col_inv rinv rcol col r" "\<forall>p \<in> set us. col (fst p)"
  shows "\<exists>r'. foldM (\<lambda>r (c, u). ro_ApplyInc ops c u r) r us = Inr r' \<and> col_inv rinv rcol col r' \<and> rval r' = (\<lambda>c. rval r c + upd_sum us c)"
  using assms
proof (induction us arbitrary: r)
  case (Cons cu us)
  obtain c u where cu: "cu = (c, u)" by force
  obtain r1 where r1: "ro_ApplyInc ops c u r = Inr r1" "col_inv rinv rcol col r1" "rval r1 = (rval r)(c := rval r c + u)"
    using inc_ok [of r c u] Cons.prems cu by (auto simp: col_inv_def)
  from Cons.IH [OF r1(2)] Cons.prems(2) r1 cu show ?case by (auto simp: fun_eq_iff algebra_simps)
qed auto

end

locale client_rows = additive_row ops rinv0 rval rcol rwire + oplog: oplog_store "cm_oplog m" oinv ops +
    index: cuckoo_map "cm_index m" iinv
  for ops :: "('r, 'v::ab_group_add) row_ops" and rinv0 rval rcol rwire
    and m :: "('pm, 'om, 'im) cl_maps" and oinv iinv +
  fixes g :: global_context and col :: "int \<Rightarrow> bool"
  assumes bg: "0 < num_bg_threads g"
begin

abbreviation "rinv \<equiv> col_inv rinv0 rcol col"

lemma inc_total: "rinv r \<Longrightarrow> col c \<Longrightarrow> \<exists>r'. ro_ApplyInc ops c d r = Inr r' \<and> rinv r' \<and> rval r' = (rval r)(c := rval r c + d)"
  using inc_ok [of r c d] by (auto simp: col_inv_def)

lemma batch_total: "rinv r \<Longrightarrow> \<forall>p \<in> set us. col (fst p) \<Longrightarrow>
    \<exists>r'. ro_ApplyBatchInc ops us r = Inr r' \<and> rinv r' \<and> rval r' = (\<lambda>c. rval r c + upd_sum us c)"
  using batch_ok [of r us] by (auto simp: col_inv_def)

abbreviation "ok \<equiv> ct_ok m oinv iinv g ops rinv col"

text \<open>One partition of the process oplog changes.\<close>

lemma oplog_change:
  fixes ct :: "('pm, 'om, 'im, 'r, 'v) client_table"
  assumes "oplog_ok m oinv g ct" "part_ok (cm_oplog m) oinv p"
    and "pend (cm_oplog m) p = (pend (cm_oplog m) (to_partitions (ct_oplog ct) ! bg_part g row))(row := X)"
    and "ct' = ct\<lparr>ct_oplog := (ct_oplog ct)\<lparr>to_partitions := (to_partitions (ct_oplog ct))[bg_part g row := p]\<rparr>\<rparr>"
  shows "oplog_ok m oinv g ct' \<and> tpend m g ct' = (tpend m g ct)(row := X) \<and>
    to_partitions (ct_oplog ct') ! bg_part g row = p"
proof -
  have l: "bg_part g row < length (to_partitions (ct_oplog ct))" using assms(1) bg_part_less [OF bg] by (simp add: oplog_ok_def)
  have "tpend m g ct' row' = ((tpend m g ct)(row := X)) row'" for row'
    using l assms(3) by (auto simp: tpend_def assms(4) nth_list_update fun_eq_iff)
  then show ?thesis using oplog_ok_upd [OF assms(1,2)] assms(4) l by (auto simp: fun_eq_iff)
qed

lemma find_insert_ok:
  fixes ct :: "('pm, 'om, 'im, 'r, 'v) client_table"
  assumes "oplog_ok m oinv g ct" "0 \<le> row"
  shows "\<exists>a t. oplog_find_insert m g row ct = Inr (a, ct\<lparr>ct_oplog := t\<rparr>) \<and> oplog_ok m oinv g (ct\<lparr>ct_oplog := t\<rparr>) \<and>
    tpend m g (ct\<lparr>ct_oplog := t\<rparr>) = tpend m g ct \<and>
    ck_find (cm_oplog m) (op_map (to_partitions t ! bg_part g row)) row = Some a"
proof -
  let ?p = "to_partitions (ct_oplog ct) ! bg_part g row"
  obtain a p where p: "FindInsertOpLog (cm_oplog m) row ?p = (a, p)" by force
  note f = oplog.FindInsert_ok [OF oplog_ok_nth [OF assms(1) bg] p]
  let ?t = "(ct_oplog ct)\<lparr>to_partitions := (to_partitions (ct_oplog ct))[bg_part g row := p]\<rparr>"
  have len: "length (to_partitions (ct_oplog ct)) = nat (num_bg_threads g)" using assms(1) by (simp add: oplog_ok_def)
  have "oplog_find_insert m g row ct = Inr (a, ct\<lparr>ct_oplog := ?t\<rparr>)"
    using p by (simp add: oplog_find_insert_def table_FindInsertOpLog_def on_partition_eq [OF assms(2) bg len])
  moreover have "oplog_ok m oinv g (ct\<lparr>ct_oplog := ?t\<rparr>) \<and> tpend m g (ct\<lparr>ct_oplog := ?t\<rparr>) = (tpend m g ct)(row := tpend m g ct row) \<and>
      to_partitions ?t ! bg_part g row = p"
    using oplog_change [OF assms(1), of p row "tpend m g ct row"] f by (simp add: tpend_def)
  ultimately show ?thesis using f by auto
qed

lemma oplog_add_ok:
  fixes ct :: "('pm, 'om, 'im, 'r, 'v) client_table"
  assumes "oplog_ok m oinv g ct" "0 \<le> row" "ct_sample ct = ops"
    and "ck_find (cm_oplog m) (op_map (to_partitions (ct_oplog ct) ! bg_part g row)) row = Some a"
  shows "\<exists>t. oplog_add g row a (c, d) ct = Inr (ct\<lparr>ct_oplog := t\<rparr>) \<and> oplog_ok m oinv g (ct\<lparr>ct_oplog := t\<rparr>) \<and>
    tpend m g (ct\<lparr>ct_oplog := t\<rparr>) = (tpend m g ct)(row := (tpend m g ct row)(c := tpend m g ct row c + d)) \<and>
    ck_find (cm_oplog m) (op_map (to_partitions t ! bg_part g row)) row = Some a"
proof -
  let ?p = "to_partitions (ct_oplog ct) ! bg_part g row"
  obtain p where p: "add_to_oplog ops a ?p (c, d) = Inr p" "part_ok (cm_oplog m) oinv p" "op_map p = op_map ?p"
    "pend (cm_oplog m) p = (pend (cm_oplog m) ?p)(row := (pend (cm_oplog m) ?p row)(c := pend (cm_oplog m) ?p row c + d))"
    using oplog.add_to_oplog_ok [OF oplog_ok_nth [OF assms(1) bg] assms(4)] by blast
  let ?t = "(ct_oplog ct)\<lparr>to_partitions := (to_partitions (ct_oplog ct))[bg_part g row := p]\<rparr>"
  have len: "length (to_partitions (ct_oplog ct)) = nat (num_bg_threads g)" using assms(1) by (simp add: oplog_ok_def)
  have "oplog_add g row a (c, d) ct = Inr (ct\<lparr>ct_oplog := ?t\<rparr>)"
    using p(1) assms(3) by (simp add: oplog_add_def on_partition_eq [OF assms(2) bg len])
  then show ?thesis
    using oplog_change [OF assms(1) p(2,4) refl] p(3) assms(4) by (intro exI [of _ ?t]) (simp add: tpend_def)
qed

text \<open>How the invariant moves along a step that touches one row and one thread.\<close>

lemma ok_step:
  fixes ct ct' :: "('pm, 'om, 'im, 'r, 'v) client_table"
  assumes ok: "ok ct" and tid: "map_of (ct_thread_cache ct) tid = Some tt" and tt': "tt_ok g rinv col tt'"
    and s: "ct_sample ct' = ops" "oplog_ok m oinv g ct'" "store_ok m rinv ct'"
      "ct_oplog_index ct' = ct_oplog_index ct" "ct_thread_cache ct' = AList.update tid tt' (ct_thread_cache ct)"
    and sub: "\<forall>i. set (tt_oplog_index tt ! i) \<subseteq> set (tt_oplog_index tt' ! i)"
    and idx: "\<forall>row \<ge> 0. tpend m g ct' row \<noteq> tpend m g ct row \<longrightarrow> row \<in> set (tt_oplog_index tt' ! bg_part g row)"
  shows "ok ct'"
proof -
  have a: "amap_ok (ct_thread_cache ct)" using ok by (simp add: ct_ok_def)
  have th: "set (ct_thread_cache ct') = insert (tid, tt') {p \<in> set (ct_thread_cache ct). fst p \<noteq> tid}"
    unfolding s(5) by (rule set_update_amap [OF a])
  have "row_indexed m g ct' row" if "0 \<le> row" "tpend m g ct' row \<noteq> (\<lambda>_. 0)" for row
  proof (cases "tpend m g ct' row = tpend m g ct row")
    case True
    then have "row_indexed m g ct row" using ok that by (simp add: ct_ok_def)
    with row_indexed_set_cache [OF a tid, of g row tt'] sub have "row_indexed m g (set_cache tid tt' ct) row" by simp
    then show ?thesis by (simp add: row_indexed_def s(4,5) set_cache_def)
  next
    case False
    then show ?thesis using idx that th by (auto simp: row_indexed_def)
  qed
  moreover have "\<forall>(i, x) \<in> set (ct_thread_cache ct'). tt_ok g rinv col x" using ok tt' th by (auto simp: ct_ok_def)
  moreover have "amap_ok (ct_thread_cache ct')" using a s(5) by (simp add: amap_ok_update)
  ultimately show ?thesis using ok s by (simp add: ct_ok_def)
qed

lemma ctl_index_ok:
  fixes ct :: "('pm, 'om, 'im, 'r, 'v) client_table"
  assumes "ok ct" "map_of (ct_thread_cache ct) tid = Some tt" "0 \<le> row"
  shows "\<exists>tt'. ctl_index g tid row ct = Inr (set_cache tid tt' ct) \<and> tt_ok g rinv col tt' \<and> ttpend tt' = ttpend tt \<and>
    row \<in> set (tt_oplog_index tt' ! bg_part g row) \<and> (\<forall>i. set (tt_oplog_index tt ! i) \<subseteq> set (tt_oplog_index tt' ! i))"
proof -
  have "(tid, tt) \<in> set (ct_thread_cache ct)" using assms(2) by (rule map_of_SomeD)
  then have t: "tt_ok g rinv col tt" using assms(1) by (auto simp: ct_ok_def)
  then have "length (tt_oplog_index tt) = nat (num_bg_threads g)" by (simp add: tt_ok_def)
  from index_row_ok [OF this bg, of row] obtain tt' where tt': "index_row (int (bg_part g row)) row tt = Inr tt'"
    "tt_oplog_map tt' = tt_oplog_map tt" "tt_row_storage tt' = tt_row_storage tt"
    "length (tt_oplog_index tt') = length (tt_oplog_index tt)" "row \<in> set (tt_oplog_index tt' ! bg_part g row)"
    "\<forall>i. set (tt_oplog_index tt ! i) \<subseteq> set (tt_oplog_index tt' ! i)" by blast
  have "ctl_index g tid row ct = Inr (set_cache tid tt' ct)"
    using assms tt'(1) by (simp add: ctl_index_def thread_cache_def IndexUpdate_def GetBgPartitionNum_eq [OF assms(3) bg])
  moreover have "tt_ok g rinv col tt'" using t tt' by (simp add: tt_ok_def)
  moreover have "ttpend tt' = ttpend tt" using tt'(2) by (simp add: ttpend_def fun_eq_iff)
  ultimately show ?thesis using tt'(5,6) by blast
qed

text \<open>What an update of a row by a thread does, for the single and the batch operation.\<close>

definition updated where
  "updated ct ct' row us \<longleftrightarrow> ok ct' \<and> keys (ct_thread_cache ct') = keys (ct_thread_cache ct) \<and>
     (\<forall>c. tpend m g ct' row c + thr_sum ct' row c = tpend m g ct row c + thr_sum ct row c + upd_sum us c) \<and>
     (\<forall>row' c. row' \<noteq> row \<longrightarrow> tpend m g ct' row' c + thr_sum ct' row' c = tpend m g ct row' c + thr_sum ct row' c) \<and>
     (\<forall>row'. base m g rval ct' row' = base m g rval ct row')"

lemma keys_update_mem: "map_of l k = Some x \<Longrightarrow> keys (AList.update k y l) = keys l"
proof (induction l)
  case (Cons p l)
  then show ?case by (cases p) auto
qed simp

lemma process_update_ok:
  fixes ct ct1 ct2 ct3 :: "('pm, 'om, 'im, 'r, 'v) client_table"
  assumes ok: "ok ct" and tid: "map_of (ct_thread_cache ct) tid = Some tt" and row: "0 \<le> row"
    and tt': "tt_ok g rinv col tt'" "ttpend tt' = ttpend tt" "row \<in> set (tt_oplog_index tt' ! bg_part g row)"
      "\<forall>i. set (tt_oplog_index tt ! i) \<subseteq> set (tt_oplog_index tt' ! i)"
    and c2: "oplog_ok m oinv g ct2" "ct2 = (set_cache tid tt' ct)\<lparr>ct_oplog := t\<rparr>"
      "tpend m g ct2 = (tpend m g ct)(row := (\<lambda>c. tpend m g ct row c + upd_sum us c))"
    and c3: "store_ok m rinv ct3" "cache_frame ct2 ct3" "crow m ct3 = (crow m ct2)(row := map_option F (crow m ct2 row))"
    and F: "\<And>r. crow m ct row = Some r \<Longrightarrow> rval (F r) = (\<lambda>c. rval r c + upd_sum us c)"
  shows "updated ct ct3 row us"
proof -
  have fr: "ct_sample ct3 = ops" "ct_oplog ct3 = ct_oplog ct2" "ct_oplog_index ct3 = ct_oplog_index ct"
    "ct_thread_cache ct3 = AList.update tid tt' (ct_thread_cache ct)"
    using c3(2) ok by (simp_all add: cache_frame_def c2(2) set_cache_def ct_ok_def)
  have tp: "tpend m g ct3 = (tpend m g ct)(row := (\<lambda>c. tpend m g ct row c + upd_sum us c))"
    using c2(3) by (simp add: tpend_def fr(2) fun_eq_iff)
  have oo: "oplog_ok m oinv g ct3" using c2(1) by (simp add: oplog_ok_def fr(2))
  have cr: "crow m ct2 = crow m ct" by (auto simp: c2(2) crow_def set_cache_def fun_eq_iff split: option.split)
  have a: "amap_ok (ct_thread_cache ct)" using ok by (simp add: ct_ok_def)
  have "ok ct3"
    by (rule ok_step [OF ok tid tt'(1) fr(1) oo c3(1) fr(3,4) tt'(4)]) (use tp tt'(3) in auto)
  moreover have "thr_sum ct3 r c = thr_sum ct r c" for r c
    using set_cache_sum [OF a tid, of tt' r c] tt'(2) by (simp add: thr_sum_def fr(4) set_cache_def)
  moreover have "base m g rval ct3 r = base m g rval ct r" for r
    using F by (cases "crow m ct r") (auto simp: base_def cval_def c3(3) cr tp)
  moreover have "keys (ct_thread_cache ct3) = keys (ct_thread_cache ct)" unfolding fr(4) by (rule keys_update_mem [OF tid])
  ultimately show ?thesis by (simp add: updated_def tp algebra_simps)
qed

lemma oplog_adds_ok:
  fixes ct :: "('pm, 'om, 'im, 'r, 'v) client_table"
  assumes "oplog_ok m oinv g ct" "0 \<le> row" "ct_sample ct = ops"
    and "ck_find (cm_oplog m) (op_map (to_partitions (ct_oplog ct) ! bg_part g row)) row = Some a"
  shows "\<exists>t. foldM (\<lambda>ct cu. oplog_add g row a cu ct) ct us = Inr (ct\<lparr>ct_oplog := t\<rparr>) \<and> oplog_ok m oinv g (ct\<lparr>ct_oplog := t\<rparr>) \<and>
    tpend m g (ct\<lparr>ct_oplog := t\<rparr>) = (tpend m g ct)(row := (\<lambda>c. tpend m g ct row c + upd_sum us c))"
  using assms
proof (induction us arbitrary: ct)
  case (Cons cu us)
  obtain c d where cu: "cu = (c, d)" by force
  obtain t where t: "oplog_add g row a cu ct = Inr (ct\<lparr>ct_oplog := t\<rparr>)" "oplog_ok m oinv g (ct\<lparr>ct_oplog := t\<rparr>)"
    "tpend m g (ct\<lparr>ct_oplog := t\<rparr>) = (tpend m g ct)(row := (tpend m g ct row)(c := tpend m g ct row c + d))"
    "ck_find (cm_oplog m) (op_map (to_partitions t ! bg_part g row)) row = Some a"
    using oplog_add_ok [OF Cons.prems, of c d] cu by blast
  obtain t' where t': "foldM (\<lambda>ct cu. oplog_add g row a cu ct) (ct\<lparr>ct_oplog := t\<rparr>) us = Inr (ct\<lparr>ct_oplog := t'\<rparr>)"
    "oplog_ok m oinv g (ct\<lparr>ct_oplog := t'\<rparr>)"
    "tpend m g (ct\<lparr>ct_oplog := t'\<rparr>) = (tpend m g (ct\<lparr>ct_oplog := t\<rparr>))(row := (\<lambda>c. tpend m g (ct\<lparr>ct_oplog := t\<rparr>) row c + upd_sum us c))"
  proof -
    have "ct_sample (ct\<lparr>ct_oplog := t\<rparr>) = ops"
      "ck_find (cm_oplog m) (op_map (to_partitions (ct_oplog (ct\<lparr>ct_oplog := t\<rparr>)) ! bg_part g row)) row = Some a"
      using Cons.prems(3) t(4) by simp_all
    from Cons.IH [OF t(2) Cons.prems(2) this] show ?thesis using that unfolding client_table.update_convs by (simp del: fun_upd_apply) blast
  qed
  show ?case using t t' cu by (intro exI [of _ t']) (auto simp: fun_eq_iff algebra_simps)
next
  case Nil
  then show ?case by (intro exI [of _ "ct_oplog ct"]) simp
qed

text \<open>The common shape of \<open>Inc\<close> and \<open>BatchInc\<close>.\<close>

lemma process_inc_ok:
  fixes ct :: "('pm, 'om, 'im, 'r, 'v) client_table"
  assumes ok: "ok ct" and tid: "map_of (ct_thread_cache ct) tid = Some tt" and row: "0 \<le> row"
    and f: "\<And>r. rinv r \<Longrightarrow> \<exists>r'. f ops r = Inr r' \<and> rinv r' \<and> rval r' = (\<lambda>c. rval r c + upd_sum us c)"
  shows "\<exists>ct'. rbind (ctl_index g tid row ct) (\<lambda>ct. rbind (oplog_find_insert m g row ct) (\<lambda>(a, ct).
      rbind (foldM (\<lambda>ct cu. oplog_add g row a cu ct) ct us) (\<lambda>ct. apply_cached m row (f (ct_sample ct)) ct))) = Inr ct' \<and> updated ct ct' row us"
proof -
  obtain tt' where t: "ctl_index g tid row ct = Inr (set_cache tid tt' ct)" "tt_ok g rinv col tt'" "ttpend tt' = ttpend tt"
    "row \<in> set (tt_oplog_index tt' ! bg_part g row)" "\<forall>i. set (tt_oplog_index tt ! i) \<subseteq> set (tt_oplog_index tt' ! i)"
    using ctl_index_ok [OF ok tid row] by blast
  let ?c = "set_cache tid tt' ct"
  have okc: "oplog_ok m oinv g ?c" "ct_sample ?c = ops" "store_ok m rinv ?c" using ok by (simp_all add: ct_ok_def)
  obtain a t1 where t1: "oplog_find_insert m g row ?c = Inr (a, ?c\<lparr>ct_oplog := t1\<rparr>)" "oplog_ok m oinv g (?c\<lparr>ct_oplog := t1\<rparr>)"
    "tpend m g (?c\<lparr>ct_oplog := t1\<rparr>) = tpend m g ?c" "ck_find (cm_oplog m) (op_map (to_partitions t1 ! bg_part g row)) row = Some a"
    using find_insert_ok [OF okc(1) row] by blast
  obtain t2 where t2: "foldM (\<lambda>ct cu. oplog_add g row a cu ct) (?c\<lparr>ct_oplog := t1\<rparr>) us = Inr (?c\<lparr>ct_oplog := t2\<rparr>)"
    "oplog_ok m oinv g (?c\<lparr>ct_oplog := t2\<rparr>)"
    "tpend m g (?c\<lparr>ct_oplog := t2\<rparr>) = (tpend m g ct)(row := (\<lambda>c. tpend m g ct row c + upd_sum us c))"
    using oplog_adds_ok [OF t1(2) row, of a us] okc(2) t1(3,4) by auto
  have so: "store_ok m rinv (?c\<lparr>ct_oplog := t2\<rparr>)" using okc(3) by (simp add: store_ok_def)
  have F: "f ops r = Inr (projr (f ops r)) \<and> rinv (projr (f ops r)) \<and> rval (projr (f ops r)) = (\<lambda>c. rval r c + upd_sum us c)" if "rinv r" for r
    using f [OF that] by auto
  obtain ct' where ct': "apply_cached m row (f ops) (?c\<lparr>ct_oplog := t2\<rparr>) = Inr ct'" "store_ok m rinv ct'"
    "cache_frame (?c\<lparr>ct_oplog := t2\<rparr>) ct'"
    "crow m ct' = (crow m (?c\<lparr>ct_oplog := t2\<rparr>))(row := map_option (\<lambda>r. projr (f ops r)) (crow m (?c\<lparr>ct_oplog := t2\<rparr>) row))"
    using apply_cached_ok [OF so, where row = row and f = "f ops" and F = "\<lambda>r. projr (f ops r)"] F by blast
  have iv: "rinv r" if "crow m ct row = Some r" for r
    using that ok data_at_row [of m rinv ct row] by (auto simp: ct_ok_def crow_alt split: option.splits)
  have "updated ct ct' row us"
    by (rule process_update_ok [OF ok tid row t(2-5) t2(2) refl t2(3) ct'(2-4)]) (use F iv in blast)
  then show ?thesis using t(1) t1(1) t2(1) ct'(1) okc(2) by simp
qed

lemma ctl_BatchInc_ok:
  fixes ct :: "('pm, 'om, 'im, 'r, 'v) client_table"
  assumes "ok ct" "map_of (ct_thread_cache ct) tid = Some tt" "0 \<le> row" "\<forall>p \<in> set us. col (fst p)"
  shows "\<exists>ct'. ctl_BatchInc m g tid row us ct = Inr ct' \<and> updated ct ct' row us"
  unfolding ctl_BatchInc_def
  by (rule process_inc_ok [OF assms(1-3), where f = "\<lambda>ops. ro_ApplyBatchInc ops us"]) (use batch_total assms(4) in blast)

lemma ctl_Inc_ok:
  fixes ct :: "('pm, 'om, 'im, 'r, 'v) client_table"
  assumes "ok ct" "map_of (ct_thread_cache ct) tid = Some tt" "0 \<le> row" "col c"
  shows "\<exists>ct'. ctl_Inc m g tid row c d ct = Inr ct' \<and> updated ct ct' row [(c, d)]"
proof -
  have "rval r' = (\<lambda>c'. rval r c' + upd_sum [(c, d)] c')" if "rval r' = (rval r)(c := rval r c + d)" for r r'
    using that by (simp add: fun_eq_iff)
  then have "\<exists>r'. ro_ApplyInc ops c d r = Inr r' \<and> rinv r' \<and> rval r' = (\<lambda>c'. rval r c' + upd_sum [(c, d)] c')" if "rinv r" for r
    using inc_total [OF that assms(4)] by blast
  then have "\<exists>ct'. rbind (ctl_index g tid row ct) (\<lambda>ct. rbind (oplog_find_insert m g row ct) (\<lambda>(a, ct).
      rbind (foldM (\<lambda>ct cu. oplog_add g row a cu ct) ct [(c, d)]) (\<lambda>ct. apply_cached m row (ro_ApplyInc (ct_sample ct) c d) ct))) =
      Inr ct' \<and> updated ct ct' row [(c, d)]"
    by (intro process_inc_ok [OF assms(1-3), where f = "\<lambda>ops. ro_ApplyInc ops c d"])
  then show ?thesis by (simp add: ctl_Inc_def rbind_assoc)
qed

text \<open>Updates in the cache of a thread.\<close>

lemma thread_update:
  fixes tt :: "('r, 'v) thread_table"
  assumes tt: "tt_ok g rinv col tt" "0 \<le> row" "\<forall>p \<in> set us. col (fst p)"
    and f: "\<And>r. rinv r \<Longrightarrow> \<exists>r'. f r = Inr r' \<and> rinv r'"
  shows "\<exists>tt'. tt_apply row f (tt\<lparr>tt_oplog_map := AList.update row (fold (add_update ops) us (tt_oplog ops row tt)) (tt_oplog_map tt)\<rparr>) =
      Inr tt' \<and> tt_ok g rinv col tt' \<and> tt_oplog_index tt' = tt_oplog_index tt \<and>
      ttpend tt' = (ttpend tt)(row := (\<lambda>c. ttpend tt row c + upd_sum us c))"
proof -
  let ?l = "tt_oplog ops row tt"
  have am: "amap_ok (tt_oplog_map tt)" using tt(1) by (simp add: tt_ok_def)
  have old: "0 \<le> r \<and> rol_ok l \<and> (\<forall>c \<in> set (keys (rol_oplogs l)). col c)" if "map_of (tt_oplog_map tt) r = Some l" for r l
    using map_of_SomeD [OF that] tt(1) by (auto simp: tt_ok_def)
  have l: "rol_ok ?l" "\<forall>c \<in> set (keys (rol_oplogs ?l)). col c" "rol_val ?l = ttpend tt row"
    using old by (auto simp: tt_oplog_def ttpend_def RowOpLog_def rol_ok_def rol_val_def fun_eq_iff split: option.split)
  note a = add_updates_ok [OF l(1), of us]
  let ?tt = "tt\<lparr>tt_oplog_map := AList.update row (fold (add_update ops) us ?l) (tt_oplog_map tt)\<rparr>"
  have ok1: "tt_ok g rinv col ?tt"
    using tt a l(2) set_update_amap [OF am, of row "fold (add_update ops) us ?l"] unfolding tt_ok_def
    by (auto simp: amap_ok_update simp del: set_map)
  have pe: "ttpend ?tt = (ttpend tt)(row := (\<lambda>c. ttpend tt row c + upd_sum us c))"
    using a l(3) by (auto simp: ttpend_def update_conv' fun_eq_iff)
  show ?thesis
  proof (cases "map_of (tt_row_storage tt) row")
    case None
    then show ?thesis using ok1 pe by (simp add: tt_apply_def)
  next
    case (Some r)
    have "rinv r" using map_of_SomeD [OF Some] tt(1) by (auto simp: tt_ok_def)
    then obtain r' where r': "f r = Inr r'" "rinv r'" using f by blast
    let ?tt' = "?tt\<lparr>tt_row_storage := AList.update row r' (tt_row_storage tt)\<rparr>"
    have "(a, b) \<in> set (AList.update row r' (tt_row_storage tt)) \<Longrightarrow> rinv b" for a b
      using r'(2) tt(1) set_update_subset [of row r' "tt_row_storage tt"] by (auto simp: tt_ok_def)
    then have "tt_ok g rinv col ?tt'" using ok1 by (auto simp: tt_ok_def)
    moreover have "ttpend ?tt' = ttpend ?tt" by (simp add: ttpend_def fun_eq_iff)
    ultimately show ?thesis using Some r'(1) pe by (simp add: tt_apply_def)
  qed
qed

lemma thread_updated:
  fixes ct :: "('pm, 'om, 'im, 'r, 'v) client_table"
  assumes ok: "ok ct" and tid: "map_of (ct_thread_cache ct) tid = Some tt"
    and tt': "tt_ok g rinv col tt'" "tt_oplog_index tt' = tt_oplog_index tt"
      "ttpend tt' = (ttpend tt)(row := (\<lambda>c. ttpend tt row c + upd_sum us c))"
  shows "updated ct (set_cache tid tt' ct) row us"
proof -
  have a: "amap_ok (ct_thread_cache ct)" using ok by (simp add: ct_ok_def)
  have "ok (set_cache tid tt' ct)"
    by (rule ok_step [OF ok tid tt'(1)]) (use ok tt'(2) in \<open>simp_all add: ct_ok_def\<close>, simp add: set_cache_def)
  moreover have "keys (ct_thread_cache (set_cache tid tt' ct)) = keys (ct_thread_cache ct)"
    using keys_update_mem [OF tid] by (simp add: set_cache_def)
  moreover have "base m g rval (set_cache tid tt' ct) = base m g rval ct"
    by (simp add: base_def cval_def fun_eq_iff)
  moreover have "thr_sum (set_cache tid tt' ct) r c = thr_sum ct r c + (if r = row then upd_sum us c else 0)" for r c
    using set_cache_sum [OF a tid, of tt' r c] tt'(3) by simp
  ultimately show ?thesis by (simp add: updated_def add.assoc)
qed

lemma cache_tt_ok: "ok ct \<Longrightarrow> map_of (ct_thread_cache ct) tid = Some tt \<Longrightarrow> tt_ok g rinv col tt"
  by (auto simp: ct_ok_def dest!: map_of_SomeD)

lemma ctl_ThreadInc_ok:
  fixes ct :: "('pm, 'om, 'im, 'r, 'v) client_table"
  assumes "ok ct" "map_of (ct_thread_cache ct) tid = Some tt" "0 \<le> row" "col c"
  shows "\<exists>ct'. ctl_ThreadInc tid row c d ct = Inr ct' \<and> updated ct ct' row [(c, d)]"
proof -
  have "\<exists>r'. ro_ApplyIncUnsafe ops c d r = Inr r' \<and> rinv r'" if "rinv r" for r
    using inc_total [OF that assms(4), of d] by (auto simp: unsafe_inc)
  with thread_update [OF cache_tt_ok [OF assms(1,2)] assms(3), of "[(c, d)]" "ro_ApplyIncUnsafe ops c d"] assms(4)
  obtain tt' where tt': "tt_Inc ops row c d tt = Inr tt'" "tt_ok g rinv col tt'" "tt_oplog_index tt' = tt_oplog_index tt"
    "ttpend tt' = (ttpend tt)(row := (\<lambda>c'. ttpend tt row c' + upd_sum [(c, d)] c'))"
    by (auto simp: tt_Inc_def)
  have "ctl_ThreadInc tid row c d ct = Inr (set_cache tid tt' ct)"
    using assms(1,2) tt'(1) by (simp add: ctl_ThreadInc_def thread_cache_def ct_ok_def)
  with thread_updated [OF assms(1,2) tt'(2-4)] show ?thesis by blast
qed

lemma ctl_ThreadBatchInc_ok:
  fixes ct :: "('pm, 'om, 'im, 'r, 'v) client_table"
  assumes "ok ct" "map_of (ct_thread_cache ct) tid = Some tt" "0 \<le> row" "\<forall>p \<in> set us. col (fst p)"
  shows "\<exists>ct'. ctl_ThreadBatchInc tid row us ct = Inr ct' \<and> updated ct ct' row us"
proof -
  have "\<exists>r'. ro_ApplyBatchIncUnsafe ops us r = Inr r' \<and> rinv r'" if "rinv r" for r
    using batch_total [OF that assms(4)] by (auto simp: unsafe_batch)
  with thread_update [OF cache_tt_ok [OF assms(1,2)] assms(3,4), of "ro_ApplyBatchIncUnsafe ops us"]
  obtain tt' where tt': "tt_BatchInc ops row us tt = Inr tt'" "tt_ok g rinv col tt'" "tt_oplog_index tt' = tt_oplog_index tt"
    "ttpend tt' = (ttpend tt)(row := (\<lambda>c'. ttpend tt row c' + upd_sum us c'))"
    by (auto simp: tt_BatchInc_def)
  have "ctl_ThreadBatchInc tid row us ct = Inr (set_cache tid tt' ct)"
    using assms(1,2) tt'(1) by (simp add: ctl_ThreadBatchInc_def thread_cache_def ct_ok_def)
  with thread_updated [OF assms(1,2) tt'(2-4)] show ?thesis by blast
qed

text \<open>Flushing a thread cache: the loop over the updates of one row.\<close>

lemma flush_updates_ok:
  fixes ct :: "('pm, 'om, 'im, 'r, 'v) client_table" and tt :: "('r, 'v) thread_table"
  assumes "oplog_ok m oinv g ct" "0 \<le> row" "ct_sample ct = ops" "store_ok m rinv ct" "acc_ok m ct row found ra"
    and "ck_find (cm_oplog m) (op_map (to_partitions (ct_oplog ct) ! bg_part g row)) row = Some a"
    and "length (tt_oplog_index tt) = nat (num_bg_threads g)" "\<forall>p \<in> set es. col (fst p)"
  shows "\<exists>tt' ct'. foldM (flush_update g row (int (bg_part g row)) a found ra) (tt, ct) es = Inr (tt', ct') \<and>
    oplog_ok m oinv g ct' \<and> store_ok m rinv ct' \<and> acc_ok m ct' row found ra \<and> ct_sample ct' = ops \<and>
    ct_thread_cache ct' = ct_thread_cache ct \<and> ct_oplog_index ct' = ct_oplog_index ct \<and>
    tpend m g ct' = (tpend m g ct)(row := (\<lambda>c. tpend m g ct row c + upd_sum es c)) \<and>
    cval m rval ct' = (cval m rval ct)(row := map_option (\<lambda>f c. f c + upd_sum es c) (cval m rval ct row)) \<and>
    tt_oplog_map tt' = tt_oplog_map tt \<and> length (tt_oplog_index tt') = length (tt_oplog_index tt) \<and>
    (es \<noteq> [] \<longrightarrow> row \<in> set (tt_oplog_index tt' ! bg_part g row)) \<and>
    (\<forall>i. set (tt_oplog_index tt ! i) \<subseteq> set (tt_oplog_index tt' ! i))"
  using assms
proof (induction es arbitrary: tt ct)
  case Nil
  then show ?case by (intro exI [of _ tt] exI [of _ ct]) (auto simp: fun_eq_iff option.map_ident)
next
  case (Cons cu es)
  obtain c d where cu: "cu = (c, d)" by force
  have cc: "col c" using Cons.prems(8) cu by simp
  obtain t where t: "oplog_add g row a cu ct = Inr (ct\<lparr>ct_oplog := t\<rparr>)" "oplog_ok m oinv g (ct\<lparr>ct_oplog := t\<rparr>)"
    "tpend m g (ct\<lparr>ct_oplog := t\<rparr>) = (tpend m g ct)(row := (tpend m g ct row)(c := tpend m g ct row c + d))"
    "ck_find (cm_oplog m) (op_map (to_partitions t ! bg_part g row)) row = Some a"
    using oplog_add_ok [OF Cons.prems(1-3,6), of c d] cu by blast
  obtain tt1 where tt1: "index_row (int (bg_part g row)) row tt = Inr tt1" "tt_oplog_map tt1 = tt_oplog_map tt"
    "length (tt_oplog_index tt1) = length (tt_oplog_index tt)" "row \<in> set (tt_oplog_index tt1 ! bg_part g row)"
    "\<forall>i. set (tt_oplog_index tt ! i) \<subseteq> set (tt_oplog_index tt1 ! i)"
    using index_row_ok [OF Cons.prems(7) bg, of row] by blast
  let ?c = "ct\<lparr>ct_oplog := t\<rparr>"
  have fr: "crow m ?c = crow m ct" "data_at m ?c = data_at m ct" "store_ok m rinv ?c"
    using Cons.prems(4) by (auto simp: crow_def data_at_def store_ok_def fun_eq_iff split: option.split)
  have ac: "acc_ok m ?c row found ra" by (rule acc_ok_storage [THEN iffD2, OF _ Cons.prems(5)]) simp
  let ?F = "\<lambda>r. projr (ro_ApplyInc ops c d r)"
  have F: "ro_ApplyInc ops c d r = Inr (?F r) \<and> rinv (?F r) \<and> rval (?F r) = (rval r)(c := rval r c + d)" if "rinv r" for r
    using inc_total [OF that cc, of d] by auto
  obtain ct1 where ct1: "(if found then change_data ra (ro_ApplyInc ops c d) ?c else Inr ?c) = Inr ct1"
    "store_ok m rinv ct1" "acc_ok m ct1 row found ra" "ct_oplog ct1 = t" "ct_thread_cache ct1 = ct_thread_cache ct"
    "ct_oplog_index ct1 = ct_oplog_index ct" "ct_sample ct1 = ops"
    "cval m rval ct1 = (cval m rval ct)(row := map_option (\<lambda>f. f(c := f c + d)) (cval m rval ct row))"
  proof (cases found)
    case True
    then have "acc_ok m ?c row True ra" using ac by simp
    from change_data_ok [OF fr(3) this, of "ro_ApplyInc ops c d" ?F] F obtain x r where
      x: "change_data ra (ro_ApplyInc ops c d) ?c = Inr (?c\<lparr>ct_data := (ct_data ?c)(x \<mapsto> ?F r)\<rparr>)" "crow m ?c row = Some r"
      "store_ok m rinv (?c\<lparr>ct_data := (ct_data ?c)(x \<mapsto> ?F r)\<rparr>)"
      "crow m (?c\<lparr>ct_data := (ct_data ?c)(x \<mapsto> ?F r)\<rparr>) = (crow m ?c)(row \<mapsto> ?F r)"
      "acc_ok m (?c\<lparr>ct_data := (ct_data ?c)(x \<mapsto> ?F r)\<rparr>) row True ra" by blast
    have "rinv r" using data_at_row [OF fr(3), of row] x(2) by (auto simp: crow_alt split: option.splits)
    then have "cval m rval (?c\<lparr>ct_data := (ct_data ?c)(x \<mapsto> ?F r)\<rparr>) =
        (cval m rval ct)(row := map_option (\<lambda>f. f(c := f c + d)) (cval m rval ct row))"
      using F x(2,4) fr(1) by (simp add: cval_def fun_eq_iff)
    with x True show ?thesis by (intro that [of "?c\<lparr>ct_data := (ct_data ?c)(x \<mapsto> ?F r)\<rparr>"]) (use Cons.prems(3) in simp_all)
  next
    case False
    have "crow m ct row = None" using False ac fr by (simp add: crow_alt acc_ok_def)
    with False ac fr show ?thesis
      by (intro that [of ?c]) (use Cons.prems(3) in \<open>auto simp: cval_def fun_eq_iff\<close>)
  qed
  have step: "flush_update g row (int (bg_part g row)) a found ra (tt, ct) cu = Inr (tt1, ct1)"
    using t(1) tt1(1) ct1(1) cu Cons.prems(3) by (cases found) (simp_all add: flush_update_def)
  have o1: "oplog_ok m oinv g ct1" "tpend m g ct1 = tpend m g ?c" using t(2) ct1(4) by (simp_all add: oplog_ok_def tpend_def fun_eq_iff)
  have "ck_find (cm_oplog m) (op_map (to_partitions (ct_oplog ct1) ! bg_part g row)) row = Some a"
    "length (tt_oplog_index tt1) = nat (num_bg_threads g)" "\<forall>p \<in> set es. col (fst p)"
    using t(4) ct1(4) tt1(3) Cons.prems(7,8) by simp_all
  from Cons.IH [OF o1(1) Cons.prems(2) ct1(7,2,3) this] obtain tt' ct' where r:
    "foldM (flush_update g row (int (bg_part g row)) a found ra) (tt1, ct1) es = Inr (tt', ct')"
    "oplog_ok m oinv g ct'" "store_ok m rinv ct'" "acc_ok m ct' row found ra" "ct_sample ct' = ops"
    "ct_thread_cache ct' = ct_thread_cache ct1" "ct_oplog_index ct' = ct_oplog_index ct1"
    "tpend m g ct' = (tpend m g ct1)(row := (\<lambda>c. tpend m g ct1 row c + upd_sum es c))"
    "cval m rval ct' = (cval m rval ct1)(row := map_option (\<lambda>f c. f c + upd_sum es c) (cval m rval ct1 row))"
    "tt_oplog_map tt' = tt_oplog_map tt1" "length (tt_oplog_index tt') = length (tt_oplog_index tt1)"
    "\<forall>i. set (tt_oplog_index tt1 ! i) \<subseteq> set (tt_oplog_index tt' ! i)" by blast
  have "tpend m g ct' = (tpend m g ct)(row := (\<lambda>c'. tpend m g ct row c' + upd_sum (cu # es) c'))"
    unfolding r(8) o1(2) t(3) cu by (auto simp: fun_eq_iff algebra_simps)
  moreover have "cval m rval ct' = (cval m rval ct)(row := map_option (\<lambda>f c'. f c' + upd_sum (cu # es) c') (cval m rval ct row))"
    unfolding r(9) ct1(8) cu by (cases "cval m rval ct row") (auto simp: fun_eq_iff algebra_simps)
  moreover have "row \<in> set (tt_oplog_index tt' ! bg_part g row)" "\<forall>i. set (tt_oplog_index tt ! i) \<subseteq> set (tt_oplog_index tt' ! i)"
    using tt1(4,5) r(12) by blast+
  ultimately show ?case using step r(1-7,10,11) tt1(2,3) ct1(5,6) by (intro exI [of _ tt'] exI [of _ ct']) simp
qed

lemma flush_row_ok:
  fixes ct :: "('pm, 'om, 'im, 'r, 'v) client_table" and tt :: "('r, 'v) thread_table"
  assumes "oplog_ok m oinv g ct" "0 \<le> row" "ct_sample ct = ops" "store_ok m rinv ct"
    and "length (tt_oplog_index tt) = nat (num_bg_threads g)" "rol_ok l" "\<forall>c \<in> set (keys (rol_oplogs l)). col c"
  shows "\<exists>tt' ct'. flush_row m g (tt, ct) (row, l) = Inr (tt', ct') \<and>
    oplog_ok m oinv g ct' \<and> store_ok m rinv ct' \<and> ct_sample ct' = ops \<and>
    ct_thread_cache ct' = ct_thread_cache ct \<and> ct_oplog_index ct' = ct_oplog_index ct \<and>
    tpend m g ct' = (tpend m g ct)(row := (\<lambda>c. tpend m g ct row c + rol_val l c)) \<and>
    base m g rval ct' = base m g rval ct \<and>
    tt_oplog_map tt' = tt_oplog_map tt \<and> length (tt_oplog_index tt') = length (tt_oplog_index tt) \<and>
    (rol_val l \<noteq> (\<lambda>_. 0) \<longrightarrow> row \<in> set (tt_oplog_index tt' ! bg_part g row)) \<and>
    (\<forall>i. set (tt_oplog_index tt ! i) \<subseteq> set (tt_oplog_index tt' ! i))"
proof -
  obtain a t1 where t1: "oplog_find_insert m g row ct = Inr (a, ct\<lparr>ct_oplog := t1\<rparr>)" "oplog_ok m oinv g (ct\<lparr>ct_oplog := t1\<rparr>)"
    "tpend m g (ct\<lparr>ct_oplog := t1\<rparr>) = tpend m g ct" "ck_find (cm_oplog m) (op_map (to_partitions t1 ! bg_part g row)) row = Some a"
    using find_insert_ok [OF assms(1,2)] by blast
  let ?c = "ct\<lparr>ct_oplog := t1\<rparr>"
  have s1: "store_ok m rinv ?c" using assms(4) by (simp add: store_ok_def)
  have cr1: "crow m ?c = crow m ct" by (auto simp: crow_def fun_eq_iff split: option.split)
  obtain found ra c1 where c1: "ct_Find m row RowAccessor ?c = Inr (found, ra, c1)" "cache_frame ?c c1"
    "ct_data c1 = ct_data ?c" "acc_ok m c1 row found ra" using ct_Find_ok [OF s1] by blast
  have s2: "store_ok m rinv c1" "crow m c1 = crow m ct"
    using cache_frame_store [OF c1(2,3) s1] cache_frame_crow [OF c1(2,3), of m] cr1 by auto
  have fr: "ct_oplog c1 = t1" "ct_sample c1 = ops" "ct_thread_cache c1 = ct_thread_cache ct" "ct_oplog_index c1 = ct_oplog_index ct"
    using c1(2) assms(3) by (simp_all add: cache_frame_def)
  have o1: "oplog_ok m oinv g c1" "tpend m g c1 = tpend m g ct"
    "ck_find (cm_oplog m) (op_map (to_partitions (ct_oplog c1) ! bg_part g row)) row = Some a"
    using t1(2-4) by (simp_all add: oplog_ok_def tpend_def fr(1) fun_eq_iff)
  have "\<forall>p \<in> set (rol_oplogs l). col (fst p)" using assms(7) by auto
  from flush_updates_ok [OF o1(1) assms(2) fr(2) s2(1) c1(4) o1(3) assms(5) this]
  obtain tt' c2 where f: "foldM (flush_update g row (int (bg_part g row)) a found ra) (tt, c1) (rol_oplogs l) = Inr (tt', c2)"
    "oplog_ok m oinv g c2" "store_ok m rinv c2" "acc_ok m c2 row found ra" "ct_sample c2 = ops"
    "ct_thread_cache c2 = ct_thread_cache c1" "ct_oplog_index c2 = ct_oplog_index c1"
    "tpend m g c2 = (tpend m g c1)(row := (\<lambda>c. tpend m g c1 row c + upd_sum (rol_oplogs l) c))"
    "cval m rval c2 = (cval m rval c1)(row := map_option (\<lambda>f c. f c + upd_sum (rol_oplogs l) c) (cval m rval c1 row))"
    "tt_oplog_map tt' = tt_oplog_map tt" "length (tt_oplog_index tt') = length (tt_oplog_index tt)"
    "rol_oplogs l \<noteq> [] \<longrightarrow> row \<in> set (tt_oplog_index tt' ! bg_part g row)"
    "\<forall>i. set (tt_oplog_index tt ! i) \<subseteq> set (tt_oplog_index tt' ! i)" by blast
  obtain c3 where c3: "drop_accessor ra c2 = Inr c3" "cache_frame c2 c3" "ct_data c3 = ct_data c2"
    using drop_accessor_ok [OF f(4)] by blast
  have s3: "store_ok m rinv c3" "crow m c3 = crow m c2"
    using cache_frame_store [OF c3(2,3) f(3)] cache_frame_crow [OF c3(2,3)] by auto
  have fr3: "ct_oplog c3 = ct_oplog c2" "ct_sample c3 = ops" "ct_thread_cache c3 = ct_thread_cache ct" "ct_oplog_index c3 = ct_oplog_index ct"
    using c3(2) f(5-7) fr by (simp_all add: cache_frame_def)
  have tp: "tpend m g c3 = (tpend m g ct)(row := (\<lambda>c. tpend m g ct row c + rol_val l c))"
    using f(8) o1(2) rol_val_sum [OF assms(6)] by (simp add: tpend_def fr3(1) fun_eq_iff)
  have "cval m rval c3 = (cval m rval ct)(row := map_option (\<lambda>f c. f c + rol_val l c) (cval m rval ct row))"
    using f(9) s3(2) s2(2) rol_val_sum [OF assms(6)] by (simp add: cval_def fun_eq_iff)
  then have "base m g rval c3 r = base m g rval ct r" for r
    by (cases "cval m rval ct row") (auto simp: base_def tp)
  moreover have "flush_row m g (tt, ct) (row, l) = Inr (tt', c3)"
    using t1(1) c1(1) f(1) c3(1) by (simp add: flush_row_def GetBgPartitionNum_eq [OF assms(2) bg])
  moreover have "oplog_ok m oinv g c3" using f(2) by (simp add: oplog_ok_def fr3(1))
  moreover have "rol_oplogs l \<noteq> []" if "rol_val l \<noteq> (\<lambda>_. 0)" using that by (auto simp: rol_val_def fun_eq_iff)
  ultimately show ?thesis using s3(1) fr3(2-4) tp f(10-13) by (intro exI [of _ tt'] exI [of _ c3]) (auto simp: fun_eq_iff)
qed

definition lsum :: "(int, 'v row_oplog) amap \<Rightarrow> int \<Rightarrow> int \<Rightarrow> 'v" where
  "lsum ls row = (case map_of ls row of None \<Rightarrow> (\<lambda>_. 0) | Some l \<Rightarrow> rol_val l)"

lemma flush_rows_ok:
  fixes ct :: "('pm, 'om, 'im, 'r, 'v) client_table" and tt :: "('r, 'v) thread_table"
  assumes "oplog_ok m oinv g ct" "ct_sample ct = ops" "store_ok m rinv ct"
    and "length (tt_oplog_index tt) = nat (num_bg_threads g)" "amap_ok ls"
    and "\<forall>(row, l) \<in> set ls. 0 \<le> row \<and> rol_ok l \<and> (\<forall>c \<in> set (keys (rol_oplogs l)). col c)"
  shows "\<exists>tt' ct'. foldM (flush_row m g) (tt, ct) ls = Inr (tt', ct') \<and>
    oplog_ok m oinv g ct' \<and> store_ok m rinv ct' \<and> ct_sample ct' = ops \<and>
    ct_thread_cache ct' = ct_thread_cache ct \<and> ct_oplog_index ct' = ct_oplog_index ct \<and>
    tpend m g ct' = (\<lambda>row c. tpend m g ct row c + lsum ls row c) \<and>
    base m g rval ct' = base m g rval ct \<and> length (tt_oplog_index tt') = length (tt_oplog_index tt) \<and>
    (\<forall>row. lsum ls row \<noteq> (\<lambda>_. 0) \<longrightarrow> row \<in> set (tt_oplog_index tt' ! bg_part g row)) \<and>
    (\<forall>i. set (tt_oplog_index tt ! i) \<subseteq> set (tt_oplog_index tt' ! i))"
  using assms
proof (induction ls arbitrary: tt ct)
  case Nil
  then show ?case by (intro exI [of _ tt] exI [of _ ct]) (simp add: lsum_def fun_eq_iff)
next
  case (Cons x ls)
  obtain row l where x: "x = (row, l)" by force
  have h: "0 \<le> row" "rol_ok l" "\<forall>c \<in> set (keys (rol_oplogs l)). col c" using Cons.prems(6) x by auto
  obtain tt1 ct1 where s1: "flush_row m g (tt, ct) (row, l) = Inr (tt1, ct1)" "oplog_ok m oinv g ct1" "store_ok m rinv ct1"
    "ct_sample ct1 = ops" "ct_thread_cache ct1 = ct_thread_cache ct" "ct_oplog_index ct1 = ct_oplog_index ct"
    "tpend m g ct1 = (tpend m g ct)(row := (\<lambda>c. tpend m g ct row c + rol_val l c))" "base m g rval ct1 = base m g rval ct"
    "length (tt_oplog_index tt1) = length (tt_oplog_index tt)"
    "rol_val l \<noteq> (\<lambda>_. 0) \<longrightarrow> row \<in> set (tt_oplog_index tt1 ! bg_part g row)"
    "\<forall>i. set (tt_oplog_index tt ! i) \<subseteq> set (tt_oplog_index tt1 ! i)"
    using flush_row_ok [OF Cons.prems(1) h(1) Cons.prems(2-4) h(2,3)] by blast
  have "length (tt_oplog_index tt1) = nat (num_bg_threads g)" "amap_ok ls"
    "\<forall>(row, l) \<in> set ls. 0 \<le> row \<and> rol_ok l \<and> (\<forall>c \<in> set (keys (rol_oplogs l)). col c)"
    using Cons.prems(4-6) s1(9) x by (auto simp: amap_ok_def)
  from Cons.IH [OF s1(2,4,3) this] obtain tt' ct' where r: "foldM (flush_row m g) (tt1, ct1) ls = Inr (tt', ct')"
    "oplog_ok m oinv g ct'" "store_ok m rinv ct'" "ct_sample ct' = ops" "ct_thread_cache ct' = ct_thread_cache ct1"
    "ct_oplog_index ct' = ct_oplog_index ct1" "tpend m g ct' = (\<lambda>row c. tpend m g ct1 row c + lsum ls row c)"
    "base m g rval ct' = base m g rval ct1" "length (tt_oplog_index tt') = length (tt_oplog_index tt1)"
    "\<forall>row. lsum ls row \<noteq> (\<lambda>_. 0) \<longrightarrow> row \<in> set (tt_oplog_index tt' ! bg_part g row)"
    "\<forall>i. set (tt_oplog_index tt1 ! i) \<subseteq> set (tt_oplog_index tt' ! i)" by blast
  have "map_of ls row = None" using Cons.prems(5) x by (auto simp: amap_ok_def map_of_eq_None_iff)
  then have no: "lsum ls row = (\<lambda>_. 0)" by (simp add: lsum_def)
  have ls: "lsum (x # ls) r = (if r = row then rol_val l else lsum ls r)" for r by (simp add: lsum_def x)
  have "tpend m g ct' r c = tpend m g ct r c + lsum (x # ls) r c" for r c
    using no by (simp add: r(7) s1(7) ls)
  moreover have "r' \<in> set (tt_oplog_index tt' ! bg_part g r')" if "lsum (x # ls) r' \<noteq> (\<lambda>_. 0)" for r'
    using that s1(10) r(10,11) by (cases "r' = row") (auto simp: ls)
  moreover have "\<forall>i. set (tt_oplog_index tt ! i) \<subseteq> set (tt_oplog_index tt' ! i)" using s1(11) r(11) by blast
  ultimately show ?case using s1 r x by (intro exI [of _ tt'] exI [of _ ct']) (simp add: fun_eq_iff)
qed

lemma ctl_Flush_ok:
  fixes ct :: "('pm, 'om, 'im, 'r, 'v) client_table"
  assumes ok: "ok ct" and tid: "map_of (ct_thread_cache ct) tid = Some tt"
  shows "\<exists>ct' tt'. ctl_FlushThreadCache m g tid ct = Inr ct' \<and> updated ct ct' row [] \<and>
    ct_thread_cache ct' = AList.update tid tt' (ct_thread_cache ct) \<and> tt_oplog_map tt' = [] \<and> tt_row_storage tt' = []"
proof -
  have a: "amap_ok (ct_thread_cache ct)" and c: "oplog_ok m oinv g ct" "ct_sample ct = ops" "store_ok m rinv ct"
    using ok by (simp_all add: ct_ok_def)
  have t: "length (tt_oplog_index tt) = nat (num_bg_threads g)" "amap_ok (tt_oplog_map tt)"
    "\<forall>(row, l) \<in> set (tt_oplog_map tt). 0 \<le> row \<and> rol_ok l \<and> (\<forall>c \<in> set (keys (rol_oplogs l)). col c)"
    using cache_tt_ok [OF ok tid] by (simp_all add: tt_ok_def)
  obtain tt1 ct1 where f: "foldM (flush_row m g) (tt, ct) (tt_oplog_map tt) = Inr (tt1, ct1)"
    "oplog_ok m oinv g ct1" "store_ok m rinv ct1" "ct_sample ct1 = ops" "ct_thread_cache ct1 = ct_thread_cache ct"
    "ct_oplog_index ct1 = ct_oplog_index ct" "tpend m g ct1 = (\<lambda>row c. tpend m g ct row c + lsum (tt_oplog_map tt) row c)"
    "base m g rval ct1 = base m g rval ct" "length (tt_oplog_index tt1) = length (tt_oplog_index tt)"
    "\<forall>row. lsum (tt_oplog_map tt) row \<noteq> (\<lambda>_. 0) \<longrightarrow> row \<in> set (tt_oplog_index tt1 ! bg_part g row)"
    "\<forall>i. set (tt_oplog_index tt ! i) \<subseteq> set (tt_oplog_index tt1 ! i)"
    using flush_rows_ok [OF c t] by blast
  let ?tt = "tt1\<lparr>tt_oplog_map := [], tt_row_storage := []\<rparr>" and ?c = "set_cache tid (tt1\<lparr>tt_oplog_map := [], tt_row_storage := []\<rparr>) ct1"
  have tt: "tt_ok g rinv col ?tt" using f(9) t(1) by (simp add: tt_ok_def amap_ok_def)
  have ls: "lsum (tt_oplog_map tt) = ttpend tt" by (simp add: lsum_def ttpend_def fun_eq_iff)
  have "ctl_FlushThreadCache m g tid ct = Inr ?c"
    using tid f(1) by (simp add: ctl_FlushThreadCache_def FlushCache_def thread_cache_def)
  moreover have "ok ?c"
  proof (rule ok_step [OF ok tid tt])
    show "\<forall>row \<ge> 0. tpend m g ?c row \<noteq> tpend m g ct row \<longrightarrow> row \<in> set (tt_oplog_index ?tt ! bg_part g row)"
      using f(7,10) by (auto simp: fun_eq_iff)
  qed (use f in \<open>simp_all add: set_cache_def store_ok_def oplog_ok_def\<close>)
  moreover have "thr_sum ?c r c + tpend m g ?c r c = thr_sum ct r c + tpend m g ct r c" for r c
  proof -
    have "thr_sum ?c r c = thr_sum ct r c - ttpend tt r c + ttpend ?tt r c"
      using set_cache_sum [of ct1 tid tt ?tt r c] a tid by (simp add: f(5) thr_sum_def)
    moreover have "ttpend ?tt r c = 0" by (simp add: ttpend_def)
    ultimately show ?thesis by (simp add: f(7) ls)
  qed
  moreover have "keys (ct_thread_cache ?c) = keys (ct_thread_cache ct)"
    using keys_update_mem [OF tid] f(5) by (simp add: set_cache_def)
  moreover have "base m g rval ?c = base m g rval ct" using f(8) by (simp add: base_def cval_def fun_eq_iff)
  moreover have "ct_thread_cache ?c = AList.update tid ?tt (ct_thread_cache ct)" by (simp add: set_cache_def f(5))
  ultimately show ?thesis by (intro exI [of _ ?c] exI [of _ ?tt]) (simp add: updated_def add.commute)
qed

lemma flush_prefix:
  fixes tt :: "('r, 'v) thread_table"
  assumes "k \<le> length (tt_oplog_index tt)" "length idxs = length (tt_oplog_index tt)" "\<forall>x \<in> set idxs. iinv x"
  shows "\<exists>idxs'. foldM (flush_index (cm_index m)) (tt, idxs) (map int [0..<k]) =
      Inr (tt\<lparr>tt_oplog_index := replicate k [] @ drop k (tt_oplog_index tt)\<rparr>, idxs') \<and> length idxs' = length idxs \<and>
      (\<forall>x \<in> set idxs'. iinv x) \<and>
      (\<forall>i < length idxs. \<forall>r. (ck_find (cm_index m) (idxs' ! i) r \<noteq> None) =
         ((i < k \<and> r \<in> set (tt_oplog_index tt ! i)) \<or> ck_find (cm_index m) (idxs ! i) r \<noteq> None))"
  using assms(1)
proof (induction k)
  case 0
  then show ?case using assms(3) by (intro exI [of _ idxs]) simp
next
  case (Suc k)
  let ?q = "tt_oplog_index tt"
  from Suc obtain idxs' where p: "foldM (flush_index (cm_index m)) (tt, idxs) (map int [0..<k]) =
      Inr (tt\<lparr>tt_oplog_index := replicate k [] @ drop k ?q\<rparr>, idxs')" "length idxs' = length idxs" "\<forall>x \<in> set idxs'. iinv x"
      "\<forall>i < length idxs. \<forall>r. (ck_find (cm_index m) (idxs' ! i) r \<noteq> None) =
         ((i < k \<and> r \<in> set (?q ! i)) \<or> ck_find (cm_index m) (idxs ! i) r \<noteq> None)" by auto
  have k: "k < length ?q" "k < length idxs'" using Suc.prems p(2) assms(2) by simp_all
  let ?x = "index_AddIndex (cm_index m) (?q ! k) (idxs' ! k)"
  have ik: "iinv (idxs' ! k)" using p(3) k(2) by simp
  note add = index.insert_all_find [OF ik, of True "?q ! k"]
  have "(replicate k [] @ drop k ?q)[k := []] = replicate (Suc k) [] @ drop (Suc k) ?q"
    using k(1) by (simp add: list_update_append Cons_nth_drop_Suc [symmetric] replicate_append_same [symmetric])
  then have "flush_index (cm_index m) (tt\<lparr>tt_oplog_index := replicate k [] @ drop k ?q\<rparr>, idxs') (int k) =
      Inr (tt\<lparr>tt_oplog_index := replicate (Suc k) [] @ drop (Suc k) ?q\<rparr>, idxs'[k := ?x])"
    using k by (simp add: flush_index_def table_AddIndex_def nth_append)
  moreover have "\<forall>x \<in> set (idxs'[k := ?x]). iinv x"
    using p(3) add set_update_subset_insert [of idxs' k ?x] by (auto simp: index_AddIndex_def)
  moreover have "\<forall>i < length idxs. \<forall>r. (ck_find (cm_index m) (idxs'[k := ?x] ! i) r \<noteq> None) =
         ((i < Suc k \<and> r \<in> set (?q ! i)) \<or> ck_find (cm_index m) (idxs ! i) r \<noteq> None)"
    using p(2,4) add k by (auto simp: nth_list_update index_AddIndex_def less_Suc_eq)
  ultimately show ?case using p(1,2) by (intro exI [of _ "idxs'[k := ?x]"]) (simp add: foldM_append)
qed

lemma FlushOpLogIndex_ok:
  fixes tt :: "('r, 'v) thread_table"
  assumes "length (tt_oplog_index tt) = nat (num_bg_threads g)" "length idxs = nat (num_bg_threads g)" "\<forall>x \<in> set idxs. iinv x"
  shows "\<exists>idxs'. FlushOpLogIndex (cm_index m) g tt idxs = Inr (tt\<lparr>tt_oplog_index := replicate (nat (num_bg_threads g)) []\<rparr>, idxs') \<and>
      length idxs' = length idxs \<and> (\<forall>x \<in> set idxs'. iinv x) \<and>
      (\<forall>i < length idxs. \<forall>r. (ck_find (cm_index m) (idxs' ! i) r \<noteq> None) =
         (r \<in> set (tt_oplog_index tt ! i) \<or> ck_find (cm_index m) (idxs ! i) r \<noteq> None))"
proof -
  have u: "[0..num_bg_threads g - 1] = map int [0..<nat (num_bg_threads g)]" using bg upto_map_int [of "nat (num_bg_threads g)"] by simp
  have "\<exists>idxs'. foldM (flush_index (cm_index m)) (tt, idxs) (map int [0..<nat (num_bg_threads g)]) =
      Inr (tt\<lparr>tt_oplog_index := replicate (nat (num_bg_threads g)) [] @ drop (nat (num_bg_threads g)) (tt_oplog_index tt)\<rparr>, idxs') \<and>
      length idxs' = length idxs \<and> (\<forall>x \<in> set idxs'. iinv x) \<and>
      (\<forall>i < length idxs. \<forall>r. (ck_find (cm_index m) (idxs' ! i) r \<noteq> None) =
         ((i < nat (num_bg_threads g) \<and> r \<in> set (tt_oplog_index tt ! i)) \<or> ck_find (cm_index m) (idxs ! i) r \<noteq> None))"
    using assms by (intro flush_prefix) auto
  then show ?thesis unfolding FlushOpLogIndex_def u using assms by auto
qed

definition idle :: "('r, 'v) thread_table \<Rightarrow> bool" where
  "idle tt \<longleftrightarrow> tt_oplog_map tt = [] \<and> tt_oplog_index tt = replicate (nat (num_bg_threads g)) []"

lemma ctl_Clock_ok:
  fixes ct :: "('pm, 'om, 'im, 'r, 'v) client_table"
  assumes ok: "ok ct" and tid: "map_of (ct_thread_cache ct) tid = Some tt"
  shows "\<exists>ct' tt'. ctl_Clock m g tid ct = Inr ct' \<and> updated ct ct' row [] \<and>
    ct_thread_cache ct' = AList.update tid tt' (ct_thread_cache ct) \<and> idle tt'"
proof -
  obtain c1 t1 where f: "ctl_FlushThreadCache m g tid ct = Inr c1" "updated ct c1 row []"
    "ct_thread_cache c1 = AList.update tid t1 (ct_thread_cache ct)" "tt_oplog_map t1 = []" "tt_row_storage t1 = []"
    using ctl_Flush_ok [OF ok tid] by blast
  have ok1: "ok c1" using f(2) by (simp add: updated_def)
  have tid1: "map_of (ct_thread_cache c1) tid = Some t1" by (simp add: f(3) update_conv')
  have a: "amap_ok (ct_thread_cache c1)" using ok1 by (simp add: ct_ok_def)
  have len: "length (tt_oplog_index t1) = nat (num_bg_threads g)" "length (ct_oplog_index c1) = nat (num_bg_threads g)"
    "\<forall>x \<in> set (ct_oplog_index c1). iinv x" using ok1 cache_tt_ok [OF ok1 tid1] by (simp_all add: ct_ok_def tt_ok_def)
  obtain idxs where x: "FlushOpLogIndex (cm_index m) g t1 (ct_oplog_index c1) =
      Inr (t1\<lparr>tt_oplog_index := replicate (nat (num_bg_threads g)) []\<rparr>, idxs)" "length idxs = nat (num_bg_threads g)"
    "\<forall>x \<in> set idxs. iinv x" "\<forall>i < nat (num_bg_threads g). \<forall>r. (ck_find (cm_index m) (idxs ! i) r \<noteq> None) =
         (r \<in> set (tt_oplog_index t1 ! i) \<or> ck_find (cm_index m) (ct_oplog_index c1 ! i) r \<noteq> None)"
    using FlushOpLogIndex_ok [OF len] len(2) by auto
  let ?t = "t1\<lparr>tt_oplog_index := replicate (nat (num_bg_threads g)) []\<rparr>"
  let ?c = "set_cache tid ?t (c1\<lparr>ct_oplog_index := idxs\<rparr>)"
  have th: "set (ct_thread_cache ?c) = insert (tid, ?t) {p \<in> set (ct_thread_cache c1). fst p \<noteq> tid}"
    using set_update_amap [OF a] by (simp add: set_cache_def)
  have tp: "tpend m g ?c = tpend m g c1" "crow m ?c = crow m c1"
    by (auto simp: set_cache_def tpend_def crow_def fun_eq_iff split: option.split)
  have "row_indexed m g ?c r" if "row_indexed m g c1 r" for r
  proof -
    have "bg_part g r < nat (num_bg_threads g)" by (rule bg_part_less [OF bg])
    then have i: "(ck_find (cm_index m) (idxs ! bg_part g r) r \<noteq> None) =
        (r \<in> set (tt_oplog_index t1 ! bg_part g r) \<or> ck_find (cm_index m) (ct_oplog_index c1 ! bg_part g r) r \<noteq> None)" using x(4) by blast
    have "r \<in> set (tt_oplog_index t1 ! bg_part g r)" if "(tid, y) \<in> set (ct_thread_cache c1)" "r \<in> set (tt_oplog_index y ! bg_part g r)" for y
      using that a tid1 by (metis amap_ok_def map_of_is_SomeI option.inject)
    then show ?thesis using \<open>row_indexed m g c1 r\<close> i th by (auto simp: row_indexed_def) (metis fst_conv)
  qed
  then have ri: "\<forall>r \<ge> 0. tpend m g ?c r \<noteq> (\<lambda>_. 0) \<longrightarrow> row_indexed m g ?c r" using ok1 tp by (simp add: ct_ok_def)
  have tt: "tt_ok g rinv col ?t" using cache_tt_ok [OF ok1 tid1] by (simp add: tt_ok_def)
  have "ok ?c"
    using ok1 ri tt x(2,3) th a unfolding ct_ok_def
    by (auto simp: set_cache_def oplog_ok_def store_ok_def amap_ok_update)
  moreover have "thr_sum ?c r c = thr_sum c1 r c" for r c
  proof -
    have "thr_sum ?c r c = thr_sum (set_cache tid ?t c1) r c" by (simp add: thr_sum_def set_cache_def)
    also have "\<dots> = thr_sum c1 r c - ttpend t1 r c + ttpend ?t r c" by (rule set_cache_sum [OF a tid1])
    finally show ?thesis by (simp add: ttpend_def)
  qed
  moreover have "base m g rval ?c = base m g rval c1" using tp by (simp add: base_def cval_def fun_eq_iff)
  moreover have "keys (ct_thread_cache ?c) = keys (ct_thread_cache c1)" using keys_update_mem [OF tid1] by (simp add: set_cache_def)
  ultimately have "updated ct ?c row []" using f(2) tp(1) by (simp add: updated_def)
  moreover have "ctl_Clock m g tid ct = Inr ?c" using f(1) tid1 x(1) by (simp add: ctl_Clock_def thread_cache_def)
  moreover have "ct_thread_cache ?c = AList.update tid ?t (ct_thread_cache ct)"
    by (simp add: set_cache_def f(3))
  ultimately show ?thesis using f(4) by (intro exI [of _ ?c] exI [of _ ?t]) (simp add: idle_def)
qed

end

section \<open>Runs\<close>

text \<open>The operations of the application threads on a table, in the order in which they take effect.\<close>

datatype 'v client_op =
    C_Inc int int int 'v
  | C_BatchInc int int "(int \<times> 'v) list"
  | C_ThreadInc int int int 'v
  | C_ThreadBatchInc int int "(int \<times> 'v) list"
  | C_Flush int
  | C_Clock int

fun client_step ::
  "('pm, 'om, 'im) cl_maps \<Rightarrow> global_context \<Rightarrow> ('pm, 'om, 'im, 'r, 'v) client_table \<Rightarrow> 'v client_op \<Rightarrow>
   ('pm, 'om, 'im, 'r, 'v) client_table result" where
  "client_step m g ct (C_Inc tid row c d) = ctl_Inc m g tid row c d ct"
| "client_step m g ct (C_BatchInc tid row us) = ctl_BatchInc m g tid row us ct"
| "client_step m g ct (C_ThreadInc tid row c d) = ctl_ThreadInc tid row c d ct"
| "client_step m g ct (C_ThreadBatchInc tid row us) = ctl_ThreadBatchInc tid row us ct"
| "client_step m g ct (C_Flush tid) = ctl_FlushThreadCache m g tid ct"
| "client_step m g ct (C_Clock tid) = ctl_Clock m g tid ct"

fun op_thread :: "'v client_op \<Rightarrow> int" where
  "op_thread (C_Inc tid row c d) = tid"
| "op_thread (C_BatchInc tid row us) = tid"
| "op_thread (C_ThreadInc tid row c d) = tid"
| "op_thread (C_ThreadBatchInc tid row us) = tid"
| "op_thread (C_Flush tid) = tid"
| "op_thread (C_Clock tid) = tid"

fun op_updates :: "'v client_op \<Rightarrow> int \<times> (int \<times> 'v) list" where
  "op_updates (C_Inc tid row c d) = (row, [(c, d)])"
| "op_updates (C_BatchInc tid row us) = (row, us)"
| "op_updates (C_ThreadInc tid row c d) = (row, [(c, d)])"
| "op_updates (C_ThreadBatchInc tid row us) = (row, us)"
| "op_updates x = (0, [])"

definition op_valid :: "(int \<Rightarrow> bool) \<Rightarrow> 'v client_op \<Rightarrow> bool" where
  "op_valid col x \<longleftrightarrow> 0 \<le> fst (op_updates x) \<and> (\<forall>p \<in> set (snd (op_updates x)). col (fst p))"

definition client_sum :: "'v::ab_group_add client_op list \<Rightarrow> int \<Rightarrow> int \<Rightarrow> 'v" where
  "client_sum xs row c = (\<Sum>x \<leftarrow> xs. if fst (op_updates x) = row then upd_sum (snd (op_updates x)) c else 0)"

context client_rows
begin

lemma client_step_ok:
  fixes ct :: "('pm, 'om, 'im, 'r, 'v) client_table"
  assumes "ok ct" "op_valid col x" "op_thread x \<in> set (keys (ct_thread_cache ct))"
  shows "\<exists>ct'. client_step m g ct x = Inr ct' \<and> updated ct ct' (fst (op_updates x)) (snd (op_updates x))"
proof -
  obtain tt where tt: "map_of (ct_thread_cache ct) (op_thread x) = Some tt"
    using assms(3) by (metis map_of_eq_None_iff not_None_eq set_map)
  show ?thesis
  proof (cases x)
    case (C_Inc tid row c d)
    then show ?thesis using ctl_Inc_ok [OF assms(1), of tid tt row c d] assms(2) tt by (simp add: op_valid_def)
  next
    case (C_BatchInc tid row us)
    then show ?thesis using ctl_BatchInc_ok [OF assms(1), of tid tt row us] assms(2) tt by (simp add: op_valid_def)
  next
    case (C_ThreadInc tid row c d)
    then show ?thesis using ctl_ThreadInc_ok [OF assms(1), of tid tt row c d] assms(2) tt by (simp add: op_valid_def)
  next
    case (C_ThreadBatchInc tid row us)
    then show ?thesis using ctl_ThreadBatchInc_ok [OF assms(1), of tid tt row us] assms(2) tt by (simp add: op_valid_def)
  next
    case (C_Flush tid)
    then show ?thesis using ctl_Flush_ok [OF assms(1), of tid tt 0] tt by auto
  next
    case (C_Clock tid)
    then show ?thesis using ctl_Clock_ok [OF assms(1), of tid tt 0] tt by auto
  qed
qed

lemma client_run_ok:
  fixes ct :: "('pm, 'om, 'im, 'r, 'v) client_table"
  assumes "ok ct" "\<forall>x \<in> set xs. op_valid col x \<and> op_thread x \<in> set (keys (ct_thread_cache ct))"
  shows "\<exists>ct'. foldM (client_step m g) ct xs = Inr ct' \<and> ok ct' \<and> keys (ct_thread_cache ct') = keys (ct_thread_cache ct) \<and>
    (\<forall>row c. tpend m g ct' row c + thr_sum ct' row c = tpend m g ct row c + thr_sum ct row c + client_sum xs row c) \<and>
    (\<forall>row. base m g rval ct' row = base m g rval ct row)"
  using assms
proof (induction xs arbitrary: ct)
  case (Cons x xs)
  obtain c1 where c1: "client_step m g ct x = Inr c1" "updated ct c1 (fst (op_updates x)) (snd (op_updates x))"
    using client_step_ok [OF Cons.prems(1)] Cons.prems(2) by (meson list.set_intros(1))
  have k: "ok c1" "keys (ct_thread_cache c1) = keys (ct_thread_cache ct)" using c1(2) by (simp_all add: updated_def)
  have one: "tpend m g c1 row c + thr_sum c1 row c = tpend m g ct row c + thr_sum ct row c +
      (if fst (op_updates x) = row then upd_sum (snd (op_updates x)) c else 0)" for row c
    using c1(2) unfolding updated_def by (cases "fst (op_updates x) = row") auto
  have "\<forall>y \<in> set xs. op_valid col y \<and> op_thread y \<in> set (keys (ct_thread_cache c1))" using Cons.prems(2) unfolding k(2) by simp
  from Cons.IH [OF k(1) this] c1 k(2) one show ?case by (auto simp: client_sum_def updated_def add.assoc)
qed (simp add: client_sum_def)

text \<open>A new table with registered threads.\<close>

lemma new_table_ok:
  fixes ct :: "('pm, 'om, 'im, 'r, 'v) client_table"
  assumes "ClientTable m reg g t config = Inr ct" "reg (row_type (table_info config)) = Inr ops"
    and "\<And>k. ck_find (cm_storage m) (ck_new (cm_storage m)) k = None"
  shows "ok ct \<and> tpend m g ct row c = 0 \<and> thr_sum ct row c = 0 \<and> ct_thread_cache ct = []"
proof -
  have ct: "ct_sample ct = ops" "ct_oplog ct = TableOpLog (cm_oplog m) ops g t" "ct_oplog_index ct = TableOpLogIndex (cm_index m) g"
    "ct_thread_cache ct = []" "ps_map (ct_storage ct) = ck_new (cm_storage m)"
    using assms(1,2) by (auto simp: ClientTable_def ProcessStorage_def rbind_eq_Inr split: if_splits)
  have tp: "tpend m g ct row c = 0" for row c
    using bg_part_less [OF bg, of row] oplog.new_partition_ok [of t] by (simp add: tpend_def ct TableOpLog_def)
  have "oplog_ok m oinv g ct" using oplog.new_partition_ok [of t] by (simp add: oplog_ok_def ct TableOpLog_def)
  moreover have "store_ok m rinv ct" using assms(3) by (simp add: store_ok_def ct)
  ultimately show ?thesis
    using tp by (simp add: ct_ok_def ct TableOpLogIndex_def index.new_ok amap_ok_def thr_sum_def fun_eq_iff)
qed

lemma register_ok:
  fixes ct :: "('pm, 'om, 'im, 'r, 'v) client_table"
  assumes "ok ct"
  shows "ok (ct_RegisterThread g tid ct)"
proof (cases "map_of (ct_thread_cache ct) tid")
  case None
  let ?c = "ct_RegisterThread g tid ct"
  have e: "?c = ct\<lparr>ct_thread_cache := ct_thread_cache ct @ [(tid, ThreadTable g)]\<rparr>"
    using None by (simp add: ct_RegisterThread_def update_new)
  have "tt_ok g rinv col (ThreadTable g)" by (simp add: tt_ok_def ThreadTable_def amap_ok_def)
  moreover have "row_indexed m g ?c row" if "row_indexed m g ct row" for row using that by (auto simp: row_indexed_def e)
  moreover have "tpend m g ?c = tpend m g ct" by (simp add: tpend_def e fun_eq_iff)
  moreover have "amap_ok (ct_thread_cache ?c)" using assms None by (simp add: ct_ok_def amap_ok_def e map_of_eq_None_iff)
  ultimately show ?thesis using assms by (auto simp: ct_ok_def e oplog_ok_def store_ok_def)
qed (use assms in \<open>simp add: ct_RegisterThread_def\<close>)

end

text \<open>
  C2. The updates of the application are conserved on the client. After any sequence of
  increments, thread-cached increments, flushes and clocks by registered threads, all operations
  succeed, the pending updates of every entry (in the process oplog and in the thread caches together) are
  those before plus the sum of the increments made, a row in the process cache shows its pending updates
  on top of an unchanged base value, and every row with pending updates is in the
  index of the table or of a thread, so that the background thread will find it.
\<close>

theorem client_no_update_lost:
  assumes "client_rows ops rinv0 rval rcol rwire m oinv iinv g"
    and "ct_ok m oinv iinv g ops (col_inv rinv0 rcol col) col ct"
    and "\<forall>x \<in> set xs. op_valid col x \<and> op_thread x \<in> set (keys (ct_thread_cache ct))"
  shows "\<exists>ct'. foldM (client_step m g) ct xs = Inr ct' \<and>
    (\<forall>row c. tpend m g ct' row c + thr_sum ct' row c = tpend m g ct row c + thr_sum ct row c + client_sum xs row c) \<and>
    (\<forall>row. base m g rval ct' row = base m g rval ct row) \<and>
    (\<forall>row \<ge> 0. tpend m g ct' row \<noteq> (\<lambda>_. 0) \<longrightarrow> row_indexed m g ct' row)"
  using client_rows.client_run_ok [OF assms] unfolding ct_ok_def by blast

definition alist_maps :: "((int, nat \<times> int) amap, (int, nat) amap, (int, bool) amap) cl_maps" where
  "alist_maps = \<lparr>cm_storage = alist_cuckoo, cm_oplog = alist_cuckoo, cm_index = alist_cuckoo\<rparr>"

lemma sparse_oplog_store: "oplog_store alist_cuckoo amap_ok (sparse_ops i32_pod)"
  by unfold_locales (simp_all add: sparse_ops_def)

interpretation sparse_client: client_rows "sparse_ops i32_pod" sparse_inv sparse_index "\<lambda>_ _. True" "sparse_wire is_i32"
  alist_maps amap_ok amap_ok demo_ctx "\<lambda>_. True"
proof (intro client_rows.intro client_rows_axioms.intro)
  show "additive_row (sparse_ops i32_pod) sparse_inv sparse_index (\<lambda>_ _. True) (sparse_wire is_i32)" by unfold_locales
  show "oplog_store (cm_oplog alist_maps) amap_ok (sparse_ops i32_pod)" using sparse_oplog_store by (simp add: alist_maps_def)
  show "cuckoo_map (cm_index alist_maps) amap_ok" using alist_ck.cuckoo_map_axioms by (simp add: alist_maps_def)
  show "0 < num_bg_threads demo_ctx" by (simp add: demo_ctx_def GlobalContext_Init_def)
qed

definition demo_table :: "((int, nat \<times> int) amap, (int, nat) amap, (int, bool) amap, int sparse_row, int) client_table" where
  "demo_table = fold (ct_RegisterThread demo_ctx) [200, 201]
     (projr (ClientTable alist_maps (\<lambda>_. Inr (sparse_ops i32_pod)) demo_ctx 0
       \<lparr>table_info = \<lparr>table_staleness = 1, row_type = 0, row_capacity = 0\<rparr>,
        process_cache_capacity = 4, thread_cache_capacity = 4, oplog_capacity = 4\<rparr>))"

lemma demo_table_ok:
  "ct_ok alist_maps amap_ok amap_ok demo_ctx (sparse_ops i32_pod) (col_inv sparse_inv (\<lambda>_ _. True) (\<lambda>_. True)) (\<lambda>_. True) demo_table"
  "set (keys (ct_thread_cache demo_table)) = {200, 201}" "tpend alist_maps demo_ctx demo_table row c = 0" "thr_sum demo_table row c = 0"
proof -
  let ?cfg = "\<lparr>table_info = \<lparr>table_staleness = 1, row_type = 0, row_capacity = 0\<rparr>,
        process_cache_capacity = 4, thread_cache_capacity = 4, oplog_capacity = 4\<rparr>"
  obtain ct where ct: "ClientTable alist_maps (\<lambda>_. Inr (sparse_ops i32_pod)) demo_ctx 0 ?cfg = Inr ct"
    by (simp add: ClientTable_def demo_ctx_def GlobalContext_Init_def)
  have s: "\<And>k. ck_find (cm_storage alist_maps) (ck_new (cm_storage alist_maps)) k = None"
    by (simp add: alist_maps_def alist_cuckoo_def)
  have n: "sparse_client.ok ct" "tpend alist_maps demo_ctx ct row c = 0" "ct_thread_cache ct = []"
    using sparse_client.new_table_ok [OF ct _ s] by auto
  have e: "demo_table = ct_RegisterThread demo_ctx 201 (ct_RegisterThread demo_ctx 200 ct)"
    using ct by (simp add: demo_table_def)
  show "sparse_client.ok demo_table" unfolding e using n(1) by (intro sparse_client.register_ok)
  show "set (keys (ct_thread_cache demo_table)) = {200, 201}" "tpend alist_maps demo_ctx demo_table row c = 0"
    "thr_sum demo_table row c = 0"
    using n by (auto simp: e ct_RegisterThread_def tpend_def thr_sum_def ThreadTable_def ttpend_def)
qed

theorem client_no_update_lost_witness:
  "\<exists>ct'. foldM (client_step alist_maps demo_ctx) demo_table [C_Inc 200 5 0 3, C_ThreadInc 201 5 0 4, C_Clock 201] = Inr ct' \<and>
     tpend alist_maps demo_ctx ct' 5 0 + thr_sum ct' 5 0 = 7"
proof -
  have "\<forall>x \<in> set [C_Inc 200 5 0 3, C_ThreadInc 201 5 0 4, C_Clock 201]. op_valid (\<lambda>_. True) x \<and>
      op_thread x \<in> set (keys (ct_thread_cache demo_table))"
    unfolding demo_table_ok(2) by (simp add: op_valid_def)
  from client_no_update_lost [OF sparse_client.client_rows_axioms demo_table_ok(1) this]
  obtain ct' where ct': "foldM (client_step alist_maps demo_ctx) demo_table [C_Inc 200 5 0 3, C_ThreadInc 201 5 0 4, C_Clock 201] = Inr ct'"
    "\<forall>row c. tpend alist_maps demo_ctx ct' row c + thr_sum ct' row c = tpend alist_maps demo_ctx demo_table row c +
       thr_sum demo_table row c + client_sum [C_Inc 200 5 0 3, C_ThreadInc 201 5 0 4, C_Clock 201] row c" by blast
  then have "tpend alist_maps demo_ctx ct' 5 0 + thr_sum ct' 5 0 = 7"
    using demo_table_ok(3,4) [of 5 0] by (simp add: client_sum_def)
  with ct'(1) show ?thesis by blast
qed

end
