(* ===== verification/Clock_Proofs.thy ===== *)
theory Clock_Proofs
imports Bg_Main Client_Updates
begin

text \<open>
  What a clock of the background thread sends: the oplogs of all rows in its
  part of the index leave the tables, the sizes it computes are exactly those of the
  serialized rows, and each server that applies its message gains exactly the
  pending updates of the rows it owns.
\<close>

section \<open>Taking the oplogs of one table\<close>

definition pval :: "'v::zero bg_oplog_partition \<Rightarrow> int \<Rightarrow> int \<Rightarrow> 'v" where
  "pval p row = (case map_of (bp_map p) row of None \<Rightarrow> (\<lambda>_. 0) | Some l \<Rightarrow> rol_val l)"

definition opl_ok where
  "opl_ok ck oinv g ol \<longleftrightarrow> length (to_partitions ol) = nat (num_bg_threads g) \<and>
     (\<forall>p \<in> set (to_partitions ol). part_ok ck oinv p)"

definition opl_pend where
  "opl_pend ck g ol row = pend ck (to_partitions ol ! bg_part g row) row"

text \<open>Every oplog of the table fits its machine types.\<close>

definition opl_wire where
  "opl_wire ck vok ol \<longleftrightarrow> (\<forall>p \<in> set (to_partitions ol). \<forall>row a l.
     ck_find ck (op_map p) row = Some a \<and> map_of (op_store p) a = Some l \<longrightarrow> row_wire vok (row, l))"

locale oplog_taking = oplog_store ck oinv ops
  for ck :: "('om, int, nat) cuckoo" and oinv and ops :: "('r, 'v::ab_group_add) row_ops" +
  fixes g :: global_context and pd :: "'v pod" and vok :: "'v \<Rightarrow> bool"
  assumes g: "ctx_ok g" and pd: "pod_ok pd vok"
begin

lemma bg_pos: "0 < num_bg_threads g" using g by (simp add: ctx_ok_def)

definition sized :: "int \<Rightarrow> (int \<times> nat) list \<Rightarrow> 'v bg_oplog_partition \<Rightarrow> bool" where
  "sized t sizes p \<longleftrightarrow> osorted sizes \<and> set (keys sizes) = set (server_ids g) \<and>
     (\<forall>sid \<in> set (server_ids g). map_of sizes sid = Some (length (rows_img pd (rows_for g t sid (bp_map p)))))"

definition part_good :: "int \<Rightarrow> 'v bg_oplog_partition \<Rightarrow> bool" where
  "part_good t p \<longleftrightarrow> bp_table_id p = t \<and> amap_ok (bp_map p) \<and>
     (\<forall>(row, l) \<in> set (bp_map p). 0 \<le> row \<and> rol_ok l \<and> row_wire vok (row, l))"

lemma row_bytes: "row_oplog_bytes (p_size pd) l = length (row_img pd (row, l))"
  by (simp add: row_oplog_bytes_def row_img_length [OF pd] RowOpLog_GetSize_def algebra_simps)

lemma take_row_ok:
  fixes ol :: "('om, 'v) table_oplog"
  assumes ol: "opl_ok ck oinv g ol" "opl_wire ck vok ol" and row: "0 \<le> row" "row \<notin> set (keys (bp_map p))"
    and p: "part_good t p" "sized t sizes p"
  shows "\<exists>sizes' p' ol'. take_row_oplog ck g t (p_size pd) (sizes, p, ol) row = Inr (sizes', p', ol') \<and>
    opl_ok ck oinv g ol' \<and> opl_wire ck vok ol' \<and> part_good t p' \<and> sized t sizes' p' \<and>
    opl_pend ck g ol' = (opl_pend ck g ol)(row := (\<lambda>_. 0)) \<and> pval p' = (pval p)(row := opl_pend ck g ol row) \<and>
    set (keys (bp_map p')) \<subseteq> insert row (set (keys (bp_map p)))"
proof -
  let ?i = "bg_part g row" and ?q = "to_partitions ol ! bg_part g row"
  have len: "length (to_partitions ol) = nat (num_bg_threads g)" using ol(1) by (simp add: opl_ok_def)
  have i: "?i < length (to_partitions ol)" using bg_part_less [OF bg_pos, of row] len by simp
  have q: "part_ok ck oinv ?q" using ol(1) i by (simp add: opl_ok_def)
  obtain x q' where x: "GetEraseOpLog ck row ?q = Inr (x, q')" "part_ok ck oinv q'"
    "case x of None \<Rightarrow> ck_find ck (op_map ?q) row = None \<and> pend ck ?q row = (\<lambda>_. 0) \<and> q' = ?q
     | Some l \<Rightarrow> rol_ok l \<and> rol_val l = pend ck ?q row" "pend ck q' = (pend ck ?q)(row := (\<lambda>_. 0))"
    using GetErase_ok [OF q] by blast
  let ?ol = "ol\<lparr>to_partitions := (to_partitions ol)[?i := q']\<rparr>"
  have te: "table_GetEraseOpLog ck g row ol = Inr (x, ?ol)"
    using x(1) by (simp add: table_GetEraseOpLog_def on_partition_eq [OF row(1) bg_pos len])
  have o1: "opl_ok ck oinv g ?ol"
    using ol(1) x(2) set_update_subset_insert [of "to_partitions ol" ?i q'] by (auto simp: opl_ok_def)
  have pe: "opl_pend ck g ?ol = (opl_pend ck g ol)(row := (\<lambda>_. 0))"
    using i x(4) by (auto simp: opl_pend_def nth_list_update fun_eq_iff)
  have sub: "row_wire vok (r, l)" if "ck_find ck (op_map q') r = Some a" "map_of (op_store q') a = Some l" for r a l
  proof -
    have "ck_find ck (op_map ?q) r = Some a \<and> map_of (op_store ?q) a = Some l"
      using that x(1) q erase_find [of "op_map ?q" row r] by (auto simp: GetEraseOpLog_def rbind_eq_Inr part_ok_def delete_conv'
          split: option.splits if_splits)
    then show ?thesis using ol(2) nth_mem [OF i] unfolding opl_wire_def by blast
  qed
  have w1: "opl_wire ck vok ?ol"
    using ol(2) sub set_update_subset_insert [of "to_partitions ol" ?i q'] unfolding opl_wire_def by auto
  show ?thesis
  proof (cases x)
    case None
    have "map_of (bp_map p) row = None" using row(2) by (simp add: map_of_eq_None_iff)
    moreover have "opl_pend ck g ol row = (\<lambda>_. 0)" using x(3) None by (simp add: opl_pend_def)
    ultimately have "pval p = (pval p)(row := opl_pend ck g ol row)" by (auto simp: pval_def fun_eq_iff)
    then show ?thesis using None te o1 pe w1 p by (auto simp: take_row_oplog_def)
  next
    case (Some l)
    obtain sid where sid: "GetRowPartitionServerID g t row = Inr sid" "sid \<in> set (server_ids g)"
      using GetRowPartitionServerID_eq [OF g row(1), of t] g by (auto simp: ctx_ok_def nat_less_iff intro!: nth_mem)
    let ?p = "BgOpLogPartition_InsertOpLog row l p" and ?z = "add_bytes sid (row_oplog_bytes (p_size pd) l) sizes"
    have bp: "bp_map ?p = bp_map p @ [(row, l)]" "bp_table_id ?p = bp_table_id p"
      using row(2) by (simp_all add: BgOpLogPartition_InsertOpLog_def update_new map_of_eq_None_iff)
    obtain a where "ck_find ck (op_map ?q) row = Some a" "map_of (op_store ?q) a = Some l"
      using x(1) Some by (auto simp: GetEraseOpLog_def Oplog.deref_def of_option_def rbind_eq_Inr split: option.splits)
    then have "row_wire vok (row, l)" using ol(2) nth_mem [OF i] unfolding opl_wire_def by blast
    then have g1: "part_good t ?p" using p(1) row x(3) Some unfolding part_good_def bp by (auto simp: amap_ok_def)
    have "sized t ?z ?p"
      using p(2) sid row_bytes [of l row] unfolding sized_def bp
      by (auto simp: add_bytes_def osorted_oupd map_of_oupd rows_img_snoc_length rows_for_def simp del: set_map)
    moreover have "pval ?p = (pval p)(row := opl_pend ck g ol row)"
    proof -
      have "map_of (bp_map p) row = None" using row(2) by (simp only: map_of_eq_None_iff set_map) simp
      then have "map_of (bp_map ?p) r = (if r = row then Some l else map_of (bp_map p) r)" for r
        unfolding bp map_of_append map_add_def by (auto split: option.split)
      then show ?thesis using x(3) Some by (auto simp: pval_def opl_pend_def)
    qed
    ultimately show ?thesis
      using Some te o1 pe w1 g1 sid(1) bp by (intro exI [of _ ?z] exI [of _ ?p] exI [of _ ?ol]) (auto simp: take_row_oplog_def)
  qed
qed

end

context oplog_taking
begin

lemma take_rows_ok:
  fixes ol :: "('om, 'v) table_oplog"
  assumes "opl_ok ck oinv g ol" "opl_wire ck vok ol" "part_good t p" "sized t sizes p"
    and "\<forall>row \<in> set rows. 0 \<le> row" "distinct rows" "set rows \<inter> set (keys (bp_map p)) = {}"
  shows "\<exists>sizes' p' ol'. foldM (take_row_oplog ck g t (p_size pd)) (sizes, p, ol) rows = Inr (sizes', p', ol') \<and>
    opl_ok ck oinv g ol' \<and> opl_wire ck vok ol' \<and> part_good t p' \<and> sized t sizes' p' \<and>
    opl_pend ck g ol' = (\<lambda>row. if row \<in> set rows then (\<lambda>_. 0) else opl_pend ck g ol row) \<and>
    pval p' = (\<lambda>row. if row \<in> set rows then opl_pend ck g ol row else pval p row)"
  using assms
proof (induction rows arbitrary: sizes p ol)
  case (Cons row rows)
  obtain z1 p1 o1 where one: "take_row_oplog ck g t (p_size pd) (sizes, p, ol) row = Inr (z1, p1, o1)"
    "opl_ok ck oinv g o1" "opl_wire ck vok o1" "part_good t p1" "sized t z1 p1"
    "opl_pend ck g o1 = (opl_pend ck g ol)(row := (\<lambda>_. 0))" "pval p1 = (pval p)(row := opl_pend ck g ol row)"
    "set (keys (bp_map p1)) \<subseteq> insert row (set (keys (bp_map p)))"
    using take_row_ok [OF Cons.prems(1,2) _ _ Cons.prems(3,4), of row] Cons.prems(5,7) by auto
  have "set rows \<inter> set (keys (bp_map p1)) = {}" using one(8) Cons.prems(6,7) by auto
  from Cons.IH [OF one(2-5) _ _ this] Cons.prems(5,6) obtain z2 p2 o2 where two:
    "foldM (take_row_oplog ck g t (p_size pd)) (z1, p1, o1) rows = Inr (z2, p2, o2)"
    "opl_ok ck oinv g o2" "opl_wire ck vok o2" "part_good t p2" "sized t z2 p2"
    "opl_pend ck g o2 = (\<lambda>row. if row \<in> set rows then (\<lambda>_. 0) else opl_pend ck g o1 row)"
    "pval p2 = (\<lambda>row. if row \<in> set rows then opl_pend ck g o1 row else pval p1 row)" by auto
  have "opl_pend ck g o2 = (\<lambda>r. if r \<in> set (row # rows) then (\<lambda>_. 0) else opl_pend ck g ol r)"
    "pval p2 = (\<lambda>r. if r \<in> set (row # rows) then opl_pend ck g ol r else pval p r)"
    using two(6,7) one(6,7) Cons.prems(6) by (auto simp: fun_eq_iff)
  with one(1) two show ?case by simp
qed simp

lemma fresh_sized:
  assumes "osorted z" "set (keys z) \<subseteq> set (server_ids g)"
  shows "sized t (fold (\<lambda>sid z. oupd sid 4 z) (take (nat (num_servers g)) (server_ids g)) z) (BgOpLogPartition t u)"
proof -
  have ids: "take (nat (num_servers g)) (server_ids g) = server_ids g" using g by (simp add: ctx_ok_def)
  have "osorted (fold (\<lambda>sid z. oupd sid 4 z) xs z) \<and>
      (\<forall>s. map_of (fold (\<lambda>sid z. oupd sid 4 z) xs z) s = (if s \<in> set xs then Some 4 else map_of z s)) \<and>
      set (keys (fold (\<lambda>sid z. oupd sid 4 z) xs z)) = set xs \<union> set (keys z)" if "osorted z" for xs and z :: "(int \<times> nat) list"
    using that by (induction xs arbitrary: z) (auto simp: osorted_oupd map_of_oupd simp del: set_map)
  from this [OF assms(1), of "server_ids g"] assms(2) show ?thesis
    unfolding ids sized_def by (auto simp: BgOpLogPartition_def rows_for_def rows_img_def simp del: set_map)
qed

end

lemma set_sizes_of:
  assumes "osorted sizes"
  shows "map_of (set_sizes t sizes M) s = (case map_of sizes s of None \<Rightarrow> map_of M s
      | Some n \<Rightarrow> Some (oupd t n (case map_of M s of None \<Rightarrow> [] | Some l \<Rightarrow> l)))"
    "osorted M \<Longrightarrow> osorted (set_sizes t sizes M)" "set (keys (set_sizes t sizes M)) = set (keys sizes) \<union> set (keys M)"
proof -
  show "map_of (set_sizes t sizes M) s = (case map_of sizes s of None \<Rightarrow> map_of M s
      | Some n \<Rightarrow> Some (oupd t n (case map_of M s of None \<Rightarrow> [] | Some l \<Rightarrow> l)))"
    using assms unfolding set_sizes_def
    by (induction sizes arbitrary: M rule: osorted.induct)
       (auto simp: map_of_oupd osorted_absent split: option.split)
  show "osorted M \<Longrightarrow> osorted (set_sizes t sizes M)"
    unfolding set_sizes_def by (induction sizes arbitrary: M) (auto simp: osorted_oupd)
  show "set (keys (set_sizes t sizes M)) = set (keys sizes) \<union> set (keys M)"
    unfolding set_sizes_def by (induction sizes arbitrary: M) (auto simp del: set_map simp: )
qed

section \<open>Taking the oplogs of all tables\<close>

definition indexed where
  "indexed m lb ct row \<longleftrightarrow> ck_find (cm_index m) (ct_oplog_index ct ! lb) row \<noteq> None"

definition tab_ready where
  "tab_ready m oinv iinv g pd vok lb ct \<longleftrightarrow> opl_ok (cm_oplog m) oinv g (ct_oplog ct) \<and> opl_wire (cm_oplog m) vok (ct_oplog ct) \<and>
     length (ct_oplog_index ct) = nat (num_bg_threads g) \<and> (\<forall>x \<in> set (ct_oplog_index ct). iinv x) \<and>
     (\<forall>row. indexed m lb ct row \<longrightarrow> 0 \<le> row) \<and> ro_get_update_size (ct_sample ct) = p_size pd"

definition taken where
  "taken m g lb ct ct' p \<longleftrightarrow>
     ct' = ct\<lparr>ct_oplog := ct_oplog ct', ct_oplog_index := (ct_oplog_index ct)[lb := ck_new (cm_index m)]\<rparr> \<and>
     tpend m g ct' = (\<lambda>row. if indexed m lb ct row then (\<lambda>_. 0) else tpend m g ct row) \<and>
     pval p = (\<lambda>row. if indexed m lb ct row then tpend m g ct row else (\<lambda>_. 0))"

locale oplog_clock = oplog_taking "cm_oplog m" oinv ops g pd vok + index: cuckoo_map "cm_index m" iinv
  for m :: "('pm, 'om, 'im) cl_maps" and oinv iinv and ops :: "('r, 'v::ab_group_add) row_ops" and g pd vok +
  fixes lb :: nat
  assumes lb: "lb < nat (num_bg_threads g)"
begin

lemma get_table_ok:
  fixes ct :: "('pm, 'om, 'im, 'r, 'v) client_table"
  assumes "tab_ready m oinv iinv g pd vok lb ct" and z: "osorted (bc_table_sizes c)" "set (keys (bc_table_sizes c)) \<subseteq> set (server_ids g)"
  shows "\<exists>p ct' z. get_table_oplog m g (int lb) (bg, c, done) (t, ct) =
      Inr (oupd t p bg, c\<lparr>bc_table_sizes := z, bc_sizes := set_sizes t z (bc_sizes c)\<rparr>, done @ [(t, ct')]) \<and>
    taken m g lb ct ct' p \<and> tab_ready m oinv iinv g pd vok lb ct' \<and> part_good t p \<and> sized t z p"
proof -
  let ?i = "ct_oplog_index ct ! lb" and ?new = "(ct_oplog_index ct)[lb := ck_new (cm_index m)]"
  let ?rows = "map fst (ck_list (cm_index m) ?i)" and ?p0 = "BgOpLogPartition t (p_size pd) :: 'v bg_oplog_partition"
  let ?z0 = "fold (\<lambda>sid z. oupd sid 4 z) (take (nat (num_servers g)) (server_ids g)) (bc_table_sizes c)"
  have r: "opl_ok (cm_oplog m) oinv g (ct_oplog ct)" "opl_wire (cm_oplog m) vok (ct_oplog ct)"
    "length (ct_oplog_index ct) = nat (num_bg_threads g)" "iinv ?i" "\<forall>x \<in> set (ct_oplog_index ct). iinv x"
    "\<And>row. indexed m lb ct row \<Longrightarrow> 0 \<le> row" "ro_get_update_size (ct_sample ct) = p_size pd"
    using assms(1) lb by (simp_all add: tab_ready_def)
  have rows: "row \<in> set ?rows \<longleftrightarrow> indexed m lb ct row" for row
    using index.list_find [OF r(4)] by (metis indexed_def map_of_eq_None_iff set_map)
  have p0: "part_good t ?p0" "set (keys (bp_map ?p0)) = {}" "pval ?p0 = (\<lambda>_ _. 0)"
    by (simp_all add: part_good_def BgOpLogPartition_def amap_ok_def pval_def fun_eq_iff)
  have h: "\<forall>row \<in> set ?rows. 0 \<le> row" "distinct ?rows" "set ?rows \<inter> set (keys (bp_map ?p0)) = {}"
    using rows r(6) index.list_distinct [OF r(4)] p0(2) by (simp_all del: set_map)
  obtain z' p ol where f: "foldM (take_row_oplog (cm_oplog m) g t (p_size pd)) (?z0, ?p0, ct_oplog ct) ?rows = Inr (z', p, ol)"
    "opl_ok (cm_oplog m) oinv g ol" "opl_wire (cm_oplog m) vok ol" "part_good t p" "sized t z' p"
    "opl_pend (cm_oplog m) g ol = (\<lambda>row. if row \<in> set ?rows then (\<lambda>_. 0) else opl_pend (cm_oplog m) g (ct_oplog ct) row)"
    "pval p = (\<lambda>row. if row \<in> set ?rows then opl_pend (cm_oplog m) g (ct_oplog ct) row else pval ?p0 row)"
    using take_rows_ok [OF r(1,2) p0(1) fresh_sized [OF z] h] by blast
  let ?ct = "ct\<lparr>ct_oplog_index := ?new, ct_oplog := ol\<rparr>"
  have reset: "GetAndResetOpLogIndex m (int lb) ct = Inr (?i, ct\<lparr>ct_oplog_index := ?new\<rparr>)"
    using lb r(3) by (simp add: GetAndResetOpLogIndex_def ResetPartition_def index_Reset_def vec_at_def)
  have tp: "tpend m g ?ct = opl_pend (cm_oplog m) g ol" "tpend m g ct = opl_pend (cm_oplog m) g (ct_oplog ct)"
    by (simp_all add: tpend_def opl_pend_def fun_eq_iff)
  have "taken m g lb ct ?ct p"
    unfolding taken_def tp f(6,7) rows p0(3) by simp
  moreover have "tab_ready m oinv iinv g pd vok lb ?ct"
    using f(2,3) r lb index.new_ok set_update_subset_insert [of "ct_oplog_index ct" lb "ck_new (cm_index m)"]
    by (auto simp: tab_ready_def indexed_def)
  ultimately show ?thesis using f(1,4,5) reset r(7)
    by (intro exI [of _ p] exI [of _ ?ct] exI [of _ z']) (simp add: get_table_oplog_def BgOpLog_Add_def Let_def)
qed

text \<open>The sizes recorded so far: right for the tables in \<open>D\<close>, nothing but tables in \<open>T\<close>.\<close>

definition szs where
  "szs T D bg M \<longleftrightarrow> osorted M \<and> set (keys M) = set (server_ids g) \<and>
     (\<forall>sid \<in> set (server_ids g). \<exists>l. map_of M sid = Some l \<and> osorted l \<and> set (keys l) \<subseteq> T \<and>
        (\<forall>t \<in> D. \<exists>p. map_of bg t = Some p \<and> map_of l t = Some (length (rows_img pd (rows_for g t sid (bp_map p))))))"

lemma szs_step:
  assumes "szs T D bg M" "sized t z p" "t \<in> T" "t \<notin> D"
  shows "szs T (insert t D) (oupd t p bg) (set_sizes t z M)"
proof -
  have z: "osorted z" "set (keys z) = set (server_ids g)"
    "\<And>sid. sid \<in> set (server_ids g) \<Longrightarrow> map_of z sid = Some (length (rows_img pd (rows_for g t sid (bp_map p))))"
    using assms(2) by (simp_all add: sized_def)
  have "\<exists>l. map_of (set_sizes t z M) sid = Some l \<and> osorted l \<and> set (keys l) \<subseteq> T \<and>
        (\<forall>u \<in> insert t D. \<exists>q. map_of (oupd t p bg) u = Some q \<and> map_of l u = Some (length (rows_img pd (rows_for g u sid (bp_map q)))))"
    if s: "sid \<in> set (server_ids g)" for sid
  proof -
    obtain l where l: "map_of M sid = Some l" "osorted l" "set (keys l) \<subseteq> T"
      "\<forall>u \<in> D. \<exists>q. map_of bg u = Some q \<and> map_of l u = Some (length (rows_img pd (rows_for g u sid (bp_map q))))"
      using assms(1) s unfolding szs_def by blast
    have "map_of (set_sizes t z M) sid = Some (oupd t (length (rows_img pd (rows_for g t sid (bp_map p)))) l)"
      using set_sizes_of(1) [OF z(1), of t M sid] z(3) [OF s] l(1) by simp
    then show ?thesis using l assms(3,4) by (auto simp: osorted_oupd map_of_oupd simp del: set_map)
  qed
  then show ?thesis using assms(1) set_sizes_of(2,3) [OF z(1)] z(2) unfolding szs_def by simp
qed

lemma get_tables_ok:
  fixes tabs :: "(int \<times> ('pm, 'om, 'im, 'r, 'v) client_table) list"
  assumes "\<forall>(t, ct) \<in> set tabs. tab_ready m oinv iinv g pd vok lb ct"
    and "osorted (bc_table_sizes c)" "set (keys (bc_table_sizes c)) \<subseteq> set (server_ids g)"
    and "szs T D bg (bc_sizes c)" "set (keys tabs) \<subseteq> T" "distinct (keys tabs)" "set (keys tabs) \<inter> D = {}"
  shows "\<exists>bg' c' tabs'. foldM (get_table_oplog m g (int lb)) (bg, c, done) tabs = Inr (bg', c', done @ tabs') \<and>
    c' = c\<lparr>bc_table_sizes := bc_table_sizes c', bc_sizes := bc_sizes c'\<rparr> \<and> szs T (D \<union> set (keys tabs)) bg' (bc_sizes c') \<and>
    keys tabs' = keys tabs \<and> (\<forall>t. t \<notin> set (keys tabs) \<longrightarrow> map_of bg' t = map_of bg t) \<and>
    (\<forall>(t, ct) \<in> set tabs. \<exists>ct' p. map_of tabs' t = Some ct' \<and> map_of bg' t = Some p \<and> taken m g lb ct ct' p \<and>
       tab_ready m oinv iinv g pd vok lb ct' \<and> part_good t p)"
  using assms
proof (induction tabs arbitrary: bg c \<open>done\<close> D)
  case Nil
  then show ?case by simp
next
  case (Cons x tabs)
  obtain t ct where x: "x = (t, ct)" by force
  have "tab_ready m oinv iinv g pd vok lb ct" using Cons.prems(1) x by simp
  from get_table_ok [OF this Cons.prems(2,3)] obtain p ct1 z where one:
    "get_table_oplog m g (int lb) (bg, c, done) x =
       Inr (oupd t p bg, c\<lparr>bc_table_sizes := z, bc_sizes := set_sizes t z (bc_sizes c)\<rparr>, done @ [(t, ct1)])"
    "taken m g lb ct ct1 p" "tab_ready m oinv iinv g pd vok lb ct1" "part_good t p" "sized t z p" using x by blast
  let ?c = "c\<lparr>bc_table_sizes := z, bc_sizes := set_sizes t z (bc_sizes c)\<rparr>"
  have tD: "t \<in> T" "t \<notin> D" "t \<notin> set (keys tabs)" using Cons.prems(5-7) x by auto
  have h: "\<forall>(t, ct) \<in> set tabs. tab_ready m oinv iinv g pd vok lb ct" "osorted (bc_table_sizes ?c)"
    "set (keys (bc_table_sizes ?c)) \<subseteq> set (server_ids g)" "szs T (insert t D) (oupd t p bg) (bc_sizes ?c)"
    "set (keys tabs) \<subseteq> T" "distinct (keys tabs)" "set (keys tabs) \<inter> insert t D = {}"
    using Cons.prems x one(5) szs_step [OF Cons.prems(4) one(5) tD(1,2)] tD by (auto simp: sized_def simp del: set_map)
  from Cons.IH [OF h, of "done @ [(t, ct1)]"] obtain bg2 c2 tabs2 where two:
    "foldM (get_table_oplog m g (int lb)) (oupd t p bg, ?c, done @ [(t, ct1)]) tabs = Inr (bg2, c2, (done @ [(t, ct1)]) @ tabs2)"
    "c2 = ?c\<lparr>bc_table_sizes := bc_table_sizes c2, bc_sizes := bc_sizes c2\<rparr>" "szs T (insert t D \<union> set (keys tabs)) bg2 (bc_sizes c2)"
    "keys tabs2 = keys tabs" "\<forall>u. u \<notin> set (keys tabs) \<longrightarrow> map_of bg2 u = map_of (oupd t p bg) u"
    "\<forall>(t, ct) \<in> set tabs. \<exists>ct' p. map_of tabs2 t = Some ct' \<and> map_of bg2 t = Some p \<and> taken m g lb ct ct' p \<and>
       tab_ready m oinv iinv g pd vok lb ct' \<and> part_good t p" by blast
  let ?tabs = "(t, ct1) # tabs2"
  have a: "foldM (get_table_oplog m g (int lb)) (bg, c, done) (x # tabs) = Inr (bg2, c2, done @ ?tabs)"
    using one(1) two(1) by simp
  have b: "c2 = c\<lparr>bc_table_sizes := bc_table_sizes c2, bc_sizes := bc_sizes c2\<rparr>" using two(2) by simp
  have c: "szs T (D \<union> set (keys (x # tabs))) bg2 (bc_sizes c2)" using two(3) x by simp
  have d: "\<forall>u. u \<notin> set (keys (x # tabs)) \<longrightarrow> map_of bg2 u = map_of bg u" using two(5) x by (simp add: map_of_oupd)
  have e: "\<forall>(u, ct) \<in> set (x # tabs). \<exists>ct' p. map_of ?tabs u = Some ct' \<and> map_of bg2 u = Some p \<and> taken m g lb ct ct' p \<and>
       tab_ready m oinv iinv g pd vok lb ct' \<and> part_good u p"
  proof (clarify, goal_cases)
    case (1 u cu)
    show ?case
    proof (cases "(u, cu) = x")
      case True
      then show ?thesis using one two(5) tD(3) x by (auto simp: map_of_oupd)
    next
      case False
      with 1 have "(u, cu) \<in> set tabs" by auto
      moreover from this have "u \<noteq> t" using tD(3) by force
      ultimately show ?thesis using bspec [OF two(6), of "(u, cu)"] by simp
    qed
  qed
  have f: "keys ?tabs = keys (x # tabs)" using two(4) x by simp
  show ?case by (intro exI [of _ bg2] exI [of _ c2] exI [of _ ?tabs] conjI a b c d e f)
qed

end

definition clock_ready where
  "clock_ready m oinv iinv g pd vok lb s \<longleftrightarrow> osorted (bs_tables s) \<and> is_size (p_size pd) \<and>
     (\<forall>(t, ct) \<in> set (bs_tables s). is_i32 t \<and> tab_ready m oinv iinv g pd vok lb ct) \<and>
     osorted (bc_table_sizes (bs_ctx s)) \<and> set (keys (bc_table_sizes (bs_ctx s))) \<subseteq> set (server_ids g) \<and>
     osorted (bc_sizes (bs_ctx s)) \<and> set (keys (bc_sizes (bs_ctx s))) = set (server_ids g) \<and>
     (\<forall>(sid, l) \<in> set (bc_sizes (bs_ctx s)). osorted l \<and> set (keys l) \<subseteq> set (keys (bs_tables s)))"

text \<open>The pending updates of the rows that this background thread is to send.\<close>

definition due where
  "due m g lb s t row c =
     (case map_of (bs_tables s) t of None \<Rightarrow> 0 | Some ct \<Rightarrow> if indexed m lb ct row then tpend m g ct row c else 0)"

definition drained where
  "drained m g lb s s' \<longleftrightarrow> keys (bs_tables s') = keys (bs_tables s) \<and>
     (\<forall>t ct. map_of (bs_tables s) t = Some ct \<longrightarrow> (\<exists>ct'. map_of (bs_tables s') t = Some ct' \<and>
        ct' = ct\<lparr>ct_oplog := ct_oplog ct', ct_oplog_index := (ct_oplog_index ct)[lb := ck_new (cm_index m)]\<rparr> \<and>
        tpend m g ct' = (\<lambda>row. if indexed m lb ct row then (\<lambda>_. 0) else tpend m g ct row)))"

context oplog_clock
begin

lemma GetOpLogAndIndex_ok:
  fixes s :: "('pm, 'om, 'im, 'r, 'v) bg_state"
  assumes "clock_ready m oinv iinv g pd vok lb s" "be_maps e = m" "my_id - get_head_bg_id (client_id g) = int lb"
  shows "\<exists>bg s1. GetOpLogAndIndex e g my_id s = Inr (bg, s1) \<and> drained m g lb s s1 \<and>
    bs_ctx s1 = (bs_ctx s)\<lparr>bc_table_sizes := bc_table_sizes (bs_ctx s1), bc_sizes := bc_sizes (bs_ctx s1)\<rparr> \<and>
    s1 = s\<lparr>bs_ctx := bs_ctx s1, bs_tables := bs_tables s1\<rparr> \<and> bg_val bg = due m g lb s \<and>
    ((\<forall>(sid, ts) \<in> set (bc_sizes (bs_ctx s1)). msg_size ts < 2 ^ 31) \<longrightarrow>
      sizes_ok pd g (table_sizes (bs_tables s1)) (bc_sizes (bs_ctx s1)) bg \<and>
      bg_wire vok (table_sizes (bs_tables s1)) bg \<and> bg_ok (table_sizes (bs_tables s1)) bg)"
proof -
  let ?c = "bs_ctx s" and ?T = "set (keys (bs_tables s))"
  have r: "osorted (bs_tables s)" "is_size (p_size pd)" "osorted (bc_table_sizes ?c)" "set (keys (bc_table_sizes ?c)) \<subseteq> set (server_ids g)"
    "osorted (bc_sizes ?c)" "set (keys (bc_sizes ?c)) = set (server_ids g)"
    "\<forall>(sid, l) \<in> set (bc_sizes ?c). osorted l \<and> set (keys l) \<subseteq> ?T"
    "\<forall>(t, ct) \<in> set (bs_tables s). tab_ready m oinv iinv g pd vok lb ct" "\<forall>t \<in> ?T. is_i32 t"
    using assms(1) unfolding clock_ready_def by auto
  have dt: "distinct (keys (bs_tables s))" using osorted_distinct r(1) by blast
  have "\<exists>l. map_of (bc_sizes ?c) sid = Some l \<and> osorted l \<and> set (keys l) \<subseteq> ?T" if s: "sid \<in> set (server_ids g)" for sid
  proof -
    obtain l where l: "map_of (bc_sizes ?c) sid = Some l" using s r(6) by (metis map_of_eq_None_iff not_None_eq set_map)
    then show ?thesis using bspec [OF r(7) map_of_SomeD [OF l]] by simp
  qed
  then have z0: "szs ?T {} [] (bc_sizes ?c)" using r(5,6) by (simp add: szs_def)
  obtain bg c' tabs' where f: "foldM (get_table_oplog m g (int lb)) ([], ?c, []) (bs_tables s) = Inr (bg, c', [] @ tabs')"
    "c' = ?c\<lparr>bc_table_sizes := bc_table_sizes c', bc_sizes := bc_sizes c'\<rparr>" "szs ?T ({} \<union> ?T) bg (bc_sizes c')"
    "keys tabs' = keys (bs_tables s)" "\<forall>t. t \<notin> ?T \<longrightarrow> map_of bg t = map_of [] t"
    "\<forall>(t, ct) \<in> set (bs_tables s). \<exists>ct' p. map_of tabs' t = Some ct' \<and> map_of bg t = Some p \<and> taken m g lb ct ct' p \<and>
       tab_ready m oinv iinv g pd vok lb ct' \<and> part_good t p"
    using get_tables_ok [OF r(8,3,4) z0 order.refl dt, of "[]"] by blast
  let ?s = "s\<lparr>bs_ctx := c', bs_tables := tabs'\<rparr>"
  have get: "GetOpLogAndIndex e g my_id s = Inr (bg, ?s)" using f(1) assms(2,3) by (simp add: GetOpLogAndIndex_def)
  have tab: "\<exists>ct' p. map_of tabs' t = Some ct' \<and> map_of bg t = Some p \<and> taken m g lb ct ct' p \<and>
       tab_ready m oinv iinv g pd vok lb ct' \<and> part_good t p" if "map_of (bs_tables s) t = Some ct" for t ct
    using bspec [OF f(6) map_of_SomeD [OF that]] by simp
  have dr: "drained m g lb s ?s" using f(4) tab by (fastforce simp: drained_def taken_def)
  have "bg_val bg t row c = due m g lb s t row c" for t row c
  proof (cases "map_of (bs_tables s) t")
    case None
    then have "map_of bg t = None" using f(5) by (simp add: map_of_eq_None_iff)
    with None show ?thesis by (simp add: due_def bg_val_def bg_rows_def)
  next
    case (Some ct)
    from tab [OF this] obtain p where p: "map_of bg t = Some p"
      "pval p = (\<lambda>row. if indexed m lb ct row then tpend m g ct row else (\<lambda>_. 0))" by (auto simp: taken_def)
    have "bg_val bg t row c = pval p row c" using p(1) by (simp add: bg_val_def bg_rows_def pval_def split: option.split)
    then show ?thesis using p(2) Some by (simp add: due_def)
  qed
  then have due: "bg_val bg = due m g lb s" by (simp add: fun_eq_iff)
  have part: "\<exists>p. map_of bg t = Some p \<and> part_good t p" if "t \<in> ?T" for t
    using tab that by (metis map_of_eq_None_iff not_None_eq set_map)
  have kts: "keys (table_sizes tabs') = keys (bs_tables s)" using f(4) by (simp add: table_sizes_def case_prod_beta' comp_def)
  have inT: "t \<in> ?T" if "(t, us) \<in> set (table_sizes tabs')" for t us
    using that kts by (metis fst_conv image_eqI set_map)
  have good: "0 \<le> row \<and> rol_ok l \<and> row_wire vok (row, l)" if "t \<in> ?T" "(row, l) \<in> set (bg_rows bg t)" for t row l
    using part [OF that(1)] that(2) by (auto simp: bg_rows_def part_good_def)
  have us: "us = p_size pd" if u: "(t, us) \<in> set (table_sizes tabs')" for t us
  proof -
    obtain ct where ct: "(t, ct) \<in> set tabs'" "us = ro_get_update_size (ct_sample ct)" using u by (auto simp: table_sizes_def)
    have "distinct (keys tabs')" using dt f(4) by simp
    then have "map_of tabs' t = Some ct" using ct(1) by simp
    moreover obtain ct0 where "map_of (bs_tables s) t = Some ct0"
      using ct(1) f(4) by (metis image_eqI fst_conv map_of_eq_None_iff not_None_eq set_map)
    ultimately show ?thesis using tab ct(2) by (fastforce simp: tab_ready_def)
  qed
  have wire: "bg_wire vok (table_sizes tabs') bg" "bg_ok (table_sizes tabs') bg"
  proof -
    have "row_wire vok x" if u: "(t, us) \<in> set (table_sizes tabs')" "x \<in> set (bg_rows bg t)" for t us x
      using good [OF inT [OF u(1)], of "fst x" "snd x"] u(2) by simp
    then show "bg_wire vok (table_sizes tabs') bg" unfolding bg_wire_def by blast
    have "amap_ok (bg_rows bg t) \<and> (\<forall>(row, l) \<in> set (bg_rows bg t). rol_ok l)" if u: "t \<in> ?T" for t
      using part [OF u] by (auto simp: bg_rows_def part_good_def)
    then show "bg_ok (table_sizes tabs') bg" unfolding bg_ok_def kts by blast
  qed
  have so: "osorted (table_sizes tabs')" using r(1) f(4) kts by (simp add: osorted_wrt)
  have "sizes_ok pd g (table_sizes tabs') (bc_sizes c') bg" if small: "\<forall>(sid, ts) \<in> set (bc_sizes c'). msg_size ts < 2 ^ 31"
  proof -
    have M: "osorted (bc_sizes c')" "set (keys (bc_sizes c')) = set (server_ids g)" using f(3) by (simp_all add: szs_def)
    have tabs: "is_i32 t \<and> is_size us \<and> us = p_size pd \<and> (\<exists>p. map_of bg t = Some p \<and> bp_table_id p = t \<and>
           (\<forall>(row, l) \<in> set (bp_map p). 0 \<le> row \<and> is_i32 row))" if u: "(t, us) \<in> set (table_sizes tabs')" for t us
    proof -
      note t = inT [OF u]
      then obtain p where "map_of bg t = Some p" "part_good t p" using part by blast
      then show ?thesis using us [OF u] r(2,9) t by (auto simp: part_good_def row_wire_def)
    qed
    have servers: "keys ts = keys (table_sizes tabs') \<and> msg_size ts < 2 ^ 31 \<and>
        (\<forall>(t, sz) \<in> set ts. \<forall>p. map_of bg t = Some p \<longrightarrow> sz = length (rows_img pd (rows_for g t sid (bp_map p))))"
      if u: "(sid, ts) \<in> set (bc_sizes c')" for sid ts
    proof -
      have sid: "sid \<in> set (server_ids g)" using u M(2) by (metis fst_conv image_eqI set_map)
      have e: "map_of (bc_sizes c') sid = Some ts" using u osorted_distinct [OF M(1)] by simp
      obtain l where "map_of (bc_sizes c') sid = Some l" "osorted l" "set (keys l) \<subseteq> ?T"
        "\<forall>t \<in> ?T. \<exists>p. map_of bg t = Some p \<and> map_of l t = Some (length (rows_img pd (rows_for g t sid (bp_map p))))"
        using f(3) sid unfolding szs_def Un_empty_left by blast
      then have ts: "osorted ts" "set (keys ts) \<subseteq> ?T"
        "\<forall>t \<in> ?T. \<exists>p. map_of bg t = Some p \<and> map_of ts t = Some (length (rows_img pd (rows_for g t sid (bp_map p))))"
        unfolding e option.inject by blast+
      have "?T \<subseteq> set (keys ts)" using ts(3) by (metis map_of_eq_None_iff option.distinct(1) set_map subsetI)
      with ts(1,2) r(1) have "keys ts = keys (bs_tables s)"
        by (intro strict_sorted_equal) (auto simp: osorted_wrt simp del: set_map)
      moreover have "sz = length (rows_img pd (rows_for g t sid (bp_map p)))" if v: "(t, sz) \<in> set ts" "map_of bg t = Some p" for t sz p
      proof -
        have "t \<in> ?T" using v(1) ts(2) by (metis fst_conv image_eqI set_map subsetD)
        then show ?thesis using ts(3) v osorted_distinct [OF ts(1)] by fastforce
      qed
      ultimately show ?thesis using small u kts by auto
    qed
    show ?thesis unfolding sizes_ok_def using so M tabs servers by blast
  qed
  with wire get dr due f(2) show ?thesis by (intro exI [of _ bg] exI [of _ ?s]) simp
qed

end

section \<open>Delivery\<close>

definition mgr_room :: "32 word \<Rightarrow> 'o oplog_mgr \<Rightarrow> bool" where
  "mgr_room v mgr = (case mgr of SSPMgr x \<Rightarrow> map_of (version_oplog_map x) v = None | PushMgr _ \<Rightarrow> True)"

lemma mgr_AddOpLog_room: "mgr_room v mgr \<Longrightarrow> \<exists>b mgr'. mgr_AddOpLog v ol mgr = Inr (b, mgr')"
  by (cases mgr) (auto simp: mgr_room_def ssp_AddOpLog_def check_def push_AddOpLog_def)

text \<open>
  A message \<open>data\<close> with the updates \<open>ups\<close>, applied by any server in good state that knows the
  tables and last saw the previous version, adds the values \<open>val\<close> to the rows of server \<open>sid\<close>.
\<close>

definition delivers where
  "delivers ops rinv rval rcol colok reg pd g val v ups sid data \<longleftrightarrow>
     (\<forall>fuel srv b. srv_ok ops rinv rcol colok srv \<and> map_of (bg_version_map srv) b = Some (v - 1) \<and>
        ups_ok colok (infos srv) ups \<and> length ups < fuel \<longrightarrow>
        (\<exists>srv'. ApplyOpLog fuel pd reg data b v srv = Inr srv' \<and> srv_ok ops rinv rcol colok srv' \<and>
           (\<forall>t row c. sval rval srv' t row c = sval rval srv t row c +
              (if GetRowPartitionServerID g t row = Inr sid then val t row c else 0))))"

text \<open>
  C3. A clock of a background thread delivers the updates. It collects the pending
  updates of the indexed rows of all tables, which are gone from the tables afterwards, and (if no
  message exceeds the int32 range) sends every server one message with the current
  version. A server that has the previous version of this thread and applies the message adds to
  each entry of the rows it owns exactly the updates that were pending there, and nothing elsewhere.
\<close>

theorem clock_delivers_updates:
  fixes ops :: "('r, 'v::ab_group_add) row_ops" and s :: "('pm, 'om, 'im, 'r, 'v) bg_state" and e :: "('pm, 'om, 'im, 'r, 'v) bg_env"
  assumes law: "server_rows ops rinv rval rcol rwire reg colok" and cl: "oplog_clock m oinv iinv ops g pd vok lb"
    and s: "clock_ready m oinv iinv g pd vok lb s" "mgr_room (bc_version (bs_ctx s)) (bc_mgr (bs_ctx s))"
    and e: "be_maps e = m" "be_pod e = pd" "\<forall>n. length (be_alloc e n) = n" "my_id - get_head_bg_id (client_id g) = int lb"
  shows "\<exists>bg s1. GetOpLogAndIndex e g my_id s = Inr (bg, s1) \<and> drained m g lb s s1 \<and>
    ((\<forall>(sid, ts) \<in> set (bc_sizes (bs_ctx s1)). msg_size ts < 2 ^ 31) \<longrightarrow>
     (\<exists>os s'. HandleClockMsg e g my_id adv s = Inr (os, s') \<and> bs_tables s' = bs_tables s1 \<and>
        bc_version (bs_ctx s') = bc_version (bs_ctx s) + 1 \<and>
        (\<forall>sid \<in> set (server_ids g). \<exists>data.
           ToServer sid (ClientSendOpLogMsg (client_id g) adv (bc_version (bs_ctx s)) data) \<in> set os \<and>
           delivers ops rinv rval rcol colok reg pd g (due m g lb s) (bc_version (bs_ctx s))
             (server_updates g (table_sizes (bs_tables s1)) bg sid) sid data)))"
proof -
  let ?v = "bc_version (bs_ctx s)"
  from oplog_clock.GetOpLogAndIndex_ok [OF cl s(1) e(1,4)] obtain bg s1 where get: "GetOpLogAndIndex e g my_id s = Inr (bg, s1)"
    "drained m g lb s s1"
    "bs_ctx s1 = (bs_ctx s)\<lparr>bc_table_sizes := bc_table_sizes (bs_ctx s1), bc_sizes := bc_sizes (bs_ctx s1)\<rparr>" "bg_val bg = due m g lb s"
    "(\<forall>(sid, ts) \<in> set (bc_sizes (bs_ctx s1)). msg_size ts < 2 ^ 31) \<longrightarrow>
      sizes_ok pd g (table_sizes (bs_tables s1)) (bc_sizes (bs_ctx s1)) bg \<and>
      bg_wire vok (table_sizes (bs_tables s1)) bg \<and> bg_ok (table_sizes (bs_tables s1)) bg" by blast
  have g: "ctx_ok g" "pod_ok pd vok"
    using cl by (simp_all add: oplog_clock_def oplog_taking_def oplog_taking_axioms_def)
  have c1: "bc_version (bs_ctx s1) = ?v" "bc_mgr (bs_ctx s1) = bc_mgr (bs_ctx s)"
    by (subst get(3), simp)+
  let ?ts = "table_sizes (bs_tables s1)"
  have "\<exists>os s'. HandleClockMsg e g my_id adv s = Inr (os, s') \<and> bs_tables s' = bs_tables s1 \<and> bc_version (bs_ctx s') = ?v + 1 \<and>
        (\<forall>sid \<in> set (server_ids g). \<exists>data. ToServer sid (ClientSendOpLogMsg (client_id g) adv ?v data) \<in> set os \<and>
           delivers ops rinv rval rcol colok reg pd g (due m g lb s) ?v (server_updates g ?ts bg sid) sid data)"
    if "\<forall>(sid, ts) \<in> set (bc_sizes (bs_ctx s1)). msg_size ts < 2 ^ 31"
  proof -
    have w: "sizes_ok pd g ?ts (bc_sizes (bs_ctx s1)) bg" "bg_wire vok ?ts bg" "bg_ok ?ts bg" using get(5) that by blast+
    obtain ms where ms: "CreateOpLogMsgs pd g ?ts (be_alloc e) (bc_sizes (bs_ctx s1)) bg = Inr ms"
      "\<forall>sid \<in> set (server_ids g). map_of ms sid = Some (msg_img pd g ?ts bg sid) \<and> length (msg_img pd g ?ts bg sid) < 2 ^ 31"
      using CreateOpLogMsgs_ok [OF g(2,1) w(1) e(3)] by blast
    obtain b mgr where add: "mgr_AddOpLog ?v bg (bc_mgr (bs_ctx s)) = Inr (b, mgr)" using mgr_AddOpLog_room [OF s(2)] by blast
    let ?os = "map (\<lambda>(sid, data). ToServer sid (ClientSendOpLogMsg (client_id g) adv ?v data)) ms"
    have h: "\<exists>s'. HandleClockMsg e g my_id adv s = Inr (?os, s') \<and> bs_tables s' = bs_tables s1 \<and> bc_version (bs_ctx s') = ?v + 1"
      using get(1) ms(1) add c1 e(2) by (simp add: HandleClockMsg_def Let_def)
    have "ToServer sid (ClientSendOpLogMsg (client_id g) adv ?v (msg_img pd g ?ts bg sid)) \<in> set ?os" if "sid \<in> set (server_ids g)" for sid
      using map_of_SomeD [of ms sid] ms(2) that by (force simp: image_iff)
    moreover have "\<exists>srv'. ApplyOpLog fuel pd reg (msg_img pd g ?ts bg sid) x ?v srv = Inr srv' \<and> srv_ok ops rinv rcol colok srv' \<and>
                 (\<forall>t row c. sval rval srv' t row c = sval rval srv t row c +
                    (if GetRowPartitionServerID g t row = Inr sid then due m g lb s t row c else 0))"
      if h: "sid \<in> set (server_ids g)" "srv_ok ops rinv rcol colok srv" "map_of (bg_version_map srv) x = Some (?v - 1)"
        "ups_ok colok (infos srv) (server_updates g ?ts bg sid)" "length (server_updates g ?ts bg sid) < fuel" for sid fuel srv x
    proof -
      have l: "length (msg_img pd g ?ts bg sid) < 2 ^ 31" using ms(2) h(1) by blast
      have keys: "set (keys ?ts) = set (keys (bs_tables s))"
        using get(2) by (simp add: drained_def table_sizes_def case_prod_beta' comp_def del: set_map)
      have z: "due m g lb s t row c = 0" if "t \<notin> set (keys ?ts)" for t row c
        using that unfolding keys by (simp add: due_def map_of_eq_None_iff [symmetric])
      from msg_img_applied [OF law g(2) w l h(5,2,4,3)] get(4) z show ?thesis by fastforce
    qed
    ultimately show ?thesis using h unfolding delivers_def by blast
  qed
  with get(1,2) show ?thesis by blast
qed

definition demo_env :: "((int, nat \<times> int) amap, (int, nat) amap, (int, bool) amap, int sparse_row, int) bg_env" where
  "demo_env = \<lparr>be_maps = alist_maps, be_reg = reg_of (sparse_ops i32_pod), be_pod = i32_pod, be_alloc = (\<lambda>n. replicate n 0),
     be_fuel = 10, be_try_lock = (\<lambda>_ _. True), be_other = (\<lambda>st. st), be_sent = False, be_stray = Inr ()\<rparr>"

definition demo_bg_state :: "((int, nat \<times> int) amap, (int, nat) amap, (int, bool) amap, int sparse_row, int) bg_state" where
  "demo_bg_state = \<lparr>bs_ctx = projr (InitBgContext demo_ctx),
     bs_tables = [(0, projr (foldM (client_step alist_maps demo_ctx) demo_table [C_Inc 200 5 0 3, C_Clock 200]))],
     bs_system_clock = 0, bs_bg_server_clock = VectorClock0, bs_connected = 0, bs_deregistered = 0, bs_acked = 0\<rparr>"


interpretation sparse_clock: oplog_clock alist_maps amap_ok amap_ok "sparse_ops i32_pod" demo_ctx i32_pod is_i32 0
proof (intro oplog_clock.intro oplog_taking.intro oplog_taking_axioms.intro oplog_clock_axioms.intro)
  show "oplog_store (cm_oplog alist_maps) amap_ok (sparse_ops i32_pod)" using sparse_oplog_store by (simp add: alist_maps_def)
  show "cuckoo_map (cm_index alist_maps) amap_ok" using alist_ck.cuckoo_map_axioms by (simp add: alist_maps_def)
  show "0 < nat (num_bg_threads demo_ctx)" by (simp add: demo_ctx_def GlobalContext_Init_def)
qed (rule demo_ctx_ok i32_pod_ok)+

lemma demo_bg_state_eval:
  "map (\<lambda>(t, ct). (t, to_partitions (ct_oplog ct), ct_oplog_index ct, ro_get_update_size (ct_sample ct))) (bs_tables demo_bg_state) =
   [(0, [\<lparr>op_update_size = 4, op_map = [(5, 0)], op_table_id = 0,
          op_store = [(0, \<lparr>rol_update_size = 4, rol_oplogs = [(0, 3)], rol_iter = 0, rol_const_iter = 0\<rparr>)], op_next = 1\<rparr>],
      [[(5, True)]], 4)]"
  "bc_sizes (bs_ctx demo_bg_state) = [(1, []), (2, [])]" "bc_table_sizes (bs_ctx demo_bg_state) = [(1, 0), (2, 0)]"
  "bc_version (bs_ctx demo_bg_state) = 0" "mgr_room 0 (bc_mgr (bs_ctx demo_bg_state))"
  by code_simp+

lemma demo_collect_eval:
  "map_sum id (\<lambda>(bg, s1). (bg, bc_sizes (bs_ctx s1), table_sizes (bs_tables s1))) (GetOpLogAndIndex demo_env demo_ctx 100 demo_bg_state) =
   Inr ([(0, \<lparr>bp_table_id = 0, bp_update_size = 4,
              bp_map = [(5, \<lparr>rol_update_size = 4, rol_oplogs = [(0, 3)], rol_iter = 0, rol_const_iter = 0\<rparr>)]\<rparr>)],
      [(1, [(0, 4)]), (2, [(0, 20)])], [(0, 4)])"
  by code_simp

lemma demo_clock_ready: "clock_ready alist_maps amap_ok amap_ok demo_ctx i32_pod is_i32 0 demo_bg_state"
proof -
  obtain ct where ct: "bs_tables demo_bg_state = [(0, ct)]" by (simp add: demo_bg_state_def)
  have f: "to_partitions (ct_oplog ct) = [\<lparr>op_update_size = 4, op_map = [(5, 0)], op_table_id = 0,
          op_store = [(0, \<lparr>rol_update_size = 4, rol_oplogs = [(0, 3)], rol_iter = 0, rol_const_iter = 0\<rparr>)], op_next = 1\<rparr>]"
    "ct_oplog_index ct = [[(5, True)]]" "ro_get_update_size (ct_sample ct) = 4"
    using demo_bg_state_eval(1) by (simp_all add: ct)
  have "tab_ready alist_maps amap_ok amap_ok demo_ctx i32_pod is_i32 0 ct"
    by (auto simp: tab_ready_def opl_ok_def opl_wire_def f indexed_def alist_maps_def alist_cuckoo_def part_ok_def amap_ok_def
        row_wire_def is_i32_def RowOpLog_GetSize_def rol_ok_def i32_pod_def demo_ctx_def GlobalContext_Init_def split: if_splits)
  then show ?thesis
    by (simp add: clock_ready_def ct demo_bg_state_eval is_size_def i32_pod_def is_i32_def demo_ctx_def GlobalContext_Init_def)
qed

theorem clock_delivers_updates_witness:
  "\<exists>os s' data srv'. HandleClockMsg demo_env demo_ctx 100 True demo_bg_state = Inr (os, s') \<and>
     ToServer 2 (ClientSendOpLogMsg 0 True 0 data) \<in> set os \<and>
     ApplyOpLog 2 i32_pod (reg_of (sparse_ops i32_pod)) data 100 0 demo_server = Inr srv' \<and>
     sval sparse_index srv' 0 5 0 = sval sparse_index demo_server 0 5 0 + 3"
proof -
  have e: "be_maps demo_env = alist_maps" "be_pod demo_env = i32_pod" "\<forall>n. length (be_alloc demo_env n) = n"
    "100 - get_head_bg_id (client_id demo_ctx) = int 0"
    by (simp_all add: demo_env_def demo_ctx_def GlobalContext_Init_def get_head_bg_id_def get_thread_id_min_def
        kBgThreadIDStartOffset_def)
  have room: "mgr_room (bc_version (bs_ctx demo_bg_state)) (bc_mgr (bs_ctx demo_bg_state))" using demo_bg_state_eval(4,5) by simp
  let ?D = "delivers (sparse_ops i32_pod) sparse_inv sparse_index (\<lambda>_ _. True) (\<lambda>_ _. True) (reg_of (sparse_ops i32_pod)) i32_pod demo_ctx
    (due alist_maps demo_ctx 0 demo_bg_state) 0"
  obtain bg s1 where get: "GetOpLogAndIndex demo_env demo_ctx 100 demo_bg_state = Inr (bg, s1)"
    and sent: "(\<forall>(sid, ts) \<in> set (bc_sizes (bs_ctx s1)). msg_size ts < 2 ^ 31) \<Longrightarrow>
      \<exists>os s'. HandleClockMsg demo_env demo_ctx 100 True demo_bg_state = Inr (os, s') \<and>
        (\<forall>sid \<in> set (server_ids demo_ctx). \<exists>data. ToServer sid (ClientSendOpLogMsg (client_id demo_ctx) True 0 data) \<in> set os \<and>
           ?D (server_updates demo_ctx (table_sizes (bs_tables s1)) bg sid) sid data)"
    using clock_delivers_updates [OF sparse_srv.server_rows_axioms sparse_clock.oplog_clock_axioms demo_clock_ready room e, of True]
    unfolding demo_bg_state_eval(4) by blast
  have v: "bg = [(0, \<lparr>bp_table_id = 0, bp_update_size = 4,
              bp_map = [(5, \<lparr>rol_update_size = 4, rol_oplogs = [(0, 3)], rol_iter = 0, rol_const_iter = 0\<rparr>)]\<rparr>)]"
    "bc_sizes (bs_ctx s1) = [(1, [(0, 4)]), (2, [(0, 20)])]" "table_sizes (bs_tables s1) = [(0, 4)]"
    using demo_collect_eval get by simp_all
  have part: "GetRowPartitionServerID demo_ctx 0 5 = Inr 2"
    using GetRowPartitionServerID_eq [OF demo_ctx_ok] by (simp add: demo_ctx_def GlobalContext_Init_def)
  have up: "server_updates demo_ctx [(0, 4)] bg 2 = [(0, 5, [(0, 3)])]"
    by (simp add: server_updates_def bg_rows_def v rows_for_def part)
  have due: "due alist_maps demo_ctx 0 demo_bg_state 0 5 0 = 3" by code_simp
  have small: "\<forall>(sid, ts) \<in> set (bc_sizes (bs_ctx s1)). msg_size ts < 2 ^ 31" by (simp add: v msg_size_def)
  have two: "2 \<in> set (server_ids demo_ctx)" "client_id demo_ctx = 0" by (simp_all add: demo_ctx_def GlobalContext_Init_def)
  obtain os s' where os: "HandleClockMsg demo_env demo_ctx 100 True demo_bg_state = Inr (os, s')"
    "\<forall>sid \<in> set (server_ids demo_ctx). \<exists>data. ToServer sid (ClientSendOpLogMsg (client_id demo_ctx) True 0 data) \<in> set os \<and>
       ?D (server_updates demo_ctx (table_sizes (bs_tables s1)) bg sid) sid data"
    using sent [OF small] by blast
  from bspec [OF os(2) two(1)] obtain data where d: "ToServer 2 (ClientSendOpLogMsg (client_id demo_ctx) True 0 data) \<in> set os"
    "?D (server_updates demo_ctx (table_sizes (bs_tables s1)) bg 2) 2 data" by (elim exE conjE)
  note d = d [unfolded v(3) up two(2)]
  have "srv_ok (sparse_ops i32_pod) sparse_inv (\<lambda>_ _. True) (\<lambda>_ _. True) demo_server"
    "map_of (bg_version_map demo_server) 100 = Some (0 - 1)" "ups_ok (\<lambda>_ _. True) (infos demo_server) [(0, 5, [(0, 3 :: int)])]"
    by (simp_all add: srv_ok_def demo_server_def tab_ok_def ServerTable_def ups_ok_def infos_def)
  with spec [OF spec [OF spec [OF d(2) [unfolded delivers_def], of 2], of demo_server], of 100]
  obtain srv' where srv': "ApplyOpLog 2 i32_pod (reg_of (sparse_ops i32_pod)) data 100 0 demo_server = Inr srv'"
    "\<forall>t row c. sval sparse_index srv' t row c = sval sparse_index demo_server t row c +
       (if GetRowPartitionServerID demo_ctx t row = Inr 2 then due alist_maps demo_ctx 0 demo_bg_state t row c else 0)" by auto
  have "sval sparse_index srv' 0 5 0 = sval sparse_index demo_server 0 5 0 + 3" using srv'(2) part due by simp
  with os(1) d(1) srv'(1) show ?thesis by blast
qed

end
