(* ===== verification/Client_Reads.thy ===== *)
theory Client_Reads
imports Clock_Proofs
begin

text \<open>
  Reads of the application: a row that \<open>Get\<close> returns is fresh enough for the
  thread's clock and the table's staleness bound, at most three requests are
  sent for it, and a thread reads its own updates.
\<close>

section \<open>What a returned row tells\<close>

lemma fetch_loop_requests:
  assumes "fetch_loop n m g fetch row st a ct = Inr (os, a', ct')"
  shows "0 < length os \<and> length os \<le> n \<and> (\<forall>x \<in> set os. \<exists>t. snd x = AppRowRequestMsg t row st)"
  using assms
proof (induction n arbitrary: a ct os)
  case (Suc n)
  then obtain os1 c1 found a1 c2 where x: "RequestRow g (ct_table_id ct) row st = Inr os1" "ct_Find m row a c1 = Inr (found, a1, c2)"
    "(if found then Inr (os1, a1, c2)
      else rbind (fetch_loop n m g fetch row st a1 c2) (\<lambda>(os', r). Inr (os1 @ os', r))) = Inr (os, a', ct')"
    by (auto simp: rbind_eq_Inr)
  obtain d where os1: "os1 = [(d, AppRowRequestMsg (ct_table_id ct) row st)]" using x(1) by (auto simp: RequestRow_def rbind_eq_Inr)
  show ?case
  proof (cases found)
    case False
    then obtain os2 where "fetch_loop n m g fetch row st a1 c2 = Inr (os2, a', ct')" "os = os1 @ os2"
      using x(3) by (auto simp: rbind_eq_Inr)
    with Suc.IH [OF this(1)] os1 show ?thesis by auto
  qed (use x(3) os1 in auto)
qed (auto simp: rbind_eq_Inr)

lemma find_fresh_clock:
  assumes "find_fresh m row st a ct = Inr (True, a', ct')"
  shows "\<exists>c. accessor_clock a' ct' = Inr c \<and> st \<le> c"
  using assms by (auto simp: find_fresh_def rbind_eq_Inr split: if_splits)

lemma fetch_fresh_clock:
  assumes "fetch_fresh m g fetch row st a ct = Inr (os, a', ct')"
  shows "(\<exists>c. accessor_clock a' ct' = Inr c \<and> st \<le> c) \<and> length os \<le> 3 \<and> (\<forall>x \<in> set os. \<exists>t. snd x = AppRowRequestMsg t row st)"
  using assms fetch_loop_requests [of 3 m g fetch row st a ct]
  by (auto simp: fetch_fresh_def rbind_eq_Inr check_def split: if_splits)

lemma WaitSystemClock_seen: "WaitSystemClock st cs = Inr c \<Longrightarrow> c \<in> set cs \<and> st \<le> c"
  by (induction st cs rule: WaitSystemClock.induct) (auto split: if_splits)

lemma push_wait_seen: "push_wait wait seen st ct = Inr (c, ct') \<Longrightarrow> c \<in> set seen \<and> st \<le> c"
  by (auto simp: push_wait_def rbind_eq_Inr dest: WaitSystemClock_seen split: list.splits if_splits)

text \<open>
  C5. Bounded staleness of reads. When \<open>Get\<close> returns to a thread with clock \<open>clk\<close>, at most three requests
  were sent, each for this row and the stalest clock allowed. Under SSP the row handed out has a clock of
  at least \<open>clk - staleness\<close>; under SSPPush the thread has seen the system clock of the client
  at or above it.
\<close>

theorem get_bounded_staleness:
  assumes "ct_Get m g e clk row a ct = Inr (os, a', ct')"
  shows "length os \<le> 3 \<and> (\<forall>x \<in> set os. \<exists>t. snd x = AppRowRequestMsg t row (max 0 (clk - ct_staleness ct))) \<and>
    (if consistency_model g = SSPPush then \<exists>c \<in> set (rd_clocks e). clk - ct_staleness ct \<le> c
     else \<exists>c. accessor_clock a' ct' = Inr c \<and> 0 \<le> c \<and> clk - ct_staleness ct \<le> c)"
proof (cases "consistency_model g = SSPPush")
  case True
  then obtain c c1 found a1 c2 where w: "push_wait (rd_wait e) (rd_clocks e) (stalest_clock clk ct) ct = Inr (c, c1)"
    "ct_Find m row a c1 = Inr (found, a1, c2)"
    "if found then os = [] else fetch_loop 3 m g (rd_fetch e) row (stalest_clock clk ct) a1 c2 = Inr (os, a', ct')"
    using assms by (auto simp: ct_Get_def push_Get_def rbind_eq_Inr Let_def split: if_splits)
  have "length os \<le> 3 \<and> (\<forall>x \<in> set os. \<exists>t. snd x = AppRowRequestMsg t row (stalest_clock clk ct))"
    using w(3) fetch_loop_requests [of 3 m g "rd_fetch e" row "stalest_clock clk ct" a1 c2 os a' ct'] by (cases found) auto
  then show ?thesis using push_wait_seen [OF w(1)] True by (auto simp: stalest_clock_def)
next
  case False
  then obtain fresh a1 c1 where f: "find_fresh m row (stalest_clock clk ct) a ct = Inr (fresh, a1, c1)"
    "(if fresh then Inr ([], a1, c1) else fetch_fresh m g (rd_fetch e) row (stalest_clock clk ct) a1 c1) = Inr (os, a', ct')"
    using assms by (auto simp: ct_Get_def ctl_Get_def rbind_eq_Inr Let_def)
  then show ?thesis using False find_fresh_clock [of m row "stalest_clock clk ct" a ct a1 c1]
      fetch_fresh_clock [of m g "rd_fetch e" row "stalest_clock clk ct" a1 c1 os a' ct']
    by (cases fresh) (auto simp: stalest_clock_def)
qed

section \<open>Finding a cached row\<close>

text \<open>An accessor in use refers to a client row that is referenced.\<close>

definition acc_live :: "('pm, 'om, 'im, 'r, 'v) client_table \<Rightarrow> nat row_accessor \<Rightarrow> bool" where
  "acc_live ct a \<longleftrightarrow> (\<forall>q. ra_client_row a = Some q \<longrightarrow> (\<exists>cr. ps_heap (ct_storage ct) q = Some cr \<and> 0 < cr_num_refs cr))"

definition row_clock where
  "row_clock m ct row = (case ck_find (cm_storage m) (ps_map (ct_storage ct)) row of None \<Rightarrow> None
     | Some (p, slot) \<Rightarrow> map_option cr_clock (ps_heap (ct_storage ct) p))"

lemma ct_Find_absent:
  "ck_find (cm_storage m) (ps_map (ct_storage ct)) row = None \<Longrightarrow> ct_Find m row a ct = Inr (False, a, ct)"
  by (simp add: ct_Find_def storage_Find_def)

lemma ct_Find_present:
  assumes "store_ok m rinv ct" "acc_live ct a" "ck_find (cm_storage m) (ps_map (ct_storage ct)) row = Some (p, slot)"
  shows "\<exists>a' ct' c. ct_Find m row a ct = Inr (True, a', ct') \<and> cache_frame ct ct' \<and> ct_data ct' = ct_data ct \<and>
    acc_ok m ct' row True a' \<and> row_clock m ct row = Some c \<and> accessor_clock a' ct' = Inr c \<and> ra_client_row a' = Some p"
proof -
  obtain cr r where cr: "ps_heap (ct_storage ct) p = Some cr" "ct_data ct (cr_data cr) = Some r"
    "0 \<le> slot" "nat slot < length (stale (ps_lru (ct_storage ct)))"
    using assms(1,3) unfolding store_ok_def by blast
  let ?l = "(ps_lru (ct_storage ct))\<lparr>stale := (stale (ps_lru (ct_storage ct)))[nat slot := False]\<rparr>"
  let ?h = "case ra_client_row a of None \<Rightarrow> ps_heap (ct_storage ct)
    | Some q \<Rightarrow> (ps_heap (ct_storage ct))(q := map_option DecRef (ps_heap (ct_storage ct) q))"
  obtain cr' where h: "?h p = Some cr'" "cr_data cr' = cr_data cr" "cr_clock cr' = cr_clock cr"
    using cr(1) by (cases "ra_client_row a"; cases "ra_client_row a = Some p") (auto simp: DecRef_def)
  have cl: "\<exists>b. accessor_Clear a (ps_heap (ct_storage ct)) = Inr (b, ?h)"
    using assms(2) by (auto simp: accessor_Clear_def acc_live_def Process_Storage.deref_def split: option.split)
  have keep: "map_option cr_data (?h q) = map_option cr_data (ps_heap (ct_storage ct) q)"
    "map_option cr_clock (?h q) = map_option cr_clock (ps_heap (ct_storage ct) q)" for q
    by (auto simp: DecRef_def option.map_comp comp_def split: option.split)
  let ?ct = "ct\<lparr>ct_storage := (ct_storage ct)\<lparr>ps_heap := ?h(p \<mapsto> IncRef cr'), ps_lru := ?l\<rparr>\<rparr>"
  let ?ra = "\<lparr>ra_client_row = Some p, ra_data = Some (cr_data cr')\<rparr>"
  have "ct_Find m row a ct = Inr (True, ?ra, ?ct)"
    using assms(3) cr cl h(1) by (auto simp: ct_Find_def storage_Find_def SetClientRow_def
        Process_Storage.deref_def lru_Reference_def set_stale_def vec_at_def)
  moreover have "cache_frame ct ?ct" using keep cr h by (simp add: cache_frame_def IncRef_def)
  moreover have "acc_ok m ?ct row True ?ra" using assms(3) by (simp add: acc_ok_def data_at_def IncRef_def)
  moreover have "row_clock m ct row = Some (cr_clock cr)" using assms(3) cr by (simp add: row_clock_def)
  moreover have "accessor_clock ?ra ?ct = Inr (cr_clock cr)" using h(3) by (simp add: accessor_clock_def GetClock_def Process_Storage.deref_def IncRef_def)
  ultimately show ?thesis by fastforce
qed

section \<open>A thread reads its own updates\<close>

context client_rows
begin

lemma InsertRow_ok:
  fixes tt :: "('r, 'v) thread_table"
  assumes tt: "tt_ok g rinv col tt" and r: "rinv r"
  shows "\<exists>r'. tt_InsertRow ops row r tt = Inr (tt\<lparr>tt_row_storage := AList.update row r' (tt_row_storage tt)\<rparr>) \<and> rinv r' \<and>
    rval r' = (\<lambda>c. rval r c + ttpend tt row c)"
proof -
  have cl: "ro_Clone ops r = Inr r" using r clone_ok by (simp add: col_inv_def)
  show ?thesis
  proof (cases "map_of (tt_oplog_map tt) row")
    case None
    then show ?thesis using cl r by (auto simp: tt_InsertRow_def ttpend_def)
  next
    case (Some l)
    have l: "rol_ok l" "\<forall>p \<in> set (rol_oplogs l). col (fst p)" using map_of_SomeD [OF Some] tt by (auto simp: tt_ok_def)
    from incs_ok [OF r l(2)] obtain r' where "foldM (\<lambda>r (c, u). ro_ApplyInc ops c u r) r (rol_oplogs l) = Inr r'" "rinv r'"
      "rval r' = (\<lambda>c. rval r c + upd_sum (rol_oplogs l) c)" by blast
    then show ?thesis using cl Some rol_val_sum [OF l(1)] by (auto simp: tt_InsertRow_def ttpend_def)
  qed
qed

lemma cache_row_ok:
  fixes ct :: "('pm, 'om, 'im, 'r, 'v) client_table"
  assumes ok: "store_ok m rinv ct" "ct_sample ct = ops" and a: "acc_ok m ct row True a"
    and tid: "map_of (ct_thread_cache ct) tid = Some tt" "tt_ok g rinv col tt"
  shows "\<exists>r r' ct'. cache_row tid row a ct = Inr (r', ct') \<and> crow m ct row = Some r \<and> rval r' = (\<lambda>c. rval r c + ttpend tt row c) \<and> rinv r' \<and>
    ct_sample ct' = ops \<and> map_of (ct_thread_cache ct') tid = Some (tt\<lparr>tt_row_storage := AList.update row r' (tt_row_storage tt)\<rparr>)"
proof -
  obtain d where d: "data_at m ct row = Some d" "ra_data a = Some d" using a unfolding acc_ok_def by (metis option.exhaust)
  obtain r where r: "ct_data ct d = Some r" "rinv r" using data_at_row [OF ok(1) d(1)] by blast
  have c: "crow m ct row = Some r" using d r by (simp add: crow_alt)
  obtain r' where r': "tt_InsertRow ops row r tt = Inr (tt\<lparr>tt_row_storage := AList.update row r' (tt_row_storage tt)\<rparr>)" "rinv r'"
    "rval r' = (\<lambda>c. rval r c + ttpend tt row c)" using InsertRow_ok [OF tid(2) r(2)] by blast
  let ?tt = "tt\<lparr>tt_row_storage := AList.update row r' (tt_row_storage tt)\<rparr>"
  have "acc_ok m (set_cache tid ?tt ct) row True a" using a acc_ok_storage [of "set_cache tid ?tt ct" ct m row True a] by (simp add: set_cache_def)
  from drop_accessor_ok [OF this] obtain ct' where ct': "drop_accessor a (set_cache tid ?tt ct) = Inr ct'" "cache_frame (set_cache tid ?tt ct) ct'" by blast
  have "cache_row tid row a ct = Inr (r', ct')"
    using d r r'(1) ct'(1) tid(1) ok(2) by (simp add: cache_row_def row_data_def thread_cache_def tt_GetRow_def update_conv')
  moreover have "ct_sample ct' = ops" "map_of (ct_thread_cache ct') tid = Some ?tt"
    using ct'(2) ok(2) by (simp_all add: cache_frame_def set_cache_def update_conv')
  ultimately show ?thesis using c r' by blast
qed

lemma ThreadGet_ok:
  fixes ct :: "('pm, 'om, 'im, 'r, 'v) client_table"
  assumes ok: "ok ct" and tid: "map_of (ct_thread_cache ct) tid = Some tt" "tt_GetRow row tt = None"
    and fresh: "row_clock m ct row = Some k" "stalest_clock clk ct \<le> k"
  shows "\<exists>r r' ct'. ctl_ThreadGet m g fetch tid clk row ct = Inr ([], r', ct') \<and> crow m ct row = Some r \<and>
    rval r' = (\<lambda>c. rval r c + ttpend tt row c) \<and> rinv r' \<and> ct_sample ct' = ops \<and>
    map_of (ct_thread_cache ct') tid = Some (tt\<lparr>tt_row_storage := AList.update row r' (tt_row_storage tt)\<rparr>)"
proof -
  have st: "store_ok m rinv ct" "ct_sample ct = ops" using ok by (simp_all add: ct_ok_def)
  obtain p slot where p: "ck_find (cm_storage m) (ps_map (ct_storage ct)) row = Some (p, slot)"
    using fresh(1) by (auto simp: row_clock_def split: option.splits)
  have "acc_live ct RowAccessor" by (simp add: acc_live_def RowAccessor_def)
  from ct_Find_present [OF st(1) this p] obtain a c1 where x: "ct_Find m row RowAccessor ct = Inr (True, a, c1)"
    "cache_frame ct c1" "ct_data c1 = ct_data ct" "acc_ok m c1 row True a" "accessor_clock a c1 = Inr k" using fresh(1) by auto
  have f: "find_fresh m row (stalest_clock clk ct) RowAccessor ct = Inr (True, a, c1)" using x(1,5) fresh(2) by (simp add: find_fresh_def)
  have c1: "store_ok m rinv c1" "ct_sample c1 = ops" "map_of (ct_thread_cache c1) tid = Some tt" "crow m c1 = crow m ct"
    using x(2,3) st tid(1) cache_frame_store [OF x(2,3) st(1)] cache_frame_crow [OF x(2,3)] by (simp_all add: cache_frame_def)
  from cache_row_ok [OF c1(1,2) x(4) c1(3) cache_tt_ok [OF ok tid(1)]] c1(4) f tid show ?thesis
    by (auto simp: ctl_ThreadGet_def thread_cache_def Let_def)
qed

end

text \<open>An increment of a row that the thread has a copy of is in that copy, and the copy is what the next read returns.\<close>

lemma thread_inc_seen:
  assumes law: "client_rows ops rinv0 rval rcol rwire m oinv iinv g"
    and r: "map_of (ct_thread_cache ct) tid = Some tt" "tt_GetRow row tt = Some r" "col_inv rinv0 rcol col r" "ct_sample ct = ops" and c: "col c"
  shows "\<exists>ct2 r2. ctl_ThreadInc tid row c d ct = Inr ct2 \<and> ctl_ThreadGet m g fetch tid clk row ct2 = Inr ([], r2, ct2) \<and> rval r2 = (rval r)(c := rval r c + d)"
proof -
  have add: "additive_row ops rinv0 rval rcol rwire" using law by (simp add: client_rows_def)
  from client_rows.inc_total [OF law r(3) c, of d] obtain r2 where
    "ro_ApplyInc ops c d r = Inr r2" "rval r2 = (rval r)(c := rval r c + d)" by blast
  then show ?thesis using r(1,2,4) additive_row.unsafe_inc [OF add]
    by (simp add: ctl_ThreadInc_def tt_Inc_def tt_apply_def thread_cache_def set_cache_def ctl_ThreadGet_def tt_GetRow_def update_conv')
qed

text \<open>
  C25. A thread reads its own updates. If the thread has a copy of the row in its own cache, \<open>ThreadGet\<close> returns this copy as it is, without a request and
  whatever its age. If it has none and the row in the process cache is fresh, \<open>ThreadGet\<close> returns without a
  request, and the row it returns has, in every column, the base value plus the updates pending in the process oplog plus
  the updates the thread has cached itself. In both cases a cached increment after that is seen by the
  next \<open>ThreadGet\<close> of the same thread.
\<close>

theorem thread_reads_own_updates:
  fixes ops :: "('r, 'v::ab_group_add) row_ops" and ct :: "('pm, 'om, 'im, 'r, 'v) client_table"
  assumes law: "client_rows ops rinv0 rval rcol rwire m oinv iinv g"
    and ok: "ct_ok m oinv iinv g ops (col_inv rinv0 rcol col) col ct"
    and tid: "map_of (ct_thread_cache ct) tid = Some tt"
    and fresh: "tt_GetRow row tt = None \<longrightarrow> row_clock m ct row = Some k \<and> stalest_clock clk ct \<le> k \<and> base m g rval ct row = Some b"
  shows "\<exists>r ct1. ctl_ThreadGet m g fetch tid clk row ct = Inr ([], r, ct1) \<and>
    (case tt_GetRow row tt of Some copy \<Rightarrow> r = copy \<and> ct1 = ct
     | None \<Rightarrow> rval r = (\<lambda>c. b c + tpend m g ct row c + ttpend tt row c)) \<and>
    (\<forall>c d. col c \<longrightarrow> (\<exists>ct2 r2. ctl_ThreadInc tid row c d ct1 = Inr ct2 \<and>
       ctl_ThreadGet m g fetch tid clk row ct2 = Inr ([], r2, ct2) \<and> rval r2 = (rval r)(c := rval r c + d)))"
proof (cases "tt_GetRow row tt")
  case None
  with fresh have f: "row_clock m ct row = Some k" "stalest_clock clk ct \<le> k" "base m g rval ct row = Some b" by simp_all
  from client_rows.ThreadGet_ok [OF law ok tid None f(1,2), of fetch] obtain r0 r ct1 where
    g1: "ctl_ThreadGet m g fetch tid clk row ct = Inr ([], r, ct1)" "crow m ct row = Some r0"
    "rval r = (\<lambda>c. rval r0 c + ttpend tt row c)" "col_inv rinv0 rcol col r" "ct_sample ct1 = ops"
    "map_of (ct_thread_cache ct1) tid = Some (tt\<lparr>tt_row_storage := AList.update row r (tt_row_storage tt)\<rparr>)" by blast
  have "rval r = (\<lambda>c. b c + tpend m g ct row c + ttpend tt row c)" using f(3) g1(2,3) by (auto simp: base_def cval_def)
  moreover have "tt_GetRow row (tt\<lparr>tt_row_storage := AList.update row r (tt_row_storage tt)\<rparr>) = Some r" by (simp add: tt_GetRow_def update_conv')
  ultimately show ?thesis using g1(1) thread_inc_seen [OF law g1(6) _ g1(4,5), of row _ _ fetch clk] None by auto
next
  case (Some r)
  have "col_inv rinv0 rcol col r" using client_rows.cache_tt_ok [OF law ok tid] Some by (auto simp: tt_ok_def tt_GetRow_def dest: map_of_SomeD)
  moreover have "ct_sample ct = ops" using ok by (simp add: ct_ok_def)
  moreover have "ctl_ThreadGet m g fetch tid clk row ct = Inr ([], r, ct)" using tid Some by (simp add: ctl_ThreadGet_def thread_cache_def)
  ultimately show ?thesis using thread_inc_seen [OF law tid Some, of col _ _ fetch clk] Some by auto
qed

section \<open>Examples\<close>

text \<open>The table after the background thread has entered row 5 with clock 1.\<close>

definition demo_fetched :: "((int, nat \<times> int) amap, (int, nat) amap, (int, bool) amap, int sparse_row, int) client_table" where
  "demo_fetched = the (map_of (bs_tables (projr (ApplyOpLogsAndInsertRow demo_env demo_ctx 0 5 0 (sparse_ops i32_pod) [(0, 7)] 1
     \<lparr>bs_ctx = projr (InitBgContext demo_ctx), bs_tables = [(0, demo_table)], bs_system_clock = 0,
      bs_bg_server_clock = VectorClock0, bs_connected = 0, bs_deregistered = 0, bs_acked = 0\<rparr>))) 0)"

lemma demo_fetched_eval:
  "ps_map (ct_storage demo_fetched) = [(5, 0, 0)]" "ps_heap (ct_storage demo_fetched) 0 = Some \<lparr>cr_num_refs = 0, cr_data = 0, cr_clock = 1\<rparr>"
  "ct_data demo_fetched 0 = Some [(0, 7)]" "length (stale (ps_lru (ct_storage demo_fetched))) = 4"
  by code_simp+

lemma demo_fetched_heap: "ps_heap (ct_storage demo_table) p = None" "ct_staleness demo_table = 1" "ps_map (ct_storage demo_table) = []"
  by (simp_all add: demo_table_def ClientTable_def ct_RegisterThread_def ProcessStorage_def alist_maps_def alist_cuckoo_def
     demo_ctx_def GlobalContext_Init_def)

definition demo_read :: "((int, nat \<times> int) amap, (int, nat) amap, (int, bool) amap, int sparse_row, int) read_env" where
  "demo_read = \<lparr>rd_fetch = (\<lambda>_ _. Inr demo_fetched), rd_wait = Inr, rd_clocks = []\<rparr>"

theorem get_bounded_staleness_witness:
  "\<exists>os a ct' c. ct_Get alist_maps demo_ctx demo_read 2 5 RowAccessor demo_table = Inr (os, a, ct') \<and> length os \<le> 3 \<and>
     accessor_clock a ct' = Inr c \<and> 2 - ct_staleness demo_table \<le> c"
proof -
  have "\<not> isl (ct_Get alist_maps demo_ctx demo_read 2 5 RowAccessor demo_table)" by code_simp
  then obtain os a ct' where r: "ct_Get alist_maps demo_ctx demo_read 2 5 RowAccessor demo_table = Inr (os, a, ct')"
    by (cases "ct_Get alist_maps demo_ctx demo_read 2 5 RowAccessor demo_table") auto
  have "consistency_model demo_ctx = SSP" by (simp add: demo_ctx_def GlobalContext_Init_def)
  with get_bounded_staleness [OF r] r show ?thesis by auto
qed

definition demo_cached :: "((int, nat \<times> int) amap, (int, nat) amap, (int, bool) amap, int sparse_row, int) client_table" where
  "demo_cached = demo_table\<lparr>ct_data := ct_data demo_fetched, ct_next := ct_next demo_fetched, ct_storage := ct_storage demo_fetched\<rparr>"

lemma demo_cached_ok:
  "ct_ok alist_maps amap_ok amap_ok demo_ctx (sparse_ops i32_pod) (col_inv sparse_inv (\<lambda>_ _. True) (\<lambda>_. True)) (\<lambda>_. True) demo_cached"
proof -
  have "tpend alist_maps demo_ctx demo_cached = tpend alist_maps demo_ctx demo_table" by (simp add: tpend_def demo_cached_def fun_eq_iff)
  moreover have "row_indexed alist_maps demo_ctx demo_cached = row_indexed alist_maps demo_ctx demo_table"
    by (simp add: row_indexed_def demo_cached_def fun_eq_iff)
  moreover have "store_ok alist_maps (col_inv sparse_inv (\<lambda>_ _. True) (\<lambda>_. True)) demo_cached"
    by (simp add: store_ok_def alist_maps_def alist_cuckoo_def demo_cached_def demo_fetched_eval sparse_inv_def col_inv_def)
  ultimately show ?thesis using demo_table_ok(1) by (simp add: ct_ok_def oplog_ok_def) (simp add: demo_cached_def)
qed

theorem thread_reads_own_updates_witness:
  "\<exists>r ct1. ctl_ThreadGet alist_maps demo_ctx (\<lambda>_. Inr) 200 2 5 demo_cached = Inr ([], r, ct1) \<and> sparse_index r 0 = 7"
proof -
  let ?b = "\<lambda>c. sparse_index [(0, 7)] c - tpend alist_maps demo_ctx demo_cached 5 c"
  have t: "map_of (ct_thread_cache demo_cached) 200 = Some (ThreadTable demo_ctx)"
    by (simp add: demo_cached_def demo_table_def ct_RegisterThread_def ClientTable_def demo_ctx_def GlobalContext_Init_def)
  have g: "tt_GetRow 5 (ThreadTable demo_ctx :: (int sparse_row, int) thread_table) = None" by (simp add: tt_GetRow_def ThreadTable_def)
  have k: "row_clock alist_maps demo_cached 5 = Some 1" "stalest_clock 2 demo_cached \<le> 1"
    by (simp_all add: row_clock_def alist_maps_def alist_cuckoo_def demo_cached_def demo_fetched_eval stalest_clock_def demo_fetched_heap)
  have b: "base alist_maps demo_ctx sparse_index demo_cached 5 = Some ?b"
    by (simp add: base_def cval_def crow_def alist_maps_def alist_cuckoo_def demo_cached_def demo_fetched_eval)
  from thread_reads_own_updates [OF sparse_client.client_rows_axioms demo_cached_ok t, of 5 1 2 ?b "\<lambda>_. Inr"] g k b
  obtain r ct1 where r: "ctl_ThreadGet alist_maps demo_ctx (\<lambda>_. Inr) 200 2 5 demo_cached = Inr ([], r, ct1)"
    "sparse_index r = (\<lambda>c. ?b c + tpend alist_maps demo_ctx demo_cached 5 c + ttpend (ThreadTable demo_ctx :: (int sparse_row, int) thread_table) 5 c)"
    by auto
  have "sparse_index r 0 = 7" unfolding r(2) by (simp add: ttpend_def ThreadTable_def sparse_index_def)
  with r(1) show ?thesis by blast
qed

end
