(* ===== verification/Bg_Rows.thy ===== *)
theory Bg_Rows
imports Client_Reads Storage_Proofs
begin

text \<open>
  Rows that come from a server: the background thread adds the updates the
  server has not seen (the oplogs of the versions sent since, and the pending
  ones) before the row enters the process cache.
\<close>

section \<open>Iterating over versions\<close>

fun vlist :: "32 word \<Rightarrow> 'o list \<Rightarrow> (32 word \<times> 'o) list" where
  "vlist v [] = []"
| "vlist v (ol # ols) = (v, ol) # vlist (v + 1) ols"

text \<open>
  The contract of \<open>OpLogIterInit\<close> and \<open>OpLogIterNext\<close>: \<open>has\<close> says that the oplogs of
  consecutive versions are kept, \<open>at\<close> which oplogs the iteration has still to return.
\<close>

locale version_iter =
  fixes init :: "32 word \<Rightarrow> 32 word \<Rightarrow> 'm \<Rightarrow> ('o \<times> 'm) result" and nxt :: "'m \<Rightarrow> ((32 word \<times> 'o) option \<times> 'm) result"
    and has :: "'m \<Rightarrow> 32 word \<Rightarrow> 'o list \<Rightarrow> bool" and at :: "'m \<Rightarrow> 'o list \<Rightarrow> bool"
  assumes init_ok: "has m v (ol # ols) \<Longrightarrow> unat v + length ols + 1 < 2 ^ 32 \<Longrightarrow>
      \<exists>m'. init v (v + of_nat (length ols)) m = Inr (ol, m') \<and> at m' ols"
    and next_end: "at m [] \<Longrightarrow> \<exists>m'. nxt m = Inr (None, m')"
    and next_step: "at m (ol # ols) \<Longrightarrow> \<exists>v m'. nxt m = Inr (Some (v, ol), m') \<and> at m' ols"

definition iter_at :: "32 word \<Rightarrow> 32 word \<Rightarrow> 'o list \<Rightarrow> bool" where
  "iter_at n e ols \<longleftrightarrow> unat n + length ols = unat e + 1 \<and> unat e + 1 < 2 ^ 32"

lemma iter_at_end: "iter_at n e [] \<Longrightarrow> e < n"
  by (simp add: iter_at_def word_less_nat_alt)

lemma iter_at_step: "iter_at n e (ol # ols) \<Longrightarrow> \<not> e < n \<and> iter_at (n + 1) e ols"
  by (auto simp: iter_at_def word_less_nat_alt unat_word_ariths)

lemma iter_at_init: "unat v + length ols + 1 < 2 ^ 32 \<Longrightarrow> iter_at (v + 1) (v + of_nat (length ols)) ols"
  by (auto simp: iter_at_def unat_word_ariths unat_of_nat)

definition ssp_has :: "'o ssp_mgr \<Rightarrow> 32 word \<Rightarrow> 'o list \<Rightarrow> bool" where
  "ssp_has x v ols \<longleftrightarrow> (\<forall>(w, ol) \<in> set (vlist v ols). map_of (version_oplog_map x) w = Some ol)"

definition ssp_at :: "'o ssp_mgr \<Rightarrow> 'o list \<Rightarrow> bool" where
  "ssp_at x ols \<longleftrightarrow> iter_at (oplog_iter_version_next x) (oplog_iter_version_end x) ols \<and> ssp_has x (oplog_iter_version_next x) ols"

interpretation ssp_iter: version_iter ssp_OpLogIterInit ssp_OpLogIterNext ssp_has ssp_at
proof
  fix x :: "'o ssp_mgr" and v ol ols
  show "ssp_has x v (ol # ols) \<Longrightarrow> unat v + length ols + 1 < 2 ^ 32 \<Longrightarrow>
      \<exists>m'. ssp_OpLogIterInit v (v + of_nat (length ols)) x = Inr (ol, m') \<and> ssp_at m' ols"
    using iter_at_init [of v ols] by (auto simp: ssp_has_def ssp_at_def ssp_OpLogIterInit_def ssp_GetOpLog_def)
  show "ssp_at x [] \<Longrightarrow> \<exists>m'. ssp_OpLogIterNext x = Inr (None, m')"
    using iter_at_end by (auto simp: ssp_at_def ssp_OpLogIterNext_def)
  show "ssp_at x (ol # ols) \<Longrightarrow> \<exists>v m'. ssp_OpLogIterNext x = Inr (Some (v, ol), m') \<and> ssp_at m' ols"
    using iter_at_step [of "oplog_iter_version_next x" "oplog_iter_version_end x" ol ols]
    by (auto simp: ssp_at_def ssp_has_def ssp_OpLogIterNext_def ssp_GetOpLog_def Let_def)
qed

definition push_has :: "'o push_mgr \<Rightarrow> 32 word \<Rightarrow> 'o list \<Rightarrow> bool" where
  "push_has x v ols \<longleftrightarrow> (\<exists>pre post. version_oplog_list x = pre @ vlist v ols @ post \<and> v \<notin> fst ` set pre)"

definition push_at :: "'o push_mgr \<Rightarrow> 'o list \<Rightarrow> bool" where
  "push_at x ols \<longleftrightarrow> iter_at (push_iter_next x) (push_iter_end x) ols \<and>
     (\<exists>pre post. version_oplog_list x = pre @ vlist (push_iter_next x) ols @ post \<and> length pre = push_oplog_iter x + 1)"

lemma find_version_at: "v \<notin> fst ` set pre \<Longrightarrow> find_version v i (pre @ (v, ol) # post) = Some (i + length pre, ol)"
  by (induction pre arbitrary: i) auto

interpretation push_iter: version_iter push_OpLogIterInit push_OpLogIterNext push_has push_at
proof
  fix x :: "'o push_mgr" and v ol and ols :: "'o list"
  show "\<exists>m'. push_OpLogIterInit v (v + of_nat (length ols)) x = Inr (ol, m') \<and> push_at m' ols"
    if h: "push_has x v (ol # ols)" "unat v + length ols + 1 < 2 ^ 32"
  proof -
    obtain pre post where p: "version_oplog_list x = pre @ vlist v (ol # ols) @ post" "v \<notin> fst ` set pre"
      using h(1) unfolding push_has_def by blast
    let ?m = "x\<lparr>push_iter_st := v, push_iter_end := v + of_nat (length ols), push_iter_next := v + 1, push_oplog_iter := length pre\<rparr>"
    have "push_OpLogIterInit v (v + of_nat (length ols)) x = Inr (ol, ?m)"
      using find_version_at [OF p(2), of 0 ol "vlist (v + 1) ols @ post"] p(1) by (simp add: push_OpLogIterInit_def)
    moreover have "push_at ?m ols"
      unfolding push_at_def using iter_at_init [OF h(2)] p(1) by (intro conjI exI [of _ "pre @ [(v, ol)]"] exI [of _ post]) simp_all
    ultimately show ?thesis by blast
  qed
  show "push_at x [] \<Longrightarrow> \<exists>m'. push_OpLogIterNext x = Inr (None, m')"
    using iter_at_end by (auto simp: push_at_def push_OpLogIterNext_def)
  show "\<exists>v m'. push_OpLogIterNext x = Inr (Some (v, ol), m') \<and> push_at m' ols" if h: "push_at x (ol # ols)"
  proof -
    let ?n = "push_iter_next x"
    obtain pre post where p: "version_oplog_list x = pre @ (?n, ol) # vlist (?n + 1) ols @ post" "length pre = push_oplog_iter x + 1"
      using h unfolding push_at_def by auto
    have i: "\<not> push_iter_end x < ?n" "iter_at (?n + 1) (push_iter_end x) ols" using h iter_at_step [of ?n "push_iter_end x" ol ols] unfolding push_at_def by blast+
    let ?m = "x\<lparr>push_oplog_iter := push_oplog_iter x + 1, push_iter_next := ?n + 1\<rparr>"
    have "version_oplog_list x ! (push_oplog_iter x + 1) = (?n, ol)" "push_oplog_iter x + 1 < length (version_oplog_list x)"
      using p nth_append_length [of pre] by simp_all
    then have "push_OpLogIterNext x = Inr (Some (?n, ol), ?m)" using i(1) by (simp add: push_OpLogIterNext_def check_def)
    moreover have "push_at ?m ols"
      unfolding push_at_def using i(2) p by (intro conjI exI [of _ "pre @ [(?n, ol)]"] exI [of _ post]) simp_all
    ultimately show ?thesis by blast
  qed
qed

definition mgr_has :: "'o oplog_mgr \<Rightarrow> 32 word \<Rightarrow> 'o list \<Rightarrow> bool" where
  "mgr_has mgr v ols = (case mgr of SSPMgr x \<Rightarrow> ssp_has x v ols | PushMgr x \<Rightarrow> push_has x v ols)"

definition mgr_at :: "'o oplog_mgr \<Rightarrow> 'o list \<Rightarrow> bool" where
  "mgr_at mgr ols = (case mgr of SSPMgr x \<Rightarrow> ssp_at x ols | PushMgr x \<Rightarrow> push_at x ols)"

interpretation mgr_iter: version_iter mgr_OpLogIterInit mgr_OpLogIterNext mgr_has mgr_at
proof
  fix mgr :: "'o oplog_mgr" and v ol and ols :: "'o list"
  show "mgr_has mgr v (ol # ols) \<Longrightarrow> unat v + length ols + 1 < 2 ^ 32 \<Longrightarrow>
      \<exists>m'. mgr_OpLogIterInit v (v + of_nat (length ols)) mgr = Inr (ol, m') \<and> mgr_at m' ols"
    using ssp_iter.init_ok push_iter.init_ok by (cases mgr) (fastforce simp: mgr_has_def mgr_at_def)+
  show "mgr_at mgr [] \<Longrightarrow> \<exists>m'. mgr_OpLogIterNext mgr = Inr (None, m')"
    using ssp_iter.next_end push_iter.next_end by (cases mgr) (fastforce simp: mgr_at_def)+
  show "mgr_at mgr (ol # ols) \<Longrightarrow> \<exists>v m'. mgr_OpLogIterNext mgr = Inr (Some (v, ol), m') \<and> mgr_at m' ols"
    using ssp_iter.next_step push_iter.next_step by (cases mgr) (fastforce simp: mgr_at_def)+
qed

section \<open>Adding the unseen updates\<close>

lemma const_entries_eq [simp]: "const_entries l = Inr (rol_oplogs l)"
  using traverse_const_all [of l] by (simp add: const_entries_def)

text \<open>An oplog has the table, and its updates to the row are in its columns.\<close>

definition ver_ok :: "(int \<Rightarrow> bool) \<Rightarrow> int \<Rightarrow> int \<Rightarrow> 'v bg_oplog \<Rightarrow> bool" where
  "ver_ok col t row bg \<longleftrightarrow> map_of bg t \<noteq> None \<and>
     (\<forall>l. map_of (bg_rows bg t) row = Some l \<longrightarrow> rol_ok l \<and> (\<forall>p \<in> set (rol_oplogs l). col (fst p)))"

context client_rows
begin

lemma apply_unsafe_ok:
  assumes "rinv r" "\<forall>p \<in> set us. col (fst p)"
  shows "\<exists>r'. apply_unsafe ops r us = Inr r' \<and> rinv r' \<and> rval r' = (\<lambda>c. rval r c + upd_sum us c)"
  using incs_ok [OF assms] by (simp add: apply_unsafe_def unsafe_inc)

lemma apply_version_ok:
  assumes "rinv r" "ver_ok col t row bg"
  shows "\<exists>r'. apply_version ops t row bg r = Inr r' \<and> rinv r' \<and> rval r' = (\<lambda>c. rval r c + bg_val bg t row c)"
proof -
  obtain p where p: "map_of bg t = Some p" using assms(2) by (auto simp: ver_ok_def)
  show ?thesis
  proof (cases "map_of (bp_map p) row")
    case None
    then show ?thesis using p assms(1)
      by (simp add: apply_version_def BgOpLog_Get_def BgOpLogPartition_FindOpLog_def bg_val_def bg_rows_def)
  next
    case (Some l)
    then have l: "rol_ok l" "\<forall>p \<in> set (rol_oplogs l). col (fst p)" using assms(2) p by (auto simp: ver_ok_def bg_rows_def)
    show ?thesis using apply_unsafe_ok [OF assms(1) l(2)] rol_val_sum [OF l(1)] Some p
      by (simp add: apply_version_def BgOpLog_Get_def BgOpLogPartition_FindOpLog_def bg_val_def bg_rows_def)
  qed
qed

lemma old_oplogs_loop_ok:
  assumes "mgr_at mgr ols" "rinv r" "\<forall>x \<in> set (bg # ols). ver_ok col t row x" "length ols < n"
  shows "\<exists>r' mgr'. old_oplogs_loop n ops t row bg mgr r = Inr (r', mgr') \<and> rinv r' \<and>
    rval r' = (\<lambda>c. rval r c + (\<Sum>x \<leftarrow> bg # ols. bg_val x t row c))"
  using assms
proof (induction ols arbitrary: mgr r bg n)
  case Nil
  then obtain k where n: "n = Suc k" by (cases n) auto
  obtain mgr' where "mgr_OpLogIterNext mgr = Inr (None, mgr')" using mgr_iter.next_end [OF Nil.prems(1)] by blast
  with apply_version_ok [OF Nil.prems(2), of t row bg] Nil.prems(3) show ?case by (auto simp: n)
next
  case (Cons x ols)
  then obtain k where n: "n = Suc k" by (cases n) auto
  obtain v mgr1 where m1: "mgr_OpLogIterNext mgr = Inr (Some (v, x), mgr1)" "mgr_at mgr1 ols"
    using mgr_iter.next_step [OF Cons.prems(1)] by blast
  obtain r1 where r1: "apply_version ops t row bg r = Inr r1" "rinv r1" "rval r1 = (\<lambda>c. rval r c + bg_val bg t row c)"
    using apply_version_ok [OF Cons.prems(2), of t row bg] Cons.prems(3) by auto
  from Cons.IH [OF m1(2) r1(2), of x k] Cons.prems(3,4) n obtain r' mgr' where
    "old_oplogs_loop k ops t row x mgr1 r1 = Inr (r', mgr')" "rinv r'"
    "rval r' = (\<lambda>c. rval r1 c + (\<Sum>y \<leftarrow> x # ols. bg_val y t row c))" by auto
  then show ?case using m1(1) r1 by (simp add: n add.assoc)
qed

text \<open>The fuel of the loop suffices; the oplogs are those of the versions after the row's.\<close>

lemma ApplyOldOpLogs_ok:
  assumes "rinv r" "mgr_has (bc_mgr c) (version + 1) ols" "length ols = unat (bc_version c) - unat (version + 1)"
    "\<forall>x \<in> set ols. ver_ok col t row x"
  shows "\<exists>r' mgr'. ApplyOldOpLogsToRowData ops t row version r c = Inr (r', c\<lparr>bc_mgr := mgr'\<rparr>) \<and> rinv r' \<and>
    rval r' = (\<lambda>k. rval r k + (\<Sum>x \<leftarrow> ols. bg_val x t row k))"
proof (cases "version + 1 < bc_version c")
  case False
  then have "ols = []" using assms(3) by (simp add: word_less_nat_alt)
  then show ?thesis using False assms(1) by (intro exI [of _ r] exI [of _ "bc_mgr c"]) (simp add: ApplyOldOpLogsToRowData_def)
next
  case True
  let ?v = "version + 1"
  have lt: "unat ?v < unat (bc_version c)" using True by (simp add: word_less_nat_alt)
  then obtain bg os where ols: "ols = bg # os" using assms(3) by (cases ols) auto
  have len: "unat ?v + length os + 1 = unat (bc_version c)" using assms(3) lt ols by simp
  have small: "unat ?v + length os + 1 < 2 ^ 32" using len unsigned_less [of "bc_version c"] by simp
  have en: "?v + of_nat (length os) = bc_version c - 1"
  proof -
    have "of_nat (unat ?v + length os + 1) = bc_version c" unfolding len by simp
    then show ?thesis by (simp add: algebra_simps)
  qed
  obtain mgr1 where m1: "mgr_OpLogIterInit ?v (bc_version c - 1) (bc_mgr c) = Inr (bg, mgr1)" "mgr_at mgr1 os"
    using mgr_iter.init_ok [OF assms(2) [unfolded ols] small] unfolding en by blast
  have vs: "\<forall>x \<in> set (bg # os). ver_ok col t row x" "length os < unat (bc_version c) - unat ?v" using assms(4) ols len by auto
  from old_oplogs_loop_ok [OF m1(2) assms(1) vs] obtain r' mgr' where
    "old_oplogs_loop (unat (bc_version c) - unat ?v) ops t row bg mgr1 r = Inr (r', mgr')" "rinv r'"
    "rval r' = (\<lambda>c. rval r c + (\<Sum>x \<leftarrow> ols. bg_val x t row c))" unfolding ols by blast
  then show ?thesis using True m1(1) by (auto simp: ApplyOldOpLogsToRowData_def)
qed

lemma pending_entries_ok:
  fixes ct :: "('pm, 'om, 'im, 'r, 'v) client_table"
  assumes "oplog_ok m oinv g ct" "0 \<le> row"
  shows "\<exists>us. pending_entries m g row ct = Inr us \<and> upd_sum us = tpend m g ct row"
proof -
  let ?p = "to_partitions (ct_oplog ct) ! bg_part g row"
  have i: "bg_part g row < length (to_partitions (ct_oplog ct))" using assms(1) bg_part_less [OF bg, of row] by (simp add: oplog_ok_def)
  have p: "part_ok (cm_oplog m) oinv ?p" using oplog_ok_nth [OF assms(1) bg] .
  have v: "vec_at (to_partitions (ct_oplog ct)) (int (bg_part g row)) = Inr ?p" using i by (simp add: vec_at_def)
  show ?thesis
  proof (cases "ck_find (cm_oplog m) (op_map ?p) row")
    case None
    then show ?thesis using v GetBgPartitionNum_eq [OF assms(2) bg]
      by (simp add: pending_entries_def FindOpLog_def tpend_def pend_def fun_eq_iff upd_sum_def)
  next
    case (Some a)
    obtain l where l: "map_of (op_store ?p) a = Some l" "rol_ok l" using part_ok_deref [OF p Some] by blast
    then show ?thesis using Some v GetBgPartitionNum_eq [OF assms(2) bg] rol_val_sum [OF l(2)]
      by (simp add: pending_entries_def FindOpLog_def tpend_def pend_def fun_eq_iff Oplog.deref_def)
  qed
qed

end

section \<open>The row enters the process cache\<close>

text \<open>The row cache of a table has room, or a row that nobody refers to, and a fresh address.\<close>

definition cache_room where
  "cache_room m minv fuel ct \<longleftrightarrow> cache_ok (cm_storage m) minv (ct_storage ct) \<and>
     ps_heap (ct_storage ct) (ct_next ct) = None \<and> ct_data ct (ct_next ct) = None \<and>
     (ps_num_rows (ct_storage ct) = ps_capacity (ct_storage ct) \<longrightarrow>
       (\<exists>r p slot x. ck_find (cm_storage m) (ps_map (ct_storage ct)) r = Some (p, slot) \<and>
          ps_heap (ct_storage ct) p = Some x \<and> HasZeroRef x)) \<and>
     ps_capacity (ct_storage ct) < 2 ^ 31 - 1 \<and>
     evict_hand (ps_lru (ct_storage ct)) + 2 * ps_capacity (ct_storage ct) < 2 ^ 31 \<and> 2 * ps_capacity (ct_storage ct) \<le> int fuel"

text \<open>The rows other than \<open>row\<close> and perhaps one that was evicted are as before.\<close>

definition others_kept where
  "others_kept m ct ct' row \<longleftrightarrow> (\<exists>ev. \<forall>r. r \<noteq> row \<and> ev \<noteq> Some r \<longrightarrow> crow m ct' r = crow m ct r)"

lemma store_okI:
  assumes "\<And>row p slot. ck_find (cm_storage m) (ps_map (ct_storage ct)) row = Some (p, slot) \<Longrightarrow>
      0 \<le> slot \<and> nat slot < length (stale (ps_lru (ct_storage ct))) \<and> ps_heap (ct_storage ct) p \<noteq> None"
    and "\<And>row row' p slot slot'. ck_find (cm_storage m) (ps_map (ct_storage ct)) row = Some (p, slot) \<Longrightarrow>
      ck_find (cm_storage m) (ps_map (ct_storage ct)) row' = Some (p, slot') \<Longrightarrow> row = row'"
    and "\<And>row d. data_at m ct row = Some d \<Longrightarrow> \<exists>r. ct_data ct d = Some r \<and> rinv r"
    and "\<And>row row' d. data_at m ct row = Some d \<Longrightarrow> data_at m ct row' = Some d \<Longrightarrow> row = row'"
  shows "store_ok m rinv ct"
proof -
  have e: "data_at m ct row = map_option cr_data (ps_heap (ct_storage ct) p)"
    if "ck_find (cm_storage m) (ps_map (ct_storage ct)) row = Some (p, slot)" for row p slot
    using that by (simp add: data_at_def)
  show ?thesis unfolding store_ok_def
  proof (intro conjI allI impI, goal_cases)
    case (3 row p slot)
    then obtain cr where "ps_heap (ct_storage ct) p = Some cr" using assms(1) by blast
    then show ?case using e [OF 3] assms(3) [of row] by simp
  next
    case (4 row row' p p' slot slot' cr cr')
    then show ?case using e [of row p slot] e [of row' p' slot'] assms(2) [of row p slot row' slot'] assms(4) [of row _ row'] by auto
  qed (use assms(1) in blast)+
qed

lemma insert_client_row:
  assumes law: "cuckoo_map (cm_storage m) minv" and st: "store_ok m rinv ct" and room: "cache_room m minv fuel ct"
    and row: "row \<noteq> - 1" and r: "rinv r"
  shows "\<exists>b st' ct'. storage_Insert fuel (cm_storage m) (\<lambda>_ _. True) (\<lambda>s. s) row (ct_next ct)
      ((ct_storage ct)\<lparr>ps_heap := (ps_heap (ct_storage ct))(ct_next ct \<mapsto> MyCreateClientRow g clock (ct_next ct))\<rparr>) = Inr (b, st') \<and>
    ct' = ct\<lparr>ct_data := (ct_data ct)(ct_next ct \<mapsto> r), ct_next := ct_next ct + 1, ct_storage := st'\<rparr> \<and>
    store_ok m rinv ct' \<and> crow m ct' row = Some r \<and>
    row_clock m ct' row = Some (if consistency_model g = SSPPush then - 1 else clock) \<and> others_kept m ct ct' row \<and>
    cache_ok (cm_storage m) minv st'"
proof -
  let ?p = "ct_next ct" and ?ck = "cm_storage m" and ?s = "ct_storage ct"
  let ?rc = "MyCreateClientRow g clock ?p :: nat client_row"
  let ?s1 = "?s\<lparr>ps_heap := (ps_heap ?s)(?p \<mapsto> ?rc)\<rparr>"
  have rm: "cache_ok ?ck minv ?s" "ps_heap ?s ?p = None" "ct_data ct ?p = None" using room by (simp_all add: cache_room_def)
  have en: "entries_ok ?ck (ps_map ?s) (ps_lru ?s) (ps_heap ?s)" using rm(1) by (simp add: cache_ok_def)
  have ne: "q \<noteq> ?p" if "ck_find ?ck (ps_map ?s) r' = Some (q, sl)" for r' q sl using entry_slot(5) [OF en that] rm(2) by auto
  have "entries_ok ?ck (ps_map ?s) (ps_lru ?s) (ps_heap ?s1)" by (rule entries_ok_heap [OF en]) simp
  then have ok1: "cache_ok ?ck minv ?s1" using rm(1) by (simp add: cache_ok_def)
  have idle: "ps_num_rows ?s1 = ps_capacity ?s1 \<longrightarrow>
      (\<exists>r q slot x. ck_find ?ck (ps_map ?s1) r = Some (q, slot) \<and> ps_heap ?s1 q = Some x \<and> HasZeroRef x)"
    using room ne unfolding cache_room_def by fastforce
  have bounds: "ps_capacity ?s1 < 2 ^ 31 - 1" "evict_hand (ps_lru ?s1) + 2 * ps_capacity ?s1 < 2 ^ 31" "2 * ps_capacity ?s1 \<le> int fuel"
    using room by (simp_all add: cache_room_def)
  have new: "ps_heap ?s1 ?p = Some ?rc" "\<forall>r slot. ck_find ?ck (ps_map ?s1) r \<noteq> Some (?p, slot)" using ne by auto
  from storage_Insert_ok [OF law ok1 row new idle bounds] obtain st' ev where x:
    "storage_Insert fuel ?ck (\<lambda>_ _. True) (\<lambda>s. s) row ?p ?s1 = Inr (ck_find ?ck (ps_map ?s1) row = None, st') \<and>
     cache_ok ?ck minv st' \<and> ps_capacity st' = ps_capacity ?s1 \<and> ps_num_rows st' \<le> ps_capacity ?s1 \<and>
     (\<exists>p slot x. ck_find ?ck (ps_map st') row = Some (p, slot) \<and> ps_heap st' p = Some x \<and> cr_data x = cr_data ?rc \<and> cr_clock x = cr_clock ?rc) \<and>
     (\<forall>r. r \<noteq> row \<and> ev \<noteq> Some r \<longrightarrow> ck_find ?ck (ps_map st') r = ck_find ?ck (ps_map ?s1) r \<and>
       (\<forall>p slot. ck_find ?ck (ps_map ?s1) r = Some (p, slot) \<longrightarrow> ps_heap st' p = ps_heap ?s1 p)) \<and>
     (\<forall>e. ev = Some e \<longrightarrow> ck_find ?ck (ps_map ?s1) row = None \<and> ps_num_rows ?s1 = ps_capacity ?s1 \<and> ck_find ?ck (ps_map st') e = None \<and>
       (\<exists>p slot x. ck_find ?ck (ps_map ?s1) e = Some (p, slot) \<and> ps_heap ?s1 p = Some x \<and> HasZeroRef x))"
    by (elim exE)
  note y = x [THEN conjunct2, THEN conjunct2, THEN conjunct2, THEN conjunct2]
  note ins = x [THEN conjunct1] x [THEN conjunct2, THEN conjunct1] y [THEN conjunct1] y [THEN conjunct2, THEN conjunct1]
    and gone = y [THEN conjunct2, THEN conjunct2]
  let ?ct = "ct\<lparr>ct_data := (ct_data ct)(?p \<mapsto> r), ct_next := ?p + 1, ct_storage := st'\<rparr>"
  have da: "data_at m ?ct row = Some ?p" using ins(3) by (auto simp: data_at_def MyCreateClientRow_def SSPClientRow_def)
  have keep: "data_at m ?ct r' = (if ev = Some r' then None else data_at m ct r')" if "r' \<noteq> row" for r'
    using ins(4) gone that ne by (auto simp: data_at_def split: option.split)
  have old: "\<exists>x. ct_data ct d = Some x \<and> rinv x" "d \<noteq> ?p" if "data_at m ct r' = Some d" for r' d
    using data_at_row [OF st that] rm(3) by auto
  have v1: "crow m ?ct row = Some r" using da by (simp add: crow_alt)
  have v2: "row_clock m ?ct row = Some (if consistency_model g = SSPPush then - 1 else clock)"
    using ins(3) by (auto simp: row_clock_def MyCreateClientRow_def SSPClientRow_def)
  have v3: "others_kept m ct ?ct row"
    unfolding others_kept_def using keep old by (intro exI [of _ ev]) (auto simp: crow_alt split: option.split)
  have at: "r1 = row \<and> d = ?p \<or> r1 \<noteq> row \<and> d \<noteq> ?p \<and> data_at m ct r1 = Some d" if h: "data_at m ?ct r1 = Some d" for r1 d
  proof (cases "r1 = row")
    case True
    then show ?thesis using h da by simp
  next
    case False
    then have "data_at m ct r1 = Some d" using h keep [OF False] by (simp split: if_splits)
    then show ?thesis using False old(2) by blast
  qed
  have v4: "store_ok m rinv ?ct"
  proof (rule store_okI)
    fix r' q sl assume f: "ck_find ?ck (ps_map (ct_storage ?ct)) r' = Some (q, sl)"
    have "entries_ok ?ck (ps_map st') (ps_lru st') (ps_heap st')" "lru_ok (ps_lru st')" using ins(2) by (simp_all add: cache_ok_def)
    from entry_slot [OF this(1)] this(2) f show "0 \<le> sl \<and> nat sl < length (stale (ps_lru (ct_storage ?ct))) \<and> ps_heap (ct_storage ?ct) q \<noteq> None"
      by (auto simp: lru_ok_def)
  next
    fix r1 r2 q s1 s2 assume "ck_find ?ck (ps_map (ct_storage ?ct)) r1 = Some (q, s1)" "ck_find ?ck (ps_map (ct_storage ?ct)) r2 = Some (q, s2)"
    then show "r1 = r2" using ins(2) entry_inj [of ?ck "ps_map st'" "ps_lru st'" "ps_heap st'"] by (auto simp: cache_ok_def)
  next
    fix r1 d assume "data_at m ?ct r1 = Some d"
    then show "\<exists>x. ct_data ?ct d = Some x \<and> rinv x" using at [of r1 d] old(1) [of r1 d] r by auto
  next
    fix r1 r2 d assume "data_at m ?ct r1 = Some d" "data_at m ?ct r2 = Some d"
    from at [OF this(1)] at [OF this(2)] data_at_inj [OF st, of r1 d r2] show "r1 = r2" by blast
  qed
  show ?thesis by (intro exI conjI, rule ins(1), rule refl, rule v4, rule v1, rule v2, rule v3, rule ins(2))
qed

text \<open>The handler of a received row, with the state it leaves.\<close>

lemma insert_received_row:
  fixes ops :: "('r, 'v::ab_group_add) row_ops" and s :: "('pm, 'om, 'im, 'r, 'v) bg_state" and e :: "('pm, 'om, 'im, 'r, 'v) bg_env"
  assumes law: "client_rows ops rinv0 rval rcol rwire m oinv iinv g" "cuckoo_map (cm_storage m) minv"
    and e: "be_maps e = m" "be_try_lock e = (\<lambda>_ _. True)" "be_other e = (\<lambda>st. st)"
    and ct: "map_of (bs_tables s) t = Some ct" "oplog_ok m oinv g ct" "store_ok m (col_inv rinv0 rcol col) ct" "cache_room m minv (be_fuel e) ct"
      "\<forall>us. pending_entries m g row ct = Inr us \<longrightarrow> (\<forall>p \<in> set us. col (fst p))"
    and row: "0 \<le> row" "col_inv rinv0 rcol col r"
    and ols: "mgr_has (bc_mgr (bs_ctx s)) (version + 1) ols" "length ols = unat (bc_version (bs_ctx s)) - unat (version + 1)"
      "\<forall>x \<in> set ols. ver_ok col t row x"
  shows "\<exists>r1 mgr ct'. ApplyOldOpLogsToRowData ops t row version r (bs_ctx s) = Inr (r1, (bs_ctx s)\<lparr>bc_mgr := mgr\<rparr>) \<and>
    ApplyOpLogsAndInsertRow e g t row version ops r clock s = Inr (set_table t ct' (s\<lparr>bs_ctx := (bs_ctx s)\<lparr>bc_mgr := mgr\<rparr>\<rparr>)) \<and>
    cval m rval ct' row = Some (\<lambda>c. rval r c + (\<Sum>x \<leftarrow> ols. bg_val x t row c) + tpend m g ct row c) \<and>
    row_clock m ct' row = Some (if consistency_model g = SSPPush then - 1 else clock) \<and>
    others_kept m ct ct' row \<and> tpend m g ct' = tpend m g ct \<and> store_ok m (col_inv rinv0 rcol col) ct' \<and> ct_table_id ct' = ct_table_id ct"
proof -
  let ?rinv = "col_inv rinv0 rcol col" and ?p = "ct_next ct"
  from client_rows.ApplyOldOpLogs_ok [OF law(1) row(2) ols] obtain r1 mgr where
    old: "ApplyOldOpLogsToRowData ops t row version r (bs_ctx s) = Inr (r1, (bs_ctx s)\<lparr>bc_mgr := mgr\<rparr>)" "?rinv r1"
    "rval r1 = (\<lambda>c. rval r c + (\<Sum>x \<leftarrow> ols. bg_val x t row c))" by blast
  obtain us where us: "pending_entries m g row ct = Inr us" "upd_sum us = tpend m g ct row"
    using client_rows.pending_entries_ok [OF law(1) ct(2) row(1)] by blast
  have "\<forall>p \<in> set us. col (fst p)" using ct(5) us(1) by blast
  from client_rows.apply_unsafe_ok [OF law(1) old(2) this] obtain r2 where
    r2: "apply_unsafe ops r1 us = Inr r2" "?rinv r2" "rval r2 = (\<lambda>c. rval r1 c + upd_sum us c)" by blast
  have "row \<noteq> - 1" using row(1) by simp
  from insert_client_row [OF law(2) ct(3,4) this r2(2), of g clock] obtain b st' ct' where ins:
    "storage_Insert (be_fuel e) (cm_storage m) (\<lambda>_ _. True) (\<lambda>s. s) row ?p
      ((ct_storage ct)\<lparr>ps_heap := (ps_heap (ct_storage ct))(?p \<mapsto> MyCreateClientRow g clock ?p)\<rparr>) = Inr (b, st')"
    "ct' = ct\<lparr>ct_data := (ct_data ct)(?p \<mapsto> r2), ct_next := ?p + 1, ct_storage := st'\<rparr>" "store_ok m ?rinv ct'"
    "crow m ct' row = Some r2" "row_clock m ct' row = Some (if consistency_model g = SSPPush then - 1 else clock)"
    "others_kept m ct ct' row" by blast
  have pe: "pending_entries m g row (snd (new_client_row g clock r1 ct)) = Inr us"
    using us(1) by (simp add: pending_entries_def new_client_row_def Let_def)
  have eq: "ct\<lparr>ct_next := Suc ?p, ct_data := (ct_data ct)(?p \<mapsto> r2), ct_storage := st'\<rparr> = ct'" unfolding ins(2) by (cases ct) simp
  have "ApplyOpLogsAndInsertRow e g t row version ops r clock s =
      Inr (set_table t ct' (s\<lparr>bs_ctx := (bs_ctx s)\<lparr>bc_mgr := mgr\<rparr>\<rparr>))"
    using ct(1) old(1) pe r2(1) ins(1) e eq
    by (simp add: ApplyOpLogsAndInsertRow_def find_table_def new_client_row_def Let_def)
  moreover have "cval m rval ct' row = Some (\<lambda>c. rval r c + (\<Sum>x \<leftarrow> ols. bg_val x t row c) + tpend m g ct row c)"
    using ins(4) r2(3) old(3) us(2) by (simp add: cval_def)
  moreover have "tpend m g ct' = tpend m g ct" "ct_table_id ct' = ct_table_id ct" using ins(2) by (simp_all add: tpend_def fun_eq_iff)
  ultimately show ?thesis using old(1) ins(3,5,6)
    by - (rule exI [of _ r1], rule exI [of _ mgr], rule exI [of _ ct'], simp)
qed

text \<open>
  C4. A row from the server shows all updates of this client. When the background thread inserts a row that
  the server sent with its oplogs up to \<open>version\<close> applied, the cached row has in every column the
  server's value plus the updates of all versions sent since plus the updates still pending in the oplog; its
  clock is the server's (none under SSPPush). The loop over the versions ends within its fuel, and
  no other row changes, but that one unreferenced row may be evicted. The theorem is about a version counter
  that has not wrapped around between the server's version and the client's (\<open>version + 1 \<le> bc_version\<close>; past the
  wrap-around the loop of the source applies nothing at all), about an insertion that no other thread interferes
  with (\<open>be_other\<close> the identity, the slot locks free) and about a cache with room (\<open>cache_room\<close>: the insertion finds a free slot
  or a row to evict within its tries, and the hand of the clock does not leave its 32-bit range).
\<close>

theorem received_row_complete:
  fixes ops :: "('r, 'v::ab_group_add) row_ops" and s :: "('pm, 'om, 'im, 'r, 'v) bg_state" and e :: "('pm, 'om, 'im, 'r, 'v) bg_env"
  assumes law: "client_rows ops rinv0 rval rcol rwire m oinv iinv g" "cuckoo_map (cm_storage m) minv"
    and e: "be_maps e = m" "be_try_lock e = (\<lambda>_ _. True)" "be_other e = (\<lambda>st. st)"
    and ct: "map_of (bs_tables s) t = Some ct" "oplog_ok m oinv g ct" "store_ok m (col_inv rinv0 rcol col) ct" "cache_room m minv (be_fuel e) ct"
      "\<forall>us. pending_entries m g row ct = Inr us \<longrightarrow> (\<forall>p \<in> set us. col (fst p))"
    and row: "0 \<le> row" "col_inv rinv0 rcol col r"
    and ver: "version + 1 \<le> bc_version (bs_ctx s)"
    and ols: "mgr_has (bc_mgr (bs_ctx s)) (version + 1) ols" "length ols = unat (bc_version (bs_ctx s)) - unat (version + 1)"
      "\<forall>x \<in> set ols. ver_ok col t row x"
  shows "\<exists>s' ct'. ApplyOpLogsAndInsertRow e g t row version ops r clock s = Inr s' \<and>
    (\<forall>t'. map_of (bs_tables s') t' = (if t' = t then Some ct' else map_of (bs_tables s) t')) \<and>
    cval m rval ct' row = Some (\<lambda>c. rval r c + (\<Sum>x \<leftarrow> ols. bg_val x t row c) + tpend m g ct row c) \<and>
    row_clock m ct' row = Some (if consistency_model g = SSPPush then - 1 else clock) \<and>
    others_kept m ct ct' row \<and> tpend m g ct' = tpend m g ct \<and> store_ok m (col_inv rinv0 rcol col) ct'"
proof -
  obtain mgr ct' where x: "ApplyOpLogsAndInsertRow e g t row version ops r clock s = Inr (set_table t ct' (s\<lparr>bs_ctx := (bs_ctx s)\<lparr>bc_mgr := mgr\<rparr>\<rparr>))"
    "cval m rval ct' row = Some (\<lambda>c. rval r c + (\<Sum>x \<leftarrow> ols. bg_val x t row c) + tpend m g ct row c)"
    "row_clock m ct' row = Some (if consistency_model g = SSPPush then - 1 else clock)"
    "others_kept m ct ct' row" "tpend m g ct' = tpend m g ct" "store_ok m (col_inv rinv0 rcol col) ct'"
    using insert_received_row [OF law e ct row ols] by blast
  then show ?thesis by (auto simp: set_table_def map_of_oupd)
qed

text \<open>Row 5 has a pending update of 3; version 0 added 5 and the server has not seen it.\<close>

definition demo_inc :: "((int, nat \<times> int) amap, (int, nat) amap, (int, bool) amap, int sparse_row, int) client_table" where
  "demo_inc = projr (foldM (client_step alist_maps demo_ctx) demo_table [C_Inc 200 5 0 3])"

definition demo_reply_state :: "((int, nat \<times> int) amap, (int, nat) amap, (int, bool) amap, int sparse_row, int) bg_state" where
  "demo_reply_state = demo_bg_state\<lparr>bs_ctx := (bs_ctx demo_bg_state)\<lparr>bc_version := 1,
     bc_mgr := SSPMgr (SSPRowRequestOpLogMgr\<lparr>version_oplog_map := [(0, demo_bg)]\<rparr>)\<rparr>, bs_tables := [(0, demo_inc)]\<rparr>"

lemma demo_inc_ok:
  "sparse_client.ok demo_inc" "tpend alist_maps demo_ctx demo_inc 5 0 = 3"
proof -
  have v: "\<forall>x \<in> set [C_Inc 200 5 0 3]. op_valid (\<lambda>_. True) x \<and> op_thread x \<in> set (keys (ct_thread_cache demo_table))"
    unfolding demo_table_ok(2) by (simp add: op_valid_def)
  from sparse_client.client_run_ok [OF demo_table_ok(1) v] show "sparse_client.ok demo_inc" by (auto simp: demo_inc_def)
  show "tpend alist_maps demo_ctx demo_inc 5 0 = 3" by code_simp
qed

lemma demo_inc_eval:
  "ps_map (ct_storage demo_inc) = []" "ps_lru (ct_storage demo_inc) = ClockLRU 4" "ps_capacity (ct_storage demo_inc) = 4"
  "ps_num_rows (ct_storage demo_inc) = 0" "ps_heap (ct_storage demo_inc) (ct_next demo_inc) = None" "ct_data demo_inc (ct_next demo_inc) = None"
  by code_simp+

lemma demo_inc_room: "cache_room alist_maps amap_ok 10 demo_inc"
  by (auto simp: cache_room_def demo_inc_eval cache_ok_def alist_maps_def alist_cuckoo_def entries_ok_def ClockLRU_def lru_ok_def
      amap_ok_def occupied_def)

lemma demo_versions:
  "mgr_has (bc_mgr (bs_ctx demo_reply_state)) (- 1 + 1) [demo_bg]"
  "length [demo_bg] = unat (bc_version (bs_ctx demo_reply_state)) - unat ((- 1 :: 32 word) + 1)" "\<forall>x \<in> set [demo_bg]. ver_ok (\<lambda>_. True) 0 5 x"
  by (simp_all add: demo_reply_state_def mgr_has_def ssp_has_def ver_ok_def demo_bg_def bg_rows_def demo_row_def rol_ok_def)

theorem received_row_complete_witness:
  "\<exists>s' ct'. ApplyOpLogsAndInsertRow demo_env demo_ctx 0 5 (- 1) (sparse_ops i32_pod) [(0, 10)] 1 demo_reply_state = Inr s' \<and>
     map_of (bs_tables s') 0 = Some ct' \<and> (\<exists>f. cval alist_maps sparse_index ct' 5 = Some f \<and> f 0 = 18) \<and>
     row_clock alist_maps ct' 5 = Some 1"
proof -
  have law: "cuckoo_map (cm_storage alist_maps) amap_ok" using alist_ck.cuckoo_map_axioms by (simp add: alist_maps_def)
  have e: "be_maps demo_env = alist_maps" "be_try_lock demo_env = (\<lambda>_ _. True)" "be_other demo_env = (\<lambda>st. st)" "be_fuel demo_env = 10"
    by (simp_all add: demo_env_def)
  have ct: "map_of (bs_tables demo_reply_state) 0 = Some demo_inc" "oplog_ok alist_maps amap_ok demo_ctx demo_inc"
    "store_ok alist_maps (col_inv sparse_inv (\<lambda>_ _. True) (\<lambda>_. True)) demo_inc"
    "\<forall>us. pending_entries alist_maps demo_ctx 5 demo_inc = Inr us \<longrightarrow> (\<forall>p \<in> set us. True)"
    using demo_inc_ok(1) by (simp_all add: demo_reply_state_def ct_ok_def)
  have room: "cache_room alist_maps amap_ok (be_fuel demo_env) demo_inc" using demo_inc_room by (simp add: demo_env_def)
  note ols = demo_versions
  have ver: "(- 1 :: 32 word) + 1 \<le> bc_version (bs_ctx demo_reply_state)" by (simp add: demo_reply_state_def)
  have r: "(0 :: int) \<le> 5" "col_inv sparse_inv (\<lambda>_ _. True) (\<lambda>_. True) [(0, 10 :: int)]" by (simp_all add: col_inv_def sparse_inv_def)
  from received_row_complete [OF sparse_client.client_rows_axioms law e(1-3) ct(1-3) room ct(4) r ver ols, of 1]
  obtain s' ct' where x: "ApplyOpLogsAndInsertRow demo_env demo_ctx 0 5 (- 1) (sparse_ops i32_pod) [(0, 10)] 1 demo_reply_state = Inr s'"
    "\<forall>t'. map_of (bs_tables s') t' = (if t' = 0 then Some ct' else map_of (bs_tables demo_reply_state) t')"
    "cval alist_maps sparse_index ct' 5 = Some (\<lambda>c. sparse_index [(0, 10)] c + (\<Sum>x \<leftarrow> [demo_bg]. bg_val x 0 5 c) + tpend alist_maps demo_ctx demo_inc 5 c)"
    "row_clock alist_maps ct' 5 = Some (if consistency_model demo_ctx = SSPPush then - 1 else 1)" by blast
  have "sparse_index [(0, 10)] 0 + (\<Sum>x \<leftarrow> [demo_bg]. bg_val x 0 5 0) + tpend alist_maps demo_ctx demo_inc 5 0 = 18"
    unfolding demo_inc_ok(2) by (simp add: sparse_index_def bg_val_def bg_rows_def demo_bg_def demo_row_def rol_val_def)
  moreover have "consistency_model demo_ctx = SSP" by (simp add: demo_ctx_def GlobalContext_Init_def)
  ultimately show ?thesis using x by auto
qed

end
