(* ===== verification/Client_Fetch.thy ===== *)
theory Client_Fetch
imports Bg_Rows Server_Thread_Proofs
begin

text \<open>
  A read of a row that is not in the process cache, end to end: the application thread asks its background thread
  (ssp_consistency_controller.cpp, \<open>BgWorkers::RequestRow\<close>), which asks the server (bg_workers.cpp); the server answers (server_threads.cpp), and the background
  thread enters the row into the cache and wakes the application thread.
\<close>

section \<open>The way of a request\<close>

text \<open>
  What happens between the request of thread \<open>app\<close> and its wake-up: the background thread \<open>my_id\<close> handles the request, the server the message it may
  send, and the background thread the server's reply.  The thread goes on when a reply is sent to it; otherwise it is blocked.
\<close>

definition bg_serves ::
  "('pm, 'om, 'im, 'r, 'v) bg_env \<Rightarrow> global_context \<Rightarrow> int \<Rightarrow> int \<Rightarrow> ('r, 'v) class_registry \<Rightarrow> ('r, 'v) server \<Rightarrow> int \<Rightarrow> int \<Rightarrow> int \<Rightarrow>
   ('pm, 'om, 'im, 'r, 'v) bg_state \<Rightarrow> ('pm, 'om, 'im, 'r, 'v) fetch" where
  "bg_serves e g app my_id reg srv t row clock s = (\<lambda>_ ct.
     rbind (CheckForwardRowRequestToServer e g app t row clock (set_table t ct s)) (\<lambda>(os, s).
     case os of
       [ToApp app' RowRequestReplyMsg] \<Rightarrow> if app' = app then find_table t s else Inl (Blocked ''RequestRow'')
     | [ToServer server (RowRequestMsg t' row' clock')] \<Rightarrow>
         rbind (HandleRowRequest reg g my_id t' row' clock' srv) (\<lambda>(outs, srv).
         case outs of
           [(bg, ServerRowRequestReplyMsg t'' row'' c version data)] \<Rightarrow>
             rbind (HandleServerRowRequestReply e g server t'' row'' c version data s) (\<lambda>(os, s).
             if ToApp app RowRequestReplyMsg \<in> set os then find_table t s else Inl (Blocked ''RequestRow''))
         | _ \<Rightarrow> Inl (Blocked ''RequestRow''))
     | _ \<Rightarrow> Inl (Blocked ''RequestRow'')))"

section \<open>The server's answer\<close>

lemma GetBgVersion_same: "GetBgVersion bg s = (v, s') \<Longrightarrow> tables s' = tables s \<and> client_clocks s' = client_clocks s"
  by (auto simp: GetBgVersion_def split: option.splits)

lemma server_answers:
  assumes law: "additive_row ops rinv rval rcol rwire" and g: "consistency_model g = SSP" and c: "clock \<le> GetMinClock srv"
    and row: "map_of (tables srv) t = Some tab" "FindRow row tab = Some sr" "sr_ops sr = ops" "rinv (sr_data sr)"
  shows "\<exists>srv'. HandleRowRequest reg g bg t row clock srv =
    Inr ([(bg, ServerRowRequestReplyMsg t row (GetMinClock srv) (fst (GetBgVersion bg srv)) (ro_Serialize ops (sr_data sr)))], srv')"
proof -
  obtain v s1 where v: "GetBgVersion bg srv = (v, s1)" by fastforce
  note same = GetBgVersion_same [OF v]
  have len: "length (ro_Serialize ops (sr_data sr)) \<le> ro_SerializedSize ops (sr_data sr)" using additive_row.ser_bound [OF law row(4)] .
  have "answer_request reg g bg t row srv = Inr ([(bg, ServerRowRequestReplyMsg t row (GetMinClock srv) v (ro_Serialize ops (sr_data sr)))],
      s1\<lparr>tables := AList.update t (tab\<lparr>st_storage := AList.update row sr (st_storage tab)\<rparr>) (tables s1)\<rparr>)"
    using v same row g len
    by (simp add: answer_request_def FindCreateRow_def RowSubscribe_def store_row_def ReplyRowRequest_def mem_write_def row_Serialize_def row_SerializedSize_def GetMinClock_def)
  then show ?thesis using c v by (simp add: HandleRowRequest_def)
qed

section \<open>The request manager\<close>

text \<open>Walking over the versions leaves the requests alone.\<close>

definition same_requests :: "'o oplog_mgr \<Rightarrow> 'o ssp_mgr \<Rightarrow> bool" where
  "same_requests mgr x \<longleftrightarrow> (\<exists>x'. mgr = SSPMgr x' \<and> pending_row_requests x' = pending_row_requests x \<and> version_request_cnt_map x' = version_request_cnt_map x)"

lemma iter_next_same: "mgr_OpLogIterNext mgr = Inr (y, mgr') \<Longrightarrow> same_requests mgr x \<Longrightarrow> same_requests mgr' x"
  by (auto simp: same_requests_def ssp_OpLogIterNext_def rbind_eq_Inr Let_def split: if_splits)

lemma old_loop_same: "old_oplogs_loop n ops t row bg mgr r = Inr (r', mgr') \<Longrightarrow> same_requests mgr x \<Longrightarrow> same_requests mgr' x"
proof (induction n arbitrary: bg mgr r)
  case (Suc n)
  then obtain r1 y mgr1 where y: "mgr_OpLogIterNext mgr = Inr (y, mgr1)"
    "(case y of None \<Rightarrow> Inr (r1, mgr1) | Some (_, bg) \<Rightarrow> old_oplogs_loop n ops t row bg mgr1 r1) = Inr (r', mgr')" by (auto simp: rbind_eq_Inr)
  have "same_requests mgr1 x" using iter_next_same [OF y(1) Suc.prems(2)] .
  with y(2) show ?case using Suc.IH by (auto split: option.splits)
qed simp

lemma old_oplogs_same:
  assumes "ApplyOldOpLogsToRowData ops t row version r c = Inr (r', c')" "same_requests (bc_mgr c) x"
  shows "same_requests (bc_mgr c') x"
proof -
  have "same_requests mgr x" if "mgr_OpLogIterInit v w (bc_mgr c) = Inr (ol, mgr)" for v w ol mgr
    using that assms(2) by (auto simp: same_requests_def ssp_OpLogIterInit_def rbind_eq_Inr Let_def)
  then show ?thesis using assms old_loop_same by (fastforce simp: ApplyOldOpLogsToRowData_def rbind_eq_Inr split: if_splits)
qed

text \<open>The only request for a row is sent, and the reply answers it.\<close>

lemma add_only_request:
  assumes "requests_at (t, row) (pending_row_requests x) = []"
  shows "mgr_AddRowRequest junk r t row (SSPMgr x) = (True, SSPMgr (x\<lparr>pending_row_requests := oupd (t, row) [copy_request junk r] (pending_row_requests x),
    version_request_cnt_map := cnt_inc (rqi_version r) (version_request_cnt_map x)\<rparr>))"
  using assms by (simp add: ssp_AddRowRequest_def insert_request_def Let_def)

lemma inform_only_request:
  assumes "same_requests mgr (x\<lparr>pending_row_requests := oupd (t, row) [copy_request junk r] (pending_row_requests x),
      version_request_cnt_map := cnt_inc (rqi_version r) (version_request_cnt_map x)\<rparr>)"
    "0 \<le> cnt_at (rqi_version r) (version_request_cnt_map x)" "rqi_clock r \<le> clock"
  shows "\<exists>mgr'. mgr_InformReply t row clock cur mgr = Inr (- 1, [rqi_app_thread_id r], mgr')"
proof -
  obtain y where y: "mgr = SSPMgr y" "pending_row_requests y = oupd (t, row) [copy_request junk r] (pending_row_requests x)"
    "version_request_cnt_map y = cnt_inc (rqi_version r) (version_request_cnt_map x)" using assms(1) by (auto simp: same_requests_def)
  have "requests_at (t, row) (pending_row_requests y) = [copy_request junk r]" by (simp add: requests_at_def y(2) map_of_oupd)
  moreover have "cnt_at (rqi_version r) (cnt_dec (rqi_version r) (version_request_cnt_map y)) = cnt_at (rqi_version r) (version_request_cnt_map x)"
    by (simp add: y(3) cnt_at_def cnt_dec_def cnt_inc_def map_of_oupd)
  ultimately show ?thesis using assms(2,3) by (simp add: y(1) ssp_InformReply_def copy_request_def check_def Let_def)
qed

section \<open>The background thread brings the row\<close>

context client_rows
begin

text \<open>The background thread enters the row of the reply and answers the thread that asked.\<close>

lemma reply_enters_row:
  fixes s :: "('pm, 'om, 'im, 'r, 'v) bg_state" and e :: "('pm, 'om, 'im, 'r, 'v) bg_env"
  assumes law: "cuckoo_map (cm_storage m) minv"
    and e: "be_maps e = m" "be_try_lock e = (\<lambda>_ _. True)" "be_other e = (\<lambda>st. st)" "CreateObject (be_reg e) (ct_row_type ct) = Some (ops, r0)"
    and ct: "map_of (bs_tables s) t = Some ct" "oplog_ok m oinv g ct" "store_ok m rinv ct" "cache_room m minv (be_fuel e) ct"
      "\<forall>us. pending_entries m g row ct = Inr us \<longrightarrow> (\<forall>p \<in> set us. col (fst p))"
    and row: "0 \<le> row" "rinv d" "rwire d"
    and mgr: "bc_mgr (bs_ctx s) = SSPMgr (x\<lparr>pending_row_requests := oupd (t, row) [copy_request junk rq] (pending_row_requests x),
        version_request_cnt_map := cnt_inc (rqi_version rq) (version_request_cnt_map x)\<rparr>)"
      "0 \<le> cnt_at (rqi_version rq) (version_request_cnt_map x)" "rqi_clock rq \<le> clock"
    and ols: "mgr_has (bc_mgr (bs_ctx s)) (version + 1) ols" "length ols = unat (bc_version (bs_ctx s)) - unat (version + 1)"
      "\<forall>x \<in> set ols. ver_ok col t row x"
  shows "\<exists>s' ct'. HandleServerRowRequestReply e g server t row clock version (ro_Serialize ops d) s =
      Inr ([ToApp (rqi_app_thread_id rq) RowRequestReplyMsg], s') \<and> map_of (bs_tables s') t = Some ct' \<and>
    cval m rval ct' row = Some (\<lambda>c. rval d c + (\<Sum>x \<leftarrow> ols. bg_val x t row c) + tpend m g ct row c) \<and>
    row_clock m ct' row = Some (if consistency_model g = SSPPush then - 1 else clock) \<and> store_ok m rinv ct'"
proof -
  obtain r where r: "ro_Deserialize ops (ro_Serialize ops d) r0 = Inr (True, r)" "rinv r" "rval r = rval d"
    using deser_ser [of d r0] row(2,3) by (auto simp: col_inv_def)
  have rr: "received_row e t (ro_Serialize ops d) s = Inr (ops, r)" using ct(1) e(4) r(1) by (simp add: received_row_def find_table_def)
  have ack: "mgr_Acknowledge (be_stray e) server version (bc_mgr (bs_ctx s)) = Inr (bc_mgr (bs_ctx s))" using mgr(1) by simp
  have id: "set_mgr (bc_mgr (bs_ctx s)) s = s" by (simp add: set_mgr_def)
  obtain r1 mgr' ct' where i: "ApplyOldOpLogsToRowData ops t row version r (bs_ctx s) = Inr (r1, (bs_ctx s)\<lparr>bc_mgr := mgr'\<rparr>)"
      "ApplyOpLogsAndInsertRow e g t row version ops r clock s = Inr (set_table t ct' (s\<lparr>bs_ctx := (bs_ctx s)\<lparr>bc_mgr := mgr'\<rparr>\<rparr>))"
      "cval m rval ct' row = Some (\<lambda>c. rval r c + (\<Sum>x \<leftarrow> ols. bg_val x t row c) + tpend m g ct row c)"
      "row_clock m ct' row = Some (if consistency_model g = SSPPush then - 1 else clock)" "store_ok m rinv ct'"
    using insert_received_row [OF client_rows_axioms law e(1-3) ct row(1) r(2) ols, of clock] by blast
  let ?x = "x\<lparr>pending_row_requests := oupd (t, row) [copy_request junk rq] (pending_row_requests x),
        version_request_cnt_map := cnt_inc (rqi_version rq) (version_request_cnt_map x)\<rparr>"
  have "same_requests (bc_mgr (bs_ctx s)) ?x" unfolding mgr(1) by (simp add: same_requests_def)
  from old_oplogs_same [OF i(1) this] have "same_requests mgr' ?x" by simp
  from inform_only_request [OF this mgr(2,3), of "bc_version (bs_ctx s)"] obtain mgr2 where
    inf: "mgr_InformReply t row clock (bc_version (bs_ctx s)) mgr' = Inr (- 1, [rqi_app_thread_id rq], mgr2)" by blast
  have "HandleServerRowRequestReply e g server t row clock version (ro_Serialize ops d) s =
      Inr ([ToApp (rqi_app_thread_id rq) RowRequestReplyMsg], set_mgr mgr2 (set_table t ct' (s\<lparr>bs_ctx := (bs_ctx s)\<lparr>bc_mgr := mgr'\<rparr>\<rparr>)))"
    using rr ack id i(2) inf by (simp add: HandleServerRowRequestReply_def set_table_def Let_def)
  moreover have "map_of (bs_tables (set_mgr mgr2 (set_table t ct' (s\<lparr>bs_ctx := (bs_ctx s)\<lparr>bc_mgr := mgr'\<rparr>\<rparr>)))) t = Some ct'"
    by (simp add: set_mgr_def set_table_def map_of_oupd)
  ultimately show ?thesis using i(3-5) r(3) by auto
qed

text \<open>The whole way, for a row that is not in the cache.\<close>

lemma bg_serves_row:
  fixes s :: "('pm, 'om, 'im, 'r, 'v) bg_state" and e :: "('pm, 'om, 'im, 'r, 'v) bg_env"
  assumes law: "cuckoo_map (cm_storage m) minv"
    and e: "be_maps e = m" "be_try_lock e = (\<lambda>_ _. True)" "be_other e = (\<lambda>st. st)" "CreateObject (be_reg e) (ct_row_type ct) = Some (ops, r0)"
    and g: "consistency_model g = SSP" "GetRowPartitionServerID g t row = Inr server"
    and ct: "oplog_ok m oinv g ct" "store_ok m rinv ct" "cache_room m minv (be_fuel e) ct"
      "\<forall>us. pending_entries m g row ct = Inr us \<longrightarrow> (\<forall>p \<in> set us. col (fst p))"
    and row: "0 \<le> row" "ck_find (cm_storage m) (ps_map (ct_storage ct)) row = None"
    and mgr: "bc_mgr (bs_ctx s) = SSPMgr x" "requests_at (t, row) (pending_row_requests x) = []"
      "0 \<le> cnt_at (bc_version (bs_ctx s) - 1) (version_request_cnt_map x)"
    and srv: "map_of (tables srv) t = Some tab" "FindRow row tab = Some sr" "sr_ops sr = ops" "rinv (sr_data sr)" "rwire (sr_data sr)" "clock \<le> GetMinClock srv"
    and ols: "mgr_has (bc_mgr (bs_ctx s)) (fst (GetBgVersion my_id srv) + 1) ols"
      "length ols = unat (bc_version (bs_ctx s)) - unat (fst (GetBgVersion my_id srv) + 1)" "\<forall>x \<in> set ols. ver_ok col t row x"
  shows "\<exists>ct'. bg_serves e g app my_id reg srv t row clock s n ct = Inr ct' \<and>
    cval m rval ct' row = Some (\<lambda>c. rval (sr_data sr) c + (\<Sum>x \<leftarrow> ols. bg_val x t row c) + tpend m g ct row c) \<and>
    row_clock m ct' row = Some (GetMinClock srv) \<and> store_ok m rinv ct'"
proof -
  let ?rq = "(RowRequestInfo (be_sent e))\<lparr>rqi_app_thread_id := app, rqi_clock := clock, rqi_version := bc_version (bs_ctx s) - 1\<rparr>"
  let ?x = "x\<lparr>pending_row_requests := oupd (t, row) [copy_request (be_sent e) ?rq] (pending_row_requests x),
    version_request_cnt_map := cnt_inc (rqi_version ?rq) (version_request_cnt_map x)\<rparr>"
  let ?s = "set_mgr (SSPMgr ?x) (set_table t ct s)"
  have fwd: "CheckForwardRowRequestToServer e g app t row clock (set_table t ct s) = Inr ([ToServer server (RowRequestMsg t row clock)], ?s)"
  proof -
    have find: "find_fresh (be_maps e) row clock RowAccessor ct = Inr (False, RowAccessor, ct)" unfolding find_fresh_def e(1) by (simp add: ct_Find_absent [OF row(2)])
    have drop: "drop_accessor RowAccessor ct = Inr ct" by (simp add: drop_accessor_def accessor_Clear_def RowAccessor_def)
    have tab: "find_table t (set_table t ct s) = Inr ct" "set_table t ct (set_table t ct s) = set_table t ct s"
      by (simp_all add: find_table_def set_table_def map_of_oupd oupd_oupd)
    have cached: "cached_fresh (be_maps e) row clock ct = Inr (False, ct)" by (simp add: cached_fresh_def find drop)
    have ctx: "bs_ctx (set_table t ct s) = bs_ctx s" by (simp add: set_table_def)
    show ?thesis using add_only_request [OF mgr(2), of "be_sent e" ?rq] mgr(1) g(2)
      by (simp add: CheckForwardRowRequestToServer_def tab cached ctx Let_def)
  qed
  obtain srv' where ans: "HandleRowRequest reg g my_id t row clock srv =
      Inr ([(my_id, ServerRowRequestReplyMsg t row (GetMinClock srv) (fst (GetBgVersion my_id srv)) (ro_Serialize ops (sr_data sr)))], srv')"
    using server_answers [OF additive_row_axioms g(1) srv(6,1-3)] srv(4) by (auto simp: col_inv_def)
  have s: "map_of (bs_tables ?s) t = Some ct" "bc_mgr (bs_ctx ?s) = SSPMgr ?x" "bc_version (bs_ctx ?s) = bc_version (bs_ctx s)"
    by (simp_all add: set_mgr_def set_table_def map_of_oupd)
  have has: "mgr_has (bc_mgr (bs_ctx ?s)) (fst (GetBgVersion my_id srv) + 1) ols" using ols(1) unfolding s(2) mgr(1) by (simp add: mgr_has_def ssp_has_def)
  have "0 \<le> cnt_at (rqi_version ?rq) (version_request_cnt_map x)" "rqi_clock ?rq \<le> GetMinClock srv" using mgr(3) srv(6) by simp_all
  from reply_enters_row [OF law e s(1) ct row(1) srv(4,5) s(2) this has _ ols(3), of server] ols(2) s(3) obtain s' ct' where
    r: "HandleServerRowRequestReply e g server t row (GetMinClock srv) (fst (GetBgVersion my_id srv)) (ro_Serialize ops (sr_data sr)) ?s =
      Inr ([ToApp app RowRequestReplyMsg], s')" "map_of (bs_tables s') t = Some ct'"
    "cval m rval ct' row = Some (\<lambda>c. rval (sr_data sr) c + (\<Sum>x \<leftarrow> ols. bg_val x t row c) + tpend m g ct row c)"
    "row_clock m ct' row = Some (GetMinClock srv)" "store_ok m rinv ct'" using g(1) by auto
  then show ?thesis using fwd ans by (simp add: bg_serves_def find_table_def)
qed

end

section \<open>Property\<close>

text \<open>
  C23. Get returns with a fresh row. When an application thread of clock \<open>clk\<close> reads a row that is not in the process cache, and the server's clock has reached the stalest clock
  allowed, the request goes from the thread to its background thread, from there to the row's server, and the server's reply back: \<open>Get\<close> returns after this one request, the
  background thread wakes the thread, and none of the checks on the way fires, that of the row's clock included. The row handed out has the server's clock, and its
  value is the server's plus the updates that the client has sent since the version the server has seen, plus those still pending.
\<close>

theorem get_fetches_row:
  fixes ops :: "('r, 'v::ab_group_add) row_ops" and s :: "('pm, 'om, 'im, 'r, 'v) bg_state" and e :: "('pm, 'om, 'im, 'r, 'v) bg_env"
  assumes law: "client_rows ops rinv0 rval rcol rwire m oinv iinv g" "cuckoo_map (cm_storage m) minv"
    and e: "be_maps e = m" "be_try_lock e = (\<lambda>_ _. True)" "be_other e = (\<lambda>st. st)" "CreateObject (be_reg e) (ct_row_type ct) = Some (ops, r0)"
    and g: "consistency_model g = SSP" "GetRowPartitionServerID g t row = Inr server"
    and ct: "oplog_ok m oinv g ct" "store_ok m (col_inv rinv0 rcol col) ct" "cache_room m minv (be_fuel e) ct"
      "\<forall>us. pending_entries m g row ct = Inr us \<longrightarrow> (\<forall>p \<in> set us. col (fst p))" "ct_table_id ct = t"
    and row: "0 \<le> row" "ck_find (cm_storage m) (ps_map (ct_storage ct)) row = None"
    and mgr: "bc_mgr (bs_ctx s) = SSPMgr x" "requests_at (t, row) (pending_row_requests x) = []"
      "0 \<le> cnt_at (bc_version (bs_ctx s) - 1) (version_request_cnt_map x)"
    and srv: "map_of (tables srv) t = Some tab" "FindRow row tab = Some sr" "sr_ops sr = ops" "col_inv rinv0 rcol col (sr_data sr)" "rwire (sr_data sr)"
      "stalest_clock clk ct \<le> GetMinClock srv"
    and ver: "fst (GetBgVersion my_id srv) + 1 \<le> bc_version (bs_ctx s)"
    and ols: "mgr_has (bc_mgr (bs_ctx s)) (fst (GetBgVersion my_id srv) + 1) ols"
      "length ols = unat (bc_version (bs_ctx s)) - unat (fst (GetBgVersion my_id srv) + 1)" "\<forall>x \<in> set ols. ver_ok col t row x"
  shows "\<exists>bg a ct'. ctl_Get m g (bg_serves e g app my_id reg srv t row (stalest_clock clk ct) s) clk row RowAccessor ct =
      Inr ([(bg, AppRowRequestMsg t row (stalest_clock clk ct))], a, ct') \<and>
    acc_ok m ct' row True a \<and> accessor_clock a ct' = Inr (GetMinClock srv) \<and>
    cval m rval ct' row = Some (\<lambda>c. rval (sr_data sr) c + (\<Sum>x \<leftarrow> ols. bg_val x t row c) + tpend m g ct row c)"
proof -
  let ?st = "stalest_clock clk ct" and ?f = "bg_serves e g app my_id reg srv t row (stalest_clock clk ct) s"
  obtain c1 where c1: "?f 3 ct = Inr c1" "cval m rval c1 row = Some (\<lambda>c. rval (sr_data sr) c + (\<Sum>x \<leftarrow> ols. bg_val x t row c) + tpend m g ct row c)"
      "row_clock m c1 row = Some (GetMinClock srv)" "store_ok m (col_inv rinv0 rcol col) c1"
    using client_rows.bg_serves_row [OF law e g ct(1-4) row mgr srv ols, of app reg 3] by blast
  obtain bg where req: "RequestRow g t row ?st = Inr [(bg, AppRowRequestMsg t row ?st)]"
    using GetBgPartitionNum_eq [OF row(1) client_rows.bg [OF law(1)]] by (simp add: RequestRow_def)
  obtain p slot where p: "ck_find (cm_storage m) (ps_map (ct_storage c1)) row = Some (p, slot)" using c1(3) by (auto simp: row_clock_def split: option.splits)
  have "acc_live c1 RowAccessor" by (simp add: acc_live_def RowAccessor_def)
  from ct_Find_present [OF c1(4) this p] obtain a c2 where x: "ct_Find m row RowAccessor c1 = Inr (True, a, c2)" "cache_frame c1 c2" "ct_data c2 = ct_data c1"
    "acc_ok m c2 row True a" "accessor_clock a c2 = Inr (GetMinClock srv)" using c1(3) by auto
  have "fetch_loop 3 m g ?f row ?st RowAccessor ct = Inr ([(bg, AppRowRequestMsg t row ?st)], a, c2)"
    using req ct(5) c1(1) x(1) by (simp add: numeral_3_eq_3)
  then have "ctl_Get m g ?f clk row RowAccessor ct = Inr ([(bg, AppRowRequestMsg t row ?st)], a, c2)"
    using x(5) srv(6) ct_Find_absent [OF row(2), of RowAccessor] by (simp add: ctl_Get_def find_fresh_def fetch_fresh_def check_def Let_def)
  moreover have "cval m rval c2 row = cval m rval c1 row" using cache_frame_crow [OF x(2,3), of m] by (simp add: cval_def)
  ultimately show ?thesis using x(4,5) c1(2) by auto
qed

text \<open>Row 5 is 10 at the server, which has the clock 1 and has seen no version of this client; version 0 adds 5, and 3 is pending.\<close>

definition demo_answering :: "(int sparse_row, int) server" where
  "demo_answering = Server_new\<lparr>client_clocks := \<lparr>vec_clock = [(0, 1)], min_clock = 1\<rparr>,
     tables := [(0, (ServerTable \<lparr>table_staleness = 1, row_type = 0, row_capacity = 0\<rparr>)\<lparr>st_storage := [(5, ServerRow (sparse_ops i32_pod) [(0, 10)])]\<rparr>)],
     bg_version_map := [(100, - 1)]\<rparr>"

theorem get_fetches_row_witness:
  "\<exists>bg a ct'. ctl_Get alist_maps demo_ctx (bg_serves demo_env demo_ctx 200 100 (reg_of (sparse_ops i32_pod)) demo_answering 0 5 1 demo_reply_state) 2 5 RowAccessor demo_inc =
      Inr ([(bg, AppRowRequestMsg 0 5 1)], a, ct') \<and> accessor_clock a ct' = Inr 1 \<and> (\<exists>f. cval alist_maps sparse_index ct' 5 = Some f \<and> f 0 = 18)"
proof -
  have law: "cuckoo_map (cm_storage alist_maps) amap_ok" using alist_ck.cuckoo_map_axioms by (simp add: alist_maps_def)
  have st: "stalest_clock 2 demo_inc = 1" "ct_table_id demo_inc = 0" by code_simp+
  have e: "be_maps demo_env = alist_maps" "be_try_lock demo_env = (\<lambda>_ _. True)" "be_other demo_env = (\<lambda>st. st)"
    "CreateObject (be_reg demo_env) (ct_row_type demo_inc) = Some (sparse_ops i32_pod, ro_new (sparse_ops i32_pod))"
    by (simp_all add: demo_env_def CreateObject_def reg_of_def)
  have g: "consistency_model demo_ctx = SSP" by (simp add: demo_ctx_def GlobalContext_Init_def)
  obtain server where server: "GetRowPartitionServerID demo_ctx 0 5 = Inr server"
    by (simp add: GetRowPartitionServerID_def demo_ctx_def GlobalContext_Init_def c_mod_def vec_at_def)
  have ct: "oplog_ok alist_maps amap_ok demo_ctx demo_inc" "store_ok alist_maps (col_inv sparse_inv (\<lambda>_ _. True) (\<lambda>_. True)) demo_inc"
    "cache_room alist_maps amap_ok (be_fuel demo_env) demo_inc" "\<forall>us. pending_entries alist_maps demo_ctx 5 demo_inc = Inr us \<longrightarrow> (\<forall>p \<in> set us. True)"
    using demo_inc_ok(1) demo_inc_room by (simp_all add: ct_ok_def demo_env_def)
  have row: "(0 :: int) \<le> 5" "ck_find (cm_storage alist_maps) (ps_map (ct_storage demo_inc)) 5 = None" by (simp_all add: demo_inc_eval alist_maps_def alist_cuckoo_def)
  let ?x = "SSPRowRequestOpLogMgr\<lparr>version_oplog_map := [(0, demo_bg)]\<rparr>"
  have mgr: "bc_mgr (bs_ctx demo_reply_state) = SSPMgr ?x" "requests_at (0, 5) (pending_row_requests ?x) = []"
    "0 \<le> cnt_at (bc_version (bs_ctx demo_reply_state) - 1) (version_request_cnt_map ?x)"
    by (simp_all add: demo_reply_state_def SSPRowRequestOpLogMgr_def requests_at_def cnt_at_def)
  let ?tab = "(ServerTable \<lparr>table_staleness = 1, row_type = 0, row_capacity = 0\<rparr>)\<lparr>st_storage := [(5, ServerRow (sparse_ops i32_pod) [(0, 10 :: int)])]\<rparr>"
  let ?sr = "ServerRow (sparse_ops i32_pod) [(0, 10 :: int)]"
  have srv: "map_of (tables demo_answering) 0 = Some ?tab" "FindRow 5 ?tab = Some ?sr" "sr_ops ?sr = sparse_ops i32_pod"
    "col_inv sparse_inv (\<lambda>_ _. True) (\<lambda>_. True) (sr_data ?sr)" "sparse_wire is_i32 (sr_data ?sr)" "stalest_clock 2 demo_inc \<le> GetMinClock demo_answering"
    by (simp_all add: demo_answering_def FindRow_def ServerRow_def col_inv_def sparse_inv_def sparse_wire_def is_i32_def st GetMinClock_def get_min_clock_def)
  have v: "fst (GetBgVersion 100 demo_answering) = - 1" "GetMinClock demo_answering = 1"
    by (simp_all add: GetBgVersion_def demo_answering_def GetMinClock_def get_min_clock_def)
  have ver: "fst (GetBgVersion 100 demo_answering) + 1 \<le> bc_version (bs_ctx demo_reply_state)" by (simp add: v demo_reply_state_def)
  from get_fetches_row [OF sparse_client.client_rows_axioms law e g server ct st(2) row mgr srv ver, of "[demo_bg]" 200 "reg_of (sparse_ops i32_pod)"] demo_versions
  obtain bg a ct' where x: "ctl_Get alist_maps demo_ctx (bg_serves demo_env demo_ctx 200 100 (reg_of (sparse_ops i32_pod)) demo_answering 0 5 1 demo_reply_state) 2 5 RowAccessor demo_inc =
      Inr ([(bg, AppRowRequestMsg 0 5 1)], a, ct')" "accessor_clock a ct' = Inr 1"
    "cval alist_maps sparse_index ct' 5 = Some (\<lambda>c. sparse_index (sr_data ?sr) c + (\<Sum>x \<leftarrow> [demo_bg]. bg_val x 0 5 c) + tpend alist_maps demo_ctx demo_inc 5 c)"
    unfolding v st by auto
  have "sparse_index (sr_data ?sr) 0 + (\<Sum>x \<leftarrow> [demo_bg]. bg_val x 0 5 0) + tpend alist_maps demo_ctx demo_inc 5 0 = 18"
    unfolding demo_inc_ok(2) by (simp add: ServerRow_def sparse_index_def bg_val_def bg_rows_def demo_bg_def demo_row_def rol_val_def)
  with x show ?thesis by auto
qed

end
