(* ===== verification/Name_Node.thy ===== *)
theory Name_Node
imports Server_Thread
begin

text \<open>
  The name node (petuum_ps/server/name_node_thread.cpp): it collects the
  connections, lets the servers create each table once, answers the clients when all servers
  have created a table, and tells them when all tables exist.
\<close>

section \<open>State\<close>

record create_table_info =
  num_clients_replied :: int
  num_servers_replied :: int
  bgs_to_reply :: "int list"

definition CreateTableInfo :: create_table_info where
  "CreateTableInfo = \<lparr>num_clients_replied = 0, num_servers_replied = 0, bgs_to_reply = []\<rparr>"

definition ReceivedFromAllServers :: "global_context \<Rightarrow> create_table_info \<Rightarrow> bool" where
  "ReceivedFromAllServers g i \<longleftrightarrow> num_servers_replied i = num_servers g"

definition RepliedToAllClients :: "global_context \<Rightarrow> create_table_info \<Rightarrow> bool" where
  "RepliedToAllClients g i \<longleftrightarrow> num_clients_replied i = num_clients g"

record ('r, 'v) name_node_context =
  nn_bg_thread_ids :: "int list"
  create_table_map :: "(int \<times> create_table_info) list"
  nn_server_obj :: "('r, 'v) server"
  nn_num_shutdown_bgs :: int

definition SetUpNameNodeContext :: "global_context \<Rightarrow> ('r, 'v) name_node_context" where
  "SetUpNameNodeContext g =
     \<lparr>nn_bg_thread_ids = replicate (nat (num_total_bg_threads g)) 0, create_table_map = [],
      nn_server_obj = Server_new, nn_num_shutdown_bgs = 0\<rparr>"

text \<open>\<open>create_table_map[table_id]\<close> enters a missing table.\<close>

definition table_entry :: "int \<Rightarrow> (int \<times> create_table_info) list \<Rightarrow> create_table_info" where
  "table_entry t m = (case map_of m t of None \<Rightarrow> CreateTableInfo | Some i \<Rightarrow> i)"

definition on_entry ::
  "int \<Rightarrow> (create_table_info \<Rightarrow> create_table_info) \<Rightarrow> ('r, 'v) name_node_context \<Rightarrow> ('r, 'v) name_node_context" where
  "on_entry t f c = c\<lparr>create_table_map := oupd t (f (table_entry t (create_table_map c))) (create_table_map c)\<rparr>"

section \<open>Connections\<close>

definition SendToAllServers :: "global_context \<Rightarrow> out_msg \<Rightarrow> outs result" where
  "SendToAllServers g m = mapM (\<lambda>i. rbind (vec_at (server_ids g) i) (\<lambda>sid. Inr (sid, m))) [0..num_servers g - 1]"

text \<open>One connection; the counter of background threads is the place in the list of ids.\<close>

definition nn_connect ::
  "nat \<times> ('r, 'v) name_node_context \<Rightarrow> int \<times> srv_msg \<Rightarrow> (nat \<times> ('r, 'v) name_node_context) result" where
  "nn_connect st sm =
     (case st of (num_bgs, c) \<Rightarrow>
      rbind (GetConnection sm) (\<lambda>(cl, sender).
      case cl of None \<Rightarrow> Inr (num_bgs, c)
      | Some client \<Rightarrow>
          rbind (vec_at (nn_bg_thread_ids c) (int num_bgs)) (\<lambda>_.
          Inr (num_bgs + 1, c\<lparr>nn_bg_thread_ids := (nn_bg_thread_ids c)[num_bgs := sender],
                 nn_server_obj := AddClientBgPair client sender (nn_server_obj c)\<rparr>))))"

definition InitNameNode ::
  "global_context \<Rightarrow> (int \<times> srv_msg) list \<Rightarrow> ('r, 'v) name_node_context \<Rightarrow>
   (outs \<times> ('r, 'v) name_node_context \<times> (int \<times> srv_msg) list) result" where
  "InitNameNode g msgs c =
     (let n = nat (num_total_bg_threads g + num_servers g) in
      rbind (foldM nn_connect (0, c) (take n msgs)) (\<lambda>(num_bgs, c).
      if length msgs < n then Inl (Blocked ''GetConnection'')
      else
        rbind (check (int num_bgs = num_total_bg_threads g) ''num_bgs == get_num_total_bg_threads()'') (\<lambda>_.
        let c = c\<lparr>nn_server_obj := Server_Init 0 (nn_server_obj c)\<rparr> in
        rbind (SendToAllBgThreads g ConnectServerMsg (nn_bg_thread_ids c)) (\<lambda>os1.
        rbind (SendToAllBgThreads g ClientStartMsg (nn_bg_thread_ids c)) (\<lambda>os2.
        Inr (os1 @ os2, c, drop n msgs))))))"

section \<open>Handlers\<close>

definition HaveCreatedAllTables :: "global_context \<Rightarrow> ('r, 'v) name_node_context \<Rightarrow> bool" where
  "HaveCreatedAllTables g c \<longleftrightarrow> num_tables g \<le> int (length (create_table_map c)) \<and>
     list_all (\<lambda>(_, i). RepliedToAllClients g i) (create_table_map c)"

definition SendCreatedAllTablesMsg :: "global_context \<Rightarrow> outs" where
  "SendCreatedAllTablesMsg g = map (\<lambda>i. (get_head_bg_id i, CreatedAllTablesMsg)) [0..num_clients g - 1]"

definition nn_HandleShutDownMsg ::
  "global_context \<Rightarrow> ('r, 'v) name_node_context \<Rightarrow> (bool \<times> outs \<times> ('r, 'v) name_node_context) result" where
  "nn_HandleShutDownMsg g c =
     (let c = c\<lparr>nn_num_shutdown_bgs := nn_num_shutdown_bgs c + 1\<rparr> in
      if nn_num_shutdown_bgs c = num_total_bg_threads g
      then rbind (SendToAllBgThreads g ServerShutDownAckMsg (nn_bg_thread_ids c)) (\<lambda>os. Inr (True, os, c))
      else Inr (False, [], c))"

text \<open>What follows a reply to a client.\<close>

definition created_all :: "global_context \<Rightarrow> ('r, 'v) name_node_context \<Rightarrow> outs" where
  "created_all g c = (if HaveCreatedAllTables g c then SendCreatedAllTablesMsg g else [])"

definition nn_HandleCreateTable ::
  "'w leveldb \<Rightarrow> ('r, 'v) class_registry \<Rightarrow> global_context \<Rightarrow> 'w \<Rightarrow> int \<Rightarrow> int \<Rightarrow> TableInfo \<Rightarrow>
   ('r, 'v) name_node_context \<Rightarrow> (outs \<times> ('r, 'v) name_node_context) result" where
  "nn_HandleCreateTable ldb reg g w sender t info c =
     rbind (if map_of (create_table_map c) t = None then
              rbind (CreateTable ldb reg g w t info (nn_server_obj c)) (\<lambda>s.
              let c = on_entry t (\<lambda>i. i) (c\<lparr>nn_server_obj := s\<rparr>) in
              rbind (SendToAllServers g (OutCreateTable t info)) (\<lambda>os. Inr (os, c)))
            else Inr ([], c)) (\<lambda>(os, c).
     if ReceivedFromAllServers g (table_entry t (create_table_map c)) then
       let c = on_entry t (\<lambda>i. i\<lparr>num_clients_replied := num_clients_replied i + 1\<rparr>) c in
       Inr (os @ [(sender, OutCreateTableReply t)] @ created_all g c, c)
     else Inr (os, on_entry t (\<lambda>i. i\<lparr>bgs_to_reply := bgs_to_reply i @ [sender]\<rparr>) c))"

text \<open>The loop that empties the queue of waiting clients.\<close>

fun reply_waiting :: "int \<Rightarrow> int list \<Rightarrow> ('r, 'v) name_node_context \<Rightarrow> outs \<times> ('r, 'v) name_node_context" where
  "reply_waiting t [] c = ([], c)"
| "reply_waiting t (bg # q) c =
     (let c = on_entry t (\<lambda>i. i\<lparr>bgs_to_reply := q, num_clients_replied := num_clients_replied i + 1\<rparr>) c;
          (os, c) = reply_waiting t q c in ((bg, OutCreateTableReply t) # os, c))"

definition nn_HandleCreateTableReply ::
  "global_context \<Rightarrow> int \<Rightarrow> ('r, 'v) name_node_context \<Rightarrow> outs \<times> ('r, 'v) name_node_context" where
  "nn_HandleCreateTableReply g t c =
     (let c = on_entry t (\<lambda>i. i\<lparr>num_servers_replied := num_servers_replied i + 1\<rparr>) c in
      if ReceivedFromAllServers g (table_entry t (create_table_map c)) then
        let (os, c) = reply_waiting t (bgs_to_reply (table_entry t (create_table_map c))) c in
        (os @ created_all g c, c)
      else ([], c))"

section \<open>Main loop\<close>

definition nn_handle ::
  "'w leveldb \<Rightarrow> ('r, 'v) class_registry \<Rightarrow> 'w \<Rightarrow> global_context \<Rightarrow> int \<times> srv_msg \<Rightarrow> ('r, 'v) name_node_context \<Rightarrow>
   (bool \<times> outs \<times> ('r, 'v) name_node_context) result" where
  "nn_handle ldb reg w g sm c =
     (case sm of (sender, m) \<Rightarrow>
      (case m of
         ClientShutDownMsg \<Rightarrow> nn_HandleShutDownMsg g c
       | CreateTableMsg t info \<Rightarrow> rbind (nn_HandleCreateTable ldb reg g w sender t info c) (\<lambda>(os, c). Inr (False, os, c))
       | CreateTableReplyMsg t \<Rightarrow> (case nn_HandleCreateTableReply g t c of (os, c) \<Rightarrow> Inr (False, os, c))
       | _ \<Rightarrow> Inl (Fatal ''Unrecognized message type'')))"

fun nn_loop ::
  "'w leveldb \<Rightarrow> ('r, 'v) class_registry \<Rightarrow> 'w \<Rightarrow> global_context \<Rightarrow> (int \<times> srv_msg) list \<Rightarrow> ('r, 'v) name_node_context \<Rightarrow>
   (outs \<times> ('r, 'v) name_node_context) result" where
  "nn_loop ldb reg w g [] c = Inr ([], c)"
| "nn_loop ldb reg w g (sm # sms) c =
     rbind (nn_handle ldb reg w g sm c) (\<lambda>(stop, os, c).
     if stop then Inr (os, c)
     else rbind (nn_loop ldb reg w g sms c) (\<lambda>(os', c). Inr (os @ os', c)))"

definition NameNodeThreadMain ::
  "'w leveldb \<Rightarrow> ('r, 'v) class_registry \<Rightarrow> 'w \<Rightarrow> global_context \<Rightarrow> (int \<times> srv_msg) list \<Rightarrow>
   (outs \<times> ('r, 'v) name_node_context) result" where
  "NameNodeThreadMain ldb reg w g msgs =
     rbind (InitNameNode g msgs (SetUpNameNodeContext g)) (\<lambda>(os, c, msgs).
     rbind (nn_loop ldb reg w g msgs c) (\<lambda>(os', c). Inr (os @ os', c)))"

end
