(* ===== verification/Name_Node_Proofs.thy ===== *)
theory Name_Node_Proofs
imports Name_Node
begin

text \<open>
  Creation of tables at the name node: over any sequence of messages that the clients and servers may send,
  every server is told once to create each table, no client is answered before all servers
  have created its table, all are answered then, in order, and each client hears once that all tables exist.
\<close>

section \<open>Histories\<close>

definition asked :: "int \<Rightarrow> (int \<times> srv_msg) list \<Rightarrow> int list" where
  "asked t ms = concat (map (\<lambda>(s, m). case m of CreateTableMsg t' _ \<Rightarrow> if t' = t then [s] else [] | _ \<Rightarrow> []) ms)"

definition asked_tables :: "(int \<times> srv_msg) list \<Rightarrow> int list" where
  "asked_tables ms = remdups (concat (map (\<lambda>(s, m). case m of CreateTableMsg t _ \<Rightarrow> [t] | _ \<Rightarrow> []) ms))"

definition created_by :: "int \<Rightarrow> (int \<times> srv_msg) list \<Rightarrow> int list" where
  "created_by t ms = concat (map (\<lambda>(s, m). case m of CreateTableReplyMsg t' \<Rightarrow> if t' = t then [s] else [] | _ \<Rightarrow> []) ms)"

definition answered :: "int \<Rightarrow> outs \<Rightarrow> int list" where
  "answered t os = concat (map (\<lambda>(d, m). case m of OutCreateTableReply t' \<Rightarrow> if t' = t then [d] else [] | _ \<Rightarrow> []) os)"

definition told_create :: "int \<Rightarrow> outs \<Rightarrow> int list" where
  "told_create t os = concat (map (\<lambda>(d, m). case m of OutCreateTable t' _ \<Rightarrow> if t' = t then [d] else [] | _ \<Rightarrow> []) os)"

definition told_all :: "outs \<Rightarrow> int list" where
  "told_all os = concat (map (\<lambda>(d, m). case m of CreatedAllTablesMsg \<Rightarrow> [d] | _ \<Rightarrow> []) os)"

lemmas history_defs = asked_def asked_tables_def created_by_def answered_def told_create_def told_all_def

lemma history_Nil [simp]:
  "asked t [] = []" "asked_tables [] = []" "created_by t [] = []" "answered t [] = []" "told_create t [] = []" "told_all [] = []"
  by (simp_all add: history_defs)

lemma history_append [simp]:
  "asked t (ms @ ms') = asked t ms @ asked t ms'" "created_by t (ms @ ms') = created_by t ms @ created_by t ms'"
  "answered t (os @ os') = answered t os @ answered t os'" "told_create t (os @ os') = told_create t os @ told_create t os'"
  "told_all (os @ os') = told_all os @ told_all os'"
  by (simp_all add: history_defs)

lemma asked_iff: "t \<in> set (asked_tables ms) \<longleftrightarrow> asked t ms \<noteq> []"
  unfolding asked_tables_def asked_def by (induction ms) (auto split: srv_msg.splits)

lemma distinct_asked_tables [simp]: "distinct (asked_tables ms)"
  by (simp add: asked_tables_def)

lemma set_asked_tables_append [simp]: "set (asked_tables (ms @ ms')) = set (asked_tables ms) \<union> set (asked_tables ms')"
  by (auto simp: asked_tables_def)

lemma answered_reply [simp]:
  "answered t (map (\<lambda>d. (d, OutCreateTableReply t')) ds) = (if t' = t then ds else [])"
  "told_create t (map (\<lambda>d. (d, OutCreateTableReply t')) ds) = []" "told_all (map (\<lambda>d. (d, OutCreateTableReply t')) ds) = []"
  "told_create t (map (\<lambda>d. (d, OutCreateTable t' info)) ds) = (if t' = t then ds else [])"
  "answered t (map (\<lambda>d. (d, OutCreateTable t' info)) ds) = []" "told_all (map (\<lambda>d. (d, OutCreateTable t' info)) ds) = []"
  "told_all (SendCreatedAllTablesMsg g) = map get_head_bg_id [0..num_clients g - 1]"
  "answered t (SendCreatedAllTablesMsg g) = []" "told_create t (SendCreatedAllTablesMsg g) = []"
  by (simp_all add: history_defs SendCreatedAllTablesMsg_def comp_def)

section \<open>The environment and the runs\<close>

text \<open>
  Each client asks for each table at most once and for no more than \<open>num_tables\<close> tables; servers
  answer for a table they were told to create, each once.
\<close>

definition nn_allowed :: "global_context \<Rightarrow> (int \<times> srv_msg) list \<Rightarrow> int \<times> srv_msg \<Rightarrow> bool" where
  "nn_allowed g ms sm \<longleftrightarrow>
     (case snd sm of
        CreateTableMsg t info \<Rightarrow> int (length (asked t ms)) < num_clients g \<and>
          (t \<in> set (asked_tables ms) \<or> int (length (asked_tables ms)) < num_tables g)
      | CreateTableReplyMsg t \<Rightarrow> t \<in> set (asked_tables ms) \<and> int (length (created_by t ms)) < num_servers g
      | ClientShutDownMsg \<Rightarrow> True
      | _ \<Rightarrow> False)"

inductive nn_run ::
  "'w leveldb \<Rightarrow> ('r, 'v) class_registry \<Rightarrow> 'w \<Rightarrow> global_context \<Rightarrow> ('r, 'v) name_node_context \<Rightarrow>
   (int \<times> srv_msg) list \<Rightarrow> outs \<Rightarrow> ('r, 'v) name_node_context \<Rightarrow> bool"
  for ldb reg w g c0 where
  nn_run_init: "nn_run ldb reg w g c0 [] [] c0"
| nn_run_step: "nn_run ldb reg w g c0 ms os c \<Longrightarrow> nn_allowed g ms sm \<Longrightarrow>
    nn_handle ldb reg w g sm c = Inr (False, os', c') \<Longrightarrow> nn_run ldb reg w g c0 (ms @ [sm]) (os @ os') c'"

definition all_created :: "global_context \<Rightarrow> (int \<times> srv_msg) list \<Rightarrow> outs \<Rightarrow> bool" where
  "all_created g ms os \<longleftrightarrow> num_tables g \<le> int (length (asked_tables ms)) \<and>
     (\<forall>t \<in> set (asked_tables ms). int (length (answered t os)) = num_clients g)"

definition entry_ok :: "global_context \<Rightarrow> (int \<times> srv_msg) list \<Rightarrow> outs \<Rightarrow> int \<Rightarrow> create_table_info \<Rightarrow> bool" where
  "entry_ok g ms os t i \<longleftrightarrow>
     num_servers_replied i = int (length (created_by t ms)) \<and> num_servers_replied i \<le> num_servers g \<and>
     answered t os @ bgs_to_reply i = asked t ms \<and> num_clients_replied i = int (length (answered t os)) \<and>
     (if num_servers_replied i = num_servers g then bgs_to_reply i = [] else answered t os = []) \<and>
     told_create t os = (if asked t ms = [] then [] else server_ids g)"

definition tables_ok ::
  "global_context \<Rightarrow> (int \<times> srv_msg) list \<Rightarrow> outs \<Rightarrow> (int \<times> create_table_info) list \<Rightarrow> bool" where
  "tables_ok g ms os m \<longleftrightarrow> osorted m \<and> set (keys m) = set (asked_tables ms) \<and> (\<forall>t. entry_ok g ms os t (table_entry t m)) \<and>
     told_all os = (if all_created g ms os then map get_head_bg_id [0..num_clients g - 1] else [])"

section \<open>Steps\<close>

lemma table_entry_oupd [simp]: "table_entry t (oupd t' i m) = (if t = t' then i else table_entry t m)"
  by (simp add: table_entry_def map_of_oupd)

lemma on_entry_map [simp]:
  "create_table_map (on_entry t f c) = oupd t (f (table_entry t (create_table_map c))) (create_table_map c)"
  by (simp add: on_entry_def)

fun_cases reply_waiting_ConsE: "reply_waiting t (b # q) c = (os, c')"

lemma reply_waiting_map:
  assumes "reply_waiting t q c = (os, c')" and "table_entry t (create_table_map c) = i"
    and "bgs_to_reply i = q" and "oupd t i (create_table_map c) = create_table_map c"
  shows "os = map (\<lambda>d. (d, OutCreateTableReply t)) q \<and> create_table_map c' =
    oupd t (i\<lparr>bgs_to_reply := [], num_clients_replied := num_clients_replied i + int (length q)\<rparr>) (create_table_map c)"
  using assms
proof (induction q arbitrary: os c i)
  case (Cons b q)
  let ?f = "\<lambda>i. i\<lparr>bgs_to_reply := q, num_clients_replied := num_clients_replied i + 1\<rparr>"
  obtain os1 where r: "reply_waiting t q (on_entry t ?f c) = (os1, c')" "os = (b, OutCreateTableReply t) # os1"
    using Cons.prems(1) by (rule reply_waiting_ConsE) (auto simp: Let_def split: prod.splits)
  show ?case
    using Cons.IH [OF r(1) _ _] Cons.prems r(2) by (simp add: algebra_simps)
next
  case Nil
  from Nil.prems(3) have e: "i\<lparr>bgs_to_reply := []\<rparr> = i" by (cases i) simp
  have "os = []" "c' = c" using Nil.prems(1) by simp_all
  then show ?case using Nil.prems(4) e by simp
qed

lemma keep_entry: "t \<in> set (keys m) \<Longrightarrow> osorted m \<Longrightarrow> oupd t (table_entry t m) m = m"
  by (induction t "table_entry t m" m rule: oupd.induct) (auto simp: table_entry_def)

lemma have_created_iff:
  assumes "osorted (create_table_map c)" and "set (keys (create_table_map c)) = set (asked_tables ms)"
    and "\<And>t. entry_ok g ms os t (table_entry t (create_table_map c))"
  shows "HaveCreatedAllTables g c \<longleftrightarrow> all_created g ms os"
proof -
  let ?m = "create_table_map c"
  have d: "distinct (keys ?m)" using assms(1) by (rule osorted_distinct)
  have l: "length ?m = length (asked_tables ms)"
    using arg_cong [OF assms(2), of card] distinct_card [OF d] distinct_card [of "asked_tables ms"] by simp
  have "list_all (\<lambda>(_, i). RepliedToAllClients g i) ?m \<longleftrightarrow>
      (\<forall>t \<in> set (keys ?m). RepliedToAllClients g (table_entry t ?m))"
    using d by (auto simp: list_all_iff table_entry_def)
  then show ?thesis
    using assms(2,3) l by (simp add: HaveCreatedAllTables_def all_created_def RepliedToAllClients_def entry_ok_def del: set_map)
qed

text \<open>A message about the table \<open>t\<close>.\<close>

definition about :: "int \<Rightarrow> srv_msg \<Rightarrow> bool" where
  "about t m \<longleftrightarrow> (case m of CreateTableMsg t' _ \<Rightarrow> t' = t | CreateTableReplyMsg t' \<Rightarrow> t' = t | _ \<Rightarrow> False)"

lemma about_other: "about t m \<Longrightarrow> t' \<noteq> t \<Longrightarrow> asked t' [(s, m)] = [] \<and> created_by t' [(s, m)] = []"
  by (auto simp: about_def history_defs split: srv_msg.splits)

lemma entry_ok_other:
  assumes "entry_ok g ms os t' i" and "about t m" and "t' \<noteq> t" and "answered t' os' = []" and "told_create t' os' = []"
  shows "entry_ok g (ms @ [(s, m)]) (os @ os') t' i"
  using assms about_other [OF assms(2,3), of s] by (simp add: entry_ok_def)

lemma not_yet_created:
  assumes "tables_ok g ms os m" and "nn_allowed g ms (s, msg)" and "about t msg" and "0 < num_clients g"
  shows "\<not> all_created g ms os"
proof
  assume a: "all_created g ms os"
  have e: "entry_ok g ms os t (table_entry t m)" using assms(1) by (simp add: tables_ok_def)
  then have "length (answered t os) \<le> length (asked t ms)" unfolding entry_ok_def by (metis length_append le_add1)
  then show False
    using a e assms(2-4) by (auto simp: nn_allowed_def about_def all_created_def entry_ok_def split: srv_msg.splits if_splits)
qed

lemma tables_ok_step:
  assumes ok: "tables_ok g ms os m" and al: "nn_allowed g ms (s, msg)" and ab: "about t msg" and cl: "0 < num_clients g"
    and only: "\<And>t'. t' \<noteq> t \<Longrightarrow> answered t' os' = [] \<and> told_create t' os' = []"
    and i': "entry_ok g (ms @ [(s, msg)]) (os @ os') t i'" and t: "t \<in> set (asked_tables (ms @ [(s, msg)]))"
    and map': "create_table_map c' = oupd t i' m" and quiet: "told_all os' = []"
    and out: "os'' = os' @ created_all g c' \<or> (os'' = os' \<and> answered t (os @ os') = [])"
  shows "tables_ok g (ms @ [(s, msg)]) (os @ os'') (create_table_map c')"
proof -
  have ask: "set (asked_tables [(s, msg)]) \<subseteq> {t}" using ab by (auto simp: about_def asked_tables_def split: srv_msg.splits)
  have k: "osorted (create_table_map c')" "set (keys (create_table_map c')) = set (asked_tables (ms @ [(s, msg)]))"
    using ok map' t ask by (auto simp: tables_ok_def osorted_oupd simp del: set_map)
  have e: "entry_ok g (ms @ [(s, msg)]) (os @ os') t' (table_entry t' (create_table_map c'))" for t'
    using i' map' ok only [of t'] entry_ok_other [OF _ ab] by (cases "t' = t") (simp_all add: tables_ok_def)
  have same: "answered t' os'' = answered t' os'" "told_create t' os'' = told_create t' os'" for t'
    using out by (auto simp: created_all_def)
  have before: "told_all os = []" using ok not_yet_created [OF ok al ab cl] by (simp add: tables_ok_def)
  have have_all: "HaveCreatedAllTables g c' \<longleftrightarrow> all_created g (ms @ [(s, msg)]) (os @ os')"
    by (rule have_created_iff [OF k e])
  have ac: "all_created g (ms @ [(s, msg)]) (os @ os'') = all_created g (ms @ [(s, msg)]) (os @ os')"
    by (simp add: all_created_def same)
  have "told_all (os @ os'') =
      (if all_created g (ms @ [(s, msg)]) (os @ os') then map get_head_bg_id [0..num_clients g - 1] else [])"
    using out
  proof
    assume "os'' = os' @ created_all g c'"
    then show ?thesis using before quiet have_all by (simp add: created_all_def)
  next
    assume h: "os'' = os' \<and> answered t (os @ os') = []"
    then have "\<not> all_created g (ms @ [(s, msg)]) (os @ os')" using t cl unfolding all_created_def by force
    then show ?thesis using before quiet h by simp
  qed
  moreover have "entry_ok g (ms @ [(s, msg)]) (os @ os'') t' (table_entry t' (create_table_map c'))" for t'
    using e [of t'] unfolding entry_ok_def history_append same .
  ultimately show ?thesis using k ac by (simp add: tables_ok_def)
qed

lemma SendToAllServers_ok:
  assumes "ctx_ok g" shows "SendToAllServers g m = Inr (map (\<lambda>d. (d, m)) (server_ids g))"
proof -
  let ?n = "length (server_ids g)"
  have "SendToAllServers g m = Inr (map (\<lambda>i. (server_ids g ! nat i, m)) [0..num_servers g - 1])"
    unfolding SendToAllServers_def using assms by (intro mapM_pure) (auto simp: ctx_ok_def vec_at_def)
  also have "map (\<lambda>i. (server_ids g ! nat i, m)) [0..num_servers g - 1] = map (\<lambda>d. (d, m)) (server_ids g)"
    using assms by (intro nth_equalityI) (auto simp: ctx_ok_def)
  finally show ?thesis .
qed

lemma create_table_step:
  assumes ok: "tables_ok g ms os (create_table_map c)" and al: "nn_allowed g ms (s, CreateTableMsg t info)"
    and h: "nn_HandleCreateTable ldb reg g w s t info c = Inr (os', c')" and g: "ctx_ok g" "0 < num_clients g"
  shows "tables_ok g (ms @ [(s, CreateTableMsg t info)]) (os @ os') (create_table_map c')"
proof -
  let ?m = "create_table_map c" and ?ms = "ms @ [(s, CreateTableMsg t info)]"
  define i where "i = table_entry t ?m"
  define new where "new = (if asked t ms = [] then map (\<lambda>d. (d, OutCreateTable t info)) (server_ids g) else [])"
  have e: "entry_ok g ms os t i" and so: "osorted ?m" and k: "set (keys ?m) = set (asked_tables ms)"
    using ok by (simp_all add: tables_ok_def i_def)
  have none: "map_of ?m t = None \<longleftrightarrow> asked t ms = []" using k asked_iff [of t ms] by (simp add: map_of_eq_None_iff)
  have [simp]: "asked t [(s, CreateTableMsg t info)] = [s]" "created_by t [(s, CreateTableMsg t info)] = []"
      "asked_tables [(s, CreateTableMsg t info)] = [t]" by (simp_all add: history_defs)
  have new [simp]: "answered t' new = []" "told_all new = []" "t' \<noteq> t \<Longrightarrow> told_create t' new = []" for t'
    by (simp_all add: new_def)
  have ab: "about t (CreateTableMsg t info)" by (simp add: about_def)
  have tn: "told_create t os @ told_create t new = server_ids g" using e by (auto simp: new_def entry_ok_def)
  obtain c1 where c1: "create_table_map c1 = oupd t i ?m"
    and
    h1: "Inr (os', c') = (if ReceivedFromAllServers g (table_entry t (create_table_map c1)) then
       let c = on_entry t (\<lambda>i. i\<lparr>num_clients_replied := num_clients_replied i + 1\<rparr>) c1 in
       Inr (new @ [(s, OutCreateTableReply t)] @ created_all g c, c)
     else (Inr (new, on_entry t (\<lambda>i. i\<lparr>bgs_to_reply := bgs_to_reply i @ [s]\<rparr>) c1) :: _ result))"
  proof (cases "asked t ms = []")
    case True
    then obtain sv where "CreateTable ldb reg g w t info (nn_server_obj c) = Inr sv"
      using h by (auto simp: nn_HandleCreateTable_def none rbind_eq_Inr)
    with True h show ?thesis
      using that [of "on_entry t (\<lambda>i. i) (c\<lparr>nn_server_obj := sv\<rparr>)"]
      by (simp add: nn_HandleCreateTable_def none SendToAllServers_ok [OF g(1)] Let_def new_def i_def cong: if_cong)
  next
    case False
    then show ?thesis
      using that [of c] h keep_entry [OF _ so, of t] k asked_iff [of t ms]
      by (simp add: nn_HandleCreateTable_def none new_def i_def del: set_map cong: if_cong)
  qed
  show ?thesis
  proof (cases "num_servers_replied i = num_servers g")
    case True
    let ?o = "new @ [(s, OutCreateTableReply t)]"
    have o1: "answered t' [(s, OutCreateTableReply t)] = (if t' = t then [s] else [])" "told_create t' [(s, OutCreateTableReply t)] = []"
      "told_all [(s, OutCreateTableReply t)] = []" for t' by (simp_all add: history_defs)
    show ?thesis
      by (rule tables_ok_step [OF ok al ab g(2), where os' = "?o" and i' = "i\<lparr>num_clients_replied := num_clients_replied i + 1\<rparr>"])
        (use h1 c1 True e tn in \<open>auto simp: ReceivedFromAllServers_def entry_ok_def o1 Let_def\<close>)
  next
    case False
    show ?thesis
      by (rule tables_ok_step [OF ok al ab g(2), where os' = new and i' = "i\<lparr>bgs_to_reply := bgs_to_reply i @ [s]\<rparr>"])
        (use h1 c1 False e tn in \<open>auto simp: ReceivedFromAllServers_def entry_ok_def Let_def\<close>)
  qed
qed

lemma create_reply_step:
  assumes ok: "tables_ok g ms os (create_table_map c)" and al: "nn_allowed g ms (s, CreateTableReplyMsg t)"
    and h: "nn_HandleCreateTableReply g t c = (os', c')" and g: "0 < num_clients g"
  shows "tables_ok g (ms @ [(s, CreateTableReplyMsg t)]) (os @ os') (create_table_map c')"
proof -
  let ?m = "create_table_map c"
  define i where "i = table_entry t ?m"
  let ?i = "i\<lparr>num_servers_replied := num_servers_replied i + 1\<rparr>"
  define c1 where "c1 = on_entry t (\<lambda>i. i\<lparr>num_servers_replied := num_servers_replied i + 1\<rparr>) c"
  have c1: "create_table_map c1 = oupd t ?i ?m" by (simp add: c1_def i_def)
  have e: "entry_ok g ms os t i" using ok by (simp add: tables_ok_def i_def)
  have t: "t \<in> set (asked_tables (ms @ [(s, CreateTableReplyMsg t)]))" "asked t ms \<noteq> []"
    and lt: "int (length (created_by t ms)) < num_servers g" using al by (simp_all add: nn_allowed_def asked_iff)
  have ab: "about t (CreateTableReplyMsg t)" by (simp add: about_def)
  have [simp]: "asked t [(s, CreateTableReplyMsg t)] = []" "created_by t [(s, CreateTableReplyMsg t)] = [s]" by (simp_all add: history_defs)
  show ?thesis
  proof (cases "num_servers_replied i + 1 = num_servers g")
    case True
    obtain o1 where r: "reply_waiting t (bgs_to_reply i) c1 = (o1, c')" and o': "os' = o1 @ created_all g c'"
      using h True c1 unfolding nn_HandleCreateTableReply_def c1_def [symmetric] by (auto simp: ReceivedFromAllServers_def split: prod.splits)
    have m': "o1 = map (\<lambda>d. (d, OutCreateTableReply t)) (bgs_to_reply i) \<and> create_table_map c' =
        oupd t (?i\<lparr>bgs_to_reply := [], num_clients_replied := num_clients_replied ?i + int (length (bgs_to_reply i))\<rparr>) ?m"
      using reply_waiting_map [OF r, of ?i] c1 by simp
    show ?thesis
      by (rule tables_ok_step [OF ok al ab g, where os' = o1])
        (use m' o' True e t lt in \<open>auto simp: entry_ok_def\<close>)
  next
    case False
    then have "os' = []" "c' = c1"
      using h c1 unfolding nn_HandleCreateTableReply_def c1_def [symmetric] by (auto simp: ReceivedFromAllServers_def)
    then show ?thesis
      using False e t lt c1
      by (intro tables_ok_step [OF ok al ab g, where os' = "[]" and i' = ?i]) (auto simp: entry_ok_def)
  qed
qed

text \<open>The invariant of the runs.\<close>

lemma run_tables_ok:
  assumes "nn_run ldb reg w g c0 ms os c" and "create_table_map c0 = []" and "ctx_ok g" and "0 < num_clients g" and "0 < num_tables g"
  shows "tables_ok g ms os (create_table_map c)"
  using assms
proof (induction rule: nn_run.induct)
  case nn_run_init
  then show ?case by (simp add: tables_ok_def entry_ok_def all_created_def table_entry_def CreateTableInfo_def ctx_ok_def)
next
  case (nn_run_step ms os c sm os' c')
  obtain s m where sm: "sm = (s, m)" by (cases sm)
  note ok = nn_run_step.IH [OF nn_run_step.prems]
  show ?case
  proof (cases m)
    case (CreateTableMsg t info)
    then have "nn_HandleCreateTable ldb reg g w s t info c = Inr (os', c')"
      using nn_run_step.hyps(3) by (auto simp: sm nn_handle_def rbind_eq_Inr)
    then show ?thesis
      using create_table_step [OF ok, of s t info] nn_run_step.hyps(2) nn_run_step.prems by (simp add: sm CreateTableMsg)
  next
    case (CreateTableReplyMsg t)
    then have "nn_HandleCreateTableReply g t c = (os', c')"
      using nn_run_step.hyps(3) by (auto simp: sm nn_handle_def split: prod.splits)
    then show ?thesis
      using create_reply_step [OF ok, of s t] nn_run_step.hyps(2) nn_run_step.prems by (simp add: sm CreateTableReplyMsg)
  next
    case ClientShutDownMsg
    then have "os' = []" "create_table_map c' = create_table_map c"
      using nn_run_step.hyps(3) by (auto simp: sm nn_handle_def nn_HandleShutDownMsg_def Let_def rbind_eq_Inr split: if_splits)
    moreover have "asked t [(s, m)] = []" "created_by t [(s, m)] = []" for t
      using ClientShutDownMsg by (simp_all add: history_defs)
    moreover have "asked_tables (ms @ [(s, m)]) = asked_tables ms"
      using ClientShutDownMsg by (simp add: asked_tables_def)
    ultimately have "entry_ok g (ms @ [sm]) (os @ os') t i = entry_ok g ms os t i" "all_created g (ms @ [sm]) (os @ os') = all_created g ms os"
        "told_all (os @ os') = told_all os" "asked_tables (ms @ [sm]) = asked_tables ms" "create_table_map c' = create_table_map c" for t i
      by (simp_all add: sm entry_ok_def all_created_def)
    then show ?thesis using ok by (simp add: tables_ok_def)
  qed (use nn_run_step.hyps(2) in \<open>simp_all add: sm nn_allowed_def\<close>)
qed

lemma reply_waiting_frame:
  "reply_waiting t q c = (os, c') \<Longrightarrow> nn_server_obj c' = nn_server_obj c \<and> nn_bg_thread_ids c' = nn_bg_thread_ids c \<and>
     set (keys (create_table_map c)) \<subseteq> set (keys (create_table_map c'))"
proof (induction q arbitrary: c os)
  case (Cons b q)
  let ?c = "on_entry t (\<lambda>i. i\<lparr>bgs_to_reply := q, num_clients_replied := num_clients_replied i + 1\<rparr>) c"
  obtain os1 where "reply_waiting t q ?c = (os1, c')" using Cons.prems by (auto simp: Let_def split: prod.splits)
  from Cons.IH [OF this] show ?case by (auto simp: on_entry_def simp del: set_map)
qed simp

lemma CreateTable_keys:
  "CreateTable ldb reg g w t info s = Inr s' \<Longrightarrow> set (keys (tables s')) = insert t (set (keys (tables s)))"
  by (auto simp: CreateTable_def rbind_eq_Inr Let_def keys_update split: if_splits simp del: set_map)

text \<open>The name node's own server object holds no table that is not in its map.\<close>

definition nn_tables_known :: "('r, 'v) name_node_context \<Rightarrow> ('r, 'v) name_node_context \<Rightarrow> bool" where
  "nn_tables_known c0 c \<longleftrightarrow> set (keys (tables (nn_server_obj c))) \<subseteq> set (keys (create_table_map c)) \<and>
     nn_bg_thread_ids c = nn_bg_thread_ids c0"

lemma handle_tables_known:
  assumes "nn_handle ldb reg w g sm c = Inr (stop, os, c')" and "nn_tables_known c0 c"
  shows "nn_tables_known c0 c'"
proof -
  obtain s m where sm: "sm = (s, m)" by (cases sm)
  show ?thesis
  proof (cases m)
    case (CreateTableMsg t info)
    then show ?thesis
      using assms
      by (auto simp: sm nn_handle_def nn_HandleCreateTable_def nn_tables_known_def rbind_eq_Inr Let_def on_entry_def
          split: if_splits dest!: CreateTable_keys simp del: set_map)
  next
    case (CreateTableReplyMsg t)
    let ?c = "on_entry t (\<lambda>i. i\<lparr>num_servers_replied := num_servers_replied i + 1\<rparr>) c"
    have c: "nn_tables_known c0 ?c" using assms(2) by (auto simp: nn_tables_known_def on_entry_def simp del: set_map)
    have "c' = ?c \<or> (\<exists>q os. reply_waiting t q ?c = (os, c'))"
      using assms(1) CreateTableReplyMsg
      by (auto simp: sm nn_handle_def nn_HandleCreateTableReply_def Let_def split: if_splits prod.splits)
    then show ?thesis
    proof
      assume "\<exists>q os. reply_waiting t q ?c = (os, c')"
      then obtain q os where "reply_waiting t q ?c = (os, c')" by blast
      from reply_waiting_frame [OF this] c show ?thesis by (auto simp: nn_tables_known_def simp del: set_map)
    qed (use c in simp)
  next
    case ClientShutDownMsg
    then show ?thesis
      using assms
      by (auto simp: sm nn_handle_def nn_HandleShutDownMsg_def nn_tables_known_def Let_def rbind_eq_Inr split: if_splits simp del: set_map)
  qed (use assms in \<open>simp_all add: sm nn_handle_def\<close>)
qed

lemma run_tables_known:
  assumes "nn_run ldb reg w g c0 ms os c" and "nn_tables_known c0 c0"
  shows "nn_tables_known c0 c"
  using assms by (induction rule: nn_run.induct) (blast intro: handle_tables_known)+

text \<open>Every allowed message is handled.\<close>

lemma handle_total:
  assumes al: "nn_allowed g ms sm" and tk: "nn_tables_known c0 c" and g: "ctx_ok g" "resume_clock g \<le> 0"
    and l: "num_total_bg_threads g = int (length (nn_bg_thread_ids c0))"
  shows "\<exists>r. nn_handle ldb reg w g sm c = Inr r"
proof -
  obtain s m where sm: "sm = (s, m)" by (cases sm)
  show ?thesis
  proof (cases m)
    case (CreateTableMsg t info)
    have "\<exists>s'. CreateTable ldb reg g w t info (nn_server_obj c) = Inr s'" if "map_of (create_table_map c) t = None"
    proof -
      have "map_of (tables (nn_server_obj c)) t = None"
        using that tk by (auto simp: nn_tables_known_def map_of_eq_None_iff)
      then show ?thesis using g(2) by (simp add: CreateTable_def Let_def)
    qed
    then show ?thesis
      by (cases "map_of (create_table_map c) t")
        (auto simp: sm CreateTableMsg nn_handle_def nn_HandleCreateTable_def SendToAllServers_ok [OF g(1)] Let_def)
  next
    case ClientShutDownMsg
    have "mapM (\<lambda>i. rbind (vec_at (nn_bg_thread_ids c) i) (\<lambda>bg. Inr (bg, ServerShutDownAckMsg))) [0..num_total_bg_threads g - 1] =
        Inr (map (\<lambda>i. (nn_bg_thread_ids c ! nat i, ServerShutDownAckMsg)) [0..num_total_bg_threads g - 1])"
      using tk l by (intro mapM_pure) (auto simp: nn_tables_known_def vec_at_def)
    then show ?thesis
      by (auto simp: sm ClientShutDownMsg nn_handle_def nn_HandleShutDownMsg_def SendToAllBgThreads_def Let_def)
  next
    case (CreateTableReplyMsg t)
    then show ?thesis by (auto simp: sm nn_handle_def split: prod.split)
  qed (use al in \<open>simp_all add: sm nn_allowed_def\<close>)
qed

section \<open>The property\<close>

text \<open>
  C9. Over any sequence of messages that clients and servers may send, after each message: the servers have
  been told once to create every table asked for; the clients that asked for a table have been answered, in the order they asked,
  if all servers have created it, and none has been answered otherwise; the head threads of all clients
  have heard once that all tables exist if each client asked for every table and every server created it, and not before;
  and unless it reads snapshots the name node handles every further message without failing.
\<close>

theorem name_node_creates_tables:
  fixes c0 :: "('r, 'v) name_node_context" and reg :: "('r, 'v) class_registry"
  assumes run: "nn_run ldb reg w g c0 ms os c" and c0: "create_table_map c0 = []" "tables (nn_server_obj c0) = []"
    and g: "ctx_ok g" "0 < num_clients g" "0 < num_tables g" and l: "num_total_bg_threads g = int (length (nn_bg_thread_ids c0))"
  shows "told_create t os = (if asked t ms = [] then [] else server_ids g) \<and>
    answered t os = (if int (length (created_by t ms)) = num_servers g then asked t ms else []) \<and>
    told_all os =
      (if num_tables g \<le> int (length (asked_tables ms)) \<and>
          (\<forall>t \<in> set (asked_tables ms). int (length (asked t ms)) = num_clients g \<and> int (length (created_by t ms)) = num_servers g)
       then map get_head_bg_id [0..num_clients g - 1] else []) \<and>
    (resume_clock g \<le> 0 \<and> nn_allowed g ms sm \<longrightarrow> (\<exists>r. nn_handle ldb reg w g sm c = Inr r))"
proof -
  have ok: "tables_ok g ms os (create_table_map c)" by (rule run_tables_ok [OF run c0(1) g])
  then have e: "entry_ok g ms os t (table_entry t (create_table_map c))" for t by (simp add: tables_ok_def)
  have ans: "answered t os = (if int (length (created_by t ms)) = num_servers g then asked t ms else [])" for t
    using e [of t] by (auto simp: entry_ok_def split: if_splits)
  have "all_created g ms os \<longleftrightarrow> num_tables g \<le> int (length (asked_tables ms)) \<and>
      (\<forall>t \<in> set (asked_tables ms). int (length (asked t ms)) = num_clients g \<and> int (length (created_by t ms)) = num_servers g)"
    using g(2) by (auto simp: all_created_def ans)
  moreover have "nn_tables_known c0 c" by (rule run_tables_known [OF run]) (simp add: nn_tables_known_def c0)
  ultimately show ?thesis
    using ok e [of t] ans [of t] handle_total [OF _ _ g(1) _ l, of ms sm c ldb reg w]
    by (intro conjI impI) (simp_all add: tables_ok_def entry_ok_def)
qed

text \<open>A run with two clients and one server, in which one client asks before the server has created the table.\<close>

fun nn_exec ::
  "'w leveldb \<Rightarrow> ('r, 'v) class_registry \<Rightarrow> 'w \<Rightarrow> global_context \<Rightarrow> (int \<times> srv_msg) list \<Rightarrow> outs \<Rightarrow> ('r, 'v) name_node_context \<Rightarrow>
   (int \<times> srv_msg) list \<Rightarrow> (outs \<times> ('r, 'v) name_node_context) option" where
  "nn_exec ldb reg w g ms os c [] = Some (os, c)"
| "nn_exec ldb reg w g ms os c (sm # sms) =
     (if nn_allowed g ms sm then
        case nn_handle ldb reg w g sm c of
          Inr (False, os', c') \<Rightarrow> nn_exec ldb reg w g (ms @ [sm]) (os @ os') c' sms
        | _ \<Rightarrow> None
      else None)"

lemma nn_exec_run:
  "nn_exec ldb reg w g ms os c sms = Some (os', c') \<Longrightarrow> nn_run ldb reg w g c0 ms os c \<Longrightarrow>
   nn_run ldb reg w g c0 (ms @ sms) os' c'"
proof (induction sms arbitrary: ms os c)
  case (Cons sm sms)
  from Cons.prems(1) obtain o1 c1 where "nn_allowed g ms sm" "nn_handle ldb reg w g sm c = Inr (False, o1, c1)"
    and e: "nn_exec ldb reg w g (ms @ [sm]) (os @ o1) c1 sms = Some (os', c')"
    by (auto split: if_splits sum.splits prod.splits bool.splits)
  then have "nn_run ldb reg w g c0 (ms @ [sm]) (os @ o1) c1" using Cons.prems(2) by (blast intro: nn_run_step)
  from Cons.IH [OF e this] show ?case by simp
qed simp

definition demo_nn_ctx :: global_context where
  "demo_nn_ctx = demo_ctx\<lparr>num_clients := 2, num_tables := 1, num_total_bg_threads := 2\<rparr>"

definition demo_nn_msgs :: "(int \<times> srv_msg) list" where
  "demo_nn_msgs = (100, CreateTableMsg 0 \<lparr>table_staleness = 0, row_type = 0, row_capacity = 0\<rparr>) #
     map (\<lambda>s. (s, CreateTableReplyMsg 0)) (server_ids demo_nn_ctx) @
     [(1100, CreateTableMsg 0 \<lparr>table_staleness = 0, row_type = 0, row_capacity = 0\<rparr>)]"

definition demo_nn_start :: "(int sparse_row, int) name_node_context" where
  "demo_nn_start = SetUpNameNodeContext demo_nn_ctx"

lemma demo_nn_returns:
  "nn_exec null_leveldb (reg_of (sparse_ops i32_pod)) () demo_nn_ctx [] [] demo_nn_start demo_nn_msgs \<noteq> None"
  by code_simp

theorem name_node_creates_tables_witness:
  "\<exists>os c. nn_run null_leveldb (reg_of (sparse_ops i32_pod)) () demo_nn_ctx demo_nn_start demo_nn_msgs os c \<and>
     answered 0 os = [100, 1100] \<and> told_all os = [get_head_bg_id 0, get_head_bg_id 1]"
proof -
  obtain os c where r: "nn_run null_leveldb (reg_of (sparse_ops i32_pod)) () demo_nn_ctx demo_nn_start demo_nn_msgs os c"
    using demo_nn_returns nn_exec_run [OF _ nn_run_init] by force
  have "create_table_map demo_nn_start = []" "tables (nn_server_obj demo_nn_start) = []"
    "num_total_bg_threads demo_nn_ctx = int (length (nn_bg_thread_ids demo_nn_start))"
    by (simp_all add: demo_nn_start_def demo_nn_ctx_def SetUpNameNodeContext_def Server_new_def)
  moreover have "ctx_ok demo_nn_ctx" "0 < num_clients demo_nn_ctx" "0 < num_tables demo_nn_ctx" by code_simp+
  ultimately have "answered 0 os = (if int (length (created_by 0 demo_nn_msgs)) = num_servers demo_nn_ctx then asked 0 demo_nn_msgs else [])"
    "told_all os =
      (if num_tables demo_nn_ctx \<le> int (length (asked_tables demo_nn_msgs)) \<and>
          (\<forall>t \<in> set (asked_tables demo_nn_msgs). int (length (asked t demo_nn_msgs)) = num_clients demo_nn_ctx \<and>
             int (length (created_by t demo_nn_msgs)) = num_servers demo_nn_ctx)
       then map get_head_bg_id [0..num_clients demo_nn_ctx - 1] else [])"
    using name_node_creates_tables [OF r, of 0] by blast+
  moreover have "asked 0 demo_nn_msgs = [100, 1100]" "int (length (created_by 0 demo_nn_msgs)) = num_servers demo_nn_ctx"
    "num_tables demo_nn_ctx \<le> int (length (asked_tables demo_nn_msgs))" "asked_tables demo_nn_msgs = [0]"
    "map get_head_bg_id [0..num_clients demo_nn_ctx - 1] = [get_head_bg_id 0, get_head_bg_id 1]" "num_clients demo_nn_ctx = 2" by code_simp+
  ultimately show ?thesis using r by auto
qed

end
