(* ===== verification/Messages.thy ===== *)
theory Messages
imports Bytes
begin

text \<open>
  Message objects (petuum_ps_common/thread/msg_base.hpp, petuum_ps/thread/ps_msgs.hpp,
  petuum_ps_common/util/mem_block.hpp and thread/mem_transfer.hpp): memory blocks and who owns them,
  the constructors and destructors, and the place of every field in the bytes of a message.
\<close>

section \<open>Memory blocks\<close>

text \<open>
  A pointer is null, points to a block of the free store, or to the buffer inside the message object that
  holds it. Blocks are bytes; freeing or using what is not allocated is undefined.
\<close>

datatype mem_ptr = Null | Block nat | StackBuff

record mem_heap =
  mh_blocks :: "(nat \<times> bytes) list"
  mh_next :: nat

definition MemAlloc :: "(nat \<Rightarrow> bytes) \<Rightarrow> int \<Rightarrow> mem_heap \<Rightarrow> (mem_ptr \<times> mem_heap) result" where
  "MemAlloc junk nbytes h =
     (if nbytes < 0 then Inl (Fatal ''std::bad_array_new_length'')
      else Inr (Block (mh_next h),
        h\<lparr>mh_blocks := oupd (mh_next h) (take (nat nbytes) (junk (nat nbytes) @ replicate (nat nbytes) 0)) (mh_blocks h),
          mh_next := mh_next h + 1\<rparr>))"

definition MemFree :: "mem_ptr \<Rightarrow> mem_heap \<Rightarrow> mem_heap result" where
  "MemFree p h =
     (case p of
        Null \<Rightarrow> Inr h
      | StackBuff \<Rightarrow> Inl (Undefined ''delete[] of the stack buffer'')
      | Block a \<Rightarrow> if map_of (mh_blocks h) a = None then Inl (Undefined ''double free'')
          else Inr (h\<lparr>mh_blocks := odel a (mh_blocks h)\<rparr>))"

definition MemBlock_Reset :: "mem_ptr \<Rightarrow> mem_ptr \<Rightarrow> mem_heap \<Rightarrow> (mem_ptr \<times> mem_heap) result" where
  "MemBlock_Reset new old h = rbind (if old \<noteq> Null then MemFree old h else Inr h) (\<lambda>h. Inr (new, h))"

definition MemBlock_Release :: "mem_ptr \<Rightarrow> mem_ptr \<times> mem_ptr" where
  "MemBlock_Release m = (m, Null)"

section \<open>MsgBase\<close>

datatype MsgType =
    kClientConnect | kServerConnect | kAppConnect | kBgCreateTable | kCreateTable | kCreateTableReply
  | kCreatedAllTables | kRowRequest | kRowRequestReply | kServerRowRequestReply | kBgClock | kBgSendOpLog
  | kClientSendOpLog | kConnectServer | kClientStart | kAppThreadDereg | kClientShutDown
  | kServerShutDownAck | kServerPushRow | kMemTransfer

fun msg_code :: "MsgType \<Rightarrow> int" where
  "msg_code kClientConnect = 0"
| "msg_code kServerConnect = 1"
| "msg_code kAppConnect = 2"
| "msg_code kBgCreateTable = 3"
| "msg_code kCreateTable = 4"
| "msg_code kCreateTableReply = 5"
| "msg_code kCreatedAllTables = 6"
| "msg_code kRowRequest = 7"
| "msg_code kRowRequestReply = 8"
| "msg_code kServerRowRequestReply = 9"
| "msg_code kBgClock = 10"
| "msg_code kBgSendOpLog = 11"
| "msg_code kClientSendOpLog = 12"
| "msg_code kConnectServer = 13"
| "msg_code kClientStart = 14"
| "msg_code kAppThreadDereg = 15"
| "msg_code kClientShutDown = 16"
| "msg_code kServerShutDownAck = 17"
| "msg_code kServerPushRow = 18"
| "msg_code kMemTransfer = 50"

definition PETUUM_MSG_STACK_BUFF_SIZE :: nat where
  "PETUUM_MSG_STACK_BUFF_SIZE = 32"

record msg_obj =
  mo_mem :: mem_ptr
  mo_own_mem :: bool
  mo_stack_buff :: bytes
  mo_use_stack_buff :: bool

text \<open>The state of a message: the object and the free store.\<close>

type_synonym msg_st = "msg_obj \<times> mem_heap"

text \<open>
  The bytes of a new object, like those of a new block, are arbitrary; \<open>own_mem_\<close> is not set by
  \<open>MsgBase()\<close> either, but by every constructor below it.
\<close>

definition MsgBase_new :: "(nat \<Rightarrow> bytes) \<Rightarrow> msg_obj" where
  "MsgBase_new junk =
     \<lparr>mo_mem = Null, mo_own_mem = False,
      mo_stack_buff = take PETUUM_MSG_STACK_BUFF_SIZE (junk PETUUM_MSG_STACK_BUFF_SIZE @ replicate PETUUM_MSG_STACK_BUFF_SIZE 0),
      mo_use_stack_buff = False\<rparr>"

definition MsgBase_over :: "(nat \<Rightarrow> bytes) \<Rightarrow> mem_ptr \<Rightarrow> msg_obj" where
  "MsgBase_over junk p = (MsgBase_new junk)\<lparr>mo_mem := p, mo_own_mem := False, mo_use_stack_buff := False\<rparr>"

text \<open>The destructor of \<open>MsgBase\<close> and then that of its \<open>MemBlock\<close>.\<close>

definition MsgBase_destroy :: "msg_st \<Rightarrow> mem_heap result" where
  "MsgBase_destroy st =
     (case st of (m, h) \<Rightarrow>
      let p = (if \<not> mo_own_mem m then snd (MemBlock_Release (mo_mem m)) else mo_mem m) in
      rbind (MemBlock_Reset Null p h) (\<lambda>(_, h). Inr h))"

definition ReleaseMem :: "msg_obj \<Rightarrow> mem_ptr \<times> msg_obj" where
  "ReleaseMem m = (case MemBlock_Release (mo_mem m) of (p, p') \<Rightarrow> (p, m\<lparr>mo_own_mem := False, mo_mem := p'\<rparr>))"

definition block_bytes :: "mem_ptr \<Rightarrow> mem_heap \<Rightarrow> bytes result" where
  "block_bytes p h =
     (case p of Block a \<Rightarrow> of_option (Undefined ''freed block'') (map_of (mh_blocks h) a)
      | _ \<Rightarrow> Inl (Undefined ''null''))"

text \<open>The memory behind \<open>get_mem()\<close> and a store to it.\<close>

definition msg_mem :: "msg_st \<Rightarrow> bytes result" where
  "msg_mem st = (case st of (m, h) \<Rightarrow> if mo_mem m = StackBuff then Inr (mo_stack_buff m) else block_bytes (mo_mem m) h)"

definition msg_put :: "bytes \<Rightarrow> msg_st \<Rightarrow> msg_st" where
  "msg_put bs st =
     (case st of (m, h) \<Rightarrow>
      (case mo_mem m of
         StackBuff \<Rightarrow> (m\<lparr>mo_stack_buff := bs\<rparr>, h)
       | Block a \<Rightarrow> (m, h\<lparr>mh_blocks := oupd a bs (mh_blocks h)\<rparr>)
       | Null \<Rightarrow> (m, h)))"

section \<open>Fields\<close>

text \<open>An accessor returns a reference: a place of a type. Reading and assigning through it are checked.\<close>

record 'a field =
  f_off :: nat
  f_size :: nat
  f_enc :: "'a \<Rightarrow> bytes"
  f_dec :: "bytes \<Rightarrow> 'a"

definition int32_at :: "nat \<Rightarrow> int field" where
  "int32_at n = \<lparr>f_off = n, f_size = 4, f_enc = i32_enc, f_dec = i32_dec\<rparr>"

definition uint32_at :: "nat \<Rightarrow> 32 word field" where
  "uint32_at n = \<lparr>f_off = n, f_size = 4, f_enc = u32_enc, f_dec = u32_dec\<rparr>"

definition size_at :: "nat \<Rightarrow> nat field" where
  "size_at n = \<lparr>f_off = n, f_size = 8, f_enc = size_enc, f_dec = size_dec\<rparr>"

definition bool_at :: "nat \<Rightarrow> bool field" where
  "bool_at n = \<lparr>f_off = n, f_size = 1, f_enc = (\<lambda>b. [of_bool b]), f_dec = (\<lambda>bs. bs \<noteq> [0])\<rparr>"

definition field_get :: "'a field \<Rightarrow> bytes \<Rightarrow> 'a result" where
  "field_get f m = rbind (mem_read m (f_off f) (f_size f)) (\<lambda>bs. Inr (f_dec f bs))"

definition field_set :: "'a field \<Rightarrow> 'a \<Rightarrow> msg_st \<Rightarrow> msg_st result" where
  "field_set f v st = rbind (msg_mem st) (\<lambda>m. rbind (mem_write m (f_off f) (f_enc f v)) (\<lambda>m'. Inr (msg_put m' st)))"

section \<open>MsgBase, NumberedMsg, ArbitrarySizedMsg\<close>

definition MsgBase_get_size :: nat where
  "MsgBase_get_size = 4"

definition msg_type_field :: "int field" where
  "msg_type_field = int32_at 0"

definition get_msg_type :: "bytes \<Rightarrow> int result" where
  "get_msg_type mem = field_get msg_type_field mem"

definition get_seq_num :: "32 word field" where
  "get_seq_num = uint32_at MsgBase_get_size"

definition get_ack_num :: "32 word field" where
  "get_ack_num = uint32_at (MsgBase_get_size + 4)"

definition NumberedMsg_get_size :: nat where
  "NumberedMsg_get_size = MsgBase_get_size + 4 + 4"

text \<open>
  The default constructor that every message of a fixed size has: up to 32 bytes in the object,
  otherwise on the free store. \<open>InitMsg\<close> then writes the type.
\<close>

definition small_msg :: "(nat \<Rightarrow> bytes) \<Rightarrow> nat \<Rightarrow> MsgType \<Rightarrow> mem_heap \<Rightarrow> msg_st result" where
  "small_msg junk get_size ty h =
     rbind (if get_size > PETUUM_MSG_STACK_BUFF_SIZE
            then rbind (MemAlloc junk (int get_size) h) (\<lambda>(p, h).
                 Inr ((MsgBase_new junk)\<lparr>mo_own_mem := True, mo_use_stack_buff := False, mo_mem := p\<rparr>, h))
            else Inr ((MsgBase_new junk)\<lparr>mo_own_mem := False, mo_use_stack_buff := True, mo_mem := StackBuff\<rparr>, h)) (\<lambda>st.
     field_set msg_type_field (msg_code ty) st)"

definition ArbitrarySizedMsg_get_header_size :: nat where
  "ArbitrarySizedMsg_get_header_size = NumberedMsg_get_size + 8"

definition get_avai_size :: "nat field" where
  "get_avai_size = size_at NumberedMsg_get_size"

definition ArbitrarySizedMsg_InitMsg :: "int \<Rightarrow> msg_st \<Rightarrow> msg_st result" where
  "ArbitrarySizedMsg_InitMsg avai_size st = field_set get_avai_size (nat (avai_size mod 2 ^ 64)) st"

text \<open>
  The constructors of the messages with a data part. The size passes from \<open>size_t\<close> to the \<open>int32_t\<close>
  argument of \<open>Alloc\<close>.
\<close>

definition to_int32 :: "int \<Rightarrow> int" where
  "to_int32 x = (let u = x mod 2 ^ 32 in if u < 2 ^ 31 then u else u - 2 ^ 32)"

definition sized_msg :: "(nat \<Rightarrow> bytes) \<Rightarrow> nat \<Rightarrow> MsgType \<Rightarrow> int \<Rightarrow> mem_heap \<Rightarrow> msg_st result" where
  "sized_msg junk header_size ty avai_size h =
     rbind (MemAlloc junk (to_int32 (int header_size + avai_size)) h) (\<lambda>(p, h).
     rbind (ArbitrarySizedMsg_InitMsg avai_size ((MsgBase_new junk)\<lparr>mo_own_mem := True, mo_mem := p\<rparr>, h)) (\<lambda>st.
     field_set msg_type_field (msg_code ty) st))"

definition sized_get_size :: "nat \<Rightarrow> bytes \<Rightarrow> nat result" where
  "sized_get_size header_size m = rbind (field_get get_avai_size m) (\<lambda>n. Inr (header_size + n))"

section \<open>Messages of a fixed size\<close>

definition ClientConnectMsg_get_size :: nat where
  "ClientConnectMsg_get_size = NumberedMsg_get_size + 4"

definition new_ClientConnectMsg :: "(nat \<Rightarrow> bytes) \<Rightarrow> mem_heap \<Rightarrow> msg_st result" where
  "new_ClientConnectMsg junk = small_msg junk ClientConnectMsg_get_size kClientConnect"

definition ClientConnectMsg_client_id :: "int field" where
  "ClientConnectMsg_client_id = int32_at NumberedMsg_get_size"

definition new_ServerConnectMsg :: "(nat \<Rightarrow> bytes) \<Rightarrow> mem_heap \<Rightarrow> msg_st result" where
  "new_ServerConnectMsg junk = small_msg junk NumberedMsg_get_size kServerConnect"

definition new_AppConnectMsg :: "(nat \<Rightarrow> bytes) \<Rightarrow> mem_heap \<Rightarrow> msg_st result" where
  "new_AppConnectMsg junk = small_msg junk NumberedMsg_get_size kAppConnect"

definition BgCreateTableMsg_get_size :: nat where
  "BgCreateTableMsg_get_size = NumberedMsg_get_size + 4 + 4 + 4 + 4 + 8 + 4 + 4 + 4"

definition new_BgCreateTableMsg :: "(nat \<Rightarrow> bytes) \<Rightarrow> mem_heap \<Rightarrow> msg_st result" where
  "new_BgCreateTableMsg junk = small_msg junk BgCreateTableMsg_get_size kBgCreateTable"

definition BgCreateTableMsg_table_id :: "int field" where
  "BgCreateTableMsg_table_id = int32_at NumberedMsg_get_size"

definition BgCreateTableMsg_staleness :: "int field" where
  "BgCreateTableMsg_staleness = int32_at (NumberedMsg_get_size + 4)"

definition BgCreateTableMsg_row_type :: "int field" where
  "BgCreateTableMsg_row_type = int32_at (NumberedMsg_get_size + 4 + 4)"

definition BgCreateTableMsg_row_capacity :: "int field" where
  "BgCreateTableMsg_row_capacity = int32_at (NumberedMsg_get_size + 4 + 4 + 4)"

definition BgCreateTableMsg_process_cache_capacity :: "int field" where
  "BgCreateTableMsg_process_cache_capacity = int32_at (NumberedMsg_get_size + 4 + 4 + 4 + 4)"

definition BgCreateTableMsg_thread_cache_capacity :: "int field" where
  "BgCreateTableMsg_thread_cache_capacity = int32_at (NumberedMsg_get_size + 4 + 4 + 4 + 4 + 4)"

definition BgCreateTableMsg_oplog_capacity :: "int field" where
  "BgCreateTableMsg_oplog_capacity = int32_at (NumberedMsg_get_size + 4 + 4 + 4 + 4 + 4 + 4)"

definition CreateTableMsg_get_size :: nat where
  "CreateTableMsg_get_size = NumberedMsg_get_size + 4 + 4 + 4 + 4 + 4 + 4"

definition new_CreateTableMsg :: "(nat \<Rightarrow> bytes) \<Rightarrow> mem_heap \<Rightarrow> msg_st result" where
  "new_CreateTableMsg junk = small_msg junk CreateTableMsg_get_size kCreateTable"

definition CreateTableMsg_table_id :: "int field" where
  "CreateTableMsg_table_id = int32_at NumberedMsg_get_size"

definition CreateTableMsg_staleness :: "int field" where
  "CreateTableMsg_staleness = int32_at (NumberedMsg_get_size + 4)"

definition CreateTableMsg_row_type :: "int field" where
  "CreateTableMsg_row_type = int32_at (NumberedMsg_get_size + 4 + 4)"

definition CreateTableMsg_row_capacity :: "int field" where
  "CreateTableMsg_row_capacity = int32_at (NumberedMsg_get_size + 4 + 4 + 4)"

definition CreateTableReplyMsg_get_size :: nat where
  "CreateTableReplyMsg_get_size = NumberedMsg_get_size + 4"

definition new_CreateTableReplyMsg :: "(nat \<Rightarrow> bytes) \<Rightarrow> mem_heap \<Rightarrow> msg_st result" where
  "new_CreateTableReplyMsg junk = small_msg junk CreateTableReplyMsg_get_size kCreateTableReply"

definition CreateTableReplyMsg_table_id :: "int field" where
  "CreateTableReplyMsg_table_id = int32_at NumberedMsg_get_size"

definition RowRequestMsg_get_size :: nat where
  "RowRequestMsg_get_size = NumberedMsg_get_size + 4 + 4 + 4"

definition new_RowRequestMsg :: "(nat \<Rightarrow> bytes) \<Rightarrow> mem_heap \<Rightarrow> msg_st result" where
  "new_RowRequestMsg junk = small_msg junk RowRequestMsg_get_size kRowRequest"

definition RowRequestMsg_table_id :: "int field" where
  "RowRequestMsg_table_id = int32_at NumberedMsg_get_size"

definition RowRequestMsg_row_id :: "int field" where
  "RowRequestMsg_row_id = int32_at (NumberedMsg_get_size + 4)"

definition RowRequestMsg_clock :: "int field" where
  "RowRequestMsg_clock = int32_at (NumberedMsg_get_size + 4 + 4)"

definition RowRequestReplyMsg_get_size :: nat where
  "RowRequestReplyMsg_get_size = NumberedMsg_get_size"

definition new_RowRequestReplyMsg :: "(nat \<Rightarrow> bytes) \<Rightarrow> mem_heap \<Rightarrow> msg_st result" where
  "new_RowRequestReplyMsg junk = small_msg junk RowRequestReplyMsg_get_size kRowRequestReply"

definition new_CreatedAllTablesMsg :: "(nat \<Rightarrow> bytes) \<Rightarrow> mem_heap \<Rightarrow> msg_st result" where
  "new_CreatedAllTablesMsg junk = small_msg junk NumberedMsg_get_size kCreatedAllTables"

definition new_ConnectServerMsg :: "(nat \<Rightarrow> bytes) \<Rightarrow> mem_heap \<Rightarrow> msg_st result" where
  "new_ConnectServerMsg junk = small_msg junk NumberedMsg_get_size kConnectServer"

definition new_ClientStartMsg :: "(nat \<Rightarrow> bytes) \<Rightarrow> mem_heap \<Rightarrow> msg_st result" where
  "new_ClientStartMsg junk = small_msg junk NumberedMsg_get_size kClientStart"

definition new_AppThreadDeregMsg :: "(nat \<Rightarrow> bytes) \<Rightarrow> mem_heap \<Rightarrow> msg_st result" where
  "new_AppThreadDeregMsg junk = small_msg junk NumberedMsg_get_size kAppThreadDereg"

definition new_ClientShutDownMsg :: "(nat \<Rightarrow> bytes) \<Rightarrow> mem_heap \<Rightarrow> msg_st result" where
  "new_ClientShutDownMsg junk = small_msg junk NumberedMsg_get_size kClientShutDown"

definition new_ServerShutDownAckMsg :: "(nat \<Rightarrow> bytes) \<Rightarrow> mem_heap \<Rightarrow> msg_st result" where
  "new_ServerShutDownAckMsg junk = small_msg junk NumberedMsg_get_size kServerShutDownAck"

definition new_BgClockMsg :: "(nat \<Rightarrow> bytes) \<Rightarrow> mem_heap \<Rightarrow> msg_st result" where
  "new_BgClockMsg junk = small_msg junk NumberedMsg_get_size kBgClock"

definition new_BgSendOpLogMsg :: "(nat \<Rightarrow> bytes) \<Rightarrow> mem_heap \<Rightarrow> msg_st result" where
  "new_BgSendOpLogMsg junk = small_msg junk NumberedMsg_get_size kBgSendOpLog"

section \<open>Messages with a data part\<close>

definition ServerRowRequestReplyMsg_get_header_size :: nat where
  "ServerRowRequestReplyMsg_get_header_size = ArbitrarySizedMsg_get_header_size + 4 + 4 + 4 + 4 + 8"

definition new_ServerRowRequestReplyMsg :: "(nat \<Rightarrow> bytes) \<Rightarrow> int \<Rightarrow> mem_heap \<Rightarrow> msg_st result" where
  "new_ServerRowRequestReplyMsg junk = sized_msg junk ServerRowRequestReplyMsg_get_header_size kServerRowRequestReply"

definition ServerRowRequestReplyMsg_table_id :: "int field" where
  "ServerRowRequestReplyMsg_table_id = int32_at ArbitrarySizedMsg_get_header_size"

definition ServerRowRequestReplyMsg_row_id :: "int field" where
  "ServerRowRequestReplyMsg_row_id = int32_at (ArbitrarySizedMsg_get_header_size + 4)"

definition ServerRowRequestReplyMsg_clock :: "int field" where
  "ServerRowRequestReplyMsg_clock = int32_at (ArbitrarySizedMsg_get_header_size + 4 + 4)"

definition ServerRowRequestReplyMsg_version :: "32 word field" where
  "ServerRowRequestReplyMsg_version = uint32_at (ArbitrarySizedMsg_get_header_size + 4 + 4 + 4)"

definition ServerRowRequestReplyMsg_row_size :: "nat field" where
  "ServerRowRequestReplyMsg_row_size = size_at (ArbitrarySizedMsg_get_header_size + 4 + 4 + 4 + 4)"

definition ServerRowRequestReplyMsg_row_data :: nat where
  "ServerRowRequestReplyMsg_row_data = ServerRowRequestReplyMsg_get_header_size"

definition ClientSendOpLogMsg_get_header_size :: nat where
  "ClientSendOpLogMsg_get_header_size = ArbitrarySizedMsg_get_header_size + 1 + 4 + 4"

definition new_ClientSendOpLogMsg :: "(nat \<Rightarrow> bytes) \<Rightarrow> int \<Rightarrow> mem_heap \<Rightarrow> msg_st result" where
  "new_ClientSendOpLogMsg junk = sized_msg junk ClientSendOpLogMsg_get_header_size kClientSendOpLog"

definition ClientSendOpLogMsg_is_clock :: "bool field" where
  "ClientSendOpLogMsg_is_clock = bool_at ArbitrarySizedMsg_get_header_size"

definition ClientSendOpLogMsg_client_id :: "int field" where
  "ClientSendOpLogMsg_client_id = int32_at (ArbitrarySizedMsg_get_header_size + 1)"

definition ClientSendOpLogMsg_version :: "32 word field" where
  "ClientSendOpLogMsg_version = uint32_at (ArbitrarySizedMsg_get_header_size + 1 + 4)"

definition ClientSendOpLogMsg_data :: nat where
  "ClientSendOpLogMsg_data = ClientSendOpLogMsg_get_header_size"

definition ServerPushRowMsg_get_header_size :: nat where
  "ServerPushRowMsg_get_header_size = ArbitrarySizedMsg_get_header_size + 4 + 4 + 1"

definition new_ServerPushRowMsg :: "(nat \<Rightarrow> bytes) \<Rightarrow> int \<Rightarrow> mem_heap \<Rightarrow> msg_st result" where
  "new_ServerPushRowMsg junk = sized_msg junk ServerPushRowMsg_get_header_size kServerPushRow"

definition ServerPushRowMsg_clock :: "int field" where
  "ServerPushRowMsg_clock = int32_at ArbitrarySizedMsg_get_header_size"

definition ServerPushRowMsg_version :: "32 word field" where
  "ServerPushRowMsg_version = uint32_at (ArbitrarySizedMsg_get_header_size + 4)"

definition ServerPushRowMsg_is_clock :: "bool field" where
  "ServerPushRowMsg_is_clock = bool_at (ArbitrarySizedMsg_get_header_size + 4 + 4)"

definition ServerPushRowMsg_data :: nat where
  "ServerPushRowMsg_data = ServerPushRowMsg_get_header_size"

section \<open>Transfer of ownership\<close>

definition MemTransferMsg_get_size :: nat where
  "MemTransferMsg_get_size = NumberedMsg_get_size + 8"

definition new_MemTransferMsg :: "(nat \<Rightarrow> bytes) \<Rightarrow> mem_heap \<Rightarrow> msg_st result" where
  "new_MemTransferMsg junk = small_msg junk MemTransferMsg_get_size kMemTransfer"

text \<open>A pointer as it is stored in a message: null is 0 and block \<open>a\<close> has the address \<open>a + 1\<close>.\<close>

fun ptr_addr :: "mem_ptr \<Rightarrow> nat" where
  "ptr_addr (Block a) = a + 1"
| "ptr_addr _ = 0"

definition addr_ptr :: "nat \<Rightarrow> mem_ptr" where
  "addr_ptr n = (if n = 0 then Null else Block (n - 1))"

definition MemTransferMsg_mem_ptr :: "mem_ptr field" where
  "MemTransferMsg_mem_ptr =
     \<lparr>f_off = NumberedMsg_get_size, f_size = 8, f_enc = (\<lambda>p. size_enc (ptr_addr p)), f_dec = (\<lambda>bs. addr_ptr (size_dec bs))\<rparr>"

definition InitMemTransferMsg :: "msg_st \<Rightarrow> msg_obj \<Rightarrow> (msg_st \<times> msg_obj) result" where
  "InitMemTransferMsg mt msg =
     (case ReleaseMem msg of (p, msg) \<Rightarrow> rbind (field_set MemTransferMsg_mem_ptr p mt) (\<lambda>mt. Inr (mt, msg)))"

text \<open>
  The bytes sent and whether they are a transfer. \<open>IsLocalEntity\<close> is the communication bus's answer.
\<close>

definition TransferMem ::
  "(nat \<Rightarrow> bytes) \<Rightarrow> nat \<Rightarrow> bool \<Rightarrow> msg_st \<Rightarrow> (bool \<times> bytes \<times> msg_st) result" where
  "TransferMem junk header_size is_local st =
     (case st of (msg, h) \<Rightarrow>
      if is_local then
        rbind (new_MemTransferMsg junk h) (\<lambda>(mt, h).
        rbind (InitMemTransferMsg (mt, h) msg) (\<lambda>((mt, h), msg).
        rbind (msg_mem (mt, h)) (\<lambda>m.
        rbind (mem_read m 0 MemTransferMsg_get_size) (\<lambda>bs.
        rbind (MsgBase_destroy (mt, h)) (\<lambda>h. Inr (True, bs, (msg, h)))))))
      else
        rbind (msg_mem st) (\<lambda>m.
        rbind (sized_get_size header_size m) (\<lambda>n.
        rbind (mem_read m 0 n) (\<lambda>bs. Inr (False, bs, st)))))"

definition DestroyTransferredMem :: "mem_ptr \<Rightarrow> mem_heap \<Rightarrow> mem_heap result" where
  "DestroyTransferredMem p h = MemFree p h"

end
