(* ===== verification/Message_Codec.thy ===== *)
theory Message_Codec
imports Messages Bg_Worker
begin

text \<open>
  How messages are built by their senders and read by their receivers: the assignments to the fields of a
  message object, sending by value or by pointer, and the dispatch on the message type. Every message arrives with the
  contents it was built with, and its memory is freed exactly once.
\<close>

section \<open>Building messages\<close>

text \<open>The contents of the messages, one constructor per struct of ps_msgs.hpp.\<close>

datatype wire =
    W_ClientConnect int
  | W_ServerConnect
  | W_AppConnect
  | W_BgCreateTable int ClientTableConfig
  | W_CreateTable int TableInfo
  | W_CreateTableReply int
  | W_RowRequest int int int
  | W_RowRequestReply
  | W_CreatedAllTables
  | W_ConnectServer
  | W_ClientStart
  | W_AppThreadDereg
  | W_ClientShutDown
  | W_ServerShutDownAck
  | W_BgClock
  | W_BgSendOpLog
  | W_ServerRowRequestReply int int int "32 word" bytes
  | W_ClientSendOpLog bool int "32 word" bytes
  | W_ServerPushRow "32 word" "int option" bytes

text \<open>An assignment to a field or a store to the data part: the place and the bytes.\<close>

type_synonym mem_store = "nat \<times> bytes"

definition assign :: "'a field \<Rightarrow> 'a \<Rightarrow> mem_store" where
  "assign f v = (f_off f, f_enc f v)"

definition store_to :: "msg_st \<Rightarrow> mem_store \<Rightarrow> msg_st result" where
  "store_to st w = rbind (msg_mem st) (\<lambda>m. rbind (mem_write m (fst w) (snd w)) (\<lambda>m'. Inr (msg_put m' st)))"

definition fill :: "mem_store list \<Rightarrow> msg_st result \<Rightarrow> msg_st result" where
  "fill ws r = rbind r (\<lambda>st. foldM store_to st ws)"

definition build_ClientConnect :: "(nat \<Rightarrow> bytes) \<Rightarrow> int \<Rightarrow> mem_heap \<Rightarrow> msg_st result" where
  "build_ClientConnect junk client h = fill [assign ClientConnectMsg_client_id client] (new_ClientConnectMsg junk h)"

definition build_BgCreateTable :: "(nat \<Rightarrow> bytes) \<Rightarrow> int \<Rightarrow> ClientTableConfig \<Rightarrow> mem_heap \<Rightarrow> msg_st result" where
  "build_BgCreateTable junk t cfg h =
     fill [assign BgCreateTableMsg_table_id t,
           assign BgCreateTableMsg_staleness (table_staleness (table_info cfg)),
           assign BgCreateTableMsg_row_type (row_type (table_info cfg)),
           assign BgCreateTableMsg_row_capacity (row_capacity (table_info cfg)),
           assign BgCreateTableMsg_process_cache_capacity (process_cache_capacity cfg),
           assign BgCreateTableMsg_thread_cache_capacity (thread_cache_capacity cfg),
           assign BgCreateTableMsg_oplog_capacity (oplog_capacity cfg)] (new_BgCreateTableMsg junk h)"

definition build_CreateTable :: "(nat \<Rightarrow> bytes) \<Rightarrow> int \<Rightarrow> TableInfo \<Rightarrow> mem_heap \<Rightarrow> msg_st result" where
  "build_CreateTable junk t info h =
     fill [assign CreateTableMsg_table_id t, assign CreateTableMsg_staleness (table_staleness info),
           assign CreateTableMsg_row_type (row_type info), assign CreateTableMsg_row_capacity (row_capacity info)]
       (new_CreateTableMsg junk h)"

definition build_CreateTableReply :: "(nat \<Rightarrow> bytes) \<Rightarrow> int \<Rightarrow> mem_heap \<Rightarrow> msg_st result" where
  "build_CreateTableReply junk t h = fill [assign CreateTableReplyMsg_table_id t] (new_CreateTableReplyMsg junk h)"

definition build_RowRequest :: "(nat \<Rightarrow> bytes) \<Rightarrow> int \<Rightarrow> int \<Rightarrow> int \<Rightarrow> mem_heap \<Rightarrow> msg_st result" where
  "build_RowRequest junk t row clock h =
     fill [assign RowRequestMsg_table_id t, assign RowRequestMsg_row_id row, assign RowRequestMsg_clock clock] (new_RowRequestMsg junk h)"

text \<open>The size of the row stands in the message twice: as the size of its data part and as \<open>row_size\<close>.\<close>

definition build_ServerRowRequestReply ::
  "(nat \<Rightarrow> bytes) \<Rightarrow> int \<Rightarrow> int \<Rightarrow> int \<Rightarrow> 32 word \<Rightarrow> bytes \<Rightarrow> mem_heap \<Rightarrow> msg_st result" where
  "build_ServerRowRequestReply junk t row clock version data h =
     fill [assign ServerRowRequestReplyMsg_table_id t, assign ServerRowRequestReplyMsg_row_id row,
           assign ServerRowRequestReplyMsg_clock clock, assign ServerRowRequestReplyMsg_version version,
           (ServerRowRequestReplyMsg_row_data, data),
           assign ServerRowRequestReplyMsg_row_size (length data)]
       (new_ServerRowRequestReplyMsg junk (int (length data)) h)"

definition build_ClientSendOpLog ::
  "(nat \<Rightarrow> bytes) \<Rightarrow> bool \<Rightarrow> int \<Rightarrow> 32 word \<Rightarrow> bytes \<Rightarrow> mem_heap \<Rightarrow> msg_st result" where
  "build_ClientSendOpLog junk is_clock client version data h =
     fill [(ClientSendOpLogMsg_data, data), assign ClientSendOpLogMsg_is_clock is_clock,
           assign ClientSendOpLogMsg_client_id client, assign ClientSendOpLogMsg_version version]
       (new_ClientSendOpLogMsg junk (int (length data)) h)"

text \<open>
  A push message is allocated with room for \<open>cap\<close> bytes; the last message of a push is cut to the bytes used and carries the
  clock, the others are sent with all their \<open>cap\<close> bytes.
\<close>

definition build_ServerPushRow ::
  "(nat \<Rightarrow> bytes) \<Rightarrow> int \<Rightarrow> 32 word \<Rightarrow> int option \<Rightarrow> bytes \<Rightarrow> mem_heap \<Rightarrow> msg_st result" where
  "build_ServerPushRow junk cap version clock data h =
     fill ((ServerPushRowMsg_data, data) #
       (case clock of
          Some c \<Rightarrow> [assign get_avai_size (length data), assign ServerPushRowMsg_version version,
            assign ServerPushRowMsg_is_clock True, assign ServerPushRowMsg_clock c]
        | None \<Rightarrow> [assign ServerPushRowMsg_version version, assign ServerPushRowMsg_is_clock False]))
       (new_ServerPushRowMsg junk cap h)"

fun build_msg :: "(nat \<Rightarrow> bytes) \<Rightarrow> int \<Rightarrow> wire \<Rightarrow> mem_heap \<Rightarrow> msg_st result" where
  "build_msg junk cap (W_ClientConnect c) h = build_ClientConnect junk c h"
| "build_msg junk cap W_ServerConnect h = new_ServerConnectMsg junk h"
| "build_msg junk cap W_AppConnect h = new_AppConnectMsg junk h"
| "build_msg junk cap (W_BgCreateTable t cfg) h = build_BgCreateTable junk t cfg h"
| "build_msg junk cap (W_CreateTable t info) h = build_CreateTable junk t info h"
| "build_msg junk cap (W_CreateTableReply t) h = build_CreateTableReply junk t h"
| "build_msg junk cap (W_RowRequest t row clock) h = build_RowRequest junk t row clock h"
| "build_msg junk cap W_RowRequestReply h = new_RowRequestReplyMsg junk h"
| "build_msg junk cap W_CreatedAllTables h = new_CreatedAllTablesMsg junk h"
| "build_msg junk cap W_ConnectServer h = new_ConnectServerMsg junk h"
| "build_msg junk cap W_ClientStart h = new_ClientStartMsg junk h"
| "build_msg junk cap W_AppThreadDereg h = new_AppThreadDeregMsg junk h"
| "build_msg junk cap W_ClientShutDown h = new_ClientShutDownMsg junk h"
| "build_msg junk cap W_ServerShutDownAck h = new_ServerShutDownAckMsg junk h"
| "build_msg junk cap W_BgClock h = new_BgClockMsg junk h"
| "build_msg junk cap W_BgSendOpLog h = new_BgSendOpLogMsg junk h"
| "build_msg junk cap (W_ServerRowRequestReply t row clock version data) h = build_ServerRowRequestReply junk t row clock version data h"
| "build_msg junk cap (W_ClientSendOpLog is_clock client version data) h = build_ClientSendOpLog junk is_clock client version data h"
| "build_msg junk cap (W_ServerPushRow version clock data) h = build_ServerPushRow junk cap version clock data h"

text \<open>The fixed part of a message, and whether it has a data part after it.\<close>

fun fixed_size :: "wire \<Rightarrow> nat" where
  "fixed_size (W_ClientConnect c) = ClientConnectMsg_get_size"
| "fixed_size (W_BgCreateTable t cfg) = BgCreateTableMsg_get_size"
| "fixed_size (W_CreateTable t info) = CreateTableMsg_get_size"
| "fixed_size (W_CreateTableReply t) = CreateTableReplyMsg_get_size"
| "fixed_size (W_RowRequest t row clock) = RowRequestMsg_get_size"
| "fixed_size W_RowRequestReply = RowRequestReplyMsg_get_size"
| "fixed_size (W_ServerRowRequestReply t row clock version data) = ServerRowRequestReplyMsg_get_header_size"
| "fixed_size (W_ClientSendOpLog is_clock client version data) = ClientSendOpLogMsg_get_header_size"
| "fixed_size (W_ServerPushRow version clock data) = ServerPushRowMsg_get_header_size"
| "fixed_size _ = NumberedMsg_get_size"

fun is_sized :: "wire \<Rightarrow> bool" where
  "is_sized (W_ServerRowRequestReply t row clock version data) = True"
| "is_sized (W_ClientSendOpLog is_clock client version data) = True"
| "is_sized (W_ServerPushRow version clock data) = True"
| "is_sized _ = False"

section \<open>Sending and receiving\<close>

text \<open>
  By value: \<open>get_size()\<close> bytes from \<open>get_mem()\<close> are copied, and the object goes out of scope or is deleted.
\<close>

definition send_value :: "wire \<Rightarrow> msg_st \<Rightarrow> (bytes \<times> mem_heap) result" where
  "send_value w st =
     rbind (msg_mem st) (\<lambda>m.
     rbind (if is_sized w then sized_get_size (fixed_size w) m else Inr (fixed_size w)) (\<lambda>n.
     rbind (mem_read m 0 n) (\<lambda>bs.
     rbind (MsgBase_destroy st) (\<lambda>h. Inr (bs, h)))))"

definition send_transfer :: "(nat \<Rightarrow> bytes) \<Rightarrow> bool \<Rightarrow> wire \<Rightarrow> msg_st \<Rightarrow> (bytes \<times> mem_heap) result" where
  "send_transfer junk is_local w st =
     rbind (TransferMem junk (fixed_size w) is_local st) (\<lambda>(_, bs, st).
     rbind (MsgBase_destroy st) (\<lambda>h. Inr (bs, h)))"

text \<open>The receiver's view of the message and the block it has to free.\<close>

definition recv_mem :: "bytes \<Rightarrow> mem_heap \<Rightarrow> (bytes \<times> mem_ptr option) result" where
  "recv_mem zmq h =
     rbind (get_msg_type zmq) (\<lambda>ty.
     if ty = msg_code kMemTransfer then
       rbind (field_get MemTransferMsg_mem_ptr zmq) (\<lambda>p. rbind (block_bytes p h) (\<lambda>m. Inr (m, Some p)))
     else Inr (zmq, None))"

text \<open>Reading the fields, by the type of the message.\<close>

definition read_ClientConnect :: "bytes \<Rightarrow> wire result" where
  "read_ClientConnect m = rbind (field_get ClientConnectMsg_client_id m) (\<lambda>c. Inr (W_ClientConnect c))"

definition read_BgCreateTable :: "bytes \<Rightarrow> wire result" where
  "read_BgCreateTable m =
     rbind (field_get BgCreateTableMsg_staleness m) (\<lambda>st.
     rbind (field_get BgCreateTableMsg_row_type m) (\<lambda>ty.
     rbind (field_get BgCreateTableMsg_row_capacity m) (\<lambda>cap.
     rbind (field_get BgCreateTableMsg_process_cache_capacity m) (\<lambda>pc.
     rbind (field_get BgCreateTableMsg_thread_cache_capacity m) (\<lambda>tc.
     rbind (field_get BgCreateTableMsg_oplog_capacity m) (\<lambda>oc.
     rbind (field_get BgCreateTableMsg_table_id m) (\<lambda>t.
     Inr (W_BgCreateTable t
       \<lparr>table_info = \<lparr>table_staleness = st, row_type = ty, row_capacity = cap\<rparr>,
        process_cache_capacity = pc, thread_cache_capacity = tc, oplog_capacity = oc\<rparr>))))))))"

definition read_CreateTable :: "bytes \<Rightarrow> wire result" where
  "read_CreateTable m =
     rbind (field_get CreateTableMsg_table_id m) (\<lambda>t.
     rbind (field_get CreateTableMsg_staleness m) (\<lambda>st.
     rbind (field_get CreateTableMsg_row_type m) (\<lambda>ty.
     rbind (field_get CreateTableMsg_row_capacity m) (\<lambda>cap.
     Inr (W_CreateTable t \<lparr>table_staleness = st, row_type = ty, row_capacity = cap\<rparr>)))))"

definition read_CreateTableReply :: "bytes \<Rightarrow> wire result" where
  "read_CreateTableReply m = rbind (field_get CreateTableReplyMsg_table_id m) (\<lambda>t. Inr (W_CreateTableReply t))"

definition read_RowRequest :: "bytes \<Rightarrow> wire result" where
  "read_RowRequest m =
     rbind (field_get RowRequestMsg_table_id m) (\<lambda>t.
     rbind (field_get RowRequestMsg_row_id m) (\<lambda>row.
     rbind (field_get RowRequestMsg_clock m) (\<lambda>clock. Inr (W_RowRequest t row clock))))"

definition read_ServerRowRequestReply :: "bytes \<Rightarrow> wire result" where
  "read_ServerRowRequestReply m =
     rbind (field_get ServerRowRequestReplyMsg_table_id m) (\<lambda>t.
     rbind (field_get ServerRowRequestReplyMsg_row_id m) (\<lambda>row.
     rbind (field_get ServerRowRequestReplyMsg_clock m) (\<lambda>clock.
     rbind (field_get ServerRowRequestReplyMsg_version m) (\<lambda>version.
     rbind (field_get ServerRowRequestReplyMsg_row_size m) (\<lambda>n.
     rbind (mem_read m ServerRowRequestReplyMsg_row_data n) (\<lambda>data.
     Inr (W_ServerRowRequestReply t row clock version data)))))))"

definition read_ClientSendOpLog :: "bytes \<Rightarrow> wire result" where
  "read_ClientSendOpLog m =
     rbind (field_get ClientSendOpLogMsg_client_id m) (\<lambda>client.
     rbind (field_get ClientSendOpLogMsg_is_clock m) (\<lambda>is_clock.
     rbind (field_get ClientSendOpLogMsg_version m) (\<lambda>version.
     rbind (field_get get_avai_size m) (\<lambda>n.
     rbind (mem_read m ClientSendOpLogMsg_data n) (\<lambda>data.
     Inr (W_ClientSendOpLog is_clock client version data))))))"

definition read_ServerPushRow :: "bytes \<Rightarrow> wire result" where
  "read_ServerPushRow m =
     rbind (field_get ServerPushRowMsg_version m) (\<lambda>version.
     rbind (field_get get_avai_size m) (\<lambda>n.
     rbind (mem_read m ServerPushRowMsg_data n) (\<lambda>data.
     rbind (field_get ServerPushRowMsg_is_clock m) (\<lambda>is_clock.
     if is_clock then rbind (field_get ServerPushRowMsg_clock m) (\<lambda>clock. Inr (W_ServerPushRow version (Some clock) data))
     else Inr (W_ServerPushRow version None data)))))"

definition msg_readers :: "(MsgType \<times> (bytes \<Rightarrow> wire result)) list" where
  "msg_readers =
     [(kClientConnect, read_ClientConnect), (kServerConnect, \<lambda>m. Inr W_ServerConnect), (kAppConnect, \<lambda>m. Inr W_AppConnect),
      (kBgCreateTable, read_BgCreateTable), (kCreateTable, read_CreateTable), (kCreateTableReply, read_CreateTableReply),
      (kCreatedAllTables, \<lambda>m. Inr W_CreatedAllTables), (kRowRequest, read_RowRequest), (kRowRequestReply, \<lambda>m. Inr W_RowRequestReply),
      (kServerRowRequestReply, read_ServerRowRequestReply), (kBgClock, \<lambda>m. Inr W_BgClock), (kBgSendOpLog, \<lambda>m. Inr W_BgSendOpLog),
      (kClientSendOpLog, read_ClientSendOpLog), (kConnectServer, \<lambda>m. Inr W_ConnectServer), (kClientStart, \<lambda>m. Inr W_ClientStart),
      (kAppThreadDereg, \<lambda>m. Inr W_AppThreadDereg), (kClientShutDown, \<lambda>m. Inr W_ClientShutDown),
      (kServerShutDownAck, \<lambda>m. Inr W_ServerShutDownAck), (kServerPushRow, read_ServerPushRow)]"

text \<open>The \<open>switch\<close> on the message type.\<close>

definition read_msg :: "bytes \<Rightarrow> wire result" where
  "read_msg m =
     rbind (get_msg_type m) (\<lambda>ty.
     case map_of (map (\<lambda>(k, r). (msg_code k, r)) msg_readers) ty of
       None \<Rightarrow> Inl (Fatal ''Unrecognized message type'')
     | Some r \<Rightarrow> r m)"

definition receive_msg :: "bytes \<Rightarrow> mem_heap \<Rightarrow> (wire \<times> mem_heap) result" where
  "receive_msg zmq h =
     rbind (recv_mem zmq h) (\<lambda>(m, p).
     rbind (read_msg m) (\<lambda>w.
     case p of None \<Rightarrow> Inr (w, h) | Some p \<Rightarrow> rbind (DestroyTransferredMem p h) (\<lambda>h. Inr (w, h))))"

end
