(* ===== verification/Message_Proofs.thy ===== *)
theory Message_Proofs
imports Message_Codec
begin

text \<open>
  Messages arrive as they were built: the fields of a message do not overlap, so that the receiver's accessors return what the sender
  assigned, and the memory of a message is freed exactly once on every route.
\<close>

section \<open>Stores to a memory block\<close>

definition overlay :: "bytes \<Rightarrow> mem_store \<Rightarrow> bytes" where
  "overlay m w = take (fst w) m @ snd w @ drop (fst w + length (snd w)) m"

definition fits :: "nat \<Rightarrow> mem_store \<Rightarrow> bool" where
  "fits n w \<longleftrightarrow> fst w + length (snd w) \<le> n"

definition apart :: "mem_store \<Rightarrow> mem_store \<Rightarrow> bool" where
  "apart w v \<longleftrightarrow> fst w + length (snd w) \<le> fst v \<or> fst v + length (snd v) \<le> fst w"

text \<open>A store that no later one touches.\<close>

fun kept :: "mem_store \<Rightarrow> mem_store list \<Rightarrow> bool" where
  "kept w [] \<longleftrightarrow> False"
| "kept w (x # xs) \<longleftrightarrow> w = x \<and> list_all (apart w) xs \<or> kept w xs"

lemma mem_write_overlay: "fits (length m) w \<Longrightarrow> mem_write m (fst w) (snd w) = Inr (overlay m w)"
  by (simp add: mem_write_def fits_def overlay_def)

lemma length_overlay [simp]: "fits (length m) w \<Longrightarrow> length (overlay m w) = length m"
  using mem_write_length [OF mem_write_overlay] .

lemma length_overlays [simp]: "list_all (fits (length m)) ws \<Longrightarrow> length (foldl overlay m ws) = length m"
  by (induction ws arbitrary: m) simp_all

lemma overlays_at:
  assumes "at_mem m (fst w) (snd w)" and "list_all (fits (length m)) ws" and "list_all (apart w) ws"
  shows "at_mem (foldl overlay m ws) (fst w) (snd w)"
  using assms
proof (induction ws arbitrary: m)
  case (Cons v ws)
  have v: "mem_write m (fst v) (snd v) = Inr (overlay m v)" using Cons.prems(2) by (simp add: mem_write_overlay)
  have "at_mem (overlay m v) (fst w) (snd w)"
    using mem_write_frame [OF v Cons.prems(1)] Cons.prems(3) by (simp add: apart_def)
  with Cons show ?case by simp
qed simp

lemma kept_at:
  assumes "kept w ws" and "list_all (fits (length m)) ws"
  shows "at_mem (foldl overlay m ws) (fst w) (snd w)"
  using assms
proof (induction ws arbitrary: m)
  case (Cons x ws)
  show ?case
  proof (cases "kept w ws")
    case True
    then show ?thesis using Cons by simp
  next
    case False
    then have "w = x" "list_all (apart w) ws" using Cons.prems(1) by auto
    then show ?thesis
      using overlays_at [OF mem_write_at [OF mem_write_overlay]] Cons.prems(2) by simp
  qed
qed simp

lemma at_mem_take: "at_mem m off bs \<Longrightarrow> off + length bs \<le> n \<Longrightarrow> at_mem (take n m) off bs"
  by (auto simp: at_mem_nth)

section \<open>Message objects\<close>

definition heap_ok :: "mem_heap \<Rightarrow> bool" where
  "heap_ok h \<longleftrightarrow> osorted (mh_blocks h) \<and> (\<forall>a \<in> set (keys (mh_blocks h)). a < mh_next h)"

lemma msg_mem_put: "msg_mem st = Inr m \<Longrightarrow> msg_mem (msg_put m' st) = Inr m'"
  by (auto simp: msg_mem_def msg_put_def block_bytes_def map_of_oupd split: prod.splits mem_ptr.splits if_splits)

lemma msg_put_put [simp]: "msg_put m' (msg_put m st) = msg_put m' st"
  by (auto simp: msg_put_def split: prod.splits mem_ptr.splits)

lemma msg_put_same: "msg_mem st = Inr m \<Longrightarrow> osorted (mh_blocks (snd st)) \<Longrightarrow> msg_put m st = st"
  by (auto simp: msg_mem_def msg_put_def block_bytes_def oupd_same of_option_eq_Inr split: prod.splits mem_ptr.splits if_splits)

lemma osorted_msg_put: "osorted (mh_blocks (snd st)) \<Longrightarrow> osorted (mh_blocks (snd (msg_put m st)))"
  by (auto simp: msg_put_def osorted_oupd split: prod.splits mem_ptr.splits)

lemma msg_put_ptr [simp]: "mo_mem (fst (msg_put m st)) = mo_mem (fst st)"
  by (auto simp: msg_put_def split: prod.splits mem_ptr.splits)

lemma fill_ok:
  assumes "msg_mem st = Inr m" and "list_all (fits (length m)) ws" and "osorted (mh_blocks (snd st))"
  shows "fill ws (Inr st) = Inr (msg_put (foldl overlay m ws) st)"
  using assms
proof (induction ws arbitrary: st m)
  case (Cons w ws)
  have "store_to st w = Inr (msg_put (overlay m w) st)"
    using Cons.prems(1,2) by (simp add: store_to_def mem_write_overlay)
  with Cons.IH [OF msg_mem_put [OF Cons.prems(1), of "overlay m w"]] Cons.prems(2,3) show ?case
    by (simp add: fill_def osorted_msg_put)
qed (simp add: fill_def msg_put_same)

lemma field_set_store: "field_set f v st = fill [assign f v] (Inr st)"
  by (simp add: field_set_def fill_def store_to_def assign_def rbind_Inr)

lemma fill_fill: "fill ws (fill vs r) = fill (vs @ ws) r"
  by (simp add: fill_def rbind_assoc foldM_append)

text \<open>What a constructor leaves: in the object itself, or in a block of its own.\<close>

inductive fresh_msg :: "mem_heap \<Rightarrow> nat \<Rightarrow> msg_st \<Rightarrow> bool" for h n where
  fresh_stack: "mo_mem m = StackBuff \<Longrightarrow> \<not> mo_own_mem m \<Longrightarrow> n \<le> length (mo_stack_buff m) \<Longrightarrow> fresh_msg h n (m, h)"
| fresh_block: "mo_mem m = Block (mh_next h) \<Longrightarrow> mo_own_mem m \<Longrightarrow> length bs = n \<Longrightarrow>
    fresh_msg h n (m, h\<lparr>mh_blocks := oupd (mh_next h) bs (mh_blocks h), mh_next := mh_next h + 1\<rparr>)"

inductive_cases fresh_msgE: "fresh_msg h n st"

lemma fresh_mem: "fresh_msg h n st \<Longrightarrow> \<exists>m. msg_mem st = Inr m \<and> n \<le> length m"
  by (erule fresh_msgE) (auto simp: msg_mem_def block_bytes_def map_of_oupd)

lemma fresh_put: "fresh_msg h n st \<Longrightarrow> n \<le> length m' \<Longrightarrow> (\<And>m. msg_mem st = Inr m \<Longrightarrow> length m' = length m) \<Longrightarrow> fresh_msg h n (msg_put m' st)"
proof (erule fresh_msgE, goal_cases)
  case (1 m)
  then show ?thesis by (auto simp: msg_put_def msg_mem_def intro!: fresh_stack)
next
  case (2 m bs)
  then have "length m' = n" by (auto simp: msg_mem_def block_bytes_def map_of_oupd)
  moreover have "msg_put m' st = (m, h\<lparr>mh_blocks := oupd (mh_next h) m' (mh_blocks h), mh_next := mh_next h + 1\<rparr>)"
    using 2 by (cases h) (simp add: msg_put_def)
  ultimately show ?thesis using fresh_block [of m h m' n] 2 by simp
qed

lemma fresh_sorted: "fresh_msg h n st \<Longrightarrow> heap_ok h \<Longrightarrow> osorted (mh_blocks (snd st))"
  by (erule fresh_msgE) (auto simp: heap_ok_def osorted_oupd)

lemma fresh_fill:
  assumes "fresh_msg h n st" and "heap_ok h" and "list_all (fits n) ws"
  shows "\<exists>m st'. fill ws (Inr st) = Inr st' \<and> fresh_msg h n st' \<and> mo_mem (fst st') = mo_mem (fst st) \<and> msg_mem st' = Inr m \<and> n \<le> length m \<and>
    (\<forall>w. kept w ws \<longrightarrow> at_mem m (fst w) (snd w))"
proof -
  obtain m where m: "msg_mem st = Inr m" "n \<le> length m" using fresh_mem [OF assms(1)] by blast
  have f: "list_all (fits (length m)) ws" using assms(3) m(2) by (auto simp: list_all_iff fits_def)
  have "fill ws (Inr st) = Inr (msg_put (foldl overlay m ws) st)"
    by (rule fill_ok [OF m(1) f fresh_sorted [OF assms(1,2)]])
  moreover have "fresh_msg h n (msg_put (foldl overlay m ws) st)"
    using fresh_put [OF assms(1)] m f by simp
  ultimately show ?thesis using msg_mem_put [OF m(1)] m(2) f kept_at [OF _ f] by (metis length_overlays msg_put_ptr)
qed

lemma small_msg_fill:
  "\<exists>st. fresh_msg h n st \<and> small_msg junk n ty h = fill [assign msg_type_field (msg_code ty)] (Inr st)"
proof (cases "PETUUM_MSG_STACK_BUFF_SIZE < n")
  case True
  let ?bs = "take n (junk n @ replicate n 0)"
  have "fresh_msg h n ((MsgBase_new junk)\<lparr>mo_own_mem := True, mo_use_stack_buff := False, mo_mem := Block (mh_next h)\<rparr>,
      h\<lparr>mh_blocks := oupd (mh_next h) ?bs (mh_blocks h), mh_next := mh_next h + 1\<rparr>)"
    by (rule fresh_block) simp_all
  then show ?thesis using True by (auto simp: small_msg_def MemAlloc_def field_set_store)
next
  case False
  have "fresh_msg h n ((MsgBase_new junk)\<lparr>mo_own_mem := False, mo_use_stack_buff := True, mo_mem := StackBuff\<rparr>, h)"
    by (rule fresh_stack) (use False in \<open>simp_all add: MsgBase_new_def\<close>)
  then show ?thesis using False by (auto simp: small_msg_def field_set_store)
qed

lemma sized_msg_fill:
  assumes "0 \<le> avai" and "int hdr + avai < 2 ^ 31"
  shows "\<exists>st. fresh_msg h (hdr + nat avai) st \<and> mo_mem (fst st) = Block (mh_next h) \<and> sized_msg junk hdr ty avai h =
    fill [assign get_avai_size (nat avai), assign msg_type_field (msg_code ty)] (Inr st)"
proof -
  let ?n = "hdr + nat avai"
  have n: "to_int32 (int hdr + avai) = int ?n" using assms by (simp add: to_int32_def)
  have a: "nat (avai mod 2 ^ 64) = nat avai" using assms by simp
  have "fresh_msg h ?n ((MsgBase_new junk)\<lparr>mo_own_mem := True, mo_mem := Block (mh_next h)\<rparr>,
      h\<lparr>mh_blocks := oupd (mh_next h) (take ?n (junk ?n @ replicate ?n 0)) (mh_blocks h), mh_next := mh_next h + 1\<rparr>)"
    by (rule fresh_block) simp_all
  moreover have "sized_msg junk hdr ty avai h = fill [assign get_avai_size (nat avai), assign msg_type_field (msg_code ty)]
      (Inr ((MsgBase_new junk)\<lparr>mo_own_mem := True, mo_mem := Block (mh_next h)\<rparr>,
      h\<lparr>mh_blocks := oupd (mh_next h) (take ?n (junk ?n @ replicate ?n 0)) (mh_blocks h), mh_next := mh_next h + 1\<rparr>))"
    unfolding sized_msg_def n ArbitrarySizedMsg_InitMsg_def a field_set_store MemAlloc_def nat_int
    by (simp add: fill_def rbind_Inr)
  ultimately show ?thesis by (intro exI conjI) (assumption, simp, assumption)
qed

section \<open>The stores behind each message\<close>

lemmas msg_fields =
  MsgBase_get_size_def msg_type_field_def get_seq_num_def get_ack_num_def NumberedMsg_get_size_def
  ArbitrarySizedMsg_get_header_size_def get_avai_size_def ClientConnectMsg_get_size_def ClientConnectMsg_client_id_def
  BgCreateTableMsg_get_size_def BgCreateTableMsg_table_id_def BgCreateTableMsg_staleness_def
  BgCreateTableMsg_row_type_def BgCreateTableMsg_row_capacity_def BgCreateTableMsg_process_cache_capacity_def
  BgCreateTableMsg_thread_cache_capacity_def BgCreateTableMsg_oplog_capacity_def CreateTableMsg_get_size_def
  CreateTableMsg_table_id_def CreateTableMsg_staleness_def CreateTableMsg_row_type_def CreateTableMsg_row_capacity_def
  CreateTableReplyMsg_get_size_def CreateTableReplyMsg_table_id_def RowRequestMsg_get_size_def
  RowRequestMsg_table_id_def RowRequestMsg_row_id_def RowRequestMsg_clock_def RowRequestReplyMsg_get_size_def
  ServerRowRequestReplyMsg_get_header_size_def ServerRowRequestReplyMsg_table_id_def
  ServerRowRequestReplyMsg_row_id_def ServerRowRequestReplyMsg_clock_def ServerRowRequestReplyMsg_version_def
  ServerRowRequestReplyMsg_row_size_def ServerRowRequestReplyMsg_row_data_def ClientSendOpLogMsg_get_header_size_def
  ClientSendOpLogMsg_is_clock_def ClientSendOpLogMsg_client_id_def ClientSendOpLogMsg_version_def
  ClientSendOpLogMsg_data_def ServerPushRowMsg_get_header_size_def ServerPushRowMsg_clock_def
  ServerPushRowMsg_version_def ServerPushRowMsg_is_clock_def ServerPushRowMsg_data_def

lemmas msg_layout = msg_fields int32_at_def uint32_at_def size_at_def bool_at_def assign_def

lemmas msg_constructors =
  new_ClientConnectMsg_def new_ServerConnectMsg_def new_AppConnectMsg_def new_BgCreateTableMsg_def
  new_CreateTableMsg_def new_CreateTableReplyMsg_def new_RowRequestMsg_def new_RowRequestReplyMsg_def
  new_CreatedAllTablesMsg_def new_ConnectServerMsg_def new_ClientStartMsg_def new_AppThreadDeregMsg_def
  new_ClientShutDownMsg_def new_ServerShutDownAckMsg_def new_BgClockMsg_def new_BgSendOpLogMsg_def
  new_ServerRowRequestReplyMsg_def new_ClientSendOpLogMsg_def new_ServerPushRowMsg_def
  build_ClientConnect_def build_BgCreateTable_def build_CreateTable_def build_CreateTableReply_def build_RowRequest_def
  build_ServerRowRequestReply_def build_ClientSendOpLog_def build_ServerPushRow_def

fun small_stores :: "wire \<Rightarrow> MsgType \<times> mem_store list" where
  "small_stores (W_ClientConnect c) = (kClientConnect, [assign ClientConnectMsg_client_id c])"
| "small_stores W_ServerConnect = (kServerConnect, [])"
| "small_stores W_AppConnect = (kAppConnect, [])"
| "small_stores (W_BgCreateTable t cfg) = (kBgCreateTable,
     [assign BgCreateTableMsg_table_id t,
      assign BgCreateTableMsg_staleness (table_staleness (table_info cfg)),
      assign BgCreateTableMsg_row_type (row_type (table_info cfg)),
      assign BgCreateTableMsg_row_capacity (row_capacity (table_info cfg)),
      assign BgCreateTableMsg_process_cache_capacity (process_cache_capacity cfg),
      assign BgCreateTableMsg_thread_cache_capacity (thread_cache_capacity cfg),
      assign BgCreateTableMsg_oplog_capacity (oplog_capacity cfg)])"
| "small_stores (W_CreateTable t info) = (kCreateTable,
     [assign CreateTableMsg_table_id t, assign CreateTableMsg_staleness (table_staleness info),
      assign CreateTableMsg_row_type (row_type info), assign CreateTableMsg_row_capacity (row_capacity info)])"
| "small_stores (W_CreateTableReply t) = (kCreateTableReply, [assign CreateTableReplyMsg_table_id t])"
| "small_stores (W_RowRequest t row clock) = (kRowRequest,
     [assign RowRequestMsg_table_id t, assign RowRequestMsg_row_id row, assign RowRequestMsg_clock clock])"
| "small_stores W_RowRequestReply = (kRowRequestReply, [])"
| "small_stores W_CreatedAllTables = (kCreatedAllTables, [])"
| "small_stores W_ConnectServer = (kConnectServer, [])"
| "small_stores W_ClientStart = (kClientStart, [])"
| "small_stores W_AppThreadDereg = (kAppThreadDereg, [])"
| "small_stores W_ClientShutDown = (kClientShutDown, [])"
| "small_stores W_ServerShutDownAck = (kServerShutDownAck, [])"
| "small_stores W_BgClock = (kBgClock, [])"
| "small_stores W_BgSendOpLog = (kBgSendOpLog, [])"
| "small_stores w = undefined"

fun sized_stores :: "int \<Rightarrow> wire \<Rightarrow> int \<times> MsgType \<times> mem_store list" where
  "sized_stores cap (W_ServerRowRequestReply t row clock version data) = (int (length data), kServerRowRequestReply,
     [assign ServerRowRequestReplyMsg_table_id t, assign ServerRowRequestReplyMsg_row_id row,
      assign ServerRowRequestReplyMsg_clock clock, assign ServerRowRequestReplyMsg_version version,
      (ServerRowRequestReplyMsg_row_data, data), assign ServerRowRequestReplyMsg_row_size (length data)])"
| "sized_stores cap (W_ClientSendOpLog is_clock client version data) = (int (length data), kClientSendOpLog,
     [(ClientSendOpLogMsg_data, data), assign ClientSendOpLogMsg_is_clock is_clock,
      assign ClientSendOpLogMsg_client_id client, assign ClientSendOpLogMsg_version version])"
| "sized_stores cap (W_ServerPushRow version clock data) = (cap, kServerPushRow,
     (ServerPushRowMsg_data, data) #
     (case clock of
        Some c \<Rightarrow> [assign get_avai_size (length data), assign ServerPushRowMsg_version version,
          assign ServerPushRowMsg_is_clock True, assign ServerPushRowMsg_clock c]
      | None \<Rightarrow> [assign ServerPushRowMsg_version version, assign ServerPushRowMsg_is_clock False]))"
| "sized_stores cap w = undefined"

fun wire_data :: "wire \<Rightarrow> bytes" where
  "wire_data (W_ServerRowRequestReply t row clock version data) = data"
| "wire_data (W_ClientSendOpLog is_clock client version data) = data"
| "wire_data (W_ServerPushRow version clock data) = data"
| "wire_data w = []"

text \<open>Field values in the range of their C++ types and data that an \<open>int32_t\<close> size can address.\<close>

definition info_ok :: "TableInfo \<Rightarrow> bool" where
  "info_ok i \<longleftrightarrow> is_i32 (table_staleness i) \<and> is_i32 (row_type i) \<and> is_i32 (row_capacity i)"

definition config_ok :: "ClientTableConfig \<Rightarrow> bool" where
  "config_ok c \<longleftrightarrow> info_ok (table_info c) \<and> is_i32 (process_cache_capacity c) \<and> is_i32 (thread_cache_capacity c) \<and>
     is_i32 (oplog_capacity c)"

fun wire_ok :: "int \<Rightarrow> wire \<Rightarrow> bool" where
  "wire_ok cap (W_ClientConnect c) \<longleftrightarrow> is_i32 c"
| "wire_ok cap (W_BgCreateTable t cfg) \<longleftrightarrow> is_i32 t \<and> config_ok cfg"
| "wire_ok cap (W_CreateTable t info) \<longleftrightarrow> is_i32 t \<and> info_ok info"
| "wire_ok cap (W_CreateTableReply t) \<longleftrightarrow> is_i32 t"
| "wire_ok cap (W_RowRequest t row clock) \<longleftrightarrow> is_i32 t \<and> is_i32 row \<and> is_i32 clock"
| "wire_ok cap (W_ServerRowRequestReply t row clock version data) \<longleftrightarrow> is_i32 t \<and> is_i32 row \<and> is_i32 clock \<and>
     int (ServerRowRequestReplyMsg_get_header_size + length data) < 2 ^ 31"
| "wire_ok cap (W_ClientSendOpLog is_clock client version data) \<longleftrightarrow> is_i32 client \<and>
     int (ClientSendOpLogMsg_get_header_size + length data) < 2 ^ 31"
| "wire_ok cap (W_ServerPushRow version clock data) \<longleftrightarrow> int ServerPushRowMsg_get_header_size + cap < 2 ^ 31 \<and>
     (case clock of None \<Rightarrow> int (length data) = cap | Some c \<Rightarrow> is_i32 c \<and> int (length data) \<le> cap)"
| "wire_ok cap _ \<longleftrightarrow> True"

definition wire_stores :: "int \<Rightarrow> wire \<Rightarrow> mem_store list" where
  "wire_stores cap w =
     (if is_sized w then case sized_stores cap w of (n, ty, ws) \<Rightarrow> assign get_avai_size (nat n) # assign msg_type_field (msg_code ty) # ws
      else case small_stores w of (ty, ws) \<Rightarrow> assign msg_type_field (msg_code ty) # ws)"

definition room :: "int \<Rightarrow> wire \<Rightarrow> nat" where
  "room cap w = fixed_size w + (if is_sized w then nat (fst (sized_stores cap w)) else 0)"

lemma fill_Nil: "fill [] r = r"
  by (simp add: fill_def rbind_Inr)

lemma build_small:
  "\<not> is_sized w \<Longrightarrow> build_msg junk cap w h = fill (snd (small_stores w)) (small_msg junk (fixed_size w) (fst (small_stores w)) h)"
  by (cases w) (simp_all add: msg_constructors fill_Nil)

lemma build_sized:
  "is_sized w \<Longrightarrow> build_msg junk cap w h =
     fill (snd (snd (sized_stores cap w))) (sized_msg junk (fixed_size w) (fst (snd (sized_stores cap w))) (fst (sized_stores cap w)) h)"
  by (cases w) (simp_all add: msg_constructors)

lemma sized_capacity:
  "is_sized w \<Longrightarrow> wire_ok cap w \<Longrightarrow> 0 \<le> fst (sized_stores cap w) \<and> int (fixed_size w) + fst (sized_stores cap w) < 2 ^ 31"
  by (cases w) (auto split: option.splits)

lemma build_fill:
  assumes "wire_ok cap w"
  shows "\<exists>st. fresh_msg h (room cap w) st \<and> (is_sized w \<longrightarrow> mo_mem (fst st) = Block (mh_next h)) \<and> build_msg junk cap w h = fill (wire_stores cap w) (Inr st)"
proof (cases "is_sized w")
  case True
  obtain n ty ws where s: "sized_stores cap w = (n, ty, ws)" by (cases "sized_stores cap w")
  obtain st where "fresh_msg h (fixed_size w + nat n) st" "mo_mem (fst st) = Block (mh_next h)" "sized_msg junk (fixed_size w) ty n h =
      fill [assign get_avai_size (nat n), assign msg_type_field (msg_code ty)] (Inr st)"
    using sized_msg_fill [of n "fixed_size w" h junk ty] sized_capacity [OF True assms] s by auto
  with True s show ?thesis by (intro exI [of _ st]) (simp add: build_sized room_def wire_stores_def fill_fill)
next
  case False
  obtain ty ws where s: "small_stores w = (ty, ws)" by (cases "small_stores w")
  obtain st where "fresh_msg h (fixed_size w) st" "small_msg junk (fixed_size w) ty h = fill [assign msg_type_field (msg_code ty)] (Inr st)"
    using small_msg_fill [of h "fixed_size w" junk ty] by blast
  with False s show ?thesis by (intro exI [of _ st]) (simp add: build_small room_def wire_stores_def fill_fill)
qed

lemma stores_fit: "wire_ok cap w \<Longrightarrow> list_all (fits (room cap w)) (wire_stores cap w)"
  by (cases w) (auto simp: wire_stores_def room_def fits_def msg_layout split: option.splits)

lemma build_msg_ok:
  assumes "wire_ok cap w" and "heap_ok h"
  shows "\<exists>m st. build_msg junk cap w h = Inr st \<and> fresh_msg h (room cap w) st \<and>
    (is_sized w \<longrightarrow> mo_mem (fst st) = Block (mh_next h)) \<and> msg_mem st = Inr m \<and> room cap w \<le> length m \<and>
    (\<forall>s. kept s (wire_stores cap w) \<longrightarrow> at_mem m (fst s) (snd s))"
proof -
  obtain st where st: "fresh_msg h (room cap w) st" "build_msg junk cap w h = fill (wire_stores cap w) (Inr st)"
    "is_sized w \<longrightarrow> mo_mem (fst st) = Block (mh_next h)" using build_fill [OF assms(1)] by blast
  show ?thesis unfolding st(2) using st(3) fresh_fill [OF st(1) assms(2) stores_fit [OF assms(1)]] by metis
qed

section \<open>Reading\<close>

lemma field_get_at:
  "is_i32 x \<Longrightarrow> at_mem m off (i32_enc x) \<Longrightarrow> field_get (int32_at off) m = Inr x"
  "at_mem m off (u32_enc v) \<Longrightarrow> field_get (uint32_at off) m = Inr v"
  "is_size n \<Longrightarrow> at_mem m off (size_enc n) \<Longrightarrow> field_get (size_at off) m = Inr n"
  "at_mem m off [of_bool b] \<Longrightarrow> field_get (bool_at off) m = Inr b"
  using rd_i32_at [of x m off] rd_u32_at [of m off v] rd_size_at [of n m off]
  by (simp_all add: field_get_def int32_at_def uint32_at_def size_at_def bool_at_def rd_i32_def rd_u32_def rd_size_def at_mem_def)

definition wire_type :: "int \<Rightarrow> wire \<Rightarrow> MsgType" where
  "wire_type cap w = (if is_sized w then fst (snd (sized_stores cap w)) else fst (small_stores w))"

text \<open>The stores that the reader of a message depends on: all but the size a push message was allocated with.\<close>

definition image :: "int \<Rightarrow> wire \<Rightarrow> bytes \<Rightarrow> bool" where
  "image cap w m \<longleftrightarrow> (\<forall>s. kept s (wire_stores cap w) \<longrightarrow> at_mem m (fst s) (snd s))"

lemma msg_code_i32: "is_i32 (msg_code ty)"
  by (cases ty) (simp_all add: is_i32_def)

lemma imageD: "image cap w m \<Longrightarrow> kept (off, bs) (wire_stores cap w) \<Longrightarrow> at_mem m off bs"
  by (auto simp: image_def)

lemma image_type:
  assumes "image cap w m"
  shows "get_msg_type m = Inr (msg_code (wire_type cap w))"
proof -
  have "kept (0, i32_enc (msg_code (wire_type cap w))) (wire_stores cap w)"
    by (cases w) (auto simp: wire_stores_def wire_type_def apart_def msg_layout split: option.split)
  from field_get_at(1) [OF msg_code_i32 imageD [OF assms this]] show ?thesis
    by (simp add: get_msg_type_def msg_type_field_def)
qed

lemma read_msg_dispatch:
  assumes "get_msg_type m = Inr (msg_code ty)" and "map_of msg_readers ty = Some r"
  shows "read_msg m = r m"
proof -
  have "map_of (map (\<lambda>(k, r). (msg_code k, r)) msg_readers) (msg_code ty) = map_of msg_readers ty"
    by (cases ty) (simp_all add: msg_readers_def)
  with assms show ?thesis by (simp add: read_msg_def)
qed

lemmas image_kept = wire_stores_def apart_def msg_layout

lemma image_fields:
  assumes "image cap w m"
  shows "F = int32_at off \<Longrightarrow> is_i32 x \<Longrightarrow> kept (off, i32_enc x) (wire_stores cap w) \<Longrightarrow> field_get F m = Inr x"
    and "G = uint32_at off \<Longrightarrow> kept (off, u32_enc v) (wire_stores cap w) \<Longrightarrow> field_get G m = Inr v"
    and "H = size_at off \<Longrightarrow> is_size n \<Longrightarrow> kept (off, size_enc n) (wire_stores cap w) \<Longrightarrow> field_get H m = Inr n"
    and "B = bool_at off \<Longrightarrow> kept (off, [of_bool b]) (wire_stores cap w) \<Longrightarrow> field_get B m = Inr b"
  using imageD [OF assms] by (simp_all add: field_get_at)

lemma read_small:
  assumes img: "image cap w m" and ok: "wire_ok cap w" and "\<not> is_sized w"
  shows "read_msg m = Inr w"
proof -
  note d = read_msg_dispatch [OF image_type [OF img]]
  note i32 = image_fields(1) [OF img]
  show ?thesis
  proof (cases w)
    case (W_ClientConnect c)
    have "field_get ClientConnectMsg_client_id m = Inr (c)"
      by (rule i32, simp add: msg_fields, use ok in \<open>simp add: W_ClientConnect info_ok_def config_ok_def\<close>, simp add: W_ClientConnect image_kept)+
    then show ?thesis using d [of read_ClientConnect] by (simp add: W_ClientConnect wire_type_def msg_readers_def read_ClientConnect_def)
  next
    case (W_BgCreateTable t cfg)
    have "field_get BgCreateTableMsg_table_id m = Inr (t)" "field_get BgCreateTableMsg_staleness m = Inr (table_staleness (table_info cfg))" "field_get BgCreateTableMsg_row_type m = Inr (row_type (table_info cfg))" "field_get BgCreateTableMsg_row_capacity m = Inr (row_capacity (table_info cfg))" "field_get BgCreateTableMsg_process_cache_capacity m = Inr (process_cache_capacity cfg)" "field_get BgCreateTableMsg_thread_cache_capacity m = Inr (thread_cache_capacity cfg)" "field_get BgCreateTableMsg_oplog_capacity m = Inr (oplog_capacity cfg)"
      by (rule i32, simp add: msg_fields, use ok in \<open>simp add: W_BgCreateTable info_ok_def config_ok_def\<close>, simp add: W_BgCreateTable image_kept)+
    then show ?thesis using d [of read_BgCreateTable] by (simp add: W_BgCreateTable wire_type_def msg_readers_def read_BgCreateTable_def)
  next
    case (W_CreateTable t info)
    have "field_get CreateTableMsg_table_id m = Inr (t)" "field_get CreateTableMsg_staleness m = Inr (table_staleness info)" "field_get CreateTableMsg_row_type m = Inr (row_type info)" "field_get CreateTableMsg_row_capacity m = Inr (row_capacity info)"
      by (rule i32, simp add: msg_fields, use ok in \<open>simp add: W_CreateTable info_ok_def config_ok_def\<close>, simp add: W_CreateTable image_kept)+
    then show ?thesis using d [of read_CreateTable] by (simp add: W_CreateTable wire_type_def msg_readers_def read_CreateTable_def)
  next
    case (W_CreateTableReply t)
    have "field_get CreateTableReplyMsg_table_id m = Inr (t)"
      by (rule i32, simp add: msg_fields, use ok in \<open>simp add: W_CreateTableReply info_ok_def config_ok_def\<close>, simp add: W_CreateTableReply image_kept)+
    then show ?thesis using d [of read_CreateTableReply] by (simp add: W_CreateTableReply wire_type_def msg_readers_def read_CreateTableReply_def)
  next
    case (W_RowRequest t row clock)
    have "field_get RowRequestMsg_table_id m = Inr (t)" "field_get RowRequestMsg_row_id m = Inr (row)" "field_get RowRequestMsg_clock m = Inr (clock)"
      by (rule i32, simp add: msg_fields, use ok in \<open>simp add: W_RowRequest info_ok_def config_ok_def\<close>, simp add: W_RowRequest image_kept)+
    then show ?thesis using d [of read_RowRequest] by (simp add: W_RowRequest wire_type_def msg_readers_def read_RowRequest_def)
  qed (use assms in \<open>simp_all add: d wire_type_def msg_readers_def\<close>)
qed

lemma read_sized:
  assumes img: "image cap w m" and ok: "wire_ok cap w" and "is_sized w"
  shows "read_msg m = Inr w"
proof -
  note d = read_msg_dispatch [OF image_type [OF img]]
  note i32 = image_fields(1) [OF img] and u32 = image_fields(2) [OF img] and size = image_fields(3) [OF img] and bool = image_fields(4) [OF img]
  note data = mem_read_at [OF imageD [OF img] refl]
  show ?thesis
  proof (cases w)
    case (W_ServerRowRequestReply t row clock version bs)
    have "field_get ServerRowRequestReplyMsg_table_id m = Inr t" "field_get ServerRowRequestReplyMsg_row_id m = Inr row"
        "field_get ServerRowRequestReplyMsg_clock m = Inr clock"
      by (rule i32, simp add: msg_fields, use ok in \<open>simp add: W_ServerRowRequestReply\<close>, simp add: W_ServerRowRequestReply image_kept)+
    moreover have "field_get ServerRowRequestReplyMsg_version m = Inr version"
      by (rule u32, simp add: msg_fields, simp add: W_ServerRowRequestReply image_kept)
    moreover have "field_get ServerRowRequestReplyMsg_row_size m = Inr (length bs)"
      by (rule size, simp add: msg_fields, use ok in \<open>simp add: W_ServerRowRequestReply is_size_def\<close>, simp add: W_ServerRowRequestReply image_kept)
    moreover have "mem_read m ServerRowRequestReplyMsg_row_data (length bs) = Inr bs"
      by (rule data) (simp add: W_ServerRowRequestReply image_kept)
    ultimately show ?thesis
      using d [of read_ServerRowRequestReply] by (simp add: W_ServerRowRequestReply wire_type_def msg_readers_def read_ServerRowRequestReply_def)
  next
    case (W_ClientSendOpLog is_clock client version bs)
    have "field_get ClientSendOpLogMsg_client_id m = Inr client"
      by (rule i32, simp add: msg_fields, use ok in \<open>simp add: W_ClientSendOpLog\<close>, simp add: W_ClientSendOpLog image_kept)
    moreover have "field_get ClientSendOpLogMsg_version m = Inr version"
      by (rule u32, simp add: msg_fields, simp add: W_ClientSendOpLog image_kept)
    moreover have "field_get ClientSendOpLogMsg_is_clock m = Inr is_clock"
      by (rule bool, simp add: msg_fields, simp add: W_ClientSendOpLog image_kept)
    moreover have "field_get get_avai_size m = Inr (length bs)"
      by (rule size, simp add: msg_fields, use ok in \<open>simp add: W_ClientSendOpLog is_size_def\<close>, simp add: W_ClientSendOpLog image_kept)
    moreover have "mem_read m ClientSendOpLogMsg_data (length bs) = Inr bs"
      by (rule data) (simp add: W_ClientSendOpLog image_kept)
    ultimately show ?thesis
      using d [of read_ClientSendOpLog] by (simp add: W_ClientSendOpLog wire_type_def msg_readers_def read_ClientSendOpLog_def)
  next
    case (W_ServerPushRow version clock bs)
    have "field_get ServerPushRowMsg_version m = Inr version"
      by (rule u32, simp add: msg_fields, simp add: W_ServerPushRow image_kept split: option.split)
    moreover have "field_get get_avai_size m = Inr (length bs)"
      by (rule size, simp add: msg_fields, use ok in \<open>auto simp: W_ServerPushRow is_size_def split: option.splits\<close>,
          use ok in \<open>auto simp: W_ServerPushRow image_kept split: option.splits\<close>)
    moreover have "mem_read m ServerPushRowMsg_data (length bs) = Inr bs"
      by (rule data) (simp add: W_ServerPushRow image_kept split: option.split)
    moreover have "field_get ServerPushRowMsg_is_clock m = Inr (clock \<noteq> None)"
      by (rule bool, simp add: msg_fields, simp add: W_ServerPushRow image_kept split: option.split)
    moreover have "field_get ServerPushRowMsg_clock m = Inr c" if "clock = Some c" for c
      by (rule i32, simp add: msg_fields, use ok that in \<open>simp add: W_ServerPushRow\<close>, simp add: W_ServerPushRow that image_kept)
    ultimately show ?thesis
      using d [of read_ServerPushRow] by (cases clock) (simp_all add: W_ServerPushRow wire_type_def msg_readers_def read_ServerPushRow_def)
  qed (use assms(3) in simp_all)
qed

lemma read_msg_image: "image cap w m \<Longrightarrow> wire_ok cap w \<Longrightarrow> read_msg m = Inr w"
  using read_small read_sized by blast

section \<open>Delivery\<close>

lemma kept_in: "kept s ws \<Longrightarrow> s \<in> set ws"
  by (induction ws) auto

lemma stores_sent: "wire_ok cap w \<Longrightarrow> list_all (fits (fixed_size w + length (wire_data w))) (wire_stores cap w)"
  by (cases w) (auto simp: wire_stores_def fits_def msg_layout split: option.splits)

lemma image_take:
  assumes "image cap w m" and "wire_ok cap w"
  shows "image cap w (take (fixed_size w + length (wire_data w)) m)"
  unfolding image_def
proof (intro allI impI)
  fix s assume k: "kept s (wire_stores cap w)"
  then have "fits (fixed_size w + length (wire_data w)) s" using stores_sent [OF assms(2)] kept_in [OF k] by (simp add: list_all_iff)
  then show "at_mem (take (fixed_size w + length (wire_data w)) m) (fst s) (snd s)"
    using assms(1) k by (auto simp: image_def fits_def intro: at_mem_take)
qed

lemma image_avai:
  assumes "image cap w m" and "wire_ok cap w" and "is_sized w"
  shows "field_get get_avai_size m = Inr (length (wire_data w))"
proof -
  have "kept (12, size_enc (length (wire_data w))) (wire_stores cap w)"
    using assms(2,3) by (cases w) (auto simp: image_kept split: option.splits)
  moreover have "is_size (length (wire_data w))"
    using assms(2,3) by (cases w) (auto simp: is_size_def split: option.splits)
  ultimately show ?thesis using image_fields(3) [OF assms(1), of get_avai_size 12] by (simp add: msg_fields)
qed

lemma room_sent: "wire_ok cap w \<Longrightarrow> fixed_size w + length (wire_data w) \<le> room cap w"
  by (cases w) (auto simp: room_def split: option.splits)

lemma sent_size:
  assumes "image cap w m" and "wire_ok cap w"
  shows "(if is_sized w then sized_get_size (fixed_size w) m else Inr (fixed_size w)) = Inr (fixed_size w + length (wire_data w))"
proof (cases "is_sized w")
  case True
  then show ?thesis using image_avai [OF assms] by (simp add: sized_get_size_def)
next
  case False
  then show ?thesis by (cases w) simp_all
qed

lemma odel_oupd: "osorted m \<Longrightarrow> k \<notin> set (keys m) \<Longrightarrow> odel k (oupd k v m) = m"
  by (induction k v m rule: oupd.induct) auto

lemma fresh_destroy:
  assumes "fresh_msg h n st" and "heap_ok h"
  shows "\<exists>h'. MsgBase_destroy st = Inr h' \<and> mh_blocks h' = mh_blocks h"
  using assms(1)
proof (cases rule: fresh_msg.cases)
  case (fresh_stack m)
  then show ?thesis by (simp add: MsgBase_destroy_def MemBlock_Release_def MemBlock_Reset_def)
next
  case (fresh_block m bs)
  have "mh_next h \<notin> set (keys (mh_blocks h))" using assms(2) by (auto simp: heap_ok_def)
  with fresh_block assms(2) show ?thesis
    by (simp add: MsgBase_destroy_def MemBlock_Reset_def MemFree_def map_of_oupd odel_oupd heap_ok_def del: set_map)
qed

lemma receive_value:
  assumes "image cap w bs" and "wire_ok cap w"
  shows "receive_msg bs h = Inr (w, h)"
proof -
  have "msg_code (wire_type cap w) \<noteq> msg_code kMemTransfer"
    by (cases w) (simp_all add: wire_type_def)
  then show ?thesis using image_type [OF assms(1)] read_msg_image [OF assms] by (simp add: receive_msg_def recv_mem_def)
qed

lemma send_value_ok:
  assumes "fresh_msg h n st" and "heap_ok h" and "msg_mem st = Inr m" and "image cap w m" and "wire_ok cap w" and "room cap w \<le> length m"
  shows "\<exists>bs h1. send_value w st = Inr (bs, h1) \<and> receive_msg bs h1 = Inr (w, h1) \<and> mh_blocks h1 = mh_blocks h"
proof -
  let ?n = "fixed_size w + length (wire_data w)"
  obtain h1 where h1: "MsgBase_destroy st = Inr h1" "mh_blocks h1 = mh_blocks h" using fresh_destroy [OF assms(1,2)] by blast
  have "mem_read m 0 ?n = Inr (take ?n m)" using room_sent [OF assms(5)] assms(6) by (simp add: mem_read_def)
  then have "send_value w st = Inr (take ?n m, h1)" using assms(3) h1 sent_size [OF assms(4,5)] by (simp add: send_value_def)
  with receive_value [OF image_take [OF assms(4,5)] assms(5)] h1 show ?thesis by blast
qed

text \<open>The message that carries a pointer.\<close>

lemma transfer_message:
  assumes "osorted (mh_blocks h)" and "mo_mem msg = Block a" and "a + 1 < 2 ^ 64"
  shows "\<exists>bs msg'. TransferMem junk hdr True (msg, h) = Inr (True, bs, (msg', h)) \<and> mo_mem msg' = Null \<and> \<not> mo_own_mem msg' \<and>
    get_msg_type bs = Inr (msg_code kMemTransfer) \<and> field_get MemTransferMsg_mem_ptr bs = Inr (Block a)"
proof -
  let ?mt = "(MsgBase_new junk)\<lparr>mo_own_mem := False, mo_use_stack_buff := True, mo_mem := StackBuff\<rparr>"
  let ?ws = "[assign msg_type_field (msg_code kMemTransfer), assign MemTransferMsg_mem_ptr (Block a)]"
  have new: "new_MemTransferMsg junk h = fill [assign msg_type_field (msg_code kMemTransfer)] (Inr (?mt, h))"
    by (simp add: new_MemTransferMsg_def small_msg_def MemTransferMsg_get_size_def PETUUM_MSG_STACK_BUFF_SIZE_def field_set_store msg_fields)
  have mem: "msg_mem (?mt, h) = Inr (mo_stack_buff ?mt)" by (simp add: msg_mem_def)
  have len: "length (mo_stack_buff ?mt) = 32" by (simp add: MsgBase_new_def PETUUM_MSG_STACK_BUFF_SIZE_def)
  define m where "m = foldl overlay (mo_stack_buff ?mt) ?ws"
  have fit: "list_all (fits (length (mo_stack_buff ?mt))) ?ws"
    unfolding len by (simp add: fits_def msg_layout MemTransferMsg_mem_ptr_def)
  have f: "fill ?ws (Inr (?mt, h)) = Inr (msg_put m (?mt, h))"
    unfolding m_def by (rule fill_ok [OF mem fit]) (use assms(1) in simp)
  have lm: "length m = 32" unfolding m_def length_overlays [OF fit] by (rule len)
  have "kept (0, i32_enc 50) ?ws" "kept (12, size_enc (a + 1)) ?ws"
    by (simp_all add: apart_def msg_layout MemTransferMsg_mem_ptr_def)
  from this [THEN kept_at, OF fit] have at: "at_mem m 0 (i32_enc 50)" "at_mem m 12 (size_enc (a + 1))" by (simp_all add: m_def)
  then have at': "at_mem (take 20 m) 0 (i32_enc 50)" "at_mem (take 20 m) 12 (size_enc (a + 1))" by (auto intro: at_mem_take)
  have t: "get_msg_type (take 20 m) = Inr (msg_code kMemTransfer)"
    using field_get_at(1) [OF _ at'(1)] by (simp add: get_msg_type_def msg_type_field_def is_i32_def)
  have "field_get (size_at 12) (take 20 m) = Inr (a + 1)" by (rule field_get_at(3) [OF _ at'(2)]) (use assms(3) in \<open>simp add: is_size_def\<close>)
  then have p: "field_get MemTransferMsg_mem_ptr (take 20 m) = Inr (Block a)"
    by (cases "mem_read (take 20 m) 12 8") (simp_all add: field_get_def size_at_def MemTransferMsg_mem_ptr_def msg_fields addr_ptr_def)
  have r: "mem_read m 0 MemTransferMsg_get_size = Inr (take 20 m)" by (simp add: mem_read_def lm MemTransferMsg_get_size_def msg_fields)
  have put: "msg_put m (?mt, h) = (?mt\<lparr>mo_stack_buff := m\<rparr>, h)" by (simp add: msg_put_def)
  define msg' where "msg' = msg\<lparr>mo_own_mem := False, mo_mem := Null\<rparr>"
  have rel: "ReleaseMem msg = (Block a, msg')" using assms(2) by (simp add: ReleaseMem_def MemBlock_Release_def msg'_def)
  have chain: "rbind (new_MemTransferMsg junk h) (field_set MemTransferMsg_mem_ptr (Block a)) = Inr (msg_put m (?mt, h))"
    unfolding f [symmetric] new field_set_store by (simp add: fill_def rbind_assoc)
  obtain mt1 h1 where mt1: "new_MemTransferMsg junk h = Inr (mt1, h1)" using chain by (cases "new_MemTransferMsg junk h") auto
  have "field_set MemTransferMsg_mem_ptr (Block a) (mt1, h1) = Inr (?mt\<lparr>mo_stack_buff := m\<rparr>, h)" using chain mt1 put by simp
  then have "TransferMem junk hdr True (msg, h) = Inr (True, take 20 m, (msg', h))"
    using mt1 rel r
    by (simp add: TransferMem_def InitMemTransferMsg_def msg_mem_def MsgBase_destroy_def MemBlock_Release_def MemBlock_Reset_def MsgBase_new_def)
  with t p show ?thesis by (auto simp: msg'_def)
qed

lemma transfer_ok:
  assumes "fresh_msg h n (msg, h0)" and "heap_ok h" and "mo_mem msg = Block (mh_next h)" and "mh_next h + 1 < 2 ^ 64"
    and "msg_mem (msg, h0) = Inr m" and "image cap w m" and "wire_ok cap w"
  shows "\<exists>bs h1 h2. send_transfer junk True w (msg, h0) = Inr (bs, h1) \<and> receive_msg bs h1 = Inr (w, h2) \<and> mh_blocks h2 = mh_blocks h"
proof -
  have so: "osorted (mh_blocks h0)" using fresh_sorted [OF assms(1,2)] by simp
  obtain bs msg' where t: "TransferMem junk (fixed_size w) True (msg, h0) = Inr (True, bs, (msg', h0))" "mo_mem msg' = Null" "\<not> mo_own_mem msg'"
    "get_msg_type bs = Inr (msg_code kMemTransfer)" "field_get MemTransferMsg_mem_ptr bs = Inr (Block (mh_next h))"
    using transfer_message [OF so assms(3,4)] by blast
  have s: "send_transfer junk True w (msg, h0) = Inr (bs, h0)"
    using t by (simp add: send_transfer_def MsgBase_destroy_def MemBlock_Release_def MemBlock_Reset_def)
  obtain m' where h0: "h0 = h\<lparr>mh_blocks := oupd (mh_next h) m' (mh_blocks h), mh_next := mh_next h + 1\<rparr>"
    using assms(1,3) by (cases rule: fresh_msg.cases) auto
  have b: "block_bytes (Block (mh_next h)) h0 = Inr m" using assms(3,5) by (simp add: msg_mem_def)
  have "mh_next h \<notin> set (keys (mh_blocks h))" using assms(2) by (auto simp: heap_ok_def)
  then have "\<exists>h2. MemFree (Block (mh_next h)) h0 = Inr h2 \<and> mh_blocks h2 = mh_blocks h"
    using assms(2) unfolding h0 by (simp add: MemFree_def map_of_oupd odel_oupd heap_ok_def del: set_map)
  then show ?thesis
    using s t b read_msg_image [OF assms(6,7)] by (auto simp: receive_msg_def recv_mem_def DestroyTransferredMem_def)
qed

lemma remote_ok:
  assumes "send_value w st = Inr (bs, h1)" and "is_sized w"
  shows "send_transfer junk False w st = Inr (bs, h1)"
  using assms by (cases st) (auto simp: send_value_def send_transfer_def TransferMem_def rbind_eq_Inr)

text \<open>
  C10. Every message with field values in range can be built, and it arrives as it was built: sent by value, and for messages with a
  data part also through TransferMem to a thread of the same process (by pointer) or of another one. On every
  route the sender's and the receiver's destructors together free exactly the memory that was allocated,
  once: afterwards the allocated blocks are those from before.
\<close>

theorem message_delivery:
  assumes h: "heap_ok h" "mh_next h + 1 < 2 ^ 64" and w: "wire_ok cap w"
  shows "\<exists>st. build_msg junk cap w h = Inr st \<and>
    (\<exists>bs h1 h2. send_value w st = Inr (bs, h1) \<and> receive_msg bs h1 = Inr (w, h2) \<and> mh_blocks h2 = mh_blocks h) \<and>
    (is_sized w \<longrightarrow> (\<exists>bs h1 h2. send_transfer junk is_local w st = Inr (bs, h1) \<and> receive_msg bs h1 = Inr (w, h2) \<and>
       mh_blocks h2 = mh_blocks h))"
proof -
  obtain m st where st: "build_msg junk cap w h = Inr st" "fresh_msg h (room cap w) st" "is_sized w \<longrightarrow> mo_mem (fst st) = Block (mh_next h)"
    "msg_mem st = Inr m" "room cap w \<le> length m" and k: "\<forall>s. kept s (wire_stores cap w) \<longrightarrow> at_mem m (fst s) (snd s)"
    using build_msg_ok [OF w h(1), of junk] by metis
  have img: "image cap w m" using k by (simp add: image_def)
  obtain bs h1 where v: "send_value w st = Inr (bs, h1)" "receive_msg bs h1 = Inr (w, h1)" "mh_blocks h1 = mh_blocks h"
    using send_value_ok [OF st(2) h(1) st(4) img w st(5)] by blast
  obtain msg h0 where p: "st = (msg, h0)" by (cases st)
  have "\<exists>bs h1 h2. send_transfer junk is_local w st = Inr (bs, h1) \<and> receive_msg bs h1 = Inr (w, h2) \<and> mh_blocks h2 = mh_blocks h"
    if "is_sized w"
  proof (cases is_local)
    case True
    then show ?thesis using transfer_ok [OF st(2) [unfolded p] h(1) _ h(2) st(4) [unfolded p] img w] st(3) that p by simp
  next
    case False
    then show ?thesis using remote_ok [OF v(1) that] v by auto
  qed
  with st(1) v show ?thesis by blast
qed

theorem message_delivery_witness:
  "\<exists>st bs h1 h2. build_msg (\<lambda>_. []) 0 (W_ServerRowRequestReply 0 5 3 7 [1, 2]) \<lparr>mh_blocks = [], mh_next = 0\<rparr> = Inr st \<and>
     send_transfer (\<lambda>_. []) True (W_ServerRowRequestReply 0 5 3 7 [1, 2]) st = Inr (bs, h1) \<and>
     receive_msg bs h1 = Inr (W_ServerRowRequestReply 0 5 3 7 [1, 2], h2) \<and> mh_blocks h2 = []"
proof -
  have "heap_ok \<lparr>mh_blocks = [], mh_next = 0\<rparr>" by (simp add: heap_ok_def)
  moreover have "wire_ok 0 (W_ServerRowRequestReply 0 5 3 7 [1, 2])" by (simp add: is_i32_def msg_fields)
  ultimately show ?thesis
    using message_delivery [of "\<lparr>mh_blocks = [], mh_next = 0\<rparr>" 0 "W_ServerRowRequestReply 0 5 3 7 [1, 2]" "\<lambda>_. []" True] by auto
qed

section \<open>The places of the fields\<close>

definition place :: "'a field \<Rightarrow> nat \<times> nat" where
  "place f = (f_off f, f_size f)"

definition base_fields :: "(nat \<times> nat) list" where
  "base_fields = [place msg_type_field, place get_seq_num, place get_ack_num]"

text \<open>The accessors of each message, inherited ones first, and the size of its fixed part.\<close>

fun fields_of :: "MsgType \<Rightarrow> (nat \<times> nat) list" where
  "fields_of kClientConnect = base_fields @ [place ClientConnectMsg_client_id]"
| "fields_of kBgCreateTable = base_fields @ map place
     [BgCreateTableMsg_table_id, BgCreateTableMsg_staleness, BgCreateTableMsg_row_type, BgCreateTableMsg_row_capacity,
      BgCreateTableMsg_process_cache_capacity, BgCreateTableMsg_thread_cache_capacity, BgCreateTableMsg_oplog_capacity]"
| "fields_of kCreateTable = base_fields @ map place
     [CreateTableMsg_table_id, CreateTableMsg_staleness, CreateTableMsg_row_type, CreateTableMsg_row_capacity]"
| "fields_of kCreateTableReply = base_fields @ [place CreateTableReplyMsg_table_id]"
| "fields_of kRowRequest = base_fields @ map place [RowRequestMsg_table_id, RowRequestMsg_row_id, RowRequestMsg_clock]"
| "fields_of kServerRowRequestReply = base_fields @ [place get_avai_size] @
     map place [ServerRowRequestReplyMsg_table_id, ServerRowRequestReplyMsg_row_id, ServerRowRequestReplyMsg_clock] @
     [place ServerRowRequestReplyMsg_version, place ServerRowRequestReplyMsg_row_size]"
| "fields_of kClientSendOpLog = base_fields @
     [place get_avai_size, place ClientSendOpLogMsg_is_clock, place ClientSendOpLogMsg_client_id, place ClientSendOpLogMsg_version]"
| "fields_of kServerPushRow = base_fields @
     [place get_avai_size, place ServerPushRowMsg_clock, place ServerPushRowMsg_version, place ServerPushRowMsg_is_clock]"
| "fields_of kMemTransfer = base_fields @ [place MemTransferMsg_mem_ptr]"
| "fields_of _ = base_fields"

fun fixed_size_of :: "MsgType \<Rightarrow> nat" where
  "fixed_size_of kClientConnect = ClientConnectMsg_get_size"
| "fixed_size_of kBgCreateTable = BgCreateTableMsg_get_size"
| "fixed_size_of kCreateTable = CreateTableMsg_get_size"
| "fixed_size_of kCreateTableReply = CreateTableReplyMsg_get_size"
| "fixed_size_of kRowRequest = RowRequestMsg_get_size"
| "fixed_size_of kRowRequestReply = RowRequestReplyMsg_get_size"
| "fixed_size_of kServerRowRequestReply = ServerRowRequestReplyMsg_get_header_size"
| "fixed_size_of kClientSendOpLog = ClientSendOpLogMsg_get_header_size"
| "fixed_size_of kServerPushRow = ServerPushRowMsg_get_header_size"
| "fixed_size_of kMemTransfer = MemTransferMsg_get_size"
| "fixed_size_of _ = NumberedMsg_get_size"

lemmas msg_places = place_def base_fields_def msg_layout MemTransferMsg_mem_ptr_def MemTransferMsg_get_size_def

lemma fields_inside: "list_all (\<lambda>(p, n). p + n \<le> fixed_size_of ty) (fields_of ty)"
  by (cases ty) (simp_all add: msg_places)

lemma fields_apart: "sorted_wrt (\<lambda>(p, n) (p', n'). p + n \<le> p') (fields_of ty)"
  by (cases ty) (simp_all add: msg_places)

lemma mem_read_written: "mem_write m off bs = Inr m' \<Longrightarrow> mem_read m' off (length bs) = Inr bs"
  by (auto simp: mem_read_def mem_write_def min_def split: if_splits)

lemma mem_read_other:
  assumes "mem_write m off bs = Inr m'" and "off' + n \<le> off \<or> off + length bs \<le> off'"
  shows "mem_read m' off' n = mem_read m off' n"
proof -
  have "take n (drop off' m') = take n (drop off' m)" if "off' + n \<le> length m"
    using that assms(2) mem_write_length [OF assms(1)] by (intro nth_equalityI) (auto simp: mem_write_nth [OF assms(1)])
  then show ?thesis using mem_write_length [OF assms(1)] by (simp add: mem_read_def)
qed

text \<open>
  C36. The fields of every message type, the inherited ones included, lie inside its fixed part, and an assignment through
  one of its accessors is what that accessor then reads and changes what no other accessor of the message reads. The accessors are taken by their
  position in the class, so two accessors that shared an offset would be two different ones that overlap.
\<close>

theorem message_fields:
  assumes "i < length (fields_of ty)" "j < length (fields_of ty)" "i \<noteq> j"
    and "fields_of ty ! i = (p, n)" "fields_of ty ! j = (p', n')"
    and "mem_write m p bs = Inr m'" "length bs = n"
  shows "p + n \<le> fixed_size_of ty \<and> mem_read m' p n = Inr bs \<and> mem_read m' p' n' = mem_read m p' n'"
proof (intro conjI)
  show "p + n \<le> fixed_size_of ty" using fields_inside [of ty] assms(1,4) by (auto simp: list_all_length)
  show "mem_read m' p n = Inr bs" using mem_read_written [OF assms(6)] assms(7) by simp
  have "p' + n' \<le> p \<or> p + length bs \<le> p'"
    using sorted_wrt_nth_less [OF fields_apart, of i j ty] sorted_wrt_nth_less [OF fields_apart, of j i ty] assms(1-5,7)
    by (cases i j rule: linorder_cases) auto
  then show "mem_read m' p' n' = mem_read m p' n'" by (rule mem_read_other [OF assms(6)])
qed

theorem message_fields_witness:
  "\<exists>m'. mem_write (replicate 36 0) 12 [1, 0, 0, 0] = Inr m' \<and> mem_read m' 12 4 = Inr [1, 0, 0, 0] \<and> mem_read m' 16 4 = Inr [0, 0, 0, 0]"
proof -
  have f: "3 < length (fields_of kCreateTable)" "4 < length (fields_of kCreateTable)" "(3 :: nat) \<noteq> 4"
    "fields_of kCreateTable ! 3 = (12, 4)" "fields_of kCreateTable ! 4 = (16, 4)" by (simp_all add: msg_places)
  obtain m' where m': "mem_write (replicate 36 0) 12 [1, 0, 0, 0] = Inr m'" by (simp add: mem_write_def)
  have "mem_read (replicate 36 0) 16 4 = Inr [0, 0, 0, 0]" by (simp add: mem_read_def numeral_eq_Suc)
  with message_fields [OF f m'] m' show ?thesis by simp
qed

end
