(* ===== verification/Single_Node.thy ===== *)
theory Single_Node
imports Client_Table Server
begin

text \<open>
  The single-node variant of the parameter server (petuum_ps_sn): application threads of one process share the
  tables, without servers. Rows live in the process cache, or on disk for the out-of-core
  controller. The row data behind the shared pointer of a client row is kept in the client row: here no client row
  changes its pointer, since a row is inserted only under the lock under which it was not found.
\<close>

section \<open>Contexts\<close>

record thread_info_sn =
  tsi_entity_id :: int
  tsi_clock :: int
  tsi_clock_ahead :: int

definition ThreadContextSN_RegisterThread :: "int \<Rightarrow> thread_info_sn" where
  "ThreadContextSN_RegisterThread thread_id = \<lparr>tsi_entity_id = thread_id, tsi_clock = 0, tsi_clock_ahead = 0\<rparr>"

definition ThreadContextSN_Clock :: "thread_info_sn \<Rightarrow> thread_info_sn" where
  "ThreadContextSN_Clock i = i\<lparr>tsi_clock := tsi_clock i + 1\<rparr>"

definition dec_clock_ahead :: "thread_info_sn \<Rightarrow> thread_info_sn" where
  "dec_clock_ahead i = i\<lparr>tsi_clock_ahead := tsi_clock_ahead i - 1\<rparr>"

definition set_clock_ahead :: "int \<Rightarrow> thread_info_sn \<Rightarrow> thread_info_sn" where
  "set_clock_ahead n i = i\<lparr>tsi_clock_ahead := n\<rparr>"

record global_context_sn =
  gs_num_app_threads :: int
  gs_num_table_threads :: int
  gs_num_tables :: int
  gs_ooc_path_prefix :: string
  gs_consistency_model :: ConsistencyModel

definition GlobalContextSN_Init :: "int \<Rightarrow> int \<Rightarrow> int \<Rightarrow> string \<Rightarrow> ConsistencyModel \<Rightarrow> global_context_sn" where
  "GlobalContextSN_Init n_app n_table n_tables prefix model =
     \<lparr>gs_num_app_threads = n_app, gs_num_table_threads = n_table, gs_num_tables = n_tables, gs_ooc_path_prefix = prefix,
      gs_consistency_model = model\<rparr>"

definition kInitThreadIDOffset_sn :: int where
  "kInitThreadIDOffset_sn = 100"

definition get_local_id_min_sn :: int where
  "get_local_id_min_sn = 0"

section \<open>ThreadTableSN\<close>

record ('r, 'v) thread_table_sn =
  ts_row_storage :: "(int, 'r) amap"
  ts_oplog_map :: "(int, 'v row_oplog) amap"

definition ThreadTableSN :: "('r, 'v) thread_table_sn" where
  "ThreadTableSN = \<lparr>ts_row_storage = [], ts_oplog_map = []\<rparr>"

definition ts_GetRow :: "int \<Rightarrow> ('r, 'v) thread_table_sn \<Rightarrow> 'r option" where
  "ts_GetRow row ts = map_of (ts_row_storage ts) row"

definition ts_InsertRow ::
  "('r, 'v) row_ops \<Rightarrow> int \<Rightarrow> 'r \<Rightarrow> ('r, 'v) thread_table_sn \<Rightarrow> ('r, 'v) thread_table_sn result" where
  "ts_InsertRow ops row r ts =
     rbind (ro_Clone ops r) (\<lambda>r.
     rbind (case map_of (ts_oplog_map ts) row of
              None \<Rightarrow> Inr r
            | Some l \<Rightarrow> rbind (oplog_entries l) (foldM (\<lambda>r (c, u). ro_ApplyInc ops c u r) r)) (\<lambda>r.
     Inr (ts\<lparr>ts_row_storage := AList.update row r (ts_row_storage ts)\<rparr>)))"

definition ts_oplog :: "('r, 'v) row_ops \<Rightarrow> int \<Rightarrow> ('r, 'v) thread_table_sn \<Rightarrow> 'v row_oplog" where
  "ts_oplog ops row ts =
     (case map_of (ts_oplog_map ts) row of None \<Rightarrow> RowOpLog (ro_get_update_size ops) | Some l \<Rightarrow> l)"

definition ts_apply ::
  "int \<Rightarrow> ('r \<Rightarrow> 'r result) \<Rightarrow> ('r, 'v) thread_table_sn \<Rightarrow> ('r, 'v) thread_table_sn result" where
  "ts_apply row f ts =
     (case map_of (ts_row_storage ts) row of
        None \<Rightarrow> Inr ts
      | Some r \<Rightarrow> rbind (f r) (\<lambda>r. Inr (ts\<lparr>ts_row_storage := AList.update row r (ts_row_storage ts)\<rparr>)))"

definition ts_Inc ::
  "('r, 'v) row_ops \<Rightarrow> int \<Rightarrow> int \<Rightarrow> 'v \<Rightarrow> ('r, 'v) thread_table_sn \<Rightarrow> ('r, 'v) thread_table_sn result" where
  "ts_Inc ops row c delta ts =
     ts_apply row (ro_ApplyIncUnsafe ops c delta)
       (ts\<lparr>ts_oplog_map := AList.update row (add_update ops (c, delta) (ts_oplog ops row ts)) (ts_oplog_map ts)\<rparr>)"

definition ts_BatchInc ::
  "('r, 'v) row_ops \<Rightarrow> int \<Rightarrow> (int \<times> 'v) list \<Rightarrow> ('r, 'v) thread_table_sn \<Rightarrow> ('r, 'v) thread_table_sn result" where
  "ts_BatchInc ops row deltas ts =
     ts_apply row (ro_ApplyBatchIncUnsafe ops deltas)
       (ts\<lparr>ts_oplog_map := AList.update row (fold (add_update ops) deltas (ts_oplog ops row ts)) (ts_oplog_map ts)\<rparr>)"

text \<open>Access to the row of a client row through an accessor, and the end of a local accessor.\<close>

definition access_row :: "'r row_accessor \<Rightarrow> ('r \<Rightarrow> 'r result) \<Rightarrow> ('pm, 'r) process_storage \<Rightarrow> ('pm, 'r) process_storage result" where
  "access_row a f s =
     rbind (of_option (Undefined ''null client_row_ptr_'') (ra_client_row a)) (\<lambda>p.
     rbind (deref (ps_heap s) p) (\<lambda>cr.
     rbind (f (cr_data cr)) (\<lambda>r. Inr (s\<lparr>ps_heap := (ps_heap s)(p \<mapsto> cr\<lparr>cr_data := r\<rparr>)\<rparr>))))"

definition end_accessor :: "'r row_accessor \<Rightarrow> ('pm, 'r) process_storage \<Rightarrow> ('pm, 'r) process_storage result" where
  "end_accessor a s = rbind (accessor_Clear a (ps_heap s)) (\<lambda>(_, h). Inr (s\<lparr>ps_heap := h\<rparr>))"

text \<open>One row of the flush: its updates go to the row if that is in the process cache.\<close>

definition ts_flush_row ::
  "'pm storage_map \<Rightarrow> ('r, 'v) row_ops \<Rightarrow> ('pm, 'r) process_storage \<Rightarrow> int \<times> 'v row_oplog \<Rightarrow> ('pm, 'r) process_storage result" where
  "ts_flush_row ck ops s rl =
     (case rl of (row, l) \<Rightarrow>
      rbind (storage_Find ck row RowAccessor s) (\<lambda>(found, a, s).
      rbind (if found
             then rbind (oplog_entries l) (foldM (\<lambda>s (c, u). access_row a (ro_ApplyInc ops c u) s) s)
             else Inr s) (end_accessor a)))"

definition ts_FlushCache ::
  "'pm storage_map \<Rightarrow> ('r, 'v) row_ops \<Rightarrow> ('r, 'v) thread_table_sn \<Rightarrow> ('pm, 'r) process_storage \<Rightarrow>
   (('r, 'v) thread_table_sn \<times> ('pm, 'r) process_storage) result" where
  "ts_FlushCache ck ops ts s =
     rbind (foldM (ts_flush_row ck ops) s (ts_oplog_map ts)) (\<lambda>s.
     Inr (ts\<lparr>ts_oplog_map := [], ts_row_storage := []\<rparr>, s))"

section \<open>The table and its controllers\<close>

text \<open>
  The operations of the LevelDB database of an out-of-core table; a status that is not ok is \<open>None\<close>.
\<close>

record 'w kv_db =
  kv_Get :: "bytes \<Rightarrow> 'w \<Rightarrow> bytes option"
  kv_Put :: "bytes \<Rightarrow> bytes \<Rightarrow> 'w \<Rightarrow> 'w option"
  kv_Delete :: "bytes \<Rightarrow> 'w \<Rightarrow> 'w option"
  kv_Open :: "string \<Rightarrow> 'w option"

text \<open>
  \<open>sn_ooc\<close> is what the out-of-core controller adds: its database and \<open>on_disk_row_index_\<close>.
\<close>

record ('pm, 'r, 'v, 'w) client_table_sn =
  sn_table_id :: int
  sn_sample :: "('r, 'v) row_ops"
  sn_staleness :: int
  sn_row_capacity :: int
  sn_storage :: "('pm, 'r) process_storage"
  sn_next :: nat
  sn_thread_cache :: "(int, ('r, 'v) thread_table_sn) amap"
  sn_ooc :: "('w \<times> int list) option"

text \<open>Hash map, slot locks, other threads between the critical sections of an insertion, database, and memory of new buffers.\<close>

record ('pm, 'r, 'w) sn_env =
  ne_map :: "'pm storage_map"
  ne_fuel :: nat
  ne_try_lock :: "nat \<Rightarrow> nat \<Rightarrow> bool"
  ne_other :: "('pm, 'r) process_storage \<Rightarrow> ('pm, 'r) process_storage"
  ne_db :: "'w kv_db"
  ne_junk :: "nat \<Rightarrow> bytes"

definition MakeOOCDBPath :: "global_context_sn \<Rightarrow> int \<Rightarrow> string" where
  "MakeOOCDBPath g table_id = gs_ooc_path_prefix g @ ''/'' @ ''table.'' @ show_int table_id"

definition open_ooc :: "('pm, 'r, 'w) sn_env \<Rightarrow> global_context_sn \<Rightarrow> int \<Rightarrow> ('w \<times> int list) result" where
  "open_ooc e g table_id =
     rbind (of_option (CheckFailed ''status.ok()'') (kv_Open (ne_db e) (MakeOOCDBPath g table_id))) (\<lambda>db. Inr (db, []))"

definition ClientTableSN ::
  "('pm, 'r, 'w) sn_env \<Rightarrow> (int \<Rightarrow> ('r, 'v) row_ops result) \<Rightarrow> global_context_sn \<Rightarrow> int \<Rightarrow> ClientTableConfig \<Rightarrow>
   ('pm, 'r, 'v, 'w) client_table_sn result" where
  "ClientTableSN e reg g table_id config =
     rbind (reg (row_type (table_info config))) (\<lambda>ops.
     rbind (if gs_consistency_model g = LocalOOC then rbind (open_ooc e g table_id) (\<lambda>d. Inr (Some d)) else Inr None) (\<lambda>ooc.
     Inr \<lparr>sn_table_id = table_id, sn_sample = ops, sn_staleness = table_staleness (table_info config),
          sn_row_capacity = row_capacity (table_info config),
          sn_storage = ProcessStorage (ne_map e) (process_cache_capacity config) (\<lambda>_. None), sn_next = 0,
          sn_thread_cache = [], sn_ooc = ooc\<rparr>))"

definition sn_RegisterThread :: "int \<Rightarrow> ('pm, 'r, 'v, 'w) client_table_sn \<Rightarrow> ('pm, 'r, 'v, 'w) client_table_sn" where
  "sn_RegisterThread tid t =
     (if map_of (sn_thread_cache t) tid = None
      then t\<lparr>sn_thread_cache := AList.update tid ThreadTableSN (sn_thread_cache t)\<rparr> else t)"

text \<open>
  The wait for the slowest thread; \<open>obs\<close> are the values that the successive calls of
  \<open>get_min_clock\<close> return, as other threads tick in between.
\<close>

fun wait_min_clock :: "int \<Rightarrow> int list \<Rightarrow> thread_info_sn \<Rightarrow> thread_info_sn result" where
  "wait_min_clock staleness [] i = Inl (Blocked ''clock_cond_var_'')"
| "wait_min_clock staleness (mc # obs) i =
     (let clock_ahead = mc - tsi_clock i in
      if clock_ahead \<ge> - staleness then Inr (set_clock_ahead clock_ahead i) else wait_min_clock staleness obs i)"

definition CheckWaitClock :: "int \<Rightarrow> int list \<Rightarrow> thread_info_sn \<Rightarrow> thread_info_sn result" where
  "CheckWaitClock staleness obs i =
     (if tsi_clock_ahead i \<ge> - staleness then Inr i
      else
        case obs of
          [] \<Rightarrow> Inl (Blocked ''get_min_clock'')
        | mc # obs \<Rightarrow>
            let clock_ahead = mc - tsi_clock i in
            if clock_ahead \<ge> staleness then Inr (set_clock_ahead clock_ahead i)
            else wait_min_clock staleness obs i)"

text \<open>\<open>CreateInsertRow\<close> of the two controllers, under the lock of the row and under \<open>create_row_mtx_\<close>.\<close>

definition local_CreateInsertRow ::
  "('pm, 'r, 'w) sn_env \<Rightarrow> int \<Rightarrow> 'r row_accessor \<Rightarrow> ('pm, 'r, 'v, 'w) client_table_sn \<Rightarrow>
   ('r row_accessor \<times> ('pm, 'r, 'v, 'w) client_table_sn) result" where
  "local_CreateInsertRow e row a t =
     rbind (storage_Find (ne_map e) row a (sn_storage t)) (\<lambda>(found, a, s).
     if found then Inr (a, t\<lparr>sn_storage := s\<rparr>)
     else
       rbind (ro_Init (sn_sample t) (sn_row_capacity t) (ro_new (sn_sample t))) (\<lambda>r.
       let p = sn_next t; s = s\<lparr>ps_heap := (ps_heap s)(p \<mapsto> SSPClientRow 0 r)\<rparr> in
       rbind (storage_Insert_access (ne_fuel e) (ne_map e) (ne_try_lock e) (ne_other e) row p a True s) (\<lambda>(_, evicted, a, s).
       rbind (check (evicted = - 1) ''evicted_row_id == -1'') (\<lambda>_.
       Inr (a, t\<lparr>sn_storage := s, sn_next := p + 1\<rparr>)))))"

text \<open>The row as it is made anew or read back from disk, and the writing of an evicted row.\<close>

definition load_row ::
  "('pm, 'r, 'w) sn_env \<Rightarrow> ('r, 'v) row_ops \<Rightarrow> int \<Rightarrow> int \<Rightarrow> 'w \<times> int list \<Rightarrow> ('r \<times> 'w \<times> int list) result" where
  "load_row e ops capacity row disk =
     (case disk of (db, idx) \<Rightarrow>
      if row \<in> set idx then
        rbind (of_option (CheckFailed ''s.ok()'') (kv_Get (ne_db e) (i32_enc row) db)) (\<lambda>value.
        rbind (ro_Deserialize ops value (ro_new ops)) (\<lambda>(suc, r).
        rbind (check suc ''suc'') (\<lambda>_.
        rbind (of_option (CheckFailed ''s.ok()'') (kv_Delete (ne_db e) (i32_enc row) db)) (\<lambda>db.
        Inr (r, db, removeAll row idx)))))
      else rbind (ro_Init ops capacity (ro_new ops)) (\<lambda>r. Inr (r, db, idx)))"

definition store_evicted ::
  "('pm, 'r, 'w) sn_env \<Rightarrow> ('r, 'v) row_ops \<Rightarrow> int \<Rightarrow> 'r \<Rightarrow> 'w \<times> int list \<Rightarrow> ('w \<times> int list) result" where
  "store_evicted e ops row r disk =
     (case disk of (db, idx) \<Rightarrow>
      let serialized_size = ro_SerializedSize ops r in
      rbind (mem_write (take serialized_size (ne_junk e serialized_size @ replicate serialized_size 0)) 0 (ro_Serialize ops r)) (\<lambda>membuf.
      rbind (of_option (CheckFailed ''s.ok()'') (kv_Put (ne_db e) (i32_enc row) membuf db)) (\<lambda>db.
      Inr (db, List.insert row idx))))"

definition ooc_CreateInsertRow ::
  "('pm, 'r, 'w) sn_env \<Rightarrow> int \<Rightarrow> 'w \<times> int list \<Rightarrow> 'r row_accessor \<Rightarrow> ('pm, 'r, 'v, 'w) client_table_sn \<Rightarrow>
   ('r row_accessor \<times> ('pm, 'r, 'v, 'w) client_table_sn) result" where
  "ooc_CreateInsertRow e row disk a t =
     rbind (storage_Find (ne_map e) row a (sn_storage t)) (\<lambda>(found, a, s).
     if found then Inr (a, t\<lparr>sn_storage := s\<rparr>)
     else
       rbind (load_row e (sn_sample t) (sn_row_capacity t) row disk) (\<lambda>(r, disk).
       let p = sn_next t; s = s\<lparr>ps_heap := (ps_heap s)(p \<mapsto> SSPClientRow 0 r)\<rparr> in
       rbind (storage_Insert_evicted (ne_fuel e) (ne_map e) (ne_try_lock e) (ne_other e) row p a s) (\<lambda>(_, evicted, ep, a, s).
       if evicted = - 1 then Inr (a, t\<lparr>sn_storage := s, sn_next := p + 1, sn_ooc := Some disk\<rparr>)
       else
         rbind (of_option (Undefined ''evicted_row'') ep) (\<lambda>q.
         rbind (deref (ps_heap s) q) (\<lambda>cr.
         rbind (store_evicted e (sn_sample t) evicted (cr_data cr) disk) (\<lambda>disk.
         Inr (a, t\<lparr>sn_storage := s\<lparr>ps_heap := (ps_heap s)(q := None)\<rparr>, sn_next := p + 1, sn_ooc := Some disk\<rparr>)))))))"

definition CreateInsertRow ::
  "('pm, 'r, 'w) sn_env \<Rightarrow> int \<Rightarrow> 'r row_accessor \<Rightarrow> ('pm, 'r, 'v, 'w) client_table_sn \<Rightarrow>
   ('r row_accessor \<times> ('pm, 'r, 'v, 'w) client_table_sn) result" where
  "CreateInsertRow e row a t =
     (case sn_ooc t of None \<Rightarrow> local_CreateInsertRow e row a t | Some disk \<Rightarrow> ooc_CreateInsertRow e row disk a t)"

text \<open>\<open>process_storage_.Find\<close>, and \<open>CreateInsertRow\<close> if that fails.\<close>

definition find_or_create ::
  "('pm, 'r, 'w) sn_env \<Rightarrow> int \<Rightarrow> 'r row_accessor \<Rightarrow> ('pm, 'r, 'v, 'w) client_table_sn \<Rightarrow>
   ('r row_accessor \<times> ('pm, 'r, 'v, 'w) client_table_sn) result" where
  "find_or_create e row a t =
     rbind (storage_Find (ne_map e) row a (sn_storage t)) (\<lambda>(found, a, s).
     let t = t\<lparr>sn_storage := s\<rparr> in if found then Inr (a, t) else CreateInsertRow e row a t)"

definition sn_Get ::
  "('pm, 'r, 'w) sn_env \<Rightarrow> int list \<Rightarrow> thread_info_sn \<Rightarrow> int \<Rightarrow> 'r row_accessor \<Rightarrow> ('pm, 'r, 'v, 'w) client_table_sn \<Rightarrow>
   (thread_info_sn \<times> 'r row_accessor \<times> ('pm, 'r, 'v, 'w) client_table_sn) result" where
  "sn_Get e obs i row a t =
     rbind (CheckWaitClock (sn_staleness t) obs i) (\<lambda>i.
     rbind (find_or_create e row a t) (\<lambda>(a, t). Inr (i, a, t)))"

definition sn_change ::
  "('pm, 'r, 'w) sn_env \<Rightarrow> int \<Rightarrow> ('r \<Rightarrow> 'r result) \<Rightarrow> ('pm, 'r, 'v, 'w) client_table_sn \<Rightarrow> ('pm, 'r, 'v, 'w) client_table_sn result" where
  "sn_change e row f t =
     rbind (find_or_create e row RowAccessor t) (\<lambda>(a, t).
     rbind (access_row a f (sn_storage t)) (\<lambda>s.
     rbind (end_accessor a s) (\<lambda>s. Inr (t\<lparr>sn_storage := s\<rparr>))))"

definition sn_Inc ::
  "('pm, 'r, 'w) sn_env \<Rightarrow> int \<Rightarrow> int \<Rightarrow> 'v \<Rightarrow> ('pm, 'r, 'v, 'w) client_table_sn \<Rightarrow> ('pm, 'r, 'v, 'w) client_table_sn result" where
  "sn_Inc e row c delta t = sn_change e row (ro_ApplyInc (sn_sample t) c delta) t"

definition sn_BatchInc ::
  "('pm, 'r, 'w) sn_env \<Rightarrow> int \<Rightarrow> (int \<times> 'v) list \<Rightarrow> ('pm, 'r, 'v, 'w) client_table_sn \<Rightarrow> ('pm, 'r, 'v, 'w) client_table_sn result" where
  "sn_BatchInc e row deltas t = sn_change e row (ro_ApplyBatchInc (sn_sample t) deltas) t"

definition sn_cache :: "int \<Rightarrow> ('pm, 'r, 'v, 'w) client_table_sn \<Rightarrow> ('r, 'v) thread_table_sn result" where
  "sn_cache tid t = of_option (Undefined ''null thread_cache_'') (map_of (sn_thread_cache t) tid)"

definition sn_set_cache :: "int \<Rightarrow> ('r, 'v) thread_table_sn \<Rightarrow> ('pm, 'r, 'v, 'w) client_table_sn \<Rightarrow> ('pm, 'r, 'v, 'w) client_table_sn" where
  "sn_set_cache tid ts t = t\<lparr>sn_thread_cache := AList.update tid ts (sn_thread_cache t)\<rparr>"

text \<open>What a \<open>ThreadRowAccessor\<close> points to: the row in the thread cache, or the row of a client row.\<close>

datatype row_ref = CachedRow | ProcessRow nat

definition sn_ThreadGet ::
  "('pm, 'r, 'w) sn_env \<Rightarrow> int list \<Rightarrow> thread_info_sn \<Rightarrow> int \<Rightarrow> ('pm, 'r, 'v, 'w) client_table_sn \<Rightarrow>
   (thread_info_sn \<times> row_ref \<times> ('pm, 'r, 'v, 'w) client_table_sn) result" where
  "sn_ThreadGet e obs i row t =
     rbind (sn_cache (tsi_entity_id i) t) (\<lambda>ts.
     if ts_GetRow row ts \<noteq> None then Inr (i, CachedRow, t)
     else
       rbind (CheckWaitClock (sn_staleness t) obs i) (\<lambda>i.
       rbind (find_or_create e row RowAccessor t) (\<lambda>(a, t).
       rbind (of_option (Undefined ''null client_row_ptr_'') (ra_client_row a)) (\<lambda>p.
       rbind (deref (ps_heap (sn_storage t)) p) (\<lambda>cr.
       rbind (ts_InsertRow (sn_sample t) row (cr_data cr) ts) (\<lambda>ts.
       rbind (end_accessor a (sn_storage t)) (\<lambda>s.
       Inr (i, ProcessRow p, sn_set_cache (tsi_entity_id i) ts (t\<lparr>sn_storage := s\<rparr>)))))))))"

definition sn_ThreadInc ::
  "int \<Rightarrow> int \<Rightarrow> int \<Rightarrow> 'v \<Rightarrow> ('pm, 'r, 'v, 'w) client_table_sn \<Rightarrow> ('pm, 'r, 'v, 'w) client_table_sn result" where
  "sn_ThreadInc tid row c delta t =
     rbind (sn_cache tid t) (\<lambda>ts. rbind (ts_Inc (sn_sample t) row c delta ts) (\<lambda>ts. Inr (sn_set_cache tid ts t)))"

definition sn_ThreadBatchInc ::
  "int \<Rightarrow> int \<Rightarrow> (int \<times> 'v) list \<Rightarrow> ('pm, 'r, 'v, 'w) client_table_sn \<Rightarrow> ('pm, 'r, 'v, 'w) client_table_sn result" where
  "sn_ThreadBatchInc tid row deltas t =
     rbind (sn_cache tid t) (\<lambda>ts. rbind (ts_BatchInc (sn_sample t) row deltas ts) (\<lambda>ts. Inr (sn_set_cache tid ts t)))"

text \<open>\<open>FlushThreadCache\<close> and \<open>Clock\<close> have the same body.\<close>

definition sn_FlushThreadCache ::
  "('pm, 'r, 'w) sn_env \<Rightarrow> int \<Rightarrow> ('pm, 'r, 'v, 'w) client_table_sn \<Rightarrow> ('pm, 'r, 'v, 'w) client_table_sn result" where
  "sn_FlushThreadCache e tid t =
     rbind (sn_cache tid t) (\<lambda>ts.
     rbind (ts_FlushCache (ne_map e) (sn_sample t) ts (sn_storage t)) (\<lambda>(ts, s).
     Inr (sn_set_cache tid ts (t\<lparr>sn_storage := s\<rparr>))))"

section \<open>TableGroupSN\<close>

text \<open>\<open>tgs_infos\<close> are the thread-specific infos, \<open>tgs_clock\<close> is the global vector clock.\<close>

record 't table_group_sn =
  tgs_ctx :: global_context_sn
  tgs_tables :: "(int \<times> 't) list"
  tgs_num_registered :: int
  tgs_max_staleness :: int
  tgs_clock :: vector_clock
  tgs_infos :: "(int, thread_info_sn) amap"

definition TableGroupSN :: "TableGroupConfig \<Rightarrow> bool \<Rightarrow> int \<times> 't table_group_sn" where
  "TableGroupSN cfg table_access =
     (let n_app = cfg_num_local_app_threads cfg;
          n_table = (if table_access then n_app else n_app - 1);
          g = GlobalContextSN_Init n_app n_table (cfg_num_tables cfg) (cfg_ooc_path_prefix cfg) (cfg_consistency_model cfg);
          init_id = get_local_id_min_sn + kInitThreadIDOffset_sn in
      (init_id,
       \<lparr>tgs_ctx = g, tgs_tables = [], tgs_num_registered = 1, tgs_max_staleness = 0,
        tgs_clock = (if table_access then AddClock init_id 0 VectorClock0 else VectorClock0),
        tgs_infos = [(init_id, ThreadContextSN_RegisterThread init_id)]\<rparr>))"

definition tgs_CreateTable ::
  "('pm, 'r, 'w) sn_env \<Rightarrow> (int \<Rightarrow> ('r, 'v) row_ops result) \<Rightarrow> int \<Rightarrow> int \<Rightarrow> ClientTableConfig \<Rightarrow>
   ('pm, 'r, 'v, 'w) client_table_sn table_group_sn \<Rightarrow> ('pm, 'r, 'v, 'w) client_table_sn table_group_sn result" where
  "tgs_CreateTable e reg tid table_id config tg =
     rbind (ClientTableSN e reg (tgs_ctx tg) table_id config) (\<lambda>t.
     Inr (tg\<lparr>tgs_max_staleness := max (tgs_max_staleness tg) (table_staleness (table_info config)),
             tgs_tables := oupd table_id (sn_RegisterThread tid t) (tgs_tables tg)\<rparr>))"

definition tgs_RegisterThread ::
  "('pm, 'r, 'v, 'w) client_table_sn table_group_sn \<Rightarrow> int \<times> ('pm, 'r, 'v, 'w) client_table_sn table_group_sn" where
  "tgs_RegisterThread tg =
     (let tid = get_local_id_min_sn + kInitThreadIDOffset_sn + tgs_num_registered tg in
      (tid, tg\<lparr>tgs_num_registered := tgs_num_registered tg + 1,
        tgs_infos := AList.update tid (ThreadContextSN_RegisterThread tid) (tgs_infos tg),
        tgs_clock := AddClock tid 0 (tgs_clock tg),
        tgs_tables := map (\<lambda>(k, t). (k, sn_RegisterThread tid t)) (tgs_tables tg)\<rparr>))"

definition tgs_info :: "int \<Rightarrow> 't table_group_sn \<Rightarrow> thread_info_sn result" where
  "tgs_info tid tg = of_option (Undefined ''null thr_info_'') (map_of (tgs_infos tg) tid)"

definition tgs_set_info :: "int \<Rightarrow> thread_info_sn \<Rightarrow> 't table_group_sn \<Rightarrow> 't table_group_sn" where
  "tgs_set_info tid i tg = tg\<lparr>tgs_infos := AList.update tid i (tgs_infos tg)\<rparr>"

definition tgs_GetTableOrDie :: "int \<Rightarrow> 't table_group_sn \<Rightarrow> 't result" where
  "tgs_GetTableOrDie table_id tg = of_option (CheckFailed ''iter != tables_.end()'') (map_of (tgs_tables tg) table_id)"

text \<open>A clock of the calling thread; waking up the waiting threads is not part of the state.\<close>

definition tgs_Clock :: "int \<Rightarrow> 't table_group_sn \<Rightarrow> 't table_group_sn result" where
  "tgs_Clock tid tg =
     rbind (tgs_info tid tg) (\<lambda>i.
     let tg = tgs_set_info tid (dec_clock_ahead (ThreadContextSN_Clock i)) tg;
         (_, vc) = Tick (tsi_entity_id i) (tgs_clock tg) in
     Inr (tg\<lparr>tgs_clock := vc\<rparr>))"

definition tgs_GlobalBarrier :: "int \<Rightarrow> 't table_group_sn \<Rightarrow> 't table_group_sn result" where
  "tgs_GlobalBarrier tid tg = foldM (\<lambda>tg _. tgs_Clock tid tg) tg [0..tgs_max_staleness tg]"

end
