(* ===== verification/Single_Node_Clocks.thy ===== *)
theory Single_Node_Clocks
imports Single_Node
begin

text \<open>
  Clocks of the threads of the single-node variant, and the wait of a thread that is too far ahead.  Threads are
  interleaved step by step: a thread in \<open>CheckWaitClock\<close> reads the minimum clock again and again while the
  other threads tick.
\<close>

section \<open>Threads at work\<close>

text \<open>The table group, and for each thread in \<open>CheckWaitClock\<close> the staleness and the minimum clocks it has read.\<close>

type_synonym 't sn_threads = "'t table_group_sn \<times> (int \<rightharpoonup> int \<times> int list)"

inductive sn_step :: "'t sn_threads \<Rightarrow> 't sn_threads \<Rightarrow> bool" where
  sn_tick: "calls tid = None \<Longrightarrow> tgs_Clock tid tg = Inr tg' \<Longrightarrow> sn_step (tg, calls) (tg', calls)"
| sn_call: "calls tid = None \<Longrightarrow> tgs_info tid tg = Inr i \<Longrightarrow> 0 \<le> st \<Longrightarrow> sn_step (tg, calls) (tg, calls(tid \<mapsto> (st, [])))"
| sn_read: "calls tid = Some (st, obs) \<Longrightarrow> tgs_info tid tg = Inr i \<Longrightarrow> CheckWaitClock st obs i = Inl err \<Longrightarrow>
    sn_step (tg, calls) (tg, calls(tid \<mapsto> (st, obs @ [get_min_clock (tgs_clock tg)])))"
| sn_return: "calls tid = Some (st, obs) \<Longrightarrow> tgs_info tid tg = Inr i \<Longrightarrow> CheckWaitClock st obs i = Inr i' \<Longrightarrow>
    sn_step (tg, calls) (tgs_set_info tid i' tg, calls(tid := None))"

text \<open>The init thread and \<open>n\<close> more threads have registered.\<close>

definition sn_start :: "TableGroupConfig \<Rightarrow> nat \<Rightarrow> ('pm, 'r, 'v, 'w) client_table_sn sn_threads" where
  "sn_start cfg n = (((\<lambda>tg. snd (tgs_RegisterThread tg)) ^^ n) (snd (TableGroupSN cfg True)), Map.empty)"

section \<open>Invariant\<close>

definition clocks_ok :: "'t table_group_sn \<Rightarrow> bool" where
  "clocks_ok tg \<longleftrightarrow> vc_ok (tgs_clock tg) \<and> dom (map_of (tgs_infos tg)) = dom (clocks (tgs_clock tg)) \<and>
     (\<forall>tid i. map_of (tgs_infos tg) tid = Some i \<longrightarrow> tsi_entity_id i = tid \<and> clocks (tgs_clock tg) tid = Some (tsi_clock i) \<and>
        tsi_clock_ahead i \<le> get_min_clock (tgs_clock tg) - tsi_clock i)"

definition calls_ok :: "int \<Rightarrow> (int \<rightharpoonup> int \<times> int list) \<Rightarrow> bool" where
  "calls_ok mc calls \<longleftrightarrow> (\<forall>tid st obs. calls tid = Some (st, obs) \<longrightarrow> 0 \<le> st \<and> (\<forall>x \<in> set obs. x \<le> mc))"

lemma wait_min_clock_seen:
  "wait_min_clock st obs i = Inr i' \<Longrightarrow> \<exists>mc \<in> set obs. i' = set_clock_ahead (mc - tsi_clock i) i \<and> - st \<le> mc - tsi_clock i"
  by (induction st obs i rule: wait_min_clock.induct) (auto simp: Let_def split: if_splits)

lemma CheckWaitClock_seen:
  assumes "CheckWaitClock st obs i = Inr i'" "0 \<le> st"
  shows "- st \<le> tsi_clock_ahead i' \<and> (i' = i \<or> (\<exists>mc \<in> set obs. i' = set_clock_ahead (mc - tsi_clock i) i))"
  using assms wait_min_clock_seen [of st "tl obs" i i']
  by (fastforce simp: CheckWaitClock_def set_clock_ahead_def Let_def split: if_splits list.splits)

text \<open>A minimum clock that is high enough ends the wait.\<close>

lemma wait_min_clock_ends:
  "mc \<in> set obs \<Longrightarrow> - st \<le> mc - tsi_clock i \<Longrightarrow> \<exists>i'. wait_min_clock st obs i = Inr i'"
  by (induction st obs i rule: wait_min_clock.induct) (auto simp: Let_def)

lemma CheckWaitClock_ends:
  "mc \<in> set (tl obs) \<Longrightarrow> - st \<le> mc - tsi_clock i \<Longrightarrow> \<exists>i'. CheckWaitClock st obs i = Inr i'"
  using wait_min_clock_ends [of mc "tl obs" st i] by (cases obs) (auto simp: CheckWaitClock_def Let_def)

lemma tgs_Clock_ok:
  assumes ok: "clocks_ok tg" and c: "tgs_Clock tid tg = Inr tg'"
  shows "clocks_ok tg' \<and> get_min_clock (tgs_clock tg) \<le> get_min_clock (tgs_clock tg')"
proof -
  obtain i where i: "map_of (tgs_infos tg) tid = Some i" using c by (auto simp: tgs_Clock_def tgs_info_def rbind_eq_Inr of_option_def split: option.splits)
  let ?vc = "snd (Tick tid (tgs_clock tg))" and ?i = "dec_clock_ahead (ThreadContextSN_Clock i)"
  have f: "vc_ok (tgs_clock tg)" "tsi_entity_id i = tid" "clocks (tgs_clock tg) tid = Some (tsi_clock i)"
    "tsi_clock_ahead i \<le> get_min_clock (tgs_clock tg) - tsi_clock i" using ok i by (auto simp: clocks_ok_def)
  have tg': "tg' = tg\<lparr>tgs_infos := AList.update tid ?i (tgs_infos tg), tgs_clock := ?vc\<rparr>"
    using c i f(2) by (auto simp: tgs_Clock_def tgs_info_def tgs_set_info_def split: prod.splits)
  have cl: "vc_ok ?vc" "clocks ?vc = (clocks (tgs_clock tg))(tid \<mapsto> tsi_clock i + 1)" "get_min_clock (tgs_clock tg) \<le> get_min_clock ?vc"
    using vc.tick_inv [OF f(1,3)] vc.tick_clk [OF f(1,3)] vc.tick_minc [OF f(1,3)] by auto
  have "tsi_entity_id j = x \<and> clocks ?vc x = Some (tsi_clock j) \<and> tsi_clock_ahead j \<le> get_min_clock ?vc - tsi_clock j"
    if "map_of (tgs_infos tg') x = Some j" for x j
  proof (cases "x = tid")
    case True
    then have "j = ?i" using that tg' by (simp add: update_conv')
    then show ?thesis using True f cl by (simp add: dec_clock_ahead_def ThreadContextSN_Clock_def)
  next
    case False
    then have "map_of (tgs_infos tg) x = Some j" using that tg' by (simp add: update_conv')
    then have "tsi_entity_id j = x" "clocks (tgs_clock tg) x = Some (tsi_clock j)"
      "tsi_clock_ahead j \<le> get_min_clock (tgs_clock tg) - tsi_clock j" using ok by (auto simp: clocks_ok_def)
    then show ?thesis using False cl(2,3) by simp
  qed
  moreover have "dom (map_of (tgs_infos tg')) = dom (clocks ?vc)" using ok tg' cl(2) i by (auto simp: clocks_ok_def update_conv' dom_def)
  ultimately show ?thesis using tg' cl by (simp add: clocks_ok_def)
qed

text \<open>A thread that registers before any clock has moved.\<close>

definition fresh_group :: "'t table_group_sn \<Rightarrow> bool" where
  "fresh_group tg \<longleftrightarrow> clocks_ok tg \<and> get_min_clock (tgs_clock tg) = 0 \<and> dom (map_of (tgs_infos tg)) \<subseteq> {..<100 + tgs_num_registered tg}"

lemma TableGroupSN_fresh: "fresh_group (snd (TableGroupSN cfg True))"
proof -
  have "vc_ok (AddClock 100 0 VectorClock0)" by (rule AddClock_ok [OF VectorClock0_ok]) (simp_all add: VectorClock0_def clocks_def)
  moreover have "clocks (AddClock 100 0 VectorClock0) = [100 \<mapsto> 0]" "min_clock (AddClock 100 0 VectorClock0) = 0"
    by (simp_all add: AddClock_clocks AddClock_min) (simp_all add: VectorClock0_def clocks_def)
  ultimately show ?thesis
    by (auto simp: TableGroupSN_def fresh_group_def clocks_ok_def Let_def get_local_id_min_sn_def kInitThreadIDOffset_sn_def get_min_clock_def
        ThreadContextSN_RegisterThread_def)
qed

lemma tgs_RegisterThread_fresh: "fresh_group tg \<Longrightarrow> fresh_group (snd (tgs_RegisterThread tg))"
proof -
  assume f: "fresh_group tg"
  let ?tid = "100 + tgs_num_registered tg" and ?tg = "snd (tgs_RegisterThread tg)"
  have ok: "clocks_ok tg" "min_clock (tgs_clock tg) = 0" and d: "dom (map_of (tgs_infos tg)) \<subseteq> {..<?tid}"
    using f by (simp_all add: fresh_group_def get_min_clock_def)
  have tg: "tgs_clock ?tg = AddClock ?tid 0 (tgs_clock tg)" "tgs_infos ?tg = AList.update ?tid (ThreadContextSN_RegisterThread ?tid) (tgs_infos tg)"
    "tgs_num_registered ?tg = tgs_num_registered tg + 1"
    by (simp_all add: tgs_RegisterThread_def Let_def get_local_id_min_sn_def kInitThreadIDOffset_sn_def)
  have "clocks (tgs_clock tg) ?tid = None" using ok(1) d by (auto simp: clocks_ok_def dom_def)
  then have "vc_ok (tgs_clock ?tg)" using ok(1) tg(1) by (simp add: AddClock_ok clocks_ok_def)
  moreover have c: "clocks (tgs_clock ?tg) = (clocks (tgs_clock tg))(?tid \<mapsto> 0)" "min_clock (tgs_clock ?tg) = 0"
    using tg(1) ok(2) by (simp_all add: AddClock_clocks AddClock_min)
  ultimately have "clocks_ok ?tg" using ok tg(2) by (auto simp: clocks_ok_def update_conv' get_min_clock_def ThreadContextSN_RegisterThread_def)
  moreover have "dom (map_of (tgs_infos ?tg)) \<subseteq> {..<?tid + 1}" using d tg(2) by (auto simp: update_conv')
  ultimately show ?thesis using c(2) tg(3) by (simp add: fresh_group_def get_min_clock_def add.assoc)
qed

lemma sn_start_ok: "fresh_group (fst (sn_start cfg n))"
  unfolding sn_start_def fst_conv by (induction n) (simp_all add: TableGroupSN_fresh tgs_RegisterThread_fresh)

lemma calls_ok_mono: "calls_ok mc calls \<Longrightarrow> mc \<le> mc' \<Longrightarrow> calls_ok mc' calls"
  by (fastforce simp: calls_ok_def)

lemma tgs_info_Inr: "tgs_info tid tg = Inr i \<longleftrightarrow> map_of (tgs_infos tg) tid = Some i"
  by (auto simp: tgs_info_def of_option_def split: option.splits)

lemma return_ok:
  assumes ok: "clocks_ok tg" "calls_ok (get_min_clock (tgs_clock tg)) calls" "calls tid = Some (st, obs)"
    and i: "map_of (tgs_infos tg) tid = Some i" and c: "CheckWaitClock st obs i = Inr i'"
  shows "tsi_clock i' = tsi_clock i \<and> tsi_entity_id i' = tid \<and> - st \<le> tsi_clock_ahead i' \<and> tsi_clock_ahead i' \<le> get_min_clock (tgs_clock tg) - tsi_clock i"
proof -
  have st: "0 \<le> st" and le: "\<forall>x \<in> set obs. x \<le> get_min_clock (tgs_clock tg)" using ok(2,3) by (auto simp: calls_ok_def)
  have "tsi_entity_id i = tid" "tsi_clock_ahead i \<le> get_min_clock (tgs_clock tg) - tsi_clock i" using ok(1) i by (auto simp: clocks_ok_def)
  with CheckWaitClock_seen [OF c st] le show ?thesis by (auto simp: set_clock_ahead_def)
qed

definition sn_ok :: "'t sn_threads \<Rightarrow> bool" where
  "sn_ok s \<longleftrightarrow> clocks_ok (fst s) \<and> calls_ok (get_min_clock (tgs_clock (fst s))) (snd s)"

lemma sn_step_ok: "sn_step s s' \<Longrightarrow> sn_ok s \<Longrightarrow> sn_ok s'"
proof (induction rule: sn_step.induct)
  case (sn_tick calls tid tg tg')
  then show ?case using tgs_Clock_ok [of tg tid tg'] calls_ok_mono by (auto simp: sn_ok_def)
next
  case (sn_return calls tid st obs tg i i')
  then have ok: "clocks_ok tg" "calls_ok (get_min_clock (tgs_clock tg)) calls" and i: "map_of (tgs_infos tg) tid = Some i"
    by (simp_all add: sn_ok_def tgs_info_Inr)
  have "clocks_ok (tgs_set_info tid i' tg)"
    using ok(1) i return_ok [OF ok sn_return.hyps(1) i sn_return.hyps(3)]
    by (auto simp: clocks_ok_def tgs_set_info_def update_conv')
  moreover have "calls_ok (get_min_clock (tgs_clock tg)) (calls(tid := None))" using ok(2) by (simp add: calls_ok_def)
  ultimately show ?case by (simp add: sn_ok_def tgs_set_info_def)
qed (auto simp: sn_ok_def calls_ok_def split: if_splits)

lemma fresh_sn_ok: "fresh_group (fst s) \<Longrightarrow> snd s = Map.empty \<Longrightarrow> sn_ok s"
  by (simp add: sn_ok_def calls_ok_def fresh_group_def)

lemma reach_ok: "sn_step\<^sup>*\<^sup>* (sn_start cfg n) s \<Longrightarrow> sn_ok s"
proof (induction rule: rtranclp_induct)
  case base
  show ?case by (rule fresh_sn_ok [OF sn_start_ok]) (simp add: sn_start_def)
qed (rule sn_step_ok)

text \<open>
  C12. Bounded staleness without servers. However the clocks and waits of the registered threads are interleaved, a thread
  with clock \<open>c\<close> that returns from \<open>CheckWaitClock\<close> for a table of staleness \<open>s\<close> leaves it only when
  every thread has reached clock \<open>c - s\<close>, whether it trusted its cached lead over the slowest thread or read the minimum clock; and once every
  thread has reached that clock, the thread returns after at most two more looks at the minimum clock.
\<close>

theorem sn_bounded_staleness:
  assumes run: "sn_step\<^sup>*\<^sup>* (sn_start cfg n) (tg, calls)" and call: "calls tid = Some (st, obs)" and i: "map_of (tgs_infos tg) tid = Some i"
  shows "(\<forall>i'. CheckWaitClock st obs i = Inr i' \<longrightarrow> (\<forall>t j. map_of (tgs_infos tg) t = Some j \<longrightarrow> tsi_clock i - st \<le> tsi_clock j)) \<and>
    ((\<forall>t j. map_of (tgs_infos tg) t = Some j \<longrightarrow> tsi_clock i - st \<le> tsi_clock j) \<longrightarrow>
      (\<exists>i'. CheckWaitClock st (obs @ [get_min_clock (tgs_clock tg), get_min_clock (tgs_clock tg)]) i = Inr i'))"
proof -
  have ok: "clocks_ok tg" "calls_ok (get_min_clock (tgs_clock tg)) calls" using reach_ok [OF run] by (simp_all add: sn_ok_def)
  have vc: "vc_ok (tgs_clock tg)" "clocks (tgs_clock tg) tid = Some (tsi_clock i)" using ok(1) i by (auto simp: clocks_ok_def)
  have le: "get_min_clock (tgs_clock tg) \<le> tsi_clock j" if "map_of (tgs_infos tg) t = Some j" for t j
    using that ok(1) vc.minc_le [OF vc(1), of t "tsi_clock j"] by (auto simp: clocks_ok_def)
  have "tsi_clock i - st \<le> tsi_clock j" if "CheckWaitClock st obs i = Inr i'" "map_of (tgs_infos tg) t = Some j" for i' t j
    using return_ok [OF ok call i that(1)] le [OF that(2)] by linarith
  moreover have "\<exists>i'. CheckWaitClock st (obs @ [get_min_clock (tgs_clock tg), get_min_clock (tgs_clock tg)]) i = Inr i'"
    if a: "\<forall>t j. map_of (tgs_infos tg) t = Some j \<longrightarrow> tsi_clock i - st \<le> tsi_clock j"
  proof -
    have "tsi_clock i - st \<le> get_min_clock (tgs_clock tg)"
    proof (rule vc.minc_geI [OF vc])
      fix t w assume w: "clocks (tgs_clock tg) t = Some w"
      then obtain j where "map_of (tgs_infos tg) t = Some j" using ok(1) unfolding clocks_ok_def by (metis domD domI)
      then show "tsi_clock i - st \<le> w" using a ok(1) w by (auto simp: clocks_ok_def)
    qed
    then show ?thesis by (intro CheckWaitClock_ends [of "get_min_clock (tgs_clock tg)"]) (cases obs; simp)+
  qed
  ultimately show ?thesis by blast
qed

text \<open>Two threads. The first ticks and waits for the other one, which ticks then.\<close>

definition demo_sn_cfg :: TableGroupConfig where
  "demo_sn_cfg = \<lparr>cfg_stats_path = [], cfg_num_total_server_threads = 0, cfg_num_tables = 0, cfg_num_total_clients = 1, cfg_num_total_bg_threads = 0,
     cfg_num_local_server_threads = 0, cfg_num_local_app_threads = 2, cfg_num_local_bg_threads = 0, cfg_server_ids = [], cfg_host_map = [],
     cfg_client_id = 0, cfg_aggressive_clock = False, cfg_consistency_model = LocalOOC, cfg_aggressive_cpu = 0, cfg_server_ring_size = 0,
     cfg_snapshot_clock = - 1, cfg_resume_clock = - 1, cfg_snapshot_dir = [], cfg_resume_dir = [], cfg_ooc_path_prefix = []\<rparr>"

definition demo_group :: "(int * int) list \<Rightarrow> (unit, unit, unit, unit) client_table_sn table_group_sn" where
  "demo_group cs = (fst (sn_start demo_sn_cfg 1))
     \<lparr>tgs_infos := map (\<lambda>(t, c). (t, \<lparr>tsi_entity_id = t, tsi_clock = c, tsi_clock_ahead = - c\<rparr>)) cs,
      tgs_clock := \<lparr>vec_clock = cs, min_clock = Min (set (map snd cs))\<rparr>\<rparr>"

theorem sn_bounded_staleness_witness:
  "sn_step\<^sup>*\<^sup>* (sn_start demo_sn_cfg 1) (demo_group [(100, 1), (101, 1)], [100 \<mapsto> (0, [])]) \<and>
   (\<exists>i'. CheckWaitClock 0 [1, 1] \<lparr>tsi_entity_id = 100, tsi_clock = 1, tsi_clock_ahead = - 1\<rparr> = Inr i')"
proof -
  let ?i = "\<lparr>tsi_entity_id = 100, tsi_clock = 1, tsi_clock_ahead = - 1\<rparr>"
  have 0: "sn_start demo_sn_cfg 1 = (demo_group [(100, 0), (101, 0)], Map.empty)"
    by (simp add: demo_group_def sn_start_def TableGroupSN_def tgs_RegisterThread_def demo_sn_cfg_def Let_def get_local_id_min_sn_def
        kInitThreadIDOffset_sn_def ThreadContextSN_RegisterThread_def AddClock_def VectorClock0_def)
  have t: "tgs_Clock 100 (demo_group [(100, 0), (101, 0)]) = Inr (demo_group [(100, 1), (101, 0)])"
    "tgs_Clock 101 (demo_group [(100, 1), (101, 0)]) = Inr (demo_group [(100, 1), (101, 1)])"
    by (simp_all add: demo_group_def tgs_Clock_def tgs_info_def tgs_set_info_def dec_clock_ahead_def ThreadContextSN_Clock_def Tick_def
        IsUniqueMin_def index_insert_def incr_clock_def Let_def)
  have i: "tgs_info 100 (demo_group [(100, 1), (101, 0)]) = Inr ?i" "map_of (tgs_infos (demo_group [(100, 1), (101, 1)])) 100 = Some ?i"
    by (simp_all add: demo_group_def tgs_info_def)
  have s1: "sn_step (sn_start demo_sn_cfg 1) (demo_group [(100, 1), (101, 0)], Map.empty)" unfolding 0 by (rule sn_tick [OF _ t(1)]) simp
  have s2: "sn_step (demo_group [(100, 1), (101, 0)], Map.empty) (demo_group [(100, 1), (101, 0)], [100 \<mapsto> (0, [])])" by (rule sn_call [OF _ i(1)]) simp_all
  have s3: "sn_step (demo_group [(100, 1), (101, 0)], [100 \<mapsto> (0, [])]) (demo_group [(100, 1), (101, 1)], [100 \<mapsto> (0, [])])" by (rule sn_tick [OF _ t(2)]) simp
  have run: "sn_step\<^sup>*\<^sup>* (sn_start demo_sn_cfg 1) (demo_group [(100, 1), (101, 1)], [100 \<mapsto> (0, [])])"
    by (rule converse_rtranclp_into_rtranclp [where r = sn_step, OF s1], rule converse_rtranclp_into_rtranclp [where r = sn_step, OF s2],
        rule r_into_rtranclp [where r = sn_step, OF s3])
  have all: "\<forall>t j. map_of (tgs_infos (demo_group [(100, 1), (101, 1)])) t = Some j \<longrightarrow> tsi_clock ?i - 0 \<le> tsi_clock j"
    and m: "get_min_clock (tgs_clock (demo_group [(100, 1), (101, 1)])) = 1"
    by (auto simp: demo_group_def get_min_clock_def split: if_splits)
  from sn_bounded_staleness [OF run _ i(2), of 0 "[]"] all have "\<exists>i'. CheckWaitClock 0 [1, 1] ?i = Inr i'" by (simp add: m)
  with run show ?thesis ..
qed

end
