(* ===== verification/Out_Of_Core.thy ===== *)
theory Out_Of_Core
imports Single_Node Storage_Proofs
begin

text \<open>
  The out-of-core table of the single-node variant is a map from row ids to rows: which rows are in the
  process cache and which are on disk cannot be seen.  The locales state what the database, the row type and the
  environment promise; they are interpreted on an association list and on the row types.
\<close>

section \<open>Contracts\<close>

locale kv_store =
  fixes db :: "'w kv_db"
  assumes put_ok: "\<exists>w'. kv_Put db k v w = Some w' \<and> (\<forall>k'. kv_Get db k' w' = (if k' = k then Some v else kv_Get db k' w))"
    and delete_ok: "\<exists>w'. kv_Delete db k w = Some w' \<and> (\<forall>k'. kv_Get db k' w' = (if k' = k then None else kv_Get db k' w))"

definition alist_db :: "(bytes, bytes) amap kv_db" where
  "alist_db = \<lparr>kv_Get = (\<lambda>k m. map_of m k), kv_Put = (\<lambda>k v m. Some (AList.update k v m)),
     kv_Delete = (\<lambda>k m. Some (AList.delete k m)), kv_Open = (\<lambda>_. Some [])\<rparr>"

interpretation alist_kv: kv_store alist_db
  by unfold_locales (auto simp: alist_db_def update_conv' delete_conv')

locale disk_row =
  fixes ops :: "('r, 'v) row_ops" and rok :: "'r \<Rightarrow> bool"
  assumes ser_size: "rok r \<Longrightarrow> length (ro_Serialize ops r) = ro_SerializedSize ops r"
    and deser: "rok r \<Longrightarrow> ro_Deserialize ops (ro_Serialize ops r) (ro_new ops) = Inr (True, r)"

definition sparse_rok :: "int sparse_row \<Rightarrow> bool" where
  "sparse_rok r \<longleftrightarrow> sparse_inv r \<and> sparse_wire is_i32 r"

definition dense_rok :: "int dense_row \<Rightarrow> bool" where
  "dense_rok r \<longleftrightarrow> dense_inv r \<and> dense_wire is_i32 r"

interpretation sparse_disk: disk_row "sparse_ops i32_pod" sparse_rok
  by unfold_locales (auto simp: sparse_rok_def sparse_deser_ser [OF i32_pod_ok] sparse_Serialize_length [OF i32_pod_ok]
      sparse_ops_def sparse_SerializedSize_def)

interpretation dense_disk: disk_row "dense_ops i32_pod" dense_rok
  using dense_deser_ser [OF i32_pod_ok]
  by unfold_locales (auto simp: dense_rok_def dense_ops_def dense_Serialize_def dense_SerializedSize_def concat_enc_size [OF i32_pod_ok])

section \<open>The invariant and the map\<close>

text \<open>
  \<open>pin\<close> is the client row the running operation holds an accessor to; every other row has no references.
\<close>

definition mem_ok :: "'pm storage_map \<Rightarrow> ('pm \<Rightarrow> bool) \<Rightarrow> ('r \<Rightarrow> bool) \<Rightarrow> nat \<Rightarrow> nat option \<Rightarrow> ('pm, 'r) process_storage \<Rightarrow> bool" where
  "mem_ok ck minv rok nxt pin s \<longleftrightarrow> cache_ok ck minv s \<and> ps_capacity s < 2 ^ 31 - 1 \<and> (\<forall>p \<ge> nxt. ps_heap s p = None) \<and>
     (\<forall>row p slot cr. ck_find ck (ps_map s) row = Some (p, slot) \<and> ps_heap s p = Some cr \<longrightarrow>
        is_i32 row \<and> cr_num_refs cr = (if pin = Some p then 1 else 0) \<and> rok (cr_data cr))"

definition disk_ok :: "'w kv_db \<Rightarrow> ('r, 'v) row_ops \<Rightarrow> ('r \<Rightarrow> bool) \<Rightarrow> (int \<Rightarrow> bool) \<Rightarrow> 'w \<times> int list \<Rightarrow> bool" where
  "disk_ok db ops rok cached d \<longleftrightarrow> (\<forall>row \<in> set (snd d). is_i32 row \<and> \<not> cached row \<and>
     (\<exists>r. rok r \<and> kv_Get db (i32_enc row) (fst d) = Some (ro_Serialize ops r)))"

definition disk_row_of :: "'w kv_db \<Rightarrow> ('r, 'v) row_ops \<Rightarrow> 'w \<times> int list \<Rightarrow> int \<Rightarrow> 'r option" where
  "disk_row_of db ops d row =
     (if row \<in> set (snd d)
      then Option.bind (kv_Get db (i32_enc row) (fst d))
             (\<lambda>b. case ro_Deserialize ops b (ro_new ops) of Inr (True, r) \<Rightarrow> Some r | _ \<Rightarrow> None)
      else None)"

definition rows_of ::
  "'pm storage_map \<Rightarrow> 'w kv_db \<Rightarrow> ('r, 'v) row_ops \<Rightarrow> ('pm, 'r) process_storage \<Rightarrow> 'w \<times> int list \<Rightarrow> int \<Rightarrow> 'r option" where
  "rows_of ck db ops s d row =
     (case ck_find ck (ps_map s) row of
        Some (p, slot) \<Rightarrow> map_option cr_data (ps_heap s p)
      | None \<Rightarrow> disk_row_of db ops d row)"

definition ooc_ok where
  "ooc_ok e minv rok pin t \<longleftrightarrow> mem_ok (ne_map e) minv rok (sn_next t) pin (sn_storage t) \<and>
     (\<exists>d. sn_ooc t = Some d \<and> disk_ok (ne_db e) (sn_sample t) rok (\<lambda>row. ck_find (ne_map e) (ps_map (sn_storage t)) row \<noteq> None) d)"

definition ooc_rows :: "('pm, 'r, 'w) sn_env \<Rightarrow> ('pm, 'r, 'v, 'w) client_table_sn \<Rightarrow> int \<Rightarrow> 'r option" where
  "ooc_rows e t = (case sn_ooc t of None \<Rightarrow> (\<lambda>_. None) | Some d \<Rightarrow> rows_of (ne_map e) (ne_db e) (sn_sample t) (sn_storage t) d)"

lemma mem_okD:
  assumes "mem_ok ck minv rok nxt pin s"
  shows "cache_ok ck minv s" "ps_capacity s < 2 ^ 31 - 1" "nxt \<le> p \<Longrightarrow> ps_heap s p = None"
    "ck_find ck (ps_map s) row = Some (p, slot) \<Longrightarrow> ps_heap s p = Some cr \<Longrightarrow>
       is_i32 row \<and> cr_num_refs cr = (if pin = Some p then 1 else 0) \<and> rok (cr_data cr)"
  using assms unfolding mem_ok_def by blast+

lemma cached_heap:
  assumes "mem_ok ck minv rok nxt pin s" "ck_find ck (ps_map s) row = Some (p, slot)"
  shows "\<exists>cr. ps_heap s p = Some cr" "p < nxt" "row \<noteq> - 1"
proof -
  have en: "entries_ok ck (ps_map s) (ps_lru s) (ps_heap s)" using assms(1) by (simp add: mem_ok_def cache_ok_def)
  from entry_slot [OF en assms(2)] show c: "\<exists>cr. ps_heap s p = Some cr" and "row \<noteq> - 1" by auto
  from c mem_okD(3) [OF assms(1), of p] show "p < nxt" by (cases "nxt \<le> p") auto
qed

lemma i32_enc_inject: "is_i32 a \<Longrightarrow> is_i32 b \<Longrightarrow> i32_enc a = i32_enc b \<longleftrightarrow> a = b"
  by (metis i32.dec_enc)

text \<open>One client row is changed, pinned or released.\<close>

lemma mem_ok_change:
  assumes ok: "mem_ok ck minv rok nxt pin s" and f: "ck_find ck (ps_map s) row = Some (p, slot)" and cr: "ps_heap s p = Some cr"
    and pins: "pin = None \<or> pin = Some p" "pin' = None \<or> pin' = Some p"
    and cr': "cr_num_refs cr' = (if pin' = Some p then 1 else 0)" "rok (cr_data cr')"
    and s': "ps_heap s' = (ps_heap s)(p \<mapsto> cr')" "ps_map s' = ps_map s" "ps_capacity s' = ps_capacity s" "ps_num_rows s' = ps_num_rows s"
    and l': "lru_ok (ps_lru s')" "row_ids (ps_lru s') = row_ids (ps_lru s)" "lru_capacity (ps_lru s') = lru_capacity (ps_lru s)"
  shows "mem_ok ck minv rok nxt pin' s'"
proof -
  have en: "entries_ok ck (ps_map s) (ps_lru s) (ps_heap s)" using ok by (simp add: mem_ok_def cache_ok_def)
  have "entries_ok ck (ps_map s) (ps_lru s') (ps_heap s')"
    using entries_ok_lru [OF entries_ok_heap [OF en, of "ps_heap s'"] l'(3,2)] s'(1) by auto
  then have "cache_ok ck minv s'" using ok s' l' by (simp add: mem_ok_def cache_ok_def occupied_def)
  moreover have "ps_heap s' q = None" if "nxt \<le> q" for q
    using mem_okD(3) [OF ok that] cached_heap(2) [OF ok f] that s'(1) by auto
  moreover have "is_i32 row' \<and> cr_num_refs x = (if pin' = Some q then 1 else 0) \<and> rok (cr_data x)"
    if "ck_find ck (ps_map s') row' = Some (q, sl)" "ps_heap s' q = Some x" for row' q sl x
  proof (cases "q = p")
    case True
    then show ?thesis using that s' cr' mem_okD(4) [OF ok _ cr, of row' sl] by simp
  next
    case False
    then show ?thesis using that s' pins mem_okD(4) [OF ok, of row' q sl x] by auto
  qed
  ultimately show ?thesis using mem_okD(2) [OF ok] s'(3) unfolding mem_ok_def by auto
qed

text \<open>A row in the cache is found and pinned.\<close>

lemma find_hit:
  assumes ok: "mem_ok ck minv rok nxt None s" and f: "ck_find ck (ps_map s) row = Some (p, slot)" and cr: "ps_heap s p = Some cr"
  shows "\<exists>a s'. storage_Find ck row RowAccessor s = Inr (True, a, s') \<and> ra_client_row a = Some p \<and> mem_ok ck minv rok nxt (Some p) s' \<and>
    ps_map s' = ps_map s \<and> ps_heap s' = (ps_heap s)(p \<mapsto> IncRef cr) \<and> ps_capacity s' = ps_capacity s \<and>
    evict_hand (ps_lru s') = evict_hand (ps_lru s)"
proof -
  let ?l = "(ps_lru s)\<lparr>stale := (stale (ps_lru s))[nat slot := False]\<rparr>" and ?h = "(ps_heap s)(p \<mapsto> IncRef cr)"
  have c: "cache_ok ck minv s" using mem_okD(1) [OF ok] .
  have lo: "lru_ok (ps_lru s)" and en: "entries_ok ck (ps_map s) (ps_lru s) (ps_heap s)" using c by (simp_all add: cache_ok_def)
  note sl = entry_slot [OF en f]
  have "storage_Find ck row RowAccessor s =
      Inr (True, \<lparr>ra_client_row = Some p, ra_data = Some (cr_data cr)\<rparr>, s\<lparr>ps_heap := ?h, ps_lru := ?l\<rparr>)"
    using f cr sl lo by (simp add: storage_Find_def SetClientRow_def accessor_Clear_def RowAccessor_def deref_def
        lru_Reference_def set_stale_def vec_at_def lru_ok_def)
  moreover have "mem_ok ck minv rok nxt (Some p) (s\<lparr>ps_heap := ?h, ps_lru := ?l\<rparr>)"
    using lo mem_okD(4) [OF ok f cr]
    by (intro mem_ok_change [OF ok f cr, where pin' = "Some p" and cr' = "IncRef cr"]) (simp_all add: IncRef_def lru_ok_def)
  ultimately show ?thesis by auto
qed

text \<open>A full cache has a row, and no row of it is referenced.\<close>

lemma full_cache_idle:
  assumes ok: "mem_ok ck minv rok nxt None s" and full: "ps_num_rows s = ps_capacity s"
  shows "\<exists>r p slot x. ck_find ck (ps_map s) r = Some (p, slot) \<and> ps_heap s p = Some x \<and> HasZeroRef x"
proof -
  let ?l = "ps_lru s"
  have lo: "lru_ok ?l" and en: "entries_ok ck (ps_map s) ?l (ps_heap s)" and cap: "int (occupied ?l) = lru_capacity ?l"
    using ok full by (simp_all add: mem_ok_def cache_ok_def)
  have "filter (\<lambda>r. r \<noteq> - 1) (row_ids ?l) \<noteq> []" using cap lo by (auto simp: occupied_def lru_ok_def)
  then obtain i where i: "i < length (row_ids ?l)" "row_ids ?l ! i \<noteq> - 1" by (auto simp: filter_empty_conv in_set_conv_nth)
  moreover have "int i < lru_capacity ?l" using i(1) lo by (simp add: lru_ok_def)
  ultimately obtain p where p: "ck_find ck (ps_map s) (row_ids ?l ! i) = Some (p, int i)"
    using slot_entry [OF en, of "int i"] by auto
  then obtain cr where "ps_heap s p = Some cr" using cached_heap(1) [OF ok] by blast
  with mem_okD(4) [OF ok p] p show ?thesis by (auto simp: HasZeroRef_def)
qed


text \<open>The row that an insertion evicted, and what stays the same.\<close>

definition drop_victim :: "(int \<times> nat \<times> int \<times> 'r client_row) option \<Rightarrow> ('pm, 'r) process_storage \<Rightarrow> ('pm, 'r) process_storage" where
  "drop_victim ev s = (case ev of None \<Rightarrow> s | Some (v, p, _) \<Rightarrow> s\<lparr>ps_heap := (ps_heap s)(p := None)\<rparr>)"

definition victim_ok :: "'pm storage_map \<Rightarrow> ('pm, 'r) process_storage \<Rightarrow> (int \<times> nat \<times> int \<times> 'r client_row) option \<Rightarrow> bool" where
  "victim_ok ck s ev \<longleftrightarrow> (\<forall>v p slot x. ev = Some (v, p, slot, x) \<longrightarrow> ck_find ck (ps_map s) v = Some (p, slot) \<and> ps_heap s p = Some x)"

text \<open>The CLOCK hand has room for the search of \<open>n\<close> more operations.\<close>

definition hand_room :: "('pm, 'r, 'w) sn_env \<Rightarrow> ('pm, 'r, 'v, 'w) client_table_sn \<Rightarrow> nat \<Rightarrow> bool" where
  "hand_room e t n \<longleftrightarrow> evict_hand (ps_lru (sn_storage t)) + int n * (2 * ps_capacity (sn_storage t)) < 2 ^ 31 \<and>
     2 * ps_capacity (sn_storage t) \<le> int (ne_fuel e) \<and> 0 < ps_capacity (sn_storage t)"

definition same_conf :: "('pm, 'r, 'v, 'w) client_table_sn \<Rightarrow> ('pm, 'r, 'v, 'w) client_table_sn \<Rightarrow> bool" where
  "same_conf t t' \<longleftrightarrow> sn_sample t' = sn_sample t \<and> sn_row_capacity t' = sn_row_capacity t \<and> sn_staleness t' = sn_staleness t"

text \<open>
  A sequence of batches of updates, on the table and on a map of rows. \<open>r0\<close> is the row as it is initialised;
  the reference gives up if an update fails or a row no longer fits its machine types.
\<close>

definition sn_run ::
  "('pm, 'r, 'w) sn_env \<Rightarrow> (int \<times> (int \<times> 'v) list) list \<Rightarrow> ('pm, 'r, 'v, 'w) client_table_sn \<Rightarrow> ('pm, 'r, 'v, 'w) client_table_sn result" where
  "sn_run e xs t = foldM (\<lambda>t (row, us). sn_BatchInc e row us t) t xs"

fun ref_run :: "('r, 'v) row_ops \<Rightarrow> ('r \<Rightarrow> bool) \<Rightarrow> 'r \<Rightarrow> (int \<times> (int \<times> 'v) list) list \<Rightarrow> (int \<rightharpoonup> 'r) \<Rightarrow> (int \<rightharpoonup> 'r) option" where
  "ref_run ops rok r0 [] m = Some m"
| "ref_run ops rok r0 ((row, us) # xs) m =
     (case ro_ApplyBatchInc ops us (case m row of None \<Rightarrow> r0 | Some r \<Rightarrow> r) of
        Inl _ \<Rightarrow> None
      | Inr r \<Rightarrow> if rok r then ref_run ops rok r0 xs (m(row \<mapsto> r)) else None)"

locale ooc_table = kv_store "ne_db e" + disk_row ops rok + cuckoo_map "ne_map e" minv
  for e :: "('pm, 'r, 'w) sn_env" and ops :: "('r, 'v) row_ops" and rok and minv +
  assumes alone: "ne_other e = (\<lambda>s. s)" and locks: "ne_try_lock e = (\<lambda>_ _. True)"
begin

abbreviation "ck \<equiv> ne_map e"
abbreviation "db \<equiv> ne_db e"

lemma disk_row_ok: "disk_ok db ops rok cached d \<Longrightarrow> row \<in> set (snd d) \<Longrightarrow>
    \<exists>r. rok r \<and> kv_Get db (i32_enc row) (fst d) = Some (ro_Serialize ops r) \<and> disk_row_of db ops d row = Some r"
  using deser by (fastforce simp: disk_ok_def disk_row_of_def)

lemma load_row_ok:
  assumes d: "disk_ok db ops rok cached d" and row: "is_i32 row"
    and fresh: "ro_Init ops cap (ro_new ops) = Inr r0" "rok r0"
  shows "\<exists>r d'. load_row e ops cap row d = Inr (r, d') \<and> rok r \<and> r = (case disk_row_of db ops d row of None \<Rightarrow> r0 | Some r \<Rightarrow> r) \<and>
    disk_ok db ops rok (cached(row := True)) d' \<and> disk_row_of db ops d' = (disk_row_of db ops d)(row := None)"
proof (cases "row \<in> set (snd d)")
  case True
  from disk_row_ok [OF d True] obtain r where r: "rok r" "kv_Get db (i32_enc row) (fst d) = Some (ro_Serialize ops r)"
    "disk_row_of db ops d row = Some r" by blast
  obtain w where w: "kv_Delete db (i32_enc row) (fst d) = Some w"
    "\<forall>k'. kv_Get db k' w = (if k' = i32_enc row then None else kv_Get db k' (fst d))" using delete_ok by blast
  have other: "kv_Get db (i32_enc x) w = kv_Get db (i32_enc x) (fst d)" if "x \<in> set (snd d)" "x \<noteq> row" for x
    using w(2) that d row i32_enc_inject [of x row] by (auto simp: disk_ok_def)
  let ?d = "(w, removeAll row (snd d))"
  have "load_row e ops cap row d = Inr (r, ?d)" using True r w deser by (cases d) (simp add: load_row_def check_def)
  moreover have "disk_ok db ops rok (cached(row := True)) ?d" using d other by (auto simp: disk_ok_def)
  moreover have "disk_row_of db ops ?d = (disk_row_of db ops d)(row := None)"
    using other by (auto simp: disk_row_of_def fun_eq_iff)
  ultimately show ?thesis using r by auto
next
  case False
  have "load_row e ops cap row d = Inr (r0, d)" using False fresh by (cases d) (simp add: load_row_def)
  moreover have "disk_ok db ops rok (cached(row := True)) d" using d False by (auto simp: disk_ok_def)
  ultimately show ?thesis using fresh False by (auto simp: disk_row_of_def)
qed

lemma store_evicted_ok:
  assumes d: "disk_ok db ops rok cached d" and row: "is_i32 row" "row \<notin> set (snd d)" and r: "rok r"
  shows "\<exists>d'. store_evicted e ops row r d = Inr d' \<and> disk_ok db ops rok (cached(row := False)) d' \<and>
    disk_row_of db ops d' = (disk_row_of db ops d)(row \<mapsto> r)"
proof -
  obtain w where w: "kv_Put db (i32_enc row) (ro_Serialize ops r) (fst d) = Some w"
    "\<forall>k'. kv_Get db k' w = (if k' = i32_enc row then Some (ro_Serialize ops r) else kv_Get db k' (fst d))" using put_ok by blast
  have other: "kv_Get db (i32_enc x) w = kv_Get db (i32_enc x) (fst d)" if "x \<in> set (snd d)" for x
    using w(2) that d row i32_enc_inject [of x row] by (auto simp: disk_ok_def)
  let ?d = "(w, List.insert row (snd d))"
  have "store_evicted e ops row r d = Inr ?d"
    using w ser_size [OF r] by (cases d) (simp add: store_evicted_def mem_write_def Let_def)
  moreover have "disk_ok db ops rok (cached(row := False)) ?d" using d other w r row by (auto simp: disk_ok_def)
  moreover have "disk_row_of db ops ?d = (disk_row_of db ops d)(row \<mapsto> r)"
    using other w(2) deser [OF r] row by (auto simp: disk_row_of_def fun_eq_iff)
  ultimately show ?thesis by blast
qed

text \<open>A row that is not in the cache is inserted and pinned; the evicted row, if any, is handed out.\<close>

lemma insert_pinned:
  fixes s :: "('pm, 'r) process_storage"
  assumes ok: "mem_ok ck minv rok nxt None s" and row: "is_i32 row" "row \<noteq> - 1" "ck_find ck (ps_map s) row = None" and r: "rok r"
    and b: "evict_hand (ps_lru s) + 2 * ps_capacity s < 2 ^ 31" "2 * ps_capacity s \<le> int (ne_fuel e)"
  defines "cr \<equiv> SSPClientRow 0 r"
  shows "\<exists>a s3 sl ev. insert_access True (ne_fuel e) ck (ne_try_lock e) (ne_other e) row nxt RowAccessor
        (s\<lparr>ps_heap := (ps_heap s)(nxt \<mapsto> cr)\<rparr>) = Inr (True, map_option (\<lambda>(v, p, slot, x). (v, p)) ev, a, s3) \<and>
    ra_client_row a = Some nxt \<and> mem_ok ck minv rok (Suc nxt) (Some nxt) (drop_victim ev s3) \<and> victim_ok ck s ev \<and>
    ps_heap s3 = (ps_heap s)(nxt \<mapsto> IncRef cr) \<and> ps_capacity s3 = ps_capacity s \<and>
    evict_hand (ps_lru s3) \<le> evict_hand (ps_lru s) + 2 * ps_capacity s \<and>
    ck_find ck (ps_map s3) = (\<lambda>x. if x = row then Some (nxt, sl) else if map_option fst ev = Some x then None else ck_find ck (ps_map s) x)"
proof -
  let ?s = "s\<lparr>ps_heap := (ps_heap s)(nxt \<mapsto> cr)\<rparr>"
  have en: "entries_ok ck (ps_map s) (ps_lru s) (ps_heap s)" using ok by (simp add: mem_ok_def cache_ok_def)
  have ne: "q \<noteq> nxt" if "ck_find ck (ps_map s) x = Some (q, sl)" for x q sl using cached_heap(2) [OF ok that] by simp
  have "entries_ok ck (ps_map s) (ps_lru s) (ps_heap ?s)" by (rule entries_ok_heap [OF en]) simp
  then have c: "cache_ok ck minv ?s" using mem_okD(1) [OF ok] by (simp add: cache_ok_def)
  have idle: "ps_num_rows ?s = ps_capacity ?s \<longrightarrow>
      (\<exists>r p slot x. ck_find ck (ps_map ?s) r = Some (p, slot) \<and> ps_heap ?s p = Some x \<and> HasZeroRef x)"
    using full_cache_idle [OF ok] ne by fastforce
  have nf: "ck_find ck (ps_map ?s) row = None" "ps_heap ?s nxt = Some cr" "\<forall>r slot. ck_find ck (ps_map ?s) r \<noteq> Some (nxt, slot)"
    using row(3) ne by auto
  have bs: "ps_capacity ?s < 2 ^ 31 - 1" "evict_hand (ps_lru ?s) + 2 * ps_capacity ?s < 2 ^ 31" "2 * ps_capacity ?s \<le> int (ne_fuel e)"
    using mem_okD(2) [OF ok] b by simp_all
  from insert_new [OF cuckoo_map_axioms c row(2) nf idle bs, of True] obtain s2 s3 sl ev where m: "make_room (ne_fuel e) ck (\<lambda>_ _. True) True ?s = Inr (map_option (\<lambda>(e, p, slot, x). (e, p)) ev, s2)"
    "ck_find ck (ps_map s2) row = None" "put_row ck row nxt s2 = Inr s3" "cache_ok ck minv s3" "ps_capacity s3 = ps_capacity ?s"
    "evict_hand (ps_lru s3) \<le> evict_hand (ps_lru ?s) + 2 * ps_capacity ?s" "ps_heap s3 nxt = Some cr"
    "case ev of None \<Rightarrow> ps_heap s3 = ps_heap ?s \<and> ck_find ck (ps_map s3) = (ck_find ck (ps_map ?s))(row \<mapsto> (nxt, sl))
     | Some (v, p, slot, x) \<Rightarrow> ps_num_rows ?s = ps_capacity ?s \<and> ck_find ck (ps_map ?s) v = Some (p, slot) \<and>
         ps_heap ?s p = Some x \<and> HasZeroRef x \<and> ps_heap s3 = (if True then ps_heap ?s else (ps_heap ?s)(p := None)) \<and>
         ck_find ck (ps_map s3) = (ck_find ck (ps_map ?s))(v := None, row \<mapsto> (nxt, sl))"
    by blast
  let ?a = "\<lparr>ra_client_row = Some nxt, ra_data = Some r\<rparr>" and ?s3 = "s3\<lparr>ps_heap := (ps_heap s3)(nxt \<mapsto> IncRef cr)\<rparr>"
  have h3: "ps_heap s3 = ps_heap ?s" using m(8) by (auto split: option.splits)
  have vic: "victim_ok ck s ev" using m(8) ne by (fastforce simp: victim_ok_def split: if_splits)
  have f3: "ck_find ck (ps_map s3) = (\<lambda>x. if x = row then Some (nxt, sl) else if map_option fst ev = Some x then None else ck_find ck (ps_map s) x)"
    using m(8) by (auto simp: fun_eq_iff split: option.splits)
  have run: "insert_access True (ne_fuel e) ck (ne_try_lock e) (ne_other e) row nxt RowAccessor ?s =
      Inr (True, map_option (\<lambda>(v, p, slot, x). (v, p)) ev, ?a, ?s3)"
    using nf(1) m(1-3,7) by (simp add: insert_access_def FindAndUpdate_access_def alone locks SetClientRow_def accessor_Clear_def
        RowAccessor_def deref_def cr_def SSPClientRow_def)
  have old: "ck_find ck (ps_map s) x = Some (q, k) \<and> (\<forall>v p slot y. ev = Some (v, p, slot, y) \<longrightarrow> q \<noteq> p)"
    if "ck_find ck (ps_map s3) x = Some (q, k)" "x \<noteq> row" for x q k
  proof -
    have fx: "ck_find ck (ps_map s) x = Some (q, k)" "map_option fst ev \<noteq> Some x" using that f3 by (auto split: if_splits)
    moreover have "q \<noteq> p" if "ev = Some (v, p, slot, y)" for v p slot y
      using that vic entry_inj [OF en fx(1)] fx(2) unfolding victim_ok_def by fastforce
    ultimately show ?thesis by blast
  qed
  let ?d = "drop_victim ev ?s3"
  have hd: "ps_heap ?d q = (if q = nxt then Some (IncRef cr) else if (\<exists>v slot y. ev = Some (v, q, slot, y)) then None else ps_heap s q)" for q
  proof (cases ev)
    case (Some y)
    obtain v p k x where y: "y = (v, p, k, x)" by (cases y)
    have "p \<noteq> nxt" using vic ne [of v p k] Some y by (simp add: victim_ok_def)
    then show ?thesis using Some y h3 by (auto simp: drop_victim_def)
  qed (use h3 in \<open>simp add: drop_victim_def\<close>)
  have md: "ps_map ?d = ps_map s3" "ps_lru ?d = ps_lru s3" "ps_capacity ?d = ps_capacity s" "ps_num_rows ?d = ps_num_rows s3"
    using m(5) by (auto simp: drop_victim_def split: option.splits)
  have en3: "entries_ok ck (ps_map s3) (ps_lru s3) (ps_heap s3)" using m(4) by (simp add: cache_ok_def)
  have live: "ps_heap ?d q = (if x = row then Some (IncRef cr) else ps_heap s q)" if "ck_find ck (ps_map s3) x = Some (q, k)" for x q k
  proof (cases "x = row")
    case True
    then show ?thesis using that f3 hd [of q] by simp
  next
    case False
    then show ?thesis using old [OF that False] ne hd [of q] by auto
  qed
  have "entries_ok ck (ps_map s3) (ps_lru s3) (ps_heap ?d)"
    using entry_slot(5) [OF en] old by (intro entries_ok_heap [OF en3]) (metis live option.distinct(1))
  then have "cache_ok ck minv ?d" using m(4) md by (simp add: cache_ok_def m(5))
  moreover have "ps_heap ?d q = None" if "Suc nxt \<le> q" for q using that mem_okD(3) [OF ok, of q] hd [of q] by simp
  moreover have "is_i32 x \<and> cr_num_refs y = (if Some nxt = Some q then 1 else 0) \<and> rok (cr_data y)"
    if "ck_find ck (ps_map ?d) x = Some (q, k)" "ps_heap ?d q = Some y" for x q k y
  proof (cases "x = row")
    case True
    then show ?thesis using that live [of x q k] f3 md(1) row(1) r by (auto simp: cr_def IncRef_def SSPClientRow_def)
  next
    case False
    then show ?thesis using that live [of x q k] old [of x q k] md(1) mem_okD(4) [OF ok, of x q k y] ne by auto
  qed
  ultimately have "mem_ok ck minv rok (Suc nxt) (Some nxt) ?d"
    using mem_okD(2) [OF ok] md(3) unfolding mem_ok_def by auto
  with run vic h3 f3 m(5,6) show ?thesis
    by (intro exI [of _ ?a] exI [of _ ?s3] exI [of _ sl] exI [of _ ev]) simp
qed

lemma hand_room_next:
  assumes "hand_room e t (Suc n)" "ps_capacity (sn_storage t') = ps_capacity (sn_storage t)"
    "evict_hand (ps_lru (sn_storage t')) \<le> evict_hand (ps_lru (sn_storage t)) + 2 * ps_capacity (sn_storage t)"
  shows "hand_room e t' n"
  using assms by (simp add: hand_room_def algebra_simps)

text \<open>What is seen of a row that is found in the cache, and of one that is not.\<close>

lemma find_or_create_hit:
  assumes ok: "ooc_ok e minv rok None t" and f: "ck_find ck (ps_map (sn_storage t)) row = Some (p, slot)" and h: "hand_room e t (Suc n)"
  shows "\<exists>a t'. find_or_create e row RowAccessor t = Inr (a, t') \<and> ra_client_row a = Some p \<and> ooc_ok e minv rok (Some p) t' \<and>
    ck_find ck (ps_map (sn_storage t')) row = Some (p, slot) \<and> ooc_rows e t' = ooc_rows e t \<and> ooc_rows e t row \<noteq> None \<and>
    same_conf t t' \<and> hand_room e t' n"
proof -
  obtain d where d: "sn_ooc t = Some d"
    "disk_ok db (sn_sample t) rok (\<lambda>row. ck_find ck (ps_map (sn_storage t)) row \<noteq> None) d" "mem_ok ck minv rok (sn_next t) None (sn_storage t)"
    using ok by (auto simp: ooc_ok_def)
  obtain cr where cr: "ps_heap (sn_storage t) p = Some cr" using cached_heap(1) [OF d(3) f] by blast
  from find_hit [OF d(3) f cr] obtain a s where s: "storage_Find ck row RowAccessor (sn_storage t) = Inr (True, a, s)"
    "ra_client_row a = Some p" "mem_ok ck minv rok (sn_next t) (Some p) s" "ps_map s = ps_map (sn_storage t)"
    "ps_heap s = (ps_heap (sn_storage t))(p \<mapsto> IncRef cr)" "ps_capacity s = ps_capacity (sn_storage t)"
    "evict_hand (ps_lru s) = evict_hand (ps_lru (sn_storage t))" by blast
  let ?t = "t\<lparr>sn_storage := s\<rparr>"
  have "find_or_create e row RowAccessor t = Inr (a, ?t)" using s(1) by (simp add: find_or_create_def)
  moreover have "ooc_rows e ?t = ooc_rows e t"
    using s(4,5) d(1) cr by (auto simp: ooc_rows_def rows_of_def fun_eq_iff IncRef_def split: option.splits)
  moreover have "ooc_rows e t row \<noteq> None" using d(1) f cr by (simp add: ooc_rows_def rows_of_def)
  moreover have "hand_room e ?t n" using h s(6,7) by (intro hand_room_next [OF h]) (simp_all add: hand_room_def)
  moreover have "ooc_ok e minv rok (Some p) ?t" using s d f by (simp add: ooc_ok_def)
  ultimately show ?thesis using s f by (simp add: same_conf_def)
qed

lemma find_or_create_miss:
  assumes ok: "ooc_ok e minv rok None t" and conf: "sn_sample t = ops"
    and row: "is_i32 row" "row \<noteq> - 1" "ck_find ck (ps_map (sn_storage t)) row = None"
    and fresh: "ro_Init ops (sn_row_capacity t) (ro_new ops) = Inr r0" "rok r0" and h: "hand_room e t (Suc n)"
  shows "\<exists>a p slot t'. find_or_create e row RowAccessor t = Inr (a, t') \<and> ra_client_row a = Some p \<and> ooc_ok e minv rok (Some p) t' \<and>
    ck_find ck (ps_map (sn_storage t')) row = Some (p, slot) \<and>
    ooc_rows e t' = (ooc_rows e t)(row \<mapsto> case ooc_rows e t row of None \<Rightarrow> r0 | Some r \<Rightarrow> r) \<and> same_conf t t' \<and> hand_room e t' n"
proof -
  let ?s = "sn_storage t" and ?p = "sn_next t"
  obtain d where d: "sn_ooc t = Some d" "disk_ok db ops rok (\<lambda>row. ck_find ck (ps_map ?s) row \<noteq> None) d"
    "mem_ok ck minv rok ?p None ?s" using ok conf by (auto simp: ooc_ok_def)
  from load_row_ok [OF d(2) row(1) fresh] obtain r d1 where l: "load_row e ops (sn_row_capacity t) row d = Inr (r, d1)" "rok r"
    "r = (case disk_row_of db ops d row of None \<Rightarrow> r0 | Some r \<Rightarrow> r)"
    "disk_ok db ops rok ((\<lambda>row. ck_find ck (ps_map ?s) row \<noteq> None)(row := True)) d1"
    "disk_row_of db ops d1 = (disk_row_of db ops d)(row := None)" by blast
  let ?cr = "SSPClientRow 0 r"
  have b: "evict_hand (ps_lru ?s) + 2 * ps_capacity ?s < 2 ^ 31" "2 * ps_capacity ?s \<le> int (ne_fuel e)"
  proof -
    have "0 \<le> int n * (2 * ps_capacity ?s)" using h by (simp add: hand_room_def)
    then show "evict_hand (ps_lru ?s) + 2 * ps_capacity ?s < 2 ^ 31" using h unfolding hand_room_def of_nat_Suc distrib_right by linarith
  qed (use h in \<open>simp add: hand_room_def\<close>)
  from insert_pinned [OF d(3) row l(2) b] obtain a s3 sl ev where
    i: "insert_access True (ne_fuel e) ck (ne_try_lock e) (ne_other e) row ?p RowAccessor (?s\<lparr>ps_heap := (ps_heap ?s)(?p \<mapsto> ?cr)\<rparr>) =
        Inr (True, map_option (\<lambda>(v, p, slot, x). (v, p)) ev, a, s3)" "ra_client_row a = Some ?p"
    "mem_ok ck minv rok (Suc ?p) (Some ?p) (drop_victim ev s3)" "victim_ok ck ?s ev" "ps_heap s3 = (ps_heap ?s)(?p \<mapsto> IncRef ?cr)"
    "ps_capacity s3 = ps_capacity ?s" "evict_hand (ps_lru s3) \<le> evict_hand (ps_lru ?s) + 2 * ps_capacity ?s"
    "ck_find ck (ps_map s3) = (\<lambda>x. if x = row then Some (?p, sl) else if map_option fst ev = Some x then None else ck_find ck (ps_map ?s) x)"
    by blast
  have nh: "ps_heap ?s ?p = None" using mem_okD(3) [OF d(3)] by simp
  have rr: "ooc_rows e t row = disk_row_of db ops d row" using d(1) conf row(3) by (simp add: ooc_rows_def rows_of_def)
  define t' where "t' d2 = t\<lparr>sn_storage := drop_victim ev s3, sn_next := Suc ?p, sn_ooc := Some d2\<rparr>" for d2
  have dv: "ps_map (drop_victim ev s3) = ps_map s3" "ps_capacity (drop_victim ev s3) = ps_capacity s3" "ps_lru (drop_victim ev s3) = ps_lru s3"
    by (auto simp: drop_victim_def split: option.splits)
  have hr: "hand_room e (t' d2) n" for d2 using i(6,7) dv by (intro hand_room_next [OF h]) (simp_all add: t'_def)
  have heap: "ps_heap (drop_victim ev s3) q = ps_heap ?s q" if "ck_find ck (ps_map ?s) x = Some (q, k)" "map_option fst ev \<noteq> Some x" for x q k
  proof -
    have en: "entries_ok ck (ps_map ?s) (ps_lru ?s) (ps_heap ?s)" using d(3) by (simp add: mem_ok_def cache_ok_def)
    have q: "q < ?p" using cached_heap(2) [OF d(3) that(1)] .
    show ?thesis
    proof (cases ev)
      case (Some y)
      obtain v q' k' x' where y: "y = (v, q', k', x')" by (cases y)
      have "q \<noteq> q'" using i(4) Some y that(2) entry_inj [OF en that(1), of v k'] by (auto simp: victim_ok_def)
      then show ?thesis using q i(5) Some y by (simp add: drop_victim_def)
    qed (use q i(5) in \<open>simp add: drop_victim_def\<close>)
  qed
  have rows: "ooc_rows e (t' d2) = (ooc_rows e t)(row \<mapsto> r)"
    if "disk_row_of db ops d2 = (case ev of None \<Rightarrow> disk_row_of db ops d1 | Some (v, p, k, x) \<Rightarrow> (disk_row_of db ops d1)(v \<mapsto> cr_data x))" for d2
  proof
    fix x
    have p: "ps_heap (drop_victim ev s3) ?p = Some (IncRef ?cr)"
      using i(4,5) nh by (auto simp: drop_victim_def victim_ok_def split: option.splits)
    consider "x = row" | "x \<noteq> row" "map_option fst ev = Some x" | "x \<noteq> row" "map_option fst ev \<noteq> Some x" by blast
    then show "ooc_rows e (t' d2) x = ((ooc_rows e t)(row \<mapsto> r)) x"
    proof cases
      case 1
      then show ?thesis using p dv i(8) conf by (simp add: t'_def ooc_rows_def rows_of_def IncRef_def SSPClientRow_def)
    next
      case 2
      then obtain q k y where "ev = Some (x, q, k, y)" by auto
      with 2 show ?thesis using that i(4,8) dv conf d(1) by (auto simp: t'_def ooc_rows_def rows_of_def victim_ok_def)
    next
      case 3
      then have "disk_row_of db ops d2 x = disk_row_of db ops d x" using that l(5) by (auto split: option.splits)
      with 3 show ?thesis using heap [OF _ 3(2)] i(8) dv conf d(1)
        by (auto simp: t'_def ooc_rows_def rows_of_def split: option.splits)
    qed
  qed
  have ook: "ooc_ok e minv rok (Some ?p) (t' d2)" if "disk_ok db ops rok (\<lambda>x. ck_find ck (ps_map s3) x \<noteq> None) d2" for d2
    using i(3) that conf dv by (simp add: ooc_ok_def t'_def)
  have "\<exists>d2. find_or_create e row RowAccessor t = Inr (a, t' d2) \<and> ooc_ok e minv rok (Some ?p) (t' d2) \<and>
      ooc_rows e (t' d2) = (ooc_rows e t)(row \<mapsto> r)"
  proof (cases ev)
    case None
    have "find_or_create e row RowAccessor t = Inr (a, t' d1)"
      using row(3) d(1) conf l(1) i(1) None
      by (simp add: find_or_create_def CreateInsertRow_def ooc_CreateInsertRow_def storage_Find_def storage_Insert_evicted_def
          t'_def drop_victim_def Let_def)
    moreover have "(\<lambda>x. ck_find ck (ps_map s3) x \<noteq> None) = (\<lambda>row. ck_find ck (ps_map ?s) row \<noteq> None)(row := True)"
      using i(8) None by auto
    then have "ooc_ok e minv rok (Some ?p) (t' d1)" using l(4) by (intro ook) simp
    ultimately show ?thesis using rows [of d1] None by (intro exI [of _ d1]) simp
  next
    case (Some y)
    obtain v q k x where y: "y = (v, q, k, x)" by (cases y)
    have v: "ck_find ck (ps_map ?s) v = Some (q, k)" "ps_heap ?s q = Some x" using i(4) Some y by (auto simp: victim_ok_def)
    note vm = cached_heap [OF d(3) v(1)] mem_okD(4) [OF d(3) v]
    have "v \<notin> set (snd d1)" using l(4) v(1) by (auto simp: disk_ok_def dest!: bspec [where x = v] split: if_splits)
    with store_evicted_ok [OF l(4), of v "cr_data x"] vm obtain d2 where
      d2: "store_evicted e ops v (cr_data x) d1 = Inr d2"
        "disk_ok db ops rok ((\<lambda>row. ck_find ck (ps_map ?s) row \<noteq> None)(row := True, v := False)) d2"
        "disk_row_of db ops d2 = (disk_row_of db ops d1)(v \<mapsto> cr_data x)" by auto
    have "find_or_create e row RowAccessor t = Inr (a, t' d2)"
      using row(3) d(1) conf l(1) i(1,5) Some y vm(2,3) v(2) d2(1)
      by (simp add: find_or_create_def CreateInsertRow_def ooc_CreateInsertRow_def storage_Find_def storage_Insert_evicted_def
          t'_def drop_victim_def Let_def deref_def)
    moreover have "(\<lambda>x. ck_find ck (ps_map s3) x \<noteq> None) = (\<lambda>row. ck_find ck (ps_map ?s) row \<noteq> None)(row := True, v := False)"
      using i(8) Some y v(1) row(3) by (auto simp: fun_eq_iff)
    then have "ooc_ok e minv rok (Some ?p) (t' d2)" using d2(2) by (intro ook) simp
    ultimately show ?thesis using rows [of d2] Some y d2(3) by (intro exI [of _ d2]) simp
  qed
  then obtain d2 where f: "find_or_create e row RowAccessor t = Inr (a, t' d2)" "ooc_ok e minv rok (Some ?p) (t' d2)"
    "ooc_rows e (t' d2) = (ooc_rows e t)(row \<mapsto> r)" by (elim exE conjE)
  have "ck_find ck (ps_map (sn_storage (t' d2))) row = Some (?p, sl)" "same_conf t (t' d2)"
    using i(8) dv by (simp_all add: t'_def same_conf_def)
  with f i(2) hr [of d2] l(3) rr show ?thesis
    by (intro exI [of _ a] exI [of _ ?p] exI [of _ sl] exI [of _ "t' d2"]) simp
qed

lemma find_or_create_ok:
  assumes ok: "ooc_ok e minv rok None t" and conf: "sn_sample t = ops" and row: "is_i32 row" "row \<noteq> - 1"
    and fresh: "ro_Init ops (sn_row_capacity t) (ro_new ops) = Inr r0" "rok r0" and h: "hand_room e t (Suc n)"
  shows "\<exists>a p slot t'. find_or_create e row RowAccessor t = Inr (a, t') \<and> ra_client_row a = Some p \<and> ooc_ok e minv rok (Some p) t' \<and>
    ck_find ck (ps_map (sn_storage t')) row = Some (p, slot) \<and>
    ooc_rows e t' = (ooc_rows e t)(row \<mapsto> case ooc_rows e t row of None \<Rightarrow> r0 | Some r \<Rightarrow> r) \<and> same_conf t t' \<and> hand_room e t' n"
proof (cases "ck_find ck (ps_map (sn_storage t)) row")
  case (Some ps)
  obtain p slot where ps: "ps = (p, slot)" by (cases ps)
  from find_or_create_hit [OF ok Some [unfolded ps] h] obtain a t' where
    "find_or_create e row RowAccessor t = Inr (a, t')" "ra_client_row a = Some p" "ooc_ok e minv rok (Some p) t'"
    "ck_find ck (ps_map (sn_storage t')) row = Some (p, slot)" "ooc_rows e t' = ooc_rows e t" "ooc_rows e t row \<noteq> None"
    "same_conf t t'" "hand_room e t' n" by blast
  then show ?thesis by (intro exI [of _ a] exI [of _ p] exI [of _ slot] exI [of _ t']) (auto simp: fun_upd_idem)
qed (rule find_or_create_miss [OF ok conf row _ fresh h])

text \<open>The pinned row is changed and released.\<close>

lemma change_pinned:
  assumes ok: "ooc_ok e minv rok (Some p) t" and f: "ck_find ck (ps_map (sn_storage t)) row = Some (p, slot)"
    and r: "ooc_rows e t row = Some r" "g r = Inr r'" "rok r'" and a: "ra_client_row a = Some p"
  shows "\<exists>s1 s2. access_row a g (sn_storage t) = Inr s1 \<and> end_accessor a s1 = Inr s2 \<and> ooc_ok e minv rok None (t\<lparr>sn_storage := s2\<rparr>) \<and>
    ooc_rows e (t\<lparr>sn_storage := s2\<rparr>) = (ooc_rows e t)(row \<mapsto> r') \<and> ps_lru s2 = ps_lru (sn_storage t) \<and> ps_capacity s2 = ps_capacity (sn_storage t)"
proof -
  let ?s = "sn_storage t"
  obtain d where d: "sn_ooc t = Some d" "disk_ok db (sn_sample t) rok (\<lambda>row. ck_find ck (ps_map ?s) row \<noteq> None) d"
    "mem_ok ck minv rok (sn_next t) (Some p) ?s" using ok by (auto simp: ooc_ok_def)
  obtain cr where cr: "ps_heap ?s p = Some cr" using cached_heap(1) [OF d(3) f] by blast
  have cd: "cr_data cr = r" "cr_num_refs cr = 1" using r(1) d(1) f cr mem_okD(4) [OF d(3) f cr] by (simp_all add: ooc_rows_def rows_of_def)
  let ?c1 = "cr\<lparr>cr_data := r'\<rparr>" and ?c2 = "DecRef (cr\<lparr>cr_data := r'\<rparr>)"
  let ?s1 = "?s\<lparr>ps_heap := (ps_heap ?s)(p \<mapsto> ?c1)\<rparr>" and ?s2 = "?s\<lparr>ps_heap := (ps_heap ?s)(p \<mapsto> ?c2)\<rparr>"
  have "access_row a g ?s = Inr ?s1" using a cr cd r(2) by (simp add: access_row_def deref_def)
  moreover have "end_accessor a ?s1 = Inr ?s2" using a by (simp add: end_accessor_def accessor_Clear_def deref_def)
  moreover have "mem_ok ck minv rok (sn_next t) None ?s2"
    using cd r(3) d(3) by (intro mem_ok_change [OF d(3) f cr, where pin' = None and cr' = ?c2])
      (simp_all add: DecRef_def mem_ok_def cache_ok_def)
  then have "ooc_ok e minv rok None (t\<lparr>sn_storage := ?s2\<rparr>)" using d(1,2) by (simp add: ooc_ok_def)
  moreover have "ooc_rows e (t\<lparr>sn_storage := ?s2\<rparr>) = (ooc_rows e t)(row \<mapsto> r')"
  proof
    fix x
    have en: "entries_ok ck (ps_map ?s) (ps_lru ?s) (ps_heap ?s)" using d(3) by (simp add: mem_ok_def cache_ok_def)
    have "q \<noteq> p" if "ck_find ck (ps_map ?s) x = Some (q, k)" "x \<noteq> row" for q k using that entry_inj [OF en f, of x k] by auto
    then show "ooc_rows e (t\<lparr>sn_storage := ?s2\<rparr>) x = ((ooc_rows e t)(row \<mapsto> r')) x"
      using d(1) f by (cases "x = row") (auto simp: ooc_rows_def rows_of_def DecRef_def split: option.splits)
  qed
  ultimately show ?thesis by (intro exI [of _ ?s1] exI [of _ ?s2]) simp
qed

lemma sn_change_ok:
  assumes ok: "ooc_ok e minv rok None t" and conf: "sn_sample t = ops" and row: "is_i32 row" "row \<noteq> - 1"
    and fresh: "ro_Init ops (sn_row_capacity t) (ro_new ops) = Inr r0" "rok r0" and h: "hand_room e t (Suc n)"
    and g: "g (case ooc_rows e t row of None \<Rightarrow> r0 | Some r \<Rightarrow> r) = Inr r'" "rok r'"
  shows "\<exists>t'. sn_change e row g t = Inr t' \<and> ooc_ok e minv rok None t' \<and> ooc_rows e t' = (ooc_rows e t)(row \<mapsto> r') \<and>
    same_conf t t' \<and> hand_room e t' n"
proof -
  from find_or_create_ok [OF ok conf row fresh h] obtain a p slot t1 where
    f: "find_or_create e row RowAccessor t = Inr (a, t1)" "ra_client_row a = Some p" "ooc_ok e minv rok (Some p) t1"
    "ck_find ck (ps_map (sn_storage t1)) row = Some (p, slot)"
    "ooc_rows e t1 = (ooc_rows e t)(row \<mapsto> case ooc_rows e t row of None \<Rightarrow> r0 | Some r \<Rightarrow> r)" "same_conf t t1" "hand_room e t1 n" by blast
  have r: "ooc_rows e t1 row = Some (case ooc_rows e t row of None \<Rightarrow> r0 | Some r \<Rightarrow> r)" using f(5) by simp
  from change_pinned [of p t1 row slot _ g r' a, OF f(3,4) r g f(2)] obtain s1 s2 where
    c: "access_row a g (sn_storage t1) = Inr s1" "end_accessor a s1 = Inr s2" "ooc_ok e minv rok None (t1\<lparr>sn_storage := s2\<rparr>)"
    "ooc_rows e (t1\<lparr>sn_storage := s2\<rparr>) = (ooc_rows e t1)(row \<mapsto> r')" "ps_lru s2 = ps_lru (sn_storage t1)"
    "ps_capacity s2 = ps_capacity (sn_storage t1)" by blast
  have "sn_change e row g t = Inr (t1\<lparr>sn_storage := s2\<rparr>)" using f(1) c(1,2) by (simp add: sn_change_def)
  moreover have "same_conf t (t1\<lparr>sn_storage := s2\<rparr>)" "hand_room e (t1\<lparr>sn_storage := s2\<rparr>) n"
    using f(6,7) c(5,6) by (simp_all add: same_conf_def hand_room_def)
  ultimately show ?thesis using c(3,4) f(5) by (intro exI [of _ "t1\<lparr>sn_storage := s2\<rparr>"]) simp
qed

section \<open>Sequences of updates\<close>

lemma new_table_ok:
  assumes "0 < process_cache_capacity config" "process_cache_capacity config < 2 ^ 31 - 1" "gs_consistency_model g = LocalOOC"
    "reg (row_type (table_info config)) = Inr ops" "kv_Open db (MakeOOCDBPath g table_id) = Some w"
    "int n * (2 * process_cache_capacity config) < 2 ^ 31" "2 * process_cache_capacity config \<le> int (ne_fuel e)"
  shows "\<exists>t. ClientTableSN e reg g table_id config = Inr t \<and> ooc_ok e minv rok None t \<and> ooc_rows e t = Map.empty \<and> hand_room e t n \<and>
    sn_sample t = ops \<and> sn_row_capacity t = row_capacity (table_info config) \<and> sn_staleness t = table_staleness (table_info config)"
  using assms by (simp add: ClientTableSN_def open_ooc_def ooc_ok_def mem_ok_def cache_ok_def entries_ok_def lru_ok_def ProcessStorage_def
      ClockLRU_def new_ok occupied_def disk_ok_def ooc_rows_def rows_of_def disk_row_of_def hand_room_def fun_eq_iff)

lemma sn_run_ok:
  assumes "ooc_ok e minv rok None t" "sn_sample t = ops" "hand_room e t (length xs + n)"
    and fresh: "ro_Init ops (sn_row_capacity t) (ro_new ops) = Inr r0" "rok r0"
    and "\<forall>(row, us) \<in> set xs. is_i32 row \<and> row \<noteq> - 1" "ref_run ops rok r0 xs (ooc_rows e t) = Some m"
  shows "\<exists>t'. sn_run e xs t = Inr t' \<and> ooc_ok e minv rok None t' \<and> ooc_rows e t' = m \<and> same_conf t t' \<and> hand_room e t' n"
  using assms
proof (induction xs arbitrary: t)
  case (Cons x xs)
  obtain row us where x: "x = (row, us)" by force
  obtain r where r: "ro_ApplyBatchInc ops us (case ooc_rows e t row of None \<Rightarrow> r0 | Some r \<Rightarrow> r) = Inr r" "rok r"
    "ref_run ops rok r0 xs ((ooc_rows e t)(row \<mapsto> r)) = Some m"
    using Cons.prems(7) x by (auto simp: Let_def split: sum.splits if_splits)
  have row: "is_i32 row" "row \<noteq> - 1" using Cons.prems(6) x by auto
  have h: "hand_room e t (Suc (length xs + n))" using Cons.prems(3) by simp
  from sn_change_ok [where g = "ro_ApplyBatchInc ops us", OF Cons.prems(1,2) row Cons.prems(4,5) h r(1,2)] obtain t1 where
    t1: "sn_change e row (ro_ApplyBatchInc ops us) t = Inr t1" "ooc_ok e minv rok None t1" "ooc_rows e t1 = (ooc_rows e t)(row \<mapsto> r)"
    "same_conf t t1" "hand_room e t1 (length xs + n)" by blast
  have c: "sn_sample t1 = ops" "sn_row_capacity t1 = sn_row_capacity t" using t1(4) Cons.prems(2) by (simp_all add: same_conf_def)
  obtain t' where t': "sn_run e xs t1 = Inr t'" "ooc_ok e minv rok None t'" "ooc_rows e t' = m" "same_conf t1 t'" "hand_room e t' n"
    using Cons.IH [OF t1(2) c(1) t1(5), unfolded c(2) t1(3), OF Cons.prems(4,5) _ r(3)] Cons.prems(6) by auto
  have "sn_run e (x # xs) t = Inr t'" using t1(1) t'(1) Cons.prems(2) x by (simp add: sn_run_def sn_BatchInc_def)
  with t' t1(4) show ?case by (auto simp: same_conf_def)
qed (auto simp: sn_run_def same_conf_def)

lemma sn_Get_ok:
  assumes "ooc_ok e minv rok None t" "sn_sample t = ops" "hand_room e t 1" and row: "is_i32 row" "row \<noteq> - 1"
    and fresh: "ro_Init ops (sn_row_capacity t) (ro_new ops) = Inr r0" "rok r0" and i: "- sn_staleness t \<le> tsi_clock_ahead i"
  shows "\<exists>a p t' cr. sn_Get e obs i row RowAccessor t = Inr (i, a, t') \<and> ra_client_row a = Some p \<and>
    ps_heap (sn_storage t') p = Some cr \<and> cr_data cr = (case ooc_rows e t row of None \<Rightarrow> r0 | Some r \<Rightarrow> r)"
proof -
  from find_or_create_ok [OF assms(1,2) row fresh, of 0] assms(3) obtain a p slot t1 where
    f: "find_or_create e row RowAccessor t = Inr (a, t1)" "ra_client_row a = Some p" "ooc_ok e minv rok (Some p) t1"
    "ck_find ck (ps_map (sn_storage t1)) row = Some (p, slot)"
    "ooc_rows e t1 = (ooc_rows e t)(row \<mapsto> case ooc_rows e t row of None \<Rightarrow> r0 | Some r \<Rightarrow> r)" by auto
  then obtain cr where cr: "ps_heap (sn_storage t1) p = Some cr" using cached_heap(1) by (metis ooc_ok_def)
  have "ooc_rows e t1 row = Some (cr_data cr)" using f(3,4) cr by (auto simp: ooc_ok_def ooc_rows_def rows_of_def)
  then have "cr_data cr = (case ooc_rows e t row of None \<Rightarrow> r0 | Some r \<Rightarrow> r)" using f(5) by simp
  moreover have "sn_Get e obs i row RowAccessor t = Inr (i, a, t1)" using f(1) i by (simp add: sn_Get_def CheckWaitClock_def)
  ultimately show ?thesis using f(2) cr by (intro exI [of _ a] exI [of _ p] exI [of _ t1] exI [of _ cr]) simp
qed

end

definition demo_ooc_env :: "((int, nat \<times> int) amap, int sparse_row, (bytes, bytes) amap) sn_env" where
  "demo_ooc_env = \<lparr>ne_map = alist_cuckoo, ne_fuel = 10, ne_try_lock = (\<lambda>_ _. True), ne_other = (\<lambda>s. s), ne_db = alist_db,
     ne_junk = (\<lambda>_. [])\<rparr>"

interpretation sparse_ooc: ooc_table demo_ooc_env "sparse_ops i32_pod" sparse_rok amap_ok
  by (intro ooc_table.intro ooc_table_axioms.intro)
    (simp_all add: demo_ooc_env_def alist_kv.kv_store_axioms sparse_disk.disk_row_axioms alist_ck.cuckoo_map_axioms)

text \<open>
  C11. The out-of-core table is a map from row ids to rows. Whatever batches of updates are applied one after the other to a new table,
  and however small its process cache is, \<open>Get\<close> hands out the row that the same batches give on a
  map that is never short of room: rows that were evicted to disk come back unchanged, with all their updates.
  The bounds say that the eviction search has enough rounds and that the 32-bit CLOCK hand does not overflow.
\<close>

theorem out_of_core_rows:
  assumes law: "ooc_table e ops rok minv"
    and conf: "gs_consistency_model g = LocalOOC" "reg (row_type (table_info config)) = Inr ops"
      "kv_Open (ne_db e) (MakeOOCDBPath g table_id) = Some w" "ro_Init ops (row_capacity (table_info config)) (ro_new ops) = Inr r0" "rok r0"
    and cap: "0 < process_cache_capacity config" "2 * process_cache_capacity config \<le> int (ne_fuel e)"
      "int (length xs + 1) * (2 * process_cache_capacity config) < 2 ^ 31" "process_cache_capacity config < 2 ^ 31 - 1"
    and rows: "\<forall>(row, us) \<in> set xs. is_i32 row \<and> row \<noteq> - 1" "ref_run ops rok r0 xs Map.empty = Some m"
    and get: "is_i32 row" "row \<noteq> - 1" "- table_staleness (table_info config) \<le> tsi_clock_ahead i"
  shows "\<exists>t t' a p t2 cr. ClientTableSN e reg g table_id config = Inr t \<and> sn_run e xs t = Inr t' \<and>
    sn_Get e obs i row RowAccessor t' = Inr (i, a, t2) \<and> ra_client_row a = Some p \<and> ps_heap (sn_storage t2) p = Some cr \<and>
    cr_data cr = (case m row of None \<Rightarrow> r0 | Some r \<Rightarrow> r)"
proof -
  from ooc_table.new_table_ok [OF law cap(1,4) conf(1) _ conf(3) cap(3,2)] conf(2) obtain t where
    t: "ClientTableSN e reg g table_id config = Inr t" "ooc_ok e minv rok None t" "ooc_rows e t = Map.empty"
    "hand_room e t (length xs + 1)" "sn_sample t = ops" "sn_row_capacity t = row_capacity (table_info config)"
    "sn_staleness t = table_staleness (table_info config)" by blast
  from ooc_table.sn_run_ok [OF law t(2,5,4), of r0 m] conf(4,5) rows t(3,6) obtain t' where
    t': "sn_run e xs t = Inr t'" "ooc_ok e minv rok None t'" "ooc_rows e t' = m" "same_conf t t'" "hand_room e t' 1"
    by auto
  have c: "sn_sample t' = ops" "sn_row_capacity t' = row_capacity (table_info config)" "sn_staleness t' = table_staleness (table_info config)"
    using t'(4) t(5-7) by (simp_all add: same_conf_def)
  from ooc_table.sn_Get_ok [OF law t'(2) c(1) t'(5) get(1,2), of r0 i obs] c conf(4,5) get(3) obtain a p t2 cr where
    "sn_Get e obs i row RowAccessor t' = Inr (i, a, t2)" "ra_client_row a = Some p" "ps_heap (sn_storage t2) p = Some cr"
    "cr_data cr = (case ooc_rows e t' row of None \<Rightarrow> r0 | Some r \<Rightarrow> r)" by auto
  with t(1) t'(1,3) show ?thesis by blast
qed

text \<open>One row fits into the cache: the third batch needs a row that is on disk.\<close>

definition demo_sn_config :: ClientTableConfig where
  "demo_sn_config = \<lparr>table_info = \<lparr>table_staleness = 0, row_type = 0, row_capacity = 4\<rparr>, process_cache_capacity = 1,
     thread_cache_capacity = 1, oplog_capacity = 1\<rparr>"

definition demo_batches :: "(int \<times> (int \<times> int) list) list" where
  "demo_batches = [(1, [(0, 5)]), (2, [(0, 7)]), (1, [(0, 1), (3, 4)])]"

theorem out_of_core_rows_witness:
  "\<exists>t t' a p t2 cr. ClientTableSN demo_ooc_env (\<lambda>_. Inr (sparse_ops i32_pod)) (GlobalContextSN_Init 1 1 1 ''/tmp'' LocalOOC) 0 demo_sn_config = Inr t \<and>
    sn_run demo_ooc_env demo_batches t = Inr t' \<and>
    sn_Get demo_ooc_env [] (ThreadContextSN_RegisterThread 100) 1 RowAccessor t' = Inr (ThreadContextSN_RegisterThread 100, a, t2) \<and>
    ra_client_row a = Some p \<and> ps_heap (sn_storage t2) p = Some cr \<and> cr_data cr = [(0, 6), (3, 4)]"
proof -
  let ?ops = "sparse_ops i32_pod"
  have r: "ref_run ?ops sparse_rok [] demo_batches Map.empty = Some (Map.empty(1 \<mapsto> [(0, 5)], 2 \<mapsto> [(0, 7)], 1 \<mapsto> [(0, 6), (3, 4)]))"
    by (simp add: demo_batches_def sparse_ops_def sparse_ApplyBatchInc_def sparse_batch_fold sparse_step_def sparse_index_def Let_def
        sparse_rok_def sparse_inv_def sparse_wire_def is_i32_def)
  have b: "\<forall>(row, us) \<in> set demo_batches. is_i32 row \<and> row \<noteq> - 1" "length demo_batches = 3" by (auto simp: demo_batches_def is_i32_def)
  from out_of_core_rows [OF sparse_ooc.ooc_table_axioms, of "GlobalContextSN_Init 1 1 1 ''/tmp'' LocalOOC" "\<lambda>_. Inr ?ops" demo_sn_config 0 "[]" "[]"
      demo_batches _ 1 "ThreadContextSN_RegisterThread 100" "[]", OF _ _ _ _ _ _ _ _ _ b(1) r]
  show ?thesis
    by (simp add: b(2) GlobalContextSN_Init_def demo_sn_config_def demo_ooc_env_def alist_db_def sparse_ops_def sparse_Init_def sparse_rok_def
        sparse_inv_def sparse_wire_def is_i32_def ThreadContextSN_RegisterThread_def)
qed

end
