(* ===== verification/Thread_Flush.thy ===== *)
theory Thread_Flush
imports Out_Of_Core Client_Updates
begin

text \<open>
  The thread cache of the single-node variant: what becomes of the updates a thread gathers with \<open>ThreadInc\<close> and
  \<open>ThreadBatchInc\<close> when it flushes.
\<close>

definition ts_ok :: "(int \<Rightarrow> bool) \<Rightarrow> ('r, 'v) thread_table_sn \<Rightarrow> bool" where
  "ts_ok col ts \<longleftrightarrow> ts_row_storage ts = [] \<and> amap_ok (ts_oplog_map ts) \<and>
     (\<forall>(row, l) \<in> set (ts_oplog_map ts). rol_ok l \<and> (\<forall>p \<in> set (rol_oplogs l). col (fst p)))"

definition ts_pend :: "('r, 'v::zero) thread_table_sn \<Rightarrow> int \<Rightarrow> int \<Rightarrow> 'v" where
  "ts_pend ts row = (case map_of (ts_oplog_map ts) row of None \<Rightarrow> (\<lambda>_. 0) | Some l \<Rightarrow> rol_val l)"

text \<open>The values of a row in the process cache.\<close>

definition mem_val :: "'pm storage_map \<Rightarrow> ('r \<Rightarrow> int \<Rightarrow> 'v) \<Rightarrow> ('pm, 'r) process_storage \<Rightarrow> int \<Rightarrow> (int \<Rightarrow> 'v) option" where
  "mem_val ck rval s row =
     (case ck_find ck (ps_map s) row of None \<Rightarrow> None | Some (p, slot) \<Rightarrow> map_option (\<lambda>cr. rval (cr_data cr)) (ps_heap s p))"

text \<open>Calls of \<open>ThreadBatchInc\<close> one after the other, and their sum for a row.\<close>

definition thread_run ::
  "int \<Rightarrow> (int \<times> (int \<times> 'v) list) list \<Rightarrow> ('pm, 'r, 'v, 'w) client_table_sn \<Rightarrow> ('pm, 'r, 'v, 'w) client_table_sn result" where
  "thread_run tid xs t = foldM (\<lambda>t (row, us). sn_ThreadBatchInc tid row us t) t xs"

definition row_sum :: "(int \<times> (int \<times> 'v::ab_group_add) list) list \<Rightarrow> int \<Rightarrow> int \<Rightarrow> 'v" where
  "row_sum xs row c = upd_sum (concat (map snd (filter (\<lambda>x. fst x = row) xs))) c"

lemma row_sum_simps [simp]:
  "row_sum [] row = (\<lambda>_. 0)"
  "row_sum ((row', us) # xs) row = (\<lambda>c. (if row' = row then upd_sum us c else 0) + row_sum xs row c)"
  by (auto simp: row_sum_def upd_sum_def fun_eq_iff)

lemma access_rows_fold:
  assumes "ra_client_row a = Some p" "ps_heap s p = Some cr" "foldM (\<lambda>r (c, u). ro_ApplyInc ops c u r) (cr_data cr) us = Inr r'"
  shows "foldM (\<lambda>s (c, u). access_row a (ro_ApplyInc ops c u) s) s us = Inr (s\<lparr>ps_heap := (ps_heap s)(p \<mapsto> cr\<lparr>cr_data := r'\<rparr>)\<rparr>)"
  using assms(2,3)
proof (induction us arbitrary: s cr)
  case Nil
  then have c: "cr\<lparr>cr_data := r'\<rparr> = cr" and h: "(ps_heap s)(p \<mapsto> cr) = ps_heap s" by auto
  show ?case unfolding c h by simp
next
  case (Cons x us)
  obtain c u where x: "x = (c, u)" by force
  obtain r1 where r1: "ro_ApplyInc ops c u (cr_data cr) = Inr r1" "foldM (\<lambda>r (c, u). ro_ApplyInc ops c u r) r1 us = Inr r'"
    using Cons.prems(2) x by (auto simp: rbind_eq_Inr)
  let ?s = "s\<lparr>ps_heap := (ps_heap s)(p \<mapsto> cr\<lparr>cr_data := r1\<rparr>)\<rparr>"
  have "access_row a (ro_ApplyInc ops c u) s = Inr ?s" using assms(1) Cons.prems(1) r1(1) by (simp add: access_row_def deref_def)
  then show ?case using Cons.IH [of ?s "cr\<lparr>cr_data := r1\<rparr>"] r1(2) x by (simp cong: if_cong)
qed

context additive_row
begin

lemma ts_BatchInc_ok:
  fixes ts :: "('r, 'v) thread_table_sn"
  assumes ts: "ts_ok col ts" and us: "\<forall>p \<in> set us. col (fst p)"
  shows "\<exists>ts'. ts_BatchInc ops row us ts = Inr ts' \<and> ts_ok col ts' \<and>
    ts_pend ts' = (ts_pend ts)(row := (\<lambda>c. ts_pend ts row c + upd_sum us c))"
proof -
  let ?l = "ts_oplog ops row ts"
  let ?l' = "fold (add_update ops) us ?l"
  let ?ts = "ts\<lparr>ts_oplog_map := AList.update row ?l' (ts_oplog_map ts)\<rparr>"
  have am: "amap_ok (ts_oplog_map ts)" using ts by (simp add: ts_ok_def)
  have l: "rol_ok ?l" "rol_val ?l = ts_pend ts row" "\<forall>p \<in> set (rol_oplogs ?l). col (fst p)"
    using ts by (auto simp: ts_oplog_def ts_ok_def ts_pend_def RowOpLog_def rol_ok_def rol_val_def fun_eq_iff
        dest!: map_of_SomeD split: option.split)
  note a = add_updates_ok [OF l(1), of us]
  have "ts_BatchInc ops row us ts = Inr ?ts" using ts by (simp add: ts_BatchInc_def ts_apply_def ts_ok_def)
  moreover have "col c" if "(c, u) \<in> set (rol_oplogs ?l')" for c u
  proof -
    have "c \<in> set (keys (rol_oplogs ?l'))" using that by force
    then have "c \<in> fst ` set us \<or> c \<in> set (keys (rol_oplogs ?l))" using a by blast
    then show ?thesis using us l(3) by auto
  qed
  then have "ts_ok col ?ts" using ts a set_update_amap [OF am, of row ?l'] by (auto simp: ts_ok_def amap.upd_ok)
  moreover have "ts_pend ?ts = (ts_pend ts)(row := (\<lambda>c. ts_pend ts row c + upd_sum us c))"
    using a l(2) by (auto simp: ts_pend_def update_conv' fun_eq_iff)
  ultimately show ?thesis by blast
qed

lemma thread_run_ok:
  fixes t :: "('pm, 'r, 'v, 'w) client_table_sn"
  assumes "sn_sample t = ops" "sn_cache tid t = Inr ts" "ts_ok col ts" "\<forall>x \<in> set xs. \<forall>p \<in> set (snd x). col (fst p)"
  shows "\<exists>t' ts'. thread_run tid xs t = Inr t' \<and> sn_cache tid t' = Inr ts' \<and> ts_ok col ts' \<and> sn_sample t' = ops \<and>
    sn_storage t' = sn_storage t \<and> sn_ooc t' = sn_ooc t \<and> sn_next t' = sn_next t \<and>
    ts_pend ts' = (\<lambda>row c. ts_pend ts row c + row_sum xs row c)"
  using assms
proof (induction xs arbitrary: t ts)
  case Nil
  then show ?case by (intro exI [of _ t] exI [of _ ts]) (simp add: thread_run_def)
next
  case (Cons x xs)
  obtain row us where x: "x = (row, us)" by force
  have us: "\<forall>p \<in> set us. col (fst p)" using Cons.prems(4) x by auto
  from ts_BatchInc_ok [OF Cons.prems(3) us, of row] obtain ts1 where
    t1: "ts_BatchInc ops row us ts = Inr ts1" "ts_ok col ts1" "ts_pend ts1 = (ts_pend ts)(row := (\<lambda>c. ts_pend ts row c + upd_sum us c))" by blast
  let ?t = "sn_set_cache tid ts1 t"
  have s1: "sn_ThreadBatchInc tid row us t = Inr ?t" using Cons.prems(1,2) t1(1) by (simp add: sn_ThreadBatchInc_def)
  have c1: "sn_cache tid ?t = Inr ts1" "sn_sample ?t = ops" using Cons.prems(1) by (simp_all add: sn_set_cache_def sn_cache_def update_conv' of_option_def)
  from Cons.IH [OF c1(2,1) t1(2)] Cons.prems(4) obtain t' ts' where
    t': "thread_run tid xs ?t = Inr t'" "sn_cache tid t' = Inr ts'" "ts_ok col ts'" "sn_sample t' = ops" "sn_storage t' = sn_storage ?t"
    "sn_ooc t' = sn_ooc ?t" "sn_next t' = sn_next ?t" "ts_pend ts' = (\<lambda>row c. ts_pend ts1 row c + row_sum xs row c)" by auto
  have "ts_pend ts' = (\<lambda>r c. ts_pend ts r c + row_sum (x # xs) r c)" using t'(8) t1(3) x by (auto simp: fun_eq_iff algebra_simps)
  with t' s1 x show ?case by (intro exI [of _ t'] exI [of _ ts']) (simp add: thread_run_def sn_set_cache_def)
qed

lemma flush_row_ok:
  fixes s :: "('pm, 'r) process_storage"
  assumes ok: "mem_ok ck minv (col_inv rinv rcol col) nxt None s" and l: "rol_ok l" "\<forall>p \<in> set (rol_oplogs l). col (fst p)"
  shows "\<exists>s'. ts_flush_row ck ops s (row, l) = Inr s' \<and> mem_ok ck minv (col_inv rinv rcol col) nxt None s' \<and>
    mem_val ck rval s' = (mem_val ck rval s)(row := map_option (\<lambda>v c. v c + rol_val l c) (mem_val ck rval s row))"
proof (cases "ck_find ck (ps_map s) row")
  case None
  then have "ts_flush_row ck ops s (row, l) = Inr s" by (simp add: ts_flush_row_def storage_Find_def end_accessor_def accessor_Clear_def RowAccessor_def)
  then show ?thesis using None ok by (auto simp: mem_val_def fun_eq_iff)
next
  case (Some ps)
  obtain p slot where ps: "ps = (p, slot)" by force
  note f = Some [unfolded ps]
  obtain cr where cr: "ps_heap s p = Some cr" using cached_heap(1) [OF ok f] by blast
  from find_hit [OF ok f cr] obtain a s1 where s1: "storage_Find ck row RowAccessor s = Inr (True, a, s1)" "ra_client_row a = Some p"
    "mem_ok ck minv (col_inv rinv rcol col) nxt (Some p) s1" "ps_map s1 = ps_map s" "ps_heap s1 = (ps_heap s)(p \<mapsto> IncRef cr)" by blast
  have r: "col_inv rinv rcol col (cr_data cr)" "cr_num_refs cr = 0" using mem_okD(4) [OF ok f cr] by simp_all
  from incs_ok [OF r(1) l(2)] obtain r' where r': "foldM (\<lambda>r (c, u). ro_ApplyInc ops c u r) (cr_data cr) (rol_oplogs l) = Inr r'"
    "col_inv rinv rcol col r'" "rval r' = (\<lambda>c. rval (cr_data cr) c + upd_sum (rol_oplogs l) c)" by blast
  have h1: "ps_heap s1 p = Some (IncRef cr)" using s1(5) by simp
  let ?c = "(IncRef cr)\<lparr>cr_data := r'\<rparr>"
  let ?s2 = "s1\<lparr>ps_heap := (ps_heap s1)(p \<mapsto> ?c)\<rparr>" and ?s3 = "s1\<lparr>ps_heap := (ps_heap s1)(p \<mapsto> DecRef ?c)\<rparr>"
  have "foldM (\<lambda>s (c, u). access_row a (ro_ApplyInc ops c u) s) s1 (rol_oplogs l) = Inr ?s2"
    by (rule access_rows_fold [OF s1(2) h1]) (simp add: r'(1) IncRef_def)
  then have run: "ts_flush_row ck ops s (row, l) = Inr ?s3"
    using s1(1,2) by (simp add: ts_flush_row_def end_accessor_def accessor_Clear_def deref_def)
  have f1: "ck_find ck (ps_map s1) row = Some (p, slot)" using f s1(4) by simp
  have "mem_ok ck minv (col_inv rinv rcol col) nxt None ?s3"
    by (rule mem_ok_change [OF s1(3) f1 h1, where cr' = "DecRef ?c"])
      (use r(2) r'(2) s1(3) in \<open>simp_all add: DecRef_def IncRef_def mem_ok_def cache_ok_def\<close>)
  moreover have "mem_val ck rval ?s3 = (mem_val ck rval s)(row := map_option (\<lambda>v c. v c + rol_val l c) (mem_val ck rval s row))"
  proof
    fix x
    have en: "entries_ok ck (ps_map s) (ps_lru s) (ps_heap s)" using ok by (simp add: mem_ok_def cache_ok_def)
    have "q \<noteq> p" if "ck_find ck (ps_map s) x = Some (q, k)" "x \<noteq> row" for q k using that entry_inj [OF en f, of x k] by auto
    then show "mem_val ck rval ?s3 x = ((mem_val ck rval s)(row := map_option (\<lambda>v c. v c + rol_val l c) (mem_val ck rval s row))) x"
      using f cr s1(4,5) r'(3) rol_val_sum [OF l(1)]
      by (cases "x = row") (auto simp: mem_val_def DecRef_def split: option.splits)
  qed
  ultimately show ?thesis using run by blast
qed

lemma flush_rows_ok:
  fixes s :: "('pm, 'r) process_storage"
  assumes "mem_ok ck minv (col_inv rinv rcol col) nxt None s" "amap_ok ls"
    and "\<forall>(row, l) \<in> set ls. rol_ok l \<and> (\<forall>p \<in> set (rol_oplogs l). col (fst p))"
  shows "\<exists>s'. foldM (ts_flush_row ck ops) s ls = Inr s' \<and> mem_ok ck minv (col_inv rinv rcol col) nxt None s' \<and>
    mem_val ck rval s' = (\<lambda>row. map_option (\<lambda>v c. v c + (case map_of ls row of None \<Rightarrow> 0 | Some l \<Rightarrow> rol_val l c)) (mem_val ck rval s row))"
  using assms
proof (induction ls arbitrary: s)
  case Nil
  then show ?case by (auto simp: fun_eq_iff option.map_ident)
next
  case (Cons x ls)
  obtain row l where x: "x = (row, l)" by force
  have l: "rol_ok l" "\<forall>p \<in> set (rol_oplogs l). col (fst p)" and ls: "amap_ok ls" "map_of ls row = None"
    using Cons.prems(2,3) x by (auto simp: amap_ok_def map_of_eq_None_iff)
  from flush_row_ok [OF Cons.prems(1) l, of row] obtain s1 where s1: "ts_flush_row ck ops s (row, l) = Inr s1"
    "mem_ok ck minv (col_inv rinv rcol col) nxt None s1"
    "mem_val ck rval s1 = (mem_val ck rval s)(row := map_option (\<lambda>v c. v c + rol_val l c) (mem_val ck rval s row))" by blast
  from Cons.IH [OF s1(2) ls(1)] Cons.prems(3) obtain s' where s': "foldM (ts_flush_row ck ops) s1 ls = Inr s'"
    "mem_ok ck minv (col_inv rinv rcol col) nxt None s'"
    "mem_val ck rval s' = (\<lambda>row. map_option (\<lambda>v c. v c + (case map_of ls row of None \<Rightarrow> 0 | Some l \<Rightarrow> rol_val l c)) (mem_val ck rval s1 row))" by auto
  have "mem_val ck rval s' r = map_option (\<lambda>v c. v c + (case map_of (x # ls) r of None \<Rightarrow> 0 | Some l \<Rightarrow> rol_val l c)) (mem_val ck rval s r)" for r
    using s'(3) s1(3) x ls(2) by (cases "r = row") (simp_all add: option.map_comp comp_def)
  with s1(1) s'(1,2) x show ?case by (intro exI [of _ s']) (simp add: fun_eq_iff)
qed

end

text \<open>
  C24. What a flush of the thread cache does. After any calls of \<open>ThreadBatchInc\<close> from an empty thread cache, a flush leaves
  the thread cache empty, and each row that is in the process cache has gained exactly the sum of its updates. Rows on disk and rows
  not yet made stay as they are: the updates gathered for them are dropped.
\<close>

theorem thread_cache_flush:
  fixes t :: "('pm, 'r, 'v::ab_group_add, 'w) client_table_sn"
  assumes row: "additive_row (sn_sample t) rinv rval rcol rwire"
    and ok: "mem_ok (ne_map e) minv (col_inv rinv rcol col) nxt None (sn_storage t)"
    and empty: "sn_cache tid t = Inr ThreadTableSN" and xs: "\<forall>x \<in> set xs. \<forall>p \<in> set (snd x). col (fst p)"
  shows "\<exists>t1 t2. thread_run tid xs t = Inr t1 \<and> sn_FlushThreadCache e tid t1 = Inr t2 \<and> sn_cache tid t2 = Inr ThreadTableSN \<and>
    sn_ooc t2 = sn_ooc t \<and>
    mem_val (ne_map e) rval (sn_storage t2) =
      (\<lambda>row. map_option (\<lambda>v c. v c + row_sum xs row c) (mem_val (ne_map e) rval (sn_storage t) row))"
proof -
  have ts: "ts_ok col (ThreadTableSN :: ('r, 'v) thread_table_sn)" "ts_pend (ThreadTableSN :: ('r, 'v) thread_table_sn) = (\<lambda>_ _. 0)"
    by (simp_all add: ts_ok_def ThreadTableSN_def amap_ok_def ts_pend_def fun_eq_iff)
  from additive_row.thread_run_ok [OF row refl empty ts(1) xs] ts(2) obtain t1 ts1 where
    t1: "thread_run tid xs t = Inr t1" "sn_cache tid t1 = Inr ts1" "ts_ok col ts1" "sn_sample t1 = sn_sample t" "sn_storage t1 = sn_storage t"
    "sn_ooc t1 = sn_ooc t" "ts_pend ts1 = row_sum xs" by auto
  have l: "amap_ok (ts_oplog_map ts1)" "\<forall>(row, l) \<in> set (ts_oplog_map ts1). rol_ok l \<and> (\<forall>p \<in> set (rol_oplogs l). col (fst p))"
    using t1(3) by (auto simp: ts_ok_def)
  from additive_row.flush_rows_ok [OF row ok l] obtain s where
    s: "foldM (ts_flush_row (ne_map e) (sn_sample t)) (sn_storage t) (ts_oplog_map ts1) = Inr s"
    "mem_val (ne_map e) rval s = (\<lambda>row. map_option (\<lambda>v c. v c + (case map_of (ts_oplog_map ts1) row of None \<Rightarrow> 0 | Some l \<Rightarrow> rol_val l c))
       (mem_val (ne_map e) rval (sn_storage t) row))" by blast
  let ?t2 = "sn_set_cache tid (ts1\<lparr>ts_oplog_map := [], ts_row_storage := []\<rparr>) (t1\<lparr>sn_storage := s\<rparr>)"
  have "sn_FlushThreadCache e tid t1 = Inr ?t2" using t1(2,4,5) s(1) by (simp add: sn_FlushThreadCache_def ts_FlushCache_def)
  moreover have "sn_cache tid ?t2 = Inr ThreadTableSN"
    by (simp add: sn_set_cache_def sn_cache_def update_conv' of_option_def ThreadTableSN_def)
  moreover have z: "(case map_of (ts_oplog_map ts1) row of None \<Rightarrow> 0 | Some l \<Rightarrow> rol_val l c) = row_sum xs row c" for row c
    unfolding t1(7) [symmetric] by (auto simp: ts_pend_def split: option.split)
  have "mem_val (ne_map e) rval s = (\<lambda>row. map_option (\<lambda>v c. v c + row_sum xs row c) (mem_val (ne_map e) rval (sn_storage t) row))"
    unfolding s(2) z ..
  ultimately show ?thesis using t1(1,6) by (intro exI [of _ t1] exI [of _ ?t2]) (simp add: sn_set_cache_def)
qed

text \<open>Row 4 is in the process cache, row 9 is not.\<close>

definition demo_sn_table :: "((int, nat \<times> int) amap, int sparse_row, int, (bytes, bytes) amap) client_table_sn" where
  "demo_sn_table =
     \<lparr>sn_table_id = 0, sn_sample = sparse_ops i32_pod, sn_staleness = 0, sn_row_capacity = 4,
      sn_storage =
        \<lparr>ps_capacity = 1, ps_num_rows = 1, ps_map = [(4, (0, 0))],
         ps_lru = \<lparr>lru_capacity = 1, evict_hand = 0, insert_hand = 1, empty_slots = [], stale = [False], row_ids = [4]\<rparr>,
         ps_heap = [0 \<mapsto> SSPClientRow 0 [(1, 10)]]\<rparr>,
      sn_next = 1, sn_thread_cache = [(100, ThreadTableSN)], sn_ooc = None\<rparr>"

theorem thread_cache_flush_witness:
  "\<exists>t1 t2 v. thread_run 100 [(4, [(1, 3)]), (9, [(0, 2)]), (4, [(1, 4)])] demo_sn_table = Inr t1 \<and> sn_FlushThreadCache demo_ooc_env 100 t1 = Inr t2 \<and>
     mem_val alist_cuckoo sparse_index (sn_storage t2) 4 = Some v \<and> v 1 = 17 \<and> mem_val alist_cuckoo sparse_index (sn_storage t2) 9 = None"
proof -
  have ok: "mem_ok (ne_map demo_ooc_env) amap_ok (col_inv sparse_inv (\<lambda>_ _. True) (\<lambda>_. True)) 1 None (sn_storage demo_sn_table)"
    by (auto simp: mem_ok_def cache_ok_def entries_ok_def demo_sn_table_def demo_ooc_env_def alist_cuckoo_def lru_ok_def amap_ok_def occupied_def
        is_i32_def col_inv_def sparse_inv_def SSPClientRow_def split: if_splits)
  have row: "additive_row (sn_sample demo_sn_table) sparse_inv sparse_index (\<lambda>_ _. True) (sparse_wire is_i32)"
    using sparse_i32.additive_row_axioms by (simp add: demo_sn_table_def)
  have c: "sn_cache 100 demo_sn_table = Inr ThreadTableSN" by (simp add: sn_cache_def demo_sn_table_def)
  have v: "mem_val alist_cuckoo sparse_index (sn_storage demo_sn_table) 4 = Some (sparse_index [(1, 10)])"
    "mem_val alist_cuckoo sparse_index (sn_storage demo_sn_table) 9 = None" "sparse_index [(1, 10)] 1 = (10::int)"
    by (simp_all add: mem_val_def alist_cuckoo_def demo_sn_table_def SSPClientRow_def sparse_index_def)
  have e: "ne_map demo_ooc_env = alist_cuckoo" by (simp add: demo_ooc_env_def)
  from thread_cache_flush [OF row ok c, of "[(4, [(1, 3)]), (9, [(0, 2)]), (4, [(1, 4)])]"] show ?thesis
    unfolding e by (auto simp: v)
qed

end
