(* ===== verification/Push_Reader.thy ===== *)
theory Push_Reader
imports Server_Push Bg_Worker
begin

text \<open>
  What a message with pushed rows holds: its bytes are the images of table ids, rows and separators, and the reader of the
  client finds exactly the rows.  The rest of the message is the end mark, or too short for one.
\<close>

section \<open>Reading all rows\<close>

text \<open>The reader as \<open>ApplyServerPushedRow\<close> drives it: the rows of a message in order.\<close>

fun read_rows :: "nat \<Rightarrow> bytes \<Rightarrow> row_reader \<Rightarrow> (int \<times> int \<times> bytes) list result" where
  "read_rows 0 m rr = Inl OutOfFuel"
| "read_rows (Suc n) m rr =
     rbind (RowReader_Next m (length m) rr) (\<lambda>(x, rr).
     case x of None \<Rightarrow> Inr []
     | Some (t, row, off, sz) \<Rightarrow>
         rbind (mem_read m off sz) (\<lambda>data. rbind (read_rows n m rr) (\<lambda>rows. Inr ((t, row, data) # rows))))"

definition message_rows :: "nat \<Rightarrow> bytes \<Rightarrow> (int \<times> int \<times> bytes) list result" where
  "message_rows n m = rbind (RowReader_Restart m SerializedRowReader) (\<lambda>(ne, rr). if ne then read_rows n m rr else Inr [])"

definition apply_pushed ::
  "('pm, 'om, 'im, 'r, 'v) bg_env \<Rightarrow> global_context \<Rightarrow> 32 word \<Rightarrow> ('pm, 'om, 'im, 'r, 'v) bg_state \<Rightarrow>
   int \<times> int \<times> bytes \<Rightarrow> ('pm, 'om, 'im, 'r, 'v) bg_state result" where
  "apply_pushed e g version s x =
     (case x of (t, row, data) \<Rightarrow>
      rbind (received_row e t data s) (\<lambda>(ops, r). ApplyOpLogsAndInsertRow e g t row version ops r 0 s))"

lemma apply_pushed_eq: "apply_pushed e g version s (t, row, data) =
    rbind (received_row e t data s) (\<lambda>(ops, r). ApplyOpLogsAndInsertRow e g t row version ops r 0 s)"
  by (simp add: apply_pushed_def)

lemma pushed_rows_loop_read:
  "read_rows n m rr = Inr rows \<Longrightarrow> pushed_rows_loop n e g version m rr s = foldM (apply_pushed e g version) s rows"
proof (induction n arbitrary: rr rows s)
  case (Suc n)
  obtain x rr' where x: "RowReader_Next m (length m) rr = Inr (x, rr')" using Suc.prems by (auto simp: rbind_eq_Inr)
  show ?case
  proof (cases x)
    case None
    then show ?thesis using Suc.prems x by simp
  next
    case (Some y)
    obtain t row off sz where y: "y = (t, row, off, sz)" by (cases y)
    obtain data rows' where r: "mem_read m off sz = Inr data" "read_rows n m rr' = Inr rows'" "rows = (t, row, data) # rows'"
      using Suc.prems x Some y by (auto simp: rbind_eq_Inr)
    have "pushed_rows_loop n e g version m rr' = (\<lambda>s. foldM (apply_pushed e g version) s rows')" using Suc.IH [OF r(2)] by (simp add: fun_eq_iff)
    then show ?thesis using r x Some y by (cases "received_row e t data s") (auto simp: apply_pushed_eq)
  qed
qed simp

lemma ApplyServerPushedRow_read:
  "message_rows (be_fuel e) m = Inr rows \<Longrightarrow> ApplyServerPushedRow e g version m s = foldM (apply_pushed e g version) s rows"
  by (auto simp: message_rows_def ApplyServerPushedRow_def rbind_eq_Inr pushed_rows_loop_read split: if_splits)

section \<open>The contents of a message\<close>

datatype push_item = TableId int | PushRow int bytes | TableSep

fun item_image :: "push_item \<Rightarrow> bytes" where
  "item_image (TableId t) = i32_enc t"
| "item_image (PushRow row rec) = rec_image row rec"
| "item_image TableSep = i32_enc get_serialized_table_separator"

definition items_image :: "push_item list \<Rightarrow> bytes" where
  "items_image is = concat (map item_image is)"

text \<open>The rows after a table id, with the table they belong to.\<close>

fun item_rows :: "int \<Rightarrow> push_item list \<Rightarrow> (int \<times> int \<times> bytes) list" where
  "item_rows t [] = []"
| "item_rows t (TableId t' # is) = item_rows t' is"
| "item_rows t (PushRow row rec # is) = (t, row, rec) # item_rows t is"
| "item_rows t (TableSep # is) = item_rows t is"

text \<open>What may follow a table id. A separator comes last only when the next table id did not fit.\<close>

fun rows_ok :: "push_item list \<Rightarrow> bool" where
  "rows_ok [] = True"
| "rows_ok (PushRow row rec # is) = (0 \<le> row \<and> is_i32 row \<and> is_size (length rec) \<and> rows_ok is)"
| "rows_ok [TableSep] = True"
| "rows_ok (TableSep # TableId t # is) = (0 \<le> t \<and> is_i32 t \<and> rows_ok is)"
| "rows_ok _ = False"

fun items_ok :: "push_item list \<Rightarrow> bool" where
  "items_ok (TableId t # is) = (0 \<le> t \<and> is_i32 t \<and> rows_ok is)"
| "items_ok _ = False"

definition ends_ok :: "push_item list \<Rightarrow> bytes \<Rightarrow> bool" where
  "ends_ok is rest \<longleftrightarrow> length rest < 4 \<or> (is = [] \<or> last is \<noteq> TableSep) \<and> (\<exists>r. rest = i32_enc get_serialized_table_end @ r)"

lemma items_image_simps [simp]:
  "items_image [] = []" "items_image (i # is) = item_image i @ items_image is" "items_image (is @ js) = items_image is @ items_image js"
  by (simp_all add: items_image_def)

lemma ends_ok_tl: "ends_ok (i # is) rest \<Longrightarrow> is \<noteq> [] \<or> i \<noteq> TableSep \<Longrightarrow> ends_ok is rest"
  by (auto simp: ends_ok_def split: if_splits)

lemma marks_i32 [simp]: "is_i32 get_serialized_table_separator" "is_i32 get_serialized_table_end"
  by (simp_all add: is_i32_def get_serialized_table_separator_def get_serialized_table_end_def)

lemma read_rows_items:
  assumes "rows_ok is" "ends_ok is rest" "at_mem m off (items_image is @ rest)" "off + length (items_image is @ rest) = length m"
    and "length is < n"
  shows "read_rows n m \<lparr>rr_offset = off, rr_table_id = t\<rparr> = Inr (item_rows t is)"
  using assms
proof (induction "is" arbitrary: off t n rule: rows_ok.induct)
  case 1
  then obtain k where n: "n = Suc k" by (cases n) auto
  show ?case
  proof (cases "length rest < 4")
    case True
    then show ?thesis using 1 n by (simp add: RowReader_Next_def)
  next
    case False
    then obtain r where "rest = i32_enc get_serialized_table_end @ r" using 1 by (auto simp: ends_ok_def)
    then have "rd_i32 m off = Inr get_serialized_table_end" "\<not> length m < off + 4"
      using 1 by (auto simp: at_mem_append intro: rd_i32_at)
    then show ?thesis using n by (simp add: RowReader_Next_def row_reader_loop.simps get_serialized_table_end_def get_serialized_table_separator_def)
  qed
next
  case (2 row rec "is")
  then obtain k where n: "n = Suc k" "length is < k" by (cases n) auto
  have m: "at_mem m off (i32_enc row)" "at_mem m (off + 4) (size_enc (length rec))" "at_mem m (off + 12) rec"
    "at_mem m (off + 12 + length rec) (items_image is @ rest)"
    using 2 by (simp_all add: rec_image_def at_mem_append add.assoc)
  have "read_rows k m \<lparr>rr_offset = off + 12 + length rec, rr_table_id = t\<rparr> = Inr (item_rows t is)"
    using 2 m(4) n(2) ends_ok_tl [OF 2(3)] by (intro "2.IH") (auto simp: rec_image_def)
  moreover have "RowReader_Next m (length m) \<lparr>rr_offset = off, rr_table_id = t\<rparr> =
      Inr (Some (t, row, off + 12, length rec), \<lparr>rr_offset = off + 12 + length rec, rr_table_id = t\<rparr>)"
    using 2 rd_i32_at [OF _ m(1)] rd_size_at [OF _ m(2)]
    by (simp add: RowReader_Next_def row_reader_loop.simps get_serialized_table_end_def get_serialized_table_separator_def rec_image_def)
  ultimately show ?case using n(1) mem_read_at [OF m(3)] by simp
next
  case 3
  then obtain k where n: "n = Suc k" by (cases n) auto
  have "rd_i32 m off = Inr get_serialized_table_separator" using 3 by (auto simp: at_mem_append intro: rd_i32_at)
  then show ?case using 3 n by (simp add: RowReader_Next_def row_reader_loop.simps ends_ok_def)
next
  case (4 t' "is")
  have sep: "rd_i32 m off = Inr get_serialized_table_separator" "rd_i32 m (off + 4) = Inr t'"
    using 4 by (auto simp: at_mem_append intro: rd_i32_at)
  have m: "at_mem m (off + 8) (items_image is @ rest)" using 4 by (simp add: at_mem_append add.assoc)
  have l: "\<not> length m < off + 4" "\<not> length m < off + 8" using 4 by auto
  have e: "ends_ok is rest" using 4 by (auto simp: ends_ok_def split: if_splits)
  have "read_rows n m \<lparr>rr_offset = off + 8, rr_table_id = t'\<rparr> = Inr (item_rows t' is)"
    using 4 m e by (intro "4.IH") auto
  moreover have "RowReader_Next m (length m) \<lparr>rr_offset = off, rr_table_id = t\<rparr> = RowReader_Next m (length m) \<lparr>rr_offset = off + 8, rr_table_id = t'\<rparr>"
    unfolding RowReader_Next_def by (subst row_reader_loop.simps) (simp add: sep l Let_def add.commute)
  moreover obtain k where "n = Suc k" using 4 by (cases n) auto
  ultimately show ?case by simp
qed auto

lemma message_rows_items:
  assumes "items_ok is" "ends_ok is rest" "length is \<le> n"
  shows "message_rows n (items_image is @ rest) = Inr (item_rows 0 is)"
proof -
  obtain t js where i: "is = TableId t # js" "0 \<le> t" "is_i32 t" "rows_ok js" using assms(1) by (cases "is" rule: items_ok.cases) auto
  let ?m = "items_image is @ rest"
  have m: "at_mem ?m 0 (i32_enc t)" "at_mem ?m 4 (items_image js @ rest)"
    using at_mem_whole [of ?m] i(1) by (simp_all add: at_mem_append)
  have "read_rows n ?m \<lparr>rr_offset = 4, rr_table_id = t\<rparr> = Inr (item_rows t js)"
    using i assms ends_ok_tl [of "TableId t" js rest] by (intro read_rows_items [OF i(4) _ m(2)]) auto
  then show ?thesis using i rd_i32_at [OF i(3) m(1)]
    by (simp add: message_rows_def RowReader_Restart_def get_serialized_table_end_def)
qed

text \<open>A message that has only the end mark.\<close>

lemma message_rows_empty: "message_rows n (i32_enc get_serialized_table_end @ rest) = Inr []"
proof -
  have "rd_i32 (i32_enc get_serialized_table_end @ rest) 0 = Inr get_serialized_table_end"
    using at_mem_embed [of "[]"] by (intro rd_i32_at) simp_all
  then show ?thesis by (simp add: message_rows_def RowReader_Restart_def)
qed

end
