(* ===== verification/Push_Proofs.thy ===== *)
theory Push_Proofs
imports Push_Reader Client_Proofs
begin

text \<open>
  The server's push of updated rows: for every background thread the messages together carry exactly the dirty rows its client has
  subscribed to and it is responsible for, each once, in the order of tables and rows.
\<close>

section \<open>Messages and buffers\<close>

text \<open>\<open>carries sz m rows\<close>: the message has at most \<open>sz\<close> bytes and the reader of the client finds the rows in it.\<close>

definition carries :: "nat \<Rightarrow> bytes \<Rightarrow> (int \<times> int \<times> bytes) list \<Rightarrow> bool" where
  "carries sz m rows \<longleftrightarrow> length m \<le> sz \<and> (\<forall>n \<ge> sz. message_rows n m = Inr rows)"

fun carried :: "nat \<Rightarrow> bytes list \<Rightarrow> (int \<times> int \<times> bytes) list \<Rightarrow> bool" where
  "carried sz [] rows = (rows = [])"
| "carried sz (m # ms) rows = (\<exists>r1 r2. carries sz m r1 \<and> carried sz ms r2 \<and> rows = r1 @ r2)"

lemma carried_snoc: "carried sz ms rows \<Longrightarrow> carries sz m r \<Longrightarrow> carried sz (ms @ [m]) (rows @ r)"
  by (induction ms arbitrary: rows) fastforce+

lemma carried_apply:
  "carried sz ms rows \<Longrightarrow> sz \<le> be_fuel e \<Longrightarrow> foldM (\<lambda>s m. ApplyServerPushedRow e g v m s) s ms = foldM (apply_pushed e g v) s rows"
  by (induction ms arbitrary: rows s) (auto simp: carries_def ApplyServerPushedRow_read foldM_append cong: rbind_cong)

lemma items_image_length: "length is \<le> length (items_image is)"
proof (induction "is")
  case (Cons i "is")
  have "1 \<le> length (item_image i)" by (cases i) (simp_all add: rec_image_def)
  with Cons show ?case by simp
qed simp

lemma carries_items: "items_ok is \<Longrightarrow> ends_ok is rest \<Longrightarrow> length (items_image is @ rest) \<le> sz \<Longrightarrow> carries sz (items_image is @ rest) (item_rows 0 is)"
  using items_image_length [of "is"] by (auto simp: carries_def intro!: message_rows_items)

fun cur_table :: "int \<Rightarrow> push_item list \<Rightarrow> int" where
  "cur_table t [] = t"
| "cur_table t (TableId t' # is) = cur_table t' is"
| "cur_table t (PushRow row rec # is) = cur_table t is"
| "cur_table t (TableSep # is) = cur_table t is"

lemma item_rows_append: "item_rows t (is @ js) = item_rows t is @ item_rows (cur_table t is) js"
  by (induction t "is" rule: item_rows.induct) simp_all

lemma cur_table_append: "cur_table t (is @ js) = cur_table (cur_table t is) js"
  by (induction t "is" rule: item_rows.induct) simp_all

lemma rows_ok_snoc:
  assumes "rows_ok is"
  shows "0 \<le> row \<Longrightarrow> is_i32 row \<Longrightarrow> is_size (length rec) \<Longrightarrow> is = [] \<or> last is \<noteq> TableSep \<Longrightarrow> rows_ok (is @ [PushRow row rec])"
    and "is = [] \<or> last is \<noteq> TableSep \<Longrightarrow> rows_ok (is @ [TableSep])"
    and "is \<noteq> [] \<Longrightarrow> last is = TableSep \<Longrightarrow> 0 \<le> t \<Longrightarrow> is_i32 t \<Longrightarrow> rows_ok (is @ [TableId t])"
  using assms by (induction "is" rule: rows_ok.induct) (auto split: if_splits)

lemma items_ok_snoc:
  assumes "items_ok is"
  shows "0 \<le> row \<Longrightarrow> is_i32 row \<Longrightarrow> is_size (length rec) \<Longrightarrow> last is \<noteq> TableSep \<Longrightarrow> items_ok (is @ [PushRow row rec])"
    and "last is \<noteq> TableSep \<Longrightarrow> items_ok (is @ [TableSep])"
    and "last is = TableSep \<Longrightarrow> 0 \<le> t \<Longrightarrow> is_i32 t \<Longrightarrow> items_ok (is @ [TableId t])"
  using assms by (cases "is" rule: items_ok.cases; auto intro: rows_ok_snoc split: if_splits)+

definition buf_ok :: "nat \<Rightarrow> record_buff \<Rightarrow> push_item list \<Rightarrow> bool" where
  "buf_ok sz b is \<longleftrightarrow> rb_ok b \<and> rb_mem_size b = sz \<and> length (rb_mem b) = sz \<and> rb_used b = items_image is \<and> (is = [] \<or> items_ok is)"

lemma buf_ok_offset: "buf_ok sz b is \<Longrightarrow> rb_offset b = length (items_image is)"
  by (metis buf_ok_def rb_ok_def rb_used_def length_take min.absorb2 le_trans)

lemma buf_ok_mem: "buf_ok sz b is \<Longrightarrow> rb_mem b = items_image is @ drop (rb_offset b) (rb_mem b)"
  by (metis append_take_drop_id buf_ok_def rb_used_def)

lemma put_i32_ok:
  assumes "rb_ok b" "rb_offset b + 4 \<le> rb_mem_size b"
  shows "\<exists>b1 b'. GetMemPtrInt32 b = (Some (rb_offset b), b1) \<and> store_i32 (rb_offset b) x b1 = Inr b' \<and> rb_ok b' \<and>
    rb_used b' = rb_used b @ i32_enc x \<and> rb_mem_size b' = rb_mem_size b \<and> length (rb_mem b') = length (rb_mem b)"
  using assms by (auto simp: GetMemPtrInt32_def store_i32_def mem_write_def rb_ok_def rb_used_def)

lemma buf_put:
  assumes "buf_ok sz b is" "rb_offset b + 4 \<le> sz" "items_ok (is @ [i])" "item_image i = i32_enc x"
  shows "\<exists>b1 b'. GetMemPtrInt32 b = (Some (rb_offset b), b1) \<and> store_i32 (rb_offset b) x b1 = Inr b' \<and> buf_ok sz b' (is @ [i])"
  using assms put_i32_ok [of b x] unfolding buf_ok_def by fastforce

lemma buf_full: "buf_ok sz b is \<Longrightarrow> \<not> rb_offset b + 4 \<le> sz \<Longrightarrow> GetMemPtrInt32 b = (None, b)"
  by (simp add: GetMemPtrInt32_def buf_ok_def)

lemma buf_empty: "buf_ok sz (ResetOffset (b\<lparr>rb_mem := replicate sz 0\<rparr>)) []" if "buf_ok sz b is"
  using that by (simp add: buf_ok_def rb_ok_def rb_used_def ResetOffset_def)

text \<open>A buffer with less than four bytes left may be sent as it is.\<close>

lemma full_carries:
  assumes "buf_ok sz b is" "\<not> rb_offset b + 4 \<le> sz" "4 \<le> sz"
  shows "carries sz (rb_mem b) (item_rows 0 is)"
proof -
  have "is \<noteq> []" using buf_ok_offset [OF assms(1)] assms(2,3) by auto
  then have "items_ok is" using assms(1) by (simp add: buf_ok_def)
  moreover have "ends_ok is (drop (rb_offset b) (rb_mem b))" using assms by (auto simp: ends_ok_def buf_ok_def)
  ultimately show ?thesis using carries_items buf_ok_mem [OF assms(1)] assms(1) by (metis buf_ok_def order_refl)
qed

section \<open>One background thread\<close>

text \<open>What concerns one background thread: its buffer and the messages sent to it.\<close>

definition view :: "push_state \<Rightarrow> int \<Rightarrow> record_buff option \<times> push_call list" where
  "view st bg = (map_of (fst st) bg, filter (\<lambda>pc. pc_bg pc = bg) (snd st))"

definition view_ok :: "nat \<Rightarrow> (push_item list \<Rightarrow> bool) \<Rightarrow> (int \<times> int \<times> bytes) list \<Rightarrow> record_buff option \<times> push_call list \<Rightarrow> bool" where
  "view_ok sz P rows v \<longleftrightarrow> (\<exists>b is r. fst v = Some b \<and> buf_ok sz b is \<and> P is \<and> carried sz (map pc_data (snd v)) r \<and>
     (\<forall>pc \<in> set (snd v). \<not> pc_last pc) \<and> rows = r @ item_rows 0 is)"

definition between_tables :: "push_item list \<Rightarrow> bool" where
  "between_tables is \<longleftrightarrow> is = [] \<or> last is = TableSep"

definition in_table :: "int \<Rightarrow> push_item list \<Rightarrow> bool" where
  "in_table t is \<longleftrightarrow> is \<noteq> [] \<and> last is \<noteq> TableSep \<and> cur_table 0 is = t"

definition others_same :: "int \<Rightarrow> push_state \<Rightarrow> push_state \<Rightarrow> bool" where
  "others_same bg st st' \<longleftrightarrow> (\<forall>x. x \<noteq> bg \<longrightarrow> view st' x = view st x)"

lemma view_upd: "view (AList.update bg b buffs, sent) x = (if x = bg then (Some b, snd (view (buffs, sent) bg)) else view (buffs, sent) x)"
  by (auto simp: view_def update_conv')

lemma view_send: "view (AList.update bg b buffs, sent @ [\<lparr>pc_bg = bg, pc_data = d, pc_last = l\<rparr>]) x =
    (if x = bg then (Some b, snd (view (buffs, sent) bg) @ [\<lparr>pc_bg = bg, pc_data = d, pc_last = l\<rparr>]) else view (buffs, sent) x)"
  by (auto simp: view_def update_conv')

lemma fold_views:
  assumes step: "\<And>st bg. A bg (view st bg) \<Longrightarrow> \<exists>st'. f st bg = Inr st' \<and> B bg (view st' bg) \<and> others_same bg st st'"
    and "distinct bgs" "\<forall>bg \<in> set bgs. A bg (view st bg)"
  shows "\<exists>st'. foldM f st bgs = Inr st' \<and> (\<forall>bg \<in> set bgs. B bg (view st' bg)) \<and> (\<forall>bg. bg \<notin> set bgs \<longrightarrow> view st' bg = view st bg)"
  using assms(2,3)
proof (induction bgs arbitrary: st)
  case (Cons bg bgs)
  obtain st1 where s1: "f st bg = Inr st1" "B bg (view st1 bg)" "others_same bg st st1" using step [of bg st] Cons.prems(2) by auto
  have "\<forall>x \<in> set bgs. A x (view st1 x)" using Cons.prems s1(3) by (auto simp: others_same_def)
  from Cons.IH [OF _ this] Cons.prems(1) obtain st' where
    "foldM f st1 bgs = Inr st'" "\<forall>x \<in> set bgs. B x (view st' x)" "\<forall>x. x \<notin> set bgs \<longrightarrow> view st' x = view st1 x" by auto
  with s1 Cons.prems(1) show ?case by (auto simp: others_same_def)
qed simp

lemma put_table_id_ok:
  assumes v: "view_ok sz between_tables rows (view st bg)" and t: "0 \<le> t" "is_i32 t" and sz: "4 \<le> sz"
  shows "\<exists>st'. put_table_id sz t st bg = Inr st' \<and> view_ok sz (in_table t) rows (view st' bg) \<and> others_same bg st st'"
proof -
  obtain buffs sent where st: "st = (buffs, sent)" by force
  obtain b "is" r where b: "map_of buffs bg = Some b" "buf_ok sz b is" "between_tables is" and
    c: "carried sz (map pc_data (snd (view st bg))) r" "\<forall>pc \<in> set (snd (view st bg)). \<not> pc_last pc" "rows = r @ item_rows 0 is"
    using v by (auto simp: view_ok_def st view_def)
  have ok: "items_ok (is @ [TableId t])" if "is = [] \<or> last is = TableSep"
    using that b(2) t items_ok_snoc(3) by (auto simp: buf_ok_def)
  have it: "in_table t (js @ [TableId t])" "item_rows 0 (js @ [TableId t]) = item_rows 0 js" for js
    by (simp_all add: in_table_def cur_table_append item_rows_append)
  show ?thesis
  proof (cases "rb_offset b + 4 \<le> sz")
    case True
    from buf_put [OF b(2) True ok, of t] b(3) obtain b1 b' where "GetMemPtrInt32 b = (Some (rb_offset b), b1)"
      "store_i32 (rb_offset b) t b1 = Inr b'" "buf_ok sz b' (is @ [TableId t])" by (auto simp: between_tables_def)
    then show ?thesis using b(1) c st it
      by (auto simp: put_table_id_def buff_at_def view_upd others_same_def view_ok_def intro!: exI [of _ "is @ [TableId t]"] exI [of _ r])
  next
    case False
    let ?b = "ResetOffset (b\<lparr>rb_mem := replicate sz 0\<rparr>)"
    have g: "GetMemPtrInt32 b = (None, b)" using buf_full [OF b(2) False] .
    have e: "buf_ok sz ?b []" using buf_empty [OF b(2)] .
    have "rb_offset ?b + 4 \<le> sz" using sz by (simp add: ResetOffset_def)
    from buf_put [OF e this, of "TableId t" t] t obtain b1 b' where n: "GetMemPtrInt32 ?b = (Some (rb_offset ?b), b1)"
      "store_i32 (rb_offset ?b) t b1 = Inr b'" "buf_ok sz b' [TableId t]" by force
    have "carried sz (map pc_data (snd (view st bg)) @ [rb_mem b]) rows"
      using carried_snoc [OF c(1) full_carries [OF b(2) False sz]] c(3) by simp
    with n g b(1) c(2) st it(1) [of "[]"] show ?thesis
      by (auto simp: put_table_id_def buff_at_def send_full_def view_send others_same_def view_ok_def intro!: exI [of _ "[TableId t]"])
  qed
qed

lemma view_okE:
  assumes "view_ok sz P rows (view (buffs, sent) bg)"
  obtains b "is" r where "map_of buffs bg = Some b" "buf_ok sz b is" "P is" "carried sz (map pc_data (snd (view (buffs, sent) bg))) r"
    "\<forall>pc \<in> set (snd (view (buffs, sent) bg)). \<not> pc_last pc" "rows = r @ item_rows 0 is"
  using assms by (auto simp: view_ok_def view_def)

lemma view_ok_mono: "view_ok sz P rows v \<Longrightarrow> (\<And>is. P is \<Longrightarrow> Q is) \<Longrightarrow> view_ok sz Q rows v"
  unfolding view_ok_def by blast

lemma put_table_sep_ok:
  assumes v: "view_ok sz (in_table t) rows (view st bg)" and sz: "4 \<le> sz"
  shows "\<exists>st'. put_table_sep sz st bg = Inr st' \<and> view_ok sz between_tables rows (view st' bg) \<and> others_same bg st st'"
proof -
  obtain buffs sent where st: "st = (buffs, sent)" by force
  from v [unfolded st] obtain b "is" r where b: "map_of buffs bg = Some b" "buf_ok sz b is" "in_table t is" and
    c: "carried sz (map pc_data (snd (view (buffs, sent) bg))) r" "\<forall>pc \<in> set (snd (view (buffs, sent) bg)). \<not> pc_last pc"
      "rows = r @ item_rows 0 is" by (rule view_okE)
  have ok: "items_ok (is @ [TableSep])" using b(2,3) items_ok_snoc(2) by (auto simp: buf_ok_def in_table_def)
  show ?thesis
  proof (cases "rb_offset b + 4 \<le> sz")
    case True
    from buf_put [OF b(2) True ok, of get_serialized_table_separator] obtain b1 b' where "GetMemPtrInt32 b = (Some (rb_offset b), b1)"
      "store_i32 (rb_offset b) get_serialized_table_separator b1 = Inr b'" "buf_ok sz b' (is @ [TableSep])" by auto
    then show ?thesis using b(1) c st
      by (auto simp: put_table_sep_def buff_at_def view_upd others_same_def view_ok_def between_tables_def item_rows_append
          intro!: exI [of _ "is @ [TableSep]"] exI [of _ r])
  next
    case False
    have "carried sz (map pc_data (snd (view (buffs, sent) bg)) @ [rb_mem b]) rows"
      using carried_snoc [OF c(1) full_carries [OF b(2) False sz]] c(3) by simp
    with buf_full [OF b(2) False] buf_empty [OF b(2)] b(1) c(2) st show ?thesis
      by (auto simp: put_table_sep_def buff_at_def send_full_def view_send others_same_def view_ok_def between_tables_def
          intro!: exI [of _ "[] :: push_item list"])
  qed
qed

text \<open>A message that ends with the end mark, whatever follows it.\<close>

lemma end_carries:
  assumes "is = [] \<or> items_ok is \<and> last is \<noteq> TableSep" "length (items_image is @ i32_enc get_serialized_table_end @ rest) \<le> sz"
  shows "carries sz (items_image is @ i32_enc get_serialized_table_end @ rest) (item_rows 0 is)"
proof (cases "is = []")
  case True
  then show ?thesis using assms(2) by (simp add: carries_def message_rows_empty)
next
  case False
  then show ?thesis using assms by (intro carries_items) (auto simp: ends_ok_def)
qed

definition view_done :: "nat \<Rightarrow> (int \<times> int \<times> bytes) list \<Rightarrow> record_buff option \<times> push_call list \<Rightarrow> bool" where
  "view_done sz rows v \<longleftrightarrow> carried sz (map pc_data (snd v)) rows \<and> (\<exists>pcs pc. snd v = pcs @ [pc] \<and> pc_last pc \<and> (\<forall>p \<in> set pcs. \<not> pc_last p))"

lemma push_finish_ok:
  assumes v: "view_ok sz (\<lambda>is. is = [] \<or> last is \<noteq> TableSep) rows (view st bg)" and sz: "4 \<le> sz"
  shows "\<exists>st'. push_finish st bg = Inr st' \<and> view_done sz rows (view st' bg) \<and> others_same bg st st'"
proof -
  obtain buffs sent where st: "st = (buffs, sent)" by force
  from v [unfolded st] obtain b "is" r where b: "map_of buffs bg = Some b" "buf_ok sz b is" "is = [] \<or> last is \<noteq> TableSep" and
    c: "carried sz (map pc_data (snd (view (buffs, sent) bg))) r" "\<forall>pc \<in> set (snd (view (buffs, sent) bg)). \<not> pc_last pc"
      "rows = r @ item_rows 0 is" by (rule view_okE)
  show ?thesis
  proof (cases "rb_offset b + 4 \<le> sz")
    case True
    have "rb_ok b" "rb_mem_size b = sz" using b(2) by (simp_all add: buf_ok_def)
    from put_i32_ok [OF this(1), of get_serialized_table_end] this(2) True obtain b1 b' where
      p: "GetMemPtrInt32 b = (Some (rb_offset b), b1)" "store_i32 (rb_offset b) get_serialized_table_end b1 = Inr b'"
      "rb_used b' = rb_used b @ i32_enc get_serialized_table_end" by auto
    have l: "length (items_image is) + 4 \<le> sz" using buf_ok_offset [OF b(2)] True by simp
    have "take (GetMemUsedSize b') (rb_mem b') = items_image is @ i32_enc get_serialized_table_end @ []"
      using p(3) b(2) by (simp add: rb_used_def GetMemUsedSize_def buf_ok_def)
    then have "carries sz (take (GetMemUsedSize b') (rb_mem b')) (item_rows 0 is)"
      using end_carries [of "is" "[]"] b(2,3) l by (auto simp: buf_ok_def)
    from carried_snoc [OF c(1) this] p(1,2) b(1) c(2,3) st show ?thesis
      by (auto simp: push_finish_def buff_at_def view_send others_same_def view_done_def)
  next
    case False
    have "view (buffs, sent @ [\<lparr>pc_bg = bg, pc_data = rb_mem b, pc_last = True\<rparr>]) x =
      (if x = bg then (Some b, snd (view (buffs, sent) bg) @ [\<lparr>pc_bg = bg, pc_data = rb_mem b, pc_last = True\<rparr>]) else view (buffs, sent) x)" for x
      using b(1) by (simp add: view_def)
    with carried_snoc [OF c(1) full_carries [OF b(2) False sz]] buf_full [OF b(2) False] b(1) c(2,3) st show ?thesis
      by (auto simp: push_finish_def buff_at_def others_same_def view_done_def)
  qed
qed

lemma flush_failed_ok:
  assumes v: "view_ok sz (in_table t) rows (view st bg)" and t: "0 \<le> t" "is_i32 t" and sz: "4 \<le> sz"
  shows "\<exists>st'. flush_failed sz t bg st = Inr st' \<and> view_ok sz (\<lambda>is. is = [TableId t]) rows (view st' bg) \<and> others_same bg st st'"
proof -
  obtain buffs sent where st: "st = (buffs, sent)" by force
  from v [unfolded st] obtain b "is" r where b: "map_of buffs bg = Some b" "buf_ok sz b is" "in_table t is" and
    c: "carried sz (map pc_data (snd (view (buffs, sent) bg))) r" "\<forall>pc \<in> set (snd (view (buffs, sent) bg)). \<not> pc_last pc"
      "rows = r @ item_rows 0 is" by (rule view_okE)
  have "\<exists>b'. (case GetMemPtrInt32 b of (Some p, b) \<Rightarrow> store_i32 p get_serialized_table_end b | (None, b) \<Rightarrow> Inr b) = Inr b' \<and>
      carries sz (rb_mem b') (item_rows 0 is) \<and> rb_mem_size b' = sz"
  proof (cases "rb_offset b + 4 \<le> sz")
    case True
    have k: "rb_ok b" "rb_mem_size b = sz" using b(2) by (simp_all add: buf_ok_def)
    from put_i32_ok [OF k(1), of get_serialized_table_end] k(2) True obtain b1 b' where
      p: "GetMemPtrInt32 b = (Some (rb_offset b), b1)" "store_i32 (rb_offset b) get_serialized_table_end b1 = Inr b'"
      "rb_used b' = rb_used b @ i32_enc get_serialized_table_end" "rb_mem_size b' = sz" "length (rb_mem b') = length (rb_mem b)" by auto
    have "rb_mem b' = items_image is @ i32_enc get_serialized_table_end @ drop (rb_offset b') (rb_mem b')"
      using p(3) b(2) append_take_drop_id [of "rb_offset b'" "rb_mem b'"] by (simp add: rb_used_def buf_ok_def)
    then have "carries sz (rb_mem b') (item_rows 0 is)" using end_carries [of "is"] b(2,3) p(5) by (metis buf_ok_def in_table_def order_refl)
    with p show ?thesis by auto
  next
    case False
    then show ?thesis using buf_full [OF b(2)] full_carries [OF b(2) False sz] b(2) by (auto simp: buf_ok_def)
  qed
  then obtain b' where b': "(case GetMemPtrInt32 b of (Some p, b) \<Rightarrow> store_i32 p get_serialized_table_end b | (None, b) \<Rightarrow> Inr b) = Inr b'"
    "carries sz (rb_mem b') (item_rows 0 is)" "rb_mem_size b' = sz" by blast
  let ?b = "ResetOffset (b'\<lparr>rb_mem := replicate sz 0\<rparr>)"
  have e: "buf_ok sz ?b []" using b'(3) by (simp add: buf_ok_def rb_ok_def rb_used_def ResetOffset_def)
  have "rb_offset ?b + 4 \<le> sz" using sz by (simp add: ResetOffset_def)
  from buf_put [OF e this, of "TableId t" t] t obtain b1 b2 where n: "GetMemPtrInt32 ?b = (Some (rb_offset ?b), b1)"
    "store_i32 (rb_offset ?b) t b1 = Inr b2" "buf_ok sz b2 [TableId t]" by force
  from carried_snoc [OF c(1) b'(2)] n b'(1) b(1) c(2,3) st show ?thesis
    by (auto simp: flush_failed_def buff_at_def send_full_def view_send others_same_def view_ok_def intro!: exI [of _ "[TableId t]"])
qed

section \<open>Rows of a table\<close>

definition bg_of :: "global_context \<Rightarrow> int \<Rightarrow> int \<Rightarrow> int" where
  "bg_of g client row = get_head_bg_id client + int (bg_part g row)"

text \<open>The deliveries of a row to the clients in \<open>cs\<close> that have subscribed, and those for one background thread.\<close>

definition deliveries :: "global_context \<Rightarrow> int \<Rightarrow> int list \<Rightarrow> int \<times> ('r, 'v) server_row \<Rightarrow> (int \<times> int \<times> int \<times> bytes) list" where
  "deliveries g t cs x = map (\<lambda>c. (bg_of g c (fst x), t, fst x, row_Serialize (snd x))) (filter (\<lambda>c. sr_subs (snd x) ! nat c) cs)"

definition for_bg :: "int \<Rightarrow> (int \<times> int \<times> int \<times> bytes) list \<Rightarrow> (int \<times> int \<times> bytes) list" where
  "for_bg bg ds = map snd (filter (\<lambda>d. fst d = bg) ds)"

lemma for_bg_simps [simp]: "for_bg bg [] = []" "for_bg bg (ds @ es) = for_bg bg ds @ for_bg bg es"
  "for_bg bg (d # ds) = (if fst d = bg then [snd d] else []) @ for_bg bg ds"
  by (simp_all add: for_bg_def)

lemma deliveries_append: "deliveries g t (cs @ cs') x = deliveries g t cs x @ deliveries g t cs' x"
  by (simp add: deliveries_def)

lemma deliveries_Cons: "deliveries g t (c # cs) x =
    (if sr_subs (snd x) ! nat c then [(bg_of g c (fst x), t, fst x, row_Serialize (snd x))] else []) @ deliveries g t cs x"
  by (simp add: deliveries_def)

definition srow_ok :: "global_context \<Rightarrow> nat \<Rightarrow> int \<times> ('r, 'v) server_row \<Rightarrow> bool" where
  "srow_ok g sz x \<longleftrightarrow> 0 \<le> fst x \<and> is_i32 (fst x) \<and> num_clients g \<le> int (length (sr_subs (snd x))) \<and>
     length (row_Serialize (snd x)) \<le> row_SerializedSize (snd x) \<and> 16 + length (row_Serialize (snd x)) \<le> sz"

definition views_ok :: "nat \<Rightarrow> int list \<Rightarrow> int \<Rightarrow> (int \<Rightarrow> (int \<times> int \<times> bytes) list) \<Rightarrow> push_state \<Rightarrow> bool" where
  "views_ok sz bgs t L st \<longleftrightarrow> (\<forall>bg \<in> set bgs. view_ok sz (in_table t) (L bg) (view st bg))"

lemma view_append:
  assumes v: "view_ok sz (in_table t) rows (view (buffs, sent) bg)" and row: "0 \<le> row" "is_i32 row" "is_size (length rec)"
  shows "\<exists>b b'. map_of buffs bg = Some b \<and> RecordBuff_Append row rec b = Inr (rb_offset b + 12 + length rec \<le> sz, b') \<and>
    (if rb_offset b + 12 + length rec \<le> sz
     then view_ok sz (in_table t) (rows @ [(t, row, rec)]) (view (AList.update bg b' buffs, sent) bg) else b' = b)"
proof -
  from v obtain b "is" r where b: "map_of buffs bg = Some b" "buf_ok sz b is" "in_table t is" and
    c: "carried sz (map pc_data (snd (view (buffs, sent) bg))) r" "\<forall>pc \<in> set (snd (view (buffs, sent) bg)). \<not> pc_last pc"
      "rows = r @ item_rows 0 is" by (rule view_okE)
  have k: "rb_ok b" "rb_mem_size b = sz" "length (rb_mem b) = sz" "rb_used b = items_image is" "items_ok is"
    using b(2,3) by (auto simp: buf_ok_def in_table_def)
  from Append_spec [OF k(1), of row rec] k(2) obtain b' where
    a: "RecordBuff_Append row rec b = Inr (rb_offset b + 12 + length rec \<le> sz, b')" "rb_ok b'" "rb_mem_size b' = sz" "length (rb_mem b') = length (rb_mem b)"
    "if rb_offset b + 12 + length rec \<le> sz then rb_used b' = rb_used b @ rec_image row rec \<and> rb_offset b' = rb_offset b + 12 + length rec else b' = b" by auto
  let ?is = "is @ [PushRow row rec]"
  have "items_ok ?is" using k(5) b(3) row items_ok_snoc(1) by (simp add: in_table_def)
  then have "buf_ok sz b' ?is" if "rb_offset b + 12 + length rec \<le> sz" using that a k by (simp add: buf_ok_def)
  moreover have "in_table t ?is" "item_rows 0 ?is = item_rows 0 is @ [(t, row, rec)]"
    using b(3) by (simp_all add: in_table_def cur_table_append item_rows_append)
  ultimately have "view_ok sz (in_table t) (rows @ [(t, row, rec)]) (view (AList.update bg b' buffs, sent) bg)"
    if "rb_offset b + 12 + length rec \<le> sz"
    using that c by (auto simp: view_ok_def view_upd intro!: exI [of _ ?is] exI [of _ r])
  with a b(1) show ?thesis by auto
qed

text \<open>How \<open>append_clients\<close> ends: all clients are served, or the buffer for one of them is full.\<close>

definition append_end ::
  "global_context \<Rightarrow> nat \<Rightarrow> int list \<Rightarrow> int \<Rightarrow> int \<times> ('r, 'v) server_row \<Rightarrow> push_call list \<Rightarrow> (int \<Rightarrow> (int \<times> int \<times> bytes) list) \<Rightarrow>
   int list \<Rightarrow> (int \<times> int) option \<Rightarrow> buff_map \<Rightarrow> bool" where
  "append_end g sz bgs t x sent L cs res buffs \<longleftrightarrow>
     (case res of
        None \<Rightarrow> views_ok sz bgs t (\<lambda>bg. L bg @ for_bg bg (deliveries g t cs x)) (buffs, sent)
      | Some (bg, c) \<Rightarrow> \<exists>cs1 cs2. cs = cs1 @ c # cs2 \<and> sr_subs (snd x) ! nat c \<and> bg = bg_of g c (fst x) \<and>
          views_ok sz bgs t (\<lambda>bg. L bg @ for_bg bg (deliveries g t cs1 x)) (buffs, sent))"

lemma append_end_Cons:
  assumes e: "append_end g sz bgs t x sent L' cs res buffs"
    and L: "\<And>ds bg. L' bg @ for_bg bg (deliveries g t ds x) = L bg @ for_bg bg (deliveries g t (c # ds) x)"
  shows "append_end g sz bgs t x sent L (c # cs) res buffs"
proof (cases res)
  case None
  then show ?thesis using e unfolding append_end_def by (simp add: L)
next
  case (Some y)
  obtain bg c0 where y: "y = (bg, c0)" by force
  from e [unfolded append_end_def L] Some y obtain cs1 cs2 where
    "cs = cs1 @ c0 # cs2" "sr_subs (snd x) ! nat c0" "bg = bg_of g c0 (fst x)"
    "views_ok sz bgs t (\<lambda>bg. L bg @ for_bg bg (deliveries g t (c # cs1) x)) (buffs, sent)" by auto
  moreover from this(1) have "c # cs = (c # cs1) @ c0 # cs2" by simp
  ultimately show ?thesis unfolding append_end_def Some y option.case prod.case by blast
qed

lemma append_clients_ok:
  fixes r :: "('r, 'v) server_row"
  assumes bg: "0 < num_bg_threads g" and row: "0 \<le> row" "is_i32 row" "is_size (length (row_Serialize r))"
    and "\<forall>c \<in> set cs. 0 \<le> c \<and> nat c < length (sr_subs r) \<and> bg_of g c row \<in> set bgs" and "views_ok sz bgs t L (buffs, sent)"
  shows "\<exists>res buffs'. append_clients g (sr_subs r) row (row_Serialize r) cs buffs = Inr (res, buffs') \<and> append_end g sz bgs t (row, r) sent L cs res buffs'"
  using assms(5,6)
proof (induction cs arbitrary: L buffs)
  case Nil
  then show ?case by (simp add: deliveries_def append_end_def)
next
  case (Cons c cs)
  let ?bg = "bg_of g c row" and ?rec = "row_Serialize r"
  have ct: "bitset_test (sr_subs r) c = Inr (sr_subs r ! nat c)" using Cons.prems(1) by (simp add: bitset_test_def)
  show ?case
  proof (cases "sr_subs r ! nat c")
    case False
    from Cons.IH [OF _ Cons.prems(2)] Cons.prems(1) obtain res buffs' where
      i: "append_clients g (sr_subs r) row ?rec cs buffs = Inr (res, buffs')" "append_end g sz bgs t (row, r) sent L cs res buffs'" by auto
    have "append_end g sz bgs t (row, r) sent L (c # cs) res buffs'" by (rule append_end_Cons [OF i(2)]) (simp add: deliveries_Cons False)
    then show ?thesis using i(1) ct False by auto
  next
    case True
    have gp: "GetBgPartitionNum g row = Inr (int (bg_part g row))" using GetBgPartitionNum_eq [OF row(1) bg] .
    have vb: "view_ok sz (in_table t) (L ?bg) (view (buffs, sent) ?bg)" using Cons.prems by (simp add: views_ok_def)
    from view_append [OF vb row] obtain b b' where a: "map_of buffs ?bg = Some b"
      "RecordBuff_Append row ?rec b = Inr (rb_offset b + 12 + length ?rec \<le> sz, b')"
      "if rb_offset b + 12 + length ?rec \<le> sz
       then view_ok sz (in_table t) (L ?bg @ [(t, row, ?rec)]) (view (AList.update ?bg b' buffs, sent) ?bg) else b' = b" by blast
    let ?bf = "AList.update ?bg b' buffs"
    show ?thesis
    proof (cases "rb_offset b + 12 + length ?rec \<le> sz")
      case full: False
      then have b': "b' = b" using a(3) by simp
      have vs: "view (?bf, sent) x = view (buffs, sent) x" for x using a(1) by (auto simp: view_upd b') (simp add: view_def)
      have "append_clients g (sr_subs r) row ?rec (c # cs) buffs = Inr (Some (?bg, c), ?bf)"
        using ct True gp a(1,2) full by (simp add: buff_at_def bg_of_def Let_def)
      moreover have "views_ok sz bgs t (\<lambda>bg. L bg @ for_bg bg (deliveries g t [] (row, r))) (?bf, sent)"
        using Cons.prems(2) vs by (simp add: views_ok_def deliveries_def)
      then have "append_end g sz bgs t (row, r) sent L (c # cs) (Some (?bg, c)) ?bf"
        using True full by (force simp: append_end_def update_conv' b')
      ultimately show ?thesis by blast
    next
      case fits: True
      let ?L = "\<lambda>bg. L bg @ (if ?bg = bg then [(t, row, ?rec)] else [])"
      have "views_ok sz bgs t ?L (?bf, sent)" using Cons.prems(2) a(3) fits by (auto simp: views_ok_def view_upd)
      from Cons.IH [OF _ this] Cons.prems(1) obtain res buffs' where
        i: "append_clients g (sr_subs r) row ?rec cs ?bf = Inr (res, buffs')" "append_end g sz bgs t (row, r) sent ?L cs res buffs'" by auto
      have "append_clients g (sr_subs r) row ?rec (c # cs) buffs = Inr (res, buffs')"
        using i(1) ct True gp a(1,2) fits by (simp add: buff_at_def bg_of_def Let_def)
      moreover have "append_end g sz bgs t (row, r) sent L (c # cs) res buffs'"
        by (rule append_end_Cons [OF i(2)]) (simp add: deliveries_Cons True)
      ultimately show ?thesis by blast
    qed
  qed
qed

section \<open>A table\<close>

definition pushed :: "('r, 'v) server_row \<Rightarrow> bool" where
  "pushed r \<longleftrightarrow> \<not> NoClientSubscribed r \<and> IsDirty r"

definition clean :: "int \<times> ('r, 'v) server_row \<Rightarrow> int \<times> ('r, 'v) server_row" where
  "clean x = (fst x, if pushed (snd x) then ResetDirty (snd x) else snd x)"

abbreviation clients :: "global_context \<Rightarrow> int list" where
  "clients g \<equiv> [0..num_clients g - 1]"

definition table_deliveries :: "global_context \<Rightarrow> int \<Rightarrow> (int \<times> ('r, 'v) server_row) list \<Rightarrow> (int \<times> int \<times> int \<times> bytes) list" where
  "table_deliveries g t xs = concat (map (\<lambda>x. if pushed (snd x) then deliveries g t (clients g) x else []) xs)"

text \<open>The table with its row iterator: the rows \<open>xs\<close> are done, \<open>ys\<close> are left.\<close>

definition tab_at :: "('r, 'v) server_table \<Rightarrow> (int \<times> ('r, 'v) server_row) list \<Rightarrow> (int \<times> ('r, 'v) server_row) list \<Rightarrow> bool" where
  "tab_at tab xs ys \<longleftrightarrow> st_storage tab = xs @ ys \<and> st_row_iter tab = length xs \<and> distinct (keys (xs @ ys)) \<and>
     length (st_tmp_row_buff tab) = st_tmp_row_buff_size tab"

text \<open>The packing stopped at a client whose buffer is full: what is still to be delivered, and the storage at the end.\<close>

definition paused where
  "paused g sz t rem F bc tab \<longleftrightarrow> (\<exists>xs row r ys cs. tab_at tab xs ((row, r) # ys) \<and> curr_row_data tab = row_Serialize r \<and>
     [snd bc..num_clients g - 1] = snd bc # cs \<and> 0 \<le> snd bc \<and> sr_subs r ! nat (snd bc) \<and> fst bc = bg_of g (snd bc) row \<and> srow_ok g sz (row, r) \<and>
     (\<forall>y \<in> set ys. srow_ok g sz y) \<and> rem = deliveries g t (snd bc # cs) (row, r) @ table_deliveries g t ys \<and> F = xs @ (row, r) # map clean ys)"

definition table_end where
  "table_end g sz bgs t sent L D F res buffs tab \<longleftrightarrow>
     (case res of
        None \<Rightarrow> views_ok sz bgs t (\<lambda>bg. L bg @ for_bg bg D) (buffs, sent) \<and> st_storage tab = F
      | Some bc \<Rightarrow> \<exists>D1 D2. D = D1 @ D2 \<and> views_ok sz bgs t (\<lambda>bg. L bg @ for_bg bg D1) (buffs, sent) \<and> paused g sz t D2 F bc tab)"

lemma table_endI:
  "D = DA @ DB \<Longrightarrow> views_ok sz bgs t (\<lambda>bg. L bg @ for_bg bg DA) (buffs, sent) \<Longrightarrow> paused g sz t DB F bc tab \<Longrightarrow>
   table_end g sz bgs t sent L D F (Some bc) buffs tab"
  unfolding table_end_def option.case by blast

lemma table_end_more:
  assumes "table_end g sz bgs t sent (\<lambda>bg. L bg @ for_bg bg D0) D F res buffs tab"
  shows "table_end g sz bgs t sent L (D0 @ D) F res buffs tab"
proof (cases res)
  case None
  then show ?thesis using assms by (simp add: table_end_def)
next
  case (Some bc)
  from assms obtain D1 D2 where "D = D1 @ D2" "views_ok sz bgs t (\<lambda>bg. (L bg @ for_bg bg D0) @ for_bg bg D1) (buffs, sent)" "paused g sz t D2 F bc tab"
    unfolding table_end_def Some by auto
  then show ?thesis unfolding Some by (intro table_endI [where DA = "D0 @ D1" and DB = D2]) simp_all
qed

lemma serialize_row_ok:
  assumes tab: "tab_at tab xs ((row, r) # ys)" and r: "length (row_Serialize r) \<le> row_SerializedSize r" and junk: "\<And>n. length (junk n) = n"
  shows "\<exists>tab'. serialize_curr_row junk row r tab = Inr tab' \<and> tab_at tab' xs ((row, ResetDirty r) # ys) \<and> curr_row_data tab' = row_Serialize r"
proof -
  have ni: "row \<notin> set (keys xs)" using tab by (auto simp: tab_at_def)
  have "AList.update row (ResetDirty r) (xs @ (row, r) # ys) = xs @ (row, ResetDirty r) # ys"
    using ni by (induction xs) auto
  then show ?thesis using tab r junk
    by (auto simp: serialize_curr_row_def Let_def mem_write_def tab_at_def curr_row_data_def)
qed

lemma ResetDirty_simps [simp]: "sr_subs (ResetDirty r) = sr_subs r" "row_Serialize (ResetDirty r) = row_Serialize r"
  "srow_ok g sz (row, ResetDirty r) = srow_ok g sz (row, r)" "deliveries g t cs (row, ResetDirty r) = deliveries g t cs (row, r)"
  by (simp_all add: ResetDirty_def row_Serialize_def srow_ok_def row_SerializedSize_def deliveries_def)

lemma tab_at_next: "tab_at tab xs (y # ys) \<Longrightarrow> tab_at (next_row tab) (xs @ [y]) ys"
  by (simp add: tab_at_def next_row_def)

lemma upto_suffix: "[a..b] = cs1 @ c # cs2 \<Longrightarrow> [c..b] = c # cs2 \<and> a \<le> c"
proof (induction cs1 arbitrary: a)
  case Nil
  then show ?case by (cases "a \<le> b") (auto simp: upto_rec1)
next
  case (Cons x cs1)
  then have "[a + 1..b] = cs1 @ c # cs2" by (cases "a \<le> b") (auto simp: upto_rec1 [of a])
  with Cons.IH show ?case by force
qed

text \<open>The surroundings of the packing: every subscriber of a row has a buffer, a fresh allocation has its size.\<close>

definition push_env :: "global_context \<Rightarrow> (nat \<Rightarrow> bytes) \<Rightarrow> nat \<Rightarrow> bool" where
  "push_env g junk sz \<longleftrightarrow> 0 < num_bg_threads g \<and> is_size sz \<and> (\<forall>n. length (junk n) = n)"

lemma bg_of_push_ids: "0 < num_bg_threads g \<Longrightarrow> 0 \<le> c \<Longrightarrow> c < num_clients g \<Longrightarrow> bg_of g c row \<in> set (push_bg_ids g)"
  using bg_part_less [of g row] by (auto simp: push_bg_ids_def bg_of_def intro!: bexI [of _ c] image_eqI [of _ _ "int (bg_part g row)"])

lemma append_row_ok:
  assumes e: "push_env g junk sz" and r: "srow_ok g sz (row, r)" and cs: "set cs \<subseteq> {0..<num_clients g}"
    and v: "views_ok sz (push_bg_ids g) t L (buffs, sent)"
  shows "\<exists>res buffs'. append_clients g (sr_subs r) row (row_Serialize r) cs buffs = Inr (res, buffs') \<and>
    append_end g sz (push_bg_ids g) t (row, r) sent L cs res buffs'"
  using e r cs v bg_of_push_ids [of g]
  by (intro append_clients_ok) (force simp: push_env_def srow_ok_def is_size_def)+

lemma clients_range: "set (clients g) \<subseteq> {0..<num_clients g}"
  by auto

lemma append_rows_ok:
  assumes e: "push_env g junk sz" and "tab_at tab xs ys" "\<forall>y \<in> set ys. srow_ok g sz y" "views_ok sz (push_bg_ids g) t L (buffs, sent)"
  shows "\<exists>res buffs' tab'. append_rows (length ys) g junk 0 buffs tab = Inr (res, buffs', tab') \<and>
    table_end g sz (push_bg_ids g) t sent L (table_deliveries g t ys) (xs @ map clean ys) res buffs' tab'"
  using assms(2-)
proof (induction ys arbitrary: xs tab L buffs)
  case Nil
  then show ?case by (simp add: table_end_def table_deliveries_def tab_at_def)
next
  case (Cons y ys)
  obtain row r where y: "y = (row, r)" by force
  have nth: "st_storage tab ! st_row_iter tab = (row, r)" using Cons.prems(1) y by (simp add: tab_at_def)
  show ?case
  proof (cases "pushed r")
    case False
    have c: "clean y = y" using False y by (simp add: clean_def)
    from Cons.IH [OF tab_at_next [OF Cons.prems(1)] _ Cons.prems(3)] Cons.prems(2) obtain res buffs' tab' where
      "append_rows (length ys) g junk 0 buffs (next_row tab) = Inr (res, buffs', tab')"
      "table_end g sz (push_bg_ids g) t sent L (table_deliveries g t ys) ((xs @ [y]) @ map clean ys) res buffs' tab'" by auto
    moreover have "table_deliveries g t (y # ys) = table_deliveries g t ys" using False y by (simp add: table_deliveries_def)
    ultimately show ?thesis using nth False c by (auto simp: pushed_def)
  next
    case True
    have c: "clean y = (row, ResetDirty r)" using True y by (simp add: clean_def)
    have D: "table_deliveries g t (y # ys) = deliveries g t (clients g) (row, r) @ table_deliveries g t ys"
      using True y by (simp add: table_deliveries_def)
    have rk: "srow_ok g sz (row, r)" and tt: "tab_at tab xs ((row, r) # ys)" using Cons.prems(1,2) y by auto
    obtain tab1 where t1: "serialize_curr_row junk row r tab = Inr tab1" "tab_at tab1 xs ((row, ResetDirty r) # ys)" "curr_row_data tab1 = row_Serialize r"
      using serialize_row_ok [OF tt, of junk] rk e by (auto simp: push_env_def srow_ok_def)
    obtain res buffs1 where a: "append_clients g (sr_subs r) row (row_Serialize r) (clients g) buffs = Inr (res, buffs1)"
      "append_end g sz (push_bg_ids g) t (row, r) sent L (clients g) res buffs1"
      using append_row_ok [OF e rk clients_range Cons.prems(3)] by blast
    have step: "append_rows (length (y # ys)) g junk 0 buffs tab =
        (case res of Some f \<Rightarrow> Inr (Some f, buffs1, tab1) | None \<Rightarrow> append_rows (length ys) g junk 0 buffs1 (next_row tab1))"
      using nth True t1(1,3) a(1) by (simp add: pushed_def AppendRowToBuffs_def)
    show ?thesis
    proof (cases res)
      case None
      then have "views_ok sz (push_bg_ids g) t (\<lambda>bg. L bg @ for_bg bg (deliveries g t (clients g) (row, r))) (buffs1, sent)"
        using a(2) by (simp add: append_end_def)
      from Cons.IH [OF tab_at_next [OF t1(2)] _ this] Cons.prems(2) obtain res' buffs' tab' where
        i: "append_rows (length ys) g junk 0 buffs1 (next_row tab1) = Inr (res', buffs', tab')"
        "table_end g sz (push_bg_ids g) t sent (\<lambda>bg. L bg @ for_bg bg (deliveries g t (clients g) (row, r))) (table_deliveries g t ys)
           ((xs @ [(row, ResetDirty r)]) @ map clean ys) res' buffs' tab'" by auto
      show ?thesis using step None i(1) table_end_more [OF i(2)] D c by auto
    next
      case (Some f)
      obtain bg c0 where f: "f = (bg, c0)" by force
      from a(2) Some f obtain cs1 cs2 where s: "clients g = cs1 @ c0 # cs2" "sr_subs r ! nat c0" "bg = bg_of g c0 row"
        "views_ok sz (push_bg_ids g) t (\<lambda>bg. L bg @ for_bg bg (deliveries g t cs1 (row, r))) (buffs1, sent)" by (auto simp: append_end_def)
      have "paused g sz t (deliveries g t (c0 # cs2) (row, r) @ table_deliveries g t ys) (xs @ map clean (y # ys)) f tab1"
        unfolding paused_def f fst_conv snd_conv using s upto_suffix [OF s(1)] t1(2,3) rk Cons.prems(2) c
        by (intro exI [of _ xs] exI [of _ row] exI [of _ "ResetDirty r"] exI [of _ ys] exI [of _ cs2]) simp
      then have "table_end g sz (push_bg_ids g) t sent L (table_deliveries g t (y # ys)) (xs @ map clean (y # ys)) (Some f) buffs1 tab1"
        unfolding D s(1) using s(4) by (intro table_endI [where DA = "deliveries g t cs1 (row, r)"]) (simp_all add: deliveries_append)
      then show ?thesis using step Some by auto
    qed
  qed
qed

text \<open>A row that has been refused fits into the fresh message, so that every new attempt delivers something.\<close>

lemma append_first:
  assumes e: "push_env g junk sz" and r: "srow_ok g sz (row, r)" and c: "0 \<le> c" "c < num_clients g" "sr_subs r ! nat c"
    and v: "views_ok sz (push_bg_ids g) t L (buffs, sent)" and new: "view_ok sz (\<lambda>is. is = [TableId t]) rows (view (buffs, sent) (bg_of g c row))"
  shows "\<exists>buffs'. append_clients g (sr_subs r) row (row_Serialize r) (c # cs) buffs = append_clients g (sr_subs r) row (row_Serialize r) cs buffs' \<and>
    views_ok sz (push_bg_ids g) t (\<lambda>bg. L bg @ for_bg bg [(bg_of g c row, t, row, row_Serialize r)]) (buffs', sent)"
proof -
  let ?bg = "bg_of g c row" and ?rec = "row_Serialize r"
  have bg: "0 < num_bg_threads g" and row: "0 \<le> row" "is_i32 row" "is_size (length ?rec)" and fit: "16 + length ?rec \<le> sz"
    using e r by (auto simp: push_env_def srow_ok_def is_size_def)
  have vb: "view_ok sz (in_table t) (L ?bg) (view (buffs, sent) ?bg)" using v bg_of_push_ids [OF bg c(1,2)] by (auto simp: views_ok_def)
  from view_append [OF vb row] obtain b b' where a: "map_of buffs ?bg = Some b"
    "RecordBuff_Append row ?rec b = Inr (rb_offset b + 12 + length ?rec \<le> sz, b')"
    "if rb_offset b + 12 + length ?rec \<le> sz
     then view_ok sz (in_table t) (L ?bg @ [(t, row, ?rec)]) (view (AList.update ?bg b' buffs, sent) ?bg) else b' = b" by blast
  from new a(1) have "rb_offset b = 4" by (auto elim!: view_okE dest!: buf_ok_offset)
  then have f: "rb_offset b + 12 + length ?rec \<le> sz" using fit by simp
  have "bitset_test (sr_subs r) c = Inr True" using r c by (simp add: bitset_test_def srow_ok_def nat_less_iff)
  then have "append_clients g (sr_subs r) row ?rec (c # cs) buffs = append_clients g (sr_subs r) row ?rec cs (AList.update ?bg b' buffs)"
    using GetBgPartitionNum_eq [OF row(1) bg] a(1,2) f by (simp add: buff_at_def bg_of_def Let_def)
  moreover have "views_ok sz (push_bg_ids g) t (\<lambda>bg. L bg @ for_bg bg [(?bg, t, row, ?rec)]) (AList.update ?bg b' buffs, sent)"
    using v a(3) f by (auto simp: views_ok_def view_upd)
  ultimately show ?thesis by blast
qed

lemma resume_ok:
  assumes e: "push_env g junk sz" and p: "paused g sz t D F (bg, c) tab" and v: "views_ok sz (push_bg_ids g) t L (buffs, sent)"
    and new: "view_ok sz (\<lambda>is. is = [TableId t]) rows (view (buffs, sent) bg)"
  shows "\<exists>d D' res buffs' tab'. D = d # D' \<and> AppendTableToBuffs g junk c True buffs tab = Inr (res, buffs', tab') \<and>
    table_end g sz (push_bg_ids g) t sent (\<lambda>bg. L bg @ for_bg bg [d]) D' F res buffs' tab'"
proof -
  from p obtain xs row r ys cs where q: "tab_at tab xs ((row, r) # ys)" "curr_row_data tab = row_Serialize r" "[c..num_clients g - 1] = c # cs"
    "0 \<le> c" "sr_subs r ! nat c" "bg = bg_of g c row" "srow_ok g sz (row, r)" "\<forall>y \<in> set ys. srow_ok g sz y"
    "D = deliveries g t (c # cs) (row, r) @ table_deliveries g t ys" "F = xs @ (row, r) # map clean ys" by (auto simp: paused_def)
  have cn: "c < num_clients g" and cs: "cs = [c + 1..num_clients g - 1]" using q(3) by (cases "c \<le> num_clients g - 1"; simp add: upto_rec1 [of c])+
  have sub: "set cs \<subseteq> {0..<num_clients g}" using cs q(4) by auto
  let ?d = "(bg, t, row, row_Serialize r)" and ?ap = "append_clients g (sr_subs r) row (row_Serialize r)"
  have D: "D = ?d # deliveries g t cs (row, r) @ table_deliveries g t ys" using q(5,6,9) by (simp add: deliveries_Cons)
  from append_first [OF e q(7,4) cn q(5) v new [unfolded q(6)], of cs, folded q(6)] obtain buffs1 where
    b1: "?ap (c # cs) buffs = ?ap cs buffs1" "views_ok sz (push_bg_ids g) t (\<lambda>bg. L bg @ for_bg bg [?d]) (buffs1, sent)" by blast
  from append_row_ok [OF e q(7) sub b1(2)] obtain res buffs2 where
    a: "?ap cs buffs1 = Inr (res, buffs2)" "append_end g sz (push_bg_ids g) t (row, r) sent (\<lambda>bg. L bg @ for_bg bg [?d]) cs res buffs2" by blast
  have it: "st_row_iter tab < length (st_storage tab)" "st_storage tab ! st_row_iter tab = (row, r)" using q(1) by (simp_all add: tab_at_def)
  have step: "AppendTableToBuffs g junk c True buffs tab =
      (case res of Some f \<Rightarrow> Inr (Some f, buffs2, tab) | None \<Rightarrow> append_rows (length ys) g junk 0 buffs2 (next_row tab))"
    using it q(1,2,3) b1(1) a(1)
    by (cases res) (simp_all add: AppendTableToBuffs_def AppendRowToBuffs_def rows_left_def next_row_def tab_at_def Let_def)
  show ?thesis
  proof (cases res)
    case None
    let ?L = "\<lambda>bg. (L bg @ for_bg bg [?d]) @ for_bg bg (deliveries g t cs (row, r))"
    have "views_ok sz (push_bg_ids g) t ?L (buffs2, sent)" using a(2) None by (simp add: append_end_def)
    from append_rows_ok [OF e tab_at_next [OF q(1)] q(8) this] obtain res' buffs' tab' where
      i: "append_rows (length ys) g junk 0 buffs2 (next_row tab) = Inr (res', buffs', tab')"
      "table_end g sz (push_bg_ids g) t sent ?L (table_deliveries g t ys) ((xs @ [(row, r)]) @ map clean ys) res' buffs' tab'" by blast
    then show ?thesis using step None D table_end_more [OF i(2)] q(10) by auto
  next
    case (Some f)
    obtain bg1 c1 where f: "f = (bg1, c1)" by force
    from a(2) Some f obtain cs1 cs2 where s: "cs = cs1 @ c1 # cs2" "sr_subs r ! nat c1" "bg1 = bg_of g c1 row"
      "views_ok sz (push_bg_ids g) t (\<lambda>bg. (L bg @ for_bg bg [?d]) @ for_bg bg (deliveries g t cs1 (row, r))) (buffs2, sent)" by (auto simp: append_end_def)
    have u: "[c1..num_clients g - 1] = c1 # cs2" "0 \<le> c1" using upto_suffix [OF s(1) [unfolded cs]] q(4) by auto
    have pa: "paused g sz t (deliveries g t (c1 # cs2) (row, r) @ table_deliveries g t ys) F f tab"
      unfolding paused_def f fst_conv snd_conv using q u s(2,3)
      by (intro exI [of _ xs] exI [of _ row] exI [of _ r] exI [of _ ys] exI [of _ cs2]) simp
    have "table_end g sz (push_bg_ids g) t sent (\<lambda>bg. L bg @ for_bg bg [?d]) (deliveries g t cs (row, r) @ table_deliveries g t ys) F (Some f) buffs2 tab"
      by (rule table_endI [OF _ s(4) pa]) (simp add: s(1) deliveries_append)
    then show ?thesis using step Some D by auto
  qed
qed

lemma pack_loop_ok:
  assumes e: "push_env g junk sz" and t: "0 \<le> t" "is_i32 t" and sz: "4 \<le> sz"
    and "table_end g sz (push_bg_ids g) t sent L D F res buffs tab" "length D \<le> n"
  shows "\<exists>st' tab'. pack_loop n g junk sz t (res, buffs, tab) sent = Inr (st', tab') \<and>
    views_ok sz (push_bg_ids g) t (\<lambda>bg. L bg @ for_bg bg D) st' \<and> st_storage tab' = F"
  using assms(5,6)
proof (induction n arbitrary: res buffs tab sent L D)
  case 0
  then have "res = None" by (auto simp: table_end_def paused_def deliveries_Cons split: option.splits)
  then show ?case using 0 by (simp add: table_end_def)
next
  case (Suc n)
  show ?case
  proof (cases res)
    case None
    then show ?thesis using Suc.prems by (simp add: table_end_def)
  next
    case (Some bc)
    obtain bg c where bc: "bc = (bg, c)" by force
    from Suc.prems(1) Some bc obtain D1 D2 where D: "D = D1 @ D2" and p: "paused g sz t D2 F (bg, c) tab" and
      v: "views_ok sz (push_bg_ids g) t (\<lambda>bg. L bg @ for_bg bg D1) (buffs, sent)" by (auto simp: table_end_def)
    have "c \<in> set (clients g)" "bg = bg_of g c (fst (st_storage tab ! st_row_iter tab))"
      using p by (auto simp: paused_def tab_at_def upto_rec1 split: if_splits)
    then have bgs: "bg \<in> set (push_bg_ids g)" using bg_of_push_ids [of g c] e by (auto simp: push_env_def)
    then have vb: "view_ok sz (in_table t) (L bg @ for_bg bg D1) (view (buffs, sent) bg)" using v by (simp add: views_ok_def)
    from flush_failed_ok [OF vb t sz] obtain buffs1 sent1 where fl: "flush_failed sz t bg (buffs, sent) = Inr (buffs1, sent1)"
      "view_ok sz (\<lambda>is. is = [TableId t]) (L bg @ for_bg bg D1) (view (buffs1, sent1) bg)" "others_same bg (buffs, sent) (buffs1, sent1)" by auto
    have "view_ok sz (in_table t) (L bg @ for_bg bg D1) (view (buffs1, sent1) bg)"
      using fl(2) by (rule view_ok_mono) (simp add: in_table_def)
    then have v1: "views_ok sz (push_bg_ids g) t (\<lambda>bg. L bg @ for_bg bg D1) (buffs1, sent1)"
      using v fl(3) by (auto simp: views_ok_def others_same_def)
    from resume_ok [OF e p v1 fl(2)] obtain d D' res' buffs' tab' where
      r: "D2 = d # D'" "AppendTableToBuffs g junk c True buffs1 tab = Inr (res', buffs', tab')"
      "table_end g sz (push_bg_ids g) t sent1 (\<lambda>bg. (L bg @ for_bg bg D1) @ for_bg bg [d]) D' F res' buffs' tab'" by blast
    from Suc.IH [OF r(3)] Suc.prems(2) D r(1) obtain st' tab'' where
      "pack_loop n g junk sz t (res', buffs', tab') sent1 = Inr (st', tab'')"
      "views_ok sz (push_bg_ids g) t (\<lambda>bg. ((L bg @ for_bg bg D1) @ for_bg bg [d]) @ for_bg bg D') st'" "st_storage tab'' = F" by auto
    then show ?thesis using Some bc fl(1) r(1,2) D by simp
  qed
qed

section \<open>All tables\<close>

lemma push_bg_ids_distinct: "num_bg_threads g \<le> kMaxNumThreadsPerClient \<Longrightarrow> distinct (push_bg_ids g)"
proof -
  assume n: "num_bg_threads g \<le> kMaxNumThreadsPerClient"
  let ?f = "\<lambda>c. map (\<lambda>i. get_head_bg_id c + i) [0..num_bg_threads g - 1]"
  have f: "set (?f c) = {get_head_bg_id c..get_head_bg_id c + (num_bg_threads g - 1)}" for c by (simp add: image_add_atLeastAtMost)
  have disj: "set (?f c) \<inter> set (?f c') = {}" if "c \<noteq> c'" for c c'
  proof -
    have "c < c' \<or> c' < c" using that by linarith
    then show ?thesis unfolding f using n by (auto simp: get_head_bg_id_def get_thread_id_min_def kMaxNumThreadsPerClient_def)
  qed
  have "distinct (concat (map ?f cs))" if "distinct cs" for cs
    using that
  proof (induction cs)
    case (Cons c cs)
    have "set (?f c) \<inter> set (?f c') = {}" if "c' \<in> set cs" for c' using that Cons.prems by (intro disj) auto
    then have "set (?f c) \<inter> set (concat (map ?f cs)) = {}" by (simp add: Int_UN_distrib)
    moreover have "distinct (?f c)" by (simp add: distinct_map)
    ultimately show ?case using Cons by simp
  qed simp
  then show ?thesis by (simp add: push_bg_ids_def)
qed

definition push_tab_ok :: "global_context \<Rightarrow> nat \<Rightarrow> int \<times> ('r, 'v) server_table \<Rightarrow> bool" where
  "push_tab_ok g sz x \<longleftrightarrow> 0 \<le> fst x \<and> is_i32 (fst x) \<and> distinct (keys (st_storage (snd x))) \<and> (\<forall>y \<in> set (st_storage (snd x)). srow_ok g sz y)"

definition all_deliveries :: "global_context \<Rightarrow> (int \<times> ('r, 'v) server_table) list \<Rightarrow> (int \<times> int \<times> int \<times> bytes) list" where
  "all_deliveries g tabs = concat (map (\<lambda>(t, tab). table_deliveries g t (st_storage tab)) tabs)"

lemma push_table_ok:
  assumes e: "push_env g junk sz" and d: "distinct (push_bg_ids g)" and tab: "push_tab_ok g sz (t, tab)" and sz: "4 \<le> sz"
    and v: "\<forall>bg \<in> set (push_bg_ids g). view_ok sz between_tables (L bg) (view st bg)"
    and fuel: "length (table_deliveries g t (st_storage tab)) \<le> fuel"
  shows "\<exists>st' tab'. push_table fuel g junk sz t tab st = Inr (st', tab') \<and>
    views_ok sz (push_bg_ids g) t (\<lambda>bg. L bg @ for_bg bg (table_deliveries g t (st_storage tab))) st' \<and> st_storage tab' = map clean (st_storage tab)"
proof -
  have t: "0 \<le> t" "is_i32 t" and rows: "\<forall>y \<in> set (st_storage tab). srow_ok g sz y" using tab by (auto simp: push_tab_ok_def)
  have "\<exists>st1. foldM (put_table_id sz t) st (push_bg_ids g) = Inr st1 \<and> (\<forall>bg \<in> set (push_bg_ids g). view_ok sz (in_table t) (L bg) (view st1 bg)) \<and>
      (\<forall>bg. bg \<notin> set (push_bg_ids g) \<longrightarrow> view st1 bg = view st bg)"
    using put_table_id_ok [OF _ t sz] v by (intro fold_views [OF _ d, where A = "\<lambda>bg. view_ok sz between_tables (L bg)"]) blast+
  then obtain buffs sent where p: "foldM (put_table_id sz t) st (push_bg_ids g) = Inr (buffs, sent)" "views_ok sz (push_bg_ids g) t L (buffs, sent)"
    by (auto simp: views_ok_def)
  let ?tab = "InitAppendTableToBuffs junk tab"
  have at: "tab_at ?tab [] (st_storage tab)" using tab e by (simp add: tab_at_def InitAppendTableToBuffs_def push_env_def push_tab_ok_def)
  from append_rows_ok [OF e at rows p(2)] obtain res buffs' tab' where
    a: "append_rows (length (st_storage tab)) g junk 0 buffs ?tab = Inr (res, buffs', tab')"
    "table_end g sz (push_bg_ids g) t sent L (table_deliveries g t (st_storage tab)) (map clean (st_storage tab)) res buffs' tab'" by auto
  have "AppendTableToBuffs g junk 0 False buffs ?tab = Inr (res, buffs', tab')"
    using a(1) by (simp add: AppendTableToBuffs_def rows_left_def InitAppendTableToBuffs_def)
  then show ?thesis using pack_loop_ok [OF e t sz a(2) fuel] p(1) by (auto simp: push_table_def)
qed

lemma push_tables_ok:
  assumes e: "push_env g junk sz" and d: "distinct (push_bg_ids g)" and sz: "4 \<le> sz"
    and "\<forall>x \<in> set tabs. push_tab_ok g sz x" "left = int (length tabs)" "tabs \<noteq> []"
    and "\<forall>bg \<in> set (push_bg_ids g). view_ok sz between_tables (L bg) (view st bg)" "length (all_deliveries g tabs) \<le> fuel"
  shows "\<exists>st' tabs'. push_tables fuel g junk sz left tabs st = Inr (st', tabs') \<and>
    (\<forall>bg \<in> set (push_bg_ids g). view_ok sz (\<lambda>is. is = [] \<or> last is \<noteq> TableSep) (L bg @ for_bg bg (all_deliveries g tabs)) (view st' bg)) \<and>
    map (\<lambda>(t, tab). (t, st_storage tab)) tabs' = map (\<lambda>(t, tab). (t, map clean (st_storage tab))) tabs"
  using assms(4-)
proof (induction tabs arbitrary: left L st)
  case (Cons x tabs)
  obtain t tab where x: "x = (t, tab)" by force
  have tk: "push_tab_ok g sz (t, tab)" and f: "length (table_deliveries g t (st_storage tab)) \<le> fuel" "length (all_deliveries g tabs) \<le> fuel"
    and D: "all_deliveries g (x # tabs) = table_deliveries g t (st_storage tab) @ all_deliveries g tabs"
    using Cons.prems(1,5) x by (simp_all add: all_deliveries_def)
  from push_table_ok [OF e d tk sz Cons.prems(4) f(1)] obtain st1 tab1 where
    s1: "push_table fuel g junk sz t tab st = Inr (st1, tab1)" "st_storage tab1 = map clean (st_storage tab)"
    "\<forall>bg \<in> set (push_bg_ids g). view_ok sz (in_table t) (L bg @ for_bg bg (table_deliveries g t (st_storage tab))) (view st1 bg)"
    by (auto simp: views_ok_def)
  show ?case
  proof (cases "tabs = []")
    case True
    then have "push_tables fuel g junk sz left (x # tabs) st = Inr (st1, [(t, tab1)])" using s1(1) Cons.prems(2) x by simp
    moreover have "view_ok sz (\<lambda>is. is = [] \<or> last is \<noteq> TableSep) (L bg @ for_bg bg (all_deliveries g (x # tabs))) (view st1 bg)"
      if "bg \<in> set (push_bg_ids g)" for bg
      using s1(3) that True D by (auto simp: all_deliveries_def in_table_def elim!: view_ok_mono dest!: bspec)
    ultimately show ?thesis using s1(2) x True by auto
  next
    case False
    let ?L = "\<lambda>bg. L bg @ for_bg bg (table_deliveries g t (st_storage tab))"
    have "\<exists>st2. foldM (put_table_sep sz) st1 (push_bg_ids g) = Inr st2 \<and> (\<forall>bg \<in> set (push_bg_ids g). view_ok sz between_tables (?L bg) (view st2 bg)) \<and>
        (\<forall>bg. bg \<notin> set (push_bg_ids g) \<longrightarrow> view st2 bg = view st1 bg)"
      using put_table_sep_ok [OF _ sz] s1(3) by (intro fold_views [OF _ d, where A = "\<lambda>bg. view_ok sz (in_table t) (?L bg)"]) blast+
    then obtain st2 where s2: "foldM (put_table_sep sz) st1 (push_bg_ids g) = Inr st2"
      "\<forall>bg \<in> set (push_bg_ids g). view_ok sz between_tables (?L bg) (view st2 bg)" by blast
    have "0 < left - 1" "left - 1 = int (length tabs)" using Cons.prems(2) False by (simp_all add: Suc_le_eq)
    with Cons.IH [OF _ _ False s2(2) f(2)] Cons.prems(1) obtain st' tabs' where
      i: "push_tables fuel g junk sz (left - 1) tabs st2 = Inr (st', tabs')"
      "\<forall>bg \<in> set (push_bg_ids g). view_ok sz (\<lambda>is. is = [] \<or> last is \<noteq> TableSep) (?L bg @ for_bg bg (all_deliveries g tabs)) (view st' bg)"
      "map (\<lambda>(t, tab). (t, st_storage tab)) tabs' = map (\<lambda>(t, tab). (t, map clean (st_storage tab))) tabs" by auto
    have "push_tables fuel g junk sz left (x # tabs) st = Inr (st', (t, tab1) # tabs')"
      using s1(1) s2(1) i(1) x \<open>0 < left - 1\<close> by (simp add: Let_def)
    with i s1(2) x D show ?thesis by auto
  qed
qed simp

section \<open>The whole push\<close>

lemma init_push_buffs_at: "bg \<in> set bgs \<Longrightarrow> map_of (init_push_buffs junk sz bgs) bg = Some (RecordBuff (junk sz) sz)"
proof -
  have "map_of (fold (\<lambda>bg. amap_insert bg (RecordBuff (junk sz) sz)) bgs m) bg =
      (if map_of m bg = None \<and> bg \<in> set bgs then Some (RecordBuff (junk sz) sz) else map_of m bg)" for m
    by (induction bgs arbitrary: m) (auto simp: amap_insert_def update_conv')
  then show "bg \<in> set bgs \<Longrightarrow> ?thesis" by (simp add: init_push_buffs_def)
qed

definition push_ok :: "global_context \<Rightarrow> (nat \<Rightarrow> bytes) \<Rightarrow> ('r, 'v) server \<Rightarrow> bool" where
  "push_ok g junk s \<longleftrightarrow> push_env g junk (push_row_msg_data_size s) \<and> num_bg_threads g \<le> kMaxNumThreadsPerClient \<and> 4 \<le> push_row_msg_data_size s \<and>
     num_tables g = int (length (tables s)) \<and> (\<forall>x \<in> set (tables s). push_tab_ok g (push_row_msg_data_size s) x)"

lemma push_complete:
  assumes ok: "push_ok g junk s" and fuel: "length (all_deliveries g (tables s)) \<le> fuel"
  shows "\<exists>sent s'. CreateSendServerPushRowMsgs fuel g junk s = Inr (sent, s') \<and>
    (\<forall>bg \<in> set (push_bg_ids g). view_done (push_row_msg_data_size s) (for_bg bg (all_deliveries g (tables s))) (None, filter (\<lambda>pc. pc_bg pc = bg) sent)) \<and>
    map (\<lambda>(t, tab). (t, st_storage tab)) (tables s') = map (\<lambda>(t, tab). (t, map clean (st_storage tab))) (tables s)"
proof -
  let ?sz = "push_row_msg_data_size s" and ?bgs = "push_bg_ids g" and ?D = "all_deliveries g (tables s)"
  have e: "push_env g junk ?sz" and d: "distinct ?bgs" and sz: "4 \<le> ?sz" and n: "num_tables g = int (length (tables s))"
    and tabs: "\<forall>x \<in> set (tables s). push_tab_ok g ?sz x"
    using ok push_bg_ids_distinct by (auto simp: push_ok_def)
  let ?st = "(init_push_buffs junk ?sz ?bgs, [])"
  have b: "buf_ok ?sz (RecordBuff (junk ?sz) ?sz) []" using e by (simp add: buf_ok_def RecordBuff_def rb_ok_def rb_used_def push_env_def)
  have v0: "view_ok ?sz (\<lambda>is. is = []) [] (view ?st bg)" if "bg \<in> set ?bgs" for bg
    using init_push_buffs_at [OF that] b by (simp add: view_ok_def view_def)
  have "\<exists>st1 tabs1. push_tables fuel g junk ?sz (num_tables g) (tables s) ?st = Inr (st1, tabs1) \<and>
      (\<forall>bg \<in> set ?bgs. view_ok ?sz (\<lambda>is. is = [] \<or> last is \<noteq> TableSep) (for_bg bg ?D) (view st1 bg)) \<and>
      map (\<lambda>(t, tab). (t, st_storage tab)) tabs1 = map (\<lambda>(t, tab). (t, map clean (st_storage tab))) (tables s)"
  proof (cases "tables s = []")
    case True
    have "view_ok ?sz (\<lambda>is. is = [] \<or> last is \<noteq> TableSep) [] (view ?st bg)" if "bg \<in> set ?bgs" for bg
      using v0 [OF that] by (rule view_ok_mono) simp
    then show ?thesis using True by (simp add: all_deliveries_def)
  next
    case False
    have "view_ok ?sz between_tables [] (view ?st bg)" if "bg \<in> set ?bgs" for bg
      using v0 [OF that] by (rule view_ok_mono) (simp add: between_tables_def)
    then show ?thesis using push_tables_ok [OF e d sz tabs n False, of "\<lambda>_. []"] fuel by simp
  qed
  then obtain st1 tabs1 where s1: "push_tables fuel g junk ?sz (num_tables g) (tables s) ?st = Inr (st1, tabs1)"
    "\<forall>bg \<in> set ?bgs. view_ok ?sz (\<lambda>is. is = [] \<or> last is \<noteq> TableSep) (for_bg bg ?D) (view st1 bg)"
    "map (\<lambda>(t, tab). (t, st_storage tab)) tabs1 = map (\<lambda>(t, tab). (t, map clean (st_storage tab))) (tables s)" by blast
  have "\<exists>st2. foldM push_finish st1 ?bgs = Inr st2 \<and> (\<forall>bg \<in> set ?bgs. view_done ?sz (for_bg bg ?D) (view st2 bg)) \<and>
      (\<forall>bg. bg \<notin> set ?bgs \<longrightarrow> view st2 bg = view st1 bg)"
    using push_finish_ok [OF _ sz] s1(2)
    by (intro fold_views [OF _ d, where A = "\<lambda>bg. view_ok ?sz (\<lambda>is. is = [] \<or> last is \<noteq> TableSep) (for_bg bg ?D)"]) blast+
  then obtain buffs sent where s2: "foldM push_finish st1 ?bgs = Inr (buffs, sent)" "\<forall>bg \<in> set ?bgs. view_done ?sz (for_bg bg ?D) (view (buffs, sent) bg)" by auto
  then show ?thesis using s1(1,3) by (simp add: CreateSendServerPushRowMsgs_def Let_def view_done_def view_def)
qed

end
