(* ===== verification/Push_Loop.thy ===== *)
theory Push_Loop
imports Push_Proofs
begin

text \<open>
  The loop of \<open>CreateSendServerPushRowMsgs\<close> that packs a table until every row has been placed: it ends when every row fits into
  a fresh message, and it never ends when the first row to push does not.
\<close>

section \<open>Fuel\<close>

text \<open>The fuel does not matter once it is enough.\<close>

lemma pack_loop_fuel: "pack_loop n g junk sz t x sent = Inr y \<Longrightarrow> n \<le> m \<Longrightarrow> pack_loop m g junk sz t x sent = Inr y"
proof (induction n g junk sz t x sent arbitrary: m rule: pack_loop.induct)
  case (3 n g junk sz t bg client buffs tab sent)
  then obtain k where m: "m = Suc k" "n \<le> k" by (cases m) auto
  from 3(2) obtain buffs1 sent1 z where "flush_failed sz t bg (buffs, sent) = Inr (buffs1, sent1)" "AppendTableToBuffs g junk client True buffs1 tab = Inr z"
    and r: "pack_loop n g junk sz t z sent1 = Inr y" by (auto simp: rbind_eq_Inr)
  moreover have "pack_loop k g junk sz t z sent1 = Inr y" by (rule "3.IH" [OF r m(2)])
  ultimately show ?case using m(1) by simp
qed simp_all

lemma push_table_fuel: "push_table n g junk sz t tab st = Inr y \<Longrightarrow> n \<le> m \<Longrightarrow> push_table m g junk sz t tab st = Inr y"
proof -
  assume p: "push_table n g junk sz t tab st = Inr y" and nm: "n \<le> m"
  then obtain buffs sent x where "foldM (put_table_id sz t) st (push_bg_ids g) = Inr (buffs, sent)"
    "AppendTableToBuffs g junk 0 False buffs (InitAppendTableToBuffs junk tab) = Inr x" "pack_loop n g junk sz t x sent = Inr y"
    by (auto simp: push_table_def rbind_eq_Inr)
  with pack_loop_fuel [OF _ nm] show "push_table m g junk sz t tab st = Inr y" by (simp add: push_table_def)
qed

lemma push_tables_fuel: "push_tables n g junk sz left tabs st = Inr y \<Longrightarrow> n \<le> m \<Longrightarrow> push_tables m g junk sz left tabs st = Inr y"
proof (induction n g junk sz left tabs st arbitrary: y rule: push_tables.induct)
  case (2 n g junk sz left t tab tabs st)
  from "2.prems"(1) obtain st1 tab1 where p: "push_table n g junk sz t tab st = Inr (st1, tab1)"
    by (auto simp: rbind_eq_Inr)
  have p': "push_table m g junk sz t tab st = Inr (st1, tab1)" using push_table_fuel [OF p "2.prems"(2)] .
  show ?case
  proof (cases "left - 1 > 0")
    case True
    with "2.prems"(1) p obtain st2 z where "foldM (put_table_sep sz) st1 (push_bg_ids g) = Inr st2"
      "push_tables n g junk sz (left - 1) tabs st2 = Inr z" "y = (fst z, (t, tab1) # snd z)" by (auto simp: rbind_eq_Inr Let_def)
    moreover from this(2) have "push_tables m g junk sz (left - 1) tabs st2 = Inr z" by (rule "2.IH" [OF refl True _ "2.prems"(2)])
    ultimately show ?thesis using p' True by (simp add: Let_def split_beta)
  qed (use "2.prems"(1) p p' in \<open>simp add: Let_def\<close>)
qed simp

lemma push_fuel: "CreateSendServerPushRowMsgs n g junk s = Inr y \<Longrightarrow> n \<le> m \<Longrightarrow> CreateSendServerPushRowMsgs m g junk s = Inr y"
proof -
  let ?sz = "push_row_msg_data_size s"
  assume p: "CreateSendServerPushRowMsgs n g junk s = Inr y" and nm: "n \<le> m"
  then obtain st tabs where t: "push_tables n g junk ?sz (num_tables g) (tables s) (init_push_buffs junk ?sz (push_bg_ids g), []) = Inr (st, tabs)"
    by (auto simp: CreateSendServerPushRowMsgs_def rbind_eq_Inr Let_def)
  with push_tables_fuel [OF t nm] p show ?thesis by (simp add: CreateSendServerPushRowMsgs_def Let_def)
qed

section \<open>Rows that do not fit\<close>

text \<open>A row that does not even fit into a fresh message is refused again and again.\<close>

definition all_fresh :: "nat \<Rightarrow> global_context \<Rightarrow> int \<Rightarrow> push_state \<Rightarrow> bool" where
  "all_fresh sz g t st \<longleftrightarrow> (\<forall>bg \<in> set (push_bg_ids g). \<exists>rows. view_ok sz (\<lambda>is. is = [TableId t]) rows (view st bg))"

definition oversized :: "global_context \<Rightarrow> nat \<Rightarrow> int \<times> ('r, 'v) server_row \<Rightarrow> bool" where
  "oversized g sz x \<longleftrightarrow> 0 \<le> fst x \<and> num_clients g \<le> int (length (sr_subs (snd x))) \<and> sz < 16 + length (row_Serialize (snd x)) \<and>
     length (row_Serialize (snd x)) \<le> row_SerializedSize (snd x)"

lemma append_oversized:
  assumes bg: "0 < num_bg_threads g" and x: "oversized g sz (row, r)" and v: "all_fresh sz g t (buffs, sent)"
    and "set cs \<subseteq> {0..<num_clients g}" "\<exists>c \<in> set cs. sr_subs r ! nat c"
  shows "\<exists>c cs1 cs2 buffs'. cs = cs1 @ c # cs2 \<and> append_clients g (sr_subs r) row (row_Serialize r) cs buffs = Inr (Some (bg_of g c row, c), buffs') \<and>
    sr_subs r ! nat c \<and> (\<forall>d \<in> set cs1. \<not> sr_subs r ! nat d) \<and> all_fresh sz g t (buffs', sent)"
  using assms(4,5)
proof (induction cs)
  case (Cons c cs)
  have ct: "bitset_test (sr_subs r) c = Inr (sr_subs r ! nat c)" using Cons.prems(1) x by (simp add: bitset_test_def oversized_def nat_less_iff)
  show ?case
  proof (cases "sr_subs r ! nat c")
    case False
    from Cons.IH Cons.prems False obtain c0 cs1 cs2 buffs' where i: "cs = cs1 @ c0 # cs2"
      "append_clients g (sr_subs r) row (row_Serialize r) cs buffs = Inr (Some (bg_of g c0 row, c0), buffs')"
      "sr_subs r ! nat c0" "\<forall>d \<in> set cs1. \<not> sr_subs r ! nat d" "all_fresh sz g t (buffs', sent)" by auto
    have "c # cs = (c # cs1) @ c0 # cs2" "append_clients g (sr_subs r) row (row_Serialize r) (c # cs) buffs = Inr (Some (bg_of g c0 row, c0), buffs')"
      "\<forall>d \<in> set (c # cs1). \<not> sr_subs r ! nat d" using i ct False by simp_all
    with i(3,5) show ?thesis by blast
  next
    case True
    let ?bg = "bg_of g c row"
    have "?bg \<in> set (push_bg_ids g)" using Cons.prems(1) by (intro bg_of_push_ids [OF bg]) auto
    with v obtain rows where w: "view_ok sz (\<lambda>is. is = [TableId t]) rows (view (buffs, sent) ?bg)" by (auto simp: all_fresh_def)
    then obtain b where b: "map_of buffs ?bg = Some b" "buf_ok sz b [TableId t]" by (auto elim!: view_okE)
    have "RecordBuff_Append row (row_Serialize r) b = Inr (False, b)"
      using b(2) buf_ok_offset [OF b(2)] x by (simp add: RecordBuff_Append_def buf_ok_def oversized_def)
    moreover have "view (AList.update ?bg b buffs, sent) y = view (buffs, sent) y" for y using b(1) by (auto simp: view_upd) (simp add: view_def)
    then have "all_fresh sz g t (AList.update ?bg b buffs, sent)" using v by (simp add: all_fresh_def)
    moreover have "GetBgPartitionNum g row = Inr (int (bg_part g row))" using x bg by (intro GetBgPartitionNum_eq) (simp_all add: oversized_def)
    ultimately have "append_clients g (sr_subs r) row (row_Serialize r) (c # cs) buffs = Inr (Some (?bg, c), AList.update ?bg b buffs)"
      "all_fresh sz g t (AList.update ?bg b buffs, sent)" using ct True b(1) by (simp_all add: buff_at_def bg_of_def Let_def)
    moreover have "c # cs = [] @ c # cs" "\<forall>d \<in> set []. \<not> sr_subs r ! nat d" by simp_all
    ultimately show ?thesis using True by blast
  qed
qed simp

lemma oversized_stuck:
  assumes bg: "0 < num_bg_threads g" and t: "0 \<le> t" "is_i32 t" and sz: "4 \<le> sz" and x: "oversized g sz (row, r)"
    and tab: "tab_at tab xs ((row, r) # ys)" "curr_row_data tab = row_Serialize r" and c: "0 \<le> c" "c < num_clients g" "sr_subs r ! nat c"
    and "all_fresh sz g t (buffs, sent)"
  shows "pack_loop n g junk sz t (Some (bg_of g c row, c), buffs, tab) sent = Inl OutOfFuel"
  using assms(11)
proof (induction n arbitrary: buffs sent)
  case (Suc n)
  let ?bg = "bg_of g c row"
  have m: "?bg \<in> set (push_bg_ids g)" using bg_of_push_ids [OF bg c(1,2)] .
  from Suc.prems m obtain rows where w: "view_ok sz (\<lambda>is. is = [TableId t]) rows (view (buffs, sent) ?bg)" by (auto simp: all_fresh_def)
  then have "view_ok sz (in_table t) rows (view (buffs, sent) ?bg)" by (rule view_ok_mono) (simp add: in_table_def)
  from flush_failed_ok [OF this t sz] obtain buffs1 sent1 where fl: "flush_failed sz t ?bg (buffs, sent) = Inr (buffs1, sent1)"
    "view_ok sz (\<lambda>is. is = [TableId t]) rows (view (buffs1, sent1) ?bg)" "others_same ?bg (buffs, sent) (buffs1, sent1)" by auto
  have v1: "all_fresh sz g t (buffs1, sent1)" unfolding all_fresh_def
  proof
    fix y assume "y \<in> set (push_bg_ids g)"
    then show "\<exists>rows. view_ok sz (\<lambda>is. is = [TableId t]) rows (view (buffs1, sent1) y)"
      using Suc.prems fl(2,3) by (cases "y = ?bg") (auto simp: all_fresh_def others_same_def)
  qed
  have u: "[c..num_clients g - 1] = c # [c + 1..num_clients g - 1]" using c by (simp add: upto_rec1)
  have "set [c..num_clients g - 1] \<subseteq> {0..<num_clients g}" "\<exists>d \<in> set [c..num_clients g - 1]. sr_subs r ! nat d" using c by auto
  from append_oversized [OF bg x v1 this] obtain c0 cs1 cs2 buffs2 where a: "[c..num_clients g - 1] = cs1 @ c0 # cs2"
    "append_clients g (sr_subs r) row (row_Serialize r) [c..num_clients g - 1] buffs1 = Inr (Some (bg_of g c0 row, c0), buffs2)"
    "\<forall>d \<in> set cs1. \<not> sr_subs r ! nat d" "all_fresh sz g t (buffs2, sent1)" by blast
  have "c0 = c" using a(1,3) u c(3) by (cases cs1) auto
  then have "AppendTableToBuffs g junk c True buffs1 tab = Inr (Some (?bg, c), buffs2, tab)"
    using a(2) tab by (simp add: AppendTableToBuffs_def AppendRowToBuffs_def tab_at_def)
  then show ?case using fl(1) Suc.IH [OF a(4)] by simp
qed simp

lemma put_table_id_first:
  assumes v: "view_ok sz (\<lambda>is. is = []) rows (view st bg)" and t: "0 \<le> t" "is_i32 t" and sz: "4 \<le> sz"
  shows "\<exists>st'. put_table_id sz t st bg = Inr st' \<and> (\<exists>rows. view_ok sz (\<lambda>is. is = [TableId t]) rows (view st' bg)) \<and> others_same bg st st'"
proof -
  obtain buffs sent where st: "st = (buffs, sent)" by force
  from v [unfolded st] obtain b "is" r where b: "map_of buffs bg = Some b" "buf_ok sz b is" "is = []" and
    c: "carried sz (map pc_data (snd (view (buffs, sent) bg))) r" "\<forall>pc \<in> set (snd (view (buffs, sent) bg)). \<not> pc_last pc" by (rule view_okE)
  have "rb_offset b + 4 \<le> sz" using buf_ok_offset [OF b(2)] b(3) sz by simp
  from buf_put [OF b(2) this, of "TableId t" t] t b(3) obtain b1 b' where "GetMemPtrInt32 b = (Some (rb_offset b), b1)"
    "store_i32 (rb_offset b) t b1 = Inr b'" "buf_ok sz b' [TableId t]" by auto
  then show ?thesis using b(1) c st
    by (auto simp: put_table_id_def buff_at_def view_upd others_same_def view_ok_def)
qed

lemma skip_rows:
  "tab_at tab xs (ys @ zs) \<Longrightarrow> \<forall>y \<in> set ys. \<not> pushed (snd y) \<Longrightarrow>
   \<exists>tab'. append_rows (length ys + n) g junk 0 buffs tab = append_rows n g junk 0 buffs tab' \<and> tab_at tab' (xs @ ys) zs"
proof (induction ys arbitrary: xs tab)
  case (Cons y ys)
  have "st_storage tab ! st_row_iter tab = y" using Cons.prems(1) by (simp add: tab_at_def)
  then have "append_rows (length (y # ys) + n) g junk 0 buffs tab = append_rows (length ys + n) g junk 0 buffs (next_row tab)"
    using Cons.prems(2) by (cases y) (simp add: pushed_def)
  moreover have "tab_at (next_row tab) (xs @ [y]) (ys @ zs)" using tab_at_next [of tab xs y "ys @ zs"] Cons.prems(1) by simp
  ultimately show ?case using Cons.IH [of "next_row tab" "xs @ [y]"] Cons.prems(2) by auto
qed auto

text \<open>The first row to be pushed is too long for any message.\<close>

definition first_oversized :: "global_context \<Rightarrow> ('r, 'v) server \<Rightarrow> bool" where
  "first_oversized g s \<longleftrightarrow>
     (case tables s of [] \<Rightarrow> False
      | (t, tab) # tabs \<Rightarrow> 0 \<le> t \<and> is_i32 t \<and> distinct (keys (st_storage tab)) \<and>
          (case dropWhile (\<lambda>x. \<not> pushed (snd x)) (st_storage tab) of [] \<Rightarrow> False
           | (row, r) # zs \<Rightarrow> (\<exists>c \<in> set (clients g). sr_subs r ! nat c) \<and> oversized g (push_row_msg_data_size s) (row, r)))"

lemma first_oversizedE:
  assumes "first_oversized g s"
  obtains t tab tabs ys row r zs where "tables s = (t, tab) # tabs" "0 \<le> t" "is_i32 t" "st_storage tab = ys @ (row, r) # zs"
    "distinct (keys (st_storage tab))" "\<forall>y \<in> set ys. \<not> pushed (snd y)" "pushed r" "\<exists>c \<in> set (clients g). sr_subs r ! nat c"
    "oversized g (push_row_msg_data_size s) (row, r)"
proof -
  from assms obtain t tab tabs row r zs where x: "tables s = (t, tab) # tabs" "0 \<le> t" "is_i32 t" "distinct (keys (st_storage tab))"
    "dropWhile (\<lambda>x. \<not> pushed (snd x)) (st_storage tab) = (row, r) # zs" "\<exists>c \<in> set (clients g). sr_subs r ! nat c"
    "oversized g (push_row_msg_data_size s) (row, r)" unfolding first_oversized_def
    by (cases "tables s"; cases "dropWhile (\<lambda>x. \<not> pushed (snd x)) (st_storage (snd (hd (tables s))))") (auto simp del: set_upto dropWhile_eq_Nil_conv)
  have "st_storage tab = takeWhile (\<lambda>x. \<not> pushed (snd x)) (st_storage tab) @ (row, r) # zs" using x(5) by (metis takeWhile_dropWhile_id)
  moreover have "pushed r" using x(5) by (metis dropWhile_eq_Cons_conv snd_conv)
  ultimately show ?thesis using that x set_takeWhileD by metis
qed

lemma push_hangs:
  assumes e: "push_env g junk (push_row_msg_data_size s)" and n: "num_bg_threads g \<le> kMaxNumThreadsPerClient" and sz: "4 \<le> push_row_msg_data_size s"
    and o: "first_oversized g s"
  shows "CreateSendServerPushRowMsgs fuel g junk s = Inl OutOfFuel"
proof -
  let ?sz = "push_row_msg_data_size s" and ?bgs = "push_bg_ids g"
  let ?st = "(init_push_buffs junk ?sz ?bgs, [])"
  from o obtain t tab tabs ys row r zs where x: "tables s = (t, tab) # tabs" "0 \<le> t" "is_i32 t" "st_storage tab = ys @ (row, r) # zs"
    "distinct (keys (st_storage tab))" "\<forall>y \<in> set ys. \<not> pushed (snd y)" "pushed r" "\<exists>c \<in> set (clients g). sr_subs r ! nat c"
    "oversized g ?sz (row, r)" by (rule first_oversizedE)
  have bg: "0 < num_bg_threads g" and junk: "length (junk k) = k" for k using e by (auto simp: push_env_def)
  have "buf_ok ?sz (RecordBuff (junk ?sz) ?sz) []" using junk by (simp add: buf_ok_def RecordBuff_def rb_ok_def rb_used_def)
  then have "view_ok ?sz (\<lambda>is. is = []) [] (view ?st b)" if "b \<in> set ?bgs" for b
    using init_push_buffs_at [OF that] by (simp add: view_ok_def view_def)
  then have "\<exists>st1. foldM (put_table_id ?sz t) ?st ?bgs = Inr st1 \<and> (\<forall>b \<in> set ?bgs. \<exists>rows. view_ok ?sz (\<lambda>is. is = [TableId t]) rows (view st1 b)) \<and>
      (\<forall>b. b \<notin> set ?bgs \<longrightarrow> view st1 b = view ?st b)"
    using put_table_id_first [OF _ x(2,3) sz]
    by (intro fold_views [OF _ push_bg_ids_distinct [OF n], where A = "\<lambda>_. view_ok ?sz (\<lambda>is. is = []) []"]) blast+
  then obtain buffs sent where p: "foldM (put_table_id ?sz t) ?st ?bgs = Inr (buffs, sent)" "all_fresh ?sz g t (buffs, sent)" by (auto simp: all_fresh_def)
  let ?tab = "InitAppendTableToBuffs junk tab"
  have "tab_at ?tab [] (ys @ (row, r) # zs)" using x(4,5) junk by (simp add: tab_at_def InitAppendTableToBuffs_def)
  from skip_rows [OF this x(6), of "Suc (length zs)" g junk buffs] obtain tab1 where
    s1: "append_rows (length ys + Suc (length zs)) g junk 0 buffs ?tab = append_rows (Suc (length zs)) g junk 0 buffs tab1" "tab_at tab1 ys ((row, r) # zs)" by auto
  have "length (row_Serialize r) \<le> row_SerializedSize r" using x(9) by (simp add: oversized_def)
  from serialize_row_ok [OF s1(2) this junk] obtain tab2 where s2: "serialize_curr_row junk row r tab1 = Inr tab2"
    "tab_at tab2 ys ((row, ResetDirty r) # zs)" "curr_row_data tab2 = row_Serialize r" by blast
  from append_oversized [OF bg x(9) p(2) clients_range x(8)] obtain c cs1 cs2 buffs' where
    a: "clients g = cs1 @ c # cs2" "append_clients g (sr_subs r) row (row_Serialize r) (clients g) buffs = Inr (Some (bg_of g c row, c), buffs')"
    "sr_subs r ! nat c" "all_fresh ?sz g t (buffs', sent)" by blast
  have "append_rows (Suc (length zs)) g junk 0 buffs tab1 = Inr (Some (bg_of g c row, c), buffs', tab2)"
    using s1(2) s2 a(2) x(7) by (simp add: pushed_def AppendRowToBuffs_def tab_at_def)
  then have ap: "AppendTableToBuffs g junk 0 False buffs ?tab = Inr (Some (bg_of g c row, c), buffs', tab2)"
    using s1(1) x(4) by (simp add: AppendTableToBuffs_def rows_left_def InitAppendTableToBuffs_def)
  have "c \<in> set (clients g)" using a(1) by simp
  then have "pack_loop fuel g junk ?sz t (Some (bg_of g c row, c), buffs', tab2) sent = Inl OutOfFuel"
    using x(9) a(3) s2(3) by (intro oversized_stuck [OF bg x(2,3) sz _ s2(2) _ _ _ _ a(4)]) (auto simp: oversized_def ResetDirty_def row_SerializedSize_def row_Serialize_def)
  then have "push_table fuel g junk ?sz t tab ?st = Inl OutOfFuel" using p(1) ap by (simp add: push_table_def)
  then show ?thesis using x(1) by (simp add: CreateSendServerPushRowMsgs_def Let_def)
qed

section \<open>Property\<close>

text \<open>
  C26. The loop of \<open>CreateSendServerPushRowMsgs\<close> over a table. It ends when every row fits into a message behind its
  table id: the number of deliveries bounds its rounds, and more fuel gives the same result. When the first row
  to be pushed is longer than that, the loop empties the buffer and tries again for ever.
\<close>

theorem push_termination:
  "(push_ok g junk s \<longrightarrow> (\<exists>sent s'. \<forall>fuel \<ge> length (all_deliveries g (tables s)). CreateSendServerPushRowMsgs fuel g junk s = Inr (sent, s'))) \<and>
   (push_env g junk (push_row_msg_data_size s) \<and> num_bg_threads g \<le> kMaxNumThreadsPerClient \<and> 4 \<le> push_row_msg_data_size s \<and>
      first_oversized g s \<longrightarrow> (\<forall>fuel. CreateSendServerPushRowMsgs fuel g junk s = Inl OutOfFuel))"
proof (intro conjI impI)
  assume "push_ok g junk s"
  from push_complete [OF this order_refl] obtain sent s' where
    "CreateSendServerPushRowMsgs (length (all_deliveries g (tables s))) g junk s = Inr (sent, s')" by blast
  then show "\<exists>sent s'. \<forall>fuel \<ge> length (all_deliveries g (tables s)). CreateSendServerPushRowMsgs fuel g junk s = Inr (sent, s')"
    using push_fuel by blast
qed (use push_hangs in blast)

text \<open>A server of one table with two changed rows, the second of them for both clients, and messages of \<open>n\<close> bytes.\<close>

definition demo_push_ctx :: global_context where
  "demo_push_ctx = GlobalContext_Init 1 1 1 1 1 2 1 2 [1] [] 0 2 SSPPush False 0 [] 0 []"

definition demo_push_row :: "int sparse_row \<Rightarrow> bool list \<Rightarrow> (int sparse_row, int) server_row" where
  "demo_push_row r cs = (ServerRow (sparse_ops i32_pod) r)\<lparr>sr_subs := cs, sr_num_subscribed := length (filter id cs), sr_dirty := True\<rparr>"

definition demo_push_table :: "(int sparse_row, int) server_table" where
  "demo_push_table = (ServerTable \<lparr>table_staleness = 0, row_type = 0, row_capacity = 0\<rparr>)\<lparr>st_storage :=
     [(3, demo_push_row [(0, 7)] [True, False]), (4, demo_push_row [(1, 5)] [True, True])]\<rparr>"

definition demo_push_server :: "nat \<Rightarrow> (int sparse_row, int) server" where
  "demo_push_server n = Server_new\<lparr>tables := [(0, demo_push_table)], push_row_msg_data_size := n\<rparr>"

lemma demo_rows_size:
  "length (row_Serialize (demo_push_row [(c, v)] cs)) = 8" "row_SerializedSize (demo_push_row [(c, v)] cs) = 8"
  by (simp_all add: row_Serialize_def row_SerializedSize_def demo_push_row_def ServerRow_def sparse_ops_def sparse_Serialize_length [OF i32_pod_ok]
      sparse_SerializedSize_def) (simp_all add: i32_pod_def)

lemma demo_push_env: "is_size n \<Longrightarrow> push_env demo_push_ctx (\<lambda>n. replicate n 0) n" "num_bg_threads demo_push_ctx \<le> kMaxNumThreadsPerClient"
  by (simp_all add: push_env_def demo_push_ctx_def GlobalContext_Init_def kMaxNumThreadsPerClient_def)

lemma demo_deliveries: "all_deliveries demo_push_ctx [(0, demo_push_table)] =
   [(100, 0, 3, row_Serialize (demo_push_row [(0, 7)] [True, False])), (100, 0, 4, row_Serialize (demo_push_row [(1, 5)] [True, True])),
    (1100, 0, 4, row_Serialize (demo_push_row [(1, 5)] [True, True]))]"
proof -
  have "[0..num_clients demo_push_ctx - 1] = [0, 1]" by code_simp
  then show ?thesis
    by (simp add: all_deliveries_def table_deliveries_def demo_push_table_def pushed_def deliveries_def NoClientSubscribed_def IsDirty_def)
      (simp add: demo_push_row_def bg_of_def bg_part_def demo_push_ctx_def GlobalContext_Init_def get_head_bg_id_def
        get_thread_id_min_def kBgThreadIDStartOffset_def kMaxNumThreadsPerClient_def)
qed

lemma demo_push_ok: "push_ok demo_push_ctx (\<lambda>n. replicate n 0) (demo_push_server 28)"
  using demo_push_env
  by (simp add: push_ok_def demo_push_server_def demo_push_table_def push_tab_ok_def srow_ok_def demo_rows_size is_size_def is_i32_def)
    (simp add: demo_push_ctx_def GlobalContext_Init_def demo_push_row_def)

theorem push_termination_witness:
  "(\<exists>sent s'. CreateSendServerPushRowMsgs 3 demo_push_ctx (\<lambda>n. replicate n 0) (demo_push_server 28) = Inr (sent, s')) \<and>
   (\<forall>fuel. CreateSendServerPushRowMsgs fuel demo_push_ctx (\<lambda>n. replicate n 0) (demo_push_server 20) = Inl OutOfFuel)"
proof
  have "length (all_deliveries demo_push_ctx (tables (demo_push_server 28))) = 3" by (simp add: demo_push_server_def demo_deliveries)
  then show "\<exists>sent s'. CreateSendServerPushRowMsgs 3 demo_push_ctx (\<lambda>n. replicate n 0) (demo_push_server 28) = Inr (sent, s')"
    using push_termination [of demo_push_ctx "\<lambda>n. replicate n 0" "demo_push_server 28"] demo_push_ok by auto
  have "first_oversized demo_push_ctx (demo_push_server 20)"
    by (simp add: first_oversized_def demo_push_server_def demo_push_table_def oversized_def demo_rows_size is_i32_def pushed_def)
      (simp add: demo_push_ctx_def GlobalContext_Init_def demo_push_row_def NoClientSubscribed_def IsDirty_def bexI [of _ "0 :: int"])
  then show "\<forall>fuel. CreateSendServerPushRowMsgs fuel demo_push_ctx (\<lambda>n. replicate n 0) (demo_push_server 20) = Inl OutOfFuel"
    using push_termination [of demo_push_ctx "\<lambda>n. replicate n 0" "demo_push_server 20"] demo_push_env
    by (simp add: demo_push_server_def is_size_def)
qed

end
