(* ===== verification/Comm_Bus.thy ===== *)
theory Comm_Bus
imports Server
begin

text \<open>
  The communication bus (petuum_ps_common/comm_bus/comm_bus.cpp, zmq_util.cpp): registration of threads, connections, and the
  sends and receives of a thread over its two router sockets.  ZeroMQ is a record of operations on the state \<open>'w\<close> of all
  sockets.  The thread-specific \<open>thr_info_\<close> is passed as an option.
\<close>

unbundle bit_operations_syntax

section \<open>ZeroMQ\<close>

type_synonym sock = nat

datatype sock_opt = ZMQ_IDENTITY | ZMQ_ROUTER_MANDATORY | ZMQ_SNDBUF | ZMQ_RCVBUF

datatype zmq_errno = EINVAL | EPROTONOSUPPORT | ENOCOMPATPROTO | EADDRINUSE | EADDRNOTAVAIL | ENODEV | ETERM | ENOTSOCK | EMTHREAD
  | ENOTSUP | EFSM | EAGAIN | EINTR | EFAULT | EHOSTUNREACH | EMFILE | ECONNREFUSED

text \<open>A call returns, throws \<open>zmq::error_t\<close>, or waits for ever.\<close>

datatype 'a zres = Returned 'a | Threw zmq_errno | Waits

text \<open>
  The calls the bus makes: a router socket, its options, \<open>bind\<close> and \<open>connect\<close>; \<open>send\<close> of a frame with or without
  \<open>ZMQ_SNDMORE\<close>, from memory or from a \<open>message_t\<close>; \<open>recv\<close> with or without \<open>ZMQ_DONTWAIT\<close>; \<open>poll\<close> with the
  sockets that have input as its answer. \<open>zo_nanosleep\<close> is the call of the C library.
\<close>

record 'w zmq_ops =
  zo_socket :: "'w \<Rightarrow> sock zres \<times> 'w"
  zo_setsockopt :: "sock \<Rightarrow> sock_opt \<Rightarrow> bytes \<Rightarrow> 'w \<Rightarrow> unit zres \<times> 'w"
  zo_bind :: "sock \<Rightarrow> string \<Rightarrow> 'w \<Rightarrow> unit zres \<times> 'w"
  zo_connect :: "sock \<Rightarrow> string \<Rightarrow> 'w \<Rightarrow> unit zres \<times> 'w"
  zo_send :: "sock \<Rightarrow> bytes \<Rightarrow> bool \<Rightarrow> 'w \<Rightarrow> nat zres \<times> 'w"
  zo_send_msg :: "sock \<Rightarrow> bytes \<Rightarrow> bool \<Rightarrow> 'w \<Rightarrow> bool zres \<times> 'w"
  zo_recv :: "sock \<Rightarrow> bool \<Rightarrow> 'w \<Rightarrow> bytes option zres \<times> 'w"
  zo_poll :: "sock list \<Rightarrow> int \<Rightarrow> 'w \<Rightarrow> (sock \<Rightarrow> bool) zres \<times> 'w"
  zo_nanosleep :: "'w \<Rightarrow> int \<times> 'w"

text \<open>Every error is fatal.\<close>

definition or_fatal :: "'a zres \<times> 'w \<Rightarrow> ('a \<times> 'w) result" where
  "or_fatal r =
     (case r of (Returned x, w) \<Rightarrow> Inr (x, w)
      | (Threw e, w) \<Rightarrow> Inl (Fatal ''zmq::error_t'')
      | (Waits, w) \<Rightarrow> Inl (Blocked ''zmq''))"

section \<open>ZMQUtil\<close>

definition EntityID2ZmqID :: "int \<Rightarrow> int" where
  "EntityID2ZmqID i = sint ((push_bit 4 (word_of_int i) OR 1) :: 32 word)"

definition ZmqID2EntityID :: "int \<Rightarrow> int" where
  "ZmqID2EntityID i = sint (signed_drop_bit 4 (word_of_int i :: 32 word))"

definition ZMQSetSockOpt :: "'w zmq_ops \<Rightarrow> sock \<Rightarrow> sock_opt \<Rightarrow> bytes \<Rightarrow> 'w \<Rightarrow> 'w result" where
  "ZMQSetSockOpt z s opt v w = rbind (or_fatal (zo_setsockopt z s opt v w)) (\<lambda>(_, w). Inr w)"

definition ZMQBind :: "'w zmq_ops \<Rightarrow> sock \<Rightarrow> string \<Rightarrow> 'w \<Rightarrow> 'w result" where
  "ZMQBind z s addr w = rbind (or_fatal (zo_bind z s addr w)) (\<lambda>(_, w). Inr w)"

text \<open>The errors in \<open>ZMQConnectSend\<close> that are fatal; after any other one, a missing route in particular, it tries again.\<close>

definition fails_fast :: "zmq_errno \<Rightarrow> bool" where
  "fails_fast e \<longleftrightarrow> e \<in> {ENOTSUP, EFSM, ETERM, EAGAIN, ENOTSOCK, EINTR}"

text \<open>One attempt: the length the second frame was sent with, or None to try again.\<close>

definition connect_attempt :: "'w zmq_ops \<Rightarrow> sock \<Rightarrow> int \<Rightarrow> bytes \<Rightarrow> 'w \<Rightarrow> (nat option \<times> 'w) result" where
  "connect_attempt z s zid msg w =
     (let failed = (\<lambda>e w. if fails_fast e then Inl (Fatal ''zmq::error_t'') else Inr (None, w)) in
      case zo_send z s (i32_enc zid) True w of
        (Threw e, w) \<Rightarrow> failed e w
      | (Waits, w) \<Rightarrow> Inl (Blocked ''zmq'')
      | (Returned n, w) \<Rightarrow>
          if n = 4 then
            (case zo_send z s msg False w of
               (Threw e, w) \<Rightarrow> failed e w
             | (Waits, w) \<Rightarrow> Inl (Blocked ''zmq'')
             | (Returned n, w) \<Rightarrow> Inr (Some n, w))
          else Inr (None, w))"

fun connect_loop :: "nat \<Rightarrow> 'w zmq_ops \<Rightarrow> sock \<Rightarrow> int \<Rightarrow> bytes \<Rightarrow> 'w \<Rightarrow> (nat \<times> 'w) result" where
  "connect_loop 0 z s zid msg w = Inl OutOfFuel"
| "connect_loop (Suc fuel) z s zid msg w =
     rbind (connect_attempt z s zid msg w) (\<lambda>(sent, w).
     case sent of Some n \<Rightarrow> Inr (n, w)
     | None \<Rightarrow>
         (case zo_nanosleep z w of (suc, w) \<Rightarrow>
          rbind (check (suc = 0) ''failed nanosleep'') (\<lambda>_. connect_loop fuel z s zid msg w)))"

definition ZMQConnectSend :: "nat \<Rightarrow> 'w zmq_ops \<Rightarrow> sock \<Rightarrow> string \<Rightarrow> int \<Rightarrow> bytes \<Rightarrow> 'w \<Rightarrow> 'w result" where
  "ZMQConnectSend fuel z s addr zid msg w =
     rbind (or_fatal (zo_connect z s addr w)) (\<lambda>(_, w).
     rbind (connect_loop fuel z s zid msg w) (\<lambda>(n, w).
     rbind (check (n = length msg) ''len == size'') (\<lambda>_. Inr w)))"

definition ZMQRecvAsync_frame :: "'w zmq_ops \<Rightarrow> sock \<Rightarrow> 'w \<Rightarrow> (bytes option \<times> 'w) result" where
  "ZMQRecvAsync_frame z s w = or_fatal (zo_recv z s True w)"

definition ZMQRecv_frame :: "'w zmq_ops \<Rightarrow> sock \<Rightarrow> 'w \<Rightarrow> (bytes \<times> 'w) result" where
  "ZMQRecv_frame z s w =
     rbind (or_fatal (zo_recv z s False w)) (\<lambda>(x, w).
     case x of Some m \<Rightarrow> Inr (m, w) | None \<Rightarrow> Inl (CheckFailed ''recved''))"

definition ZMQRecvAsync :: "'w zmq_ops \<Rightarrow> sock \<Rightarrow> 'w \<Rightarrow> ((int \<times> bytes) option \<times> 'w) result" where
  "ZMQRecvAsync z s w =
     rbind (ZMQRecvAsync_frame z s w) (\<lambda>(x, w).
     case x of None \<Rightarrow> Inr (None, w)
     | Some m \<Rightarrow>
         rbind (rd_i32 m 0) (\<lambda>zid.
         rbind (ZMQRecv_frame z s w) (\<lambda>(msg, w). Inr (Some (zid, msg), w))))"

definition ZMQRecv :: "'w zmq_ops \<Rightarrow> sock \<Rightarrow> 'w \<Rightarrow> ((int \<times> bytes) \<times> 'w) result" where
  "ZMQRecv z s w =
     rbind (ZMQRecv_frame z s w) (\<lambda>(m, w).
     rbind (rd_i32 m 0) (\<lambda>zid.
     rbind (ZMQRecv_frame z s w) (\<lambda>(msg, w). Inr ((zid, msg), w))))"

definition ZMQSend_frame :: "'w zmq_ops \<Rightarrow> sock \<Rightarrow> bytes \<Rightarrow> bool \<Rightarrow> 'w \<Rightarrow> (nat \<times> 'w) result" where
  "ZMQSend_frame z s data sndmore w = or_fatal (zo_send z s data sndmore w)"

definition ZMQSend :: "'w zmq_ops \<Rightarrow> sock \<Rightarrow> int \<Rightarrow> bytes \<Rightarrow> 'w \<Rightarrow> (nat \<times> 'w) result" where
  "ZMQSend z s zid data w =
     rbind (ZMQSend_frame z s (i32_enc zid) True w) (\<lambda>(n, w).
     if n = 0 then Inr (0, w) else ZMQSend_frame z s data False w)"

text \<open>\<open>socket_t::send(message_t &)\<close> returns a truth value, which becomes the number of bytes.\<close>

definition ZMQSend_msg_frame :: "'w zmq_ops \<Rightarrow> sock \<Rightarrow> bytes \<Rightarrow> bool \<Rightarrow> 'w \<Rightarrow> (nat \<times> 'w) result" where
  "ZMQSend_msg_frame z s msg sndmore w = rbind (or_fatal (zo_send_msg z s msg sndmore w)) (\<lambda>(b, w). Inr (of_bool b, w))"

definition ZMQSend_msg :: "'w zmq_ops \<Rightarrow> sock \<Rightarrow> int \<Rightarrow> bytes \<Rightarrow> 'w \<Rightarrow> (nat \<times> 'w) result" where
  "ZMQSend_msg z s zid msg w =
     rbind (ZMQSend_frame z s (i32_enc zid) True w) (\<lambda>(n, w).
     if n = 0 then Inr (0, w) else ZMQSend_msg_frame z s msg False w)"

section \<open>Configuration and threads\<close>

definition kNone :: int where "kNone = 0"
definition kInProc :: int where "kInProc = 1"
definition kInterProc :: int where "kInterProc = 2"

record comm_config =
  cc_entity_id :: int
  cc_ltype :: int
  cc_network_addr :: string
  cc_inproc_send_buff :: int
  cc_inproc_recv_buff :: int
  cc_interproc_send_buff :: int
  cc_interproc_recv_buff :: int

definition Config :: comm_config where
  "Config = \<lparr>cc_entity_id = 0, cc_ltype = kNone, cc_network_addr = [], cc_inproc_send_buff = 0, cc_inproc_recv_buff = 0,
     cc_interproc_send_buff = 0, cc_interproc_recv_buff = 0\<rparr>"

definition Config_of :: "int \<Rightarrow> int \<Rightarrow> string \<Rightarrow> comm_config" where
  "Config_of i ltype addr = \<lparr>cc_entity_id = i, cc_ltype = ltype, cc_network_addr = addr, cc_inproc_send_buff = 0,
     cc_inproc_recv_buff = 0, cc_interproc_send_buff = 0, cc_interproc_recv_buff = 0\<rparr>"

text \<open>\<open>poll_size_\<close> is never used. The poll items are the sockets they were made from.\<close>

record thread_comm_info =
  ti_entity_id :: int
  ti_inproc_sock :: "sock option"
  ti_interproc_sock :: "sock option"
  ti_pollitems :: "(sock \<times> sock) option"
  ti_inproc_pollitem :: "sock option"
  ti_interproc_pollitem :: "sock option"
  ti_ltype :: int
  ti_inproc_send_buff :: int
  ti_inproc_recv_buff :: int
  ti_interproc_send_buff :: int
  ti_interproc_recv_buff :: int

record comm_bus =
  e_st :: int
  e_end :: int

definition CommBus :: "int \<Rightarrow> int \<Rightarrow> comm_bus" where
  "CommBus st en = \<lparr>e_st = st, e_end = en\<rparr>"

definition kInProcPrefix :: string where "kInProcPrefix = ''inproc://comm_bus''"
definition kInterProcPrefix :: string where "kInterProcPrefix = ''tcp://''"

definition MakeInProcAddr :: "int \<Rightarrow> string" where
  "MakeInProcAddr i = kInProcPrefix @ '':'' @ show_int i"

definition MakeInterProcAddr :: "string \<Rightarrow> string" where
  "MakeInterProcAddr addr = kInterProcPrefix @ addr"

definition IsLocalEntity :: "comm_bus \<Rightarrow> int \<Rightarrow> bool" where
  "IsLocalEntity bus i \<longleftrightarrow> e_st bus \<le> i \<and> i \<le> e_end bus"

definition SetUpRouterSocket :: "'w zmq_ops \<Rightarrow> sock \<Rightarrow> int \<Rightarrow> int \<Rightarrow> int \<Rightarrow> 'w \<Rightarrow> 'w result" where
  "SetUpRouterSocket z s i send_buff recv_buff w =
     rbind (ZMQSetSockOpt z s ZMQ_IDENTITY (i32_enc (EntityID2ZmqID i)) w) (\<lambda>w.
     rbind (ZMQSetSockOpt z s ZMQ_ROUTER_MANDATORY (i32_enc 1) w) (\<lambda>w.
     rbind (if send_buff \<noteq> 0 then ZMQSetSockOpt z s ZMQ_SNDBUF (i32_enc send_buff) w else Inr w) (\<lambda>w.
     if recv_buff \<noteq> 0 then ZMQSetSockOpt z s ZMQ_RCVBUF (i32_enc recv_buff) w else Inr w)))"

definition new_router :: "'w zmq_ops \<Rightarrow> int \<Rightarrow> int \<Rightarrow> int \<Rightarrow> 'w \<Rightarrow> (sock \<times> 'w) result" where
  "new_router z i send_buff recv_buff w =
     rbind (or_fatal (zo_socket z w)) (\<lambda>(s, w).
     rbind (SetUpRouterSocket z s i send_buff recv_buff w) (\<lambda>w. Inr (s, w)))"

definition ThreadCommInfo :: "comm_config \<Rightarrow> thread_comm_info" where
  "ThreadCommInfo c = \<lparr>ti_entity_id = cc_entity_id c, ti_inproc_sock = None, ti_interproc_sock = None, ti_pollitems = None,
     ti_inproc_pollitem = None, ti_interproc_pollitem = None, ti_ltype = cc_ltype c, ti_inproc_send_buff = cc_inproc_send_buff c,
     ti_inproc_recv_buff = cc_inproc_recv_buff c, ti_interproc_send_buff = cc_interproc_send_buff c,
     ti_interproc_recv_buff = cc_interproc_recv_buff c\<rparr>"

text \<open>The socket for other processes is given the buffer sizes of the one for this process.\<close>

definition ThreadRegister ::
  "'w zmq_ops \<Rightarrow> comm_config \<Rightarrow> thread_comm_info option \<Rightarrow> 'w \<Rightarrow> (thread_comm_info option \<times> 'w) result" where
  "ThreadRegister z c thr_info w =
     rbind (check (thr_info = None) ''This thread has been initialized'') (\<lambda>_.
     let ti = ThreadCommInfo c in
     rbind (if cc_ltype c AND kInProc \<noteq> 0 then
              rbind (new_router z (cc_entity_id c) (cc_inproc_send_buff c) (cc_inproc_recv_buff c) w) (\<lambda>(s, w).
              rbind (ZMQBind z s (MakeInProcAddr (cc_entity_id c)) w) (\<lambda>w.
              Inr (ti\<lparr>ti_inproc_sock := Some s\<rparr>, w)))
            else Inr (ti, w)) (\<lambda>(ti, w).
     rbind (if cc_ltype c AND kInterProc \<noteq> 0 then
              rbind (new_router z (cc_entity_id c) (cc_inproc_send_buff c) (cc_inproc_recv_buff c) w) (\<lambda>(s, w).
              rbind (ZMQBind z s (MakeInterProcAddr (cc_network_addr c)) w) (\<lambda>w.
              Inr (ti\<lparr>ti_interproc_sock := Some s\<rparr>, w)))
            else Inr (ti, w)) (\<lambda>(ti, w).
     Inr (Some ti, w))))"

definition ThreadDeregister :: "thread_comm_info option \<Rightarrow> thread_comm_info option" where
  "ThreadDeregister thr_info = None"

text \<open>\<open>thr_info_->\<close> and the use of a socket through a pointer that may be null.\<close>

definition the_info :: "thread_comm_info option \<Rightarrow> thread_comm_info result" where
  "the_info thr_info = of_option (Undefined ''thr_info_'') thr_info"

definition the_sock :: "sock option \<Rightarrow> sock result" where
  "the_sock s = of_option (Undefined ''null socket'') s"

section \<open>Connections\<close>

definition ConnectTo_local ::
  "nat \<Rightarrow> 'w zmq_ops \<Rightarrow> comm_bus \<Rightarrow> int \<Rightarrow> bytes \<Rightarrow> thread_comm_info option \<Rightarrow> 'w \<Rightarrow> (thread_comm_info option \<times> 'w) result" where
  "ConnectTo_local fuel z bus i msg thr_info w =
     rbind (check (IsLocalEntity bus i) ''Not local entity'') (\<lambda>_.
     rbind (the_info thr_info) (\<lambda>ti.
     rbind (case ti_inproc_sock ti of
              Some s \<Rightarrow> Inr (s, ti, w)
            | None \<Rightarrow> rbind (new_router z (ti_entity_id ti) (ti_inproc_send_buff ti) (ti_inproc_recv_buff ti) w) (\<lambda>(s, w).
                Inr (s, ti\<lparr>ti_inproc_sock := Some s\<rparr>, w))) (\<lambda>(s, ti, w).
     rbind (ZMQConnectSend fuel z s (MakeInProcAddr i) (EntityID2ZmqID i) msg w) (\<lambda>w.
     Inr (Some ti, w)))))"

definition ConnectTo_remote ::
  "nat \<Rightarrow> 'w zmq_ops \<Rightarrow> comm_bus \<Rightarrow> int \<Rightarrow> string \<Rightarrow> bytes \<Rightarrow> thread_comm_info option \<Rightarrow> 'w \<Rightarrow>
   (thread_comm_info option \<times> 'w) result" where
  "ConnectTo_remote fuel z bus i addr msg thr_info w =
     rbind (check (\<not> IsLocalEntity bus i) ''Local entity'') (\<lambda>_.
     rbind (the_info thr_info) (\<lambda>ti.
     rbind (case ti_interproc_sock ti of
              Some s \<Rightarrow> Inr (s, ti, w)
            | None \<Rightarrow> rbind (new_router z (ti_entity_id ti) (ti_interproc_send_buff ti) (ti_interproc_recv_buff ti) w) (\<lambda>(s, w).
                Inr (s, ti\<lparr>ti_interproc_sock := Some s\<rparr>, w))) (\<lambda>(s, ti, w).
     rbind (ZMQConnectSend fuel z s (MakeInterProcAddr addr) (EntityID2ZmqID i) msg w) (\<lambda>w.
     Inr (Some ti, w)))))"

section \<open>Sending\<close>

definition SendInProc :: "'w zmq_ops \<Rightarrow> int \<Rightarrow> bytes \<Rightarrow> thread_comm_info option \<Rightarrow> 'w \<Rightarrow> (nat \<times> 'w) result" where
  "SendInProc z i data thr_info w =
     rbind (the_info thr_info) (\<lambda>ti. rbind (the_sock (ti_inproc_sock ti)) (\<lambda>s. ZMQSend z s (EntityID2ZmqID i) data w))"

definition SendInterProc :: "'w zmq_ops \<Rightarrow> int \<Rightarrow> bytes \<Rightarrow> thread_comm_info option \<Rightarrow> 'w \<Rightarrow> (nat \<times> 'w) result" where
  "SendInterProc z i data thr_info w =
     rbind (the_info thr_info) (\<lambda>ti. rbind (the_sock (ti_interproc_sock ti)) (\<lambda>s. ZMQSend z s (EntityID2ZmqID i) data w))"

definition Bus_Send :: "'w zmq_ops \<Rightarrow> comm_bus \<Rightarrow> int \<Rightarrow> bytes \<Rightarrow> thread_comm_info option \<Rightarrow> 'w \<Rightarrow> (nat \<times> 'w) result" where
  "Bus_Send z bus i data thr_info w =
     rbind (the_info thr_info) (\<lambda>ti.
     rbind (the_sock (if IsLocalEntity bus i then ti_inproc_sock ti else ti_interproc_sock ti)) (\<lambda>s.
     ZMQSend z s (EntityID2ZmqID i) data w))"

definition Bus_Send_msg :: "'w zmq_ops \<Rightarrow> comm_bus \<Rightarrow> int \<Rightarrow> bytes \<Rightarrow> thread_comm_info option \<Rightarrow> 'w \<Rightarrow> (nat \<times> 'w) result" where
  "Bus_Send_msg z bus i msg thr_info w =
     rbind (the_info thr_info) (\<lambda>ti.
     rbind (the_sock (if IsLocalEntity bus i then ti_inproc_sock ti else ti_interproc_sock ti)) (\<lambda>s.
     ZMQSend_msg z s (EntityID2ZmqID i) msg w))"

definition SendInProc_msg :: "'w zmq_ops \<Rightarrow> int \<Rightarrow> bytes \<Rightarrow> thread_comm_info option \<Rightarrow> 'w \<Rightarrow> (nat \<times> 'w) result" where
  "SendInProc_msg z i msg thr_info w =
     rbind (the_info thr_info) (\<lambda>ti. rbind (the_sock (ti_inproc_sock ti)) (\<lambda>s. ZMQSend_msg z s (EntityID2ZmqID i) msg w))"

section \<open>Receiving\<close>

text \<open>The entity id of the sender and the message from a socket that has input.\<close>

definition recv_from :: "'w zmq_ops \<Rightarrow> sock \<Rightarrow> 'w \<Rightarrow> ((int \<times> bytes) \<times> 'w) result" where
  "recv_from z s w = rbind (ZMQRecv z s w) (\<lambda>((zid, msg), w). Inr ((ZmqID2EntityID zid, msg), w))"

definition recv_async_from :: "'w zmq_ops \<Rightarrow> sock \<Rightarrow> 'w \<Rightarrow> ((int \<times> bytes) option \<times> 'w) result" where
  "recv_async_from z s w =
     rbind (ZMQRecvAsync z s w) (\<lambda>(x, w). Inr (map_option (\<lambda>(zid, msg). (ZmqID2EntityID zid, msg)) x, w))"

definition set_pollitems :: "thread_comm_info \<Rightarrow> ((sock \<times> sock) \<times> thread_comm_info) result" where
  "set_pollitems ti =
     (case ti_pollitems ti of Some p \<Rightarrow> Inr (p, ti)
      | None \<Rightarrow>
          rbind (the_sock (ti_inproc_sock ti)) (\<lambda>s1.
          rbind (the_sock (ti_interproc_sock ti)) (\<lambda>s2. Inr ((s1, s2), ti\<lparr>ti_pollitems := Some (s1, s2)\<rparr>))))"

definition Recv ::
  "'w zmq_ops \<Rightarrow> thread_comm_info option \<Rightarrow> 'w \<Rightarrow> ((int \<times> bytes) \<times> thread_comm_info option \<times> 'w) result" where
  "Recv z thr_info w =
     rbind (the_info thr_info) (\<lambda>ti.
     rbind (set_pollitems ti) (\<lambda>((s1, s2), ti).
     rbind (or_fatal (zo_poll z [s1, s2] (- 1) w)) (\<lambda>(revents, w).
     rbind (recv_from z (if revents s1 then s1 else s2) w) (\<lambda>(x, w). Inr (x, Some ti, w)))))"

definition RecvTimeOut ::
  "'w zmq_ops \<Rightarrow> int \<Rightarrow> thread_comm_info option \<Rightarrow> 'w \<Rightarrow> ((int \<times> bytes) option \<times> thread_comm_info option \<times> 'w) result" where
  "RecvTimeOut z timeout thr_info w =
     rbind (the_info thr_info) (\<lambda>ti.
     rbind (set_pollitems ti) (\<lambda>((s1, s2), ti).
     rbind (or_fatal (zo_poll z [s1, s2] timeout w)) (\<lambda>(revents, w).
     if revents s1 then rbind (recv_from z s1 w) (\<lambda>(x, w). Inr (Some x, Some ti, w))
     else if revents s2 then rbind (recv_from z s2 w) (\<lambda>(x, w). Inr (Some x, Some ti, w))
     else Inr (None, Some ti, w))))"

definition RecvAsync ::
  "'w zmq_ops \<Rightarrow> thread_comm_info option \<Rightarrow> 'w \<Rightarrow> ((int \<times> bytes) option \<times> thread_comm_info option \<times> 'w) result" where
  "RecvAsync z thr_info w = RecvTimeOut z 0 thr_info w"

definition RecvInProc ::
  "'w zmq_ops \<Rightarrow> thread_comm_info option \<Rightarrow> 'w \<Rightarrow> ((int \<times> bytes) \<times> 'w) result" where
  "RecvInProc z thr_info w =
     rbind (the_info thr_info) (\<lambda>ti. rbind (the_sock (ti_inproc_sock ti)) (\<lambda>s. recv_from z s w))"

definition RecvInProcAsync ::
  "'w zmq_ops \<Rightarrow> thread_comm_info option \<Rightarrow> 'w \<Rightarrow> ((int \<times> bytes) option \<times> 'w) result" where
  "RecvInProcAsync z thr_info w =
     rbind (the_info thr_info) (\<lambda>ti. rbind (the_sock (ti_inproc_sock ti)) (\<lambda>s. recv_async_from z s w))"

definition RecvInProcTimeOut ::
  "'w zmq_ops \<Rightarrow> int \<Rightarrow> thread_comm_info option \<Rightarrow> 'w \<Rightarrow> ((int \<times> bytes) option \<times> thread_comm_info option \<times> 'w) result" where
  "RecvInProcTimeOut z timeout thr_info w =
     rbind (the_info thr_info) (\<lambda>ti.
     rbind (case ti_inproc_pollitem ti of Some p \<Rightarrow> Inr (p, ti)
            | None \<Rightarrow> rbind (the_sock (ti_inproc_sock ti)) (\<lambda>s. Inr (s, ti\<lparr>ti_inproc_pollitem := Some s\<rparr>))) (\<lambda>(p, ti).
     rbind (or_fatal (zo_poll z [p] timeout w)) (\<lambda>(revents, w).
     if revents p then rbind (recv_from z p w) (\<lambda>(x, w). Inr (Some x, Some ti, w)) else Inr (None, Some ti, w))))"

definition RecvInterProc ::
  "'w zmq_ops \<Rightarrow> thread_comm_info option \<Rightarrow> 'w \<Rightarrow> ((int \<times> bytes) \<times> 'w) result" where
  "RecvInterProc z thr_info w =
     rbind (the_info thr_info) (\<lambda>ti. rbind (the_sock (ti_interproc_sock ti)) (\<lambda>s. recv_from z s w))"

definition RecvInterProcAsync ::
  "'w zmq_ops \<Rightarrow> thread_comm_info option \<Rightarrow> 'w \<Rightarrow> ((int \<times> bytes) option \<times> 'w) result" where
  "RecvInterProcAsync z thr_info w =
     rbind (the_info thr_info) (\<lambda>ti. rbind (the_sock (ti_interproc_sock ti)) (\<lambda>s. recv_async_from z s w))"

definition RecvInterProcTimeOut ::
  "'w zmq_ops \<Rightarrow> int \<Rightarrow> thread_comm_info option \<Rightarrow> 'w \<Rightarrow> ((int \<times> bytes) option \<times> thread_comm_info option \<times> 'w) result" where
  "RecvInterProcTimeOut z timeout thr_info w =
     rbind (the_info thr_info) (\<lambda>ti.
     rbind (case ti_interproc_pollitem ti of Some p \<Rightarrow> Inr (p, ti)
            | None \<Rightarrow> rbind (the_sock (ti_interproc_sock ti)) (\<lambda>s. Inr (s, ti\<lparr>ti_interproc_pollitem := Some s\<rparr>))) (\<lambda>(p, ti).
     rbind (or_fatal (zo_poll z [p] timeout w)) (\<lambda>(revents, w).
     if revents p then rbind (recv_from z p w) (\<lambda>(x, w). Inr (Some x, Some ti, w)) else Inr (None, Some ti, w))))"

end
