(* ===== verification/Comm_Bus_Proofs.thy ===== *)
theory Comm_Bus_Proofs
imports Comm_Bus
begin

text \<open>
  What the bus adds to ZeroMQ: entity ids as socket identities, one address per entity, connections that wait for their
  route.  The locale \<open>zmq_router\<close> states what ZeroMQ documents of router sockets with \<open>ZMQ_ROUTER_MANDATORY\<close>; inside it
  two threads that register, connect and send find each other's messages.
\<close>

section \<open>Identities\<close>

lemma EntityID2ZmqID_eq: "- (2 ^ 27) \<le> i \<Longrightarrow> i < 2 ^ 27 \<Longrightarrow> EntityID2ZmqID i = 16 * i + 1"
proof -
  assume i: "- (2 ^ 27) \<le> i" "i < 2 ^ 27"
  have "push_bit 4 (word_of_int i) OR 1 = push_bit 4 (word_of_int i) + (1 :: 32 word)"
    by (rule disjunctive_add_eq_or [symmetric]) (simp add: and_one_eq mod_2_eq_odd)
  also have "\<dots> = word_of_int (16 * i + 1)" by (simp add: push_bit_eq_mult)
  finally have "EntityID2ZmqID i = signed_take_bit 31 (16 * i + 1)" unfolding EntityID2ZmqID_def by (simp only: sint_sbintrunc') simp
  then show ?thesis using i by (simp add: signed_take_bit_int_eq_self)
qed

lemma ZmqID2EntityID_eq: "is_i32 z \<Longrightarrow> ZmqID2EntityID z = z div 16"
  by (simp add: ZmqID2EntityID_def sint_signed_drop_bit_eq sint_sbintrunc' signed_take_bit_int_eq_self is_i32_def drop_bit_eq_div)

lemma zmq_id_roundtrip:
  assumes "- (2 ^ 27) \<le> i" "i < 2 ^ 27"
  shows "ZmqID2EntityID (EntityID2ZmqID i) = i" "is_i32 (EntityID2ZmqID i)"
proof -
  show r: "is_i32 (EntityID2ZmqID i)" using assms by (simp add: EntityID2ZmqID_eq is_i32_def)
  show "ZmqID2EntityID (EntityID2ZmqID i) = i" using assms r by (simp add: EntityID2ZmqID_eq ZmqID2EntityID_eq)
qed

section \<open>Addresses\<close>

lemma digits_val_append: "\<forall>c \<in> set xs. is_digit c \<Longrightarrow> digits_val a (xs @ ys) = digits_val (digits_val a xs) ys"
  by (induction xs arbitrary: a) simp_all

lemma digit_char:
  assumes "n < 10"
  shows "is_digit (char_of (48 + n :: nat))" "of_char (char_of (48 + n :: nat)) = (48 + int n)"
proof -
  have c: "of_char (char_of (48 + n :: nat)) = 48 + n" using assms by (simp add: of_char_of)
  show "is_digit (char_of (48 + n :: nat))" unfolding is_digit_def c using assms by simp
  have "of_char (char_of (48 + n :: nat)) = int (of_char (char_of (48 + n :: nat)))" by (simp only: of_nat_of_char)
  then show "of_char (char_of (48 + n :: nat)) = (48 + int n)" unfolding c by simp
qed

lemma nat_digits_val: "(\<forall>c \<in> set (nat_digits n). is_digit c) \<and> digits_val 0 (nat_digits n) = int n"
proof (induction n rule: nat_digits.induct)
  case (1 n)
  show ?case
  proof (cases "n < 10")
    case True
    then show ?thesis using digit_char [OF True] by (simp add: nat_digits.simps [of n])
  next
    case False
    then show ?thesis using 1 digit_char [of "n mod 10"] by (simp add: nat_digits.simps [of n] digits_val_append) presburger
  qed
qed

lemma show_int_inj: "show_int i = show_int j \<Longrightarrow> i = j"
proof -
  have "\<not> is_digit CHR ''-''" by (simp add: is_digit_def)
  then have sign: "nat_digits n \<noteq> CHR ''-'' # xs" for n xs using nat_digits_val [of n] by (metis list.set_intros(1))
  have inj: "nat_digits m = nat_digits n \<longleftrightarrow> m = n" for m n by (metis nat_digits_val of_nat_eq_iff)
  assume "show_int i = show_int j"
  then show "i = j"
    by (cases "i < 0"; cases "j < 0") (simp_all add: show_int_def inj sign sign [symmetric])
qed

lemma MakeInProcAddr_inj: "MakeInProcAddr i = MakeInProcAddr j \<longleftrightarrow> i = j"
  using show_int_inj by (auto simp: MakeInProcAddr_def)

section \<open>Router sockets\<close>

text \<open>
  The state of the sockets as far as their documentation speaks of it: identities, bound addresses, connections that are being
  set up and those that exist, the receiver of a message of which the first frame has been sent, the received messages with
  their sender's identity, and the second frame of a message of which the first has been read.
\<close>

record router_net =
  rn_socks :: "sock set"
  rn_ident :: "sock \<Rightarrow> bytes"
  rn_bound :: "string \<Rightarrow> sock option"
  rn_wait :: "(sock \<times> sock) set"
  rn_link :: "(sock \<times> sock) set"
  rn_dest :: "sock \<Rightarrow> sock option"
  rn_inbox :: "sock \<Rightarrow> (bytes \<times> bytes) list"
  rn_rest :: "sock \<Rightarrow> bytes option"

definition net_new :: "sock \<Rightarrow> router_net \<Rightarrow> router_net" where
  "net_new s n = n\<lparr>rn_socks := insert s (rn_socks n), rn_ident := (rn_ident n)(s := []), rn_dest := (rn_dest n)(s := None),
     rn_inbox := (rn_inbox n)(s := []), rn_rest := (rn_rest n)(s := None)\<rparr>"

text \<open>Connections have two ends, and all ends are sockets.\<close>

definition net_ok :: "router_net \<Rightarrow> bool" where
  "net_ok n \<longleftrightarrow> sym (rn_link n) \<and> rn_link n \<subseteq> rn_socks n \<times> rn_socks n \<and> rn_wait n \<subseteq> rn_socks n \<times> rn_socks n \<and>
     (\<forall>a s. rn_bound n a = Some s \<longrightarrow> s \<in> rn_socks n)"

text \<open>The peer a frame with identity \<open>i\<close> goes to.\<close>

definition routes :: "router_net \<Rightarrow> sock \<Rightarrow> bytes \<Rightarrow> sock \<Rightarrow> bool" where
  "routes n s i r \<longleftrightarrow> (s, r) \<in> rn_link n \<and> rn_ident n r = i \<and> (\<forall>r'. (s, r') \<in> rn_link n \<and> rn_ident n r' = i \<longrightarrow> r' = r)"

definition settle :: "(sock \<times> sock) set \<Rightarrow> router_net \<Rightarrow> router_net" where
  "settle c n = n\<lparr>rn_wait := rn_wait n - c, rn_link := rn_link n \<union> c \<union> c\<inverse>\<rparr>"

text \<open>Several messages to one entity, each checked to be sent whole as the callers do, and several received.\<close>

definition send_all :: "'w zmq_ops \<Rightarrow> comm_bus \<Rightarrow> int \<Rightarrow> thread_comm_info option \<Rightarrow> bytes list \<Rightarrow> 'w \<Rightarrow> 'w result" where
  "send_all z bus i ti ds w =
     foldM (\<lambda>w d. rbind (Bus_Send z bus i d ti w) (\<lambda>(n, w). rbind (check (n = length d) ''sent_size == size'') (\<lambda>_. Inr w))) w ds"

fun recv_all :: "nat \<Rightarrow> 'w zmq_ops \<Rightarrow> thread_comm_info option \<Rightarrow> 'w \<Rightarrow> ((int \<times> bytes) list \<times> 'w) result" where
  "recv_all 0 z ti w = Inr ([], w)"
| "recv_all (Suc n) z ti w = rbind (RecvInProc z ti w) (\<lambda>(x, w). rbind (recv_all n z ti w) (\<lambda>(xs, w). Inr (x # xs, w)))"

text \<open>
  A conversation in rounds: in each, \<open>b\<close> sends messages to \<open>a\<close> and \<open>a\<close> to \<open>b\<close>, and each receives what the other has sent. The result
  lists what \<open>a\<close> and \<open>b\<close> receive in each round.
\<close>

fun converse_rounds :: "'w zmq_ops \<Rightarrow> comm_bus \<Rightarrow> int \<Rightarrow> thread_comm_info \<Rightarrow> int \<Rightarrow> thread_comm_info \<Rightarrow> (bytes list \<times> bytes list) list \<Rightarrow> 'w \<Rightarrow>
    (((int \<times> bytes) list \<times> (int \<times> bytes) list) list \<times> 'w) result" where
  "converse_rounds z bus a ta b tb [] w = Inr ([], w)"
| "converse_rounds z bus a ta b tb ((ds, es) # rs) w =
     rbind (send_all z bus a (Some tb) ds w) (\<lambda>w. rbind (send_all z bus b (Some ta) es w) (\<lambda>w.
     rbind (recv_all (length ds) z (Some ta) w) (\<lambda>(xs, w). rbind (recv_all (length es) z (Some tb) w) (\<lambda>(ys, w).
     rbind (converse_rounds z bus a ta b tb rs w) (\<lambda>(zs, w). Inr ((xs, ys) # zs, w))))))"

text \<open>
  Whatever the entities \<open>b\<close> and \<open>a\<close> now send each other, never more than \<open>hwm\<close> messages ahead of the receiver, each receives the
  other's messages, complete and in order.
\<close>

definition exchanges :: "nat \<Rightarrow> 'w zmq_ops \<Rightarrow> comm_bus \<Rightarrow> int \<Rightarrow> thread_comm_info \<Rightarrow> int \<Rightarrow> thread_comm_info \<Rightarrow> 'w \<Rightarrow> bool" where
  "exchanges hwm z bus a ta b tb w \<longleftrightarrow>
     (\<forall>rs. list_all (\<lambda>(ds, es). length ds \<le> hwm \<and> length es \<le> hwm) rs \<longrightarrow>
        (\<exists>w'. converse_rounds z bus a ta b tb rs w = Inr (map (\<lambda>(ds, es). (map (Pair b) ds, map (Pair a) es)) rs, w')))"

text \<open>The identity of an entity, and two sockets that carry the identities of the entities \<open>a\<close> and \<open>b\<close> and are connected.\<close>

abbreviation ident_of :: "int \<Rightarrow> bytes" where
  "ident_of i \<equiv> i32_enc (EntityID2ZmqID i)"

definition sock_for :: "int \<Rightarrow> sock \<Rightarrow> router_net \<Rightarrow> bool" where
  "sock_for i s n \<longleftrightarrow> s \<in> rn_socks n \<and> rn_ident n s = ident_of i \<and> (\<forall>r \<in> rn_socks n. rn_ident n r = ident_of i \<longrightarrow> r = s) \<and>
     rn_dest n s = None \<and> rn_rest n s = None"

definition linked :: "int \<Rightarrow> sock \<Rightarrow> int \<Rightarrow> sock \<Rightarrow> router_net \<Rightarrow> bool" where
  "linked a sa b sb n \<longleftrightarrow> net_ok n \<and> sock_for a sa n \<and> sock_for b sb n \<and> (sa, sb) \<in> rn_link n"

definition put_inbox :: "sock \<Rightarrow> (bytes \<times> bytes) list \<Rightarrow> router_net \<Rightarrow> router_net" where
  "put_inbox s q n = n\<lparr>rn_inbox := (rn_inbox n)(s := q)\<rparr>"

lemma put_inbox_simps [simp]: "linked a sa b sb (put_inbox s q n) = linked a sa b sb n" "rn_inbox (put_inbox s q n) r = (if r = s then q else rn_inbox n r)"
  "put_inbox s q (put_inbox s q' n) = put_inbox s q n" "rn_ident (put_inbox s q n) = rn_ident n"
  by (simp_all add: put_inbox_def linked_def net_ok_def sock_for_def)

lemma linked_sym:
  assumes "linked a sa b sb n"
  shows "linked b sb a sa n"
proof -
  have "sym (rn_link n)" "(sa, sb) \<in> rn_link n" using assms by (simp_all add: linked_def net_ok_def)
  then have "(sb, sa) \<in> rn_link n" by (rule symD)
  with assms show ?thesis by (simp add: linked_def)
qed

lemma linked_routes: "linked a sa b sb n \<Longrightarrow> routes n sa (ident_of b) sb"
proof -
  assume "linked a sa b sb n"
  then have "(sa, sb) \<in> rn_link n" "rn_ident n sb = ident_of b" "\<forall>r \<in> rn_socks n. rn_ident n r = ident_of b \<longrightarrow> r = sb" "rn_link n \<subseteq> rn_socks n \<times> rn_socks n"
    by (simp_all add: linked_def net_ok_def sock_for_def)
  then show ?thesis unfolding routes_def by blast
qed

text \<open>A socket that is new, bound and known by the identity of an entity.\<close>

definition net_registered :: "int \<Rightarrow> sock \<Rightarrow> router_net \<Rightarrow> router_net" where
  "net_registered i s n = (net_new s n)\<lparr>rn_ident := (rn_ident n)(s := ident_of i), rn_bound := (rn_bound n)(MakeInProcAddr i \<mapsto> s)\<rparr>"

lemma net_registered_ok:
  assumes "net_ok n" "s \<notin> rn_socks n" "\<forall>r \<in> rn_socks n. rn_ident n r \<noteq> ident_of i"
  shows "net_ok (net_registered i s n)" "sock_for i s (net_registered i s n)" "rn_inbox (net_registered i s n) s = []"
  using assms by (auto simp: net_registered_def net_new_def net_ok_def sock_for_def)

lemma net_registered_other:
  assumes "s \<notin> rn_socks n" "sock_for j r n" "ident_of j \<noteq> ident_of i"
  shows "sock_for j r (net_registered i s n)" "rn_inbox (net_registered i s n) r = rn_inbox n r"
proof -
  have r: "r \<noteq> s" using assms(1,2) by (auto simp: sock_for_def)
  then show "rn_inbox (net_registered i s n) r = rn_inbox n r" by (simp add: net_registered_def net_new_def)
  show "sock_for j r (net_registered i s n)" using r assms(2,3) by (simp add: net_registered_def net_new_def sock_for_def)
qed

lemma net_ok_settle: "net_ok n \<Longrightarrow> c \<subseteq> rn_wait n \<Longrightarrow> net_ok (settle c n)"
  by (auto simp: net_ok_def settle_def sym_Un sym_def)

lemma sock_for_settle [simp]: "sock_for i s (settle c n) = sock_for i s n" "rn_inbox (settle c n) = rn_inbox n" "rn_ident (settle c n) = rn_ident n"
  by (simp_all add: sock_for_def settle_def)

definition delivered :: "sock \<Rightarrow> sock \<Rightarrow> bytes \<Rightarrow> router_net \<Rightarrow> router_net" where
  "delivered s r d n = put_inbox r (rn_inbox n r @ [(rn_ident n s, d)]) n"

abbreviation entity :: "int \<Rightarrow> bool" where
  "entity i \<equiv> - (2 ^ 27) \<le> i \<and> i < 2 ^ 27"

text \<open>
  \<open>hwm\<close> is the high-water mark of a connection: ZeroMQ accepts a message at once as long as fewer than \<open>hwm\<close> of those sent to the receiver wait to be
  received, and promises nothing of this kind beyond (the sender blocks).
\<close>

locale zmq_router =
  fixes z :: "'w zmq_ops" and net :: "'w \<Rightarrow> router_net" and eta :: "'w \<Rightarrow> sock \<times> sock \<Rightarrow> nat" and hwm :: nat
  assumes hwm: "0 < hwm"
    and socket: "\<exists>s w'. zo_socket z w = (Returned s, w') \<and> s \<notin> rn_socks (net w) \<and> net w' = net_new s (net w)"
    and identity: "s \<in> rn_socks (net w) \<Longrightarrow>
      \<exists>w'. zo_setsockopt z s ZMQ_IDENTITY v w = (Returned (), w') \<and> net w' = (net w)\<lparr>rn_ident := (rn_ident (net w))(s := v)\<rparr>"
    and options: "s \<in> rn_socks (net w) \<Longrightarrow> opt \<noteq> ZMQ_IDENTITY \<Longrightarrow> \<exists>w'. zo_setsockopt z s opt v w = (Returned (), w') \<and> net w' = net w"
    and bind: "s \<in> rn_socks (net w) \<Longrightarrow> rn_bound (net w) a = None \<Longrightarrow>
      \<exists>w'. zo_bind z s a w = (Returned (), w') \<and> net w' = (net w)\<lparr>rn_bound := (rn_bound (net w))(a \<mapsto> s)\<rparr>"
    and connect: "s \<in> rn_socks (net w) \<Longrightarrow> rn_bound (net w) a = Some r \<Longrightarrow>
      \<exists>w'. zo_connect z s a w = (Returned (), w') \<and> net w' = (net w)\<lparr>rn_wait := insert (s, r) (rn_wait (net w))\<rparr>"
    and no_route: "rn_dest (net w) s = None \<Longrightarrow> \<nexists>r. (s, r) \<in> rn_link (net w) \<and> rn_ident (net w) r = i \<Longrightarrow>
      \<exists>w'. zo_send z s i True w = (Threw EHOSTUNREACH, w') \<and> net w' = net w \<and> (\<forall>x. eta w' x \<le> eta w x)"
    and send_identity: "rn_dest (net w) s = None \<Longrightarrow> routes (net w) s i r \<Longrightarrow> length (rn_inbox (net w) r) < hwm \<Longrightarrow>
      \<exists>w'. zo_send z s i True w = (Returned (length i), w') \<and> net w' = (net w)\<lparr>rn_dest := (rn_dest (net w))(s \<mapsto> r)\<rparr>"
    and send_data: "rn_dest (net w) s = Some r \<Longrightarrow>
      \<exists>w'. zo_send z s d False w = (Returned (length d), w') \<and> net w' = (net w)\<lparr>rn_dest := (rn_dest (net w))(s := None),
        rn_inbox := (rn_inbox (net w))(r := rn_inbox (net w) r @ [(rn_ident (net w) s, d)])\<rparr>"
    and recv_identity: "rn_rest (net w) s = None \<Longrightarrow> rn_inbox (net w) s = (i, d) # q \<Longrightarrow>
      \<exists>w'. zo_recv z s nowait w = (Returned (Some i), w') \<and>
        net w' = (net w)\<lparr>rn_inbox := (rn_inbox (net w))(s := q), rn_rest := (rn_rest (net w))(s \<mapsto> d)\<rparr>"
    and recv_data: "rn_rest (net w) s = Some d \<Longrightarrow>
      \<exists>w'. zo_recv z s nowait w = (Returned (Some d), w') \<and> net w' = (net w)\<lparr>rn_rest := (rn_rest (net w))(s := None)\<rparr>"
    and recv_nothing: "rn_rest (net w) s = None \<Longrightarrow> rn_inbox (net w) s = [] \<Longrightarrow>
      \<exists>w'. zo_recv z s True w = (Returned None, w') \<and> net w' = net w"
    and poll: "0 \<le> t \<or> (\<exists>s \<in> set ss. rn_inbox (net w) s \<noteq> []) \<Longrightarrow>
      \<exists>w' ev. zo_poll z ss t w = (Returned ev, w') \<and> net w' = net w \<and> (\<forall>s \<in> set ss. ev s \<longleftrightarrow> rn_inbox (net w) s \<noteq> [])"
    and sleep: "\<exists>w' c. zo_nanosleep z w = (0, w') \<and> c \<subseteq> rn_wait (net w) \<and> net w' = settle c (net w) \<and> (\<forall>x \<in> rn_wait (net w) - c. eta w' x < eta w x)"
begin

lemma router_up:
  "\<exists>s w'. new_router z i b1 b2 w = Inr (s, w') \<and> s \<notin> rn_socks (net w) \<and>
    net w' = (net_new s (net w))\<lparr>rn_ident := (rn_ident (net w))(s := i32_enc (EntityID2ZmqID i))\<rparr>"
proof -
  obtain s w1 where s: "zo_socket z w = (Returned s, w1)" "s \<notin> rn_socks (net w)" "net w1 = net_new s (net w)" using socket [of w] by auto
  have m: "s \<in> rn_socks (net w1)" using s(3) by (simp add: net_new_def)
  obtain w2 where w2: "zo_setsockopt z s ZMQ_IDENTITY (i32_enc (EntityID2ZmqID i)) w1 = (Returned (), w2)"
    "net w2 = (net_new s (net w))\<lparr>rn_ident := (rn_ident (net w))(s := i32_enc (EntityID2ZmqID i))\<rparr>"
    using identity [OF m] s(3) by (auto simp: net_new_def)
  have o: "\<exists>w'. zo_setsockopt z s opt v w0 = (Returned (), w') \<and> net w' = net w2" if "net w0 = net w2" "opt \<noteq> ZMQ_IDENTITY" for w0 opt v
    using options [of s w0 opt v] that w2(2) by (simp add: net_new_def)
  obtain w3 where w3: "zo_setsockopt z s ZMQ_ROUTER_MANDATORY (i32_enc 1) w2 = (Returned (), w3)" "net w3 = net w2" using o by blast
  obtain w4 where w4: "zo_setsockopt z s ZMQ_SNDBUF (i32_enc b1) w3 = (Returned (), w4)" "net w4 = net w2" using o [OF w3(2)] by blast
  obtain w5 where w5: "zo_setsockopt z s ZMQ_RCVBUF (i32_enc b2) w3 = (Returned (), w5)" "net w5 = net w2" using o [OF w3(2)] by blast
  obtain w6 where w6: "zo_setsockopt z s ZMQ_RCVBUF (i32_enc b2) w4 = (Returned (), w6)" "net w6 = net w2" using o [OF w4(2)] by blast
  show ?thesis using s w2 w3 w4 w5 w6
    by (cases "b1 = 0"; cases "b2 = 0") (auto simp: new_router_def or_fatal_def SetUpRouterSocket_def ZMQSetSockOpt_def)
qed

text \<open>A message over an existing route.\<close>

lemma two_frames:
  assumes "rn_dest (net w) s = None" "routes (net w) s (i32_enc zid) r" "length (rn_inbox (net w) r) < hwm"
  shows "\<exists>w1 w2. zo_send z s (i32_enc zid) True w = (Returned 4, w1) \<and> zo_send z s d False w1 = (Returned (length d), w2) \<and> net w2 = delivered s r d (net w)"
proof -
  obtain w1 where w1: "zo_send z s (i32_enc zid) True w = (Returned 4, w1)" "net w1 = (net w)\<lparr>rn_dest := (rn_dest (net w))(s \<mapsto> r)\<rparr>"
    using send_identity [OF assms] by auto
  have "(rn_dest (net w))(s := None) = rn_dest (net w)" using assms(1) by auto
  then obtain w2 where "zo_send z s d False w1 = (Returned (length d), w2)" "net w2 = delivered s r d (net w)"
    using send_data [of w1 s r d] w1(2) by (auto simp: delivered_def put_inbox_def)
  with w1(1) show ?thesis by blast
qed

lemma ZMQSend_ok:
  assumes "rn_dest (net w) s = None" "routes (net w) s (i32_enc zid) r" "length (rn_inbox (net w) r) < hwm"
  shows "\<exists>w'. ZMQSend z s zid d w = Inr (length d, w') \<and> net w' = delivered s r d (net w)"
  using two_frames [OF assms, of d] by (auto simp: ZMQSend_def ZMQSend_frame_def or_fatal_def)

lemma recv_ok:
  assumes "rn_rest (net w) s = None" "rn_inbox (net w) s = (i32_enc (EntityID2ZmqID a), d) # q" "- (2 ^ 27) \<le> a" "a < 2 ^ 27"
  shows "\<exists>w'. recv_from z s w = Inr ((a, d), w') \<and> net w' = (net w)\<lparr>rn_inbox := (rn_inbox (net w))(s := q)\<rparr>"
    and "\<exists>w'. recv_async_from z s w = Inr (Some (a, d), w') \<and> net w' = (net w)\<lparr>rn_inbox := (rn_inbox (net w))(s := q)\<rparr>"
proof -
  let ?n = "(net w)\<lparr>rn_inbox := (rn_inbox (net w))(s := q), rn_rest := (rn_rest (net w))(s \<mapsto> d)\<rparr>"
  have r: "(rn_rest (net w))(s := None) = rn_rest (net w)" using assms(1) by auto
  have id: "rd_i32 (i32_enc (EntityID2ZmqID a)) 0 = Inr (EntityID2ZmqID a)"
    using zmq_id_roundtrip(2) [OF assms(3,4)] at_mem_whole by (intro rd_i32_at) auto
  have f: "\<exists>w1 w2. zo_recv z s nowait w = (Returned (Some (i32_enc (EntityID2ZmqID a))), w1) \<and> zo_recv z s False w1 = (Returned (Some d), w2) \<and>
      net w2 = (net w)\<lparr>rn_inbox := (rn_inbox (net w))(s := q)\<rparr>" for nowait
  proof -
    obtain w1 where w1: "zo_recv z s nowait w = (Returned (Some (i32_enc (EntityID2ZmqID a))), w1)" "net w1 = ?n" using recv_identity [OF assms(1,2)] by blast
    obtain w2 where "zo_recv z s False w1 = (Returned (Some d), w2)" "net w2 = (net w)\<lparr>rn_inbox := (rn_inbox (net w))(s := q)\<rparr>"
      using recv_data [of w1 s d False] w1(2) r by auto
    with w1 show ?thesis by blast
  qed
  show "\<exists>w'. recv_from z s w = Inr ((a, d), w') \<and> net w' = (net w)\<lparr>rn_inbox := (rn_inbox (net w))(s := q)\<rparr>"
    using f [of False] id zmq_id_roundtrip(1) [OF assms(3,4)] by (auto simp: recv_from_def ZMQRecv_def ZMQRecv_frame_def or_fatal_def)
  show "\<exists>w'. recv_async_from z s w = Inr (Some (a, d), w') \<and> net w' = (net w)\<lparr>rn_inbox := (rn_inbox (net w))(s := q)\<rparr>"
    using f [of True] id zmq_id_roundtrip(1) [OF assms(3,4)]
    by (auto simp: recv_async_from_def ZMQRecvAsync_def ZMQRecvAsync_frame_def ZMQRecv_frame_def or_fatal_def)
qed

text \<open>The loop of \<open>ZMQConnectSend\<close> ends once the connection is there, and sends its message exactly once.\<close>

lemma connect_loop_ok:
  assumes "net_ok (net w)" "rn_dest (net w) s = None" "rn_ident (net w) r = i32_enc zid" "(s, r) \<in> rn_wait (net w) \<union> rn_link (net w)"
    "\<forall>r' \<in> rn_socks (net w). rn_ident (net w) r' = i32_enc zid \<longrightarrow> r' = r" "(if (s, r) \<in> rn_link (net w) then 0 else Suc (eta w (s, r))) < fuel"
    "length (rn_inbox (net w) r) < hwm"
  shows "\<exists>w' c. connect_loop fuel z s zid msg w = Inr (length msg, w') \<and> c \<subseteq> rn_wait (net w) \<and> net w' = delivered s r msg (settle c (net w)) \<and>
    (s, r) \<in> rn_link (net w')"
  using assms
proof (induction fuel arbitrary: w)
  case (Suc fuel)
  show ?case
  proof (cases "(s, r) \<in> rn_link (net w)")
    case True
    then have "routes (net w) s (i32_enc zid) r" using Suc.prems(1,3,5) by (auto simp: routes_def net_ok_def)
    with True two_frames [OF Suc.prems(2) this Suc.prems(7), of msg] have
      "\<exists>w'. connect_loop (Suc fuel) z s zid msg w = Inr (length msg, w') \<and> net w' = delivered s r msg (settle {} (net w)) \<and> (s, r) \<in> rn_link (net w')"
      by (auto simp: connect_attempt_def settle_def delivered_def put_inbox_def)
    then show ?thesis by blast
  next
    case False
    then have "\<nexists>r'. (s, r') \<in> rn_link (net w) \<and> rn_ident (net w) r' = i32_enc zid" using Suc.prems(1,5) by (auto simp: net_ok_def)
    from no_route [OF Suc.prems(2) this] obtain w1 where
      w1: "zo_send z s (i32_enc zid) True w = (Threw EHOSTUNREACH, w1)" "net w1 = net w" "\<forall>x. eta w1 x \<le> eta w x" by blast
    obtain w2 c where w2: "zo_nanosleep z w1 = (0, w2)" "c \<subseteq> rn_wait (net w)" "net w2 = settle c (net w)"
      "\<forall>x \<in> rn_wait (net w) - c. eta w2 x < eta w1 x" using sleep [of w1] w1(2) by auto
    have step: "connect_loop (Suc fuel) z s zid msg w = connect_loop fuel z s zid msg w2"
      using w1(1) w2(1) by (simp add: connect_attempt_def fails_fast_def)
    have ok: "net_ok (net w2)" using net_ok_settle [OF Suc.prems(1) w2(2)] w2(3) by simp
    have n2: "rn_wait (net w2) = rn_wait (net w) - c" "rn_link (net w2) = rn_link (net w) \<union> c \<union> c\<inverse>" "rn_dest (net w2) = rn_dest (net w)"
      "rn_ident (net w2) = rn_ident (net w)" "rn_socks (net w2) = rn_socks (net w)" "rn_inbox (net w2) = rn_inbox (net w)" using w2(3) by (simp_all add: settle_def)
    have "(if (s, r) \<in> rn_link (net w2) then 0 else Suc (eta w2 (s, r))) < fuel"
    proof (cases "(s, r) \<in> c")
      case c: False
      then have "eta w2 (s, r) < eta w1 (s, r)" using w2(4) Suc.prems(4) False by auto
      then show ?thesis using Suc.prems(6) False w1(3) [rule_format, of "(s, r)"] by auto
    qed (use Suc.prems(6) False n2(2) in simp)
    moreover have "(s, r) \<in> rn_wait (net w2) \<union> rn_link (net w2)" using Suc.prems(4) n2(1,2) by auto
    ultimately obtain w' c' where "connect_loop fuel z s zid msg w2 = Inr (length msg, w')" "c' \<subseteq> rn_wait (net w2)"
      "net w' = delivered s r msg (settle c' (net w2))" "(s, r) \<in> rn_link (net w')"
      using Suc.IH [OF ok] Suc.prems(2,3,5,7) n2 by auto
    moreover have "settle c' (net w2) = settle (c \<union> c') (net w)" using w2(3) by (simp add: settle_def Un_ac converse_Un Diff_eq Int_ac)
    ultimately show ?thesis using step w2(2) n2(1) by (intro exI [of _ w'] exI [of _ "c \<union> c'"]) auto
  qed
qed simp

lemma send_all_ok:
  assumes "linked a sa b sb (net w)" "IsLocalEntity bus b" "ti_inproc_sock ti = Some sa" "length (rn_inbox (net w) sb) + length ds \<le> hwm"
  shows "\<exists>w'. send_all z bus b (Some ti) ds w = Inr w' \<and> net w' = put_inbox sb (rn_inbox (net w) sb @ map (Pair (ident_of a)) ds) (net w)"
  using assms(1,4)
proof (induction ds arbitrary: w)
  case Nil
  then show ?case by (simp add: send_all_def put_inbox_def)
next
  case (Cons d ds)
  have "rn_dest (net w) sa = None" "rn_ident (net w) sa = ident_of a" "length (rn_inbox (net w) sb) < hwm"
    using Cons.prems by (simp_all add: linked_def sock_for_def)
  with ZMQSend_ok [OF _ linked_routes [OF Cons.prems(1)], of d] obtain w1 where
    w1: "ZMQSend z sa (EntityID2ZmqID b) d w = Inr (length d, w1)" "net w1 = put_inbox sb (rn_inbox (net w) sb @ [(ident_of a, d)]) (net w)"
    by (auto simp: delivered_def put_inbox_def)
  have "linked a sa b sb (net w1)" "length (rn_inbox (net w1) sb) + length ds \<le> hwm" using Cons.prems w1(2) by simp_all
  from Cons.IH [OF this] obtain w' where "send_all z bus b (Some ti) ds w1 = Inr w'"
    "net w' = put_inbox sb (rn_inbox (net w) sb @ map (Pair (ident_of a)) (d # ds)) (net w)" using w1(2) by auto
  moreover have "send_all z bus b (Some ti) (d # ds) w = send_all z bus b (Some ti) ds w1"
    using w1(1) assms(2,3) by (simp add: send_all_def Bus_Send_def the_info_def the_sock_def)
  ultimately show ?case by auto
qed

lemma recv_all_ok:
  assumes "rn_rest (net w) s = None" "rn_inbox (net w) s = map (Pair (ident_of a)) ds @ q" "entity a" "ti_inproc_sock ti = Some s"
  shows "\<exists>w'. recv_all (length ds) z (Some ti) w = Inr (map (Pair a) ds, w') \<and> net w' = put_inbox s q (net w)"
  using assms(1,2)
proof (induction ds arbitrary: w)
  case Nil
  then have "put_inbox s q (net w) = net w" by (auto simp: put_inbox_def)
  then show ?case by simp
next
  case (Cons d ds)
  from recv_ok(1) [OF Cons.prems(1), of a d "map (Pair (ident_of a)) ds @ q"] Cons.prems(2) assms(3) obtain w1 where
    w1: "recv_from z s w = Inr ((a, d), w1)" "net w1 = put_inbox s (map (Pair (ident_of a)) ds @ q) (net w)" by (auto simp: put_inbox_def)
  then have "rn_rest (net w1) s = None" "rn_inbox (net w1) s = map (Pair (ident_of a)) ds @ q" using Cons.prems(1) by (simp_all add: put_inbox_def)
  from Cons.IH [OF this] obtain w' where "recv_all (length ds) z (Some ti) w1 = Inr (map (Pair a) ds, w')" "net w' = put_inbox s q (net w)" using w1(2) by auto
  with w1(1) assms(4) show ?case by (simp add: RecvInProc_def the_info_def the_sock_def)
qed

lemma register_ok:
  assumes "cc_ltype c = kInProc" "rn_bound (net w) (MakeInProcAddr (cc_entity_id c)) = None"
  shows "\<exists>s w'. ThreadRegister z c None w = Inr (Some ((ThreadCommInfo c)\<lparr>ti_inproc_sock := Some s\<rparr>), w') \<and> s \<notin> rn_socks (net w) \<and>
    net w' = net_registered (cc_entity_id c) s (net w)"
proof -
  obtain s w1 where w1: "new_router z (cc_entity_id c) (cc_inproc_send_buff c) (cc_inproc_recv_buff c) w = Inr (s, w1)" "s \<notin> rn_socks (net w)"
    "net w1 = (net_new s (net w))\<lparr>rn_ident := (rn_ident (net w))(s := ident_of (cc_entity_id c))\<rparr>" using router_up by blast
  have "s \<in> rn_socks (net w1)" "rn_bound (net w1) (MakeInProcAddr (cc_entity_id c)) = None" using w1(3) assms(2) by (simp_all add: net_new_def)
  from bind [OF this] w1(3) obtain w2 where "zo_bind z s (MakeInProcAddr (cc_entity_id c)) w1 = (Returned (), w2)"
    "net w2 = net_registered (cc_entity_id c) s (net w)" by (auto simp: net_new_def net_registered_def)
  moreover have "kInProc AND kInProc \<noteq> 0" "kInProc AND kInterProc = 0" by (simp_all add: kInProc_def kInterProc_def)
  ultimately show ?thesis using w1(1,2) assms(1) by (intro exI [of _ s] exI [of _ w2]) (simp add: ThreadRegister_def Let_def ZMQBind_def or_fatal_def)
qed

lemma connect_ok:
  assumes "net_ok (net w)" "sock_for a sa (net w)" "sock_for b sb (net w)" "rn_bound (net w) (MakeInProcAddr b) = Some sb" "IsLocalEntity bus b"
    "ti_inproc_sock ti = Some sa" "length (rn_inbox (net w) sb) < hwm"
  shows "\<exists>K. \<forall>fuel > K. \<exists>w'. ConnectTo_local fuel z bus b msg (Some ti) w = Inr (Some ti, w') \<and> linked a sa b sb (net w') \<and>
    rn_inbox (net w') = (rn_inbox (net w))(sb := rn_inbox (net w) sb @ [(ident_of a, msg)])"
proof -
  have sa: "sa \<in> rn_socks (net w)" using assms(2) by (simp add: sock_for_def)
  from connect [OF sa assms(4)] obtain w1 where w1: "zo_connect z sa (MakeInProcAddr b) w = (Returned (), w1)"
    "net w1 = (net w)\<lparr>rn_wait := insert (sa, sb) (rn_wait (net w))\<rparr>" by blast
  have p: "net_ok (net w1)" "sock_for a sa (net w1)" "sock_for b sb (net w1)" "(sa, sb) \<in> rn_wait (net w1) \<union> rn_link (net w1)"
    using assms(1-3) w1(2) by (simp_all add: net_ok_def sock_for_def)
  show ?thesis
  proof (intro exI [of _ "Suc (eta w1 (sa, sb))"] allI impI)
    fix fuel assume "Suc (eta w1 (sa, sb)) < fuel"
    then have f: "(if (sa, sb) \<in> rn_link (net w1) then 0 else Suc (eta w1 (sa, sb))) < fuel" by simp
    have "rn_dest (net w1) sa = None" "rn_ident (net w1) sb = ident_of b" "\<forall>r' \<in> rn_socks (net w1). rn_ident (net w1) r' = ident_of b \<longrightarrow> r' = sb"
      using p(2,3) by (simp_all add: sock_for_def)
    from connect_loop_ok [OF p(1) this(1,2) p(4) this(3) f, of msg] assms(7) w1(2) obtain w' c where
      l: "connect_loop fuel z sa (EntityID2ZmqID b) msg w1 = Inr (length msg, w')" "c \<subseteq> rn_wait (net w1)"
      "net w' = delivered sa sb msg (settle c (net w1))" "(sa, sb) \<in> rn_link (net w')" by auto
    have "ConnectTo_local fuel z bus b msg (Some ti) w = Inr (Some ti, w')"
      using l(1) w1(1) assms(5,6) by (simp add: ConnectTo_local_def the_info_def ZMQConnectSend_def or_fatal_def)
    moreover have "linked a sa b sb (settle c (net w1))"
      using l(3,4) p(2,3) net_ok_settle [OF p(1) l(2)] by (simp add: linked_def delivered_def put_inbox_def)
    then have "linked a sa b sb (net w')" using l(3) by (simp add: delivered_def)
    moreover have "rn_inbox (net w') = (rn_inbox (net w))(sb := rn_inbox (net w) sb @ [(ident_of a, msg)])"
      using l(3) p(2) w1(2) by (simp add: delivered_def put_inbox_def sock_for_def)
    ultimately show "\<exists>w'. ConnectTo_local fuel z bus b msg (Some ti) w = Inr (Some ti, w') \<and> linked a sa b sb (net w') \<and>
      rn_inbox (net w') = (rn_inbox (net w))(sb := rn_inbox (net w) sb @ [(ident_of a, msg)])" by blast
  qed
qed

text \<open>Two connected threads exchange messages.\<close>

lemma one_round:
  assumes l: "linked a sa b sb (net w)" and s: "sa \<noteq> sb" and q: "rn_inbox (net w) sb = []" "rn_inbox (net w) sa = []"
    and ab: "entity a" "entity b" "IsLocalEntity bus a" "IsLocalEntity bus b" and t: "ti_inproc_sock ta = Some sa" "ti_inproc_sock tb = Some sb"
    and n: "length ds \<le> hwm" "length es \<le> hwm"
  shows "\<exists>w5 w6 w7 w8. send_all z bus a (Some tb) ds w = Inr w5 \<and> send_all z bus b (Some ta) es w5 = Inr w6 \<and>
        recv_all (length ds) z (Some ta) w6 = Inr (map (Pair b) ds, w7) \<and> recv_all (length es) z (Some tb) w7 = Inr (map (Pair a) es, w8) \<and>
        linked a sa b sb (net w8) \<and> rn_inbox (net w8) sb = [] \<and> rn_inbox (net w8) sa = []"
proof -
  have rest: "rn_rest n sa = None \<and> rn_rest n sb = None" if "linked a sa b sb n" for n using that by (simp add: linked_def sock_for_def)
  from send_all_ok [OF linked_sym [OF l] ab(3) t(2), of ds] q(2) s n(1) obtain w5 where
    w5: "send_all z bus a (Some tb) ds w = Inr w5" "net w5 = put_inbox sa (map (Pair (ident_of b)) ds) (net w)" by auto
  then have l5: "linked a sa b sb (net w5)" using l by simp
  from send_all_ok [OF l5 ab(4) t(1), of es] w5(2) q(1) s n(2) obtain w6 where
    w6: "send_all z bus b (Some ta) es w5 = Inr w6" "net w6 = put_inbox sb (map (Pair (ident_of a)) es) (net w5)" by auto
  then have l6: "linked a sa b sb (net w6)" using l5 by simp
  from recv_all_ok [of w6 sa b ds "[]" ta] rest [OF l6] w6(2) w5(2) s ab(2) t(1) obtain w7 where
    w7: "recv_all (length ds) z (Some ta) w6 = Inr (map (Pair b) ds, w7)" "net w7 = put_inbox sa [] (net w6)" by auto
  then have l7: "linked a sa b sb (net w7)" using l6 by simp
  from recv_all_ok [of w7 sb a es "[]" tb] rest [OF l7] w7(2) w6(2) s ab(1) t(2) obtain w8 where
    w8: "recv_all (length es) z (Some tb) w7 = Inr (map (Pair a) es, w8)" "net w8 = put_inbox sb [] (net w7)" by auto
  have "linked a sa b sb (net w8)" "rn_inbox (net w8) sb = []" "rn_inbox (net w8) sa = []" using l7 w8(2) w7(2) s by simp_all
  with w5(1) w6(1) w7(1) w8(1) show ?thesis by blast
qed

lemma all_rounds:
  assumes "linked a sa b sb (net w)" "rn_inbox (net w) sb = []" "rn_inbox (net w) sa = []" and s: "sa \<noteq> sb"
    and ab: "entity a" "entity b" "IsLocalEntity bus a" "IsLocalEntity bus b" and t: "ti_inproc_sock ta = Some sa" "ti_inproc_sock tb = Some sb"
  shows "exchanges hwm z bus a ta b tb w"
proof -
  have "\<exists>w'. converse_rounds z bus a ta b tb rs w = Inr (map (\<lambda>(ds, es). (map (Pair b) ds, map (Pair a) es)) rs, w')"
    if "list_all (\<lambda>(ds, es). length ds \<le> hwm \<and> length es \<le> hwm) rs" for rs
    using that assms(1-3)
  proof (induction rs arbitrary: w)
    case (Cons x rs)
    obtain ds es where x: "x = (ds, es)" by fastforce
    have n: "length ds \<le> hwm" "length es \<le> hwm" "list_all (\<lambda>(ds, es). length ds \<le> hwm \<and> length es \<le> hwm) rs" using Cons.prems(1) x by simp_all
    obtain w5 w6 w7 w8 where r: "send_all z bus a (Some tb) ds w = Inr w5" "send_all z bus b (Some ta) es w5 = Inr w6"
      "recv_all (length ds) z (Some ta) w6 = Inr (map (Pair b) ds, w7)" "recv_all (length es) z (Some tb) w7 = Inr (map (Pair a) es, w8)"
      "linked a sa b sb (net w8)" "rn_inbox (net w8) sb = []" "rn_inbox (net w8) sa = []"
      using one_round [OF Cons.prems(2) s Cons.prems(3,4) ab t n(1,2)] by blast
    from Cons.IH [OF n(3) r(5-7)] show ?case using r(1-4) x by auto
  qed simp
  then show ?thesis unfolding exchanges_def by blast
qed

lemma exchange:
  assumes l: "linked a sa b sb (net w)" and s: "sa \<noteq> sb" and q: "rn_inbox (net w) sb = [(ident_of a, msg)]" "rn_inbox (net w) sa = []"
    and ab: "entity a" "entity b" "IsLocalEntity bus a" "IsLocalEntity bus b" and t: "ti_inproc_sock ta = Some sa" "ti_inproc_sock tb = Some sb"
  shows "\<exists>w4. RecvInProc z (Some tb) w = Inr ((a, msg), w4) \<and> exchanges hwm z bus a ta b tb w4"
proof -
  have "rn_rest (net w) sb = None" using l by (simp add: linked_def sock_for_def)
  from recv_all_ok [of w sb a "[msg]" "[]" tb] this q(1) ab(1) t(2) obtain w4 where
    w4: "RecvInProc z (Some tb) w = Inr ((a, msg), w4)" "net w4 = put_inbox sb [] (net w)" by (auto simp: rbind_eq_Inr)
  have "exchanges hwm z bus a ta b tb w4" by (rule all_rounds [OF _ _ _ s ab t]) (use l w4(2) q(2) s in simp_all)
  with w4(1) show ?thesis by blast
qed

text \<open>Two threads: \<open>b\<close> registers, \<open>a\<close> registers and connects to it, and then they exchange messages.\<close>

lemma handshake:
  assumes ok: "net_ok (net w)" and ab: "a \<noteq> b" "entity a" "entity b" "IsLocalEntity bus a" "IsLocalEntity bus b"
    and ca: "cc_ltype ca = kInProc" "cc_entity_id ca = a" and cb: "cc_ltype cb = kInProc" "cc_entity_id cb = b"
    and free: "rn_bound (net w) (MakeInProcAddr a) = None" "rn_bound (net w) (MakeInProcAddr b) = None"
      "\<forall>s \<in> rn_socks (net w). rn_ident (net w) s \<notin> {ident_of a, ident_of b}"
  shows "\<exists>ta tb w1 w2 K. ThreadRegister z cb None w = Inr (Some tb, w1) \<and> ThreadRegister z ca None w1 = Inr (Some ta, w2) \<and>
    (\<forall>fuel > K. \<exists>w3 w4. ConnectTo_local fuel z bus b msg (Some ta) w2 = Inr (Some ta, w3) \<and> RecvInProc z (Some tb) w3 = Inr ((a, msg), w4) \<and>
      exchanges hwm z bus a ta b tb w4)"
proof -
  have id: "ident_of a \<noteq> ident_of b" using ab(1) zmq_id_roundtrip ab(2,3) by (metis i32.dec_enc)
  from register_ok [OF cb(1), of w] free(2) cb(2) obtain sb w1 where
    w1: "ThreadRegister z cb None w = Inr (Some ((ThreadCommInfo cb)\<lparr>ti_inproc_sock := Some sb\<rparr>), w1)" "sb \<notin> rn_socks (net w)"
    "net w1 = net_registered b sb (net w)" by auto
  have n1: "net_ok (net w1)" "sock_for b sb (net w1)" "rn_inbox (net w1) sb = []" unfolding w1(3) using net_registered_ok [OF ok w1(2)] free(3) by blast+
  have "rn_bound (net w1) (MakeInProcAddr a) = None" using w1(3) free(1) ab(1) by (simp add: MakeInProcAddr_inj net_registered_def net_new_def)
  with register_ok [OF ca(1), of w1] ca(2) obtain sa w2 where
    w2: "ThreadRegister z ca None w1 = Inr (Some ((ThreadCommInfo ca)\<lparr>ti_inproc_sock := Some sa\<rparr>), w2)" "sa \<notin> rn_socks (net w1)"
    "net w2 = net_registered a sa (net w1)" by auto
  have "\<forall>r \<in> rn_socks (net w1). rn_ident (net w1) r \<noteq> ident_of a" using w1(2,3) free(3) id by (auto simp: net_registered_def net_new_def)
  then have n2: "net_ok (net w2)" "sock_for a sa (net w2)" "rn_inbox (net w2) sa = []" "sock_for b sb (net w2)" "rn_inbox (net w2) sb = []"
    unfolding w2(3) using net_registered_ok [OF n1(1) w2(2)] net_registered_other [OF w2(2) n1(2) id [symmetric]] n1(3) by simp_all
  have bound: "rn_bound (net w2) (MakeInProcAddr b) = Some sb"
    using w1(3) w2(3) ab(1) by (simp add: net_registered_def net_new_def MakeInProcAddr_inj)
  have s: "sa \<noteq> sb" using n1(2) w2(2) by (auto simp: sock_for_def)
  let ?ta = "(ThreadCommInfo ca)\<lparr>ti_inproc_sock := Some sa\<rparr>" and ?tb = "(ThreadCommInfo cb)\<lparr>ti_inproc_sock := Some sb\<rparr>"
  have t: "ti_inproc_sock ?ta = Some sa" "ti_inproc_sock ?tb = Some sb" by simp_all
  from connect_ok [OF n2(1,2,4) bound ab(5) t(1), of msg] n2(5) hwm obtain K where
    K: "\<forall>fuel > K. \<exists>w3. ConnectTo_local fuel z bus b msg (Some ?ta) w2 = Inr (Some ?ta, w3) \<and> linked a sa b sb (net w3) \<and>
      rn_inbox (net w3) = (rn_inbox (net w2))(sb := [(ident_of a, msg)])" by auto
  have "\<exists>w4. RecvInProc z (Some ?tb) w3 = Inr ((a, msg), w4) \<and> exchanges hwm z bus a ?ta b ?tb w4"
    if l: "linked a sa b sb (net w3)" and q: "rn_inbox (net w3) = (rn_inbox (net w2))(sb := [(ident_of a, msg)])" for w3
    using exchange [OF l s _ _ ab(2-5) t, of msg] q n2(3) s by simp
  with K have "\<forall>fuel > K. \<exists>w3 w4. ConnectTo_local fuel z bus b msg (Some ?ta) w2 = Inr (Some ?ta, w3) \<and>
      RecvInProc z (Some ?tb) w3 = Inr ((a, msg), w4) \<and> exchanges hwm z bus a ?ta b ?tb w4" by blast
  with w1(1) w2(1) show ?thesis by blast
qed

end

section \<open>Router sockets that satisfy the contract\<close>

text \<open>
  A network in one process: a connection exists after three pauses, and a sender waits when 1000 messages wait at the receiver
  (the default of \<open>ZMQ_RCVHWM\<close>, which the sources do not change).
\<close>

definition local_hwm :: nat where
  "local_hwm = 1000"

record local_net =
  ln_next :: nat
  ln_delay :: nat
  ln_ident :: "sock \<Rightarrow> bytes"
  ln_bound :: "string \<Rightarrow> sock option"
  ln_wait :: "(sock \<times> sock) list"
  ln_link :: "(sock \<times> sock) list"
  ln_dest :: "sock \<Rightarrow> sock option"
  ln_inbox :: "sock \<Rightarrow> (bytes \<times> bytes) list"
  ln_rest :: "sock \<Rightarrow> bytes option"

definition local_view :: "local_net \<Rightarrow> router_net" where
  "local_view n = \<lparr>rn_socks = {..<ln_next n}, rn_ident = ln_ident n, rn_bound = ln_bound n, rn_wait = set (ln_wait n), rn_link = set (ln_link n),
     rn_dest = ln_dest n, rn_inbox = ln_inbox n, rn_rest = ln_rest n\<rparr>"

definition ln_socket :: "local_net \<Rightarrow> sock zres \<times> local_net" where
  "ln_socket n = (let s = ln_next n in (Returned s, n\<lparr>ln_next := Suc s, ln_ident := (ln_ident n)(s := []), ln_dest := (ln_dest n)(s := None),
     ln_inbox := (ln_inbox n)(s := []), ln_rest := (ln_rest n)(s := None)\<rparr>))"

definition ln_setsockopt :: "sock \<Rightarrow> sock_opt \<Rightarrow> bytes \<Rightarrow> local_net \<Rightarrow> unit zres \<times> local_net" where
  "ln_setsockopt s opt v n = (Returned (), if opt = ZMQ_IDENTITY then n\<lparr>ln_ident := (ln_ident n)(s := v)\<rparr> else n)"

definition ln_bind :: "sock \<Rightarrow> string \<Rightarrow> local_net \<Rightarrow> unit zres \<times> local_net" where
  "ln_bind s a n = (if ln_bound n a = None then (Returned (), n\<lparr>ln_bound := (ln_bound n)(a \<mapsto> s)\<rparr>) else (Threw EADDRINUSE, n))"

definition ln_connect :: "sock \<Rightarrow> string \<Rightarrow> local_net \<Rightarrow> unit zres \<times> local_net" where
  "ln_connect s a n = (case ln_bound n a of None \<Rightarrow> (Threw ECONNREFUSED, n)
     | Some r \<Rightarrow> (Returned (), n\<lparr>ln_delay := 2, ln_wait := (s, r) # ln_wait n\<rparr>))"

definition ln_send :: "sock \<Rightarrow> bytes \<Rightarrow> bool \<Rightarrow> local_net \<Rightarrow> nat zres \<times> local_net" where
  "ln_send s d sndmore n =
     (if sndmore then
        (case find (\<lambda>(s', r). s' = s \<and> ln_ident n r = d) (ln_link n) of
           None \<Rightarrow> (Threw EHOSTUNREACH, n)
         | Some (_, r) \<Rightarrow> if length (ln_inbox n r) < local_hwm then (Returned (length d), n\<lparr>ln_dest := (ln_dest n)(s \<mapsto> r)\<rparr>) else (Waits, n))
      else
        (case ln_dest n s of
           None \<Rightarrow> (Threw EFSM, n)
         | Some r \<Rightarrow> (Returned (length d), n\<lparr>ln_dest := (ln_dest n)(s := None),
             ln_inbox := (ln_inbox n)(r := ln_inbox n r @ [(ln_ident n s, d)])\<rparr>)))"

definition ln_recv :: "sock \<Rightarrow> bool \<Rightarrow> local_net \<Rightarrow> bytes option zres \<times> local_net" where
  "ln_recv s nowait n =
     (case ln_rest n s of
        Some d \<Rightarrow> (Returned (Some d), n\<lparr>ln_rest := (ln_rest n)(s := None)\<rparr>)
      | None \<Rightarrow>
          (case ln_inbox n s of
             [] \<Rightarrow> (if nowait then (Returned None, n) else (Waits, n))
           | (i, d) # q \<Rightarrow> (Returned (Some i), n\<lparr>ln_inbox := (ln_inbox n)(s := q), ln_rest := (ln_rest n)(s \<mapsto> d)\<rparr>)))"

definition ln_poll :: "sock list \<Rightarrow> int \<Rightarrow> local_net \<Rightarrow> (sock \<Rightarrow> bool) zres \<times> local_net" where
  "ln_poll ss t n = (if t < 0 \<and> list_all (\<lambda>s. ln_inbox n s = []) ss then (Waits, n) else (Returned (\<lambda>s. ln_inbox n s \<noteq> []), n))"

definition ln_nanosleep :: "local_net \<Rightarrow> int \<times> local_net" where
  "ln_nanosleep n =
     (0, if ln_delay n = 0 then n\<lparr>ln_wait := [], ln_link := ln_wait n @ map (\<lambda>(s, r). (r, s)) (ln_wait n) @ ln_link n\<rparr>
         else n\<lparr>ln_delay := ln_delay n - 1\<rparr>)"

definition local_zmq :: "local_net zmq_ops" where
  "local_zmq = \<lparr>zo_socket = ln_socket, zo_setsockopt = ln_setsockopt, zo_bind = ln_bind, zo_connect = ln_connect, zo_send = ln_send,
     zo_send_msg = (\<lambda>s d sndmore n. case ln_send s d sndmore n of (Returned _, n) \<Rightarrow> (Returned True, n) | (Threw e, n) \<Rightarrow> (Threw e, n) | (Waits, n) \<Rightarrow> (Waits, n)),
     zo_recv = ln_recv, zo_poll = ln_poll, zo_nanosleep = ln_nanosleep\<rparr>"

lemma find_route: "routes (local_view n) s i r \<Longrightarrow> find (\<lambda>(s', r). s' = s \<and> ln_ident n r = i) (ln_link n) = Some (s, r)"
proof -
  assume r: "routes (local_view n) s i r"
  then obtain x where "find (\<lambda>(s', r). s' = s \<and> ln_ident n r = i) (ln_link n) = Some x"
    by (cases "find (\<lambda>(s', r). s' = s \<and> ln_ident n r = i) (ln_link n)") (auto simp: find_None_iff routes_def local_view_def)
  moreover from this have "x \<in> set (ln_link n) \<and> fst x = s \<and> ln_ident n (snd x) = i" by (auto simp: find_Some_iff in_set_conv_nth split_beta)
  ultimately show ?thesis using r by (cases x) (auto simp: routes_def local_view_def)
qed

lemma find_no_route: "\<forall>r. (s, r) \<in> set (ln_link n) \<longrightarrow> ln_ident n r \<noteq> i \<Longrightarrow> find (\<lambda>(s', r). s' = s \<and> ln_ident n r = i) (ln_link n) = None"
  by (auto simp: find_None_iff)

interpretation local_router: zmq_router local_zmq local_view "\<lambda>n _. ln_delay n" local_hwm
proof
  fix w :: local_net and s r i d q
  show "0 < local_hwm" by (simp add: local_hwm_def)
  show "\<exists>s w'. zo_socket local_zmq w = (Returned s, w') \<and> s \<notin> rn_socks (local_view w) \<and> local_view w' = net_new s (local_view w)"
    by (auto simp: local_zmq_def ln_socket_def local_view_def net_new_def Let_def lessThan_Suc)
  show "\<exists>w' c. zo_nanosleep local_zmq w = (0, w') \<and> c \<subseteq> rn_wait (local_view w) \<and> local_view w' = settle c (local_view w) \<and>
     (\<forall>x \<in> rn_wait (local_view w) - c. ln_delay w' < ln_delay w)"
  proof (cases "ln_delay w = 0")
    case True
    then show ?thesis by (intro exI conjI) (auto simp: local_zmq_def ln_nanosleep_def local_view_def settle_def intro: set_eqI)
  next
    case False
    then show ?thesis by (intro exI [of _ "w\<lparr>ln_delay := ln_delay w - 1\<rparr>"] exI [of _ "{}"]) (simp add: local_zmq_def ln_nanosleep_def local_view_def settle_def)
  qed
qed (auto simp: local_zmq_def ln_setsockopt_def ln_bind_def ln_connect_def ln_send_def ln_recv_def ln_poll_def local_view_def find_no_route
  list_all_iff split: option.splits dest!: find_route [unfolded local_view_def])

section \<open>Property\<close>


definition new_local_net :: local_net where
  "new_local_net = \<lparr>ln_next = 0, ln_delay = 0, ln_ident = (\<lambda>_. []), ln_bound = (\<lambda>_. None), ln_wait = [], ln_link = [], ln_dest = (\<lambda>_. None),
     ln_inbox = (\<lambda>_. []), ln_rest = (\<lambda>_. None)\<rparr>"


end
