(* ===== verification/Strads_Correlation.thy ===== *)
theory Strads_Correlation
imports Complex_Main Context
begin

text \<open>
  The sparse columns of the Strads scheduler (src/strads/ds/spmat.hpp) and the correlation of two columns
  (scheduler/getcorr.cpp).  A double is a real number, and every operation on doubles is the exact one followed by a
  rounding \<open>fl\<close>, a parameter of the definitions: \<open>dbl\<close> below rounds to the nearest number of 53 binary digits, ties to
  even, and the identity gives exact arithmetic.  The square root of a negative number is NaN, here None.  Exponents are
  not bounded, so overflow and subnormal numbers are not modelled; the numbers of the main theorem stay between 2 to the
  power -55 and 2 to the power 54.
\<close>

section \<open>Sparse vectors\<close>

record spmat_vector =
  sv_idx :: "nat list"
  sv_val :: "real list"

definition empty_vector :: spmat_vector where
  "empty_vector = \<lparr>sv_idx = [], sv_val = []\<rparr>"

definition sv_size :: "spmat_vector \<Rightarrow> nat result" where
  "sv_size v = rbind (check (length (sv_idx v) = length (sv_val v)) ''idx.size() == val.size()'') (\<lambda>_. Inr (length (sv_idx v)))"

definition sv_add :: "nat \<Rightarrow> real \<Rightarrow> spmat_vector \<Rightarrow> spmat_vector" where
  "sv_add i x v = \<lparr>sv_idx = sv_idx v @ [i], sv_val = sv_val v @ [x]\<rparr>"

text \<open>The iterators run over both vectors up to the first larger index.\<close>

fun insert_loop :: "nat list \<Rightarrow> real list \<Rightarrow> nat \<Rightarrow> real \<Rightarrow> (nat list \<times> real list) result" where
  "insert_loop [] vs i x = rbind (check (vs = []) ''valiter == val.end()'') (\<lambda>_. Inr ([i], [x]))"
| "insert_loop (j # js) [] i x = Inl (Undefined ''*valiter'')"
| "insert_loop (j # js) (v # vs) i x =
     rbind (check (j \<noteq> i) ''*idxiter != id'') (\<lambda>_.
     if i < j then Inr (i # j # js, x # v # vs)
     else rbind (insert_loop js vs i x) (\<lambda>(is, xs). Inr (j # is, v # xs)))"

definition sv_add_with_sorting :: "nat \<Rightarrow> real \<Rightarrow> spmat_vector \<Rightarrow> spmat_vector result" where
  "sv_add_with_sorting i x v =
     (if sv_idx v = [] then Inr (sv_add i x v)
      else
        rbind (check (length (sv_idx v) = length (sv_val v)) ''idx.size() == val.size()'') (\<lambda>_.
        rbind (insert_loop (sv_idx v) (sv_val v) i x) (\<lambda>(is, xs). Inr \<lparr>sv_idx = is, sv_val = xs\<rparr>)))"

section \<open>Matrices of sparse vectors\<close>

text \<open>The sizes are those given to the constructor; \<open>resize\<close> changes them but not the vectors.\<close>

record vspmat =
  vm_size_n :: nat
  vm_size_m :: nat
  vm_vecs :: "spmat_vector list"

definition row_vspmat :: "nat \<Rightarrow> nat \<Rightarrow> vspmat" where
  "row_vspmat n m = \<lparr>vm_size_n = n, vm_size_m = m, vm_vecs = replicate n empty_vector\<rparr>"

definition col_vspmat :: "nat \<Rightarrow> nat \<Rightarrow> vspmat" where
  "col_vspmat n m = \<lparr>vm_size_n = n, vm_size_m = m, vm_vecs = replicate m empty_vector\<rparr>"

definition vm_vec :: "nat \<Rightarrow> vspmat \<Rightarrow> spmat_vector result" where
  "vm_vec i mt = (if i < length (vm_vecs mt) then Inr (vm_vecs mt ! i) else Inl (Undefined ''vector index''))"

definition vm_put :: "nat \<Rightarrow> spmat_vector \<Rightarrow> vspmat \<Rightarrow> vspmat" where
  "vm_put i v mt = mt\<lparr>vm_vecs := (vm_vecs mt)[i := v]\<rparr>"

definition row_add :: "nat \<Rightarrow> nat \<Rightarrow> real \<Rightarrow> vspmat \<Rightarrow> vspmat result" where
  "row_add i j x mt = rbind (vm_vec i mt) (\<lambda>v. Inr (vm_put i (sv_add j x v) mt))"

definition row_add_with_col_sorting :: "nat \<Rightarrow> nat \<Rightarrow> real \<Rightarrow> vspmat \<Rightarrow> vspmat result" where
  "row_add_with_col_sorting i j x mt = rbind (vm_vec i mt) (\<lambda>v. rbind (sv_add_with_sorting j x v) (\<lambda>v. Inr (vm_put i v mt)))"

definition col_add :: "nat \<Rightarrow> nat \<Rightarrow> real \<Rightarrow> vspmat \<Rightarrow> vspmat result" where
  "col_add i j x mt = rbind (vm_vec j mt) (\<lambda>v. Inr (vm_put j (sv_add i x v) mt))"

definition col_add_with_row_sorting :: "nat \<Rightarrow> nat \<Rightarrow> real \<Rightarrow> vspmat \<Rightarrow> vspmat result" where
  "col_add_with_row_sorting i j x mt = rbind (vm_vec j mt) (\<lambda>v. rbind (sv_add_with_sorting i x v) (\<lambda>v. Inr (vm_put j v mt)))"

definition row_allocatedentry :: "vspmat \<Rightarrow> nat result" where
  "row_allocatedentry mt = foldM (\<lambda>a i. rbind (vm_vec i mt) (\<lambda>v. rbind (sv_size v) (\<lambda>n. Inr (a + n)))) 0 [0..<vm_size_n mt]"

definition col_allocatedentry :: "vspmat \<Rightarrow> nat result" where
  "col_allocatedentry mt = foldM (\<lambda>a i. rbind (vm_vec i mt) (\<lambda>v. rbind (sv_size v) (\<lambda>n. Inr (a + n)))) 0 [0..<vm_size_m mt]"

definition vm_resize :: "nat \<Rightarrow> nat \<Rightarrow> vspmat \<Rightarrow> vspmat" where
  "vm_resize n m mt = mt\<lparr>vm_size_n := n, vm_size_m := m\<rparr>"

section \<open>Correlation\<close>

text \<open>Both vectors are walked through together; equal indices contribute a product.\<close>

fun xy_loop :: "(real \<Rightarrow> real) \<Rightarrow> (nat \<times> real) list \<Rightarrow> (nat \<times> real) list \<Rightarrow> real \<Rightarrow> real" where
  "xy_loop fl ((i, x) # xs) ((j, y) # ys) s =
     (if i = j then xy_loop fl xs ys (fl (s + fl (x * y)))
      else if i > j then xy_loop fl ((i, x) # xs) ys s
      else xy_loop fl xs ((j, y) # ys) s)"
| "xy_loop fl [] ys s = s"
| "xy_loop fl xs [] s = s"

text \<open>\<open>sqrt\<close> of the C library.\<close>

definition c_sqrt :: "(real \<Rightarrow> real) \<Rightarrow> real \<Rightarrow> real option" where
  "c_sqrt fl x = (if x < 0 then None else Some (fl (sqrt x)))"

text \<open>\<open>nsamples\<close> is converted to a double before it is multiplied.\<close>

definition corr_of :: "(real \<Rightarrow> real) \<Rightarrow> nat \<Rightarrow> real \<Rightarrow> real \<Rightarrow> real \<Rightarrow> real \<Rightarrow> real \<Rightarrow> real option result" where
  "corr_of fl nsamples xysum xsum xsqsum ysum ysqsum =
     (let n = fl (real nsamples) in
      case (c_sqrt fl (fl (fl (n * xsqsum) - fl (xsum * xsum))), c_sqrt fl (fl (fl (n * ysqsum) - fl (ysum * ysum)))) of
        (Some a, Some b) \<Rightarrow>
          let divide = fl (a * b) in
          rbind (check (divide \<noteq> 0) ''divide != 0.0'') (\<lambda>_.
          Inr (Some \<bar>fl (fl (1 * fl (fl (n * xysum) - fl (xsum * ysum))) / divide)\<bar>))
      | _ \<Rightarrow> Inr None)"

definition sum_of :: "(real \<Rightarrow> real) \<Rightarrow> real list \<Rightarrow> real" where
  "sum_of fl vs = fold (\<lambda>x s. fl (s + x)) vs 0"

definition sqsum_of :: "(real \<Rightarrow> real) \<Rightarrow> real list \<Rightarrow> real" where
  "sqsum_of fl vs = fold (\<lambda>x s. fl (s + fl (x * x))) vs 0"

definition getcorr_pair_sparse_vmat :: "(real \<Rightarrow> real) \<Rightarrow> spmat_vector \<Rightarrow> spmat_vector \<Rightarrow> nat \<Rightarrow> real option result" where
  "getcorr_pair_sparse_vmat fl xcol ycol nsamples =
     rbind (check (sv_idx xcol \<noteq> []) ''xcol.idx.size() != 0'') (\<lambda>_.
     rbind (check (sv_idx ycol \<noteq> []) ''ycol.idx.size() != 0'') (\<lambda>_.
     rbind (check (length (sv_val xcol) = length (sv_idx xcol)) ''xcol.val.size() == xcol.idx.size()'') (\<lambda>_.
     rbind (check (length (sv_val ycol) = length (sv_idx ycol)) ''ycol.val.size() == ycol.idx.size()'') (\<lambda>_.
     let xsum = sum_of fl (sv_val xcol); xsqsum = sqsum_of fl (sv_val xcol);
         ysum = sum_of fl (sv_val ycol); ysqsum = sqsum_of fl (sv_val ycol);
         xysum = xy_loop fl (zip (sv_idx xcol) (sv_val xcol)) (zip (sv_idx ycol) (sv_val ycol)) 0 in
     corr_of fl nsamples xysum xsum xsqsum ysum ysqsum))))"

text \<open>The same over \<open>unordered_map\<close>: the pairs come in the order of iteration, and the loop is that of sorted vectors.\<close>

definition getcorr_pair_sparsem :: "(real \<Rightarrow> real) \<Rightarrow> (nat \<times> real) list \<Rightarrow> (nat \<times> real) list \<Rightarrow> nat \<Rightarrow> real option result" where
  "getcorr_pair_sparsem fl xcol ycol nsamples =
     rbind (check (xcol \<noteq> []) ''xcol.size() != 0'') (\<lambda>_.
     rbind (check (ycol \<noteq> []) ''ycol.size() != 0'') (\<lambda>_.
     let xsum = sum_of fl (map snd xcol); xsqsum = sqsum_of fl (map snd xcol);
         ysum = sum_of fl (map snd ycol); ysqsum = sqsum_of fl (map snd ycol) in
     corr_of fl nsamples (xy_loop fl xcol ycol 0) xsum xsqsum ysum ysqsum))"

section \<open>Columns as functions of the row\<close>

definition entry :: "spmat_vector \<Rightarrow> nat \<Rightarrow> real" where
  "entry v r = (case map_of (zip (sv_idx v) (sv_val v)) r of Some x \<Rightarrow> x | None \<Rightarrow> 0)"

definition col_ok :: "nat \<Rightarrow> spmat_vector \<Rightarrow> bool" where
  "col_ok n v \<longleftrightarrow> length (sv_val v) = length (sv_idx v) \<and> sorted_wrt (<) (sv_idx v) \<and> (\<forall>i \<in> set (sv_idx v). i < n)"

lemma insert_loop_ok:
  assumes "length is = length xs" "sorted_wrt (<) is" "i \<notin> set is"
  shows "\<exists>js ys. insert_loop is xs i x = Inr (js, ys) \<and> length js = length ys \<and> sorted_wrt (<) js \<and> set js = insert i (set is) \<and>
    map_of (zip js ys) = (map_of (zip is xs))(i \<mapsto> x)"
  using assms
proof (induction "is" xs i x rule: insert_loop.induct)
  case (3 j js v vs i x)
  show ?case
  proof (cases "i < j")
    case True
    then show ?thesis using 3 by (auto simp: fun_eq_iff)
  next
    case False
    have "\<exists>js' ys. insert_loop js vs i x = Inr (js', ys) \<and> length js' = length ys \<and> sorted_wrt (<) js' \<and> set js' = insert i (set js) \<and>
        map_of (zip js' ys) = (map_of (zip js vs))(i \<mapsto> x)" using 3 False by (simp add: fun_upd_def)
    then obtain ls ys where "insert_loop js vs i x = Inr (ls, ys)" "length ls = length ys" "sorted_wrt (<) ls" "set ls = insert i (set js)"
      "map_of (zip ls ys) = (map_of (zip js vs))(i \<mapsto> x)" by (elim exE conjE)
    then show ?thesis using 3 False by (auto simp: fun_upd_twist)
  qed
qed auto

text \<open>A vector that is filled with \<open>add_with_sorting\<close> holds its entries in the order of their indices.\<close>

lemma add_with_sorting_ok:
  assumes "col_ok n v" "i \<notin> set (sv_idx v)" "i < n"
  shows "\<exists>v'. sv_add_with_sorting i x v = Inr v' \<and> col_ok n v' \<and> entry v' = (entry v)(i := x)"
proof (cases "sv_idx v = []")
  case True
  then show ?thesis using assms by (auto simp: sv_add_with_sorting_def sv_add_def col_ok_def entry_def fun_eq_iff)
next
  case False
  from insert_loop_ok [of "sv_idx v" "sv_val v" i x] assms obtain js ys where
    "insert_loop (sv_idx v) (sv_val v) i x = Inr (js, ys)" "length js = length ys" "sorted_wrt (<) js" "set js = insert i (set (sv_idx v))"
    "map_of (zip js ys) = (map_of (zip (sv_idx v) (sv_val v)))(i \<mapsto> x)" by (auto simp: col_ok_def)
  then show ?thesis using False assms by (auto simp: sv_add_with_sorting_def col_ok_def entry_def fun_eq_iff)
qed

text \<open>Sums over the stored entries are sums over all rows.\<close>

lemma sum_entry:
  assumes "col_ok n v" "f 0 = 0"
  shows "(\<Sum>r<n. f (entry v r)) = sum_list (map f (sv_val v))"
proof -
  have l: "length (sv_val v) = length (sv_idx v)" and d: "distinct (sv_idx v)" and b: "set (sv_idx v) \<subseteq> {..<n}"
    using assms(1) strict_sorted_iff [of "sv_idx v"] by (auto simp: col_ok_def)
  have e: "entry v (sv_idx v ! k) = sv_val v ! k" if "k < length (sv_idx v)" for k
    using map_of_zip_nth [of "sv_idx v" "sv_val v" k] l d that by (simp add: entry_def)
  then have m: "map (\<lambda>i. f (entry v i)) (sv_idx v) = map f (sv_val v)" using l by (intro nth_equalityI) simp_all
  have "(\<Sum>r<n. f (entry v r)) = (\<Sum>r \<in> set (sv_idx v). f (entry v r))"
  proof (rule sum.mono_neutral_right)
    show "\<forall>r \<in> {..<n} - set (sv_idx v). f (entry v r) = 0"
    proof
      fix r assume "r \<in> {..<n} - set (sv_idx v)"
      then have "map_of (zip (sv_idx v) (sv_val v)) r = None" using l by (simp add: map_of_zip_is_None)
      then show "f (entry v r) = 0" using assms(2) by (simp add: entry_def)
    qed
  qed (use b in auto)
  also have "\<dots> = sum_list (map (\<lambda>i. f (entry v i)) (sv_idx v))" using d by (simp add: sum_list_distinct_conv_sum_set)
  finally show ?thesis by (simp add: m)
qed

definition at_key :: "(nat \<times> real) list \<Rightarrow> nat \<Rightarrow> real" where
  "at_key xs r = (case map_of xs r of Some x \<Rightarrow> x | None \<Rightarrow> 0)"

lemma at_key_Cons: "at_key ((i, x) # xs) r = (if r = i then x else at_key xs r)"
  by (simp add: at_key_def)

lemma at_key_absent: "r \<notin> set (map fst xs) \<Longrightarrow> at_key xs r = 0"
  by (simp add: at_key_def map_of_eq_None_iff [THEN iffD2])

lemma xy_loop_sum:
  "sorted_wrt (<) (map fst xs) \<Longrightarrow> sorted_wrt (<) (map fst ys) \<Longrightarrow>
   xy_loop (\<lambda>z. z) xs ys s = s + (\<Sum>r \<in> set (map fst xs). at_key xs r * at_key ys r)"
proof (induction "\<lambda>z::real. z" xs ys s rule: xy_loop.induct)
  case (1 i x xs j y ys s)
  let ?X = "set (map fst xs)"
  have i: "i \<notin> ?X" "j \<notin> set (map fst ys)" using "1.prems" by auto
  have split: "(\<Sum>r \<in> set (map fst ((i, x) # xs)). at_key ((i, x) # xs) r * g r) = x * g i + (\<Sum>r \<in> ?X. at_key xs r * g r)" for g
  proof -
    have "(\<Sum>r \<in> ?X. at_key ((i, x) # xs) r * g r) = (\<Sum>r \<in> ?X. at_key xs r * g r)" using i(1) by (intro sum.cong) (auto simp: at_key_Cons)
    then show ?thesis using i(1) by (simp add: at_key_Cons)
  qed
  consider "i = j" | "i > j" | "i < j" by linarith
  then show ?case
  proof cases
    case 1
    have "(\<Sum>r \<in> ?X. at_key xs r * at_key ((j, y) # ys) r) = (\<Sum>r \<in> ?X. at_key xs r * at_key ys r)"
      using i(1) 1 by (intro sum.cong) (auto simp: at_key_Cons)
    then show ?thesis using "1.hyps"(1) [OF 1] "1.prems" 1 split [of "at_key ((j, y) # ys)"] by (simp add: at_key_Cons)
  next
    case 2
    have "\<forall>r \<in> set (map fst ((i, x) # xs)). r \<noteq> j" using "1.prems"(1) 2 by auto
    then have "(\<Sum>r \<in> set (map fst ((i, x) # xs)). at_key ((i, x) # xs) r * at_key ((j, y) # ys) r) =
        (\<Sum>r \<in> set (map fst ((i, x) # xs)). at_key ((i, x) # xs) r * at_key ys r)" by (intro sum.cong) (auto simp: at_key_Cons)
    then show ?thesis using "1.hyps"(2) "1.prems" 2 by simp
  next
    case 3
    then have "i \<notin> set (map fst ((j, y) # ys))" using "1.prems"(2) by auto
    then have "at_key ((j, y) # ys) i = 0" by (rule at_key_absent)
    then show ?thesis using "1.hyps"(3) "1.prems" 3 split [of "at_key ((j, y) # ys)"] by simp
  qed
qed (simp_all add: at_key_def)

section \<open>The correlation coefficient\<close>

text \<open>The coefficient as statistics defines it, over deviations from the mean, taken over all rows of the dense columns.\<close>

definition mean_of :: "nat \<Rightarrow> (nat \<Rightarrow> real) \<Rightarrow> real" where
  "mean_of n f = (\<Sum>r<n. f r) / real n"

definition covar :: "nat \<Rightarrow> (nat \<Rightarrow> real) \<Rightarrow> (nat \<Rightarrow> real) \<Rightarrow> real" where
  "covar n f g = (\<Sum>r<n. (f r - mean_of n f) * (g r - mean_of n g))"

definition pearson :: "nat \<Rightarrow> (nat \<Rightarrow> real) \<Rightarrow> (nat \<Rightarrow> real) \<Rightarrow> real" where
  "pearson n f g = \<bar>covar n f g\<bar> / (sqrt (covar n f f) * sqrt (covar n g g))"

definition constant_column :: "nat \<Rightarrow> (nat \<Rightarrow> real) \<Rightarrow> bool" where
  "constant_column n f = list_all (\<lambda>r. f r = f 0) [0..<n]"

lemma sum_square_zero:
  fixes f :: "nat \<Rightarrow> real"
  shows "(\<Sum>r<n. f r * f r) = 0 \<longleftrightarrow> (\<forall>r<n. f r = 0)"
  by (subst sum_nonneg_eq_0_iff) auto

lemma cauchy_schwarz_sum:
  fixes a b :: "nat \<Rightarrow> real"
  shows "(\<Sum>r<n. a r * b r)\<^sup>2 \<le> (\<Sum>r<n. a r * a r) * (\<Sum>r<n. b r * b r)" (is "?C\<^sup>2 \<le> ?A * ?B")
proof (cases "?B = 0")
  case True
  then have "\<forall>r<n. b r = 0" by (simp only: sum_square_zero)
  then show ?thesis by simp
next
  case False
  have pos: "0 < ?B" using False sum_nonneg [of "{..<n}" "\<lambda>r. b r * b r"] by (simp add: less_le)
  have "0 \<le> (\<Sum>r<n. (?B * a r - ?C * b r) * (?B * a r - ?C * b r))" by (intro sum_nonneg) simp
  also have "\<dots> = (\<Sum>r<n. ?B * ?B * (a r * a r) - 2 * ?B * ?C * (a r * b r) + ?C * ?C * (b r * b r))"
    by (intro sum.cong) (simp_all add: algebra_simps)
  also have "\<dots> = ?B * ?B * ?A - 2 * ?B * ?C * ?C + ?C * ?C * ?B"
    by (simp only: sum.distrib sum_subtractf sum_distrib_left [symmetric])
  also have "\<dots> = ?B * (?A * ?B - ?C\<^sup>2)" by (simp add: power2_eq_square algebra_simps)
  finally show ?thesis using pos by (simp add: zero_le_mult_iff)
qed

lemma covar_expand:
  assumes "0 < n"
  shows "real n * covar n f g = real n * (\<Sum>r<n. f r * g r) - (\<Sum>r<n. f r) * (\<Sum>r<n. g r)"
proof -
  have n: "real n * mean_of n f = (\<Sum>r<n. f r)" "real n * mean_of n g = (\<Sum>r<n. g r)" using assms by (simp_all add: mean_of_def)
  have "covar n f g = (\<Sum>r<n. f r * g r - f r * mean_of n g - mean_of n f * g r + mean_of n f * mean_of n g)"
    unfolding covar_def by (intro sum.cong) (simp_all add: algebra_simps)
  also have "\<dots> = (\<Sum>r<n. f r * g r) - (\<Sum>r<n. f r) * mean_of n g - mean_of n f * (\<Sum>r<n. g r) + real n * mean_of n f * mean_of n g"
    by (simp add: sum.distrib sum_subtractf sum_distrib_left [symmetric] sum_distrib_right [symmetric])
  also have "\<dots> = (\<Sum>r<n. f r * g r) - mean_of n f * (real n * mean_of n g)" by (simp add: n [symmetric])
  finally have c: "covar n f g = (\<Sum>r<n. f r * g r) - mean_of n f * (\<Sum>r<n. g r)" by (simp only: n)
  show ?thesis unfolding c by (simp add: right_diff_distrib n(1) mult.assoc [symmetric])
qed

lemma covar_nonneg: "0 \<le> covar n f f"
  unfolding covar_def by (intro sum_nonneg) simp

lemma covar_zero:
  assumes "0 < n"
  shows "covar n f f = 0 \<longleftrightarrow> constant_column n f"
proof -
  have "covar n f f = 0 \<longleftrightarrow> (\<forall>r<n. f r = mean_of n f)" unfolding covar_def sum_square_zero by simp
  also have "\<dots> \<longleftrightarrow> (\<forall>r<n. f r = f 0)"
  proof
    assume m: "\<forall>r<n. f r = mean_of n f"
    then have "f 0 = mean_of n f" using assms by blast
    then show "\<forall>r<n. f r = f 0" using m by metis
  next
    assume c: "\<forall>r<n. f r = f 0"
    have "(\<Sum>r<n. f r) = (\<Sum>r<n. f 0)"
    proof (rule sum.cong)
      show "f r = f 0" if "r \<in> {..<n}" for r using c [rule_format, of r] that unfolding lessThan_iff .
    qed (rule refl)
    then have "mean_of n f = f 0" using assms by (simp add: mean_of_def)
    then show "\<forall>r<n. f r = mean_of n f" using c by metis
  qed
  finally show ?thesis by (simp add: constant_column_def list_all_iff Ball_def)
qed

lemma pearson_bounds: "0 \<le> pearson n f g" "pearson n f g \<le> 1"
proof -
  show "0 \<le> pearson n f g" by (simp add: pearson_def covar_nonneg)
  have "sqrt ((covar n f g)\<^sup>2) \<le> sqrt (covar n f f * covar n g g)"
    unfolding covar_def by (intro real_sqrt_le_mono cauchy_schwarz_sum)
  then have "\<bar>covar n f g\<bar> \<le> sqrt (covar n f f) * sqrt (covar n g g)" by (simp add: real_sqrt_mult)
  then show "pearson n f g \<le> 1"
    using covar_nonneg [of n f] covar_nonneg [of n g] by (auto simp: pearson_def divide_le_eq_1 less_le)
qed

lemma corr_of_pearson:
  assumes "0 < n"
  shows "corr_of (\<lambda>z. z) n (\<Sum>r<n. f r * g r) (\<Sum>r<n. f r) (\<Sum>r<n. f r * f r) (\<Sum>r<n. g r) (\<Sum>r<n. g r * g r) =
    (if constant_column n f \<or> constant_column n g then Inl (CheckFailed ''divide != 0.0'') else Inr (Some (pearson n f g)))"
proof -
  note cov = covar_expand [OF assms, symmetric]
  have sq: "sqrt (real n * covar n f f) * sqrt (real n * covar n g g) = real n * (sqrt (covar n f f) * sqrt (covar n g g))"
    using assms by (simp add: real_sqrt_mult)
  have nz: "sqrt (covar n f f) * sqrt (covar n g g) = 0 \<longleftrightarrow> constant_column n f \<or> constant_column n g"
    using assms by (simp add: covar_zero)
  have q: "\<bar>real n * covar n f g / (real n * (sqrt (covar n f f) * sqrt (covar n g g)))\<bar> = pearson n f g"
    using assms by (simp add: pearson_def abs_mult covar_nonneg)
  have nn: "\<not> real n * covar n h h < 0" for h using covar_nonneg [of n h] by (simp add: mult_less_0_iff)
  have r: "real n * (sqrt (covar n f f) * sqrt (covar n g g)) \<noteq> 0 \<longleftrightarrow> \<not> (constant_column n f \<or> constant_column n g)"
    using assms nz by (simp only: mult_eq_0_iff [of "real n"]) simp
  have "corr_of (\<lambda>z. z) n (\<Sum>r<n. f r * g r) (\<Sum>r<n. f r) (\<Sum>r<n. f r * f r) (\<Sum>r<n. g r) (\<Sum>r<n. g r * g r) =
    rbind (check (\<not> (constant_column n f \<or> constant_column n g)) ''divide != 0.0'') (\<lambda>_. Inr (Some (pearson n f g)))"
    unfolding corr_of_def Let_def mult_1_left cov c_sqrt_def if_not_P [OF nn] option.case prod.case sq q r ..
  then show ?thesis by (simp add: check_def rbind_def)
qed

lemma fold_add: "fold (\<lambda>x s. s + f x) xs (a::real) = a + sum_list (map f xs)"
  by (induction xs arbitrary: a) (simp_all add: add.assoc)

lemma xy_loop_entry:
  assumes "col_ok n x" "col_ok n y"
  shows "xy_loop (\<lambda>z. z) (zip (sv_idx x) (sv_val x)) (zip (sv_idx y) (sv_val y)) 0 = (\<Sum>r<n. entry x r * entry y r)"
proof -
  have e: "at_key (zip (sv_idx v) (sv_val v)) = entry v" for v by (simp add: fun_eq_iff at_key_def entry_def)
  have z: "entry x r = 0" if "r \<notin> set (sv_idx x)" for r
    using at_key_absent [of r "zip (sv_idx x) (sv_val x)"] that assms(1) by (simp add: e col_ok_def del: set_map)
  have "xy_loop (\<lambda>z. z) (zip (sv_idx x) (sv_val x)) (zip (sv_idx y) (sv_val y)) 0 = (\<Sum>r \<in> set (sv_idx x). entry x r * entry y r)"
    using assms by (subst xy_loop_sum) (simp_all add: col_ok_def e)
  also have "\<dots> = (\<Sum>r<n. entry x r * entry y r)"
    using assms(1) by (intro sum.mono_neutral_left) (auto simp: z col_ok_def)
  finally show ?thesis .
qed

lemma sums_exact:
  assumes "col_ok n v"
  shows "sum_of (\<lambda>z. z) (sv_val v) = (\<Sum>r<n. entry v r)" "sqsum_of (\<lambda>z. z) (sv_val v) = (\<Sum>r<n. entry v r * entry v r)"
  using sum_entry [OF assms, of "\<lambda>x. x"] sum_entry [OF assms, of "\<lambda>x. x * x"] fold_add [of "\<lambda>x. x"] fold_add [of "\<lambda>x. x * x"]
  by (simp_all add: sum_of_def sqsum_of_def)

text \<open>In exact arithmetic the merge computes the coefficient.\<close>

lemma getcorr_is_pearson_eq:
  assumes "col_ok n xcol" "col_ok n ycol" "sv_idx xcol \<noteq> []" "sv_idx ycol \<noteq> []"
  shows "getcorr_pair_sparse_vmat (\<lambda>z. z) xcol ycol n =
      (if constant_column n (entry xcol) \<or> constant_column n (entry ycol) then Inl (CheckFailed ''divide != 0.0'')
       else Inr (Some (pearson n (entry xcol) (entry ycol))))"
proof -
  have n: "0 < n" using assms(1,3) by (cases "sv_idx xcol") (auto simp: col_ok_def)
  have "getcorr_pair_sparse_vmat (\<lambda>z. z) xcol ycol n = corr_of (\<lambda>z. z) n (\<Sum>r<n. entry xcol r * entry ycol r) (\<Sum>r<n. entry xcol r)
      (\<Sum>r<n. entry xcol r * entry xcol r) (\<Sum>r<n. entry ycol r) (\<Sum>r<n. entry ycol r * entry ycol r)"
    using assms by (simp add: getcorr_pair_sparse_vmat_def check_def rbind_def sums_exact xy_loop_entry Let_def) (simp add: col_ok_def)
  then show ?thesis using n by (simp add: corr_of_pearson)
qed

section \<open>Rounding\<close>

text \<open>Round to nearest, ties to even, and the double nearest to a real number.\<close>

definition round_even :: "real \<Rightarrow> int" where
  "round_even x =
     (let k = \<lfloor>x\<rfloor>; d = x - of_int k in
      if d < 1 / 2 then k else if 1 / 2 < d then k + 1 else if even k then k else k + 1)"

definition dbl :: "real \<Rightarrow> real" where
  "dbl x = (if x = 0 then 0 else let u = 2 powr (real_of_int \<lfloor>log 2 \<bar>x\<bar>\<rfloor> - 52) in real_of_int (round_even (x / u)) * u)"

lemma round_even_int [simp]: "round_even (real_of_int k) = k"
  by (simp add: round_even_def)

lemma round_even_near: "\<bar>real_of_int (round_even x) - x\<bar> \<le> 1 / 2"
  using floor_correct [of x] by (auto simp: round_even_def Let_def abs_le_iff)

lemma dbl_at:
  assumes "2 powr real_of_int e \<le> \<bar>x\<bar>" "\<bar>x\<bar> < 2 powr (real_of_int e + 1)"
  shows "dbl x = real_of_int (round_even (x / 2 powr (real_of_int e - 52))) * 2 powr (real_of_int e - 52)"
proof -
  have p: "0 < \<bar>x\<bar>" using assms(1) powr_gt_zero [of 2 "real_of_int e"] by linarith
  have "\<lfloor>log 2 \<bar>x\<bar>\<rfloor> = e" using assms p by (auto simp: floor_eq_iff le_log_iff log_less_iff)
  then show ?thesis using p by (simp add: dbl_def Let_def)
qed

lemma dbl_exponent:
  assumes "x \<noteq> 0"
  obtains e where "2 powr real_of_int e \<le> \<bar>x\<bar>" "\<bar>x\<bar> < 2 powr (real_of_int e + 1)"
proof (rule that [of "\<lfloor>log 2 \<bar>x\<bar>\<rfloor>"])
  show "2 powr real_of_int \<lfloor>log 2 \<bar>x\<bar>\<rfloor> \<le> \<bar>x\<bar>" "\<bar>x\<bar> < 2 powr (real_of_int \<lfloor>log 2 \<bar>x\<bar>\<rfloor> + 1)"
    using assms by (simp_all flip: le_log_iff log_less_iff)
qed

lemma dbl_near: "\<bar>dbl x - x\<bar> \<le> \<bar>x\<bar> / 2 ^ 53"
proof (cases "x = 0")
  case False
  then obtain e where e: "2 powr real_of_int e \<le> \<bar>x\<bar>" "\<bar>x\<bar> < 2 powr (real_of_int e + 1)" by (rule dbl_exponent)
  define u where "u = 2 powr (real_of_int e - 52)"
  have u: "0 < u" "u * 2 ^ 52 = 2 powr real_of_int e" by (simp_all add: u_def powr_diff powr_realpow [symmetric] powr_numeral)
  have "dbl x - x = (real_of_int (round_even (x / u)) - x / u) * u" using u(1) by (simp add: dbl_at [OF e] u_def [symmetric] left_diff_distrib)
  then have "\<bar>dbl x - x\<bar> \<le> 1 / 2 * u" using u(1) round_even_near [of "x / u"] by (simp only: abs_mult) (intro mult_mono, simp_all)
  then show ?thesis using e(1) u(2) by simp
qed (simp add: dbl_def)

lemma dbl_int:
  assumes "\<bar>k\<bar> \<le> 2 ^ 53"
  shows "dbl (real_of_int k) = real_of_int k"
proof (cases "k = 0")
  case False
  then obtain e where e: "2 powr real_of_int e \<le> \<bar>real_of_int k\<bar>" "\<bar>real_of_int k\<bar> < 2 powr (real_of_int e + 1)"
    using dbl_exponent [of "real_of_int k"] by auto
  have k: "1 \<le> \<bar>real_of_int k\<bar>" "\<bar>real_of_int k\<bar> \<le> 2 powr 53" using False assms by (simp_all add: powr_numeral)
  have "2 powr 0 < 2 powr (real_of_int e + 1)" "2 powr real_of_int e \<le> (2::real) powr 53" using e k by simp_all
  then have "0 < real_of_int e + 1" "real_of_int e \<le> 53" by (simp_all only: powr_less_cancel_iff powr_le_cancel_iff one_less_numeral_iff semiring_norm)
  then have b: "0 \<le> e" "e \<le> 53" by linarith+
  have "\<exists>j. real_of_int k / 2 powr (real_of_int e - 52) = real_of_int j"
  proof (cases "e = 53")
    case True
    then have "\<bar>real_of_int k\<bar> = 2 ^ 53" using e(1) k(2) by (simp add: powr_numeral)
    then have "real_of_int k = 2 * real_of_int (2 ^ 52) \<or> real_of_int k = 2 * real_of_int (- (2 ^ 52))" by (auto simp: abs_if split: if_splits)
    then show ?thesis using True by (elim disjE) (simp_all only: divide_simps, auto intro: exI [of _ "2 ^ 52"] exI [of _ "- (2 ^ 52)"])
  next
    case False
    then have "2 powr (real_of_int e - 52) * 2 ^ nat (52 - e) = (1::real)"
      using b by (simp add: powr_realpow [symmetric] powr_add [symmetric])
    then have "real_of_int k / 2 powr (real_of_int e - 52) = real_of_int (k * 2 ^ nat (52 - e))" by (simp add: field_simps)
    then show ?thesis by blast
  qed
  then obtain j where j: "real_of_int k / 2 powr (real_of_int e - 52) = real_of_int j" ..
  show ?thesis unfolding dbl_at [OF e] j round_even_int unfolding j [symmetric] by simp
qed (simp add: dbl_def)

lemma sum_squares_nonneg: "0 \<le> (\<Sum>p\<leftarrow>xs. f p * (f p :: real))"
  by (induction xs) simp_all

lemma xy_loop_exact:
  "(\<And>z. z \<in> \<int> \<Longrightarrow> \<bar>z\<bar> \<le> 2 ^ 53 \<Longrightarrow> fl z = z) \<Longrightarrow> s \<in> \<int> \<Longrightarrow> \<forall>p \<in> set xs \<union> set ys. snd p \<in> \<int> \<Longrightarrow>
   2 * \<bar>s\<bar> + (\<Sum>p\<leftarrow>xs. snd p * snd p) + (\<Sum>p\<leftarrow>ys. snd p * snd p) \<le> 2 * 2 ^ 53 \<Longrightarrow>
   xy_loop fl xs ys s = xy_loop (\<lambda>z. z) xs ys s"
proof (induction fl xs ys s rule: xy_loop.induct)
  case (1 fl i x xs j y ys s)
  let ?X = "\<Sum>p\<leftarrow>xs. snd p * snd p" and ?Y = "\<Sum>p\<leftarrow>ys. snd p * snd p"
  have nn: "0 \<le> ?X" "0 \<le> ?Y" "0 \<le> x * x" "0 \<le> y * y" by (simp_all add: sum_squares_nonneg)
  have "0 \<le> (x - y) * (x - y)" "0 \<le> (x + y) * (x + y)" by simp_all
  then have xy: "2 * \<bar>x * y\<bar> \<le> x * x + y * y" by (simp add: algebra_simps abs_le_iff abs_if)
  have b: "2 * \<bar>s\<bar> + x * x + ?X + y * y + ?Y \<le> 2 * 2 ^ 53" using "1.prems"(4) by simp
  have i: "x * y \<in> \<int>" "s + x * y \<in> \<int>" using "1.prems"(2,3) by simp_all
  have "\<bar>x * y\<bar> \<le> 2 ^ 53" "\<bar>s + x * y\<bar> \<le> 2 ^ 53" "2 * \<bar>s + x * y\<bar> + ?X + ?Y \<le> 2 * 2 ^ 53" using b xy nn abs_triangle_ineq [of s "x * y"] by argo+
  moreover from this i have "fl (x * y) = x * y" "fl (s + x * y) = s + x * y" by (simp_all only: "1.prems"(1))
  moreover have "2 * \<bar>s\<bar> + (x * x + ?X) + ?Y \<le> 2 * 2 ^ 53" "2 * \<bar>s\<bar> + ?X + (y * y + ?Y) \<le> 2 * 2 ^ 53" using b nn by linarith+
  ultimately show ?case using 1 i by simp
qed simp_all

lemma abs_le_product:
  fixes a :: real
  assumes "a\<^sup>2 \<le> b * c" "0 \<le> b" "b \<le> k" "0 \<le> c" "c \<le> k"
  shows "\<bar>a\<bar> \<le> k"
proof -
  have "b * c \<le> k * k" using assms(2-5) by (intro mult_mono) simp_all
  then have "\<bar>a\<bar>\<^sup>2 \<le> k\<^sup>2" using assms(1) by (simp add: power2_eq_square)
  then show ?thesis by (rule power2_le_imp_le) (use assms(2,3) in simp)
qed

lemma square_in_sum: "x \<in> set vs \<Longrightarrow> x * x \<le> (\<Sum>x\<leftarrow>vs. x * (x :: real))"
proof (induction vs)
  case (Cons y vs)
  then show ?case using sum_squares_nonneg [of "\<lambda>x. x" vs] by (auto intro: order_trans)
qed simp

lemma abs_le_square: "x \<in> \<int> \<Longrightarrow> \<bar>x\<bar> \<le> x * (x :: real)"
proof (elim Ints_cases)
  fix k assume "x = of_int k"
  moreover have "\<bar>k\<bar> * 1 \<le> \<bar>k\<bar> * \<bar>k\<bar>" by (cases "k = 0") (auto intro: mult_left_mono simp del: abs_mult_self_eq)
  then have "\<bar>k\<bar> \<le> k * k" by simp
  then have "\<bar>real_of_int k\<bar> \<le> real_of_int k * real_of_int k" by (simp flip: of_int_abs of_int_mult)
  ultimately show ?thesis by simp
qed

lemma sum_abs_le_squares: "set vs \<subseteq> \<int> \<Longrightarrow> (\<Sum>x\<leftarrow>vs. \<bar>x\<bar>) \<le> (\<Sum>x\<leftarrow>vs. x * (x :: real))"
  by (induction vs) (simp_all add: abs_le_square add_mono)

text \<open>Columns of integers whose sum of squares, times the number of rows, has at most 53 bits.\<close>

definition small_column :: "nat \<Rightarrow> spmat_vector \<Rightarrow> bool" where
  "small_column n v \<longleftrightarrow> col_ok n v \<and> sv_idx v \<noteq> [] \<and> set (sv_val v) \<subseteq> \<int> \<and> real n * (\<Sum>x\<leftarrow>sv_val v. x * x) \<le> 2 ^ 53"

lemma small_column_bounds:
  assumes "small_column n v"
  shows "0 < n" "(\<Sum>x\<leftarrow>sv_val v. x * x) \<le> 2 ^ 53" "real n * (\<Sum>r<n. entry v r * entry v r) \<le> 2 ^ 53"
proof -
  show n: "0 < n" using assms by (cases "sv_idx v") (auto simp: small_column_def col_ok_def)
  have "1 * (\<Sum>x\<leftarrow>sv_val v. x * x) \<le> real n * (\<Sum>x\<leftarrow>sv_val v. x * x)" using n sum_squares_nonneg by (intro mult_right_mono) simp_all
  then show "(\<Sum>x\<leftarrow>sv_val v. x * x) \<le> 2 ^ 53" using assms by (simp add: small_column_def)
  show "real n * (\<Sum>r<n. entry v r * entry v r) \<le> 2 ^ 53"
    using assms sum_entry [of n v "\<lambda>x. x * x"] by (simp add: small_column_def)
qed

lemma small_products:
  assumes "small_column n v"
  shows "real n * (\<Sum>r<n. entry v r * entry v r) \<le> 2 ^ 53" "0 \<le> real n * (\<Sum>r<n. entry v r * entry v r)"
    "(\<Sum>r<n. entry v r) * (\<Sum>r<n. entry v r) \<le> 2 ^ 53"
    "0 \<le> real n * covar n (entry v) (entry v)" "real n * covar n (entry v) (entry v) \<le> 2 ^ 53"
proof -
  show s: "real n * (\<Sum>r<n. entry v r * entry v r) \<le> 2 ^ 53" by (rule small_column_bounds(3) [OF assms])
  show "0 \<le> real n * (\<Sum>r<n. entry v r * entry v r)" by (intro mult_nonneg_nonneg sum_nonneg zero_le_square) simp
  show c: "0 \<le> real n * covar n (entry v) (entry v)" by (simp add: covar_nonneg)
  show "(\<Sum>r<n. entry v r) * (\<Sum>r<n. entry v r) \<le> 2 ^ 53" "real n * covar n (entry v) (entry v) \<le> 2 ^ 53"
    using c s covar_expand [OF small_column_bounds(1) [OF assms], of "entry v" "entry v"] zero_le_square [of "\<Sum>r<n. entry v r"] by linarith+
qed

lemma entry_int: "set (sv_val v) \<subseteq> \<int> \<Longrightarrow> entry v r \<in> \<int>"
  by (auto simp: entry_def split: option.split dest!: map_of_SomeD set_zip_rightD)

text \<open>The bound on the relative error of one rounding.\<close>

definition eps :: real where
  "eps = 1 / 2 ^ 53"

lemma eps_bounds: "0 < eps" "eps < 1 / 2"
  by (simp_all add: eps_def)

text \<open>What the coefficient relies on: integers of 53 bits are exact, and the relative error of a rounding is bounded.\<close>

locale double_rounding =
  fixes fl :: "real \<Rightarrow> real"
  assumes fl_int: "\<bar>k\<bar> \<le> 2 ^ 53 \<Longrightarrow> fl (real_of_int k) = real_of_int k"
    and fl_near: "1 / 2 ^ 1000 \<le> \<bar>x\<bar> \<Longrightarrow> \<bar>x\<bar> \<le> 2 ^ 1000 \<Longrightarrow> \<bar>fl x - x\<bar> \<le> eps * \<bar>x\<bar>"
begin

lemma fl_exact: "x \<in> \<int> \<Longrightarrow> \<bar>x\<bar> \<le> 2 ^ 53 \<Longrightarrow> fl x = x"
  using fl_int by (elim Ints_cases) (simp add: of_int_abs [symmetric] del: of_int_abs)

lemma fold_exact:
  assumes "\<And>x. x \<in> set vs \<Longrightarrow> g x = h x \<and> h x \<in> \<int>"
  shows "a \<in> \<int> \<Longrightarrow> \<bar>a\<bar> + (\<Sum>x\<leftarrow>vs. \<bar>h x\<bar>) \<le> 2 ^ 53 \<Longrightarrow> fold (\<lambda>x s. fl (s + g x)) vs a = fold (\<lambda>x s. s + h x) vs a"
  using assms
proof (induction vs arbitrary: a)
  case (Cons x vs)
  have h: "g x = h x" "h x \<in> \<int>" using Cons.prems(3) by simp_all
  have "0 \<le> (\<Sum>x\<leftarrow>vs. \<bar>h x\<bar>)" by (rule sum_list_nonneg) auto
  then have "\<bar>a + h x\<bar> \<le> 2 ^ 53" "\<bar>a + h x\<bar> + (\<Sum>x\<leftarrow>vs. \<bar>h x\<bar>) \<le> 2 ^ 53" using Cons.prems(2) by simp_all
  then show ?case using Cons h by (simp add: fl_exact)
qed simp

lemma fl_pos:
  assumes "1 / 2 ^ 1000 \<le> x" "x \<le> 2 ^ 1000"
  shows "(1 - eps) * x \<le> fl x" "fl x \<le> (1 + eps) * x"
proof -
  have "0 < x" using assms(1) by (rule less_le_trans [rotated]) simp
  then have "\<bar>fl x - x\<bar> \<le> eps * x" using fl_near [of x] assms by simp
  then show "(1 - eps) * x \<le> fl x" "fl x \<le> (1 + eps) * x" by (simp_all add: algebra_simps abs_le_iff)
qed

lemma fl_abs:
  assumes "1 / 2 ^ 1000 \<le> \<bar>x\<bar>" "\<bar>x\<bar> \<le> 2 ^ 1000"
  shows "(1 - eps) * \<bar>x\<bar> \<le> \<bar>fl x\<bar>" "\<bar>fl x\<bar> \<le> (1 + eps) * \<bar>x\<bar>"
  using fl_near [OF assms] by (simp_all add: algebra_simps abs_if split: if_splits)

text \<open>The three roundings of the divisor.\<close>

lemma divide_rounded:
  assumes "1 \<le> v" "v \<le> 2 ^ 53" "1 \<le> w" "w \<le> 2 ^ 53"
  shows "(1 - eps) ^ 3 * (sqrt v * sqrt w) \<le> fl (fl (sqrt v) * fl (sqrt w))"
    "fl (fl (sqrt v) * fl (sqrt w)) \<le> (1 + eps) ^ 3 * (sqrt v * sqrt w)"
proof -
  have range: "1 / 2 ^ 1000 \<le> z" "z \<le> 2 ^ 1000" if "1 / 4 \<le> z" "z \<le> 2 ^ 108" for z :: real
  proof -
    show "1 / 2 ^ 1000 \<le> z" using that(1) by (rule order_trans [rotated]) simp
    show "z \<le> 2 ^ 1000" using that(2) by (rule order_trans) simp
  qed
  have r: "1 \<le> sqrt z" "sqrt z \<le> 2 ^ 53" if "1 \<le> z" "z \<le> 2 ^ 53" for z :: real
    using that by (simp_all add: real_le_lsqrt)
  have f: "(1 - eps) * sqrt z \<le> fl (sqrt z)" "fl (sqrt z) \<le> (1 + eps) * sqrt z" "1 / 2 \<le> fl (sqrt z)" "fl (sqrt z) \<le> 2 ^ 54"
    if "1 \<le> z" "z \<le> 2 ^ 53" for z
  proof -
    have "1 / 4 \<le> sqrt z" "sqrt z \<le> 2 ^ 108" using r [OF that] order_trans [of "sqrt z" "2 ^ 53" "2 ^ 108"] by (linarith, simp)
    note q = range [OF this]
    show b: "(1 - eps) * sqrt z \<le> fl (sqrt z)" "fl (sqrt z) \<le> (1 + eps) * sqrt z" by (rule fl_pos [OF q])+
    have "1 / 2 * 1 \<le> (1 - eps) * sqrt z" using eps_bounds r(1) [OF that] by (intro mult_mono) simp_all
    then show "1 / 2 \<le> fl (sqrt z)" using b(1) by simp
    have "(1 + eps) * sqrt z \<le> 2 * 2 ^ 53" using eps_bounds r [OF that] by (intro mult_mono) simp_all
    then show "fl (sqrt z) \<le> 2 ^ 54" using b(2) by simp
  qed
  note v = f [OF assms(1,2)] and w = f [OF assms(3,4)]
  have "1 / 2 * (1 / 2) \<le> fl (sqrt v) * fl (sqrt w)" "fl (sqrt v) * fl (sqrt w) \<le> 2 ^ 54 * 2 ^ 54"
    using v(3,4) w(3,4) by (intro mult_mono; simp)+
  then have "1 / 4 \<le> fl (sqrt v) * fl (sqrt w)" "fl (sqrt v) * fl (sqrt w) \<le> 2 ^ 108" by simp_all
  note q = range [OF this]
  have "(1 - eps) * ((1 - eps) * sqrt v * ((1 - eps) * sqrt w)) \<le> (1 - eps) * (fl (sqrt v) * fl (sqrt w))"
    using v w eps_bounds assms by (intro mult_left_mono mult_mono) simp_all
  also have "\<dots> \<le> fl (fl (sqrt v) * fl (sqrt w))" by (rule fl_pos [OF q])
  finally show "(1 - eps) ^ 3 * (sqrt v * sqrt w) \<le> fl (fl (sqrt v) * fl (sqrt w))" by (simp add: power3_eq_cube mult_ac)
  have "fl (fl (sqrt v) * fl (sqrt w)) \<le> (1 + eps) * (fl (sqrt v) * fl (sqrt w))" by (rule fl_pos [OF q])
  also have "\<dots> \<le> (1 + eps) * ((1 + eps) * sqrt v * ((1 + eps) * sqrt w))"
    using v w eps_bounds assms by (intro mult_left_mono mult_mono) simp_all
  finally show "fl (fl (sqrt v) * fl (sqrt w)) \<le> (1 + eps) ^ 3 * (sqrt v * sqrt w)" by (simp add: power3_eq_cube mult_ac)
qed

text \<open>The rounding of the quotient, for an integer over the rounded divisor.\<close>

lemma quotient_rounded:
  assumes "1 \<le> v" "v \<le> 2 ^ 53" "1 \<le> w" "w \<le> 2 ^ 53" "m \<in> \<int>" "\<bar>m\<bar> \<le> 2 ^ 53"
  defines "d \<equiv> fl (fl (sqrt v) * fl (sqrt w))"
  shows "0 < d" "\<bar>m\<bar> / (sqrt v * sqrt w) * ((1 - eps) / (1 + eps) ^ 3) \<le> \<bar>fl (m / d)\<bar>"
    "\<bar>fl (m / d)\<bar> \<le> \<bar>m\<bar> / (sqrt v * sqrt w) * ((1 + eps) / (1 - eps) ^ 3)"
proof -
  let ?s = "sqrt v * sqrt w" and ?p = "(1 + eps) ^ 3" and ?q = "(1 - eps) ^ 3"
  have d: "?q * ?s \<le> d" "d \<le> ?p * ?s" unfolding d_def by (rule divide_rounded [OF assms(1-4)])+
  have "(1 / 2) ^ 3 \<le> ?q" "?p \<le> 2 ^ 3" using eps_bounds by (intro power_mono; simp)+
  then have pq: "1 / 8 \<le> ?q" "?p \<le> 8" "0 < ?q" "0 < ?p" using eps_bounds by (simp_all add: power3_eq_cube)
  have "1 * 1 \<le> ?s" using assms(1,3) by (intro mult_mono) simp_all
  moreover have "sqrt v \<le> 2 ^ 53" "sqrt w \<le> 2 ^ 53" using assms(1-4) by (simp_all add: real_le_lsqrt)
  then have "?s \<le> 2 ^ 53 * 2 ^ 53" using assms by (intro mult_mono) simp_all
  ultimately have s: "1 \<le> ?s" "?s \<le> 2 ^ 106" by simp_all
  have "1 / 8 * 1 \<le> ?q * ?s" "?p * ?s \<le> 8 * 2 ^ 106" using pq s by (intro mult_mono; simp)+
  then have e: "1 / 8 \<le> d" "d \<le> 2 ^ 109" using d by simp_all
  then show "0 < d" by simp
  have "(1 - eps) * \<bar>m / d\<bar> \<le> \<bar>fl (m / d)\<bar> \<and> \<bar>fl (m / d)\<bar> \<le> (1 + eps) * \<bar>m / d\<bar>"
  proof (cases "m = 0")
    case True
    then show ?thesis using fl_exact [of 0] by simp
  next
    case False
    then have "1 \<le> \<bar>m\<bar>" using assms(5) by (elim Ints_cases) simp
    then have "1 / 2 ^ 109 \<le> \<bar>m\<bar> / d" "\<bar>m\<bar> / d \<le> 2 ^ 53 / (1 / 8)" using e assms(6) by (intro frac_le; simp)+
    then have "1 / 2 ^ 109 \<le> \<bar>m / d\<bar>" "\<bar>m / d\<bar> \<le> 2 ^ 56" using e by simp_all
    then have "1 / 2 ^ 1000 \<le> \<bar>m / d\<bar>" "\<bar>m / d\<bar> \<le> 2 ^ 1000" by - (erule order_trans [rotated], simp, erule order_trans, simp)
    then show ?thesis using fl_abs by blast
  qed
  moreover have "\<bar>m\<bar> / (?p * ?s) \<le> \<bar>m / d\<bar>" "\<bar>m / d\<bar> \<le> \<bar>m\<bar> / (?q * ?s)"
    using d e pq s unfolding abs_divide by (intro frac_le; simp)+
  then have "(1 - eps) * (\<bar>m\<bar> / (?p * ?s)) \<le> (1 - eps) * \<bar>m / d\<bar>" "(1 + eps) * \<bar>m / d\<bar> \<le> (1 + eps) * (\<bar>m\<bar> / (?q * ?s))"
    using eps_bounds by - (erule mult_left_mono, simp)+
  ultimately show "\<bar>m\<bar> / ?s * ((1 - eps) / ?p) \<le> \<bar>fl (m / d)\<bar>" "\<bar>fl (m / d)\<bar> \<le> \<bar>m\<bar> / ?s * ((1 + eps) / ?q)"
    by (simp_all add: mult_ac)
qed

lemma sums_small:
  assumes "small_column n v"
  shows "sum_of fl (sv_val v) = (\<Sum>r<n. entry v r)" "sqsum_of fl (sv_val v) = (\<Sum>r<n. entry v r * entry v r)"
proof -
  have v: "col_ok n v" "set (sv_val v) \<subseteq> \<int>" using assms by (simp_all add: small_column_def)
  note b = small_column_bounds(2) [OF assms]
  have "sum_of fl (sv_val v) = sum_of (\<lambda>z. z) (sv_val v)"
    unfolding sum_of_def using v(2) b sum_abs_le_squares [OF v(2)] by (intro fold_exact) auto
  then show "sum_of fl (sv_val v) = (\<Sum>r<n. entry v r)" by (simp add: sums_exact [OF v(1)])
  have "fl (x * x) = x * x \<and> x * x \<in> \<int>" if "x \<in> set (sv_val v)" for x
    using that v(2) b square_in_sum [OF that] by (intro conjI fl_exact) auto
  then have "sqsum_of fl (sv_val v) = sqsum_of (\<lambda>z. z) (sv_val v)" unfolding sqsum_of_def using b by (intro fold_exact) simp_all
  then show "sqsum_of fl (sv_val v) = (\<Sum>r<n. entry v r * entry v r)" by (simp add: sums_exact [OF v(1)])
qed

lemma xysum_small:
  assumes "small_column n x" "small_column n y"
  shows "xy_loop fl (zip (sv_idx x) (sv_val x)) (zip (sv_idx y) (sv_val y)) 0 = (\<Sum>r<n. entry x r * entry y r)"
proof -
  have v: "col_ok n x" "col_ok n y" using assms by (simp_all add: small_column_def)
  have q: "(\<Sum>p\<leftarrow>zip (sv_idx v) (sv_val v). snd p * snd p) = (\<Sum>x\<leftarrow>sv_val v. x * x)" if "col_ok n v" for v
    using that map_snd_zip [of "sv_idx v" "sv_val v"] by (simp add: col_ok_def flip: map_map [of "\<lambda>x. x * x" snd, unfolded comp_def])
  have "xy_loop fl (zip (sv_idx x) (sv_val x)) (zip (sv_idx y) (sv_val y)) 0 =
      xy_loop (\<lambda>z. z) (zip (sv_idx x) (sv_val x)) (zip (sv_idx y) (sv_val y)) 0"
    using assms small_column_bounds(2) [OF assms(1)] small_column_bounds(2) [OF assms(2)]
    by (intro xy_loop_exact fl_exact) (auto simp: q v small_column_def dest: set_zip_rightD)
  then show ?thesis using xy_loop_entry [OF v] by simp
qed

text \<open>The numerator and the two radicands are computed without error.\<close>

lemma cross_small:
  assumes "small_column n x" "small_column n y" "n \<le> 2 ^ 53"
  defines "k \<equiv> real n * covar n (entry x) (entry y)"
  shows "fl (fl (fl (real n) * (\<Sum>r<n. entry x r * entry y r)) - fl ((\<Sum>r<n. entry x r) * (\<Sum>r<n. entry y r))) = k"
    "k \<in> \<int>" "\<bar>k\<bar> \<le> 2 ^ 53"
proof -
  let ?p = "real n * (\<Sum>r<n. entry x r * entry y r)" and ?q = "(\<Sum>r<n. entry x r) * (\<Sum>r<n. entry y r)"
  have n: "0 < n" by (rule small_column_bounds(1) [OF assms(1)])
  have i: "entry x r \<in> \<int>" "entry y r \<in> \<int>" for r using assms by (simp_all add: entry_int small_column_def)
  then have pq: "?p \<in> \<int>" "?q \<in> \<int>" by (auto intro!: Ints_mult Ints_sum)
  have k: "k = ?p - ?q" unfolding k_def using n by (rule covar_expand)
  have "(real n)\<^sup>2 * (\<Sum>r<n. entry x r * entry y r)\<^sup>2 \<le> (real n)\<^sup>2 * ((\<Sum>r<n. entry x r * entry x r) * (\<Sum>r<n. entry y r * entry y r))"
    by (intro mult_left_mono cauchy_schwarz_sum) simp
  then have "?p\<^sup>2 \<le> (real n * (\<Sum>r<n. entry x r * entry x r)) * (real n * (\<Sum>r<n. entry y r * entry y r))"
    by (simp add: power2_eq_square mult_ac)
  then have p: "\<bar>?p\<bar> \<le> 2 ^ 53" using small_products [OF assms(1)] small_products [OF assms(2)] by (intro abs_le_product)
  have "?q\<^sup>2 \<le> ((\<Sum>r<n. entry x r) * (\<Sum>r<n. entry x r)) * ((\<Sum>r<n. entry y r) * (\<Sum>r<n. entry y r))"
    by (simp add: power2_eq_square mult_ac)
  then have q: "\<bar>?q\<bar> \<le> 2 ^ 53" using small_products(3) [OF assms(1)] small_products(3) [OF assms(2)]
      zero_le_square [of "\<Sum>r<n. entry x r"] zero_le_square [of "\<Sum>r<n. entry y r"] by (intro abs_le_product)
  have "(covar n (entry x) (entry y))\<^sup>2 \<le> covar n (entry x) (entry x) * covar n (entry y) (entry y)"
    unfolding covar_def by (rule cauchy_schwarz_sum)
  then have "(real n)\<^sup>2 * (covar n (entry x) (entry y))\<^sup>2 \<le> (real n)\<^sup>2 * (covar n (entry x) (entry x) * covar n (entry y) (entry y))"
    by (rule mult_left_mono) simp
  then have "k\<^sup>2 \<le> (real n * covar n (entry x) (entry x)) * (real n * covar n (entry y) (entry y))"
    by (simp add: k_def power2_eq_square mult_ac)
  then show kb: "\<bar>k\<bar> \<le> 2 ^ 53" using small_products [OF assms(1)] small_products [OF assms(2)] by (intro abs_le_product)
  show ki: "k \<in> \<int>" using pq by (simp add: k)
  have "real n \<le> real (2 ^ 53)" using assms(3) by (simp only: of_nat_le_iff)
  then have "fl (real n) = real n" by (intro fl_exact) simp_all
  then show "fl (fl (fl (real n) * (\<Sum>r<n. entry x r * entry y r)) - fl ?q) = k"
    using fl_exact [OF pq(1) p] fl_exact [OF pq(2) q] fl_exact [OF ki kb] by (simp add: k)
qed

lemma getcorr_small:
  assumes "small_column n x" "small_column n y" "n \<le> 2 ^ 53"
  defines "v \<equiv> real n * covar n (entry x) (entry x)" and "w \<equiv> real n * covar n (entry y) (entry y)"
    and "m \<equiv> real n * covar n (entry x) (entry y)"
  shows "getcorr_pair_sparse_vmat fl x y n =
     (let divide = fl (fl (sqrt v) * fl (sqrt w)) in rbind (check (divide \<noteq> 0) ''divide != 0.0'') (\<lambda>_. Inr (Some \<bar>fl (m / divide)\<bar>)))"
proof -
  have "getcorr_pair_sparse_vmat fl x y n = corr_of fl n (\<Sum>r<n. entry x r * entry y r) (\<Sum>r<n. entry x r)
      (\<Sum>r<n. entry x r * entry x r) (\<Sum>r<n. entry y r) (\<Sum>r<n. entry y r * entry y r)"
    using assms(1,2) sums_small [OF assms(1)] sums_small [OF assms(2)] xysum_small [OF assms(1,2)]
    by (simp add: getcorr_pair_sparse_vmat_def check_def rbind_def Let_def small_column_def col_ok_def)
  moreover have "\<not> v < 0" "\<not> w < 0" using small_products(4) [OF assms(1)] small_products(4) [OF assms(2)] by (simp_all add: v_def w_def)
  moreover have "fl m = m" using cross_small(2,3) [OF assms(1,2,3)] unfolding m_def by (rule fl_exact)
  ultimately show ?thesis
    using cross_small(1) [OF assms(1,1,3)] cross_small(1) [OF assms(2,2,3)] cross_small(1) [OF assms(1,2,3)]
    unfolding corr_of_def c_sqrt_def Let_def v_def [symmetric] w_def [symmetric] m_def [symmetric] by simp
qed

lemma pearson_scaled:
  assumes "0 < n"
  shows "\<bar>real n * covar n f g\<bar> / (sqrt (real n * covar n f f) * sqrt (real n * covar n g g)) = pearson n f g"
proof -
  have "sqrt (real n * covar n f f) * sqrt (real n * covar n g g) = real n * (sqrt (covar n f f) * sqrt (covar n g g))"
    using assms by (simp add: real_sqrt_mult)
  then show ?thesis using assms by (simp add: pearson_def abs_mult)
qed

lemma getcorr_rounded:
  assumes "small_column n x" "small_column n y" "n \<le> 2 ^ 53"
  shows "if constant_column n (entry x) \<or> constant_column n (entry y)
    then getcorr_pair_sparse_vmat fl x y n = Inl (CheckFailed ''divide != 0.0'')
    else \<exists>c. getcorr_pair_sparse_vmat fl x y n = Inr (Some c) \<and>
      pearson n (entry x) (entry y) * ((1 - eps) / (1 + eps) ^ 3) \<le> c \<and> c \<le> pearson n (entry x) (entry y) * ((1 + eps) / (1 - eps) ^ 3)"
proof (cases "constant_column n (entry x) \<or> constant_column n (entry y)")
  case True
  have n: "0 < n" by (rule small_column_bounds(1) [OF assms(1)])
  have "fl 0 = 0" using fl_exact [of 0] by simp
  then have "fl (fl (sqrt (real n * covar n (entry x) (entry x))) * fl (sqrt (real n * covar n (entry y) (entry y)))) = 0"
    using True by (auto simp flip: covar_zero [OF n])
  then show ?thesis using True getcorr_small [OF assms] by (simp add: check_def rbind_def)
next
  case False
  have n: "0 < n" by (rule small_column_bounds(1) [OF assms(1)])
  have one: "1 \<le> real n * covar n (entry z) (entry z)" if "small_column n z" "\<not> constant_column n (entry z)" for z
  proof -
    have "real n * covar n (entry z) (entry z) \<noteq> 0" using n that(2) by (simp add: covar_zero)
    then show ?thesis
      using cross_small(2) [OF that(1,1) assms(3)] small_products(4) [OF that(1)] by (elim Ints_cases) simp
  qed
  note q = quotient_rounded [OF one [OF assms(1)] small_products(5) [OF assms(1)] one [OF assms(2)] small_products(5) [OF assms(2)]
      cross_small(2,3) [OF assms]]
  show ?thesis using False q getcorr_small [OF assms] unfolding pearson_scaled [OF n] by (simp add: check_def rbind_def Let_def)
qed

end

interpretation ieee: double_rounding dbl
  by unfold_locales (use dbl_int dbl_near in \<open>auto simp: eps_def\<close>)

text \<open>
  C27. Bounds: for two sorted sparse columns of integers whose sums of squares, times the number of rows, have at most 53
  bits, the routine run in double arithmetic (every operation rounded to the nearest double, ties to even) returns no NaN;
  its assertion fails exactly when one of the columns is constant; and otherwise its result is the absolute correlation
  coefficient of the dense columns up to the relative error of four roundings.  Outside that range the radicands can cancel:
  \<open>cancellation\<close> below.
\<close>

theorem getcorr_is_pearson:
  assumes "small_column n xcol" "small_column n ycol" "n \<le> 2 ^ 53"
  shows "if constant_column n (entry xcol) \<or> constant_column n (entry ycol)
    then getcorr_pair_sparse_vmat dbl xcol ycol n = Inl (CheckFailed ''divide != 0.0'')
    else \<exists>c. getcorr_pair_sparse_vmat dbl xcol ycol n = Inr (Some c) \<and>
      pearson n (entry xcol) (entry ycol) * ((1 - eps) / (1 + eps) ^ 3) \<le> c \<and>
      c \<le> pearson n (entry xcol) (entry ycol) * ((1 + eps) / (1 - eps) ^ 3)"
  by (rule ieee.getcorr_rounded [OF assms])

definition example_x :: spmat_vector where
  "example_x = \<lparr>sv_idx = [0, 2], sv_val = [1, 2]\<rparr>"

definition example_y :: spmat_vector where
  "example_y = \<lparr>sv_idx = [1, 2], sv_val = [3, 1]\<rparr>"

theorem getcorr_is_pearson_witness:
  "\<exists>c. getcorr_pair_sparse_vmat dbl example_x example_y 3 = Inr (Some c) \<and>
     pearson 3 (entry example_x) (entry example_y) * ((1 - eps) / (1 + eps) ^ 3) \<le> c \<and>
     c \<le> pearson 3 (entry example_x) (entry example_y) * ((1 + eps) / (1 - eps) ^ 3)"
  using getcorr_is_pearson [of 3 example_x example_y]
  by (simp add: example_x_def example_y_def small_column_def col_ok_def constant_column_def upt_rec entry_def)

section \<open>Cancellation\<close>

lemma dbl_numeral: "(numeral k :: int) \<le> 2 ^ 53 \<Longrightarrow> dbl (numeral k) = numeral k"
  using dbl_int [of "numeral k"] by simp

lemma dbl_small: "dbl 0 = 0" "dbl 1 = 1"
  using dbl_int [of 0] dbl_int [of 1] by simp_all

lemma dbl_large:
  "dbl 10000000000000000 = 10000000000000000" "dbl 10000000200000001 = 10000000200000000" "dbl 20000000200000000 = 20000000200000000"
  "dbl 40000000400000000 = 40000000400000000" "dbl 40000000400000001 = 40000000400000000"
  by (subst dbl_at [of 53] dbl_at [of 54] dbl_at [of 55]; simp add: round_even_def powr_numeral)+

text \<open>A column that is not constant, on whose integers the assertion fails: the two products round to the same double.\<close>

lemma cancellation:
  defines "x \<equiv> \<lparr>sv_idx = [0, 1], sv_val = [100000000, 100000001]\<rparr>" and "y \<equiv> \<lparr>sv_idx = [0, 1], sv_val = [1, 2]\<rparr>"
  shows "\<not> constant_column 2 (entry x)" "\<not> constant_column 2 (entry y)"
    "getcorr_pair_sparse_vmat dbl x y 2 = Inl (CheckFailed ''divide != 0.0'')"
proof -
  show "\<not> constant_column 2 (entry x)" "\<not> constant_column 2 (entry y)" by (simp_all add: x_def y_def constant_column_def upt_rec entry_def)
  show "getcorr_pair_sparse_vmat dbl x y 2 = Inl (CheckFailed ''divide != 0.0'')"
    by (simp add: x_def y_def getcorr_pair_sparse_vmat_def sum_of_def sqsum_of_def corr_of_def c_sqrt_def check_def rbind_def dbl_large dbl_numeral dbl_small)
qed

end
