(* ===== verification/Strads_Sampler.thy ===== *)
theory Strads_Sampler
imports Strads_Correlation
begin

text \<open>
  The weighted sampler of a Strads scheduler thread (class \<open>wsamplerctx\<close>, src/strads/scheduler/scheduler.hpp): it draws tasks with
  a probability that grows with their weight, and keeps those that do not interfere with each other.  Doubles are real
  numbers, not rounded in this class, and the correlation is taken in exact arithmetic too; the values of \<open>rand\<close> are an argument.  The text of the branches that COL_SORT_INPUT and CORRELATION_OPTIMIZATION select is
  modelled, as CMakeLists.txt and scheduler.hpp define them.
\<close>

section \<open>State\<close>

text \<open>\<open>m_base\<close> is \<open>m_start\<close>; the temporary buffers only live within a call.\<close>

record wsamplerctx =
  m_gid :: int
  m_lid :: int
  m_start :: int
  m_end :: int
  m_len :: int
  m_bw :: real
  m_totalw :: real
  m_maxset :: int
  m_weights :: "real list"
  m_infthreshold :: real
  m_nzelement :: int
  m_restart_flag :: bool
  m_restart_cnt :: int

definition new_wsamplerctx :: "int \<Rightarrow> int \<Rightarrow> int \<Rightarrow> int \<Rightarrow> real \<Rightarrow> int \<Rightarrow> real \<Rightarrow> wsamplerctx result" where
  "new_wsamplerctx gid lid start end1 bw maxset infthreshold =
     rbind (check (end1 > start) ''end > start'') (\<lambda>_.
     Inr \<lparr>m_gid = gid, m_lid = lid, m_start = start, m_end = end1, m_len = end1 - start + 1, m_bw = bw, m_totalw = 0,
          m_maxset = maxset, m_weights = replicate (nat (end1 - start + 1)) 0, m_infthreshold = infthreshold,
          m_nzelement = 0, m_restart_flag = False, m_restart_cnt = 0\<rparr>)"

section \<open>Weights\<close>

record weight_change =
  wc_entries :: "(int \<times> real) list"
  wc_maxlistsize :: nat

definition update_entry :: "wsamplerctx \<Rightarrow> int \<times> real \<Rightarrow> wsamplerctx result" where
  "update_entry ws e = (case e of (changedid, signed_w) \<Rightarrow>
     rbind (check (changedid \<ge> m_start ws) ''changedid >= m_start'') (\<lambda>_.
     rbind (check (changedid \<le> m_end ws) ''changedid <= m_end'') (\<lambda>_.
     let new_w = \<bar>signed_w\<bar>; localidx = changedid - m_start ws in
     rbind (check (localidx \<ge> 0) ''localidx >= 0'') (\<lambda>_.
     rbind (check (localidx \<le> m_len ws) ''localidx <= m_len'') (\<lambda>_.
     if nat localidx < length (m_weights ws) then
       let old_w = \<bar>m_weights ws ! nat localidx\<bar>; diff = new_w - old_w in
       Inr (ws\<lparr>m_weights := (m_weights ws)[nat localidx := new_w], m_totalw := m_totalw ws + diff\<rparr>)
     else Inl (Undefined ''m_weights[localidx]''))))))"

definition update_weight :: "wsamplerctx \<Rightarrow> weight_change \<Rightarrow> (int \<times> wsamplerctx) result" where
  "update_weight ws wchange =
     rbind (check (length (wc_entries wchange) \<le> wc_maxlistsize wchange) ''wchange->size <= wchange->maxlistsize'') (\<lambda>_.
     rbind (check (int (length (wc_entries wchange)) \<le> m_len ws) ''wchange->size <= m_len'') (\<lambda>_.
     rbind (foldM update_entry ws (wc_entries wchange)) (\<lambda>ws.
     Inr (int (length (wc_entries wchange)),
          ws\<lparr>m_nzelement := int (length (filter (\<lambda>w. w \<noteq> 0) (m_weights ws))),
             m_totalw := fold (\<lambda>w s. s + w) (m_weights ws) 0\<rparr>))))"

section \<open>Sampling\<close>

definition util_get_double_random :: "real \<Rightarrow> real \<Rightarrow> real \<Rightarrow> real" where
  "util_get_double_random normalized lower upper = lower + normalized * (upper - lower)"

definition sort_rndpoints :: "real list \<Rightarrow> real list" where
  "sort_rndpoints rndlist = sort (map abs rndlist)"

text \<open>BW_TUNE_FACTOR is 0.01.\<close>

definition base_weight :: "wsamplerctx \<Rightarrow> real" where
  "base_weight ws =
     (if m_nzelement ws > 10 \<and> m_totalw ws \<noteq> 0 then
        let nzshare = m_totalw ws / real_of_int (m_nzelement ws); bw = nzshare * (1 / 100) in
        if bw = 0 then 1 / 10 else bw
      else 1 / 10)"

text \<open>The search for the tasks into whose share the random points fall; \<open>acc\<close> sums the weights of the tasks before i.\<close>

fun pick_loop :: "int \<Rightarrow> real \<Rightarrow> nat \<Rightarrow> real \<Rightarrow> real list \<Rightarrow> real list \<Rightarrow> nat list \<Rightarrow> nat list result" where
  "pick_loop len bw i acc [] ps tmpsamples = Inr tmpsamples"
| "pick_loop len bw i acc (w # ws) ps tmpsamples =
     (case ps of [] \<Rightarrow> Inl (Undefined ''m_rndpts[rndptsidx]'') | p # _ \<Rightarrow>
      if acc + w + real (i + 1) * bw \<ge> p then
        rbind (check (int (length tmpsamples) \<le> len) ''sampleidx <= m_len'') (\<lambda>_.
        let ps' = dropWhile (\<lambda>p. acc + w + real (i + 1) * bw \<ge> p) ps in
        if ps' = [] then Inr (tmpsamples @ [i])
        else pick_loop len bw (i + 1) (acc + w) ws ps' (tmpsamples @ [i]))
      else pick_loop len bw (i + 1) (acc + w) ws ps tmpsamples)"

text \<open>One pass of the selection: the first position of the largest weight above the marker of taken entries.\<close>

fun max_scan :: "nat \<Rightarrow> real \<Rightarrow> nat option \<Rightarrow> real list \<Rightarrow> nat option" where
  "max_scan i mx maxpos [] = maxpos"
| "max_scan i mx maxpos (w # ws) = (if w > mx then max_scan (i + 1) w (Some i) ws else max_scan (i + 1) mx maxpos ws)"

fun select_loop :: "nat \<Rightarrow> nat list \<Rightarrow> real list \<Rightarrow> nat list result" where
  "select_loop 0 sortspace weights = Inr []"
| "select_loop (Suc n) sortspace weights =
     (case max_scan 0 (- 100000000) None weights of
        None \<Rightarrow> Inl (CheckFailed ''0'')
      | Some maxpos \<Rightarrow>
          rbind (select_loop n sortspace (weights[maxpos := - 100000000])) (\<lambda>samples. Inr (sortspace ! maxpos # samples)))"

definition sort_samples :: "wsamplerctx \<Rightarrow> nat list \<Rightarrow> nat list result" where
  "sort_samples ws samples =
     (if \<exists>l \<in> set samples. length (m_weights ws) \<le> l then Inl (Undefined ''m_weights[lid]'')
      else
        let zerolist = filter (\<lambda>l. m_weights ws ! l = 0) samples;
            sortspace = filter (\<lambda>l. m_weights ws ! l \<noteq> 0) samples in
        rbind (select_loop (length sortspace) sortspace (map (\<lambda>l. m_weights ws ! l) sortspace)) (\<lambda>s. Inr (s @ zerolist)))"

text \<open>
  The buffers hold \<open>m_maxset\<close> entries, and the scheduler thread asks for that many samples; with none the search reads past
  the buffer.
\<close>

definition do_sampling :: "(nat \<Rightarrow> real) \<Rightarrow> wsamplerctx \<Rightarrow> int \<Rightarrow> (int list \<times> wsamplerctx) result" where
  "do_sampling rnd ws setsize =
     rbind (check (setsize < m_len ws) ''setsize < m_len'') (\<lambda>_.
     if setsize > m_maxset ws then Inl (Undefined ''m_rndpts[i]'')
     else
       let ws = ws\<lparr>m_bw := base_weight ws\<rparr>;
           maxrange = m_totalw ws + m_bw ws * real_of_int (m_len ws);
           rndpts = sort_rndpoints (map (\<lambda>i. util_get_double_random (rnd i) 0 maxrange) [0..<nat setsize]) in
       rbind (pick_loop (m_len ws) (m_bw ws) 0 0 (m_weights ws) rndpts []) (\<lambda>tmpsamples.
       rbind (sort_samples ws tmpsamples) (\<lambda>sorted.
       Inr (map (\<lambda>l. int l + m_start ws) sorted, ws))))"

section \<open>Interference\<close>

datatype matrix_type = cmspt | rmspt | cvspt | rvspt | rvdt | d2dmat

text \<open>What the check reads of a \<open>dshardctx\<close>.\<close>

record dshardctx =
  ds_rows :: nat
  ds_cols :: nat
  ds_type :: matrix_type
  ds_c_start :: nat
  ds_c_end :: nat
  ds_cm_vmat :: vspmat

definition weight_at :: "wsamplerctx \<Rightarrow> int \<Rightarrow> real result" where
  "weight_at ws lid =
     (if 0 \<le> lid \<and> nat lid < length (m_weights ws) then Inr (m_weights ws ! nat lid) else Inl (Undefined ''m_weights[lid]''))"

definition infdegree :: "wsamplerctx \<Rightarrow> dshardctx \<Rightarrow> int \<Rightarrow> int \<Rightarrow> real option result" where
  "infdegree ws dshard gvidsample gvidret =
     rbind (weight_at ws (gvidsample - m_start ws)) (\<lambda>weight1.
     rbind (weight_at ws (gvidret - m_start ws)) (\<lambda>weight2.
     if m_restart_flag ws \<and> \<not> (weight1 \<noteq> 0 \<and> weight2 \<noteq> 0) then Inr (Some 0)
     else rbind (vm_vec (nat (gvidsample mod 2 ^ 64)) (ds_cm_vmat dshard)) (\<lambda>xcol.
       rbind (vm_vec (nat (gvidret mod 2 ^ 64)) (ds_cm_vmat dshard)) (\<lambda>ycol.
       getcorr_pair_sparse_vmat (\<lambda>z. z) xcol ycol (ds_rows dshard)))))"

fun conflict_loop :: "wsamplerctx \<Rightarrow> dshardctx \<Rightarrow> nat \<Rightarrow> nat \<Rightarrow> int \<Rightarrow> int list \<Rightarrow> bool result" where
  "conflict_loop ws dshard n rvidxsize gvidsample [] = Inr False"
| "conflict_loop ws dshard n rvidxsize gvidsample (gvidret # rest) =
     rbind (check (rvidxsize < n) ''rvidxsize < size'') (\<lambda>_.
     rbind (check (gvidret \<ge> m_start ws) ''gvidret >= m_start'') (\<lambda>_.
     rbind (check (gvidret \<le> m_end ws) ''gvidret <= m_end'') (\<lambda>_.
     rbind (infdegree ws dshard gvidsample gvidret) (\<lambda>d.
     if (case d of Some c \<Rightarrow> c \<ge> m_infthreshold ws | None \<Rightarrow> False) then Inr True
     else conflict_loop ws dshard n rvidxsize gvidsample rest))))"

fun interference_loop :: "wsamplerctx \<Rightarrow> dshardctx \<Rightarrow> nat \<Rightarrow> int list \<Rightarrow> int list \<Rightarrow> int list result" where
  "interference_loop ws dshard n rvidx [] = Inr rvidx"
| "interference_loop ws dshard n rvidx (gvidsample # rest) =
     rbind (check (gvidsample \<le> m_end ws) ''gvidsample <= m_end'') (\<lambda>_.
     rbind (check (gvidsample \<ge> m_start ws) ''gvidsample >= m_start'') (\<lambda>_.
     rbind (conflict_loop ws dshard n (length rvidx) gvidsample rvidx) (\<lambda>conflict.
     let rvidx = (if conflict then rvidx else rvidx @ [gvidsample]) in
     if length rvidx \<ge> n then Inr rvidx else interference_loop ws dshard n rvidx rest)))"

definition check_interference :: "wsamplerctx \<Rightarrow> int list \<Rightarrow> dshardctx \<Rightarrow> int list result" where
  "check_interference ws gidxsamples dshard =
     rbind (check (m_start ws mod 2 ^ 64 \<ge> int (ds_c_start dshard)) ''m_start >= dshard->m_range.c_start'') (\<lambda>_.
     rbind (check (m_end ws mod 2 ^ 64 \<le> int (ds_c_end dshard)) ''m_end <= dshard->m_range.c_end'') (\<lambda>_.
     rbind (check (ds_type dshard = cvspt) ''dshard->m_type == cvspt'') (\<lambda>_.
     case gidxsamples of
       [] \<Rightarrow> Inl (Undefined ''gidxsamples[0]'')
     | g # rest \<Rightarrow> interference_loop ws dshard (length gidxsamples) [g] rest)))"

end
