(* ===== verification/Strads_Sampler_Proofs.thy ===== *)
theory Strads_Sampler_Proofs
imports Strads_Sampler "HOL-Library.Sublist"
begin

text \<open>
  The sampler: its invariant, the equivalence of the selection sort with a stable sort, of the search with the shares of the
  tasks, and of the interference check with a greedy maximal choice.
\<close>

section \<open>Selection sort\<close>

text \<open>The first smallest key comes first in a stable sort.\<close>

lemma sort_key_first:
  assumes "\<And>x. x \<in> set a \<Longrightarrow> k p < k x" "\<And>x. x \<in> set b \<Longrightarrow> k p \<le> k x"
  shows "sort_key k (a @ p # b) = p # sort_key k (a @ b)"
proof (rule properties_for_sort_key)
  fix y
  have "filter (\<lambda>x. k y = k x) a = []" if "k y = k p" using assms(1) that by (fastforce simp: filter_empty_conv)
  then show "filter (\<lambda>x. k y = k x) (p # sort_key k (a @ b)) = filter (\<lambda>x. k y = k x) (a @ p # b)"
    using sort_key_stable [of k "k y" "a @ b"] by (auto simp: eq_commute [of "k y"])
qed (use assms in \<open>auto simp: less_imp_le\<close>)

lemma sort_key_cong:
  assumes "\<And>x. x \<in> set xs \<Longrightarrow> f x = g x"
  shows "sort_key f xs = sort_key g xs"
proof -
  have "insort_key f x ys = insort_key g x ys" if "x \<in> set xs" "set ys \<subseteq> set xs" for x ys
    using that assms by (induction ys) auto
  moreover have "foldr (insort_key f) zs [] = foldr (insort_key g) zs [] \<and> set (foldr (insort_key g) zs []) \<subseteq> set xs"
    if "set zs \<subseteq> set xs" for zs
    using that by (induction zs) (auto simp: calculation set_insort_key)
  ultimately show ?thesis by (simp add: sort_key_def)
qed

lemma sort_key_map: "sort_key f (map g xs) = map g (sort_key (\<lambda>x. f (g x)) xs)"
proof -
  have "insort_key f (g x) (map g ys) = map g (insort_key (\<lambda>x. f (g x)) x ys)" for x ys by (induction ys) auto
  then show ?thesis by (induction xs) (simp_all add: sort_key_def)
qed

text \<open>A scan finds the first of the largest entries above the bound it starts with.\<close>

lemma max_scan_spec:
  "case max_scan i mx pos ws of
     None \<Rightarrow> pos = None \<and> (\<forall>w \<in> set ws. w \<le> mx)
   | Some p \<Rightarrow> (pos = Some p \<and> (\<forall>w \<in> set ws. w \<le> mx)) \<or>
       (\<exists>a w b. ws = a @ w # b \<and> p = i + length a \<and> mx < w \<and> (\<forall>v \<in> set a. v < w) \<and> (\<forall>v \<in> set b. v \<le> w))"
proof (induction i mx pos ws rule: max_scan.induct)
  case (2 i mx pos w ws)
  show ?case
  proof (cases "w > mx")
    case True
    have S: "max_scan i mx pos (w # ws) = max_scan (i + 1) w (Some i) ws" using True by simp
    obtain p where p: "max_scan (i + 1) w (Some i) ws = Some p"
      using "2.IH"(1) [OF True] by (cases "max_scan (i + 1) w (Some i) ws") auto
    consider "p = i" "\<forall>v \<in> set ws. v \<le> w" | a u b where "ws = a @ u # b" "p = i + 1 + length a" "w < u" "\<forall>v \<in> set a. v < u" "\<forall>v \<in> set b. v \<le> u"
      using "2.IH"(1) [OF True] p by auto
    then show ?thesis
    proof cases
      case 1
      then show ?thesis using True p S by (auto intro!: exI [of _ "[]"])
    next
      case 2
      then have "w # ws = (w # a) @ u # b \<and> p = i + length (w # a) \<and> mx < u \<and> (\<forall>v \<in> set (w # a). v < u) \<and> (\<forall>v \<in> set b. v \<le> u)"
        using True by auto
      then show ?thesis unfolding S p option.case by blast
    qed
  next
    case False
    have S: "max_scan i mx pos (w # ws) = max_scan (i + 1) mx pos ws" using False by simp
    show ?thesis
    proof (cases "max_scan (i + 1) mx pos ws")
      case None
      then show ?thesis using "2.IH"(2) [OF False] False by (simp add: S)
    next
      case (Some p)
      consider "pos = Some p" "\<forall>v \<in> set ws. v \<le> mx" | a u b where "ws = a @ u # b" "p = i + 1 + length a" "mx < u" "\<forall>v \<in> set a. v < u" "\<forall>v \<in> set b. v \<le> u"
        using "2.IH"(2) [OF False] Some by auto
      then show ?thesis
      proof cases
        case 1
        then show ?thesis using Some S False by auto
      next
        case 2
        then have "w # ws = (w # a) @ u # b \<and> p = i + length (w # a) \<and> mx < u \<and> (\<forall>v \<in> set (w # a). v < u) \<and> (\<forall>v \<in> set b. v \<le> u)"
          using False by auto
        then show ?thesis unfolding S Some option.case by blast
      qed
    qed
  qed
qed (simp split: option.split)

text \<open>The entries that are not taken yet, in their order.\<close>

definition untaken :: "real list \<Rightarrow> nat list" where
  "untaken ws = filter (\<lambda>p. ws ! p > - 100000000) [0..<length ws]"

lemma upt_split: "p < n \<Longrightarrow> [0..<n] = [0..<p] @ p # [Suc p..<n]"
  using upt_add_eq_append [of 0 p "n - p"] by (simp add: upt_conv_Cons)

lemma select_loop_sort:
  "length (untaken ws) = n \<Longrightarrow>
   select_loop n sortspace ws = Inr (map ((!) sortspace) (sort_key (\<lambda>p. - (ws ! p)) (untaken ws)))"
proof (induction n sortspace ws rule: select_loop.induct)
  case (2 n sortspace ws)
  let ?low = "- 100000000 :: real" and ?key = "\<lambda>p. - (ws ! p)"
  have "\<exists>p. max_scan 0 ?low None ws = Some p"
  proof (rule ccontr)
    assume "\<nexists>p. max_scan 0 ?low None ws = Some p"
    then have "\<forall>w \<in> set ws. w \<le> ?low" using max_scan_spec [where i = 0 and mx = ?low and pos = None and ws = ws] by (cases "max_scan 0 ?low None ws") auto
    then have "untaken ws = []" by (simp add: untaken_def filter_empty_conv all_set_conv_all_nth leD)
    then show False using "2.prems" by simp
  qed
  then obtain p where p: "max_scan 0 ?low None ws = Some p" by blast
  then obtain a w b where w: "ws = a @ w # b" "p = length a" "?low < w" "\<forall>v \<in> set a. v < w" "\<forall>v \<in> set b. v \<le> w"
    using max_scan_spec [where i = 0 and mx = ?low and pos = None and ws = ws] by auto
  have pl: "p < length ws" "ws ! p = w" using w by auto
  define A where "A = filter (\<lambda>q. ws ! q > ?low) [0..<p]"
  define B where "B = filter (\<lambda>q. ws ! q > ?low) [Suc p..<length ws]"
  have u: "untaken ws = A @ p # B" using pl w(3) by (simp add: untaken_def upt_split [OF pl(1)] A_def B_def)
  have "filter (\<lambda>q. (ws[p := ?low]) ! q > ?low) [0..<p] = A" "filter (\<lambda>q. (ws[p := ?low]) ! q > ?low) [Suc p..<length ws] = B"
    unfolding A_def B_def by (auto intro!: filter_cong)
  then have u': "untaken (ws[p := ?low]) = A @ B" using pl by (simp add: untaken_def upt_split [OF pl(1)])
  have lt: "?key p < ?key q" if "q \<in> set A" for q
  proof -
    have "q < p" using that by (simp add: A_def)
    then have "ws ! q \<in> set a" using w(1,2) by (simp add: nth_append)
    then show ?thesis using w(4) pl(2) by simp
  qed
  have le: "?key p \<le> ?key q" if "q \<in> set B" for q
  proof -
    have "p < q" "q < length ws" using that by (auto simp: B_def)
    then have "ws ! q \<in> set b" using w(1,2) by (auto simp: nth_append nth_Cons' less_diff_conv)
    then show ?thesis using w(5) pl(2) by simp
  qed
  have "sort_key ?key (untaken ws) = p # sort_key ?key (A @ B)" unfolding u using lt le by (rule sort_key_first)
  also have "sort_key ?key (A @ B) = sort_key (\<lambda>q. - (ws[p := ?low] ! q)) (A @ B)"
    by (rule sort_key_cong) (auto simp: A_def B_def)
  finally show ?case using "2.IH" [OF p] "2.prems" u u' p by simp
qed (simp add: untaken_def)

lemma sort_samples_stable:
  assumes "\<forall>l \<in> set samples. l < length (m_weights ws)" "\<forall>w \<in> set (m_weights ws). 0 \<le> w"
  shows "sort_samples ws samples = Inr (sort_key (\<lambda>l. - (m_weights ws ! l)) samples)"
proof -
  let ?w = "\<lambda>l. m_weights ws ! l"
  define nz where "nz = filter (\<lambda>l. ?w l \<noteq> 0) samples"
  define zs where "zs = filter (\<lambda>l. ?w l = 0) samples"
  have pos: "0 \<le> ?w l" if "l \<in> set samples" for l using assms that by simp
  let ?k = "\<lambda>l. - ?w l"
  have "untaken (map ?w nz) = [0..<length nz]"
  proof -
    have "- 100000000 < ?w (nz ! q)" if "q < length nz" for q
    proof -
      have "nz ! q \<in> set samples" using nth_mem [OF that] by (simp add: nz_def)
      then show ?thesis using pos [of "nz ! q"] by simp
    qed
    then show ?thesis by (simp add: untaken_def filter_id_conv)
  qed
  then have "select_loop (length nz) nz (map ?w nz) = Inr (map ((!) nz) (sort_key (\<lambda>p. - (map ?w nz ! p)) [0..<length nz]))"
    using select_loop_sort [of "map ?w nz" "length nz" nz] by simp
  also have "sort_key (\<lambda>p. - (map ?w nz ! p)) [0..<length nz] = sort_key (\<lambda>p. ?k (nz ! p)) [0..<length nz]"
    by (rule sort_key_cong) simp
  also have "map ((!) nz) (sort_key (\<lambda>p. ?k (nz ! p)) [0..<length nz]) = sort_key ?k nz"
    using sort_key_map [of ?k "(!) nz" "[0..<length nz]"] by (simp add: map_nth)
  finally have sel: "select_loop (length nz) nz (map ?w nz) = Inr (sort_key ?k nz)" .
  have "sort_key ?k samples = sort_key ?k nz @ zs"
  proof (rule properties_for_sort_key)
    show "mset (sort_key ?k nz @ zs) = mset samples"
      using multiset_partition [of "mset samples" "\<lambda>l. ?w l = 0"] by (simp add: nz_def zs_def add.commute)
    show "filter (\<lambda>x. ?k y = ?k x) (sort_key ?k nz @ zs) = filter (\<lambda>x. ?k y = ?k x) samples" for y
    proof (cases "?w y = 0")
      case True
      have "filter (\<lambda>x. ?w x = 0) (sort_key ?k nz) = []" by (auto simp: filter_empty_conv nz_def)
      then show ?thesis using True by (simp add: zs_def eq_commute [of 0])
    next
      case False
      have "filter (\<lambda>x. ?k y = ?k x) zs = []" using False by (auto simp: filter_empty_conv zs_def)
      moreover have "filter (\<lambda>x. ?k y = ?k x) (sort_key ?k nz) = filter (\<lambda>x. ?k y = ?k x) nz"
        using sort_key_stable [of ?k "?k y" nz] by (simp add: eq_commute)
      moreover have "filter (\<lambda>x. ?k y = ?k x) nz = filter (\<lambda>x. ?k y = ?k x) samples"
        using False unfolding nz_def filter_filter by (intro filter_cong) auto
      ultimately show ?thesis by simp
    qed
    have "map ?k zs = replicate (length zs) 0" by (simp add: zs_def map_replicate_const [symmetric])
    then have "sorted (map ?k zs)" by simp
    then show "sorted (map ?k (sort_key ?k nz @ zs))"
      using pos unfolding map_append sorted_append by (auto simp: nz_def zs_def)
  qed
  then show ?thesis using assms(1) sel by (auto simp: sort_samples_def Let_def nz_def zs_def not_le)
qed

section \<open>The shares of the tasks\<close>

text \<open>Task j owns the points above the shares of the tasks before it, up to the end of its own.\<close>

definition share_top :: "real list \<Rightarrow> real \<Rightarrow> nat \<Rightarrow> real" where
  "share_top weights bw j = sum_list (take (Suc j) weights) + real (Suc j) * bw"

definition owns_point :: "real list \<Rightarrow> real \<Rightarrow> nat \<Rightarrow> real \<Rightarrow> bool" where
  "owns_point weights bw j p \<longleftrightarrow> (j = 0 \<or> share_top weights bw (j - 1) < p) \<and> p \<le> share_top weights bw j"

definition drawn :: "real list \<Rightarrow> real \<Rightarrow> real list \<Rightarrow> nat list" where
  "drawn weights bw ps = filter (\<lambda>j. list_ex (owns_point weights bw j) ps) [0..<length weights]"

lemma take_Suc_sum: "i < length ws \<Longrightarrow> sum_list (take (Suc i) ws) = sum_list (take i ws) + (ws ! i :: real)"
  by (simp add: take_Suc_conv_app_nth)

lemma share_top_mono:
  assumes "\<forall>w \<in> set weights. 0 \<le> w" "0 \<le> bw" "i \<le> j"
  shows "share_top weights bw i \<le> share_top weights bw j"
proof -
  have s: "sum_list (take (Suc i) weights) \<le> sum_list (take (Suc i + k) weights)" for k
  proof -
    have "0 \<le> sum_list (take k (drop (Suc i) weights))"
      using assms(1) by (intro sum_list_nonneg) (meson in_set_dropD in_set_takeD)
    then show ?thesis unfolding take_add sum_list.append by linarith
  qed
  have "real (Suc i) * bw \<le> real (Suc j) * bw" using assms(2,3) by (intro mult_right_mono) auto
  then show ?thesis using s [of "j - i"] assms(3) by (simp add: share_top_def)
qed

lemma dropWhile_sorted: "sorted ps \<Longrightarrow> dropWhile (\<lambda>p. p \<le> a) ps = filter (\<lambda>p. a < p) ps"
proof (induction ps)
  case (Cons p ps)
  show ?case
  proof (cases "p \<le> a")
    case False
    then have "filter (\<lambda>p. a < p) ps = ps" using Cons.prems by (auto simp: filter_id_conv)
    then show ?thesis using False by simp
  qed (use Cons in simp)
qed simp

lemma pick_loop_drawn:
  assumes "\<forall>w \<in> set weights. 0 \<le> w" "0 \<le> bw"
  shows "i \<le> length weights \<Longrightarrow> ps \<noteq> [] \<Longrightarrow> sorted ps \<Longrightarrow> (\<forall>p \<in> set ps. i = 0 \<or> share_top weights bw (i - 1) < p) \<Longrightarrow>
    int (length tmp) \<le> int i \<Longrightarrow> int (length weights) \<le> len \<Longrightarrow>
    pick_loop len bw i (sum_list (take i weights)) (drop i weights) ps tmp =
      Inr (tmp @ filter (\<lambda>j. list_ex (owns_point weights bw j) ps) [i..<length weights])"
proof (induction "length weights - i" arbitrary: i ps tmp)
  case (Suc n)
  let ?T = "share_top weights bw" and ?own = "\<lambda>ps j. list_ex (owns_point weights bw j) ps"
  have il: "i < length weights" using Suc.hyps(2) by simp
  have d: "drop i weights = weights ! i # drop (i + 1) weights" using il by (simp add: Cons_nth_drop_Suc)
  have t: "sum_list (take i weights) + weights ! i + real (i + 1) * bw = ?T i"
    using il by (simp add: share_top_def take_Suc_sum del: of_nat_Suc)
  have acc: "sum_list (take i weights) + weights ! i = sum_list (take (i + 1) weights)" using il by (simp add: take_Suc_sum)
  have up: "[i..<length weights] = i # [i + 1..<length weights]" using il by (simp add: upt_conv_Cons)
  obtain p rest where ps: "ps = p # rest" using Suc.prems(2) by (cases ps) auto
  have unf: "pick_loop len bw i (sum_list (take i weights)) (drop i weights) ps tmp =
      (if p \<le> ?T i then
         (if filter (\<lambda>p. ?T i < p) ps = [] then Inr (tmp @ [i])
          else pick_loop len bw (i + 1) (sum_list (take (i + 1) weights)) (drop (i + 1) weights) (filter (\<lambda>p. ?T i < p) ps) (tmp @ [i]))
       else pick_loop len bw (i + 1) (sum_list (take (i + 1) weights)) (drop (i + 1) weights) ps tmp)"
    using Suc.prems(3,5,6) il unfolding d pick_loop.simps unfolding t unfolding acc
    by (simp add: ps check_def rbind_def Let_def dropWhile_sorted del: dropWhile.simps filter.simps drop_Suc)
  have later: "?own (filter (\<lambda>p. ?T i < p) ps) j = ?own ps j" if "j \<in> set [i + 1..<length weights]" for j
  proof -
    have "?T i \<le> ?T (j - 1)" using that by (intro share_top_mono [OF assms]) auto
    then show ?thesis using that by (auto simp: list_ex_iff owns_point_def)
  qed
  show ?case
  proof (cases "p \<le> ?T i")
    case True
    then have "?own ps i" using Suc.prems(4) by (auto simp: ps owns_point_def)
    moreover have "filter (?own ps) [i + 1..<length weights] = filter (?own (filter (\<lambda>p. ?T i < p) ps)) [i + 1..<length weights]"
      using later by (intro filter_cong) auto
    ultimately have f: "filter (?own ps) [i..<length weights] = i # filter (?own (filter (\<lambda>p. ?T i < p) ps)) [i + 1..<length weights]"
      unfolding up by simp
    show ?thesis
    proof (cases "filter (\<lambda>p. ?T i < p) ps = []")
      case e: True
      then show ?thesis unfolding unf f using True by simp
    next
      case False
      have "pick_loop len bw (i + 1) (sum_list (take (i + 1) weights)) (drop (i + 1) weights) (filter (\<lambda>p. ?T i < p) ps) (tmp @ [i]) =
          Inr ((tmp @ [i]) @ filter (?own (filter (\<lambda>p. ?T i < p) ps)) [i + 1..<length weights])"
        using Suc.hyps(2) Suc.prems False by (intro Suc.hyps(1)) (auto intro: sorted_filter [of "\<lambda>x. x", simplified])
      then show ?thesis unfolding unf f using True False by simp
    qed
  next
    case False
    then have gt: "\<forall>q \<in> set ps. ?T i < q" using Suc.prems(3) ps by force
    then have "\<not> ?own ps i" by (auto simp: list_ex_iff owns_point_def)
    moreover have "pick_loop len bw (i + 1) (sum_list (take (i + 1) weights)) (drop (i + 1) weights) ps tmp =
        Inr (tmp @ filter (?own ps) [i + 1..<length weights])"
      using Suc.hyps(2) Suc.prems gt by (intro Suc.hyps(1)) auto
    ultimately show ?thesis unfolding unf up using False by simp
  qed
qed simp

text \<open>Every point that is not beyond the last share has one owner.\<close>

lemma point_owner:
  assumes "\<forall>w \<in> set weights. 0 \<le> w" "0 \<le> bw" "owns_point weights bw j p"
  shows "(LEAST k. p \<le> share_top weights bw k) = j"
proof (rule Least_equality)
  show "p \<le> share_top weights bw j" using assms(3) by (simp add: owns_point_def)
  show "j \<le> k" if "p \<le> share_top weights bw k" for k
  proof (rule ccontr)
    assume "\<not> j \<le> k"
    then have "share_top weights bw k \<le> share_top weights bw (j - 1)" using assms by (intro share_top_mono) auto
    then show False using \<open>\<not> j \<le> k\<close> assms(3) that by (auto simp: owns_point_def)
  qed
qed

lemma drawn_distinct: "distinct (drawn weights bw ps)"
  by (simp add: drawn_def)

lemma drawn_length:
  assumes "\<forall>w \<in> set weights. 0 \<le> w" "0 \<le> bw"
  shows "length (drawn weights bw ps) \<le> length ps"
proof -
  have "set (drawn weights bw ps) \<subseteq> (\<lambda>p. LEAST k. p \<le> share_top weights bw k) ` set ps"
  proof
    fix j assume "j \<in> set (drawn weights bw ps)"
    then obtain p where "p \<in> set ps" "owns_point weights bw j p" by (auto simp: drawn_def list_ex_iff)
    then show "j \<in> (\<lambda>p. LEAST k. p \<le> share_top weights bw k) ` set ps" using point_owner [OF assms, of j p] by (intro image_eqI) auto
  qed
  then have "card (set (drawn weights bw ps)) \<le> card (set ps)" by (intro surj_card_le) auto
  also have "\<dots> \<le> length ps" by (rule card_length)
  finally show ?thesis using distinct_card [of "drawn weights bw ps"] drawn_distinct [of weights bw ps] by simp
qed

lemma drawn_nonempty:
  assumes "p \<in> set ps" "p \<le> share_top weights bw j" "j < length weights"
  shows "drawn weights bw ps \<noteq> []"
proof -
  let ?k = "LEAST k. p \<le> share_top weights bw k"
  have "p \<le> share_top weights bw ?k" using assms(2) by (rule LeastI)
  moreover have "?k \<le> j" using assms(2) by (rule Least_le)
  moreover have "\<not> p \<le> share_top weights bw (?k - 1)" if "?k \<noteq> 0" using that by (intro not_less_Least) simp
  ultimately have "owns_point weights bw ?k p" "?k < length weights" using assms(3) by (auto simp: owns_point_def not_le)
  then show ?thesis using assms(1) by (auto simp: drawn_def filter_empty_conv list_ex_iff)
qed

section \<open>The invariant of the sampler\<close>

definition sampler_ok :: "wsamplerctx \<Rightarrow> bool" where
  "sampler_ok ws \<longleftrightarrow> 0 \<le> m_start ws \<and> m_start ws < m_end ws \<and> m_end ws < 2 ^ 63 \<and> m_len ws = m_end ws - m_start ws + 1 \<and>
     length (m_weights ws) = nat (m_len ws) \<and> list_all (\<lambda>w. 0 \<le> w) (m_weights ws) \<and>
     m_totalw ws = sum_list (m_weights ws) \<and> m_nzelement ws = int (length (filter (\<lambda>w. w \<noteq> 0) (m_weights ws)))"

lemma new_sampler_ok:
  assumes "new_wsamplerctx gid lid start end1 bw maxset thr = Inr ws" "0 \<le> start" "end1 < 2 ^ 63"
  shows "sampler_ok ws"
proof -
  have "start < end1" and ws: "ws = \<lparr>m_gid = gid, m_lid = lid, m_start = start, m_end = end1, m_len = end1 - start + 1, m_bw = bw,
      m_totalw = 0, m_maxset = maxset, m_weights = replicate (nat (end1 - start + 1)) 0, m_infthreshold = thr, m_nzelement = 0,
      m_restart_flag = False, m_restart_cnt = 0\<rparr>"
    using assms(1) by (auto simp: new_wsamplerctx_def check_def rbind_def split: if_splits)
  then show ?thesis using assms(2,3) by (simp add: sampler_ok_def list_all_iff sum_list_replicate)
qed

text \<open>What an update leaves alone, and how it changes the weight of a task.\<close>

definition same_frame :: "wsamplerctx \<Rightarrow> wsamplerctx \<Rightarrow> bool" where
  "same_frame ws ws' \<longleftrightarrow> m_gid ws' = m_gid ws \<and> m_start ws' = m_start ws \<and> m_end ws' = m_end ws \<and> m_len ws' = m_len ws \<and> m_maxset ws' = m_maxset ws \<and>
     m_infthreshold ws' = m_infthreshold ws \<and> m_restart_flag ws' = m_restart_flag ws \<and> m_restart_cnt ws' = m_restart_cnt ws"

definition task_weight :: "wsamplerctx \<Rightarrow> int \<Rightarrow> real" where
  "task_weight ws g = m_weights ws ! nat (g - m_start ws)"

definition new_weight :: "(int \<times> real) list \<Rightarrow> wsamplerctx \<Rightarrow> int \<Rightarrow> real" where
  "new_weight es ws g = (case map_of (rev es) g of Some w \<Rightarrow> \<bar>w\<bar> | None \<Rightarrow> task_weight ws g)"

lemma update_entry_ok:
  assumes "length (m_weights ws) = nat (m_len ws)" "m_len ws = m_end ws - m_start ws + 1" "m_start ws \<le> g" "g \<le> m_end ws"
  shows "update_entry ws (g, w) = Inr (ws\<lparr>m_weights := (m_weights ws)[nat (g - m_start ws) := \<bar>w\<bar>],
    m_totalw := m_totalw ws + (\<bar>w\<bar> - \<bar>m_weights ws ! nat (g - m_start ws)\<bar>)\<rparr>)"
  using assms by (simp add: update_entry_def check_def rbind_def Let_def)

lemma update_entries:
  "length (m_weights ws) = nat (m_len ws) \<Longrightarrow> m_len ws = m_end ws - m_start ws + 1 \<Longrightarrow>
   (\<forall>g \<in> fst ` set es. m_start ws \<le> g \<and> g \<le> m_end ws) \<Longrightarrow> list_all (\<lambda>w. 0 \<le> w) (m_weights ws) \<Longrightarrow>
   \<exists>ws'. foldM update_entry ws es = Inr ws' \<and> same_frame ws ws' \<and> length (m_weights ws') = nat (m_len ws) \<and>
     list_all (\<lambda>w. 0 \<le> w) (m_weights ws') \<and> (\<forall>g. m_start ws \<le> g \<and> g \<le> m_end ws \<longrightarrow> task_weight ws' g = new_weight es ws g)"
proof (induction es arbitrary: ws)
  case Nil
  then show ?case by (simp add: same_frame_def new_weight_def)
next
  case (Cons e es)
  obtain h w where e: "e = (h, w)" by (cases e)
  define ws1 where "ws1 = ws\<lparr>m_weights := (m_weights ws)[nat (h - m_start ws) := \<bar>w\<bar>],
    m_totalw := m_totalw ws + (\<bar>w\<bar> - \<bar>m_weights ws ! nat (h - m_start ws)\<bar>)\<rparr>"
  have h: "m_start ws \<le> h" "h \<le> m_end ws" using Cons.prems(3) by (auto simp: e)
  have u: "update_entry ws e = Inr ws1" unfolding e ws1_def using Cons.prems h by (intro update_entry_ok) auto
  have "list_all (\<lambda>w. 0 \<le> w) (m_weights ws1)"
    using Cons.prems(4) set_update_subset_insert [of "m_weights ws"] by (fastforce simp: ws1_def list_all_iff)
  then obtain ws' where ws': "foldM update_entry ws1 es = Inr ws'" "same_frame ws1 ws'" "length (m_weights ws') = nat (m_len ws1)"
     "list_all (\<lambda>w. 0 \<le> w) (m_weights ws')" "\<forall>g. m_start ws1 \<le> g \<and> g \<le> m_end ws1 \<longrightarrow> task_weight ws' g = new_weight es ws1 g"
    using Cons.IH [of ws1] Cons.prems by (auto simp: ws1_def)
  have "task_weight ws1 g = (if g = h then \<bar>w\<bar> else task_weight ws g)" if "m_start ws \<le> g" "g \<le> m_end ws" for g
    using that h Cons.prems(1,2) by (simp add: task_weight_def ws1_def nth_list_update nat_eq_iff2)
  then have "task_weight ws' g = new_weight (e # es) ws g" if "m_start ws \<le> g" "g \<le> m_end ws" for g
    using ws'(5) that by (auto simp: new_weight_def e ws1_def map_add_def split: option.splits)
  then show ?case using u ws' by (auto simp: rbind_def same_frame_def ws1_def)
qed

lemma update_weight_ok:
  assumes "sampler_ok ws" "length es \<le> mx" "int (length es) \<le> m_len ws" "\<forall>g \<in> fst ` set es. m_start ws \<le> g \<and> g \<le> m_end ws"
  shows "\<exists>ws'. update_weight ws \<lparr>wc_entries = es, wc_maxlistsize = mx\<rparr> = Inr (int (length es), ws') \<and> sampler_ok ws' \<and> same_frame ws ws' \<and>
    (\<forall>g. m_start ws \<le> g \<and> g \<le> m_end ws \<longrightarrow> task_weight ws' g = new_weight es ws g)"
proof -
  obtain ws1 where ws1: "foldM update_entry ws es = Inr ws1" "same_frame ws ws1" "length (m_weights ws1) = nat (m_len ws)"
     "list_all (\<lambda>w. 0 \<le> w) (m_weights ws1)" "\<forall>g. m_start ws \<le> g \<and> g \<le> m_end ws \<longrightarrow> task_weight ws1 g = new_weight es ws g"
    using update_entries [of ws es] assms by (auto simp: sampler_ok_def)
  show ?thesis using ws1 assms fold_add [of "\<lambda>x. x" "m_weights ws1" 0]
    by (auto simp: update_weight_def check_def rbind_def sampler_ok_def same_frame_def task_weight_def)
qed

section \<open>What a sampling draws\<close>

lemma base_weight_pos:
  assumes "sampler_ok ws"
  shows "0 < base_weight ws"
proof -
  have "0 \<le> m_totalw ws" using assms by (auto simp: sampler_ok_def list_all_iff intro: sum_list_nonneg)
  then show ?thesis by (auto simp: base_weight_def Let_def)
qed

text \<open>The tasks in the order in which a sampling returns them.\<close>

definition sampled :: "wsamplerctx \<Rightarrow> real \<Rightarrow> real list \<Rightarrow> int list" where
  "sampled ws bw ps = map (\<lambda>l. int l + m_start ws) (sort_key (\<lambda>l. - (m_weights ws ! l)) (drawn (m_weights ws) bw ps))"

definition random_points :: "(nat \<Rightarrow> real) \<Rightarrow> wsamplerctx \<Rightarrow> nat \<Rightarrow> real list" where
  "random_points rnd ws n = map (\<lambda>i. rnd i * (m_totalw ws + base_weight ws * real_of_int (m_len ws))) [0..<n]"

lemma sampler_range_nonneg: "sampler_ok ws \<Longrightarrow> 0 \<le> m_totalw ws + base_weight ws * real_of_int (m_len ws)"
  using base_weight_pos [of ws] by (auto simp: sampler_ok_def list_all_iff intro!: add_nonneg_nonneg sum_list_nonneg)

lemma do_sampling_sampled:
  assumes "sampler_ok ws" "0 < setsize" "setsize < m_len ws" "setsize \<le> m_maxset ws" "\<And>i. 0 \<le> rnd i"
  shows "do_sampling rnd ws setsize = Inr (sampled ws (base_weight ws) (random_points rnd ws (nat setsize)), ws\<lparr>m_bw := base_weight ws\<rparr>)"
proof -
  let ?W = "m_weights ws" and ?bw = "base_weight ws" and ?ps = "random_points rnd ws (nat setsize)"
  have W: "\<forall>w \<in> set ?W. 0 \<le> w" using assms(1) by (simp add: sampler_ok_def list_all_iff)
  have b: "base_weight (ws\<lparr>m_bw := x\<rparr>) = base_weight ws" for x by (simp add: base_weight_def)
  have "map abs ?ps = ?ps" using assms(5) sampler_range_nonneg [OF assms(1)] by (auto simp: random_points_def abs_mult)
  then have pts: "sort_rndpoints (map (\<lambda>i. util_get_double_random (rnd i) 0 (m_totalw ws + ?bw * real_of_int (m_len ws))) [0..<nat setsize]) = sort ?ps"
    by (simp only: sort_rndpoints_def util_get_double_random_def random_points_def add_0 diff_zero)
  have ne: "sort ?ps \<noteq> []" using assms(2) by (simp add: random_points_def flip: set_empty)
  have "list_ex f (sort ?ps) = list_ex f ?ps" for f by (simp add: list_ex_iff)
  then have "pick_loop (m_len ws) ?bw 0 0 ?W (sort ?ps) [] = Inr (drawn ?W ?bw ?ps)"
    using pick_loop_drawn [OF W, of ?bw 0 "sort ?ps" "[]" "m_len ws"] base_weight_pos [OF assms(1)] ne assms(1)
    by (simp add: drawn_def sampler_ok_def)
  moreover have "sort_samples (ws\<lparr>m_bw := ?bw\<rparr>) (drawn ?W ?bw ?ps) = Inr (sort_key (\<lambda>l. - (?W ! l)) (drawn ?W ?bw ?ps))"
    using sort_samples_stable [of "drawn ?W ?bw ?ps" "ws\<lparr>m_bw := ?bw\<rparr>"] W by (simp add: drawn_def)
  ultimately show ?thesis using assms(3,4) pts by (simp add: do_sampling_def check_def rbind_def Let_def sampled_def)
qed

lemma share_top_last:
  assumes "sampler_ok ws"
  shows "share_top (m_weights ws) bw (length (m_weights ws) - 1) = m_totalw ws + bw * real_of_int (m_len ws)" "0 < length (m_weights ws)"
proof -
  show l: "0 < length (m_weights ws)" using assms by (simp add: sampler_ok_def)
  have "real (length (m_weights ws)) = real_of_int (m_len ws)" using assms by (simp add: sampler_ok_def)
  then show "share_top (m_weights ws) bw (length (m_weights ws) - 1) = m_totalw ws + bw * real_of_int (m_len ws)"
    using l assms by (simp add: share_top_def sampler_ok_def)
qed

lemma sampled_props:
  assumes "sampler_ok ws" "0 < n" "\<And>i. 0 \<le> rnd i \<and> rnd i \<le> 1"
  defines "ids \<equiv> sampled ws (base_weight ws) (random_points rnd ws n)"
  shows "ids \<noteq> []" "length ids \<le> n" "distinct ids" "\<forall>g \<in> set ids. m_start ws \<le> g \<and> g \<le> m_end ws"
    "sorted_wrt (\<lambda>g h. task_weight ws h \<le> task_weight ws g) ids"
proof -
  let ?W = "m_weights ws" and ?bw = "base_weight ws" and ?ps = "random_points rnd ws n"
  have W: "\<forall>w \<in> set ?W. 0 \<le> w" using assms(1) by (simp add: sampler_ok_def list_all_iff)
  note bw = base_weight_pos [OF assms(1)]
  have "hd ?ps \<in> set ?ps" using assms(2) by (intro list.set_sel(1)) (simp add: random_points_def)
  moreover have "p \<le> share_top ?W ?bw (length ?W - 1)" if "p \<in> set ?ps" for p
  proof -
    have "\<exists>i. p = rnd i * (m_totalw ws + ?bw * real_of_int (m_len ws))" using that unfolding random_points_def by auto
    then obtain i where "p = rnd i * (m_totalw ws + ?bw * real_of_int (m_len ws))" ..
    then show ?thesis unfolding share_top_last(1) [OF assms(1)]
      using assms(3) [of i] sampler_range_nonneg [OF assms(1)] by (simp add: mult_left_le_one_le)
  qed
  ultimately have ne: "drawn ?W ?bw ?ps \<noteq> []" using share_top_last(2) [OF assms(1)] by (intro drawn_nonempty [of "hd ?ps"]) auto
  have "sort_key (\<lambda>l. - (?W ! l)) (drawn ?W ?bw ?ps) \<noteq> []" using ne by (metis set_empty set_sort)
  then show "ids \<noteq> []" by (simp add: ids_def sampled_def)
  show "length ids \<le> n"
    using drawn_length [OF W, of ?bw ?ps] bw by (simp add: ids_def sampled_def random_points_def)
  show "distinct ids" by (simp add: ids_def sampled_def distinct_map drawn_distinct inj_on_def)
  show "\<forall>g \<in> set ids. m_start ws \<le> g \<and> g \<le> m_end ws"
    using assms(1) by (auto simp: ids_def sampled_def drawn_def sampler_ok_def)
  have "sorted (map (\<lambda>l. - (?W ! l)) (sort_key (\<lambda>l. - (?W ! l)) (drawn ?W ?bw ?ps)))" by simp
  then have "sorted_wrt (\<lambda>k l. ?W ! l \<le> ?W ! k) (sort_key (\<lambda>l. - (?W ! l)) (drawn ?W ?bw ?ps))" by (simp add: sorted_wrt_map)
  then show "sorted_wrt (\<lambda>g h. task_weight ws h \<le> task_weight ws g) ids" by (simp add: ids_def sampled_def sorted_wrt_map task_weight_def)
qed

section \<open>Interference\<close>

definition column_entry :: "dshardctx \<Rightarrow> int \<Rightarrow> nat \<Rightarrow> real" where
  "column_entry dshard g = entry (vm_vecs (ds_cm_vmat dshard) ! nat g)"

text \<open>The degree at which two tasks interfere; after the second restart, tasks without weight do not.\<close>

definition degree :: "wsamplerctx \<Rightarrow> dshardctx \<Rightarrow> int \<Rightarrow> int \<Rightarrow> real" where
  "degree ws dshard g h =
     (if m_restart_flag ws \<and> (task_weight ws g = 0 \<or> task_weight ws h = 0) then 0
      else pearson (ds_rows dshard) (column_entry dshard g) (column_entry dshard h))"

definition interferes :: "wsamplerctx \<Rightarrow> dshardctx \<Rightarrow> int \<Rightarrow> int \<Rightarrow> bool" where
  "interferes ws dshard g h \<longleftrightarrow> m_infthreshold ws \<le> degree ws dshard g h"

text \<open>The shard of the scheduler holds a usable column for every task of the thread.\<close>

definition column_ok :: "dshardctx \<Rightarrow> int \<Rightarrow> bool" where
  "column_ok dshard g \<longleftrightarrow> nat g < length (vm_vecs (ds_cm_vmat dshard)) \<and>
     (let v = vm_vecs (ds_cm_vmat dshard) ! nat g in
      col_ok (ds_rows dshard) v \<and> sv_idx v \<noteq> [] \<and> \<not> constant_column (ds_rows dshard) (entry v))"

definition shard_ok :: "wsamplerctx \<Rightarrow> dshardctx \<Rightarrow> bool" where
  "shard_ok ws dshard \<longleftrightarrow> ds_type dshard = cvspt \<and> int (ds_c_start dshard) \<le> m_start ws \<and> m_end ws \<le> int (ds_c_end dshard) \<and>
     list_all (column_ok dshard) [m_start ws..m_end ws]"

definition in_range :: "wsamplerctx \<Rightarrow> int \<Rightarrow> bool" where
  "in_range ws g \<longleftrightarrow> m_start ws \<le> g \<and> g \<le> m_end ws"

lemma infdegree_ok:
  assumes "sampler_ok ws" "shard_ok ws dshard" "in_range ws g" "in_range ws h"
  shows "infdegree ws dshard g h = Inr (Some (degree ws dshard g h))"
proof -
  have w: "weight_at ws (x - m_start ws) = Inr (task_weight ws x)" if "in_range ws x" for x
    using assms(1) that by (simp add: weight_at_def task_weight_def sampler_ok_def in_range_def)
  have c: "column_ok dshard x" "x mod 2 ^ 64 = x" if "in_range ws x" for x
    using assms(1,2) that by (auto simp: shard_ok_def in_range_def list_all_iff sampler_ok_def)
  have v: "vm_vec (nat (x mod 2 ^ 64)) (ds_cm_vmat dshard) = Inr (vm_vecs (ds_cm_vmat dshard) ! nat x)" if "in_range ws x" for x
    using c [OF that] by (simp add: vm_vec_def column_ok_def)
  show ?thesis
    using c [OF assms(3)] c [OF assms(4)] getcorr_is_pearson_eq [of "ds_rows dshard" "vm_vecs (ds_cm_vmat dshard) ! nat g" "vm_vecs (ds_cm_vmat dshard) ! nat h"]
    unfolding infdegree_def w [OF assms(3)] w [OF assms(4)] v [OF assms(3)] v [OF assms(4)]
    by (auto simp: rbind_def degree_def column_ok_def Let_def column_entry_def)
qed

lemma conflict_loop_ok:
  assumes "sampler_ok ws" "shard_ok ws dshard" "in_range ws g" "r < n"
  shows "list_all (in_range ws) rest \<Longrightarrow> conflict_loop ws dshard n r g rest = Inr (list_ex (interferes ws dshard g) rest)"
proof (induction rest)
  case (Cons h rest)
  then have "infdegree ws dshard g h = Inr (Some (degree ws dshard g h))" using assms by (intro infdegree_ok) auto
  then show ?case using Cons assms(4) by (simp add: check_def rbind_def interferes_def in_range_def)
qed simp

text \<open>The greedy choice that the two loops make.\<close>

fun greedy :: "wsamplerctx \<Rightarrow> dshardctx \<Rightarrow> int list \<Rightarrow> int list \<Rightarrow> int list" where
  "greedy ws dshard kept [] = kept"
| "greedy ws dshard kept (g # rest) =
     greedy ws dshard (if list_ex (interferes ws dshard g) kept then kept else kept @ [g]) rest"

lemma interference_loop_greedy:
  assumes "sampler_ok ws" "shard_ok ws dshard"
  shows "list_all (in_range ws) (kept @ rest) \<Longrightarrow> length kept + length rest \<le> n \<Longrightarrow>
    interference_loop ws dshard n kept rest = Inr (greedy ws dshard kept rest)"
proof (induction rest arbitrary: kept)
  case (Cons g rest)
  let ?k = "if list_ex (interferes ws dshard g) kept then kept else kept @ [g]"
  have c: "conflict_loop ws dshard n (length kept) g kept = Inr (list_ex (interferes ws dshard g) kept)"
    using Cons.prems by (intro conflict_loop_ok [OF assms]) auto
  have "interference_loop ws dshard n ?k rest = Inr (greedy ws dshard ?k rest)" using Cons.prems by (intro Cons.IH) auto
  moreover have "rest = []" if "n \<le> length ?k"
  proof -
    have "length ?k + length rest \<le> n \<and> (length ?k = n \<longrightarrow> length rest = 0)" "length kept < n" using Cons.prems(2) by auto
    then show ?thesis using that by auto
  qed
  ultimately show ?case using Cons.prems(1) by (auto simp: c check_def rbind_def in_range_def Let_def split: if_splits)
qed simp

lemma greedy_extends: "\<exists>ext. greedy ws dshard kept rest = kept @ ext \<and> subseq ext rest"
proof (induction rest arbitrary: kept)
  case (Cons g rest)
  obtain e1 where "greedy ws dshard kept rest = kept @ e1 \<and> subseq e1 rest" using Cons by blast
  moreover obtain e2 where "greedy ws dshard (kept @ [g]) rest = (kept @ [g]) @ e2 \<and> subseq e2 rest" using Cons by blast
  ultimately show ?case by (auto intro: subseq_Cons')
qed simp

lemma greedy_independent:
  "sorted_wrt (\<lambda>h g. \<not> interferes ws dshard g h) kept \<Longrightarrow> sorted_wrt (\<lambda>h g. \<not> interferes ws dshard g h) (greedy ws dshard kept rest)"
  by (induction rest arbitrary: kept) (auto simp: sorted_wrt_append list_ex_iff)

lemma greedy_maximal:
  "g \<in> set rest \<Longrightarrow> g \<notin> set (greedy ws dshard kept rest) \<Longrightarrow> list_ex (interferes ws dshard g) (greedy ws dshard kept rest)"
proof (induction rest arbitrary: kept)
  case (Cons x rest)
  show ?case
  proof (cases "g = x")
    case True
    obtain e where "greedy ws dshard (if list_ex (interferes ws dshard g) kept then kept else kept @ [g]) rest =
        (if list_ex (interferes ws dshard g) kept then kept else kept @ [g]) @ e" using greedy_extends by blast
    then show ?thesis using Cons.prems True by (auto split: if_splits)
  qed (use Cons in auto)
qed simp

text \<open>A phase: tasks of the thread, heaviest first, no two of which interfere; every task that was drawn and left out interferes with one that stays.\<close>

definition is_phase :: "wsamplerctx \<Rightarrow> dshardctx \<Rightarrow> int list \<Rightarrow> int list \<Rightarrow> bool" where
  "is_phase ws dshard ids phase \<longleftrightarrow> phase \<noteq> [] \<and> hd phase = hd ids \<and> subseq phase ids \<and>
     sorted_wrt (\<lambda>h g. degree ws dshard g h < m_infthreshold ws) phase \<and>
     list_all (\<lambda>g. g \<in> set phase \<or> list_ex (\<lambda>h. m_infthreshold ws \<le> degree ws dshard g h) phase) ids"

lemma check_interference_phase:
  assumes "sampler_ok ws" "shard_ok ws dshard" "ids \<noteq> []" "list_all (in_range ws) ids"
  shows "\<exists>phase. check_interference ws ids dshard = Inr phase \<and> is_phase ws dshard ids phase"
proof -
  obtain g rest where ids: "ids = g # rest" using assms(3) by (cases ids) auto
  let ?p = "greedy ws dshard [g] rest"
  have "m_start ws mod 2 ^ 64 = m_start ws" "m_end ws mod 2 ^ 64 = m_end ws" using assms(1) by (auto simp: sampler_ok_def)
  moreover have "interference_loop ws dshard (length ids) [g] rest = Inr ?p"
    using assms(4) by (intro interference_loop_greedy [OF assms(1,2)]) (auto simp: ids)
  ultimately have "check_interference ws ids dshard = Inr ?p"
    using assms(2) by (simp add: check_interference_def check_def rbind_def shard_ok_def ids)
  moreover have "is_phase ws dshard ids ?p"
  proof -
    obtain e where "?p = [g] @ e" "subseq e rest" using greedy_extends by blast
    moreover have "sorted_wrt (\<lambda>h g. \<not> interferes ws dshard g h) ?p" by (intro greedy_independent) simp
    moreover have "list_ex (interferes ws dshard x) ?p" if "x \<in> set rest" "x \<notin> set ?p" for x using that by (rule greedy_maximal)
    ultimately show ?thesis by (auto simp: is_phase_def ids interferes_def not_le list_all_iff list_ex_iff)
  qed
  ultimately show ?thesis by blast
qed

end
