(* ===== verification/Strads_Thread.thy ===== *)
theory Strads_Thread
imports Strads_Sampler_Proofs
begin

text \<open>
  The scheduler threads of Strads: their queues (class \<open>scheduler_threadctx\<close>, src/strads/scheduler/scheduler.hpp) and the commands
  they serve (\<open>scheduler_thread\<close>, scheduler.cpp).  The interference check of the application (\<open>handler->check_interference\<close>)
  is an argument; what a thread that waits for a command does is left out, and the value None says that it waits.
\<close>

section \<open>Commands\<close>

datatype samplingcmd_type = m_weight_update | m_init_weight_update | m_make_phase | m_bw_change | m_restart_weight_update

record sampling_cmd =
  sc_type :: samplingcmd_type
  sc_winfo :: weight_change
  sc_samplergid :: int

text \<open>The constructor gets the number of entries, and its callers fill all of them.\<close>

definition new_sampling_cmd :: "samplingcmd_type \<Rightarrow> (int \<times> real) list \<Rightarrow> int \<Rightarrow> sampling_cmd" where
  "new_sampling_cmd type entries samplergid =
     \<lparr>sc_type = type, sc_winfo = \<lparr>wc_entries = entries, wc_maxlistsize = length entries\<rparr>, sc_samplergid = samplergid\<rparr>"

section \<open>Queues\<close>

record scheduler_threadctx =
  st_wsampler :: wsamplerctx
  st_rank :: int
  st_scheduler_mid :: int
  st_scheduler_thrdgid :: int
  st_task_start :: int
  st_task_end :: int
  st_inq :: "sampling_cmd list"
  st_outq :: "sampling_cmd list"

definition new_scheduler_threadctx ::
  "int \<Rightarrow> int \<Rightarrow> int \<Rightarrow> int \<Rightarrow> int \<Rightarrow> int \<Rightarrow> real \<Rightarrow> int \<Rightarrow> real \<Rightarrow> scheduler_threadctx result" where
  "new_scheduler_threadctx rank schedulermid lid threadid task_start task_end bw maxset infthreshold =
     rbind (new_wsamplerctx threadid lid task_start task_end bw maxset infthreshold) (\<lambda>ws.
     Inr \<lparr>st_wsampler = ws, st_rank = rank, st_scheduler_mid = schedulermid, st_scheduler_thrdgid = threadid,
          st_task_start = task_start, st_task_end = task_end, st_inq = [], st_outq = []\<rparr>)"

definition put_entry_inq :: "sampling_cmd \<Rightarrow> scheduler_threadctx \<Rightarrow> scheduler_threadctx" where
  "put_entry_inq cmd st = st\<lparr>st_inq := st_inq st @ [cmd]\<rparr>"

definition get_entry_inq_blocking :: "scheduler_threadctx \<Rightarrow> (sampling_cmd \<times> scheduler_threadctx) option" where
  "get_entry_inq_blocking st = (case st_inq st of [] \<Rightarrow> None | cmd # q \<Rightarrow> Some (cmd, st\<lparr>st_inq := q\<rparr>))"

definition put_entry_outq :: "sampling_cmd \<Rightarrow> scheduler_threadctx \<Rightarrow> scheduler_threadctx" where
  "put_entry_outq cmd st = st\<lparr>st_outq := st_outq st @ [cmd]\<rparr>"

definition get_entry_outq :: "scheduler_threadctx \<Rightarrow> sampling_cmd option \<times> scheduler_threadctx" where
  "get_entry_outq st = (case st_outq st of [] \<Rightarrow> (None, st) | cmd # q \<Rightarrow> (Some cmd, st\<lparr>st_outq := q\<rparr>))"

text \<open>Both queues keep the order of their entries; the contract is stated once.\<close>

locale fifo_queue =
  fixes items :: "'q \<Rightarrow> 'a list" and put :: "'a \<Rightarrow> 'q \<Rightarrow> 'q" and get :: "'q \<Rightarrow> ('a \<times> 'q) option"
  assumes items_put: "items (put x q) = items q @ [x]"
    and get_empty: "items q = [] \<Longrightarrow> get q = None"
    and get_front: "items q = x # xs \<Longrightarrow> \<exists>q'. get q = Some (x, q') \<and> items q' = xs"

fun get_many :: "('q \<Rightarrow> ('a \<times> 'q) option) \<Rightarrow> nat \<Rightarrow> 'q \<Rightarrow> 'a list \<times> 'q" where
  "get_many get 0 q = ([], q)"
| "get_many get (Suc n) q = (case get q of None \<Rightarrow> ([], q) | Some (x, q) \<Rightarrow> (case get_many get n q of (xs, q) \<Rightarrow> (x # xs, q)))"

context fifo_queue
begin

lemma items_puts: "items (fold put xs q) = items q @ xs"
  by (induction xs arbitrary: q) (simp_all add: items_put)

lemma gets_in_order: "items q = xs @ ys \<Longrightarrow> \<exists>q'. get_many get (length xs) q = (xs, q') \<and> items q' = ys"
proof (induction xs arbitrary: q)
  case (Cons x xs)
  then obtain q1 where "get q = Some (x, q1)" "items q1 = xs @ ys" using get_front by force
  with Cons.IH show ?case by force
qed simp

lemma puts_gets: "items q = [] \<Longrightarrow> \<exists>q'. get_many get (length xs) (fold put xs q) = (xs, q') \<and> items q' = []"
  using gets_in_order [of "fold put xs q" xs "[]"] by (simp add: items_puts)

end

definition next_outq :: "scheduler_threadctx \<Rightarrow> (sampling_cmd \<times> scheduler_threadctx) option" where
  "next_outq st = (case get_entry_outq st of (None, _) \<Rightarrow> None | (Some cmd, st) \<Rightarrow> Some (cmd, st))"

interpretation inq: fifo_queue st_inq put_entry_inq get_entry_inq_blocking
  by unfold_locales (auto simp: put_entry_inq_def get_entry_inq_blocking_def)

interpretation outq: fifo_queue st_outq put_entry_outq next_outq
  by unfold_locales (auto simp: put_entry_outq_def get_entry_outq_def next_outq_def)

text \<open>A thread serves the commands in the order in which the machine hands them over, and the machine gets its phases in the order in which it makes them.\<close>

lemma commands_in_order: "st_inq st = [] \<Longrightarrow> \<exists>st'. get_many get_entry_inq_blocking (length cmds) (fold put_entry_inq cmds st) = (cmds, st') \<and> st_inq st' = []"
  by (rule inq.puts_gets)

lemma phases_in_order: "st_outq st = [] \<Longrightarrow> \<exists>st'. get_many next_outq (length cmds) (fold put_entry_outq cmds st) = (cmds, st') \<and> st_outq st' = []"
  by (rule outq.puts_gets)

section \<open>The thread\<close>

text \<open>The message that carries a phase; INVALID_DOUBLE fills its weights.\<close>

definition phase_cmd :: "wsamplerctx \<Rightarrow> int list \<Rightarrow> sampling_cmd" where
  "phase_cmd ws phase = new_sampling_cmd m_make_phase (map (\<lambda>g. (g, - 100000000)) phase) (m_gid ws)"

text \<open>Initial and restart commands must cover the range of the thread.\<close>

definition check_cover :: "wsamplerctx \<Rightarrow> weight_change \<Rightarrow> unit result" where
  "check_cover ws winfo =
     (if wc_entries winfo = [] then Inl (Undefined ''gidxlist[0]'')
      else rbind (check (fst (hd (wc_entries winfo)) = m_start ws) ''gidxlist[0] == m_start'') (\<lambda>_.
           check (fst (last (wc_entries winfo)) = m_end ws) ''gidxlist[size-1] == m_end''))"

definition on_init_weight_update ::
  "(int list \<Rightarrow> dshardctx \<Rightarrow> int \<Rightarrow> real \<Rightarrow> int list) \<Rightarrow> (nat \<Rightarrow> real) \<Rightarrow> dshardctx option \<Rightarrow> weight_change \<Rightarrow>
   scheduler_threadctx \<Rightarrow> scheduler_threadctx result" where
  "on_init_weight_update user_check rnd shard winfo st =
     (let ws = st_wsampler st in
      rbind (check_cover ws winfo) (\<lambda>_.
      rbind (update_weight ws winfo) (\<lambda>(_, ws).
      rbind (do_sampling rnd ws (m_maxset ws)) (\<lambda>(samples, ws).
      rbind (check (int (length samples) \<le> m_maxset ws) ''selected <= wsampler->m_maxset'') (\<lambda>_.
      let remain = (case shard of None \<Rightarrow> samples | Some ds \<Rightarrow> user_check samples ds (m_start ws) (m_infthreshold ws)) in
      rbind (check (int (length remain) \<le> m_maxset ws) ''remain <= wsampler->m_maxset'') (\<lambda>_.
      Inr (st\<lparr>st_wsampler := ws\<rparr>)))))))"

definition restart_count :: "wsamplerctx \<Rightarrow> wsamplerctx result" where
  "restart_count ws =
     (let ws = ws\<lparr>m_restart_cnt := m_restart_cnt ws + 1\<rparr> in
      rbind (if m_restart_cnt ws = 2 then
               rbind (check (\<not> m_restart_flag ws) ''wsampler->m_restart_flag == false'') (\<lambda>_. Inr (ws\<lparr>m_restart_flag := True\<rparr>))
             else Inr ws) (\<lambda>ws.
      rbind (check (m_restart_cnt ws < 3) ''wsampler->m_restart_cnt < 3'') (\<lambda>_. Inr ws)))"

definition on_restart_weight_update ::
  "(nat \<Rightarrow> real) \<Rightarrow> dshardctx option \<Rightarrow> weight_change \<Rightarrow> scheduler_threadctx \<Rightarrow> scheduler_threadctx result" where
  "on_restart_weight_update rnd shard winfo st =
     (let ws = st_wsampler st in
      rbind (check_cover ws winfo) (\<lambda>_.
      rbind (update_weight ws winfo) (\<lambda>(_, ws).
      rbind (restart_count ws) (\<lambda>ws.
      rbind (do_sampling rnd ws (m_maxset ws)) (\<lambda>(samples, ws).
      rbind (check (int (length samples) \<le> m_maxset ws) ''selected <= wsampler->m_maxset'') (\<lambda>_.
      rbind (case shard of None \<Rightarrow> Inr samples | Some ds \<Rightarrow> check_interference ws samples ds) (\<lambda>remain.
      rbind (check (int (length remain) \<le> m_maxset ws) ''remain <= wsampler->m_maxset'') (\<lambda>_.
      Inr (put_entry_outq (phase_cmd ws remain) (st\<lparr>st_wsampler := ws\<rparr>))))))))))"

definition on_weight_update ::
  "(nat \<Rightarrow> real) \<Rightarrow> dshardctx option \<Rightarrow> weight_change \<Rightarrow> scheduler_threadctx \<Rightarrow> scheduler_threadctx result" where
  "on_weight_update rnd shard winfo st =
     rbind (update_weight (st_wsampler st) winfo) (\<lambda>(_, ws).
     rbind (do_sampling rnd ws (m_maxset ws)) (\<lambda>(samples, ws).
     rbind (case shard of None \<Rightarrow> Inl (Undefined ''dshard'') | Some ds \<Rightarrow> check_interference ws samples ds) (\<lambda>remain.
     Inr (put_entry_outq (phase_cmd ws remain) (st\<lparr>st_wsampler := ws\<rparr>)))))"

text \<open>One round of the loop; None when there is no command to serve.\<close>

definition scheduler_thread ::
  "(int list \<Rightarrow> dshardctx \<Rightarrow> int \<Rightarrow> real \<Rightarrow> int list) \<Rightarrow> (nat \<Rightarrow> real) \<Rightarrow> dshardctx option \<Rightarrow> scheduler_threadctx \<Rightarrow>
   scheduler_threadctx option result" where
  "scheduler_thread user_check rnd shard st =
     (case get_entry_inq_blocking st of
        None \<Rightarrow> Inr None
      | Some (scmd, st) \<Rightarrow>
          rbind (case sc_type scmd of
                   m_init_weight_update \<Rightarrow> on_init_weight_update user_check rnd shard (sc_winfo scmd) st
                 | m_restart_weight_update \<Rightarrow> on_restart_weight_update rnd shard (sc_winfo scmd) st
                 | m_weight_update \<Rightarrow> on_weight_update rnd shard (sc_winfo scmd) st
                 | m_bw_change \<Rightarrow> Inr st
                 | m_make_phase \<Rightarrow> Inl (Fatal ''Not Supported Command detected in Scheduler Thread'')) (\<lambda>st. Inr (Some st)))"

section \<open>The phases of a thread\<close>

text \<open>A change that the thread accepts: it names tasks of the thread only, each at most once in number.\<close>

definition change_ok :: "wsamplerctx \<Rightarrow> weight_change \<Rightarrow> bool" where
  "change_ok ws winfo \<longleftrightarrow> length (wc_entries winfo) \<le> wc_maxlistsize winfo \<and> int (length (wc_entries winfo)) \<le> m_len ws \<and>
     list_all (\<lambda>e. in_range ws (fst e)) (wc_entries winfo)"

lemma shard_ok_frame: "same_frame ws ws' \<Longrightarrow> shard_ok ws dshard \<Longrightarrow> shard_ok ws' dshard"
  by (simp add: shard_ok_def same_frame_def)

lemma sampler_ok_bw: "sampler_ok (ws\<lparr>m_bw := b\<rparr>) = sampler_ok ws"
  by (simp add: sampler_ok_def)

lemma subseq_sorted_wrt: "subseq xs ys \<Longrightarrow> sorted_wrt P ys \<Longrightarrow> sorted_wrt P xs"
proof (induction rule: list_emb.induct)
  case (list_emb_Cons2 x y xs ys)
  then show ?case using list_emb_set [of "(=)" xs ys] by fastforce
qed auto

lemma subseq_distinct: "subseq xs ys \<Longrightarrow> distinct ys \<Longrightarrow> distinct xs"
  by (auto simp: subseq_conv_nths)

text \<open>A sampling followed by the interference check.\<close>

lemma sample_phase:
  assumes "sampler_ok ws" "shard_ok ws dshard" "0 < m_maxset ws" "m_maxset ws < m_len ws" "\<And>i. 0 \<le> rnd i \<and> rnd i \<le> 1"
  defines "ids \<equiv> sampled ws (base_weight ws) (random_points rnd ws (nat (m_maxset ws)))" and "ws' \<equiv> ws\<lparr>m_bw := base_weight ws\<rparr>"
  shows "\<exists>phase. do_sampling rnd ws (m_maxset ws) = Inr (ids, ws') \<and> check_interference ws' ids dshard = Inr phase \<and>
    is_phase ws' dshard ids phase \<and> int (length ids) \<le> m_maxset ws \<and> int (length phase) \<le> m_maxset ws \<and> distinct phase \<and> list_all (in_range ws) phase \<and>
    sorted_wrt (\<lambda>g h. task_weight ws h \<le> task_weight ws g) phase"
proof -
  have n: "0 < nat (m_maxset ws)" using assms(3) by simp
  note ids = sampled_props [of ws "nat (m_maxset ws)" rnd, OF assms(1) n assms(5), folded ids_def]
  have d: "do_sampling rnd ws (m_maxset ws) = Inr (ids, ws')"
    unfolding ids_def ws'_def using assms(5) by (intro do_sampling_sampled [OF assms(1,3,4)]) auto
  have "sampler_ok ws'" "shard_ok ws' dshard" using assms(1,2) by (simp_all add: ws'_def sampler_ok_bw shard_ok_def)
  moreover have "list_all (in_range ws') ids" using ids(4) by (simp add: list_all_iff in_range_def ws'_def)
  ultimately obtain phase where phase: "check_interference ws' ids dshard = Inr phase" "is_phase ws' dshard ids phase"
    using check_interference_phase ids(1) by blast
  have sub: "subseq phase ids" using phase(2) by (simp add: is_phase_def)
  have "length phase \<le> length ids" using sub by (rule list_emb_length)
  moreover have "int (length ids) \<le> m_maxset ws" using ids(2) assms(3) by linarith
  moreover have "set phase \<subseteq> set ids" using sub by (auto simp: subseq_conv_nths dest: in_set_nthsD)
  moreover have "distinct phase" using sub ids(3) by (rule subseq_distinct)
  moreover have "sorted_wrt (\<lambda>g h. task_weight ws h \<le> task_weight ws g) phase" using sub ids(5) by (rule subseq_sorted_wrt)
  ultimately show ?thesis using d phase ids(2,4) by (auto simp: list_all_iff in_range_def)
qed

lemma update_then_frame:
  assumes "sampler_ok ws" "change_ok ws winfo"
  shows "\<exists>ws1. update_weight ws winfo = Inr (int (length (wc_entries winfo)), ws1) \<and> sampler_ok ws1 \<and> same_frame ws ws1 \<and>
    (\<forall>g. in_range ws g \<longrightarrow> task_weight ws1 g = new_weight (wc_entries winfo) ws g)"
  using update_weight_ok [OF assms(1), of "wc_entries winfo" "wc_maxlistsize winfo"] assms(2)
  by (cases winfo) (auto simp: change_ok_def list_all_iff in_range_def)

lemma same_frame_bw [simp]: "same_frame ws (ws1\<lparr>m_bw := b\<rparr>) = same_frame ws ws1"
  by (simp add: same_frame_def)

lemma task_weight_bw [simp]: "task_weight (ws\<lparr>m_bw := b\<rparr>) g = task_weight ws g"
  by (simp add: task_weight_def)

lemma in_range_frame: "same_frame ws ws1 \<Longrightarrow> in_range ws1 = in_range ws"
  by (simp add: fun_eq_iff in_range_def same_frame_def)

lemma sampled_bw: "sampled (ws\<lparr>m_bw := b\<rparr>) = sampled ws" "random_points rnd (ws\<lparr>m_bw := b\<rparr>) n = random_points rnd ws n"
    "base_weight (ws\<lparr>m_bw := b\<rparr>) = base_weight ws"
  by (simp_all add: fun_eq_iff sampled_def random_points_def base_weight_def)

text \<open>The tasks that a thread draws once its weights are those of \<open>ws\<close>.\<close>

definition draw :: "(nat \<Rightarrow> real) \<Rightarrow> wsamplerctx \<Rightarrow> int list" where
  "draw rnd ws = sampled ws (base_weight ws) (random_points rnd ws (nat (m_maxset ws)))"

text \<open>The phase that a thread sends, as seen from its new state.\<close>

definition good_phase :: "(nat \<Rightarrow> real) \<Rightarrow> wsamplerctx \<Rightarrow> dshardctx \<Rightarrow> int list \<Rightarrow> bool" where
  "good_phase rnd ws dshard phase \<longleftrightarrow> is_phase ws dshard (draw rnd ws) phase \<and> int (length phase) \<le> m_maxset ws \<and> distinct phase \<and>
     list_all (in_range ws) phase \<and> sorted_wrt (\<lambda>g h. task_weight ws h \<le> task_weight ws g) phase"

lemma sample_good_phase:
  assumes "sampler_ok ws" "shard_ok ws dshard" "0 < m_maxset ws" "m_maxset ws < m_len ws" "\<And>i. 0 \<le> rnd i \<and> rnd i \<le> 1"
  shows "\<exists>phase. do_sampling rnd ws (m_maxset ws) = Inr (draw rnd ws, ws\<lparr>m_bw := base_weight ws\<rparr>) \<and>
    int (length (draw rnd ws)) \<le> m_maxset ws \<and> check_interference (ws\<lparr>m_bw := base_weight ws\<rparr>) (draw rnd ws) dshard = Inr phase \<and>
    good_phase rnd (ws\<lparr>m_bw := base_weight ws\<rparr>) dshard phase"
proof -
  have r: "in_range (ws\<lparr>m_bw := base_weight ws\<rparr>) = in_range ws" by (simp add: fun_eq_iff in_range_def)
  show ?thesis
    using sample_phase [OF assms(1-4), of rnd] assms(5) by (auto simp: draw_def good_phase_def sampled_bw r)
qed

lemma weight_update_answer:
  fixes st :: scheduler_threadctx
  assumes "st_inq st = scmd # q" "sc_type scmd = m_weight_update" "sampler_ok (st_wsampler st)" "change_ok (st_wsampler st) (sc_winfo scmd)"
    "shard_ok (st_wsampler st) dshard" "0 < m_maxset (st_wsampler st)" "m_maxset (st_wsampler st) < m_len (st_wsampler st)"
    "\<forall>i. 0 \<le> rnd i \<and> rnd i \<le> 1"
  shows "\<exists>st' phase. scheduler_thread user_check rnd (Some dshard) st = Inr (Some st') \<and> st_inq st' = q \<and>
    st_outq st' = st_outq st @ [phase_cmd (st_wsampler st') phase] \<and> sampler_ok (st_wsampler st') \<and> same_frame (st_wsampler st) (st_wsampler st') \<and>
    (\<forall>g. in_range (st_wsampler st) g \<longrightarrow> task_weight (st_wsampler st') g = new_weight (wc_entries (sc_winfo scmd)) (st_wsampler st) g) \<and>
    good_phase rnd (st_wsampler st') dshard phase"
proof -
  obtain ws1 where u: "update_weight (st_wsampler st) (sc_winfo scmd) = Inr (int (length (wc_entries (sc_winfo scmd))), ws1)"
    and ws1: "sampler_ok ws1" "same_frame (st_wsampler st) ws1"
    and w: "\<forall>g. in_range (st_wsampler st) g \<longrightarrow> task_weight ws1 g = new_weight (wc_entries (sc_winfo scmd)) (st_wsampler st) g"
    using update_then_frame [OF assms(3,4)] by blast
  have "shard_ok ws1 dshard" "0 < m_maxset ws1" "m_maxset ws1 < m_len ws1"
    using ws1(2) assms(5-7) by (auto simp: shard_ok_def same_frame_def)
  then obtain phase where "do_sampling rnd ws1 (m_maxset ws1) = Inr (draw rnd ws1, ws1\<lparr>m_bw := base_weight ws1\<rparr>)"
      "check_interference (ws1\<lparr>m_bw := base_weight ws1\<rparr>) (draw rnd ws1) dshard = Inr phase"
      "good_phase rnd (ws1\<lparr>m_bw := base_weight ws1\<rparr>) dshard phase"
    using sample_good_phase [OF ws1(1), of dshard rnd] assms(8) by blast
  then show ?thesis using assms(1,2) u ws1 w
    by (auto simp: scheduler_thread_def get_entry_inq_blocking_def on_weight_update_def rbind_def put_entry_outq_def sampler_ok_bw)
qed


definition example_shard :: dshardctx where
  "example_shard = \<lparr>ds_rows = 3, ds_cols = 3, ds_type = cvspt, ds_c_start = 0, ds_c_end = 2,
     ds_cm_vmat = \<lparr>vm_size_n = 3, vm_size_m = 3, vm_vecs =
       [\<lparr>sv_idx = [0], sv_val = [1]\<rparr>, \<lparr>sv_idx = [1], sv_val = [1]\<rparr>, \<lparr>sv_idx = [0, 1], sv_val = [1, 1]\<rparr>]\<rparr>\<rparr>"

definition example_sampler :: wsamplerctx where
  "example_sampler = \<lparr>m_gid = 0, m_lid = 0, m_start = 0, m_end = 2, m_len = 3, m_bw = 0, m_totalw = 0, m_maxset = 2, m_weights = [0, 0, 0],
     m_infthreshold = 1 / 2, m_nzelement = 0, m_restart_flag = False, m_restart_cnt = 0\<rparr>"

definition example_thread :: scheduler_threadctx where
  "example_thread = \<lparr>st_wsampler = example_sampler, st_rank = 1, st_scheduler_mid = 0, st_scheduler_thrdgid = 0, st_task_start = 0, st_task_end = 2,
     st_inq = [new_sampling_cmd m_weight_update [(1, - 5)] 0], st_outq = []\<rparr>"

lemma example_change: "change_ok example_sampler (sc_winfo (new_sampling_cmd m_weight_update [(1, - 5)] 0))"
  by (simp add: change_ok_def new_sampling_cmd_def example_sampler_def in_range_def)

lemma example_sampler_ok: "sampler_ok example_sampler"
  by (simp add: sampler_ok_def example_sampler_def)

lemma example_shard_ok: "shard_ok example_sampler example_shard"
proof -
  have "[0..2::int] = [0, 1, 2]" by (simp add: upto.simps)
  then show ?thesis
    by (simp add: shard_ok_def example_sampler_def example_shard_def column_ok_def col_ok_def constant_column_def upt_rec entry_def)
qed


section \<open>Restarts\<close>

text \<open>The optimisation for tasks without weight is switched on by the second restart; there is no third.\<close>

definition restarts_ok :: "wsamplerctx \<Rightarrow> bool" where
  "restarts_ok ws \<longleftrightarrow> 0 \<le> m_restart_cnt ws \<and> m_restart_cnt ws \<le> 2 \<and> (m_restart_flag ws \<longleftrightarrow> m_restart_cnt ws = 2)"

lemma restart_count_cases:
  assumes "restarts_ok ws"
  shows "restart_count ws =
    (if m_restart_cnt ws = 2 then Inl (CheckFailed ''wsampler->m_restart_cnt < 3'')
     else Inr (ws\<lparr>m_restart_cnt := m_restart_cnt ws + 1, m_restart_flag := (m_restart_cnt ws = 1)\<rparr>))"
  using assms by (cases ws) (auto simp: restart_count_def restarts_ok_def check_def rbind_def Let_def)

lemma restart_count_ok: "restarts_ok ws \<Longrightarrow> restart_count ws = Inr ws' \<Longrightarrow> restarts_ok ws'"
  by (auto simp: restart_count_cases restarts_ok_def split: if_splits)

lemma restart_phase:
  assumes "st_inq st = scmd # q" "sc_type scmd = m_restart_weight_update" "sampler_ok (st_wsampler st)" "change_ok (st_wsampler st) (sc_winfo scmd)"
    "check_cover (st_wsampler st) (sc_winfo scmd) = Inr ()" "restarts_ok (st_wsampler st)" "m_restart_cnt (st_wsampler st) < 2"
    "shard_ok (st_wsampler st) dshard" "0 < m_maxset (st_wsampler st)" "m_maxset (st_wsampler st) < m_len (st_wsampler st)"
    "\<forall>i. 0 \<le> rnd i \<and> rnd i \<le> 1"
  shows "\<exists>st' phase. scheduler_thread user_check rnd (Some dshard) st = Inr (Some st') \<and> st_inq st' = q \<and>
    st_outq st' = st_outq st @ [phase_cmd (st_wsampler st') phase] \<and> sampler_ok (st_wsampler st') \<and> restarts_ok (st_wsampler st') \<and>
    m_restart_cnt (st_wsampler st') = m_restart_cnt (st_wsampler st) + 1 \<and> good_phase rnd (st_wsampler st') dshard phase"
proof -
  obtain ws1 where u: "update_weight (st_wsampler st) (sc_winfo scmd) = Inr (int (length (wc_entries (sc_winfo scmd))), ws1)"
    and ws1: "sampler_ok ws1" "same_frame (st_wsampler st) ws1"
    using update_then_frame [OF assms(3,4)] by blast
  define ws2 where "ws2 = ws1\<lparr>m_restart_cnt := m_restart_cnt ws1 + 1, m_restart_flag := (m_restart_cnt ws1 = 1)\<rparr>"
  have r1: "restarts_ok ws1" "m_restart_cnt ws1 < 2" "m_restart_cnt ws1 = m_restart_cnt (st_wsampler st)"
    using ws1(2) assms(6,7) by (auto simp: restarts_ok_def same_frame_def)
  have c: "restart_count ws1 = Inr ws2" using r1 by (simp add: restart_count_cases ws2_def)
  have ok: "restarts_ok ws2" using restart_count_ok [OF r1(1) c] .
  have ws2: "sampler_ok ws2" "shard_ok ws2 dshard" "0 < m_maxset ws2" "m_maxset ws2 < m_len ws2"
    using ws1 assms(8-10) by (auto simp: shard_ok_def same_frame_def ws2_def sampler_ok_def)
  obtain phase where "do_sampling rnd ws2 (m_maxset ws2) = Inr (draw rnd ws2, ws2\<lparr>m_bw := base_weight ws2\<rparr>)"
      "int (length (draw rnd ws2)) \<le> m_maxset ws2" "check_interference (ws2\<lparr>m_bw := base_weight ws2\<rparr>) (draw rnd ws2) dshard = Inr phase"
      "good_phase rnd (ws2\<lparr>m_bw := base_weight ws2\<rparr>) dshard phase"
    using sample_good_phase [OF ws2, of rnd] assms(11) by blast
  moreover have "m_restart_cnt ws2 = m_restart_cnt (st_wsampler st) + 1" by (simp add: ws2_def r1(3))
  moreover have "int (length phase) \<le> m_maxset ws2" using calculation(4) by (simp add: good_phase_def)
  ultimately show ?thesis using assms(1,2,5) u c ok ws2(1)
    by (auto simp: scheduler_thread_def get_entry_inq_blocking_def on_restart_weight_update_def rbind_def check_def put_entry_outq_def sampler_ok_bw
      restarts_ok_def)
qed

end
