(* ===== verification/Strads_Partition.thy ===== *)
theory Strads_Partition
imports Context
begin

text \<open>
  The Strads runtime (src/strads): how machines get their roles and how the tasks of a model are divided over scheduler threads and
  machines (include/common.hpp, class \<open>sharedctx\<close>), and how rows or columns of a data set are divided over machines
  (ds/dshard.cpp).  \<open>std::map<int, range *>\<close> is a key-sorted association list.
\<close>

section \<open>Roles\<close>

datatype machtype = m_coordinator | m_scheduler | m_worker

datatype mach_role = mrole_worker | mrole_coordinator | mrole_scheduler | mrole_scheduler_coordinator | mrole_unknown

definition find_role :: "int \<Rightarrow> int \<Rightarrow> int \<Rightarrow> mach_role result" where
  "find_role mpi_size sched_machines node =
     (let first_schedmach = mpi_size - sched_machines - 1; first_coordinatormach = mpi_size - 1;
          mrole = (if node = first_coordinatormach then mrole_coordinator
                   else if node < first_schedmach then mrole_worker
                   else if node \<ge> first_schedmach \<and> node < first_coordinatormach then mrole_scheduler
                   else mrole_unknown) in
      rbind (check (mrole \<noteq> mrole_unknown) ''mrole != mrole_unknown'') (\<lambda>_. Inr mrole))"

section \<open>Ranges\<close>

record task_range =
  rg_start :: int
  rg_end :: int

type_synonym range_map = "(int \<times> task_range) list"

definition range_at :: "range_map \<Rightarrow> int \<Rightarrow> task_range result" where
  "range_at m i = of_option (Undefined ''null range'') (map_of m i)"

text \<open>The loop over the parts, which \<open>make_scheduling_taskpartition\<close> and \<open>dshard_make_finepartition\<close> have in common.\<close>

fun fine_loop :: "nat \<Rightarrow> int \<Rightarrow> int \<Rightarrow> int \<Rightarrow> int \<Rightarrow> range_map \<Rightarrow> range_map result" where
  "fine_loop 0 i modelsize share remain tmap = Inr tmap"
| "fine_loop (Suc n) i modelsize share remain tmap =
     rbind (if i = 0 then Inr 0 else rbind (range_at tmap (i - 1)) (\<lambda>r. Inr (rg_end r + 1))) (\<lambda>start.
     let myshare = (if i < remain then share + 1 else share);
         end1 = start + myshare - 1;
         end2 = (if end1 \<ge> modelsize then modelsize - 1 else end1) in
     fine_loop n (i + 1) modelsize share remain (oupd i \<lparr>rg_start = start, rg_end = end2\<rparr> tmap))"

definition fine_ranges :: "int \<Rightarrow> int \<Rightarrow> range_map result" where
  "fine_ranges modelsize parts =
     (if parts = 0 then Inl (Undefined ''division by zero'')
      else fine_loop (nat parts) 0 modelsize (modelsize sdiv parts) (modelsize smod parts) [])"

text \<open>The ranges of consecutive parts are merged.\<close>

fun super_loop :: "nat \<Rightarrow> int \<Rightarrow> int \<Rightarrow> range_map \<Rightarrow> range_map \<Rightarrow> range_map result" where
  "super_loop 0 i per finemap supermap = Inr supermap"
| "super_loop (Suc n) i per finemap supermap =
     (let start_thrd = i * per; end_thrd = start_thrd + per - 1 in
      rbind (range_at finemap start_thrd) (\<lambda>a.
      rbind (range_at finemap end_thrd) (\<lambda>b.
      super_loop n (i + 1) per finemap (oupd i \<lparr>rg_start = rg_start a, rg_end = rg_end b\<rparr> supermap))))"

record task_assignment =
  schmach_tmap :: range_map
  schthrd_tmap :: range_map

definition make_scheduling_taskpartition :: "int \<Rightarrow> int \<Rightarrow> int \<Rightarrow> task_assignment result" where
  "make_scheduling_taskpartition modelsize schedmach thrd_permach =
     rbind (fine_ranges modelsize (schedmach * thrd_permach)) (\<lambda>thrds.
     rbind (super_loop (nat schedmach) 0 thrd_permach thrds []) (\<lambda>machs.
     Inr \<lparr>schmach_tmap = machs, schthrd_tmap = thrds\<rparr>))"

definition dshard_make_finepartition :: "int \<Rightarrow> int \<Rightarrow> range_map \<Rightarrow> range_map result" where
  "dshard_make_finepartition modelsize partitions tmap =
     rbind (check (tmap = []) ''tmap.size() == 0'') (\<lambda>_.
     rbind (check (partitions \<noteq> 0) ''partitions != 0'') (\<lambda>_. fine_ranges modelsize partitions))"

definition dshard_make_superpartition :: "int \<Rightarrow> range_map \<Rightarrow> range_map \<Rightarrow> range_map result" where
  "dshard_make_superpartition superpartcnt finemap supermap =
     rbind (check (supermap = []) ''supermap.size() == 0'') (\<lambda>_.
     rbind (check (finemap \<noteq> []) ''finemap.size() != 0'') (\<lambda>_.
     rbind (c_mod (int (length finemap)) superpartcnt) (\<lambda>m.
     rbind (check (m = 0) ''finemap.size() % superpartcnt == 0'') (\<lambda>_.
     let fine_per_super = int (length finemap) sdiv superpartcnt in
     rbind (check (fine_per_super \<ge> 1) ''fine_per_super >= 1'') (\<lambda>_.
     super_loop (nat superpartcnt) 0 fine_per_super finemap [])))))"

definition dshard_delete_partitioninfo :: "range_map \<Rightarrow> range_map" where
  "dshard_delete_partitioninfo partmap = []"

section \<open>Machines\<close>

record machine_layout =
  ml_role :: mach_role
  ml_worker_mid :: int
  ml_scheduler_mid :: int
  ml_coordinator_mid :: int
  ml_sched_machines :: int
  ml_first_schedmach :: int
  ml_worker_machines :: int
  ml_first_workermach :: int
  ml_first_coordinatormach :: int
  ml_tmap :: task_assignment

text \<open>The part of \<open>prepare_machine\<close> that assigns the role of a machine and the tasks; logs and buffers are left out.\<close>

definition prepare_machine :: "bool \<Rightarrow> int \<Rightarrow> int \<Rightarrow> int \<Rightarrow> int \<Rightarrow> int \<Rightarrow> machine_layout result" where
  "prepare_machine scheduling schedulers modelsize thrds_per_scheduler mpi_size rank =
     rbind (check (rank < mpi_size) ''rank < mpi_size'') (\<lambda>_.
     rbind (if \<not> scheduling then check (schedulers = 0) ''m_schedulers == 0'' else check (schedulers > 0) ''m_schedulers > 0'') (\<lambda>_.
     let first_schedmach = mpi_size - schedulers - 1;
         first_coordinatormach = mpi_size - 1;
         (role, wid, sid, cid) =
           (if rank = first_coordinatormach then (mrole_coordinator, - 1, - 1, rank - first_coordinatormach)
            else if rank < first_schedmach then (mrole_worker, rank - 0, - 1, - 1)
            else if rank \<ge> first_schedmach \<and> rank < first_coordinatormach then (mrole_scheduler, - 1, rank - first_schedmach, - 1)
            else (mrole_unknown, - 1, - 1, - 1)) in
     rbind (check (role \<noteq> mrole_unknown) ''m_mrole != mrole_unknown'') (\<lambda>_.
     rbind (make_scheduling_taskpartition modelsize schedulers thrds_per_scheduler) (\<lambda>tmap.
     Inr \<lparr>ml_role = role, ml_worker_mid = wid, ml_scheduler_mid = sid, ml_coordinator_mid = cid, ml_sched_machines = schedulers,
          ml_first_schedmach = first_schedmach, ml_worker_machines = first_schedmach, ml_first_workermach = 0,
          ml_first_coordinatormach = first_coordinatormach, ml_tmap = tmap\<rparr>))))"

definition get_tosend_machinecnt :: "machine_layout \<Rightarrow> machtype \<Rightarrow> int" where
  "get_tosend_machinecnt ml mtype =
     (case mtype of m_worker \<Rightarrow> ml_worker_machines ml | m_scheduler \<Rightarrow> ml_sched_machines ml | m_coordinator \<Rightarrow> 1)"

section \<open>The partition\<close>

definition part_start :: "int \<Rightarrow> int \<Rightarrow> int \<Rightarrow> int" where
  "part_start modelsize parts i = i * (modelsize div parts) + min i (modelsize mod parts)"

definition part_range :: "int \<Rightarrow> int \<Rightarrow> int \<Rightarrow> task_range" where
  "part_range modelsize parts i = \<lparr>rg_start = part_start modelsize parts i, rg_end = part_start modelsize parts (i + 1) - 1\<rparr>"

lemma part_start_bounds:
  assumes "0 \<le> modelsize" "0 < parts" "0 \<le> i" "i \<le> parts"
  shows "part_start modelsize parts i \<le> modelsize" "part_start modelsize parts parts = modelsize" "part_start modelsize parts 0 = 0"
proof -
  have m: "modelsize = parts * (modelsize div parts) + modelsize mod parts" by simp
  have r: "0 \<le> modelsize mod parts" "modelsize mod parts < parts" "0 \<le> modelsize div parts" using assms by (simp_all add: pos_imp_zdiv_nonneg_iff)
  show "part_start modelsize parts 0 = 0" using r by (simp add: part_start_def)
  show e: "part_start modelsize parts parts = modelsize" using r m by (simp add: part_start_def)
  have "i * (modelsize div parts) \<le> parts * (modelsize div parts)" using assms r by (intro mult_right_mono) auto
  moreover have "i * (modelsize div parts) + min i (modelsize mod parts) \<le> i * (modelsize div parts) + modelsize mod parts" by simp
  ultimately show "part_start modelsize parts i \<le> modelsize" using m unfolding part_start_def by linarith
qed

lemma part_start_mono:
  assumes "0 \<le> modelsize" "0 < parts" "i \<le> j"
  shows "part_start modelsize parts i \<le> part_start modelsize parts j"
proof -
  have "i * (modelsize div parts) \<le> j * (modelsize div parts)" using assms by (intro mult_right_mono) (auto simp: pos_imp_zdiv_nonneg_iff)
  then show ?thesis using assms(3) by (simp add: part_start_def)
qed

lemma part_start_step: "part_start modelsize parts (i + 1) = part_start modelsize parts i + (modelsize div parts + (if i < modelsize mod parts then 1 else 0))"
  by (simp add: part_start_def algebra_simps)

text \<open>The ranges of the first \<open>k\<close> parts.\<close>

definition parts_upto :: "(int \<Rightarrow> task_range) \<Rightarrow> nat \<Rightarrow> range_map" where
  "parts_upto f k = map (\<lambda>i. (int i, f (int i))) [0..<k]"

lemma parts_upto_end: "map_of (parts_upto f k) (int k) = None"
  by (auto simp: parts_upto_def map_of_eq_None_iff)

lemma parts_upto_at: "0 \<le> i \<Longrightarrow> i < int k \<Longrightarrow> map_of (parts_upto f k) i = Some (f i)"
proof (induction k)
  case (Suc k)
  have "parts_upto f (Suc k) = parts_upto f k @ [(int k, f (int k))]" by (simp add: parts_upto_def)
  then show ?case using Suc parts_upto_end [of f k] by (cases "i = int k") (simp_all add: map_add_def)
qed simp

lemma oupd_end: "\<forall>k' \<in> set (keys m). k' < k \<Longrightarrow> oupd k v m = m @ [(k, v)]"
  by (induction m) auto

lemma parts_upto_Suc: "oupd (int k) (f (int k)) (parts_upto f k) = parts_upto f (Suc k)"
  by (subst oupd_end) (auto simp: parts_upto_def)

lemma fine_loop_step:
  assumes "(if i = 0 then Inr 0 else rbind (range_at tmap (i - 1)) (\<lambda>r. Inr (rg_end r + 1))) = Inr start"
    "start + (if i < remain then share + 1 else share) - 1 = e" "e < modelsize"
  shows "fine_loop (Suc n) i modelsize share remain tmap = fine_loop n (i + 1) modelsize share remain (oupd i \<lparr>rg_start = start, rg_end = e\<rparr> tmap)"
  unfolding fine_loop.simps assms(1) using assms(2,3) by (simp add: Let_def)

lemma fine_loop_ok:
  assumes m: "0 \<le> modelsize" "0 < parts" and "int (k + n) = parts"
  shows "fine_loop n (int k) modelsize (modelsize sdiv parts) (modelsize smod parts) (parts_upto (part_range modelsize parts) k) =
    Inr (parts_upto (part_range modelsize parts) (k + n))"
  using assms(3)
proof (induction n arbitrary: k)
  case (Suc n)
  have d: "modelsize sdiv parts = modelsize div parts" "modelsize smod parts = modelsize mod parts" using m by (simp_all add: sdiv_nonneg smod_nonneg)
  have st: "(if int k = 0 then Inr 0 else rbind (range_at (parts_upto (part_range modelsize parts) k) (int k - 1)) (\<lambda>r. Inr (rg_end r + 1))) =
      Inr (part_start modelsize parts (int k))"
    using part_start_bounds(3) [OF m, of 0] m by (simp add: range_at_def parts_upto_at part_range_def)
  have "part_start modelsize parts (int k + 1) \<le> modelsize" using Suc.prems by (intro part_start_bounds(1) [OF m]) auto
  then have "fine_loop (Suc n) (int k) modelsize (modelsize sdiv parts) (modelsize smod parts) (parts_upto (part_range modelsize parts) k) =
      fine_loop n (int k + 1) modelsize (modelsize sdiv parts) (modelsize smod parts)
        (oupd (int k) \<lparr>rg_start = part_start modelsize parts (int k), rg_end = part_start modelsize parts (int k + 1) - 1\<rparr> (parts_upto (part_range modelsize parts) k))"
    by (intro fine_loop_step [OF st]) (simp_all add: d part_start_step)
  then have "fine_loop (Suc n) (int k) modelsize (modelsize sdiv parts) (modelsize smod parts) (parts_upto (part_range modelsize parts) k) =
      fine_loop n (int (Suc k)) modelsize (modelsize sdiv parts) (modelsize smod parts) (parts_upto (part_range modelsize parts) (Suc k))"
    using parts_upto_Suc [of k "part_range modelsize parts"] by (simp add: part_range_def add.commute)
  with Suc.IH [of "Suc k"] Suc.prems show ?case by simp
qed simp

lemma fine_ranges_ok: "0 \<le> modelsize \<Longrightarrow> 0 < parts \<Longrightarrow> fine_ranges modelsize parts = Inr (parts_upto (part_range modelsize parts) (nat parts))"
  using fine_loop_ok [of modelsize parts 0 "nat parts"] by (simp add: fine_ranges_def parts_upto_def)

text \<open>Merging \<open>per\<close> parts at a time.\<close>

definition super_range :: "int \<Rightarrow> int \<Rightarrow> int \<Rightarrow> int \<Rightarrow> task_range" where
  "super_range modelsize parts per i = \<lparr>rg_start = part_start modelsize parts (i * per), rg_end = part_start modelsize parts ((i + 1) * per) - 1\<rparr>"

lemma super_loop_ok:
  assumes "0 < per" "int (k + n) * per \<le> int parts"
  shows "super_loop n (int k) per (parts_upto (part_range modelsize p) parts) (parts_upto (super_range modelsize p per) k) =
    Inr (parts_upto (super_range modelsize p per) (k + n))"
  using assms(2)
proof (induction n arbitrary: k)
  case (Suc n)
  have "(int k + 1) * per \<le> int (k + Suc n) * per" using assms(1) by (intro mult_right_mono) auto
  then have le: "(int k + 1) * per \<le> int parts" using Suc.prems by linarith
  have k0: "0 \<le> int k * per" using assms(1) by simp
  have "int k * per + per \<le> int parts" using le by (simp add: algebra_simps)
  then have "int k * per < int parts" "0 \<le> int k * per + per - 1" "int k * per + per - 1 < int parts" using assms(1) k0 by linarith+
  then have "super_loop (Suc n) (int k) per (parts_upto (part_range modelsize p) parts) (parts_upto (super_range modelsize p per) k) =
      super_loop n (int (Suc k)) per (parts_upto (part_range modelsize p) parts) (parts_upto (super_range modelsize p per) (Suc k))"
    using k0 parts_upto_Suc [of k "super_range modelsize p per"]
    by (simp add: range_at_def parts_upto_at part_range_def super_range_def Let_def algebra_simps)
  with Suc.IH [of "Suc k"] Suc.prems show ?case by simp
qed simp

text \<open>An ascending sequence of cuts puts every task into exactly one piece.\<close>

lemma cut_exists: "f 0 \<le> (x :: int) \<Longrightarrow> x < f (int n) \<Longrightarrow> \<exists>i. 0 \<le> i \<and> i < int n \<and> f i \<le> x \<and> x < f (i + 1)"
proof (induction n)
  case (Suc n)
  show ?case
  proof (cases "x < f (int n)")
    case True
    with Suc.IH Suc.prems(1) obtain i where "0 \<le> i \<and> i < int n \<and> f i \<le> x \<and> x < f (i + 1)" by blast
    then show ?thesis by (intro exI [of _ i]) simp
  next
    case False
    then show ?thesis using Suc.prems(2) by (intro exI [of _ "int n"]) (simp add: add.commute)
  qed
qed simp

lemma cut_unique:
  fixes f :: "int \<Rightarrow> int"
  assumes "\<And>i j. i \<le> j \<Longrightarrow> f i \<le> f j" "f 0 \<le> x" "x < f n" "0 \<le> n"
  shows "\<exists>!i. (0 \<le> i \<and> i < n) \<and> f i \<le> x \<and> x < f (i + 1)"
proof (rule ex_ex1I)
  show "\<exists>i. (0 \<le> i \<and> i < n) \<and> f i \<le> x \<and> x < f (i + 1)" using cut_exists [of f x "nat n"] assms(2-4) by auto
next
  fix i j assume "(0 \<le> i \<and> i < n) \<and> f i \<le> x \<and> x < f (i + 1)" "(0 \<le> j \<and> j < n) \<and> f j \<le> x \<and> x < f (j + 1)"
  then show "i = j" using assms(1) [of "i + 1" j] assms(1) [of "j + 1" i] by linarith
qed

definition tasks_of :: "task_range \<Rightarrow> int set" where
  "tasks_of r = {rg_start r..rg_end r}"

lemma tasks_part: "x \<in> tasks_of (part_range modelsize parts i) \<longleftrightarrow> part_start modelsize parts i \<le> x \<and> x < part_start modelsize parts (i + 1)"
  "x \<in> tasks_of (super_range modelsize parts per i) \<longleftrightarrow> part_start modelsize parts (i * per) \<le> x \<and> x < part_start modelsize parts ((i + 1) * per)"
  by (auto simp: tasks_of_def part_range_def super_range_def)

lemma parts_upto_None: "\<not> (0 \<le> i \<and> i < int k) \<Longrightarrow> map_of (parts_upto f k) i = None"
  by (auto simp: parts_upto_def map_of_eq_None_iff)

lemma parts_upto_iff: "map_of (parts_upto f k) i = Some r \<longleftrightarrow> 0 \<le> i \<and> i < int k \<and> r = f i"
  using parts_upto_at [of i k f] parts_upto_None [of i k f] by (cases "0 \<le> i \<and> i < int k") auto

lemma partition_ok:
  assumes "0 \<le> modelsize" "0 < machs" "0 < thr"
  shows "make_scheduling_taskpartition modelsize machs thr = Inr \<lparr>schmach_tmap = parts_upto (super_range modelsize (machs * thr) thr) (nat machs),
    schthrd_tmap = parts_upto (part_range modelsize (machs * thr)) (nat (machs * thr))\<rparr>"
proof -
  have "fine_ranges modelsize (machs * thr) = Inr (parts_upto (part_range modelsize (machs * thr)) (nat (machs * thr)))"
    using assms by (intro fine_ranges_ok) simp_all
  moreover have "super_loop (nat machs) 0 thr (parts_upto (part_range modelsize (machs * thr)) (nat (machs * thr))) [] =
      Inr (parts_upto (super_range modelsize (machs * thr) thr) (nat machs))"
    using super_loop_ok [of thr 0 "nat machs" "nat (machs * thr)" modelsize "machs * thr"] assms by (simp add: parts_upto_def)
  ultimately show ?thesis by (simp add: make_scheduling_taskpartition_def)
qed

section \<open>Property\<close>

text \<open>
  C39. The tasks of a model are divided completely and without overlap: every task lies in the range of exactly one scheduler
  thread and of exactly one scheduler machine, the thread is one of that machine's, and the threads' shares differ by at most one task.
\<close>

theorem task_partition:
  assumes "0 \<le> modelsize" "0 < machs" "0 < thr"
  shows "\<exists>ta. make_scheduling_taskpartition modelsize machs thr = Inr ta \<and>
    (\<forall>x. 0 \<le> x \<and> x < modelsize \<longrightarrow> (\<exists>!i. \<exists>r. map_of (schthrd_tmap ta) i = Some r \<and> x \<in> tasks_of r) \<and>
       (\<exists>!m. \<exists>r. map_of (schmach_tmap ta) m = Some r \<and> x \<in> tasks_of r)) \<and>
    (\<forall>i r. map_of (schthrd_tmap ta) i = Some r \<longrightarrow> tasks_of r \<subseteq> {0..<modelsize} \<and>
       int (card (tasks_of r)) \<in> {modelsize div (machs * thr), modelsize div (machs * thr) + 1} \<and>
       (\<exists>r'. map_of (schmach_tmap ta) (i div thr) = Some r' \<and> tasks_of r \<subseteq> tasks_of r'))"
proof -
  let ?p = "machs * thr" and ?f = "part_start modelsize (machs * thr)"
  let ?thr = "parts_upto (part_range modelsize ?p) (nat ?p)" and ?mach = "parts_upto (super_range modelsize ?p thr) (nat machs)"
  have p: "0 < ?p" using assms by simp
  have mono: "i \<le> j \<Longrightarrow> ?f i \<le> ?f j" for i j using part_start_mono [OF assms(1) p] .
  have b: "?f 0 = 0" "?f ?p = modelsize" using part_start_bounds(2,3) [OF assms(1) p, of 0] p by simp_all
  have u: "\<exists>!i. \<exists>r. map_of ?thr i = Some r \<and> x \<in> tasks_of r" if "0 \<le> x \<and> x < modelsize" for x
    using cut_unique [of ?f x ?p, OF mono] that b p by (simp add: parts_upto_iff tasks_part conj_assoc)
  have s: "\<exists>!m. \<exists>r. map_of ?mach m = Some r \<and> x \<in> tasks_of r" if "0 \<le> x \<and> x < modelsize" for x
    using cut_unique [of "\<lambda>i. ?f (i * thr)" x machs, OF mono] that b assms(2,3) by (simp add: parts_upto_iff tasks_part conj_assoc mult_right_mono)
  have t: "tasks_of r \<subseteq> {0..<modelsize} \<and> int (card (tasks_of r)) \<in> {modelsize div ?p, modelsize div ?p + 1} \<and>
       (\<exists>r'. map_of ?mach (i div thr) = Some r' \<and> tasks_of r \<subseteq> tasks_of r')" if "map_of ?thr i = Some r" for i r
  proof -
    have i: "0 \<le> i" "i < ?p" "r = part_range modelsize ?p i" using that p by (auto simp: parts_upto_iff)
    have "0 \<le> ?f i" "?f (i + 1) \<le> modelsize" using mono [of 0 i] mono [of "i + 1" ?p] b i by auto
    then have "tasks_of r \<subseteq> {0..<modelsize}" using i(3) by (auto simp: tasks_part)
    moreover have "card (tasks_of r) = nat (?f (i + 1) - ?f i)" using i(3) by (simp add: tasks_of_def part_range_def)
    then have "int (card (tasks_of r)) = modelsize div ?p + (if i < modelsize mod ?p then 1 else 0)"
      using part_start_step [of modelsize ?p i] assms(1) p by (auto simp: pos_imp_zdiv_nonneg_iff)
    moreover have q: "i = thr * (i div thr) + i mod thr" "0 \<le> i mod thr" using assms(3) by simp_all
    have d: "0 \<le> i div thr" using i assms by (simp add: pos_imp_zdiv_nonneg_iff)
    have "thr * (i div thr) < thr * machs" using q i(2) mult.commute [of machs thr] by linarith
    then have d': "i div thr < machs" using assms(3) by simp
    have "i div thr * thr \<le> i" "i + 1 \<le> (i div thr + 1) * thr"
      using assms(3) q pos_mod_bound [of thr i] mult.commute [of thr "i div thr"] distrib_right [of "i div thr" 1 thr] by linarith+
    then have "tasks_of r \<subseteq> tasks_of (super_range modelsize ?p thr (i div thr))"
      using mono [of "i div thr * thr" i] mono [of "i + 1" "(i div thr + 1) * thr"] i(3) by (auto simp: tasks_part)
    ultimately show ?thesis using d d' assms(2) by (auto simp: parts_upto_iff)
  qed
  show ?thesis using partition_ok [OF assms] u s t by (intro exI [of _ "\<lparr>schmach_tmap = ?mach, schthrd_tmap = ?thr\<rparr>"]) auto
qed

theorem task_partition_witness:
  "\<exists>ta. make_scheduling_taskpartition 10 2 2 = Inr ta \<and> (\<exists>!i. \<exists>r. map_of (schthrd_tmap ta) i = Some r \<and> 5 \<in> tasks_of r)"
proof -
  from task_partition [of 10 2 2] obtain ta where
    "make_scheduling_taskpartition 10 2 2 = Inr ta" "\<forall>x. 0 \<le> x \<and> x < 10 \<longrightarrow> (\<exists>!i. \<exists>r. map_of (schthrd_tmap ta) i = Some r \<and> x \<in> tasks_of r) \<and>
       (\<exists>!m. \<exists>r. map_of (schmach_tmap ta) m = Some r \<and> x \<in> tasks_of r)" by auto
  then show ?thesis by simp
qed

end
