(* ===== verification/Strads_Machine.thy ===== *)
theory Strads_Machine
imports Strads_Thread Strads_Partition
begin

text \<open>
  The scheduler machine of Strads and the messages it exchanges with the coordinator: the coordinator cuts the weights of a machine's
  tasks into chunks (\<open>_scheduler_start_remote\<close> and \<open>_send_weight_update\<close>, src/strads/coordinator/coordinator.cpp), the machine puts them
  together again and hands every thread its share (\<open>process_sched_system_cmd\<close> and \<open>scheduler_mach\<close>, scheduler/scheduler.cpp), and
  acknowledges system commands (\<open>process_common_system_cmd\<close>, src/common.cpp).  A port is the list of messages under way.
\<close>

section \<open>Messages\<close>

datatype message_type = SYSTEM_HB | USER_DATA | SYSTEM_DSHARD | SYSTEM_SCHEDULING | USER_WORK | USER_UPDATE | USER_PROGRESS_CHECK | SYSTEM_DSHARD_END

datatype sched_ptype = SCHED_START | SCHED_RESTART | SCHED_INITVAL | SCHED_UW | SCHED_PHASE | SCHED_START_ACK

record sched_start_p =
  sp_taskcnt :: int
  sp_start :: int
  sp_end :: int
  sp_chunks :: int

text \<open>What follows the head of a scheduling message: each sender fills one form, and reading another is an error of the model.\<close>

datatype sched_body = Start_Body sched_start_p | Pairs_Body "(int \<times> real) list" | Phase_Body "int list"

record schedhead =
  sh_type :: sched_ptype
  sh_mid :: int
  sh_thrdgid :: int
  sh_entrycnt :: int
  sh_body :: sched_body

record rangectx =
  r_start :: nat
  r_end :: nat
  r_len :: nat
  c_start :: nat
  c_end :: nat
  c_len :: nat

record mini_dshardctx =
  md_rows :: nat
  md_cols :: nat
  md_type :: matrix_type
  md_fn :: string
  md_range :: rangectx
  md_alias :: string

datatype mb_data = Sched_Data schedhead | Shard_Data mini_dshardctx | No_Data

record mbuffer =
  mb_msg_type :: message_type
  mb_cmdid :: int
  mb_src_rank :: int
  mb_data :: mb_data

definition sched_mbuffer :: "int \<Rightarrow> schedhead \<Rightarrow> mbuffer" where
  "sched_mbuffer rank h = \<lparr>mb_msg_type = SYSTEM_SCHEDULING, mb_cmdid = 0, mb_src_rank = rank, mb_data = Sched_Data h\<rparr>"

section \<open>The coordinator's side\<close>

text \<open>\<open>USER_MSG_SIZE - sizeof(schedhead)\<close> and \<open>sizeof(idval_pair)\<close> on the 64-bit targets.\<close>

definition sched_dlen :: int where
  "sched_dlen = 16 * 1024 - 72 - 48"

definition sizeof_idval_pair :: int where
  "sizeof_idval_pair = 16"

definition entry_per_chunk :: int where
  "entry_per_chunk = sched_dlen sdiv (2 * sizeof_idval_pair)"

definition MAX_ZMQ_HWM :: int where
  "MAX_ZMQ_HWM = 2000"

definition weight_read :: "real list \<Rightarrow> int \<Rightarrow> real result" where
  "weight_read weights i = (if 0 \<le> i \<and> nat i < length weights then Inr (weights ! nat i) else Inl (Undefined ''weights[i]''))"

fun chunk_fill :: "real list \<Rightarrow> nat \<Rightarrow> int \<Rightarrow> int \<Rightarrow> int \<Rightarrow> ((int \<times> real) list \<times> int) result" where
  "chunk_fill weights 0 pos taskcnt progress = Inr ([], progress)"
| "chunk_fill weights (Suc n) pos taskcnt progress =
     rbind (weight_read weights pos) (\<lambda>w.
     if progress + 1 = taskcnt then Inr ([(pos, w)], progress + 1)
     else rbind (chunk_fill weights n (pos + 1) taskcnt (progress + 1)) (\<lambda>(es, progress). Inr ((pos, w) # es, progress)))"

fun chunk_loop :: "int \<Rightarrow> int \<Rightarrow> real list \<Rightarrow> nat \<Rightarrow> int \<Rightarrow> int \<Rightarrow> int \<Rightarrow> int \<Rightarrow> mbuffer list result" where
  "chunk_loop rank mid weights 0 ci start taskcnt progress = Inr []"
| "chunk_loop rank mid weights (Suc n) ci start taskcnt progress =
     rbind (chunk_fill weights (nat entry_per_chunk) (start + ci * entry_per_chunk) taskcnt progress) (\<lambda>(pairs, progress).
     rbind (chunk_loop rank mid weights n (ci + 1) start taskcnt progress) (\<lambda>msgs.
     Inr (sched_mbuffer rank \<lparr>sh_type = SCHED_INITVAL, sh_mid = mid, sh_thrdgid = - 1, sh_entrycnt = int (length pairs), sh_body = Pairs_Body pairs\<rparr> # msgs)))"

text \<open>The messages to one scheduler machine.\<close>

definition scheduler_start_msgs :: "int \<Rightarrow> task_assignment \<Rightarrow> real list \<Rightarrow> bool \<Rightarrow> int \<Rightarrow> mbuffer list result" where
  "scheduler_start_msgs rank tmap weights rflag i =
     (case map_of (schmach_tmap tmap) i of
        None \<Rightarrow> Inl (CheckFailed ''p != ctx->m_tmap.schmach_tmap.end()'')
      | Some r \<Rightarrow>
          let taskcnt = rg_end r - rg_start r + 1;
              chunks0 = taskcnt sdiv entry_per_chunk;
              chunks = (if taskcnt smod entry_per_chunk = 0 then chunks0 else chunks0 + 1);
              amo = \<lparr>sp_taskcnt = taskcnt, sp_start = rg_start r, sp_end = rg_end r, sp_chunks = chunks\<rparr> in
          rbind (check (entry_per_chunk * chunks \<ge> taskcnt) ''entry_per_chunk * chunks >= taskcnt'') (\<lambda>_.
          rbind (check (\<not> chunks > MAX_ZMQ_HWM - 10) ''0'') (\<lambda>_.
          rbind (chunk_loop rank i weights (nat chunks) 0 (rg_start r) taskcnt 0) (\<lambda>msgs.
          Inr (sched_mbuffer rank \<lparr>sh_type = (if rflag then SCHED_RESTART else SCHED_START), sh_mid = i, sh_thrdgid = - 1, sh_entrycnt = 1, sh_body = Start_Body amo\<rparr> # msgs)))))"

definition scheduler_start_ack :: "task_range \<Rightarrow> mbuffer \<Rightarrow> unit result" where
  "scheduler_start_ack r mbuf =
     rbind (check (mb_msg_type mbuf = SYSTEM_SCHEDULING) ''mbuf->msg_type == SYSTEM_SCHEDULING'') (\<lambda>_.
     case mb_data mbuf of Sched_Data h \<Rightarrow>
       rbind (check (sh_type h = SCHED_START_ACK) ''schedhp->type == SCHED_START_ACK'') (\<lambda>_.
       case sh_body h of Start_Body amo \<Rightarrow>
         if sp_taskcnt amo \<noteq> rg_end r - rg_start r + 1 then Inl (Fatal ''Mismatch of taskcnt in remote side'') else Inr ()
       | _ \<Rightarrow> Inl (Undefined ''payload''))
     | _ \<Rightarrow> Inl (Undefined ''payload''))"

definition send_weight_update :: "int \<Rightarrow> int \<Rightarrow> (int \<times> real) list \<Rightarrow> mbuffer result" where
  "send_weight_update schedmid gthrdid idvalp =
     rbind (check (int (length idvalp) * sizeof_idval_pair \<le> sched_dlen) ''entrycnt *sizeof(idval_pair) <= dlen'') (\<lambda>_.
     Inr (sched_mbuffer 0 \<lparr>sh_type = SCHED_UW, sh_mid = schedmid, sh_thrdgid = gthrdid, sh_entrycnt = int (length idvalp), sh_body = Pairs_Body idvalp\<rparr>))"

section \<open>The scheduler machine\<close>

record sched_machine =
  sk_rank :: int
  sk_mid :: int
  sk_thrds :: int
  sk_tmap :: task_assignment
  sk_sthrds :: "scheduler_threadctx list"
  sk_rclock :: nat
  sk_shardmap :: "(string, dshardctx) amap"
  sk_inq :: "mbuffer list"
  sk_outq :: "mbuffer list"

text \<open>The pairs of the chunks, in the order of arrival; None while a chunk is missing.\<close>

fun recv_chunks :: "nat \<Rightarrow> int \<Rightarrow> int \<Rightarrow> (int \<times> real) list \<Rightarrow> mbuffer list \<Rightarrow> ((int \<times> real) list \<times> mbuffer list) option result" where
  "recv_chunks 0 mid cap idvalp inq = Inr (Some (idvalp, inq))"
| "recv_chunks (Suc n) mid cap idvalp [] = Inr None"
| "recv_chunks (Suc n) mid cap idvalp (inbuf # inq) =
     rbind (check (mb_msg_type inbuf = SYSTEM_SCHEDULING) ''inbuf->msg_type == SYSTEM_SCHEDULING'') (\<lambda>_.
     case mb_data inbuf of Sched_Data h \<Rightarrow>
       rbind (check (sh_type h = SCHED_INITVAL) ''schedhp->type == SCHED_INITVAL'') (\<lambda>_.
       rbind (check (sh_mid h = mid) ''schedhp->sched_mid == ctx->m_scheduler_mid'') (\<lambda>_.
       case sh_body h of Pairs_Body pairs \<Rightarrow>
         if sh_entrycnt h \<noteq> int (length pairs) then Inl (Undefined ''pairs[j]'')
         else if int (length idvalp + length pairs) > cap then Inl (Undefined ''idvalp[progress]'')
         else recv_chunks n mid cap (idvalp @ pairs) inq
       | _ \<Rightarrow> Inl (Undefined ''payload'')))
     | _ \<Rightarrow> Inl (Undefined ''payload''))"

text \<open>Every thread gets the pairs of its range, from where the thread before stopped.\<close>

fun distribute :: "samplingcmd_type \<Rightarrow> range_map \<Rightarrow> int \<Rightarrow> (int \<times> real) list \<Rightarrow> nat \<Rightarrow> scheduler_threadctx list \<Rightarrow>
    (nat \<times> scheduler_threadctx list) result" where
  "distribute type tmap part idvalp idx [] = Inr (idx, [])"
| "distribute type tmap part idvalp idx (st # sts) =
     rbind (range_at tmap part) (\<lambda>r.
     let n = nat (rg_end r - rg_start r + 1) in
     if idx + n > length idvalp then Inl (Undefined ''idvalp[idx]'')
     else rbind (distribute type tmap (part + 1) idvalp (idx + n) sts) (\<lambda>(k, sts).
       Inr (k, put_entry_inq (new_sampling_cmd type (take n (drop idx idvalp)) part) st # sts)))"

definition start_ack :: "int \<Rightarrow> mbuffer" where
  "start_ack taskcnt = sched_mbuffer 0 \<lparr>sh_type = SCHED_START_ACK, sh_mid = 0, sh_thrdgid = 0, sh_entrycnt = 0,
     sh_body = Start_Body \<lparr>sp_taskcnt = taskcnt, sp_start = 0, sp_end = 0, sp_chunks = 0\<rparr>\<rparr>"

text \<open>
  The branches for SCHED_START and SCHED_RESTART differ only in the type of the command that goes to the threads and in the value they return.
\<close>

definition process_start :: "samplingcmd_type \<Rightarrow> sched_start_p \<Rightarrow> sched_machine \<Rightarrow> sched_machine option result" where
  "process_start type amo sk =
     rbind (check (sp_end amo \<noteq> 0) ''end != 0'') (\<lambda>_.
     case map_of (schmach_tmap (sk_tmap sk)) (sk_mid sk) of
       None \<Rightarrow> Inl (CheckFailed ''p != ctx->m_tmap.schmach_tmap.end()'')
     | Some p \<Rightarrow>
         rbind (check (rg_start p = sp_start amo) ''p->second->start == start'') (\<lambda>_.
         rbind (check (rg_end p = sp_end amo) ''p->second->end == end'') (\<lambda>_.
         rbind (recv_chunks (nat (sp_chunks amo)) (sk_mid sk) (sp_end amo - sp_start amo + 1) [] (sk_inq sk)) (\<lambda>r.
         case r of None \<Rightarrow> Inr None | Some (idvalp, inq) \<Rightarrow>
           rbind (check (int (length idvalp) = sp_taskcnt amo) ''progress == taskcnt'') (\<lambda>_.
           rbind (check (map fst idvalp = map (\<lambda>i. sp_start amo + int i) [0..<length idvalp]) ''idvalp[i].id == start + i'') (\<lambda>_.
           rbind (check (sk_mid sk \<ge> 0) ''ctx->m_scheduler_mid >= 0'') (\<lambda>_.
           rbind (distribute type (schthrd_tmap (sk_tmap sk)) (sk_mid sk * sk_thrds sk) idvalp 0 (sk_sthrds sk)) (\<lambda>(idx, sts).
           rbind (check (idx = length idvalp) ''idx == progress'') (\<lambda>_.
           Inr (Some (sk\<lparr>sk_inq := inq, sk_sthrds := sts, sk_outq := sk_outq sk @ [start_ack (sp_taskcnt amo)]\<rparr>)))))))))))"

text \<open>The value is true where the code returns a non-null pointer.\<close>

definition process_sched_system_cmd :: "mbuffer option \<Rightarrow> sched_machine \<Rightarrow> (bool \<times> sched_machine) option result" where
  "process_sched_system_cmd mbuf sk =
     (case mbuf of
        None \<Rightarrow> Inr (Some (False, sk))
      | Some mbuf \<Rightarrow>
          if mb_msg_type mbuf = SYSTEM_SCHEDULING then
            (case mb_data mbuf of
               Sched_Data h \<Rightarrow>
                 (case (sh_type h, sh_body h) of
                    (SCHED_START, Start_Body amo) \<Rightarrow> rbind (process_start m_init_weight_update amo sk) (\<lambda>r. Inr (map_option (Pair True) r))
                  | (SCHED_RESTART, Start_Body amo) \<Rightarrow> rbind (process_start m_restart_weight_update amo sk) (\<lambda>r. Inr (map_option (Pair False) r))
                  | (SCHED_UW, Pairs_Body pairs) \<Rightarrow>
                      let lthrdid = sh_thrdgid h - sk_mid sk * sk_thrds sk in
                      if sh_entrycnt h \<noteq> int (length pairs) then Inl (Undefined ''amo_idvalp[k]'')
                      else if \<not> (0 \<le> lthrdid \<and> nat lthrdid < length (sk_sthrds sk)) then Inl (Undefined ''sthrds[lthrdid]'')
                      else Inr (Some (False, sk\<lparr>sk_sthrds := (sk_sthrds sk)[nat lthrdid :=
                             put_entry_inq (new_sampling_cmd m_weight_update pairs (sh_thrdgid h)) (sk_sthrds sk ! nat lthrdid)]\<rparr>))
                  | (SCHED_START, _) \<Rightarrow> Inl (Undefined ''payload'')
                  | (SCHED_RESTART, _) \<Rightarrow> Inl (Undefined ''payload'')
                  | (SCHED_UW, _) \<Rightarrow> Inl (Undefined ''payload'')
                  | _ \<Rightarrow> Inl (Fatal ''[scheduler] SYSTEM_SCHEDULING msg contains non-support sched-type''))
             | _ \<Rightarrow> Inl (Undefined ''payload''))
          else Inl (CheckFailed ''0''))"

text \<open>
  Common commands, as a scheduler machine serves them.  What a file holds is an argument; binding shards to the parameters of user functions
  is left out.  \<open>insert\<close> keeps an entry that is already there.
\<close>

definition register_shard :: "string \<Rightarrow> dshardctx \<Rightarrow> sched_machine \<Rightarrow> sched_machine" where
  "register_shard alias ds sk =
     (if map_of (sk_shardmap sk) alias = None then sk\<lparr>sk_shardmap := sk_shardmap sk @ [(alias, ds)]\<rparr> else sk)"

definition get_dshard_with_alias :: "string \<Rightarrow> sched_machine \<Rightarrow> dshardctx option" where
  "get_dshard_with_alias alias sk = map_of (sk_shardmap sk) alias"

definition new_dshardctx :: "mini_dshardctx \<Rightarrow> vspmat \<Rightarrow> dshardctx" where
  "new_dshardctx mshard content = \<lparr>ds_rows = md_rows mshard, ds_cols = md_cols mshard, ds_type = md_type mshard,
     ds_c_start = c_start (md_range mshard), ds_c_end = c_end (md_range mshard), ds_cm_vmat = content\<rparr>"

definition command_ack :: "int \<Rightarrow> int \<Rightarrow> mbuffer" where
  "command_ack cmdid rank = \<lparr>mb_msg_type = SYSTEM_HB, mb_cmdid = cmdid, mb_src_rank = rank, mb_data = No_Data\<rparr>"

text \<open>The result: the message for the next handler, if any, the flag \<open>tflag\<close>, and the machine.\<close>

definition process_common_system_cmd ::
  "(mini_dshardctx \<Rightarrow> vspmat) \<Rightarrow> mbuffer \<Rightarrow> sched_machine \<Rightarrow> (mbuffer option \<times> bool \<times> sched_machine) result" where
  "process_common_system_cmd file_content mbuf sk =
     (if mb_msg_type mbuf = SYSTEM_DSHARD_END then
        Inr (Some mbuf, True, sk\<lparr>sk_outq := sk_outq sk @ [command_ack (mb_cmdid mbuf) (sk_rank sk)]\<rparr>)
      else if mb_msg_type mbuf = SYSTEM_DSHARD then
        (case mb_data mbuf of
           Shard_Data mshard \<Rightarrow>
             rbind (if md_fn mshard \<noteq> ''gen-model'' \<and> md_alias mshard = ''Acol'' then check (md_type mshard = cvspt) ''dshard->m_type == cvspt'' else Inr ()) (\<lambda>_.
             let content = (if md_fn mshard \<noteq> ''gen-model'' then file_content mshard else col_vspmat (md_rows mshard) (md_cols mshard));
                 sk = register_shard (md_alias mshard) (new_dshardctx mshard content) sk in
             Inr (None, False, sk\<lparr>sk_outq := sk_outq sk @ [command_ack (mb_cmdid mbuf) (sk_rank sk)]\<rparr>))
         | _ \<Rightarrow> Inl (Undefined ''payload''))
      else Inr (Some mbuf, False, sk))"

section \<open>The loops of the scheduler machine\<close>

text \<open>\<open>sthrds\<close> has MAX_SCHEDULER_THREAD slots.\<close>

definition create_thread :: "int \<Rightarrow> int \<Rightarrow> int \<Rightarrow> task_assignment \<Rightarrow> real \<Rightarrow> int \<Rightarrow> real \<Rightarrow> scheduler_threadctx list \<Rightarrow> nat \<Rightarrow> scheduler_threadctx list result" where
  "create_thread rank mid basepartno tmap bw maxset infthreshold sthrds i =
     rbind (range_at (schthrd_tmap tmap) (basepartno + int i)) (\<lambda>r.
     rbind (new_scheduler_threadctx rank mid (int i) (basepartno + int i) (rg_start r) (rg_end r) bw maxset infthreshold) (\<lambda>st.
     if length sthrds \<ge> 256 then Inl (Undefined ''sthrds[i]'') else Inr (sthrds @ [st])))"

definition new_scheduler_mach :: "int \<Rightarrow> int \<Rightarrow> int \<Rightarrow> task_assignment \<Rightarrow> real \<Rightarrow> int \<Rightarrow> real \<Rightarrow> sched_machine result" where
  "new_scheduler_mach rank mid thrds tmap bw maxset infthreshold =
     rbind (check (mid \<ge> 0) ''ctx->m_scheduler_mid >=0'') (\<lambda>_.
     rbind (foldM (create_thread rank mid (mid * thrds) tmap bw maxset infthreshold) [] [0..<nat thrds]) (\<lambda>sthrds.
     Inr \<lparr>sk_rank = rank, sk_mid = mid, sk_thrds = thrds, sk_tmap = tmap, sk_sthrds = sthrds, sk_rclock = 0, sk_shardmap = [], sk_inq = [], sk_outq = []\<rparr>))"

text \<open>A round of the first loop, which ends with the last shard; the value says whether it has ended.\<close>

definition scheduler_boot_step :: "(mini_dshardctx \<Rightarrow> vspmat) \<Rightarrow> sched_machine \<Rightarrow> (bool \<times> sched_machine) option result" where
  "scheduler_boot_step file_content sk =
     (case sk_inq sk of
        [] \<Rightarrow> Inr (Some (False, sk))
      | mbuf # inq \<Rightarrow>
          rbind (process_common_system_cmd file_content mbuf (sk\<lparr>sk_inq := inq\<rparr>)) (\<lambda>(mbuf, tflag, sk).
          if tflag then Inr (Some (True, sk))
          else rbind (process_sched_system_cmd mbuf sk) (\<lambda>r. Inr (map_option (\<lambda>(_, sk). (False, sk)) r))))"

definition phase_mbuffer :: "sched_machine \<Rightarrow> sampling_cmd \<Rightarrow> mbuffer" where
  "phase_mbuffer sk scmd = sched_mbuffer (sk_rank sk)
     \<lparr>sh_type = SCHED_PHASE, sh_mid = sk_mid sk, sh_thrdgid = sc_samplergid scmd, sh_entrycnt = int (length (wc_entries (sc_winfo scmd))),
      sh_body = Phase_Body (map fst (wc_entries (sc_winfo scmd)))\<rparr>"

text \<open>The scan for a finished phase, from the thread after the one that was served last.\<close>

function phase_scan :: "sched_machine \<Rightarrow> sched_machine result" where
  "phase_scan sk =
     (if sk_rclock sk \<ge> length (sk_sthrds sk) then Inl (Undefined ''sthrds[rclock]'')
      else case get_entry_outq (sk_sthrds sk ! sk_rclock sk) of
        (Some scmd, st) \<Rightarrow>
          Inr (sk\<lparr>sk_sthrds := (sk_sthrds sk)[sk_rclock sk := st], sk_outq := sk_outq sk @ [phase_mbuffer sk scmd],
                 sk_rclock := (sk_rclock sk + 1) mod length (sk_sthrds sk)\<rparr>)
      | (None, _) \<Rightarrow>
          if (sk_rclock sk + 1) mod length (sk_sthrds sk) = 0 then Inr (sk\<lparr>sk_rclock := 0\<rparr>)
          else phase_scan (sk\<lparr>sk_rclock := sk_rclock sk + 1\<rparr>))"
  by pat_completeness auto

termination
  by (relation "measure (\<lambda>sk. length (sk_sthrds sk) - sk_rclock sk)") auto

declare phase_scan.simps [simp del]

text \<open>A round of the second loop.\<close>

definition scheduler_mach_step :: "sched_machine \<Rightarrow> sched_machine option result" where
  "scheduler_mach_step sk =
     (case sk_inq sk of
        [] \<Rightarrow> rbind (phase_scan sk) (\<lambda>sk. Inr (Some sk))
      | mbuf # inq \<Rightarrow>
          rbind (process_sched_system_cmd (Some mbuf) (sk\<lparr>sk_inq := inq\<rparr>)) (\<lambda>r.
          case r of None \<Rightarrow> Inr None
          | Some (cont, sk) \<Rightarrow> if cont then Inr (Some sk) else rbind (phase_scan sk) (\<lambda>sk. Inr (Some sk))))"

section \<open>Chunks\<close>

definition pairs_of :: "real list \<Rightarrow> int \<Rightarrow> int \<Rightarrow> (int \<times> real) list" where
  "pairs_of weights a b = map (\<lambda>g. (g, weights ! nat g)) [a..b - 1]"

lemma pairs_of_empty: "b \<le> a \<Longrightarrow> pairs_of weights a b = []"
  by (simp add: pairs_of_def)

lemma pairs_of_Cons: "a < b \<Longrightarrow> pairs_of weights a b = (a, weights ! nat a) # pairs_of weights (a + 1) b"
  by (simp add: pairs_of_def upto_rec1)

lemma pairs_of_append: "a \<le> b \<Longrightarrow> b \<le> c \<Longrightarrow> pairs_of weights a c = pairs_of weights a b @ pairs_of weights b c"
  using upto_split1 [of a b "c - 1"] by (cases "b = c") (simp_all add: pairs_of_def flip: map_append)

lemma pairs_of_length: "length (pairs_of weights a b) = nat (b - a)"
  by (simp add: pairs_of_def)

lemma entry_per_chunk_eq: "entry_per_chunk = 508"
  by (simp add: entry_per_chunk_def sched_dlen_def sizeof_idval_pair_def sdiv_nonneg)

lemma chunk_fill_pairs:
  "0 \<le> progress \<Longrightarrow> progress < taskcnt \<Longrightarrow> 0 \<le> pos \<Longrightarrow> pos + (taskcnt - progress) \<le> int (length weights) \<Longrightarrow>
   chunk_fill weights n pos taskcnt progress =
     Inr (pairs_of weights pos (pos + min (int n) (taskcnt - progress)), progress + min (int n) (taskcnt - progress))"
proof (induction weights n pos taskcnt progress rule: chunk_fill.induct)
  case (2 weights n pos taskcnt progress)
  have r: "weight_read weights pos = Inr (weights ! nat pos)" using "2.prems" by (simp add: weight_read_def)
  show ?case
  proof (cases "progress + 1 = taskcnt")
    case True
    then show ?thesis by (simp add: r rbind_def pairs_of_Cons pairs_of_empty)
  next
    case False
    then have "chunk_fill weights n (pos + 1) taskcnt (progress + 1) =
        Inr (pairs_of weights (pos + 1) (pos + 1 + min (int n) (taskcnt - (progress + 1))), progress + 1 + min (int n) (taskcnt - (progress + 1)))"
      using "2.prems" r by (intro "2.IH") auto
    moreover have "min (int (Suc n)) (taskcnt - progress) = 1 + min (int n) (taskcnt - (progress + 1))" by simp
    ultimately show ?thesis using False "2.prems"
      by (simp add: r rbind_def pairs_of_Cons add.assoc del: of_nat_Suc)
  qed
qed (simp add: pairs_of_empty)

text \<open>What one side cuts the other puts together.\<close>

lemma chunk_roundtrip:
  assumes "0 \<le> start" "start + taskcnt \<le> int (length weights)"
  shows "0 \<le> ci \<Longrightarrow> 0 \<le> taskcnt \<Longrightarrow> taskcnt \<le> (ci + int n) * 508 \<Longrightarrow> (n \<noteq> 0 \<longrightarrow> (ci + int n - 1) * 508 < taskcnt) \<Longrightarrow>
    \<exists>msgs. chunk_loop rank mid weights n ci start taskcnt (min taskcnt (ci * 508)) = Inr msgs \<and> length msgs = n \<and>
      (\<forall>acc rest cap. int (length acc) + (taskcnt - min taskcnt (ci * 508)) \<le> cap \<longrightarrow>
        recv_chunks n mid cap acc (msgs @ rest) = Inr (Some (acc @ pairs_of weights (start + min taskcnt (ci * 508)) (start + taskcnt), rest)))"
proof (induction n arbitrary: ci)
  case 0
  then show ?case by (simp add: pairs_of_empty)
next
  case (Suc n)
  let ?p = "ci * 508" and ?q = "min taskcnt ((ci + 1) * 508)"
  have lt: "?p < taskcnt" using Suc.prems(4) by simp
  then have m: "min taskcnt ?p = ?p" by simp
  have cf: "chunk_fill weights (nat entry_per_chunk) (start + ci * entry_per_chunk) taskcnt ?p = Inr (pairs_of weights (start + ?p) (start + ?q), ?q)"
  proof -
    have "?p + min 508 (taskcnt - ?p) = ?q" by (simp add: min_def algebra_simps)
    then show ?thesis
      using chunk_fill_pairs [of ?p taskcnt "start + ?p" weights "nat entry_per_chunk"] Suc.prems(1) lt assms
      by (simp add: entry_per_chunk_eq add.assoc)
  qed
  have c1: "0 \<le> ci + 1" using Suc.prems(1) by simp
  have "(n \<noteq> 0 \<longrightarrow> (ci + 1 + int n - 1) * 508 < taskcnt)" "taskcnt \<le> (ci + 1 + int n) * 508" using Suc.prems(3,4) by simp_all
  then obtain msgs where c: "chunk_loop rank mid weights n (ci + 1) start taskcnt ?q = Inr msgs" "length msgs = n"
    and r: "\<And>acc rest cap. int (length acc) + (taskcnt - ?q) \<le> cap \<Longrightarrow>
        recv_chunks n mid cap acc (msgs @ rest) = Inr (Some (acc @ pairs_of weights (start + ?q) (start + taskcnt), rest))"
    using Suc.IH [OF c1 Suc.prems(2)] by blast
  define ps where "ps = pairs_of weights (start + ?p) (start + ?q)"
  define msg where "msg = sched_mbuffer rank \<lparr>sh_type = SCHED_INITVAL, sh_mid = mid, sh_thrdgid = - 1, sh_entrycnt = int (length ps), sh_body = Pairs_Body ps\<rparr>"
  have len: "int (length ps) = ?q - ?p" using lt by (simp add: ps_def pairs_of_length)
  have app: "ps @ pairs_of weights (start + ?q) (start + taskcnt) = pairs_of weights (start + ?p) (start + taskcnt)"
    unfolding ps_def using lt by (intro pairs_of_append [symmetric]) simp_all
  have "recv_chunks (Suc n) mid cap acc ((msg # msgs) @ rest) = Inr (Some (acc @ pairs_of weights (start + ?p) (start + taskcnt), rest))"
    if cap: "int (length acc) + (taskcnt - ?p) \<le> cap" for acc rest cap
  proof -
    have "\<not> int (length acc + length ps) > cap" using cap len by simp
    then have "recv_chunks (Suc n) mid cap acc ((msg # msgs) @ rest) = recv_chunks n mid cap (acc @ ps) (msgs @ rest)"
      by (simp add: msg_def sched_mbuffer_def check_def rbind_def)
    also have "\<dots> = Inr (Some ((acc @ ps) @ pairs_of weights (start + ?q) (start + taskcnt), rest))"
      using cap len by (intro r) simp
    finally show ?thesis unfolding append_assoc app .
  qed
  moreover have "chunk_loop rank mid weights (Suc n) ci start taskcnt ?p = Inr (msg # msgs)"
    unfolding chunk_loop.simps cf using c(1) by (simp add: rbind_def msg_def ps_def)
  ultimately show ?case unfolding m using c(2) by (intro exI [of _ "msg # msgs"]) simp
qed

lemma pairs_of_slice:
  assumes "a \<le> b" "b \<le> c" "c \<le> d"
  shows "take (nat (c - b)) (drop (nat (b - a)) (pairs_of weights a d)) = pairs_of weights b c"
proof -
  have "pairs_of weights a d = pairs_of weights a b @ pairs_of weights b c @ pairs_of weights c d"
    using assms pairs_of_append [of a b d] pairs_of_append [of b c d] by simp
  then show ?thesis by (simp add: pairs_of_length)
qed

text \<open>Thread k of the machine gets the weights of its range.\<close>

definition start_cmd :: "samplingcmd_type \<Rightarrow> real list \<Rightarrow> int \<Rightarrow> int \<Rightarrow> int \<Rightarrow> sampling_cmd" where
  "start_cmd type weights modelsize parts k =
     new_sampling_cmd type (pairs_of weights (part_start modelsize parts k) (part_start modelsize parts (k + 1))) k"

lemma distribute_ok:
  assumes m: "0 \<le> modelsize" "0 < parts"
  shows "0 \<le> base \<Longrightarrow> base \<le> part \<Longrightarrow> part + int (length sts) \<le> hi \<Longrightarrow> hi \<le> parts \<Longrightarrow>
    distribute type (parts_upto (part_range modelsize parts) (nat parts)) part
      (pairs_of weights (part_start modelsize parts base) (part_start modelsize parts hi))
      (nat (part_start modelsize parts part - part_start modelsize parts base)) sts =
    Inr (nat (part_start modelsize parts (part + int (length sts)) - part_start modelsize parts base),
         map2 (\<lambda>k. put_entry_inq (start_cmd type weights modelsize parts k)) (map (\<lambda>j. part + int j) [0..<length sts]) sts)"
proof (induction sts arbitrary: part)
  case (Cons st sts)
  let ?f = "part_start modelsize parts" and ?ps = "pairs_of weights (part_start modelsize parts base) (part_start modelsize parts hi)"
  have mono: "i \<le> j \<Longrightarrow> ?f i \<le> ?f j" for i j using part_start_mono [OF m] .
  have le: "?f base \<le> ?f part" "?f part \<le> ?f (part + 1)" "?f (part + 1) \<le> ?f hi" using Cons.prems by (auto intro!: mono)
  have r: "range_at (parts_upto (part_range modelsize parts) (nat parts)) part = Inr (part_range modelsize parts part)"
    using Cons.prems by (simp add: range_at_def parts_upto_at)
  have idx: "nat (?f part - ?f base) + nat (?f (part + 1) - ?f part) = nat (?f (part + 1) - ?f base)" using le by simp
  have IH: "distribute type (parts_upto (part_range modelsize parts) (nat parts)) (part + 1) ?ps (nat (?f (part + 1) - ?f base)) sts =
      Inr (nat (?f (part + 1 + int (length sts)) - ?f base),
           map2 (\<lambda>k. put_entry_inq (start_cmd type weights modelsize parts k)) (map (\<lambda>j. part + 1 + int j) [0..<length sts]) sts)"
    using Cons.prems by (intro Cons.IH) auto
  have sl: "take (nat (?f (part + 1) - ?f part)) (drop (nat (?f part - ?f base)) ?ps) = pairs_of weights (?f part) (?f (part + 1))"
    using le by (intro pairs_of_slice)
  have up: "map (\<lambda>j. part + int j) [0..<length (st # sts)] = part # map (\<lambda>j. part + 1 + int j) [0..<length sts]"
    unfolding length_Cons map_upt_Suc by (simp add: add.assoc)
  have "part_range modelsize parts part = \<lparr>rg_start = ?f part, rg_end = ?f (part + 1) - 1\<rparr>" by (simp add: part_range_def)
  then show ?case using IH sl idx le unfolding up
    by (simp add: r Let_def pairs_of_length start_cmd_def add.assoc)
qed simp

section \<open>Starting the schedulers\<close>

lemma chunks_cover:
  fixes taskcnt :: int
  assumes "0 < taskcnt"
  defines "chunks \<equiv> (if taskcnt smod 508 = 0 then taskcnt sdiv 508 else taskcnt sdiv 508 + 1)"
  shows "0 < chunks" "taskcnt \<le> chunks * 508" "(chunks - 1) * 508 < taskcnt"
proof -
  have t: "taskcnt = taskcnt div 508 * 508 + taskcnt mod 508" "0 \<le> taskcnt mod 508" "taskcnt mod 508 < 508" by simp_all
  then have "taskcnt div 508 * 508 < taskcnt" if "taskcnt mod 508 \<noteq> 0" using that by linarith
  with t show "0 < chunks" "taskcnt \<le> chunks * 508" "(chunks - 1) * 508 < taskcnt"
    using assms(1) by (auto simp: chunks_def sdiv_nonneg smod_nonneg)
qed

text \<open>The tasks of machine \<open>mid\<close> lie between these two cuts.\<close>

lemma machine_cuts:
  assumes "0 < machs" "0 < thr" "0 \<le> mid" "mid < machs" "2 * (machs * thr) \<le> modelsize"
  defines "f \<equiv> part_start modelsize (machs * thr)"
  shows "0 \<le> f (mid * thr)" "f (mid * thr) + 2 \<le> f ((mid + 1) * thr)" "f ((mid + 1) * thr) \<le> modelsize" "(mid + 1) * thr \<le> machs * thr"
proof -
  let ?p = "machs * thr"
  have p: "0 < ?p" using assms(1,2) by simp
  have m: "0 \<le> modelsize" using assms(5) p by linarith
  show le: "(mid + 1) * thr \<le> ?p" using assms(2,4) by (intro mult_right_mono) auto
  have b: "f 0 = 0" "f ?p = modelsize" using part_start_bounds(2,3) [OF m p, of 0] p by (simp_all add: f_def)
  have mt: "0 \<le> mid * thr" using assms(2,3) by simp
  show "0 \<le> f (mid * thr)" using part_start_mono [OF m p mt] b by (simp add: f_def)
  show "f ((mid + 1) * thr) \<le> modelsize" using part_start_mono [OF m p le] b by (simp add: f_def)
  have "2 * ?p div ?p = 2" using p by (intro nonzero_mult_div_cancel_right) linarith
  then have "2 \<le> modelsize div ?p" using zdiv_mono1 [OF assms(5) p] by linarith
  then have "f (mid * thr) + 2 \<le> f (mid * thr + 1)" using part_start_step [of modelsize ?p "mid * thr"] by (simp add: f_def)
  moreover have "mid * thr + 1 \<le> (mid + 1) * thr" using assms(2) by (simp add: algebra_simps)
  then have "f (mid * thr + 1) \<le> f ((mid + 1) * thr)" unfolding f_def by (rule part_start_mono [OF m p])
  ultimately show "f (mid * thr) + 2 \<le> f ((mid + 1) * thr)" by linarith
qed

lemma process_start_ok:
  assumes "map_of (schmach_tmap (sk_tmap sk)) (sk_mid sk) = Some \<lparr>rg_start = a, rg_end = b - 1\<rparr>" "b - 1 \<noteq> 0" "0 \<le> sk_mid sk"
    "recv_chunks (nat n) (sk_mid sk) (b - a) [] (sk_inq sk) = Inr (Some (pairs_of weights a b, rest))" "a \<le> b"
    "distribute type (schthrd_tmap (sk_tmap sk)) (sk_mid sk * sk_thrds sk) (pairs_of weights a b) 0 (sk_sthrds sk) = Inr (nat (b - a), sts)"
  shows "process_start type \<lparr>sp_taskcnt = b - a, sp_start = a, sp_end = b - 1, sp_chunks = n\<rparr> sk =
    Inr (Some (sk\<lparr>sk_inq := rest, sk_sthrds := sts, sk_outq := sk_outq sk @ [start_ack (b - a)]\<rparr>))"
proof -
  have "map fst (pairs_of weights a b) = map (\<lambda>i. a + int i) [0..<nat (b - a)]"
    by (intro nth_equalityI) (simp_all add: pairs_of_def)
  then show ?thesis using assms by (simp add: process_start_def check_def rbind_def pairs_of_length)
qed

text \<open>
  C16. Round trip: the coordinator cuts the weights of a scheduler machine's tasks into messages; the machine that receives them puts
  them together, hands each of its threads one command with the weights of exactly the tasks of its range, in their order, and sends an
  acknowledgement that the coordinator accepts.  No message is left over.
\<close>

theorem start_roundtrip:
  assumes "0 < machs" "0 < thr" "0 \<le> mid" "mid < machs" "2 * (machs * thr) \<le> modelsize" "modelsize \<le> 1990 * 508"
    "int (length weights) = modelsize" "make_scheduling_taskpartition modelsize machs thr = Inr ta"
    "sk_mid sk = mid" "sk_thrds sk = thr" "sk_tmap sk = ta" "int (length (sk_sthrds sk)) = thr"
  shows "\<exists>m msgs r. scheduler_start_msgs rank ta weights rflag mid = Inr (m # msgs) \<and> map_of (schmach_tmap ta) mid = Some r \<and>
    scheduler_start_ack r (start_ack (rg_end r - rg_start r + 1)) = Inr () \<and>
    process_sched_system_cmd (Some m) (sk\<lparr>sk_inq := msgs @ rest\<rparr>) = Inr (Some (\<not> rflag, sk\<lparr>sk_inq := rest,
      sk_sthrds := map2 (\<lambda>k. put_entry_inq (start_cmd (if rflag then m_restart_weight_update else m_init_weight_update) weights modelsize (machs * thr) k))
        (map (\<lambda>j. mid * thr + int j) [0..<length (sk_sthrds sk)]) (sk_sthrds sk),
      sk_outq := sk_outq sk @ [start_ack (rg_end r - rg_start r + 1)]\<rparr>))"
proof -
  let ?p = "machs * thr" and ?type = "if rflag then m_restart_weight_update else m_init_weight_update"
  define a where "a = part_start modelsize ?p (mid * thr)"
  define b where "b = part_start modelsize ?p ((mid + 1) * thr)"
  note cuts = machine_cuts [OF assms(1-5), folded a_def b_def]
  have "0 < ?p" using assms(1,2) by simp
  then have m: "0 \<le> modelsize" "0 < ?p" using assms(5) by linarith+
  have ta: "ta = \<lparr>schmach_tmap = parts_upto (super_range modelsize ?p thr) (nat machs), schthrd_tmap = parts_upto (part_range modelsize ?p) (nat ?p)\<rparr>"
    using partition_ok [OF m(1) assms(1,2)] assms(8) by simp
  have r: "map_of (schmach_tmap ta) mid = Some \<lparr>rg_start = a, rg_end = b - 1\<rparr>"
    using assms(3,4) by (simp add: ta parts_upto_iff super_range_def a_def b_def)
  define n where "n = (if (b - a) smod 508 = 0 then (b - a) sdiv 508 else (b - a) sdiv 508 + 1)"
  have n: "0 < n" "b - a \<le> n * 508" "(n - 1) * 508 < b - a" using chunks_cover [of "b - a"] cuts by (simp_all add: n_def)
  have "(n - 1) * 508 < 1990 * 508" using n(3) cuts(1,3) assms(6) by linarith
  then have n': "n \<le> 1990" by simp
  obtain msgs where c: "chunk_loop rank mid weights (nat n) 0 a (b - a) 0 = Inr msgs"
    and rc: "recv_chunks (nat n) mid (b - a) [] (msgs @ rest) = Inr (Some (pairs_of weights a b, rest))"
    using chunk_roundtrip [of a "b - a" weights 0 "nat n" rank mid] n cuts assms(7) by auto
  have d: "distribute ?type (schthrd_tmap ta) (mid * thr) (pairs_of weights a b) 0 (sk_sthrds sk) = Inr (nat (b - a),
      map2 (\<lambda>k. put_entry_inq (start_cmd ?type weights modelsize ?p k)) (map (\<lambda>j. mid * thr + int j) [0..<length (sk_sthrds sk)]) (sk_sthrds sk))"
    using distribute_ok [OF m, of "mid * thr" "mid * thr" "sk_sthrds sk" "(mid + 1) * thr" ?type weights] assms(2,3,12) cuts(4)
    by (simp add: ta a_def b_def algebra_simps)
  let ?amo = "\<lparr>sp_taskcnt = b - a, sp_start = a, sp_end = b - 1, sp_chunks = n\<rparr>"
  have s: "scheduler_start_msgs rank ta weights rflag mid = Inr (sched_mbuffer rank \<lparr>sh_type = (if rflag then SCHED_RESTART else SCHED_START), sh_mid = mid,
      sh_thrdgid = - 1, sh_entrycnt = 1, sh_body = Start_Body ?amo\<rparr> # msgs)"
    using r c n n' by (simp add: scheduler_start_msgs_def Let_def entry_per_chunk_eq n_def [symmetric] check_def rbind_def MAX_ZMQ_HWM_def)
  have k: "scheduler_start_ack \<lparr>rg_start = a, rg_end = b - 1\<rparr> (start_ack (b - a)) = Inr ()"
    by (simp add: scheduler_start_ack_def start_ack_def sched_mbuffer_def check_def rbind_def)
  have ps: "process_start ?type ?amo (sk\<lparr>sk_inq := msgs @ rest\<rparr>) = Inr (Some (sk\<lparr>sk_inq := rest,
      sk_sthrds := map2 (\<lambda>k. put_entry_inq (start_cmd ?type weights modelsize ?p k)) (map (\<lambda>j. mid * thr + int j) [0..<length (sk_sthrds sk)]) (sk_sthrds sk),
      sk_outq := sk_outq sk @ [start_ack (b - a)]\<rparr>))"
    using process_start_ok [of "sk\<lparr>sk_inq := msgs @ rest\<rparr>" a b n weights rest ?type] r rc d assms(3,9-11) cuts by simp
  show ?thesis using s k r ps cuts
    by (simp add: process_sched_system_cmd_def sched_mbuffer_def rbind_def split: if_splits)
qed

definition example_machine :: "task_assignment \<Rightarrow> sched_machine" where
  "example_machine ta = \<lparr>sk_rank = 1, sk_mid = 0, sk_thrds = 1, sk_tmap = ta, sk_sthrds = [example_thread], sk_rclock = 0, sk_shardmap = [],
     sk_inq = [], sk_outq = []\<rparr>"

theorem start_roundtrip_witness:
  "\<exists>ta m msgs r sk'. make_scheduling_taskpartition 2 1 1 = Inr ta \<and> scheduler_start_msgs 2 ta [3, 4] False 0 = Inr (m # msgs) \<and>
     map_of (schmach_tmap ta) 0 = Some r \<and> scheduler_start_ack r (start_ack (rg_end r - rg_start r + 1)) = Inr () \<and>
     process_sched_system_cmd (Some m) ((example_machine ta)\<lparr>sk_inq := msgs\<rparr>) = Inr (Some (True, sk')) \<and> sk_inq sk' = []"
proof -
  obtain ta where ta: "make_scheduling_taskpartition 2 1 1 = Inr ta" using partition_ok [of 2 1 1] by auto
  show ?thesis
    using start_roundtrip [of 1 1 0 2 "[3, 4]" ta "example_machine ta" 2 False "[]"] ta by (auto simp: example_machine_def)
qed

section \<open>Serving the threads in turn\<close>

text \<open>A scan ends at the first thread from \<open>rclock\<close> on that has a phase.\<close>

lemma phase_scan_none:
  assumes "sk_rclock sk < length (sk_sthrds sk)" "\<forall>j. sk_rclock sk \<le> j \<and> j < length (sk_sthrds sk) \<longrightarrow> st_outq (sk_sthrds sk ! j) = []"
  shows "phase_scan sk = Inr (sk\<lparr>sk_rclock := 0\<rparr>)"
  using assms
proof (induction sk rule: phase_scan.induct)
  case (1 sk)
  have g: "get_entry_outq (sk_sthrds sk ! sk_rclock sk) = (None, sk_sthrds sk ! sk_rclock sk)" using "1.prems" by (simp add: get_entry_outq_def)
  show ?case
  proof (cases "(sk_rclock sk + 1) mod length (sk_sthrds sk) = 0")
    case True
    then show ?thesis using "1.prems"(1) g by (subst phase_scan.simps) simp
  next
    case False
    then have "sk_rclock sk + 1 < length (sk_sthrds sk)" using "1.prems"(1) by (cases "sk_rclock sk + 1 = length (sk_sthrds sk)") auto
    then have "phase_scan (sk\<lparr>sk_rclock := sk_rclock sk + 1\<rparr>) = Inr (sk\<lparr>sk_rclock := sk_rclock sk + 1\<rparr>\<lparr>sk_rclock := 0\<rparr>)"
      using "1.prems" g False by (intro "1.IH" [OF _ g [symmetric] refl]) auto
    then show ?thesis using "1.prems"(1) g False by (subst phase_scan.simps) simp
  qed
qed

lemma phase_scan_first:
  assumes "sk_rclock sk \<le> k" "k < length (sk_sthrds sk)" "\<forall>j. sk_rclock sk \<le> j \<and> j < k \<longrightarrow> st_outq (sk_sthrds sk ! j) = []"
    "st_outq (sk_sthrds sk ! k) = scmd # q"
  shows "phase_scan sk = Inr (sk\<lparr>sk_sthrds := (sk_sthrds sk)[k := (sk_sthrds sk ! k)\<lparr>st_outq := q\<rparr>],
    sk_outq := sk_outq sk @ [phase_mbuffer sk scmd], sk_rclock := (k + 1) mod length (sk_sthrds sk)\<rparr>)"
  using assms
proof (induction sk rule: phase_scan.induct)
  case (1 sk)
  show ?case
  proof (cases "sk_rclock sk = k")
    case True
    then show ?thesis using "1.prems" by (subst phase_scan.simps) (simp add: get_entry_outq_def phase_mbuffer_def)
  next
    case False
    have g: "get_entry_outq (sk_sthrds sk ! sk_rclock sk) = (None, sk_sthrds sk ! sk_rclock sk)"
      using "1.prems"(1,3) False by (simp add: get_entry_outq_def)
    have lt: "sk_rclock sk + 1 < length (sk_sthrds sk)" "sk_rclock sk + 1 \<le> k" using "1.prems"(1,2) False by simp_all
    let ?sk = "sk\<lparr>sk_rclock := sk_rclock sk + 1\<rparr>"
    have "phase_scan ?sk = Inr (?sk\<lparr>sk_sthrds := (sk_sthrds ?sk)[k := (sk_sthrds ?sk ! k)\<lparr>st_outq := q\<rparr>],
        sk_outq := sk_outq ?sk @ [phase_mbuffer ?sk scmd], sk_rclock := (k + 1) mod length (sk_sthrds ?sk)\<rparr>)"
      using "1.prems" g lt by (intro "1.IH" [OF _ g [symmetric] refl]) auto
    then show ?thesis using g lt by (subst phase_scan.simps) (simp add: phase_mbuffer_def)
  qed
qed

end
