(* ===== verification/Strads_Cycle.thy ===== *)
theory Strads_Cycle
imports Strads_Machine
begin

text \<open>
  The scheduling cycle of Strads: a scheduler thread sends a phase, the coordinator has its tasks executed and answers with their new weights
  (\<open>coordinator_mach\<close>, src/strads/coordinator/coordinator.cpp), and the scheduler machine hands the answer to the same thread.
  The routines of the application that execute the tasks are an argument.
\<close>

section \<open>The coordinator's answer to a phase\<close>

text \<open>
  The local variables of \<open>coordinator_mach\<close>, the parameters it reads, and the receive ports of the scheduler machines: for each machine
  the messages that the coordinator will pull, in their order.  The buffer \<open>m_idvalp_buf\<close> has \<open>maxset\<close> entries and is only filled when the
  routines of the application have a result; \<open>user_values\<close> gives the value of every task of the phase then.  Before iteration \<open>switch_iter\<close> the weights are zero.
\<close>

record coordinator =
  co_iteration :: int
  co_switch_iter :: int
  co_rclock :: int
  co_idvalp_buf :: "(int \<times> real) list"
  co_m_iter :: int
  co_m_logfreq :: int
  co_m_schedulers :: int
  co_m_thrds_per_scheduler :: int
  co_m_sched_machines :: int
  co_rank :: int
  co_tmap :: task_assignment
  co_recvports :: "mbuffer list list"

definition fill_buf :: "coordinator \<Rightarrow> (int \<Rightarrow> real) \<Rightarrow> int list \<Rightarrow> (int \<times> real) list" where
  "fill_buf co vals ids = map (\<lambda>g. (g, if co_iteration co > co_switch_iter co then vals g else 0)) ids"

definition answer_phase :: "(int list \<Rightarrow> (int \<Rightarrow> real) option) \<Rightarrow> mbuffer \<Rightarrow> coordinator \<Rightarrow> (mbuffer \<times> coordinator) result" where
  "answer_phase user_values mbuf co =
     rbind (check (mb_msg_type mbuf = SYSTEM_SCHEDULING) ''mbuf->msg_type == SYSTEM_SCHEDULING'') (\<lambda>_.
     case mb_data mbuf of
       Sched_Data h \<Rightarrow>
         rbind (check (sh_type h = SCHED_PHASE) ''ptaskmsg->type == SCHED_PHASE'') (\<lambda>_.
         (case sh_body h of
            Phase_Body ids \<Rightarrow>
              if sh_entrycnt h \<noteq> int (length ids) \<or> length ids > length (co_idvalp_buf co) then Inl (Undefined ''m_idvalp_buf[i]'')
              else
                let buf = (case user_values ids of
                             Some vals \<Rightarrow> fill_buf co vals ids @ drop (length ids) (co_idvalp_buf co)
                           | None \<Rightarrow> co_idvalp_buf co) in
                rbind (send_weight_update (sh_mid h) (sh_thrdgid h) (take (length ids) buf)) (\<lambda>m.
                Inr (m, co\<lparr>co_idvalp_buf := buf\<rparr>))
          | _ \<Rightarrow> Inl (Undefined ''payload'')))
     | _ \<Rightarrow> Inl (Undefined ''payload''))"

section \<open>The end of the coordinator's round\<close>

text \<open>
  The restart throws away one message of each scheduler thread: every pass takes at most one from each port.  The result is None when the passes find
  nothing more before the count is reached, or pass beyond it: then the loop of the source goes on for ever, unless more messages come.
\<close>

function flush_loop :: "int \<Rightarrow> int \<Rightarrow> mbuffer list list \<Rightarrow> mbuffer list list option" where
  "flush_loop schedthrds toflush ports =
     (let got = length (filter (\<lambda>q. q \<noteq> []) ports) in
      if toflush + int got = schedthrds then Some (map tl ports)
      else if got = 0 then None
      else flush_loop schedthrds (toflush + int got) (map tl ports))"
  by pat_completeness auto

lemma tails_shorter: "filter (\<lambda>q. q \<noteq> []) qs \<noteq> [] \<Longrightarrow> sum_list (map length (map tl qs)) < sum_list (map length qs)"
proof (induction qs)
  case (Cons q qs)
  have "sum_list (map length (map tl qs)) \<le> sum_list (map length qs)" by (induction qs) auto
  with Cons show ?case by (cases q) auto
qed simp

termination flush_loop
proof (relation "measure (\<lambda>(_, _, ports). sum_list (map length ports))")
  fix schedthrds toflush :: int and ports :: "mbuffer list list" and got
  assume "got = length (filter (\<lambda>q. q \<noteq> []) ports)" "got \<noteq> 0"
  then have "filter (\<lambda>q. q \<noteq> []) ports \<noteq> []" by auto
  from tails_shorter [OF this]
  show "((schedthrds, toflush + int got, map tl ports), schedthrds, toflush, ports) \<in> measure (\<lambda>(_, _, ports). sum_list (map length ports))" by simp
qed simp

declare flush_loop.simps [simp del]

text \<open>\<open>_scheduler_start_remote\<close>: the messages to the machines in turn, each of which acknowledges before the next one is served; None while an acknowledgement is missing.\<close>

fun scheduler_start_remote :: "int \<Rightarrow> task_assignment \<Rightarrow> real list \<Rightarrow> bool \<Rightarrow> int list \<Rightarrow> mbuffer list list \<Rightarrow> (mbuffer list list \<times> mbuffer list list) option result" where
  "scheduler_start_remote rank tmap weights rflag [] ports = Inr (Some ([], ports))"
| "scheduler_start_remote rank tmap weights rflag (i # machs) ports =
     rbind (scheduler_start_msgs rank tmap weights rflag i) (\<lambda>msgs.
     if \<not> (0 \<le> i \<and> nat i < length ports) then Inl (Undefined ''scheduler_recvportmap[i]'')
     else case ports ! nat i of
       [] \<Rightarrow> Inr None
     | buf # q \<Rightarrow>
         (case map_of (schmach_tmap tmap) i of
            None \<Rightarrow> Inl (CheckFailed ''p != ctx->m_tmap.schmach_tmap.end()'')
          | Some r \<Rightarrow>
              rbind (scheduler_start_ack r buf) (\<lambda>_.
              rbind (scheduler_start_remote rank tmap weights rflag machs (ports[nat i := q])) (\<lambda>rest.
              Inr (map_option (\<lambda>(sent, ports). (msgs # sent, ports)) rest)))))"

text \<open>
  How a round ends: with the next one, with \<open>exit(0)\<close> after iteration \<open>m_iter\<close>, with the schedulers restarted after iteration \<open>switch_iter\<close> (the messages
  to each of them), or waiting in that restart.
\<close>

datatype round_end = Next_Round coordinator | Finished | Restarted "mbuffer list list" coordinator | Waiting

text \<open>
  \<open>priority\<close> are the weights after \<open>set_initial_priority\<close> of the application.  Every \<open>m_logfreq\<close> rounds the coordinator reports the value of the objective
  that it has the workers compute; that exchange changes none of these variables.
\<close>

definition restart_schedulers :: "real list \<Rightarrow> coordinator \<Rightarrow> (mbuffer list list \<times> coordinator) option result" where
  "restart_schedulers priority co =
     (if co_m_schedulers co \<noteq> int (length (co_recvports co)) then Inl (Undefined ''scheduler_recvportmap[m]'')
      else case flush_loop (co_m_schedulers co * co_m_thrds_per_scheduler co) 0 (co_recvports co) of
        None \<Rightarrow> Inr None
      | Some ports \<Rightarrow>
          rbind (scheduler_start_remote (co_rank co) (co_tmap co) priority True [0..co_m_sched_machines co - 1] ports) (\<lambda>r.
          Inr (map_option (\<lambda>(sent, ports). (sent, co\<lparr>co_recvports := ports\<rparr>)) r)))"

definition end_round :: "real list \<Rightarrow> coordinator \<Rightarrow> round_end result" where
  "end_round priority co =
     (let co = co\<lparr>co_iteration := co_iteration co + 1\<rparr>;
          advance = (\<lambda>co. rbind (c_mod (co_rclock co + 1) (co_m_sched_machines co)) (\<lambda>rclock. Inr (co\<lparr>co_rclock := rclock\<rparr>))) in
      rbind (c_mod (co_iteration co) (co_m_logfreq co)) (\<lambda>_.
      if co_iteration co = co_m_iter co then Inr Finished
      else if co_iteration co = co_switch_iter co then
        rbind (restart_schedulers priority co) (\<lambda>r. case r of None \<Rightarrow> Inr Waiting
          | Some (sent, co) \<Rightarrow> rbind (advance co) (\<lambda>co. Inr (Restarted sent co)))
      else rbind (advance co) (\<lambda>co. Inr (Next_Round co))))"

text \<open>
  One pass of the inner loop of \<open>coordinator_mach\<close>: it looks at the port of machine \<open>rclock\<close> and serves the phase it finds there, or goes to the next port.
  The message to the scheduler machine, if there is one, and how the pass ends.
\<close>

definition coordinator_mach_step :: "(int list \<Rightarrow> (int \<Rightarrow> real) option) \<Rightarrow> real list \<Rightarrow> coordinator \<Rightarrow> (mbuffer option \<times> round_end) result" where
  "coordinator_mach_step user_values priority co =
     (if \<not> (0 \<le> co_rclock co \<and> nat (co_rclock co) < length (co_recvports co)) then Inl (Undefined ''scheduler_recvportmap[rclock]'')
      else case co_recvports co ! nat (co_rclock co) of
        [] \<Rightarrow>
          rbind (c_mod (co_rclock co + 1) (co_m_sched_machines co)) (\<lambda>r.
          Inr (None, Next_Round (co\<lparr>co_rclock := (if r = 0 then 0 else co_rclock co + 1)\<rparr>)))
      | mbuf # q \<Rightarrow>
          rbind (answer_phase user_values mbuf (co\<lparr>co_recvports := (co_recvports co)[nat (co_rclock co) := q]\<rparr>)) (\<lambda>(m, co).
          rbind (end_round priority co) (\<lambda>e. Inr (Some m, e))))"

section \<open>The cycle\<close>

text \<open>A thread of the machine that has nothing to do but a weight update.\<close>

definition thread_ready :: "dshardctx \<Rightarrow> sched_machine \<Rightarrow> nat \<Rightarrow> bool" where
  "thread_ready dshard sk k \<longleftrightarrow> k < length (sk_sthrds sk) \<and>
     (let st = sk_sthrds sk ! k; ws = st_wsampler st in
      st_outq st = [] \<and> length (st_inq st) = 1 \<and> sc_type (hd (st_inq st)) = m_weight_update \<and> change_ok ws (sc_winfo (hd (st_inq st))) \<and>
      sampler_ok ws \<and> shard_ok ws dshard \<and> 0 < m_maxset ws \<and> m_maxset ws < m_len ws \<and> m_gid ws = sk_mid sk * sk_thrds sk + int k)"

text \<open>
  One turn: the thread serves its command, the machine sends the phase, which arrives at its port of the coordinator, the coordinator serves it to the end of
  its round, and the machine delivers the answer.
\<close>

definition port_put :: "int \<Rightarrow> mbuffer \<Rightarrow> coordinator \<Rightarrow> coordinator" where
  "port_put mid m co = co\<lparr>co_recvports := (co_recvports co)[nat mid := co_recvports co ! nat mid @ [m]]\<rparr>"

definition turn :: "(int list \<Rightarrow> dshardctx \<Rightarrow> int \<Rightarrow> real \<Rightarrow> int list) \<Rightarrow> (int list \<Rightarrow> (int \<Rightarrow> real) option) \<Rightarrow> real list \<Rightarrow> (nat \<Rightarrow> real) \<Rightarrow> dshardctx \<Rightarrow> nat \<Rightarrow>
    sched_machine \<times> coordinator \<Rightarrow> (sched_machine \<times> round_end) option result" where
  "turn user_check user_values priority rnd dshard k = (\<lambda>(sk, co).
     rbind (scheduler_thread user_check rnd (Some dshard) (sk_sthrds sk ! k)) (\<lambda>r. case r of None \<Rightarrow> Inr None | Some st \<Rightarrow>
     rbind (phase_scan (sk\<lparr>sk_sthrds := (sk_sthrds sk)[k := st]\<rparr>)) (\<lambda>sk.
     case sk_outq sk of [] \<Rightarrow> Inr None | m # outq \<Rightarrow>
       rbind (coordinator_mach_step user_values priority (port_put (sk_mid sk) m co)) (\<lambda>(answer, e).
       rbind (process_sched_system_cmd answer (sk\<lparr>sk_outq := outq\<rparr>)) (\<lambda>r. Inr (map_option (\<lambda>(_, sk). (sk, e)) r))))))"

text \<open>Where the coordinator stands when it is to find a message of machine mid next: at the port of that machine, which is empty.\<close>

definition at_port :: "int \<Rightarrow> coordinator \<Rightarrow> bool" where
  "at_port mid co \<longleftrightarrow> co_rclock co = mid \<and> 0 \<le> mid \<and> mid < co_m_sched_machines co \<and> int (length (co_recvports co)) = co_m_sched_machines co \<and>
     co_recvports co ! nat mid = [] \<and> co_m_logfreq co \<noteq> 0"

lemma answer_phase_ok:
  assumes "user_values ids = Some vals" "length ids \<le> length (co_idvalp_buf co)" "length ids \<le> 1016"
    "map fst (wc_entries (sc_winfo scmd)) = ids"
  shows "answer_phase user_values (phase_mbuffer sk scmd) co =
      Inr (sched_mbuffer 0 \<lparr>sh_type = SCHED_UW, sh_mid = sk_mid sk, sh_thrdgid = sc_samplergid scmd, sh_entrycnt = int (length ids),
             sh_body = Pairs_Body (fill_buf co vals ids)\<rparr>, co\<lparr>co_idvalp_buf := fill_buf co vals ids @ drop (length ids) (co_idvalp_buf co)\<rparr>)"
proof -
  have "length (wc_entries (sc_winfo scmd)) = length ids" using assms(4) by auto
  then show ?thesis using assms
    by (simp add: answer_phase_def phase_mbuffer_def sched_mbuffer_def check_def rbind_def send_weight_update_def fill_buf_def sizeof_idval_pair_def sched_dlen_def)
qed

text \<open>The coordinator after a round that is not a restart.\<close>

definition round_done :: "int list \<Rightarrow> (int \<Rightarrow> real) \<Rightarrow> coordinator \<Rightarrow> coordinator" where
  "round_done ids vals co = co\<lparr>co_iteration := co_iteration co + 1, co_rclock := (co_rclock co + 1) mod co_m_sched_machines co,
     co_idvalp_buf := fill_buf co vals ids @ drop (length ids) (co_idvalp_buf co)\<rparr>"

definition plain_end :: "int list \<Rightarrow> (int \<Rightarrow> real) \<Rightarrow> coordinator \<Rightarrow> round_end" where
  "plain_end ids vals co = (if co_iteration co + 1 = co_m_iter co then Finished else Next_Round (round_done ids vals co))"

lemma coordinator_serves:
  assumes "user_values ids = Some vals" "length ids \<le> length (co_idvalp_buf co)" "length ids \<le> 1016" "map fst (wc_entries (sc_winfo scmd)) = ids"
    "at_port (sk_mid sk) co" "co_iteration co + 1 \<noteq> co_switch_iter co"
  shows "coordinator_mach_step user_values priority (port_put (sk_mid sk) (phase_mbuffer sk scmd) co) =
      Inr (Some (sched_mbuffer 0 \<lparr>sh_type = SCHED_UW, sh_mid = sk_mid sk, sh_thrdgid = sc_samplergid scmd, sh_entrycnt = int (length ids),
             sh_body = Pairs_Body (fill_buf co vals ids)\<rparr>), plain_end ids vals co)"
proof -
  let ?c = "port_put (sk_mid sk) (phase_mbuffer sk scmd) co"
  have pt: "co_rclock co = sk_mid sk" "0 \<le> sk_mid sk" "sk_mid sk < co_m_sched_machines co" "int (length (co_recvports co)) = co_m_sched_machines co"
    "co_recvports co ! nat (sk_mid sk) = []" "co_m_logfreq co \<noteq> 0" using assms(5) by (simp_all add: at_port_def)
  have n: "nat (sk_mid sk) < length (co_recvports co)" using pt(2-4) by linarith
  have "(co_recvports co)[nat (sk_mid sk) := []] = co_recvports co" using pt(5) list_update_id [of "co_recvports co" "nat (sk_mid sk)"] by simp
  then have same: "?c\<lparr>co_recvports := (co_recvports ?c)[nat (sk_mid sk) := []]\<rparr> = co" by (simp add: port_put_def)
  have head: "co_recvports ?c ! nat (sk_mid sk) = [phase_mbuffer sk scmd]" "co_rclock ?c = sk_mid sk" "nat (sk_mid sk) < length (co_recvports ?c)"
    using pt(1,5) n by (simp_all add: port_put_def)
  have m: "c_mod (co_rclock co + 1) (co_m_sched_machines co) = Inr ((co_rclock co + 1) mod co_m_sched_machines co)"
    using pt(1-3) by (simp add: c_mod_def smod_nonneg)
  obtain l where "c_mod (co_iteration co + 1) (co_m_logfreq co) = Inr l" using pt(6) by (simp add: c_mod_def)
  then show ?thesis using answer_phase_ok [of user_values, OF assms(1-4), of sk] head same pt(2) m assms(6)
    by (simp add: coordinator_mach_step_def end_round_def rbind_def plain_end_def round_done_def fill_buf_def Let_def)
qed

lemma deliver_answer:
  assumes "k < length (sk_sthrds sk)" "gid = sk_mid sk * sk_thrds sk + int k"
  shows "process_sched_system_cmd (Some (sched_mbuffer 0 \<lparr>sh_type = SCHED_UW, sh_mid = mid, sh_thrdgid = gid, sh_entrycnt = int (length ps), sh_body = Pairs_Body ps\<rparr>)) sk =
    Inr (Some (False, sk\<lparr>sk_sthrds := (sk_sthrds sk)[k := put_entry_inq (new_sampling_cmd m_weight_update ps gid) (sk_sthrds sk ! k)]\<rparr>))"
  using assms by (simp add: process_sched_system_cmd_def sched_mbuffer_def Let_def)

text \<open>The machine after the turn: the phase is gone and the answer has come.\<close>

definition answer_cmd :: "coordinator \<Rightarrow> (int \<Rightarrow> real) \<Rightarrow> scheduler_threadctx \<Rightarrow> int list \<Rightarrow> sampling_cmd" where
  "answer_cmd co vals st phase = new_sampling_cmd m_weight_update (fill_buf co vals phase) (m_gid (st_wsampler st))"

definition after_turn :: "sched_machine \<Rightarrow> nat \<Rightarrow> scheduler_threadctx \<Rightarrow> sampling_cmd \<Rightarrow> sched_machine" where
  "after_turn sk k st cmd = sk\<lparr>sk_sthrds := (sk_sthrds sk)[k := put_entry_inq cmd (st\<lparr>st_outq := []\<rparr>)],
     sk_rclock := (k + 1) mod length (sk_sthrds sk), sk_outq := []\<rparr>"

lemma turn_eq:
  assumes "k < length (sk_sthrds sk)" "sk_rclock sk \<le> k" "\<forall>j. sk_rclock sk \<le> j \<and> j < k \<longrightarrow> st_outq (sk_sthrds sk ! j) = []" "sk_outq sk = []"
    "scheduler_thread user_check rnd (Some dshard) (sk_sthrds sk ! k) = Inr (Some st')" "st_outq st' = [phase_cmd (st_wsampler st') phase]"
    "m_gid (st_wsampler st') = sk_mid sk * sk_thrds sk + int k" "user_values phase = Some vals" "length phase \<le> length (co_idvalp_buf co)" "length phase \<le> 1016"
    "at_port (sk_mid sk) co" "co_iteration co + 1 \<noteq> co_switch_iter co"
  shows "turn user_check user_values priority rnd dshard k (sk, co) = Inr (Some (after_turn sk k st' (answer_cmd co vals st' phase), plain_end phase vals co))"
proof -
  define sk1 where "sk1 = sk\<lparr>sk_sthrds := (sk_sthrds sk)[k := st']\<rparr>"
  define sk2 where "sk2 = sk1\<lparr>sk_sthrds := (sk_sthrds sk)[k := st'\<lparr>st_outq := []\<rparr>], sk_rclock := (k + 1) mod length (sk_sthrds sk)\<rparr>"
  have scan: "phase_scan sk1 = Inr (sk2\<lparr>sk_outq := [phase_mbuffer sk1 (phase_cmd (st_wsampler st') phase)]\<rparr>)"
    using phase_scan_first [of sk1 k "phase_cmd (st_wsampler st') phase" "[]"] assms(1-4,6) by (simp add: sk1_def sk2_def)
  have ans: "coordinator_mach_step user_values priority (port_put (sk_mid sk1) (phase_mbuffer sk1 (phase_cmd (st_wsampler st') phase)) co) =
      Inr (Some (sched_mbuffer 0 \<lparr>sh_type = SCHED_UW, sh_mid = sk_mid sk1, sh_thrdgid = m_gid (st_wsampler st'), sh_entrycnt = int (length phase),
             sh_body = Pairs_Body (fill_buf co vals phase)\<rparr>), plain_end phase vals co)"
    using coordinator_serves [of user_values, OF assms(8-10), of "phase_cmd (st_wsampler st') phase" sk1 priority] assms(11,12)
    by (simp add: phase_cmd_def new_sampling_cmd_def comp_def sk1_def)
  have "process_sched_system_cmd (Some (sched_mbuffer 0 \<lparr>sh_type = SCHED_UW, sh_mid = sk_mid sk1, sh_thrdgid = m_gid (st_wsampler st'),
      sh_entrycnt = int (length phase), sh_body = Pairs_Body (fill_buf co vals phase)\<rparr>)) (sk2\<lparr>sk_outq := []\<rparr>) =
      Inr (Some (False, after_turn sk k st' (answer_cmd co vals st' phase)))"
    using deliver_answer [of k "sk2\<lparr>sk_outq := []\<rparr>" "m_gid (st_wsampler st')" "sk_mid sk1" "fill_buf co vals phase"] assms(1,7)
    by (simp add: after_turn_def answer_cmd_def sk2_def sk1_def fill_buf_def)
  then show ?thesis using assms(5) scan ans by (simp add: turn_def rbind_def sk1_def sk2_def)
qed

lemma ready_again:
  assumes "k < length (sk_sthrds sk)" "st_inq st' = []" "sampler_ok (st_wsampler st')" "shard_ok (st_wsampler st') dshard" "0 < m_maxset (st_wsampler st')"
    "m_maxset (st_wsampler st') < m_len (st_wsampler st')" "m_gid (st_wsampler st') = sk_mid sk * sk_thrds sk + int k" "good_phase rnd (st_wsampler st') dshard phase"
  shows "thread_ready dshard (after_turn sk k st' (answer_cmd co vals st' phase)) k"
proof -
  have f: "map fst (fill_buf co vals phase) = phase" by (simp add: fill_buf_def comp_def)
  have "change_ok (st_wsampler st') (sc_winfo (answer_cmd co vals st' phase))"
    using assms(6,8) by (auto simp: change_ok_def answer_cmd_def new_sampling_cmd_def fill_buf_def list_all_iff good_phase_def)
  then show ?thesis
    using assms by (simp add: thread_ready_def after_turn_def put_entry_inq_def answer_cmd_def new_sampling_cmd_def)
qed

text \<open>The flush takes exactly one message of each thread when every port has those of its machine's threads, and leaves what comes after them.\<close>

lemma flush_loop_ok:
  "\<forall>q \<in> set ports. Suc t \<le> length q \<Longrightarrow> ports \<noteq> [] \<Longrightarrow> flush_loop (n + int (length ports * Suc t)) n ports = Some (map (drop (Suc t)) ports)"
proof (induction t arbitrary: n ports)
  case 0
  then have "filter (\<lambda>q. q \<noteq> []) ports = ports" by (auto simp: filter_id_conv)
  then show ?case by (subst flush_loop.simps) (simp add: drop_Suc)
next
  case (Suc t)
  have f: "filter (\<lambda>q. q \<noteq> []) ports = ports" using Suc.prems(1) by (auto simp: filter_id_conv)
  have "0 < int (length ports) + int (length ports) * int t" using Suc.prems(2) by (simp add: add_pos_nonneg)
  then have pos: "int (length ports) + int (length ports) * int t \<noteq> 0" by linarith
  have "flush_loop ((n + int (length ports)) + int (length (map tl ports) * Suc t)) (n + int (length ports)) (map tl ports) =
      Some (map (drop (Suc t)) (map tl ports))" using Suc.prems by (intro Suc.IH) auto
  moreover have "flush_loop (n + int (length ports * Suc (Suc t))) n ports =
      flush_loop (n + int (length ports * Suc (Suc t))) (n + int (length ports)) (map tl ports)"
    using f Suc.prems(2) pos by (subst flush_loop.simps) (simp add: Let_def)
  ultimately show ?case by (simp add: algebra_simps drop_Suc comp_def)
qed

text \<open>
  The restart round: once every port holds one message for each thread of its machine, the flush ends and takes exactly these, and the machines are started again with the
  weights \<open>priority\<close>.
\<close>

lemma restart_round:
  assumes "co_iteration co + 1 = co_switch_iter co" "co_iteration co + 1 \<noteq> co_m_iter co" "co_m_logfreq co \<noteq> 0" "co_m_sched_machines co \<noteq> 0"
    "co_m_schedulers co = int (length (co_recvports co))" "co_recvports co \<noteq> []" "co_m_thrds_per_scheduler co = int (Suc t)"
    "\<forall>q \<in> set (co_recvports co). Suc t \<le> length q"
    "scheduler_start_remote (co_rank co) (co_tmap co) priority True [0..co_m_sched_machines co - 1] (map (drop (Suc t)) (co_recvports co)) = Inr (Some (sent, ports))"
  shows "end_round priority co = Inr (Restarted sent (co\<lparr>co_iteration := co_iteration co + 1, co_recvports := ports,
    co_rclock := (co_rclock co + 1) smod co_m_sched_machines co\<rparr>))"
proof -
  have "flush_loop (co_m_schedulers co * co_m_thrds_per_scheduler co) 0 (co_recvports co) = Some (map (drop (Suc t)) (co_recvports co))"
    using flush_loop_ok [OF assms(8,6), of 0] by (simp only: assms(5,7) of_nat_mult add_0)
  then show ?thesis using assms(1-5,9) by (simp add: end_round_def restart_schedulers_def c_mod_def rbind_def Let_def)
qed


definition example_cycle :: sched_machine where
  "example_cycle = \<lparr>sk_rank = 1, sk_mid = 0, sk_thrds = 1, sk_tmap = \<lparr>schmach_tmap = [], schthrd_tmap = []\<rparr>, sk_sthrds = [example_thread], sk_rclock = 0,
     sk_shardmap = [], sk_inq = [], sk_outq = []\<rparr>"

definition example_coordinator :: coordinator where
  "example_coordinator = \<lparr>co_iteration = 5, co_switch_iter = 3, co_rclock = 0, co_idvalp_buf = [(0, 0), (0, 0)], co_m_iter = 100, co_m_logfreq = 10,
     co_m_schedulers = 1, co_m_thrds_per_scheduler = 1, co_m_sched_machines = 1, co_rank = 2, co_tmap = \<lparr>schmach_tmap = [], schthrd_tmap = []\<rparr>, co_recvports = [[]]\<rparr>"

lemma example_ready: "thread_ready example_shard example_cycle 0"
  using example_sampler_ok example_change example_shard_ok
  by (simp add: thread_ready_def example_cycle_def example_thread_def) (simp add: example_sampler_def new_sampling_cmd_def)


end
