(* ===== verification/Strads_Commands.thy ===== *)
theory Strads_Commands
imports Strads_Machine
begin

text \<open>
  System commands of the Strads coordinator: which machines still have to acknowledge a command (class \<open>ppacketmgt\<close>,
  src/strads/include/common.hpp), and the commands that load data (\<open>_load_dshard_remote\<close> and \<open>_ending_dshardloading\<close>,
  coordinator/coordinator.cpp).
\<close>

section \<open>Pending commands\<close>

datatype cmdstate = CMDSTATE_NOT_ASSIGNED | CMDSTATE_PENDING | CMDSTATE_DONE

datatype cmdstatus = CMD_UNCOMPLETE | CMD_COMPLETE

record cmdentry =
  ce_cmdid :: int
  ce_mtype :: machtype
  ce_receivers :: int
  ce_base :: int
  ce_machines :: "cmdstate list"
  ce_pendingmach :: int
  ce_status :: cmdstatus

record ppacketmgt =
  pm_firstsched :: int
  pm_schedmach :: int
  pm_firstworker :: int
  pm_workermach :: int
  pm_cmdclock :: int
  pm_syscmdpendq :: "(int, cmdentry) amap"
  pm_syscmddoneq :: "(int, cmdentry) amap"

definition new_ppacketmgt :: "machine_layout \<Rightarrow> ppacketmgt" where
  "new_ppacketmgt ml = \<lparr>pm_firstsched = ml_first_schedmach ml, pm_schedmach = ml_sched_machines ml, pm_firstworker = ml_first_workermach ml,
     pm_workermach = ml_worker_machines ml, pm_cmdclock = 0, pm_syscmdpendq = [], pm_syscmddoneq = []\<rparr>"

text \<open>\<open>insert\<close> of \<open>unordered_map\<close>, which keeps an entry that is there.\<close>

definition uinsert :: "'k \<Rightarrow> 'v \<Rightarrow> ('k, 'v) amap \<Rightarrow> ('k, 'v) amap" where
  "uinsert k v m = (if map_of m k = None then (k, v) # m else m)"

definition MAX_MACHINES :: nat where
  "MAX_MACHINES = 32"

fun mark_pending :: "nat \<Rightarrow> int \<Rightarrow> cmdstate list \<Rightarrow> cmdstate list result" where
  "mark_pending 0 i machines = Inr machines"
| "mark_pending (Suc n) i machines =
     (if 0 \<le> i \<and> nat i < length machines then mark_pending n (i + 1) (machines[nat i := CMDSTATE_PENDING])
      else Inl (Undefined ''entry->machines[base + i]''))"

definition push_cmdq :: "int \<Rightarrow> machtype \<Rightarrow> ppacketmgt \<Rightarrow> ppacketmgt result" where
  "push_cmdq cmdid mtype pm =
     (let (base, receivers) = (case mtype of m_worker \<Rightarrow> (pm_firstworker pm, pm_workermach pm)
                               | m_scheduler \<Rightarrow> (pm_firstsched pm, pm_schedmach pm) | m_coordinator \<Rightarrow> (- 1, - 1)) in
      rbind (check (base \<ge> 0) ''base>=0'') (\<lambda>_.
      rbind (check (receivers > 0) ''receivers>0'') (\<lambda>_.
      rbind (mark_pending (nat receivers) base (replicate MAX_MACHINES CMDSTATE_NOT_ASSIGNED)) (\<lambda>machines.
      Inr (pm\<lparr>pm_syscmdpendq := uinsert cmdid \<lparr>ce_cmdid = cmdid, ce_mtype = mtype, ce_receivers = receivers, ce_base = base, ce_machines = machines,
               ce_pendingmach = receivers, ce_status = CMD_UNCOMPLETE\<rparr> (pm_syscmdpendq pm)\<rparr>)))))"

definition mark_oneack :: "mbuffer \<Rightarrow> ppacketmgt \<Rightarrow> (int \<times> ppacketmgt) result" where
  "mark_oneack mbuf pm =
     (let cmdid = mb_cmdid mbuf; src = mb_src_rank mbuf in
      case map_of (pm_syscmdpendq pm) cmdid of
        None \<Rightarrow> Inl (Fatal ''cmdid is not found in the pending command q'')
      | Some ent \<Rightarrow>
          if \<not> (0 \<le> src \<and> nat src < length (ce_machines ent)) then Inl (Undefined ''entry->machines[src]'')
          else
            rbind (check (ce_machines ent ! nat src = CMDSTATE_PENDING) ''entry->machines[src] == CMDSTATE_PENDING'') (\<lambda>_.
            let ent = ent\<lparr>ce_machines := (ce_machines ent)[nat src := CMDSTATE_DONE], ce_pendingmach := ce_pendingmach ent - 1\<rparr> in
            rbind (check (ce_pendingmach ent \<ge> 0) ''entry->pendingmach >= 0'') (\<lambda>_.
            if ce_pendingmach ent = 0 then
              Inr (cmdid, pm\<lparr>pm_syscmdpendq := AList.delete cmdid (pm_syscmdpendq pm),
                             pm_syscmddoneq := uinsert cmdid (ent\<lparr>ce_status := CMD_COMPLETE\<rparr>) (pm_syscmddoneq pm)\<rparr>)
            else Inr (cmdid, pm\<lparr>pm_syscmdpendq := AList.update cmdid ent (pm_syscmdpendq pm)\<rparr>))))"

text \<open>
  When the command is done, the entry is erased from the queue and then read through the iterator that pointed to it, to be freed: the
  iterator is invalid there, and the read is undefined.
\<close>

definition check_cmddone :: "int \<Rightarrow> ppacketmgt \<Rightarrow> (bool \<times> ppacketmgt) result" where
  "check_cmddone cmdid pm =
     (if map_of (pm_syscmddoneq pm) cmdid \<noteq> None then Inl (Undefined ''it->second after erase'') else Inr (False, pm))"

definition get_cmdclock :: "ppacketmgt \<Rightarrow> int \<times> ppacketmgt" where
  "get_cmdclock pm = (pm_cmdclock pm, pm\<lparr>pm_cmdclock := pm_cmdclock pm + 1\<rparr>)"

definition get_syscmddoneq_size :: "ppacketmgt \<Rightarrow> nat" where
  "get_syscmddoneq_size pm = length (pm_syscmddoneq pm)"

definition get_syscmdpendq_size :: "ppacketmgt \<Rightarrow> nat" where
  "get_syscmdpendq_size pm = length (pm_syscmdpendq pm)"

section \<open>Loading data\<close>

record userfn_entity =
  fn_strfn :: string
  fn_strtype :: string
  fn_mtype :: machtype
  fn_stralias :: string
  fn_strpscheme :: string

record thread_counts =
  thrds_per_worker :: int
  thrds_per_scheduler :: int
  thrds_per_coordinator :: int

definition get_totalthreads_formachtype :: "machine_layout \<Rightarrow> thread_counts \<Rightarrow> machtype \<Rightarrow> int" where
  "get_totalthreads_formachtype ml tc mtype =
     (case mtype of m_worker \<Rightarrow> ml_worker_machines ml * thrds_per_worker tc
      | m_scheduler \<Rightarrow> ml_sched_machines ml * thrds_per_scheduler tc | m_coordinator \<Rightarrow> 1 * thrds_per_coordinator tc)"

definition matrix_type_of :: "string \<Rightarrow> matrix_type result" where
  "matrix_type_of type =
     (if type = ''rmspt'' then Inr rmspt else if type = ''rvspt'' then Inr rvspt else if type = ''cmspt'' then Inr cmspt
      else if type = ''cvspt'' then Inr cvspt else if type = ''d2dmat'' then Inr d2dmat else Inl (Fatal ''user data type that is not supported''))"

text \<open>The ranges of the machines; every matrix type divides its rows or columns in the same way, and the dense one has a scheme of its own.\<close>

definition shard_ranges :: "machine_layout \<Rightarrow> thread_counts \<Rightarrow> userfn_entity \<Rightarrow> nat \<Rightarrow> nat \<Rightarrow> range_map result" where
  "shard_ranges ml tc fne rows cols =
     (let machines = get_tosend_machinecnt ml (fn_mtype fne); finepartitions = get_totalthreads_formachtype ml tc (fn_mtype fne) in
      rbind (if fn_strpscheme fne = ''row'' then dshard_make_finepartition (int rows) finepartitions []
             else if fn_strpscheme fne = ''col'' then dshard_make_finepartition (int cols) finepartitions []
             else if fn_strtype fne = ''d2dmat'' \<and> fn_strpscheme fne = ''NO'' then Inr []
             else Inl (CheckFailed ''0'')) (\<lambda>tmap.
      dshard_make_superpartition machines tmap []))"

definition u64 :: "int \<Rightarrow> nat" where
  "u64 x = nat (x mod 2 ^ 64)"

definition machine_range :: "string \<Rightarrow> nat \<Rightarrow> nat \<Rightarrow> task_range \<Rightarrow> rangectx result" where
  "machine_range pscheme rows cols r =
     (if pscheme = ''row'' then
        Inr \<lparr>r_start = u64 (rg_start r), r_end = u64 (rg_end r), r_len = u64 (rg_end r - rg_start r + 1), c_start = 0, c_end = u64 (int cols - 1), c_len = cols\<rparr>
      else if pscheme = ''col'' then
        Inr \<lparr>r_start = 0, r_end = u64 (int rows - 1), r_len = rows, c_start = u64 (rg_start r), c_end = u64 (rg_end r), c_len = u64 (rg_end r - rg_start r + 1)\<rparr>
      else Inl (CheckFailed ''0''))"

definition shard_mbuffer :: "int \<Rightarrow> mini_dshardctx \<Rightarrow> mbuffer" where
  "shard_mbuffer cmdid mshard = \<lparr>mb_msg_type = SYSTEM_DSHARD, mb_cmdid = cmdid, mb_src_rank = 0, mb_data = Shard_Data mshard\<rparr>"

text \<open>
  The command number, the manager and the message to each machine in turn.  \<open>file_size\<close> gives the rows and columns that a file declares;
  \<open>samples\<close> is the command-line flag that stands for the rows of data that no file holds.
\<close>

definition load_dshard_remote ::
  "machine_layout \<Rightarrow> thread_counts \<Rightarrow> (string \<Rightarrow> nat \<times> nat) \<Rightarrow> nat \<Rightarrow> userfn_entity \<Rightarrow> ppacketmgt \<Rightarrow> (ppacketmgt \<times> mbuffer list) result" where
  "load_dshard_remote ml tc file_size samples fne pm =
     (let (rows, cols) = (if fn_strfn fne \<noteq> ''gen-model'' then file_size (fn_strfn fne) else (samples, 1)) in
      rbind (matrix_type_of (fn_strtype fne)) (\<lambda>mt.
      rbind (check (length (fn_strfn fne) < 256 - 1) ''len < MAX_FN-1'') (\<lambda>_.
      rbind (check (length (fn_stralias fne) < 64 - 1) ''len < MAX_ALIAS-1'') (\<lambda>_.
      rbind (shard_ranges ml tc fne rows cols) (\<lambda>finemap.
      let (cmdid, pm) = get_cmdclock pm in
      rbind (push_cmdq cmdid (fn_mtype fne) pm) (\<lambda>pm.
      rbind (mapM (\<lambda>k. rbind (range_at finemap k) (\<lambda>r. rbind (machine_range (fn_strpscheme fne) rows cols r) (\<lambda>rctx.
               Inr (shard_mbuffer cmdid \<lparr>md_rows = rows, md_cols = cols, md_type = mt, md_fn = fn_strfn fne, md_range = rctx, md_alias = fn_stralias fne\<rparr>))))
             [0..get_tosend_machinecnt ml (fn_mtype fne) - 1]) (\<lambda>msgs.
      Inr (pm, msgs))))))))"

definition end_mbuffer :: "int \<Rightarrow> mbuffer" where
  "end_mbuffer cmdid = \<lparr>mb_msg_type = SYSTEM_DSHARD_END, mb_cmdid = cmdid, mb_src_rank = 0, mb_data = No_Data\<rparr>"

text \<open>The manager, the messages to the workers and those to the schedulers.\<close>

definition ending_dshardloading :: "machine_layout \<Rightarrow> ppacketmgt \<Rightarrow> (ppacketmgt \<times> mbuffer list \<times> mbuffer list) result" where
  "ending_dshardloading ml pm =
     (let (wid, pm) = get_cmdclock pm in
      rbind (push_cmdq wid m_worker pm) (\<lambda>pm.
      let wmsgs = replicate (nat (get_tosend_machinecnt ml m_worker)) (end_mbuffer wid); (sid, pm) = get_cmdclock pm in
      rbind (push_cmdq sid m_scheduler pm) (\<lambda>pm.
      Inr (pm, wmsgs, replicate (nat (get_tosend_machinecnt ml m_scheduler)) (end_mbuffer sid)))))"

section \<open>Commands and their acknowledgements\<close>

text \<open>The entry of a command to the machines from \<open>base\<close> on, once those of S have acknowledged.\<close>

definition machines_of :: "int \<Rightarrow> int \<Rightarrow> int set \<Rightarrow> cmdstate list" where
  "machines_of base n S =
     map (\<lambda>i. if int i \<in> S then CMDSTATE_DONE else if base \<le> int i \<and> int i < base + n then CMDSTATE_PENDING else CMDSTATE_NOT_ASSIGNED) [0..<MAX_MACHINES]"

definition entry_after :: "int \<Rightarrow> machtype \<Rightarrow> int \<Rightarrow> int \<Rightarrow> int set \<Rightarrow> cmdentry" where
  "entry_after cmdid mtype base n S = \<lparr>ce_cmdid = cmdid, ce_mtype = mtype, ce_receivers = n, ce_base = base, ce_machines = machines_of base n S,
     ce_pendingmach = n - int (card S), ce_status = CMD_UNCOMPLETE\<rparr>"

definition pending_with :: "int \<Rightarrow> machtype \<Rightarrow> int \<Rightarrow> int \<Rightarrow> ppacketmgt \<Rightarrow> int set \<Rightarrow> ppacketmgt" where
  "pending_with cmdid mtype base n pm S = pm\<lparr>pm_syscmdpendq := (cmdid, entry_after cmdid mtype base n S) # pm_syscmdpendq pm\<rparr>"

definition done_with :: "int \<Rightarrow> machtype \<Rightarrow> int \<Rightarrow> int \<Rightarrow> ppacketmgt \<Rightarrow> ppacketmgt" where
  "done_with cmdid mtype base n pm =
     pm\<lparr>pm_syscmddoneq := (cmdid, (entry_after cmdid mtype base n {base..<base + n})\<lparr>ce_status := CMD_COMPLETE\<rparr>) # pm_syscmddoneq pm\<rparr>"

lemma mark_pending_map:
  "0 \<le> i \<Longrightarrow> i + int n \<le> int (length ms) \<Longrightarrow>
   mark_pending n i ms = Inr (map (\<lambda>j. if i \<le> int j \<and> int j < i + int n then CMDSTATE_PENDING else ms ! j) [0..<length ms])"
proof (induction n i ms rule: mark_pending.induct)
  case (1 i ms)
  then show ?case by (simp add: map_nth) (intro nth_equalityI, auto)
next
  case (2 n i ms)
  then have "mark_pending n (i + 1) (ms[nat i := CMDSTATE_PENDING]) =
      Inr (map (\<lambda>j. if i + 1 \<le> int j \<and> int j < i + 1 + int n then CMDSTATE_PENDING else ms[nat i := CMDSTATE_PENDING] ! j) [0..<length ms])"
    by simp
  also have "\<dots> = Inr (map (\<lambda>j. if i \<le> int j \<and> int j < i + int (Suc n) then CMDSTATE_PENDING else ms ! j) [0..<length ms])"
    using "2.prems" by (auto simp: nth_list_update)
  finally show ?case using "2.prems" by simp
qed

definition receivers_of :: "machtype \<Rightarrow> ppacketmgt \<Rightarrow> int \<times> int" where
  "receivers_of mtype pm = (if mtype = m_worker then (pm_firstworker pm, pm_workermach pm) else (pm_firstsched pm, pm_schedmach pm))"

lemma push_cmdq_ok:
  assumes "mtype \<noteq> m_coordinator" "receivers_of mtype pm = (base, n)" "0 \<le> base" "0 < n" "base + n \<le> 32" "map_of (pm_syscmdpendq pm) cmdid = None"
  shows "push_cmdq cmdid mtype pm = Inr (pending_with cmdid mtype base n pm {})"
proof -
  have "mark_pending (nat n) base (replicate MAX_MACHINES CMDSTATE_NOT_ASSIGNED) = Inr (machines_of base n {})"
    using assms by (subst mark_pending_map) (auto simp: MAX_MACHINES_def machines_of_def simp del: upt_rec_numeral)
  then show ?thesis using assms
    by (cases mtype) (auto simp: push_cmdq_def receivers_of_def check_def rbind_def uinsert_def pending_with_def entry_after_def)
qed

lemma machines_of_nth: "0 \<le> s \<Longrightarrow> s < 32 \<Longrightarrow>
    machines_of base n S ! nat s = (if s \<in> S then CMDSTATE_DONE else if base \<le> s \<and> s < base + n then CMDSTATE_PENDING else CMDSTATE_NOT_ASSIGNED)"
  by (simp add: machines_of_def MAX_MACHINES_def del: upt_rec_numeral)

lemma machines_of_insert: "0 \<le> s \<Longrightarrow> s < 32 \<Longrightarrow> (machines_of base n S)[nat s := CMDSTATE_DONE] = machines_of base n (insert s S)"
  by (intro nth_equalityI) (auto simp: machines_of_def nth_list_update simp del: upt_rec_numeral)

lemma mark_oneack_ok:
  assumes "0 \<le> base" "base + n \<le> 32" "s \<in> {base..<base + n}" "s \<notin> S" "S \<subseteq> {base..<base + n}"
    "map_of (pm_syscmdpendq pm) cmdid = None" "map_of (pm_syscmddoneq pm) cmdid = None"
  shows "mark_oneack (command_ack cmdid s) (pending_with cmdid mtype base n pm S) =
    Inr (cmdid, if int (card S) + 1 = n then done_with cmdid mtype base n pm else pending_with cmdid mtype base n pm (insert s S))"
proof -
  have fin: "finite S" using assms(5) by (rule finite_subset) simp
  have R: "card {base..<base + n} = nat n" by simp
  have le: "card (insert s S) \<le> nat n" using assms(3,5) card_mono [of "{base..<base + n}" "insert s S"] by auto
  have full: "insert s S = {base..<base + n}" if "int (card S) + 1 = n"
    using that assms(3-5) fin by (intro card_subset_eq) auto
  have del: "AList.delete cmdid (pm_syscmdpendq pm) = pm_syscmdpendq pm"
    using assms(6) by (intro AList.delete_id) (simp add: map_of_eq_None_iff)
  have "length (machines_of base n S) = 32" by (simp add: machines_of_def MAX_MACHINES_def del: upt_rec_numeral)
  then show ?thesis using assms fin le full del
    by (auto simp: mark_oneack_def command_ack_def pending_with_def done_with_def entry_after_def machines_of_nth machines_of_insert check_def rbind_def
        uinsert_def Let_def)
qed

text \<open>Acknowledgements of one command, in the order in which they arrive.\<close>

definition acks :: "int \<Rightarrow> ppacketmgt \<Rightarrow> int list \<Rightarrow> ppacketmgt result" where
  "acks cmdid = foldM (\<lambda>pm s. rbind (mark_oneack (command_ack cmdid s) pm) (\<lambda>(_, pm). Inr pm))"

lemma acks_pending:
  assumes "0 \<le> base" "base + n \<le> 32" "map_of (pm_syscmdpendq pm) cmdid = None" "map_of (pm_syscmddoneq pm) cmdid = None"
  shows "distinct as \<Longrightarrow> set as \<subseteq> {base..<base + n} \<Longrightarrow> set as \<inter> S = {} \<Longrightarrow> S \<subseteq> {base..<base + n} \<Longrightarrow> int (card S + length as) \<le> n \<Longrightarrow> as \<noteq> [] \<Longrightarrow>
    acks cmdid (pending_with cmdid mtype base n pm S) as =
      Inr (if int (card S + length as) = n then done_with cmdid mtype base n pm else pending_with cmdid mtype base n pm (S \<union> set as))"
proof (induction "as" arbitrary: S)
  case (Cons s "as")
  have fin: "finite S" using Cons.prems(4) by (rule finite_subset) simp
  have c: "card (insert s S) = card S + 1" using fin Cons.prems(3) by simp
  have m: "mark_oneack (command_ack cmdid s) (pending_with cmdid mtype base n pm S) =
      Inr (cmdid, if int (card S) + 1 = n then done_with cmdid mtype base n pm else pending_with cmdid mtype base n pm (insert s S))"
    using Cons.prems by (intro mark_oneack_ok [OF assms(1,2) _ _ _ assms(3,4)]) auto
  show ?case
  proof (cases "as = []")
    case True
    then show ?thesis using m by (simp add: acks_def rbind_def)
  next
    case False
    then have ne: "int (card S) + 1 \<noteq> n" using Cons.prems(5) by (cases "as") auto
    have "acks cmdid (pending_with cmdid mtype base n pm (insert s S)) as =
        Inr (if int (card (insert s S) + length as) = n then done_with cmdid mtype base n pm else pending_with cmdid mtype base n pm (insert s S \<union> set as))"
      using Cons.prems c False by (intro Cons.IH) auto
    then show ?thesis using m ne c by (simp add: acks_def rbind_def Un_insert_left Un_insert_right)
  qed
qed simp

lemma check_pending:
  "map_of (pm_syscmddoneq pm) cmdid = None \<Longrightarrow> check_cmddone cmdid (pending_with cmdid mtype base n pm S) = Inr (False, pending_with cmdid mtype base n pm S)"
  by (simp add: check_cmddone_def pending_with_def)

lemma check_done: "check_cmddone cmdid (done_with cmdid mtype base n pm) = Inl (Undefined ''it->second after erase'')"
  by (simp add: check_cmddone_def done_with_def)

lemma mark_twice:
  assumes "0 \<le> s" "s < 32" "s \<in> S"
  shows "mark_oneack (command_ack cmdid s) (pending_with cmdid mtype base n pm S) = Inl (CheckFailed ''entry->machines[src] == CMDSTATE_PENDING'')"
proof -
  have "length (machines_of base n S) = 32" by (simp add: machines_of_def MAX_MACHINES_def del: upt_rec_numeral)
  then show ?thesis using assms by (simp add: mark_oneack_def command_ack_def pending_with_def entry_after_def machines_of_nth check_def rbind_def Let_def)
qed

text \<open>
  C28. A command that the coordinator sends to the n machines from \<open>base\<close> on is done exactly when each of them has acknowledged it, in whatever order
  the acknowledgements arrive. Before the last one it is pending, \<open>check_cmddone\<close> returns false and changes nothing, and a second acknowledgement of the same machine fails
  the assertion. After the last one the command is no longer pending and is in the queue of the done ones, complete and with every machine done. From there \<open>check_cmddone\<close> does not
  return in a defined way: it frees the entry through the iterator that its \<open>erase\<close> has invalidated.
\<close>

theorem command_done:
  assumes "mtype \<noteq> m_coordinator" "receivers_of mtype pm = (base, n)" "0 \<le> base" "0 < n" "base + n \<le> 32"
    "map_of (pm_syscmdpendq pm) cmdid = None" "map_of (pm_syscmddoneq pm) cmdid = None" "distinct srcs" "set srcs = {base..<base + n}"
  shows "\<exists>pm1. push_cmdq cmdid mtype pm = Inr pm1 \<and>
    (\<forall>as bs. srcs = as @ bs \<and> bs \<noteq> [] \<longrightarrow> (\<exists>pm2. acks cmdid pm1 as = Inr pm2 \<and> check_cmddone cmdid pm2 = Inr (False, pm2) \<and>
       get_syscmdpendq_size pm2 = Suc (get_syscmdpendq_size pm) \<and> get_syscmddoneq_size pm2 = get_syscmddoneq_size pm \<and>
       (\<forall>s \<in> set as. mark_oneack (command_ack cmdid s) pm2 = Inl (CheckFailed ''entry->machines[src] == CMDSTATE_PENDING'')))) \<and>
    (\<exists>pm3 ent. acks cmdid pm1 srcs = Inr pm3 \<and> pm_syscmdpendq pm3 = pm_syscmdpendq pm \<and> pm_syscmddoneq pm3 = (cmdid, ent) # pm_syscmddoneq pm \<and>
       ce_status ent = CMD_COMPLETE \<and> ce_pendingmach ent = 0 \<and> (\<forall>s \<in> {base..<base + n}. ce_machines ent ! nat s = CMDSTATE_DONE) \<and>
       check_cmddone cmdid pm3 = Inl (Undefined ''it->second after erase''))"
proof -
  let ?st = "pending_with cmdid mtype base n pm"
  have len: "int (length srcs) = n" using distinct_card [OF assms(8)] assms(4,9) by simp
  have acks: "acks cmdid (?st {}) as = Inr (if int (length as) = n then done_with cmdid mtype base n pm else ?st (set as))"
    if "srcs = as @ bs" for as bs
  proof (cases "as = []")
    case True
    then show ?thesis using assms(4) by (simp add: acks_def)
  next
    case False
    have "distinct as" "set as \<subseteq> {base..<base + n}" "int (length as) \<le> n" using assms(8) len unfolding assms(9) [symmetric] that by auto
    then show ?thesis using acks_pending [OF assms(3,5,6,7), of "as" "{}" mtype] False by simp
  qed
  have "\<exists>pm2. acks cmdid (?st {}) as = Inr pm2 \<and> check_cmddone cmdid pm2 = Inr (False, pm2) \<and> get_syscmdpendq_size pm2 = Suc (get_syscmdpendq_size pm) \<and>
      get_syscmddoneq_size pm2 = get_syscmddoneq_size pm \<and>
      (\<forall>s \<in> set as. mark_oneack (command_ack cmdid s) pm2 = Inl (CheckFailed ''entry->machines[src] == CMDSTATE_PENDING''))"
    if "srcs = as @ bs" "bs \<noteq> []" for as bs
  proof -
    have "int (length as) \<noteq> n" using len that by (cases bs) auto
    moreover have "set as \<subseteq> {base..<base + n}" unfolding assms(9) [symmetric] that(1) by auto
    ultimately show ?thesis
      using acks [OF that(1)] assms(3,5,7) mark_twice [of _ "set as"] check_pending [of pm cmdid]
      by (intro exI [of _ "?st (set as)"]) (auto simp: get_syscmdpendq_size_def get_syscmddoneq_size_def pending_with_def)
  qed
  moreover have "\<exists>pm3 ent. acks cmdid (?st {}) srcs = Inr pm3 \<and> pm_syscmdpendq pm3 = pm_syscmdpendq pm \<and> pm_syscmddoneq pm3 = (cmdid, ent) # pm_syscmddoneq pm \<and>
       ce_status ent = CMD_COMPLETE \<and> ce_pendingmach ent = 0 \<and> (\<forall>s \<in> {base..<base + n}. ce_machines ent ! nat s = CMDSTATE_DONE) \<and>
       check_cmddone cmdid pm3 = Inl (Undefined ''it->second after erase'')"
  proof (intro exI conjI)
    show "acks cmdid (?st {}) srcs = Inr (done_with cmdid mtype base n pm)" using acks [of srcs "[]"] len by simp
    show "\<forall>s \<in> {base..<base + n}. ce_machines ((entry_after cmdid mtype base n {base..<base + n})\<lparr>ce_status := CMD_COMPLETE\<rparr>) ! nat s = CMDSTATE_DONE"
      using assms(3,5) by (auto simp: entry_after_def machines_of_nth)
  qed (use assms(4) in \<open>simp_all add: check_done, simp_all add: done_with_def entry_after_def\<close>)
  ultimately show ?thesis using push_cmdq_ok [OF assms(1-6)] by blast
qed

definition example_commands :: ppacketmgt where
  "example_commands = \<lparr>pm_firstsched = 3, pm_schedmach = 2, pm_firstworker = 0, pm_workermach = 3, pm_cmdclock = 8, pm_syscmdpendq = [], pm_syscmddoneq = []\<rparr>"

theorem command_done_witness:
  "\<exists>pm1 pm3 ent. push_cmdq 7 m_worker example_commands = Inr pm1 \<and> acks 7 pm1 [2, 0, 1] = Inr pm3 \<and> pm_syscmdpendq pm3 = [] \<and>
     pm_syscmddoneq pm3 = [(7, ent)] \<and> ce_status ent = CMD_COMPLETE"
proof -
  have "set [2, 0, 1] = {0..<0 + 3 :: int}" by auto
  then show ?thesis
    using command_done [of m_worker example_commands 0 3 7 "[2, 0, 1]"] by (auto simp: example_commands_def receivers_of_def)
qed

section \<open>Shards and tasks\<close>

text \<open>The columns of a scheduler machine's shard are its tasks, so that the range assertions of the interference check hold for its threads.\<close>

lemma shard_ranges_tasks:
  assumes "fn_mtype fne = m_scheduler" "fn_strpscheme fne = ''col''" "0 < ml_sched_machines ml" "0 < thrds_per_scheduler tc"
    "make_scheduling_taskpartition (int cols) (ml_sched_machines ml) (thrds_per_scheduler tc) = Inr ta"
  shows "shard_ranges ml tc fne rows cols = Inr (schmach_tmap ta)"
proof -
  let ?m = "ml_sched_machines ml" and ?t = "thrds_per_scheduler tc"
  have p: "0 < ?m * ?t" using assms(3,4) by simp
  have f: "fine_ranges (int cols) (?m * ?t) = Inr (parts_upto (part_range (int cols) (?m * ?t)) (nat (?m * ?t)))" using p by (intro fine_ranges_ok) auto
  have l: "int (length (parts_upto (part_range (int cols) (?m * ?t)) (nat (?m * ?t)))) = ?m * ?t" using p by (simp add: parts_upto_def)
  have ne: "parts_upto (part_range (int cols) (?m * ?t)) (nat (?m * ?t)) \<noteq> []" using p by (simp add: parts_upto_def)
  have "c_mod (?m * ?t) ?m = Inr 0" "(?m * ?t) sdiv ?m = ?t" using assms(3,4) by (simp_all add: c_mod_def smod_nonneg sdiv_nonneg)
  then show ?thesis using assms p f l ne
    by (auto simp: shard_ranges_def get_tosend_machinecnt_def get_totalthreads_formachtype_def dshard_make_finepartition_def dshard_make_superpartition_def
        check_def rbind_def make_scheduling_taskpartition_def Let_def split: sum.splits)
qed

lemma thread_in_shard:
  assumes "0 < machs" "0 < thr" "0 \<le> mid" "mid < machs" "0 \<le> k" "k < thr" "int cols < 2 ^ 63"
    "make_scheduling_taskpartition (int cols) machs thr = Inr ta"
    "map_of (schmach_tmap ta) mid = Some r" "map_of (schthrd_tmap ta) (mid * thr + k) = Some t" "machine_range ''col'' rows cols r = Inr rctx"
    "rg_start t < rg_end t"
  shows "int (c_start rctx) \<le> rg_start t" "rg_end t \<le> int (c_end rctx)"
proof -
  let ?f = "part_start (int cols) (machs * thr)"
  have p: "0 < machs * thr" using assms(1,2) by simp
  have m: "0 \<le> int cols" by simp
  have ta: "ta = \<lparr>schmach_tmap = parts_upto (super_range (int cols) (machs * thr) thr) (nat machs),
      schthrd_tmap = parts_upto (part_range (int cols) (machs * thr)) (nat (machs * thr))\<rparr>"
    using partition_ok [OF m assms(1,2)] assms(8) by simp
  have r: "r = \<lparr>rg_start = ?f (mid * thr), rg_end = ?f ((mid + 1) * thr) - 1\<rparr>" using assms(9) by (simp add: ta parts_upto_iff super_range_def)
  have t: "t = \<lparr>rg_start = ?f (mid * thr + k), rg_end = ?f (mid * thr + k + 1) - 1\<rparr>" using assms(10) by (simp add: ta parts_upto_iff part_range_def)
  have le: "mid * thr + k + 1 \<le> (mid + 1) * thr" using assms(6) by (simp add: algebra_simps)
  have le': "(mid + 1) * thr \<le> machs * thr" using assms(2,4) by (intro mult_right_mono) auto
  have cuts: "?f (mid * thr) \<le> ?f (mid * thr + k)" "?f (mid * thr + k + 1) \<le> ?f ((mid + 1) * thr)"
    using part_start_mono [OF m p] assms(5) le by simp_all
  have mt: "0 \<le> mid * thr" using assms(2,3) by simp
  have "0 \<le> ?f (mid * thr)" using part_start_mono [OF m p mt] part_start_bounds(3) [OF m p, of 0] p by simp
  moreover have "?f ((mid + 1) * thr) \<le> int cols" using part_start_mono [OF m p le'] part_start_bounds(2) [OF m p, of 0] p by simp
  ultimately have "int (c_start rctx) = ?f (mid * thr)" "int (c_end rctx) = ?f ((mid + 1) * thr) - 1"
    using assms(7,11,12) cuts t by (auto simp: machine_range_def r u64_def)
  then show "int (c_start rctx) \<le> rg_start t" "rg_end t \<le> int (c_end rctx)" using cuts t by simp_all
qed

end
