(* ===== verification/Locks.thy ===== *)
theory Locks
imports Context
begin

text \<open>
  The locks of the parameter server: \<open>SharedMutex\<close> and \<open>RecursiveSharedMutex\<close> (util/lock.cpp), \<open>SpinMutex\<close> and \<open>Unlocker\<close> (util/lock.hpp) and
  \<open>StripedLock\<close> (util/striped_lock.hpp).  The read-write lock of the operating system is a record of operations, with what POSIX says of
  them as the locale \<open>posix_rwlock\<close>.  A call that waits has the value None; it is tried again later.
\<close>

section \<open>Read-write locks of the operating system\<close>

type_synonym tid = nat

datatype pstatus = P_OK | P_EBUSY | P_EDEADLK | P_OTHER

record 's rwlock_ops =
  rw_wrlock :: "tid \<Rightarrow> 's \<Rightarrow> (pstatus \<times> 's) option"
  rw_trywrlock :: "tid \<Rightarrow> 's \<Rightarrow> pstatus \<times> 's"
  rw_rdlock :: "tid \<Rightarrow> 's \<Rightarrow> (pstatus \<times> 's) option"
  rw_tryrdlock :: "tid \<Rightarrow> 's \<Rightarrow> pstatus \<times> 's"
  rw_unlock :: "tid \<Rightarrow> 's \<Rightarrow> pstatus \<times> 's"

text \<open>
  The writer is the thread that holds the lock exclusively, the readers are those that share it.  A thread that already holds the lock gets
  an error or waits for ever; the laws say nothing of unlocking a lock that the caller does not hold.
\<close>

locale posix_rwlock =
  fixes r :: "'s rwlock_ops" and init :: 's and rw_writer :: "'s \<Rightarrow> tid option" and rw_readers :: "'s \<Rightarrow> tid multiset"
  assumes init_free: "rw_writer init = None" "rw_readers init = {#}"
    and wrlock: "rw_wrlock r t s = Some (P_OK, s') \<Longrightarrow> rw_writer s = None \<and> rw_readers s = {#} \<and> rw_writer s' = Some t \<and> rw_readers s' = {#}"
    and wrlock_again: "rw_wrlock r t s = Some (st, s') \<Longrightarrow> st \<noteq> P_OK \<Longrightarrow> t \<notin># rw_readers s \<Longrightarrow> st = P_EDEADLK \<and> rw_writer s = Some t \<and> s' = s"
    and trywrlock: "rw_trywrlock r t s = (P_OK, s') \<Longrightarrow> rw_writer s = None \<and> rw_readers s = {#} \<and> rw_writer s' = Some t \<and> rw_readers s' = {#}"
    and trywrlock_busy: "rw_trywrlock r t s = (st, s') \<Longrightarrow> st \<noteq> P_OK \<Longrightarrow> (st = P_EBUSY \<or> st = P_EDEADLK \<and> rw_writer s = Some t) \<and> s' = s"
    and rdlock: "rw_rdlock r t s = Some (st, s') \<Longrightarrow> rw_writer s \<noteq> Some t \<Longrightarrow> st = P_OK \<and> rw_writer s = None \<and> rw_writer s' = None \<and> rw_readers s' = add_mset t (rw_readers s)"
    and tryrdlock: "rw_tryrdlock r t s = (P_OK, s') \<Longrightarrow> rw_writer s = None \<and> rw_writer s' = None \<and> rw_readers s' = add_mset t (rw_readers s)"
    and tryrdlock_busy: "rw_tryrdlock r t s = (st, s') \<Longrightarrow> st \<noteq> P_OK \<Longrightarrow> st = P_EBUSY \<and> s' = s"
    and unlock_writer: "rw_writer s = Some t \<Longrightarrow> \<exists>s'. rw_unlock r t s = (P_OK, s') \<and> rw_writer s' = None \<and> rw_readers s' = {#}"
    and unlock_reader: "rw_writer s = None \<Longrightarrow> t \<in># rw_readers s \<Longrightarrow>
      \<exists>s'. rw_unlock r t s = (P_OK, s') \<and> rw_writer s' = None \<and> rw_readers s' = rw_readers s - {#t#}"

text \<open>A lock that lets readers in whenever there is no writer has this behaviour.\<close>

record simple_rwlock =
  sl_writer :: "tid option"
  sl_readers :: "tid multiset"

definition simple_ops :: "simple_rwlock rwlock_ops" where
  "simple_ops =
     \<lparr>rw_wrlock = (\<lambda>t s. if sl_writer s = None \<and> sl_readers s = {#} then Some (P_OK, s\<lparr>sl_writer := Some t\<rparr>)
        else if sl_writer s = Some t then Some (P_EDEADLK, s) else None),
      rw_trywrlock = (\<lambda>t s. if sl_writer s = None \<and> sl_readers s = {#} then (P_OK, s\<lparr>sl_writer := Some t\<rparr>) else (P_EBUSY, s)),
      rw_rdlock = (\<lambda>t s. if sl_writer s = None then Some (P_OK, s\<lparr>sl_readers := add_mset t (sl_readers s)\<rparr>)
        else if sl_writer s = Some t then Some (P_EDEADLK, s) else None),
      rw_tryrdlock = (\<lambda>t s. if sl_writer s = None then (P_OK, s\<lparr>sl_readers := add_mset t (sl_readers s)\<rparr>) else (P_EBUSY, s)),
      rw_unlock = (\<lambda>t s. if sl_writer s = Some t then (P_OK, \<lparr>sl_writer = None, sl_readers = {#}\<rparr>)
        else if t \<in># sl_readers s then (P_OK, s\<lparr>sl_readers := sl_readers s - {#t#}\<rparr>) else (P_OTHER, s))\<rparr>"

definition simple_init :: simple_rwlock where
  "simple_init = \<lparr>sl_writer = None, sl_readers = {#}\<rparr>"

interpretation simple: posix_rwlock simple_ops simple_init sl_writer sl_readers
  by unfold_locales (auto simp: simple_ops_def simple_init_def split: if_splits)

section \<open>SharedMutex\<close>

definition SharedMutex_lock :: "'s rwlock_ops \<Rightarrow> tid \<Rightarrow> 's \<Rightarrow> 's option result" where
  "SharedMutex_lock r t s = (case rw_wrlock r t s of None \<Rightarrow> Inr None
     | Some (status, s) \<Rightarrow> rbind (check (status = P_OK) ''status == 0'') (\<lambda>_. Inr (Some s)))"

definition SharedMutex_try_lock :: "'s rwlock_ops \<Rightarrow> tid \<Rightarrow> 's \<Rightarrow> (bool \<times> 's) result" where
  "SharedMutex_try_lock r t s = (case rw_trywrlock r t s of (status, s) \<Rightarrow>
     (case status of P_OK \<Rightarrow> Inr (True, s) | P_EBUSY \<Rightarrow> Inr (False, s) | _ \<Rightarrow> Inl (CheckFailed ''false'')))"

definition SharedMutex_unlock :: "'s rwlock_ops \<Rightarrow> tid \<Rightarrow> 's \<Rightarrow> 's result" where
  "SharedMutex_unlock r t s = (case rw_unlock r t s of (status, s) \<Rightarrow> rbind (check (status = P_OK) ''status == 0'') (\<lambda>_. Inr s))"

definition SharedMutex_lock_shared :: "'s rwlock_ops \<Rightarrow> tid \<Rightarrow> 's \<Rightarrow> 's option result" where
  "SharedMutex_lock_shared r t s = (case rw_rdlock r t s of None \<Rightarrow> Inr None
     | Some (status, s) \<Rightarrow> rbind (check (status = P_OK) ''status == 0'') (\<lambda>_. Inr (Some s)))"

definition SharedMutex_try_lock_shared :: "'s rwlock_ops \<Rightarrow> tid \<Rightarrow> 's \<Rightarrow> (bool \<times> 's) result" where
  "SharedMutex_try_lock_shared r t s = (case rw_tryrdlock r t s of (status, s) \<Rightarrow>
     if status = P_OK then Inr (True, s) else if status = P_EBUSY then Inr (False, s) else Inl (CheckFailed ''false''))"

definition SharedMutex_unlock_shared :: "'s rwlock_ops \<Rightarrow> tid \<Rightarrow> 's \<Rightarrow> 's result" where
  "SharedMutex_unlock_shared r t s = SharedMutex_unlock r t s"

section \<open>RecursiveSharedMutex\<close>

text \<open>\<open>pthread_t\<close> values are numbers, and 0 is none, as in the code.\<close>

record 's recursive_mutex =
  rm_rw_lock :: 's
  rm_count :: nat
  rm_writer_id :: tid

definition RecursiveSharedMutex :: "'s \<Rightarrow> 's recursive_mutex" where
  "RecursiveSharedMutex init = \<lparr>rm_rw_lock = init, rm_count = 0, rm_writer_id = 0\<rparr>"

definition rm_count_again :: "tid \<Rightarrow> 's recursive_mutex \<Rightarrow> 's recursive_mutex option result" where
  "rm_count_again t m = rbind (check (rm_writer_id m = t) ''writer_id == pthread_self()'') (\<lambda>_. Inr (Some (m\<lparr>rm_count := rm_count m + 1\<rparr>)))"

definition rm_lock :: "'s rwlock_ops \<Rightarrow> tid \<Rightarrow> 's recursive_mutex \<Rightarrow> 's recursive_mutex option result" where
  "rm_lock r t m = (case rw_wrlock r t (rm_rw_lock m) of
     None \<Rightarrow> Inr None
   | Some (status, s) \<Rightarrow>
       (case status of
          P_OK \<Rightarrow> let m = m\<lparr>rm_rw_lock := s, rm_writer_id := t\<rparr> in
            rbind (check (rm_count m = 0) ''write_lock_count_ == 0'') (\<lambda>_. rm_count_again t m)
        | P_EDEADLK \<Rightarrow> rm_count_again t (m\<lparr>rm_rw_lock := s\<rparr>)
        | _ \<Rightarrow> Inl (CheckFailed ''false'')))"

definition rm_busy :: "tid \<Rightarrow> 's recursive_mutex \<Rightarrow> (bool \<times> 's recursive_mutex) result" where
  "rm_busy t m =
     (if rm_writer_id m = t then
        rbind (check (rm_count m > 0) ''write_lock_count_ > 0'') (\<lambda>_. Inr (True, m\<lparr>rm_count := rm_count m + 1\<rparr>))
      else Inr (False, m))"

definition rm_try_lock :: "'s rwlock_ops \<Rightarrow> tid \<Rightarrow> 's recursive_mutex \<Rightarrow> (bool \<times> 's recursive_mutex) result" where
  "rm_try_lock r t m = (case rw_trywrlock r t (rm_rw_lock m) of (status, s) \<Rightarrow>
     (case status of
        P_OK \<Rightarrow>
          rbind (check (rm_writer_id m = 0) ''writer_id == 0'') (\<lambda>_.
          rbind (check (rm_count m = 0) ''write_lock_count_ == 0'') (\<lambda>_.
          Inr (True, m\<lparr>rm_rw_lock := s, rm_writer_id := t, rm_count := rm_count m + 1\<rparr>)))
      | P_EDEADLK \<Rightarrow> rbind (check (rm_writer_id m = t) ''writer_id == pthread_self()'') (\<lambda>_. rm_busy t (m\<lparr>rm_rw_lock := s\<rparr>))
      | P_EBUSY \<Rightarrow> rm_busy t (m\<lparr>rm_rw_lock := s\<rparr>)
      | P_OTHER \<Rightarrow> Inl (CheckFailed ''false'')))"

definition rm_unlock :: "'s rwlock_ops \<Rightarrow> tid \<Rightarrow> 's recursive_mutex \<Rightarrow> 's recursive_mutex result" where
  "rm_unlock r t m =
     rbind (check (rm_count m > 0) ''write_lock_count_ > 0'') (\<lambda>_.
     rbind (check (rm_writer_id m \<noteq> 0) ''writer_id'') (\<lambda>_.
     let m = m\<lparr>rm_count := rm_count m - 1\<rparr> in
     if rm_count m = 0 then rbind (SharedMutex_unlock r t (rm_rw_lock m)) (\<lambda>s. Inr (m\<lparr>rm_writer_id := 0, rm_rw_lock := s\<rparr>)) else Inr m))"

definition rm_lock_shared :: "'s rwlock_ops \<Rightarrow> tid \<Rightarrow> 's recursive_mutex \<Rightarrow> 's recursive_mutex option result" where
  "rm_lock_shared r t m =
     (if rm_writer_id m = t then Inr (Some m)
      else rbind (SharedMutex_lock_shared r t (rm_rw_lock m)) (\<lambda>s. Inr (map_option (\<lambda>s. m\<lparr>rm_rw_lock := s\<rparr>) s)))"

definition rm_try_lock_shared :: "'s rwlock_ops \<Rightarrow> tid \<Rightarrow> 's recursive_mutex \<Rightarrow> (bool \<times> 's recursive_mutex) result" where
  "rm_try_lock_shared r t m =
     (if rm_writer_id m = t then Inr (True, m)
      else rbind (SharedMutex_try_lock_shared r t (rm_rw_lock m)) (\<lambda>(b, s). Inr (b, m\<lparr>rm_rw_lock := s\<rparr>)))"

definition rm_unlock_shared :: "'s rwlock_ops \<Rightarrow> tid \<Rightarrow> 's recursive_mutex \<Rightarrow> 's recursive_mutex result" where
  "rm_unlock_shared r t m =
     (if rm_writer_id m = t then Inr m
      else case rw_unlock r t (rm_rw_lock m) of (status, s) \<Rightarrow> rbind (check (status = P_OK) ''status == 0'') (\<lambda>_. Inr (m\<lparr>rm_rw_lock := s\<rparr>)))"

section \<open>SpinMutex, Unlocker and StripedLock\<close>

text \<open>A mutex is its flag; \<open>lock\<close> of a mutex that is set spins.\<close>

type_synonym spin_mutex = bool

definition spin_lock :: "spin_mutex \<Rightarrow> spin_mutex option" where
  "spin_lock m = (if m then None else Some True)"

definition spin_try_lock :: "spin_mutex \<Rightarrow> bool \<times> spin_mutex" where
  "spin_try_lock m = (\<not> m, True)"

definition spin_unlock :: "spin_mutex \<Rightarrow> spin_mutex" where
  "spin_unlock m = False"

text \<open>The pool with its hash function; an unlocker points to a mutex of the pool or to none.\<close>

record 'k striped_lock =
  sl_hasher :: "'k \<Rightarrow> nat"
  sl_pool :: "spin_mutex list"

type_synonym unlocker = "nat option"

definition StripedLock :: "('k \<Rightarrow> nat) \<Rightarrow> nat \<Rightarrow> 'k striped_lock" where
  "StripedLock hasher lock_pool_size = \<lparr>sl_hasher = hasher, sl_pool = replicate lock_pool_size False\<rparr>"

definition StripedLock_default :: "('k \<Rightarrow> nat) \<Rightarrow> nat \<Rightarrow> 'k striped_lock" where
  "StripedLock_default hasher nprocs = StripedLock hasher (nprocs * 20)"

definition lock_idx :: "'k striped_lock \<Rightarrow> 'k \<Rightarrow> nat result" where
  "lock_idx l k = (if sl_pool l = [] then Inl (Undefined ''modulo by zero'') else Inr (sl_hasher l k mod length (sl_pool l)))"

definition Striped_Lock :: "'k \<Rightarrow> 'k striped_lock \<Rightarrow> 'k striped_lock option result" where
  "Striped_Lock k l = rbind (lock_idx l k) (\<lambda>i. Inr (map_option (\<lambda>m. l\<lparr>sl_pool := (sl_pool l)[i := m]\<rparr>) (spin_lock (sl_pool l ! i))))"

definition Striped_TryLock :: "'k \<Rightarrow> 'k striped_lock \<Rightarrow> (bool \<times> 'k striped_lock) result" where
  "Striped_TryLock k l = rbind (lock_idx l k) (\<lambda>i. case spin_try_lock (sl_pool l ! i) of (b, m) \<Rightarrow> Inr (b, l\<lparr>sl_pool := (sl_pool l)[i := m]\<rparr>))"

definition Striped_Unlock :: "'k \<Rightarrow> 'k striped_lock \<Rightarrow> 'k striped_lock result" where
  "Striped_Unlock k l = rbind (lock_idx l k) (\<lambda>i. Inr (l\<lparr>sl_pool := (sl_pool l)[i := spin_unlock (sl_pool l ! i)]\<rparr>))"

definition unlock_held :: "unlocker \<Rightarrow> 'k striped_lock \<Rightarrow> 'k striped_lock" where
  "unlock_held u l = (case u of None \<Rightarrow> l | Some i \<Rightarrow> l\<lparr>sl_pool := (sl_pool l)[i := spin_unlock (sl_pool l ! i)]\<rparr>)"

definition Unlocker_SetLock :: "nat \<Rightarrow> unlocker \<Rightarrow> 'k striped_lock \<Rightarrow> unlocker \<times> 'k striped_lock" where
  "Unlocker_SetLock i u l = (Some i, unlock_held u l)"

definition Unlocker_Release :: "unlocker \<Rightarrow> unlocker" where
  "Unlocker_Release u = None"

definition Unlocker_GetAndRelease :: "unlocker \<Rightarrow> nat option \<times> unlocker" where
  "Unlocker_GetAndRelease u = (u, None)"

definition Unlocker_destroy :: "unlocker \<Rightarrow> 'k striped_lock \<Rightarrow> 'k striped_lock" where
  "Unlocker_destroy u l = unlock_held u l"

definition Striped_Lock_with :: "'k \<Rightarrow> unlocker \<Rightarrow> 'k striped_lock \<Rightarrow> (unlocker \<times> 'k striped_lock) option result" where
  "Striped_Lock_with k u l = rbind (lock_idx l k) (\<lambda>i. rbind (Striped_Lock k l) (\<lambda>r. Inr (map_option (Unlocker_SetLock i u) r)))"

definition Striped_TryLock_with :: "'k \<Rightarrow> unlocker \<Rightarrow> 'k striped_lock \<Rightarrow> (bool \<times> unlocker \<times> 'k striped_lock) result" where
  "Striped_TryLock_with k u l = rbind (lock_idx l k) (\<lambda>i. rbind (Striped_TryLock k l) (\<lambda>(b, l).
     Inr (b, if b then Unlocker_SetLock i u l else (u, l))))"

section \<open>Threads that use a RecursiveSharedMutex\<close>

text \<open>
  The mutex, and for every thread how often it has locked it exclusively and shared.  A thread unlocks what it has locked, does not
  wait for the exclusive lock while it shares the lock, and gives back what it shares before it gives up the exclusive lock.
\<close>

type_synonym 's rm_state = "'s recursive_mutex \<times> (tid \<Rightarrow> nat) \<times> (tid \<Rightarrow> nat)"

inductive rm_step :: "'s rwlock_ops \<Rightarrow> 's rm_state \<Rightarrow> 's rm_state \<Rightarrow> bool" for r where
  step_lock: "t \<noteq> 0 \<Longrightarrow> s t = 0 \<or> 0 < w t \<Longrightarrow> rm_lock r t m = Inr (Some m') \<Longrightarrow> rm_step r (m, w, s) (m', w(t := w t + 1), s)"
| step_try_lock: "t \<noteq> 0 \<Longrightarrow> rm_try_lock r t m = Inr (b, m') \<Longrightarrow> rm_step r (m, w, s) (m', if b then w(t := w t + 1) else w, s)"
| step_unlock: "t \<noteq> 0 \<Longrightarrow> 0 < w t \<Longrightarrow> w t = 1 \<longrightarrow> s t = 0 \<Longrightarrow> rm_unlock r t m = Inr m' \<Longrightarrow> rm_step r (m, w, s) (m', w(t := w t - 1), s)"
| step_lock_shared: "t \<noteq> 0 \<Longrightarrow> rm_lock_shared r t m = Inr (Some m') \<Longrightarrow> rm_step r (m, w, s) (m', w, s(t := s t + 1))"
| step_try_lock_shared: "t \<noteq> 0 \<Longrightarrow> rm_try_lock_shared r t m = Inr (b, m') \<Longrightarrow> rm_step r (m, w, s) (m', w, if b then s(t := s t + 1) else s)"
| step_unlock_shared: "t \<noteq> 0 \<Longrightarrow> 0 < s t \<Longrightarrow> rm_unlock_shared r t m = Inr m' \<Longrightarrow> rm_step r (m, w, s) (m', w, s(t := s t - 1))"

inductive rm_reachable :: "'s rwlock_ops \<Rightarrow> 's \<Rightarrow> 's rm_state \<Rightarrow> bool" for r init where
  reach_init: "rm_reachable r init (RecursiveSharedMutex init, \<lambda>t. 0, \<lambda>t. 0)"
| reach_step: "rm_reachable r init st \<Longrightarrow> rm_step r st st' \<Longrightarrow> rm_reachable r init st'"

inductive_cases rm_stepE: "rm_step r (m, w, s) st'"

lemmas rm_ops = rm_lock_def rm_count_again_def rm_try_lock_def rm_busy_def rm_unlock_def rm_lock_shared_def rm_try_lock_shared_def rm_unlock_shared_def
  SharedMutex_unlock_def SharedMutex_lock_shared_def SharedMutex_try_lock_shared_def check_def rbind_def

context posix_rwlock
begin

definition rm_free :: "'s rm_state \<Rightarrow> bool" where
  "rm_free = (\<lambda>(m, w, s). rm_writer_id m = 0 \<and> rm_count m = 0 \<and> rw_writer (rm_rw_lock m) = None \<and> (\<forall>t. w t = 0) \<and> s 0 = 0 \<and>
     (\<forall>t. count (rw_readers (rm_rw_lock m)) t = s t))"

definition rm_owned :: "'s rm_state \<Rightarrow> bool" where
  "rm_owned = (\<lambda>(m, w, s). rm_writer_id m \<noteq> 0 \<and> rw_writer (rm_rw_lock m) = Some (rm_writer_id m) \<and> rw_readers (rm_rw_lock m) = {#} \<and>
     rm_count m = w (rm_writer_id m) \<and> 0 < rm_count m \<and> (\<forall>t. t \<noteq> rm_writer_id m \<longrightarrow> w t = 0 \<and> s t = 0))"

definition rm_inv :: "'s rm_state \<Rightarrow> bool" where
  "rm_inv st \<longleftrightarrow> rm_free st \<or> rm_owned st"

lemma no_reader: "rm_inv (m, w, s) \<Longrightarrow> s t = 0 \<or> 0 < w t \<Longrightarrow> t \<notin># rw_readers (rm_rw_lock m)"
  by (auto simp: rm_inv_def rm_free_def rm_owned_def count_eq_zero_iff [symmetric] simp del: count_eq_zero_iff)

lemma owner_is:
  assumes "rm_inv (m, w, s)" "0 < w t"
  shows "rm_owned (m, w, s)" "rm_writer_id m = t"
proof -
  show o: "rm_owned (m, w, s)" using assms by (auto simp: rm_inv_def rm_free_def)
  show "rm_writer_id m = t"
  proof (rule ccontr)
    assume "rm_writer_id m \<noteq> t"
    then have "w t = 0" using o by (simp add: rm_owned_def)
    then show False using assms(2) by simp
  qed
qed

lemma lock_result:
  assumes "rm_inv (m, w, s)" "s t = 0 \<or> 0 < w t" "rw_wrlock r t (rm_rw_lock m) = Some (st, rw)"
  shows "st = P_OK \<and> rm_free (m, w, s) \<and> rw_writer rw = Some t \<and> rw_readers rw = {#} \<and> rw_readers (rm_rw_lock m) = {#} \<or>
    st = P_EDEADLK \<and> rm_owned (m, w, s) \<and> rm_writer_id m = t \<and> rw = rm_rw_lock m"
  using assms(1,3) wrlock [of t "rm_rw_lock m" rw] wrlock_again [of t "rm_rw_lock m" st rw, OF _ _ no_reader [OF assms(1,2)]]
  by (cases "st = P_OK") (auto simp: rm_inv_def rm_free_def rm_owned_def)

lemma try_lock_result:
  assumes "rm_inv (m, w, s)" "rw_trywrlock r t (rm_rw_lock m) = (st, rw)"
  shows "st = P_OK \<and> rm_free (m, w, s) \<and> rw_writer rw = Some t \<and> rw_readers rw = {#} \<and> rw_readers (rm_rw_lock m) = {#} \<or>
    (st = P_EBUSY \<or> st = P_EDEADLK \<and> rm_owned (m, w, s) \<and> rm_writer_id m = t) \<and> rw = rm_rw_lock m"
  using assms trywrlock [of t "rm_rw_lock m" rw] trywrlock_busy [of t "rm_rw_lock m" st rw]
  by (cases "st = P_OK") (auto simp: rm_inv_def rm_free_def rm_owned_def)

text \<open>Locking exclusively.\<close>

lemma become_owner:
  assumes "rm_free (m, w, s)" "rw_readers (rm_rw_lock m) = {#}" "rw_writer rw = Some t" "rw_readers rw = {#}" "t \<noteq> 0"
  shows "rm_inv (m\<lparr>rm_rw_lock := rw, rm_writer_id := t, rm_count := Suc 0\<rparr>, w(t := Suc (w t)), s)"
proof -
  have "s u = 0" for u
  proof -
    have "count (rw_readers (rm_rw_lock m)) u = s u" using assms(1) by (simp add: rm_free_def)
    then show ?thesis using assms(2) by simp
  qed
  moreover have "w u = 0" for u using assms(1) by (simp add: rm_free_def)
  ultimately show ?thesis using assms(3-5) by (simp add: rm_inv_def rm_owned_def)
qed

lemma owner_again:
  "rm_owned (m, w, s) \<Longrightarrow> rm_writer_id m = t \<Longrightarrow> rm_inv (m\<lparr>rm_count := Suc (rm_count m)\<rparr>, w(t := Suc (w t)), s)"
  by (simp add: rm_inv_def rm_owned_def)

lemma same_lock: "m\<lparr>rm_rw_lock := rm_rw_lock m\<rparr> = m"
  by simp

lemma inv_lock:
  assumes "rm_inv (m, w, s)" "t \<noteq> 0" "s t = 0 \<or> 0 < w t"
  shows "\<exists>x. rm_lock r t m = Inr x" "rm_lock r t m = Inr (Some m') \<Longrightarrow> rm_inv (m', w(t := w t + 1), s)"
proof -
  show "\<exists>x. rm_lock r t m = Inr x"
  proof (cases "rw_wrlock r t (rm_rw_lock m)")
    case (Some p)
    obtain st rw where p: "p = (st, rw)" by fastforce
    from lock_result [OF assms(1,3) Some [unfolded p]] show ?thesis
    proof (elim disjE conjE)
      assume "st = P_OK" "rm_free (m, w, s)"
      then show ?thesis using Some p by (simp add: rm_ops rm_free_def)
    next
      assume "st = P_EDEADLK" "rm_writer_id m = t"
      then show ?thesis using Some p by (simp add: rm_ops)
    qed
  qed (simp add: rm_lock_def)
  assume l: "rm_lock r t m = Inr (Some m')"
  then obtain st rw where rw: "rw_wrlock r t (rm_rw_lock m) = Some (st, rw)" by (auto simp: rm_lock_def split: option.splits)
  from lock_result [OF assms(1,3) rw] show "rm_inv (m', w(t := w t + 1), s)"
  proof (elim disjE conjE)
    assume a: "st = P_OK" "rm_free (m, w, s)" "rw_writer rw = Some t" "rw_readers rw = {#}" "rw_readers (rm_rw_lock m) = {#}"
    then have "m' = m\<lparr>rm_rw_lock := rw, rm_writer_id := t, rm_count := Suc 0\<rparr>" using rw l by (cases m) (auto simp: rm_ops split: if_splits)
    then show ?thesis using become_owner [OF a(2,5,3,4) assms(2)] by simp
  next
    assume a: "st = P_EDEADLK" "rm_owned (m, w, s)" "rm_writer_id m = t" "rw = rm_rw_lock m"
    then have "m' = m\<lparr>rm_count := Suc (rm_count m)\<rparr>" using rw l by (auto simp: rm_ops split: if_splits)
    then show ?thesis using owner_again [OF a(2,3)] by simp
  qed
qed

lemma busy_cases:
  assumes "rm_inv (m, w, s)" "t \<noteq> 0"
  shows "rm_busy t m = Inr (False, m) \<or> rm_owned (m, w, s) \<and> rm_writer_id m = t \<and> rm_busy t m = Inr (True, m\<lparr>rm_count := Suc (rm_count m)\<rparr>)"
  using assms by (cases "rm_writer_id m = t") (auto simp: rm_busy_def rm_inv_def rm_free_def rm_owned_def check_def rbind_def)

lemma try_lock_cases:
  assumes "rm_inv (m, w, s)" "t \<noteq> 0"
  obtains "rm_try_lock r t m = Inr (False, m)"
  | m' where "rm_try_lock r t m = Inr (True, m')" "rm_inv (m', w(t := w t + 1), s)"
proof -
  obtain st rw where rw: "rw_trywrlock r t (rm_rw_lock m) = (st, rw)" by fastforce
  from try_lock_result [OF assms(1) rw] show ?thesis
  proof (elim disjE conjE)
    assume a: "st = P_OK" "rm_free (m, w, s)" "rw_writer rw = Some t" "rw_readers rw = {#}" "rw_readers (rm_rw_lock m) = {#}"
    then have "rm_try_lock r t m = Inr (True, m\<lparr>rm_rw_lock := rw, rm_writer_id := t, rm_count := Suc 0\<rparr>)"
      using rw by (simp add: rm_try_lock_def check_def rbind_def rm_free_def)
    then show ?thesis using become_owner [OF a(2,5,3,4) assms(2)] that(2) by simp
  next
    assume a: "st = P_EBUSY" "rw = rm_rw_lock m"
    then have "rm_try_lock r t m = rm_busy t m" using rw by (simp add: rm_try_lock_def)
    with busy_cases [OF assms] show ?thesis using that owner_again [of m w s t] by auto
  next
    assume a: "st = P_EDEADLK" "rm_writer_id m = t" "rw = rm_rw_lock m"
    then have "rm_try_lock r t m = rm_busy t m" using rw by (simp add: rm_try_lock_def check_def rbind_def)
    with busy_cases [OF assms] show ?thesis using that owner_again [of m w s t] by auto
  qed
qed

lemma inv_unlock:
  assumes "rm_inv (m, w, s)" "t \<noteq> 0" "0 < w t" "w t = 1 \<longrightarrow> s t = 0"
  shows "\<exists>m'. rm_unlock r t m = Inr m' \<and> rm_inv (m', w(t := w t - 1), s)"
proof -
  note own = owner_is [OF assms(1,3)]
  then have c: "rm_count m = w t" "rw_writer (rm_rw_lock m) = Some t" by (auto simp: rm_owned_def)
  show ?thesis
  proof (cases "w t = 1")
    case True
    obtain rw where rw: "rw_unlock r t (rm_rw_lock m) = (P_OK, rw)" "rw_writer rw = None" "rw_readers rw = {#}" using unlock_writer [OF c(2)] by blast
    have "s u = 0" for u using own True assms(4) by (cases "u = t") (auto simp: rm_owned_def)
    moreover have "(w(t := w t - 1)) u = 0" for u using own True by (auto simp: rm_owned_def)
    ultimately have "rm_inv (m\<lparr>rm_count := 0, rm_writer_id := 0, rm_rw_lock := rw\<rparr>, w(t := w t - 1), s)" using rw by (simp add: rm_inv_def rm_free_def)
    then show ?thesis using c rw own assms(2) True by (simp add: rm_unlock_def SharedMutex_unlock_def check_def rbind_def)
  next
    case False
    then have "rm_inv (m\<lparr>rm_count := w t - 1\<rparr>, w(t := w t - 1), s)" using own assms(3) by (auto simp: rm_inv_def rm_owned_def)
    then show ?thesis using c own assms(2,3) False by (simp add: rm_unlock_def check_def rbind_def)
  qed
qed

text \<open>Sharing the lock.\<close>

lemma share_owner: "rm_inv (m, w, s) \<Longrightarrow> rm_writer_id m = t \<Longrightarrow> t \<noteq> 0 \<Longrightarrow> rm_inv (m, w, s(t := x))"
  by (auto simp: rm_inv_def rm_free_def rm_owned_def)

lemma share_free:
  "rm_free (m, w, s) \<Longrightarrow> t \<noteq> 0 \<Longrightarrow> rw_writer rw = None \<Longrightarrow> rw_readers rw = add_mset t (rw_readers (rm_rw_lock m)) \<Longrightarrow>
   rm_inv (m\<lparr>rm_rw_lock := rw\<rparr>, w, s(t := Suc (s t)))"
  by (auto simp: rm_inv_def rm_free_def)

lemma not_owner:
  assumes "rm_inv (m, w, s)" "rm_writer_id m \<noteq> t"
  shows "rw_writer (rm_rw_lock m) \<noteq> Some t" "rw_writer (rm_rw_lock m) = None \<Longrightarrow> rm_free (m, w, s)"
  using assms by (auto simp: rm_inv_def rm_free_def rm_owned_def)

lemma inv_lock_shared:
  assumes "rm_inv (m, w, s)" "t \<noteq> 0"
  shows "\<exists>x. rm_lock_shared r t m = Inr x \<and> (\<forall>m'. x = Some m' \<longrightarrow> rm_inv (m', w, s(t := s t + 1)))"
proof (cases "rm_writer_id m = t")
  case True
  then show ?thesis using assms by (simp add: rm_lock_shared_def share_owner)
next
  case False
  note no = not_owner [OF assms(1) False]
  show ?thesis
  proof (cases "rw_rdlock r t (rm_rw_lock m)")
    case (Some p)
    obtain st rw where p: "p = (st, rw)" by fastforce
    have "st = P_OK" "rw_writer (rm_rw_lock m) = None" "rw_writer rw = None" "rw_readers rw = add_mset t (rw_readers (rm_rw_lock m))"
      using rdlock [OF Some [unfolded p] no(1)] by auto
    then show ?thesis
      using Some p False share_free [OF no(2) assms(2)] by (simp add: rm_lock_shared_def SharedMutex_lock_shared_def check_def rbind_def)
  qed (use False in \<open>simp add: rm_lock_shared_def SharedMutex_lock_shared_def rbind_def\<close>)
qed

lemma inv_try_lock_shared:
  assumes "rm_inv (m, w, s)" "t \<noteq> 0"
  shows "\<exists>b m'. rm_try_lock_shared r t m = Inr (b, m') \<and> rm_inv (m', w, if b then s(t := s t + 1) else s)"
proof (cases "rm_writer_id m = t")
  case True
  then show ?thesis using assms share_owner [OF assms(1) True] by (intro exI [of _ True] exI [of _ m]) (simp add: rm_try_lock_shared_def)
next
  case False
  note no = not_owner [OF assms(1) False]
  obtain st rw where rw: "rw_tryrdlock r t (rm_rw_lock m) = (st, rw)" by fastforce
  show ?thesis
  proof (cases "st = P_OK")
    case True
    then have "rw_writer (rm_rw_lock m) = None" "rw_writer rw = None" "rw_readers rw = add_mset t (rw_readers (rm_rw_lock m))"
      using tryrdlock rw by auto
    then show ?thesis using True rw False share_free [OF no(2) assms(2)]
      by (intro exI [of _ True] exI [of _ "m\<lparr>rm_rw_lock := rw\<rparr>"]) (simp add: rm_try_lock_shared_def SharedMutex_try_lock_shared_def rbind_def)
  next
    case f: False
    then have "st = P_EBUSY" "rw = rm_rw_lock m" using tryrdlock_busy rw by auto
    then show ?thesis using rw False assms(1)
      by (intro exI [of _ False] exI [of _ m]) (simp add: rm_try_lock_shared_def SharedMutex_try_lock_shared_def rbind_def)
  qed
qed

lemma inv_unlock_shared:
  assumes "rm_inv (m, w, s)" "t \<noteq> 0" "0 < s t"
  shows "\<exists>m'. rm_unlock_shared r t m = Inr m' \<and> rm_inv (m', w, s(t := s t - 1))"
proof (cases "rm_writer_id m = t")
  case True
  then show ?thesis using assms by (simp add: rm_unlock_shared_def share_owner)
next
  case False
  then have f: "rm_free (m, w, s)" using assms(1,3) by (auto simp: rm_inv_def rm_owned_def)
  then have "rw_writer (rm_rw_lock m) = None" and c: "\<And>u. count (rw_readers (rm_rw_lock m)) u = s u" by (auto simp: rm_free_def)
  moreover have "t \<in># rw_readers (rm_rw_lock m)" using c [of t] assms(3) by (metis count_greater_zero_iff)
  ultimately obtain rw where rw: "rw_unlock r t (rm_rw_lock m) = (P_OK, rw)" "rw_writer rw = None" "rw_readers rw = rw_readers (rm_rw_lock m) - {#t#}"
    using unlock_reader by blast
  have "rm_inv (m\<lparr>rm_rw_lock := rw\<rparr>, w, s(t := s t - 1))" using f rw assms(2) by (auto simp: rm_inv_def rm_free_def)
  then show ?thesis using rw(1) False by (simp add: rm_unlock_shared_def check_def rbind_def)
qed

text \<open>Every step keeps the invariant.\<close>

lemma rm_step_inv: "rm_step r st st' \<Longrightarrow> rm_inv st \<Longrightarrow> rm_inv st'"
proof (induction rule: rm_step.induct)
  case (step_lock t s w m m')
  then show ?case using inv_lock(2) by blast
next
  case (step_try_lock t m b m' w s)
  from try_lock_cases [OF step_try_lock(3,1)] step_try_lock show ?case by cases auto
next
  case (step_unlock t w s m m')
  then show ?case using inv_unlock [of m w s t] by auto
next
  case (step_lock_shared t m m' w s)
  then show ?case using inv_lock_shared [of m w s t] by auto
next
  case (step_try_lock_shared t m b m' w s)
  then show ?case using inv_try_lock_shared [of m w s t] by auto
next
  case (step_unlock_shared t s m m' w)
  then show ?case using inv_unlock_shared [of m w s t] by auto
qed

lemma rm_reachable_inv: "rm_reachable r init st \<Longrightarrow> rm_inv st"
proof (induction rule: rm_reachable.induct)
  case reach_init
  then show ?case by (simp add: rm_inv_def rm_free_def RecursiveSharedMutex_def init_free)
qed (rule rm_step_inv)

text \<open>Exclusion, and that no assertion of the code fails.\<close>

lemma rm_exclusive:
  assumes "rm_reachable r init (m, w, s)"
  shows "0 < w t \<Longrightarrow> u \<noteq> t \<Longrightarrow> w u = 0 \<and> s u = 0"
  using owner_is [OF rm_reachable_inv [OF assms], of t] by (simp add: rm_owned_def)

lemma rm_no_failure:
  assumes "rm_reachable r init (m, w, s)" "t \<noteq> 0"
  shows "s t = 0 \<or> 0 < w t \<Longrightarrow> \<exists>x. rm_lock r t m = Inr x" "\<exists>x. rm_try_lock r t m = Inr x" "\<exists>x. rm_lock_shared r t m = Inr x" "\<exists>x. rm_try_lock_shared r t m = Inr x"
    "0 < w t \<Longrightarrow> (w t = 1 \<longrightarrow> s t = 0) \<Longrightarrow> \<exists>x. rm_unlock r t m = Inr x" "0 < s t \<Longrightarrow> \<exists>x. rm_unlock_shared r t m = Inr x"
proof -
  note i = rm_reachable_inv [OF assms(1)]
  show "\<exists>x. rm_lock r t m = Inr x" if "s t = 0 \<or> 0 < w t" using inv_lock(1) [OF i assms(2) that] .
  show "\<exists>x. rm_try_lock r t m = Inr x" using try_lock_cases [OF i assms(2)] by blast
  show "\<exists>x. rm_lock_shared r t m = Inr x" using inv_lock_shared [OF i assms(2)] by blast
  show "\<exists>x. rm_try_lock_shared r t m = Inr x" using inv_try_lock_shared [OF i assms(2)] by blast
  show "\<exists>x. rm_unlock r t m = Inr x" if "0 < w t" "w t = 1 \<longrightarrow> s t = 0" using inv_unlock [OF i assms(2) that] by blast
  show "\<exists>x. rm_unlock_shared r t m = Inr x" if "0 < s t" using inv_unlock_shared [OF i assms(2) that] by blast
qed

end

section \<open>Properties\<close>

text \<open>
  C40. Mutual exclusion of the recursive read-write mutex: in every interleaving of any threads that lock and unlock it, a thread that holds it
  exclusively, however often, is the only one that holds it at all, and no assertion in its operations fails.  The lock of the
  operating system underneath is any that behaves as POSIX says.
\<close>

theorem recursive_mutex_exclusion:
  assumes "posix_rwlock r init rw_writer rw_readers" "rm_reachable r init (m, w, s)" "t \<noteq> 0"
  shows "(0 < w t \<longrightarrow> (\<forall>u. u \<noteq> t \<longrightarrow> w u = 0 \<and> s u = 0)) \<and>
    (s t = 0 \<or> 0 < w t \<longrightarrow> (\<exists>x. rm_lock r t m = Inr x)) \<and> (\<exists>x. rm_try_lock r t m = Inr x) \<and>
    (0 < w t \<and> (w t = 1 \<longrightarrow> s t = 0) \<longrightarrow> (\<exists>x. rm_unlock r t m = Inr x)) \<and>
    (\<exists>x. rm_lock_shared r t m = Inr x) \<and> (\<exists>x. rm_try_lock_shared r t m = Inr x) \<and> (0 < s t \<longrightarrow> (\<exists>x. rm_unlock_shared r t m = Inr x))"
proof -
  note e = posix_rwlock.rm_exclusive [OF assms(1,2), of t] and f = posix_rwlock.rm_no_failure [OF assms]
  show ?thesis using e f by blast
qed

definition example_locked :: "simple_rwlock rm_state" where
  "example_locked = (\<lparr>rm_rw_lock = \<lparr>sl_writer = Some 1, sl_readers = {#}\<rparr>, rm_count = 2, rm_writer_id = 1\<rparr>, (\<lambda>t. 0)(1 := 2), \<lambda>t. 0)"

lemma example_reachable: "rm_reachable simple_ops simple_init example_locked"
proof -
  let ?m1 = "\<lparr>rm_rw_lock = \<lparr>sl_writer = Some 1, sl_readers = {#}\<rparr>, rm_count = 1, rm_writer_id = 1\<rparr>"
  have "rm_step simple_ops (RecursiveSharedMutex simple_init, \<lambda>t. 0, \<lambda>t. 0) (?m1, (\<lambda>t. 0)(1 := (\<lambda>t. 0) 1 + 1), \<lambda>t. 0)"
    by (rule step_lock) (simp_all add: rm_ops simple_ops_def simple_init_def RecursiveSharedMutex_def)
  then have 1: "rm_reachable simple_ops simple_init (?m1, (\<lambda>t. 0)(1 := 1), \<lambda>t. 0)" using reach_step [OF reach_init] by simp
  let ?w1 = "(\<lambda>t. 0)(1 := 1) :: tid \<Rightarrow> nat"
  let ?m2 = "\<lparr>rm_rw_lock = \<lparr>sl_writer = Some 1, sl_readers = {#}\<rparr>, rm_count = 2, rm_writer_id = 1\<rparr>"
  have "rm_lock simple_ops 1 ?m1 = Inr (Some ?m2)" by (simp add: rm_ops simple_ops_def)
  then have "rm_step simple_ops (?m1, ?w1, \<lambda>t. 0) (?m2, ?w1(1 := ?w1 1 + 1), \<lambda>t. 0)" by (intro rm_step.step_lock [where w = ?w1]) simp_all
  then show ?thesis using reach_step [OF 1] by (simp add: example_locked_def numeral_2_eq_2)
qed

theorem recursive_mutex_exclusion_witness:
  "posix_rwlock simple_ops simple_init sl_writer sl_readers \<and> rm_reachable simple_ops simple_init example_locked \<and>
   fst (snd example_locked) 1 = 2 \<and> fst (snd example_locked) 2 = 0 \<and> (\<exists>x. rm_unlock simple_ops 1 (fst example_locked) = Inr x)"
proof -
  have "rm_reachable simple_ops simple_init (fst example_locked, fst (snd example_locked), snd (snd example_locked))" using example_reachable by simp
  then show ?thesis
    using recursive_mutex_exclusion [OF simple.posix_rwlock_axioms, of "fst example_locked" "fst (snd example_locked)" "snd (snd example_locked)" 1] example_reachable
      simple.posix_rwlock_axioms by (simp add: example_locked_def)
qed

section \<open>Stripes\<close>

text \<open>The keys that threads hold, with the unlockers left out: a lock is free exactly when no key of its stripe is held.\<close>

definition stripe :: "'k striped_lock \<Rightarrow> 'k \<Rightarrow> nat" where
  "stripe l k = sl_hasher l k mod length (sl_pool l)"

definition striped_ok :: "'k striped_lock \<Rightarrow> (tid \<times> 'k) set \<Rightarrow> bool" where
  "striped_ok l H \<longleftrightarrow> sl_pool l \<noteq> [] \<and> (\<forall>i < length (sl_pool l). sl_pool l ! i \<longleftrightarrow> (\<exists>h \<in> H. stripe l (snd h) = i)) \<and> inj_on (\<lambda>h. stripe l (snd h)) H"

lemma stripe_bound: "sl_pool l \<noteq> [] \<Longrightarrow> stripe l k < length (sl_pool l)"
  by (simp add: stripe_def)

lemma stripe_upd [simp]: "stripe (l\<lparr>sl_pool := (sl_pool l)[i := b]\<rparr>) k = stripe l k"
  by (simp add: stripe_def)

lemma striped_new: "0 < n \<Longrightarrow> striped_ok (StripedLock h n) {}"
  by (simp add: striped_ok_def StripedLock_def)

lemma striped_take:
  assumes "striped_ok l H" "\<not> sl_pool l ! stripe l k"
  shows "striped_ok (l\<lparr>sl_pool := (sl_pool l)[stripe l k := True]\<rparr>) (insert (t, k) H)"
  using assms stripe_bound [of l k] by (auto simp: striped_ok_def nth_list_update inj_on_def)

text \<open>\<open>Lock\<close> waits while a key of the same stripe is held, \<open>TryLock\<close> returns false then, and \<open>Unlock\<close> frees the stripe.\<close>

lemma Striped_Lock_ok:
  assumes "striped_ok l H"
  shows "Striped_Lock k l = Inr None \<and> (\<exists>h \<in> H. stripe l (snd h) = stripe l k) \<or>
    (\<exists>l'. Striped_Lock k l = Inr (Some l') \<and> (\<forall>h \<in> H. stripe l (snd h) \<noteq> stripe l k) \<and> striped_ok l' (insert (t, k) H))"
proof (cases "sl_pool l ! stripe l k")
  case True
  then show ?thesis using assms stripe_bound [of l k] by (auto simp: Striped_Lock_def lock_idx_def stripe_def spin_lock_def striped_ok_def)
next
  case False
  then show ?thesis using striped_take [OF assms False, of t] assms stripe_bound [of l k]
    by (auto simp: Striped_Lock_def lock_idx_def stripe_def spin_lock_def striped_ok_def)
qed

lemma Striped_TryLock_ok:
  assumes "striped_ok l H"
  shows "\<exists>b l'. Striped_TryLock k l = Inr (b, l') \<and> (b \<longleftrightarrow> (\<forall>h \<in> H. stripe l (snd h) \<noteq> stripe l k)) \<and>
    striped_ok l' (if b then insert (t, k) H else H)"
proof -
  have ne: "sl_pool l \<noteq> []" and i: "stripe l k < length (sl_pool l)" using assms stripe_bound [of l k] by (auto simp: striped_ok_def)
  have r: "Striped_TryLock k l = Inr (\<not> sl_pool l ! stripe l k, l\<lparr>sl_pool := (sl_pool l)[stripe l k := True]\<rparr>)"
    using ne by (simp add: Striped_TryLock_def lock_idx_def spin_try_lock_def stripe_def)
  have b: "sl_pool l ! stripe l k \<longleftrightarrow> (\<exists>h \<in> H. stripe l (snd h) = stripe l k)" using assms i by (simp add: striped_ok_def)
  show ?thesis
  proof (cases "sl_pool l ! stripe l k")
    case True
    have "(sl_pool l)[stripe l k := True] = sl_pool l" using True by (simp add: list_update_same_conv i)
    then show ?thesis using r True b assms by auto
  next
    case False
    then show ?thesis using r b striped_take [OF assms False, of t] by auto
  qed
qed

lemma Striped_Unlock_ok:
  assumes "striped_ok l H" "(t, k) \<in> H"
  shows "\<exists>l'. Striped_Unlock k l = Inr l' \<and> striped_ok l' (H - {(t, k)})"
proof -
  have ne: "sl_pool l \<noteq> []" and i: "stripe l k < length (sl_pool l)" using assms(1) stripe_bound [of l k] by (auto simp: striped_ok_def)
  have u: "Striped_Unlock k l = Inr (l\<lparr>sl_pool := (sl_pool l)[stripe l k := False]\<rparr>)"
    using ne by (simp add: Striped_Unlock_def lock_idx_def spin_unlock_def stripe_def)
  have "stripe l (snd h) \<noteq> stripe l k" if "h \<in> H - {(t, k)}" for h
    using assms that by (auto simp: striped_ok_def inj_on_def)
  moreover have "\<exists>h \<in> H - {(t, k)}. stripe l (snd h) = j" if "\<exists>h \<in> H. stripe l (snd h) = j" "j \<noteq> stripe l k" for j using that by auto
  ultimately have "striped_ok (l\<lparr>sl_pool := (sl_pool l)[stripe l k := False]\<rparr>) (H - {(t, k)})"
    using assms(1) i ne by (auto simp: striped_ok_def nth_list_update intro: inj_on_subset)
  then show ?thesis using u by blast
qed

end
