(* ===== verification/Vector_Clock_MT.thy ===== *)
theory Vector_Clock_MT
imports Vector_Clock Locks
begin

text \<open>
  \<open>VectorClockMT\<close> (petuum_ps_common/util/vector_clock_mt.cpp): the vector clock behind a \<open>SharedMutex\<close>.  Threads run side by side; each step of
  one thread takes or releases the mutex or reads or writes the clock once, and any thread may move next.  The mutex is that of \<open>Locks\<close>, over the read-write
  lock of the operating system.
\<close>

section \<open>Threads and their steps\<close>

text \<open>
  Where a thread is: outside, at the constructor of the lock guard, or inside the call of the base class: at its beginning, in \<open>Tick\<close> after the test for the unique minimum
  (with its result) and before \<open>min_clock_\<close> is incremented, in \<open>AddClock\<close> after the assignment, or at the end, with the result.
\<close>

datatype mt_pc =
  MT_Idle | MT_Call mt_op | MT_Start mt_op | MT_Tested int bool | MT_Min int | MT_Added int int | MT_Done mt_op "int option"

fun mt_inside :: "mt_pc \<Rightarrow> bool" where
  "mt_inside MT_Idle = False"
| "mt_inside (MT_Call _) = False"
| "mt_inside _ = True"

text \<open>One access to the clock, as the base class makes it.\<close>

fun mt_micro :: "mt_pc \<Rightarrow> vector_clock \<Rightarrow> (mt_pc \<times> vector_clock) result" where
  "mt_micro (MT_Start (MT_AddClock i t)) c = Inr (MT_Added i t, c\<lparr>vec_clock := AList.update i t (vec_clock c)\<rparr>)"
| "mt_micro (MT_Added i t) c =
     Inr (MT_Done (MT_AddClock i t) None, if min_clock c = - 1 \<or> t < min_clock c then c\<lparr>min_clock := t\<rparr> else c)"
| "mt_micro (MT_Start (MT_Tick i)) c = (let (u, c) = IsUniqueMin i c in Inr (MT_Tested i u, c))"
| "mt_micro (MT_Tested i u) c = Inr (if u then MT_Min i else MT_Done (MT_Tick i) (Some 0), incr_clock i c)"
| "mt_micro (MT_Min i) c = (let c = c\<lparr>min_clock := min_clock c + 1\<rparr> in Inr (MT_Done (MT_Tick i) (Some (min_clock c)), c))"
| "mt_micro (MT_Start (MT_get_clock i)) c = rbind (get_clock i c) (\<lambda>v. Inr (MT_Done (MT_get_clock i) (Some v), c))"
| "mt_micro (MT_Start MT_get_min_clock) c = Inr (MT_Done MT_get_min_clock (Some (get_min_clock c)), c)"
| "mt_micro p c = Inr (p, c)"

text \<open>The clock, the mutex, the threads, and the calls that have returned, with their threads and results, in the order in which they released the mutex.\<close>

record 's mt_state =
  mt_mutex :: 's
  mt_clock :: vector_clock
  mt_pc :: "tid \<Rightarrow> mt_pc"
  mt_log :: "(tid \<times> mt_op \<times> int option) list"

definition VectorClockMT :: "'s \<Rightarrow> vector_clock \<Rightarrow> 's mt_state" where
  "VectorClockMT init c = \<lparr>mt_mutex = init, mt_clock = c, mt_pc = (\<lambda>_. MT_Idle), mt_log = []\<rparr>"

text \<open>
  The next step of thread t, which calls \<open>op\<close> if it is outside; None while it waits for the mutex.  All four functions, the readers too, hold a
  \<open>unique_lock\<close> from before the call of the base class until after it.
\<close>

definition mt_move :: "'s rwlock_ops \<Rightarrow> tid \<Rightarrow> mt_op \<Rightarrow> 's mt_state \<Rightarrow> 's mt_state option result" where
  "mt_move r t op st =
     (case mt_pc st t of
        MT_Idle \<Rightarrow> Inr (Some (st\<lparr>mt_pc := (mt_pc st)(t := MT_Call op)\<rparr>))
      | MT_Call op' \<Rightarrow>
          rbind (SharedMutex_lock r t (mt_mutex st)) (\<lambda>m.
          Inr (map_option (\<lambda>m. st\<lparr>mt_mutex := m, mt_pc := (mt_pc st)(t := MT_Start op')\<rparr>) m))
      | MT_Done op' v \<Rightarrow>
          rbind (SharedMutex_unlock r t (mt_mutex st)) (\<lambda>m.
          Inr (Some (st\<lparr>mt_mutex := m, mt_pc := (mt_pc st)(t := MT_Idle), mt_log := mt_log st @ [(t, op', v)]\<rparr>)))
      | p \<Rightarrow>
          rbind (mt_micro p (mt_clock st)) (\<lambda>(p, c).
          Inr (Some (st\<lparr>mt_clock := c, mt_pc := (mt_pc st)(t := p)\<rparr>))))"

inductive mt_reachable :: "'s rwlock_ops \<Rightarrow> 's mt_state \<Rightarrow> 's mt_state \<Rightarrow> bool" for r st0 where
  start: "mt_reachable r st0 st0"
| move: "mt_reachable r st0 st \<Longrightarrow> mt_move r t op st = Inr (Some st') \<Longrightarrow> mt_reachable r st0 st'"

section \<open>Calls in the order of the mutex\<close>

text \<open>The calls of a log, one after the other: they have the results of the log.\<close>

fun replay :: "vector_clock \<Rightarrow> (tid \<times> mt_op \<times> int option) list \<Rightarrow> vector_clock option" where
  "replay c [] = Some c"
| "replay c ((t, op, v) # ls) = (case vc_call c op of Inr (v', c') \<Rightarrow> if v' = v then replay c' ls else None | Inl _ \<Rightarrow> None)"

lemma replay_append: "replay c (ls @ ls') = (case replay c ls of None \<Rightarrow> None | Some c \<Rightarrow> replay c ls')"
  by (induction c ls rule: replay.induct) (auto split: sum.split)

text \<open>Participants are added once, with a clock that is not negative, and tick afterwards.\<close>

fun log_ok :: "int set \<Rightarrow> (tid \<times> mt_op \<times> int option) list \<Rightarrow> bool" where
  "log_ok S [] = True"
| "log_ok S ((_, MT_AddClock i t, _) # ls) = (i \<notin> S \<and> 0 \<le> t \<and> log_ok (insert i S) ls)"
| "log_ok S ((_, MT_Tick i, _) # ls) = (i \<in> S \<and> log_ok S ls)"
| "log_ok S (_ # ls) = log_ok S ls"

lemma replay_ok: "vc_ok c \<Longrightarrow> log_ok (dom (clocks c)) ls \<Longrightarrow> replay c ls = Some c' \<Longrightarrow> vc_ok c'"
proof (induction "dom (clocks c)" ls arbitrary: c rule: log_ok.induct)
  case (2 t0 i t v0 ls)
  from "2.prems"(2) have i: "clocks c i = None" "0 \<le> t" "log_ok (insert i (dom (clocks c))) ls" by auto
  have "dom (clocks (AddClock i t c)) = insert i (dom (clocks c))" by (simp add: AddClock_clocks)
  then show ?case using "2.hyps" [of "AddClock i t c"] "2.prems"(1,3) i AddClock_ok [OF "2.prems"(1) i(1,2)] by (simp split: if_splits)
next
  case (3 t0 i v0 ls)
  from "3.prems"(2) obtain v where v: "clocks c i = Some v" by auto
  obtain r d where T: "Tick i c = (r, d)" by fastforce
  note sp = Tick_spec [OF "3.prems"(1) v T]
  have "dom (clocks d) = dom (clocks c)" using sp(2) v by auto
  then show ?case using "3.hyps" [of d] "3.prems"(2,3) sp(1) T by (simp split: if_splits)
qed (auto split: if_splits sum.splits simp: rbind_def)

text \<open>The clock of a participant counts its ticks, in whatever order the threads have had the mutex.\<close>

definition ticks_of :: "int \<Rightarrow> (tid \<times> mt_op \<times> int option) list \<Rightarrow> nat" where
  "ticks_of i ls = length (filter (\<lambda>(_, op, _). op = MT_Tick i) ls)"

lemma replay_counts:
  "vc_ok c \<Longrightarrow> log_ok (dom (clocks c)) ls \<Longrightarrow> replay c ls = Some c' \<Longrightarrow> clocks c j = Some w \<Longrightarrow> clocks c' j = Some (w + int (ticks_of j ls))"
proof (induction "dom (clocks c)" ls arbitrary: c w rule: log_ok.induct)
  case (2 t0 i t v0 ls)
  from "2.prems"(2) have i: "clocks c i = None" "0 \<le> t" "log_ok (insert i (dom (clocks c))) ls" by auto
  have d: "dom (clocks (AddClock i t c)) = insert i (dom (clocks c))" by (simp add: AddClock_clocks)
  have j: "clocks (AddClock i t c) j = Some w" using "2.prems"(4) i(1) by (auto simp: AddClock_clocks)
  show ?case using "2.hyps" [of "AddClock i t c" w] d "2.prems"(1,3) i j AddClock_ok [OF "2.prems"(1) i(1,2)] by (simp add: ticks_of_def split: if_splits)
next
  case (3 t0 i v0 ls)
  from "3.prems"(2) obtain v where v: "clocks c i = Some v" by auto
  obtain r d where T: "Tick i c = (r, d)" by fastforce
  note sp = Tick_spec [OF "3.prems"(1) v T]
  have d: "dom (clocks d) = dom (clocks c)" using sp(2) v by auto
  have j: "clocks d j = Some (if j = i then w + 1 else w)" using sp(2) v "3.prems"(4) by auto
  show ?case using "3.hyps" [OF d [symmetric] sp(1) _ _ j] "3.prems"(2,3) d T by (auto simp: ticks_of_def split: if_splits)
qed (auto split: if_splits sum.splits simp: rbind_def ticks_of_def)

section \<open>The invariant\<close>

text \<open>How far the thread inside has brought the clock, from the clock \<open>c\<close> it has found.\<close>

fun mt_between :: "vector_clock \<Rightarrow> mt_pc \<Rightarrow> vector_clock \<Rightarrow> bool" where
  "mt_between c (MT_Start op) d = (d = c)"
| "mt_between c (MT_Tested i u) d = (IsUniqueMin i c = (u, d))"
| "mt_between c (MT_Min i) d = (\<exists>c1. IsUniqueMin i c = (True, c1) \<and> d = incr_clock i c1)"
| "mt_between c (MT_Added i t) d = (d = c\<lparr>vec_clock := AList.update i t (vec_clock c)\<rparr>)"
| "mt_between c (MT_Done op v) d = (vc_call c op = Inr (v, d))"
| "mt_between c _ d = False"

lemma mt_micro_between:
  assumes "mt_between c p d" "mt_micro p d = Inr (p', d')" "\<nexists>op v. p = MT_Done op v"
  shows "mt_between c p' d' \<and> mt_inside p'"
proof (cases p)
  case (MT_Start op)
  then show ?thesis using assms by (cases op) (auto simp: rbind_def split: prod.splits sum.splits)
next
  case (MT_Tested i u)
  then show ?thesis using assms by (auto simp: Tick_def)
next
  case (MT_Min i)
  then show ?thesis using assms by (auto simp: Tick_def Let_def)
next
  case (MT_Added i t)
  then show ?thesis using assms by (auto simp: AddClock_def Let_def)
qed (use assms in auto)

locale mt_lock = posix_rwlock r init rw_writer rw_readers
  for r :: "'s rwlock_ops" and init rw_writer rw_readers +
  fixes c0 :: vector_clock
begin

definition mt_inv :: "'s mt_state \<Rightarrow> bool" where
  "mt_inv st \<longleftrightarrow> rw_readers (mt_mutex st) = {#} \<and> (\<forall>t. mt_inside (mt_pc st t) \<longleftrightarrow> rw_writer (mt_mutex st) = Some t) \<and>
     (\<exists>c. replay c0 (mt_log st) = Some c \<and>
       (case rw_writer (mt_mutex st) of None \<Rightarrow> mt_clock st = c | Some t \<Rightarrow> mt_between c (mt_pc st t) (mt_clock st)))"

lemma inv_inside: "mt_inv st \<Longrightarrow> mt_inside (mt_pc st t) \<longleftrightarrow> rw_writer (mt_mutex st) = Some t"
  unfolding mt_inv_def by blast

lemma inv_start: "mt_inv (VectorClockMT init c0)"
  by (simp add: mt_inv_def VectorClockMT_def init_free)

lemma inv_call: "mt_inv st \<Longrightarrow> mt_pc st t = MT_Idle \<Longrightarrow> mt_inv (st\<lparr>mt_pc := (mt_pc st)(t := MT_Call op)\<rparr>)"
  unfolding mt_inv_def by (auto split: option.splits)

lemma inv_lock:
  assumes "mt_inv st" "mt_pc st t = MT_Call op" "SharedMutex_lock r t (mt_mutex st) = Inr (Some m)"
  shows "mt_inv (st\<lparr>mt_mutex := m, mt_pc := (mt_pc st)(t := MT_Start op)\<rparr>)"
proof -
  obtain x where x: "rw_wrlock r t (mt_mutex st) = Some (P_OK, m)"
    using assms(3) by (auto simp: SharedMutex_lock_def check_def rbind_def split: option.splits prod.splits if_splits)
  note w = wrlock [OF x]
  then show ?thesis using assms(1) by (auto simp: mt_inv_def)
qed

lemma inv_micro:
  assumes "mt_inv st" "mt_inside (mt_pc st t)" "\<nexists>op v. mt_pc st t = MT_Done op v" "mt_micro (mt_pc st t) (mt_clock st) = Inr (p, c)"
  shows "mt_inv (st\<lparr>mt_clock := c, mt_pc := (mt_pc st)(t := p)\<rparr>)"
proof -
  have w: "rw_writer (mt_mutex st) = Some t" using assms(1,2) by (simp add: mt_inv_def)
  then obtain d where d: "replay c0 (mt_log st) = Some d" "mt_between d (mt_pc st t) (mt_clock st)" using assms(1) by (auto simp: mt_inv_def)
  from mt_micro_between [OF d(2) assms(4,3)] show ?thesis using assms(1) w d(1) by (auto simp: mt_inv_def)
qed

lemma unlock_ok:
  assumes "mt_inv st" "mt_pc st t = MT_Done op v"
  shows "\<exists>m. SharedMutex_unlock r t (mt_mutex st) = Inr m \<and> rw_writer m = None \<and> rw_readers m = {#}"
proof -
  have "rw_writer (mt_mutex st) = Some t" using inv_inside [OF assms(1), of t] assms(2) by simp
  from unlock_writer [OF this] show ?thesis by (auto simp: SharedMutex_unlock_def check_def rbind_def)
qed

lemma inv_unlock:
  assumes "mt_inv st" "mt_pc st t = MT_Done op v" "SharedMutex_unlock r t (mt_mutex st) = Inr m"
  shows "mt_inv (st\<lparr>mt_mutex := m, mt_pc := (mt_pc st)(t := MT_Idle), mt_log := mt_log st @ [(t, op, v)]\<rparr>)"
proof -
  have m: "rw_writer m = None" "rw_readers m = {#}" using unlock_ok [OF assms(1,2)] assms(3) by auto
  have w: "rw_writer (mt_mutex st) = Some t" using inv_inside [OF assms(1), of t] assms(2) by simp
  then obtain d where d: "replay c0 (mt_log st) = Some d" "vc_call d op = Inr (v, mt_clock st)" using assms(1,2) by (auto simp: mt_inv_def)
  have "\<not> mt_inside (mt_pc st t')" if "t' \<noteq> t" for t' using inv_inside [OF assms(1), of t'] w that by simp
  then show ?thesis using m d by (auto simp: mt_inv_def replay_append)
qed

lemma inv_move: "mt_inv st \<Longrightarrow> mt_move r t op st = Inr (Some st') \<Longrightarrow> mt_inv st'"
  using inv_call [of st t] inv_lock [of st t] inv_micro [of st t] inv_unlock [of st t]
  by (cases "mt_pc st t") (auto simp: mt_move_def rbind_eq_Inr split: option.splits simp del: mt_micro.simps)

lemma inv_reachable: "mt_reachable r (VectorClockMT init c0) st \<Longrightarrow> mt_inv st"
  by (induction rule: mt_reachable.induct) (simp_all add: inv_start inv_move)

text \<open>Nothing fails but the check of \<open>get_clock\<close>, for a participant that is not there.\<close>

lemma lock_no_failure:
  assumes "mt_inv st" "mt_pc st t = MT_Call op"
  shows "SharedMutex_lock r t (mt_mutex st) \<noteq> Inl e"
proof -
  have "rw_writer (mt_mutex st) \<noteq> Some t" using inv_inside [OF assms(1), of t] assms(2) by simp
  moreover have "t \<notin># rw_readers (mt_mutex st)" using assms(1) by (simp add: mt_inv_def)
  ultimately show ?thesis using wrlock_again [of t "mt_mutex st"]
    by (auto simp: SharedMutex_lock_def check_def rbind_def split: option.splits prod.splits if_splits)
qed

lemma move_no_failure:
  assumes "mt_inv st" "mt_move r t op st = Inl e"
  shows "\<exists>i. mt_pc st t = MT_Start (MT_get_clock i) \<and> clocks (mt_clock st) i = None"
proof (cases "mt_pc st t")
  case (MT_Call op')
  then show ?thesis using assms(2) lock_no_failure [OF assms(1) MT_Call] by (auto simp: mt_move_def rbind_def split: sum.splits)
next
  case (MT_Start op')
  then show ?thesis using assms(2)
    by (cases op') (auto simp: mt_move_def rbind_def get_clock_def clocks_def of_option_def Let_def split: sum.splits prod.splits option.splits)
next
  case (MT_Done op' v)
  then show ?thesis using assms(2) unlock_ok [OF assms(1) MT_Done] by (auto simp: mt_move_def rbind_def)
qed (use assms(2) in \<open>auto simp: mt_move_def rbind_def Let_def\<close>)

lemma mt_serial:
  assumes "mt_inv st"
  shows "\<exists>c. replay c0 (mt_log st) = Some c \<and> ((\<forall>t. \<not> mt_inside (mt_pc st t)) \<longrightarrow> mt_clock st = c)"
    and "mt_inside (mt_pc st t) \<Longrightarrow> mt_inside (mt_pc st t') \<Longrightarrow> t = t'"
  using assms inv_inside [OF assms] by (auto simp: mt_inv_def split: option.splits)

end

interpretation simple_mt: mt_lock simple_ops simple_init sl_writer sl_readers c0 for c0
  by unfold_locales

text \<open>What the mutex is for: without it two ticks at once both find that the minimum is not theirs alone, and the cached minimum stays behind.\<close>

lemma unlocked_ticks_race:
  "\<exists>c1 c2 c3. mt_micro (MT_Start (MT_Tick 1)) (VectorClock_ids [1, 2]) = Inr (MT_Tested 1 False, c1) \<and>
     mt_micro (MT_Start (MT_Tick 2)) c1 = Inr (MT_Tested 2 False, c1) \<and>
     mt_micro (MT_Tested 1 False) c1 = Inr (MT_Done (MT_Tick 1) (Some 0), c2) \<and> mt_micro (MT_Tested 2 False) c2 = Inr (MT_Done (MT_Tick 2) (Some 0), c3) \<and>
     min_clock c3 = 0 \<and> clocks c3 1 = Some 1 \<and> clocks c3 2 = Some 1"
  by (simp add: VectorClock_ids_def IsUniqueMin_def index_insert_def incr_clock_def clocks_def)

section \<open>Property\<close>

text \<open>
  C29. The locked clock is a clock of which the threads take turns.  However the steps of the threads interleave, at most one of them is inside the class, the calls that have
  returned have the results that the same calls have one after the other in the order in which they held the mutex, and when no thread is inside, the clock is the one
  these calls leave: its cached minimum is the minimum of the clocks, and every participant's clock has advanced by the number of its ticks. No check fails, of the mutex or else, but that of \<open>get_clock\<close> for
  a participant that is not registered. (The participants are added once, with clocks that are not negative, and before they tick.)
\<close>

theorem VectorClockMT_serial:
  assumes "posix_rwlock r init wr rd" "vc_ok c0" "mt_reachable r (VectorClockMT init c0) st" "log_ok (dom (clocks c0)) (mt_log st)"
  shows "\<exists>c. replay c0 (mt_log st) = Some c \<and> vc_ok c \<and> (\<forall>i v. clocks c0 i = Some v \<longrightarrow> clocks c i = Some (v + int (ticks_of i (mt_log st)))) \<and>
    ((\<forall>t. \<not> mt_inside (mt_pc st t)) \<longrightarrow> mt_clock st = c) \<and>
    (\<forall>t t'. mt_inside (mt_pc st t) \<and> mt_inside (mt_pc st t') \<longrightarrow> t = t') \<and>
    (\<forall>t op e. mt_move r t op st = Inl e \<longrightarrow> (\<exists>i. mt_pc st t = MT_Start (MT_get_clock i) \<and> clocks (mt_clock st) i = None))"
proof -
  have l: "mt_lock r init wr rd" using assms(1) by (simp add: mt_lock_def)
  note inv = mt_lock.inv_reachable [OF l assms(3)]
  obtain c where c: "replay c0 (mt_log st) = Some c" "(\<forall>t. \<not> mt_inside (mt_pc st t)) \<longrightarrow> mt_clock st = c" using mt_lock.mt_serial(1) [OF l inv] by blast
  have "\<forall>i v. clocks c0 i = Some v \<longrightarrow> clocks c i = Some (v + int (ticks_of i (mt_log st)))" using replay_counts [OF assms(2,4) c(1)] by blast
  moreover have "\<forall>t t'. mt_inside (mt_pc st t) \<and> mt_inside (mt_pc st t') \<longrightarrow> t = t'" using mt_lock.mt_serial(2) [OF l inv] by blast
  moreover have "\<forall>t op e. mt_move r t op st = Inl e \<longrightarrow> (\<exists>i. mt_pc st t = MT_Start (MT_get_clock i) \<and> clocks (mt_clock st) i = None)"
    using mt_lock.move_no_failure [OF l inv] by blast
  ultimately show ?thesis using c replay_ok [OF assms(2,4) c(1)] by blast
qed

text \<open>Thread 7 ticks participant 1 while thread 8 waits to tick participant 2.\<close>

fun mt_schedule :: "'s rwlock_ops \<Rightarrow> (tid \<times> mt_op) list \<Rightarrow> 's mt_state \<Rightarrow> 's mt_state option" where
  "mt_schedule r [] st = Some st"
| "mt_schedule r ((t, op) # ms) st = (case mt_move r t op st of Inr (Some st') \<Rightarrow> mt_schedule r ms st' | _ \<Rightarrow> None)"

lemma schedule_reachable: "mt_reachable r st0 st \<Longrightarrow> mt_schedule r ms st = Some st' \<Longrightarrow> mt_reachable r st0 st'"
  by (induction r ms st rule: mt_schedule.induct) (auto split: sum.splits option.splits intro: mt_reachable.move)

definition example_moves :: "(tid \<times> mt_op) list" where
  "example_moves = [(7, MT_Tick 1), (8, MT_Tick 2), (7, MT_Tick 1), (7, MT_Tick 1), (7, MT_Tick 1), (7, MT_Tick 1),
     (8, MT_Tick 2), (8, MT_Tick 2), (8, MT_Tick 2), (8, MT_Tick 2), (8, MT_Tick 2)]"

theorem VectorClockMT_serial_witness:
  "\<exists>st c. mt_reachable simple_ops (VectorClockMT simple_init (VectorClock_ids [1, 2])) st \<and>
     mt_log st = [(7, MT_Tick 1, Some 0), (8, MT_Tick 2, Some 1)] \<and> replay (VectorClock_ids [1, 2]) (mt_log st) = Some c \<and> vc_ok c \<and> clocks c 1 = Some 1"
proof -
  have ok: "vc_ok (VectorClock_ids [1, 2])" by (rule VectorClock_ids_ok) simp
  have "map_option mt_log (mt_schedule simple_ops example_moves (VectorClockMT simple_init (VectorClock_ids [1, 2]))) =
      Some [(7, MT_Tick 1, Some 0), (8, MT_Tick 2, Some 1)]" by code_simp
  then obtain st where st: "mt_schedule simple_ops example_moves (VectorClockMT simple_init (VectorClock_ids [1, 2])) = Some st"
      "mt_log st = [(7, MT_Tick 1, Some 0), (8, MT_Tick 2, Some 1)]" by auto
  from schedule_reachable [OF mt_reachable.start st(1)] have r: "mt_reachable simple_ops (VectorClockMT simple_init (VectorClock_ids [1, 2])) st" .
  have "clocks (VectorClock_ids [1, 2]) 1 = Some 0" "dom (clocks (VectorClock_ids [1, 2])) = {1, 2}"
    by (auto simp: VectorClock_ids_clocks split: if_splits)
  with VectorClockMT_serial [OF simple.posix_rwlock_axioms ok r] st(2) r show ?thesis
    by (auto simp: ticks_of_def)
qed

end
