(* ===== verification/Msg_Tracker.thy ===== *)
theory Msg_Tracker
imports Context
begin

text \<open>
  The message tracker (src/src/petuum_ps/thread/msg_tracker.hpp, msg_tracker.cpp), a sliding window over messages with sequence numbers.  Sequence numbers
  are 32-bit words.  A message is its contents together with the place of its memory: the stack buffer of the message
  object or a block of the free store.
\<close>

section \<open>Message buffers\<close>

datatype 'm tracked_msg = Stack_Msg 'm | Block_Msg 'm

text \<open>\<open>msg_ptr_\<close> and \<open>stack_mem_\<close>; the stack memory is not initialised.\<close>

record 'm msg_buffer =
  buf_msg_ptr :: "'m option"
  buf_stack_mem :: "'m option"

definition MsgBuffer :: "'m msg_buffer" where
  "MsgBuffer = \<lparr>buf_msg_ptr = None, buf_stack_mem = None\<rparr>"

definition AssignMsg :: "'m tracked_msg \<Rightarrow> 'm msg_buffer \<Rightarrow> 'm msg_buffer" where
  "AssignMsg msg b = (case msg of Stack_Msg m \<Rightarrow> b\<lparr>buf_stack_mem := Some m\<rparr> | Block_Msg m \<Rightarrow> b\<lparr>buf_msg_ptr := Some m\<rparr>)"

text \<open>The pointer is reset before it is returned, so that the result for a block is the null pointer, here None.\<close>

definition ReleaseMsg :: "'m msg_buffer \<Rightarrow> 'm option \<times> bool \<times> 'm msg_buffer" where
  "ReleaseMsg b = (if buf_msg_ptr b \<noteq> None then (None, True, b\<lparr>buf_msg_ptr := None\<rparr>) else (buf_stack_mem b, False, b))"

definition GetMsg :: "'m msg_buffer \<Rightarrow> 'm option" where
  "GetMsg b = (if buf_msg_ptr b \<noteq> None then buf_msg_ptr b else buf_stack_mem b)"

section \<open>Circular buffers\<close>

text \<open>The two buffers of a client work alike: number of messages, slot for the next insertion, slot to read next, and the slots.\<close>

record 'm circ_buff =
  cb_num :: int
  cb_st :: nat
  cb_end :: nat
  cb_slots :: "'m msg_buffer list"

definition new_circ :: "nat \<Rightarrow> 'm circ_buff" where
  "new_circ capacity = \<lparr>cb_num = 0, cb_st = 0, cb_end = 0, cb_slots = replicate capacity MsgBuffer\<rparr>"

definition circ_add :: "'m tracked_msg \<Rightarrow> 'm circ_buff \<Rightarrow> 'm circ_buff result" where
  "circ_add msg c =
     rbind (check (cb_num c < int (length (cb_slots c))) ''num_buffered_msgs_ < circ_msg_buff_capacity_'') (\<lambda>_.
     Inr (c\<lparr>cb_slots := (cb_slots c)[cb_st c := AssignMsg msg (cb_slots c ! cb_st c)], cb_st := (cb_st c + 1) mod length (cb_slots c), cb_num := cb_num c + 1\<rparr>))"

definition circ_release :: "'m circ_buff \<Rightarrow> ('m option \<times> bool \<times> 'm circ_buff) result" where
  "circ_release c =
     rbind (check (cb_num c > 0) ''num_buffered_msgs_ > 0'') (\<lambda>_.
     case ReleaseMsg (cb_slots c ! cb_end c) of (msg, free, b) \<Rightarrow>
       Inr (msg, free, c\<lparr>cb_slots := (cb_slots c)[cb_end c := b], cb_end := (cb_end c + 1) mod length (cb_slots c), cb_num := cb_num c - 1\<rparr>))"

definition circ_get :: "'m circ_buff \<Rightarrow> ('m option \<times> 'm circ_buff) result" where
  "circ_get c =
     rbind (check (cb_num c > 0) ''num_buffered_sent_msgs_ > 0'') (\<lambda>_.
     Inr (GetMsg (cb_slots c ! cb_end c), c\<lparr>cb_end := (cb_end c + 1) mod length (cb_slots c), cb_num := cb_num c - 1\<rparr>))"

section \<open>Clients\<close>

record 'm client_info =
  send_seq_num :: "32 word"
  send_ack_num :: "32 word"
  recv_seq_num :: "32 word"
  recv_ack_num :: "32 word"
  held_msgs :: "'m circ_buff"
  sent_msgs :: "'m circ_buff"

definition ClientInfo :: "nat \<Rightarrow> nat \<Rightarrow> 'm client_info" where
  "ClientInfo circ_msg_buff_capacity circ_sent_msg_buff_capacity =
     \<lparr>send_seq_num = - 1, send_ack_num = - 1, recv_seq_num = - 1, recv_ack_num = - 1,
      held_msgs = new_circ circ_msg_buff_capacity, sent_msgs = new_circ circ_sent_msg_buff_capacity\<rparr>"

definition AddOneMsg :: "'m tracked_msg \<Rightarrow> 'm client_info \<Rightarrow> 'm client_info result" where
  "AddOneMsg msg c = rbind (circ_add msg (held_msgs c)) (\<lambda>b. Inr (c\<lparr>held_msgs := b\<rparr>))"

definition GetOneMsg :: "'m client_info \<Rightarrow> ('m option \<times> bool \<times> 'm client_info) result" where
  "GetOneMsg c = rbind (circ_release (held_msgs c)) (\<lambda>(msg, free, b). Inr (msg, free, c\<lparr>held_msgs := b\<rparr>))"

definition get_num_buffered_msgs :: "'m client_info \<Rightarrow> int" where
  "get_num_buffered_msgs c = cb_num (held_msgs c)"

definition can_buffer_more_msgs :: "'m client_info \<Rightarrow> bool" where
  "can_buffer_more_msgs c \<longleftrightarrow> cb_num (held_msgs c) < int (length (cb_slots (held_msgs c)))"

definition AddOneSentMsg :: "'m tracked_msg \<Rightarrow> 'm client_info \<Rightarrow> 'm client_info result" where
  "AddOneSentMsg msg c = rbind (circ_add msg (sent_msgs c)) (\<lambda>b. Inr (c\<lparr>sent_msgs := b\<rparr>))"

definition GetOneSentMsg :: "'m client_info \<Rightarrow> ('m option \<times> 'm client_info) result" where
  "GetOneSentMsg c = rbind (circ_get (sent_msgs c)) (\<lambda>(msg, b). Inr (msg, c\<lparr>sent_msgs := b\<rparr>))"

definition get_num_buffered_sent_msgs :: "'m client_info \<Rightarrow> int" where
  "get_num_buffered_sent_msgs c = cb_num (sent_msgs c)"

text \<open>
  \<open>ReleaseMsg\<close> resets the pointer of a slot, so that what is freed is the null pointer.  The number of messages is not compared with the
  number of buffered ones, which may become negative.
\<close>

fun release_slots :: "nat \<Rightarrow> nat \<Rightarrow> 'm msg_buffer list \<Rightarrow> nat \<times> 'm msg_buffer list" where
  "release_slots 0 i slots = (i, slots)"
| "release_slots (Suc n) i slots =
     (case ReleaseMsg (slots ! i) of (_, _, b) \<Rightarrow> release_slots n ((i + 1) mod length slots) (slots[i := b]))"

definition ReleasesNSentMsgs :: "int \<Rightarrow> 'm client_info \<Rightarrow> 'm client_info result" where
  "ReleasesNSentMsgs num_msgs c =
     (let b = sent_msgs c in
      if num_msgs > 0 \<and> cb_slots b = [] then Inl (Undefined ''circ_sent_msg_buff_'')
      else case release_slots (nat num_msgs) (cb_end b) (cb_slots b) of (e, slots) \<Rightarrow>
        Inr (c\<lparr>sent_msgs := b\<lparr>cb_end := e, cb_slots := slots, cb_num := cb_num b - num_msgs\<rparr>\<rparr>))"

section \<open>The tracker\<close>

datatype msg_status = SEND_OK | RECV_OK | SEND_HOLD | SEND_REJ | RECV_OUTORDER | RECV_DUPLICATE | RECV_UNBLOCK | RECV_REPLY | RECV_ERR

record 'm msg_tracker =
  client_map :: "(int, 'm client_info) amap"
  window_size :: "32 word"

definition MsgTracker :: "32 word \<Rightarrow> 'm msg_tracker" where
  "MsgTracker window = \<lparr>client_map = [], window_size = window\<rparr>"

definition put_client :: "int \<Rightarrow> 'm client_info \<Rightarrow> 'm msg_tracker \<Rightarrow> 'm msg_tracker" where
  "put_client client c tr = tr\<lparr>client_map := AList.update client c (client_map tr)\<rparr>"

text \<open>A client that is not in the map is entered, but the iterator that is dereferenced afterwards is still \<open>end()\<close>.\<close>

definition find_client :: "int \<Rightarrow> 'm msg_tracker \<Rightarrow> 'm client_info result" where
  "find_client client tr = of_option (Undefined ''client_map_.end()->second'') (map_of (client_map tr) client)"

definition may_send :: "32 word \<Rightarrow> 'm client_info \<Rightarrow> bool" where
  "may_send window c \<longleftrightarrow> send_seq_num c - send_ack_num c \<noteq> window"

definition number_msg :: "'m client_info \<Rightarrow> (32 word \<times> 32 word) \<times> 'm client_info" where
  "number_msg c = ((send_seq_num c, recv_seq_num c), c\<lparr>send_seq_num := send_seq_num c + 1, recv_ack_num := recv_seq_num c\<rparr>)"

text \<open>The numbers that go into the message are part of the result.\<close>

definition PrepareSend :: "int \<Rightarrow> 'm tracked_msg \<Rightarrow> 'm msg_tracker \<Rightarrow> (msg_status \<times> (32 word \<times> 32 word) option \<times> 'm msg_tracker) result" where
  "PrepareSend client msg tr =
     rbind (find_client client tr) (\<lambda>c.
     if may_send (window_size tr) c then (case number_msg c of (nums, c) \<Rightarrow> Inr (SEND_OK, Some nums, put_client client c tr))
     else if can_buffer_more_msgs c then rbind (AddOneMsg msg c) (\<lambda>c. Inr (SEND_HOLD, None, put_client client c tr))
     else Inr (SEND_REJ, None, tr))"

definition CheckGetSendInfo :: "int \<Rightarrow> 'm msg_tracker \<Rightarrow> (msg_status \<times> (32 word \<times> 32 word) option \<times> 'm msg_tracker) result" where
  "CheckGetSendInfo client tr =
     rbind (find_client client tr) (\<lambda>c.
     if may_send (window_size tr) c then (case number_msg c of (nums, c) \<Rightarrow> Inr (SEND_OK, Some nums, put_client client c tr))
     else Inr (SEND_REJ, None, tr))"

definition LogSentMsg :: "int \<Rightarrow> 'm tracked_msg \<Rightarrow> 'm msg_tracker \<Rightarrow> 'm msg_tracker result" where
  "LogSentMsg client msg tr =
     (case map_of (client_map tr) client of
        None \<Rightarrow> Inl (CheckFailed ''iter != client_map_.end()'')
      | Some c \<Rightarrow> rbind (AddOneSentMsg msg c) (\<lambda>c. Inr (put_client client c tr)))"

definition recv_status :: "32 word \<Rightarrow> 32 word \<Rightarrow> 32 word \<Rightarrow> 'm client_info \<Rightarrow> msg_status \<times> 'm client_info" where
  "recv_status window seq_num ack_num c =
     (if seq_num = recv_seq_num c + 1 then
        let c = c\<lparr>send_ack_num := ack_num, recv_seq_num := recv_seq_num c + 1\<rparr> in
        (if recv_seq_num c - recv_ack_num c = window then RECV_REPLY else RECV_OK, c)
      else if seq_num - recv_ack_num c \<le> window then (RECV_OUTORDER, c)
      else if recv_ack_num c - seq_num \<le> window then (RECV_DUPLICATE, c)
      else (RECV_ERR, c))"

definition CheckRecv :: "int \<Rightarrow> 32 word \<Rightarrow> 32 word \<Rightarrow> 'm msg_tracker \<Rightarrow> (msg_status \<times> 'm msg_tracker) result" where
  "CheckRecv client seq_num ack_num tr =
     rbind (find_client client tr) (\<lambda>c.
     case recv_status (window_size tr) seq_num ack_num c of (st, c) \<Rightarrow> Inr (st, put_client client c tr))"

section \<open>The window\<close>

text \<open>The number of messages under way never exceeds the window, also when the sequence numbers wrap.\<close>

definition in_window :: "32 word \<Rightarrow> 'm client_info \<Rightarrow> bool" where
  "in_window window c \<longleftrightarrow> send_seq_num c - send_ack_num c \<le> window"

lemma send_in_window:
  assumes "in_window window c" "may_send window c"
  shows "in_window window (snd (number_msg c))"
proof -
  let ?d = "send_seq_num c - send_ack_num c"
  have "?d < window" using assms by (simp add: in_window_def may_send_def)
  then have "?d + 1 \<le> window" by (rule inc_le)
  then show ?thesis by (simp add: in_window_def number_msg_def diff_add_eq)
qed

lemma PrepareSend_window:
  assumes "PrepareSend client msg tr = Inr (st, nums, tr')" "map_of (client_map tr) client = Some c" "in_window (window_size tr) c"
  shows "\<exists>c'. map_of (client_map tr') client = Some c' \<and> in_window (window_size tr') c' \<and> (st = SEND_OK \<longleftrightarrow> may_send (window_size tr) c)"
proof (cases "may_send (window_size tr) c")
  case True
  then show ?thesis using assms send_in_window [OF assms(3) True]
    by (auto simp: PrepareSend_def find_client_def of_option_def rbind_def number_msg_def put_client_def update_conv')
next
  case False
  then show ?thesis using assms
    by (auto simp: PrepareSend_def find_client_def of_option_def rbind_def AddOneMsg_def circ_add_def check_def put_client_def update_conv' in_window_def split: if_splits)
qed

section \<open>What goes wrong\<close>

text \<open>No client is served that has not been entered before, and nothing else enters one.\<close>

lemma fresh_tracker_fails:
  "PrepareSend client msg (MsgTracker window) = Inl (Undefined ''client_map_.end()->second'')"
  "CheckGetSendInfo client (MsgTracker window) = Inl (Undefined ''client_map_.end()->second'')"
  "CheckRecv client seq_num ack_num (MsgTracker window) = Inl (Undefined ''client_map_.end()->second'')"
  by (simp_all add: PrepareSend_def CheckGetSendInfo_def CheckRecv_def find_client_def MsgTracker_def of_option_def rbind_def)

text \<open>
  Between two clients that have been entered, the first message carries the number -1 while its receiver expects 0: it is taken for one that is
  out of order.
\<close>

lemma first_message_out_of_order:
  assumes "may_send window (ClientInfo n k :: 'm client_info)"
  shows "fst (recv_status window (fst (fst (number_msg (ClientInfo n k :: 'm client_info)))) a (ClientInfo n' k')) = RECV_OUTORDER"
  by (simp add: recv_status_def number_msg_def ClientInfo_def)

text \<open>A message in a block of the free store is not given back by \<open>ReleaseMsg\<close>.\<close>

lemma ReleaseMsg_loses_block: "fst (ReleaseMsg (AssignMsg (Block_Msg m) b)) = None"
  by (simp add: ReleaseMsg_def AssignMsg_def)

text \<open>\<open>GetOneSentMsg\<close> leaves the pointer of its slot, which then hides a message of the stack buffer put there later.\<close>

lemma stale_block_hides_stack_msg: "GetMsg (AssignMsg (Stack_Msg m') (AssignMsg (Block_Msg m) b)) = Some m"
  by (simp add: GetMsg_def AssignMsg_def)

end
