(* ===== verification/LDA_Doc.thy ===== *)
theory LDA_Doc
imports Server Context
begin

text \<open>
  The documents of the topic model (src/apps/lda/src/lda_doc.hpp), their loaders (abstract_doc_loader.cpp, in_memory_doc_loader.cpp) and the
  iteration over the documents of a thread (workload_manager.hpp).  Random numbers, the fields of the meta-data file and the
  values of the LevelDB data base in the order of their keys are arguments.
\<close>

section \<open>Documents\<close>

record lda_doc =
  doc_tokens :: "int list"
  doc_topics :: "int list"
  doc_num_topics :: int

definition LDADoc :: lda_doc where
  "LDADoc = \<lparr>doc_tokens = [], doc_topics = [], doc_num_topics = 0\<rparr>"

definition AppendWord :: "int \<Rightarrow> nat \<Rightarrow> lda_doc \<Rightarrow> lda_doc" where
  "AppendWord word n d = d\<lparr>doc_tokens := doc_tokens d @ replicate n word, doc_topics := doc_topics d @ replicate n (- 1)\<rparr>"

definition GetToken :: "lda_doc \<Rightarrow> int \<Rightarrow> int result" where
  "GetToken d i = vec_at (doc_tokens d) i"

definition GetTopic :: "lda_doc \<Rightarrow> int \<Rightarrow> int result" where
  "GetTopic d i = vec_at (doc_topics d) i"

definition SetTopic :: "int \<Rightarrow> int \<Rightarrow> lda_doc \<Rightarrow> lda_doc result" where
  "SetTopic i topic d = rbind (vec_at (doc_topics d) i) (\<lambda>_. Inr (d\<lparr>doc_topics := (doc_topics d)[nat i := topic]\<rparr>))"

definition GetNumTokens :: "lda_doc \<Rightarrow> nat" where
  "GetNumTokens d = length (doc_tokens d)"

text \<open>A loop with an iterator runs over the positions of the tokens; \<open>Word\<close> and \<open>Topic\<close> read both vectors there.\<close>

definition doc_positions :: "lda_doc \<Rightarrow> int list" where
  "doc_positions d = map int [0..<length (doc_tokens d)]"

definition Print :: "lda_doc \<Rightarrow> string result" where
  "Print d = foldM (\<lambda>ss i. rbind (GetToken d i) (\<lambda>w. rbind (GetTopic d i) (\<lambda>t. Inr (ss @ show_int w @ '':'' @ show_int t @ '' ''))))
     [] (doc_positions d)"

text \<open>The numbers drawn are the argument \<open>draw\<close>.\<close>

definition RandomInitTopics :: "(nat \<Rightarrow> int) \<Rightarrow> int \<Rightarrow> lda_doc \<Rightarrow> lda_doc result" where
  "RandomInitTopics draw num_topics d =
     foldM (\<lambda>d i. SetTopic (int i) (draw i) d) (d\<lparr>doc_num_topics := num_topics\<rparr>) [0..<length (doc_tokens d)]"

section \<open>Serialisation\<close>

definition SerializedSize :: "lda_doc \<Rightarrow> nat" where
  "SerializedSize d = (if doc_num_topics d = 0 then 4 + 8 + length (doc_tokens d) * 4 else 4 + 8 + length (doc_tokens d) * 2 * 4)"

definition i32_image :: "int list \<Rightarrow> bytes" where
  "i32_image xs = concat (map i32_enc xs)"

definition Serialize :: "lda_doc \<Rightarrow> bytes \<Rightarrow> bytes result" where
  "Serialize d buf =
     rbind (mem_write buf 0 (i32_enc (doc_num_topics d))) (\<lambda>buf.
     rbind (mem_write buf 4 (size_enc (length (doc_tokens d)))) (\<lambda>buf.
     rbind (mem_write buf 12 (i32_image (doc_tokens d))) (\<lambda>buf.
     if doc_num_topics d > 0 then mem_write buf (12 + length (doc_tokens d) * 4) (i32_image (doc_topics d)) else Inr buf)))"

text \<open>\<open>resize\<close> keeps the elements that are there and adds zeros.\<close>

definition vec_resize :: "nat \<Rightarrow> int list \<Rightarrow> int list" where
  "vec_resize n xs = take n xs @ replicate (n - length xs) 0"

primrec rd_i32s :: "nat \<Rightarrow> bytes \<Rightarrow> nat \<Rightarrow> int list result" where
  "rd_i32s 0 m off = Inr []"
| "rd_i32s (Suc n) m off = rbind (rd_i32 m off) (\<lambda>x. rbind (rd_i32s n m (off + 4)) (\<lambda>xs. Inr (x # xs)))"

definition Deserialize :: "bytes \<Rightarrow> lda_doc \<Rightarrow> lda_doc result" where
  "Deserialize buf d =
     rbind (rd_i32 buf 0) (\<lambda>num_topics.
     rbind (rd_size buf 4) (\<lambda>num_tokens.
     rbind (rd_i32s num_tokens buf 12) (\<lambda>tokens.
     rbind (if num_topics > 0 then rd_i32s num_tokens buf (12 + num_tokens * 4) else Inr (vec_resize num_tokens (doc_topics d))) (\<lambda>topics.
     Inr \<lparr>doc_tokens = tokens, doc_topics = topics, doc_num_topics = num_topics\<rparr>))))"

section \<open>Loaders\<close>

record master_loader =
  ml_num_topics :: int
  ml_num_partitions :: int
  ml_max_vocab_id :: int
  ml_num_vocabs :: int
  ml_num_docs :: int
  ml_doc_id_begin :: int
  ml_doc_id_end :: int
  ml_part_begin :: "int list"
  ml_part_end :: "int list"

type_synonym metadata = "(string \<times> int) list"

definition read_field :: "string \<Rightarrow> nat \<Rightarrow> metadata \<Rightarrow> int result" where
  "read_field name i meta =
     (case drop i meta of
        (field, v) # _ \<Rightarrow> rbind (check (field = name) name) (\<lambda>_. Inr v)
      | [] \<Rightarrow> Inl (CheckFailed name))"

definition part_begin :: "int \<Rightarrow> int \<Rightarrow> nat \<Rightarrow> int" where
  "part_begin per doc_id_begin i = int i * per + doc_id_begin"

definition part_end :: "int \<Rightarrow> int \<Rightarrow> int \<Rightarrow> int \<Rightarrow> nat \<Rightarrow> int" where
  "part_end num_partitions per doc_id_begin doc_id_end i =
     (if int i = num_partitions - 1 then doc_id_end else part_begin per doc_id_begin i + per)"

text \<open>The vectors have \<open>num_partitions\<close> elements; division by zero is undefined.\<close>

definition AbstractMasterDocLoader :: "metadata \<Rightarrow> int \<Rightarrow> int \<Rightarrow> master_loader result" where
  "AbstractMasterDocLoader meta num_partitions num_topics =
     rbind (read_field ''max_vocab_id:'' 0 meta) (\<lambda>max_vocab_id.
     rbind (read_field ''num_vocabs:'' 1 meta) (\<lambda>num_vocabs.
     rbind (read_field ''num_docs:'' 2 meta) (\<lambda>num_docs.
     rbind (read_field ''doc_id_begin:'' 3 meta) (\<lambda>doc_id_begin.
     rbind (read_field ''doc_id_end:'' 4 meta) (\<lambda>doc_id_end.
     if num_partitions \<le> 0 then Inl (Undefined ''num_docs_ / num_partitions'')
     else let per = num_docs sdiv num_partitions in
       Inr \<lparr>ml_num_topics = num_topics, ml_num_partitions = num_partitions, ml_max_vocab_id = max_vocab_id, ml_num_vocabs = num_vocabs,
         ml_num_docs = num_docs, ml_doc_id_begin = doc_id_begin, ml_doc_id_end = doc_id_end,
         ml_part_begin = map (part_begin per doc_id_begin) [0..<nat num_partitions],
         ml_part_end = map (part_end num_partitions per doc_id_begin doc_id_end) [0..<nat num_partitions]\<rparr>)))))"

text \<open>The documents of the partitions; \<open>None\<close> is the null pointer that \<open>GetPartitionDocLoader\<close> leaves.\<close>

record in_memory_loader =
  im_master :: master_loader
  im_partitions :: "lda_doc list option list"

definition load_doc :: "(nat \<Rightarrow> int) \<Rightarrow> int \<Rightarrow> bytes \<Rightarrow> lda_doc result" where
  "load_doc draw num_topics data =
     rbind (Deserialize data LDADoc) (\<lambda>d. if doc_num_topics d \<noteq> num_topics then RandomInitTopics draw num_topics d else Inr d)"

text \<open>One turn of the loop over the data base: the document number, the current partition and the partitions.\<close>

definition load_step ::
  "(int \<Rightarrow> nat \<Rightarrow> int) \<Rightarrow> master_loader \<Rightarrow> int \<times> int \<times> lda_doc list list \<Rightarrow> bytes \<Rightarrow> (int \<times> int \<times> lda_doc list list) result" where
  "load_step draw ml = (\<lambda>(doc_id, part, parts) data.
     rbind (vec_at (ml_part_end ml) part) (\<lambda>e.
     let part = (if doc_id = e then part + 1 else part) in
     rbind (vec_at parts part) (\<lambda>docs.
     rbind (load_doc (draw doc_id) (ml_num_topics ml) data) (\<lambda>d.
     Inr (doc_id + 1, part, parts[nat part := docs @ [d]])))))"

definition InMemoryMasterDocLoader ::
  "(int \<Rightarrow> nat \<Rightarrow> int) \<Rightarrow> metadata \<Rightarrow> bytes list \<Rightarrow> int \<Rightarrow> int \<Rightarrow> in_memory_loader result" where
  "InMemoryMasterDocLoader draw meta db num_partitions num_topics =
     rbind (AbstractMasterDocLoader meta num_partitions num_topics) (\<lambda>ml.
     rbind (foldM (load_step draw ml) (ml_doc_id_begin ml, 0, replicate (nat num_partitions) []) db) (\<lambda>(doc_id, _, parts).
     rbind (check (ml_num_docs ml = doc_id - ml_doc_id_begin ml) ''num_docs_ == num_docs_read'') (\<lambda>_.
     Inr \<lparr>im_master = ml, im_partitions = map Some parts\<rparr>)))"

text \<open>The loader of a partition; the iterator is a position, a document is handed out as its position.\<close>

record partition_loader =
  pl_id :: int
  pl_docs :: "lda_doc list"
  pl_curr :: nat
  pl_num_tokens :: nat

definition InMemoryPartitionDocLoader :: "int \<Rightarrow> lda_doc list \<Rightarrow> partition_loader" where
  "InMemoryPartitionDocLoader part docs =
     \<lparr>pl_id = part, pl_docs = docs, pl_curr = 0, pl_num_tokens = foldl (\<lambda>n d. n + GetNumTokens d) 0 docs\<rparr>"

definition GetPartitionDocLoader :: "int \<Rightarrow> in_memory_loader \<Rightarrow> (partition_loader \<times> in_memory_loader) result" where
  "GetPartitionDocLoader part im =
     rbind (vec_at (im_partitions im) part) (\<lambda>p.
     rbind (of_option (CheckFailed ''doc_partitions_ptr_[partition_id]'') p) (\<lambda>docs.
     Inr (InMemoryPartitionDocLoader part docs, im\<lparr>im_partitions := (im_partitions im)[nat part := None]\<rparr>)))"

definition Loader_GetOneDoc :: "partition_loader \<Rightarrow> (nat \<times> partition_loader) result" where
  "Loader_GetOneDoc l = rbind (check (pl_curr l \<noteq> length (pl_docs l)) ''curr_ != partition_docs_->end()'') (\<lambda>_.
     Inr (pl_curr l, l\<lparr>pl_curr := pl_curr l + 1\<rparr>))"

definition Loader_IsEnd :: "partition_loader \<Rightarrow> bool" where
  "Loader_IsEnd l \<longleftrightarrow> pl_curr l = length (pl_docs l)"

definition Loader_Restart :: "partition_loader \<Rightarrow> partition_loader" where
  "Loader_Restart l = l\<lparr>pl_curr := 0\<rparr>"

definition Loader_GetNumDocs :: "partition_loader \<Rightarrow> nat" where
  "Loader_GetNumDocs l = length (pl_docs l)"

definition Loader_GetNumTokens :: "partition_loader \<Rightarrow> nat" where
  "Loader_GetNumTokens l = pl_num_tokens l"

section \<open>A document survives the data base\<close>

definition doc_ok :: "lda_doc \<Rightarrow> bool" where
  "doc_ok d \<longleftrightarrow> length (doc_topics d) = length (doc_tokens d) \<and> is_size (length (doc_tokens d)) \<and> is_i32 (doc_num_topics d) \<and>
     (\<forall>x \<in> set (doc_tokens d). is_i32 x) \<and> (\<forall>x \<in> set (doc_topics d). is_i32 x)"

lemma i32_image_length [simp]: "length (i32_image xs) = length xs * 4"
  by (induction xs) (simp_all add: i32_image_def)

lemma rd_i32s_at: "\<forall>x \<in> set xs. is_i32 x \<Longrightarrow> at_mem m off (i32_image xs) \<Longrightarrow> rd_i32s (length xs) m off = Inr xs"
  by (induction xs arbitrary: off) (auto simp: i32_image_def at_mem_append rd_i32_at)

definition doc_image :: "lda_doc \<Rightarrow> bytes" where
  "doc_image d = i32_enc (doc_num_topics d) @ size_enc (length (doc_tokens d)) @ i32_image (doc_tokens d) @
     (if doc_num_topics d > 0 then i32_image (doc_topics d) else [])"

lemma Serialize_image:
  assumes "length (doc_topics d) = length (doc_tokens d)" "SerializedSize d \<le> length buf"
  shows "\<exists>buf'. Serialize d buf = Inr buf' \<and> length buf' = length buf \<and> at_mem buf' 0 (doc_image d)"
proof -
  let ?n = "length (doc_tokens d)" and ?k = "doc_num_topics d"
  have len: "12 + ?n * 4 \<le> length buf" "?k > 0 \<longrightarrow> 12 + ?n * 4 + ?n * 4 \<le> length buf"
    using assms(2) by (auto simp: SerializedSize_def split: if_splits)
  obtain b1 where b1: "mem_write buf 0 (i32_enc ?k) = Inr b1" using mem_write_ok [of 0 "i32_enc ?k" buf] len(1) by auto
  note l1 = mem_write_length [OF b1]
  obtain b2 where b2: "mem_write b1 4 (size_enc ?n) = Inr b2" using mem_write_ok [of 4 "size_enc ?n" b1] len(1) l1 by auto
  note l2 = mem_write_length [OF b2]
  obtain b3 where b3: "mem_write b2 12 (i32_image (doc_tokens d)) = Inr b3"
    using mem_write_ok [of 12 "i32_image (doc_tokens d)" b2] len(1) l1 l2 by auto
  note l3 = mem_write_length [OF b3]
  have a1: "at_mem b2 0 (i32_enc ?k)" by (rule mem_write_frame [OF b2 mem_write_at [OF b1]]) simp
  have a: "at_mem b3 0 (i32_enc ?k)" "at_mem b3 4 (size_enc ?n)" "at_mem b3 12 (i32_image (doc_tokens d))"
    using mem_write_frame [OF b3 a1] mem_write_frame [OF b3 mem_write_at [OF b2]] mem_write_at [OF b3] by simp_all
  show ?thesis
  proof (cases "?k > 0")
    case True
    obtain b4 where b4: "mem_write b3 (12 + ?n * 4) (i32_image (doc_topics d)) = Inr b4"
      using mem_write_ok [of "12 + ?n * 4" "i32_image (doc_topics d)" b3] len(2) True l1 l2 l3 assms(1) by auto
    have "at_mem b4 0 (i32_enc ?k)" "at_mem b4 4 (size_enc ?n)" "at_mem b4 12 (i32_image (doc_tokens d))"
      "at_mem b4 (12 + ?n * 4) (i32_image (doc_topics d))"
      using a [THEN mem_write_frame [OF b4]] mem_write_at [OF b4] by simp_all
    then show ?thesis using True b1 b2 b3 b4 l1 l2 l3 mem_write_length [OF b4] by (simp add: Serialize_def doc_image_def at_mem_append)
  next
    case False
    have "at_mem b3 (12 + ?n * 4) []" using len(1) l1 l2 l3 by (simp add: at_mem_Nil)
    then show ?thesis using False a b1 b2 b3 l1 l2 l3 by (simp add: Serialize_def doc_image_def at_mem_append)
  qed
qed

lemma Deserialize_image:
  assumes "doc_ok d" "at_mem buf 0 (doc_image d)"
  shows "Deserialize buf d0 = Inr (if doc_num_topics d > 0 then d else d\<lparr>doc_topics := vec_resize (length (doc_tokens d)) (doc_topics d0)\<rparr>)"
proof -
  have o: "is_size (length (doc_tokens d))" "is_i32 (doc_num_topics d)" "length (doc_topics d) = length (doc_tokens d)"
    "\<forall>x \<in> set (doc_tokens d). is_i32 x" "\<forall>x \<in> set (doc_topics d). is_i32 x" using assms(1) by (auto simp: doc_ok_def)
  have a: "at_mem buf 0 (i32_enc (doc_num_topics d))" "at_mem buf 4 (size_enc (length (doc_tokens d)))"
    "at_mem buf 12 (i32_image (doc_tokens d))"
    "doc_num_topics d > 0 \<Longrightarrow> at_mem buf (12 + length (doc_tokens d) * 4) (i32_image (doc_topics d))"
    using assms(2) by (simp_all add: doc_image_def at_mem_append)
  note r = rd_i32_at [OF o(2) a(1)] rd_size_at [OF o(1) a(2)] rd_i32s_at [OF o(4) a(3)]
  show ?thesis
  proof (cases "doc_num_topics d > 0")
    case True
    then show ?thesis using r rd_i32s_at [OF o(5) a(4) [OF True]] o(3) by (simp add: Deserialize_def)
  qed (simp add: Deserialize_def r)
qed

section \<open>The partitions of the loader\<close>

text \<open>
  The documents loaded so far are spread over full partitions, one that is being filled and empty ones.
\<close>

definition load_inv :: "nat \<Rightarrow> nat \<Rightarrow> lda_doc list \<Rightarrow> nat \<Rightarrow> nat \<Rightarrow> lda_doc list list \<Rightarrow> bool" where
  "load_inv P per docs j p parts \<longleftrightarrow> (\<exists>full cur. parts = full @ cur # replicate (P - 1 - p) [] \<and> length full = p \<and> p < P \<and>
     (\<forall>x \<in> set full. length x = per) \<and> concat full @ cur = take j docs \<and> (p < P - 1 \<longrightarrow> length cur \<le> per))"

lemma length_concat_const: "\<forall>x \<in> set xss. length x = n \<Longrightarrow> length (concat xss) = length xss * n"
  by (induction xss) simp_all

lemma load_inv_count: "load_inv P per docs j p parts \<Longrightarrow> j \<le> length docs \<Longrightarrow> \<exists>c. j = p * per + c \<and> (p < P - 1 \<longrightarrow> c \<le> per)"
proof -
  assume "load_inv P per docs j p parts" "j \<le> length docs"
  then obtain full cur where fc: "length full = p" "\<forall>x \<in> set full. length x = per" "concat full @ cur = take j docs"
    "p < P - 1 \<longrightarrow> length cur \<le> per" by (auto simp: load_inv_def)
  then have "length (concat full @ cur) = j" using \<open>j \<le> length docs\<close> by simp
  then have "j = p * per + length cur" using length_concat_const [OF fc(2)] fc(1) by simp
  then show ?thesis using fc(4) by blast
qed

definition loads :: "(int \<Rightarrow> nat \<Rightarrow> int) \<Rightarrow> int \<Rightarrow> int \<Rightarrow> bytes list \<Rightarrow> lda_doc list \<Rightarrow> bool" where
  "loads draw begin K db docs \<longleftrightarrow> length docs = length db \<and> (\<forall>j < length db. load_doc (draw (begin + int j)) K (db ! j) = Inr (docs ! j))"

lemma load_step_inv:
  assumes ml: "ml_part_end ml = map (part_end (int P) (int per) begin (begin + int (length docs))) [0..<P]"
    and j: "j < length docs" and inv: "load_inv P per docs j p parts" and per: "0 < per" "P * per \<le> length docs"
    and d: "load_doc (draw (begin + int j)) (ml_num_topics ml) data = Inr (docs ! j)"
  shows "\<exists>p' parts'. load_step draw ml (begin + int j, int p, parts) data = Inr (begin + int (Suc j), int p', parts') \<and>
    load_inv P per docs (Suc j) p' parts'"
proof -
  obtain full cur where fc: "parts = full @ cur # replicate (P - 1 - p) []" "length full = p" "p < P" "\<forall>x \<in> set full. length x = per"
    "concat full @ cur = take j docs" "p < P - 1 \<longrightarrow> length cur \<le> per" using inv by (auto simp: load_inv_def)
  obtain c where c: "j = p * per + c" "p < P - 1 \<longrightarrow> c \<le> per" using load_inv_count [OF inv] j by auto
  have "length (concat full) = p * per" using length_concat_const [OF fc(4)] fc(2) by simp
  then have len: "length cur = c" using arg_cong [OF fc(5), of length] j c(1) by simp
  have e: "vec_at (ml_part_end ml) (int p) = Inr (part_end (int P) (int per) begin (begin + int (length docs)) p)"
    using fc(3) by (simp add: vec_at_def ml)
  have t: "take (Suc j) docs = take j docs @ [docs ! j]" using j by (simp add: take_Suc_conv_app_nth)
  show ?thesis
  proof (cases "p < P - 1 \<and> c = per")
    case True
    obtain k where k: "P - 1 - p = Suc k" "k = P - 1 - Suc p" using True by (cases "P - 1 - p") auto
    have new: "begin + int j = part_end (int P) (int per) begin (begin + int (length docs)) p"
      using True fc(3) c(1) by (auto simp: part_end_def part_begin_def)
    have parts: "parts = (full @ [cur]) @ [] # replicate k []" using fc(1) k(1) by simp
    have at: "vec_at parts (int p + 1) = Inr []" using parts fc(2) by (simp add: vec_at_def nth_append nat_add_distrib)
    have upd: "parts[nat (int p + 1) := [] @ [docs ! j]] = (full @ [cur]) @ [docs ! j] # replicate k []"
      using parts fc(2) by (simp add: list_update_append nat_add_distrib)
    have "load_step draw ml (begin + int j, int p, parts) data = Inr (begin + int (Suc j), int (Suc p), (full @ [cur]) @ [docs ! j] # replicate k [])"
      using e new at upd d by (simp add: load_step_def Let_def algebra_simps)
    moreover have "load_inv P per docs (Suc j) (Suc p) ((full @ [cur]) @ [docs ! j] # replicate k [])"
      unfolding load_inv_def using fc True k(2) len t per(1)
      by (intro exI [of _ "full @ [cur]"] exI [of _ "[docs ! j]"]) auto
    ultimately show ?thesis by blast
  next
    case False
    have same: "begin + int j \<noteq> part_end (int P) (int per) begin (begin + int (length docs)) p"
    proof (cases "p = P - 1")
      case True
      then show ?thesis using j fc(3) by (auto simp: part_end_def)
    next
      case F: False
      then have "c \<noteq> per" using False fc(3) by auto
      then show ?thesis using F fc(3) c(1) by (auto simp: part_end_def part_begin_def)
    qed
    have at: "vec_at parts (int p) = Inr cur" using fc(1,2) by (simp add: vec_at_def nth_append)
    have upd: "parts[p := cur @ [docs ! j]] = full @ (cur @ [docs ! j]) # replicate (P - 1 - p) []"
      using fc(1,2) by (simp add: list_update_append)
    have "load_step draw ml (begin + int j, int p, parts) data = Inr (begin + int (Suc j), int p, full @ (cur @ [docs ! j]) # replicate (P - 1 - p) [])"
      using e same at upd d by (simp add: load_step_def Let_def algebra_simps)
    moreover have "load_inv P per docs (Suc j) p (full @ (cur @ [docs ! j]) # replicate (P - 1 - p) [])"
      unfolding load_inv_def using fc False len t c(2)
      by (intro exI [of _ full] exI [of _ "cur @ [docs ! j]"]) (auto simp flip: append_assoc)
    ultimately show ?thesis by blast
  qed
qed

lemma load_loop:
  assumes ml: "ml_part_end ml = map (part_end (int P) (int per) begin (begin + int (length docs))) [0..<P]"
    and per: "0 < per" "P * per \<le> length docs" and l: "loads draw begin (ml_num_topics ml) db docs"
  shows "j \<le> length db \<Longrightarrow> 0 < P \<Longrightarrow> \<exists>p parts. foldM (load_step draw ml) (begin, 0, replicate P []) (take j db) = Inr (begin + int j, int p, parts) \<and>
    load_inv P per docs j p parts"
proof (induction j)
  case 0
  have "load_inv P per docs 0 0 (replicate P [])" unfolding load_inv_def
    using 0 by (intro exI [of _ "[] :: lda_doc list list"] exI [of _ "[] :: lda_doc list"]) (cases P; simp)
  then show ?case by force
next
  case (Suc j)
  then obtain p parts where IH: "foldM (load_step draw ml) (begin, 0, replicate P []) (take j db) = Inr (begin + int j, int p, parts)"
    "load_inv P per docs j p parts" by auto
  have j: "j < length docs" "j < length db" using Suc.prems l by (auto simp: loads_def)
  have d: "load_doc (draw (begin + int j)) (ml_num_topics ml) (db ! j) = Inr (docs ! j)" using l j by (simp add: loads_def)
  from load_step_inv [where draw = draw, OF ml j(1) IH(2) per d] show ?case
    using IH(1) by (auto simp: take_Suc_conv_app_nth [OF j(2)] foldM_append)
qed

text \<open>
  With at least as many documents as partitions, the loader divides the data base into consecutive pieces: all but the last
  have the same number of documents, the one the meta data gives.
\<close>

lemma loader_partitions:
  assumes meta: "meta = [(''max_vocab_id:'', mv), (''num_vocabs:'', nv), (''num_docs:'', int (length db)), (''doc_id_begin:'', begin),
      (''doc_id_end:'', begin + int (length db))]"
    and P: "0 < P" "P \<le> length db" and l: "loads draw begin K db docs"
  shows "\<exists>im parts. InMemoryMasterDocLoader draw meta db (int P) K = Inr im \<and> im_partitions im = map Some parts \<and> length parts = P \<and>
    concat parts = docs \<and> (\<forall>i < P - 1. length (parts ! i) = length db div P)"
proof -
  let ?per = "length db div P"
  have len: "length docs = length db" using l by (simp add: loads_def)
  have q: "int (length db) sdiv int P = int ?per" using P(1) by (simp add: sdiv_nonneg zdiv_int)
  obtain ml where ml: "AbstractMasterDocLoader meta (int P) K = Inr ml" "ml_num_docs ml = int (length db)" "ml_doc_id_begin ml = begin"
    "ml_num_topics ml = K" "ml_part_end ml = map (part_end (int P) (int ?per) begin (begin + int (length docs))) [0..<P]"
    using P(1) len by (simp add: AbstractMasterDocLoader_def meta read_field_def q Let_def)
  have per: "0 < ?per" "P * ?per \<le> length docs" using P l by (auto simp: div_greater_zero_iff loads_def)
  obtain p parts where r: "foldM (load_step draw ml) (begin, 0, replicate P []) db = Inr (begin + int (length db), int p, parts)"
    and inv: "load_inv P ?per docs (length db) p parts"
    using load_loop [OF ml(5) per l [folded ml(4)] order_refl P(1)] by auto
  obtain full cur where fc: "parts = full @ cur # replicate (P - 1 - p) []" "length full = p" "p < P" "\<forall>x \<in> set full. length x = ?per"
    "concat full @ cur = docs" using inv l by (auto simp: load_inv_def loads_def)
  obtain c where c: "length db = p * ?per + c" "p < P - 1 \<longrightarrow> c \<le> ?per" using load_inv_count [OF inv] l by (auto simp: loads_def)
  have last: "p = P - 1"
  proof (rule ccontr)
    assume "p \<noteq> P - 1"
    then have "p + 1 < P" "length db \<le> (p + 1) * ?per" using fc(3) c by auto
    moreover have "(p + 1) * ?per < P * ?per" using calculation(1) per(1) by (rule mult_less_mono1)
    ultimately show False using per(2) l by (simp add: loads_def)
  qed
  have "\<forall>i < P - 1. length (parts ! i) = ?per" using fc last by (auto simp: nth_append)
  moreover have "length parts = P" "concat parts = docs" using fc(1-3,5) last by simp_all
  ultimately show ?thesis using r ml by (intro exI [of _ "\<lparr>im_master = ml, im_partitions = map Some parts\<rparr>"] exI [of _ parts])
      (simp add: InMemoryMasterDocLoader_def)
qed

end
