(* ===== verification/LDA_Workload.thy ===== *)
theory LDA_Workload
imports LDA_Doc
begin

text \<open>
  The work units of a thread (src/apps/lda/src/workload_manager.hpp and the loop of \<open>LDAEngine::Start\<close> in lda_engine.cpp).  The manager calls
  the loader of its partition through the interface \<open>AbstractPartitionDocLoader\<close>, a record of operations here; the locale
  \<open>doc_loader\<close> is what abstract_doc_loader.hpp promises of them, interpreted for the loader in memory.
\<close>

section \<open>The interface of a loader\<close>

record 'l loader_ops =
  lo_GetOneDoc :: "'l \<Rightarrow> (nat \<times> 'l) result"
  lo_IsEnd :: "'l \<Rightarrow> bool"
  lo_Restart :: "'l \<Rightarrow> 'l"
  lo_GetNumDocs :: "'l \<Rightarrow> nat"
  lo_GetNumTokens :: "'l \<Rightarrow> nat"

definition in_memory_ops :: "partition_loader loader_ops" where
  "in_memory_ops = \<lparr>lo_GetOneDoc = Loader_GetOneDoc, lo_IsEnd = Loader_IsEnd, lo_Restart = Loader_Restart, lo_GetNumDocs = Loader_GetNumDocs,
     lo_GetNumTokens = Loader_GetNumTokens\<rparr>"

section \<open>The manager\<close>

record 'l workload_mgr =
  wm_loader :: 'l
  wm_iters_per_unit :: int
  wm_clocks_per_unit :: int
  wm_docs_per_unit :: int
  wm_docs_per_clock :: int
  wm_iters_this_unit :: int
  wm_docs_this_unit :: int

text \<open>\<open>std::ceil\<close> of a quotient; the rounding of \<open>float\<close> is not modelled, a quotient by zero has no integer value.\<close>

definition ceil_quot :: "int \<Rightarrow> int \<Rightarrow> int result" where
  "ceil_quot a b = (if b = 0 then Inl (Undefined ''ceil'') else Inr (- ((- a) div b)))"

definition WorkloadManager :: "'l loader_ops \<Rightarrow> 'l \<Rightarrow> int \<Rightarrow> int \<Rightarrow> 'l workload_mgr result" where
  "WorkloadManager ops l iters num_clocks =
     (let docs = iters * int (lo_GetNumDocs ops l) in
      rbind (ceil_quot docs num_clocks) (\<lambda>per_clock.
      Inr \<lparr>wm_loader = l, wm_iters_per_unit = iters, wm_clocks_per_unit = num_clocks, wm_docs_per_unit = docs, wm_docs_per_clock = per_clock,
        wm_iters_this_unit = 1, wm_docs_this_unit = 0\<rparr>))"

definition IsEndOfWorkUnit :: "'l workload_mgr \<Rightarrow> bool" where
  "IsEndOfWorkUnit wm \<longleftrightarrow> wm_docs_this_unit wm = wm_docs_per_unit wm"

definition WM_GetOneDoc :: "'l loader_ops \<Rightarrow> 'l workload_mgr \<Rightarrow> (nat \<times> 'l workload_mgr) result" where
  "WM_GetOneDoc ops wm =
     rbind (check (\<not> IsEndOfWorkUnit wm) ''!IsEndOfWorkUnit()'') (\<lambda>_.
     let wm = (if lo_IsEnd ops (wm_loader wm)
               then wm\<lparr>wm_iters_this_unit := wm_iters_this_unit wm + 1, wm_loader := lo_Restart ops (wm_loader wm)\<rparr> else wm);
         wm = wm\<lparr>wm_docs_this_unit := wm_docs_this_unit wm + 1\<rparr> in
     rbind (lo_GetOneDoc ops (wm_loader wm)) (\<lambda>(doc, l). Inr (doc, wm\<lparr>wm_loader := l\<rparr>)))"

definition NeedToClock :: "'l workload_mgr \<Rightarrow> bool result" where
  "NeedToClock wm = rbind (c_mod (wm_docs_this_unit wm) (wm_docs_per_clock wm)) (\<lambda>r. Inr (r = 0 \<and> wm_docs_this_unit wm \<noteq> 0))"

definition IsEndOfAnIter :: "'l loader_ops \<Rightarrow> 'l workload_mgr \<Rightarrow> bool" where
  "IsEndOfAnIter ops wm \<longleftrightarrow> lo_IsEnd ops (wm_loader wm)"

definition GetNumItersThisWorkUnit :: "'l workload_mgr \<Rightarrow> int" where
  "GetNumItersThisWorkUnit wm = wm_iters_this_unit wm"

definition RestartWorkUnit :: "'l loader_ops \<Rightarrow> 'l workload_mgr \<Rightarrow> 'l workload_mgr" where
  "RestartWorkUnit ops wm = wm\<lparr>wm_loader := lo_Restart ops (wm_loader wm), wm_iters_this_unit := 1, wm_docs_this_unit := 0\<rparr>"

definition WM_GetNumDocs :: "'l loader_ops \<Rightarrow> 'l workload_mgr \<Rightarrow> nat" where
  "WM_GetNumDocs ops wm = lo_GetNumDocs ops (wm_loader wm)"

definition GetNumDocsThisWorkUnit :: "'l workload_mgr \<Rightarrow> int" where
  "GetNumDocsThisWorkUnit wm = wm_docs_this_unit wm"

definition WM_GetNumTokens :: "'l loader_ops \<Rightarrow> 'l workload_mgr \<Rightarrow> nat" where
  "WM_GetNumTokens ops wm = lo_GetNumTokens ops (wm_loader wm)"

section \<open>A work unit\<close>

text \<open>
  The inner loop of \<open>Start\<close>, with the sampling of a document and the clock, which acts on the rest of the state of the thread, as
  arguments.  Sampling changes the document, which belongs to the loader.
\<close>

fun work_unit_loop ::
  "'l loader_ops \<Rightarrow> (nat \<Rightarrow> 'l \<Rightarrow> 's \<Rightarrow> ('l \<times> 's) result) \<Rightarrow> ('l \<Rightarrow> 's \<Rightarrow> 's) \<Rightarrow> nat \<Rightarrow> 'l workload_mgr \<Rightarrow> 's \<Rightarrow> ('l workload_mgr \<times> 's) result" where
  "work_unit_loop ops sample clock 0 wm s = Inl OutOfFuel"
| "work_unit_loop ops sample clock (Suc fuel) wm s =
     (if IsEndOfWorkUnit wm then Inr (wm, s)
      else rbind (WM_GetOneDoc ops wm) (\<lambda>(doc, wm).
        rbind (sample doc (wm_loader wm) s) (\<lambda>(l, s).
        let wm = wm\<lparr>wm_loader := l\<rparr> in
        rbind (NeedToClock wm) (\<lambda>b. work_unit_loop ops sample clock fuel wm (if b then clock l s else s)))))"

definition work_unit ::
  "'l loader_ops \<Rightarrow> (nat \<Rightarrow> 'l \<Rightarrow> 's \<Rightarrow> ('l \<times> 's) result) \<Rightarrow> ('l \<Rightarrow> 's \<Rightarrow> 's) \<Rightarrow> 'l workload_mgr \<Rightarrow> 's \<Rightarrow> ('l workload_mgr \<times> 's) result" where
  "work_unit ops sample clock wm s =
     (let wm = RestartWorkUnit ops wm in work_unit_loop ops sample clock (nat (wm_docs_per_unit wm) + 1) wm s)"

section \<open>What a loader promises\<close>

locale doc_loader =
  fixes ops :: "'l loader_ops" and pos :: "'l \<Rightarrow> nat" and num :: "'l \<Rightarrow> nat"
  assumes restart: "pos (lo_Restart ops l) = 0" "num (lo_Restart ops l) = num l"
    and is_end: "lo_IsEnd ops l \<longleftrightarrow> pos l = num l"
    and get_doc: "pos l < num l \<Longrightarrow> \<exists>l'. lo_GetOneDoc ops l = Inr (pos l, l') \<and> pos l' = pos l + 1 \<and> num l' = num l"
    and num_docs: "lo_GetNumDocs ops l = num l"
begin

text \<open>The manager after \<open>j\<close> documents of a unit over \<open>n\<close> documents.\<close>

definition at_doc :: "nat \<Rightarrow> nat \<Rightarrow> 'l workload_mgr \<Rightarrow> bool" where
  "at_doc n j wm \<longleftrightarrow> wm_docs_this_unit wm = int j \<and> num (wm_loader wm) = n \<and> pos (wm_loader wm) \<le> n \<and> pos (wm_loader wm) mod n = j mod n"

definition same_unit :: "'l workload_mgr \<Rightarrow> 'l workload_mgr \<Rightarrow> bool" where
  "same_unit wm wm' \<longleftrightarrow> wm_docs_per_unit wm' = wm_docs_per_unit wm \<and> wm_docs_per_clock wm' = wm_docs_per_clock wm"

lemma restart_unit: "0 < num (wm_loader wm) \<Longrightarrow> at_doc (num (wm_loader wm)) 0 (RestartWorkUnit ops wm) \<and> same_unit wm (RestartWorkUnit ops wm)"
  by (simp add: at_doc_def same_unit_def RestartWorkUnit_def restart)

lemma get_one_doc:
  assumes "at_doc n j wm" "0 < n" "int j < wm_docs_per_unit wm"
  shows "\<exists>wm'. WM_GetOneDoc ops wm = Inr (j mod n, wm') \<and> at_doc n (Suc j) wm' \<and> same_unit wm wm'"
proof -
  let ?l = "if lo_IsEnd ops (wm_loader wm) then lo_Restart ops (wm_loader wm) else wm_loader wm"
  have l: "pos ?l < num ?l" "pos ?l = j mod n" "num ?l = n"
    using assms(1,2) by (auto simp: at_doc_def is_end restart)
  obtain l' where l': "lo_GetOneDoc ops ?l = Inr (j mod n, l')" "pos l' = j mod n + 1" "num l' = n" using get_doc [OF l(1)] l(2,3) by auto
  have "(j mod n + 1) mod n = Suc j mod n" by (simp add: mod_Suc_eq)
  moreover have "j mod n + 1 \<le> n" using assms(2) by (simp add: Suc_leI)
  ultimately show ?thesis using assms l' by (auto simp: WM_GetOneDoc_def IsEndOfWorkUnit_def at_doc_def same_unit_def Let_def)
qed

text \<open>
  The loop keeps an invariant that counts the documents, if sampling and the clock do.
\<close>

lemma loop_invariant:
  assumes step: "\<And>j l s. int j < D \<Longrightarrow> Q j l s \<Longrightarrow> num l = n \<Longrightarrow> \<exists>l' s'. sample (j mod n) l s = Inr (l', s') \<and> num l' = n \<and> pos l' = pos l \<and>
      Q (Suc j) l' (if int (Suc j) mod per = 0 then clock l' s' else s')"
    and get: "\<And>j l l' s k. Q j l s \<Longrightarrow> lo_GetOneDoc ops l = Inr (k, l') \<Longrightarrow> Q j l' s" "\<And>j l s. Q j l s \<Longrightarrow> Q j (lo_Restart ops l) s"
    and n: "0 < n" "0 < per"
  shows "at_doc n j wm \<Longrightarrow> wm_docs_per_unit wm = D \<Longrightarrow> wm_docs_per_clock wm = per \<Longrightarrow> int (j + fuel) = D \<Longrightarrow> Q j (wm_loader wm) s \<Longrightarrow>
    \<exists>wm' s'. work_unit_loop ops sample clock (Suc fuel) wm s = Inr (wm', s') \<and> Q (nat D) (wm_loader wm') s' \<and> same_unit wm wm' \<and> num (wm_loader wm') = n"
proof (induction fuel arbitrary: j wm s)
  case 0
  then have "nat D = j" by simp
  then show ?case using 0 by (auto simp: IsEndOfWorkUnit_def at_doc_def same_unit_def)
next
  case (Suc fuel)
  have j: "int j < D" using Suc.prems(4) by simp
  obtain wm1 where wm1: "WM_GetOneDoc ops wm = Inr (j mod n, wm1)" "at_doc n (Suc j) wm1" "same_unit wm wm1"
    using get_one_doc [OF Suc.prems(1) n(1)] j Suc.prems(2) by auto
  have q: "Q j (wm_loader wm1) s" using wm1(1) get(1) [OF Suc.prems(5)] get(1) [OF get(2) [OF Suc.prems(5)]]
    by (auto simp: WM_GetOneDoc_def Let_def rbind_eq_Inr split: if_splits)
  have nl: "num (wm_loader wm1) = n" using wm1(2) by (simp add: at_doc_def)
  obtain l' s' where s': "sample (j mod n) (wm_loader wm1) s = Inr (l', s')" "num l' = n" "pos l' = pos (wm_loader wm1)"
    "Q (Suc j) l' (if int (Suc j) mod per = 0 then clock l' s' else s')" using step [OF j q nl] by blast
  let ?wm = "wm1\<lparr>wm_loader := l'\<rparr>"
  have need: "NeedToClock ?wm = Inr (int (Suc j) mod per = 0)" using wm1(2,3) Suc.prems(3) n(2)
    by (simp add: NeedToClock_def c_mod_def at_doc_def same_unit_def smod_nonneg del: of_nat_Suc)
  have not_end: "\<not> IsEndOfWorkUnit wm" using Suc.prems(1,2) j by (simp add: IsEndOfWorkUnit_def at_doc_def)
  have "at_doc n (Suc j) ?wm" using wm1(2) s'(2,3) by (simp add: at_doc_def)
  then obtain wm2 s2 where "work_unit_loop ops sample clock (Suc fuel) ?wm (if int (Suc j) mod per = 0 then clock l' s' else s') = Inr (wm2, s2)"
    "Q (nat D) (wm_loader wm2) s2" "same_unit ?wm wm2" "num (wm_loader wm2) = n"
    using Suc.IH [of "Suc j" ?wm "if int (Suc j) mod per = 0 then clock l' s' else s'"] wm1(3) Suc.prems(2,3,4) s'(4)
    by (auto simp: same_unit_def simp del: work_unit_loop.simps)
  then show ?case using wm1(1,3) s'(1) need not_end by (simp add: same_unit_def del: work_unit_loop.simps(2) add: work_unit_loop.simps(2) [of _ _ _ "Suc fuel"])
qed

end

interpretation mem: doc_loader in_memory_ops pl_curr "\<lambda>l. length (pl_docs l)"
  by unfold_locales (auto simp: in_memory_ops_def Loader_GetOneDoc_def Loader_IsEnd_def Loader_Restart_def Loader_GetNumDocs_def)

section \<open>The schedule of a work unit\<close>

datatype unit_event = Sample_Doc nat | Clock_Tick

text \<open>What a unit should do: the documents in turn, and a clock after every \<open>per\<close> of them.\<close>

definition schedule :: "nat \<Rightarrow> nat \<Rightarrow> nat \<Rightarrow> unit_event list" where
  "schedule n per D = concat (map (\<lambda>j. Sample_Doc (j mod n) # (if Suc j mod per = 0 then [Clock_Tick] else [])) [0..<D])"

lemma schedule_Suc: "schedule n per (Suc j) = schedule n per j @ Sample_Doc (j mod n) # (if Suc j mod per = 0 then [Clock_Tick] else [])"
  by (simp add: schedule_def)

lemma schedule_clocks: "0 < per \<Longrightarrow> length (filter (\<lambda>e. e = Clock_Tick) (schedule n per D)) = D div per"
proof (induction D)
  case 0
  then show ?case by (simp add: schedule_def)
next
  case (Suc D)
  then show ?case by (auto simp: schedule_Suc div_Suc)
qed

lemma filter_upt_one: "k < n \<Longrightarrow> filter (\<lambda>j. j = k) [0..<n] = [k]"
  by (induction n) (auto simp: less_Suc_eq filter_empty_conv)

lemma schedule_docs: "k < n \<Longrightarrow> length (filter (\<lambda>e. e = Sample_Doc k) (schedule n per (i * n))) = i"
proof -
  assume k: "k < n"
  have c: "length (filter (\<lambda>e. e = Sample_Doc k) (schedule n per D)) = length (filter (\<lambda>j. j mod n = k) [0..<D])" for D
    by (induction D) (auto simp: schedule_Suc, simp add: schedule_def)
  have "length (filter (\<lambda>j. j mod n = k) [0..<i * n]) = i"
  proof (induction i)
    case (Suc i)
    have u: "[0..<Suc i * n] = [0..<i * n] @ map (\<lambda>j. j + i * n) [0..<n]"
      using upt_add_eq_append [of 0 "i * n" n] by (simp add: map_add_upt add.commute)
    have "filter ((\<lambda>j. j mod n = k) \<circ> (\<lambda>j. j + i * n)) [0..<n] = filter (\<lambda>j. j = k) [0..<n]" by (rule filter_cong) simp_all
    also have "\<dots> = [k]" using filter_upt_one [OF k] .
    finally show ?case using Suc.IH by (simp only: u filter_append filter_map length_append length_map) simp
  qed simp
  then show ?thesis by (simp add: c)
qed

definition record_doc :: "nat \<Rightarrow> 'l \<Rightarrow> unit_event list \<Rightarrow> ('l \<times> unit_event list) result" where
  "record_doc doc l es = Inr (l, es @ [Sample_Doc doc])"

definition record_clock :: "'l \<Rightarrow> unit_event list \<Rightarrow> unit_event list" where
  "record_clock l es = es @ [Clock_Tick]"

lemma unit_follows_schedule:
  assumes "0 < length (pl_docs l)" "0 < i" "0 < c"
  shows "\<exists>wm wm'. WorkloadManager in_memory_ops l (int i) (int c) = Inr wm \<and>
    work_unit in_memory_ops record_doc record_clock wm [] =
      Inr (wm', schedule (length (pl_docs l)) (nat (wm_docs_per_clock wm)) (i * length (pl_docs l))) \<and>
    wm_docs_per_clock wm = - ((- int (i * length (pl_docs l))) div int c) \<and> 0 < wm_docs_per_clock wm"
proof -
  let ?n = "length (pl_docs l)" and ?per = "- ((- int (i * length (pl_docs l))) div int c)"
  obtain wm where wm: "WorkloadManager in_memory_ops l (int i) (int c) = Inr wm" "wm_loader wm = l" "wm_docs_per_unit wm = int (i * ?n)"
    "wm_docs_per_clock wm = ?per" using assms(3)
    by (auto simp: WorkloadManager_def ceil_quot_def in_memory_ops_def Loader_GetNumDocs_def Let_def)
  have per: "0 < ?per" using assms by (simp add: pos_imp_zdiv_neg_iff)
  then obtain p where p: "?per = int p" "0 < p" using zero_less_imp_eq_int by blast
  have r: "mem.at_doc ?n 0 (RestartWorkUnit in_memory_ops wm)" "mem.same_unit wm (RestartWorkUnit in_memory_ops wm)"
    using mem.restart_unit [of wm] assms(1) wm(2) by simp_all
  let ?Q = "\<lambda>j l es. es = schedule ?n p j"
  have step: "\<exists>l' s'. record_doc (j mod ?n) l s = Inr (l', s') \<and> length (pl_docs l') = ?n \<and> pl_curr l' = pl_curr l \<and>
      ?Q (Suc j) l' (if int (Suc j) mod int p = 0 then record_clock l' s' else s')" if "?Q j l s" "length (pl_docs l) = ?n" for j l s
    using that by (simp add: record_doc_def record_clock_def schedule_Suc zmod_int [symmetric] del: of_nat_Suc)
  have "\<exists>wm' s'. work_unit_loop in_memory_ops record_doc record_clock (Suc (i * ?n)) (RestartWorkUnit in_memory_ops wm) [] = Inr (wm', s') \<and>
      ?Q (nat (int (i * ?n))) (wm_loader wm') s' \<and> mem.same_unit (RestartWorkUnit in_memory_ops wm) wm' \<and> length (pl_docs (wm_loader wm')) = ?n"
  proof (rule mem.loop_invariant [where j = 0 and per = "int p" and D = "int (i * ?n)" and Q = ?Q])
    show "\<exists>l' s'. record_doc (j mod ?n) l s = Inr (l', s') \<and> length (pl_docs l') = ?n \<and> pl_curr l' = pl_curr l \<and>
      ?Q (Suc j) l' (if int (Suc j) mod int p = 0 then record_clock l' s' else s')" if "?Q j l s" "length (pl_docs l) = ?n" for j l s
      using that by (rule step)
  qed (use assms(1) p r wm(3,4) in \<open>auto simp: mem.same_unit_def schedule_def\<close>)
  then obtain wm' where "work_unit_loop in_memory_ops record_doc record_clock (Suc (i * ?n)) (RestartWorkUnit in_memory_ops wm) [] =
      Inr (wm', schedule ?n p (i * ?n))" by (metis nat_int)
  then have "work_unit in_memory_ops record_doc record_clock wm [] = Inr (wm', schedule ?n (nat (wm_docs_per_clock wm)) (i * ?n))"
    using r(2) wm(3,4) p(1) by (simp add: work_unit_def Let_def mem.same_unit_def nat_int del: work_unit_loop.simps of_nat_mult)
  moreover have "0 < wm_docs_per_clock wm" using wm(4) per by simp
  ultimately show ?thesis using wm(1,4) by blast
qed

lemma quot_of_ceil: "0 < c \<Longrightarrow> 0 < D \<Longrightarrow> D div nat (- ((- int D) div int c)) \<le> c"
proof -
  assume c: "0 < c" and D: "0 < D"
  let ?q = "- ((- int D) div int c)"
  have "- int D = int c * ((- int D) div int c) + (- int D) mod int c" by simp
  moreover have "0 \<le> (- int D) mod int c" using c by simp
  ultimately have "int D \<le> int c * ?q" by linarith
  moreover have q: "0 < ?q" using c D by (simp add: pos_imp_zdiv_neg_iff)
  ultimately have "int D \<le> int (c * nat ?q)" by simp
  then have "D \<le> c * nat ?q" by linarith
  then have "D div nat ?q \<le> c * nat ?q div nat ?q" by (rule div_le_mono)
  then show ?thesis using q by simp
qed



end
