(* ===== verification/LDA_Sampler.thy ===== *)
theory LDA_Sampler
imports Complex_Main LDA_Doc
begin

text \<open>
  The sampler of the topic model (src/apps/lda/src/fast_doc_sampler.cpp), which draws a new topic for every token of a document.  Doubles are
  real numbers, a quotient by zero is not one and is treated as undefined.  The summary row is the copy in the cache of the thread,
  which \<open>ThreadInc\<close> changes at once; the rows of the word-topic table are shared with other threads, so the row that \<open>Get\<close>
  returns for a token is an argument.  Random numbers are an argument.  The updates of the tables are part of the result.
\<close>

section \<open>State\<close>

text \<open>Of the arrays with a separate counter of active entries, the active part is kept; a q term stands with its topic.\<close>

record doc_sampler =
  ds_K :: int
  ds_V :: int
  ds_beta :: real
  ds_beta_sum :: real
  ds_alpha :: real
  ds_s_sum :: real
  ds_r_sum :: real
  ds_q_sum :: real
  ds_q_coeff :: "real list"
  ds_q_terms :: "(int \<times> real) list"
  ds_doc_topic :: "int list"
  ds_nonzero :: "int list"
  ds_summary :: "int list"

datatype table_update = Summary_ThreadInc int int | Summary_BatchInc "(int \<times> int) list" | Word_BatchInc int "(int \<times> int) list"

text \<open>The sums and the active entries are not initialised by the constructor; \<open>summary\<close> is the row that \<open>ThreadGet\<close> returns.\<close>

definition FastDocSampler :: "int \<Rightarrow> int \<Rightarrow> real \<Rightarrow> real \<Rightarrow> int list \<Rightarrow> doc_sampler result" where
  "FastDocSampler K V alpha beta summary =
     rbind (check (V \<noteq> - 1) ''V_ != -1'') (\<lambda>_.
     Inr \<lparr>ds_K = K, ds_V = V, ds_beta = beta, ds_beta_sum = beta * V, ds_alpha = alpha, ds_s_sum = 0, ds_r_sum = 0, ds_q_sum = 0,
       ds_q_coeff = replicate (nat K) 0, ds_q_terms = [], ds_doc_topic = replicate (nat K) 0, ds_nonzero = [], ds_summary = summary\<rparr>)"

definition RefreshCachedSummaryRow :: "int list \<Rightarrow> doc_sampler \<Rightarrow> doc_sampler" where
  "RefreshCachedSummaryRow summary s = s\<lparr>ds_summary := summary\<rparr>"

definition rdiv :: "real \<Rightarrow> real \<Rightarrow> real result" where
  "rdiv a b = (if b = 0 then Inl (Undefined ''division by zero'') else Inr (a / b))"

definition vec_set :: "int \<Rightarrow> 'a \<Rightarrow> 'a list \<Rightarrow> 'a list result" where
  "vec_set i x xs = rbind (vec_at xs i) (\<lambda>_. Inr (xs[nat i := x]))"

section \<open>Preparation of a document\<close>

definition ComputeDocTopicVector :: "lda_doc \<Rightarrow> doc_sampler \<Rightarrow> doc_sampler result" where
  "ComputeDocTopicVector d s =
     rbind (foldM (\<lambda>v i. rbind (GetTopic d i) (\<lambda>t. rbind (vec_at v t) (\<lambda>c. vec_set t (c + 1) v))) (replicate (length (ds_doc_topic s)) 0) (doc_positions d)) (\<lambda>v.
     Inr (s\<lparr>ds_doc_topic := v\<rparr>))"

definition aux_step :: "doc_sampler \<Rightarrow> int \<Rightarrow> doc_sampler result" where
  "aux_step s k =
     rbind (vec_at (ds_summary s) k) (\<lambda>n.
     let denom = real_of_int n + ds_beta_sum s in
     rbind (vec_at (ds_doc_topic s) k) (\<lambda>d.
     rbind (rdiv (ds_alpha s + d) denom) (\<lambda>q.
     rbind (vec_set k q (ds_q_coeff s)) (\<lambda>qs.
     rbind (rdiv (ds_alpha s * ds_beta s) denom) (\<lambda>a.
     let s = s\<lparr>ds_q_coeff := qs, ds_s_sum := ds_s_sum s + a\<rparr> in
     if d \<noteq> 0 then rbind (rdiv (d * ds_beta s) denom) (\<lambda>b. Inr (s\<lparr>ds_r_sum := ds_r_sum s + b, ds_nonzero := ds_nonzero s @ [k]\<rparr>))
     else Inr s)))))"

definition ComputeAuxVariables :: "doc_sampler \<Rightarrow> doc_sampler result" where
  "ComputeAuxVariables s = foldM aux_step (s\<lparr>ds_s_sum := 0, ds_r_sum := 0, ds_nonzero := []\<rparr>) (map int [0..<nat (ds_K s)])"

section \<open>Taking a token out and putting it back\<close>

text \<open>\<open>e\<close> is -1 when a token of the topic is taken out and 1 when one is added.\<close>

definition shift_buckets :: "int \<Rightarrow> int \<Rightarrow> doc_sampler \<Rightarrow> doc_sampler result" where
  "shift_buckets e topic s =
     rbind (vec_at (ds_summary s) topic) (\<lambda>n.
     let denom = real_of_int n + ds_beta_sum s; ab = ds_alpha s * ds_beta s in
     rbind (rdiv ab denom) (\<lambda>a.
     rbind (rdiv ab (denom + e)) (\<lambda>a'.
     rbind (vec_at (ds_doc_topic s) topic) (\<lambda>d.
     rbind (rdiv (d * ds_beta s) denom) (\<lambda>b.
     rbind (rdiv ((d + e) * ds_beta s) (denom + e)) (\<lambda>b'.
     rbind (rdiv (ds_alpha s + d + e) (denom + e)) (\<lambda>q.
     rbind (vec_set topic q (ds_q_coeff s)) (\<lambda>qs.
     Inr (s\<lparr>ds_s_sum := ds_s_sum s - a + a', ds_r_sum := ds_r_sum s - b + b', ds_q_coeff := qs\<rparr>)))))))))"

text \<open>\<open>std::lower_bound\<close> in a sorted range; the \<open>memmove\<close> of a topic that is not there has a negative size.\<close>

definition lower_bound :: "int list \<Rightarrow> int \<Rightarrow> nat" where
  "lower_bound xs x = length (takeWhile (\<lambda>y. y < x) xs)"

definition remove_doc_topic :: "int \<Rightarrow> doc_sampler \<Rightarrow> doc_sampler result" where
  "remove_doc_topic topic s =
     rbind (vec_at (ds_doc_topic s) topic) (\<lambda>d.
     let s = s\<lparr>ds_doc_topic := (ds_doc_topic s)[nat topic := d - 1]\<rparr> in
     if d - 1 = 0 then
       let i = lower_bound (ds_nonzero s) topic in
       if i = length (ds_nonzero s) then Inl (Undefined ''memmove'')
       else Inr (s\<lparr>ds_nonzero := take i (ds_nonzero s) @ drop (i + 1) (ds_nonzero s)\<rparr>)
     else Inr s)"

text \<open>The array has \<open>K_\<close> places.\<close>

definition add_doc_topic :: "int \<Rightarrow> doc_sampler \<Rightarrow> doc_sampler result" where
  "add_doc_topic topic s =
     rbind (vec_at (ds_doc_topic s) topic) (\<lambda>d.
     let s = s\<lparr>ds_doc_topic := (ds_doc_topic s)[nat topic := d + 1]\<rparr> in
     if d + 1 = 1 then
       let i = lower_bound (ds_nonzero s) topic in
       if int (length (ds_nonzero s)) \<ge> ds_K s then Inl (Undefined ''nonzero_doc_topic_idx_'')
       else Inr (s\<lparr>ds_nonzero := take i (ds_nonzero s) @ topic # drop i (ds_nonzero s)\<rparr>)
     else Inr s)"

definition thread_inc :: "int \<Rightarrow> int \<Rightarrow> doc_sampler \<Rightarrow> doc_sampler result" where
  "thread_inc topic e s = rbind (vec_at (ds_summary s) topic) (\<lambda>n. Inr (s\<lparr>ds_summary := (ds_summary s)[nat topic := n + e]\<rparr>))"

text \<open>The loop over the word-topic row; the vectors of the terms have \<open>K_\<close> places.\<close>

definition q_step :: "int \<Rightarrow> doc_sampler \<Rightarrow> int \<times> int \<Rightarrow> doc_sampler result" where
  "q_step old s = (\<lambda>(topic, c).
     rbind (vec_at (ds_q_coeff s) topic) (\<lambda>q.
     let term = (if topic = old then q * (real_of_int c - 1) else q * real_of_int c) in
     if int (length (ds_q_terms s)) \<ge> ds_K s then Inl (Undefined ''nonzero_q_terms_'')
     else Inr (s\<lparr>ds_q_terms := ds_q_terms s @ [(topic, term)], ds_q_sum := ds_q_sum s + term\<rparr>)))"

definition compute_q :: "int \<Rightarrow> (int \<times> int) list \<Rightarrow> doc_sampler \<Rightarrow> doc_sampler result" where
  "compute_q old row s = foldM (q_step old) (s\<lparr>ds_q_sum := 0, ds_q_terms := []\<rparr>) row"

section \<open>Drawing a topic\<close>

fun dart_loop :: "real \<Rightarrow> (int \<times> real) list \<Rightarrow> int option" where
  "dart_loop x [] = None"
| "dart_loop x ((topic, term) # ts) = (let x = x - term in if x \<le> 0 then Some topic else dart_loop x ts)"

text \<open>The loops over the r and the s bucket, which compute the terms on the way.\<close>

definition r_term :: "doc_sampler \<Rightarrow> int \<Rightarrow> real result" where
  "r_term s k = rbind (vec_at (ds_doc_topic s) k) (\<lambda>d. rbind (vec_at (ds_summary s) k) (\<lambda>n. rdiv d (n + ds_beta_sum s)))"

definition s_term :: "doc_sampler \<Rightarrow> int \<Rightarrow> real result" where
  "s_term s k = rbind (vec_at (ds_summary s) k) (\<lambda>n. rdiv 1 (n + ds_beta_sum s))"

fun topic_loop :: "(int \<Rightarrow> real result) \<Rightarrow> real \<Rightarrow> int list \<Rightarrow> int option result" where
  "topic_loop term x [] = Inr None"
| "topic_loop term x (k # ks) = rbind (term k) (\<lambda>t. let x = x - t in if x \<le> 0 then Inr (Some k) else topic_loop term x ks)"

definition or_last :: "int list \<Rightarrow> int option \<Rightarrow> int result" where
  "or_last ks r = (case r of Some k \<Rightarrow> Inr k | None \<Rightarrow> if ks = [] then Inl (Undefined ''vector index'') else Inr (last ks))"

definition Sample :: "real \<Rightarrow> doc_sampler \<Rightarrow> int result" where
  "Sample u s =
     (let total_mass = ds_q_sum s + ds_r_sum s + ds_s_sum s; sample = u * total_mass in
      if sample < ds_q_sum s then or_last (map fst (ds_q_terms s)) (dart_loop sample (ds_q_terms s))
      else let sample = sample - ds_q_sum s in
        if sample < ds_r_sum s then
          rbind (rdiv sample (ds_beta s)) (\<lambda>sample. rbind (topic_loop (r_term s) sample (ds_nonzero s)) (or_last (ds_nonzero s)))
        else let sample = sample - ds_r_sum s in
          rbind (rdiv sample (ds_alpha s * ds_beta s)) (\<lambda>sample.
          rbind (topic_loop (s_term s) sample (map int [0..<nat (ds_K s)])) (\<lambda>r. Inr (case r of Some k \<Rightarrow> k | None \<Rightarrow> ds_K s - 1))))"

section \<open>Sampling a document\<close>

definition sample_token :: "real \<Rightarrow> (int \<times> int) list \<Rightarrow> int \<Rightarrow> doc_sampler \<Rightarrow> (int \<times> doc_sampler) result" where
  "sample_token u row old s =
     rbind (check (old < ds_K s) ''old_topic < K_'') (\<lambda>_.
     rbind (shift_buckets (- 1) old s) (\<lambda>s.
     rbind (remove_doc_topic old s) (\<lambda>s.
     rbind (thread_inc old (- 1) s) (\<lambda>s.
     rbind (compute_q old row s) (\<lambda>s.
     rbind (Sample u s) (\<lambda>new.
     rbind (check (new < ds_K s) ''new_topic < K_'') (\<lambda>_.
     rbind (shift_buckets 1 new s) (\<lambda>s.
     rbind (add_doc_topic new s) (\<lambda>s.
     rbind (thread_inc new 1 s) (\<lambda>s.
     Inr (new, s)))))))))))"

definition sample_position ::
  "(nat \<Rightarrow> real) \<Rightarrow> (nat \<Rightarrow> (int \<times> int) list) \<Rightarrow> lda_doc \<times> doc_sampler \<times> table_update list \<Rightarrow> int \<Rightarrow>
   (lda_doc \<times> doc_sampler \<times> table_update list) result" where
  "sample_position u rows = (\<lambda>(doc, s, us) i.
     rbind (GetTopic doc i) (\<lambda>old.
     rbind (GetToken doc i) (\<lambda>word.
     rbind (sample_token (u (nat i)) (rows (nat i)) old s) (\<lambda>(new, s).
     let us = us @ [Summary_ThreadInc old (- 1), Summary_ThreadInc new 1] in
     if old \<noteq> new then rbind (SetTopic i new doc) (\<lambda>doc. Inr (doc, s, us @ [Word_BatchInc word [(old, - 1), (new, 1)]]))
     else Inr (doc, s, us)))))"

definition SampleOneDoc ::
  "(nat \<Rightarrow> real) \<Rightarrow> (nat \<Rightarrow> (int \<times> int) list) \<Rightarrow> lda_doc \<Rightarrow> doc_sampler \<Rightarrow> (lda_doc \<times> doc_sampler \<times> table_update list) result" where
  "SampleOneDoc u rows doc s =
     rbind (ComputeDocTopicVector doc s) (\<lambda>s.
     rbind (ComputeAuxVariables s) (\<lambda>s.
     foldM (sample_position u rows) (doc, s, []) (doc_positions doc)))"

end
