(* ===== verification/LDA_Sampler_Proofs.thy ===== *)
theory LDA_Sampler_Proofs
imports LDA_Sampler
begin

text \<open>
  What the sampler of the topic model computes.  The sums and coefficients that it updates for every token are those that it would compute from
  scratch, and the topic it draws has the conditional distribution of collapsed Gibbs sampling.
\<close>

section \<open>The auxiliary variables\<close>

abbreviation topics :: "doc_sampler \<Rightarrow> nat" where
  "topics s \<equiv> nat (ds_K s)"

definition d_at :: "doc_sampler \<Rightarrow> nat \<Rightarrow> real" where
  "d_at s k = real_of_int (ds_doc_topic s ! k)"

definition denom_at :: "doc_sampler \<Rightarrow> nat \<Rightarrow> real" where
  "denom_at s k = real_of_int (ds_summary s ! k) + ds_beta_sum s"

definition params_ok :: "doc_sampler \<Rightarrow> bool" where
  "params_ok s \<longleftrightarrow> 0 < ds_K s \<and> 0 < ds_alpha s \<and> 0 < ds_beta s \<and> 0 < ds_beta_sum s \<and> length (ds_q_coeff s) = topics s \<and>
     length (ds_doc_topic s) = topics s \<and> length (ds_summary s) = topics s"

definition counts_ok :: "doc_sampler \<Rightarrow> bool" where
  "counts_ok s \<longleftrightarrow> (\<forall>k < topics s. 0 \<le> ds_doc_topic s ! k \<and> ds_doc_topic s ! k \<le> ds_summary s ! k)"

definition aux_ok :: "doc_sampler \<Rightarrow> bool" where
  "aux_ok s \<longleftrightarrow> ds_s_sum s = (\<Sum>k < topics s. ds_alpha s * ds_beta s / denom_at s k) \<and>
     ds_r_sum s = (\<Sum>k < topics s. d_at s k * ds_beta s / denom_at s k) \<and>
     ds_q_coeff s = map (\<lambda>k. (ds_alpha s + d_at s k) / denom_at s k) [0..<topics s] \<and>
     ds_nonzero s = map int (filter (\<lambda>k. ds_doc_topic s ! k \<noteq> 0) [0..<topics s])"

lemma denom_pos: "params_ok s \<Longrightarrow> counts_ok s \<Longrightarrow> k < topics s \<Longrightarrow> 0 < denom_at s k"
  by (force simp: params_ok_def counts_ok_def denom_at_def)

lemma vec_at_int [simp]: "k < length xs \<Longrightarrow> vec_at xs (int k) = Inr (xs ! k)"
  by (simp add: vec_at_def)

lemma vec_set_nat [simp]: "k < length xs \<Longrightarrow> vec_set (int k) x xs = Inr (xs[k := x])"
  by (simp add: vec_set_def)

lemma rdiv_pos [simp]: "b \<noteq> 0 \<Longrightarrow> rdiv a b = Inr (a / b)"
  by (simp add: rdiv_def)

text \<open>The loop of \<open>ComputeAuxVariables\<close> after the first \<open>j\<close> topics.\<close>

definition aux_upto :: "nat \<Rightarrow> doc_sampler \<Rightarrow> doc_sampler" where
  "aux_upto j s = s\<lparr>ds_s_sum := (\<Sum>k < j. ds_alpha s * ds_beta s / denom_at s k), ds_r_sum := (\<Sum>k < j. d_at s k * ds_beta s / denom_at s k),
     ds_q_coeff := map (\<lambda>k. (ds_alpha s + d_at s k) / denom_at s k) [0..<j] @ drop j (ds_q_coeff s),
     ds_nonzero := map int (filter (\<lambda>k. ds_doc_topic s ! k \<noteq> 0) [0..<j])\<rparr>"

lemma aux_step_upto:
  assumes "params_ok s" "counts_ok s" "j < topics s"
  shows "aux_step (aux_upto j s) (int j) = Inr (aux_upto (Suc j) s)"
proof -
  have l: "j < length (ds_q_coeff s)" "j < length (ds_doc_topic s)" "j < length (ds_summary s)" using assms by (simp_all add: params_ok_def)
  have p: "real_of_int (ds_summary s ! j) + ds_beta_sum s \<noteq> 0" using denom_pos [OF assms] by (simp add: denom_at_def)
  have q: "(map f [0..<j] @ drop j (ds_q_coeff s))[j := x] = map f [0..<j] @ x # drop (Suc j) (ds_q_coeff s)" for f x
    using l(1) by (simp add: list_update_append Cons_nth_drop_Suc [symmetric])
  show ?thesis using l p by (simp add: aux_step_def aux_upto_def Let_def q) (simp add: d_at_def denom_at_def)
qed

lemma ComputeAux_full:
  assumes "params_ok s" "counts_ok s"
  shows "ComputeAuxVariables s = Inr (aux_upto (topics s) s)"
proof -
  have "foldM aux_step (aux_upto 0 s) (map int [0..<j]) = Inr (aux_upto j s)" if "j \<le> topics s" for j
    using that by (induction j) (simp_all add: foldM_append aux_step_upto [OF assms])
  from this [of "topics s"] show ?thesis by (simp add: ComputeAuxVariables_def aux_upto_def)
qed

lemma aux_ok_upto: "params_ok s \<Longrightarrow> aux_ok (aux_upto (topics s) s) \<and> params_ok (aux_upto (topics s) s)"
  by (simp add: aux_ok_def params_ok_def aux_upto_def d_at_def denom_at_def)

text \<open>Computing the variables again changes nothing exactly when they are right.\<close>

lemma aux_ok_iff:
  assumes "params_ok s" "counts_ok s"
  shows "ComputeAuxVariables s = Inr s \<longleftrightarrow> aux_ok s"
proof
  assume "ComputeAuxVariables s = Inr s"
  then have "aux_upto (topics s) s = s" using ComputeAux_full [OF assms] by simp
  then show "aux_ok s" using aux_ok_upto [OF assms(1)] by simp
next
  assume "aux_ok s"
  then have "aux_upto (topics s) s = s" using assms(1) by (simp add: aux_upto_def aux_ok_def params_ok_def)
  then show "ComputeAuxVariables s = Inr s" using ComputeAux_full [OF assms] by simp
qed

section \<open>One token more or less\<close>

lemma sum_change_one:
  fixes f g :: "nat \<Rightarrow> real"
  assumes "k < n" "\<And>j. j < n \<Longrightarrow> j \<noteq> k \<Longrightarrow> g j = f j"
  shows "(\<Sum>j < n. g j) = (\<Sum>j < n. f j) - f k + g k"
proof -
  have "(\<Sum>j < n. g j) = g k + (\<Sum>j \<in> {..<n} - {k}. g j)" "(\<Sum>j < n. f j) = f k + (\<Sum>j \<in> {..<n} - {k}. f j)"
    using assms(1) by (auto intro: sum.remove)
  moreover have "(\<Sum>j \<in> {..<n} - {k}. g j) = (\<Sum>j \<in> {..<n} - {k}. f j)" by (rule sum.cong) (use assms(2) in auto)
  ultimately show ?thesis by simp
qed

text \<open>The sampler with one token more (\<open>e = 1\<close>) or less (\<open>e = -1\<close>) of a topic, everything computed from the counts.\<close>

definition move_token :: "int \<Rightarrow> nat \<Rightarrow> doc_sampler \<Rightarrow> doc_sampler" where
  "move_token e k s = aux_upto (topics s) (s\<lparr>ds_doc_topic := (ds_doc_topic s)[k := ds_doc_topic s ! k + e],
     ds_summary := (ds_summary s)[k := ds_summary s ! k + e]\<rparr>)"

lemma upt_split_at: "k < n \<Longrightarrow> [0..<n] = [0..<k] @ k # [Suc k..<n]"
  using upt_add_eq_append [of 0 k "n - k"] by (simp add: upt_conv_Cons)

lemma lower_bound_filter:
  assumes "k < n"
  shows "lower_bound (map int (filter P [0..<n])) (int k) = length (filter P [0..<k])"
proof -
  have "takeWhile (\<lambda>y. y < int k) (map int (filter P [0..<k]) @ zs) = map int (filter P [0..<k])" if "zs = [] \<or> int k \<le> hd zs" for zs
  proof -
    have "takeWhile (\<lambda>y. y < int k) (map int (filter P [0..<k]) @ zs) = map int (filter P [0..<k]) @ takeWhile (\<lambda>y. y < int k) zs"
      by (rule takeWhile_append2) auto
    then show ?thesis using that by (cases zs) auto
  qed
  moreover have "zs = [] \<or> int k \<le> hd zs" if "zs = map int (filter P (k # [Suc k..<n]))" for zs
  proof (cases zs)
    case (Cons z zs')
    then have "z \<in> set (map int (filter P (k # [Suc k..<n])))" using that by (metis list.set_intros(1))
    then have "int k \<le> z" by (auto split: if_splits)
    then show ?thesis using Cons by simp
  qed simp
  ultimately show ?thesis unfolding upt_split_at [OF assms] lower_bound_def by (metis filter_append length_map map_append)
qed

lemma filter_split:
  assumes "k < n" "\<And>j. j \<noteq> k \<Longrightarrow> P' j = P j"
  shows "filter P' [0..<n] = filter P [0..<k] @ (if P' k then [k] else []) @ filter P [Suc k..<n]"
proof -
  have "filter P' [0..<k] = filter P [0..<k]" "filter P' [Suc k..<n] = filter P [Suc k..<n]"
    by (rule filter_cong; use assms(2) in auto)+
  then show ?thesis by (simp add: upt_split_at [OF assms(1)])
qed

lemma remove_result:
  assumes "ds_nonzero s = map int (filter (\<lambda>k. ds_doc_topic s ! k \<noteq> 0) [0..<n])" "k < n" "length (ds_doc_topic s) = n" "ds_doc_topic s ! k \<noteq> 0"
  shows "remove_doc_topic (int k) s = Inr (s\<lparr>ds_doc_topic := (ds_doc_topic s)[k := ds_doc_topic s ! k - 1],
    ds_nonzero := map int (filter (\<lambda>j. (ds_doc_topic s)[k := ds_doc_topic s ! k - 1] ! j \<noteq> 0) [0..<n])\<rparr>)"
proof -
  let ?P = "\<lambda>j. ds_doc_topic s ! j \<noteq> 0" and ?P' = "\<lambda>j. (ds_doc_topic s)[k := ds_doc_topic s ! k - 1] ! j \<noteq> 0"
  let ?A = "filter ?P [0..<k]" and ?B = "filter ?P [Suc k..<n]"
  have nz: "ds_nonzero s = map int ?A @ int k # map int ?B" using filter_split [of k n ?P ?P] assms(1,2,4) by simp
  have lb: "lower_bound (ds_nonzero s) (int k) = length ?A" unfolding assms(1) by (rule lower_bound_filter [OF assms(2)])
  have f: "filter ?P' [0..<n] = ?A @ (if ?P' k then [k] else []) @ ?B" by (rule filter_split [OF assms(2)]) simp
  have at: "vec_at (ds_doc_topic s) (int k) = Inr (ds_doc_topic s ! k)" using assms(2,3) by simp
  show ?thesis
  proof (cases "ds_doc_topic s ! k = 1")
    case True
    then have "map int (filter ?P' [0..<n]) = map int ?A @ map int ?B" using f assms(2,3) by simp
    then show ?thesis using True lb nz at by (simp add: remove_doc_topic_def Let_def)
  next
    case False
    then have "map int (filter ?P' [0..<n]) = ds_nonzero s" using f assms(2,3) nz by simp
    then show ?thesis using False at by (simp add: remove_doc_topic_def Let_def)
  qed
qed

lemma add_result:
  assumes "ds_nonzero s = map int (filter (\<lambda>k. ds_doc_topic s ! k \<noteq> 0) [0..<n])" "k < n" "length (ds_doc_topic s) = n" "0 \<le> ds_doc_topic s ! k"
    "ds_K s = int n"
  shows "add_doc_topic (int k) s = Inr (s\<lparr>ds_doc_topic := (ds_doc_topic s)[k := ds_doc_topic s ! k + 1],
    ds_nonzero := map int (filter (\<lambda>j. (ds_doc_topic s)[k := ds_doc_topic s ! k + 1] ! j \<noteq> 0) [0..<n])\<rparr>)"
proof -
  let ?P = "\<lambda>j. ds_doc_topic s ! j \<noteq> 0" and ?P' = "\<lambda>j. (ds_doc_topic s)[k := ds_doc_topic s ! k + 1] ! j \<noteq> 0"
  let ?A = "filter ?P [0..<k]" and ?B = "filter ?P [Suc k..<n]"
  have nz: "ds_nonzero s = map int ?A @ (if ?P k then [int k] else []) @ map int ?B" using filter_split [of k n ?P ?P] assms(1,2) by simp
  have lb: "lower_bound (ds_nonzero s) (int k) = length ?A" unfolding assms(1) by (rule lower_bound_filter [OF assms(2)])
  have f: "filter ?P' [0..<n] = ?A @ [k] @ ?B" using filter_split [OF assms(2), of ?P' ?P] assms(2,3,4) by simp
  have at: "vec_at (ds_doc_topic s) (int k) = Inr (ds_doc_topic s ! k)" using assms(2,3) by simp
  show ?thesis
  proof (cases "ds_doc_topic s ! k = 0")
    case True
    have "length (filter ?P' [0..<n]) \<le> n" using length_filter_le [of ?P' "[0..<n]"] by simp
    then have "length (ds_nonzero s) < n" using f nz True by simp
    then show ?thesis using True lb nz at f assms(5) by (simp add: add_doc_topic_def Let_def)
  next
    case False
    then have "map int (filter ?P' [0..<n]) = ds_nonzero s" using f nz by simp
    then show ?thesis using False at by (simp add: add_doc_topic_def Let_def)
  qed
qed

lemma moved_counts:
  assumes "params_ok s" "k < topics s" "j < topics s"
  shows "d_at (s\<lparr>ds_doc_topic := (ds_doc_topic s)[k := ds_doc_topic s ! k + e], ds_summary := (ds_summary s)[k := ds_summary s ! k + e]\<rparr>) j =
      d_at s j + (if j = k then real_of_int e else 0)"
    "denom_at (s\<lparr>ds_doc_topic := (ds_doc_topic s)[k := ds_doc_topic s ! k + e], ds_summary := (ds_summary s)[k := ds_summary s ! k + e]\<rparr>) j =
      denom_at s j + (if j = k then real_of_int e else 0)"
  using assms by (simp_all add: d_at_def denom_at_def params_ok_def)

lemma move_fields:
  assumes "params_ok s" "aux_ok s" "k < topics s"
  shows "ds_s_sum (move_token e k s) = ds_s_sum s - ds_alpha s * ds_beta s / denom_at s k + ds_alpha s * ds_beta s / (denom_at s k + e)"
    "ds_r_sum (move_token e k s) = ds_r_sum s - d_at s k * ds_beta s / denom_at s k + (d_at s k + e) * ds_beta s / (denom_at s k + e)"
    "ds_q_coeff (move_token e k s) = (ds_q_coeff s)[k := (ds_alpha s + d_at s k + e) / (denom_at s k + e)]"
proof -
  let ?t = "s\<lparr>ds_doc_topic := (ds_doc_topic s)[k := ds_doc_topic s ! k + e], ds_summary := (ds_summary s)[k := ds_summary s ! k + e]\<rparr>"
  note c = moved_counts [OF assms(1,3)]
  have "(\<Sum>j < topics s. ds_alpha s * ds_beta s / denom_at ?t j) =
      (\<Sum>j < topics s. ds_alpha s * ds_beta s / denom_at s j) - ds_alpha s * ds_beta s / denom_at s k + ds_alpha s * ds_beta s / denom_at ?t k"
    by (rule sum_change_one [OF assms(3)]) (simp add: c)
  then show "ds_s_sum (move_token e k s) = ds_s_sum s - ds_alpha s * ds_beta s / denom_at s k + ds_alpha s * ds_beta s / (denom_at s k + e)"
    using assms(2) c(2) [OF assms(3)] by (simp add: move_token_def aux_upto_def aux_ok_def)
  have "(\<Sum>j < topics s. d_at ?t j * ds_beta s / denom_at ?t j) =
      (\<Sum>j < topics s. d_at s j * ds_beta s / denom_at s j) - d_at s k * ds_beta s / denom_at s k + d_at ?t k * ds_beta s / denom_at ?t k"
    by (rule sum_change_one [OF assms(3)]) (simp add: c)
  then show "ds_r_sum (move_token e k s) = ds_r_sum s - d_at s k * ds_beta s / denom_at s k + (d_at s k + e) * ds_beta s / (denom_at s k + e)"
    using assms(2) c [OF assms(3)] by (simp add: move_token_def aux_upto_def aux_ok_def)
  have "drop (topics s) (ds_q_coeff s) = []" using assms(1) by (simp add: params_ok_def)
  moreover have "ds_q_coeff s = map (\<lambda>k. (ds_alpha s + d_at s k) / denom_at s k) [0..<topics s]" using assms(2) by (simp add: aux_ok_def)
  ultimately show "ds_q_coeff (move_token e k s) = (ds_q_coeff s)[k := (ds_alpha s + d_at s k + e) / (denom_at s k + e)]"
    by (intro nth_equalityI) (simp_all add: move_token_def aux_upto_def nth_list_update c add.assoc)
qed

lemma shift_result:
  assumes "params_ok s" "aux_ok s" "k < topics s" "denom_at s k \<noteq> 0" "denom_at s k + e \<noteq> 0"
  shows "shift_buckets e (int k) s = Inr (s\<lparr>ds_s_sum := ds_s_sum (move_token e k s), ds_r_sum := ds_r_sum (move_token e k s),
    ds_q_coeff := ds_q_coeff (move_token e k s)\<rparr>)"
proof -
  have l: "k < length (ds_q_coeff s)" "k < length (ds_doc_topic s)" "k < length (ds_summary s)" using assms(1,3) by (simp_all add: params_ok_def)
  have ne: "real_of_int (ds_summary s ! k) + ds_beta_sum s \<noteq> 0" "real_of_int (ds_summary s ! k) + ds_beta_sum s + real_of_int e \<noteq> 0"
    using assms(4,5) by (simp_all add: denom_at_def)
  show ?thesis using l ne unfolding move_fields [OF assms(1-3)] by (simp add: shift_buckets_def Let_def d_at_def denom_at_def)
qed

lemma move_token_fields [simp]:
  "ds_K (move_token e k s) = ds_K s" "ds_V (move_token e k s) = ds_V s" "ds_alpha (move_token e k s) = ds_alpha s"
  "ds_beta (move_token e k s) = ds_beta s" "ds_beta_sum (move_token e k s) = ds_beta_sum s"
  "ds_q_sum (move_token e k s) = ds_q_sum s" "ds_q_terms (move_token e k s) = ds_q_terms s"
  "ds_doc_topic (move_token e k s) = (ds_doc_topic s)[k := ds_doc_topic s ! k + e]"
  "ds_summary (move_token e k s) = (ds_summary s)[k := ds_summary s ! k + e]"
  by (simp_all add: move_token_def aux_upto_def)

lemma move_ok:
  assumes "params_ok s" "counts_ok s" "k < topics s" "0 \<le> ds_doc_topic s ! k + e"
  shows "params_ok (move_token e k s)" "counts_ok (move_token e k s)" "aux_ok (move_token e k s)"
proof -
  let ?t = "s\<lparr>ds_doc_topic := (ds_doc_topic s)[k := ds_doc_topic s ! k + e], ds_summary := (ds_summary s)[k := ds_summary s ! k + e]\<rparr>"
  have t: "params_ok ?t" using assms(1) by (simp add: params_ok_def)
  show "params_ok (move_token e k s)" "aux_ok (move_token e k s)" using aux_ok_upto [OF t] by (simp_all add: move_token_def)
  show "counts_ok (move_token e k s)" using assms by (auto simp: counts_ok_def nth_list_update params_ok_def)
qed

lemma take_out:
  assumes "params_ok s" "counts_ok s" "aux_ok s" "k < topics s" "0 < ds_doc_topic s ! k"
  shows "rbind (shift_buckets (- 1) (int k) s) (\<lambda>s. rbind (remove_doc_topic (int k) s) (thread_inc (int k) (- 1))) = Inr (move_token (- 1) k s)"
proof -
  let ?m = "move_token (- 1) k s"
  have "0 < denom_at ?m k" by (rule denom_pos [OF move_ok(1,2)]) (use assms in auto)
  then have d: "denom_at s k + - 1 \<noteq> 0" using assms(1,4) by (simp add: denom_at_def params_ok_def)
  have d0: "denom_at s k \<noteq> 0" using denom_pos [OF assms(1,2,4)] by simp
  let ?s1 = "s\<lparr>ds_s_sum := ds_s_sum ?m, ds_r_sum := ds_r_sum ?m, ds_q_coeff := ds_q_coeff ?m\<rparr>"
  have 1: "shift_buckets (- 1) (int k) s = Inr ?s1" using shift_result [OF assms(1,3,4) d0, of "- 1"] d by simp
  have 2: "remove_doc_topic (int k) ?s1 = Inr (?s1\<lparr>ds_doc_topic := ds_doc_topic ?m, ds_nonzero := ds_nonzero ?m\<rparr>)"
    using remove_result [of ?s1 "topics s" k] assms by (simp add: aux_ok_def params_ok_def move_token_def aux_upto_def)
  show ?thesis using 1 2 assms(1,4) by (simp add: thread_inc_def params_ok_def move_token_def aux_upto_def)
qed

lemma put_in:
  assumes "params_ok s" "counts_ok s" "aux_ok s" "k < topics s"
  shows "rbind (shift_buckets 1 (int k) s) (\<lambda>s. rbind (add_doc_topic (int k) s) (thread_inc (int k) 1)) = Inr (move_token 1 k s)"
proof -
  let ?m = "move_token 1 k s"
  have p: "0 < denom_at s k" by (rule denom_pos [OF assms(1,2,4)])
  have nn: "0 \<le> ds_doc_topic s ! k" using assms(2,4) by (simp add: counts_ok_def)
  let ?s1 = "s\<lparr>ds_s_sum := ds_s_sum ?m, ds_r_sum := ds_r_sum ?m, ds_q_coeff := ds_q_coeff ?m\<rparr>"
  have 1: "shift_buckets 1 (int k) s = Inr ?s1" using shift_result [OF assms(1,3,4), of 1] p by simp
  have 2: "add_doc_topic (int k) ?s1 = Inr (?s1\<lparr>ds_doc_topic := ds_doc_topic ?m, ds_nonzero := ds_nonzero ?m\<rparr>)"
    using add_result [of ?s1 "topics s" k] assms nn by (simp add: aux_ok_def params_ok_def move_token_def aux_upto_def)
  show ?thesis using 1 2 assms(1,4) by (simp add: thread_inc_def params_ok_def move_token_def aux_upto_def)
qed

section \<open>The q bucket\<close>

definition row_ok :: "int \<Rightarrow> (int \<times> int) list \<Rightarrow> bool" where
  "row_ok K row \<longleftrightarrow> distinct (map fst row) \<and> (\<forall>p \<in> set row. 0 \<le> fst p \<and> fst p < K)"

definition q_entry :: "int \<Rightarrow> doc_sampler \<Rightarrow> int \<times> int \<Rightarrow> int \<times> real" where
  "q_entry old s = (\<lambda>(t, c). (t, ds_q_coeff s ! nat t * (real_of_int c - (if t = old then 1 else 0))))"

definition mass :: "(int \<times> real) list \<Rightarrow> real" where
  "mass ts = sum_list (map snd ts)"

lemma mass_simps [simp]: "mass [] = 0" "mass (p # ts) = snd p + mass ts" "mass (ts @ ts') = mass ts + mass ts'"
  by (simp_all add: mass_def)

lemma row_length: "row_ok K row \<Longrightarrow> length row \<le> nat K"
proof -
  assume r: "row_ok K row"
  then have "set (map fst row) \<subseteq> {0..<K}" by (auto simp: row_ok_def)
  then have "card (set (map fst row)) \<le> nat K" using card_mono [of "{0..<K}" "set (map fst row)"] by simp
  then show ?thesis using r distinct_card [of "map fst row"] by (simp add: row_ok_def)
qed

lemma q_loop:
  assumes "int (length (ds_q_terms s)) + int (length row) \<le> ds_K s" "length (ds_q_coeff s) = topics s" "\<forall>p \<in> set row. 0 \<le> fst p \<and> fst p < ds_K s"
  shows "foldM (q_step old) s row = Inr (s\<lparr>ds_q_terms := ds_q_terms s @ map (q_entry old s) row,
    ds_q_sum := ds_q_sum s + mass (map (q_entry old s) row)\<rparr>)"
  using assms
proof (induction row arbitrary: s)
  case (Cons p row)
  obtain t c where p: "p = (t, c)" by fastforce
  let ?s = "s\<lparr>ds_q_terms := ds_q_terms s @ [q_entry old s p], ds_q_sum := ds_q_sum s + snd (q_entry old s p)\<rparr>"
  have "vec_at (ds_q_coeff s) t = Inr (ds_q_coeff s ! nat t)" using Cons.prems p by (simp add: vec_at_def)
  then have 1: "q_step old s p = Inr ?s" using Cons.prems(1) p by (simp add: q_step_def q_entry_def Let_def)
  have 2: "q_entry old ?s = q_entry old s" by (simp add: q_entry_def)
  show ?case using Cons.IH [of ?s] Cons.prems 1 2 by (simp add: add.assoc)
qed simp

lemma compute_q_result:
  assumes "params_ok s" "row_ok (ds_K s) row"
  shows "compute_q old row s = Inr (s\<lparr>ds_q_terms := map (q_entry old s) row, ds_q_sum := mass (map (q_entry old s) row)\<rparr>)"
proof -
  let ?s = "s\<lparr>ds_q_sum := 0, ds_q_terms := []\<rparr>"
  have "foldM (q_step old) ?s row = Inr (?s\<lparr>ds_q_terms := ds_q_terms ?s @ map (q_entry old ?s) row, ds_q_sum := ds_q_sum ?s + mass (map (q_entry old ?s) row)\<rparr>)"
    by (rule q_loop) (use row_length [OF assms(2)] assms in \<open>auto simp: params_ok_def row_ok_def\<close>)
  moreover have "q_entry old ?s = q_entry old s" by (simp add: q_entry_def)
  ultimately show ?thesis by (simp add: compute_q_def)
qed

section \<open>Throwing the dart\<close>

text \<open>The point \<open>x\<close> lies in the piece of a topic, when the pieces are laid side by side.\<close>

definition hits :: "(int \<times> real) list \<Rightarrow> real \<Rightarrow> int \<Rightarrow> bool" where
  "hits ts x k \<longleftrightarrow> (\<exists>before w after. ts = before @ (k, w) # after \<and> mass before \<le> x \<and> x \<le> mass before + w)"

lemma hits_left: "hits ts x k \<Longrightarrow> hits (ts @ ts') x k"
  unfolding hits_def by (metis append_Cons append_assoc)

lemma hits_right:
  assumes "hits ts (x - mass ts') k"
  shows "hits (ts' @ ts) x k"
proof -
  obtain b w a where "ts = b @ (k, w) # a" "mass b \<le> x - mass ts'" "x - mass ts' \<le> mass b + w" using assms by (auto simp: hits_def)
  then have "ts' @ ts = (ts' @ b) @ (k, w) # a" "mass (ts' @ b) \<le> x" "x \<le> mass (ts' @ b) + w" by simp_all
  then show ?thesis unfolding hits_def by blast
qed

lemma dart_hits:
  assumes "0 \<le> x" "x < mass ts"
  shows "\<exists>k. dart_loop x ts = Some k \<and> hits ts x k"
  using assms
proof (induction ts arbitrary: x)
  case (Cons p ts)
  obtain t w where p: "p = (t, w)" by fastforce
  show ?case
  proof (cases "x - w \<le> 0")
    case True
    then have "p # ts = [] @ (t, w) # ts \<and> mass [] \<le> x \<and> x \<le> mass [] + w" using p Cons.prems(1) by simp
    then have "hits (p # ts) x t" unfolding hits_def by blast
    then show ?thesis using True p by simp
  next
    case False
    then obtain k where k: "dart_loop (x - w) ts = Some k" "hits ts (x - w) k" using Cons.IH [of "x - w"] Cons.prems p by auto
    then have "hits ([p] @ ts) x k" using p by (intro hits_right) simp
    then show ?thesis using k(1) False p by (simp add: Let_def)
  qed
qed simp

text \<open>The loops over the r and the s bucket work with terms that are divided by a constant.\<close>

lemma topic_loop_dart:
  assumes "\<forall>k \<in> set ks. term k = Inr (w k / c)" "0 < c"
  shows "topic_loop term (x / c) ks = Inr (dart_loop x (map (\<lambda>k. (k, w k)) ks))"
  using assms(1)
proof (induction ks arbitrary: x)
  case (Cons k ks)
  have d: "x / c - w k / c = (x - w k) / c" by (simp add: diff_divide_distrib)
  have "x / c \<le> w k / c \<longleftrightarrow> x \<le> w k" using assms(2) by (simp add: divide_le_cancel)
  then show ?case using Cons.prems Cons.IH [of "x - w k"] by (simp add: d Let_def)
qed simp

text \<open>The terms of all three buckets, in the order of the dart.\<close>

definition all_terms :: "doc_sampler \<Rightarrow> (int \<times> real) list" where
  "all_terms s = ds_q_terms s @ map (\<lambda>k. (k, d_at s (nat k) * ds_beta s / denom_at s (nat k))) (ds_nonzero s) @
     map (\<lambda>k. (k, ds_alpha s * ds_beta s / denom_at s (nat k))) (map int [0..<topics s])"

lemma sum_nonzero:
  "(\<And>k. k < n \<Longrightarrow> \<not> P k \<Longrightarrow> f k = 0) \<Longrightarrow> sum_list (map f (filter P [0..<n])) = (\<Sum>k < n. f k :: real)"
  by (induction n) auto

lemma all_terms_mass:
  assumes "aux_ok s" "ds_q_sum s = mass (ds_q_terms s)"
  shows "mass (all_terms s) = ds_q_sum s + ds_r_sum s + ds_s_sum s"
    and "mass (map (\<lambda>k. (k, d_at s (nat k) * ds_beta s / denom_at s (nat k))) (ds_nonzero s)) = ds_r_sum s"
    and "mass (map (\<lambda>k. (k, ds_alpha s * ds_beta s / denom_at s (nat k))) (map int [0..<topics s])) = ds_s_sum s"
proof -
  let ?f = "\<lambda>k. d_at s (nat k) * ds_beta s / denom_at s (nat k)"
  have "mass (map (\<lambda>k. (k, ?f k)) (ds_nonzero s)) = sum_list (map (\<lambda>k. ?f (int k)) (filter (\<lambda>k. ds_doc_topic s ! k \<noteq> 0) [0..<topics s]))"
    using assms(1) by (simp add: mass_def aux_ok_def o_def)
  also have "\<dots> = (\<Sum>k < topics s. ?f (int k))" by (rule sum_nonzero) (simp add: d_at_def)
  finally show r: "mass (map (\<lambda>k. (k, ?f k)) (ds_nonzero s)) = ds_r_sum s" using assms(1) by (simp add: aux_ok_def)
  have "sum_list (map f [0..<n]) = (\<Sum>k < n. f k :: real)" for f n by (induction n) auto
  then show t: "mass (map (\<lambda>k. (k, ds_alpha s * ds_beta s / denom_at s (nat k))) (map int [0..<topics s])) = ds_s_sum s"
    using assms(1) by (simp add: mass_def aux_ok_def o_def)
  show "mass (all_terms s) = ds_q_sum s + ds_r_sum s + ds_s_sum s" using r t assms(2) by (simp add: all_terms_def)
qed

lemma s_sum_pos: "params_ok s \<Longrightarrow> counts_ok s \<Longrightarrow> aux_ok s \<Longrightarrow> 0 < ds_s_sum s"
proof -
  assume s: "params_ok s" "counts_ok s" "aux_ok s"
  have "0 < (\<Sum>k < topics s. ds_alpha s * ds_beta s / denom_at s k)"
    by (rule sum_pos) (use s(1) denom_pos [OF s(1,2)] in \<open>auto simp: params_ok_def lessThan_empty_iff\<close>)
  then show ?thesis using s(3) by (simp add: aux_ok_def)
qed

lemma r_sum_nonneg: "params_ok s \<Longrightarrow> counts_ok s \<Longrightarrow> aux_ok s \<Longrightarrow> 0 \<le> ds_r_sum s"
  using denom_pos by (auto simp: aux_ok_def params_ok_def counts_ok_def d_at_def intro!: sum_nonneg divide_nonneg_pos)

lemma Sample_hits:
  assumes "params_ok s" "counts_ok s" "aux_ok s" "ds_q_sum s = mass (ds_q_terms s)" "0 \<le> ds_q_sum s" "0 \<le> u" "u < 1"
  shows "\<exists>k. Sample u s = Inr k \<and> hits (all_terms s) (u * mass (all_terms s)) k"
proof -
  note m = all_terms_mass [OF assms(3,4)]
  let ?tot = "ds_q_sum s + ds_r_sum s + ds_s_sum s"
  let ?R = "map (\<lambda>k. (k, d_at s (nat k) * ds_beta s / denom_at s (nat k))) (ds_nonzero s)"
  let ?S = "map (\<lambda>k. (k, ds_alpha s * ds_beta s / denom_at s (nat k))) (map int [0..<topics s])"
  have ab: "0 < ds_beta s" "0 < ds_alpha s * ds_beta s" "ds_alpha s \<noteq> 0" "ds_beta s \<noteq> 0" using assms(1) by (simp_all add: params_ok_def)
  have tot: "0 < ?tot" using s_sum_pos [OF assms(1-3)] r_sum_nonneg [OF assms(1-3)] assms(5) by simp
  have x: "0 \<le> u * ?tot" "u * ?tot < ?tot" using tot assms(6,7) by simp_all
  have ne: "real_of_int (ds_summary s ! k) + ds_beta_sum s \<noteq> 0" if "k < topics s" for k
    using denom_pos [OF assms(1,2) that] by (simp add: denom_at_def)
  have len: "length (ds_doc_topic s) = topics s" "length (ds_summary s) = topics s" using assms(1) by (simp_all add: params_ok_def)
  have rt: "\<forall>k \<in> set (ds_nonzero s). r_term s k = Inr (d_at s (nat k) * ds_beta s / denom_at s (nat k) / ds_beta s)"
    using assms(3) ab(1) ne len by (auto simp: aux_ok_def r_term_def d_at_def denom_at_def)
  have st: "\<forall>k \<in> set (map int [0..<topics s]). s_term s k = Inr (ds_alpha s * ds_beta s / denom_at s (nat k) / (ds_alpha s * ds_beta s))"
    using ab(2) ne len by (auto simp: s_term_def denom_at_def)
  consider (q) "u * ?tot < ds_q_sum s" | (r) "\<not> u * ?tot < ds_q_sum s" "u * ?tot - ds_q_sum s < ds_r_sum s"
    | (t) "\<not> u * ?tot < ds_q_sum s" "\<not> u * ?tot - ds_q_sum s < ds_r_sum s" by blast
  then show ?thesis
  proof cases
    case q
    then obtain k where k: "dart_loop (u * ?tot) (ds_q_terms s) = Some k" "hits (ds_q_terms s) (u * ?tot) k"
      using dart_hits [OF x(1), of "ds_q_terms s"] assms(4) by auto
    then show ?thesis using q m(1) hits_left [OF k(2)] by (simp add: Sample_def Let_def or_last_def all_terms_def)
  next
    case r
    then obtain k where k: "dart_loop (u * ?tot - ds_q_sum s) ?R = Some k" "hits ?R (u * ?tot - ds_q_sum s) k"
      using dart_hits [of "u * ?tot - ds_q_sum s" ?R] m(2) by auto
    have "hits (all_terms s) (u * ?tot) k"
      unfolding all_terms_def using hits_right [of "?R @ ?S" "u * ?tot" "ds_q_terms s" k] hits_left [OF k(2)] assms(4) by simp
    then show ?thesis using r k(1) m(1) ab(1) topic_loop_dart [OF rt ab(1)] by (simp add: Sample_def Let_def or_last_def)
  next
    case t
    then obtain k where k: "dart_loop (u * ?tot - ds_q_sum s - ds_r_sum s) ?S = Some k" "hits ?S (u * ?tot - ds_q_sum s - ds_r_sum s) k"
      using dart_hits [of "u * ?tot - ds_q_sum s - ds_r_sum s" ?S] m(3) x(2) by auto
    have "hits (all_terms s) (u * ?tot) k"
      unfolding all_terms_def using hits_right [of "?R @ ?S" "u * ?tot" "ds_q_terms s" k] hits_right [of ?S "u * ?tot - ds_q_sum s" ?R k] k(2) m(2) assms(4)
      by simp
    then show ?thesis using t k(1) m(1) ab(3,4) topic_loop_dart [OF st ab(2)] by (simp add: Sample_def Let_def)
  qed
qed

section \<open>Gibbs sampling\<close>

text \<open>
  The weight of a topic for the token that is taken out, as collapsed Gibbs sampling has it: (alpha + tokens of the document) times (beta +
  tokens of the word) over (tokens in all + the sum of beta), all counts without the token.
\<close>

definition gibbs_weight :: "doc_sampler \<Rightarrow> (int \<times> int) list \<Rightarrow> nat \<Rightarrow> nat \<Rightarrow> real" where
  "gibbs_weight s row old k =
     (let one = (if k = old then 1 else 0);
          words = (case map_of row (int k) of None \<Rightarrow> 0 | Some c \<Rightarrow> real_of_int c - one) in
      (ds_alpha s + (d_at s k - one)) * (ds_beta s + words) / (denom_at s k - one))"

lemma mass_one_topic:
  "distinct ks \<Longrightarrow> mass (filter (\<lambda>p. fst p = t) (map (\<lambda>k. (k, f k)) ks)) = (if t \<in> set ks then f t else 0)"
  by (induction ks) auto

lemma mass_q_topic:
  "distinct (map fst row) \<Longrightarrow> mass (filter (\<lambda>p. fst p = t) (map (q_entry old s) row)) =
     (case map_of row t of None \<Rightarrow> 0 | Some c \<Rightarrow> ds_q_coeff s ! nat t * (real_of_int c - (if t = old then 1 else 0)))"
proof (induction row)
  case (Cons p row)
  have "map_of row t = None" if "fst p = t" using Cons.prems that by (auto simp: map_of_eq_None_iff)
  then show ?case using Cons by (cases p) (auto simp: q_entry_def)
qed simp

lemma topic_mass:
  assumes "params_ok s" "aux_ok s" "row_ok (ds_K s) row" "ds_q_terms s = map (q_entry (int old) s) row" "k < topics s"
  shows "mass (filter (\<lambda>p. fst p = int k) (all_terms s)) =
    (ds_alpha s + d_at s k) * (ds_beta s + (case map_of row (int k) of None \<Rightarrow> 0 | Some c \<Rightarrow> real_of_int c - (if k = old then 1 else 0))) / denom_at s k"
proof -
  let ?w = "case map_of row (int k) of None \<Rightarrow> 0 | Some c \<Rightarrow> real_of_int c - (if k = old then 1 else 0)"
  have q: "mass (filter (\<lambda>p. fst p = int k) (ds_q_terms s)) = (ds_alpha s + d_at s k) / denom_at s k * ?w"
    using mass_q_topic [of row "int k" "int old" s] assms by (auto simp: row_ok_def aux_ok_def split: option.splits)
  have "distinct (ds_nonzero s)" "int k \<in> set (ds_nonzero s) \<longleftrightarrow> ds_doc_topic s ! k \<noteq> 0"
    using assms(2,5) by (auto simp: aux_ok_def distinct_map)
  then have r: "mass (filter (\<lambda>p. fst p = int k) (map (\<lambda>k. (k, d_at s (nat k) * ds_beta s / denom_at s (nat k))) (ds_nonzero s))) =
      d_at s k * ds_beta s / denom_at s k" by (simp add: mass_one_topic d_at_def)
  have t: "mass (filter (\<lambda>p. fst p = int k) (map (\<lambda>k. (k, ds_alpha s * ds_beta s / denom_at s (nat k))) (map int [0..<topics s]))) =
      ds_alpha s * ds_beta s / denom_at s k" using assms(5) by (subst mass_one_topic) (auto simp: distinct_map)
  have alg: "(a + d) / n * w + (d * b / n + a * b / n) = (a + d) * (b + w) / n" for a b d n w :: real
    by (simp add: add_divide_distrib [symmetric] algebra_simps)
  show ?thesis unfolding all_terms_def filter_append mass_simps q r t by (rule alg)
qed

lemma sample_token_parts:
  "sample_token u row old s =
     rbind (check (old < ds_K s) ''old_topic < K_'') (\<lambda>_.
     rbind (rbind (shift_buckets (- 1) old s) (\<lambda>s. rbind (remove_doc_topic old s) (thread_inc old (- 1)))) (\<lambda>s.
     rbind (compute_q old row s) (\<lambda>s.
     rbind (Sample u s) (\<lambda>new.
     rbind (check (new < ds_K s) ''new_topic < K_'') (\<lambda>_.
     rbind (rbind (shift_buckets 1 new s) (\<lambda>s. rbind (add_doc_topic new s) (thread_inc new 1))) (\<lambda>s.
     Inr (new, s)))))))"
  by (simp add: sample_token_def rbind_assoc)

lemma q_fields_irrelevant [simp]:
  "params_ok (s\<lparr>ds_q_terms := ts, ds_q_sum := x\<rparr>) = params_ok s" "counts_ok (s\<lparr>ds_q_terms := ts, ds_q_sum := x\<rparr>) = counts_ok s"
  "d_at (s\<lparr>ds_q_terms := ts, ds_q_sum := x\<rparr>) = d_at s" "denom_at (s\<lparr>ds_q_terms := ts, ds_q_sum := x\<rparr>) = denom_at s"
  "q_entry t (s\<lparr>ds_q_terms := ts, ds_q_sum := x\<rparr>) = q_entry t s"
  by (simp_all add: fun_eq_iff params_ok_def counts_ok_def d_at_def denom_at_def q_entry_def)

lemma aux_ok_q [simp]: "aux_ok (s\<lparr>ds_q_terms := ts, ds_q_sum := x\<rparr>) = aux_ok s"
  by (simp add: aux_ok_def)

lemma q_entry_nonneg:
  assumes "params_ok s" "counts_ok s" "aux_ok s" "row_ok (ds_K s) row" "\<forall>p \<in> set row. (if fst p = old then 1 else 0) \<le> snd p" "p \<in> set row"
  shows "0 \<le> snd (q_entry old s p)"
proof -
  have k: "nat (fst p) < topics s" using assms(1,4,6) by (auto simp: row_ok_def params_ok_def)
  have "0 \<le> d_at s (nat (fst p))" using assms(2) k by (simp add: counts_ok_def d_at_def)
  then have "0 \<le> ds_q_coeff s ! nat (fst p)" using denom_pos [OF assms(1,2) k] assms(1,3) k by (simp add: aux_ok_def params_ok_def)
  then show ?thesis using assms(5,6) by (auto simp: q_entry_def split: prod.splits intro!: mult_nonneg_nonneg)
qed

lemma q_mass_nonneg:
  assumes "params_ok s" "counts_ok s" "aux_ok s" "row_ok (ds_K s) row" "\<forall>p \<in> set row. (if fst p = old then 1 else 0) \<le> snd p"
  shows "0 \<le> mass (map (q_entry old s) row)"
  unfolding mass_def using q_entry_nonneg [OF assms] by (intro sum_list_nonneg) auto

text \<open>A line is divided well when no piece has a negative length and every piece belongs to a topic.\<close>

definition line_ok :: "nat \<Rightarrow> (int \<times> real) list \<Rightarrow> bool" where
  "line_ok K line \<longleftrightarrow> (\<forall>p \<in> set line. 0 \<le> fst p \<and> fst p < int K \<and> 0 \<le> snd p)"

lemma all_terms_line_ok:
  assumes "params_ok s" "counts_ok s" "aux_ok s" "row_ok (ds_K s) row" "\<forall>p \<in> set row. (if fst p = old then 1 else 0) \<le> snd p"
    "ds_q_terms s = map (q_entry old s) row"
  shows "line_ok (topics s) (all_terms s)"
proof -
  have q: "\<forall>p \<in> set row. 0 \<le> snd (q_entry old s p)" using q_entry_nonneg [OF assms(1-5)] by blast
  have d: "0 \<le> d_at s k" "0 < denom_at s k" if "k < topics s" for k using assms(2) denom_pos [OF assms(1,2) that] that by (simp_all add: counts_ok_def d_at_def)
  have f: "fst (q_entry old s p) = fst p" for p by (simp add: q_entry_def split_beta)
  have ab: "0 < ds_alpha s" "0 < ds_beta s" using assms(1) by (simp_all add: params_ok_def)
  have n: "set (ds_nonzero s) \<subseteq> int ` {..<topics s}" using assms(3) by (auto simp: aux_ok_def)
  have "\<forall>p \<in> set (ds_q_terms s). 0 \<le> fst p \<and> fst p < int (topics s) \<and> 0 \<le> snd p" using assms(1,4,6) q f by (auto simp: row_ok_def params_ok_def)
  moreover have "\<forall>k \<in> set (ds_nonzero s). 0 \<le> k \<and> k < int (topics s) \<and> 0 \<le> d_at s (nat k) * ds_beta s / denom_at s (nat k)"
    using n d ab by (fastforce intro!: divide_nonneg_pos)
  moreover have "\<forall>k \<in> set (map int [0..<topics s]). 0 \<le> k \<and> k < int (topics s) \<and> 0 \<le> ds_alpha s * ds_beta s / denom_at s (nat k)"
    using d ab by (auto intro!: divide_nonneg_pos)
  ultimately show ?thesis unfolding line_ok_def all_terms_def set_append set_map by auto
qed

lemma hits_range:
  assumes "hits (all_terms s) x k" "row_ok (ds_K s) row" "ds_q_terms s = map (q_entry old s) row" "aux_ok s"
  shows "0 \<le> k \<and> k < ds_K s"
proof -
  have "k \<in> fst ` set (all_terms s)" using assms(1) by (force simp: hits_def)
  then show ?thesis using assms(2-4) by (auto simp: all_terms_def row_ok_def aux_ok_def q_entry_def)
qed

text \<open>The sampler with the token taken out and the q bucket computed, when the dart is thrown; its terms are the line.\<close>

definition token_out :: "(int \<times> int) list \<Rightarrow> nat \<Rightarrow> doc_sampler \<Rightarrow> doc_sampler" where
  "token_out row old s =
     (let m = move_token (- 1) old s; ts = map (q_entry (int old) m) row in m\<lparr>ds_q_terms := ts, ds_q_sum := mass ts\<rparr>)"

lemma token_out_ok:
  assumes ok: "params_ok s" "counts_ok s" "aux_ok s" and old: "old < topics s" "0 < ds_doc_topic s ! old"
    and row: "row_ok (ds_K s) row" "\<forall>p \<in> set row. (if fst p = int old then 1 else 0) \<le> snd p"
  shows "params_ok (token_out row old s)" "counts_ok (token_out row old s)" "aux_ok (token_out row old s)" "ds_K (token_out row old s) = ds_K s"
    "ds_q_terms (token_out row old s) = map (q_entry (int old) (token_out row old s)) row"
    "ds_q_sum (token_out row old s) = mass (ds_q_terms (token_out row old s))" "0 \<le> ds_q_sum (token_out row old s)"
proof -
  let ?m = "move_token (- 1) old s"
  have m: "params_ok ?m" "counts_ok ?m" "aux_ok ?m" using move_ok [OF ok(1,2) old(1), of "- 1"] old(2) by simp_all
  have q0: "0 \<le> mass (map (q_entry (int old) ?m) row)" by (rule q_mass_nonneg [OF m]) (simp_all add: row)
  show "params_ok (token_out row old s)" "counts_ok (token_out row old s)" "aux_ok (token_out row old s)" "ds_K (token_out row old s) = ds_K s"
    "ds_q_terms (token_out row old s) = map (q_entry (int old) (token_out row old s)) row"
    "ds_q_sum (token_out row old s) = mass (ds_q_terms (token_out row old s))" "0 \<le> ds_q_sum (token_out row old s)"
    using m q0 by (simp_all add: token_out_def Let_def)
qed

text \<open>The line does not depend on the dart, and the pieces of each topic add up to its weight.\<close>

lemma token_out_line:
  assumes ok: "params_ok s" "counts_ok s" "aux_ok s" and old: "old < topics s" "0 < ds_doc_topic s ! old"
    and row: "row_ok (ds_K s) row" "\<forall>p \<in> set row. (if fst p = int old then 1 else 0) \<le> snd p"
  shows "line_ok (topics s) (all_terms (token_out row old s))"
    "\<forall>j < topics s. mass (filter (\<lambda>p. fst p = int j) (all_terms (token_out row old s))) = gibbs_weight s row old j"
proof -
  note out = token_out_ok [OF assms]
  have rk: "row_ok (ds_K (token_out row old s)) row" using row(1) by (simp only: out(4))
  show "line_ok (topics s) (all_terms (token_out row old s))" using all_terms_line_ok [OF out(1-3) rk row(2) out(5)] by (simp only: out(4))
  show "\<forall>j < topics s. mass (filter (\<lambda>p. fst p = int j) (all_terms (token_out row old s))) = gibbs_weight s row old j"
  proof (intro allI impI)
    fix j assume j: "j < topics s"
    have "d_at (token_out row old s) j = d_at s j - (if j = old then 1 else 0)" "denom_at (token_out row old s) j = denom_at s j - (if j = old then 1 else 0)"
      using old(1) j ok(1) by (simp_all add: token_out_def Let_def d_at_def denom_at_def params_ok_def nth_list_update)
    moreover have "ds_alpha (token_out row old s) = ds_alpha s" "ds_beta (token_out row old s) = ds_beta s" by (simp_all add: token_out_def Let_def)
    ultimately show "mass (filter (\<lambda>p. fst p = int j) (all_terms (token_out row old s))) = gibbs_weight s row old j"
      using topic_mass [OF out(1,3) rk out(5), of j] j out(4) by (simp add: gibbs_weight_def Let_def)
  qed
qed

lemma sample_token_result:
  assumes ok: "params_ok s" "counts_ok s" "aux_ok s" and old: "old < topics s" "0 < ds_doc_topic s ! old"
    and row: "row_ok (ds_K s) row" "\<forall>p \<in> set row. (if fst p = int old then 1 else 0) \<le> snd p" and u: "0 \<le> u" "u < 1"
  shows "\<exists>k s'. sample_token u row (int old) s = Inr (int k, s') \<and> k < topics s \<and>
    hits (all_terms (token_out row old s)) (u * mass (all_terms (token_out row old s))) (int k) \<and>
    params_ok s' \<and> counts_ok s' \<and> aux_ok s' \<and> ds_K s' = ds_K s \<and>
    ds_doc_topic s' = (let v = (ds_doc_topic s)[old := ds_doc_topic s ! old - 1] in v[k := v ! k + 1]) \<and>
    ds_summary s' = (let v = (ds_summary s)[old := ds_summary s ! old - 1] in v[k := v ! k + 1])"
proof -
  let ?m = "move_token (- 1) old s" and ?s = "token_out row old s"
  note out = token_out_ok [OF ok old row]
  have m: "params_ok ?m" using move_ok [OF ok(1,2) old(1), of "- 1"] old(2) by simp
  have q: "compute_q (int old) row ?m = Inr ?s" unfolding token_out_def Let_def by (rule compute_q_result [OF m]) (simp add: row(1))
  obtain t where t: "Sample u ?s = Inr t" "hits (all_terms ?s) (u * mass (all_terms ?s)) t"
    using Sample_hits [OF out(1-3,6,7) u] by blast
  have r: "0 \<le> t" "t < ds_K s" using hits_range [OF t(2) _ out(5,3)] row(1) out(4) by auto
  define k where "k = nat t"
  have k: "t = int k" "k < topics s" using r by (simp_all add: k_def)
  have lt: "int old < ds_K s" "int k < ds_K s" using old(1) k(2) by simp_all
  have k0: "0 \<le> ds_doc_topic ?s ! k" "k < topics ?s" using out(2) k(2) by (simp_all add: counts_ok_def out(4))
  have p: "rbind (shift_buckets 1 (int k) ?s) (\<lambda>s. rbind (add_doc_topic (int k) s) (thread_inc (int k) 1)) = Inr (move_token 1 k ?s)"
    by (rule put_in) (use out(1-3) k0 in simp_all)
  have s: "sample_token u row (int old) s = Inr (int k, move_token 1 k ?s)"
    unfolding sample_token_parts take_out [OF ok old] using lt q t(1) k(1) p out(4) by simp
  moreover have "params_ok (move_token 1 k ?s)" "counts_ok (move_token 1 k ?s)" "aux_ok (move_token 1 k ?s)"
    using move_ok [of ?s k 1] out(1,2) k0 by simp_all
  moreover have "ds_doc_topic ?s = (ds_doc_topic s)[old := ds_doc_topic s ! old - 1]" "ds_summary ?s = (ds_summary s)[old := ds_summary s ! old - 1]"
    by (simp_all add: token_out_def Let_def)
  ultimately show ?thesis using k(2) t(2) k(1) out(4)
    by - (rule exI [of _ k], rule exI [of _ "move_token 1 k ?s"], simp add: Let_def)
qed

end
