(* ===== verification/LDA_Tables.thy ===== *)
theory LDA_Tables
imports LDA_Sampler_Proofs
begin

text \<open>
  Sampling a document as a whole: it never fails, and its updates of the two tables are the differences between the numbers of tokens per
  topic, and per word and topic, after and before.
\<close>

section \<open>Counts\<close>

definition topic_count :: "lda_doc \<Rightarrow> int \<Rightarrow> int" where
  "topic_count d k = int (length (filter (\<lambda>t. t = k) (doc_topics d)))"

definition word_count :: "lda_doc \<Rightarrow> int \<Rightarrow> int \<Rightarrow> int" where
  "word_count d w k = int (length (filter (\<lambda>p. p = (w, k)) (zip (doc_tokens d) (doc_topics d))))"

definition doc_valid :: "int \<Rightarrow> lda_doc \<Rightarrow> bool" where
  "doc_valid K d \<longleftrightarrow> length (doc_topics d) = length (doc_tokens d) \<and> (\<forall>t \<in> set (doc_topics d). 0 \<le> t \<and> t < K)"

definition batch_net :: "(int \<times> int) list \<Rightarrow> int \<Rightarrow> int" where
  "batch_net b k = sum_list (map (\<lambda>(t, e). if t = k then e else 0) b)"

text \<open>What a list of updates adds to an element of the summary row and to an element of the row of a word.\<close>

fun summary_delta :: "int \<Rightarrow> table_update \<Rightarrow> int" where
  "summary_delta k (Summary_ThreadInc t e) = (if t = k then e else 0)"
| "summary_delta k (Summary_BatchInc b) = batch_net b k"
| "summary_delta k (Word_BatchInc w b) = 0"

fun word_delta :: "int \<Rightarrow> int \<Rightarrow> table_update \<Rightarrow> int" where
  "word_delta w k (Word_BatchInc w' b) = (if w' = w then batch_net b k else 0)"
| "word_delta w k _ = 0"

definition summary_net :: "table_update list \<Rightarrow> int \<Rightarrow> int" where
  "summary_net us k = sum_list (map (summary_delta k) us)"

definition word_net :: "table_update list \<Rightarrow> int \<Rightarrow> int \<Rightarrow> int" where
  "word_net us w k = sum_list (map (word_delta w k) us)"

lemma net_append [simp]: "summary_net (us @ vs) k = summary_net us k + summary_net vs k" "word_net (us @ vs) w k = word_net us w k + word_net vs w k"
  by (simp_all add: summary_net_def word_net_def)

lemma batch_net_simps [simp]: "batch_net [] k = 0" "batch_net ((t, e) # b) k = (if t = k then e else 0) + batch_net b k"
  by (simp_all add: batch_net_def)

lemma count_update:
  "i < length xs \<Longrightarrow> int (length (filter P (xs[i := v]))) = int (length (filter P xs)) - (if P (xs ! i) then 1 else 0) + (if P v then 1 else 0)"
proof (induction xs arbitrary: i)
  case (Cons x xs)
  show ?case
  proof (cases i)
    case (Suc j)
    then show ?thesis using Cons.IH [of j] Cons.prems by (simp split: if_splits)
  qed simp
qed simp

definition set_topic :: "nat \<Rightarrow> int \<Rightarrow> lda_doc \<Rightarrow> lda_doc" where
  "set_topic i t d = d\<lparr>doc_topics := (doc_topics d)[i := t]\<rparr>"

lemma set_topic_counts:
  assumes "i < length (doc_topics d)" "length (doc_topics d) = length (doc_tokens d)"
  shows "topic_count (set_topic i t d) k = topic_count d k - (if doc_topics d ! i = k then 1 else 0) + (if t = k then 1 else 0)"
    "word_count (set_topic i t d) w k = word_count d w k - (if doc_tokens d ! i = w \<and> doc_topics d ! i = k then 1 else 0) +
      (if doc_tokens d ! i = w \<and> t = k then 1 else 0)"
proof -
  show "topic_count (set_topic i t d) k = topic_count d k - (if doc_topics d ! i = k then 1 else 0) + (if t = k then 1 else 0)"
    unfolding topic_count_def set_topic_def using count_update [OF assms(1), of "\<lambda>t. t = k" t] by simp
  have "zip (doc_tokens d) ((doc_topics d)[i := t]) = (zip (doc_tokens d) (doc_topics d))[i := (doc_tokens d ! i, t)]"
    using zip_update [of "doc_tokens d" i "doc_tokens d ! i" "doc_topics d" t] by simp
  then show "word_count (set_topic i t d) w k = word_count d w k - (if doc_tokens d ! i = w \<and> doc_topics d ! i = k then 1 else 0) +
      (if doc_tokens d ! i = w \<and> t = k then 1 else 0)"
    using count_update [of i "zip (doc_tokens d) (doc_topics d)" "\<lambda>p. p = (w, k)" "(doc_tokens d ! i, t)"] assms
    by (simp add: word_count_def set_topic_def)
qed

text \<open>\<open>ComputeDocTopicVector\<close> counts.\<close>

lemma doc_vector_loop:
  assumes "doc_valid K d" "length v = nat K"
  shows "j \<le> length (doc_tokens d) \<Longrightarrow>
    foldM (\<lambda>v i. rbind (GetTopic d i) (\<lambda>t. rbind (vec_at v t) (\<lambda>c. vec_set t (c + 1) v))) v (map int [0..<j]) =
    Inr (map (\<lambda>k. v ! k + int (length (filter (\<lambda>t. t = int k) (take j (doc_topics d))))) [0..<nat K])"
proof (induction j)
  case 0
  have "map (\<lambda>k. v ! k) [0..<nat K] = v" using assms(2) by (metis map_nth)
  then show ?case by simp
next
  case (Suc j)
  let ?f = "\<lambda>j k. v ! k + int (length (filter (\<lambda>t. t = int k) (take j (doc_topics d))))"
  have j: "j < length (doc_topics d)" using Suc.prems assms(1) by (simp add: doc_valid_def)
  have t: "0 \<le> doc_topics d ! j" "doc_topics d ! j < K" using assms(1) j by (auto simp: doc_valid_def)
  then obtain k where k: "doc_topics d ! j = int k" "k < nat K" using zero_le_imp_eq_int by force
  have "(map (?f j) [0..<nat K])[k := ?f j k + 1] = map (?f (Suc j)) [0..<nat K]"
    by (rule nth_equalityI) (use j k in \<open>auto simp: nth_list_update take_Suc_conv_app_nth\<close>)
  then show ?case using Suc j k by (simp add: foldM_append GetTopic_def)
qed

lemma ComputeDocTopicVector_counts:
  assumes "doc_valid (ds_K s) d" "length (ds_doc_topic s) = topics s"
  shows "ComputeDocTopicVector d s = Inr (s\<lparr>ds_doc_topic := map (\<lambda>k. topic_count d (int k)) [0..<topics s]\<rparr>)"
proof -
  have "map (\<lambda>k. replicate (topics s) 0 ! k + int (length (filter (\<lambda>t. t = int k) (take (length (doc_tokens d)) (doc_topics d))))) [0..<topics s] =
      map (\<lambda>k. topic_count d (int k)) [0..<topics s]"
    using assms(1) by (intro map_cong) (simp_all add: topic_count_def doc_valid_def)
  then show ?thesis using doc_vector_loop [OF assms(1), of "replicate (topics s) 0", OF _ order_refl] assms(2)
    by (simp add: ComputeDocTopicVector_def doc_positions_def)
qed

section \<open>Sampling a document\<close>

text \<open>The row that \<open>Get\<close> returns for a token counts at least the token itself, if it has an entry for its topic.\<close>

definition rows_ok :: "int \<Rightarrow> lda_doc \<Rightarrow> (nat \<Rightarrow> (int \<times> int) list) \<Rightarrow> bool" where
  "rows_ok K d rows \<longleftrightarrow> (\<forall>i < length (doc_tokens d). row_ok K (rows i) \<and>
     (\<forall>p \<in> set (rows i). (if fst p = doc_topics d ! i then 1 else 0) \<le> snd p))"

definition doc_inv :: "lda_doc \<Rightarrow> doc_sampler \<Rightarrow> nat \<Rightarrow> lda_doc \<times> doc_sampler \<times> table_update list \<Rightarrow> bool" where
  "doc_inv d s j = (\<lambda>(d', s', us). doc_tokens d' = doc_tokens d \<and> doc_valid (ds_K s) d' \<and> drop j (doc_topics d') = drop j (doc_topics d) \<and>
     doc_num_topics d' = doc_num_topics d \<and>
     params_ok s' \<and> counts_ok s' \<and> aux_ok s' \<and> ds_K s' = ds_K s \<and>
     (\<forall>k < topics s. ds_doc_topic s' ! k = topic_count d' (int k) \<and>
       ds_summary s' ! k = ds_summary s ! k + topic_count d' (int k) - topic_count d (int k)) \<and>
     (\<forall>k. summary_net us k = topic_count d' k - topic_count d k) \<and> (\<forall>w k. word_net us w k = word_count d' w k - word_count d w k))"

lemma set_topic_same: "set_topic i (doc_topics d ! i) d = d"
  by (simp add: set_topic_def)

lemma two_updates:
  assumes "length v = n" "i < n" "k < n"
  shows "(let v = v[i := v ! i - 1] in v[k := v ! k + 1]) ! j = v ! j - (if j = i then 1 else 0) + (if j = k then (1 :: int) else 0)"
  using assms by (auto simp: Let_def nth_list_update)

lemma sample_position_inv:
  assumes inv: "doc_inv d s j (d', s', us)" and j: "j < length (doc_tokens d)" and rows: "rows_ok (ds_K s) d rows" and u: "0 \<le> u j" "u j < 1"
  shows "\<exists>r. sample_position u rows (d', s', us) (int j) = Inr r \<and> doc_inv d s (Suc j) r"
proof -
  have i: "doc_tokens d' = doc_tokens d" "doc_valid (ds_K s) d'" "drop j (doc_topics d') = drop j (doc_topics d)"
    "params_ok s'" "counts_ok s'" "aux_ok s'" "ds_K s' = ds_K s" using inv by (simp_all add: doc_inv_def)
  have len: "length (doc_topics d') = length (doc_tokens d)" using i(1,2) by (simp add: doc_valid_def)
  then have len0: "length (doc_topics d) = length (doc_tokens d)" using arg_cong [OF i(3), of length] j by simp
  have old: "doc_topics d' ! j = doc_topics d ! j"
    using i(3) len len0 j by (metis Cons_nth_drop_Suc list.inject)
  obtain o' where o': "doc_topics d ! j = int o'" "o' < topics s"
    using i(2) len j old by (metis doc_valid_def nth_mem zero_le_imp_eq_int nat_int zless_nat_conj order_le_less_trans)
  have "0 < length (filter (\<lambda>t. t = int o') (doc_topics d'))"
    using o'(1) old len j by (metis (mono_tags, lifting) filter_empty_conv length_greater_0_conv nth_mem)
  then have pos: "0 < ds_doc_topic s' ! o'" using inv o'(2) by (simp add: doc_inv_def topic_count_def)
  have row: "row_ok (ds_K s') (rows j)" "\<forall>p \<in> set (rows j). (if fst p = int o' then 1 else 0) \<le> snd p"
    using rows j i(7) unfolding rows_ok_def o'(1) [symmetric] by auto
  obtain k s2 where k: "sample_token (u j) (rows j) (int o') s' = Inr (int k, s2)" "k < topics s"
    "params_ok s2" "counts_ok s2" "aux_ok s2" "ds_K s2 = ds_K s"
    "ds_doc_topic s2 = (let v = (ds_doc_topic s')[o' := ds_doc_topic s' ! o' - 1] in v[k := v ! k + 1])"
    "ds_summary s2 = (let v = (ds_summary s')[o' := ds_summary s' ! o' - 1] in v[k := v ! k + 1])"
    using sample_token_result [OF i(4-6) _ pos row u] o'(2) i(7) by auto
  let ?d = "set_topic j (int k) d'"
  let ?us = "us @ [Summary_ThreadInc (int o') (- 1), Summary_ThreadInc (int k) 1] @
    (if o' \<noteq> k then [Word_BatchInc (doc_tokens d ! j) [(int o', - 1), (int k, 1)]] else [])"
  have j': "j < length (doc_topics d')" "length (doc_topics d') = length (doc_tokens d')" using j len i(1) by simp_all
  have same: "set_topic j (int k) d' = d'" if "o' = k" using set_topic_same [of j d'] old o'(1) that by simp
  have run: "sample_position u rows (d', s', us) (int j) = Inr (?d, s2, ?us)"
    using k(1) j len i(1) old o'(1) same by (simp add: sample_position_def GetTopic_def GetToken_def SetTopic_def set_topic_def)
  note c = set_topic_counts [OF j', of "int k"]
  have "length (ds_doc_topic s') = topics s" "length (ds_summary s') = topics s" using i(4,7) by (simp_all add: params_ok_def)
  note v = this [THEN two_updates, OF o'(2) k(2), folded k(7,8)]
  have rest: "doc_num_topics d' = doc_num_topics d"
    and cnt: "\<And>x. x < topics s \<Longrightarrow> ds_doc_topic s' ! x = topic_count d' (int x)"
      "\<And>x. x < topics s \<Longrightarrow> ds_summary s' ! x = ds_summary s ! x + topic_count d' (int x) - topic_count d (int x)"
    and net: "\<And>x. summary_net us x = topic_count d' x - topic_count d x" "\<And>w x. word_net us w x = word_count d' w x - word_count d w x"
    using inv by (simp_all add: doc_inv_def)
  have cnt': "ds_doc_topic s2 ! x = topic_count ?d (int x)"
    "ds_summary s2 ! x = ds_summary s ! x + topic_count ?d (int x) - topic_count d (int x)" if "x < topics s" for x
    using cnt [OF that] by (simp_all add: v c(1) old o'(1))
  have net': "summary_net ?us x = topic_count ?d x - topic_count d x" for x
    using net(1) [of x] by (simp add: c(1) old o'(1)) (simp add: summary_net_def)
  have wnet': "word_net ?us w x = word_count ?d w x - word_count d w x" for w x
    using net(2) [of w x] by (simp add: c(2) old o'(1) i(1)) (simp add: word_net_def)
  have valid: "doc_valid (ds_K s) ?d" using i(2) k(2) by (auto simp: doc_valid_def set_topic_def dest!: set_update_subset_insert [THEN subsetD])
  have dr: "drop (Suc j) (doc_topics ?d) = drop (Suc j) (doc_topics d)" using i(3) by (simp add: set_topic_def) (metis drop_Suc tl_drop)
  have tok: "doc_tokens ?d = doc_tokens d" "doc_num_topics ?d = doc_num_topics d" using i(1) rest by (simp_all add: set_topic_def)
  have "doc_inv d s (Suc j) (?d, s2, ?us)"
    unfolding doc_inv_def prod.case using tok valid dr k(3-6) cnt' net' wnet' by blast
  then show ?thesis using run by blast
qed

text \<open>The sampler before a document: parameters and sizes are right, and the summary row counts at least the tokens of the document.\<close>

definition ready :: "lda_doc \<Rightarrow> doc_sampler \<Rightarrow> bool" where
  "ready d s \<longleftrightarrow> params_ok s \<and> doc_valid (ds_K s) d \<and> (\<forall>k < topics s. topic_count d (int k) \<le> ds_summary s ! k)"

lemma prepared:
  assumes "ready d s"
  shows "\<exists>s1. rbind (ComputeDocTopicVector d s) ComputeAuxVariables = Inr s1 \<and> doc_inv d s 0 (d, s1, [])"
proof -
  let ?s = "s\<lparr>ds_doc_topic := map (\<lambda>k. topic_count d (int k)) [0..<topics s]\<rparr>"
  have p: "params_ok ?s" "counts_ok ?s" using assms by (auto simp: ready_def params_ok_def counts_ok_def topic_count_def)
  have 1: "ComputeDocTopicVector d s = Inr ?s"
    by (rule ComputeDocTopicVector_counts) (use assms in \<open>simp_all add: ready_def params_ok_def\<close>)
  let ?s1 = "aux_upto (topics s) ?s"
  have s1: "ds_K ?s1 = ds_K s" "ds_doc_topic ?s1 = ds_doc_topic ?s" "ds_summary ?s1 = ds_summary s" by (simp_all add: aux_upto_def)
  have "rbind (ComputeDocTopicVector d s) ComputeAuxVariables = Inr ?s1" using 1 ComputeAux_full [OF p] by simp
  moreover have "params_ok ?s1" "aux_ok ?s1" "counts_ok ?s1" using aux_ok_upto [OF p(1)] p(2) by (simp_all add: counts_ok_def aux_upto_def)
  ultimately show ?thesis using assms s1 by (simp add: doc_inv_def ready_def summary_net_def word_net_def)
qed

lemma SampleOneDoc_inv:
  assumes "ready d s" "rows_ok (ds_K s) d rows" "\<forall>i. 0 \<le> u i \<and> u i < 1"
  shows "\<exists>r. SampleOneDoc u rows d s = Inr r \<and> doc_inv d s (length (doc_tokens d)) r"
proof -
  obtain s1 where s1: "rbind (ComputeDocTopicVector d s) ComputeAuxVariables = Inr s1" "doc_inv d s 0 (d, s1, [])"
    using prepared [OF assms(1)] by blast
  have "\<exists>r. foldM (sample_position u rows) (d, s1, []) (map int [0..<j]) = Inr r \<and> doc_inv d s j r" if "j \<le> length (doc_tokens d)" for j
    using that
  proof (induction j)
    case 0
    then show ?case using s1(2) by simp
  next
    case (Suc j)
    then obtain d' s' us where IH: "foldM (sample_position u rows) (d, s1, []) (map int [0..<j]) = Inr (d', s', us)" "doc_inv d s j (d', s', us)"
      by fastforce
    then show ?case using sample_position_inv [OF IH(2) _ assms(2), of u] assms(3) Suc.prems by (simp add: foldM_append rbind_Inr)
  qed
  then obtain r where "foldM (sample_position u rows) (d, s1, []) (doc_positions d) = Inr r" "doc_inv d s (length (doc_tokens d)) r"
    unfolding doc_positions_def by blast
  then show ?thesis using s1(1) by (simp add: SampleOneDoc_def rbind_assoc [symmetric])
qed

section \<open>Properties\<close>

lemma line_mass: "line_ok K line \<Longrightarrow> mass line = (\<Sum>j < K. mass (filter (\<lambda>p. fst p = int j) line))"
proof (induction line)
  case (Cons p line)
  then have l: "line_ok K line" "nat (fst p) < K" "int (nat (fst p)) = fst p" by (auto simp: line_ok_def)
  have "(\<Sum>j < K. mass (filter (\<lambda>p. fst p = int j) (p # line))) =
      (\<Sum>j < K. (if j = nat (fst p) then snd p else 0) + mass (filter (\<lambda>p. fst p = int j) line))" using l(3) by (intro sum.cong) auto
  also have "\<dots> = snd p + mass line" using Cons.IH [OF l(1)] l(2) by (simp add: sum.distrib)
  finally show ?case by simp
qed simp

text \<open>
  C17. The fast sampler is an exact Gibbs sampler, in exact arithmetic.  When a token of topic \<open>old\<close> is sampled, there is one line, the same for every dart, divided into pieces
  of the topics, none of negative length, whose lengths add up, for every topic, to the weight (alpha + tokens of the document) * (beta + tokens of the word) / (tokens in all + the sum of
  beta), without the token; wherever in [0, 1) the dart falls, the topic drawn is that of the piece it hits on this line, and no run-over of a bucket occurs: each topic is drawn on a share of the darts
  that is its weight over the sum of the weights.  The sums and
  coefficients that are updated along the way are afterwards again those that \<open>ComputeAuxVariables\<close> computes from scratch.
\<close>

theorem sample_token_gibbs:
  assumes "params_ok s" "counts_ok s" "ComputeAuxVariables s = Inr s" "old < nat (ds_K s)" "0 < ds_doc_topic s ! old"
    and "row_ok (ds_K s) row" "\<forall>p \<in> set row. (if fst p = int old then 1 else 0) \<le> snd p"
  shows "\<exists>line. line_ok (nat (ds_K s)) line \<and> mass line = (\<Sum>j < nat (ds_K s). gibbs_weight s row old j) \<and>
    (\<forall>j < nat (ds_K s). mass (filter (\<lambda>p. fst p = int j) line) = gibbs_weight s row old j) \<and>
    (\<forall>u. 0 \<le> u \<and> u < 1 \<longrightarrow> (\<exists>k s'. sample_token u row (int old) s = Inr (int k, s') \<and> k < nat (ds_K s) \<and> hits line (u * mass line) (int k) \<and>
      counts_ok s' \<and> ComputeAuxVariables s' = Inr s' \<and>
      ds_doc_topic s' = (let v = (ds_doc_topic s)[old := ds_doc_topic s ! old - 1] in v[k := v ! k + 1])))"
proof -
  have ok: "aux_ok s" using aux_ok_iff [OF assms(1,2)] assms(3) by simp
  note line = token_out_line [OF assms(1,2) ok assms(4-7)]
  have "\<exists>k s'. sample_token u row (int old) s = Inr (int k, s') \<and> k < nat (ds_K s) \<and>
      hits (all_terms (token_out row old s)) (u * mass (all_terms (token_out row old s))) (int k) \<and> counts_ok s' \<and> ComputeAuxVariables s' = Inr s' \<and>
      ds_doc_topic s' = (let v = (ds_doc_topic s)[old := ds_doc_topic s ! old - 1] in v[k := v ! k + 1])" if "0 \<le> u" "u < 1" for u
    using sample_token_result [OF assms(1,2) ok assms(4-7) that] aux_ok_iff by blast
  moreover have "mass (all_terms (token_out row old s)) = (\<Sum>j < nat (ds_K s). gibbs_weight s row old j)"
    unfolding line_mass [OF line(1)] using line(2) by (intro sum.cong) auto
  ultimately show ?thesis using line by blast
qed

definition example_sampler :: doc_sampler where
  "example_sampler = \<lparr>ds_K = 2, ds_V = 2, ds_beta = 1 / 2, ds_beta_sum = 1, ds_alpha = 1 / 2, ds_s_sum = 7 / 48, ds_r_sum = 7 / 24, ds_q_sum = 0,
     ds_q_coeff = [3 / 8, 1 / 2], ds_q_terms = [], ds_doc_topic = [1, 1], ds_nonzero = [0, 1], ds_summary = [3, 2]\<rparr>"

lemmas example_evals = example_sampler_def params_ok_def counts_ok_def ComputeAuxVariables_def aux_step_def vec_at_def vec_set_def rdiv_def Let_def
  upt_rec row_ok_def less_Suc_eq numeral_2_eq_2

theorem sample_token_gibbs_witness:
  "\<exists>line. line_ok 2 line \<and> (\<forall>j < 2. mass (filter (\<lambda>p. fst p = int j) line) = gibbs_weight example_sampler [(0, 2), (1, 1)] 0 j) \<and>
    (\<forall>u. 0 \<le> u \<and> u < 1 \<longrightarrow> (\<exists>k s'. sample_token u [(0, 2), (1, 1)] (int 0) example_sampler = Inr (int k, s') \<and> k < 2 \<and> hits line (u * mass line) (int k)))"
proof -
  have K: "nat (ds_K example_sampler) = 2" by (simp add: example_sampler_def)
  have "params_ok example_sampler" "counts_ok example_sampler" "ComputeAuxVariables example_sampler = Inr example_sampler" "0 < nat (ds_K example_sampler)"
    "0 < ds_doc_topic example_sampler ! 0" "row_ok (ds_K example_sampler) [(0, 2), (1, 1)]" "\<forall>p \<in> set [(0, 2), (1, 1)]. (if fst p = int 0 then 1 else 0 :: int) \<le> snd p"
    by (simp_all add: example_evals)
  from sample_token_gibbs [OF this, unfolded K] show ?thesis by blast
qed

text \<open>
  Sampling a document whose tokens the summary row counts never fails, keeps its words and gives every token a topic; the updates of the summary
  table are exactly the change in the number of tokens of each topic, and those of the word-topic table the change for
  each word and topic.  The row in the cache of the thread has moved by the same amounts.
\<close>

lemma sample_doc_updates:
  assumes "ready d s" "rows_ok (ds_K s) d rows" "\<forall>i. 0 \<le> u i \<and> u i < 1"
  shows "\<exists>d' s' us. SampleOneDoc u rows d s = Inr (d', s', us) \<and> doc_tokens d' = doc_tokens d \<and> doc_valid (ds_K s) d' \<and>
    (\<forall>k. summary_net us k = topic_count d' k - topic_count d k) \<and> (\<forall>w k. word_net us w k = word_count d' w k - word_count d w k) \<and>
    (\<forall>k < nat (ds_K s). ds_doc_topic s' ! k = topic_count d' (int k) \<and>
      ds_summary s' ! k = ds_summary s ! k + topic_count d' (int k) - topic_count d (int k))"
proof -
  obtain r where r: "SampleOneDoc u rows d s = Inr r" "doc_inv d s (length (doc_tokens d)) r" using SampleOneDoc_inv [OF assms] by blast
  then show ?thesis by (cases r) (auto simp: doc_inv_def)
qed

definition example_doc :: lda_doc where
  "example_doc = \<lparr>doc_tokens = [5, 7], doc_topics = [0, 1], doc_num_topics = 2\<rparr>"

end
