(* ===== verification/LDA_Engine.thy ===== *)
theory LDA_Engine
imports LDA_Workload LDA_Tables
begin

text \<open>
  A worker thread of the topic model (src/apps/lda/src/lda_engine.cpp, \<open>LDAEngine::Start\<close>): the tally of its documents, then the work units.
  What the tables return is an argument: the row of the word for each token, and the summary row at each refresh, which depend on what the
  thread has done.  Barriers, the bootstrap with asynchronous reads and the log likelihood, which does not
  change documents or counts, are left out.
\<close>

section \<open>The tally\<close>

type_synonym tally = "(int \<times> (int \<times> int) list) list \<times> (int \<times> int) list \<times> int list"

definition tally_token :: "lda_doc \<Rightarrow> tally \<Rightarrow> int \<Rightarrow> tally result" where
  "tally_token d = (\<lambda>(word_updates, summary_updates, vocabs) i.
     rbind (GetToken d i) (\<lambda>w. rbind (GetTopic d i) (\<lambda>t.
     let batch = (case map_of word_updates w of None \<Rightarrow> [] | Some b \<Rightarrow> b) in
     Inr (AList.update w (batch @ [(t, 1)]) word_updates, summary_updates @ [(t, 1)], List.insert w vocabs))))"

fun tally_loop :: "nat \<Rightarrow> partition_loader workload_mgr \<Rightarrow> tally \<Rightarrow> (partition_loader workload_mgr \<times> tally) result" where
  "tally_loop 0 wm ta = Inl OutOfFuel"
| "tally_loop (Suc fuel) wm ta =
     (if IsEndOfAnIter in_memory_ops wm then Inr (wm, ta)
      else rbind (WM_GetOneDoc in_memory_ops wm) (\<lambda>(doc, wm).
        rbind (vec_at (pl_docs (wm_loader wm)) (int doc)) (\<lambda>d.
        rbind (foldM (tally_token d) ta (doc_positions d)) (\<lambda>ta. tally_loop fuel wm ta))))"

definition tally_updates :: "tally \<Rightarrow> table_update list" where
  "tally_updates = (\<lambda>(word_updates, summary_updates, vocabs). map (\<lambda>(w, b). Word_BatchInc w b) word_updates @ [Summary_BatchInc summary_updates])"

section \<open>Work units\<close>

record lda_env =
  env_u :: "nat \<Rightarrow> nat \<Rightarrow> real"
  env_rows :: "nat \<Rightarrow> lda_doc \<Rightarrow> nat \<Rightarrow> (int \<times> int) list"
  env_summary :: "nat \<Rightarrow> lda_doc list \<Rightarrow> int list"

text \<open>The state of the thread besides the documents: the sampler, all updates so far, and the numbers of documents sampled and of clocks.\<close>

record lda_thread =
  th_sampler :: doc_sampler
  th_updates :: "table_update list"
  th_docs :: nat
  th_clocks :: nat

definition engine_sample :: "lda_env \<Rightarrow> nat \<Rightarrow> partition_loader \<Rightarrow> lda_thread \<Rightarrow> (partition_loader \<times> lda_thread) result" where
  "engine_sample env doc l th =
     rbind (vec_at (pl_docs l) (int doc)) (\<lambda>d.
     rbind (SampleOneDoc (env_u env (th_docs th)) (env_rows env (th_docs th) d) d (th_sampler th)) (\<lambda>(d, s, us).
     Inr (l\<lparr>pl_docs := (pl_docs l)[doc := d]\<rparr>, th\<lparr>th_sampler := s, th_updates := th_updates th @ us, th_docs := th_docs th + 1\<rparr>)))"

definition engine_refresh :: "lda_env \<Rightarrow> partition_loader \<Rightarrow> lda_thread \<Rightarrow> lda_thread" where
  "engine_refresh env l th = th\<lparr>th_sampler := RefreshCachedSummaryRow (env_summary env (th_clocks th) (pl_docs l)) (th_sampler th)\<rparr>"

definition engine_clock :: "lda_env \<Rightarrow> partition_loader \<Rightarrow> lda_thread \<Rightarrow> lda_thread" where
  "engine_clock env l th = engine_refresh env l (th\<lparr>th_clocks := th_clocks th + 1\<rparr>)"

primrec work_units :: "lda_env \<Rightarrow> nat \<Rightarrow> partition_loader workload_mgr \<Rightarrow> lda_thread \<Rightarrow> (partition_loader workload_mgr \<times> lda_thread) result" where
  "work_units env 0 wm th = Inr (wm, th)"
| "work_units env (Suc n) wm th =
     rbind (work_unit in_memory_ops (engine_sample env) (engine_clock env) wm (engine_refresh env (wm_loader wm) th)) (\<lambda>(wm, th). work_units env n wm th)"

definition Engine_Start ::
  "lda_env \<Rightarrow> nat \<Rightarrow> int \<Rightarrow> int \<Rightarrow> doc_sampler \<Rightarrow> partition_loader \<Rightarrow> (partition_loader workload_mgr \<times> lda_thread) result" where
  "Engine_Start env num_work_units iters num_clocks sampler l =
     rbind (WorkloadManager in_memory_ops l iters num_clocks) (\<lambda>wm.
     rbind (tally_loop (length (pl_docs l) + 1) wm ([], [], [])) (\<lambda>(wm, ta).
     work_units env num_work_units wm \<lparr>th_sampler = sampler, th_updates = tally_updates ta, th_docs = 0, th_clocks = 0\<rparr>))"

section \<open>Words of a thread\<close>

text \<open>The range of words whose likelihood a thread computes.\<close>

definition vocab_range :: "int \<Rightarrow> int \<Rightarrow> int \<Rightarrow> int \<Rightarrow> int \<Rightarrow> (int \<times> int) result" where
  "vocab_range clients threads max_vocab_id client thread =
     (if clients * threads = 0 then Inl (Undefined ''division by zero'')
      else let per = max_vocab_id sdiv (clients * threads); start = (client * threads + thread) * per in
        Inr (start, if client = clients - 1 \<and> thread = threads - 1 then max_vocab_id + 1 else start + per))"

section \<open>The tally counts\<close>

definition token_pairs :: "lda_doc \<Rightarrow> (int \<times> int) list" where
  "token_pairs d = zip (doc_tokens d) (doc_topics d)"

definition batch_of :: "(int \<times> (int \<times> int) list) list \<Rightarrow> int \<Rightarrow> (int \<times> int) list" where
  "batch_of wu w = (case map_of wu w of None \<Rightarrow> [] | Some b \<Rightarrow> b)"

definition tally_inv :: "(int \<times> int) list \<Rightarrow> tally \<Rightarrow> bool" where
  "tally_inv ps = (\<lambda>(wu, su, vs). distinct (map fst wu) \<and> (\<forall>w k. batch_net (batch_of wu w) k = int (length (filter (\<lambda>p. p = (w, k)) ps))) \<and>
     (\<forall>k. batch_net su k = int (length (filter (\<lambda>p. snd p = k) ps))))"

lemma batch_net_append [simp]: "batch_net (a @ b) k = batch_net a k + batch_net b k"
  by (simp add: batch_net_def)

lemma batch_of_update: "batch_of (AList.update w b wu) w' = (if w' = w then b else batch_of wu w')"
  by (simp add: batch_of_def update_conv')

lemma tally_doc:
  assumes "length (doc_topics d) = length (doc_tokens d)" "tally_inv ps ta"
  shows "j \<le> length (doc_tokens d) \<Longrightarrow> \<exists>ta'. foldM (tally_token d) ta (map int [0..<j]) = Inr ta' \<and> tally_inv (ps @ take j (token_pairs d)) ta'"
proof (induction j)
  case 0
  then show ?case using assms(2) by simp
next
  case (Suc j)
  then obtain wu su vs where IH: "foldM (tally_token d) ta (map int [0..<j]) = Inr (wu, su, vs)" "tally_inv (ps @ take j (token_pairs d)) (wu, su, vs)"
    by fastforce
  let ?w = "doc_tokens d ! j" and ?t = "doc_topics d ! j"
  have j: "j < length (token_pairs d)" "token_pairs d ! j = (?w, ?t)" using Suc.prems assms(1) by (simp_all add: token_pairs_def)
  have "tally_token d (wu, su, vs) (int j) = Inr (AList.update ?w (batch_of wu ?w @ [(?t, 1)]) wu, su @ [(?t, 1)], List.insert ?w vs)"
    using Suc.prems assms(1) by (simp add: tally_token_def GetToken_def GetTopic_def batch_of_def)
  moreover have "tally_inv (ps @ take (Suc j) (token_pairs d)) (AList.update ?w (batch_of wu ?w @ [(?t, 1)]) wu, su @ [(?t, 1)], List.insert ?w vs)"
    using IH(2) j by (auto simp: tally_inv_def distinct_update batch_of_update take_Suc_conv_app_nth)
  ultimately show ?case using IH(1) by (simp add: foldM_append)
qed

lemma get_in_order:
  assumes "pl_curr (wm_loader wm) = j" "j < length (pl_docs (wm_loader wm))" "wm_docs_this_unit wm < wm_docs_per_unit wm"
  shows "WM_GetOneDoc in_memory_ops wm = Inr (j, wm\<lparr>wm_docs_this_unit := wm_docs_this_unit wm + 1, wm_loader := (wm_loader wm)\<lparr>pl_curr := j + 1\<rparr>\<rparr>)"
  using assms by (simp add: WM_GetOneDoc_def IsEndOfWorkUnit_def in_memory_ops_def Loader_IsEnd_def Loader_GetOneDoc_def Let_def)

lemma tally_loop_result:
  assumes "\<forall>d \<in> set docs. length (doc_topics d) = length (doc_tokens d)"
  shows "pl_docs (wm_loader wm) = docs \<Longrightarrow> pl_curr (wm_loader wm) = j \<Longrightarrow> j + fuel = length docs \<Longrightarrow> wm_docs_this_unit wm = int j \<Longrightarrow>
    int (length docs) \<le> wm_docs_per_unit wm \<Longrightarrow> tally_inv (concat (map token_pairs (take j docs))) ta \<Longrightarrow>
    \<exists>wm' ta'. tally_loop (Suc fuel) wm ta = Inr (wm', ta') \<and> tally_inv (concat (map token_pairs docs)) ta' \<and> pl_docs (wm_loader wm') = docs \<and>
      wm_docs_per_unit wm' = wm_docs_per_unit wm \<and> wm_docs_per_clock wm' = wm_docs_per_clock wm"
proof (induction fuel arbitrary: j wm ta)
  case 0
  then show ?case by (simp add: IsEndOfAnIter_def in_memory_ops_def Loader_IsEnd_def)
next
  case (Suc fuel)
  have j: "j < length docs" using Suc.prems(3) by simp
  let ?wm = "wm\<lparr>wm_docs_this_unit := wm_docs_this_unit wm + 1, wm_loader := (wm_loader wm)\<lparr>pl_curr := j + 1\<rparr>\<rparr>"
  have g: "WM_GetOneDoc in_memory_ops wm = Inr (j, ?wm)" by (rule get_in_order) (use Suc.prems j in simp_all)
  have l: "length (doc_topics (docs ! j)) = length (doc_tokens (docs ! j))" using assms j by simp
  obtain ta1 where ta1: "foldM (tally_token (docs ! j)) ta (doc_positions (docs ! j)) = Inr ta1"
    "tally_inv (concat (map token_pairs (take j docs)) @ take (length (doc_tokens (docs ! j))) (token_pairs (docs ! j))) ta1"
    using tally_doc [OF l Suc.prems(6) order_refl] by (auto simp: doc_positions_def)
  have "take (length (doc_tokens (docs ! j))) (token_pairs (docs ! j)) = token_pairs (docs ! j)" using l by (simp add: token_pairs_def)
  then have inv: "tally_inv (concat (map token_pairs (take (Suc j) docs))) ta1" using ta1(2) j by (simp add: take_Suc_conv_app_nth)
  have "\<exists>wm' ta'. tally_loop (Suc fuel) ?wm ta1 = Inr (wm', ta') \<and> tally_inv (concat (map token_pairs docs)) ta' \<and> pl_docs (wm_loader wm') = docs \<and>
      wm_docs_per_unit wm' = wm_docs_per_unit ?wm \<and> wm_docs_per_clock wm' = wm_docs_per_clock ?wm"
    by (rule Suc.IH [of ?wm "Suc j"]) (use Suc.prems inv in \<open>simp_all del: tally_loop.simps\<close>)
  moreover have "\<not> IsEndOfAnIter in_memory_ops wm" using Suc.prems(1,2) j by (simp add: IsEndOfAnIter_def in_memory_ops_def Loader_IsEnd_def)
  ultimately show ?case using g ta1(1) Suc.prems(1) j by (simp del: tally_loop.simps add: tally_loop.simps(2) [of "Suc fuel"])
qed

text \<open>The tokens of a list of documents by topic, and by word and topic.\<close>

definition topic_total :: "lda_doc list \<Rightarrow> int \<Rightarrow> int" where
  "topic_total docs k = sum_list (map (\<lambda>d. topic_count d k) docs)"

definition word_total :: "lda_doc list \<Rightarrow> int \<Rightarrow> int \<Rightarrow> int" where
  "word_total docs w k = sum_list (map (\<lambda>d. word_count d w k) docs)"

lemma count_pairs:
  assumes "\<forall>d \<in> set docs. length (doc_topics d) = length (doc_tokens d)"
  shows "int (length (filter (\<lambda>p. p = (w, k)) (concat (map token_pairs docs)))) = word_total docs w k"
    "int (length (filter (\<lambda>p. snd p = k) (concat (map token_pairs docs)))) = topic_total docs k"
proof -
  show "int (length (filter (\<lambda>p. p = (w, k)) (concat (map token_pairs docs)))) = word_total docs w k"
    by (induction docs) (simp_all add: word_total_def word_count_def token_pairs_def)
  have "length (filter (\<lambda>p. snd p = k) (zip xs ys)) = length (filter (\<lambda>t. t = k) ys)" if "length xs = length ys" for xs ys :: "int list"
    using that by (induction xs ys rule: list_induct2) simp_all
  then show "int (length (filter (\<lambda>p. snd p = k) (concat (map token_pairs docs)))) = topic_total docs k"
    using assms by (induction docs) (simp_all add: topic_total_def topic_count_def token_pairs_def)
qed

lemma word_net_batches:
  "distinct (map fst wu) \<Longrightarrow> word_net (map (\<lambda>(w, b). Word_BatchInc w b) wu) w k = batch_net (batch_of wu w) k"
proof (induction wu)
  case (Cons p wu)
  have "map_of wu w = None" if "fst p = w" using Cons.prems that by (auto simp: map_of_eq_None_iff)
  then show ?case using Cons by (cases p) (auto simp: word_net_def batch_of_def)
qed (simp add: word_net_def batch_of_def)

lemma tally_net:
  assumes "tally_inv ps ta"
  shows "word_net (tally_updates ta) w k = int (length (filter (\<lambda>p. p = (w, k)) ps))"
    "summary_net (tally_updates ta) k = int (length (filter (\<lambda>p. snd p = k) ps))"
proof -
  obtain wu su vs where ta: "ta = (wu, su, vs)" by (cases ta)
  have "word_net [Summary_BatchInc su] w k = 0" by (simp add: word_net_def)
  then show "word_net (tally_updates ta) w k = int (length (filter (\<lambda>p. p = (w, k)) ps))"
    using assms word_net_batches [of wu w k] by (simp add: ta tally_updates_def tally_inv_def)
  have "summary_net (map (\<lambda>(w, b). Word_BatchInc w b) wu) k = 0" by (induction wu) (auto simp: summary_net_def)
  then show "summary_net (tally_updates ta) k = int (length (filter (\<lambda>p. snd p = k) ps))"
    using assms by (simp add: ta tally_updates_def tally_inv_def) (simp add: summary_net_def)
qed

section \<open>Every update is accounted for\<close>

text \<open>
  What the thread relies on: random numbers in [0, 1), rows of words that count at least the token in hand, and summary rows that
  count at least its own tokens.  The client gives both, since a thread reads its own updates and the other threads add counts.
\<close>

definition env_ok :: "int \<Rightarrow> lda_env \<Rightarrow> bool" where
  "env_ok K env \<longleftrightarrow> (\<forall>n i. 0 \<le> env_u env n i \<and> env_u env n i < 1) \<and> (\<forall>n d. doc_valid K d \<longrightarrow> rows_ok K d (env_rows env n d)) \<and>
     (\<forall>n docs. length (env_summary env n docs) = nat K \<and> (\<forall>k < nat K. topic_total docs (int k) \<le> env_summary env n docs ! k))"

text \<open>The thread between two documents: the updates so far add up to the counts of the documents as they are now.\<close>

definition thread_inv :: "int \<Rightarrow> lda_doc list \<Rightarrow> lda_doc list \<Rightarrow> lda_thread \<Rightarrow> bool" where
  "thread_inv K docs0 docs th \<longleftrightarrow> map doc_tokens docs = map doc_tokens docs0 \<and> (\<forall>d \<in> set docs. doc_valid K d) \<and>
     params_ok (th_sampler th) \<and> ds_K (th_sampler th) = K \<and>
     (\<forall>k. summary_net (th_updates th) k = topic_total docs k) \<and> (\<forall>w k. word_net (th_updates th) w k = word_total docs w k)"

definition summary_ok :: "lda_doc list \<Rightarrow> lda_thread \<Rightarrow> bool" where
  "summary_ok docs th \<longleftrightarrow> (\<forall>k < topics (th_sampler th). topic_total docs (int k) \<le> ds_summary (th_sampler th) ! k)"

lemma sum_map_update: "i < length xs \<Longrightarrow> sum_list (map f (xs[i := x])) = sum_list (map f xs) + f x - (f (xs ! i) :: int)"
proof (induction xs arbitrary: i)
  case (Cons y xs)
  show ?case
  proof (cases i)
    case (Suc j)
    then show ?thesis using Cons.IH [of j] Cons.prems by simp
  qed simp
qed simp

lemma total_update:
  assumes "i < length docs"
  shows "topic_total (docs[i := d]) k = topic_total docs k + topic_count d k - topic_count (docs ! i) k"
    "word_total (docs[i := d]) w k = word_total docs w k + word_count d w k - word_count (docs ! i) w k"
  unfolding topic_total_def word_total_def by (simp_all add: sum_map_update [OF assms])

lemma total_ge: "d \<in> set docs \<Longrightarrow> topic_count d k \<le> topic_total docs k"
  unfolding topic_total_def by (rule member_le_sum_list) (auto simp: topic_count_def)

lemma refresh_inv:
  assumes "thread_inv K docs0 (pl_docs l) th" "env_ok K env"
  shows "thread_inv K docs0 (pl_docs l) (engine_refresh env l th)" "summary_ok (pl_docs l) (engine_refresh env l th)"
  using assms by (simp_all add: thread_inv_def summary_ok_def engine_refresh_def RefreshCachedSummaryRow_def params_ok_def env_ok_def)

lemma sample_inv:
  assumes inv: "thread_inv K docs0 (pl_docs l) th" "summary_ok (pl_docs l) th" and env: "env_ok K env" and i: "i < length (pl_docs l)"
  shows "\<exists>l' th'. engine_sample env i l th = Inr (l', th') \<and> length (pl_docs l') = length (pl_docs l) \<and> pl_curr l' = pl_curr l \<and>
    thread_inv K docs0 (pl_docs l') th' \<and> summary_ok (pl_docs l') th' \<and> th_clocks th' = th_clocks th"
proof -
  let ?d = "pl_docs l ! i" and ?s = "th_sampler th"
  have d: "?d \<in> set (pl_docs l)" using i by simp
  have v: "doc_valid K ?d" "params_ok ?s" "ds_K ?s = K" using inv(1) d by (simp_all add: thread_inv_def)
  have "topic_count ?d (int k) \<le> ds_summary ?s ! k" if "k < topics ?s" for k
    using total_ge [OF d, of "int k"] inv(2) that by (simp add: summary_ok_def order_trans)
  then have r: "ready ?d ?s" using v by (simp add: ready_def)
  have rows: "rows_ok (ds_K ?s) ?d (env_rows env (th_docs th) ?d)" using env v(1,3) by (simp add: env_ok_def)
  have u: "\<forall>j. 0 \<le> env_u env (th_docs th) j \<and> env_u env (th_docs th) j < 1" using env by (simp add: env_ok_def)
  obtain d' s' us where s': "SampleOneDoc (env_u env (th_docs th)) (env_rows env (th_docs th) ?d) ?d ?s = Inr (d', s', us)"
    "doc_inv ?d ?s (length (doc_tokens ?d)) (d', s', us)" using SampleOneDoc_inv [OF r rows u] by (metis prod_cases3)
  let ?l = "l\<lparr>pl_docs := (pl_docs l)[i := d']\<rparr>"
  let ?th = "th\<lparr>th_sampler := s', th_updates := th_updates th @ us, th_docs := th_docs th + 1\<rparr>"
  have run: "engine_sample env i l th = Inr (?l, ?th)" using s'(1) i by (simp add: engine_sample_def)
  note f = s'(2) [unfolded doc_inv_def prod.case]
  have "map doc_tokens ((pl_docs l)[i := d']) = map doc_tokens docs0"
    using inv(1) f i by (simp add: thread_inv_def map_update) (metis list_update_id map_update nth_map)
  moreover have "\<forall>d \<in> set ((pl_docs l)[i := d']). doc_valid K d"
    using inv(1) f v(3) by (auto simp: thread_inv_def dest!: set_update_subset_insert [THEN subsetD])
  ultimately have t: "thread_inv K docs0 (pl_docs ?l) ?th" using inv(1) f v(3) by (simp add: thread_inv_def total_update [OF i])
  have "summary_ok (pl_docs ?l) ?th" using inv(2) f v(3) by (simp add: summary_ok_def total_update [OF i] add_diff_eq add_mono diff_mono)
  then show ?thesis using run t by simp
qed

lemma clock_inv:
  assumes "thread_inv K docs0 (pl_docs l) th" "env_ok K env"
  shows "thread_inv K docs0 (pl_docs l) (engine_clock env l th)" "summary_ok (pl_docs l) (engine_clock env l th)"
    "th_clocks (engine_clock env l th) = th_clocks th + 1"
  using refresh_inv [of K docs0 l "th\<lparr>th_clocks := th_clocks th + 1\<rparr>" env] assms
  by (simp_all add: engine_clock_def thread_inv_def engine_refresh_def)

lemma unit_inv:
  assumes inv: "thread_inv K docs0 (pl_docs (wm_loader wm)) th" "summary_ok (pl_docs (wm_loader wm)) th" and env: "env_ok K env"
    and n: "0 < length (pl_docs (wm_loader wm))" "wm_docs_per_unit wm = int D" "wm_docs_per_clock wm = int p" "0 < p"
  shows "\<exists>wm' th'. work_unit in_memory_ops (engine_sample env) (engine_clock env) wm th = Inr (wm', th') \<and>
    thread_inv K docs0 (pl_docs (wm_loader wm')) th' \<and> summary_ok (pl_docs (wm_loader wm')) th' \<and> th_clocks th' = th_clocks th + D div p \<and>
    mem.same_unit wm wm' \<and> length (pl_docs (wm_loader wm')) = length (pl_docs (wm_loader wm))"
proof -
  let ?n = "length (pl_docs (wm_loader wm))" and ?wm = "RestartWorkUnit in_memory_ops wm"
  let ?Q = "\<lambda>j l th'. thread_inv K docs0 (pl_docs l) th' \<and> summary_ok (pl_docs l) th' \<and> th_clocks th' = th_clocks th + j div p"
  have r: "mem.at_doc ?n 0 ?wm" "mem.same_unit wm ?wm" "pl_docs (wm_loader ?wm) = pl_docs (wm_loader wm)"
    using mem.restart_unit [of wm] n(1) by (simp_all add: RestartWorkUnit_def in_memory_ops_def Loader_Restart_def)
  have step: "\<exists>l' s'. engine_sample env (j mod ?n) l s = Inr (l', s') \<and> length (pl_docs l') = ?n \<and> pl_curr l' = pl_curr l \<and>
      ?Q (Suc j) l' (if int (Suc j) mod int p = 0 then engine_clock env l' s' else s')" if q: "?Q j l s" "length (pl_docs l) = ?n" for j l s
  proof -
    obtain l' s' where s': "engine_sample env (j mod ?n) l s = Inr (l', s')" "length (pl_docs l') = ?n" "pl_curr l' = pl_curr l"
      "thread_inv K docs0 (pl_docs l') s'" "summary_ok (pl_docs l') s'" "th_clocks s' = th_clocks s"
      using sample_inv [of K docs0 l s env "j mod ?n"] q env n(1) by auto
    have "int (Suc j) mod int p = 0 \<longleftrightarrow> Suc j mod p = 0" by (simp add: zmod_int [symmetric] del: of_nat_Suc)
    then show ?thesis using s' clock_inv [OF s'(4) env] q(1) n(4) by (simp add: div_Suc del: of_nat_Suc)
  qed
  have "\<exists>wm' s'. work_unit_loop in_memory_ops (engine_sample env) (engine_clock env) (Suc D) ?wm th = Inr (wm', s') \<and>
      ?Q (nat (int D)) (wm_loader wm') s' \<and> mem.same_unit ?wm wm' \<and> length (pl_docs (wm_loader wm')) = ?n"
  proof (rule mem.loop_invariant [where j = 0 and per = "int p" and D = "int D" and Q = ?Q])
    show "\<exists>l' s'. engine_sample env (j mod ?n) l s = Inr (l', s') \<and> length (pl_docs l') = ?n \<and> pl_curr l' = pl_curr l \<and>
      ?Q (Suc j) l' (if int (Suc j) mod int p = 0 then engine_clock env l' s' else s')" if "?Q j l s" "length (pl_docs l) = ?n" for j l s
      using that by (rule step)
    show "?Q j l' s" if "?Q j l s" "lo_GetOneDoc in_memory_ops l = Inr (k, l')" for j l l' s k
      using that by (auto simp: in_memory_ops_def Loader_GetOneDoc_def rbind_eq_Inr)
    show "?Q j (lo_Restart in_memory_ops l) s" if "?Q j l s" for j l s using that by (simp add: in_memory_ops_def Loader_Restart_def)
  qed (use n r inv in \<open>simp_all add: mem.same_unit_def\<close>)
  then show ?thesis using n(2) r(2) by (auto simp: work_unit_def Let_def mem.same_unit_def simp del: work_unit_loop.simps)
qed

lemma units_inv:
  assumes env: "env_ok K env"
  shows "thread_inv K docs0 (pl_docs (wm_loader wm)) th \<Longrightarrow> 0 < length (pl_docs (wm_loader wm)) \<Longrightarrow> wm_docs_per_unit wm = int D \<Longrightarrow>
    wm_docs_per_clock wm = int p \<Longrightarrow> 0 < p \<Longrightarrow>
    \<exists>wm' th'. work_units env m wm th = Inr (wm', th') \<and> thread_inv K docs0 (pl_docs (wm_loader wm')) th' \<and> th_clocks th' = th_clocks th + m * (D div p)"
proof (induction m arbitrary: wm th)
  case (Suc m)
  let ?th = "engine_refresh env (wm_loader wm) th"
  note r = refresh_inv [OF Suc.prems(1) env]
  obtain wm1 th1 where 1: "work_unit in_memory_ops (engine_sample env) (engine_clock env) wm ?th = Inr (wm1, th1)"
    "thread_inv K docs0 (pl_docs (wm_loader wm1)) th1" "th_clocks th1 = th_clocks ?th + D div p" "mem.same_unit wm wm1"
    "length (pl_docs (wm_loader wm1)) = length (pl_docs (wm_loader wm))"
    using unit_inv [OF r env Suc.prems(2-5)] by auto
  have "th_clocks ?th = th_clocks th" by (simp add: engine_refresh_def)
  then show ?case using 1 Suc.IH [OF 1(2)] Suc.prems by (simp add: mem.same_unit_def add.assoc)
qed simp

text \<open>
  C18. A worker thread keeps the two tables of the topic model right.  Its run of tally and work units ends without a failure, and all the updates it has
  issued add up, for each topic, to the number of its tokens with that topic, and for each word and topic to the number
  of tokens of the word with the topic, whatever topics have been drawn.  The documents keep their words.
\<close>

theorem lda_tables_count_topics:
  assumes "env_ok K env" "docs \<noteq> []" "\<forall>d \<in> set docs. doc_valid K d" "params_ok sampler" "ds_K sampler = K" "0 < iters" "0 < num_clocks"
  shows "\<exists>wm th. Engine_Start env units (int iters) (int num_clocks) sampler (InMemoryPartitionDocLoader part docs) = Inr (wm, th) \<and>
    map doc_tokens (pl_docs (wm_loader wm)) = map doc_tokens docs \<and> (\<forall>d \<in> set (pl_docs (wm_loader wm)). doc_valid K d) \<and>
    (\<forall>k. summary_net (th_updates th) k = topic_total (pl_docs (wm_loader wm)) k) \<and>
    (\<forall>w k. word_net (th_updates th) w k = word_total (pl_docs (wm_loader wm)) w k) \<and> th_clocks th \<le> units * num_clocks"
proof -
  let ?l = "InMemoryPartitionDocLoader part docs" and ?D = "iters * length docs"
  define p where "p = nat (- ((- int ?D) div int num_clocks))"
  have D: "0 < ?D" using assms(2,6) by simp
  have q: "0 < - ((- int ?D) div int num_clocks)" using D assms(7) by (simp add: pos_imp_zdiv_neg_iff)
  have p: "- ((- int ?D) div int num_clocks) = int p" "0 < p" using q unfolding p_def by linarith+
  obtain wm where wm: "WorkloadManager in_memory_ops ?l (int iters) (int num_clocks) = Inr wm" "wm_loader wm = ?l" "wm_docs_per_unit wm = int ?D"
    "wm_docs_per_clock wm = int p" "wm_docs_this_unit wm = 0" using assms(7) p(1)
    by (simp add: WorkloadManager_def ceil_quot_def in_memory_ops_def Loader_GetNumDocs_def InMemoryPartitionDocLoader_def Let_def)
  have len: "\<forall>d \<in> set docs. length (doc_topics d) = length (doc_tokens d)" using assms(3) by (simp add: doc_valid_def)
  have le: "int (length docs) \<le> int ?D" using assms(6) by (cases iters) simp_all
  obtain wm1 ta where t: "tally_loop (length docs + 1) wm ([], [], []) = Inr (wm1, ta)" "tally_inv (concat (map token_pairs docs)) ta"
    "pl_docs (wm_loader wm1) = docs" "wm_docs_per_unit wm1 = int ?D" "wm_docs_per_clock wm1 = int p"
    using tally_loop_result [OF len, of wm 0 "length docs" "([], [], [])"] wm le
    by (auto simp: InMemoryPartitionDocLoader_def tally_inv_def batch_of_def simp del: tally_loop.simps)
  let ?th = "\<lparr>th_sampler = sampler, th_updates = tally_updates ta, th_docs = 0, th_clocks = 0\<rparr>"
  have inv: "thread_inv K docs (pl_docs (wm_loader wm1)) ?th"
    using assms(3-5) t(3) tally_net [OF t(2)] count_pairs [OF len] by (simp add: thread_inv_def)
  obtain wm2 th where r: "work_units env units wm1 ?th = Inr (wm2, th)" "thread_inv K docs (pl_docs (wm_loader wm2)) th"
    "th_clocks th = units * (?D div p)" using units_inv [OF assms(1) inv _ t(4,5) p(2), of units] t(3) assms(2) by auto
  have "Engine_Start env units (int iters) (int num_clocks) sampler ?l = Inr (wm2, th)"
    using wm(1) t(1) r(1) by (simp add: Engine_Start_def InMemoryPartitionDocLoader_def del: tally_loop.simps)
  moreover have "?D div p \<le> num_clocks" using quot_of_ceil [OF assms(7) D] by (simp add: p_def)
  ultimately show ?thesis using r(2,3) by (simp add: thread_inv_def)
qed

definition example_env :: lda_env where
  "example_env = \<lparr>env_u = \<lambda>n i. 1 / 3, env_rows = \<lambda>n d i. [(doc_topics d ! i, 1)],
     env_summary = \<lambda>n docs. map (\<lambda>k. topic_total docs (int k)) [0..<2]\<rparr>"

theorem lda_tables_count_topics_witness:
  "\<exists>wm th. Engine_Start example_env 3 (int 2) (int 1) example_sampler (InMemoryPartitionDocLoader 0 [example_doc, example_doc]) = Inr (wm, th) \<and>
    map doc_tokens (pl_docs (wm_loader wm)) = map doc_tokens [example_doc, example_doc] \<and> (\<forall>d \<in> set (pl_docs (wm_loader wm)). doc_valid 2 d) \<and>
    (\<forall>k. summary_net (th_updates th) k = topic_total (pl_docs (wm_loader wm)) k) \<and>
    (\<forall>w k. word_net (th_updates th) w k = word_total (pl_docs (wm_loader wm)) w k) \<and> th_clocks th \<le> 3 * 1"
proof (rule lda_tables_count_topics)
  show "env_ok 2 example_env" by (auto simp: env_ok_def example_env_def rows_ok_def row_ok_def doc_valid_def)
qed (simp_all add: example_evals example_doc_def doc_valid_def)

section \<open>Ranges of words\<close>

text \<open>The ranges of the threads follow one another and cover the words from 0 to the largest.\<close>

lemma vocab_ranges:
  assumes "0 < clients" "0 < threads" "vocab_range clients threads m client thread = Inr (a, b)"
  shows "client = 0 \<Longrightarrow> thread = 0 \<Longrightarrow> a = 0"
    and "thread < threads - 1 \<Longrightarrow> vocab_range clients threads m client (thread + 1) = Inr (a', b') \<Longrightarrow> a' = b"
    and "thread = threads - 1 \<Longrightarrow> client < clients - 1 \<Longrightarrow> vocab_range clients threads m (client + 1) 0 = Inr (a', b') \<Longrightarrow> a' = b"
    and "client = clients - 1 \<Longrightarrow> thread = threads - 1 \<Longrightarrow> b = m + 1"
  using assms by (auto simp: vocab_range_def Let_def algebra_simps split: if_splits)

end
