(* ===== verification/LDA_Stats.thy ===== *)
theory LDA_Stats
imports LDA_Engine
begin

text \<open>
  The log likelihood of the topic model (src/apps/lda/src/lda_stats.cpp, \<open>LogGamma\<close> of utils.cpp, \<open>LDAEngine::ComputeLLH\<close>).  Floating-point numbers are real
  numbers; the logarithm of a number that is not positive is not one and is treated as undefined, so that the tests for NaN
  always succeed.  The additions to the likelihood table are part of the results.
\<close>

section \<open>The logarithm of the gamma function\<close>

definition c_log :: "real \<Rightarrow> real result" where
  "c_log x = (if x \<le> 0 then Inl (Undefined ''log'') else Inr (ln x))"

definition cof :: "real list" where
  "cof = [76.18009172947146, -86.50532032941677, 24.01409824083091, -1.231739572450155, 0.001208650973866179, -0.000005395239384953]"

fun ser_loop :: "real \<Rightarrow> real \<Rightarrow> real list \<Rightarrow> real result" where
  "ser_loop y ser [] = Inr ser"
| "ser_loop y ser (c # cs) = rbind (rdiv c (y + 1)) (\<lambda>q. ser_loop (y + 1) (ser + q) cs)"

definition LogGamma :: "real \<Rightarrow> real result" where
  "LogGamma xx =
     rbind (c_log (xx + 5.5)) (\<lambda>l.
     let tmp1 = (xx + 5.5) - (xx + 0.5) * l in
     rbind (ser_loop xx 1.000000000190015 cof) (\<lambda>ser.
     rbind (rdiv (2.5066282746310005 * ser) xx) (\<lambda>q.
     rbind (c_log q) (\<lambda>l. Inr (- tmp1 + l)))))"

section \<open>Precomputed values\<close>

definition kNumLogGammaAlpha :: nat where "kNumLogGammaAlpha = 100000"
definition kNumLogGammaAlphaSum :: nat where "kNumLogGammaAlphaSum = 10000"
definition kNumLogGammaBeta :: nat where "kNumLogGammaBeta = 1000000"

record lda_stats =
  st_K :: int
  st_V :: int
  st_alpha :: real
  st_alpha_sum :: real
  st_beta :: real
  st_beta_sum :: real
  st_alpha_offset :: "real list"
  st_alpha_sum_offset :: "real list"
  st_beta_offset :: "real list"
  st_doc_normalizer :: real
  st_topic_normalizer :: real

definition gamma_table :: "nat \<Rightarrow> real \<Rightarrow> real list result" where
  "gamma_table n a = mapM (\<lambda>i. LogGamma (real i + a)) [0..<n]"

definition LDAStats :: "int \<Rightarrow> int \<Rightarrow> real \<Rightarrow> real \<Rightarrow> lda_stats result" where
  "LDAStats K V alpha beta =
     rbind (check (V \<noteq> - 1) ''V_ != -1'') (\<lambda>_.
     let beta_sum = beta * V; alpha_sum = K * alpha in
     rbind (gamma_table kNumLogGammaAlpha alpha) (\<lambda>ta.
     rbind (gamma_table kNumLogGammaAlphaSum alpha_sum) (\<lambda>tas.
     rbind (gamma_table kNumLogGammaBeta beta) (\<lambda>tb.
     rbind (LogGamma alpha_sum) (\<lambda>gas.
     rbind (LogGamma alpha) (\<lambda>ga.
     rbind (LogGamma beta_sum) (\<lambda>gbs.
     rbind (LogGamma beta) (\<lambda>gb.
     Inr \<lparr>st_K = K, st_V = V, st_alpha = alpha, st_alpha_sum = alpha_sum, st_beta = beta, st_beta_sum = beta_sum, st_alpha_offset = ta,
       st_alpha_sum_offset = tas, st_beta_offset = tb, st_doc_normalizer = gas - K * ga, st_topic_normalizer = K * (gbs - V * gb)\<rparr>))))))))"

definition table_or_compute :: "nat \<Rightarrow> real list \<Rightarrow> real \<Rightarrow> int \<Rightarrow> real result" where
  "table_or_compute n tab a val = (if val < int n then vec_at tab val else LogGamma (real_of_int val + a))"

definition GetLogGammaAlphaOffset :: "lda_stats \<Rightarrow> int \<Rightarrow> real result" where
  "GetLogGammaAlphaOffset st val = table_or_compute kNumLogGammaAlpha (st_alpha_offset st) (st_alpha st) val"

definition GetLogGammaAlphaSumOffset :: "lda_stats \<Rightarrow> int \<Rightarrow> real result" where
  "GetLogGammaAlphaSumOffset st val = table_or_compute kNumLogGammaAlphaSum (st_alpha_sum_offset st) (st_alpha_sum st) val"

definition GetLogGammaBetaOffset :: "lda_stats \<Rightarrow> int \<Rightarrow> real result" where
  "GetLogGammaBetaOffset st val = table_or_compute kNumLogGammaBeta (st_beta_offset st) (st_beta st) val"

section \<open>Likelihoods\<close>

definition doc_vector :: "lda_stats \<Rightarrow> lda_doc \<Rightarrow> int list result" where
  "doc_vector st d = foldM (\<lambda>v i. rbind (GetTopic d i) (\<lambda>t. rbind (vec_at v t) (\<lambda>c. vec_set t (c + 1) v))) (replicate (nat (st_K st)) 0) (doc_positions d)"

definition ComputeOneDocLLH :: "lda_stats \<Rightarrow> lda_doc \<Rightarrow> real result" where
  "ComputeOneDocLLH st d =
     rbind (doc_vector st d) (\<lambda>v.
     rbind (foldM (\<lambda>llh k. rbind (vec_at v k) (\<lambda>c. rbind (check (0 \<le> c) ''negative doc_topic_vec[k]'') (\<lambda>_.
       rbind (GetLogGammaAlphaOffset st c) (\<lambda>g. Inr (llh + g))))) (st_doc_normalizer st) (map int [0..<nat (st_K st)])) (\<lambda>llh.
     rbind (GetLogGammaAlphaSumOffset st (int (GetNumTokens d))) (\<lambda>g.
     let llh = llh - g in
     rbind (check (llh \<le> 0) ''LLH of a doc cannot be positive.'') (\<lambda>_. Inr llh))))"

definition word_llh :: "lda_stats \<Rightarrow> (int \<times> int) list \<Rightarrow> real \<Rightarrow> real result" where
  "word_llh st row llh =
     (if row = [] then Inr llh
      else rbind (foldM (\<lambda>llh (_, c). rbind (check (0 \<le> c) ''negative count.'') (\<lambda>_. rbind (GetLogGammaBetaOffset st c) (\<lambda>g. Inr (llh + g)))) llh row) (\<lambda>llh.
        rbind (GetLogGammaBetaOffset st 0) (\<lambda>z. Inr (llh + (st_K st - int (length row)) * z))))"

text \<open>Additions to the likelihood table: row, column, value.\<close>

definition kColIdxLLHTableIter :: int where "kColIdxLLHTableIter = 0"
definition kColIdxLLHTableLLH :: int where "kColIdxLLHTableLLH = 1"
definition kColIdxLLHTableTime :: int where "kColIdxLLHTableTime = 2"

type_synonym llh_inc = "int \<times> int \<times> real"

definition ComputeWordLLH :: "lda_stats \<Rightarrow> (int \<Rightarrow> (int \<times> int) list) \<Rightarrow> int \<Rightarrow> int \<Rightarrow> int \<Rightarrow> llh_inc result" where
  "ComputeWordLLH st rows ith_llh word_idx_start word_idx_end =
     rbind (foldM (\<lambda>llh w. word_llh st (rows w) llh) 0 (map (\<lambda>i. word_idx_start + int i) [0..<nat (word_idx_end - word_idx_start)])) (\<lambda>llh.
     Inr (ith_llh, kColIdxLLHTableLLH, llh))"

definition ComputeWordLLHSummary :: "lda_stats \<Rightarrow> int list \<Rightarrow> int \<Rightarrow> int \<Rightarrow> llh_inc list result" where
  "ComputeWordLLHSummary st summary ith_llh iter =
     rbind (foldM (\<lambda>llh k. rbind (vec_at summary k) (\<lambda>n. rbind (LogGamma (real_of_int n + st_beta_sum st)) (\<lambda>g. Inr (llh - g))))
       (st_topic_normalizer st) (map int [0..<nat (st_K st)])) (\<lambda>llh.
     Inr [(ith_llh, kColIdxLLHTableLLH, llh), (ith_llh, kColIdxLLHTableIter, real_of_int iter)])"

definition SetTime :: "int \<Rightarrow> real \<Rightarrow> llh_inc" where
  "SetTime ith_llh time_in_sec = (ith_llh, kColIdxLLHTableTime, time_in_sec)"

fun doc_llh_loop :: "lda_stats \<Rightarrow> nat \<Rightarrow> partition_loader workload_mgr \<Rightarrow> real \<Rightarrow> (partition_loader workload_mgr \<times> real) result" where
  "doc_llh_loop st 0 wm llh = Inl OutOfFuel"
| "doc_llh_loop st (Suc fuel) wm llh =
     (if IsEndOfAnIter in_memory_ops wm then Inr (wm, llh)
      else rbind (WM_GetOneDoc in_memory_ops wm) (\<lambda>(doc, wm).
        rbind (vec_at (pl_docs (wm_loader wm)) (int doc)) (\<lambda>d.
        rbind (ComputeOneDocLLH st d) (\<lambda>g. doc_llh_loop st fuel wm (llh + g)))))"

definition ComputeLLH ::
  "lda_stats \<Rightarrow> (int \<Rightarrow> (int \<times> int) list) \<Rightarrow> int list \<Rightarrow> real \<Rightarrow> int \<Rightarrow> int \<Rightarrow> int \<Rightarrow> int \<Rightarrow> int \<Rightarrow> int \<Rightarrow> int \<Rightarrow> partition_loader workload_mgr \<Rightarrow>
   (llh_inc list \<times> partition_loader workload_mgr) result" where
  "ComputeLLH st rows summary time ith_llh iter client clients thread vocab_start vocab_end wm =
     (let wm = RestartWorkUnit in_memory_ops wm in
      rbind (doc_llh_loop st (length (pl_docs (wm_loader wm)) + 1) wm 0) (\<lambda>(wm, llh).
      rbind (c_mod ith_llh clients) (\<lambda>turn.
      rbind (ComputeWordLLH st rows ith_llh vocab_start vocab_end) (\<lambda>w.
      if turn = client \<and> thread = 0 then
        rbind (ComputeWordLLHSummary st summary ith_llh iter) (\<lambda>ws.
        Inr ((ith_llh, kColIdxLLHTableLLH, llh) # w # ws @ [SetTime ith_llh time], wm))
      else Inr ([(ith_llh, kColIdxLLHTableLLH, llh), w], wm)))))"

section \<open>The tables hold what they stand for\<close>

lemma mapM_nth: "mapM f xs = Inr ys \<Longrightarrow> i < length xs \<Longrightarrow> f (xs ! i) = Inr (ys ! i)"
  by (induction xs arbitrary: ys i) (auto simp: rbind_eq_Inr nth_Cons split: nat.splits)

lemma table_exact:
  assumes "gamma_table n a = Inr tab" "0 \<le> val"
  shows "table_or_compute n tab a val = LogGamma (real_of_int val + a)"
proof (cases "val < int n")
  case True
  then have "LogGamma (real ([0..<n] ! nat val) + a) = Inr (tab ! nat val)"
    using mapM_nth [OF assms(1) [unfolded gamma_table_def], of "nat val"] assms(2) by simp
  moreover have "length tab = n" using mapM_length [OF assms(1) [unfolded gamma_table_def]] by simp
  ultimately show ?thesis using True assms(2) by (simp add: table_or_compute_def vec_at_def)
qed (simp add: table_or_compute_def)

lemma LDAStats_tables:
  assumes "LDAStats K V alpha beta = Inr st"
  shows "gamma_table kNumLogGammaAlpha (st_alpha st) = Inr (st_alpha_offset st)"
    "gamma_table kNumLogGammaAlphaSum (st_alpha_sum st) = Inr (st_alpha_sum_offset st)"
    "gamma_table kNumLogGammaBeta (st_beta st) = Inr (st_beta_offset st)" "st_K st = K"
  using assms by (auto simp: LDAStats_def Let_def rbind_eq_Inr check_eq_Inr)

text \<open>The offsets that are looked up are those that would be computed.\<close>

lemma offsets_exact:
  assumes "LDAStats K V alpha beta = Inr st" "0 \<le> val"
  shows "GetLogGammaAlphaOffset st val = LogGamma (real_of_int val + st_alpha st)"
    "GetLogGammaAlphaSumOffset st val = LogGamma (real_of_int val + st_alpha_sum st)"
    "GetLogGammaBetaOffset st val = LogGamma (real_of_int val + st_beta st)"
  using LDAStats_tables [OF assms(1)] assms(2)
  by (simp_all add: GetLogGammaAlphaOffset_def GetLogGammaAlphaSumOffset_def GetLogGammaBetaOffset_def table_exact)

text \<open>The likelihood of a document as a formula over its counts.\<close>

lemma sum_loop:
  assumes "\<And>k. k < n \<Longrightarrow> f (int k) = Inr (g k)"
  shows "foldM (\<lambda>llh k. rbind (f k) (\<lambda>x. Inr (llh + x))) a (map int [0..<n]) = Inr (a + (\<Sum>k < n. g k :: real))"
  using assms by (induction n) (simp_all add: foldM_append add.assoc)

lemma one_doc_llh:
  assumes st: "LDAStats K V alpha beta = Inr st" and d: "doc_valid K d"
    and g: "\<And>k. k < nat K \<Longrightarrow> LogGamma (real_of_int (topic_count d (int k)) + st_alpha st) = Inr (g k)"
      "LogGamma (real (GetNumTokens d) + st_alpha_sum st) = Inr t"
  shows "ComputeOneDocLLH st d = (let llh = st_doc_normalizer st + (\<Sum>k < nat K. g k) - t in
    rbind (check (llh \<le> 0) ''LLH of a doc cannot be positive.'') (\<lambda>_. Inr llh))"
proof -
  have K: "st_K st = K" using LDAStats_tables [OF st] by simp
  let ?v = "map (\<lambda>k. topic_count d (int k)) [0..<nat K]"
  have "doc_vector st d = Inr (map (\<lambda>k. replicate (nat K) 0 ! k + int (length (filter (\<lambda>t. t = int k) (take (length (doc_tokens d)) (doc_topics d))))) [0..<nat K])"
    using doc_vector_loop [OF d, of "replicate (nat K) 0", OF _ order_refl] by (simp add: doc_vector_def doc_positions_def K)
  also have "\<dots> = Inr ?v" using d by (simp add: topic_count_def doc_valid_def)
  finally have v: "doc_vector st d = Inr ?v" .
  let ?f = "\<lambda>k. rbind (vec_at ?v k) (\<lambda>c. rbind (check (0 \<le> c) ''negative doc_topic_vec[k]'') (\<lambda>_. GetLogGammaAlphaOffset st c))"
  have f: "?f (int k) = Inr (g k)" if "k < nat K" for k
    using offsets_exact(1) [OF st, of "topic_count d (int k)"] g(1) [OF that] that by (simp add: topic_count_def)
  have "foldM (\<lambda>llh k. rbind (?f k) (\<lambda>x. Inr (llh + x))) (st_doc_normalizer st) (map int [0..<nat K]) = Inr (st_doc_normalizer st + (\<Sum>k < nat K. g k))"
    using f by (rule sum_loop)
  then show ?thesis using v offsets_exact(2) [OF st, of "int (GetNumTokens d)"] g(2) by (simp add: ComputeOneDocLLH_def K rbind_assoc Let_def)
qed

end
