(* ===== verification/Spec2Isabelle.thy ===== *)
theory Spec2Isabelle
imports Server_Thread_Proofs Storage_Proofs Request_Proofs Sorted_Row Client_Fetch Name_Node_Proofs Message_Proofs Single_Node_Clocks Thread_Flush Push_Loop Comm_Bus_Proofs Strads_Cycle Strads_Commands Vector_Clock_MT Locks Msg_Tracker LDA_Stats
begin

text \<open>
  Verification of the Petuum parameter server (src/src/petuum_ps and src/src/petuum_ps_common), its single-node variant
  (src/src/petuum_ps_sn), the scheduling part of the Strads runtime (src/strads) and the topic model that runs on the parameter
  server (src/apps/lda).

  The parameter server. A table is a set of rows, split over servers by row id. Each client process has
  application threads, which read and increment rows through tables, and background threads, which talk to
  the servers. An increment goes to a cached copy of the row and to an oplog; at a clock the background
  thread packs the oplogs of its rows into one message per server, with a 32-bit version, and the server adds
  them to its rows. The server's clock is the minimum over all clients; a read with clock \<open>c\<close> and staleness
  \<open>s\<close> needs a row of clock at least \<open>c - s\<close>, and a server delays its answer until its own clock has
  come that far. Under SSPPush the servers push changed rows at each clock instead. A name node tells the servers which tables
  to create. The single-node variant keeps the tables in one process, optionally on disk.

  Strads. A coordinator, scheduler machines and workers optimise a model whose tasks are divided over scheduler threads. Each
  thread draws tasks by weight, drops those whose data columns are correlated with one it keeps, and sends the rest as a phase;
  the coordinator has the phase executed and answers with the new weights of its tasks.

  The topic model. Worker threads draw topics for the tokens of their documents and count them in two tables of the parameter server: tokens
  per topic, and per word and topic.

  Conventions. A failed CHECK, a fatal log and undefined behaviour are values of the type \<open>error\<close> in
  \<open>Prelude\<close>; an operation that may fail returns \<open>error + 'a\<close>, and waiting for a message that never comes is the
  error \<open>Blocked\<close>. \<open>int32_t\<close> counters are mathematical integers unless they wrap in the code's own logic;
  versions are 32-bit words, message memory is a list of bytes with checked bounds. Shared pointers are addresses in
  explicit heaps. Locks make each operation one step; where another thread may act in between, its effect is an
  argument. External code is an argument with its documented laws as a locale: the cuckoo hash map (\<open>Cuckoo\<close>), LevelDB,
  ZeroMQ (\<open>zmq_router\<close> in \<open>Comm_Bus_Proofs\<close>), POSIX locks, the element type of rows (a group with a fixed-size image). Outside
  \<open>Comm_Bus\<close> a thread is a function of the sequence of messages it receives and yields the messages it sends.

  Theories, in the order of the code.

  \<^item> \<open>Prelude\<close>, \<open>Bytes\<close>, \<open>Cuckoo\<close>: results, sorted maps, byte images of integers, the hash map contract.
  \<^item> \<open>Vector_Clock\<close> (util/vector_clock.cpp): ticks and the cached minimum; \<open>Vector_Clock_MT\<close> (util/vector_clock_mt.cpp): the calls of several
    threads with the lock and the single reads and writes in between; every interleaving has the effect of the calls one after the other.
  \<^item> \<open>Context\<close> (thread/context.hpp, include/configs.hpp, util/utils.cpp): thread ids, partition of rows, host file.
  \<^item> \<open>Rows\<close>, \<open>Sorted_Row\<close> (storage/*_row.hpp): the row classes as records of operations; the locale \<open>additive_row\<close> is
    what the other components need of a row class, interpreted for dense, sparse and sorted rows.
  \<^item> \<open>Oplog\<close> (oplog/): row oplogs, partitions, the index; pending updates are conserved.
  \<^item> \<open>Oplog_Serial\<close>, \<open>Oplog_Roundtrip\<close> (bg_oplog_partition.cpp, serialized_oplog_reader.hpp, CreateOpLogMsgs): the message
    layout byte by byte; what is packed is what is read.
  \<^item> \<open>Server\<close>, \<open>Server_Push\<close>, \<open>Server_Proofs\<close>, \<open>Server_Oplog\<close> (server/): rows, subscriptions, tables, snapshots, clocks,
    applying a message, packing pushed rows; a message adds exactly the packed updates.
  \<^item> \<open>Server_Thread\<close>, \<open>Server_Thread_Proofs\<close> (server/server_threads.cpp): every handler and the main loop; each row request is
    answered exactly once, not before the server clock allows.
  \<^item> \<open>Version_Mgr\<close> (thread/server_version_mgr.cpp): versions that wrap refine unbounded ones.
  \<^item> \<open>Request_Mgr\<close>, \<open>Request_Proofs\<close> (thread/*row_request_oplog_mgr.cpp): pending requests and the oplogs kept for their replies.
  \<^item> \<open>Process_Storage\<close>, \<open>Storage_Proofs\<close> (storage/clock_lru.cpp, process_storage.cpp): the bounded row cache with CLOCK
    replacement; the fuel of the eviction loop is two rounds of the hand, which is shown to be enough.
  \<^item> \<open>Client_Table\<close>, \<open>Consistency\<close>, \<open>Table_Group\<close> (client/, consistency/): thread cache, table, SSP and SSPPush controllers, table
    group; \<open>Client_Proofs\<close> and \<open>Client_Updates\<close> (locale \<open>client_rows\<close>) show that no update is lost on the client, \<open>Client_Reads\<close>
    that reads are fresh enough and show the thread's own updates.
  \<^item> \<open>Bg_Worker\<close>, \<open>Bg_Main\<close> (thread/bg_workers.cpp): the background thread, all its handlers and its main loop; \<open>Clock_Proofs\<close> shows
    that a clock delivers the pending updates to the servers, \<open>Bg_Rows\<close> that a received row is completed with the updates the
    server has not seen, \<open>Client_Fetch\<close> that a read that misses sends a request over the modelled background thread to the modelled
    server and returns with the row. The fuel of the loop over versions is the number of versions in between; the locale
    \<open>version_iter\<close> is the contract of the iteration, interpreted for both request managers.
  \<^item> \<open>Name_Node\<close>, \<open>Name_Node_Proofs\<close> (server/name_node_thread.cpp): every handler and the main loop; each server is told once to
    create each table.
  \<^item> \<open>Messages\<close>, \<open>Message_Codec\<close>, \<open>Message_Proofs\<close> (thread/ps_msgs.hpp, msg_base.hpp, mem_transfer.hpp): the layout of every message,
    its memory and its owners; a message arrives with the contents it was built with.
  \<^item> \<open>Push_Reader\<close>, \<open>Push_Proofs\<close>, \<open>Push_Loop\<close> (server/server.cpp, thread/serialized_row_reader.hpp): packing of pushed rows into messages
    of fixed size and their reader; the loop ends, with as much fuel as there are rows to deliver, if every row fits.
  \<^item> \<open>Comm_Bus\<close>, \<open>Comm_Bus_Proofs\<close> (comm_bus/): sockets of a process, connecting, sending and receiving over ZeroMQ; a
    conversation of two threads of a process, which respects the high-water mark of a socket, delivers every message. The fuel of
    the retry loop is the number of attempts until the connection is set up.
  \<^item> \<open>Msg_Tracker\<close> (thread/msg_tracker.cpp): a sliding window over numbered messages, which is kept also when the numbers wrap.
  \<^item> \<open>Locks\<close> (util/lock.cpp, striped_lock.hpp): the mutexes over the read-write lock of POSIX (locale \<open>posix_rwlock\<close>), with mutual exclusion
    in every interleaving.
  \<^item> \<open>Single_Node\<close>, \<open>Single_Node_Clocks\<close>, \<open>Out_Of_Core\<close>, \<open>Thread_Flush\<close> (src/src/petuum_ps_sn): contexts, clocks, thread cache, tables and
    the table on disk; reads are fresh enough in every interleaving, and the table on disk refines a map of rows.
  \<^item> \<open>Strads_Partition\<close> (include/common.hpp, ds/dshard.cpp): roles of machines and the division of tasks and data.
  \<^item> \<open>Strads_Correlation\<close> (ds/spmat.hpp, scheduler/getcorr.cpp): sparse columns; the merge computes the correlation coefficient.
    Every operation on doubles is rounded by a parameter, whose contract is the locale \<open>double_rounding\<close>, interpreted for rounding to 53 bits;
    the range of columns is given in which no cancellation happens.
  \<^item> \<open>Strads_Sampler\<close>, \<open>Strads_Sampler_Proofs\<close> (scheduler/scheduler.hpp, class \<open>wsamplerctx\<close>): weights, sampling and the interference check;
    the selection sort is a stable sort, the search finds the owners of the random points, the check is a greedy maximal choice.
  \<^item> \<open>Strads_Thread\<close> (scheduler/scheduler.hpp, scheduler.cpp): the queues of a scheduler thread (locale \<open>fifo_queue\<close>, interpreted for both)
    and its commands; each weight update is answered with one good phase.
  \<^item> \<open>Strads_Machine\<close> (scheduler/scheduler.cpp, coordinator/coordinator.cpp, src/common.cpp): messages between coordinator and scheduler
    machines; weights cut into chunks reach the threads they belong to.
  \<^item> \<open>Strads_Commands\<close> (include/common.hpp, class \<open>ppacketmgt\<close>; coordinator.cpp): commands and their acknowledgements, loading of shards;
    the read of an erased map entry, at the acknowledgement that completes a command, is the error \<open>Undefined\<close>.
  \<^item> \<open>Strads_Cycle\<close> (coordinator.cpp, \<open>coordinator_mach\<close>): the answer to a phase and the end of a round, with the exit after the
    last iteration and the flush and restart of the schedulers; a turn of thread, machine and coordinator outside the restart rounds leads to
    the next, or to the exit.
  \<^item> \<open>LDA_Doc\<close>, \<open>LDA_Workload\<close> (lda_doc.hpp, *_doc_loader.cpp, workload_manager.hpp): documents, their byte image and their division into
    partitions; the work units of a thread over a loader (locale \<open>doc_loader\<close>, interpreted for the loader in memory). The fuel of a work unit
    is the number of documents it samples, which is shown to be enough.
  \<^item> \<open>LDA_Sampler\<close>, \<open>LDA_Sampler_Proofs\<close>, \<open>LDA_Tables\<close> (fast_doc_sampler.cpp): the sampler; for every token there is one line of weights,
    those of Gibbs sampling, on which the dart decides the topic (in exact arithmetic), and its updates are the changes of the counts.
  \<^item> \<open>LDA_Engine\<close>, \<open>LDA_Stats\<close> (lda_engine.cpp, lda_stats.cpp): a worker thread, whose updates add up to its counts, and the likelihood with
    its tables of precomputed values.

  How the parts fit. \<open>client_no_update_lost\<close> moves an application's increments into the oplogs and the index,
  \<open>clock_delivers_updates\<close> from there into the servers' rows, \<open>row_requests_answered\<close> and \<open>received_row_complete\<close> bring
  a row back with everything the client has done to it (\<open>get_fetches_row\<close> runs one such exchange), and \<open>get_bounded_staleness\<close> hands it to a reader. Messages keep their contents by
  \<open>message_delivery\<close> and reach their receiver by \<open>bus_delivery\<close>. In Strads, \<open>start_roundtrip\<close> brings the threads their first weights,
  \<open>weight_update_phase\<close> says what a phase is, and \<open>scheduling_cycle\<close> that the cycle goes on. The topic
  model relies on the client through \<open>env_ok\<close> in \<open>LDA_Engine\<close>: the rows it reads contain its own updates, which is \<open>thread_reads_own_updates\<close>.

  Not modelled: creation of threads, statistics and timers (they do not act on the tables), the other applications under src/apps and
  src/strads/app, of the topic model the streaming of documents from disk and the preprocessing of text, and of Strads the set-up of sockets and MPI, the reading of data files, the workers, which only call application code,
  and the coordinator's progress reports and log files. Rounding of floating-point numbers is modelled in
  \<open>Strads_Correlation\<close> only: values of rows are elements of a group, doubles elsewhere in Strads and in the topic model are real numbers, and the
  sampler of Strads takes the correlation in exact arithmetic.
\<close>

section \<open>Properties\<close>

text \<open>
  C6. What a server pushes is what its clients apply. For every background thread of every client, the messages of
  \<open>CreateSendServerPushRowMsgs\<close>, of which exactly the last is marked, make \<open>ApplyServerPushedRow\<close> insert precisely the changed
  rows that the client has subscribed to and the thread is responsible for, each once, in the order of tables and rows and with
  the bytes the row serializes to; on the server exactly these rows are no longer dirty.
\<close>

theorem server_push_reaches_client:
  assumes "push_ok g junk s" "length (all_deliveries g (tables s)) \<le> fuel" "push_row_msg_data_size s \<le> be_fuel e"
  shows "\<exists>sent s'. CreateSendServerPushRowMsgs fuel g junk s = Inr (sent, s') \<and>
    (\<forall>bg \<in> set (push_bg_ids g). \<exists>pcs pc. filter (\<lambda>pc. pc_bg pc = bg) sent = pcs @ [pc] \<and> pc_last pc \<and> (\<forall>p \<in> set pcs. \<not> pc_last p) \<and>
       (\<forall>version c. foldM (\<lambda>c m. ApplyServerPushedRow e g version m c) c (map pc_data (pcs @ [pc])) =
          foldM (apply_pushed e g version) c (for_bg bg (all_deliveries g (tables s))))) \<and>
    map (\<lambda>(t, tab). (t, st_storage tab)) (tables s') = map (\<lambda>(t, tab). (t, map clean (st_storage tab))) (tables s)"
proof -
  obtain sent s' where p: "CreateSendServerPushRowMsgs fuel g junk s = Inr (sent, s')"
    "\<forall>bg \<in> set (push_bg_ids g). view_done (push_row_msg_data_size s) (for_bg bg (all_deliveries g (tables s))) (None, filter (\<lambda>pc. pc_bg pc = bg) sent)"
    "map (\<lambda>(t, tab). (t, st_storage tab)) (tables s') = map (\<lambda>(t, tab). (t, map clean (st_storage tab))) (tables s)"
    using push_complete [OF assms(1,2)] by blast
  have "\<exists>pcs pc. filter (\<lambda>pc. pc_bg pc = bg) sent = pcs @ [pc] \<and> pc_last pc \<and> (\<forall>p \<in> set pcs. \<not> pc_last p) \<and>
       (\<forall>version c. foldM (\<lambda>c m. ApplyServerPushedRow e g version m c) c (map pc_data (pcs @ [pc])) =
          foldM (apply_pushed e g version) c (for_bg bg (all_deliveries g (tables s))))" if "bg \<in> set (push_bg_ids g)" for bg
    using p(2) that carried_apply [OF _ assms(3)] by (fastforce simp: view_done_def)
  with p(1,3) show ?thesis by blast
qed

theorem server_push_reaches_client_witness:
  "\<exists>sent s' ms. CreateSendServerPushRowMsgs 3 demo_push_ctx (\<lambda>n. replicate n 0) (demo_push_server 28) = Inr (sent, s') \<and>
     ms = filter (\<lambda>pc. pc_bg pc = 100) sent \<and> pc_last (last ms) \<and>
     (foldM (\<lambda>c m. ApplyServerPushedRow (demo_env\<lparr>be_fuel := 28\<rparr>) demo_push_ctx 0 m c) demo_reply_state (map pc_data ms) =
      foldM (apply_pushed (demo_env\<lparr>be_fuel := 28\<rparr>) demo_push_ctx 0) demo_reply_state
        [(0, 3, row_Serialize (demo_push_row [(0, 7)] [True, False])), (0, 4, row_Serialize (demo_push_row [(1, 5)] [True, True]))])"
proof -
  have l: "length (all_deliveries demo_push_ctx (tables (demo_push_server 28))) \<le> 3" by (simp add: demo_push_server_def demo_deliveries)
  have f: "push_row_msg_data_size (demo_push_server 28) \<le> be_fuel (demo_env\<lparr>be_fuel := 28\<rparr>)" by (simp add: demo_push_server_def)
  have b: "100 \<in> set (push_bg_ids demo_push_ctx)" by code_simp
  have d: "for_bg 100 (all_deliveries demo_push_ctx (tables (demo_push_server 28))) =
    [(0, 3, row_Serialize (demo_push_row [(0, 7)] [True, False])), (0, 4, row_Serialize (demo_push_row [(1, 5)] [True, True]))]"
    by (simp add: demo_push_server_def demo_deliveries)
  show ?thesis using server_push_reaches_client [OF demo_push_ok l f] b unfolding d [symmetric] by fastforce
qed

end
